(* ===== verification/Prelude.thy ===== *)
theory Prelude
  imports Main "HOL-Library.AList"
begin

text \<open>
  Shared material of the development.

  \<^item> A JavaScript \<open>Map\<close> is an association list in insertion order: \<open>map_get\<close>, \<open>map_set\<close>
    (replaces in place, appends a new key at the end), \<open>map_delete\<close>, \<open>map_size\<close>, \<open>map_keys\<close>.
    The contract \<open>ordered_map\<close> collects the laws the components rely on.
  \<^item> \<open>invariant_machine\<close>: an invariant kept by every step holds in every reachable state.
  \<^item> \<open>transition_table\<close>: a machine given by a table of allowed successors with terminal states.
  \<^item> \<open>keyed_component\<close>: a component that keeps one record per key; operations on other keys do
    not matter for what is observed under a key.
\<close>

named_theorems js_simps "rewrite rules for the JavaScript library operations"

subsection \<open>JavaScript Map: insertion-ordered association lists\<close>

type_synonym ('k, 'v) js_map = "('k \<times> 'v) list"

definition map_get :: "('k, 'v) js_map \<Rightarrow> 'k \<Rightarrow> 'v option" where
  "map_get m k = map_of m k"

definition map_set :: "'k \<Rightarrow> 'v \<Rightarrow> ('k, 'v) js_map \<Rightarrow> ('k, 'v) js_map" where
  "map_set k v m = AList.update k v m"

definition map_delete :: "'k \<Rightarrow> ('k, 'v) js_map \<Rightarrow> ('k, 'v) js_map" where
  "map_delete k m = AList.delete k m"

definition map_keys :: "('k, 'v) js_map \<Rightarrow> 'k list" where
  "map_keys m = map fst m"

definition map_size :: "('k, 'v) js_map \<Rightarrow> nat" where
  "map_size m = length m"

definition map_wf :: "('k, 'v) js_map \<Rightarrow> bool" where
  "map_wf m = distinct (map fst m)"

lemma map_get_empty [simp]: "map_get [] k = None"
  by (simp add: map_get_def)

lemma map_get_set: "map_get (map_set k v m) k' = (if k' = k then Some v else map_get m k')"
  by (simp add: map_get_def map_set_def update_conv')

lemma map_get_set_same [simp]: "map_get (map_set k v m) k = Some v"
  by (simp add: map_get_set)

lemma map_get_set_other [simp]: "k' \<noteq> k \<Longrightarrow> map_get (map_set k v m) k' = map_get m k'"
  by (simp add: map_get_set)

lemma map_get_delete: "map_get (map_delete k m) k' = (if k' = k then None else map_get m k')"
  by (simp add: map_get_def map_delete_def delete_conv')

lemma map_get_delete_same [simp]: "map_get (map_delete k m) k = None"
  by (simp add: map_get_delete)

lemma map_get_delete_other [simp]: "k' \<noteq> k \<Longrightarrow> map_get (map_delete k m) k' = map_get m k'"
  by (simp add: map_get_delete)

lemma map_wf_empty [simp]: "map_wf []"
  by (simp add: map_wf_def)

lemma map_wf_set [simp]: "map_wf m \<Longrightarrow> map_wf (map_set k v m)"
  by (simp add: map_wf_def map_set_def distinct_update)

lemma map_wf_delete [simp]: "map_wf m \<Longrightarrow> map_wf (map_delete k m)"
  by (simp add: map_wf_def map_delete_def distinct_delete)

lemma map_keys_iff: "k \<in> set (map_keys m) \<longleftrightarrow> map_get m k \<noteq> None"
  by (auto simp: map_keys_def map_get_def map_of_eq_None_iff)

lemma map_size_set:
  "map_size (map_set k v m) = (if map_get m k = None then Suc (map_size m) else map_size m)"
  by (induction m) (auto simp: map_size_def map_set_def map_get_def)

lemma map_size_delete:
  "map_wf m \<Longrightarrow> map_size (map_delete k m) = (if map_get m k = None then map_size m else map_size m - 1)"
proof (induction m)
  case Nil
  then show ?case by (simp add: map_size_def map_delete_def)
next
  case (Cons p m)
  obtain a b where p: "p = (a, b)" by (cases p)
  from Cons.prems p have wf: "map_wf m" and nin: "a \<notin> fst ` set m"
    by (auto simp: map_wf_def)
  show ?case
  proof (cases "a = k")
    case True
    with nin have "AList.delete k m = m" by (simp add: delete_idem)
    with True p show ?thesis by (simp add: map_size_def map_delete_def map_get_def)
  next
    case False
    with Cons.IH [OF wf] p show ?thesis
      by (cases m) (auto simp: map_size_def map_delete_def map_get_def map_of_eq_None_iff
          split: if_splits)
  qed
qed

lemma map_keys_set:
  "map_keys (map_set k v m) = (if map_get m k = None then map_keys m @ [k] else map_keys m)"
  by (induction m) (auto simp: map_keys_def map_set_def map_get_def)

lemma map_keys_delete: "map_keys (map_delete k m) = filter (\<lambda>x. x \<noteq> k) (map_keys m)"
  by (induction m) (auto simp: map_keys_def map_delete_def)

lemma map_keys_empty [simp]: "map_keys [] = []"
  by (simp add: map_keys_def)

lemma map_wf_keys: "map_wf m = distinct (map_keys m)"
  by (simp add: map_wf_def map_keys_def)

lemma map_size_keys: "map_size m = length (map_keys m)"
  by (simp add: map_size_def map_keys_def)

lemma map_set_not_Nil [simp]: "map_set k v m \<noteq> []"
  by (cases m) (auto simp: map_set_def)

lemma foldl_invariant: "P m \<Longrightarrow> (\<And>m x. P m \<Longrightarrow> P (f m x)) \<Longrightarrow> P (foldl f m xs)"
  by (induction xs arbitrary: m) auto

text \<open>The laws of an insertion-ordered map that the components use, as a contract.\<close>

locale ordered_map =
  fixes empty :: 'm
    and lookup :: "'m \<Rightarrow> 'k \<Rightarrow> 'v option"
    and insert :: "'k \<Rightarrow> 'v \<Rightarrow> 'm \<Rightarrow> 'm"
    and remove :: "'k \<Rightarrow> 'm \<Rightarrow> 'm"
    and keys :: "'m \<Rightarrow> 'k list"
    and size_of :: "'m \<Rightarrow> nat"
    and invar :: "'m \<Rightarrow> bool"
  assumes lookup_empty: "lookup empty k = None"
    and lookup_insert: "lookup (insert k v m) k' = (if k' = k then Some v else lookup m k')"
    and lookup_remove: "lookup (remove k m) k' = (if k' = k then None else lookup m k')"
    and keys_lookup: "k \<in> set (keys m) \<longleftrightarrow> lookup m k \<noteq> None"
    and keys_insert: "keys (insert k v m) = (if lookup m k = None then keys m @ [k] else keys m)"
    and size_insert: "size_of (insert k v m) = (if lookup m k = None then Suc (size_of m) else size_of m)"
    and size_remove: "invar m \<Longrightarrow>
      size_of (remove k m) = (if lookup m k = None then size_of m else size_of m - 1)"
    and invar_empty: "invar empty"
    and invar_insert: "invar m \<Longrightarrow> invar (insert k v m)"
    and invar_remove: "invar m \<Longrightarrow> invar (remove k m)"
begin

lemma insert_lookup_id: "lookup m k = Some v \<Longrightarrow> lookup (insert k v m) = lookup m"
  by (rule ext) (simp add: lookup_insert)

lemma remove_insert: "lookup (remove k (insert k v m)) = lookup (remove k m)"
  by (rule ext) (simp add: lookup_remove lookup_insert)

lemma size_insert_bound: "size_of (insert k v m) \<le> Suc (size_of m)"
  by (simp add: size_insert)

lemma evict_then_insert_bound:
  assumes "invar m" and "lookup m old \<noteq> None" and "0 < size_of m"
  shows "size_of (insert k v (remove old m)) \<le> size_of m"
proof -
  from assms have "size_of (remove old m) = size_of m - 1" by (auto simp: size_remove)
  with size_insert_bound [of k v "remove old m"] assms(3) show ?thesis by linarith
qed

end

interpretation jm: ordered_map "[]" map_get map_set map_delete map_keys map_size map_wf
  by unfold_locales
    (simp_all add: map_get_set map_get_delete map_keys_iff map_keys_set map_size_set map_size_delete)

subsection \<open>Invariants of step relations\<close>

inductive steps_from :: "('s \<Rightarrow> 's \<Rightarrow> bool) \<Rightarrow> 's \<Rightarrow> 's \<Rightarrow> bool" for r where
  steps_refl [intro]: "steps_from r s s"
| steps_step: "steps_from r s t \<Longrightarrow> r t u \<Longrightarrow> steps_from r s u"

lemma steps_from_one: "r s t \<Longrightarrow> steps_from r s t"
  by (rule steps_step [where t = s]) auto

lemma steps_from_trans:
  assumes "steps_from r s t" and "steps_from r t u"
  shows "steps_from r s u"
  using assms(2,1) by (induction rule: steps_from.induct) (auto intro: steps_step)

locale invariant_machine =
  fixes initial :: "'s \<Rightarrow> bool"
    and step :: "'s \<Rightarrow> 's \<Rightarrow> bool"
    and inv :: "'s \<Rightarrow> bool"
  assumes inv_initial: "initial s \<Longrightarrow> inv s"
    and inv_step: "inv s \<Longrightarrow> step s t \<Longrightarrow> inv t"
begin

lemma inv_steps:
  assumes "steps_from step s t" and "inv s"
  shows "inv t"
  using assms by (induction rule: steps_from.induct) (auto dest: inv_step)

lemma inv_reachable: "initial s \<Longrightarrow> steps_from step s t \<Longrightarrow> inv t"
  by (blast intro: inv_steps inv_initial)

end

subsection \<open>Machines given by a table of allowed successors\<close>

locale transition_table =
  fixes allowed :: "'s \<Rightarrow> 's list"
    and terminal :: "'s \<Rightarrow> bool"
  assumes terminal_iff: "terminal s \<longleftrightarrow> allowed s = []"
begin

definition move :: "'s \<Rightarrow> 's \<Rightarrow> bool" where
  "move s t \<longleftrightarrow> t \<in> set (allowed s)"

lemma terminal_absorbing:
  assumes "steps_from move s t" and "terminal s"
  shows "t = s"
  using assms by (induction rule: steps_from.induct) (auto simp: move_def terminal_iff)

lemma not_terminal_progress: "\<not> terminal s \<Longrightarrow> \<exists>t. move s t"
  by (cases "allowed s") (auto simp: terminal_iff move_def)

text \<open>A rank that every move decreases bounds the length of every run.\<close>

lemma ranked_termination:
  assumes rank: "\<And>s t. move s t \<Longrightarrow> rank t < (rank s :: nat)"
  shows "wfP (\<lambda>t s. move s t)"
proof (rule wfp_if_convertible_to_nat [where f = rank])
  show "\<And>x y. move y x \<Longrightarrow> rank x < rank y" by (rule rank)
qed

end

subsection \<open>Components that keep one record per key\<close>

locale keyed_component =
  fixes apply_op :: "'k \<Rightarrow> 'op \<Rightarrow> 's \<Rightarrow> 's"
    and observe :: "'s \<Rightarrow> 'k \<Rightarrow> 'r"
  assumes frame: "k' \<noteq> k \<Longrightarrow> observe (apply_op k op s) k' = observe s k'"
    and local: "observe s k = observe s' k \<Longrightarrow>
      observe (apply_op k op s) k = observe (apply_op k op s') k"
begin

fun run :: "('k \<times> 'op) list \<Rightarrow> 's \<Rightarrow> 's" where
  "run [] s = s"
| "run ((k, op) # ops) s = run ops (apply_op k op s)"

lemma run_cong: "observe s k = observe s' k \<Longrightarrow> observe (run ops s) k = observe (run ops s') k"
proof (induction ops arbitrary: s s')
  case Nil
  then show ?case by simp
next
  case (Cons p ops)
  obtain k1 op where p: "p = (k1, op)" by (cases p)
  have "observe (apply_op k1 op s) k = observe (apply_op k1 op s') k"
  proof (cases "k = k1")
    case True
    with Cons.prems local [of s k1 s' op] show ?thesis by simp
  next
    case False
    with Cons.prems show ?thesis by (simp add: frame)
  qed
  from Cons.IH [OF this] show ?case by (simp add: p)
qed

text \<open>What is observed under a key depends only on the operations on that key.\<close>

lemma run_projection: "observe (run ops s) k = observe (run (filter (\<lambda>p. fst p = k) ops) s) k"
proof (induction ops arbitrary: s)
  case Nil
  show ?case by simp
next
  case (Cons p ops)
  obtain k1 op where p: "p = (k1, op)" by (cases p)
  show ?case
  proof (cases "k1 = k")
    case True
    with Cons.IH p show ?thesis by simp
  next
    case False
    then have "observe (apply_op k1 op s) k = observe s k" by (simp add: frame)
    then have "observe (run (filter (\<lambda>p. fst p = k) ops) (apply_op k1 op s)) k =
        observe (run (filter (\<lambda>p. fst p = k) ops) s) k"
      by (rule run_cong)
    with Cons.IH [of "apply_op k1 op s"] False p show ?thesis by simp
  qed
qed

end

end
