(* ===== verification/Js_Number.thy ===== *)
theory Js_Number
  imports Complex_Main Prelude
begin

text \<open>
  The numbers of JavaScript: IEEE 754 binary64 values as exact rationals, with rounding to
  nearest, ties to even, written out (\<open>rnd64\<close>), overflow to the infinities and NaN. The two
  zeros are identified: no modelled code divides by a computed value or inspects the sign of a
  zero. The library functions the sources call (\<open>Math.floor\<close>, \<open>Math.max\<close>, \<open>toFixed\<close>
  followed by \<open>parseFloat\<close>, ...) are defined on this type.

  The lemmas give what proofs about monetary code need: rounding is monotone, odd, the identity
  on representable values (so integers up to \<open>2 ^ 53\<close> are exact), and off by at most half a unit
  in the last place.
\<close>

subsection \<open>Rounding to nearest, ties to even\<close>

definition round_half_even :: "rat \<Rightarrow> int" where
  "round_half_even x =
     (let f = \<lfloor>x\<rfloor>; d = x - of_int f in
      if d < 1 / 2 then f else if d > 1 / 2 then f + 1 else if even f then f else f + 1)"

text \<open>The exponent of the leading binary digit: \<open>2 powi ilog2 x \<le> x < 2 powi (ilog2 x + 1)\<close>.\<close>

function ilog2 :: "rat \<Rightarrow> int" where
  "ilog2 x = (if x \<le> 0 then 0 else if x < 1 then ilog2 (2 * x) - 1
              else if 2 \<le> x then ilog2 (x / 2) + 1 else 0)"
  by pat_completeness auto
termination
proof (relation "measure (\<lambda>x::rat. if x < 1 then nat \<lceil>1 / x\<rceil> else nat \<lfloor>x\<rfloor>)", goal_cases)
  case 1
  show ?case by simp
next
  case (2 x)
  have ge2: "2 \<le> \<lceil>1 / x\<rceil>" using 2 by (simp add: less_ceiling_iff flip: zless_iff_Suc_zadd)
  show ?case
  proof (cases "2 * x < 1")
    case True
    have "1 / x > 2" using 2 True by (simp add: field_simps)
    then have "\<lceil>1 / (2 * x)\<rceil> < \<lceil>1 / x\<rceil>" by linarith
    with ge2 2 True show ?thesis by simp
  next
    case False
    then have "\<lfloor>2 * x\<rfloor> = 1" using 2 by linarith
    with ge2 2 False show ?thesis by simp
  qed
next
  case (3 x)
  then have "\<lfloor>x / 2\<rfloor> < \<lfloor>x\<rfloor>" and "0 < \<lfloor>x\<rfloor>" by linarith+
  with 3 show ?case by simp
qed

declare ilog2.simps [simp del]

lemma ilog2_bounds: "0 < x \<Longrightarrow> 2 powi (ilog2 x) \<le> x \<and> x < 2 powi (ilog2 x + 1)"
proof (induction x rule: ilog2.induct)
  case (1 x)
  consider "x < 1" | "2 \<le> x" | "1 \<le> x" "x < 2" by linarith
  then show ?case
  proof cases
    case 1
    with "1.prems" have eq: "ilog2 x = ilog2 (2 * x) - 1" by (simp add: ilog2.simps [of x])
    from "1.IH"(1) "1.prems" 1 have "2 powi (ilog2 (2 * x)) \<le> 2 * x \<and> 2 * x < 2 powi (ilog2 (2 * x) + 1)"
      by simp
    then show ?thesis by (simp add: eq power_int_add power_int_diff)
  next
    case 2
    with "1.prems" have eq: "ilog2 x = ilog2 (x / 2) + 1" by (simp add: ilog2.simps [of x])
    from "1.IH"(2) "1.prems" 2 have "2 powi (ilog2 (x / 2)) \<le> x / 2 \<and> x / 2 < 2 powi (ilog2 (x / 2) + 1)"
      by simp
    then show ?thesis by (simp add: eq power_int_add)
  next
    case 3
    with "1.prems" have "ilog2 x = 0" by (simp add: ilog2.simps [of x])
    with 3 show ?thesis by simp
  qed
qed

lemma powi_2_pos [simp]: "0 < (2 :: rat) powi k"
  by simp

lemma powi_2_mono: "j \<le> k \<Longrightarrow> (2 :: rat) powi j \<le> 2 powi k"
  by (simp add: power_int_increasing)

lemma powi_2_less_cancel: "(2 :: rat) powi j < 2 powi k \<Longrightarrow> j < k"
  using powi_2_mono [of k j] by (meson linorder_not_le)

lemma ilog2_less: "0 < x \<Longrightarrow> x < 2 powi k \<Longrightarrow> ilog2 x < k"
  using ilog2_bounds [of x] by (meson le_less_trans powi_2_less_cancel)

lemma ilog2_ge: "2 powi k \<le> x \<Longrightarrow> k \<le> ilog2 x"
proof -
  assume le: "2 powi k \<le> x"
  then have "0 < x" using powi_2_pos [of k] by linarith
  with ilog2_bounds [of x] le have "(2::rat) powi k < 2 powi (ilog2 x + 1)" by linarith
  then show ?thesis using powi_2_less_cancel by fastforce
qed

lemma ilog2_mono: "0 < x \<Longrightarrow> x \<le> y \<Longrightarrow> ilog2 x \<le> ilog2 y"
  using ilog2_bounds [of x] ilog2_ge [of "ilog2 x" y] by linarith

lemma round_half_even_of_int [simp]: "round_half_even (of_int n) = n"
  by (simp add: round_half_even_def)

lemma round_half_even_error: "\<bar>of_int (round_half_even x) - x\<bar> \<le> 1 / 2"
proof -
  define f where "f = \<lfloor>x\<rfloor>"
  have "of_int f \<le> x" and "x < of_int f + 1" unfolding f_def by linarith+
  then show ?thesis
    unfolding round_half_even_def Let_def abs_le_iff f_def [symmetric] by auto
qed

lemma round_half_even_mono: "x \<le> y \<Longrightarrow> round_half_even x \<le> round_half_even y"
proof -
  assume le: "x \<le> y"
  show ?thesis
  proof (cases "\<lfloor>x\<rfloor> = \<lfloor>y\<rfloor>")
    case True
    with le show ?thesis unfolding round_half_even_def Let_def by auto
  next
    case False
    with le have "\<lfloor>x\<rfloor> + 1 \<le> \<lfloor>y\<rfloor>" by (simp add: floor_mono order.not_eq_order_implies_strict zless_imp_add1_zle)
    then show ?thesis unfolding round_half_even_def Let_def by auto
  qed
qed

lemma round_half_even_minus: "round_half_even (- x) = - round_half_even x"
proof (cases "of_int \<lfloor>x\<rfloor> = x")
  case True
  then obtain n where "x = of_int n" by metis
  then show ?thesis using round_half_even_of_int [of n] round_half_even_of_int [of "- n"] by simp
next
  case False
  then have fl: "\<lfloor>- x\<rfloor> = - \<lfloor>x\<rfloor> - 1" by linarith
  show ?thesis unfolding round_half_even_def Let_def fl by auto
qed

subsection \<open>Rounding to binary64\<close>

text \<open>The exponent of the unit in the last place: 53 significant bits, subnormals below \<open>2 powi -1022\<close>.\<close>

definition exp64 :: "rat \<Rightarrow> int" where
  "exp64 x = (if x = 0 then -1074 else max (-1074) (ilog2 \<bar>x\<bar> - 52))"

definition rnd64 :: "rat \<Rightarrow> rat" where
  "rnd64 x = of_int (round_half_even (x / 2 powi exp64 x)) * 2 powi exp64 x"

definition representable :: "rat \<Rightarrow> bool" where
  "representable x \<longleftrightarrow> rnd64 x = x"

lemma exp64_ge: "-1074 \<le> exp64 x"
  by (simp add: exp64_def)

lemma exp64_minus [simp]: "exp64 (- x) = exp64 x"
  by (simp add: exp64_def)

lemma rnd64_0 [simp]: "rnd64 0 = 0"
  using round_half_even_of_int [of 0] by (simp add: rnd64_def)

lemma rnd64_minus: "rnd64 (- x) = - rnd64 x"
  by (simp add: rnd64_def round_half_even_minus)

lemma rnd64_error: "\<bar>rnd64 x - x\<bar> \<le> 2 powi exp64 x / 2"
proof -
  let ?p = "(2::rat) powi exp64 x"
  have eq: "rnd64 x - x = (of_int (round_half_even (x / ?p)) - x / ?p) * ?p"
    by (simp add: rnd64_def left_diff_distrib)
  have "\<bar>rnd64 x - x\<bar> = \<bar>of_int (round_half_even (x / ?p)) - x / ?p\<bar> * ?p"
    unfolding eq by (simp add: abs_mult)
  also have "\<dots> \<le> 1 / 2 * ?p"
    by (rule mult_right_mono [OF round_half_even_error]) (simp add: less_imp_le)
  finally show ?thesis by simp
qed

lemma exp64_le:
  assumes "\<bar>x\<bar> < 2 powi k" and "-1021 \<le> k"
  shows "exp64 x \<le> k - 53"
proof (cases "x = 0")
  case True
  with assms show ?thesis by (simp add: exp64_def)
next
  case False
  then have "ilog2 \<bar>x\<bar> < k" using assms(1) by (intro ilog2_less) auto
  with assms(2) False show ?thesis by (simp add: exp64_def)
qed

lemma rnd64_error_bound:
  assumes "\<bar>x\<bar> < 2 powi k" and "-1021 \<le> k"
  shows "\<bar>rnd64 x - x\<bar> \<le> 2 powi (k - 54)"
proof -
  have "(2::rat) powi exp64 x \<le> 2 powi (k - 53)"
    by (rule powi_2_mono [OF exp64_le [OF assms]])
  also have "(2::rat) powi (k - 53) = 2 * 2 powi (k - 54)"
    using power_int_add [of "2::rat" 1 "k - 54"] by simp
  finally show ?thesis using rnd64_error [of x] by linarith
qed

text \<open>Every multiple of the unit in the last place is kept.\<close>

lemma rnd64_multiple:
  assumes "x = of_int m * 2 powi j" and "exp64 x \<le> j"
  shows "rnd64 x = x"
proof -
  obtain n where n: "j = exp64 x + int n" using assms(2) zle_iff_zadd by blast
  let ?p = "(2::rat) powi exp64 x"
  have "x = of_int m * (?p * 2 ^ n)"
    using assms(1) by (simp add: n power_int_add)
  then have eq: "x / ?p = of_int (m * 2 ^ n)"
    by (simp add: field_simps del: mult_eq_0_iff)
  have "rnd64 x = of_int (m * 2 ^ n) * ?p"
    unfolding rnd64_def eq round_half_even_of_int ..
  also have "\<dots> = x" unfolding eq [symmetric] by simp
  finally show ?thesis .
qed

lemma rnd64_scaled_int:
  assumes "\<bar>m\<bar> \<le> 2 ^ 53" and "-1074 \<le> j"
  shows "rnd64 (of_int m * 2 powi j) = of_int m * 2 powi j"
proof (cases "\<bar>m\<bar> = 2 ^ 53")
  case False
  with assms(1) have m: "\<bar>m\<bar> < 2 ^ 53" by simp
  have "(of_int \<bar>m\<bar> :: rat) < of_int (2 ^ 53)" using m by (simp only: of_int_less_iff)
  then have "\<bar>of_int m * 2 powi j\<bar> < (2::rat) powi (j + 53)"
    by (simp add: abs_mult power_int_add abs_of_pos)
  from exp64_le [OF this] assms(2) have "exp64 (of_int m * 2 powi j) \<le> j" by simp
  then show ?thesis by (rule rnd64_multiple [OF refl])
next
  case True
  then have "(of_int \<bar>m\<bar> :: rat) = of_int (2 ^ 53)" by (simp only:)
  then have "\<bar>of_int m * 2 powi j\<bar> < (2::rat) powi (j + 54)"
    by (simp add: abs_mult power_int_add abs_of_pos)
  from exp64_le [OF this] assms(2) have e: "exp64 (of_int m * 2 powi j) \<le> j + 1" by simp
  from True obtain m' where "m = 2 * m'" by (cases "0 \<le> m") (auto intro: that [of "2 ^ 52"] that [of "- (2 ^ 52)"])
  then have "of_int m * 2 powi j = (of_int m' * 2 powi (j + 1) :: rat)" by (simp add: power_int_add)
  from rnd64_multiple [OF this e] show ?thesis .
qed

lemma rnd64_of_int: "\<bar>m\<bar> \<le> 2 ^ 53 \<Longrightarrow> rnd64 (of_int m) = of_int m"
  using rnd64_scaled_int [of m 0] by simp

lemma rnd64_pow2: "-1074 \<le> k \<Longrightarrow> rnd64 (2 powi k) = 2 powi k"
  using rnd64_scaled_int [of 1 k] by simp

lemma powi_2_quotient: "j \<le> k \<Longrightarrow> \<exists>n. 2 powi k / 2 powi j = (of_int n :: rat)"
proof -
  assume "j \<le> k"
  then obtain n where n: "k = j + int n" using zle_iff_zadd by blast
  have "(2::rat) powi k = 2 powi j * of_int (2 ^ n)"
    unfolding n using power_int_add [of "2::rat" j "int n"] by simp
  then have "2 powi k / 2 powi j = (of_int (2 ^ n) :: rat)" by simp
  then show ?thesis by blast
qed

lemma rnd64_mono_pos:
  assumes "0 < x" and "x \<le> y"
  shows "rnd64 x \<le> rnd64 y"
proof (cases "exp64 x = exp64 y")
  case True
  have "x / 2 powi exp64 y \<le> y / 2 powi exp64 y"
    using assms(2) by (rule divide_right_mono) (simp add: less_imp_le)
  then have "round_half_even (x / 2 powi exp64 y) \<le> round_half_even (y / 2 powi exp64 y)"
    by (rule round_half_even_mono)
  then show ?thesis
    unfolding rnd64_def True by (intro mult_right_mono) (simp_all add: less_imp_le)
next
  case False
  from assms have lg: "ilog2 x \<le> ilog2 y" by (rule ilog2_mono)
  from assms False lg have "ilog2 x < ilog2 y" and e: "exp64 x < exp64 y" and "exp64 y = ilog2 y - 52"
    by (auto simp: exp64_def split: if_splits)
  define k where "k = ilog2 y"
  have ek: "exp64 y \<le> k" "exp64 x \<le> k" using e exp64_ge [of y] \<open>exp64 y = ilog2 y - 52\<close> by (auto simp: k_def)
  have "x < 2 powi (ilog2 x + 1)" using ilog2_bounds assms(1) by blast
  also have "\<dots> \<le> 2 powi k" using \<open>ilog2 x < ilog2 y\<close> by (intro powi_2_mono) (simp add: k_def)
  finally have xk: "x \<le> 2 powi k" by simp
  have yk: "2 powi k \<le> y" using ilog2_bounds [of y] assms by (simp add: k_def)
  have "rnd64 x \<le> 2 powi k"
  proof -
    obtain n where n: "2 powi k / 2 powi exp64 x = (of_int n :: rat)" using powi_2_quotient ek by blast
    have "round_half_even (x / 2 powi exp64 x) \<le> round_half_even (2 powi k / 2 powi exp64 x)"
      using xk by (intro round_half_even_mono divide_right_mono) (simp_all add: less_imp_le)
    then have "of_int (round_half_even (x / 2 powi exp64 x)) \<le> (2 powi k / 2 powi exp64 x :: rat)"
      by (simp add: n)
    then show ?thesis by (simp add: rnd64_def pos_le_divide_eq)
  qed
  moreover have "2 powi k \<le> rnd64 y"
  proof -
    obtain n where n: "2 powi k / 2 powi exp64 y = (of_int n :: rat)" using powi_2_quotient ek by blast
    have "round_half_even (2 powi k / 2 powi exp64 y) \<le> round_half_even (y / 2 powi exp64 y)"
      using yk by (intro round_half_even_mono divide_right_mono) (simp_all add: less_imp_le)
    then have "(2 powi k / 2 powi exp64 y :: rat) \<le> of_int (round_half_even (y / 2 powi exp64 y))"
      by (simp add: n)
    then show ?thesis by (simp add: rnd64_def pos_divide_le_eq)
  qed
  ultimately show ?thesis by linarith
qed

lemma rnd64_nonneg: "0 \<le> x \<Longrightarrow> 0 \<le> rnd64 x"
proof -
  assume "0 \<le> x"
  then have "0 \<le> round_half_even (x / 2 powi exp64 x)"
    using round_half_even_mono [of "of_int 0" "x / 2 powi exp64 x"] round_half_even_of_int [of 0]
    by simp
  then show ?thesis by (simp add: rnd64_def)
qed

lemma rnd64_mono: "x \<le> y \<Longrightarrow> rnd64 x \<le> rnd64 y"
proof -
  assume le: "x \<le> y"
  consider "0 < x" | "x \<le> 0" "0 \<le> y" | "y < 0" by linarith
  then show ?thesis
  proof cases
    case 1
    then show ?thesis using le by (rule rnd64_mono_pos)
  next
    case 2
    then have "rnd64 x \<le> 0" using rnd64_nonneg [of "- x"] by (simp add: rnd64_minus)
    with 2 rnd64_nonneg [of y] show ?thesis by linarith
  next
    case 3
    with le rnd64_mono_pos [of "- y" "- x"] show ?thesis by (simp add: rnd64_minus)
  qed
qed

lemma representable_0 [simp]: "representable 0"
  by (simp add: representable_def)

lemma representable_of_int: "\<bar>m\<bar> \<le> 2 ^ 53 \<Longrightarrow> representable (of_int m)"
  by (simp add: representable_def rnd64_of_int)

lemma representable_rnd64: "representable (rnd64 x)"
proof -
  let ?e = "exp64 x" and ?m = "round_half_even (x / 2 powi exp64 x)"
  have "\<bar>x\<bar> \<le> 2 powi (?e + 53)"
  proof (cases "x = 0")
    case False
    then have "\<bar>x\<bar> < 2 powi (ilog2 \<bar>x\<bar> + 1)" using ilog2_bounds [of "\<bar>x\<bar>"] by simp
    also have "\<dots> \<le> 2 powi (?e + 53)" using False by (intro powi_2_mono) (simp add: exp64_def)
    finally show ?thesis by simp
  qed simp
  also have "(2::rat) powi (?e + 53) = 2 powi ?e * 2 ^ 53" by (simp add: power_int_add)
  finally have le: "\<bar>x / 2 powi ?e\<bar> \<le> of_int (2 ^ 53)" by (simp add: abs_divide divide_le_eq mult.commute)
  then have "x / 2 powi ?e \<le> of_int (2 ^ 53)" and "of_int (- (2 ^ 53)) \<le> x / 2 powi ?e"
    unfolding abs_le_iff of_int_minus by linarith+
  from this [THEN round_half_even_mono] have "\<bar>?m\<bar> \<le> 2 ^ 53"
    unfolding round_half_even_of_int by linarith
  from rnd64_scaled_int [OF this exp64_ge] show ?thesis
    by (simp add: representable_def rnd64_def [of x])
qed

lemma rnd64_le_representable: "representable y \<Longrightarrow> x \<le> y \<Longrightarrow> rnd64 x \<le> y"
  using rnd64_mono [of x y] by (simp add: representable_def)

lemma rnd64_ge_representable: "representable y \<Longrightarrow> y \<le> x \<Longrightarrow> y \<le> rnd64 x"
  using rnd64_mono [of y x] by (simp add: representable_def)

subsection \<open>Values and operators\<close>

datatype js_num = NaN | PosInf | NegInf | Fin rat

text \<open>The result of an operation whose exact value is \<open>x\<close>.\<close>

definition overflow64 :: rat where
  "overflow64 = 2 ^ 1024"

definition of_exact :: "rat \<Rightarrow> js_num" where
  "of_exact x =
     (let r = rnd64 x in
      if r \<ge> overflow64 then PosInf else if r \<le> - overflow64 then NegInf else Fin r)"

text \<open>A finite value the program can hold.\<close>

definition wf_num :: "js_num \<Rightarrow> bool" where
  "wf_num v = (case v of Fin x \<Rightarrow> representable x \<and> \<bar>x\<bar> < overflow64 | _ \<Rightarrow> True)"

fun jneg :: "js_num \<Rightarrow> js_num" where
  "jneg NaN = NaN"
| "jneg PosInf = NegInf"
| "jneg NegInf = PosInf"
| "jneg (Fin x) = Fin (- x)"

fun jadd :: "js_num \<Rightarrow> js_num \<Rightarrow> js_num" where
  "jadd (Fin x) (Fin y) = of_exact (x + y)"
| "jadd NaN y = NaN"
| "jadd x NaN = NaN"
| "jadd PosInf NegInf = NaN"
| "jadd NegInf PosInf = NaN"
| "jadd PosInf y = PosInf"
| "jadd NegInf y = NegInf"
| "jadd x PosInf = PosInf"
| "jadd x NegInf = NegInf"

definition jsub :: "js_num \<Rightarrow> js_num \<Rightarrow> js_num" where
  "jsub x y = jadd x (jneg y)"

fun jsign :: "js_num \<Rightarrow> int" where
  "jsign NaN = 0"
| "jsign PosInf = 1"
| "jsign NegInf = -1"
| "jsign (Fin x) = (if x > 0 then 1 else if x < 0 then -1 else 0)"

definition signed_inf :: "int \<Rightarrow> js_num" where
  "signed_inf s = (if s > 0 then PosInf else if s < 0 then NegInf else NaN)"

fun jmul :: "js_num \<Rightarrow> js_num \<Rightarrow> js_num" where
  "jmul (Fin x) (Fin y) = of_exact (x * y)"
| "jmul x y = (if x = NaN \<or> y = NaN then NaN else signed_inf (jsign x * jsign y))"

fun jdiv :: "js_num \<Rightarrow> js_num \<Rightarrow> js_num" where
  "jdiv (Fin x) (Fin y) = (if y = 0 then signed_inf (jsign (Fin x)) else of_exact (x / y))"
| "jdiv (Fin x) y = (if y = NaN then NaN else Fin 0)"
| "jdiv x (Fin y) = (if x = NaN then NaN
     else signed_inf (jsign x * (if y < 0 then -1 else 1)))"
| "jdiv x y = NaN"

text \<open>Comparisons are false whenever a NaN takes part.\<close>

fun jlt :: "js_num \<Rightarrow> js_num \<Rightarrow> bool" where
  "jlt (Fin x) (Fin y) = (x < y)"
| "jlt NaN y = False"
| "jlt x NaN = False"
| "jlt x NegInf = False"
| "jlt NegInf y = True"
| "jlt PosInf y = False"
| "jlt x PosInf = True"

fun jle :: "js_num \<Rightarrow> js_num \<Rightarrow> bool" where
  "jle (Fin x) (Fin y) = (x \<le> y)"
| "jle NaN y = False"
| "jle x NaN = False"
| "jle NegInf y = True"
| "jle x PosInf = True"
| "jle x y = False"

abbreviation jgt :: "js_num \<Rightarrow> js_num \<Rightarrow> bool" where
  "jgt x y \<equiv> jlt y x"

abbreviation jge :: "js_num \<Rightarrow> js_num \<Rightarrow> bool" where
  "jge x y \<equiv> jle y x"

definition jeq :: "js_num \<Rightarrow> js_num \<Rightarrow> bool" where
  "jeq x y = (x \<noteq> NaN \<and> x = y)"

fun isFinite :: "js_num \<Rightarrow> bool" where
  "isFinite (Fin x) = True"
| "isFinite v = False"

subsection \<open>Results of operations\<close>

lemma overflow64_pos [simp]: "0 < overflow64"
  by (simp add: overflow64_def)

lemma rnd64_abs_le: "\<bar>x\<bar> \<le> 2 powi k \<Longrightarrow> -1074 \<le> k \<Longrightarrow> \<bar>rnd64 x\<bar> \<le> 2 powi k"
  using rnd64_mono [of x "2 powi k"] rnd64_mono [of "- (2 powi k)" x] rnd64_pow2 [of k]
  by (auto simp: rnd64_minus abs_le_iff)

lemma powi_less_overflow64: "k < 1024 \<Longrightarrow> 2 powi k < overflow64"
proof -
  assume "k < 1024"
  then have "(2::rat) powi k \<le> 2 powi 1023" by (intro powi_2_mono) simp
  also have "(2::rat) powi 1023 < 2 powi 1024" by (rule power_int_strict_increasing) simp_all
  also have "(2::rat) powi 1024 = overflow64" unfolding overflow64_def by (rule power_int_numeral)
  finally show ?thesis .
qed

lemma of_exact_Fin:
  assumes "\<bar>x\<bar> \<le> 2 powi k" and "-1074 \<le> k" and "k < 1024"
  shows "of_exact x = Fin (rnd64 x)"
  using rnd64_abs_le [OF assms(1,2)] powi_less_overflow64 [OF assms(3)]
  by (simp add: of_exact_def Let_def abs_le_iff)

lemma of_exact_int: "\<bar>n\<bar> \<le> 2 ^ 53 \<Longrightarrow> of_exact (of_int n) = Fin (of_int n)"
proof -
  assume le: "\<bar>n\<bar> \<le> 2 ^ 53"
  then have "\<bar>of_int n\<bar> \<le> (2::rat) powi 53"
    by (metis of_int_abs of_int_le_iff of_int_numeral of_int_power power_int_numeral)
  from of_exact_Fin [OF this] rnd64_of_int [OF le] show ?thesis by simp
qed

lemma of_exact_mono: "x \<le> y \<Longrightarrow> jle (of_exact x) (of_exact y)"
  using rnd64_mono [of x y] overflow64_pos by (auto simp: of_exact_def Let_def)

lemma of_exact_not_NaN [simp]: "of_exact x \<noteq> NaN"
  by (simp add: of_exact_def Let_def)

lemma rnd64_negative: "x \<le> - (2 powi k) \<Longrightarrow> -1074 \<le> k \<Longrightarrow> rnd64 x < 0"
proof -
  assume le: "x \<le> - (2 powi k)" and k: "-1074 \<le> k"
  have "rnd64 x \<le> - (2 powi k)"
    using rnd64_mono [OF le] rnd64_pow2 [OF k] by (simp add: rnd64_minus)
  with powi_2_pos [of k] show ?thesis by linarith
qed

lemma of_exact_negative_iff:
  assumes "x < 0 \<Longrightarrow> x \<le> - (2 powi k)" and "-1074 \<le> k"
  shows "jlt (of_exact x) (Fin 0) \<longleftrightarrow> x < 0"
proof (cases "x < 0")
  case True
  with assms rnd64_negative [of x k] have "rnd64 x < 0" by simp
  then have "\<not> overflow64 \<le> rnd64 x" using overflow64_pos by linarith
  with True \<open>rnd64 x < 0\<close> show ?thesis by (simp add: of_exact_def Let_def)
next
  case False
  then have "0 \<le> rnd64 x" by (simp add: rnd64_nonneg)
  then have "\<not> rnd64 x \<le> - overflow64" using overflow64_pos by linarith
  with False \<open>0 \<le> rnd64 x\<close> show ?thesis by (simp add: of_exact_def Let_def)
qed

subsection \<open>The Math functions and toFixed\<close>

definition math_max :: "js_num \<Rightarrow> js_num \<Rightarrow> js_num" where
  "math_max x y = (if x = NaN \<or> y = NaN then NaN else if jlt x y then y else x)"

definition math_min :: "js_num \<Rightarrow> js_num \<Rightarrow> js_num" where
  "math_min x y = (if x = NaN \<or> y = NaN then NaN else if jlt y x then y else x)"

fun math_abs :: "js_num \<Rightarrow> js_num" where
  "math_abs (Fin x) = Fin \<bar>x\<bar>"
| "math_abs NaN = NaN"
| "math_abs v = PosInf"

fun math_floor :: "js_num \<Rightarrow> js_num" where
  "math_floor (Fin x) = Fin (of_int \<lfloor>x\<rfloor>)"
| "math_floor v = v"

fun math_ceil :: "js_num \<Rightarrow> js_num" where
  "math_ceil (Fin x) = Fin (of_int \<lceil>x\<rceil>)"
| "math_ceil v = v"

fun math_trunc :: "js_num \<Rightarrow> js_num" where
  "math_trunc (Fin x) = Fin (of_int (if x < 0 then \<lceil>x\<rceil> else \<lfloor>x\<rfloor>))"
| "math_trunc v = v"

text \<open>\<open>Math.round\<close> rounds halves up.\<close>

fun math_round :: "js_num \<Rightarrow> js_num" where
  "math_round (Fin x) = Fin (of_int \<lfloor>x + 1 / 2\<rfloor>)"
| "math_round v = v"

text \<open>
  \<open>parseFloat(x.toFixed(d))\<close>: the decimal \<open>n / 10 ^ d\<close> closest to the exact value (the larger
  \<open>n\<close> on a tie, after taking the sign out), read back as a binary64 value. From \<open>10 ^ 21\<close> on
  \<open>toFixed\<close> prints the number itself.
\<close>

definition fixed_digits :: "nat \<Rightarrow> rat \<Rightarrow> int" where
  "fixed_digits d x = (if x < 0 then - \<lfloor>- x * 10 ^ d + 1 / 2\<rfloor> else \<lfloor>x * 10 ^ d + 1 / 2\<rfloor>)"

fun to_fixed :: "nat \<Rightarrow> js_num \<Rightarrow> js_num" where
  "to_fixed d (Fin x) =
     (if \<bar>x\<bar> \<ge> 10 ^ 21 then Fin x else of_exact (of_int (fixed_digits d x) / 10 ^ d))"
| "to_fixed d v = v"

lemma jle_trans: "jle a b \<Longrightarrow> jle b c \<Longrightarrow> jle a c"
  by (cases a; cases b; cases c) auto

lemma jle_refl [simp]: "a \<noteq> NaN \<Longrightarrow> jle a a"
  by (cases a) auto

lemma jle_linear: "a \<noteq> NaN \<Longrightarrow> b \<noteq> NaN \<Longrightarrow> \<not> jlt a b \<Longrightarrow> jle b a"
  by (cases a; cases b) auto

lemma jlt_imp_jle: "jlt a b \<Longrightarrow> jle a b"
  by (cases a; cases b) auto

lemma jle_not_NaN: "jle a b \<Longrightarrow> a \<noteq> NaN \<and> b \<noteq> NaN"
  by (cases a; cases b) auto

lemma representable_1e21: "representable (10 ^ 21)"
proof -
  have "(10 ^ 21 :: rat) = of_int (5 ^ 21) * 2 powi 21" by simp
  with rnd64_scaled_int [of "5 ^ 21" 21] show ?thesis by (simp add: representable_def)
qed

lemma fixed_digits_mono: "0 \<le> x \<Longrightarrow> x \<le> y \<Longrightarrow> fixed_digits d x \<le> fixed_digits d y"
  by (auto simp: fixed_digits_def intro!: floor_mono)

lemma fixed_digits_nonneg: "0 \<le> x \<Longrightarrow> 0 \<le> fixed_digits d x"
  by (auto simp: fixed_digits_def)

lemma fixed_digits_1e21:
  assumes "0 \<le> x" and "x < 10 ^ 21"
  shows "of_int (fixed_digits d x) / 10 ^ d \<le> (10 ^ 21 :: rat)"
proof -
  have "x * 10 ^ d \<le> 10 ^ 21 * 10 ^ d" by (rule mult_right_mono) (use assms(2) in simp_all)
  then have "x * 10 ^ d + 1 / 2 < 10 ^ 21 * 10 ^ d + 1" by linarith
  also have "\<dots> = of_int (10 ^ 21 * 10 ^ d + 1)" by simp
  finally have "\<lfloor>x * 10 ^ d + 1 / 2\<rfloor> < 10 ^ 21 * 10 ^ d + 1" by (simp only: floor_less_iff)
  then have "fixed_digits d x \<le> 10 ^ 21 * 10 ^ d" using assms(1) by (simp add: fixed_digits_def)
  then have "(of_int (fixed_digits d x) :: rat) \<le> of_int (10 ^ 21 * 10 ^ d)" by (simp only: of_int_le_iff)
  then show ?thesis by (simp add: divide_le_eq)
qed

lemma to_fixed_finite:
  assumes "0 \<le> x" and "x < 10 ^ 21"
  shows "to_fixed d (Fin x) = Fin (rnd64 (of_int (fixed_digits d x) / 10 ^ d))"
proof -
  have "0 \<le> (of_int (fixed_digits d x) / 10 ^ d :: rat)" using fixed_digits_nonneg [OF assms(1)] by simp
  with fixed_digits_1e21 [OF assms, of d]
  have "\<bar>of_int (fixed_digits d x) / 10 ^ d\<bar> \<le> (2 :: rat) powi 70" by simp
  from of_exact_Fin [OF this] assms show ?thesis by simp
qed

text \<open>Rounding to a fixed number of decimals is monotone on the non-negative numbers.\<close>

lemma to_fixed_mono:
  assumes "jle (Fin 0) a" and "jle a b"
  shows "jle (to_fixed d a) (to_fixed d b)"
proof (cases a)
  case (Fin x)
  with assms(1) have x: "0 \<le> x" by simp
  show ?thesis
  proof (cases b)
    case (Fin y)
    with assms(2) \<open>a = Fin x\<close> have xy: "x \<le> y" by simp
    then have y: "0 \<le> y" using x by simp
    consider "10 ^ 21 \<le> x" | "x < 10 ^ 21" "10 ^ 21 \<le> y" | "y < 10 ^ 21" using xy by linarith
    then show ?thesis
    proof cases
      case 1
      with \<open>a = Fin x\<close> Fin xy show ?thesis by simp
    next
      case 2
      have "rnd64 (of_int (fixed_digits d x) / 10 ^ d) \<le> 10 ^ 21"
        by (rule rnd64_le_representable [OF representable_1e21 fixed_digits_1e21 [OF x 2(1)]])
      with 2 y to_fixed_finite [OF x 2(1)] \<open>a = Fin x\<close> Fin show ?thesis by simp
    next
      case 3
      have "(of_int (fixed_digits d x) :: rat) / 10 ^ d \<le> of_int (fixed_digits d y) / 10 ^ d"
        using fixed_digits_mono [OF x xy] by (simp add: divide_right_mono)
      from rnd64_mono [OF this] 3 xy show ?thesis
        by (simp only: \<open>a = Fin x\<close> Fin to_fixed_finite [OF x] to_fixed_finite [OF y 3] order_le_less_trans jle.simps)
    qed
  qed (use assms(2) \<open>a = Fin x\<close> of_exact_not_NaN in \<open>auto simp: of_exact_def Let_def\<close>)
qed (use assms in \<open>auto intro: jle_refl elim: jle.elims\<close>)

lemma to_fixed_nonneg: "jle (Fin 0) a \<Longrightarrow> jle (Fin 0) (to_fixed d a)"
proof -
  have "\<lfloor>1 / 2 :: rat\<rfloor> = 0" by (simp add: floor_eq_iff)
  then have "to_fixed d (Fin 0) = Fin 0" using to_fixed_finite [of 0 d] by (simp add: fixed_digits_def)
  then show "jle (Fin 0) a \<Longrightarrow> ?thesis" using to_fixed_mono [of "Fin 0" a d] by simp
qed

subsection \<open>Kernel evaluation on literals\<close>

lemma floor_rat_numeral [simp]:
  "\<lfloor>numeral a / numeral b :: rat\<rfloor> = numeral a div numeral b"
  using floor_divide_of_int_eq [of "numeral a" "numeral b", where ?'a = rat] by simp

lemma floor_rat_neg_numeral [simp]:
  "\<lfloor>- (numeral a / numeral b) :: rat\<rfloor> = - numeral a div numeral b"
  using floor_divide_of_int_eq [of "- numeral a" "numeral b", where ?'a = rat] by simp

lemma floor_rat_one_numeral [simp]:
  "\<lfloor>1 / numeral b :: rat\<rfloor> = 1 div numeral b"
  using floor_divide_of_int_eq [of 1 "numeral b", where ?'a = rat] by simp

subsection \<open>Error bounds\<close>

text \<open>A result below a power of two is rounded by at most half a unit in the last place.\<close>

lemma of_exact_near:
  assumes "\<bar>x\<bar> < 2 ^ k" and "k \<le> 1000"
  shows "\<exists>y. of_exact x = Fin y \<and> \<bar>y - x\<bar> \<le> 2 ^ k / 2 ^ 54 \<and> \<bar>y\<bar> \<le> 2 ^ k \<and> representable y"
proof -
  have lt: "\<bar>x\<bar> < 2 powi int k" using assms(1) by simp
  have "\<bar>rnd64 x - x\<bar> \<le> 2 powi (int k - 54)" by (rule rnd64_error_bound [OF lt]) simp
  also have "(2 :: rat) powi (int k - 54) = 2 ^ k / 2 ^ 54" by (simp add: power_int_diff)
  finally have "\<bar>rnd64 x - x\<bar> \<le> 2 ^ k / 2 ^ 54" .
  moreover have "\<bar>rnd64 x\<bar> \<le> 2 powi int k" using lt by (intro rnd64_abs_le) auto
  moreover have "of_exact x = Fin (rnd64 x)" using lt assms(2) by (intro of_exact_Fin [of x "int k"]) auto
  ultimately show ?thesis using representable_rnd64 [of x] by auto
qed

text \<open>Sums of numbers that are not negative, from left to right.\<close>

definition jsum :: "js_num list \<Rightarrow> js_num" where
  "jsum xs = foldl jadd (Fin 0) xs"

lemma jsum_snoc: "jsum (xs @ [x]) = jadd (jsum xs) x"
  by (simp add: jsum_def)

lemma jsum_Nil [simp]: "jsum [] = Fin 0"
  by (simp add: jsum_def)

lemma jsum_near:
  assumes "\<forall>y \<in> set ys. 0 \<le> y \<and> representable y" and "sum_list ys < 2 ^ k / 2" and "length ys \<le> 2 ^ 20" and "k \<le> 1000"
  shows "\<exists>P. jsum (map Fin ys) = Fin P \<and> \<bar>P - sum_list ys\<bar> \<le> of_nat (length ys) * (2 ^ k / 2 ^ 54) \<and>
    representable P \<and> 0 \<le> P \<and> (\<forall>y \<in> set ys. y \<le> P)"
  using assms
proof (induction ys rule: rev_induct)
  case (snoc y ys)
  have y: "0 \<le> y" "representable y" and s0: "0 \<le> sum_list ys" using snoc.prems(1) by (auto intro: sum_list_nonneg)
  obtain P where P: "jsum (map Fin ys) = Fin P" "\<bar>P - sum_list ys\<bar> \<le> of_nat (length ys) * (2 ^ k / 2 ^ 54)"
    "representable P" "0 \<le> P" "\<forall>y \<in> set ys. y \<le> P"
    using snoc y(1) by (auto simp: sum_list_append)
  let ?d = "2 ^ k / 2 ^ 54 :: rat"
  have "(of_nat (length ys) :: rat) \<le> of_nat (2 ^ 20)" using snoc.prems(3) by (subst of_nat_le_iff) simp
  then have "of_nat (length ys) * ?d \<le> of_nat (2 ^ 20) * ?d" by (rule mult_right_mono) simp
  also have "of_nat (2 ^ 20) * ?d \<le> 2 ^ k / 2" by (simp add: field_simps)
  finally have d: "of_nat (length ys) * ?d \<le> 2 ^ k / 2" .
  have "sum_list ys + y < 2 ^ k / 2" using snoc.prems(2) by simp
  moreover have "P \<le> sum_list ys + of_nat (length ys) * ?d" using P(2) by (simp only: abs_le_iff) linarith
  ultimately have "P + y < 2 ^ k / 2 + 2 ^ k / 2" using d by linarith
  then have "P + y < 2 ^ k" by simp
  then have "\<bar>P + y\<bar> < 2 ^ k" using P(4) y(1) by simp
  from of_exact_near [OF this snoc.prems(4)] obtain Q where
    Q: "of_exact (P + y) = Fin Q" "\<bar>Q - (P + y)\<bar> \<le> ?d" "representable Q" by auto
  have rnd: "rnd64 (P + y) = Q" using Q(1) by (auto simp: of_exact_def Let_def split: if_splits)
  have "P \<le> Q" "y \<le> Q" using rnd64_ge_representable [OF P(3), of "P + y"] rnd64_ge_representable [OF y(2), of "P + y"] rnd P(4) y(1)
    by auto
  moreover have "\<bar>Q - sum_list (ys @ [y])\<bar> \<le> of_nat (length (ys @ [y])) * ?d"
  proof -
    have "\<bar>Q - (sum_list ys + y)\<bar> \<le> of_nat (length ys) * ?d + ?d" using P(2) Q(2) by linarith
    then show ?thesis by (simp add: distrib_right add.commute)
  qed
  moreover have "jsum (map Fin (ys @ [y])) = Fin Q" using P(1) Q(1) by (simp add: jsum_snoc)
  ultimately show ?case using Q(3) P(4,5) by (intro exI [of _ Q]) (auto intro: order_trans)
qed simp

lemmas js_eval = of_exact_def overflow64_def rnd64_def exp64_def ilog2.simps round_half_even_def Let_def
  fixed_digits_def jsub_def jeq_def math_max_def math_min_def signed_inf_def

end
