(* ===== verification/Js_Value.thy ===== *)
theory Js_Value
  imports Js_Number
begin

text \<open>
  JavaScript values, truthiness, strings and dates as far as the sources use them. A string is a
  list of code units below 256 (\<open>char\<close>). A date is its time value in milliseconds, \<open>None\<close> for an
  invalid date; \<open>time_clip\<close> is the range check of the date constructor.
\<close>

datatype js_value = Undefined | Null | Bool bool | Num js_num | Str string | Obj nat

fun truthy :: "js_value \<Rightarrow> bool" where
  "truthy Undefined = False"
| "truthy Null = False"
| "truthy (Bool b) = b"
| "truthy (Num v) = (v \<noteq> NaN \<and> v \<noteq> Fin 0)"
| "truthy (Str s) = (s \<noteq> [])"
| "truthy (Obj i) = True"

abbreviation truthy_string :: "string option \<Rightarrow> bool" where
  "truthy_string s \<equiv> (s \<noteq> None \<and> s \<noteq> Some [])"

subsection \<open>Strings\<close>

definition is_space :: "char \<Rightarrow> bool" where
  "is_space c = (of_char c \<in> {9 :: nat, 10, 11, 12, 13, 32, 160})"

definition trim :: "string \<Rightarrow> string" where
  "trim s = rev (dropWhile is_space (rev (dropWhile is_space s)))"

lemma trim_eq_Nil_iff: "trim s = [] \<longleftrightarrow> list_all is_space s"
proof -
  have "trim s = [] \<longleftrightarrow> (\<forall>c \<in> set (dropWhile is_space s). is_space c)"
    by (auto simp: trim_def dest: set_dropWhileD)
  also have "\<dots> \<longleftrightarrow> dropWhile is_space s = []"
    using hd_dropWhile [of is_space s] by (cases "dropWhile is_space s") (auto dest: set_dropWhileD)
  also have "\<dots> \<longleftrightarrow> list_all is_space s"
    by (auto simp: list_all_iff)
  finally show ?thesis .
qed

fun join :: "string \<Rightarrow> string list \<Rightarrow> string" where
  "join sep [] = []"
| "join sep [x] = x"
| "join sep (x # y # xs) = x @ sep @ join sep (y # xs)"

text \<open>\<open>s.split(sep)\<close> for a separator of one character; the second argument collects the current part.\<close>

fun split_on :: "char \<Rightarrow> string \<Rightarrow> string \<Rightarrow> string list" where
  "split_on sep acc [] = [rev acc]"
| "split_on sep acc (c # s) = (if c = sep then rev acc # split_on sep [] s else split_on sep (c # acc) s)"

abbreviation split :: "char \<Rightarrow> string \<Rightarrow> string list" where
  "split sep s \<equiv> split_on sep [] s"

lemma split_on_no_sep: "sep \<notin> set s \<Longrightarrow> split_on sep acc s = [rev acc @ s]"
  by (induction s arbitrary: acc) auto

lemma split_on_append: "sep \<notin> set s \<Longrightarrow> split_on sep acc (s @ sep # t) = (rev acc @ s) # split sep t"
  by (induction s arbitrary: acc) auto

lemma split_on_not_Nil [simp]: "split_on sep acc s \<noteq> []"
  by (induction s arbitrary: acc) auto

text \<open>Splitting a joined list gives the list back when no part has the separator.\<close>

lemma split_join:
  "\<forall>x \<in> set xs. sep \<notin> set x \<Longrightarrow> xs \<noteq> [] \<Longrightarrow> split sep (join [sep] xs) = xs"
  by (induction "[sep]" xs rule: join.induct) (auto simp: split_on_no_sep split_on_append)

lemma join_split_on: "join [sep] (split_on sep acc s) = rev acc @ s"
proof (induction s arbitrary: acc)
  case (Cons c s)
  have "join [sep] (x # split sep t) = x @ sep # join [sep] (split sep t)" for x t
    by (cases "split sep t") auto
  with Cons show ?case by simp
qed simp

definition quoted :: "string \<Rightarrow> string" where
  "quoted s = CHR 0x22 # s @ [CHR 0x22]"

definition lower_char :: "char \<Rightarrow> char" where
  "lower_char c = (let n = of_char c :: nat in
     if (65 \<le> n \<and> n \<le> 90) \<or> (192 \<le> n \<and> n \<le> 222 \<and> n \<noteq> 215) then char_of (n + 32) else c)"

definition toLowerCase :: "string \<Rightarrow> string" where
  "toLowerCase s = map lower_char s"

definition startsWith :: "string \<Rightarrow> string \<Rightarrow> bool" where
  "startsWith s p = (take (length p) s = p)"

text \<open>\<open>s.includes(pat)\<close>.\<close>

fun contains :: "string \<Rightarrow> string \<Rightarrow> bool" where
  "contains pat [] = (pat = [])"
| "contains pat (c # cs) = (startsWith (c # cs) pat \<or> contains pat cs)"

definition is_digit :: "char \<Rightarrow> bool" where
  "is_digit c = (48 \<le> (of_char c :: nat) \<and> (of_char c :: nat) \<le> 57)"

definition digits_value :: "string \<Rightarrow> int" where
  "digits_value ds = foldl (\<lambda>v c. 10 * v + (of_char c - 48)) 0 ds"

text \<open>\<open>parseInt(s, 10)\<close>: leading white space, an optional sign, the longest run of digits.\<close>

definition parse_int :: "string \<Rightarrow> js_num" where
  "parse_int s =
     (let t = dropWhile is_space s;
          neg = (t \<noteq> [] \<and> hd t = CHR ''-'');
          u = (if t \<noteq> [] \<and> (hd t = CHR ''-'' \<or> hd t = CHR ''+'') then tl t else t);
          ds = takeWhile is_digit u;
          v = of_exact (of_int (digits_value ds))
      in if ds = [] then NaN else if neg then jneg v else v)"

text \<open>
  \<open>parseFloat(s)\<close>: leading white space, an optional sign, \<open>Infinity\<close> or the longest decimal literal with
  an optional exponent.
\<close>

definition exponent_part :: "string \<Rightarrow> int" where
  "exponent_part s =
     (if s \<noteq> [] \<and> (hd s = CHR ''e'' \<or> hd s = CHR ''E'') then
        let neg = (tl s \<noteq> [] \<and> hd (tl s) = CHR ''-'');
            u = (if tl s \<noteq> [] \<and> (hd (tl s) = CHR ''-'' \<or> hd (tl s) = CHR ''+'') then tl (tl s) else tl s);
            ds = takeWhile is_digit u
        in if neg then - digits_value ds else digits_value ds
      else 0)"

definition parse_float :: "string \<Rightarrow> js_num" where
  "parse_float s =
     (let t = dropWhile is_space s;
          neg = (t \<noteq> [] \<and> hd t = CHR ''-'');
          u = (if t \<noteq> [] \<and> (hd t = CHR ''-'' \<or> hd t = CHR ''+'') then tl t else t);
          whole = takeWhile is_digit u;
          r = dropWhile is_digit u;
          frac = (if r \<noteq> [] \<and> hd r = CHR ''.'' then takeWhile is_digit (tl r) else []);
          rest = (if r \<noteq> [] \<and> hd r = CHR ''.'' then dropWhile is_digit (tl r) else r);
          v = (if startsWith u ''Infinity'' then PosInf
               else if whole = [] \<and> frac = [] then NaN
               else of_exact (of_int (digits_value (whole @ frac)) * 10 powi (exponent_part rest - int (length frac))))
      in if neg then jneg v else v)"

text \<open>The operator \<open><\<close> on strings compares code units from left to right.\<close>

fun string_less :: "string \<Rightarrow> string \<Rightarrow> bool" where
  "string_less [] [] = False"
| "string_less [] (c # t) = True"
| "string_less (c # s) [] = False"
| "string_less (c # s) (d # t) =
     ((of_char c :: nat) < of_char d \<or> (c = d \<and> string_less s t))"

text \<open>The decimal text of an integer.\<close>

function nat_text :: "nat \<Rightarrow> string" where
  "nat_text n = (if n < 10 then [char_of (48 + n)] else nat_text (n div 10) @ [char_of (48 + n mod 10)])"
  by pat_completeness auto
termination by (relation "measure (\<lambda>n. n)") auto

declare nat_text.simps [simp del]

definition int_text :: "int \<Rightarrow> string" where
  "int_text n = (if n < 0 then CHR ''-'' # nat_text (nat (- n)) else nat_text (nat n))"

lemma is_digit_char [simp]: "d < 10 \<Longrightarrow> is_digit (char_of (48 + d :: nat))"
  by (simp add: is_digit_def)

lemma digit_char_value [simp]: "d < 10 \<Longrightarrow> (of_char (char_of (48 + d :: nat)) :: int) - 48 = int d"
proof -
  assume "d < 10"
  moreover have "(of_char (char_of (48 + d)) :: int) = int (of_char (char_of (48 + d)))"
    by (rule of_nat_of_char [symmetric])
  ultimately show ?thesis by simp
qed

lemma nat_text_digits: "list_all is_digit (nat_text n)"
proof (induction n rule: nat_text.induct)
  case (1 n)
  then show ?case by (subst nat_text.simps) simp
qed

lemma nat_text_not_Nil [simp]: "nat_text n \<noteq> []"
  by (subst nat_text.simps) simp

lemma digits_value_nat_text: "digits_value (nat_text n) = int n"
proof (induction n rule: nat_text.induct)
  case (1 n)
  then show ?case
    by (subst nat_text.simps) (auto simp: digits_value_def of_nat_mod of_nat_div)
qed

text \<open>Reading a printed count gives the count back.\<close>

lemma parse_int_nat_text: "n \<le> 2 ^ 53 \<Longrightarrow> parse_int (nat_text n) = Fin (of_nat n)"
proof -
  assume n: "n \<le> 2 ^ 53"
  obtain c cs where c: "nat_text n = c # cs" by (cases "nat_text n") auto
  with nat_text_digits [of n] have d: "is_digit c" "list_all is_digit cs" by auto
  from d(1) have ns: "\<not> is_space c" "c \<noteq> CHR ''-''" "c \<noteq> CHR ''+''" by (auto simp: is_digit_def is_space_def)
  have tw: "takeWhile is_digit (c # cs) = c # cs" using d by (simp add: list_all_iff)
  have "of_exact (of_int (int n)) = Fin (of_int (int n))" using n by (intro of_exact_int) simp
  with c ns tw digits_value_nat_text [of n] show ?thesis by (simp add: parse_int_def Let_def)
qed

text \<open>\<open>String(n).padStart(2, "0")\<close> for a number below 100.\<close>

definition two_digits :: "nat \<Rightarrow> string" where
  "two_digits n = [char_of (48 + n div 10), char_of (48 + n mod 10)]"

subsection \<open>Dates\<close>

type_synonym js_date = "int option"

definition max_time :: int where
  "max_time = 8640000000000000"

definition time_clip :: "int \<Rightarrow> js_date" where
  "time_clip t = (if \<bar>t\<bar> \<le> max_time then Some t else None)"

text \<open>\<open>new Date(v)\<close> truncates and checks the range.\<close>

definition date_from :: "js_num \<Rightarrow> js_date" where
  "date_from v = (case math_trunc v of Fin q \<Rightarrow> time_clip (floor q) | _ \<Rightarrow> None)"

definition get_time :: "js_date \<Rightarrow> js_num" where
  "get_time d = (case d of None \<Rightarrow> NaN | Some t \<Rightarrow> Fin (of_int t))"

text \<open>UTC day of the week (0 is Sunday; day 0 of the epoch was a Thursday), hour and minute.\<close>

definition getUTCDay :: "int \<Rightarrow> nat" where
  "getUTCDay t = nat ((t div 86400000 + 4) mod 7)"

definition getUTCHours :: "int \<Rightarrow> nat" where
  "getUTCHours t = nat (t div 3600000 mod 24)"

definition getUTCMinutes :: "int \<Rightarrow> nat" where
  "getUTCMinutes t = nat (t div 60000 mod 60)"

text \<open>\<open>toISOString\<close> throws a RangeError on an invalid date; the text is determined by the time.\<close>

datatype iso_text = Iso int

datatype range_error = RangeError

definition toISOString :: "js_date \<Rightarrow> range_error + iso_text" where
  "toISOString d = (case d of None \<Rightarrow> Inl RangeError | Some t \<Rightarrow> Inr (Iso t))"

end
