(* ===== verification/Dispute_Machine.thy ===== *)
theory Dispute_Machine
  imports Js_Value
begin

text \<open>
  \<open>src/src/services/disputeStateMachine.ts\<close>: the table of allowed dispute transitions, the
  validation of a transition with its data, the recommended next state and the SLA clock.
\<close>

subsection \<open>Data\<close>

datatype dispute_status = Open | Investigating | Resolved | Rejected | Reversed | Upheld

datatype dispute_priority = Low | Medium | High | Critical

fun status_text :: "dispute_status \<Rightarrow> string" where
  "status_text Open = ''open''"
| "status_text Investigating = ''investigating''"
| "status_text Resolved = ''resolved''"
| "status_text Rejected = ''rejected''"
| "status_text Reversed = ''reversed''"
| "status_text Upheld = ''upheld''"

record state_transition =
  tr_from :: dispute_status
  tr_to :: dispute_status
  conditions :: "string list option"
  requiredFields :: "string list option"

record state_machine_config =
  transitions :: "state_transition list"
  terminalStates :: "dispute_status list"
  initialState :: dispute_status

definition DISPUTE_TRANSITIONS :: "state_transition list" where
  "DISPUTE_TRANSITIONS =
   [\<lparr>tr_from = Open, tr_to = Investigating,
     conditions = Some [''Must be assigned to an agent''], requiredFields = None\<rparr>,
    \<lparr>tr_from = Open, tr_to = Resolved,
     conditions = Some [''Resolution text is required''], requiredFields = Some [''resolution'']\<rparr>,
    \<lparr>tr_from = Open, tr_to = Rejected,
     conditions = Some [''Resolution text is required''], requiredFields = Some [''resolution'']\<rparr>,
    \<lparr>tr_from = Open, tr_to = Reversed,
     conditions = Some [''Admin reversal requires resolution text''],
     requiredFields = Some [''resolution'']\<rparr>,
    \<lparr>tr_from = Open, tr_to = Upheld,
     conditions = Some [''Admin uphold decision requires resolution text''],
     requiredFields = Some [''resolution'']\<rparr>,
    \<lparr>tr_from = Investigating, tr_to = Resolved,
     conditions = Some [''Resolution text is required''], requiredFields = Some [''resolution'']\<rparr>,
    \<lparr>tr_from = Investigating, tr_to = Rejected,
     conditions = Some [''Resolution text is required''], requiredFields = Some [''resolution'']\<rparr>,
    \<lparr>tr_from = Investigating, tr_to = Reversed,
     conditions = Some [''Admin reversal requires resolution text''],
     requiredFields = Some [''resolution'']\<rparr>,
    \<lparr>tr_from = Investigating, tr_to = Upheld,
     conditions = Some [''Admin uphold decision requires resolution text''],
     requiredFields = Some [''resolution'']\<rparr>]"

definition DISPUTE_STATE_MACHINE :: state_machine_config where
  "DISPUTE_STATE_MACHINE =
   \<lparr>transitions = DISPUTE_TRANSITIONS,
    terminalStates = [Resolved, Rejected, Reversed, Upheld],
    initialState = Open\<rparr>"

subsection \<open>Operations\<close>

definition isValidTransition ::
  "state_machine_config \<Rightarrow> dispute_status \<Rightarrow> dispute_status \<Rightarrow> bool" where
  "isValidTransition cfg from to = list_ex (\<lambda>t. tr_from t = from \<and> tr_to t = to) (transitions cfg)"

definition getAllowedTransitions ::
  "state_machine_config \<Rightarrow> dispute_status \<Rightarrow> dispute_status list" where
  "getAllowedTransitions cfg from = map tr_to (filter (\<lambda>t. tr_from t = from) (transitions cfg))"

definition isTerminalState :: "state_machine_config \<Rightarrow> dispute_status \<Rightarrow> bool" where
  "isTerminalState cfg st = (st \<in> set (terminalStates cfg))"

definition getRequiredFields ::
  "state_machine_config \<Rightarrow> dispute_status \<Rightarrow> dispute_status \<Rightarrow> string list" where
  "getRequiredFields cfg from to =
     (case find (\<lambda>t. tr_from t = from \<and> tr_to t = to) (transitions cfg) of
        None \<Rightarrow> []
      | Some t \<Rightarrow> (case requiredFields t of None \<Rightarrow> [] | Some fs \<Rightarrow> fs))"

definition getTransitionConditions ::
  "state_machine_config \<Rightarrow> dispute_status \<Rightarrow> dispute_status \<Rightarrow> string list" where
  "getTransitionConditions cfg from to =
     (case find (\<lambda>t. tr_from t = from \<and> tr_to t = to) (transitions cfg) of
        None \<Rightarrow> []
      | Some t \<Rightarrow> (case conditions t of None \<Rightarrow> [] | Some cs \<Rightarrow> cs))"

text \<open>The data of a transition is a record with arbitrary fields; a missing field is undefined.\<close>

type_synonym transition_data = "(string, js_value) js_map"

definition field :: "transition_data \<Rightarrow> string \<Rightarrow> js_value" where
  "field d f = (case map_get d f of None \<Rightarrow> Undefined | Some v \<Rightarrow> v)"

definition missing_field :: "transition_data \<Rightarrow> string \<Rightarrow> bool" where
  "missing_field d f =
     (\<not> truthy (field d f) \<or> (case field d f of Str s \<Rightarrow> trim s = [] | _ \<Rightarrow> False))"

record validation =
  valid :: bool
  errors :: "string list"

definition validateTransition ::
  "state_machine_config \<Rightarrow> dispute_status \<Rightarrow> dispute_status \<Rightarrow> transition_data \<Rightarrow> validation" where
  "validateTransition cfg from to d =
     (let allowed = getAllowedTransitions cfg from;
          e1 = (if \<not> isValidTransition cfg from to
                then [''Cannot transition from '' @ quoted (status_text from) @ '' to '' @
                      quoted (status_text to) @ ''. '' @
                      (if allowed \<noteq> [] then ''Allowed transitions: '' @ join '', '' (map status_text allowed)
                       else quoted (status_text from) @ '' is a terminal state.'')]
                else []);
          e2 = map (\<lambda>f. ''Field '' @ quoted f @ '' is required for transition to '' @
                        quoted (status_text to))
                   (filter (missing_field d) (getRequiredFields cfg from to));
          e3 = (if to = Investigating \<and> \<not> truthy (field d ''assignedTo'')
                then [''Dispute must be assigned to an agent when moving to investigating status'']
                else []);
          es = e1 @ e2 @ e3
      in \<lparr>valid = (length es = 0), errors = es\<rparr>)"

record recommend_context =
  hasAssignee :: "bool option"
  hasEvidence :: "bool option"
  ctx_priority :: "dispute_priority option"
  daysSinceCreated :: "js_num option"

abbreviation opt_true :: "bool option \<Rightarrow> bool" where
  "opt_true b \<equiv> b = Some True"

definition days_exceed :: "js_num option \<Rightarrow> rat \<Rightarrow> bool" where
  "days_exceed d n = (case d of None \<Rightarrow> False | Some v \<Rightarrow> truthy (Num v) \<and> jgt v (Fin n))"

fun getRecommendedNextState :: "dispute_status \<Rightarrow> recommend_context \<Rightarrow> dispute_status option" where
  "getRecommendedNextState Open c =
     (if opt_true (hasAssignee c) \<and> (ctx_priority c = Some High \<or> ctx_priority c = Some Critical)
      then Some Investigating
      else if \<not> opt_true (hasAssignee c) \<and> days_exceed (daysSinceCreated c) 7 then Some Investigating
      else if opt_true (hasAssignee c) then Some Investigating else None)"
| "getRecommendedNextState Investigating c =
     (if opt_true (hasEvidence c) \<and> days_exceed (daysSinceCreated c) 1 then Some Resolved else None)"
| "getRecommendedNextState Resolved c = None"
| "getRecommendedNextState Rejected c = None"
| "getRecommendedNextState Reversed c = None"
| "getRecommendedNextState Upheld c = None"

fun getSlaHours :: "dispute_priority \<Rightarrow> int" where
  "getSlaHours Critical = 4"
| "getSlaHours High = 24"
| "getSlaHours Medium = 72"
| "getSlaHours Low = 168"

definition sla_deadline :: "int \<Rightarrow> dispute_priority \<Rightarrow> js_date" where
  "sla_deadline createdAt p = time_clip (createdAt + getSlaHours p * 60 * 60 * 1000)"

definition isOverdue :: "int \<Rightarrow> dispute_priority \<Rightarrow> int \<Rightarrow> bool" where
  "isOverdue createdAt p now = jgt (get_time (Some now)) (get_time (sla_deadline createdAt p))"

record sla_remaining =
  hours :: js_num
  overdue :: bool

definition getTimeUntilSlaDeadline :: "int \<Rightarrow> dispute_priority \<Rightarrow> int \<Rightarrow> sla_remaining" where
  "getTimeUntilSlaDeadline createdAt p now =
     (let diffMs = jsub (get_time (sla_deadline createdAt p)) (get_time (Some now));
          diffHours = jdiv diffMs (Fin (1000 * 60 * 60))
      in \<lparr>hours = jdiv (math_round (jmul diffHours (Fin 100))) (Fin 100),
          overdue = jlt diffHours (Fin 0)\<rparr>)"

subsection \<open>The table\<close>

lemma allowed_dispute [simp]:
  "getAllowedTransitions DISPUTE_STATE_MACHINE s =
     (case s of Open \<Rightarrow> [Investigating, Resolved, Rejected, Reversed, Upheld]
      | Investigating \<Rightarrow> [Resolved, Rejected, Reversed, Upheld] | _ \<Rightarrow> [])"
  by (cases s) (simp_all add: getAllowedTransitions_def DISPUTE_STATE_MACHINE_def DISPUTE_TRANSITIONS_def)

lemma isValidTransition_iff:
  "isValidTransition cfg from to \<longleftrightarrow> to \<in> set (getAllowedTransitions cfg from)"
  by (auto simp: isValidTransition_def getAllowedTransitions_def list_ex_iff image_iff)

lemma required_dispute [simp]:
  "getRequiredFields DISPUTE_STATE_MACHINE from to =
     (if to \<in> set (getAllowedTransitions DISPUTE_STATE_MACHINE from) \<and> to \<noteq> Investigating
      then [''resolution''] else [])"
  by (cases "from"; cases to)
    (simp_all add: getRequiredFields_def DISPUTE_STATE_MACHINE_def DISPUTE_TRANSITIONS_def
      getAllowedTransitions_def)

lemma terminal_dispute [simp]:
  "isTerminalState DISPUTE_STATE_MACHINE s \<longleftrightarrow> s \<in> {Resolved, Rejected, Reversed, Upheld}"
  by (simp add: isTerminalState_def DISPUTE_STATE_MACHINE_def)

interpretation dispute: transition_table
  "getAllowedTransitions DISPUTE_STATE_MACHINE" "isTerminalState DISPUTE_STATE_MACHINE"
  by unfold_locales (simp split: dispute_status.split)

lemma missing_field_iff:
  "\<not> missing_field d f \<longleftrightarrow>
     truthy (field d f) \<and> (\<forall>s. field d f = Str s \<longrightarrow> \<not> list_all is_space s)"
  by (auto simp: missing_field_def trim_eq_Nil_iff split: js_value.splits)

lemma valid_iff_no_errors: "valid (validateTransition cfg from to d) \<longleftrightarrow> errors (validateTransition cfg from to d) = []"
  by (simp add: validateTransition_def Let_def)

lemma valid_dispute_iff:
  "valid (validateTransition DISPUTE_STATE_MACHINE from to d) \<longleftrightarrow>
     to \<in> set (getAllowedTransitions DISPUTE_STATE_MACHINE from) \<and>
     (if to = Investigating then truthy (field d ''assignedTo'') else \<not> missing_field d ''resolution'')"
  by (auto simp: validateTransition_def Let_def isValidTransition_iff)

text \<open>The life of a dispute: each step is a transition that validation accepts with some data.\<close>

inductive dispute_step :: "dispute_status \<Rightarrow> dispute_status \<Rightarrow> bool" where
  "valid (validateTransition DISPUTE_STATE_MACHINE s t d) \<Longrightarrow> dispute_step s t"

inductive_cases dispute_stepE: "dispute_step s t"

lemma dispute_step_move: "dispute_step s t \<Longrightarrow> dispute.move s t"
  by (auto elim!: dispute_stepE simp: valid_dispute_iff dispute.move_def)

lemma move_dispute_step: "dispute.move s t \<Longrightarrow> dispute_step s t"
proof (rule dispute_step.intros)
  let ?d = "[(''assignedTo'', Str ''a''), (''resolution'', Str ''r'')]"
  assume "dispute.move s t"
  moreover have "truthy (field ?d ''assignedTo'')" and "\<not> missing_field ?d ''resolution''"
    by (simp_all add: field_def map_get_def missing_field_def trim_def is_space_def)
  ultimately show "valid (validateTransition DISPUTE_STATE_MACHINE s t ?d)"
    by (auto simp only: valid_dispute_iff dispute.move_def split: if_splits)
qed

lemma dispute_step_eq: "dispute_step = dispute.move"
  by (intro ext iffI) (auto intro: dispute_step_move move_dispute_step)

fun dispute_rank :: "dispute_status \<Rightarrow> nat" where
  "dispute_rank Open = 2"
| "dispute_rank Investigating = 1"
| "dispute_rank s = 0"

lemma dispute_step_rank: "dispute_step s t \<Longrightarrow> dispute_rank t < dispute_rank s"
  by (cases s; cases t) (auto simp: dispute_step_eq dispute.move_def)

subsection \<open>The SLA clock\<close>

lemma time_difference:
  assumes "\<bar>a\<bar> \<le> max_time" and "\<bar>b\<bar> \<le> max_time"
  shows "jsub (Fin (of_int a)) (Fin (of_int b)) = Fin (rnd64 (of_int (a - b)))"
proof -
  have "\<bar>a - b\<bar> \<le> 2 ^ 55" using assms by (simp add: max_time_def)
  then have "\<bar>of_int (a - b)\<bar> \<le> (2::rat) powi 55"
    by (metis of_int_abs of_int_le_iff of_int_numeral of_int_power power_int_numeral)
  from of_exact_Fin [OF this] show ?thesis by (simp add: jsub_def)
qed

lemma diff_hours_negative_iff:
  assumes "\<bar>a\<bar> \<le> max_time" and "\<bar>b\<bar> \<le> max_time"
  shows "jlt (jdiv (jsub (Fin (of_int a)) (Fin (of_int b))) (Fin 3600000)) (Fin 0) \<longleftrightarrow> a < b"
proof -
  let ?z = "rnd64 (of_int (a - b))"
  have neg: "?z \<le> -1" if "a < b"
    using that rnd64_mono [of "of_int (a - b)" "-1"] rnd64_of_int [of "-1"] by simp
  have pos: "0 \<le> ?z" if "b \<le> a"
    using that rnd64_nonneg [of "of_int (a - b)"] by simp
  have "jlt (of_exact (?z / 3600000)) (Fin 0) \<longleftrightarrow> ?z / 3600000 < 0"
  proof (rule of_exact_negative_iff [where k = "-22"])
    assume "?z / 3600000 < 0"
    then have "?z \<le> -1" using neg pos by (cases "a < b") auto
    then show "?z / 3600000 \<le> - (2 powi - 22)" by (simp add: power_int_minus)
  qed simp
  with neg pos show ?thesis
    by (cases "a < b") (simp_all add: time_difference [OF assms] del: of_int_diff)
qed

subsection \<open>Properties\<close>

lemma relpow_dispute_rank: "(dispute_step ^^ n) s t \<Longrightarrow> n + dispute_rank t \<le> dispute_rank s"
proof (induction n arbitrary: t)
  case 0
  then show ?case by simp
next
  case (Suc n)
  from Suc.prems obtain u where "(dispute_step ^^ n) s u" and "dispute_step u t" by auto
  with Suc.IH [of u] dispute_step_rank [of u t] show ?case by linarith
qed

text \<open>
  Validation of a dispute transition, on every branch: a transition is accepted exactly when
  it is one of the nine of the table (from open to any other state, from investigating to a
  terminal state), a move to investigating names an agent, and every closing move carries a
  resolution that is truthy and, when it is text, not blank.
\<close>

theorem validateTransition_accepts:
  "valid (validateTransition DISPUTE_STATE_MACHINE from to d) =
     ((from = Open \<and> to \<noteq> Open \<or> from = Investigating \<and> to \<noteq> Open \<and> to \<noteq> Investigating) \<and>
      (if to = Investigating then truthy (field d ''assignedTo'')
       else case field d ''resolution'' of Str s \<Rightarrow> \<not> list_all is_space s | v \<Rightarrow> truthy v))"
proof -
  have res: "\<not> missing_field d ''resolution'' \<longleftrightarrow>
      (case field d ''resolution'' of Str s \<Rightarrow> \<not> list_all is_space s | v \<Rightarrow> truthy v)"
    by (auto simp: missing_field_iff split: js_value.splits)
  show ?thesis unfolding valid_dispute_iff res by (cases "from"; cases to) simp_all
qed

text \<open>
  The life of a dispute: a dispute that starts open goes through at most two accepted
  transitions, whatever data comes with them, and it can move on exactly as long as its state is
  not listed as terminal.
\<close>

theorem dispute_lifecycle:
  assumes "(dispute_step ^^ n) Open t"
  shows "n \<le> 2 \<and> (isTerminalState DISPUTE_STATE_MACHINE t \<longleftrightarrow> (\<forall>u. \<not> dispute_step t u))"
proof -
  have "n \<le> 2" using relpow_dispute_rank [OF assms] by simp
  moreover have "isTerminalState DISPUTE_STATE_MACHINE t \<longleftrightarrow> (\<forall>u. \<not> dispute_step t u)"
    by (cases t) (auto simp: dispute_step_eq dispute.move_def)
  ultimately show ?thesis ..
qed

lemma dispute_lifecycle_witness:
  "(2::nat) \<le> 2 \<and> (isTerminalState DISPUTE_STATE_MACHINE Upheld \<longleftrightarrow> (\<forall>u. \<not> dispute_step Upheld u))"
proof -
  have "dispute_step Open Investigating" and "dispute_step Investigating Upheld"
    by (simp_all add: dispute_step_eq dispute.move_def)
  then have "(dispute_step ^^ 2) Open Upheld"
    by (auto simp: numeral_2_eq_2)
  from dispute_lifecycle [OF this] show ?thesis .
qed

text \<open>
  The recommendation never proposes a transition the table forbids.
\<close>

theorem recommended_state_allowed:
  assumes "getRecommendedNextState s c = Some t"
  shows "isValidTransition DISPUTE_STATE_MACHINE s t"
  using assms by (cases s) (auto simp: isValidTransition_iff split: if_splits)

lemma recommended_state_allowed_witness:
  "isValidTransition DISPUTE_STATE_MACHINE Investigating Resolved"
  by (rule recommended_state_allowed [where c = "\<lparr>hasAssignee = None, hasEvidence = Some True,
        ctx_priority = None, daysSinceCreated = Some (Fin 2)\<rparr>"])
    (simp add: days_exceed_def)

text \<open>
  The two SLA clocks agree: the overdue flag computed from the rounded quotient of hours is
  true exactly when the comparison of the dates says the dispute is overdue, also when the
  deadline is out of the range of dates.
\<close>

theorem sla_clocks_agree:
  assumes "\<bar>now\<bar> \<le> max_time"
  shows "overdue (getTimeUntilSlaDeadline createdAt p now) = isOverdue createdAt p now"
proof (cases "sla_deadline createdAt p")
  case None
  then show ?thesis
    by (simp add: getTimeUntilSlaDeadline_def isOverdue_def get_time_def jsub_def Let_def)
next
  case (Some t)
  then have "\<bar>t\<bar> \<le> max_time" by (simp add: sla_deadline_def time_clip_def split: if_splits)
  with assms Some show ?thesis
    by (simp add: getTimeUntilSlaDeadline_def isOverdue_def get_time_def Let_def
        diff_hours_negative_iff)
qed

lemma sla_clocks_agree_witness:
  "overdue (getTimeUntilSlaDeadline 0 Critical 14400001) \<and> isOverdue 0 Critical 14400001"
  using sla_clocks_agree [of 14400001 0 Critical]
  by (simp add: isOverdue_def sla_deadline_def time_clip_def get_time_def max_time_def)

end
