(* ===== verification/Status_Workflow.thy ===== *)
theory Status_Workflow
  imports Js_Value
begin

text \<open>
  \<open>src/src/services/transactionStatusWorkflowService.ts\<close>: the table of detailed transaction
  statuses, the table of base statuses, and the service that records a history per transaction.
\<close>

subsection \<open>Data\<close>

datatype transaction_status =
  Pending | Completed | Failed | Cancelled | Review | Dispute | Reversed | ClawedBack

datatype detailed_status =
  INITIATED | KYC_VERIFYING | AML_CHECKING | FUNDS_RESERVED | SUBMITTED_TO_PROVIDER
| PROVIDER_PROCESSING | AWAITING_CONFIRMATION | COMPLETED | FAILED | REVERSED | REFUNDED
| FLAGGED_FOR_REVIEW

record status_history_entry =
  fromStatus :: detailed_status
  toStatus :: detailed_status
  reason :: "string option"
  explanation :: string
  updatedBy :: string
  timestamp :: int

fun VALID_TRANSITIONS :: "detailed_status \<Rightarrow> detailed_status list" where
  "VALID_TRANSITIONS INITIATED = [KYC_VERIFYING, AML_CHECKING, FLAGGED_FOR_REVIEW, FAILED]"
| "VALID_TRANSITIONS KYC_VERIFYING = [AML_CHECKING, FLAGGED_FOR_REVIEW, FAILED]"
| "VALID_TRANSITIONS AML_CHECKING = [FUNDS_RESERVED, FLAGGED_FOR_REVIEW, FAILED]"
| "VALID_TRANSITIONS FUNDS_RESERVED = [SUBMITTED_TO_PROVIDER, FAILED]"
| "VALID_TRANSITIONS SUBMITTED_TO_PROVIDER = [PROVIDER_PROCESSING, FAILED]"
| "VALID_TRANSITIONS PROVIDER_PROCESSING = [AWAITING_CONFIRMATION, COMPLETED, FAILED]"
| "VALID_TRANSITIONS AWAITING_CONFIRMATION = [COMPLETED, FAILED]"
| "VALID_TRANSITIONS COMPLETED = [REVERSED, REFUNDED]"
| "VALID_TRANSITIONS FAILED = []"
| "VALID_TRANSITIONS REVERSED = []"
| "VALID_TRANSITIONS REFUNDED = []"
| "VALID_TRANSITIONS FLAGGED_FOR_REVIEW = [INITIATED, FUNDS_RESERVED, FAILED]"

fun VALID_BASE_TRANSITIONS :: "transaction_status \<Rightarrow> transaction_status list" where
  "VALID_BASE_TRANSITIONS Pending = [Completed, Failed, Cancelled, Review]"
| "VALID_BASE_TRANSITIONS Review = [Pending, Completed, Failed, Cancelled]"
| "VALID_BASE_TRANSITIONS Completed = [Dispute, Reversed, ClawedBack]"
| "VALID_BASE_TRANSITIONS Dispute = [Completed, Reversed, Failed]"
| "VALID_BASE_TRANSITIONS Failed = []"
| "VALID_BASE_TRANSITIONS Cancelled = []"
| "VALID_BASE_TRANSITIONS Reversed = []"
| "VALID_BASE_TRANSITIONS ClawedBack = []"

fun EXPLANATIONS :: "detailed_status \<Rightarrow> string" where
  "EXPLANATIONS INITIATED = ''Transaction initiated by user or merchant.''"
| "EXPLANATIONS KYC_VERIFYING = ''Identity verification is actively being verified.''"
| "EXPLANATIONS AML_CHECKING = ''Anti-Money Laundering screening and sanction checks in progress.''"
| "EXPLANATIONS FUNDS_RESERVED = ''Customer funds have been secured and locked for processing.''"
| "EXPLANATIONS SUBMITTED_TO_PROVIDER =
     ''Transfer payload sent to external banking or Stellar network gateway.''"
| "EXPLANATIONS PROVIDER_PROCESSING = ''External network provider is clearing the transaction.''"
| "EXPLANATIONS AWAITING_CONFIRMATION =
     ''Transaction executed; waiting for blockchain ledger or clearing house finality.''"
| "EXPLANATIONS COMPLETED = ''Transaction successfully settled and confirmed.''"
| "EXPLANATIONS FAILED = ''Transaction terminated due to an error, timeout, or policy rejection.''"
| "EXPLANATIONS REVERSED = ''Transaction settlement has been rolled back and reversed.''"
| "EXPLANATIONS REFUNDED = ''Funds returned to original funding account.''"
| "EXPLANATIONS FLAGGED_FOR_REVIEW =
     ''High-risk signals detected; transaction placed in manual review queue.''"

subsection \<open>Operations\<close>

datatype workflow_error =
  InvalidStateTransition detailed_status detailed_status string
| InvalidBaseTransition transaction_status transaction_status string

type_synonym histories = "(string, status_history_entry list) js_map"

definition isValidTransition :: "detailed_status \<Rightarrow> detailed_status \<Rightarrow> bool" where
  "isValidTransition current nxt = (nxt \<in> set (VALID_TRANSITIONS current))"

definition isValidBaseTransition :: "transaction_status \<Rightarrow> transaction_status \<Rightarrow> bool" where
  "isValidBaseTransition current nxt =
     (if current = nxt then True else nxt \<in> set (VALID_BASE_TRANSITIONS current))"

definition validateBaseTransition ::
  "string \<Rightarrow> transaction_status \<Rightarrow> transaction_status \<Rightarrow> workflow_error + unit" where
  "validateBaseTransition txId current nxt =
     (if \<not> isValidBaseTransition current nxt then Inl (InvalidBaseTransition current nxt txId)
      else Inr ())"

definition getAllowedBaseTransitions :: "transaction_status \<Rightarrow> transaction_status list" where
  "getAllowedBaseTransitions s = VALID_BASE_TRANSITIONS s"

definition getHistory :: "histories \<Rightarrow> string \<Rightarrow> status_history_entry list" where
  "getHistory h txId = (case map_get h txId of None \<Rightarrow> [] | Some es \<Rightarrow> es)"

definition transition ::
  "string \<Rightarrow> detailed_status \<Rightarrow> detailed_status \<Rightarrow> string \<Rightarrow> string option \<Rightarrow> int \<Rightarrow> histories
   \<Rightarrow> (workflow_error + status_history_entry) \<times> histories" where
  "transition txId current nxt by_whom why now h =
     (if \<not> isValidTransition current nxt then (Inl (InvalidStateTransition current nxt txId), h)
      else let entry = \<lparr>fromStatus = current, toStatus = nxt, reason = why,
                        explanation = EXPLANATIONS nxt, updatedBy = by_whom, timestamp = now\<rparr>;
               history = getHistory h txId @ [entry]
           in (Inr entry, map_set txId history h))"

definition getStatusExplanation :: "detailed_status \<Rightarrow> string" where
  "getStatusExplanation s =
     (if EXPLANATIONS s \<noteq> [] then EXPLANATIONS s else ''Status updated.'')"

subsection \<open>The tables as machines\<close>

abbreviation detailed_terminal :: "detailed_status \<Rightarrow> bool" where
  "detailed_terminal s \<equiv> s \<in> {FAILED, REVERSED, REFUNDED}"

abbreviation base_terminal :: "transaction_status \<Rightarrow> bool" where
  "base_terminal s \<equiv> s \<in> {Failed, Cancelled, Reversed, ClawedBack}"

interpretation detailed: transition_table VALID_TRANSITIONS detailed_terminal
proof unfold_locales
  show "detailed_terminal s = (VALID_TRANSITIONS s = [])" for s by (cases s) simp_all
qed

interpretation base: transition_table VALID_BASE_TRANSITIONS base_terminal
proof unfold_locales
  show "base_terminal s = (VALID_BASE_TRANSITIONS s = [])" for s by (cases s) simp_all
qed

lemma getHistory_set [simp]:
  "getHistory (map_set txId es h) t = (if t = txId then es else getHistory h t)"
  by (simp add: getHistory_def map_get_set)

lemma transition_history:
  "getHistory (snd (transition tx c n u w now h)) t =
     (if t = tx \<and> isValidTransition c n
      then getHistory h t @ [\<lparr>fromStatus = c, toStatus = n, reason = w,
             explanation = EXPLANATIONS n, updatedBy = u, timestamp = now\<rparr>]
      else getHistory h t)"
  by (simp add: transition_def Let_def)

text \<open>The arguments of one call, for runs of the service.\<close>

type_synonym call = "detailed_status \<times> detailed_status \<times> string \<times> string option \<times> int"

fun call_transition :: "string \<Rightarrow> call \<Rightarrow> histories \<Rightarrow> histories" where
  "call_transition tx (c, n, u, w, now) h = snd (transition tx c n u w now h)"

interpretation workflow: keyed_component call_transition getHistory
proof unfold_locales
  fix k k' :: string and op :: call and s :: histories
  assume "k' \<noteq> k"
  then show "getHistory (call_transition k op s) k' = getHistory s k'"
    by (cases op) (simp add: transition_history)
next
  fix k :: string and op :: call and s s' :: histories
  assume "getHistory s k = getHistory s' k"
  then show "getHistory (call_transition k op s) k = getHistory (call_transition k op s') k"
    by (cases op) (simp add: transition_history)
qed

subsection \<open>Paths through the detailed statuses\<close>

text \<open>The statuses a transaction passes, each an accepted move from the one before.\<close>

fun status_path :: "detailed_status list \<Rightarrow> bool" where
  "status_path [] = True"
| "status_path [s] = True"
| "status_path (s # t # ss) = (isValidTransition s t \<and> status_path (t # ss))"

lemma status_path_append:
  "status_path (xs @ [s, t]) \<longleftrightarrow> status_path (xs @ [s]) \<and> isValidTransition s t"
  by (induction xs rule: status_path.induct) auto

text \<open>The statuses that can come directly before each status.\<close>

lemma predecessor:
  assumes "isValidTransition s t"
  shows "(t = COMPLETED \<longrightarrow> s = PROVIDER_PROCESSING \<or> s = AWAITING_CONFIRMATION) \<and>
    (t = AWAITING_CONFIRMATION \<longrightarrow> s = PROVIDER_PROCESSING) \<and>
    (t = PROVIDER_PROCESSING \<longrightarrow> s = SUBMITTED_TO_PROVIDER) \<and>
    (t = SUBMITTED_TO_PROVIDER \<longrightarrow> s = FUNDS_RESERVED) \<and>
    (t = FUNDS_RESERVED \<longrightarrow> s = AML_CHECKING \<or> s = FLAGGED_FOR_REVIEW)"
  using assms by (cases s) (auto simp: isValidTransition_def)

text \<open>Stepping back along a path that starts at INITIATED.\<close>

definition initiated_path :: "detailed_status list \<Rightarrow> detailed_status \<Rightarrow> bool" where
  "initiated_path xs t \<longleftrightarrow> status_path (xs @ [t]) \<and> hd (xs @ [t]) = INITIATED"

lemma initiated_path_back:
  assumes "initiated_path xs t" and "t \<noteq> INITIATED"
  shows "\<exists>ys s. xs = ys @ [s] \<and> initiated_path ys s \<and> isValidTransition s t"
proof (cases xs rule: rev_cases)
  case Nil
  with assms show ?thesis by (simp add: initiated_path_def)
next
  case (snoc ys s)
  with assms status_path_append [of ys s t] show ?thesis
    by (cases ys) (auto simp: initiated_path_def)
qed

lemma initiated_path_submitted:
  assumes "initiated_path xs SUBMITTED_TO_PROVIDER"
  shows "\<exists>ys g. xs = ys @ [g, FUNDS_RESERVED] \<and> (g = AML_CHECKING \<or> g = FLAGGED_FOR_REVIEW)"
proof -
  obtain ys s where 1: "xs = ys @ [s]" "initiated_path ys s" "isValidTransition s SUBMITTED_TO_PROVIDER"
    using initiated_path_back [OF assms] by auto
  then have s: "s = FUNDS_RESERVED" using predecessor by blast
  obtain zs g where 2: "ys = zs @ [g]" "isValidTransition g FUNDS_RESERVED"
    using initiated_path_back [of ys FUNDS_RESERVED] 1(2) s by auto
  then have "g = AML_CHECKING \<or> g = FLAGGED_FOR_REVIEW" using predecessor by blast
  with 1(1) 2(1) s show ?thesis by simp
qed

lemma initiated_path_processing:
  assumes "initiated_path xs PROVIDER_PROCESSING"
  shows "\<exists>ys g. xs = ys @ [g, FUNDS_RESERVED, SUBMITTED_TO_PROVIDER] \<and>
    (g = AML_CHECKING \<or> g = FLAGGED_FOR_REVIEW)"
proof -
  obtain ys s where 1: "xs = ys @ [s]" "initiated_path ys s" "isValidTransition s PROVIDER_PROCESSING"
    using initiated_path_back [OF assms] by auto
  then have s: "s = SUBMITTED_TO_PROVIDER" using predecessor by blast
  with initiated_path_submitted [of ys] 1 show ?thesis by auto
qed

inductive workflow_step :: "histories \<Rightarrow> histories \<Rightarrow> bool" where
  "workflow_step h (snd (transition tx c n u w now h))"

inductive_cases workflow_stepE: "workflow_step h h'"

definition history_ok :: "histories \<Rightarrow> bool" where
  "history_ok h \<longleftrightarrow> map_wf h \<and> (\<forall>tx. \<forall>e \<in> set (getHistory h tx).
     isValidTransition (fromStatus e) (toStatus e) \<and> explanation e = EXPLANATIONS (toStatus e))"

interpretation workflow_inv: invariant_machine "\<lambda>h. h = []" workflow_step history_ok
proof unfold_locales
  fix s :: histories
  assume "s = []"
  then show "history_ok s" by (simp add: history_ok_def getHistory_def)
next
  fix s t :: histories
  assume "history_ok s" and "workflow_step s t"
  then show "history_ok t"
    by (auto simp: history_ok_def transition_history elim!: workflow_stepE split: if_splits)
      (simp add: transition_def Let_def)
qed

lemma workflow_history_grows:
  "steps_from workflow_step h h' \<Longrightarrow> \<exists>es. getHistory h' tx = getHistory h tx @ es"
proof (induction rule: steps_from.induct)
  case (steps_refl s)
  show ?case by simp
next
  case (steps_step s t u)
  then show ?case by (auto elim!: workflow_stepE simp: transition_history)
qed

inductive base_step :: "transaction_status \<Rightarrow> transaction_status \<Rightarrow> bool" where
  "validateBaseTransition tx s t = Inr () \<Longrightarrow> base_step s t"

inductive_cases base_stepE: "base_step s t"

lemma base_step_iff: "base_step s t \<longleftrightarrow> s = t \<or> t \<in> set (VALID_BASE_TRANSITIONS s)"
  by (auto elim!: base_stepE intro!: base_step.intros
      simp: validateBaseTransition_def isValidBaseTransition_def split: if_splits)

fun base_settled :: "transaction_status \<Rightarrow> bool" where
  "base_settled Pending = False"
| "base_settled Review = False"
| "base_settled Cancelled = False"
| "base_settled s = True"

interpretation settled: invariant_machine "\<lambda>s. s = Completed" base_step base_settled
proof unfold_locales
  fix s t
  assume "base_settled s" and "base_step s t"
  then show "base_settled t" by (cases s) (auto simp: base_step_iff)
qed simp

subsection \<open>Properties\<close>

text \<open>
  No transaction completes without its gates: on every path of accepted transitions from
  INITIATED to COMPLETED, the last statuses are a compliance gate (the AML check or the manual
  review), then the reservation of funds, the submission and the processing by the provider, in
  this order, with at most the wait for confirmation before COMPLETED.
\<close>

theorem completed_passes_gates:
  assumes "status_path (INITIATED # xs @ [COMPLETED])"
  shows "\<exists>ys g zs. INITIATED # xs @ [COMPLETED] =
      ys @ [g, FUNDS_RESERVED, SUBMITTED_TO_PROVIDER, PROVIDER_PROCESSING] @ zs \<and>
      (g = AML_CHECKING \<or> g = FLAGGED_FOR_REVIEW) \<and>
      (zs = [COMPLETED] \<or> zs = [AWAITING_CONFIRMATION, COMPLETED])"
proof -
  have "initiated_path (INITIATED # xs) COMPLETED" using assms by (simp add: initiated_path_def)
  then obtain ys s where 1: "INITIATED # xs = ys @ [s]" "initiated_path ys s" "isValidTransition s COMPLETED"
    using initiated_path_back by blast
  have eq: "INITIATED # xs @ [COMPLETED] = ys @ [s, COMPLETED]"
    using arg_cong [OF 1(1), of "\<lambda>l. l @ [COMPLETED]"] by simp
  from predecessor [OF 1(3)] consider "s = PROVIDER_PROCESSING" | "s = AWAITING_CONFIRMATION" by blast
  then show ?thesis
  proof cases
    case 1
    with initiated_path_processing [of ys] \<open>initiated_path ys s\<close> obtain ws g
      where "ys = ws @ [g, FUNDS_RESERVED, SUBMITTED_TO_PROVIDER]"
        and "g = AML_CHECKING \<or> g = FLAGGED_FOR_REVIEW" by blast
    with eq 1 show ?thesis by (intro exI [of _ ws] exI [of _ g] exI [of _ "[COMPLETED]"]) simp
  next
    case 2
    then obtain zs u where 3: "ys = zs @ [u]" "initiated_path zs u" "isValidTransition u AWAITING_CONFIRMATION"
      using initiated_path_back [of ys AWAITING_CONFIRMATION] \<open>initiated_path ys s\<close> by auto
    then have u: "u = PROVIDER_PROCESSING" using predecessor by blast
    with 3 initiated_path_processing [of zs] obtain ws g
      where "zs = ws @ [g, FUNDS_RESERVED, SUBMITTED_TO_PROVIDER]"
        and "g = AML_CHECKING \<or> g = FLAGGED_FOR_REVIEW" by blast
    with eq 2 3 u show ?thesis
      by (intro exI [of _ ws] exI [of _ g] exI [of _ "[AWAITING_CONFIRMATION, COMPLETED]"]) simp
  qed
qed

lemma completed_passes_gates_witness:
  "\<exists>ys g zs. INITIATED # [KYC_VERIFYING, AML_CHECKING, FUNDS_RESERVED, SUBMITTED_TO_PROVIDER,
        PROVIDER_PROCESSING] @ [COMPLETED] =
      ys @ [g, FUNDS_RESERVED, SUBMITTED_TO_PROVIDER, PROVIDER_PROCESSING] @ zs \<and>
      (g = AML_CHECKING \<or> g = FLAGGED_FOR_REVIEW) \<and>
      (zs = [COMPLETED] \<or> zs = [AWAITING_CONFIRMATION, COMPLETED])"
  by (rule completed_passes_gates) (simp add: isValidTransition_def)

text \<open>
  The history the service keeps is append-only and every entry in it is an allowed
  transition with the explanation of its target, after any sequence of calls with any arguments.
\<close>

theorem recorded_history_allowed:
  assumes "steps_from workflow_step [] h" and "steps_from workflow_step h h'"
  shows "(\<exists>es. getHistory h' tx = getHistory h tx @ es) \<and>
    list_all (\<lambda>e. isValidTransition (fromStatus e) (toStatus e) \<and>
      explanation e = EXPLANATIONS (toStatus e)) (getHistory h' tx)"
proof -
  have "history_ok h'"
    using workflow_inv.inv_reachable steps_from_trans [OF assms] by blast
  then show ?thesis
    using workflow_history_grows [OF assms(2)] by (auto simp: history_ok_def list_all_iff)
qed

lemma recorded_history_allowed_witness:
  "list_all (\<lambda>e. isValidTransition (fromStatus e) (toStatus e) \<and> explanation e = EXPLANATIONS (toStatus e))
     (getHistory (snd (transition ''tx'' INITIATED FAILED ''system'' None 5 [])) ''tx'')"
proof -
  have "steps_from workflow_step [] (snd (transition ''tx'' INITIATED FAILED ''system'' None 5 []))"
    by (rule steps_step, rule steps_refl, rule workflow_step.intros)
  from recorded_history_allowed [OF steps_refl this] show ?thesis ..
qed

text \<open>
  Histories of different transactions do not interfere: what is recorded for a transaction
  after any sequence of calls is what the calls for that transaction alone record.
\<close>

theorem history_isolation:
  "getHistory (fold (\<lambda>(tx, c). call_transition tx c) calls h) tx =
     getHistory (fold (\<lambda>(tx, c). call_transition tx c) (filter (\<lambda>p. fst p = tx) calls) h) tx"
proof -
  have run: "workflow.run cs s = fold (\<lambda>(tx, c). call_transition tx c) cs s" for cs s
    by (induction cs arbitrary: s) auto
  show ?thesis using workflow.run_projection [of calls h tx] by (simp only: run)
qed

text \<open>
  A settled transaction never becomes pending again: from Completed, any number of
  transitions that the base check lets pass lead to Completed, Dispute, Reversed, ClawedBack or
  Failed, and once Failed, Cancelled, Reversed or ClawedBack the status does not change.
\<close>

theorem settled_never_pending:
  assumes "steps_from base_step s t"
  shows "(s = Completed \<longrightarrow> t \<notin> {Pending, Review, Cancelled}) \<and> (base_terminal s \<longrightarrow> t = s)"
proof -
  have "t \<notin> {Pending, Review, Cancelled}" if "s = Completed"
    using settled.inv_reachable [OF that assms] by (cases t) auto
  moreover have "t = s" if "base_terminal s"
    using assms that by (induction rule: steps_from.induct) (auto simp: base_step_iff)
  ultimately show ?thesis by blast
qed

lemma settled_never_pending_witness: "Failed \<notin> {Pending, Review, Cancelled}"
proof -
  have "base_step Completed Dispute" and "base_step Dispute Failed" by (simp_all add: base_step_iff)
  then have "steps_from base_step Completed Failed" by (blast intro: steps_step)
  from settled_never_pending [OF this] show ?thesis by blast
qed

text \<open>
  The service trusts the caller for the current status: after a transaction is recorded as
  FAILED, which has no successor in the table, a call that claims another current status is
  still accepted and recorded.
\<close>

theorem terminal_history_continues:
  "let h = snd (transition ''tx'' INITIATED FAILED ''system'' None 1 []);
       (r, h') = transition ''tx'' FUNDS_RESERVED SUBMITTED_TO_PROVIDER ''worker'' None 2 h
   in isl r = False \<and> map (\<lambda>e. (fromStatus e, toStatus e)) (getHistory h' ''tx'') =
        [(INITIATED, FAILED), (FUNDS_RESERVED, SUBMITTED_TO_PROVIDER)]"
  by (simp add: transition_def isValidTransition_def getHistory_def map_get_def map_set_def Let_def)

end
