(* ===== verification/Webhook_Breaker.thy ===== *)
theory Webhook_Breaker
  imports Js_Value
begin

text \<open>
  \<open>src/src/services/webhookCircuitBreaker.ts\<close>: the three-state circuit breaker for outbound
  webhook delivery, one record per destination URL, with the state gauge and the transition
  counter it publishes. Times are epoch milliseconds; \<open>recordFailure\<close> reads the clock twice,
  so it takes two readings. Log lines are not part of the state.
\<close>

subsection \<open>Data\<close>

datatype circuit_state = Closed | Open | HalfOpen

datatype circuit_transition_reason =
  failure_threshold | recovery_probe | probe_succeeded | probe_failed | manual_reset
| half_open_inflight

record breaker_record =
  state :: circuit_state
  consecutiveFailures :: nat
  totalFailures :: nat
  totalSuccesses :: nat
  openedAt :: "int option"
  lastFailureAt :: "int option"
  lastSuccessAt :: "int option"
  lastError :: "string option"
  probeInFlight :: bool

record breaker_service =
  failureThreshold :: int
  recoveryAfterMs :: int
  breakers :: "(string, breaker_record) js_map"
  state_gauge :: "circuit_state \<Rightarrow> nat"
  transitions_total :: "(circuit_state \<times> circuit_state \<times> circuit_transition_reason) list"

record breaker_snapshot =
  snap_url :: string
  snap_record :: breaker_record
  snap_failureThreshold :: int
  snap_recoveryAfterMs :: int
  snap_openedAt :: "iso_text option"
  snap_nextProbeAt :: "iso_text option"
  snap_lastFailureAt :: "iso_text option"
  snap_lastSuccessAt :: "iso_text option"

definition DEFAULT_FAILURE_THRESHOLD :: int where
  "DEFAULT_FAILURE_THRESHOLD = 10"

definition DEFAULT_RECOVERY_AFTER_MS :: int where
  "DEFAULT_RECOVERY_AFTER_MS = 24 * 60 * 60 * 1000"

subsection \<open>Construction\<close>

definition positiveInt :: "js_num option \<Rightarrow> int \<Rightarrow> int" where
  "positiveInt v fallback =
     (case v of Some (Fin x) \<Rightarrow> if x > 0 then \<lfloor>x\<rfloor> else fallback | _ \<Rightarrow> fallback)"

definition env_or_empty :: "string option \<Rightarrow> string" where
  "env_or_empty e = (case e of None \<Rightarrow> [] | Some s \<Rightarrow> s)"

definition new_breaker ::
  "js_num option \<Rightarrow> js_num option \<Rightarrow> string option \<Rightarrow> string option \<Rightarrow> (circuit_state \<Rightarrow> nat)
   \<Rightarrow> breaker_service" where
  "new_breaker threshold recovery env_threshold env_recovery g =
     \<lparr>failureThreshold = positiveInt threshold
        (positiveInt (Some (parse_int (env_or_empty env_threshold))) DEFAULT_FAILURE_THRESHOLD),
      recoveryAfterMs = positiveInt recovery
        (positiveInt (Some (parse_int (env_or_empty env_recovery))) DEFAULT_RECOVERY_AFTER_MS),
      breakers = [], state_gauge = g, transitions_total = []\<rparr>"

definition fresh_record :: breaker_record where
  "fresh_record =
     \<lparr>state = Closed, consecutiveFailures = 0, totalFailures = 0, totalSuccesses = 0,
      openedAt = None, lastFailureAt = None, lastSuccessAt = None, lastError = None,
      probeInFlight = False\<rparr>"

subsection \<open>Operations\<close>

text \<open>\<open>record(url)\<close> returns the entry of the map, creating it; the entry is shared with the map.\<close>

definition entry_of :: "breaker_service \<Rightarrow> string \<Rightarrow> breaker_record" where
  "entry_of s url = (case map_get (breakers s) url of None \<Rightarrow> fresh_record | Some e \<Rightarrow> e)"

definition put_entry :: "string \<Rightarrow> breaker_record \<Rightarrow> breaker_service \<Rightarrow> breaker_service" where
  "put_entry url e s = s\<lparr>breakers := map_set url e (breakers s)\<rparr>"

definition record_entry :: "string \<Rightarrow> breaker_service \<Rightarrow> breaker_service" where
  "record_entry url s =
     (case map_get (breakers s) url of None \<Rightarrow> put_entry url fresh_record s | Some e \<Rightarrow> s)"

definition publishState :: "circuit_state \<Rightarrow> breaker_service \<Rightarrow> breaker_service" where
  "publishState st s =
     fold (\<lambda>candidate s. s\<lparr>state_gauge := (state_gauge s)(candidate := (if candidate = st then 1 else 0))\<rparr>)
       [Closed, Open, HalfOpen] s"

definition transition ::
  "string \<Rightarrow> circuit_state \<Rightarrow> circuit_transition_reason \<Rightarrow> int \<Rightarrow> breaker_service \<Rightarrow> breaker_service" where
  "transition url to why now s =
     (let entry = entry_of s url; from = state entry in
      if from = to then s
      else let e1 = entry\<lparr>state := to\<rparr>;
               e2 = (if to = Open then e1\<lparr>openedAt := Some now\<rparr>
                     else if to = Closed
                     then e1\<lparr>consecutiveFailures := 0, openedAt := None, probeInFlight := False\<rparr>
                     else e1);
               s1 = publishState to (put_entry url e2 s)
           in s1\<lparr>transitions_total := transitions_total s1 @ [(from, to, why)]\<rparr>)"

definition maybeHalfOpen :: "string \<Rightarrow> int \<Rightarrow> breaker_service \<Rightarrow> breaker_service" where
  "maybeHalfOpen url now s =
     (let entry = entry_of s url in
      if state entry \<noteq> Open then s
      else case openedAt entry of
             None \<Rightarrow> s
           | Some t \<Rightarrow> if now - t < recoveryAfterMs s then s
                       else transition url HalfOpen recovery_probe now s)"

definition acquirePermission ::
  "string \<Rightarrow> int \<Rightarrow> breaker_service \<Rightarrow> circuit_state \<times> breaker_service" where
  "acquirePermission url now s =
     (let s1 = maybeHalfOpen url now (record_entry url s); entry = entry_of s1 url in
      if state entry = Open then (Open, publishState Open s1)
      else if state entry = HalfOpen then
        (if probeInFlight entry then (Open, publishState HalfOpen s1)
         else (HalfOpen, publishState HalfOpen (put_entry url (entry\<lparr>probeInFlight := True\<rparr>) s1)))
      else (Closed, publishState (state entry) s1))"

definition recordSuccess :: "string \<Rightarrow> int \<Rightarrow> breaker_service \<Rightarrow> breaker_service" where
  "recordSuccess url now s =
     (let s1 = record_entry url s; entry = entry_of s1 url;
          e1 = entry\<lparr>totalSuccesses := totalSuccesses entry + 1, lastSuccessAt := Some now,
                     lastError := None\<rparr>;
          s2 = put_entry url e1 s1
      in if state e1 = HalfOpen then transition url Closed probe_succeeded now s2
         else put_entry url (e1\<lparr>consecutiveFailures := 0\<rparr>) s2)"

definition recordFailure ::
  "string \<Rightarrow> string option \<Rightarrow> bool \<Rightarrow> int \<Rightarrow> int \<Rightarrow> breaker_service \<Rightarrow> breaker_service" where
  "recordFailure url error wasProbe now1 now2 s =
     (let s1 = record_entry url s; entry = entry_of s1 url;
          e1 = entry\<lparr>totalFailures := totalFailures entry + 1,
                     consecutiveFailures := consecutiveFailures entry + 1,
                     lastFailureAt := Some now1, lastError := error\<rparr>;
          s2 = put_entry url e1 s1
      in if state e1 = HalfOpen
         then transition url Open probe_failed now2 (put_entry url (e1\<lparr>probeInFlight := False\<rparr>) s2)
         else if state e1 = Closed \<and> int (consecutiveFailures e1) \<ge> failureThreshold s2
         then transition url Open failure_threshold now2 s2
         else if wasProbe \<and> state e1 = Open \<and> int (consecutiveFailures e1) \<ge> failureThreshold s2
         then transition url Open probe_failed now2 s2
         else s2)"

definition iso_opt :: "int option \<Rightarrow> range_error + iso_text option" where
  "iso_opt t = (case t of None \<Rightarrow> Inr None
     | Some ms \<Rightarrow> (case toISOString (time_clip ms) of Inl e \<Rightarrow> Inl e | Inr x \<Rightarrow> Inr (Some x)))"

definition snapshot :: "string \<Rightarrow> breaker_service \<Rightarrow> (range_error + breaker_snapshot) \<times> breaker_service" where
  "snapshot url s =
     (let s1 = record_entry url s; entry = entry_of s1 url;
          nextProbe = (if state entry = Open
                       then map_option (\<lambda>t. t + recoveryAfterMs s1) (openedAt entry) else None)
      in ((case iso_opt (openedAt entry) of Inl e \<Rightarrow> Inl e | Inr a \<Rightarrow>
           (case iso_opt nextProbe of Inl e \<Rightarrow> Inl e | Inr b \<Rightarrow>
            (case iso_opt (lastFailureAt entry) of Inl e \<Rightarrow> Inl e | Inr c \<Rightarrow>
             (case iso_opt (lastSuccessAt entry) of Inl e \<Rightarrow> Inl e | Inr d \<Rightarrow>
               Inr \<lparr>snap_url = url, snap_record = entry,
                    snap_failureThreshold = failureThreshold s1,
                    snap_recoveryAfterMs = recoveryAfterMs s1,
                    snap_openedAt = a, snap_nextProbeAt = b,
                    snap_lastFailureAt = c, snap_lastSuccessAt = d\<rparr>)))), s1))"

definition reset ::
  "string \<Rightarrow> int \<Rightarrow> breaker_service \<Rightarrow> (range_error + breaker_snapshot) \<times> breaker_service" where
  "reset url now s =
     (let s1 = record_entry url s; entry = entry_of s1 url;
          s2 = put_entry url (entry\<lparr>consecutiveFailures := 0, openedAt := None,
                 probeInFlight := False, lastError := None\<rparr>) s1;
          s3 = transition url Closed manual_reset now s2
      in snapshot url s3)"

definition clear :: "breaker_service \<Rightarrow> breaker_service" where
  "clear s = s\<lparr>breakers := []\<rparr>"

subsection \<open>What each operation does to the records and to the gauge\<close>

lemma entry_of_put [simp]: "entry_of (put_entry url e s) u = (if u = url then e else entry_of s u)"
  by (simp add: entry_of_def put_entry_def map_get_set)

lemma publishState_eq:
  "publishState st s = s\<lparr>state_gauge := (\<lambda>c. if c = st then 1 else 0)\<rparr>"
proof -
  have "((((g :: circuit_state \<Rightarrow> nat)(Closed := a))(Open := b))(HalfOpen := c)) =
      (\<lambda>x. case x of Closed \<Rightarrow> a | Open \<Rightarrow> b | HalfOpen \<Rightarrow> c)" for g a b c
    by (rule ext) (simp split: circuit_state.split)
  moreover have "(\<lambda>x. case x of Closed \<Rightarrow> if Closed = st then 1 else 0 | Open \<Rightarrow> if Open = st then 1 else 0
      | HalfOpen \<Rightarrow> if HalfOpen = st then 1 else 0) = (\<lambda>c. if c = st then 1 else (0 :: nat))"
    by (rule ext) (simp split: circuit_state.split)
  ultimately show ?thesis by (simp add: publishState_def)
qed

lemma entry_of_publish [simp]: "entry_of (publishState st s) u = entry_of s u"
  by (simp add: publishState_eq entry_of_def)

lemma entry_of_record_entry [simp]: "entry_of (record_entry url s) u = entry_of s u"
  by (simp add: record_entry_def entry_of_def put_entry_def map_get_set split: option.split)

lemma entry_of_count [simp]: "entry_of (s\<lparr>transitions_total := x\<rparr>) u = entry_of s u"
  by (simp add: entry_of_def)

lemma config_frame [simp]:
  "failureThreshold (put_entry url e s) = failureThreshold s"
  "recoveryAfterMs (put_entry url e s) = recoveryAfterMs s"
  "failureThreshold (publishState st s) = failureThreshold s"
  "recoveryAfterMs (publishState st s) = recoveryAfterMs s"
  "failureThreshold (record_entry url s) = failureThreshold s"
  "recoveryAfterMs (record_entry url s) = recoveryAfterMs s"
  by (simp_all add: put_entry_def publishState_eq record_entry_def split: option.split)

text \<open>The effect on one record, as functions on records: the abstract breaker.\<close>

definition move_record :: "circuit_state \<Rightarrow> int \<Rightarrow> breaker_record \<Rightarrow> breaker_record" where
  "move_record to now e =
     (if state e = to then e
      else case to of
        Open \<Rightarrow> e\<lparr>state := Open, openedAt := Some now\<rparr>
      | Closed \<Rightarrow> e\<lparr>state := Closed, consecutiveFailures := 0, openedAt := None, probeInFlight := False\<rparr>
      | HalfOpen \<Rightarrow> e\<lparr>state := HalfOpen\<rparr>)"

definition probe_due :: "int \<Rightarrow> int \<Rightarrow> breaker_record \<Rightarrow> bool" where
  "probe_due recovery now e =
     (state e = Open \<and> (case openedAt e of None \<Rightarrow> False | Some t \<Rightarrow> recovery \<le> now - t))"

definition acquire_record :: "int \<Rightarrow> int \<Rightarrow> breaker_record \<Rightarrow> circuit_state \<times> breaker_record" where
  "acquire_record recovery now e =
     (let e' = (if probe_due recovery now e then e\<lparr>state := HalfOpen\<rparr> else e) in
      case state e' of
        Open \<Rightarrow> (Open, e')
      | HalfOpen \<Rightarrow> if probeInFlight e' then (Open, e') else (HalfOpen, e'\<lparr>probeInFlight := True\<rparr>)
      | Closed \<Rightarrow> (Closed, e'))"

definition success_record :: "int \<Rightarrow> breaker_record \<Rightarrow> breaker_record" where
  "success_record now e =
     (let e' = e\<lparr>totalSuccesses := totalSuccesses e + 1, lastSuccessAt := Some now, lastError := None\<rparr> in
      if state e = HalfOpen then move_record Closed now e' else e'\<lparr>consecutiveFailures := 0\<rparr>)"

definition failure_record ::
  "int \<Rightarrow> string option \<Rightarrow> int \<Rightarrow> int \<Rightarrow> breaker_record \<Rightarrow> breaker_record" where
  "failure_record threshold error now1 now2 e =
     (let e' = e\<lparr>totalFailures := totalFailures e + 1, consecutiveFailures := consecutiveFailures e + 1,
                 lastFailureAt := Some now1, lastError := error\<rparr> in
      if state e = HalfOpen then move_record Open now2 (e'\<lparr>probeInFlight := False\<rparr>)
      else if state e = Closed \<and> int (consecutiveFailures e + 1) \<ge> threshold then move_record Open now2 e'
      else e')"

definition reset_record :: "breaker_record \<Rightarrow> breaker_record" where
  "reset_record e = e\<lparr>state := Closed, consecutiveFailures := 0, openedAt := None,
     probeInFlight := False, lastError := None\<rparr>"

lemma entry_of_transition [simp]:
  "entry_of (transition url to why now s) u =
     (if u = url then move_record to now (entry_of s url) else entry_of s u)"
  by (cases to) (auto simp: transition_def move_record_def Let_def)

lemma transition_config [simp]:
  "failureThreshold (transition url to why now s) = failureThreshold s"
  "recoveryAfterMs (transition url to why now s) = recoveryAfterMs s"
  by (simp_all add: transition_def Let_def)

lemma entry_of_maybeHalfOpen [simp]:
  "entry_of (maybeHalfOpen url now s) u =
     (if u = url \<and> probe_due (recoveryAfterMs s) now (entry_of s url)
      then (entry_of s url)\<lparr>state := HalfOpen\<rparr> else entry_of s u)"
  by (auto simp: maybeHalfOpen_def probe_due_def move_record_def Let_def split: option.split)

lemma acquire_entry:
  "entry_of (snd (acquirePermission url now s)) u =
     (if u = url then snd (acquire_record (recoveryAfterMs s) now (entry_of s url)) else entry_of s u)"
  by (auto simp: acquirePermission_def acquire_record_def Let_def split: circuit_state.splits)

lemma acquire_permission:
  "fst (acquirePermission url now s) = fst (acquire_record (recoveryAfterMs s) now (entry_of s url))"
  by (auto simp: acquirePermission_def acquire_record_def Let_def split: circuit_state.splits)

lemma success_entry:
  "entry_of (recordSuccess url now s) u =
     (if u = url then success_record now (entry_of s url) else entry_of s u)"
  by (auto simp: recordSuccess_def success_record_def Let_def)

lemma failure_entry:
  "entry_of (recordFailure url error p now1 now2 s) u =
     (if u = url then failure_record (failureThreshold s) error now1 now2 (entry_of s url)
      else entry_of s u)"
  by (auto simp: recordFailure_def failure_record_def move_record_def Let_def)

lemma snapshot_entry: "entry_of (snd (snapshot url s)) u = entry_of s u"
  by (simp add: snapshot_def Let_def)

lemma reset_entry:
  "entry_of (snd (reset url now s)) u = (if u = url then reset_record (entry_of s url) else entry_of s u)"
  by (auto simp: reset_def snapshot_entry reset_record_def move_record_def Let_def)

lemma op_config [simp]:
  "failureThreshold (snd (acquirePermission url now s)) = failureThreshold s"
  "recoveryAfterMs (snd (acquirePermission url now s)) = recoveryAfterMs s"
  "failureThreshold (recordSuccess url now s) = failureThreshold s"
  "recoveryAfterMs (recordSuccess url now s) = recoveryAfterMs s"
  "failureThreshold (recordFailure url error p now1 now2 s) = failureThreshold s"
  "recoveryAfterMs (recordFailure url error p now1 now2 s) = recoveryAfterMs s"
  "failureThreshold (snd (snapshot url s)) = failureThreshold s"
  "recoveryAfterMs (snd (snapshot url s)) = recoveryAfterMs s"
  "failureThreshold (snd (reset url now s)) = failureThreshold s"
  "recoveryAfterMs (snd (reset url now s)) = recoveryAfterMs s"
  by (simp_all add: acquirePermission_def maybeHalfOpen_def recordSuccess_def recordFailure_def
      snapshot_def reset_def Let_def split: option.split)

lemmas breaker_entries = acquire_entry success_entry failure_entry snapshot_entry reset_entry

subsection \<open>Runs\<close>

datatype breaker_op =
  Acquire int | Success int | Failure "string option" bool int int | Reset int | Snapshot

fun apply_op :: "string \<Rightarrow> breaker_op \<Rightarrow> breaker_service \<Rightarrow> breaker_service" where
  "apply_op url (Acquire now) s = snd (acquirePermission url now s)"
| "apply_op url (Success now) s = recordSuccess url now s"
| "apply_op url (Failure error p now1 now2) s = recordFailure url error p now1 now2 s"
| "apply_op url (Reset now) s = snd (reset url now s)"
| "apply_op url Snapshot s = snd (snapshot url s)"

definition run_ops :: "(string \<times> breaker_op) list \<Rightarrow> breaker_service \<Rightarrow> breaker_service" where
  "run_ops ops s = fold (\<lambda>(url, op). apply_op url op) ops s"

lemma run_ops_simps [simp]:
  "run_ops [] s = s"
  "run_ops ((url, op) # ops) s = run_ops ops (apply_op url op s)"
  by (simp_all add: run_ops_def)

lemma apply_op_config [simp]:
  "failureThreshold (apply_op url op s) = failureThreshold s"
  "recoveryAfterMs (apply_op url op s) = recoveryAfterMs s"
  by (cases op; simp)+

lemma run_ops_config [simp]:
  "failureThreshold (run_ops ops s) = failureThreshold s"
  "recoveryAfterMs (run_ops ops s) = recoveryAfterMs s"
  by (induction ops arbitrary: s) auto

text \<open>What is observed under a URL: its record and the configuration.\<close>

definition observe :: "breaker_service \<Rightarrow> string \<Rightarrow> int \<times> int \<times> breaker_record" where
  "observe s url = (failureThreshold s, recoveryAfterMs s, entry_of s url)"

interpretation webhook: keyed_component apply_op observe
proof unfold_locales
  show "k' \<noteq> k \<Longrightarrow> observe (apply_op k op s) k' = observe s k'" for k k' op s
    by (cases op) (simp_all add: observe_def breaker_entries)
  show "observe s k = observe s' k \<Longrightarrow> observe (apply_op k op s) k = observe (apply_op k op s') k" for s k s' op
    by (cases op) (simp_all add: observe_def breaker_entries)
qed

lemma run_ops_run: "webhook.run ops s = run_ops ops s"
  by (induction ops arbitrary: s) auto

lemma apply_op_other: "u \<noteq> url \<Longrightarrow> entry_of (apply_op u op s) url = entry_of s url"
  using webhook.frame [of url u op s] by (simp add: observe_def)

subsection \<open>The invariant\<close>

definition record_ok :: "int \<Rightarrow> breaker_record \<Rightarrow> bool" where
  "record_ok threshold e \<longleftrightarrow>
     consecutiveFailures e \<le> totalFailures e \<and>
     (case state e of
        Closed \<Rightarrow> openedAt e = None \<and> \<not> probeInFlight e \<and>
          (consecutiveFailures e = 0 \<or> int (consecutiveFailures e) < threshold)
      | Open \<Rightarrow> openedAt e \<noteq> None \<and> \<not> probeInFlight e
      | HalfOpen \<Rightarrow> openedAt e \<noteq> None)"

lemma record_ok_fresh: "record_ok threshold fresh_record"
  by (simp add: record_ok_def fresh_record_def)

lemma record_ok_acquire: "record_ok threshold e \<Longrightarrow> record_ok threshold (snd (acquire_record r now e))"
  by (cases "state e") (auto simp: record_ok_def acquire_record_def probe_due_def Let_def)

lemma record_ok_success: "record_ok threshold e \<Longrightarrow> record_ok threshold (success_record now e)"
  by (cases "state e") (auto simp: record_ok_def success_record_def move_record_def Let_def)

lemma record_ok_failure: "record_ok threshold e \<Longrightarrow> record_ok threshold (failure_record threshold err t1 t2 e)"
  by (cases "state e") (auto simp: record_ok_def failure_record_def move_record_def Let_def)

lemma record_ok_reset: "record_ok threshold e \<Longrightarrow> record_ok threshold (reset_record e)"
  by (simp add: record_ok_def reset_record_def)

lemmas record_oks = record_ok_acquire record_ok_success record_ok_failure record_ok_reset

definition service_ok :: "breaker_service \<Rightarrow> bool" where
  "service_ok s \<longleftrightarrow> (\<forall>url. record_ok (failureThreshold s) (entry_of s url))"

inductive breaker_step :: "breaker_service \<Rightarrow> breaker_service \<Rightarrow> bool" where
  step_op: "breaker_step s (apply_op url op s)"
| step_clear: "breaker_step s (clear s)"

inductive_cases breaker_stepE: "breaker_step s t"

lemma service_ok_apply: "service_ok s \<Longrightarrow> service_ok (apply_op url op s)"
  by (cases op) (auto simp: service_ok_def breaker_entries intro: record_oks)

interpretation webhook_inv: invariant_machine "\<lambda>s. breakers s = []" breaker_step service_ok
proof unfold_locales
  show "breakers s = [] \<Longrightarrow> service_ok s" for s
    by (simp add: service_ok_def entry_of_def record_ok_fresh)
  show "service_ok s \<Longrightarrow> breaker_step s t \<Longrightarrow> service_ok t" for s t
    by (auto elim!: breaker_stepE intro: service_ok_apply)
      (simp add: service_ok_def clear_def entry_of_def record_ok_fresh)
qed

subsection \<open>Stability of the open and of the probing state\<close>

fun probing_op :: "breaker_op \<Rightarrow> bool" where
  "probing_op (Acquire now) = True"
| "probing_op Snapshot = True"
| "probing_op op = False"

lemma probe_blocks_run:
  assumes "state (entry_of s url) = HalfOpen" and "probeInFlight (entry_of s url)"
    and "\<forall>(u, op) \<in> set ops. u = url \<longrightarrow> probing_op op"
  shows "state (entry_of (run_ops ops s) url) = HalfOpen \<and> probeInFlight (entry_of (run_ops ops s) url)"
  using assms
proof (induction ops arbitrary: s)
  case Nil
  then show ?case by simp
next
  case (Cons p ops)
  obtain u op where p: "p = (u, op)" by (cases p)
  have "entry_of (apply_op u op s) url = entry_of s url"
  proof (cases "u = url")
    case True
    with Cons.prems p show ?thesis
      by (cases op) (auto simp: breaker_entries acquire_record_def probe_due_def Let_def)
  qed (rule apply_op_other)
  with Cons show ?case by (simp add: p)
qed

text \<open>Operations that happen before a given time and do not reset the breaker by hand.\<close>

fun before_op :: "int \<Rightarrow> breaker_op \<Rightarrow> bool" where
  "before_op t (Acquire now) = (now < t)"
| "before_op t (Reset now) = False"
| "before_op t op = True"

lemma open_stays_run:
  assumes "state (entry_of s url) = Open" and "openedAt (entry_of s url) = Some t0"
    and "\<forall>(u, op) \<in> set ops. u = url \<longrightarrow> before_op (t0 + recoveryAfterMs s) op"
  shows "state (entry_of (run_ops ops s) url) = Open \<and> openedAt (entry_of (run_ops ops s) url) = Some t0"
  using assms
proof (induction ops arbitrary: s)
  case Nil
  then show ?case by simp
next
  case (Cons p ops)
  obtain u op where p: "p = (u, op)" by (cases p)
  have "state (entry_of (apply_op u op s) url) = Open \<and> openedAt (entry_of (apply_op u op s) url) = Some t0"
  proof (cases "u = url")
    case True
    with Cons.prems p show ?thesis
      by (cases op) (auto simp: breaker_entries acquire_record_def probe_due_def success_record_def
          failure_record_def Let_def)
  next
    case False
    with Cons.prems show ?thesis by (simp add: apply_op_other)
  qed
  with Cons show ?case by (simp add: p)
qed

lemma failures_run:
  assumes "state (entry_of s url) = Closed" and "0 < failureThreshold s"
    and "int (consecutiveFailures (entry_of s url) + length fs) < failureThreshold s"
  shows "state (entry_of (run_ops (map (\<lambda>(err, p, t1, t2). (url, Failure err p t1 t2)) fs) s) url) = Closed \<and>
    consecutiveFailures (entry_of (run_ops (map (\<lambda>(err, p, t1, t2). (url, Failure err p t1 t2)) fs) s) url) =
      consecutiveFailures (entry_of s url) + length fs"
  using assms
proof (induction fs arbitrary: s)
  case Nil
  then show ?case by simp
next
  case (Cons f fs)
  obtain err p t1 t2 where f: "f = (err, p, t1, t2)" by (cases f)
  let ?s = "apply_op url (Failure err p t1 t2) s"
  have "state (entry_of ?s url) = Closed"
    and "consecutiveFailures (entry_of ?s url) = consecutiveFailures (entry_of s url) + 1"
    using Cons.prems by (simp_all add: failure_entry failure_record_def Let_def)
  with Cons.IH [of ?s] Cons.prems f show ?case by simp
qed

subsection \<open>Properties\<close>

text \<open>
  C10. One probe at a time: after a caller is admitted as the half-open probe of a URL, every
  other request for that URL is refused, whatever time passes and whatever happens on other
  URLs, until a verdict (success, failure) or a manual reset arrives for it.
\<close>

theorem single_probe:
  assumes "acquirePermission url now s = (HalfOpen, s1)"
    and "\<forall>(u, op) \<in> set ops. u = url \<longrightarrow> probing_op op"
  shows "fst (acquirePermission url now' (run_ops ops s1)) = Open"
proof -
  have "fst (acquire_record (recoveryAfterMs s) now (entry_of s url)) = HalfOpen"
    and "entry_of s1 url = snd (acquire_record (recoveryAfterMs s) now (entry_of s url))"
    using assms(1) acquire_permission [of url now s] acquire_entry [of url now s url] by simp_all
  then have "state (entry_of s1 url) = HalfOpen" and "probeInFlight (entry_of s1 url)"
    by (auto simp: acquire_record_def Let_def split: circuit_state.splits if_splits)
  from probe_blocks_run [OF this assms(2)] show ?thesis
    by (simp add: acquire_permission acquire_record_def probe_due_def Let_def)
qed

lemma entry_of_empty: "breakers s = [] \<Longrightarrow> entry_of s url = fresh_record"
  by (simp add: entry_of_def)

definition example_service :: breaker_service where
  "example_service =
     \<lparr>failureThreshold = 1, recoveryAfterMs = 100, breakers = [], state_gauge = (\<lambda>_. 0),
      transitions_total = []\<rparr>"

definition example_open :: breaker_service where
  "example_open = recordFailure ''u'' None False 0 0 example_service"

lemma example_open_entry:
  "state (entry_of example_open ''u'') = Open" "openedAt (entry_of example_open ''u'') = Some 0"
  "recoveryAfterMs example_open = 100" "probeInFlight (entry_of example_open ''u'') = False"
  by (simp_all add: example_open_def failure_entry failure_record_def move_record_def Let_def
      example_service_def entry_of_empty fresh_record_def)

lemma example_open_reachable: "steps_from breaker_step example_service example_open"
proof (rule steps_from_one)
  show "breaker_step example_service example_open"
    using step_op [of example_service "''u''" "Failure None False 0 0"] by (simp add: example_open_def)
qed

lemma single_probe_witness:
  "fst (acquirePermission ''u'' 500 (run_ops [(''u'', Acquire 200), (''v'', Success 300)]
     (snd (acquirePermission ''u'' 100 example_open)))) = Open"
proof (rule single_probe)
  have "fst (acquirePermission ''u'' 100 example_open) = HalfOpen"
    by (simp add: acquire_permission acquire_record_def probe_due_def example_open_entry Let_def)
  then show "acquirePermission ''u'' 100 example_open = (HalfOpen, snd (acquirePermission ''u'' 100 example_open))"
    by (metis prod.collapse)
qed simp

text \<open>
  C21. An open breaker keeps callers off the network for the whole recovery period: once a URL's
  breaker is open since \<open>t0\<close>, every request before \<open>t0 + recoveryAfterMs\<close> is refused, also when
  successes and failures of earlier requests still come in; only a manual reset ends it earlier.
\<close>

theorem open_refuses_until_recovery:
  assumes "state (entry_of s url) = Open" and "openedAt (entry_of s url) = Some t0"
    and "\<forall>(u, op) \<in> set ops. u = url \<longrightarrow> before_op (t0 + recoveryAfterMs s) op"
    and "now < t0 + recoveryAfterMs s"
  shows "fst (acquirePermission url now (run_ops ops s)) = Open"
  using open_stays_run [OF assms(1-3)] assms(4)
  by (simp add: acquire_permission acquire_record_def probe_due_def Let_def)

lemma open_refuses_until_recovery_witness:
  "fst (acquirePermission ''u'' 99 (run_ops [(''u'', Success 50), (''u'', Failure None True 60 60)]
     example_open)) = Open"
  by (rule open_refuses_until_recovery [of example_open "''u''" 0]) (simp_all add: example_open_entry)

text \<open>
  C31. A tripped breaker does not stay tripped: in every reachable state, when the recovery period
  of an open URL is over, the next request is admitted as the probe; a successful probe closes
  the breaker with its failure count forgiven, a failed probe opens it for another full period.
\<close>

theorem recovery_probe_admitted:
  assumes "breakers s0 = []" and "steps_from breaker_step s0 s"
    and "state (entry_of s url) = Open" and "openedAt (entry_of s url) = Some t0"
    and "t0 + recoveryAfterMs s \<le> now"
  shows "fst (acquirePermission url now s) = HalfOpen \<and>
    (let s1 = snd (acquirePermission url now s);
         ok = entry_of (recordSuccess url t1 s1) url;
         ko = entry_of (recordFailure url err p t1 t2 s1) url
     in state ok = Closed \<and> consecutiveFailures ok = 0 \<and> fst (acquirePermission url t3 (recordSuccess url t1 s1)) = Closed \<and>
        state ko = Open \<and> openedAt ko = Some t2)"
proof -
  have "record_ok (failureThreshold s) (entry_of s url)"
    using webhook_inv.inv_reachable [OF assms(1,2)] by (simp add: service_ok_def)
  with assms(3) have "\<not> probeInFlight (entry_of s url)" by (simp add: record_ok_def)
  with assms(3-5) show ?thesis
    by (auto simp: acquire_permission breaker_entries acquire_record_def probe_due_def success_record_def
        failure_record_def move_record_def Let_def)
qed

lemma recovery_probe_admitted_witness:
  "fst (acquirePermission ''u'' 100 example_open) = HalfOpen"
proof -
  from recovery_probe_admitted [OF _ example_open_reachable, of "''u''" 0 100] show ?thesis
    by (simp add: example_open_entry example_service_def)
qed

text \<open>
  The threshold is exact: from a closed breaker with \<open>c\<close> failures counted, a row of failed
  deliveries leaves it closed as long as the count stays below the threshold, and the failure
  that reaches the threshold opens it at the time it is reported.
\<close>

theorem trips_at_threshold:
  assumes "state (entry_of s url) = Closed" and "0 < failureThreshold s"
    and "int (consecutiveFailures (entry_of s url) + length fs + 1) = failureThreshold s"
  shows "let s1 = run_ops (map (\<lambda>(err, p, t1, t2). (url, Failure err p t1 t2)) fs) s;
             s2 = recordFailure url err p t1 t2 s1
         in state (entry_of s1 url) = Closed \<and> state (entry_of s2 url) = Open \<and>
            openedAt (entry_of s2 url) = Some t2"
proof -
  have "int (consecutiveFailures (entry_of s url) + length fs) < failureThreshold s"
    using assms(3) by simp
  from failures_run [OF assms(1,2) this] assms(3) show ?thesis
    by (simp add: failure_entry failure_record_def move_record_def Let_def)
qed

lemma trips_at_threshold_witness:
  "let s1 = run_ops (map (\<lambda>(err, p, t1, t2). (''u'', Failure err p t1 t2)) []) example_service;
       s2 = recordFailure ''u'' None False 0 7 s1
   in state (entry_of s1 ''u'') = Closed \<and> state (entry_of s2 ''u'') = Open \<and>
      openedAt (entry_of s2 ''u'') = Some 7"
  by (rule trips_at_threshold) (simp_all add: example_service_def entry_of_empty fresh_record_def)

text \<open>
  The breaker refines a breaker per URL: after any run, the record of a URL is what the
  operations on that URL alone produce, so one destination's failures never affect another's.
\<close>

theorem breaker_isolation:
  "entry_of (run_ops ops s) url = entry_of (run_ops (filter (\<lambda>p. fst p = url) ops) s) url"
  using webhook.run_projection [of ops s url] by (simp add: observe_def run_ops_run)

text \<open>
  Every reachable record is well formed: a closed breaker has no opening time, no probe in
  flight and a count below the threshold; an open one has an opening time and no probe; the
  consecutive failures never exceed the total.
\<close>

theorem reachable_records_ok:
  assumes "breakers s0 = []" and "steps_from breaker_step s0 s"
  shows "record_ok (failureThreshold s) (entry_of s url)"
  using webhook_inv.inv_reachable [OF assms] by (simp add: service_ok_def)

lemma reachable_records_ok_witness: "record_ok 1 (entry_of example_open ''u'')"
proof -
  from reachable_records_ok [OF _ example_open_reachable, of "''u''"] show ?thesis
    by (simp add: example_service_def example_open_def)
qed

text \<open>
  The probe flag that callers pass to \<open>recordFailure\<close> has no effect: the branch that tests
  it asks for a transition from open to open, which does nothing.
\<close>

theorem wasProbe_has_no_effect:
  "recordFailure url err True t1 t2 s = recordFailure url err False t1 t2 s"
  by (simp add: recordFailure_def transition_def Let_def)

text \<open>
  \<open>positiveInt\<close> is not positive: a fractional option between 0 and 1 passes its test and is
  floored to 0, so a breaker built with it has threshold 0 and opens at the first failure.
\<close>

theorem positiveInt_fraction_is_zero:
  "positiveInt (Some (Fin (1 / 2))) DEFAULT_FAILURE_THRESHOLD = 0 \<and>
   state (entry_of (recordFailure ''u'' None False 0 0
     (new_breaker (Some (Fin (1 / 2))) None None None g)) ''u'') = Open"
  by (simp add: positiveInt_def failure_entry failure_record_def move_record_def Let_def
      new_breaker_def entry_of_empty fresh_record_def)

end
