(* ===== verification/Session_Queue.thy ===== *)
theory Session_Queue
  imports Js_Value
begin

text \<open>
  \<open>src/src/services/mobilemoney/sessionRequestQueue.ts\<close>: requests of one provider session run
  one at a time, in the order they were queued.

  The queue states are objects that outlive their entry in the map, so they live in a store
  (\<open>states\<close>, the index is the object's identity) and the map holds identities. The promise
  \<open>tail\<close> of a state is the list \<open>chain\<close> of the entries whose \<open>runEntry\<close> is still to be called
  and the entry \<open>current\<close> whose task is being awaited. The code between two awaits is one step:
  a call of \<open>enqueue\<close> or \<open>clear\<close>, the start of \<open>runEntry\<close> up to the await (\<open>run_start\<close>), and the
  rest of it once the task has settled (\<open>run_finish\<close>). The callbacks are observers: their calls
  are logged, and they return (one that throws in \<open>runEntry\<close> would leave its request unsettled and reject the
  chain of the session; the repository passes none outside its tests). \<open>started\<close> records the tasks in the order in which they are called.
\<close>

subsection \<open>Data\<close>

datatype session_error =
  SessionTimeoutError string int
| SessionQueueOverflowError string int

datatype outcome = Resolve js_value | RejectTask js_value | RejectSession session_error

text \<open>The key is the one the closure of the entry captures.\<close>

record queue_entry =
  entry_key :: string
  sessionExpiresAt :: "int option"
  enqueuedAt :: int

record session_queue_state =
  ss_key :: string
  chain :: "nat list"
  current :: "nat option"
  pending :: "nat list"
  locked :: bool

record session_request_queue =
  maxQueueDepth :: int
  queues :: "(string, nat) js_map"
  states :: "session_queue_state list"
  entries :: "queue_entry list"
  settled :: "nat \<Rightarrow> outcome option"
  started :: "nat list"
  timeout_calls :: "(string \<times> int) list"
  overflow_calls :: "(string \<times> int) list"

definition DEFAULT_MAX_QUEUE_DEPTH :: int where
  "DEFAULT_MAX_QUEUE_DEPTH = 100"

definition new_queue :: "int option \<Rightarrow> session_request_queue" where
  "new_queue depth =
     \<lparr>maxQueueDepth = (case depth of None \<Rightarrow> DEFAULT_MAX_QUEUE_DEPTH | Some d \<Rightarrow> d),
      queues = [], states = [], entries = [], settled = Map.empty, started = [],
      timeout_calls = [], overflow_calls = []\<rparr>"

subsection \<open>Operations\<close>

definition upd_state ::
  "nat \<Rightarrow> (session_queue_state \<Rightarrow> session_queue_state) \<Rightarrow> session_request_queue \<Rightarrow> session_request_queue" where
  "upd_state i f q = q\<lparr>states := (states q)[i := f (states q ! i)]\<rparr>"

text \<open>A promise settles once: a later resolve or reject is ignored.\<close>

definition settle :: "nat \<Rightarrow> outcome \<Rightarrow> session_request_queue \<Rightarrow> session_request_queue" where
  "settle e r q = (if settled q e = None then q\<lparr>settled := (settled q)(e \<mapsto> r)\<rparr> else q)"

definition getOrCreateState :: "string \<Rightarrow> session_request_queue \<Rightarrow> nat \<times> session_request_queue" where
  "getOrCreateState key q =
     (case map_get (queues q) key of
        Some i \<Rightarrow> (i, q)
      | None \<Rightarrow> let i = length (states q) in
          (i, q\<lparr>states := states q @ [\<lparr>ss_key = key, chain = [], current = None, pending = [],
                                       locked = False\<rparr>],
                queues := map_set key i (queues q)\<rparr>))"

definition enqueue ::
  "string \<Rightarrow> int option \<Rightarrow> int \<Rightarrow> session_request_queue \<Rightarrow> (session_error + nat) \<times> session_request_queue" where
  "enqueue key expires now q =
     (let (i, q1) = getOrCreateState key q in
      if int (length (pending (states q1 ! i))) \<ge> maxQueueDepth q1
      then (Inl (SessionQueueOverflowError key (maxQueueDepth q1)),
            q1\<lparr>overflow_calls := overflow_calls q1 @ [(key, maxQueueDepth q1)]\<rparr>)
      else let e = length (entries q1);
               q2 = q1\<lparr>entries := entries q1 @ [\<lparr>entry_key = key, sessionExpiresAt = expires, enqueuedAt = now\<rparr>]\<rparr>
           in (Inr e, upd_state i (\<lambda>st. st\<lparr>pending := pending st @ [e], chain := chain st @ [e]\<rparr>) q2))"

definition size_of :: "string \<Rightarrow> session_request_queue \<Rightarrow> nat" where
  "size_of key q = (case map_get (queues q) key of None \<Rightarrow> 0 | Some i \<Rightarrow> length (pending (states q ! i)))"

definition isLocked :: "string \<Rightarrow> session_request_queue \<Rightarrow> bool" where
  "isLocked key q = (case map_get (queues q) key of None \<Rightarrow> False | Some i \<Rightarrow> locked (states q ! i))"

definition stats :: "session_request_queue \<Rightarrow> (string \<times> nat \<times> bool) list" where
  "stats q = map (\<lambda>(key, i). (key, length (pending (states q ! i)), locked (states q ! i))) (queues q)"

fun drop_entries ::
  "string \<Rightarrow> (nat \<Rightarrow> int) \<Rightarrow> nat \<Rightarrow> nat list \<Rightarrow> session_request_queue \<Rightarrow> session_request_queue" where
  "drop_entries key clock n [] q = q"
| "drop_entries key clock n (e # es) q =
     (let waited = clock n - enqueuedAt (entries q ! e);
          q1 = q\<lparr>timeout_calls := timeout_calls q @ [(key, waited)]\<rparr>
      in drop_entries key clock (Suc n) es (settle e (RejectSession (SessionTimeoutError key waited)) q1))"

definition clear :: "string \<Rightarrow> (nat \<Rightarrow> int) \<Rightarrow> session_request_queue \<Rightarrow> session_request_queue" where
  "clear key clock q =
     (case map_get (queues q) key of
        None \<Rightarrow> q
      | Some i \<Rightarrow>
          let dropped = pending (states q ! i);
              q1 = upd_state i (\<lambda>st. st\<lparr>pending := []\<rparr>) q;
              q2 = drop_entries key clock 0 dropped q1
          in if \<not> locked (states q2 ! i) then q2\<lparr>queues := map_delete key (queues q2)\<rparr> else q2)"

definition release :: "string \<Rightarrow> nat \<Rightarrow> session_request_queue \<Rightarrow> session_request_queue" where
  "release key i q =
     (if \<not> locked (states q ! i) \<and> length (pending (states q ! i)) = 0
      then q\<lparr>queues := map_delete key (queues q)\<rparr> else q)"

definition expired :: "queue_entry \<Rightarrow> int \<Rightarrow> bool" where
  "expired en now = (case sessionExpiresAt en of None \<Rightarrow> False | Some t \<Rightarrow> t > 0 \<and> t \<le> now)"

text \<open>\<open>runEntry\<close> is called on the head of the chain when the promise before it has settled.\<close>

definition can_start :: "nat \<Rightarrow> session_request_queue \<Rightarrow> bool" where
  "can_start i q = (i < length (states q) \<and> current (states q ! i) = None \<and> chain (states q ! i) \<noteq> [])"

definition run_start :: "nat \<Rightarrow> int \<Rightarrow> int \<Rightarrow> session_request_queue \<Rightarrow> session_request_queue" where
  "run_start i now1 now2 q =
     (let st = states q ! i; key = ss_key st; e = hd (chain st);
          q1 = upd_state i (\<lambda>st. st\<lparr>chain := tl (chain st), pending := remove1 e (pending st)\<rparr>) q;
          waited = now1 - enqueuedAt (entries q ! e)
      in if expired (entries q ! e) now2
         then let q2 = q1\<lparr>timeout_calls := timeout_calls q1 @ [(key, waited)]\<rparr>
              in release key i (settle e (RejectSession (SessionTimeoutError key waited)) q2)
         else let q2 = upd_state i (\<lambda>st. st\<lparr>locked := True, current := Some e\<rparr>) q1
              in q2\<lparr>started := started q2 @ [e]\<rparr>)"

definition run_finish :: "nat \<Rightarrow> js_value + js_value \<Rightarrow> session_request_queue \<Rightarrow> session_request_queue" where
  "run_finish i result q =
     (case current (states q ! i) of
        None \<Rightarrow> q
      | Some e \<Rightarrow>
          let key = ss_key (states q ! i);
              q1 = settle e (case result of Inr v \<Rightarrow> Resolve v | Inl err \<Rightarrow> RejectTask err) q;
              q2 = upd_state i (\<lambda>st. st\<lparr>locked := False, current := None\<rparr>) q1
          in release key i q2)"

subsection \<open>Steps\<close>

inductive queue_step :: "session_request_queue \<Rightarrow> session_request_queue \<Rightarrow> bool" where
  do_enqueue: "queue_step q (snd (enqueue key expires now q))"
| do_start: "can_start i q \<Longrightarrow> queue_step q (run_start i now1 now2 q)"
| do_finish: "i < length (states q) \<Longrightarrow> queue_step q (run_finish i result q)"

text \<open>The same with calls of \<open>clear\<close>.\<close>

inductive queue_step_clear :: "session_request_queue \<Rightarrow> session_request_queue \<Rightarrow> bool" where
  do_plain: "queue_step q q' \<Longrightarrow> queue_step_clear q q'"
| do_clear: "queue_step_clear q (clear key clock q)"

inductive_cases queue_stepE: "queue_step q q'"
inductive_cases queue_step_clearE: "queue_step_clear q q'"

text \<open>A request of the session runs in a state.\<close>

definition running :: "session_request_queue \<Rightarrow> string \<Rightarrow> nat \<Rightarrow> bool" where
  "running q key e \<longleftrightarrow> (\<exists>st \<in> set (states q). ss_key st = key \<and> current st = Some e)"

subsection \<open>The invariant of the queue without clear\<close>

definition todo :: "session_queue_state \<Rightarrow> nat list" where
  "todo st = (case current st of None \<Rightarrow> chain st | Some c \<Rightarrow> c # chain st)"

definition state_ok :: "session_request_queue \<Rightarrow> nat \<Rightarrow> session_queue_state \<Rightarrow> bool" where
  "state_ok q i st \<longleftrightarrow>
     pending st = chain st \<and> locked st = (current st \<noteq> None) \<and>
     (todo st \<noteq> [] \<longrightarrow> map_get (queues q) (ss_key st) = Some i) \<and>
     sorted_wrt (<) (todo st) \<and>
     (\<forall>e \<in> set (todo st). e < length (entries q) \<and> entry_key (entries q ! e) = ss_key st \<and> settled q e = None) \<and>
     (\<forall>e \<in> set (chain st). \<forall>d \<in> set (started q). entry_key (entries q ! d) = ss_key st \<longrightarrow> d < e) \<and>
     int (length (pending st)) \<le> max 0 (maxQueueDepth q)"

definition queue_ok :: "session_request_queue \<Rightarrow> bool" where
  "queue_ok q \<longleftrightarrow>
     (\<forall>i < length (states q). state_ok q i (states q ! i)) \<and>
     (\<forall>key i. map_get (queues q) key = Some i \<longrightarrow> i < length (states q) \<and> ss_key (states q ! i) = key) \<and>
     (\<forall>d \<in> set (started q). d < length (entries q)) \<and>
     (\<forall>key. sorted_wrt (<) (filter (\<lambda>d. entry_key (entries q ! d) = key) (started q))) \<and>
     (\<forall>e. settled q e \<noteq> None \<longrightarrow> e < length (entries q))"

lemma queue_okD:
  assumes "queue_ok q"
  shows "i < length (states q) \<Longrightarrow> state_ok q i (states q ! i)"
    and "map_get (queues q) key = Some i \<Longrightarrow> i < length (states q)"
    and "map_get (queues q) key = Some i \<Longrightarrow> ss_key (states q ! i) = key"
    and "d \<in> set (started q) \<Longrightarrow> d < length (entries q)"
    and "sorted_wrt (<) (filter (\<lambda>d. entry_key (entries q ! d) = key) (started q))"
    and "settled q e \<noteq> None \<Longrightarrow> e < length (entries q)"
  using assms unfolding queue_ok_def by blast+

lemma queue_okI:
  assumes "\<And>i. i < length (states q) \<Longrightarrow> state_ok q i (states q ! i)"
    and "\<And>key i. map_get (queues q) key = Some i \<Longrightarrow> i < length (states q) \<and> ss_key (states q ! i) = key"
    and "\<And>d. d \<in> set (started q) \<Longrightarrow> d < length (entries q)"
    and "\<And>key. sorted_wrt (<) (filter (\<lambda>d. entry_key (entries q ! d) = key) (started q))"
    and "\<And>e. settled q e \<noteq> None \<Longrightarrow> e < length (entries q)"
  shows "queue_ok q"
  using assms unfolding queue_ok_def by blast

lemma queue_ok_new: "queue_ok (new_queue depth)"
  by (simp add: queue_ok_def new_queue_def)

text \<open>Two states with work of the same session are the same state.\<close>

lemma active_unique:
  assumes "queue_ok q" and "i < length (states q)" and "j < length (states q)"
    and "todo (states q ! i) \<noteq> []" and "todo (states q ! j) \<noteq> []"
    and "ss_key (states q ! i) = ss_key (states q ! j)"
  shows "i = j"
  using queue_okD(1) [OF assms(1,2)] queue_okD(1) [OF assms(1,3)] assms(4-6)
  by (auto simp: state_ok_def)

lemma getOrCreateState_ok:
  assumes "queue_ok q" and "getOrCreateState key q = (i, q1)"
  shows "queue_ok q1 \<and> map_get (queues q1) key = Some i"
proof (cases "map_get (queues q) key")
  case (Some j)
  with assms show ?thesis by (simp add: getOrCreateState_def)
next
  case None
  have other: "ss_key (states q ! j) \<noteq> key \<or> todo (states q ! j) = []" if "j < length (states q)" for j
    using queue_okD(1) [OF assms(1) that] None by (auto simp: state_ok_def)
  have "queue_ok q1"
  proof (rule queue_okI, goal_cases)
    case (1 j)
    show ?case
    proof (cases "j < length (states q)")
      case True
      with queue_okD(1) [OF assms(1) True] other [OF True] None assms(2) show ?thesis
        by (auto simp: getOrCreateState_def Let_def nth_append state_ok_def map_get_set)
    next
      case False
      with 1 None assms(2) have "states q1 ! j = \<lparr>ss_key = key, chain = [], current = None, pending = [], locked = False\<rparr>"
        by (auto simp: getOrCreateState_def Let_def nth_append)
      then show ?thesis by (simp add: state_ok_def todo_def)
    qed
  next
    case (2 k j)
    then show ?case using queue_okD(2,3) [OF assms(1), of k j] None assms(2)
      by (auto simp: getOrCreateState_def Let_def nth_append map_get_set less_SucI split: if_splits)
  qed (use queue_okD(4-6) [OF assms(1)] None assms(2) in \<open>auto simp: getOrCreateState_def Let_def\<close>)
  with None assms(2) show ?thesis by (auto simp: getOrCreateState_def Let_def)
qed

lemma upd_state_simps [simp]:
  "queues (upd_state i f q) = queues q" "entries (upd_state i f q) = entries q"
  "settled (upd_state i f q) = settled q" "started (upd_state i f q) = started q"
  "maxQueueDepth (upd_state i f q) = maxQueueDepth q"
  "length (states (upd_state i f q)) = length (states q)"
  "timeout_calls (upd_state i f q) = timeout_calls q"
  by (simp_all add: upd_state_def)

lemma states_upd_state:
  "j < length (states q) \<Longrightarrow> states (upd_state i f q) ! j = (if j = i then f (states q ! i) else states q ! j)"
  by (auto simp: upd_state_def)

lemma settle_simps [simp]:
  "queues (settle e r q) = queues q" "entries (settle e r q) = entries q"
  "states (settle e r q) = states q" "started (settle e r q) = started q"
  "maxQueueDepth (settle e r q) = maxQueueDepth q"
  by (simp_all add: settle_def)

lemma settled_settle: "settled (settle e r q) x = (if x = e \<and> settled q e = None then Some r else settled q x)"
  by (auto simp: settle_def)

lemma queue_ok_calls [simp]:
  "queue_ok (q\<lparr>overflow_calls := y\<rparr>) = queue_ok q" "queue_ok (q\<lparr>timeout_calls := y\<rparr>) = queue_ok q"
  by (simp_all add: queue_ok_def state_ok_def)

lemma push_ok:
  assumes ok: "queue_ok q" and i: "map_get (queues q) key = Some i"
    and room: "int (length (pending (states q ! i))) < maxQueueDepth q"
  shows "queue_ok (upd_state i (\<lambda>st. st\<lparr>pending := pending st @ [length (entries q)],
      chain := chain st @ [length (entries q)]\<rparr>)
      (q\<lparr>entries := entries q @ [\<lparr>entry_key = key, sessionExpiresAt = x, enqueuedAt = now\<rparr>]\<rparr>))"
    (is "queue_ok ?q")
proof (rule queue_okI, goal_cases)
  case (1 j)
  then have j: "j < length (states q)" by simp
  have st: "state_ok q j (states q ! j)" by (rule queue_okD(1) [OF ok j])
  have unset: "settled q (length (entries q)) = None"
    using queue_okD(6) [OF ok, of "length (entries q)"] by blast
  show ?case
  proof (cases "j = i")
    case True
    with st i room unset queue_okD(3) [OF ok i] queue_okD(4) [OF ok] j show ?thesis
      by (auto simp: state_ok_def states_upd_state todo_def nth_append sorted_wrt_append
          split: option.splits dest: queue_okD(4) [OF ok])
  next
    case False
    with st j show ?thesis
      by (auto simp: state_ok_def states_upd_state nth_append dest: queue_okD(4) [OF ok])
  qed
next
  case (2 k j)
  then show ?case using queue_okD(2,3) [OF ok, of k j] by (auto simp: states_upd_state)
next
  case (3 d)
  then show ?case using queue_okD(4) [OF ok, of d] by simp
next
  case (4 k)
  have "filter (\<lambda>d. entry_key ((entries q @ [y]) ! d) = k) (started q) =
      filter (\<lambda>d. entry_key (entries q ! d) = k) (started q)" for y
    using queue_okD(4) [OF ok] by (intro filter_cong) (auto simp: nth_append)
  with queue_okD(5) [OF ok, of k] show ?case by simp
next
  case (5 e)
  then show ?case using queue_okD(6) [OF ok, of e] by simp
qed

lemma enqueue_ok:
  assumes "queue_ok q"
  shows "queue_ok (snd (enqueue key x now q))"
proof -
  obtain i q1 where g: "getOrCreateState key q = (i, q1)" by (cases "getOrCreateState key q")
  from getOrCreateState_ok [OF assms g] have ok: "queue_ok q1" and i: "map_get (queues q1) key = Some i"
    by auto
  show ?thesis
  proof (cases "int (length (pending (states q1 ! i))) \<ge> maxQueueDepth q1")
    case True
    with ok g show ?thesis by (simp add: enqueue_def Let_def)
  next
    case False
    with push_ok [OF ok i] g show ?thesis by (simp add: enqueue_def Let_def)
  qed
qed

text \<open>Removing the entry of a session whose state has nothing left to do.\<close>

lemma delete_ok:
  assumes ok: "queue_ok q" and i: "map_get (queues q) key = Some i" and idle: "todo (states q ! i) = []"
  shows "queue_ok (q\<lparr>queues := map_delete key (queues q)\<rparr>)"
proof (rule queue_okI, goal_cases)
  case (1 j)
  then have j: "j < length (states q)" by simp
  have "todo (states q ! j) = [] \<or> ss_key (states q ! j) \<noteq> key"
    using queue_okD(1) [OF ok j] i idle by (auto simp: state_ok_def)
  with queue_okD(1) [OF ok j] show ?case by (auto simp: state_ok_def map_get_delete)
next
  case (2 k j)
  then show ?case using queue_okD(2,3) [OF ok, of k j] by (auto simp: map_get_delete split: if_splits)
qed (use queue_okD(4-6) [OF ok] in auto)

lemma release_ok:
  assumes "queue_ok q" and "map_get (queues q) key = Some i"
  shows "queue_ok (release key i q)"
proof (cases "\<not> locked (states q ! i) \<and> pending (states q ! i) = []")
  case True
  with queue_okD(1) [OF assms(1) queue_okD(2) [OF assms]] have "todo (states q ! i) = []"
    by (auto simp: state_ok_def todo_def)
  from delete_ok [OF assms this] True show ?thesis by (simp add: release_def)
next
  case False
  with assms(1) show ?thesis by (auto simp: release_def)
qed

text \<open>Taking the head of the chain, settled as expired or started.\<close>

lemma head_facts:
  assumes ok: "queue_ok q" and start: "can_start i q"
  defines "st \<equiv> states q ! i" and "e \<equiv> hd (chain (states q ! i))"
  shows "chain st = e # tl (chain st)" and "map_get (queues q) (ss_key st) = Some i"
    and "e < length (entries q)" and "entry_key (entries q ! e) = ss_key st" and "settled q e = None"
    and "remove1 e (pending st) = tl (chain st)"
    and "\<forall>x \<in> set (tl (chain st)). e < x" and "current st = None" and "state_ok q i st"
proof -
  have i: "i < length (states q)" and c: "current st = None" and ne: "chain st \<noteq> []"
    using start by (auto simp: can_start_def st_def)
  from queue_okD(1) [OF ok i] have so: "state_ok q i st" by (simp add: st_def)
  have hd: "chain st = e # tl (chain st)" using ne by (simp add: e_def st_def)
  have td: "todo st = chain st" using c by (simp add: todo_def)
  show "chain st = e # tl (chain st)" by (rule hd)
  show "map_get (queues q) (ss_key st) = Some i" using so td ne by (simp add: state_ok_def)
  have "e \<in> set (todo st)" using hd td by (metis list.set_intros(1))
  then show "e < length (entries q)" and "entry_key (entries q ! e) = ss_key st" and "settled q e = None"
    using so by (auto simp: state_ok_def)
  have "pending st = chain st" using so by (simp add: state_ok_def)
  then show "remove1 e (pending st) = tl (chain st)" using hd by (metis remove1.simps(2))
  have "sorted_wrt (<) (e # tl (chain st))" using so td hd by (simp add: state_ok_def)
  then show "\<forall>x \<in> set (tl (chain st)). e < x" by simp
  show "current st = None" and "state_ok q i st" by (rule c, rule so)
qed

definition take_head :: "nat \<Rightarrow> session_request_queue \<Rightarrow> session_request_queue" where
  "take_head i q = upd_state i (\<lambda>st. st\<lparr>chain := tl (chain st),
     pending := remove1 (hd (chain (states q ! i))) (pending st)\<rparr>) q"

lemma take_head_simps [simp]:
  "queues (take_head i q) = queues q" "settled (take_head i q) = settled q" "started (take_head i q) = started q"
  "entries (take_head i q) = entries q" "length (states (take_head i q)) = length (states q)"
  by (simp_all add: take_head_def)

lemma take_head_settle_ok:
  assumes ok: "queue_ok q" and start: "can_start i q"
  shows "queue_ok (settle (hd (chain (states q ! i))) r (take_head i q))"
proof (rule queue_okI, goal_cases)
  case (1 j)
  then have j: "j < length (states q)" by (simp add: take_head_def)
  note hf = head_facts [OF ok start]
  show ?case
  proof (cases "j = i")
    case True
    have sub: "set (tl (chain (states q ! i))) \<subseteq> set (chain (states q ! i))" by (metis hf(1) set_subset_Cons)
    from hf(9,8) have "sorted_wrt (<) (chain (states q ! i))" by (simp add: state_ok_def todo_def)
    then have srt: "sorted_wrt (<) (tl (chain (states q ! i)))" by (metis hf(1) sorted_wrt.simps(2))
    have upd: "states (settle (hd (chain (states q ! i))) r (take_head i q)) ! i =
        (states q ! i)\<lparr>chain := tl (chain (states q ! i)), pending := tl (chain (states q ! i))\<rparr>"
      using True j hf(6) by (simp add: take_head_def states_upd_state)
    from hf(2,7,8,9) sub srt show ?thesis unfolding True upd
      by (auto simp: state_ok_def take_head_def todo_def settled_settle subset_eq)
  next
    case False
    have "hd (chain (states q ! i)) \<notin> set (todo (states q ! j))"
    proof
      assume "hd (chain (states q ! i)) \<in> set (todo (states q ! j))"
      moreover from this have "ss_key (states q ! j) = ss_key (states q ! i)"
        using hf(4) queue_okD(1) [OF ok j] by (auto simp: state_ok_def)
      moreover have "todo (states q ! i) \<noteq> []" using hf(1,8) by (auto simp: todo_def)
      moreover have "i < length (states q)" using start by (simp add: can_start_def)
      moreover have "todo (states q ! j) \<noteq> []" using calculation(1) by auto
      ultimately show False using active_unique [OF ok _ j, of i] False by simp
    qed
    with queue_okD(1) [OF ok j] False j show ?thesis
      by (auto simp: state_ok_def take_head_def states_upd_state settled_settle)
  qed
next
  case (2 k j)
  then show ?case using queue_okD(2,3) [OF ok, of k j] by (auto simp: take_head_def states_upd_state)
next
  case (5 x)
  then show ?case using queue_okD(6) [OF ok, of x] head_facts(3) [OF ok start]
    by (auto simp: take_head_def settled_settle split: if_splits)
qed (use queue_okD(4,5) [OF ok] in \<open>auto simp: take_head_def\<close>)

lemma take_head_start_ok:
  assumes ok: "queue_ok q" and start: "can_start i q"
  defines "e \<equiv> hd (chain (states q ! i))"
  shows "queue_ok ((upd_state i (\<lambda>st. st\<lparr>locked := True, current := Some e\<rparr>) (take_head i q))
    \<lparr>started := started q @ [e]\<rparr>)" (is "queue_ok ?q")
proof (rule queue_okI, goal_cases)
  case (1 j)
  then have j: "j < length (states q)" by (simp add: take_head_def)
  note hf = head_facts [OF ok start, folded e_def]
  show ?case
  proof (cases "j = i")
    case True
    have sub: "set (tl (chain (states q ! i))) \<subseteq> set (chain (states q ! i))" by (metis hf(1) set_subset_Cons)
    from hf(9,8) have "sorted_wrt (<) (chain (states q ! i))" by (simp add: state_ok_def todo_def)
    then have srt: "sorted_wrt (<) (e # tl (chain (states q ! i)))" using hf(1) by simp
    have upd: "states ?q ! i = (states q ! i)\<lparr>chain := tl (chain (states q ! i)),
        pending := tl (chain (states q ! i)), locked := True, current := Some e\<rparr>"
      using True j hf(6) by (simp add: take_head_def states_upd_state e_def)
    from hf(2-5,7,8,9) sub srt show ?thesis unfolding True upd
      by (auto simp: state_ok_def take_head_def todo_def subset_eq)
  next
    case False
    have "todo (states q ! j) = [] \<or> ss_key (states q ! j) \<noteq> ss_key (states q ! i)"
      using active_unique [OF ok _ j, of i] False start hf(1,8) by (auto simp: can_start_def todo_def)
    then have "\<forall>x \<in> set (chain (states q ! j)). entry_key (entries q ! e) \<noteq> ss_key (states q ! j)"
      using hf(4) by (auto simp: todo_def split: option.splits)
    with queue_okD(1) [OF ok j] False j show ?thesis
      by (auto simp: state_ok_def take_head_def states_upd_state)
  qed
next
  case (2 k j)
  then show ?case using queue_okD(2,3) [OF ok, of k j] by (auto simp: take_head_def states_upd_state)
next
  case (3 d)
  then show ?case using queue_okD(4) [OF ok, of d] head_facts(3) [OF ok start]
    by (auto simp: take_head_def e_def)
next
  case (4 k)
  have "d < e" if "d \<in> set (started q)" "entry_key (entries q ! d) = entry_key (entries q ! e)" for d
    using head_facts(1,4,9) [OF ok start] that unfolding e_def [symmetric] state_ok_def
    by (metis list.set_intros(1))
  with queue_okD(5) [OF ok, of k] show ?case by (auto simp: take_head_def sorted_wrt_append)
qed (use queue_okD(6) [OF ok] in \<open>auto simp: take_head_def\<close>)

lemma settle_calls: "settle e r (q\<lparr>timeout_calls := t\<rparr>) = (settle e r q)\<lparr>timeout_calls := t\<rparr>"
  by (cases q) (simp add: settle_def)

lemma run_start_eq:
  "run_start i now1 now2 q =
     (let st = states q ! i; e = hd (chain st); w = now1 - enqueuedAt (entries q ! e) in
      if expired (entries q ! e) now2
      then release (ss_key st) i ((settle e (RejectSession (SessionTimeoutError (ss_key st) w)) (take_head i q))
        \<lparr>timeout_calls := timeout_calls q @ [(ss_key st, w)]\<rparr>)
      else (upd_state i (\<lambda>st. st\<lparr>locked := True, current := Some e\<rparr>) (take_head i q))\<lparr>started := started q @ [e]\<rparr>)"
  by (simp add: run_start_def take_head_def Let_def settle_calls)

lemma run_start_ok:
  assumes ok: "queue_ok q" and start: "can_start i q"
  shows "queue_ok (run_start i now1 now2 q)"
proof (cases "expired (entries q ! hd (chain (states q ! i))) now2")
  case True
  have "queue_ok (release (ss_key (states q ! i)) i
      ((settle (hd (chain (states q ! i))) r (take_head i q))\<lparr>timeout_calls := t\<rparr>))" for r t
    by (rule release_ok) (simp_all add: take_head_settle_ok [OF ok start] head_facts(2) [OF ok start])
  with True show ?thesis by (simp add: run_start_eq Let_def)
next
  case False
  with take_head_start_ok [OF ok start] show ?thesis by (simp add: run_start_eq Let_def)
qed

lemma finish_ok:
  assumes ok: "queue_ok q" and i: "i < length (states q)" and c: "current (states q ! i) = Some e"
  shows "queue_ok (upd_state i (\<lambda>st. st\<lparr>locked := False, current := None\<rparr>) (settle e r q))" (is "queue_ok ?q")
proof (rule queue_okI, goal_cases)
  case (1 j)
  then have j: "j < length (states q)" by simp
  have so: "state_ok q j (states q ! j)" by (rule queue_okD(1) [OF ok j])
  show ?case
  proof (cases "j = i")
    case True
    with so c j show ?thesis by (auto simp: state_ok_def states_upd_state todo_def settled_settle)
  next
    case False
    have si: "state_ok q i (states q ! i)" by (rule queue_okD(1) [OF ok i])
    have "e \<notin> set (todo (states q ! j))"
    proof
      assume e: "e \<in> set (todo (states q ! j))"
      then have "ss_key (states q ! j) = ss_key (states q ! i)" and "todo (states q ! j) \<noteq> []"
        using so si c by (auto simp: state_ok_def todo_def)
      with active_unique [OF ok i j] c False show False by (simp add: todo_def)
    qed
    with so False j show ?thesis by (auto simp: state_ok_def states_upd_state settled_settle)
  qed
next
  case (2 k j)
  then show ?case using queue_okD(2,3) [OF ok, of k j] by (auto simp: states_upd_state)
next
  case (5 x)
  have "e < length (entries q)" using queue_okD(1) [OF ok i] c by (simp add: state_ok_def todo_def)
  with 5 queue_okD(6) [OF ok, of x] show ?case by (auto simp: settled_settle split: if_splits)
qed (use queue_okD(4,5) [OF ok] in auto)

lemma run_finish_ok:
  assumes ok: "queue_ok q" and i: "i < length (states q)"
  shows "queue_ok (run_finish i result q)"
proof (cases "current (states q ! i)")
  case None
  with ok show ?thesis by (simp add: run_finish_def)
next
  case (Some e)
  have "map_get (queues q) (ss_key (states q ! i)) = Some i"
    using queue_okD(1) [OF ok i] Some by (simp add: state_ok_def todo_def)
  with finish_ok [OF ok i Some] Some show ?thesis
    by (simp add: run_finish_def Let_def) (rule release_ok, simp_all)
qed

interpretation rq: invariant_machine "\<lambda>q. \<exists>depth. q = new_queue depth" queue_step queue_ok
  by unfold_locales (auto simp: queue_ok_new elim!: queue_stepE intro: enqueue_ok run_start_ok run_finish_ok)

subsection \<open>What becomes of a request\<close>

text \<open>
  The fate of every accepted request, without clear: it waits, or its task runs, or its promise is
  settled, by its own task after that task was called, or by a timeout with the task never called.
\<close>

definition waiting :: "session_request_queue \<Rightarrow> nat \<Rightarrow> bool" where
  "waiting q e \<longleftrightarrow> (\<exists>i < length (states q). e \<in> set (chain (states q ! i)))"

definition executing :: "session_request_queue \<Rightarrow> nat \<Rightarrow> bool" where
  "executing q e \<longleftrightarrow> (\<exists>i < length (states q). current (states q ! i) = Some e)"

definition fate :: "session_request_queue \<Rightarrow> nat \<Rightarrow> bool" where
  "fate q e \<longleftrightarrow>
     (case settled q e of
        None \<Rightarrow> (waiting q e \<and> e \<notin> set (started q)) \<or> (executing q e \<and> e \<in> set (started q))
      | Some (RejectSession err) \<Rightarrow> e \<notin> set (started q) \<and>
          (\<exists>w. err = SessionTimeoutError (entry_key (entries q ! e)) w) \<and>
          (\<exists>now. expired (entries q ! e) now)
      | Some _ \<Rightarrow> e \<in> set (started q))"

definition fate_ok :: "session_request_queue \<Rightarrow> bool" where
  "fate_ok q \<longleftrightarrow> queue_ok q \<and> (\<forall>e < length (entries q). fate q e) \<and>
     (\<forall>i < length (states q). \<forall>c. current (states q ! i) = Some c \<longrightarrow> c \<in> set (started q))"

lemma fate_ok_new: "fate_ok (new_queue depth)"
  by (simp add: fate_ok_def queue_ok_new) (simp add: new_queue_def)

lemma fate_okD:
  assumes "fate_ok q"
  shows "queue_ok q" and "e < length (entries q) \<Longrightarrow> fate q e"
    and "i < length (states q) \<Longrightarrow> current (states q ! i) = Some c \<Longrightarrow> c \<in> set (started q)"
  using assms by (auto simp: fate_ok_def)

lemma fate_cong:
  assumes "settled q' e = settled q e" and "waiting q' e = waiting q e" and "executing q' e = executing q e"
    and "e \<in> set (started q') \<longleftrightarrow> e \<in> set (started q)" and "entries q' ! e = entries q ! e"
  shows "fate q' e = fate q e"
  by (simp add: fate_def assms cong: option.case_cong outcome.case_cong)

lemma states_getOrCreateState:
  assumes "getOrCreateState key q = (i, q1)"
  shows "\<exists>idle. states q1 = states q @ idle \<and> (\<forall>st \<in> set idle. chain st = [] \<and> current st = None)"
    and "settled q1 = settled q" and "entries q1 = entries q" and "started q1 = started q"
  using assms by (auto simp: getOrCreateState_def Let_def split: option.splits)

lemma where_set:
  "waiting q e \<longleftrightarrow> (\<exists>st \<in> set (states q). e \<in> set (chain st))"
  "executing q e \<longleftrightarrow> (\<exists>st \<in> set (states q). current st = Some e)"
  by (auto simp: waiting_def executing_def set_conv_nth)

lemma getOrCreateState_fate:
  assumes "fate_ok q" and g: "getOrCreateState key q = (i, q1)"
  shows "fate_ok q1"
proof -
  obtain idle where st: "states q1 = states q @ idle"
    and idle: "\<forall>s \<in> set idle. chain s = [] \<and> current s = None"
    using states_getOrCreateState(1) [OF g] by blast
  have "fate q1 e = fate q e" for e
    by (rule fate_cong) (use states_getOrCreateState(2-4) [OF g] st idle in \<open>auto simp: where_set\<close>)
  moreover have "c \<in> set (started q1)" if "j < length (states q1)" "current (states q1 ! j) = Some c" for j c
  proof (cases "j < length (states q)")
    case True
    with that st fate_okD(3) [OF assms(1) True] states_getOrCreateState(4) [OF g] show ?thesis
      by (simp add: nth_append)
  next
    case False
    with that st have "states q1 ! j \<in> set idle" by (simp add: nth_append)
    with idle that show ?thesis by auto
  qed
  ultimately show ?thesis
    using getOrCreateState_ok [OF fate_okD(1) [OF assms(1)] g] assms(1) states_getOrCreateState(3) [OF g]
    by (auto simp: fate_ok_def)
qed

lemma waiting_upd_state:
  "i < length (states q) \<Longrightarrow> waiting (upd_state i f q) e \<longleftrightarrow>
     e \<in> set (chain (f (states q ! i))) \<or> (\<exists>j < length (states q). j \<noteq> i \<and> e \<in> set (chain (states q ! j)))"
  by (auto simp: waiting_def states_upd_state split: if_splits)

lemma executing_upd_state:
  "i < length (states q) \<Longrightarrow> executing (upd_state i f q) e \<longleftrightarrow>
     current (f (states q ! i)) = Some e \<or> (\<exists>j < length (states q). j \<noteq> i \<and> current (states q ! j) = Some e)"
  by (auto simp: executing_def states_upd_state split: if_splits)

lemma where_split:
  "i < length (states q) \<Longrightarrow> waiting q e \<longleftrightarrow>
     e \<in> set (chain (states q ! i)) \<or> (\<exists>j < length (states q). j \<noteq> i \<and> e \<in> set (chain (states q ! j)))"
  "i < length (states q) \<Longrightarrow> executing q e \<longleftrightarrow>
     current (states q ! i) = Some e \<or> (\<exists>j < length (states q). j \<noteq> i \<and> current (states q ! j) = Some e)"
  by (auto simp: waiting_def executing_def)

lemma where_more [simp]:
  "waiting (q\<lparr>timeout_calls := t\<rparr>) = waiting q" "executing (q\<lparr>timeout_calls := t\<rparr>) = executing q"
  "waiting (q\<lparr>overflow_calls := t\<rparr>) = waiting q" "executing (q\<lparr>overflow_calls := t\<rparr>) = executing q"
  "waiting (q\<lparr>entries := es\<rparr>) = waiting q" "executing (q\<lparr>entries := es\<rparr>) = executing q"
  "waiting (q\<lparr>started := ds\<rparr>) = waiting q" "executing (q\<lparr>started := ds\<rparr>) = executing q"
  "waiting (settle x r q) = waiting q" "executing (settle x r q) = executing q"
  "waiting (release key i q) = waiting q" "executing (release key i q) = executing q"
  by (simp_all add: fun_eq_iff where_set release_def)

lemma release_simps [simp]:
  "states (release key i q) = states q" "settled (release key i q) = settled q"
  "started (release key i q) = started q" "entries (release key i q) = entries q"
  by (simp_all add: release_def)

lemma enqueue_fate:
  assumes "fate_ok q"
  shows "fate_ok (snd (enqueue key x now q))"
proof -
  obtain i q1 where g: "getOrCreateState key q = (i, q1)" by (cases "getOrCreateState key q")
  have f1: "fate_ok q1" by (rule getOrCreateState_fate [OF assms g])
  have ok: "queue_ok (snd (enqueue key x now q))" by (rule enqueue_ok [OF fate_okD(1) [OF assms]])
  have i: "i < length (states q1)"
    using getOrCreateState_ok [OF fate_okD(1) [OF assms] g] queue_okD(2) by blast
  show ?thesis
  proof (cases "int (length (pending (states q1 ! i))) \<ge> maxQueueDepth q1")
    case True
    then have e: "snd (enqueue key x now q) = q1\<lparr>overflow_calls := overflow_calls q1 @ [(key, maxQueueDepth q1)]\<rparr>"
      by (simp add: enqueue_def g)
    have "fate (q1\<lparr>overflow_calls := y\<rparr>) d = fate q1 d" for y d by (rule fate_cong) simp_all
    with f1 ok show ?thesis unfolding e by (simp add: fate_ok_def)
  next
    case False
    let ?n = "length (entries q1)"
    let ?q = "snd (enqueue key x now q)"
    have e: "?q = upd_state i (\<lambda>st. st\<lparr>pending := pending st @ [?n], chain := chain st @ [?n]\<rparr>)
        (q1\<lparr>entries := entries q1 @ [\<lparr>entry_key = key, sessionExpiresAt = x, enqueuedAt = now\<rparr>]\<rparr>)"
      using False by (simp add: enqueue_def g Let_def)
    have n: "settled q1 ?n = None" "?n \<notin> set (started q1)"
      using queue_okD(6) [OF fate_okD(1) [OF f1], of ?n] queue_okD(4) [OF fate_okD(1) [OF f1], of ?n] by blast+
    have old: "fate ?q d = fate q1 d" if "d < ?n" for d
      by (rule fate_cong) (use that i in \<open>auto simp: e waiting_upd_state executing_upd_state nth_append
            where_split [OF i]\<close>)
    have new: "fate ?q ?n" using n i by (simp add: fate_def e waiting_upd_state)
    have "fate ?q d" if "d < length (entries ?q)" for d
      using that old [of d] new fate_okD(2) [OF f1, of d] by (cases "d = ?n") (auto simp: e)
    moreover have "c \<in> set (started ?q)" if "j < length (states ?q)" "current (states ?q ! j) = Some c" for j c
      using that fate_okD(3) [OF f1, of j c] by (auto simp: e states_upd_state split: if_splits)
    ultimately show ?thesis using ok by (simp add: fate_ok_def)
  qed
qed

lemma not_started:
  assumes "queue_ok q" and "can_start i q"
  shows "hd (chain (states q ! i)) \<notin> set (started q)"
  using head_facts(1,4,9) [OF assms] unfolding state_ok_def by (metis less_irrefl list.set_intros(1))

lemma where_take_head:
  assumes "can_start i q"
  shows "e \<noteq> hd (chain (states q ! i)) \<Longrightarrow> waiting (take_head i q) e = waiting q e"
    and "executing (take_head i q) e = executing q e"
proof -
  have i: "i < length (states q)" and ne: "chain (states q ! i) \<noteq> []" using assms by (auto simp: can_start_def)
  have "e \<in> set (chain (states q ! i)) \<longleftrightarrow> e = hd (chain (states q ! i)) \<or> e \<in> set (tl (chain (states q ! i)))"
    using ne by (cases "chain (states q ! i)") auto
  then show "e \<noteq> hd (chain (states q ! i)) \<Longrightarrow> waiting (take_head i q) e = waiting q e"
    by (simp add: take_head_def waiting_upd_state [OF i] where_split(1) [OF i])
  show "executing (take_head i q) e = executing q e"
    by (simp add: take_head_def executing_upd_state [OF i] where_split(2) [OF i])
qed

lemma current_take_head [simp]:
  "j < length (states q) \<Longrightarrow> current (states (take_head i q) ! j) = current (states q ! j)"
  by (simp add: take_head_def states_upd_state)

lemma run_start_fate:
  assumes "fate_ok q" and start: "can_start i q"
  shows "fate_ok (run_start i now1 now2 q)" (is "fate_ok ?q")
proof -
  define e where "e = hd (chain (states q ! i))"
  note ok = fate_okD(1) [OF assms(1)]
  note hf = head_facts [OF ok start, folded e_def]
  have i: "i < length (states q)" using start by (simp add: can_start_def)
  have ok': "queue_ok ?q" by (rule run_start_ok [OF ok start])
  have ns: "e \<notin> set (started q)" using not_started [OF ok start] by (simp add: e_def)
  note wt = where_take_head [OF start, folded e_def]
  show ?thesis
  proof (cases "expired (entries q ! e) now2")
    case True
    define w where "w = now1 - enqueuedAt (entries q ! e)"
    have q: "?q = release (ss_key (states q ! i)) i
        ((settle e (RejectSession (SessionTimeoutError (ss_key (states q ! i)) w)) (take_head i q))
          \<lparr>timeout_calls := timeout_calls q @ [(ss_key (states q ! i), w)]\<rparr>)"
      using True by (simp add: run_start_eq Let_def e_def w_def)
    have "fate ?q d" if "d < length (entries q)" for d
    proof (cases "d = e")
      case True
      with \<open>expired (entries q ! e) now2\<close> hf(4,5) ns show ?thesis by (auto simp: fate_def q settled_settle)
    next
      case False
      then have "fate ?q d = fate q d" by (intro fate_cong) (auto simp: q settled_settle wt)
      with fate_okD(2) [OF assms(1) that] show ?thesis by simp
    qed
    with ok' fate_okD(3) [OF assms(1)] show ?thesis by (auto simp: fate_ok_def q)
  next
    case False
    have q: "?q = (upd_state i (\<lambda>st. st\<lparr>locked := True, current := Some e\<rparr>) (take_head i q))
        \<lparr>started := started q @ [e]\<rparr>"
      using False by (simp add: run_start_eq Let_def e_def)
    have i': "i < length (states (take_head i q))" using i by simp
    have "fate ?q d" if "d < length (entries q)" for d
    proof (cases "d = e")
      case True
      with hf(5) i' show ?thesis by (simp add: fate_def q executing_upd_state)
    next
      case False
      then have "fate ?q d = fate q d"
        using hf(8) by (intro fate_cong) (auto simp: q wt(1) [symmetric] wt(2) [symmetric] waiting_upd_state [OF i']
            executing_upd_state [OF i'] where_split [OF i'] i)
      with fate_okD(2) [OF assms(1) that] show ?thesis by simp
    qed
    moreover have "c \<in> set (started ?q)" if "j < length (states ?q)" "current (states ?q ! j) = Some c" for j c
      using that fate_okD(3) [OF assms(1), of j c] by (auto simp: q states_upd_state split: if_splits)
    ultimately show ?thesis using ok' by (auto simp: fate_ok_def q)
  qed
qed

lemma run_finish_fate:
  assumes "fate_ok q" and i: "i < length (states q)"
  shows "fate_ok (run_finish i result q)" (is "fate_ok ?q")
proof (cases "current (states q ! i)")
  case None
  with assms show ?thesis by (simp add: run_finish_def)
next
  case (Some e)
  note ok = fate_okD(1) [OF assms(1)]
  define r where "r = (case result of Inr v \<Rightarrow> Resolve v | Inl err \<Rightarrow> RejectTask err)"
  have r: "\<exists>v. r = Resolve v \<or> r = RejectTask v" by (auto simp: r_def split: sum.splits)
  have q: "?q = release (ss_key (states q ! i)) i
      (upd_state i (\<lambda>st. st\<lparr>locked := False, current := None\<rparr>) (settle e r q))"
    using Some by (simp add: run_finish_def Let_def r_def)
  have un: "settled q e = None" using queue_okD(1) [OF ok i] Some by (simp add: state_ok_def todo_def)
  have i': "i < length (states (settle e r q))" using i by simp
  have "fate ?q d" if "d < length (entries q)" for d
  proof (cases "d = e")
    case True
    with un r fate_okD(3) [OF assms(1) i Some] show ?thesis by (auto simp: fate_def q settled_settle)
  next
    case False
    then have "fate ?q d = fate q d"
      using Some by (intro fate_cong) (auto simp: q settled_settle waiting_upd_state [OF i']
          executing_upd_state [OF i'] where_split [OF i])
    with fate_okD(2) [OF assms(1) that] show ?thesis by simp
  qed
  moreover have "c \<in> set (started ?q)" if "j < length (states ?q)" "current (states ?q ! j) = Some c" for j c
    using that fate_okD(3) [OF assms(1), of j c] by (auto simp: q states_upd_state split: if_splits)
  moreover have "queue_ok ?q" by (rule run_finish_ok [OF ok i])
  ultimately show ?thesis by (auto simp: fate_ok_def q)
qed

interpretation rf: invariant_machine "\<lambda>q. \<exists>depth. q = new_queue depth" queue_step fate_ok
  by unfold_locales (auto simp: fate_ok_new elim!: queue_stepE intro: enqueue_fate run_start_fate run_finish_fate)

subsection \<open>Progress\<close>

text \<open>The steps of the event loop that need no new call: a start, or the end of a running task.\<close>

inductive drain_step :: "session_request_queue \<Rightarrow> session_request_queue \<Rightarrow> bool" where
  drain_start: "can_start i q \<Longrightarrow> drain_step q (run_start i now1 now2 q)"
| drain_finish: "i < length (states q) \<Longrightarrow> current (states q ! i) \<noteq> None \<Longrightarrow> drain_step q (run_finish i result q)"

inductive_cases drain_stepE: "drain_step q q'"

definition state_work :: "session_queue_state \<Rightarrow> nat" where
  "state_work st = 2 * length (chain st) + (if current st = None then 0 else 1)"

definition work :: "session_request_queue \<Rightarrow> nat" where
  "work q = sum_list (map state_work (states q))"

lemma work_upd_state:
  assumes "i < length (states q)" and "state_work (f (states q ! i)) < state_work (states q ! i)"
  shows "work (upd_state i f q) < work q"
proof -
  have "sum_list ((map state_work (states q))[i := state_work (f (states q ! i))]) < sum_list (map state_work (states q))"
    using assms elem_le_sum_list [of i "map state_work (states q)"] by (simp add: sum_list_update)
  then show ?thesis using assms(1) by (simp add: work_def upd_state_def map_update)
qed

lemma work_more [simp]:
  "work (release key i q) = work q" "work (settle e r q) = work q"
  "work (q\<lparr>timeout_calls := t\<rparr>) = work q" "work (q\<lparr>started := ds\<rparr>) = work q"
  by (simp_all add: work_def)

lemma drain_step_work:
  assumes "drain_step q q'"
  shows "work q' < work q"
  using assms
proof cases
  case (drain_start i now1 now2)
  then have i: "i < length (states q)" and c: "current (states q ! i) = None" and ne: "chain (states q ! i) \<noteq> []"
    by (auto simp: can_start_def)
  have th: "work (take_head i q) < work q"
    using i c ne unfolding take_head_def by (intro work_upd_state) (auto simp: state_work_def)
  have "upd_state i g (take_head i q) = upd_state i (\<lambda>st. g (st\<lparr>chain := tl (chain st),
      pending := remove1 (hd (chain (states q ! i))) (pending st)\<rparr>)) q" for g
    using i by (simp add: take_head_def upd_state_def)
  moreover have "work (upd_state i (\<lambda>st. st\<lparr>chain := tl (chain st),
      pending := remove1 (hd (chain (states q ! i))) (pending st), locked := True, current := Some e\<rparr>) q) < work q" for e
    using i c ne by (intro work_upd_state) (auto simp: state_work_def neq_Nil_conv)
  ultimately show ?thesis using th by (simp add: drain_start(1) run_start_eq Let_def)
next
  case (drain_finish i result)
  then obtain e where e: "current (states q ! i) = Some e" by auto
  have "work (upd_state i (\<lambda>st. st\<lparr>locked := False, current := None\<rparr>) (settle e r q)) < work (settle e r q)" for r
    using drain_finish(2) e by (intro work_upd_state) (auto simp: state_work_def)
  with e show ?thesis by (simp add: drain_finish(1) run_finish_def Let_def)
qed

lemma drained_settled:
  assumes "fate_ok q" and "\<nexists>q'. drain_step q q'" and "e < length (entries q)"
  shows "settled q e \<noteq> None"
proof
  assume "settled q e = None"
  with fate_okD(2) [OF assms(1,3)] have "waiting q e \<or> executing q e" by (auto simp: fate_def)
  then obtain i where i: "i < length (states q)" and "e \<in> set (chain (states q ! i)) \<or> current (states q ! i) = Some e"
    by (auto simp: waiting_def executing_def)
  then have "current (states q ! i) \<noteq> None \<or> can_start i q" by (cases "current (states q ! i)") (auto simp: can_start_def)
  with assms(2) i show False by (blast intro: drain_start drain_finish)
qed

subsection \<open>Properties\<close>

lemma running_index: "running q key e \<longleftrightarrow>
    (\<exists>i < length (states q). ss_key (states q ! i) = key \<and> current (states q ! i) = Some e)"
  by (auto simp: running_def set_conv_nth)

lemma running_unique:
  assumes "queue_ok q" and "running q key e" and "running q key e'"
  shows "e = e'"
proof -
  obtain i where i: "i < length (states q)" "ss_key (states q ! i) = key" "current (states q ! i) = Some e"
    using assms(2) by (auto simp: running_index)
  obtain j where j: "j < length (states q)" "ss_key (states q ! j) = key" "current (states q ! j) = Some e'"
    using assms(3) by (auto simp: running_index)
  have "i = j" using active_unique [OF assms(1) i(1) j(1)] i j by (simp add: todo_def)
  with i j show ?thesis by simp
qed

lemma pending_bound:
  assumes "queue_ok q" and "map_get (queues q) key = Some i"
  shows "int (length (pending (states q ! i))) \<le> max 0 (maxQueueDepth q)"
  using queue_okD(1) [OF assms(1) queue_okD(2) [OF assms]] unfolding state_ok_def by blast

text \<open>A sample run: two requests of session s queued, the first started.\<close>

definition sample :: session_request_queue where
  "sample = run_start 0 0 0 (snd (enqueue ''s'' None 0 (snd (enqueue ''s'' (Some 5) 0 (new_queue None)))))"

lemmas queue_eval = new_queue_def DEFAULT_MAX_QUEUE_DEPTH_def enqueue_def getOrCreateState_def
  upd_state_def settle_def release_def expired_def run_start_def run_finish_def can_start_def
  map_get_def map_set_def map_delete_def Let_def clear_def

lemma sample_eq: "sample =
  \<lparr>maxQueueDepth = 100, queues = [(''s'', 0)],
   states = [\<lparr>ss_key = ''s'', chain = [1], current = Some 0, pending = [1], locked = True\<rparr>],
   entries = [\<lparr>entry_key = ''s'', sessionExpiresAt = Some 5, enqueuedAt = 0\<rparr>,
              \<lparr>entry_key = ''s'', sessionExpiresAt = None, enqueuedAt = 0\<rparr>],
   settled = Map.empty, started = [0], timeout_calls = [], overflow_calls = []\<rparr>"
  by (simp add: sample_def queue_eval)

lemma sample_reachable: "steps_from queue_step (new_queue None) sample"
  unfolding sample_def
  by (rule steps_step, rule steps_step, rule steps_step, rule steps_refl, rule do_enqueue, rule do_enqueue,
      rule do_start) (simp add: queue_eval)

text \<open>
  C33. The session lock. In every run of \<open>enqueue\<close> and \<open>runEntry\<close>, without a call of \<open>clear\<close>, at most one request
  of a session is being executed at any time, and no more than \<open>maxQueueDepth\<close> requests wait for it. (With
  \<open>clear\<close> two requests can run at once: lemma \<open>clear_breaks_exclusion\<close>.)
\<close>

theorem session_mutual_exclusion:
  assumes "steps_from queue_step (new_queue depth) q"
  shows "(running q key e \<and> running q key e' \<longrightarrow> e = e') \<and> int (size_of key q) \<le> max 0 (maxQueueDepth q)"
proof
  have ok: "queue_ok q" using rq.inv_reachable [OF _ assms] by blast
  show "running q key e \<and> running q key e' \<longrightarrow> e = e'" using running_unique [OF ok] by blast
  show "int (size_of key q) \<le> max 0 (maxQueueDepth q)"
    by (cases "map_get (queues q) key") (auto simp: size_of_def dest: pending_bound [OF ok])
qed

theorem session_mutual_exclusion_witness:
  "running sample ''s'' 0 \<and> \<not> running sample ''s'' 1 \<and> int (size_of ''s'' sample) \<le> max 0 (maxQueueDepth sample)"
  using session_mutual_exclusion [OF sample_reachable, of "''s''" 0 1]
  by (auto simp: sample_eq running_def)

text \<open>
  First in, first out. The tasks of a session are called in the order in which \<open>enqueue\<close>
  accepted them, each at most once.
\<close>

theorem session_fifo:
  assumes "steps_from queue_step (new_queue depth) q"
  shows "sorted_wrt (<) (filter (\<lambda>d. entry_key (entries q ! d) = key) (started q))"
  using queue_okD(5) rq.inv_reachable [OF _ assms] by blast

theorem session_fifo_witness:
  "sorted_wrt (<) (filter (\<lambda>d. entry_key (entries sample ! d) = ''s'') (started sample)) \<and> started sample = [0]"
  using session_fifo [OF sample_reachable, of "''s''"] by (simp add: sample_eq)

text \<open>
  The fate of a request. In every run of \<open>enqueue\<close> and \<open>runEntry\<close> the promise of an accepted
  request that is not settled belongs to a request that waits and whose task was not called, or
  that is being executed. A promise rejected with a session error is a \<open>SessionTimeoutError\<close> of
  its own session, of a request with an expiry that passed, whose task was never called. Every other
  settled promise belongs to a request whose task was called.
\<close>

theorem session_request_fate:
  assumes "steps_from queue_step (new_queue depth) q" and "e < length (entries q)"
  shows "case settled q e of
       None \<Rightarrow> (waiting q e \<and> e \<notin> set (started q)) \<or> (executing q e \<and> e \<in> set (started q))
     | Some (RejectSession err) \<Rightarrow> e \<notin> set (started q) \<and>
         (\<exists>w. err = SessionTimeoutError (entry_key (entries q ! e)) w) \<and> (\<exists>now. expired (entries q ! e) now)
     | Some (Resolve v) \<Rightarrow> e \<in> set (started q)
     | Some (RejectTask v) \<Rightarrow> e \<in> set (started q)"
proof -
  have "fate_ok q" using rf.inv_reachable [OF _ assms(1)] by blast
  from fate_okD(2) [OF this assms(2)] show ?thesis by (auto simp: fate_def split: option.splits outcome.splits)
qed

theorem session_request_fate_witness:
  "settled sample 1 = None \<and> waiting sample 1 \<and> 1 \<notin> set (started sample)"
  using session_request_fate [OF sample_reachable, of 1] by (simp add: sample_eq executing_def)

text \<open>
  C36. Every accepted request settles. Each step of the event loop (a queued request starts or
  expires, a running task ends) strictly decreases the work left, so without further calls the loop
  stops, and when no such step is left the promise of every accepted request is settled.
\<close>

theorem session_queue_drains:
  assumes "steps_from queue_step (new_queue depth) q"
  shows "(drain_step q q' \<longrightarrow> work q' < work q) \<and>
    ((\<nexists>q'. drain_step q q') \<longrightarrow> (\<forall>e < length (entries q). settled q e \<noteq> None))"
proof -
  have "fate_ok q" using rf.inv_reachable [OF _ assms] by blast
  from drained_settled [OF this] drain_step_work show ?thesis by blast
qed

definition sample_done :: session_request_queue where
  "sample_done = run_finish 0 (Inl Undefined) (run_start 0 7 7 (run_finish 0 (Inr Null) sample))"

lemma sample_done_eq: "sample_done =
  \<lparr>maxQueueDepth = 100, queues = [],
   states = [\<lparr>ss_key = ''s'', chain = [], current = None, pending = [], locked = False\<rparr>],
   entries = [\<lparr>entry_key = ''s'', sessionExpiresAt = Some 5, enqueuedAt = 0\<rparr>,
              \<lparr>entry_key = ''s'', sessionExpiresAt = None, enqueuedAt = 0\<rparr>],
   settled = [0 \<mapsto> Resolve Null, 1 \<mapsto> RejectTask Undefined],
   started = [0, 1], timeout_calls = [], overflow_calls = []\<rparr>"
  by (simp add: sample_done_def sample_eq queue_eval)

lemma sample_done_reachable: "steps_from queue_step (new_queue None) sample_done"
proof -
  let ?q1 = "run_finish 0 (Inr Null) sample"
  have "steps_from queue_step (new_queue None) ?q1"
    by (rule steps_step [where t = sample], rule sample_reachable, rule do_finish) (simp add: sample_eq)
  then have "steps_from queue_step (new_queue None) (run_start 0 7 7 ?q1)"
    by (rule steps_step [where t = ?q1], intro do_start) (simp add: sample_eq queue_eval)
  then show ?thesis unfolding sample_done_def
    by (rule steps_step [where t = "run_start 0 7 7 ?q1"], intro do_finish) (simp add: sample_eq queue_eval)
qed

lemma sample_finish_step: "drain_step sample (run_finish 0 (Inr Null) sample)"
  by (rule drain_finish) (simp_all add: sample_eq)

lemma sample_done_stuck: "\<nexists>q'. drain_step sample_done q'"
  by (auto simp: sample_done_eq can_start_def elim!: drain_stepE)

theorem session_queue_drains_witness:
  "work (run_finish 0 (Inr Null) sample) < work sample \<and> settled sample_done 1 \<noteq> None"
  using session_queue_drains [OF sample_reachable, of "run_finish 0 (Inr Null) sample"] sample_finish_step
    session_queue_drains [OF sample_done_reachable] sample_done_stuck
  by (simp add: sample_done_eq)

text \<open>
  A promise settles with the outcome of its own task. When the task running in a state ends,
  the promise of that request, and no other, is settled, with the task's value or error.
\<close>

theorem session_outcome_own:
  assumes "steps_from queue_step (new_queue depth) q" and "i < length (states q)"
    and "current (states q ! i) = Some e"
  shows "settled (run_finish i result q) =
    (settled q)(e \<mapsto> (case result of Inr v \<Rightarrow> Resolve v | Inl err \<Rightarrow> RejectTask err))"
proof -
  have "queue_ok q" using rq.inv_reachable [OF _ assms(1)] by blast
  from queue_okD(1) [OF this assms(2)] assms(3) have "settled q e = None" by (simp add: state_ok_def todo_def)
  with assms(3) show ?thesis by (simp add: run_finish_def Let_def fun_eq_iff settled_settle)
qed

theorem session_outcome_own_witness:
  "settled (run_finish 0 (Inr Null) sample) = (settled sample)(0 \<mapsto> Resolve Null)"
  using session_outcome_own [OF sample_reachable, of 0 0 "Inr Null"] by (simp add: sample_eq)

subsection \<open>Clearing a session\<close>

text \<open>
  The run: A starts and B waits behind it; \<open>clear\<close> drops B, whose promise is rejected; A ends and
  its \<open>release\<close> removes the state from the map; C is queued in a new state and starts; B's place in
  the promise chain of the old state comes up and its task is called.
\<close>

definition after_clear :: session_request_queue where
  "after_clear = run_finish 0 (Inr Null) (clear ''s'' (\<lambda>n. 3) sample)"

definition both_running :: session_request_queue where
  "both_running = run_start 0 9 9 (run_start 1 9 9 (snd (enqueue ''s'' None 8 after_clear)))"

lemma after_clear_eq: "after_clear =
  \<lparr>maxQueueDepth = 100, queues = [],
   states = [\<lparr>ss_key = ''s'', chain = [1], current = None, pending = [], locked = False\<rparr>],
   entries = [\<lparr>entry_key = ''s'', sessionExpiresAt = Some 5, enqueuedAt = 0\<rparr>,
              \<lparr>entry_key = ''s'', sessionExpiresAt = None, enqueuedAt = 0\<rparr>],
   settled = [1 \<mapsto> RejectSession (SessionTimeoutError ''s'' 3), 0 \<mapsto> Resolve Null],
   started = [0], timeout_calls = [(''s'', 3)], overflow_calls = []\<rparr>"
  by (simp add: after_clear_def sample_eq queue_eval)

lemma steps_clear: "steps_from queue_step q q' \<Longrightarrow> steps_from queue_step_clear q q'"
  by (induction rule: steps_from.induct) (auto intro: steps_step do_plain)

lemma both_running_reachable: "steps_from queue_step_clear (new_queue None) both_running"
proof -
  let ?c = "clear ''s'' (\<lambda>n. 3) sample" and ?q1 = "snd (enqueue ''s'' None 8 after_clear)"
  have "steps_from queue_step_clear (new_queue None) ?c"
    by (rule steps_step [where t = sample]) (auto intro: do_clear steps_clear sample_reachable)
  then have "steps_from queue_step_clear (new_queue None) after_clear" unfolding after_clear_def
    by (rule steps_step [where t = ?c], intro do_plain do_finish) (simp add: sample_eq queue_eval)
  then have "steps_from queue_step_clear (new_queue None) ?q1"
    by (rule steps_step [where t = after_clear], intro do_plain do_enqueue)
  then have "steps_from queue_step_clear (new_queue None) (run_start 1 9 9 ?q1)"
    by (rule steps_step [where t = ?q1], intro do_plain do_start) (simp add: after_clear_eq queue_eval)
  then show ?thesis unfolding both_running_def
    by (rule steps_step [where t = "run_start 1 9 9 ?q1"], intro do_plain do_start)
      (simp add: after_clear_eq queue_eval)
qed

text \<open>
  \<open>clear\<close> breaks the session lock. There is a run with one call of \<open>clear\<close> after which two
  requests of the same session are being executed, one of them a request that \<open>clear\<close> had already
  rejected with a \<open>SessionTimeoutError\<close>: \<open>clear\<close> empties \<open>pending\<close> but leaves the dropped
  entries in the promise chain.
\<close>

theorem clear_breaks_exclusion:
  "\<exists>q. steps_from queue_step_clear (new_queue None) q \<and> running q ''s'' 1 \<and> running q ''s'' 2 \<and>
     settled q 1 = Some (RejectSession (SessionTimeoutError ''s'' 3)) \<and> 1 \<in> set (started q)"
  by (rule exI [of _ both_running])
    (simp add: both_running_reachable, simp add: both_running_def after_clear_eq queue_eval running_def)

end
