(* ===== verification/Js_Json.thy ===== *)
theory Js_Json
  imports Js_Value
begin

text \<open>
  JSON values as \<open>JSON.parse\<close> delivers them, and \<open>JSON.stringify\<close>. The properties of an object are
  listed in their enumeration order. A number is given by the text that JavaScript prints for it.
\<close>

datatype json =
  JNull
| JBool bool
| JNum string
| JStr string
| JArr "json list"
| JObj "(string \<times> json) list"

fun json_truthy :: "json \<Rightarrow> bool" where
  "json_truthy JNull = False"
| "json_truthy (JBool b) = b"
| "json_truthy (JNum t) = (t \<noteq> ''0'')"
| "json_truthy (JStr s) = (s \<noteq> [])"
| "json_truthy (JArr xs) = True"
| "json_truthy (JObj ps) = True"

definition hex_digit :: "nat \<Rightarrow> char" where
  "hex_digit n = (if n < 10 then char_of (48 + n) else char_of (87 + n))"

definition json_escape :: "char \<Rightarrow> string" where
  "json_escape c = (let n = of_char c :: nat; b = CHR 0x5C in
     if n = 0x22 \<or> n = 0x5C then [b, c]
     else if n = 8 then [b, CHR ''b''] else if n = 9 then [b, CHR ''t'']
     else if n = 10 then [b, CHR ''n''] else if n = 12 then [b, CHR ''f'']
     else if n = 13 then [b, CHR ''r'']
     else if n < 32 then [b, CHR ''u'', CHR ''0'', CHR ''0'', hex_digit (n div 16), hex_digit (n mod 16)]
     else [c])"

definition json_quote :: "string \<Rightarrow> string" where
  "json_quote s = quoted (concat (map json_escape s))"

fun stringify :: "json \<Rightarrow> string" where
  "stringify JNull = ''null''"
| "stringify (JBool b) = (if b then ''true'' else ''false'')"
| "stringify (JNum t) = t"
| "stringify (JStr s) = json_quote s"
| "stringify (JArr xs) = ''['' @ join '','' (map stringify xs) @ '']''"
| "stringify (JObj ps) = ''{'' @ join '','' (map (\<lambda>(k, v). json_quote k @ '':'' @ stringify v) ps) @ ''}''"

text \<open>Reading a property; \<open>None\<close> is undefined. A later duplicate key would replace an earlier one.\<close>

fun property :: "json \<Rightarrow> string \<Rightarrow> json option" where
  "property (JObj ps) k = map_of ps k"
| "property v k = None"

text \<open>\<open>a || b || ...\<close> over optional values: the first truthy one, else the last.\<close>

fun first_truthy :: "('a \<Rightarrow> bool) \<Rightarrow> 'a option list \<Rightarrow> 'a option" where
  "first_truthy p [] = None"
| "first_truthy p (Some x # xs) = (if p x then Some x else if xs = [] then Some x else first_truthy p xs)"
| "first_truthy p (None # xs) = first_truthy p xs"

end
