(* ===== verification/Callback_Idempotency.thy ===== *)
theory Callback_Idempotency
  imports Js_Json
begin

text \<open>
  \<open>src/src/middleware/callbackIdempotency.ts\<close>: the in-memory store that recognises a mobile money
  callback that was already received, and the middleware in front of the callback handlers.

  \<open>records\<close> and \<open>hashIndex\<close> are JavaScript maps (insertion order matters: the eviction takes the
  first key). Times are epoch milliseconds. The digest of node's crypto module is the parameter
  \<open>sha\<close>, the SHA-256 hex digest of a string; no law of it is needed. A request is its headers, as
  the lookup \<open>req.header\<close>, and its parsed body.
\<close>

subsection \<open>Data\<close>

datatype callback_status = received | processed | duplicate

record callback_record =
  idempotencyKey :: string
  payloadHash :: string
  provider_of :: string
  receivedAt :: int
  status :: callback_status
  responseBody :: "json option"
  statusCode :: "int option"

record callback_store =
  records :: "(string, callback_record) js_map"
  hashIndex :: "(string, string) js_map"
  maxEntries :: int
  ttlMs :: int

record callback_request =
  header :: "string \<Rightarrow> string option"
  body :: "json option"

definition new_store :: "int option \<Rightarrow> int option \<Rightarrow> callback_store" where
  "new_store ttl entries =
     \<lparr>records = [], hashIndex = [],
      maxEntries = (case entries of None \<Rightarrow> 10000 | Some n \<Rightarrow> n),
      ttlMs = (case ttl of None \<Rightarrow> 24 * 60 * 60 * 1000 | Some t \<Rightarrow> t)\<rparr>"

subsection \<open>The store\<close>

definition body_or_empty :: "json option \<Rightarrow> json" where
  "body_or_empty b = (case b of None \<Rightarrow> JObj [] | Some JNull \<Rightarrow> JObj [] | Some v \<Rightarrow> v)"

definition hashPayload :: "(string \<Rightarrow> string) \<Rightarrow> json option \<Rightarrow> string" where
  "hashPayload sha b = sha (case b of Some (JStr s) \<Rightarrow> s | _ \<Rightarrow> stringify (body_or_empty b))"

definition full_key :: "string \<Rightarrow> string \<Rightarrow> string" where
  "full_key provider key = provider @ '':'' @ key"

definition findDuplicate ::
  "string \<Rightarrow> string \<Rightarrow> string \<Rightarrow> int \<Rightarrow> callback_store \<Rightarrow> callback_record option \<times> callback_store" where
  "findDuplicate provider key hash now s =
     (let fk = full_key provider key in
      case map_get (records s) fk of
        Some record \<Rightarrow>
          if now - receivedAt record > ttlMs s
          then (None, s\<lparr>records := map_delete fk (records s),
                        hashIndex := map_delete (full_key provider (payloadHash record)) (hashIndex s)\<rparr>)
          else (Some record, s)
      | None \<Rightarrow>
          (case map_get (hashIndex s) (full_key provider hash) of
             None \<Rightarrow> (None, s)
           | Some existingKey \<Rightarrow>
               if existingKey = [] then (None, s) else
               (case map_get (records s) existingKey of
                  Some byHash \<Rightarrow> if now - receivedAt byHash \<le> ttlMs s then (Some byHash, s) else (None, s)
                | None \<Rightarrow> (None, s))))"

definition evict_oldest :: "string \<Rightarrow> callback_store \<Rightarrow> callback_store" where
  "evict_oldest provider s =
     (if int (map_size (records s)) \<ge> maxEntries s
      then (case map_keys (records s) of
              [] \<Rightarrow> s
            | oldestKey # _ \<Rightarrow>
                if oldestKey = [] then s else
                (let s1 = (case map_get (records s) oldestKey of
                             None \<Rightarrow> s
                           | Some old \<Rightarrow> s\<lparr>hashIndex := map_delete (full_key provider (payloadHash old)) (hashIndex s)\<rparr>)
                 in s1\<lparr>records := map_delete oldestKey (records s1)\<rparr>))
      else s)"

definition recordCallback ::
  "string \<Rightarrow> string \<Rightarrow> string \<Rightarrow> int \<Rightarrow> callback_store \<Rightarrow> callback_record \<times> callback_store" where
  "recordCallback provider key hash now s =
     (let s1 = evict_oldest provider s;
          fk = full_key provider key;
          record = \<lparr>idempotencyKey = key, payloadHash = hash, provider_of = provider, receivedAt = now,
                    status = received, responseBody = None, statusCode = None\<rparr>
      in (record, s1\<lparr>records := map_set fk record (records s1),
                     hashIndex := map_set (full_key provider hash) fk (hashIndex s1)\<rparr>))"

definition markProcessed ::
  "string \<Rightarrow> string \<Rightarrow> int \<Rightarrow> json option \<Rightarrow> callback_store \<Rightarrow> callback_store" where
  "markProcessed provider key code response s =
     (let fk = full_key provider key in
      case map_get (records s) fk of
        None \<Rightarrow> s
      | Some record \<Rightarrow> s\<lparr>records := map_set fk
          (record\<lparr>status := processed, statusCode := Some code, responseBody := response\<rparr>) (records s)\<rparr>)"

definition clear_store :: "callback_store \<Rightarrow> callback_store" where
  "clear_store s = s\<lparr>records := [], hashIndex := []\<rparr>"

definition getRecordCount :: "callback_store \<Rightarrow> nat" where
  "getRecordCount s = map_size (records s)"

subsection \<open>The middleware\<close>

definition callback_headers :: "string list" where
  "callback_headers = [''x-callback-id'', ''x-idempotency-key'', ''x-reference-id'', ''x-request-id'',
     ''x-correlation-id'']"

definition callback_fields :: "string list" where
  "callback_fields = [''financialTransactionId'', ''transactionId'', ''transId'', ''transaction_id'',
     ''tx_ref'', ''reference'', ''externalId'', ''id'', ''order_id'']"

definition body_candidate :: "json option \<Rightarrow> json option" where
  "body_candidate b =
     (case b of
        Some (JObj ps) \<Rightarrow> first_truthy json_truthy (map (property (JObj ps)) callback_fields)
      | _ \<Rightarrow> None)"

definition fallback_key :: "(string \<Rightarrow> string) \<Rightarrow> json option \<Rightarrow> string \<Rightarrow> string" where
  "fallback_key sha b provider = sha (provider @ '':'' @ stringify (body_or_empty b))"

definition body_key :: "(string \<Rightarrow> string) \<Rightarrow> callback_request \<Rightarrow> string \<Rightarrow> string" where
  "body_key sha req provider =
     (case body_candidate (body req) of
        Some (JStr c) \<Rightarrow> if trim c \<noteq> [] then trim c else fallback_key sha (body req) provider
      | _ \<Rightarrow> fallback_key sha (body req) provider)"

definition extractCallbackIdempotencyKey :: "(string \<Rightarrow> string) \<Rightarrow> callback_request \<Rightarrow> string \<Rightarrow> string" where
  "extractCallbackIdempotencyKey sha req provider =
     (case first_truthy (\<lambda>s. s \<noteq> []) (map (header req) callback_headers) of
        Some h \<Rightarrow> if trim h \<noteq> [] then trim h else body_key sha req provider
      | None \<Rightarrow> body_key sha req provider)"

text \<open>
  The handler answers a duplicate itself (status 200, with the two duplicate headers) or calls
  \<open>next\<close>, with \<open>res.json\<close> replaced by a function that first marks the record as processed.
\<close>

datatype callback_action =
  DuplicateResponse string string
| NextCalled string string

definition callbackIdempotency ::
  "(string \<Rightarrow> string) \<Rightarrow> string \<Rightarrow> callback_request \<Rightarrow> int \<Rightarrow> int \<Rightarrow> callback_store \<Rightarrow> callback_action \<times> callback_store" where
  "callbackIdempotency sha provider req now1 now2 s =
     (let key = extractCallbackIdempotencyKey sha req provider;
          hash = hashPayload sha (body req)
      in case findDuplicate provider key hash now1 s of
           (Some existing, s1) \<Rightarrow> (DuplicateResponse provider key, s1)
         | (None, s1) \<Rightarrow> (NextCalled provider key, snd (recordCallback provider key hash now2 s1)))"

definition json_sent :: "string \<Rightarrow> string \<Rightarrow> int \<Rightarrow> json option \<Rightarrow> callback_store \<Rightarrow> callback_store" where
  "json_sent provider key code response s = markProcessed provider key code response s"

subsection \<open>Runs of the middleware\<close>

datatype callback_event =
  Incoming string callback_request int int
| JsonSent string string int "json option"

fun step_event :: "(string \<Rightarrow> string) \<Rightarrow> callback_event \<Rightarrow> callback_store \<Rightarrow> callback_store" where
  "step_event sha (Incoming p req now1 now2) s = snd (callbackIdempotency sha p req now1 now2 s)"
| "step_event sha (JsonSent p key code response) s = json_sent p key code response s"

definition run_events :: "(string \<Rightarrow> string) \<Rightarrow> callback_event list \<Rightarrow> callback_store \<Rightarrow> callback_store" where
  "run_events sha es s = fold (step_event sha) es s"

fun incoming_at :: "callback_event \<Rightarrow> int option" where
  "incoming_at (Incoming p req now1 now2) = Some now1"
| "incoming_at (JsonSent p key code response) = None"

definition in_window :: "int \<Rightarrow> int \<Rightarrow> callback_event \<Rightarrow> bool" where
  "in_window t ttl e = (case incoming_at e of None \<Rightarrow> True | Some now \<Rightarrow> now - t \<le> ttl)"

definition is_incoming :: "callback_event \<Rightarrow> bool" where
  "is_incoming e = (incoming_at e \<noteq> None)"

subsection \<open>The store is bounded\<close>

definition store_ok :: "callback_store \<Rightarrow> bool" where
  "store_ok s \<longleftrightarrow> map_wf (records s) \<and> [] \<notin> set (map_keys (records s)) \<and>
     int (map_size (records s)) \<le> max 1 (maxEntries s)"

lemma full_key_nonempty [simp]: "full_key p k \<noteq> []" "[] \<noteq> full_key p k"
  by (simp_all add: full_key_def)

lemma findDuplicate_store:
  assumes "findDuplicate p k h now s = (r, s1)"
  shows "records s1 = records s \<or> (\<exists>rec. map_get (records s) (full_key p k) = Some rec \<and>
      now - receivedAt rec > ttlMs s \<and> records s1 = map_delete (full_key p k) (records s) \<and> r = None)"
    and "maxEntries s1 = maxEntries s" and "ttlMs s1 = ttlMs s"
  using assms by (auto simp: findDuplicate_def Let_def split: option.splits if_splits)

lemma findDuplicate_ok:
  assumes "store_ok s" and "findDuplicate p k h now s = (r, s1)"
  shows "store_ok s1"
  using findDuplicate_store [OF assms(2)] assms(1)
  by (auto simp: store_ok_def map_size_delete map_keys_delete)

text \<open>Eviction, on a well-formed store: the first key goes when the store is full.\<close>

lemma evict_oldest_records:
  assumes "[] \<notin> set (map_keys (records s))"
  shows "records (evict_oldest p s) =
    (if int (map_size (records s)) \<ge> maxEntries s \<and> records s \<noteq> []
     then map_delete (hd (map_keys (records s))) (records s) else records s)"
    and "maxEntries (evict_oldest p s) = maxEntries s" and "ttlMs (evict_oldest p s) = ttlMs s"
  using assms by (auto simp: evict_oldest_def map_keys_def split: list.splits option.splits)

lemma hd_key_present: "m \<noteq> [] \<Longrightarrow> map_get m (hd (map_keys m)) \<noteq> None"
  by (cases m) (auto simp: map_get_def map_keys_def)

lemma evict_room:
  assumes "store_ok s"
  shows "map_wf (records (evict_oldest p s)) \<and> [] \<notin> set (map_keys (records (evict_oldest p s))) \<and>
    int (map_size (records (evict_oldest p s))) \<le> max 1 (maxEntries s) - 1"
proof (cases "records s = []")
  case True
  with assms show ?thesis by (simp add: store_ok_def evict_oldest_def map_size_def)
next
  case False
  from assms False evict_oldest_records(1) [of s p] hd_key_present [OF False] show ?thesis
    by (auto simp: store_ok_def map_size_delete map_keys_delete of_nat_diff split: if_splits)
qed

lemma recordCallback_records:
  "\<exists>rec. records (snd (recordCallback p k h now s)) = map_set (full_key p k) rec (records (evict_oldest p s)) \<and>
     receivedAt rec = now"
  by (auto simp: recordCallback_def Let_def)

lemma recordCallback_config:
  assumes "[] \<notin> set (map_keys (records s))"
  shows "maxEntries (snd (recordCallback p k h now s)) = maxEntries s"
    and "ttlMs (snd (recordCallback p k h now s)) = ttlMs s"
  using evict_oldest_records(2,3) [OF assms] by (simp_all add: recordCallback_def Let_def)

lemma recordCallback_ok:
  assumes "store_ok s"
  shows "store_ok (snd (recordCallback p k h now s))"
proof -
  obtain rec where r: "records (snd (recordCallback p k h now s)) =
      map_set (full_key p k) rec (records (evict_oldest p s))"
    using recordCallback_records by blast
  from evict_room [OF assms, of p] have "int (map_size (map_set (full_key p k) rec (records (evict_oldest p s))))
      \<le> max 1 (maxEntries s)"
    by (auto simp: map_size_set)
  moreover have "maxEntries (snd (recordCallback p k h now s)) = maxEntries s"
    using assms by (intro recordCallback_config) (simp add: store_ok_def)
  ultimately show ?thesis using evict_room [OF assms, of p]
    by (auto simp: store_ok_def r map_keys_set)
qed

lemma markProcessed_ok: "store_ok s \<Longrightarrow> store_ok (markProcessed p k c b s)"
  by (auto simp: store_ok_def markProcessed_def Let_def map_keys_set map_size_set split: option.splits)

lemma step_event_ok:
  assumes "store_ok s"
  shows "store_ok (step_event sha e s)"
proof (cases e)
  case (Incoming p req now1 now2)
  obtain r s1 where f: "findDuplicate p (extractCallbackIdempotencyKey sha req p)
      (hashPayload sha (body req)) now1 s = (r, s1)"
    by (meson surj_pair)
  from recordCallback_ok [OF findDuplicate_ok [OF assms f]] findDuplicate_ok [OF assms f] Incoming f
  show ?thesis by (cases r) (simp_all add: callbackIdempotency_def Let_def)
next
  case (JsonSent p k c b)
  with assms show ?thesis by (simp add: json_sent_def markProcessed_ok)
qed

interpretation cs: invariant_machine "\<lambda>s. \<exists>ttl entries. s = new_store ttl entries"
    "\<lambda>s t. \<exists>sha e. t = step_event sha e s" store_ok
  by unfold_locales (auto simp: step_event_ok, simp add: new_store_def store_ok_def map_size_def split: option.split)

subsection \<open>A recorded callback is recognised\<close>

text \<open>The record of the key, received at \<open>t\<close>, is in the store with at most \<open>n\<close> younger records.\<close>

definition kept :: "string \<Rightarrow> int \<Rightarrow> nat \<Rightarrow> callback_store \<Rightarrow> bool" where
  "kept fk t n s \<longleftrightarrow> store_ok s \<and>
     (\<exists>xs ys. map_keys (records s) = xs @ fk # ys \<and> length ys \<le> n) \<and>
     (\<exists>r. map_get (records s) fk = Some r \<and> receivedAt r = t)"

lemma kept_delete_other:
  assumes "kept fk t n s" and "k \<noteq> fk"
  shows "(\<exists>xs ys. map_keys (map_delete k (records s)) = xs @ fk # ys \<and> length ys \<le> n)"
proof -
  obtain xs ys where k: "map_keys (records s) = xs @ fk # ys" "length ys \<le> n"
    using assms(1) by (auto simp: kept_def)
  then have "map_keys (map_delete k (records s)) = filter (\<lambda>x. x \<noteq> k) xs @ fk # filter (\<lambda>x. x \<noteq> k) ys"
    using assms(2) by (simp add: map_keys_delete)
  moreover have "length (filter (\<lambda>x. x \<noteq> k) ys) \<le> n" using k(2) by (meson length_filter_le le_trans)
  ultimately show ?thesis by blast
qed

lemma kept_findDuplicate:
  assumes "kept fk t n s" and "now - t \<le> ttlMs s" and "findDuplicate p k h now s = (r, s1)"
  shows "kept fk t n s1" and "full_key p k = fk \<Longrightarrow> r \<noteq> None"
proof -
  from findDuplicate_store(1) [OF assms(3)] show "kept fk t n s1"
  proof
    assume "records s1 = records s"
    with assms(1) findDuplicate_ok [OF _ assms(3)] show ?thesis by (auto simp: kept_def)
  next
    assume "\<exists>rec. map_get (records s) (full_key p k) = Some rec \<and> now - receivedAt rec > ttlMs s \<and>
      records s1 = map_delete (full_key p k) (records s) \<and> r = None"
    then have ne: "full_key p k \<noteq> fk" and d: "records s1 = map_delete (full_key p k) (records s)"
      using assms(1,2) by (auto simp: kept_def)
    with kept_delete_other [OF assms(1) ne] assms(1) findDuplicate_ok [OF _ assms(3)] show ?thesis
      by (auto simp: kept_def)
  qed
  show "r \<noteq> None" if "full_key p k = fk"
  proof -
    obtain rec where "map_get (records s) fk = Some rec" and "receivedAt rec = t"
      using assms(1) by (auto simp: kept_def)
    with that assms(2,3) have "(r, s1) = (Some rec, s)" by (simp add: findDuplicate_def Let_def)
    then show ?thesis by simp
  qed
qed

lemma kept_evict:
  assumes "kept fk t n s" and "int (Suc n) < maxEntries s"
  shows "(\<exists>xs ys. map_keys (records (evict_oldest p s)) = xs @ fk # ys \<and> length ys \<le> n)"
    and "map_get (records (evict_oldest p s)) fk = map_get (records s) fk"
proof -
  obtain xs ys where k: "map_keys (records s) = xs @ fk # ys" "length ys \<le> n"
    using assms(1) by (auto simp: kept_def)
  have ok: "[] \<notin> set (map_keys (records s))" "distinct (map_keys (records s))"
    using assms(1) by (auto simp: kept_def store_ok_def map_wf_keys)
  have hd: "hd (map_keys (records s)) \<noteq> fk" if "int (map_size (records s)) \<ge> maxEntries s"
    using that k ok(2) assms(2) by (cases xs) (auto simp: map_size_keys)
  note ev = evict_oldest_records(1) [OF ok(1), of p]
  show "(\<exists>xs ys. map_keys (records (evict_oldest p s)) = xs @ fk # ys \<and> length ys \<le> n)"
    using kept_delete_other [OF assms(1)] hd k by (auto simp: ev)
  show "map_get (records (evict_oldest p s)) fk = map_get (records s) fk"
    using hd by (auto simp: ev)
qed

lemma kept_recordCallback:
  assumes "kept fk t n s" and "int (Suc n) < maxEntries s" and "full_key p k \<noteq> fk"
  shows "kept fk t (Suc n) (snd (recordCallback p k h now s))"
proof -
  obtain rec where r: "records (snd (recordCallback p k h now s)) =
      map_set (full_key p k) rec (records (evict_oldest p s))"
    using recordCallback_records by blast
  obtain xs ys where k: "map_keys (records (evict_oldest p s)) = xs @ fk # ys" "length ys \<le> n"
    using kept_evict(1) [OF assms(1,2)] by blast
  have "\<exists>xs ys. map_keys (records (snd (recordCallback p k h now s))) = xs @ fk # ys \<and> length ys \<le> Suc n"
    using k by (auto simp: r map_keys_set intro: exI [of _ xs])
  moreover have "store_ok (snd (recordCallback p k h now s))"
    using assms(1) by (intro recordCallback_ok) (simp add: kept_def)
  ultimately show ?thesis using assms(1,3) kept_evict(2) [OF assms(1,2)] by (auto simp: kept_def r)
qed

lemma kept_mono: "kept fk t n s \<Longrightarrow> n \<le> m \<Longrightarrow> kept fk t m s"
  by (fastforce simp: kept_def)

lemma kept_markProcessed:
  assumes "kept fk t n s"
  shows "kept fk t n (markProcessed p k c b s)"
proof -
  have "store_ok (markProcessed p k c b s)" using assms by (intro markProcessed_ok) (simp add: kept_def)
  with assms show ?thesis
    by (auto simp: kept_def markProcessed_def Let_def map_keys_set map_get_set split: option.splits)
qed

lemma kept_step:
  assumes "kept fk t n s" and "int (Suc n) < maxEntries s"
    and "in_window t (ttlMs s) e"
  shows "kept fk t (if is_incoming e then Suc n else n) (step_event sha e s)"
proof (cases e)
  case (Incoming p req now1 now2)
  let ?k = "extractCallbackIdempotencyKey sha req p" and ?h = "hashPayload sha (body req)"
  obtain r s1 where f: "findDuplicate p ?k ?h now1 s = (r, s1)" by (meson surj_pair)
  have now: "now1 - t \<le> ttlMs s" using assms(3) Incoming by (simp add: in_window_def)
  note k1 = kept_findDuplicate [OF assms(1) now f]
  show ?thesis
  proof (cases r)
    case None
    have "int (Suc n) < maxEntries s1" using assms(2) findDuplicate_store(2) [OF f] by simp
    from kept_recordCallback [OF k1(1) this] k1(2) None f Incoming show ?thesis
      by (auto simp: callbackIdempotency_def Let_def is_incoming_def)
  next
    case (Some x)
    with k1(1) f Incoming show ?thesis
      by (auto simp: callbackIdempotency_def Let_def is_incoming_def intro: kept_mono)
  qed
next
  case (JsonSent p k c b)
  with kept_markProcessed [OF assms(1)] show ?thesis by (simp add: is_incoming_def json_sent_def)
qed

lemma step_config:
  assumes "store_ok s"
  shows "maxEntries (step_event sha e s) = maxEntries s" and "ttlMs (step_event sha e s) = ttlMs s"
proof -
  have "maxEntries (step_event sha e s) = maxEntries s \<and> ttlMs (step_event sha e s) = ttlMs s"
  proof (cases e)
    case (Incoming p req now1 now2)
    obtain r s1 where f: "findDuplicate p (extractCallbackIdempotencyKey sha req p)
        (hashPayload sha (body req)) now1 s = (r, s1)" by (meson surj_pair)
    from findDuplicate_ok [OF assms f] have "[] \<notin> set (map_keys (records s1))" by (simp add: store_ok_def)
    from recordCallback_config [OF this] findDuplicate_store(2,3) [OF f] f Incoming show ?thesis
      by (cases r) (simp_all add: callbackIdempotency_def Let_def)
  qed (auto simp: json_sent_def markProcessed_def Let_def split: option.splits)
  then show "maxEntries (step_event sha e s) = maxEntries s" and "ttlMs (step_event sha e s) = ttlMs s" by auto
qed

lemma kept_run:
  assumes "kept fk t n s" and "int (n + length (filter is_incoming es)) < maxEntries s"
    and "\<forall>e \<in> set es. in_window t (ttlMs s) e"
  shows "\<exists>m. kept fk t m (run_events sha es s)" and "ttlMs (run_events sha es s) = ttlMs s"
proof -
  have "(\<exists>m. kept fk t m (run_events sha es s)) \<and> ttlMs (run_events sha es s) = ttlMs s"
    using assms
  proof (induction es arbitrary: n s)
    case Nil
    then show ?case by (auto simp: run_events_def)
  next
    case (Cons e es)
    have ok: "store_ok s" using Cons.prems(1) by (simp add: kept_def)
    have c: "maxEntries (step_event sha e s) = maxEntries s" "ttlMs (step_event sha e s) = ttlMs s"
      using step_config [OF ok] by auto
    note IH = Cons.IH [of _ "step_event sha e s", unfolded c]
    show ?case
    proof (cases "is_incoming e")
      case True
      have "kept fk t (Suc n) (step_event sha e s)"
        using kept_step [OF Cons.prems(1), of e sha] Cons.prems(2,3) True by simp
      from IH [OF this] Cons.prems(2,3) True show ?thesis by (simp add: run_events_def)
    next
      case False
      then obtain p k code b where e: "e = JsonSent p k code b" by (cases e) (auto simp: is_incoming_def)
      have "kept fk t n (step_event sha e s)"
        using kept_markProcessed [OF Cons.prems(1)] by (simp add: e json_sent_def)
      from IH [OF this] Cons.prems(2,3) False show ?thesis by (simp add: run_events_def)
    qed
  qed
  then show "\<exists>m. kept fk t m (run_events sha es s)" and "ttlMs (run_events sha es s) = ttlMs s" by auto
qed

lemma recorded_kept:
  assumes ok: "store_ok s" and new: "map_get (records s) (full_key p k) = None"
  shows "kept (full_key p k) now 0 (snd (recordCallback p k h now s))"
proof -
  obtain rec where r: "records (snd (recordCallback p k h now s)) =
      map_set (full_key p k) rec (records (evict_oldest p s))" "receivedAt rec = now"
    using recordCallback_records by blast
  have "map_get (records (evict_oldest p s)) (full_key p k) = None"
    using new ok evict_oldest_records(1) [of s p] by (simp add: store_ok_def map_get_delete)
  with r recordCallback_ok [OF ok, of p k h now] show ?thesis by (auto simp: kept_def map_keys_set)
qed

lemma next_called_kept:
  assumes ok: "store_ok s" and act: "callbackIdempotency sha p req now1 now2 s = (NextCalled p key, s2)"
  shows "kept (full_key p key) now2 0 s2" and "key = extractCallbackIdempotencyKey sha req p"
    and "maxEntries s2 = maxEntries s" and "ttlMs s2 = ttlMs s"
proof -
  let ?k = "extractCallbackIdempotencyKey sha req p" and ?h = "hashPayload sha (body req)"
  obtain r s1 where f: "findDuplicate p ?k ?h now1 s = (r, s1)" by (meson surj_pair)
  with act have r: "r = None" and k: "key = ?k" and s2: "s2 = snd (recordCallback p ?k ?h now2 s1)"
    by (auto simp: callbackIdempotency_def Let_def split: option.splits)
  have "map_get (records s1) (full_key p ?k) = None"
    using f r by (auto simp: findDuplicate_def Let_def split: option.splits if_splits)
  with recorded_kept [OF findDuplicate_ok [OF ok f]] show "kept (full_key p key) now2 0 s2" by (simp add: k s2)
  show "key = ?k" by (rule k)
  have "maxEntries (step_event sha (Incoming p req now1 now2) s) = maxEntries s"
    "ttlMs (step_event sha (Incoming p req now1 now2) s) = ttlMs s"
    by (rule step_config [OF ok])+
  with act show "maxEntries s2 = maxEntries s" and "ttlMs s2 = ttlMs s" by simp_all
qed

lemma run_events_ok: "store_ok s \<Longrightarrow> store_ok (run_events sha es s)"
  unfolding run_events_def by (induction es arbitrary: s) (simp_all add: step_event_ok)

lemma new_store_ok: "store_ok (new_store ttl entries)"
  by (rule cs.inv_initial) auto

lemma run_config:
  assumes "store_ok s"
  shows "maxEntries (run_events sha es s) = maxEntries s \<and> ttlMs (run_events sha es s) = ttlMs s"
  using assms unfolding run_events_def
  by (induction es arbitrary: s) (simp_all add: step_config step_event_ok)

subsection \<open>Properties\<close>

text \<open>
  C37. A callback is processed once. After the handler let a callback through (called \<open>next\<close>), any
  later callback of the provider with the same idempotency key that arrives within the time to live
  is answered as a duplicate, whatever other callbacks and responses come in between, provided fewer
  callbacks than \<open>maxEntries\<close> came in between and they arrive within the same time.
\<close>

theorem callback_processed_once:
  assumes "s = run_events sha es0 (new_store (Some ttl) (Some entries))"
    and "callbackIdempotency sha p req now1 now2 s = (NextCalled p key, s2)"
    and "int (length (filter is_incoming es)) < entries" and "\<forall>e \<in> set es. in_window now2 ttl e"
    and "extractCallbackIdempotencyKey sha req' p = key" and "now3 - now2 \<le> ttl"
  shows "fst (callbackIdempotency sha p req' now3 now4 (run_events sha es s2)) = DuplicateResponse p key"
proof -
  have ok: "store_ok s" using run_events_ok [OF new_store_ok] by (simp add: assms(1))
  have cfg: "maxEntries s = entries" "ttlMs s = ttl"
    using run_config [OF new_store_ok [of "Some ttl" "Some entries"], of sha es0] by (simp_all add: assms(1) new_store_def)
  note nk = next_called_kept [OF ok assms(2)]
  obtain m where m: "kept (full_key p key) now2 m (run_events sha es s2)"
    and ttl: "ttlMs (run_events sha es s2) = ttl"
    using kept_run [OF nk(1), of es sha] assms(3,4) nk(3,4) cfg by auto
  obtain r s1 where f: "findDuplicate p key (hashPayload sha (body req')) now3 (run_events sha es s2) = (r, s1)"
    by (meson surj_pair)
  have "r \<noteq> None" using kept_findDuplicate(2) [OF m _ f] ttl assms(6) by simp
  with f assms(5) show ?thesis by (auto simp: callbackIdempotency_def Let_def)
qed

definition sample_request :: callback_request where
  "sample_request = \<lparr>header = Map.empty, body = Some (JObj [(''reference'', JStr ''R1'')])\<rparr>"

lemma sample_key: "extractCallbackIdempotencyKey sha sample_request p = ''R1''"
  by (simp add: extractCallbackIdempotencyKey_def sample_request_def callback_headers_def body_key_def
      body_candidate_def callback_fields_def trim_def is_space_def)

definition sample_events :: "callback_event list" where
  "sample_events = [JsonSent ''mtn'' ''R1'' 200 None, Incoming ''orange'' sample_request 12 12]"

lemma sample_next: "callbackIdempotency sha ''mtn'' sample_request 10 11 (new_store (Some 100) (Some 2)) =
    (NextCalled ''mtn'' ''R1'',
     snd (recordCallback ''mtn'' ''R1'' (hashPayload sha (body sample_request)) 11 (new_store (Some 100) (Some 2))))"
  by (simp add: callbackIdempotency_def sample_key findDuplicate_def new_store_def Let_def)

theorem callback_processed_once_witness:
  "fst (callbackIdempotency (\<lambda>x. x) ''mtn'' sample_request 20 20 (run_events (\<lambda>x. x) sample_events
     (snd (callbackIdempotency (\<lambda>x. x) ''mtn'' sample_request 10 11 (new_store (Some 100) (Some 2)))))) =
   DuplicateResponse ''mtn'' ''R1''"
proof -
  let ?s = "new_store (Some 100) (Some 2)"
  have "?s = run_events (\<lambda>x. x) [] (new_store (Some 100) (Some 2))" by (simp add: run_events_def)
  moreover have "callbackIdempotency (\<lambda>x. x) ''mtn'' sample_request 10 11 ?s =
      (NextCalled ''mtn'' ''R1'', snd (callbackIdempotency (\<lambda>x. x) ''mtn'' sample_request 10 11 ?s))"
    by (simp add: sample_next)
  moreover have "int (length (filter is_incoming sample_events)) < 2"
    by (simp add: sample_events_def is_incoming_def)
  moreover have "\<forall>e \<in> set sample_events. in_window 11 100 e"
    by (simp add: sample_events_def in_window_def)
  ultimately show ?thesis
    by (rule callback_processed_once) (simp_all add: sample_key)
qed

text \<open>
  The store is bounded: in every run its number of records stays at most \<open>maxEntries\<close>
  (at most one record when \<open>maxEntries\<close> is not positive).
\<close>

theorem callback_store_bounded:
  "int (getRecordCount (run_events sha es (new_store ttl entries))) \<le>
     max 1 (maxEntries (new_store ttl entries))"
  using run_events_ok [OF new_store_ok, of sha es] run_config [OF new_store_ok, of sha es]
  by (simp add: store_ok_def getRecordCount_def)

text \<open>
  Eviction removes the wrong payload index. When a callback of one provider evicts the record
  of another one, the payload index entry deleted is the one of the \<^emph>\<open>current\<close> provider. In the run
  below a replay of a payload of provider orange is then not recognised, although the record with
  that payload is still in the store and not expired.
\<close>

theorem eviction_loses_payload_index:
  "let s1 = snd (recordCallback ''mtn'' ''1'' ''h'' 0 (new_store None (Some 2)));
       s2 = snd (recordCallback ''orange'' ''2'' ''h'' 0 s1);
       s3 = snd (recordCallback ''orange'' ''3'' ''g'' 0 s2)
   in fst (findDuplicate ''orange'' ''4'' ''h'' 1 s2) \<noteq> None \<and>
      fst (findDuplicate ''orange'' ''4'' ''h'' 1 s3) = None \<and>
      map_option payloadHash (map_get (records s3) (full_key ''orange'' ''2'')) = Some ''h''"
  by (simp add: Let_def recordCallback_def evict_oldest_def new_store_def findDuplicate_def full_key_def
      map_get_def map_set_def map_delete_def map_keys_def map_size_def)

end
