(* ===== verification/Fee_Strategy.thy ===== *)
theory Fee_Strategy
  imports Js_Value "HOL-Library.Multiset" "HOL-Library.Product_Lexorder"
begin

text \<open>
  \<open>src/src/services/feeStrategyEngine.ts\<close>: the fee strategies, the validation of the fee they give
  and the resolution of the strategy that applies.

  Amounts, rates and fees are JavaScript numbers (IEEE doubles, \<open>js_num\<close>). Optional fields are
  options. The value \<open>Number(process.env.FEE_STRATEGY_MAX_FEE_RATE)\<close> is a parameter. The query of
  \<open>resolveStrategies\<close> is answered by the database: \<open>resolved\<close> states what the SQL text asks for
  (the active rows that match the scope clauses, in the order of the ORDER BY; rows that tie in it may
  come in any order). In front of the query is the cache in Redis, entries with a version and a time to
  live: \<open>cache_calls\<close> says which of its calls are answered (every error is caught). An entry is JSON, which
  gives back the fields of a strategy, whose numbers come from NUMERIC columns and are finite. The audit
  statements after the returns of \<open>calculateFee\<close> and \<open>validateCalculatedFee\<close> are not modelled: they cannot be
  reached, and the \<open>await\<close> of the latter, in a method that is not async, is an error of syntax.
\<close>

subsection \<open>Data\<close>

datatype fee_strategy_type = flat | percentage | time_based | volume_based

datatype fee_strategy_scope = user_scope | provider_scope | global_scope

record volume_tier =
  minAmount :: js_num
  maxAmount :: "js_num option"
  tier_feePercentage :: "js_num option"
  tier_flatAmount :: "js_num option"

record fee_strategy =
  id_of :: string
  name :: string
  strategyType :: fee_strategy_type
  scope :: fee_strategy_scope
  userId :: "string option"
  provider :: "string option"
  priority :: int
  isActive :: bool
  flatAmount :: "js_num option"
  feePercentage :: "js_num option"
  feeMinimum :: "js_num option"
  feeMaximum :: "js_num option"
  daysOfWeek :: "nat list option"
  timeStart :: "string option"
  timeEnd :: "string option"
  overridePercentage :: "js_num option"
  overrideFlatAmount :: "js_num option"
  volumeTiers :: "volume_tier list option"

record fee_context =
  amount :: js_num
  ctx_userId :: "string option"
  ctx_provider :: "string option"
  evaluationTime :: "js_date option"

record applied_fee =
  rawFee :: js_num
  clampedFee :: js_num
  appliedMinimum :: "js_num option"
  appliedMaximum :: "js_num option"

datatype fee_warning =
  InvalidFee js_num
| ExceedsCap js_num js_num

record fee_validation =
  appliedFeeCap :: js_num
  capped :: bool
  invalid :: bool
  warnings :: "fee_warning list"

record fee_result =
  fee :: js_num
  total :: js_num
  strategyUsed :: string
  scopeUsed :: fee_strategy_scope
  timeOverrideActive :: bool
  strategyId :: string
  result_strategyType :: fee_strategy_type
  result_rawFee :: js_num
  result_clampedFee :: js_num
  result_appliedMinimum :: "js_num option"
  result_appliedMaximum :: "js_num option"
  validation :: fee_validation

text \<open>The double nearest to 0.01.\<close>

definition DEFAULT_MAX_FEE_RATE :: js_num where
  "DEFAULT_MAX_FEE_RATE = of_exact (1 / 100)"

definition getMaxFeeRate :: "js_num \<Rightarrow> js_num" where
  "getMaxFeeRate configured =
     (if isFinite configured \<and> jgt configured (Fin 0) then configured else DEFAULT_MAX_FEE_RATE)"

subsection \<open>Strategies\<close>

definition or_zero :: "js_num option \<Rightarrow> js_num" where
  "or_zero v = (case v of None \<Rightarrow> Fin 0 | Some x \<Rightarrow> x)"

definition clampFee :: "js_num \<Rightarrow> js_num option \<Rightarrow> js_num option \<Rightarrow> js_num \<times> js_num option \<times> js_num option" where
  "clampFee f minimum maximum =
     (let (clamped, appliedMin) =
            (case minimum of Some mn \<Rightarrow> if jlt f mn then (mn, Some mn) else (f, None) | None \<Rightarrow> (f, None));
          (clamped', appliedMax) =
            (case maximum of Some mx \<Rightarrow> if jgt clamped mx then (mx, Some mx) else (clamped, None)
             | None \<Rightarrow> (clamped, None))
      in (clamped', appliedMin, appliedMax))"

definition with_clamp :: "js_num \<Rightarrow> js_num option \<Rightarrow> js_num option \<Rightarrow> applied_fee" where
  "with_clamp raw minimum maximum =
     (let (clamped, appliedMin, appliedMax) = clampFee raw minimum maximum
      in \<lparr>rawFee = raw, clampedFee = clamped, appliedMinimum = appliedMin, appliedMaximum = appliedMax\<rparr>)"

definition applyFlatFee :: "fee_strategy \<Rightarrow> js_num \<Rightarrow> applied_fee" where
  "applyFlatFee strategy amt =
     with_clamp (or_zero (flatAmount strategy)) (feeMinimum strategy) (feeMaximum strategy)"

definition applyPercentageFee :: "fee_strategy \<Rightarrow> js_num \<Rightarrow> applied_fee" where
  "applyPercentageFee strategy amt =
     with_clamp (jmul amt (jdiv (or_zero (feePercentage strategy)) (Fin 100)))
       (if scope strategy = user_scope then None else feeMinimum strategy) (feeMaximum strategy)"

definition hhmm :: "int \<Rightarrow> string" where
  "hhmm t = two_digits (getUTCHours t) @ '':'' @ two_digits (getUTCMinutes t)"

definition isoDay :: "int \<Rightarrow> nat" where
  "isoDay t = (if getUTCDay t = 0 then 7 else getUTCDay t)"

text \<open>
  On an invalid date the day is NaN, which is in no list of days. The window test compares strings.
\<close>

definition time_condition :: "fee_strategy \<Rightarrow> js_date \<Rightarrow> bool" where
  "time_condition strategy evalTime =
     (case evalTime of
        None \<Rightarrow> False
      | Some t \<Rightarrow>
          isoDay t \<in> set (case daysOfWeek strategy of None \<Rightarrow> [] | Some ds \<Rightarrow> ds) \<and>
          (case (timeStart strategy, timeEnd strategy) of
             (Some st, Some en) \<Rightarrow>
               st = [] \<or> en = [] \<or> \<not> (string_less (hhmm t) st \<or> \<not> string_less (hhmm t) en)
           | _ \<Rightarrow> True))"

definition applyTimeBasedFee :: "fee_strategy \<Rightarrow> js_num \<Rightarrow> js_date \<Rightarrow> applied_fee option" where
  "applyTimeBasedFee strategy amt evalTime =
     (if \<not> time_condition strategy evalTime then None
      else Some (with_clamp
        (case overrideFlatAmount strategy of
           Some f \<Rightarrow> f
         | None \<Rightarrow> jmul amt (jdiv (or_zero (overridePercentage strategy)) (Fin 100)))
        None (feeMaximum strategy)))"

definition tier_matches :: "js_num \<Rightarrow> volume_tier \<Rightarrow> bool" where
  "tier_matches amt t =
     (jge amt (minAmount t) \<and> (case maxAmount t of None \<Rightarrow> True | Some mx \<Rightarrow> jlt amt mx))"

definition applyVolumeBasedFee :: "fee_strategy \<Rightarrow> js_num \<Rightarrow> applied_fee" where
  "applyVolumeBasedFee strategy amt =
     (case List.find (tier_matches amt) (case volumeTiers strategy of None \<Rightarrow> [] | Some ts \<Rightarrow> ts) of
        None \<Rightarrow> with_clamp (Fin 0) None (feeMaximum strategy)
      | Some tier \<Rightarrow>
          with_clamp
            (case tier_feePercentage tier of
               Some p \<Rightarrow> jmul amt (jdiv p (Fin 100))
             | None \<Rightarrow> or_zero (tier_flatAmount tier))
            (feeMinimum strategy) (feeMaximum strategy))"

definition applyStrategy :: "fee_strategy \<Rightarrow> js_num \<Rightarrow> js_date \<Rightarrow> applied_fee option" where
  "applyStrategy strategy amt evalTime =
     (case strategyType strategy of
        flat \<Rightarrow> Some (applyFlatFee strategy amt)
      | percentage \<Rightarrow> Some (applyPercentageFee strategy amt)
      | time_based \<Rightarrow> applyTimeBasedFee strategy amt evalTime
      | volume_based \<Rightarrow> Some (applyVolumeBasedFee strategy amt))"

subsection \<open>Validation of the calculated fee\<close>

definition fee_cap :: "js_num \<Rightarrow> js_num \<Rightarrow> fee_strategy \<Rightarrow> js_num" where
  "fee_cap configured amt strategy =
     (case feeMaximum strategy of
        Some mx \<Rightarrow> math_max mx (Fin 0)
      | None \<Rightarrow> jmul (math_max (Fin 0) amt) (getMaxFeeRate configured))"

definition validateCalculatedFee ::
  "js_num \<Rightarrow> js_num \<Rightarrow> js_num \<Rightarrow> fee_strategy \<Rightarrow> js_num \<times> fee_validation" where
  "validateCalculatedFee configured f amt strategy =
     (let cap = fee_cap configured amt strategy;
          inval = (\<not> isFinite f \<or> jlt f (Fin 0));
          v1 = (if inval then Fin 0 else f);
          over = jgt v1 cap;
          v2 = (if over then cap else v1)
      in (v2, \<lparr>appliedFeeCap = to_fixed 2 cap, capped = over, invalid = inval,
               warnings = (if inval then [InvalidFee f] else []) @ (if over then [ExceedsCap v1 cap] else [])\<rparr>))"

subsection \<open>Resolution\<close>

fun scope_rank :: "fee_strategy_scope \<Rightarrow> nat" where
  "scope_rank user_scope = 1"
| "scope_rank provider_scope = 2"
| "scope_rank global_scope = 3"

definition strategy_rank :: "fee_strategy \<Rightarrow> nat \<times> int" where
  "strategy_rank s = (scope_rank (scope s), priority s)"

text \<open>The WHERE clause; an empty user or provider is falsy and adds no clause.\<close>

definition applicable :: "string option \<Rightarrow> string option \<Rightarrow> fee_strategy \<Rightarrow> bool" where
  "applicable uid prov s =
     (isActive s \<and>
      (case scope s of
         global_scope \<Rightarrow> True
       | provider_scope \<Rightarrow> truthy_string prov \<and> provider s = prov
       | user_scope \<Rightarrow> truthy_string uid \<and> userId s = uid))"

definition resolved :: "fee_strategy list \<Rightarrow> string option \<Rightarrow> string option \<Rightarrow> fee_strategy list \<Rightarrow> bool" where
  "resolved table uid prov rows \<longleftrightarrow>
     mset rows = mset (filter (applicable uid prov) table) \<and> sorted (map strategy_rank rows)"

subsection \<open>The cache of the candidates\<close>

record strategy_entry =
  se_version :: int
  se_rows :: "fee_strategy list"
  se_expires :: int

record strategy_cache =
  sc_version :: int
  sc_entries :: "(string, strategy_entry) js_map"

record cache_calls =
  get_answers :: bool
  version_answers :: bool
  stamp_answers :: bool
  set_answers :: bool

definition CACHE_TTL_SECONDS :: int where
  "CACHE_TTL_SECONDS = 60"

definition or_empty :: "string option \<Rightarrow> string" where
  "or_empty v = (case v of None \<Rightarrow> [] | Some t \<Rightarrow> t)"

definition cache_key :: "string option \<Rightarrow> string option \<Rightarrow> string" where
  "cache_key uid prov = ''resolved:'' @ or_empty uid @ '':'' @ or_empty prov"

definition getCacheVersion :: "bool \<Rightarrow> strategy_cache \<Rightarrow> int" where
  "getCacheVersion answers c = (if answers then sc_version c else 0)"

definition cacheGet :: "cache_calls \<Rightarrow> int \<Rightarrow> string \<Rightarrow> strategy_cache \<Rightarrow> fee_strategy list option" where
  "cacheGet calls clock key c =
     (if \<not> get_answers calls then None
      else case map_get (sc_entries c) key of None \<Rightarrow> None
      | Some e \<Rightarrow> if se_expires e \<le> clock then None
                  else if se_version e < getCacheVersion (version_answers calls) c then None else Some (se_rows e))"

definition cacheSet :: "cache_calls \<Rightarrow> int \<Rightarrow> string \<Rightarrow> fee_strategy list \<Rightarrow> strategy_cache \<Rightarrow> strategy_cache" where
  "cacheSet calls clock key rows c =
     (if \<not> set_answers calls then c
      else c\<lparr>sc_entries := map_set key \<lparr>se_version = getCacheVersion (stamp_answers calls) c, se_rows = rows,
             se_expires = clock + 1000 * CACHE_TTL_SECONDS\<rparr> (sc_entries c)\<rparr>)"

text \<open>\<open>cacheInvalidateAll\<close>: whether the version could be raised and whether the keys could be deleted.\<close>

definition cacheInvalidateAll :: "bool \<Rightarrow> bool \<Rightarrow> strategy_cache \<Rightarrow> strategy_cache" where
  "cacheInvalidateAll bumped deleted c =
     (let c1 = (if bumped then c\<lparr>sc_version := sc_version c + 1\<rparr> else c) in if deleted then c1\<lparr>sc_entries := []\<rparr> else c1)"

definition resolveStrategies ::
  "cache_calls \<Rightarrow> int \<Rightarrow> string option \<Rightarrow> string option \<Rightarrow> fee_strategy list \<Rightarrow> strategy_cache \<Rightarrow> fee_strategy list \<times> strategy_cache" where
  "resolveStrategies calls clock uid prov answer c =
     (case cacheGet calls clock (cache_key uid prov) c of Some rows \<Rightarrow> (rows, c)
      | None \<Rightarrow> (answer, cacheSet calls clock (cache_key uid prov) answer c))"

subsection \<open>The calculation\<close>

text \<open>
  \<open>calculateFee\<close> loops over the candidates. When no strategy applies the function ends without a
  return statement: \<open>None\<close> is the value undefined.
\<close>

definition fee_result_of :: "js_num \<Rightarrow> js_num \<Rightarrow> fee_strategy \<Rightarrow> applied_fee \<Rightarrow> fee_result" where
  "fee_result_of configured amt strategy r =
     (let (validated, val) = validateCalculatedFee configured (clampedFee r) amt strategy;
          f = to_fixed 2 validated
      in \<lparr>fee = f, total = to_fixed 2 (jadd amt f), strategyUsed = name strategy, scopeUsed = scope strategy,
          timeOverrideActive = (strategyType strategy = time_based), strategyId = id_of strategy,
          result_strategyType = strategyType strategy, result_rawFee = to_fixed 2 (rawFee r),
          result_clampedFee = to_fixed 2 (clampedFee r), result_appliedMinimum = appliedMinimum r,
          result_appliedMaximum = appliedMaximum r, validation = val\<rparr>)"

fun try_strategies :: "js_num \<Rightarrow> js_num \<Rightarrow> js_date \<Rightarrow> fee_strategy list \<Rightarrow> fee_result option" where
  "try_strategies configured amt evalTime [] = None"
| "try_strategies configured amt evalTime (strategy # rest) =
     (case applyStrategy strategy amt evalTime of
        Some r \<Rightarrow> Some (fee_result_of configured amt strategy r)
      | None \<Rightarrow> try_strategies configured amt evalTime rest)"

definition fee_of_candidates :: "js_num \<Rightarrow> fee_strategy list \<Rightarrow> js_date \<Rightarrow> fee_context \<Rightarrow> fee_result option" where
  "fee_of_candidates configured candidates now ctx =
     try_strategies configured (amount ctx)
       (case evaluationTime ctx of None \<Rightarrow> now | Some d \<Rightarrow> d) candidates"

definition calculateFee ::
  "js_num \<Rightarrow> cache_calls \<Rightarrow> int \<Rightarrow> fee_strategy list \<Rightarrow> fee_context \<Rightarrow> strategy_cache \<Rightarrow> fee_result option \<times> strategy_cache" where
  "calculateFee configured calls clock answer ctx c =
     (let (candidates, c1) = resolveStrategies calls clock (ctx_userId ctx) (ctx_provider ctx) answer c
      in (fee_of_candidates configured candidates (Some clock) ctx, c1))"

subsection \<open>Bounds of the validated fee\<close>

lemma getMaxFeeRate_pos: "\<exists>x. getMaxFeeRate configured = Fin x \<and> 0 < x"
proof (cases "isFinite configured \<and> jgt configured (Fin 0)")
  case True
  then show ?thesis by (cases configured) (auto simp: getMaxFeeRate_def)
next
  case False
  have "\<exists>x. DEFAULT_MAX_FEE_RATE = Fin x \<and> 0 < x"
    by (rule exI [of _ "5764607523034235 / 576460752303423488"]) (simp add: DEFAULT_MAX_FEE_RATE_def js_eval)
  with False show ?thesis by (auto simp: getMaxFeeRate_def)
qed

lemma of_exact_nonneg: "0 \<le> x \<Longrightarrow> jle (Fin 0) (of_exact x)"
  using of_exact_mono [of 0 x] of_exact_int [of 0] by simp

lemma fee_cap_nonneg:
  assumes "fee_cap configured amt strategy \<noteq> NaN"
  shows "jle (Fin 0) (fee_cap configured amt strategy)"
proof (cases "feeMaximum strategy")
  case None
  obtain x where x: "getMaxFeeRate configured = Fin x" "0 < x" using getMaxFeeRate_pos by blast
  from None assms x show ?thesis
    by (cases amt) (auto simp: fee_cap_def math_max_def signed_inf_def intro: of_exact_nonneg)
next
  case (Some mx)
  with assms show ?thesis by (cases mx) (auto simp: fee_cap_def math_max_def)
qed

lemma validated_bounds:
  assumes "validateCalculatedFee configured f amt strategy = (v, val)"
  shows "isFinite v \<and> jle (Fin 0) v \<and> appliedFeeCap val = to_fixed 2 (fee_cap configured amt strategy) \<and>
    (fee_cap configured amt strategy \<noteq> NaN \<longrightarrow> jle v (fee_cap configured amt strategy))"
proof (cases "fee_cap configured amt strategy = NaN")
  case True
  with assms show ?thesis by (cases f) (auto simp: validateCalculatedFee_def Let_def split: if_splits)
next
  case False
  from assms False fee_cap_nonneg [OF False] show ?thesis
    by (cases f; cases "fee_cap configured amt strategy")
      (auto simp: validateCalculatedFee_def Let_def split: if_splits)
qed

lemma to_fixed_isFinite: "isFinite v \<Longrightarrow> jle (Fin 0) v \<Longrightarrow> isFinite (to_fixed d v)"
proof (cases v)
  case (Fin x)
  assume "jle (Fin 0) v"
  with Fin to_fixed_finite [of x d] show ?thesis by (cases "x < 10 ^ 21") auto
qed auto

lemma to_fixed_NaN_iff: "to_fixed d v = NaN \<longleftrightarrow> v = NaN"
  by (cases v) auto

lemma fee_result_bounds:
  "isFinite (fee (fee_result_of configured amt strategy r)) \<and>
   jle (Fin 0) (fee (fee_result_of configured amt strategy r)) \<and>
   (appliedFeeCap (validation (fee_result_of configured amt strategy r)) \<noteq> NaN \<longrightarrow>
    jle (fee (fee_result_of configured amt strategy r))
        (appliedFeeCap (validation (fee_result_of configured amt strategy r))))"
proof -
  obtain v val where v: "validateCalculatedFee configured (clampedFee r) amt strategy = (v, val)" by (meson surj_pair)
  from validated_bounds [OF v] show ?thesis
    by (auto simp: fee_result_of_def v Let_def to_fixed_NaN_iff intro: to_fixed_isFinite to_fixed_nonneg to_fixed_mono)
qed

subsection \<open>The strategy that applies\<close>

lemma try_strategies_Some:
  assumes "try_strategies configured amt d rows = Some r"
  shows "\<exists>xs s ys a. rows = xs @ s # ys \<and> (\<forall>x \<in> set xs. applyStrategy x amt d = None) \<and>
    applyStrategy s amt d = Some a \<and> r = fee_result_of configured amt s a"
  using assms
proof (induction rows)
  case (Cons s rows)
  show ?case
  proof (cases "applyStrategy s amt d")
    case None
    with Cons obtain xs s' ys a where "rows = xs @ s' # ys" "\<forall>x \<in> set xs. applyStrategy x amt d = None"
      "applyStrategy s' amt d = Some a" "r = fee_result_of configured amt s' a" by auto
    with None show ?thesis by (intro exI [of _ "s # xs"]) auto
  next
    case (Some a)
    with Cons.prems show ?thesis by (intro exI [of _ "[]"]) auto
  qed
qed simp

lemma try_strategies_None:
  "try_strategies configured amt d rows = None \<longleftrightarrow> (\<forall>s \<in> set rows. applyStrategy s amt d = None)"
  by (induction rows) (auto split: option.splits)

lemma resolved_set: "resolved table uid prov rows \<Longrightarrow> set rows = {s \<in> set table. applicable uid prov s}"
proof -
  assume "resolved table uid prov rows"
  then have "set rows = set (filter (applicable uid prov) table)"
    unfolding resolved_def by (intro mset_eq_setD) blast
  then show ?thesis by auto
qed

text \<open>The result is that of a first strategy, in the order, among the applicable ones whose condition holds.\<close>

definition decided :: "js_num \<Rightarrow> fee_strategy list \<Rightarrow> fee_context \<Rightarrow> js_date \<Rightarrow> fee_result option \<Rightarrow> bool" where
  "decided configured table ctx d out \<longleftrightarrow> (case out of
      None \<Rightarrow> \<forall>t \<in> set table. applicable (ctx_userId ctx) (ctx_provider ctx) t \<longrightarrow> applyStrategy t (amount ctx) d = None
    | Some r \<Rightarrow> \<exists>s \<in> set table. \<exists>a. applicable (ctx_userId ctx) (ctx_provider ctx) s \<and>
        applyStrategy s (amount ctx) d = Some a \<and> r = fee_result_of configured (amount ctx) s a \<and>
        (\<forall>t \<in> set table. applicable (ctx_userId ctx) (ctx_provider ctx) t \<and> applyStrategy t (amount ctx) d \<noteq> None \<longrightarrow>
           strategy_rank s \<le> strategy_rank t))"

lemma first_candidate:
  assumes "resolved table (ctx_userId ctx) (ctx_provider ctx) rows"
    and d: "d = (case evaluationTime ctx of None \<Rightarrow> now | Some d \<Rightarrow> d)"
  shows "decided configured table ctx d (fee_of_candidates configured rows now ctx)"
proof (cases "fee_of_candidates configured rows now ctx")
  case None
  then have "\<forall>s \<in> set rows. applyStrategy s (amount ctx) d = None"
    unfolding fee_of_candidates_def try_strategies_None d .
  with resolved_set [OF assms(1)] show ?thesis unfolding None by (simp add: decided_def)
next
  case (Some r)
  then obtain xs s ys a where rows: "rows = xs @ s # ys"
    and xs: "\<forall>x \<in> set xs. applyStrategy x (amount ctx) d = None"
    and s: "applyStrategy s (amount ctx) d = Some a" "r = fee_result_of configured (amount ctx) s a"
    using try_strategies_Some unfolding fee_of_candidates_def d by blast
  have srt: "sorted (map strategy_rank rows)" using assms(1) by (simp add: resolved_def)
  have "strategy_rank s \<le> strategy_rank t"
    if "t \<in> set table" "applicable (ctx_userId ctx) (ctx_provider ctx) t" "applyStrategy t (amount ctx) d \<noteq> None" for t
  proof -
    have "t \<in> set rows" using that(1,2) resolved_set [OF assms(1)] by blast
    with xs that(3) have "t = s \<or> t \<in> set ys" by (auto simp: rows)
    with srt show ?thesis by (auto simp: rows sorted_append)
  qed
  moreover have "s \<in> set table \<and> applicable (ctx_userId ctx) (ctx_provider ctx) s"
    using resolved_set [OF assms(1)] by (auto simp: rows)
  ultimately show ?thesis using Some s by (auto simp: decided_def)
qed

subsection \<open>What the cache holds\<close>

text \<open>
  No entry is newer than the version, and an entry of the current version holds the answer that the database
  gives for the table. A user identifier (a UUID) holds no colon, so that different questions have
  different keys.
\<close>

definition colon_free :: "string option \<Rightarrow> bool" where
  "colon_free uid = (CHR '':'' \<notin> set (or_empty uid))"

definition cache_ok :: "fee_strategy list \<Rightarrow> strategy_cache \<Rightarrow> bool" where
  "cache_ok table c \<longleftrightarrow> (\<forall>key e. map_get (sc_entries c) key = Some e \<longrightarrow> se_version e \<le> sc_version c \<and>
     (se_version e = sc_version c \<longrightarrow> (\<forall>uid prov. colon_free uid \<longrightarrow> key = cache_key uid prov \<longrightarrow> resolved table uid prov (se_rows e))))"

lemma split_at_colon: "CHR '':'' \<notin> set a \<Longrightarrow> CHR '':'' \<notin> set a' \<Longrightarrow> a @ CHR '':'' # b = a' @ CHR '':'' # b' \<Longrightarrow> a = a' \<and> b = b'"
proof (induction a arbitrary: a')
  case Nil
  then show ?case by (cases a') auto
next
  case (Cons x a)
  then show ?case by (cases a') auto
qed

lemma cache_key_inj:
  "colon_free uid \<Longrightarrow> colon_free uid' \<Longrightarrow> cache_key uid prov = cache_key uid' prov' \<Longrightarrow>
   or_empty uid = or_empty uid' \<and> or_empty prov = or_empty prov'"
  using split_at_colon [of "or_empty uid" "or_empty uid'"] by (simp add: cache_key_def colon_free_def)

lemma same_clause: "or_empty v = or_empty v' \<Longrightarrow> (truthy_string v \<and> x = v) = (truthy_string v' \<and> x = v')"
  by (cases v; cases v') (auto simp: or_empty_def)

lemma resolved_cong:
  assumes "or_empty uid = or_empty uid'" and "or_empty prov = or_empty prov'"
  shows "resolved table uid prov rows = resolved table uid' prov' rows"
proof -
  have "applicable uid prov = applicable uid' prov'"
    using same_clause [OF assms(1)] same_clause [OF assms(2)]
    by (intro ext) (auto simp: applicable_def split: fee_strategy_scope.splits)
  then show ?thesis by (simp add: resolved_def)
qed

lemma cacheGet_ok:
  assumes "cache_ok table c" and "version_answers calls" and "colon_free uid"
    and "cacheGet calls clock (cache_key uid prov) c = Some rows"
  shows "resolved table uid prov rows"
proof -
  from assms(2,4) obtain e where e: "map_get (sc_entries c) (cache_key uid prov) = Some e" "\<not> se_version e < sc_version c" "rows = se_rows e"
    by (auto simp: cacheGet_def getCacheVersion_def split: option.splits if_splits)
  then have "se_version e = sc_version c" using assms(1) by (force simp: cache_ok_def)
  then show ?thesis using assms(1,3) e by (auto simp: cache_ok_def)
qed

lemma cacheSet_ok:
  assumes "cache_ok table c" and "0 \<le> sc_version c" and "colon_free uid" and "resolved table uid prov rows"
  shows "cache_ok table (cacheSet calls clock (cache_key uid prov) rows c)"
proof -
  have r: "resolved table uid' prov' rows" if "colon_free uid'" "cache_key uid prov = cache_key uid' prov'" for uid' prov'
    using cache_key_inj [OF assms(3) that] resolved_cong assms(4) by metis
  show ?thesis using assms(1,2) r
    by (auto simp: cache_ok_def cacheSet_def map_get_set getCacheVersion_def split: if_splits)
qed

lemma resolveStrategies_ok:
  assumes "cache_ok table c" and "0 \<le> sc_version c" and "colon_free uid" and "version_answers calls"
    and "resolved table uid prov answer" and "resolveStrategies calls clock uid prov answer c = (rows, c')"
  shows "resolved table uid prov rows \<and> cache_ok table c' \<and> sc_version c' = sc_version c"
  using assms cacheGet_ok [OF assms(1,4,3)] cacheSet_ok [OF assms(1-3,5)]
  by (auto simp: resolveStrategies_def cacheSet_def split: option.splits)

text \<open>
  A change of the table leaves a sound cache, if at least one of the two calls of the invalidation is answered and
  no read is under way.
\<close>

lemma invalidation_ok: "cache_ok table c \<Longrightarrow> bumped \<or> deleted \<Longrightarrow> cache_ok table' (cacheInvalidateAll bumped deleted c)"
  by (auto simp: cache_ok_def cacheInvalidateAll_def Let_def) force+

text \<open>
  But a read that is under way is not rejected, whatever the comment says: it stamps the rows that it read before the
  change with the version after it, and they are answered until they expire.
\<close>

lemma read_under_way_survives:
  assumes "rows = fst (resolveStrategies calls clock uid prov answer c)" and "cacheGet calls clock (cache_key uid prov) c = None"
    and "set_answers calls" and "stamp_answers calls" and "get_answers calls" and "clock' < clock + 60000"
    and "0 \<le> sc_version c"
  shows "cacheGet calls clock' (cache_key uid prov) (cacheSet calls clock (cache_key uid prov) rows (cacheInvalidateAll True True c)) = Some answer"
  using assms by (auto simp: resolveStrategies_def cacheGet_def cacheSet_def getCacheVersion_def CACHE_TTL_SECONDS_def cacheInvalidateAll_def
      Let_def split: option.splits)

subsection \<open>The time window\<close>

definition minute_of_day :: "int \<Rightarrow> int" where
  "minute_of_day t = t div 60000 mod 1440"

lemma hour_minute: "minute_of_day t = 60 * int (getUTCHours t) + int (getUTCMinutes t)"
  "getUTCHours t < 24" "getUTCMinutes t < 60"
proof -
  have "t div 3600000 = t div 60000 div 60" by (simp add: div_mult2_eq [symmetric] zdiv_zmult2_eq [symmetric])
  then show "minute_of_day t = 60 * int (getUTCHours t) + int (getUTCMinutes t)"
    using zmod_zmult2_eq [of 24 "t div 60000" 60] by (simp add: minute_of_day_def getUTCHours_def getUTCMinutes_def)
  show "getUTCHours t < 24" "getUTCMinutes t < 60"
    by (simp_all add: getUTCHours_def getUTCMinutes_def nat_less_iff)
qed

lemma two_digits_less:
  assumes "a < 100" and "b < 100"
  shows "string_less (two_digits a @ s) (two_digits b @ t) \<longleftrightarrow> a < b \<or> (a = b \<and> string_less s t)"
proof -
  have ch: "of_char (char_of (48 + n :: nat) :: char) = 48 + n" if "n < 10" for n :: nat using that by simp
  have eq: "(char_of (48 + n :: nat) :: char) = char_of (48 + m) \<longleftrightarrow> n = m" if "n < 10" "m < 10" for n m :: nat
    using ch [OF that(1)] ch [OF that(2)] by (metis add_left_cancel)
  have d: "a div 10 < 10" "b div 10 < 10" "a mod 10 < 10" "b mod 10 < 10" using assms by auto
  have "string_less (two_digits a @ s) (two_digits b @ t) \<longleftrightarrow>
      a div 10 < b div 10 \<or> (a div 10 = b div 10 \<and> (a mod 10 < b mod 10 \<or> (a mod 10 = b mod 10 \<and> string_less s t)))"
    by (simp only: two_digits_def append_Cons append_Nil string_less.simps ch [OF d(1)] ch [OF d(2)] ch [OF d(3)]
        ch [OF d(4)] eq [OF d(1) d(2)] eq [OF d(3) d(4)] add_less_cancel_left)
  also have "\<dots> \<longleftrightarrow> a < b \<or> (a = b \<and> string_less s t)"
    using div_mult_mod_eq [of a 10] div_mult_mod_eq [of b 10] d by linarith
  finally show ?thesis .
qed

lemma hhmm_less:
  "string_less (hhmm t @ x) (hhmm u @ y) \<longleftrightarrow>
     minute_of_day t < minute_of_day u \<or> (minute_of_day t = minute_of_day u \<and> string_less x y)"
proof -
  note h = hour_minute [of t] hour_minute [of u]
  have "string_less (hhmm t @ x) (hhmm u @ y) \<longleftrightarrow> getUTCHours t < getUTCHours u \<or>
      (getUTCHours t = getUTCHours u \<and> (getUTCMinutes t < getUTCMinutes u \<or>
        (getUTCMinutes t = getUTCMinutes u \<and> string_less x y)))"
    using h(2,3,5,6) by (simp add: hhmm_def two_digits_less)
  with h show ?thesis by auto
qed

subsection \<open>Properties\<close>

text \<open>
  C38. The priority order. The fee comes from an applicable strategy that is the first in the
  order of \<open>resolveStrategies\<close>: user before provider before global scope, then the smaller \<open>priority\<close>, among all
  applicable strategies whose condition holds. No result means that no applicable strategy applies. This holds
  whether the candidates come from the database or from a cache that is sound for the table (which it
  stays), while Redis tells the version. A strategy of type time_based has no precedence within its scope.
\<close>

theorem fee_strategy_priority:
  assumes "cache_ok table c" and "0 \<le> sc_version c" and "version_answers calls" and "colon_free (ctx_userId ctx)"
    and "resolved table (ctx_userId ctx) (ctx_provider ctx) answer"
    and "d = (case evaluationTime ctx of None \<Rightarrow> Some clock | Some d \<Rightarrow> d)"
    and "calculateFee configured calls clock answer ctx c = (out, c')"
  shows "(case out of
      None \<Rightarrow> \<forall>t \<in> set table. applicable (ctx_userId ctx) (ctx_provider ctx) t \<longrightarrow> applyStrategy t (amount ctx) d = None
    | Some r \<Rightarrow> \<exists>s \<in> set table. \<exists>a. applicable (ctx_userId ctx) (ctx_provider ctx) s \<and>
        applyStrategy s (amount ctx) d = Some a \<and> r = fee_result_of configured (amount ctx) s a \<and>
        (\<forall>t \<in> set table. applicable (ctx_userId ctx) (ctx_provider ctx) t \<and> applyStrategy t (amount ctx) d \<noteq> None \<longrightarrow>
           strategy_rank s \<le> strategy_rank t)) \<and>
    cache_ok table c' \<and> sc_version c' = sc_version c"
proof -
  obtain rows where res: "resolveStrategies calls clock (ctx_userId ctx) (ctx_provider ctx) answer c = (rows, c')"
    and out: "out = fee_of_candidates configured rows (Some clock) ctx"
    using assms(7) by (auto simp: calculateFee_def split: prod.splits)
  note ok = resolveStrategies_ok [OF assms(1,2,4,3,5) res]
  have "decided configured table ctx d out" unfolding out by (rule first_candidate [OF conjunct1 [OF ok] assms(6)])
  with ok show ?thesis by (simp add: decided_def)
qed

definition sample_strategy :: fee_strategy where
  "sample_strategy = \<lparr>id_of = ''g'', name = ''base'', strategyType = flat, scope = global_scope, userId = None,
     provider = None, priority = 10, isActive = True, flatAmount = Some (Fin 3), feePercentage = None,
     feeMinimum = None, feeMaximum = Some (Fin 2), daysOfWeek = None, timeStart = None, timeEnd = None,
     overridePercentage = None, overrideFlatAmount = None, volumeTiers = None\<rparr>"

definition user_strategy :: fee_strategy where
  "user_strategy = sample_strategy\<lparr>id_of := ''u'', scope := user_scope, userId := Some ''alice'', flatAmount := Some (Fin 1)\<rparr>"

definition sample_context :: fee_context where
  "sample_context = \<lparr>amount = Fin 100, ctx_userId = Some ''alice'', ctx_provider = None, evaluationTime = None\<rparr>"

definition all_answer :: cache_calls where
  "all_answer = \<lparr>get_answers = True, version_answers = True, stamp_answers = True, set_answers = True\<rparr>"

definition empty_cache :: strategy_cache where
  "empty_cache = \<lparr>sc_version = 0, sc_entries = []\<rparr>"

theorem fee_strategy_priority_witness:
  "map_option strategyId (fst (calculateFee NaN all_answer 0 [user_strategy, sample_strategy] sample_context empty_cache)) = Some ''u''"
proof -
  have r: "resolved [sample_strategy, user_strategy] (ctx_userId sample_context) (ctx_provider sample_context)
      [user_strategy, sample_strategy]"
    by (simp add: resolved_def applicable_def user_strategy_def sample_strategy_def strategy_rank_def sample_context_def)
  have ap: "applicable (ctx_userId sample_context) (ctx_provider sample_context) user_strategy"
    and ok: "applyStrategy user_strategy (amount sample_context) (Some 0) \<noteq> None"
    by (simp_all add: applicable_def user_strategy_def sample_strategy_def sample_context_def applyStrategy_def)
  have rk: "\<not> strategy_rank sample_strategy \<le> strategy_rank user_strategy"
    by (simp add: strategy_rank_def user_strategy_def sample_strategy_def)
  have u: "strategyId (fee_result_of c x user_strategy a) = ''u''" for c x a
    by (simp add: fee_result_of_def user_strategy_def Let_def split: prod.splits)
  have d: "Some 0 = (case evaluationTime sample_context of None \<Rightarrow> Some 0 | Some d \<Rightarrow> d)"
    by (simp add: sample_context_def)
  have c: "cache_ok [sample_strategy, user_strategy] empty_cache" "0 \<le> sc_version empty_cache" "version_answers all_answer"
    "colon_free (ctx_userId sample_context)"
    by (simp_all add: cache_ok_def empty_cache_def all_answer_def colon_free_def or_empty_def sample_context_def)
  obtain out c' where o: "calculateFee NaN all_answer 0 [user_strategy, sample_strategy] sample_context empty_cache = (out, c')"
    by (cases "calculateFee NaN all_answer 0 [user_strategy, sample_strategy] sample_context empty_cache")
  from fee_strategy_priority [OF c r d o] ap ok rk u show ?thesis by (cases out) (auto simp: o)
qed

text \<open>
  The comment of \<open>calculateFee\<close> says that time-based strategies are evaluated first within each scope. They are not: a
  flat strategy with the smaller priority number decides, although a time-based one of the same scope applies.
\<close>

definition monday_strategy :: fee_strategy where
  "monday_strategy = sample_strategy\<lparr>id_of := ''m'', strategyType := time_based, priority := 20, daysOfWeek := Some [1, 2, 3, 4, 5, 6, 7],
     overrideFlatAmount := Some (Fin 0)\<rparr>"

lemma time_based_not_first:
  "resolved [monday_strategy, sample_strategy] (Some ''alice'') None [sample_strategy, monday_strategy]"
  "applyStrategy monday_strategy (Fin 100) (Some 0) \<noteq> None"
  "map_option strategyId (fee_of_candidates NaN [sample_strategy, monday_strategy] (Some 0) sample_context) = Some ''g''"
proof -
  show "resolved [monday_strategy, sample_strategy] (Some ''alice'') None [sample_strategy, monday_strategy]"
    by (simp add: resolved_def applicable_def monday_strategy_def sample_strategy_def strategy_rank_def add_mset_commute)
  have "isoDay 0 = 4" by code_simp
  then show "applyStrategy monday_strategy (Fin 100) (Some 0) \<noteq> None"
    by (simp add: applyStrategy_def applyTimeBasedFee_def time_condition_def monday_strategy_def sample_strategy_def)
  show "map_option strategyId (fee_of_candidates NaN [sample_strategy, monday_strategy] (Some 0) sample_context) = Some ''g''"
    by (simp add: fee_of_candidates_def applyStrategy_def sample_strategy_def fee_result_of_def Let_def split: prod.splits)
qed

text \<open>
  C39. The fee is safe. Whatever the strategy and the amount, a calculated fee is a finite number
  that is not negative, and it does not exceed the cap that is reported with it (both rounded to two
  decimals), if that cap is a number. (It is NaN for a NaN amount and a strategy without a maximum, and then
  bounds nothing.)
\<close>

theorem fee_within_cap:
  assumes "calculateFee configured calls clock answer ctx c = (Some r, c')"
  shows "isFinite (fee r) \<and> jle (Fin 0) (fee r) \<and>
    (appliedFeeCap (validation r) \<noteq> NaN \<longrightarrow> jle (fee r) (appliedFeeCap (validation r)))"
proof -
  obtain rows where "fee_of_candidates configured rows (Some clock) ctx = Some r"
    using assms by (auto simp: calculateFee_def split: prod.splits)
  then obtain s a where "r = fee_result_of configured (amount ctx) s a"
    using try_strategies_Some unfolding fee_of_candidates_def by blast
  then show ?thesis using fee_result_bounds by simp
qed

theorem fee_within_cap_witness:
  "\<exists>r. fst (calculateFee NaN all_answer 0 [sample_strategy] sample_context empty_cache) = Some r \<and> fee r = Fin 2 \<and> jle (Fin 0) (fee r)"
proof -
  obtain out c' where o: "calculateFee NaN all_answer 0 [sample_strategy] sample_context empty_cache = (out, c')"
    by (cases "calculateFee NaN all_answer 0 [sample_strategy] sample_context empty_cache")
  have "map_option fee out = Some (Fin 2)"
    using o by (auto simp: calculateFee_def resolveStrategies_def cacheGet_def empty_cache_def fee_of_candidates_def applyStrategy_def
        sample_strategy_def applyFlatFee_def with_clamp_def clampFee_def all_answer_def
        or_zero_def fee_result_of_def validateCalculatedFee_def fee_cap_def sample_context_def js_eval)
  then obtain r where r: "out = Some r" "fee r = Fin 2" by (cases out) auto
  from fee_within_cap [OF o [unfolded r(1)]] r o show ?thesis by auto
qed

text \<open>A NaN amount and a flat strategy without a maximum: the fee of 3 stands beside a cap that is NaN.\<close>

lemma nan_cap_bounds_nothing:
  "\<exists>r. fee_of_candidates NaN [sample_strategy\<lparr>feeMaximum := None\<rparr>] (Some 0) (sample_context\<lparr>amount := NaN\<rparr>) = Some r \<and>
     fee r = Fin 3 \<and> appliedFeeCap (validation r) = NaN"
  by (simp add: fee_of_candidates_def applyStrategy_def sample_strategy_def applyFlatFee_def with_clamp_def clampFee_def
      or_zero_def fee_result_of_def validateCalculatedFee_def fee_cap_def sample_context_def js_eval)

text \<open>
  The window of a time-based strategy. With bounds written as hours and minutes, the condition
  holds exactly on the listed days from the starting minute, inclusive, to the ending minute,
  exclusive. With seconds after them, as the driver delivers a column of type TIME, the starting
  minute is left out and the ending minute is included.
\<close>

theorem time_window:
  assumes "daysOfWeek strategy = Some days"
  shows "(timeStart strategy = Some (hhmm a) \<and> timeEnd strategy = Some (hhmm b) \<longrightarrow>
      time_condition strategy (Some t) =
        (isoDay t \<in> set days \<and> minute_of_day a \<le> minute_of_day t \<and> minute_of_day t < minute_of_day b)) \<and>
    (timeStart strategy = Some (hhmm a @ '':00'') \<and> timeEnd strategy = Some (hhmm b @ '':00'') \<longrightarrow>
      time_condition strategy (Some t) =
        (isoDay t \<in> set days \<and> minute_of_day a < minute_of_day t \<and> minute_of_day t \<le> minute_of_day b))"
proof -
  have ne: "hhmm x \<noteq> []" for x by (simp add: hhmm_def two_digits_def)
  show ?thesis using assms hhmm_less [of t "[]" a "[]"] hhmm_less [of t "[]" b "[]"]
      hhmm_less [of t "[]" a "'':00''"] hhmm_less [of t "[]" b "'':00''"]
    by (auto simp: time_condition_def ne)
qed

theorem time_window_witness:
  "\<not> time_condition (sample_strategy\<lparr>daysOfWeek := Some [4], timeStart := Some (hhmm 0 @ '':00''),
      timeEnd := Some (hhmm 3600000 @ '':00'')\<rparr>) (Some 0) \<and>
   time_condition (sample_strategy\<lparr>daysOfWeek := Some [4], timeStart := Some (hhmm 0 @ '':00''),
      timeEnd := Some (hhmm 3600000 @ '':00'')\<rparr>) (Some 3600000)"
  using time_window [of "sample_strategy\<lparr>daysOfWeek := Some [4], timeStart := Some (hhmm 0 @ '':00''),
      timeEnd := Some (hhmm 3600000 @ '':00'')\<rparr>" "[4]" 0 3600000 0]
    time_window [of "sample_strategy\<lparr>daysOfWeek := Some [4], timeStart := Some (hhmm 0 @ '':00''),
      timeEnd := Some (hhmm 3600000 @ '':00'')\<rparr>" "[4]" 0 3600000 3600000]
  by (simp add: isoDay_def getUTCDay_def minute_of_day_def)

end
