(* ===== verification/Js_Decimal.thy ===== *)
theory Js_Decimal
  imports Js_Number
begin

text \<open>
  The decimal text of a JavaScript number, by its value, and the PostgreSQL type DECIMAL(20, 7).

  \<open>Number.prototype.toString\<close> prints the shortest decimal that reads back as the same double, the
  closest one among them: \<open>num_value\<close> looks for a multiple of a power of ten that rounds to the
  number, from coarse to fine. The powers from 310 down to -340 cover all doubles; the search ends
  long before them.

  A value of type DECIMAL(20, 7) is an integer number of units of \<open>10 ^ -7\<close>, below \<open>10 ^ 20\<close> units;
  a cast rounds half away from zero.
\<close>

subsection \<open>Decimal text\<close>

definition grid_candidates :: "rat \<Rightarrow> int \<Rightarrow> rat list" where
  "grid_candidates x j =
     (let p = 10 powi j; lo = of_int \<lfloor>x / p\<rfloor> * p; hi = of_int \<lceil>x / p\<rceil> * p
      in if x - lo \<le> hi - x then [lo, hi] else [hi, lo])"

fun shortest :: "nat \<Rightarrow> int \<Rightarrow> rat \<Rightarrow> rat" where
  "shortest 0 j x = x"
| "shortest (Suc n) j x =
     (case List.find (\<lambda>c. rnd64 c = x) (grid_candidates x j) of
        Some c \<Rightarrow> c
      | None \<Rightarrow> shortest n (j - 1) x)"

definition num_value :: "rat \<Rightarrow> rat" where
  "num_value x = (if x < 0 then - shortest 651 310 (- x) else shortest 651 310 x)"

text \<open>The text reads back as the number.\<close>

lemma rnd64_shortest: "representable x \<Longrightarrow> rnd64 (shortest n j x) = x"
  by (induction n j x rule: shortest.induct)
    (auto simp: representable_def find_Some_iff split: option.splits)

lemma rnd64_num_value: "representable x \<Longrightarrow> rnd64 (num_value x) = x"
  using rnd64_shortest [of x] rnd64_shortest [of "- x"]
  by (auto simp: num_value_def representable_def rnd64_minus)

lemma num_value_error:
  assumes "representable x" and "\<bar>x\<bar> < 2 powi k" and "-1021 \<le> k"
  shows "\<bar>num_value x - x\<bar> \<le> 2 powi (k - 54)"
proof -
  have r: "rnd64 (num_value x) = x" by (rule rnd64_num_value [OF assms(1)])
  have p: "rnd64 (2 powi k) = 2 powi k" using assms(3) by (intro rnd64_pow2) simp
  have "\<bar>num_value x\<bar> < 2 powi k"
  proof (rule ccontr)
    assume "\<not> \<bar>num_value x\<bar> < 2 powi k"
    then consider "2 powi k \<le> num_value x" | "num_value x \<le> - (2 powi k)" by linarith
    then show False
    proof cases
      case 1
      from rnd64_mono [OF 1] r p assms(2) show False by simp
    next
      case 2
      from rnd64_mono [OF 2] r p assms(2) show False by (simp add: rnd64_minus)
    qed
  qed
  from rnd64_error_bound [OF this assms(3)] r show ?thesis by (simp add: abs_minus_commute)
qed

subsection \<open>DECIMAL(20, 7)\<close>

datatype pg_error =
  NumericFieldOverflow
| TooFewRows
| AccountNotFoundOrInactive string
| TransactionNotBalanced int int
| ZeroAmounts
| CheckViolation
| StringTooLong
| ForeignKeyViolation

definition in_range :: "int \<Rightarrow> pg_error + int" where
  "in_range n = (if \<bar>n\<bar> < 10 ^ 20 then Inr n else Inl NumericFieldOverflow)"

definition to_decimal :: "rat \<Rightarrow> pg_error + int" where
  "to_decimal x = in_range (fixed_digits 7 x)"

text \<open>
  The cast of the text of a property of a JSON object: undefined is left out, NaN and the infinities
  are printed as null, and \<open>COALESCE\<close> makes 0 of both.
\<close>

definition json_decimal :: "js_num option \<Rightarrow> pg_error + int" where
  "json_decimal v = (case v of Some (Fin x) \<Rightarrow> to_decimal (num_value x) | _ \<Rightarrow> Inr 0)"

text \<open>The number nearest to a decimal: \<open>parseFloat\<close> of its text.\<close>

definition decimal_value :: "int \<Rightarrow> rat" where
  "decimal_value n = of_int n / 10 ^ 7"

definition parse_decimal :: "int \<Rightarrow> js_num" where
  "parse_decimal n = of_exact (decimal_value n)"

lemma fixed_digits_near:
  assumes "\<bar>x - decimal_value n\<bar> < 1 / (2 * 10 ^ 7)"
  shows "fixed_digits 7 x = n"
proof -
  have d: "\<bar>x * 10 ^ 7 - of_int n\<bar> < 1 / 2"
  proof -
    have "\<bar>x * 10 ^ 7 - of_int n\<bar> = \<bar>x - decimal_value n\<bar> * 10 ^ 7"
      by (simp add: decimal_value_def abs_mult_pos' [symmetric] algebra_simps abs_if)
    with assms show ?thesis by simp
  qed
  have lo: "of_int n < x * 10 ^ 7 + 1 / 2" and hi: "x * 10 ^ 7 < of_int n + 1 / 2"
    using d unfolding abs_less_iff by linarith+
  show ?thesis
  proof (cases "x < 0")
    case True
    have "\<lfloor>- x * 10 ^ 7 + 1 / 2\<rfloor> = - n" using lo hi by (intro floor_unique) simp_all
    with True show ?thesis by (simp add: fixed_digits_def)
  next
    case False
    have "\<lfloor>x * 10 ^ 7 + 1 / 2\<rfloor> = n" using lo hi by (intro floor_unique) simp_all
    with False show ?thesis by (simp add: fixed_digits_def)
  qed
qed

text \<open>
  A double close to a decimal, below \<open>2 ^ 27\<close>, is stored as that decimal: the printing of the text
  and the double itself are together less than half a unit away.
\<close>

lemma json_decimal_near:
  assumes "representable x" and "\<bar>x\<bar> < 2 ^ 27" and "\<bar>x - decimal_value n\<bar> \<le> 1 / 2 ^ 25"
  shows "json_decimal (Some (Fin x)) = Inr n"
proof -
  have "\<bar>num_value x - x\<bar> \<le> 2 powi (27 - 54)" using assms(1,2) by (intro num_value_error) simp_all
  also have "\<dots> = 1 / 2 ^ 27" using power_int_minus [of "2 :: rat" 27] by (simp add: inverse_eq_divide)
  finally have nv: "\<bar>num_value x - x\<bar> \<le> 1 / 2 ^ 27" .
  have "\<bar>num_value x - decimal_value n\<bar> \<le> \<bar>num_value x - x\<bar> + \<bar>x - decimal_value n\<bar>" by linarith
  also have "\<dots> < 1 / (2 * 10 ^ 7)" using nv assms(3) by simp
  finally have "fixed_digits 7 (num_value x) = n" by (rule fixed_digits_near)
  moreover have "\<bar>n\<bar> < 10 ^ 20"
  proof -
    have "\<bar>x - decimal_value n\<bar> \<le> 1" using assms(3) by (rule order_trans) simp
    then have "\<bar>decimal_value n\<bar> < 2 ^ 28" using assms(2) by (simp add: abs_less_iff abs_le_iff)
    then have "\<bar>of_int n :: rat\<bar> < of_int (2 ^ 28 * 10 ^ 7)" by (simp add: decimal_value_def)
    then have "\<bar>n\<bar> < 2 ^ 28 * 10 ^ 7" by (simp only: of_int_abs [symmetric] of_int_less_iff)
    then show ?thesis by simp
  qed
  ultimately show ?thesis by (simp add: json_decimal_def to_decimal_def in_range_def)
qed

lemma parse_decimal_near:
  assumes "\<bar>decimal_value n\<bar> < 2 ^ 26"
  shows "parse_decimal n = Fin (rnd64 (decimal_value n))"
    and "\<bar>rnd64 (decimal_value n) - decimal_value n\<bar> \<le> 1 / 2 ^ 28"
    and "\<bar>rnd64 (decimal_value n)\<bar> \<le> 2 ^ 26"
proof -
  have le: "\<bar>decimal_value n\<bar> \<le> 2 powi 26" using assms by simp
  show "parse_decimal n = Fin (rnd64 (decimal_value n))" unfolding parse_decimal_def
    by (rule of_exact_Fin [OF le]) simp_all
  show "\<bar>rnd64 (decimal_value n) - decimal_value n\<bar> \<le> 1 / 2 ^ 28"
    using rnd64_error_bound [of "decimal_value n" 26] assms power_int_minus [of "2 :: rat" 28]
    by (simp add: inverse_eq_divide)
  show "\<bar>rnd64 (decimal_value n)\<bar> \<le> 2 ^ 26" using rnd64_abs_le [OF le] by simp
qed

text \<open>A decimal below \<open>2 ^ 26\<close> survives the trip through a double.\<close>

lemma decimal_roundtrip:
  assumes "\<bar>decimal_value n\<bar> < 2 ^ 26"
  shows "json_decimal (Some (parse_decimal n)) = Inr n"
proof -
  note p = parse_decimal_near [OF assms]
  have "representable (rnd64 (decimal_value n))" by (rule representable_rnd64)
  from json_decimal_near [OF this, of n] p show ?thesis by simp
qed

end
