(* ===== verification/Ledger.thy ===== *)
theory Ledger
  imports Prelude Js_Decimal "HOL-Library.Multiset"
begin

text \<open>
  \<open>src/src/services/ledgerService.ts\<close>: double-entry posting, with the SQL function
  \<open>post_transaction\<close> it calls (\<open>src/migrations/20260529_add_settlement_delay.sql\<close>) and the constraints
  of the table \<open>ledger_entries\<close> (\<open>src/migrations/20260423_create_double_entry_ledger.sql\<close>).

  Amounts are JavaScript numbers in the service and DECIMAL(20, 7), as integer numbers of units, in
  the database. A call of the service is one database transaction, hence one step: on an error the
  database is what it was. Identifiers of rows are positions in the table. Rows inserted by one
  transaction have the same time stamp and random identifiers, so the order in which
  \<open>postReversal\<close> reads them is a parameter \<open>order\<close>. The day of settlement of a deposit is an
  argument. Texts that contain numbers are values of \<open>ledger_text\<close>.
\<close>

subsection \<open>Data\<close>

datatype ledger_text =
  Text string
| DepositText js_num js_num
| WithdrawalText js_num js_num
| ClawbackText js_num string
| ProviderFeeText js_num
| ReversalOfText string string
| ReversalText ledger_text

record ledger_entry =
  account_code :: string
  debit_amount :: "js_num option"
  credit_amount :: "js_num option"
  entry_description :: "ledger_text option"
  settlement_date :: "int option"

record posted_entry =
  entry_id :: nat
  posted_code :: string
  posted_debit :: js_num
  posted_credit :: js_num

text \<open>A row of the table, with the code of the account it refers to.\<close>

record ledger_row =
  row_account :: string
  row_debit :: int
  row_credit :: int
  row_transaction :: "string option"
  row_reference :: string
  row_description :: ledger_text
  row_posted_by :: "string option"
  row_settlement :: int

record ledger_db =
  accounts :: "(string \<times> bool) list"
  users :: "string list"
  ledger_entries :: "ledger_row list"

datatype ledger_error =
  AtLeastTwoEntries
| NotBalanced js_num js_num
| NoLedgerEntries string
| Database pg_error

subsection \<open>The SQL function post_transaction\<close>

fun check_entries :: "ledger_db \<Rightarrow> int \<Rightarrow> int \<Rightarrow> ledger_entry list \<Rightarrow> pg_error + int \<times> int" where
  "check_entries db total_debits total_credits [] = Inr (total_debits, total_credits)"
| "check_entries db total_debits total_credits (e # es) =
     (if map_of (accounts db) (account_code e) \<noteq> Some True
      then Inl (AccountNotFoundOrInactive (account_code e))
      else case json_decimal (debit_amount e) of
        Inl err \<Rightarrow> Inl err
      | Inr d \<Rightarrow> (case in_range (total_debits + d) of
          Inl err \<Rightarrow> Inl err
        | Inr td \<Rightarrow> (case json_decimal (credit_amount e) of
            Inl err \<Rightarrow> Inl err
          | Inr c \<Rightarrow> (case in_range (total_credits + c) of
              Inl err \<Rightarrow> Inl err
            | Inr tc \<Rightarrow> check_entries db td tc es))))"

text \<open>The insertion of one row, with the constraints of the table.\<close>

definition insert_row :: "ledger_db \<Rightarrow> ledger_row \<Rightarrow> pg_error + ledger_db" where
  "insert_row db r =
     (if length (row_reference r) > 50 then Inl StringTooLong
      else if \<not> ((row_debit r > 0 \<and> row_credit r = 0) \<or> (row_credit r > 0 \<and> row_debit r = 0))
      then Inl CheckViolation
      else if (case row_posted_by r of None \<Rightarrow> False | Some u \<Rightarrow> u \<notin> set (users db))
      then Inl ForeignKeyViolation
      else Inr (db\<lparr>ledger_entries := ledger_entries db @ [r]\<rparr>))"

fun insert_entries ::
  "string \<Rightarrow> ledger_text \<Rightarrow> string option \<Rightarrow> string option \<Rightarrow> int \<Rightarrow> ledger_db \<Rightarrow> ledger_entry list \<Rightarrow>
    pg_error + (nat \<times> string \<times> int \<times> int) list \<times> ledger_db" where
  "insert_entries ref desc txid posted_by today db [] = Inr ([], db)"
| "insert_entries ref desc txid posted_by today db (e # es) =
     (case (json_decimal (debit_amount e), json_decimal (credit_amount e)) of
        (Inr d, Inr c) \<Rightarrow>
          (case insert_row db \<lparr>row_account = account_code e, row_debit = d, row_credit = c,
                  row_transaction = txid, row_reference = ref,
                  row_description = (case entry_description e of None \<Rightarrow> desc | Some t \<Rightarrow> t),
                  row_posted_by = posted_by,
                  row_settlement = (case settlement_date e of None \<Rightarrow> today | Some day \<Rightarrow> day)\<rparr> of
             Inl err \<Rightarrow> Inl err
           | Inr db' \<Rightarrow> (case insert_entries ref desc txid posted_by today db' es of
               Inl err \<Rightarrow> Inl err
             | Inr (rows, db'') \<Rightarrow> Inr ((length (ledger_entries db), account_code e, d, c) # rows, db'')))
      | (Inl err, _) \<Rightarrow> Inl err
      | (_, Inl err) \<Rightarrow> Inl err)"

definition post_transaction ::
  "string \<Rightarrow> ledger_text \<Rightarrow> string option \<Rightarrow> string option \<Rightarrow> ledger_entry list \<Rightarrow> int \<Rightarrow> ledger_db \<Rightarrow>
    pg_error + (nat \<times> string \<times> int \<times> int) list \<times> ledger_db" where
  "post_transaction ref desc txid posted_by entries today db =
     (if length entries < 2 then Inl TooFewRows
      else case check_entries db 0 0 entries of
        Inl err \<Rightarrow> Inl err
      | Inr (td, tc) \<Rightarrow>
          if td \<noteq> tc then Inl (TransactionNotBalanced td tc)
          else if td = 0 then Inl ZeroAmounts
          else insert_entries ref desc txid posted_by today db entries)"

subsection \<open>The service\<close>

definition or_zero_num :: "js_num option \<Rightarrow> js_num" where
  "or_zero_num v = (case v of None \<Rightarrow> Fin 0 | Some x \<Rightarrow> if x = NaN then Fin 0 else x)"

definition BALANCE_TOLERANCE :: js_num where
  "BALANCE_TOLERANCE = of_exact (1 / 10 ^ 7)"

definition reduce_sum :: "(ledger_entry \<Rightarrow> js_num option) \<Rightarrow> ledger_entry list \<Rightarrow> js_num" where
  "reduce_sum side entries = foldl (\<lambda>sum e. jadd sum (or_zero_num (side e))) (Fin 0) entries"

definition or_null :: "string option \<Rightarrow> string option" where
  "or_null s = (if s = Some [] then None else s)"

definition postTransactionWithClient ::
  "string \<Rightarrow> ledger_text \<Rightarrow> ledger_entry list \<Rightarrow> string option \<Rightarrow> string option \<Rightarrow> int \<Rightarrow> ledger_db \<Rightarrow>
    ledger_error + posted_entry list \<times> ledger_db" where
  "postTransactionWithClient ref desc entries transactionId postedBy today db =
     (if length entries < 2 then Inl AtLeastTwoEntries
      else let totalDebits = reduce_sum debit_amount entries;
               totalCredits = reduce_sum credit_amount entries
      in if jgt (math_abs (jsub totalDebits totalCredits)) BALANCE_TOLERANCE
         then Inl (NotBalanced totalDebits totalCredits)
         else case post_transaction ref desc (or_null transactionId) (or_null postedBy) entries today db of
           Inl err \<Rightarrow> Inl (Database err)
         | Inr (rows, db') \<Rightarrow>
             Inr (map (\<lambda>(i, code, d, c). \<lparr>entry_id = i, posted_code = code,
                        posted_debit = parse_decimal d, posted_credit = parse_decimal c\<rparr>) rows, db'))"

text \<open>BEGIN, the posting, COMMIT; on an error ROLLBACK.\<close>

definition transact :: "ledger_error + 'a \<times> ledger_db \<Rightarrow> ledger_db \<Rightarrow> (ledger_error + 'a) \<times> ledger_db" where
  "transact r db = (case r of Inl err \<Rightarrow> (Inl err, db) | Inr (x, db') \<Rightarrow> (Inr x, db'))"

definition postTransaction ::
  "string \<Rightarrow> ledger_text \<Rightarrow> ledger_entry list \<Rightarrow> string option \<Rightarrow> string option \<Rightarrow> int \<Rightarrow> ledger_db \<Rightarrow>
    (ledger_error + posted_entry list) \<times> ledger_db" where
  "postTransaction ref desc entries transactionId postedBy today db =
     transact (postTransactionWithClient ref desc entries transactionId postedBy today db) db"

definition reversal_entry :: "ledger_row \<Rightarrow> ledger_entry" where
  "reversal_entry r =
     (let debit = parse_decimal (row_debit r); credit = parse_decimal (row_credit r)
      in \<lparr>account_code = row_account r,
          debit_amount = (if jgt credit (Fin 0) then Some credit else None),
          credit_amount = (if jgt debit (Fin 0) then Some debit else None),
          entry_description = Some (ReversalText (row_description r)), settlement_date = None\<rparr>)"

definition reversal_reference :: "string \<Rightarrow> string" where
  "reversal_reference ref = ''REV-'' @ ref"

definition postReversal ::
  "(ledger_row list \<Rightarrow> ledger_row list) \<Rightarrow> string \<Rightarrow> string \<Rightarrow> string \<Rightarrow> string option \<Rightarrow> int \<Rightarrow> ledger_db \<Rightarrow>
    (ledger_error + bool \<times> posted_entry list) \<times> ledger_db" where
  "postReversal order transactionId ref reason postedBy today db =
     (let rev_ref = reversal_reference ref;
          of_tx = filter (\<lambda>r. row_transaction r = Some transactionId) (ledger_entries db)
      in if filter (\<lambda>r. row_reference r = rev_ref) of_tx \<noteq> [] then (Inr (True, []), db)
         else let original = order (filter (\<lambda>r. row_reference r \<noteq> rev_ref) of_tx)
         in if original = [] then (Inl (NoLedgerEntries transactionId), db)
            else transact (case postTransactionWithClient rev_ref (ReversalOfText ref reason)
                (map reversal_entry original) (Some transactionId) postedBy today db of
                  Inl err \<Rightarrow> Inl err
                | Inr (posted, db') \<Rightarrow> Inr ((False, posted), db')) db)"

definition entry_of :: "string \<Rightarrow> js_num option \<Rightarrow> js_num option \<Rightarrow> ledger_text \<Rightarrow> ledger_entry" where
  "entry_of code debit credit text =
     \<lparr>account_code = code, debit_amount = debit, credit_amount = credit, entry_description = Some text,
      settlement_date = None\<rparr>"

definition deposit_entries :: "js_num \<Rightarrow> js_num \<Rightarrow> int \<Rightarrow> ledger_entry list" where
  "deposit_entries amount fee day =
     [entry_of ''1100'' (Some amount) None (Text ''Customer deposit received''),
      (entry_of ''2000'' None (Some (jsub amount fee)) (Text ''Customer balance credited''))
        \<lparr>settlement_date := Some day\<rparr>] @
     (if jgt fee (Fin 0) then [entry_of ''4100'' None (Some fee) (Text ''Deposit fee earned'')] else [])"

definition postDeposit ::
  "js_num \<Rightarrow> js_num \<Rightarrow> string \<Rightarrow> string \<Rightarrow> string \<Rightarrow> int \<Rightarrow> int \<Rightarrow> ledger_db \<Rightarrow>
    (ledger_error + posted_entry list) \<times> ledger_db" where
  "postDeposit amount fee ref transactionId userId day today db =
     postTransaction ref (DepositText amount fee) (deposit_entries amount fee day)
       (Some transactionId) (Some userId) today db"

definition withdrawal_entries :: "js_num \<Rightarrow> js_num \<Rightarrow> ledger_entry list" where
  "withdrawal_entries amount fee =
     [entry_of ''2000'' (Some (jadd amount fee)) None (Text ''Customer balance debited''),
      entry_of ''1100'' None (Some amount) (Text ''Withdrawal paid out'')] @
     (if jgt fee (Fin 0) then [entry_of ''4200'' None (Some fee) (Text ''Withdrawal fee earned'')] else [])"

definition postWithdrawal ::
  "js_num \<Rightarrow> js_num \<Rightarrow> string \<Rightarrow> string \<Rightarrow> string \<Rightarrow> int \<Rightarrow> ledger_db \<Rightarrow>
    (ledger_error + posted_entry list) \<times> ledger_db" where
  "postWithdrawal amount fee ref transactionId userId today db =
     postTransaction ref (WithdrawalText amount fee) (withdrawal_entries amount fee)
       (Some transactionId) (Some userId) today db"

definition postClawback ::
  "js_num \<Rightarrow> string \<Rightarrow> string \<Rightarrow> string \<Rightarrow> string \<Rightarrow> int \<Rightarrow> ledger_db \<Rightarrow>
    (ledger_error + posted_entry list) \<times> ledger_db" where
  "postClawback amount ref transactionId userId reason today db =
     postTransaction ref (ClawbackText amount reason)
       [entry_of ''2000'' (Some amount) None (Text (''Clawback: '' @ reason)),
        entry_of ''1100'' None (Some amount) (Text (''Clawback reversal: '' @ ref))]
       (Some transactionId) (Some userId) today db"

definition postProviderFee ::
  "js_num \<Rightarrow> string \<Rightarrow> string \<Rightarrow> int \<Rightarrow> ledger_db \<Rightarrow> (ledger_error + posted_entry list) \<times> ledger_db" where
  "postProviderFee amount ref transactionId today db =
     postTransaction ref (ProviderFeeText amount)
       [entry_of ''5000'' (Some amount) None (Text ''Provider fee expense''),
        entry_of ''1100'' None (Some amount) (Text ''Provider fee paid'')]
       (Some transactionId) None today db"

text \<open>The balance check of the whole ledger, in units.\<close>

definition total_debits :: "ledger_row list \<Rightarrow> int" where
  "total_debits rows = sum_list (map row_debit rows)"

definition total_credits :: "ledger_row list \<Rightarrow> int" where
  "total_credits rows = sum_list (map row_credit rows)"

definition checkLedgerBalance :: "ledger_db \<Rightarrow> js_num \<times> js_num \<times> js_num \<times> bool" where
  "checkLedgerBalance db =
     (let d = total_debits (ledger_entries db); c = total_credits (ledger_entries db)
      in (parse_decimal d, parse_decimal c, parse_decimal (d - c), d = c))"

definition DEFAULT_LEDGER_ENTRY_LIMIT :: js_num where
  "DEFAULT_LEDGER_ENTRY_LIMIT = Fin 100"

definition MAX_LEDGER_ENTRY_LIMIT :: js_num where
  "MAX_LEDGER_ENTRY_LIMIT = Fin 500"

definition normalizeLimit :: "js_num \<Rightarrow> js_num" where
  "normalizeLimit limit =
     (if \<not> isFinite limit then DEFAULT_LEDGER_ENTRY_LIMIT
      else math_min (math_max (math_trunc limit) (Fin 1)) MAX_LEDGER_ENTRY_LIMIT)"

subsection \<open>What a successful posting inserts\<close>

definition row_ok :: "ledger_row \<Rightarrow> bool" where
  "row_ok r \<longleftrightarrow> (row_debit r > 0 \<and> row_credit r = 0) \<or> (row_credit r > 0 \<and> row_debit r = 0)"

lemma insert_row_Inr:
  "insert_row db r = Inr db' \<longleftrightarrow> length (row_reference r) \<le> 50 \<and> row_ok r \<and>
     (\<forall>u. row_posted_by r = Some u \<longrightarrow> u \<in> set (users db)) \<and>
     db' = db\<lparr>ledger_entries := ledger_entries db @ [r]\<rparr>"
  by (auto simp: insert_row_def row_ok_def split: option.splits)

text \<open>The rows of the entries, as the insertion loop makes them.\<close>

definition entry_row ::
  "string \<Rightarrow> ledger_text \<Rightarrow> string option \<Rightarrow> string option \<Rightarrow> int \<Rightarrow> ledger_entry \<Rightarrow> int \<Rightarrow> int \<Rightarrow> ledger_row" where
  "entry_row ref desc txid posted_by today e d c =
     \<lparr>row_account = account_code e, row_debit = d, row_credit = c, row_transaction = txid, row_reference = ref,
      row_description = (case entry_description e of None \<Rightarrow> desc | Some t \<Rightarrow> t), row_posted_by = posted_by,
      row_settlement = (case settlement_date e of None \<Rightarrow> today | Some day \<Rightarrow> day)\<rparr>"

definition posted_as ::
  "string \<Rightarrow> ledger_text \<Rightarrow> string option \<Rightarrow> string option \<Rightarrow> int \<Rightarrow> ledger_entry \<Rightarrow> ledger_row \<Rightarrow> bool" where
  "posted_as ref desc txid posted_by today e r \<longleftrightarrow>
     (\<exists>d c. json_decimal (debit_amount e) = Inr d \<and> json_decimal (credit_amount e) = Inr c \<and>
        r = entry_row ref desc txid posted_by today e d c \<and> row_ok r)"

lemma posted_asI: "json_decimal (debit_amount e) = Inr d \<Longrightarrow> json_decimal (credit_amount e) = Inr c \<Longrightarrow>
    row_ok (entry_row ref desc txid posted_by today e d c) \<Longrightarrow>
    posted_as ref desc txid posted_by today e (entry_row ref desc txid posted_by today e d c)"
  by (auto simp: posted_as_def)

lemma posted_asE:
  assumes "posted_as ref desc txid posted_by today e r"
  obtains d c where "json_decimal (debit_amount e) = Inr d" and "json_decimal (credit_amount e) = Inr c"
    and "r = entry_row ref desc txid posted_by today e d c" and "row_ok r"
  using assms by (auto simp: posted_as_def)

lemma insert_entries_Inr:
  assumes "insert_entries ref desc txid posted_by today db es = Inr (out, db')"
  shows "\<exists>rows. db' = db\<lparr>ledger_entries := ledger_entries db @ rows\<rparr> \<and>
    list_all2 (posted_as ref desc txid posted_by today) es rows"
  using assms
proof (induction es arbitrary: db out)
  case Nil
  then show ?case by (intro exI [of _ "[]"]) simp
next
  case (Cons e es)
  obtain d c db1 rows' where d: "json_decimal (debit_amount e) = Inr d" and c: "json_decimal (credit_amount e) = Inr c"
    and i: "insert_row db (entry_row ref desc txid posted_by today e d c) = Inr db1"
    and rest: "insert_entries ref desc txid posted_by today db1 es = Inr (rows', db')"
    using Cons.prems by (auto simp: entry_row_def split: sum.splits)
  from Cons.IH [OF rest] obtain rows where rows: "db' = db1\<lparr>ledger_entries := ledger_entries db1 @ rows\<rparr>"
    "list_all2 (posted_as ref desc txid posted_by today) es rows" by blast
  with i d c show ?case
    by (intro exI [of _ "entry_row ref desc txid posted_by today e d c # rows"]) (auto simp: insert_row_Inr intro: posted_asI)
qed

lemma check_entries_Inr:
  assumes "check_entries db td tc es = Inr (td', tc')"
    and "list_all2 (posted_as ref desc txid posted_by today) es rows"
  shows "td' = td + total_debits rows \<and> tc' = tc + total_credits rows"
  using assms
proof (induction es arbitrary: td tc rows)
  case Nil
  then show ?case by (simp add: total_debits_def total_credits_def)
next
  case (Cons e es)
  then obtain d c r rs where rows: "rows = r # rs" and d: "json_decimal (debit_amount e) = Inr d"
    and c: "json_decimal (credit_amount e) = Inr c" and r: "r = entry_row ref desc txid posted_by today e d c"
    and rest: "list_all2 (posted_as ref desc txid posted_by today) es rs"
    by (auto simp: list_all2_Cons1 elim: posted_asE)
  from Cons.prems(1) d c have "check_entries db (td + d) (tc + c) es = Inr (td', tc')"
    by (auto simp: in_range_def split: if_splits)
  from Cons.IH [OF this rest] show ?case by (simp add: rows r entry_row_def total_debits_def total_credits_def)
qed

lemma post_transaction_Inr:
  assumes "post_transaction ref desc txid posted_by es today db = Inr (out, db')"
  shows "\<exists>rows. db' = db\<lparr>ledger_entries := ledger_entries db @ rows\<rparr> \<and> total_debits rows = total_credits rows \<and>
    0 < length rows \<and> (\<forall>r \<in> set rows. row_ok r \<and> row_transaction r = txid \<and> row_reference r = ref) \<and>
    list_all2 (posted_as ref desc txid posted_by today) es rows"
proof -
  obtain t where len: "\<not> length es < 2" and chk: "check_entries db 0 0 es = Inr (t, t)"
    and ins: "insert_entries ref desc txid posted_by today db es = Inr (out, db')"
    using assms by (auto simp: post_transaction_def split: if_splits sum.splits)
  obtain rows where db': "db' = db\<lparr>ledger_entries := ledger_entries db @ rows\<rparr>"
    and l: "list_all2 (posted_as ref desc txid posted_by today) es rows"
    using insert_entries_Inr [OF ins] by blast
  have "row_ok r \<and> row_transaction r = txid \<and> row_reference r = ref" if "r \<in> set rows" for r
    using l that by (auto simp: list_all2_conv_all_nth in_set_conv_nth entry_row_def posted_as_def)
  moreover have "0 < length rows" using l len by (auto dest: list_all2_lengthD)
  ultimately show ?thesis using check_entries_Inr [OF chk l] db' l by (intro exI [of _ rows]) simp
qed

lemma postTransaction_db:
  "snd (postTransaction ref desc es tx pb today db) = db \<and> (\<exists>err. fst (postTransaction ref desc es tx pb today db) = Inl err) \<or>
   (\<exists>out. postTransactionWithClient ref desc es tx pb today db = Inr (out, snd (postTransaction ref desc es tx pb today db)))"
  by (auto simp: postTransaction_def transact_def split: sum.splits)

lemma client_Inr:
  assumes "postTransactionWithClient ref desc es tx pb today db = Inr (out, db')"
  shows "\<exists>rows. db' = db\<lparr>ledger_entries := ledger_entries db @ rows\<rparr> \<and> total_debits rows = total_credits rows \<and>
    0 < length rows \<and> (\<forall>r \<in> set rows. row_ok r \<and> row_transaction r = or_null tx \<and> row_reference r = ref) \<and>
    list_all2 (posted_as ref desc (or_null tx) (or_null pb) today) es rows"
proof -
  obtain out' where "post_transaction ref desc (or_null tx) (or_null pb) es today db = Inr (out', db')"
    using assms by (auto simp: postTransactionWithClient_def Let_def split: if_splits sum.splits)
  from post_transaction_Inr [OF this] show ?thesis .
qed

subsection \<open>The ledger stays balanced\<close>

definition ledger_ok :: "ledger_db \<Rightarrow> bool" where
  "ledger_ok db \<longleftrightarrow> total_debits (ledger_entries db) = total_credits (ledger_entries db) \<and>
     (\<forall>r \<in> set (ledger_entries db). row_ok r)"

inductive ledger_step :: "ledger_db \<Rightarrow> ledger_db \<Rightarrow> bool" where
  post: "ledger_step db (snd (postTransaction ref desc es tx pb today db))"
| reversal: "ledger_step db (snd (postReversal order tx ref reason pb today db))"

inductive_cases ledger_stepE: "ledger_step db db'"

lemma client_ok:
  assumes "ledger_ok db" and "postTransactionWithClient ref desc es tx pb today db = Inr (out, db')"
  shows "ledger_ok db'"
  using client_Inr [OF assms(2)] assms(1) by (auto simp: ledger_ok_def total_debits_def total_credits_def)

lemma postTransaction_ok: "ledger_ok db \<Longrightarrow> ledger_ok (snd (postTransaction ref desc es tx pb today db))"
  using postTransaction_db [of ref desc es tx pb today db] client_ok by metis

lemma postReversal_ok: "ledger_ok db \<Longrightarrow> ledger_ok (snd (postReversal order tx ref reason pb today db))"
  by (auto simp: postReversal_def Let_def transact_def split: sum.splits intro: client_ok)

lemma ledger_ok_empty: "ledger_entries db = [] \<Longrightarrow> ledger_ok db"
  by (simp add: ledger_ok_def total_debits_def total_credits_def)

interpretation lg: invariant_machine "\<lambda>db. ledger_entries db = []" ledger_step ledger_ok
  by unfold_locales (auto intro: ledger_ok_empty elim!: ledger_stepE intro: postTransaction_ok postReversal_ok)

subsection \<open>Numbers of a deposit\<close>

text \<open>
  The double of an amount of \<open>n\<close> units below \<open>2 ^ 26\<close>, and the errors of one addition.
\<close>

lemma of_exact_small: "\<bar>x\<bar> \<le> 2 ^ 30 \<Longrightarrow> of_exact x = Fin (rnd64 x)"
  using of_exact_Fin [of x 30] by simp

lemma rnd64_small_error: "\<bar>x\<bar> < 2 ^ 27 \<Longrightarrow> \<bar>rnd64 x - x\<bar> \<le> 1 / 2 ^ 27"
  using rnd64_error_bound [of x 27] power_int_minus [of "2 :: rat" 27] by (simp add: inverse_eq_divide)

lemma representable_add_0 [simp]: "of_exact (rnd64 x) = of_exact x"
  using representable_rnd64 [of x] by (simp add: of_exact_def representable_def)

lemma tolerance: "\<bar>x\<bar> \<le> 1 / 2 ^ 26 \<Longrightarrow> \<not> jgt (math_abs (of_exact x)) BALANCE_TOLERANCE"
proof -
  assume x: "\<bar>x\<bar> \<le> 1 / 2 ^ 26"
  have p: "(2 :: rat) powi - 26 = 1 / 2 ^ 26" using power_int_minus [of "2 :: rat" 26] by (simp add: inverse_eq_divide)
  have "\<bar>rnd64 x\<bar> \<le> 1 / 2 ^ 26" using rnd64_abs_le [of x "- 26"] x p by simp
  moreover have "(1 :: rat) / 2 ^ 26 \<le> rnd64 (1 / 10 ^ 7)"
    using rnd64_mono [of "1 / 2 ^ 26" "1 / 10 ^ 7"] rnd64_pow2 [of "- 26"] p by simp
  ultimately have "\<bar>rnd64 x\<bar> \<le> rnd64 (1 / 10 ^ 7)" by (rule order_trans)
  moreover have "\<bar>x\<bar> \<le> 2 ^ 30" using x by (rule order_trans) simp
  ultimately show ?thesis using of_exact_small [of x] of_exact_small [of "1 / 10 ^ 7"] by (simp add: BALANCE_TOLERANCE_def)
qed

lemma decimal_value_mono: "n \<le> m \<Longrightarrow> decimal_value n \<le> decimal_value m"
  by (simp add: decimal_value_def divide_right_mono)

lemma decimal_value_diff: "decimal_value (n - m) = decimal_value n - decimal_value m"
  by (simp add: decimal_value_def diff_divide_distrib)

lemma decimal_value_add: "decimal_value (n + m) = decimal_value n + decimal_value m"
  by (simp add: decimal_value_def add_divide_distrib)

lemma deposit_numbers:
  assumes nm: "0 \<le> m" "m < n" and bound: "decimal_value n < 2 ^ 26"
  defines "a \<equiv> rnd64 (decimal_value n)" and "f \<equiv> rnd64 (decimal_value m)"
  defines "s \<equiv> rnd64 (a - f)"
  shows "parse_decimal n = Fin a" and "parse_decimal m = Fin f" and "0 \<le> f" and "f \<le> a" and "a \<le> 2 ^ 26"
    and "0 \<le> s" and "s \<le> 2 ^ 26" and "\<bar>s - (a - f)\<bar> \<le> 1 / 2 ^ 27" and "json_decimal (Some (Fin s)) = Inr (n - m)"
proof -
  have m0: "0 \<le> decimal_value m" using nm(1) by (simp add: decimal_value_def)
  have mn: "decimal_value m \<le> decimal_value n" using nm by (intro decimal_value_mono) simp
  have bn: "\<bar>decimal_value n\<bar> < 2 ^ 26" "\<bar>decimal_value m\<bar> < 2 ^ 26" using m0 mn bound by simp_all
  note an = parse_decimal_near [OF bn(1), folded a_def] and fm = parse_decimal_near [OF bn(2), folded f_def]
  show "parse_decimal n = Fin a" by (rule an(1))
  show "parse_decimal m = Fin f" by (rule fm(1))
  show f0: "0 \<le> f" unfolding f_def using m0 by (rule rnd64_nonneg)
  show fa: "f \<le> a" unfolding f_def a_def using mn by (rule rnd64_mono)
  show a26: "a \<le> 2 ^ 26" using an(3) by (simp add: abs_le_iff)
  show s0: "0 \<le> s" unfolding s_def using fa by (intro rnd64_nonneg) simp
  have "\<bar>a - f\<bar> \<le> 2 powi 26" using f0 fa a26 by simp
  from rnd64_abs_le [OF this] s0 show s26: "s \<le> 2 ^ 26" by (simp add: s_def)
  show se: "\<bar>s - (a - f)\<bar> \<le> 1 / 2 ^ 27" unfolding s_def using f0 fa a26 by (intro rnd64_small_error) simp
  have "\<bar>s - decimal_value (n - m)\<bar> \<le> \<bar>s - (a - f)\<bar> + \<bar>a - decimal_value n\<bar> + \<bar>f - decimal_value m\<bar>"
    unfolding decimal_value_diff by linarith
  also have "\<dots> \<le> 1 / 2 ^ 27 + 1 / 2 ^ 28 + 1 / 2 ^ 28" using se an(2) fm(2) by (intro add_mono) simp_all
  also have "\<dots> \<le> (1 :: rat) / 2 ^ 25" by simp
  finally show "json_decimal (Some (Fin s)) = Inr (n - m)"
    using s0 s26 representable_rnd64 [of "a - f"] by (intro json_decimal_near) (simp_all add: s_def)
qed

lemma json_decimal_parse:
  assumes "0 \<le> n" and "decimal_value n < 2 ^ 26"
  shows "json_decimal (Some (parse_decimal n)) = Inr n"
  using assms by (intro decimal_roundtrip) (simp add: decimal_value_def)

lemma decimal_units_bound:
  assumes "decimal_value n < 2 ^ 26"
  shows "n < 10 ^ 20"
proof -
  have "(of_int n :: rat) < of_int (2 ^ 26 * 10 ^ 7)" using assms by (simp add: decimal_value_def)
  then have "n < 2 ^ 26 * 10 ^ 7" by (simp only: of_int_less_iff)
  then show ?thesis by simp
qed

lemma parse_decimal_pos_iff:
  assumes "0 \<le> m" and "decimal_value m < 2 ^ 26"
  shows "jgt (parse_decimal m) (Fin 0) \<longleftrightarrow> 0 < m"
proof (cases "m = 0")
  case True
  then show ?thesis using of_exact_int [of 0] by (simp add: parse_decimal_def decimal_value_def)
next
  case False
  with assms(1) have m: "0 < m" by simp
  have p: "(2 :: rat) powi - 26 = 1 / 2 ^ 26" using power_int_minus [of "2 :: rat" 26] by (simp add: inverse_eq_divide)
  have "(1 :: rat) / 2 ^ 26 \<le> 1 / 10 ^ 7" by simp
  also have "\<dots> \<le> decimal_value m"
    using m decimal_value_mono [of 1 m] by (simp add: decimal_value_def)
  finally have "1 / 2 ^ 26 \<le> rnd64 (decimal_value m)"
    using rnd64_mono [of "1 / 2 ^ 26" "decimal_value m"] rnd64_pow2 [of "- 26"] p by simp
  moreover have "parse_decimal m = Fin (rnd64 (decimal_value m))"
    using assms by (intro parse_decimal_near(1)) (simp add: decimal_value_def)
  moreover have "(0 :: rat) < 1 / 2 ^ 26" by simp
  ultimately show ?thesis using m by (simp only: jlt.simps) (meson less_le_trans)
qed

lemma jadd_zero:
  assumes "representable x" and "\<bar>x\<bar> \<le> 2 ^ 30"
  shows "jadd (Fin 0) (Fin x) = Fin x" and "jadd (Fin x) (Fin 0) = Fin x"
  using of_exact_small [OF assms(2)] assms(1) by (simp_all add: representable_def)

lemma jsub_Fin: "jsub (Fin x) (Fin y) = of_exact (x - y)"
  by (simp add: jsub_def)

lemma in_range_small: "0 \<le> n \<Longrightarrow> n < 10 ^ 20 \<Longrightarrow> in_range n = Inr n"
  by (simp add: in_range_def)

lemma json_decimal_None [simp]: "json_decimal None = Inr 0"
  by (simp add: json_decimal_def)

lemmas posting = postTransaction_def transact_def postTransactionWithClient_def post_transaction_def
  reduce_sum_def or_zero_num_def entry_of_def insert_row_def Let_def

lemma deposit_posts:
  assumes nm: "0 \<le> m" "m < n" and bound: "decimal_value n < 2 ^ 26"
    and acc: "map_of (accounts db) ''1100'' = Some True" "map_of (accounts db) ''2000'' = Some True"
      "map_of (accounts db) ''4100'' = Some True"
    and user: "user \<in> set (users db)" and ref: "length ref \<le> 50"
  shows "\<exists>out rows db'. postDeposit (parse_decimal n) (parse_decimal m) ref tx user day today db = (Inr out, db') \<and>
    ledger_entries db' = ledger_entries db @ rows \<and>
    map (\<lambda>r. (row_account r, row_debit r, row_credit r)) rows =
      [(''1100'', n, 0), (''2000'', 0, n - m)] @ (if 0 < m then [(''4100'', 0, m)] else [])"
proof -
  define a f where "a = rnd64 (decimal_value n)" and "f = rnd64 (decimal_value m)"
  define sd where "sd = rnd64 (a - f)"
  define t where "t = rnd64 (sd + f)"
  note dn = deposit_numbers [OF nm bound, folded a_def f_def, folded sd_def]
  have bm: "decimal_value m < 2 ^ 26" using decimal_value_mono [of m n] nm bound by simp
  have jn: "json_decimal (Some (Fin a)) = Inr n" and jm: "json_decimal (Some (Fin f)) = Inr m"
    using json_decimal_parse [of n] json_decimal_parse [of m] nm bound bm dn(1,2) by simp_all
  have n20: "n < 10 ^ 20" by (rule decimal_units_bound [OF bound])
  have ra: "representable a" "representable f" "representable sd" "representable t"
    by (simp_all add: a_def f_def sd_def t_def representable_rnd64)
  have sub: "jsub (Fin a) (Fin f) = Fin sd"
    using dn(3-5) of_exact_small [of "a - f"] by (simp add: jsub_Fin sd_def)
  have add: "jadd (Fin sd) (Fin f) = Fin t"
    using dn(3-7) of_exact_small [of "sd + f"] by (simp add: t_def)
  have at: "\<bar>a - t\<bar> \<le> 1 / 2 ^ 26"
  proof -
    have "\<bar>sd - (a - f)\<bar> \<le> 1" using dn(8) by (rule order_trans) simp
    then have "\<bar>sd + f\<bar> < 2 ^ 27" using dn(3,5,6) by (simp add: abs_le_iff)
    then have "\<bar>t - (sd + f)\<bar> \<le> 1 / 2 ^ 27" unfolding t_def by (rule rnd64_small_error)
    moreover have "\<bar>a - t\<bar> \<le> \<bar>t - (sd + f)\<bar> + \<bar>sd - (a - f)\<bar>" by linarith
    ultimately show ?thesis using dn(8) by simp
  qed
  have fpos: "(0 < f) = (0 < m)" using parse_decimal_pos_iff [OF nm(1) bm] dn(2) by simp
  have user': "or_null (Some user) = Some u \<Longrightarrow> u \<in> set (users db)" for u
    using user by (simp add: or_null_def split: if_splits)
  have j0: "jadd (Fin 0) (Fin a) = Fin a" "jadd (Fin a) (Fin 0) = Fin a" "jadd (Fin 0) (Fin sd) = Fin sd"
    using jadd_zero [OF ra(1)] jadd_zero [OF ra(3)] dn(3-7) by simp_all
  have j00: "jadd (Fin 0) (Fin 0) = Fin 0" using jadd_zero [of 0] by simp
  show ?thesis
  proof (cases "0 < m")
    case True
    have tol: "\<not> jgt (math_abs (jsub (Fin a) (Fin t))) BALANCE_TOLERANCE"
      unfolding jsub_Fin by (rule tolerance [OF at])
    show ?thesis
      using True nm n20 acc ref tol jn jm dn(9) fpos user'
      by (simp add: postDeposit_def deposit_entries_def posting dn(1,2) sub add j0 j00 in_range_small
          del: jadd.simps split: option.splits)
  next
    case False
    then have m0: "m = 0" using nm by simp
    then have f0: "f = 0" by (simp add: f_def decimal_value_def)
    have p0: "parse_decimal 0 = Fin 0" using dn(2) m0 f0 by simp
    have sa: "sd = a" using f0 ra(1) by (simp add: sd_def representable_def)
    have tol: "\<not> jgt (math_abs (jsub (Fin a) (Fin a))) BALANCE_TOLERANCE"
      using tolerance [of 0] by (simp add: jsub_Fin)
    show ?thesis
      using m0 nm n20 acc ref tol jn dn(9) user' sub f0
      by (simp add: postDeposit_def deposit_entries_def posting dn(1,2) j0 j00 in_range_small sa p0
          del: jadd.simps split: option.splits)
  qed
qed

lemma withdrawal_numbers:
  assumes nm: "0 \<le> m" "0 < n" and bound: "decimal_value (n + m) < 2 ^ 26"
  defines "a \<equiv> rnd64 (decimal_value n)" and "f \<equiv> rnd64 (decimal_value m)"
  defines "p \<equiv> rnd64 (a + f)"
  shows "parse_decimal n = Fin a" and "parse_decimal m = Fin f" and "0 \<le> f" and "0 \<le> a"
    and "a \<le> 2 ^ 26" and "f \<le> 2 ^ 26" and "0 \<le> p" and "p \<le> 2 ^ 27" and "json_decimal (Some (Fin p)) = Inr (n + m)"
proof -
  have m0: "0 \<le> decimal_value m" and n0: "0 \<le> decimal_value n" using nm by (simp_all add: decimal_value_def)
  have bn: "\<bar>decimal_value n\<bar> < 2 ^ 26" "\<bar>decimal_value m\<bar> < 2 ^ 26"
    using m0 n0 bound by (simp_all add: decimal_value_add)
  note an = parse_decimal_near [OF bn(1), folded a_def] and fm = parse_decimal_near [OF bn(2), folded f_def]
  show "parse_decimal n = Fin a" by (rule an(1))
  show "parse_decimal m = Fin f" by (rule fm(1))
  show f0: "0 \<le> f" and a0: "0 \<le> a" using m0 n0 by (simp_all add: f_def a_def rnd64_nonneg)
  show a26: "a \<le> 2 ^ 26" and f26: "f \<le> 2 ^ 26" using an(3) fm(3) by (simp_all add: abs_le_iff)
  have close: "\<bar>a - decimal_value n\<bar> \<le> 1" "\<bar>f - decimal_value m\<bar> \<le> 1"
    using an(2) fm(2) by (auto elim: order_trans)
  have af: "\<bar>a + f\<bar> < 2 ^ 27"
    using close bound f0 a0 unfolding decimal_value_add by (simp add: abs_le_iff)
  show p0: "0 \<le> p" unfolding p_def using f0 a0 by (intro rnd64_nonneg) simp
  have "\<bar>a + f\<bar> \<le> 2 powi 27" using af by simp
  from rnd64_abs_le [OF this] p0 show "p \<le> 2 ^ 27" by (simp add: p_def)
  have pe: "\<bar>p - (a + f)\<bar> \<le> 1 / 2 ^ 27" unfolding p_def by (rule rnd64_small_error [OF af])
  have "\<bar>p - (a + f)\<bar> \<le> 1" using pe by (rule order_trans) simp
  then have p27: "\<bar>p\<bar> < 2 ^ 27" using close bound p0 unfolding decimal_value_add by (simp add: abs_le_iff)
  have "\<bar>p - decimal_value (n + m)\<bar> \<le> \<bar>p - (a + f)\<bar> + \<bar>a - decimal_value n\<bar> + \<bar>f - decimal_value m\<bar>"
    unfolding decimal_value_add by linarith
  also have "\<dots> \<le> 1 / 2 ^ 27 + 1 / 2 ^ 28 + 1 / 2 ^ 28" using pe an(2) fm(2) by (intro add_mono) simp_all
  also have "\<dots> \<le> (1 :: rat) / 2 ^ 25" by simp
  finally show "json_decimal (Some (Fin p)) = Inr (n + m)"
    using p27 representable_rnd64 [of "a + f"] by (intro json_decimal_near) (simp_all add: p_def)
qed

lemma withdrawal_posts:
  assumes nm: "0 \<le> m" "0 < n" and bound: "decimal_value (n + m) < 2 ^ 26"
    and acc: "map_of (accounts db) ''2000'' = Some True" "map_of (accounts db) ''1100'' = Some True"
      "map_of (accounts db) ''4200'' = Some True"
    and user: "user \<in> set (users db)" and ref: "length ref \<le> 50"
  shows "\<exists>out rows db'. postWithdrawal (parse_decimal n) (parse_decimal m) ref tx user today db = (Inr out, db') \<and>
    ledger_entries db' = ledger_entries db @ rows \<and>
    map (\<lambda>r. (row_account r, row_debit r, row_credit r)) rows =
      [(''2000'', n + m, 0), (''1100'', 0, n)] @ (if 0 < m then [(''4200'', 0, m)] else [])"
proof -
  define a f where "a = rnd64 (decimal_value n)" and "f = rnd64 (decimal_value m)"
  define p where "p = rnd64 (a + f)"
  note wn = withdrawal_numbers [OF nm bound, folded a_def f_def, folded p_def]
  have b: "decimal_value n < 2 ^ 26" "decimal_value m < 2 ^ 26"
    using decimal_value_mono [of n "n + m"] decimal_value_mono [of m "n + m"] nm bound by simp_all
  have jn: "json_decimal (Some (Fin a)) = Inr n" and jm: "json_decimal (Some (Fin f)) = Inr m"
    using json_decimal_parse [of n] json_decimal_parse [of m] nm b wn(1,2) by simp_all
  have n20: "n + m < 10 ^ 20" by (rule decimal_units_bound [OF bound])
  have add: "jadd (Fin a) (Fin f) = Fin p"
    using wn(3-6) of_exact_small [of "a + f"] by (simp add: p_def)
  have ra: "representable a" "representable p" by (simp_all add: a_def p_def representable_rnd64)
  have j0: "jadd (Fin 0) (Fin a) = Fin a" "jadd (Fin 0) (Fin p) = Fin p" "jadd (Fin p) (Fin 0) = Fin p"
    using jadd_zero [OF ra(1)] jadd_zero [OF ra(2)] wn(4,5,7,8) by simp_all
  have j00: "jadd (Fin 0) (Fin 0) = Fin 0" using jadd_zero [of 0] by simp
  have fpos: "(0 < f) = (0 < m)" using parse_decimal_pos_iff [OF nm(1) b(2)] wn(2) by simp
  have user': "or_null (Some user) = Some u \<Longrightarrow> u \<in> set (users db)" for u
    using user by (simp add: or_null_def split: if_splits)
  have tol: "\<not> jgt (math_abs (jsub (Fin p) (Fin p))) BALANCE_TOLERANCE"
    using tolerance [of 0] by (simp add: jsub_Fin)
  show ?thesis
  proof (cases "0 < m")
    case True
    show ?thesis
      using True nm n20 acc ref tol jn jm wn(9) fpos user'
      by (simp add: postWithdrawal_def withdrawal_entries_def posting wn(1,2) add j0 j00 in_range_small
          del: jadd.simps split: option.splits)
  next
    case False
    then have m0: "m = 0" using nm by simp
    then have f0: "f = 0" by (simp add: f_def decimal_value_def)
    have p0: "parse_decimal 0 = Fin 0" using wn(2) m0 f0 by simp
    have pa: "p = a" using f0 ra(1) by (simp add: p_def representable_def)
    show ?thesis
      using m0 nm n20 acc ref tol jn user' add f0
      by (simp add: postWithdrawal_def withdrawal_entries_def posting wn(1,2) j0 j00 in_range_small pa p0
          del: jadd.simps split: option.splits)
  qed
qed

subsection \<open>Reversal\<close>

definition net :: "string \<Rightarrow> ledger_row list \<Rightarrow> int" where
  "net code rows = sum_list (map (\<lambda>r. if row_account r = code then row_debit r - row_credit r else 0) rows)"

definition rows_of :: "string \<Rightarrow> ledger_db \<Rightarrow> ledger_row list" where
  "rows_of tx db = filter (\<lambda>r. row_transaction r = Some tx) (ledger_entries db)"

lemma net_append: "net code (xs @ ys) = net code xs + net code ys"
  by (simp add: net_def)

lemma net_mset: "mset xs = mset ys \<Longrightarrow> net code xs = net code ys"
  unfolding net_def sum_mset_sum_list [symmetric] mset_map by simp

lemma reversal_row:
  assumes ok: "row_ok r" and small: "decimal_value (row_debit r) < 2 ^ 26" "decimal_value (row_credit r) < 2 ^ 26"
    and p: "posted_as ref desc txid pb today (reversal_entry r) r'"
  shows "row_account r' = row_account r \<and> row_debit r' = row_credit r \<and> row_credit r' = row_debit r"
proof -
  have nn: "0 \<le> row_debit r" "0 \<le> row_credit r" using ok by (auto simp: row_ok_def)
  note pos = parse_decimal_pos_iff [OF nn(1) small(1)] parse_decimal_pos_iff [OF nn(2) small(2)]
  note jd = json_decimal_parse [OF nn(1) small(1)] json_decimal_parse [OF nn(2) small(2)]
  from p show ?thesis
  proof (rule posted_asE)
    fix d c
    assume "json_decimal (debit_amount (reversal_entry r)) = Inr d"
      and "json_decimal (credit_amount (reversal_entry r)) = Inr c"
      and "r' = entry_row ref desc txid pb today (reversal_entry r) d c"
    with ok pos jd show ?thesis by (auto simp: reversal_entry_def Let_def row_ok_def entry_row_def)
  qed
qed

lemma reversal_net:
  assumes "list_all2 (posted_as ref desc txid pb today) (map reversal_entry rows) rows'"
    and "\<forall>r \<in> set rows. row_ok r \<and> decimal_value (row_debit r) < 2 ^ 26 \<and> decimal_value (row_credit r) < 2 ^ 26"
  shows "net code rows' = - net code rows"
  using assms
proof (induction rows arbitrary: rows')
  case Nil
  then show ?case by (simp add: net_def)
next
  case (Cons r rows)
  then obtain r' rs where rows': "rows' = r' # rs" and p: "posted_as ref desc txid pb today (reversal_entry r) r'"
    and rest: "list_all2 (posted_as ref desc txid pb today) (map reversal_entry rows) rs"
    by (auto simp: list_all2_Cons1)
  from reversal_row [OF _ _ _ p] Cons.prems(2)
  have "row_account r' = row_account r \<and> row_debit r' = row_credit r \<and> row_credit r' = row_debit r" by auto
  with Cons.IH [OF rest] Cons.prems(2) show ?case by (auto simp: rows' net_def)
qed

lemma reversal_posted:
  assumes "postReversal order tx ref reason pb today db = (Inr (False, posted), db')"
  shows "\<exists>out. postTransactionWithClient (reversal_reference ref) (ReversalOfText ref reason)
      (map reversal_entry (order (rows_of tx db))) (Some tx) pb today db = Inr (out, db')"
proof -
  have none: "filter (\<lambda>r. row_reference r = reversal_reference ref) (rows_of tx db) = []"
    using assms unfolding postReversal_def Let_def rows_of_def [symmetric] by (auto split: if_splits)
  then have eq: "filter (\<lambda>r. row_reference r \<noteq> reversal_reference ref) (rows_of tx db) = rows_of tx db"
    by (intro filter_True) (auto simp: filter_empty_conv)
  from assms show ?thesis unfolding postReversal_def Let_def rows_of_def [symmetric] none eq
    by (auto simp: transact_def split: if_splits sum.splits)
qed

text \<open>What a posted reversal appends, and what the other results leave.\<close>

lemma reversal_appends:
  assumes "ledger_ok db" and "\<And>rows. mset (order rows) = mset rows" and "tx \<noteq> []"
    and "\<forall>r \<in> set (rows_of tx db). decimal_value (row_debit r) < 2 ^ 26 \<and> decimal_value (row_credit r) < 2 ^ 26"
    and "postReversal order tx ref reason pb today db = (Inr (False, posted), db')"
  obtains rows where "db' = db\<lparr>ledger_entries := ledger_entries db @ rows\<rparr>" and "rows \<noteq> []"
    and "\<forall>r \<in> set rows. row_transaction r = Some tx \<and> row_reference r = reversal_reference ref"
    and "\<And>code. net code rows = - net code (rows_of tx db)"
    and "\<forall>r \<in> set (rows_of tx db). row_reference r \<noteq> reversal_reference ref"
proof -
  obtain out where "postTransactionWithClient (reversal_reference ref) (ReversalOfText ref reason)
      (map reversal_entry (order (rows_of tx db))) (Some tx) pb today db = Inr (out, db')"
    using reversal_posted [OF assms(5)] by blast
  from client_Inr [OF this] obtain rows where db': "db' = db\<lparr>ledger_entries := ledger_entries db @ rows\<rparr>"
    and ne: "0 < length rows"
    and mark: "\<forall>r \<in> set rows. row_transaction r = Some tx \<and> row_reference r = reversal_reference ref"
    and l: "list_all2 (posted_as (reversal_reference ref) (ReversalOfText ref reason) (or_null (Some tx)) (or_null pb) today)
      (map reversal_entry (order (rows_of tx db))) rows"
    using assms(3) by (auto simp: or_null_def)
  have "set (order (rows_of tx db)) = set (rows_of tx db)" using assms(2) mset_eq_setD by blast
  then have "net code rows = - net code (order (rows_of tx db))" for code
    using assms(1,4) by (intro reversal_net [OF l]) (auto simp: ledger_ok_def rows_of_def)
  then have "net code rows = - net code (rows_of tx db)" for code using net_mset [OF assms(2)] by simp
  moreover have "\<forall>r \<in> set (rows_of tx db). row_reference r \<noteq> reversal_reference ref"
    using assms(5) unfolding postReversal_def Let_def rows_of_def [symmetric]
    by (auto simp: filter_empty_conv split: if_splits)
  ultimately show ?thesis using that db' ne mark by blast
qed

lemma reversal_unposted:
  "postReversal order tx ref reason pb today db = (r, db') \<Longrightarrow> (\<And>posted. r \<noteq> Inr (False, posted)) \<Longrightarrow> db' = db"
  unfolding postReversal_def Let_def by (auto simp: transact_def split: if_splits sum.splits)

subsection \<open>Properties\<close>

text \<open>
  C1. The ledger balances. Starting from an empty ledger, after any sequence of postings (deposits,
  withdrawals, clawbacks, provider fees and any other entries) and reversals, accepted or refused,
  the sum of all debits equals the sum of all credits, so \<open>checkLedgerBalance\<close> reports a balanced
  ledger, and every row has exactly one positive side.
\<close>

theorem ledger_balanced:
  assumes "ledger_entries db0 = []" and "steps_from ledger_step db0 db"
  shows "(case checkLedgerBalance db of (d, c, diff, balanced) \<Rightarrow> balanced) \<and> (\<forall>r \<in> set (ledger_entries db). row_ok r)"
  using lg.inv_reachable [OF assms] by (simp add: ledger_ok_def checkLedgerBalance_def Let_def)

definition sample_db :: ledger_db where
  "sample_db = \<lparr>accounts = [(''1100'', True), (''2000'', True), (''4100'', True), (''4200'', True)],
     users = [''u''], ledger_entries = []\<rparr>"

theorem ledger_balanced_witness:
  "case checkLedgerBalance (snd (postDeposit (parse_decimal 500) (parse_decimal 5) ''R'' ''t'' ''u'' 0 0 sample_db)) of
     (d, c, diff, balanced) \<Rightarrow> balanced"
proof -
  have "steps_from ledger_step sample_db (snd (postDeposit (parse_decimal 500) (parse_decimal 5) ''R'' ''t'' ''u'' 0 0 sample_db))"
    unfolding postDeposit_def by (rule steps_from_one, rule post)
  then show ?thesis using ledger_balanced [of sample_db] by (simp add: sample_db_def)
qed

text \<open>
  C2. Deposits and withdrawals are posted exactly. For an amount of \<open>n\<close> and a fee of \<open>m\<close> units of
  \<open>10 ^ -7\<close>, given as doubles, with amount and fee together below \<open>2 ^ 26\<close>, the fee smaller than the
  amount of a deposit, the accounts active and the user known, the posting succeeds: neither the
  balance check on doubles nor the one on decimals refuses it, and the rows carry exactly \<open>n\<close>,
  \<open>n - m\<close> (or \<open>n + m\<close>) and \<open>m\<close> units, with no rounding error from the floating-point arithmetic.
\<close>

theorem postings_exact:
  assumes "0 \<le> m" and "m < n" and "decimal_value (n + m) < 2 ^ 26"
    and "\<forall>code \<in> {''1100'', ''2000'', ''4100'', ''4200''}. map_of (accounts db) code = Some True"
    and "user \<in> set (users db)" and "length ref \<le> 50"
  shows "(\<exists>out rows db'. postDeposit (parse_decimal n) (parse_decimal m) ref tx user day today db = (Inr out, db') \<and>
      ledger_entries db' = ledger_entries db @ rows \<and>
      map (\<lambda>r. (row_account r, row_debit r, row_credit r)) rows =
        [(''1100'', n, 0), (''2000'', 0, n - m)] @ (if 0 < m then [(''4100'', 0, m)] else [])) \<and>
    (\<exists>out rows db'. postWithdrawal (parse_decimal n) (parse_decimal m) ref tx user today db = (Inr out, db') \<and>
      ledger_entries db' = ledger_entries db @ rows \<and>
      map (\<lambda>r. (row_account r, row_debit r, row_credit r)) rows =
        [(''2000'', n + m, 0), (''1100'', 0, n)] @ (if 0 < m then [(''4200'', 0, m)] else []))"
proof
  have n: "decimal_value n < 2 ^ 26" using decimal_value_mono [of n "n + m"] assms(1,3) by simp
  show "\<exists>out rows db'. postDeposit (parse_decimal n) (parse_decimal m) ref tx user day today db = (Inr out, db') \<and>
      ledger_entries db' = ledger_entries db @ rows \<and>
      map (\<lambda>r. (row_account r, row_debit r, row_credit r)) rows =
        [(''1100'', n, 0), (''2000'', 0, n - m)] @ (if 0 < m then [(''4100'', 0, m)] else [])"
    by (rule deposit_posts [OF assms(1,2) n]) (use assms(4-6) in auto)
  show "\<exists>out rows db'. postWithdrawal (parse_decimal n) (parse_decimal m) ref tx user today db = (Inr out, db') \<and>
      ledger_entries db' = ledger_entries db @ rows \<and>
      map (\<lambda>r. (row_account r, row_debit r, row_credit r)) rows =
        [(''2000'', n + m, 0), (''1100'', 0, n)] @ (if 0 < m then [(''4200'', 0, m)] else [])"
    by (rule withdrawal_posts [OF assms(1) _ assms(3)]) (use assms(1,2,4-6) in auto)
qed

theorem postings_exact_witness:
  "\<exists>out rows db'. postDeposit (parse_decimal 1000000003) (parse_decimal 1) ''R'' ''t'' ''u'' 0 0 sample_db = (Inr out, db') \<and>
     map (\<lambda>r. (row_account r, row_debit r, row_credit r)) rows =
       [(''1100'', 1000000003, 0), (''2000'', 0, 1000000002), (''4100'', 0, 1)] \<and> ledger_entries db' = rows"
proof -
  have "decimal_value (1000000003 + 1) < 2 ^ 26" by (simp add: decimal_value_def)
  from postings_exact [OF _ _ this, of sample_db "''u''" "''R''" "''t''" 0 0]
  show ?thesis by (auto simp: sample_db_def)
qed

text \<open>
  C3. A reversal cancels a transaction and happens once. When \<open>postReversal\<close> posts, in a balanced
  ledger and with the amounts of the transaction below \<open>2 ^ 26\<close>, the rows of the transaction then
  sum to zero on every account, and a further reversal under the same reference reports
  \<open>alreadyReversed\<close> and changes nothing. The rows may be read in any order.
\<close>

theorem reversal_cancels_once:
  assumes "ledger_ok db" and "\<And>rows. mset (order rows) = mset rows" and "tx \<noteq> []"
    and "\<forall>r \<in> set (rows_of tx db). decimal_value (row_debit r) < 2 ^ 26 \<and> decimal_value (row_credit r) < 2 ^ 26"
    and "postReversal order tx ref reason pb today db = (Inr (False, posted), db')"
  shows "net code (rows_of tx db') = 0 \<and>
    postReversal order' tx ref reason' pb' today' db' = (Inr (True, []), db')"
proof -
  obtain rows where db': "db' = db\<lparr>ledger_entries := ledger_entries db @ rows\<rparr>" and ne: "rows \<noteq> []"
    and mark: "\<forall>r \<in> set rows. row_transaction r = Some tx \<and> row_reference r = reversal_reference ref"
    and sum: "net code rows = - net code (rows_of tx db)"
    by (rule reversal_appends [OF assms]) blast
  have all: "rows_of tx db' = rows_of tx db @ rows" using mark by (simp add: rows_of_def db')
  then have "net code (rows_of tx db') = 0" using sum by (simp add: net_append)
  moreover have "filter (\<lambda>r. row_reference r = reversal_reference ref) (rows_of tx db') \<noteq> []"
    using ne mark by (cases rows) (auto simp: all)
  ultimately show ?thesis unfolding postReversal_def Let_def rows_of_def [symmetric] by simp
qed

definition sample_row :: "string \<Rightarrow> int \<Rightarrow> int \<Rightarrow> ledger_row" where
  "sample_row code d c = \<lparr>row_account = code, row_debit = d, row_credit = c, row_transaction = Some ''t'',
     row_reference = ''R'', row_description = Text ''x'', row_posted_by = None, row_settlement = 0\<rparr>"

definition posted_db :: ledger_db where
  "posted_db = sample_db\<lparr>ledger_entries := [sample_row ''1100'' (10 ^ 7) 0, sample_row ''2000'' 0 (10 ^ 7)]\<rparr>"

lemma one_unit: "parse_decimal 10000000 = Fin 1" "parse_decimal 0 = Fin 0" "json_decimal (Some (Fin 1)) = Inr 10000000"
proof -
  show p: "parse_decimal 10000000 = Fin 1" and "parse_decimal 0 = Fin 0"
    using of_exact_int [of 1] of_exact_int [of 0] by (simp_all add: parse_decimal_def decimal_value_def)
  show "json_decimal (Some (Fin 1)) = Inr 10000000"
    using json_decimal_parse [of 10000000] by (simp add: p decimal_value_def)
qed

lemma sample_reversal:
  "\<exists>posted db'. postReversal (\<lambda>rows. rows) ''t'' ''R'' ''fraud'' None 0 posted_db = (Inr (False, posted), db')"
proof -
  have j: "jadd (Fin 0) (Fin 0) = Fin 0" "jadd (Fin 0) (Fin 1) = Fin 1" "jadd (Fin 1) (Fin 0) = Fin 1"
    using jadd_zero [of 0] jadd_zero [of 1] representable_of_int [of 1] by simp_all
  have tol: "\<not> jgt (math_abs (jsub (Fin 1) (Fin 1))) BALANCE_TOLERANCE"
    using tolerance [of 0] by (simp add: jsub_Fin)
  show ?thesis
    by (simp add: postReversal_def posted_db_def sample_db_def sample_row_def reversal_reference_def
        reversal_entry_def posting one_unit j tol in_range_small or_null_def del: jadd.simps)
qed

theorem reversal_cancels_once_witness:
  "\<exists>db'. net ''1100'' (rows_of ''t'' posted_db) = 10000000 \<and> net ''1100'' (rows_of ''t'' db') = 0 \<and>
     postReversal (\<lambda>rows. rows) ''t'' ''R'' ''again'' None 1 db' = (Inr (True, []), db')"
proof -
  obtain posted db' where r: "postReversal (\<lambda>rows. rows) ''t'' ''R'' ''fraud'' None 0 posted_db = (Inr (False, posted), db')"
    using sample_reversal by blast
  have ok: "ledger_ok posted_db"
    by (simp add: ledger_ok_def posted_db_def sample_row_def total_debits_def total_credits_def row_ok_def)
  have "\<forall>r \<in> set (rows_of ''t'' posted_db). decimal_value (row_debit r) < 2 ^ 26 \<and> decimal_value (row_credit r) < 2 ^ 26"
    by (simp add: rows_of_def posted_db_def sample_row_def decimal_value_def)
  from reversal_cancels_once [OF ok refl _ this r, of "''1100''" "\<lambda>rows. rows" "''again''" None 1]
  have "net ''1100'' (rows_of ''t'' db') = 0 \<and>
    postReversal (\<lambda>rows. rows) ''t'' ''R'' ''again'' None 1 db' = (Inr (True, []), db')" by simp
  moreover have "net ''1100'' (rows_of ''t'' posted_db) = 10000000"
    by (simp add: net_def rows_of_def posted_db_def sample_row_def)
  ultimately show ?thesis by blast
qed

end
