(* ===== verification/Timeout_Recovery.thy ===== *)
theory Timeout_Recovery
  imports Js_Value
begin

text \<open>
  \<open>src/src/services/timeoutRecovery.ts\<close>: the policies for transactions that time out, the decision
  they give and the manual review queue. The module state (custom policies and queue) is a record.
  Amounts, retry limits and delays are JavaScript numbers. The clock is read once for the identifier
  and once for \<open>queuedAt\<close>. Texts for people are values of \<open>recovery_action\<close>.
\<close>

subsection \<open>Data\<close>

datatype recovery_strategy = retry | manual_review | fail_fast | rollback

record recovery_policy =
  policy_name :: string
  policy_strategy :: recovery_strategy
  transactionTypes :: "string list option"
  providers :: "string list option"
  minAmount :: "js_num option"
  maxAmount :: "js_num option"
  maxRetries :: "js_num option"
  retryDelayMs :: "js_num option"
  exponentialBackoff :: "bool option"

record recovery_context =
  transactionId :: string
  tx_type :: string
  tx_provider :: string
  tx_amount :: js_num
  currency :: string
  attemptCount :: nat
  timedOutAt :: string

datatype recovery_action =
  RetryLimitExhausted js_num
| RetryAttempt nat js_num
| QueuedForReview
| ImmediatelyFailed
| MarkedForRollback

record recovery_result =
  result_transactionId :: string
  result_strategy :: recovery_strategy
  result_policyName :: string
  actionTaken :: recovery_action
  shouldRetry :: bool
  retryAfterMs :: "js_num option"
  queuedForManualReview :: bool
  failedImmediately :: bool

datatype review_resolution = retried | cancelled | approved

record review_entry =
  review_id :: string
  review_context :: recovery_context
  review_policyName :: string
  queuedAt :: int
  resolvedAt :: "int option"
  resolvedBy :: "string option"
  resolution :: "review_resolution option"
  review_notes :: "string option"

record recovery_state =
  customPolicies :: "recovery_policy list"
  manualReviewQueue :: "review_entry list"

definition plain_policy :: "string \<Rightarrow> recovery_strategy \<Rightarrow> js_num option \<Rightarrow> recovery_policy" where
  "plain_policy n s retries =
     \<lparr>policy_name = n, policy_strategy = s, transactionTypes = None, providers = None, minAmount = None,
      maxAmount = None, maxRetries = retries, retryDelayMs = None, exponentialBackoff = None\<rparr>"

definition DEFAULT_POLICY :: recovery_policy where
  "DEFAULT_POLICY = (plain_policy ''default'' manual_review (Some (Fin 3)))
     \<lparr>retryDelayMs := Some (Fin 2000), exponentialBackoff := Some True\<rparr>"

definition BUILT_IN_POLICIES :: "recovery_policy list" where
  "BUILT_IN_POLICIES =
     [(plain_policy ''high-value-manual-review'' manual_review (Some (Fin 0)))\<lparr>minAmount := Some (Fin 100000)\<rparr>,
      (plain_policy ''deposit-retry'' retry (Some (Fin 3)))
        \<lparr>transactionTypes := Some [''deposit''], retryDelayMs := Some (Fin 3000), exponentialBackoff := Some True\<rparr>,
      (plain_policy ''withdraw-manual-review'' manual_review (Some (Fin 1)))
        \<lparr>transactionTypes := Some [''withdraw''], retryDelayMs := Some (Fin 5000), exponentialBackoff := Some False\<rparr>,
      (plain_policy ''stellar-retry'' retry (Some (Fin 5)))
        \<lparr>providers := Some [''stellar''], retryDelayMs := Some (Fin 1000), exponentialBackoff := Some True\<rparr>,
      (plain_policy ''small-amount-fail-fast'' fail_fast (Some (Fin 0)))\<lparr>maxAmount := Some (Fin 500)\<rparr>]"

subsection \<open>Policies\<close>

definition registerRecoveryPolicy :: "recovery_policy \<Rightarrow> recovery_state \<Rightarrow> recovery_state" where
  "registerRecoveryPolicy policy s = s\<lparr>customPolicies := policy # customPolicies s\<rparr>"

definition clearCustomPolicies :: "recovery_state \<Rightarrow> recovery_state" where
  "clearCustomPolicies s = s\<lparr>customPolicies := []\<rparr>"

definition clearManualReviewQueue :: "recovery_state \<Rightarrow> recovery_state" where
  "clearManualReviewQueue s = s\<lparr>manualReviewQueue := []\<rparr>"

definition policyMatches :: "recovery_policy \<Rightarrow> recovery_context \<Rightarrow> bool" where
  "policyMatches policy ctx =
     (if (case transactionTypes policy of None \<Rightarrow> False | Some ts \<Rightarrow> tx_type ctx \<notin> set ts) then False
      else if (case providers policy of None \<Rightarrow> False | Some ps \<Rightarrow> tx_provider ctx \<notin> set ps) then False
      else if (case minAmount policy of None \<Rightarrow> False | Some mn \<Rightarrow> jlt (tx_amount ctx) mn) then False
      else if (case maxAmount policy of None \<Rightarrow> False | Some mx \<Rightarrow> jgt (tx_amount ctx) mx) then False
      else True)"

definition selectPolicy :: "recovery_state \<Rightarrow> recovery_context \<Rightarrow> recovery_policy list \<Rightarrow> recovery_policy" where
  "selectPolicy s ctx builtIn =
     (case List.find (\<lambda>p. policyMatches p ctx) (customPolicies s @ builtIn) of
        Some p \<Rightarrow> p
      | None \<Rightarrow> DEFAULT_POLICY)"

text \<open>\<open>Math.pow(2, n)\<close> is exact, and Infinity from \<open>n = 1024\<close> on.\<close>

definition calculateRetryDelay :: "recovery_policy \<Rightarrow> nat \<Rightarrow> js_num" where
  "calculateRetryDelay policy attempts =
     (let base = (case retryDelayMs policy of None \<Rightarrow> Fin 2000 | Some d \<Rightarrow> d)
      in if exponentialBackoff policy \<noteq> Some True then base
         else math_min (jmul base (of_exact (2 ^ attempts))) (Fin 60000))"

definition result_for ::
  "recovery_context \<Rightarrow> recovery_policy \<Rightarrow> recovery_strategy \<Rightarrow> recovery_action \<Rightarrow> recovery_result" where
  "result_for ctx policy s act =
     \<lparr>result_transactionId = transactionId ctx, result_strategy = s, result_policyName = policy_name policy,
      actionTaken = act, shouldRetry = False, retryAfterMs = None, queuedForManualReview = False,
      failedImmediately = False\<rparr>"

definition decideRecovery :: "recovery_state \<Rightarrow> recovery_context \<Rightarrow> recovery_policy list \<Rightarrow> recovery_result" where
  "decideRecovery s ctx builtIn =
     (let policy = selectPolicy s ctx builtIn;
          maxR = (case maxRetries policy of None \<Rightarrow> Fin 3 | Some r \<Rightarrow> r)
      in case policy_strategy policy of
           retry \<Rightarrow>
             if \<not> jlt (Fin (of_nat (attemptCount ctx))) maxR
             then (result_for ctx policy retry (RetryLimitExhausted maxR))\<lparr>queuedForManualReview := True\<rparr>
             else (result_for ctx policy retry (RetryAttempt (attemptCount ctx + 1) maxR))
               \<lparr>shouldRetry := True, retryAfterMs := Some (calculateRetryDelay policy (attemptCount ctx))\<rparr>
         | manual_review \<Rightarrow>
             (result_for ctx policy manual_review QueuedForReview)\<lparr>queuedForManualReview := True\<rparr>
         | fail_fast \<Rightarrow> (result_for ctx policy fail_fast ImmediatelyFailed)\<lparr>failedImmediately := True\<rparr>
         | rollback \<Rightarrow> (result_for ctx policy rollback MarkedForRollback)\<lparr>failedImmediately := True\<rparr>)"

subsection \<open>The manual review queue\<close>

definition queueForManualReview ::
  "recovery_context \<Rightarrow> string \<Rightarrow> int \<Rightarrow> int \<Rightarrow> recovery_state \<Rightarrow> review_entry \<times> recovery_state" where
  "queueForManualReview ctx name now1 now2 s =
     (let entry = \<lparr>review_id = ''review-'' @ transactionId ctx @ ''-'' @ int_text now1, review_context = ctx,
            review_policyName = name, queuedAt = now2, resolvedAt = None, resolvedBy = None,
            resolution = None, review_notes = None\<rparr>
      in (entry, s\<lparr>manualReviewQueue := manualReviewQueue s @ [entry]\<rparr>))"

definition getPendingManualReviews :: "recovery_state \<Rightarrow> review_entry list" where
  "getPendingManualReviews s = filter (\<lambda>e. resolution e = None) (manualReviewQueue s)"

definition getAllManualReviews :: "recovery_state \<Rightarrow> review_entry list" where
  "getAllManualReviews s = manualReviewQueue s"

datatype review_error = ReviewEntryNotFound string

text \<open>\<open>find\<close> gives the first entry with the identifier, which is then changed in place.\<close>

fun update_first :: "('a \<Rightarrow> bool) \<Rightarrow> ('a \<Rightarrow> 'a) \<Rightarrow> 'a list \<Rightarrow> 'a list" where
  "update_first p f [] = []"
| "update_first p f (x # xs) = (if p x then f x # xs else x # update_first p f xs)"

definition resolveManualReview ::
  "string \<Rightarrow> review_resolution option \<Rightarrow> string \<Rightarrow> string option \<Rightarrow> int \<Rightarrow> recovery_state \<Rightarrow>
    (review_error + review_entry) \<times> recovery_state" where
  "resolveManualReview entryId res agent note now s =
     (let upd = (\<lambda>e. e\<lparr>resolvedAt := Some now, resolvedBy := Some agent, resolution := res, review_notes := note\<rparr>)
      in case List.find (\<lambda>e. review_id e = entryId) (manualReviewQueue s) of
           None \<Rightarrow> (Inl (ReviewEntryNotFound entryId), s)
         | Some e \<Rightarrow> (Inr (upd e),
             s\<lparr>manualReviewQueue := update_first (\<lambda>e. review_id e = entryId) upd (manualReviewQueue s)\<rparr>))"

definition handleTransactionTimeout ::
  "recovery_context \<Rightarrow> recovery_policy list \<Rightarrow> int \<Rightarrow> int \<Rightarrow> recovery_state \<Rightarrow> recovery_result \<times> recovery_state" where
  "handleTransactionTimeout ctx builtIn now1 now2 s =
     (let result = decideRecovery s ctx builtIn
      in (result, if queuedForManualReview result
                  then snd (queueForManualReview ctx (result_policyName result) now1 now2 s) else s))"

subsection \<open>Properties\<close>

lemmas result_simps = result_for_def Let_def

lemma selectPolicy_attempts: "selectPolicy s (ctx\<lparr>attemptCount := k\<rparr>) builtIn = selectPolicy s ctx builtIn"
proof -
  have "policyMatches p (ctx\<lparr>attemptCount := k\<rparr>) = policyMatches p ctx" for p
    by (simp add: policyMatches_def cong: option.case_cong)
  then show ?thesis by (simp add: selectPolicy_def)
qed

lemma of_exact_pow2: "of_exact (2 ^ k) = (if k < 1024 then Fin (2 ^ k) else PosInf)"
proof (cases "k < 1024")
  case True
  have "rnd64 (2 ^ k) = 2 ^ k" using rnd64_pow2 [of "int k"] by simp
  with True of_exact_Fin [of "2 ^ k" "int k"] show ?thesis by simp
next
  case False
  have "(2 :: rat) ^ 1024 \<le> 2 ^ k" using False by (intro power_increasing) simp_all
  with rnd64_pow2 [of "int k"] False show ?thesis by (simp add: of_exact_def overflow64_def)
qed

lemma math_min_mono: "jle a b \<Longrightarrow> c \<noteq> NaN \<Longrightarrow> jle (math_min a c) (math_min b c)"
  by (cases a; cases b; cases c) (auto simp: math_min_def)

lemma math_min_le: "a \<noteq> NaN \<Longrightarrow> c \<noteq> NaN \<Longrightarrow> jle (math_min a c) c"
  by (cases a; cases c) (auto simp: math_min_def)

text \<open>The product of a positive base and a power of two grows with the exponent.\<close>

lemma scaled_mono:
  assumes "0 < b"
  shows "jle (jmul (Fin b) (of_exact (2 ^ k))) (jmul (Fin b) (of_exact (2 ^ Suc k)))"
proof -
  have inf: "jmul (Fin b) PosInf = PosInf" using assms by (simp add: signed_inf_def)
  have le_inf: "jle x PosInf" if "x \<noteq> NaN" for x using that by (cases x) auto
  show ?thesis
  proof (cases "Suc k < 1024")
    case True
    have "b * 2 ^ k \<le> b * 2 ^ Suc k" using assms by simp
    from of_exact_mono [OF this] True show ?thesis by (simp add: of_exact_pow2 del: power_Suc)
  next
    case False
    then have "jmul (Fin b) (of_exact (2 ^ Suc k)) = PosInf" using inf by (simp only: of_exact_pow2 if_False)
    moreover have "jmul (Fin b) (of_exact (2 ^ k)) \<noteq> NaN" using inf by (simp add: of_exact_pow2)
    ultimately show ?thesis using le_inf by simp
  qed
qed

text \<open>
  No timed-out transaction is lost. Every timeout ends in exactly one of three ways: the caller
  is told to retry, the transaction is failed, or it is in the queue of pending manual reviews; the
  rest of the queue is unchanged.
\<close>

theorem timeout_has_one_outcome:
  assumes "handleTransactionTimeout ctx builtIn now1 now2 s = (r, s')"
  shows "(shouldRetry r \<and> \<not> queuedForManualReview r \<and> \<not> failedImmediately r \<and> s' = s) \<or>
    (\<not> shouldRetry r \<and> \<not> queuedForManualReview r \<and> failedImmediately r \<and> s' = s) \<or>
    (\<not> shouldRetry r \<and> queuedForManualReview r \<and> \<not> failedImmediately r \<and>
     (\<exists>e. review_context e = ctx \<and> getPendingManualReviews s' = getPendingManualReviews s @ [e] \<and>
       getAllManualReviews s' = getAllManualReviews s @ [e]))"
  using assms
  by (auto simp: handleTransactionTimeout_def decideRecovery_def result_simps queueForManualReview_def
      getPendingManualReviews_def getAllManualReviews_def split: recovery_strategy.splits if_splits)

definition sample_context :: recovery_context where
  "sample_context = \<lparr>transactionId = ''t'', tx_type = ''withdraw'', tx_provider = ''mtn'', tx_amount = Fin 10,
     currency = ''XAF'', attemptCount = 0, timedOutAt = []\<rparr>"

definition empty_state :: recovery_state where
  "empty_state = \<lparr>customPolicies = [], manualReviewQueue = []\<rparr>"

lemmas recovery_eval = handleTransactionTimeout_def decideRecovery_def selectPolicy_def policyMatches_def
  BUILT_IN_POLICIES_def plain_policy_def DEFAULT_POLICY_def queueForManualReview_def result_simps

theorem timeout_has_one_outcome_witness:
  "length (getPendingManualReviews (snd (handleTransactionTimeout sample_context BUILT_IN_POLICIES 7 7 empty_state))) = 1"
  using timeout_has_one_outcome [of sample_context BUILT_IN_POLICIES 7 7 empty_state
      "fst (handleTransactionTimeout sample_context BUILT_IN_POLICIES 7 7 empty_state)"
      "snd (handleTransactionTimeout sample_context BUILT_IN_POLICIES 7 7 empty_state)"]
  by (auto simp: recovery_eval sample_context_def empty_state_def getPendingManualReviews_def)

text \<open>
  What the built-in policies retry. Without custom policies a retry is ordered exactly for
  amounts below 100000, for deposits in the first three attempts, and in the first five attempts for
  transactions of provider stellar that are neither deposits nor withdrawals; a withdrawal is never
  retried automatically.
\<close>

theorem built_in_retry_scope:
  assumes "customPolicies s = []"
  shows "shouldRetry (decideRecovery s ctx BUILT_IN_POLICIES) \<longleftrightarrow>
    jlt (tx_amount ctx) (Fin 100000) \<and>
    ((tx_type ctx = ''deposit'' \<and> attemptCount ctx < 3) \<or>
     (tx_type ctx \<noteq> ''deposit'' \<and> tx_type ctx \<noteq> ''withdraw'' \<and> tx_provider ctx = ''stellar'' \<and> attemptCount ctx < 5))"
  using assms by (auto simp: recovery_eval split: if_splits)

theorem built_in_retry_scope_witness:
  "\<not> shouldRetry (decideRecovery empty_state sample_context BUILT_IN_POLICIES) \<and>
   shouldRetry (decideRecovery empty_state (sample_context\<lparr>tx_type := ''deposit''\<rparr>) BUILT_IN_POLICIES)"
  using built_in_retry_scope [of empty_state sample_context]
    built_in_retry_scope [of empty_state "sample_context\<lparr>tx_type := ''deposit''\<rparr>"]
  by (simp add: empty_state_def sample_context_def)

text \<open>
  Retrying ends, with bounded delays. Under a retry policy with limit \<open>x\<close> attempt number \<open>k\<close> is
  retried exactly while \<open>k < x\<close> and goes to manual review from then on; with exponential back-off and
  a positive base the delays never decrease and never exceed one minute.
\<close>

theorem retries_bounded:
  assumes "p = selectPolicy s ctx builtIn" and "policy_strategy p = retry" and "maxRetries p = Some (Fin x)"
  shows "shouldRetry (decideRecovery s (ctx\<lparr>attemptCount := k\<rparr>) builtIn) = (of_nat k < x) \<and>
    queuedForManualReview (decideRecovery s (ctx\<lparr>attemptCount := k\<rparr>) builtIn) = (x \<le> of_nat k) \<and>
    (exponentialBackoff p = Some True \<and> retryDelayMs p = Some (Fin b) \<and> 0 < b \<longrightarrow>
      jle (calculateRetryDelay p k) (calculateRetryDelay p (Suc k)) \<and> jle (calculateRetryDelay p k) (Fin 60000))"
proof -
  have mono: "jle (math_min (jmul (Fin b) (of_exact (2 ^ k))) (Fin 60000))
      (math_min (jmul (Fin b) (of_exact (2 ^ Suc k))) (Fin 60000))" if "0 < b"
    by (rule math_min_mono [OF scaled_mono [OF that]]) simp
  have le: "jle (math_min (jmul (Fin b) (of_exact (2 ^ k))) (Fin 60000)) (Fin 60000)" if "0 < b"
    by (rule math_min_le) (use jle_not_NaN [OF scaled_mono [OF that]] in simp_all)
  show ?thesis using assms mono le
    by (auto simp: decideRecovery_def selectPolicy_attempts calculateRetryDelay_def result_simps
        simp del: power_Suc jmul.simps)
qed

theorem retries_bounded_witness:
  "shouldRetry (decideRecovery empty_state (sample_context\<lparr>tx_type := ''deposit'', attemptCount := 2\<rparr>) BUILT_IN_POLICIES) \<and>
   queuedForManualReview (decideRecovery empty_state (sample_context\<lparr>tx_type := ''deposit'', attemptCount := 3\<rparr>) BUILT_IN_POLICIES)"
proof -
  let ?ctx = "sample_context\<lparr>tx_type := ''deposit''\<rparr>"
  have p: "policy_strategy (selectPolicy empty_state ?ctx BUILT_IN_POLICIES) = retry"
    "maxRetries (selectPolicy empty_state ?ctx BUILT_IN_POLICIES) = Some (Fin 3)"
    by (simp_all add: recovery_eval empty_state_def sample_context_def)
  show ?thesis using retries_bounded [OF refl p, of 2] retries_bounded [OF refl p, of 3] by simp
qed

text \<open>
  Review identifiers collide. Two timeouts of one transaction handled in the same millisecond
  get the same identifier: resolving it changes only the first entry, and the second stays pending
  however often the identifier is resolved.
\<close>

theorem review_id_collision:
  "let s2 = snd (handleTransactionTimeout sample_context BUILT_IN_POLICIES 7 7
              (snd (handleTransactionTimeout sample_context BUILT_IN_POLICIES 7 7 empty_state)));
       rid = review_id (hd (manualReviewQueue s2));
       s3 = snd (resolveManualReview rid (Some approved) ''a'' None 8 s2);
       s4 = snd (resolveManualReview rid (Some cancelled) ''b'' None 9 s3)
   in length (getPendingManualReviews s2) = 2 \<and> length (getPendingManualReviews s3) = 1 \<and>
      length (getPendingManualReviews s4) = 1 \<and> resolution (hd (manualReviewQueue s4)) = Some cancelled"
  by (simp add: recovery_eval sample_context_def empty_state_def getPendingManualReviews_def resolveManualReview_def)

end
