(* ===== verification/Transaction_Limits.thy ===== *)
theory Transaction_Limits
  imports Js_Value
begin

text \<open>
  \<open>src/src/config/limits.ts\<close>, \<open>src/src/config/providers.ts\<close> and
  \<open>src/src/services/transactionLimit/transactionLimitService.ts\<close>: the validation of the limits at
  start-up, the per-transaction limits of a provider and the daily limits of a user.

  Amounts are JavaScript numbers. The values read from the configuration are parameters. The level
  of the user and the list of completed transactions of the last day are what the two services
  return; an amount is the number that \<open>parseFloat\<close> gives. The limits of a provider are read with a
  property access on an object, so the names every object inherits give a value whose fields are
  undefined (\<open>None\<close>). Messages are left out.
\<close>

subsection \<open>Limits and their validation\<close>

datatype kyc_level = Unverified | Basic | Full

record limit_config =
  unverified_limit :: js_num
  basic_limit :: js_num
  full_limit :: js_num

fun limit_of :: "limit_config \<Rightarrow> kyc_level \<Rightarrow> js_num" where
  "limit_of c Unverified = unverified_limit c"
| "limit_of c Basic = basic_limit c"
| "limit_of c Full = full_limit c"

datatype limits_error =
  LimitsNotPositiveFinite
| BasicBelowUnverified
| FullBelowBasic
| MinNotPositiveFinite
| MaxNotPositiveFinite
| MinAboveMax
| InvalidProviderMin string
| InvalidProviderMax string
| InvalidProviderDaily string
| ProviderMinAboveMax string
| ProviderDailyBelowMax string

definition bad_limit :: "js_num \<Rightarrow> bool" where
  "bad_limit v \<longleftrightarrow> jle v (Fin 0) \<or> \<not> isFinite v"

definition validateLimits :: "limit_config \<Rightarrow> limits_error + unit" where
  "validateLimits c =
     (if bad_limit (unverified_limit c) \<or> bad_limit (basic_limit c) \<or> bad_limit (full_limit c)
      then Inl LimitsNotPositiveFinite
      else if jlt (basic_limit c) (unverified_limit c) then Inl BasicBelowUnverified
      else if jlt (full_limit c) (basic_limit c) then Inl FullBelowBasic
      else Inr ())"

definition validateAmountLimits :: "js_num \<Rightarrow> js_num \<Rightarrow> limits_error + unit" where
  "validateAmountLimits minA maxA =
     (if bad_limit minA then Inl MinNotPositiveFinite
      else if bad_limit maxA then Inl MaxNotPositiveFinite
      else if jgt minA maxA then Inl MinAboveMax
      else Inr ())"

subsection \<open>Providers\<close>

datatype mobile_money_provider = MTN | AIRTEL | ORANGE

fun provider_key :: "mobile_money_provider \<Rightarrow> string" where
  "provider_key MTN = ''mtn''"
| "provider_key AIRTEL = ''airtel''"
| "provider_key ORANGE = ''orange''"

record provider_limits =
  minAmount :: "js_num option"
  maxAmount :: "js_num option"
  dailyLimit :: "js_num option"

type_synonym limits_table = "mobile_money_provider \<Rightarrow> provider_limits"

definition provider_range :: "js_num \<Rightarrow> js_num \<Rightarrow> js_num \<Rightarrow> provider_limits" where
  "provider_range mn mx d = \<lparr>minAmount = Some mn, maxAmount = Some mx, dailyLimit = Some d\<rparr>"

definition DEFAULT_PROVIDER_LIMITS :: limits_table where
  "DEFAULT_PROVIDER_LIMITS p =
     (case p of
        MTN \<Rightarrow> provider_range (Fin 100) (Fin 500000) (Fin 500000)
      | AIRTEL \<Rightarrow> provider_range (Fin 100) (Fin 1000000) (Fin 1000000)
      | ORANGE \<Rightarrow> provider_range (Fin 500) (Fin 750000) (Fin 750000))"

text \<open>The members of \<open>Object.prototype\<close>: truthy values (functions, or the prototype object).\<close>

definition inherited_names :: "string list" where
  "inherited_names = [''constructor'', ''__proto__'', ''hasOwnProperty'', ''isPrototypeOf'',
     ''propertyIsEnumerable'', ''toLocaleString'', ''toString'', ''valueOf'', ''__defineGetter__'',
     ''__defineSetter__'', ''__lookupGetter__'', ''__lookupSetter__'']"

definition lookup_limits :: "limits_table \<Rightarrow> string \<Rightarrow> provider_limits option" where
  "lookup_limits tab key =
     (case List.find (\<lambda>p. provider_key p = key) [MTN, AIRTEL, ORANGE] of
        Some p \<Rightarrow> Some (tab p)
      | None \<Rightarrow> if key \<in> set inherited_names
                then Some \<lparr>minAmount = None, maxAmount = None, dailyLimit = None\<rparr> else None)"

text \<open>A comparison with undefined is a comparison with NaN.\<close>

definition num :: "js_num option \<Rightarrow> js_num" where
  "num v = (case v of None \<Rightarrow> NaN | Some x \<Rightarrow> x)"

datatype provider_error = UnknownProvider string

definition getProviderLimits :: "limits_table \<Rightarrow> string \<Rightarrow> provider_error + provider_limits" where
  "getProviderLimits tab key = (case lookup_limits tab key of None \<Rightarrow> Inl (UnknownProvider key) | Some l \<Rightarrow> Inr l)"

definition validateProviderLimits :: "limits_table \<Rightarrow> string \<Rightarrow> js_num \<Rightarrow> provider_error + bool" where
  "validateProviderLimits tab key amount =
     (case getProviderLimits tab key of
        Inl e \<Rightarrow> Inl e
      | Inr l \<Rightarrow> Inr (\<not> jlt amount (num (minAmount l)) \<and> \<not> jgt amount (num (maxAmount l))))"

datatype deposit_limit_code = PROVIDER_MIN_AMOUNT | PROVIDER_MAX_AMOUNT | UNKNOWN_PROVIDER | INVALID_AMOUNT

record deposit_validation =
  valid :: bool
  checked_provider :: string
  checked_amount :: js_num
  checked_limits :: "provider_limits option"
  code :: "deposit_limit_code option"

definition validateDepositAmount :: "limits_table \<Rightarrow> string option \<Rightarrow> js_num \<Rightarrow> deposit_validation" where
  "validateDepositAmount tab provider amount =
     (let key = toLowerCase (case provider of None \<Rightarrow> [] | Some p \<Rightarrow> p);
          result = (\<lambda>v l c. \<lparr>valid = v, checked_provider = key, checked_amount = amount,
                              checked_limits = l, code = c\<rparr>)
      in case lookup_limits tab key of
           None \<Rightarrow> result False None (Some UNKNOWN_PROVIDER)
         | Some l \<Rightarrow>
             if \<not> isFinite amount \<or> jle amount (Fin 0) then result False (Some l) (Some INVALID_AMOUNT)
             else if jlt amount (num (minAmount l)) then result False (Some l) (Some PROVIDER_MIN_AMOUNT)
             else if jgt amount (num (maxAmount l)) then result False (Some l) (Some PROVIDER_MAX_AMOUNT)
             else result True (Some l) None)"

definition validate_provider :: "limits_table \<Rightarrow> mobile_money_provider \<Rightarrow> limits_error + unit" where
  "validate_provider tab p =
     (let mn = num (minAmount (tab p)); mx = num (maxAmount (tab p)); d = num (dailyLimit (tab p)) in
      if bad_limit mn then Inl (InvalidProviderMin (provider_key p))
      else if bad_limit mx then Inl (InvalidProviderMax (provider_key p))
      else if bad_limit d then Inl (InvalidProviderDaily (provider_key p))
      else if jgt mn mx then Inl (ProviderMinAboveMax (provider_key p))
      else if jgt mx d then Inl (ProviderDailyBelowMax (provider_key p))
      else Inr ())"

fun first_error :: "(limits_error + unit) list \<Rightarrow> limits_error + unit" where
  "first_error [] = Inr ()"
| "first_error (Inl e # rs) = Inl e"
| "first_error (Inr u # rs) = first_error rs"

definition validateLimitsConfig :: "limits_table \<Rightarrow> limits_error + unit" where
  "validateLimitsConfig tab = first_error (map (validate_provider tab) [MTN, AIRTEL, ORANGE])"

subsection \<open>Daily limits of a user\<close>

record limit_check =
  allowed :: bool
  kycLevel :: kyc_level
  result_dailyLimit :: js_num
  currentDailyTotal :: js_num
  remainingLimit :: js_num
  upgradeAvailable :: bool

record limits_setup =
  TRANSACTION_LIMITS :: limit_config
  MIN_TRANSACTION_AMOUNT :: js_num
  MAX_TRANSACTION_AMOUNT :: js_num
  PROVIDER_LIMITS :: limits_table

type_synonym completed_tx = "js_num \<times> string option"

definition getProviderDailyLimit :: "limits_setup \<Rightarrow> string option \<Rightarrow> js_num option option" where
  "getProviderDailyLimit cfg provider =
     (if provider = None \<or> provider = Some [] then None
      else case getProviderLimits (PROVIDER_LIMITS cfg) (toLowerCase (the provider)) of
        Inl e \<Rightarrow> None
      | Inr l \<Rightarrow> Some (dailyLimit l))"

definition daily_total :: "completed_tx list \<Rightarrow> js_num" where
  "daily_total txs = foldl (\<lambda>sum tx. jadd sum (fst tx)) (Fin 0) txs"

definition getProviderDailyTotal :: "completed_tx list \<Rightarrow> string option \<Rightarrow> js_num" where
  "getProviderDailyTotal txs provider =
     (if provider = None \<or> provider = Some [] then Fin 0
      else foldl (\<lambda>sum tx. if toLowerCase (case snd tx of None \<Rightarrow> [] | Some p \<Rightarrow> p) = toLowerCase (the provider)
                           then jadd sum (fst tx) else sum) (Fin 0) txs)"

definition refused_check :: limit_check where
  "refused_check = \<lparr>allowed = False, kycLevel = Unverified, result_dailyLimit = Fin 0,
     currentDailyTotal = Fin 0, remainingLimit = Fin 0, upgradeAvailable = False\<rparr>"

text \<open>
  The result of \<open>getProviderDailyLimit\<close> is null (\<open>None\<close>), undefined (\<open>Some None\<close>) or a number.
\<close>

definition checkTransactionLimit ::
  "limits_setup \<Rightarrow> kyc_level \<Rightarrow> completed_tx list \<Rightarrow> js_num \<Rightarrow> string option \<Rightarrow> limit_check" where
  "checkTransactionLimit cfg level recent amount provider =
     (if jlt amount (MIN_TRANSACTION_AMOUNT cfg) then refused_check
      else if jgt amount (MAX_TRANSACTION_AMOUNT cfg) then refused_check
      else
        let globalLimit = limit_of (TRANSACTION_LIMITS cfg) level;
            total = daily_total recent;
            providerLimit = getProviderDailyLimit cfg provider;
            providerTotal = getProviderDailyTotal recent provider;
            newProviderTotal = jadd providerTotal amount
        in if providerLimit \<noteq> None \<and> jgt newProviderTotal (num (the providerLimit))
           then \<lparr>allowed = False, kycLevel = level, result_dailyLimit = num (the providerLimit),
                 currentDailyTotal = providerTotal,
                 remainingLimit = math_max (Fin 0) (jsub (num (the providerLimit)) providerTotal),
                 upgradeAvailable = (level \<noteq> Full)\<rparr>
           else
             let newTotal = jadd total amount in
             if jgt newTotal globalLimit
             then \<lparr>allowed = False, kycLevel = level, result_dailyLimit = globalLimit,
                   currentDailyTotal = total, remainingLimit = jsub globalLimit total,
                   upgradeAvailable = (level \<noteq> Full)\<rparr>
             else \<lparr>allowed = True, kycLevel = level,
                   result_dailyLimit = math_min globalLimit
                     (case providerLimit of Some (Some d) \<Rightarrow> d | _ \<Rightarrow> globalLimit),
                   currentDailyTotal = total, remainingLimit = jsub globalLimit newTotal,
                   upgradeAvailable = False\<rparr>)"

subsection \<open>Properties\<close>

text \<open>Transactions that are checked one after the other and completed when they are allowed.\<close>

definition complete_tx :: "limits_setup \<Rightarrow> kyc_level \<Rightarrow> completed_tx \<Rightarrow> completed_tx list \<Rightarrow> completed_tx list" where
  "complete_tx cfg level tx recent =
     (if allowed (checkTransactionLimit cfg level recent (fst tx) (snd tx)) then recent @ [tx] else recent)"

lemma allowed_total:
  assumes "allowed (checkTransactionLimit cfg level recent amount provider)"
  shows "\<not> jgt (jadd (daily_total recent) amount) (limit_of (TRANSACTION_LIMITS cfg) level)"
    and "\<not> jlt amount (MIN_TRANSACTION_AMOUNT cfg)" and "\<not> jgt amount (MAX_TRANSACTION_AMOUNT cfg)"
    and "getProviderDailyLimit cfg provider = Some (Some d) \<Longrightarrow> \<not> jgt (jadd (getProviderDailyTotal recent provider) amount) d"
  using assms by (auto simp: checkTransactionLimit_def refused_check_def Let_def num_def split: if_splits)

lemma daily_total_snoc: "daily_total (txs @ [tx]) = jadd (daily_total txs) (fst tx)"
  by (simp add: daily_total_def)

text \<open>
  C40. The daily limit of a user holds. With limits that passed the validation at start-up, when the
  transactions of a day are checked one after the other and the allowed ones are completed, the
  daily total, as the service computes it, never exceeds the limit of the user's level, and every
  completed amount is within the limits of a single transaction. Amounts are numbers other than NaN.
\<close>

theorem daily_limit_respected:
  assumes "validateLimits (TRANSACTION_LIMITS cfg) = Inr ()"
    and "validateAmountLimits (MIN_TRANSACTION_AMOUNT cfg) (MAX_TRANSACTION_AMOUNT cfg) = Inr ()"
    and "\<forall>tx \<in> set txs. fst tx \<noteq> NaN"
  shows "jle (daily_total (fold (complete_tx cfg level) txs [])) (limit_of (TRANSACTION_LIMITS cfg) level) \<and>
    (\<forall>tx \<in> set (fold (complete_tx cfg level) txs []).
       jle (MIN_TRANSACTION_AMOUNT cfg) (fst tx) \<and> jle (fst tx) (MAX_TRANSACTION_AMOUNT cfg))"
  using assms(3)
proof (induction txs rule: rev_induct)
  case Nil
  from assms(1) show ?case
    by (cases level; cases "limit_of (TRANSACTION_LIMITS cfg) level")
      (auto simp: daily_total_def validateLimits_def bad_limit_def split: if_splits)
next
  case (snoc tx txs)
  let ?r = "fold (complete_tx cfg level) txs []"
  show ?case
  proof (cases "allowed (checkTransactionLimit cfg level ?r (fst tx) (snd tx))")
    case True
    have t: "jle (daily_total ?r) (limit_of (TRANSACTION_LIMITS cfg) level)" using snoc by simp
    obtain lim where lim: "limit_of (TRANSACTION_LIMITS cfg) level = Fin lim"
      using assms(1) by (cases level; cases "limit_of (TRANSACTION_LIMITS cfg) level")
        (auto simp: validateLimits_def bad_limit_def split: if_splits)
    obtain mn mx where mm: "MIN_TRANSACTION_AMOUNT cfg = Fin mn" "MAX_TRANSACTION_AMOUNT cfg = Fin mx"
      using assms(2) by (cases "MIN_TRANSACTION_AMOUNT cfg"; cases "MAX_TRANSACTION_AMOUNT cfg")
        (auto simp: validateAmountLimits_def bad_limit_def split: if_splits)
    have nn: "fst tx \<noteq> NaN" using snoc.prems by simp
    note al = allowed_total [OF True]
    have amt: "jle (Fin mn) (fst tx)" "jle (fst tx) (Fin mx)"
      using al(2,3) nn mm by (cases "fst tx"; simp)+
    then obtain x where x: "fst tx = Fin x" by (cases "fst tx") auto
    have "jadd (daily_total ?r) (fst tx) \<noteq> NaN" using t lim x by (cases "daily_total ?r") auto
    with al(1) lim have "jle (jadd (daily_total ?r) (fst tx)) (Fin lim)" by (intro jle_linear) simp_all
    moreover have "fold (complete_tx cfg level) (txs @ [tx]) [] = ?r @ [tx]"
      using True by (simp add: complete_tx_def [of cfg level tx])
    ultimately show ?thesis using snoc amt mm lim by (simp only: daily_total_snoc) auto
  next
    case False
    with snoc show ?thesis by (simp add: complete_tx_def [of cfg level tx])
  qed
qed

definition sample_setup :: limits_setup where
  "sample_setup = \<lparr>TRANSACTION_LIMITS = \<lparr>unverified_limit = Fin 10000, basic_limit = Fin 100000, full_limit = Fin 1000000\<rparr>,
     MIN_TRANSACTION_AMOUNT = Fin 100, MAX_TRANSACTION_AMOUNT = Fin 1000000,
     PROVIDER_LIMITS = DEFAULT_PROVIDER_LIMITS\<rparr>"

definition sample_txs :: "completed_tx list" where
  "sample_txs = [(Fin 9000, Some ''MTN''), (Fin 2000, None), (Fin 1000, Some ''orange'')]"

theorem daily_limit_respected_witness:
  "jle (daily_total (fold (complete_tx sample_setup Unverified) sample_txs [])) (Fin 10000)"
proof -
  have "validateLimits (TRANSACTION_LIMITS sample_setup) = Inr ()"
    "validateAmountLimits (MIN_TRANSACTION_AMOUNT sample_setup) (MAX_TRANSACTION_AMOUNT sample_setup) = Inr ()"
    "\<forall>tx \<in> set sample_txs. fst tx \<noteq> NaN"
    by (simp_all add: sample_setup_def validateLimits_def validateAmountLimits_def bad_limit_def sample_txs_def)
  from daily_limit_respected [OF this, of Unverified] show ?thesis by (simp add: sample_setup_def)
qed

text \<open>
  A NaN amount passes every check. \<open>checkTransactionLimit\<close> only refuses what compares as too
  small or too large, so the amount NaN is allowed for every user, provider and configuration.
\<close>

theorem nan_amount_allowed: "allowed (checkTransactionLimit cfg level recent NaN provider)"
proof -
  have "jadd x NaN = NaN" for x by (cases x) simp_all
  moreover have "jlt x NaN = False" for x by (cases x) simp_all
  ultimately show ?thesis by (simp add: checkTransactionLimit_def Let_def)
qed

text \<open>
  An inherited property name is a valid provider. \<open>validateDepositAmount\<close> reads the limits of
  the provider with a plain property access; for the provider \<open>constructor\<close> it finds the inherited
  function, whose limits are undefined, and accepts every positive finite amount. For the three
  providers it accepts exactly the amounts of their range, whatever the case of the name.
\<close>

theorem deposit_amount_validation:
  "valid (validateDepositAmount tab (Some ''constructor'') (Fin x)) = (0 < x) \<and>
   (toLowerCase name = provider_key p \<and> tab p = provider_range (Fin mn) (Fin mx) d \<longrightarrow>
    valid (validateDepositAmount tab (Some name) (Fin x)) = (0 < x \<and> mn \<le> x \<and> x \<le> mx))"
proof
  show "valid (validateDepositAmount tab (Some ''constructor'') (Fin x)) = (0 < x)"
    by (simp add: validateDepositAmount_def lookup_limits_def inherited_names_def toLowerCase_def lower_char_def
        num_def Let_def not_le)
  show "toLowerCase name = provider_key p \<and> tab p = provider_range (Fin mn) (Fin mx) d \<longrightarrow>
    valid (validateDepositAmount tab (Some name) (Fin x)) = (0 < x \<and> mn \<le> x \<and> x \<le> mx)"
    by (cases p) (auto simp: validateDepositAmount_def lookup_limits_def provider_range_def num_def Let_def)
qed

lemma lower_mtn: "toLowerCase ''MTN'' = ''mtn''"
  by code_simp

theorem deposit_amount_validation_witness:
  "valid (validateDepositAmount DEFAULT_PROVIDER_LIMITS (Some ''MTN'') (Fin 500)) \<and>
   valid (validateDepositAmount DEFAULT_PROVIDER_LIMITS (Some ''constructor'') (Fin 900000000))"
  using deposit_amount_validation [of DEFAULT_PROVIDER_LIMITS 500 "''MTN''" MTN 100 500000 "Fin 500000"]
    deposit_amount_validation [of DEFAULT_PROVIDER_LIMITS 900000000]
  by (simp add: DEFAULT_PROVIDER_LIMITS_def lower_mtn)

end
