(* ===== verification/Window_Limit.thy ===== *)
theory Window_Limit
  imports Prelude "HOL-Library.Multiset"
begin

text \<open>
  The contract of a sliding-window rate limiter, and what follows from it.

  A limiter decides on a call of a key at a time. Its laws speak of the admitted times of a key that it
  still counts at a moment (\<open>live\<close>): they fade as the window moves on, a call adds its time exactly when it
  is admitted, and it is admitted only below the limit. \<open>fine\<close> is what a limiter needs of its input,
  \<open>inv\<close> the invariant of its state at a time. The limiter of asset creation and the limiter of the HTTP
  routes, on Redis, both keep this contract.
\<close>

definition times_of :: "'k \<Rightarrow> ('k \<times> int) list \<Rightarrow> int list" where
  "times_of key admitted = map snd (filter (\<lambda>p. fst p = key) admitted)"

lemma times_of_append [simp]: "times_of key (xs @ ys) = times_of key xs @ times_of key ys"
  by (simp add: times_of_def)

lemma times_of_Nil [simp]: "times_of key [] = []"
  by (simp add: times_of_def)

lemma times_of_single [simp]: "times_of key [(k, t)] = (if k = key then [t] else [])"
  by (simp add: times_of_def)

locale window_guard =
  fixes guard :: "'k \<Rightarrow> 'i \<Rightarrow> int \<Rightarrow> 's \<Rightarrow> bool \<times> 's"
    and live :: "int \<Rightarrow> 's \<Rightarrow> 'k \<Rightarrow> int list"
    and fine :: "'k \<Rightarrow> 'i \<Rightarrow> int \<Rightarrow> 's \<Rightarrow> bool"
    and inv :: "int \<Rightarrow> 's \<Rightarrow> bool"
    and limit :: int
    and window :: int
  assumes window_pos: "0 < window"
    and inv_later: "inv t s \<Longrightarrow> t \<le> u \<Longrightarrow> inv u s"
    and inv_guard: "inv now s \<Longrightarrow> fine k i now s \<Longrightarrow> inv now (snd (guard k i now s))"
    and live_later: "inv t s \<Longrightarrow> t \<le> u \<Longrightarrow> mset (live u s k) = filter_mset (\<lambda>x. u - window < x) (mset (live t s k))"
    and live_guard: "inv now s \<Longrightarrow> fine k i now s \<Longrightarrow>
      mset (live now (snd (guard k i now s)) j) = mset (live now s j) + (if j = k \<and> fst (guard k i now s) then {#now#} else {#})"
    and below_limit: "inv now s \<Longrightarrow> fine k i now s \<Longrightarrow> fst (guard k i now s) \<Longrightarrow> int (length (live now s k)) < limit"
begin

text \<open>The calls of a run, the admitted ones, and that the input of every call is fine.\<close>

fun run_guard :: "('k \<times> 'i \<times> int) list \<Rightarrow> 's \<Rightarrow> ('k \<times> int) list \<times> 's" where
  "run_guard [] s = ([], s)"
| "run_guard ((k, i, now) # calls) s =
     (let (a, s1) = guard k i now s; (admitted, s2) = run_guard calls s1
      in ((if a then [(k, now)] else []) @ admitted, s2))"

fun fine_run :: "('k \<times> 'i \<times> int) list \<Rightarrow> 's \<Rightarrow> bool" where
  "fine_run [] s \<longleftrightarrow> True"
| "fine_run ((k, i, now) # calls) s \<longleftrightarrow> fine k i now s \<and> fine_run calls (snd (guard k i now s))"

text \<open>What is known of the admitted calls so far, at a time not before any of them.\<close>

definition history_ok :: "int \<Rightarrow> ('k \<times> int) list \<Rightarrow> 's \<Rightarrow> bool" where
  "history_ok t admitted s \<longleftrightarrow> inv t s \<and>
     (\<forall>k. mset (live t s k) = filter_mset (\<lambda>x. t - window < x) (mset (times_of k admitted)) \<and>
       (\<forall>x \<in> set (times_of k admitted). x \<le> t) \<and>
       (\<forall>u. int (length (filter (\<lambda>x. u - window < x \<and> x \<le> u) (times_of k admitted))) \<le> max 0 limit))"

lemma history_later:
  assumes "history_ok t admitted s" and "t \<le> u"
  shows "history_ok u admitted s"
proof -
  have "mset (live u s k) = filter_mset (\<lambda>x. u - window < x) (mset (times_of k admitted))" for k
  proof -
    have "mset (live u s k) = filter_mset (\<lambda>x. u - window < x) (filter_mset (\<lambda>x. t - window < x) (mset (times_of k admitted)))"
      using assms live_later [of t s u k] by (simp add: history_ok_def)
    also have "\<dots> = filter_mset (\<lambda>x. u - window < x) (mset (times_of k admitted))"
      using assms(2) by (auto simp: filter_filter_mset intro!: filter_mset_cong)
    finally show ?thesis .
  qed
  then show ?thesis using assms inv_later unfolding history_ok_def by (meson order_trans)
qed

lemma count_live:
  assumes "history_ok t admitted s"
  shows "length (filter (\<lambda>x. t - window < x) (times_of k admitted)) = length (live t s k)"
proof -
  have "mset (filter (\<lambda>x. t - window < x) (times_of k admitted)) = mset (live t s k)"
    using assms by (simp add: history_ok_def)
  then show ?thesis by (rule mset_eq_length)
qed

lemma history_guard:
  assumes h: "history_ok now admitted s" and fine: "fine k i now s"
  shows "history_ok now (admitted @ (if fst (guard k i now s) then [(k, now)] else [])) (snd (guard k i now s))"
proof (cases "fst (guard k i now s)")
  case False
  have i: "inv now s" using h by (simp add: history_ok_def)
  from h False live_guard [OF i fine] inv_guard [OF i fine] show ?thesis by (simp add: history_ok_def)
next
  case True
  have i: "inv now s" using h by (simp add: history_ok_def)
  have count: "int (length (filter (\<lambda>x. u - window < x \<and> x \<le> u) (times_of k admitted @ [now]))) \<le> max 0 limit" for u
  proof (cases "now \<le> u")
    case True
    have "filter (\<lambda>x. u - window < x \<and> x \<le> u) (times_of k admitted) =
        filter (\<lambda>x. u - window < x \<and> x \<le> u) (filter (\<lambda>x. now - window < x) (times_of k admitted))"
      using True by (auto simp: filter_filter intro!: filter_cong)
    then have "length (filter (\<lambda>x. u - window < x \<and> x \<le> u) (times_of k admitted)) \<le> length (live now s k)"
      using count_live [OF h, of k] length_filter_le by metis
    with below_limit [OF i fine \<open>fst (guard k i now s)\<close>] show ?thesis by simp
  next
    case False
    then show ?thesis using h by (simp add: history_ok_def)
  qed
  have "mset (live now (snd (guard k i now s)) j) =
      filter_mset (\<lambda>x. now - window < x) (mset (times_of j (admitted @ [(k, now)])))" for j
    using live_guard [OF i fine, of j] h True window_pos by (simp add: history_ok_def)
  moreover have "\<forall>x \<in> set (times_of j (admitted @ [(k, now)])). x \<le> now" for j using h by (auto simp: history_ok_def)
  moreover have "int (length (filter (\<lambda>x. u - window < x \<and> x \<le> u) (times_of j (admitted @ [(k, now)])))) \<le> max 0 limit" for j u
    using count [of u] h by (cases "j = k") (simp_all add: history_ok_def)
  ultimately show ?thesis using True inv_guard [OF i fine] unfolding history_ok_def by simp
qed

lemma run_history:
  assumes "history_ok t admitted s" and "sorted (t # map (\<lambda>c. snd (snd c)) calls)" and "fine_run calls s"
  shows "\<exists>u. history_ok u (admitted @ fst (run_guard calls s)) (snd (run_guard calls s))"
  using assms
proof (induction calls s arbitrary: t admitted rule: run_guard.induct)
  case (1 s)
  then show ?case by auto
next
  case (2 k i now calls s)
  have "t \<le> now" using "2.prems"(2) by simp
  then have h: "history_ok now admitted s" using history_later "2.prems"(1) by blast
  have f: "fine k i now s" "fine_run calls (snd (guard k i now s))" using "2.prems"(3) by auto
  obtain a s1 where g: "guard k i now s = (a, s1)" by force
  have "history_ok now (admitted @ (if a then [(k, now)] else [])) s1" using history_guard [OF h f(1)] g by simp
  from "2.IH" [OF g [symmetric] refl this] "2.prems"(2) f(2) g show ?case by (auto split: prod.splits)
qed

text \<open>In every window, at any position in time, at most \<open>limit\<close> calls of a key are admitted.\<close>

lemma window_bound:
  assumes "sorted (map (\<lambda>c. snd (snd c)) calls)" and "fine_run calls s"
    and "\<And>t. inv t s" and "\<And>t k. live t s k = []"
  shows "int (length (filter (\<lambda>x. u - window < x \<and> x \<le> u) (times_of k (fst (run_guard calls s))))) \<le> max 0 limit"
proof -
  define t where "t = (case calls of [] \<Rightarrow> 0 | c # _ \<Rightarrow> snd (snd c))"
  have "history_ok t [] s" using assms(3,4) by (simp add: history_ok_def)
  moreover have "sorted (t # map (\<lambda>c. snd (snd c)) calls)" using assms(1) by (cases calls) (auto simp: t_def)
  ultimately obtain v where "history_ok v (fst (run_guard calls s)) (snd (run_guard calls s))"
    using run_history [of t "[]" s calls] assms(2) by auto
  then show ?thesis by (simp add: history_ok_def)
qed

end

end
