(* ===== verification/Asset_Workflow.thy ===== *)
theory Asset_Workflow
  imports Js_Value Window_Limit
begin

text \<open>
  \<open>src/src/services/assetWorkflowValidation.ts\<close>: the validation of asset issuance requests and the
  sliding-window rate limiter of asset creation.

  \<open>StrKey.isValidEd25519PublicKey\<close> of the Stellar SDK is the parameter \<open>valid_key\<close>. The environment
  variables are fields of \<open>asset_env\<close>. Error and warning texts are constructors. The limiter keeps
  one list of time stamps per requester in a JavaScript map; the clock reading is an argument.
\<close>

subsection \<open>Requests\<close>

record asset_env =
  ASSET_ISSUER_WHITELIST :: "string option"
  ASSET_ISSUER_WHITELIST_ENFORCED :: "string option"
  NODE_ENV :: "string option"
  STELLAR_NETWORK :: "string option"

record asset_input =
  assetCode :: string
  asset_name :: string
  limit :: string
  issuerPublicKey :: "string option"
  distributionAccount :: "string option"
  asset_description :: "string option"

datatype asset_error =
  CodeRequired
| CodeNotAlphanumeric
| CodeLength
| CodeReserved
| NameRequired
| NameTooLong
| NameControlCharacters
| LimitNotPositive
| LimitTooHigh
| IssuerInvalid
| IssuerNotApproved
| DistributionInvalid
| DistributionIsIssuer
| DescriptionTooLong

datatype asset_warning =
  LimitVeryHigh
| LimitDecimals
| IssuerNotListed
| NoIssuer

record asset_validation =
  isValid :: bool
  errors :: "asset_error list"
  warnings :: "asset_warning list"

definition ASSET_CODE_MIN_LENGTH :: nat where
  "ASSET_CODE_MIN_LENGTH = 3"

definition ASSET_CODE_MAX_LENGTH :: nat where
  "ASSET_CODE_MAX_LENGTH = 12"

definition is_alnum :: "char \<Rightarrow> bool" where
  "is_alnum c = (let n = of_char c :: nat in (48 \<le> n \<and> n \<le> 57) \<or> (65 \<le> n \<and> n \<le> 90) \<or> (97 \<le> n \<and> n \<le> 122))"

definition upper_char :: "char \<Rightarrow> char" where
  "upper_char c = (let n = of_char c :: nat in if 97 \<le> n \<and> n \<le> 122 then char_of (n - 32) else c)"

text \<open>\<open>/^[A-Za-z0-9]+$/\<close>.\<close>

definition ASSET_CODE_PATTERN :: "string \<Rightarrow> bool" where
  "ASSET_CODE_PATTERN s = (s \<noteq> [] \<and> list_all is_alnum s)"

definition RESERVED_ASSET_CODES :: "string list" where
  "RESERVED_ASSET_CODES = [''XLM'']"

definition isValidAssetCode :: "string \<Rightarrow> bool" where
  "isValidAssetCode s = (ASSET_CODE_MIN_LENGTH \<le> length s \<and> length s \<le> ASSET_CODE_MAX_LENGTH \<and> ASSET_CODE_PATTERN s)"

definition getApprovedIssuers :: "asset_env \<Rightarrow> string list" where
  "getApprovedIssuers env =
     filter (\<lambda>v. length v > 0)
       (map trim (split_on (CHR '','') [] (case ASSET_ISSUER_WHITELIST env of None \<Rightarrow> [] | Some w \<Rightarrow> w)))"

definition isIssuerWhitelistEnforced :: "asset_env \<Rightarrow> bool" where
  "isIssuerWhitelistEnforced env =
     (if ASSET_ISSUER_WHITELIST_ENFORCED env = Some ''true'' then True
      else if ASSET_ISSUER_WHITELIST_ENFORCED env = Some ''false'' then False
      else NODE_ENV env = Some ''production'' \<or> STELLAR_NETWORK env = Some ''mainnet'')"

definition isIssuerApproved :: "string \<Rightarrow> string list \<Rightarrow> bool" where
  "isIssuerApproved issuer approved = (issuer \<in> set approved)"

text \<open>
  \<open>/^\d+(\.\d+)?$/\<close> on the trimmed text: the digits before and after the point, if it matches. The
  number of such a text is the double nearest to its decimal value.
\<close>

definition decimal_parts :: "string \<Rightarrow> (string \<times> string) option" where
  "decimal_parts s =
     (let t = trim s; whole = takeWhile is_digit t; rest = dropWhile is_digit t
      in if whole = [] then None
         else if rest = [] then Some (whole, [])
         else if hd rest = CHR ''.'' \<and> tl rest \<noteq> [] \<and> list_all is_digit (tl rest) then Some (whole, tl rest)
         else None)"

definition decimal_number :: "string \<times> string \<Rightarrow> js_num" where
  "decimal_number p = of_exact (of_int (digits_value (fst p @ snd p)) / 10 ^ length (snd p))"

definition isPositiveDecimal :: "string \<Rightarrow> bool" where
  "isPositiveDecimal s = (case decimal_parts s of None \<Rightarrow> False | Some p \<Rightarrow> jgt (decimal_number p) (Fin 0))"

definition code_errors :: "string \<Rightarrow> asset_error list" where
  "code_errors c =
     (if c = [] then [CodeRequired]
      else if \<not> ASSET_CODE_PATTERN c then [CodeNotAlphanumeric]
      else if length c < ASSET_CODE_MIN_LENGTH \<or> length c > ASSET_CODE_MAX_LENGTH then [CodeLength]
      else if map upper_char c \<in> set RESERVED_ASSET_CODES then [CodeReserved] else [])"

definition name_errors :: "string \<Rightarrow> asset_error list" where
  "name_errors n =
     (let t = trim n in
      if t = [] then [NameRequired]
      else if length t > 100 then [NameTooLong]
      else if list_ex (\<lambda>c. (of_char c :: nat) < 32 \<or> (of_char c :: nat) = 127) t then [NameControlCharacters] else [])"

definition limit_findings :: "string \<Rightarrow> asset_error list \<times> asset_warning list" where
  "limit_findings s =
     (if \<not> isPositiveDecimal s then ([LimitNotPositive], [])
      else let p = the (decimal_parts s); v = decimal_number p;
               decimals = (if length (snd p) \<ge> 8 then [LimitDecimals] else [])
           in if jgt v (Fin 1000000000000) then ([LimitTooHigh], decimals)
              else if jgt v (Fin 1000000000) then ([], LimitVeryHigh # decimals)
              else ([], decimals))"

definition issuer_findings ::
  "(string \<Rightarrow> bool) \<Rightarrow> asset_env \<Rightarrow> string option \<Rightarrow> asset_error list \<times> asset_warning list" where
  "issuer_findings valid_key env issuer =
     (if truthy_string issuer then
        if \<not> valid_key (the issuer) then ([IssuerInvalid], [])
        else if \<not> isIssuerApproved (the issuer) (getApprovedIssuers env) then
          if isIssuerWhitelistEnforced env then ([IssuerNotApproved], []) else ([], [IssuerNotListed])
        else ([], [])
      else if isIssuerWhitelistEnforced env then ([], [NoIssuer]) else ([], []))"

definition distribution_errors :: "(string \<Rightarrow> bool) \<Rightarrow> string option \<Rightarrow> string option \<Rightarrow> asset_error list" where
  "distribution_errors valid_key issuer distribution =
     (if truthy_string distribution then
        (if \<not> valid_key (the distribution) then [DistributionInvalid] else []) @
        (if truthy_string issuer \<and> distribution = issuer then [DistributionIsIssuer] else [])
      else [])"

definition validateAssetConfiguration :: "(string \<Rightarrow> bool) \<Rightarrow> asset_env \<Rightarrow> asset_input \<Rightarrow> asset_validation" where
  "validateAssetConfiguration valid_key env input =
     (let (limit_errs, limit_warns) = limit_findings (limit input);
          (issuer_errs, issuer_warns) = issuer_findings valid_key env (issuerPublicKey input);
          errs = code_errors (assetCode input) @ name_errors (asset_name input) @ limit_errs @ issuer_errs @
            distribution_errors valid_key (issuerPublicKey input) (distributionAccount input) @
            (case asset_description input of Some d \<Rightarrow> if length d > 2000 then [DescriptionTooLong] else [] | None \<Rightarrow> [])
      in \<lparr>isValid = (length errs = 0), errors = errs, warnings = limit_warns @ issuer_warns\<rparr>)"

subsection \<open>The rate limiter\<close>

record rate_limiter =
  maxRequests :: int
  windowMs :: int
  hits :: "(string, int list) js_map"

record rate_limit_result =
  allowed :: bool
  remaining :: int
  retryAfterMs :: js_num

definition env_or :: "string option \<Rightarrow> int \<Rightarrow> int" where
  "env_or v d =
     (case parse_int (case v of None \<Rightarrow> [] | Some s \<Rightarrow> s) of Fin x \<Rightarrow> if x > 0 then \<lfloor>x\<rfloor> else d | _ \<Rightarrow> d)"

definition new_limiter :: "int option \<Rightarrow> int option \<Rightarrow> string option \<Rightarrow> string option \<Rightarrow> rate_limiter" where
  "new_limiter maxOpt winOpt envMax envWindow =
     \<lparr>maxRequests = (case maxOpt of Some m \<Rightarrow> m | None \<Rightarrow> env_or envMax 5),
      windowMs = (case winOpt of Some w \<Rightarrow> w | None \<Rightarrow> env_or envWindow 60000), hits = []\<rparr>"

definition hits_of :: "rate_limiter \<Rightarrow> string \<Rightarrow> int list" where
  "hits_of l key = (case map_get (hits l) key of None \<Rightarrow> [] | Some ts \<Rightarrow> ts)"

definition consume :: "string \<Rightarrow> int \<Rightarrow> rate_limiter \<Rightarrow> rate_limit_result \<times> rate_limiter" where
  "consume key now l =
     (let windowStart = now - windowMs l;
          recent = filter (\<lambda>t. t > windowStart) (hits_of l key)
      in if int (length recent) \<ge> maxRequests l
         then (\<lparr>allowed = False, remaining = 0,
                retryAfterMs = (if recent = [] then NaN else Fin (of_int (max (recent ! 0 + windowMs l - now) 0)))\<rparr>,
               l\<lparr>hits := map_set key recent (hits l)\<rparr>)
         else (\<lparr>allowed = True, remaining = maxRequests l - int (length (recent @ [now])), retryAfterMs = Fin 0\<rparr>,
               l\<lparr>hits := map_set key (recent @ [now]) (hits l)\<rparr>))"

definition reset_limiter :: "string option \<Rightarrow> rate_limiter \<Rightarrow> rate_limiter" where
  "reset_limiter key l =
     (if truthy_string key then l\<lparr>hits := map_delete (the key) (hits l)\<rparr> else l\<lparr>hits := []\<rparr>)"

subsection \<open>Runs of the limiter\<close>

text \<open>The calls of a run with their times, and the calls that were allowed.\<close>

fun run_limiter :: "(string \<times> int) list \<Rightarrow> rate_limiter \<Rightarrow> (string \<times> int) list \<times> rate_limiter" where
  "run_limiter [] l = ([], l)"
| "run_limiter ((key, now) # calls) l =
     (let (r, l1) = consume key now l; (done_calls, l2) = run_limiter calls l1
      in ((if allowed r then [(key, now)] else []) @ done_calls, l2))"

text \<open>The limiter keeps the contract of a sliding window.\<close>

definition asset_guard :: "string \<Rightarrow> unit \<Rightarrow> int \<Rightarrow> rate_limiter \<Rightarrow> bool \<times> rate_limiter" where
  "asset_guard key u now l = (allowed (fst (consume key now l)), snd (consume key now l))"

definition asset_live :: "int \<Rightarrow> rate_limiter \<Rightarrow> string \<Rightarrow> int list" where
  "asset_live now l key = filter (\<lambda>t. now - windowMs l < t) (hits_of l key)"

definition asset_inv :: "int \<Rightarrow> int \<Rightarrow> int \<Rightarrow> rate_limiter \<Rightarrow> bool" where
  "asset_inv m w now l \<longleftrightarrow> maxRequests l = m \<and> windowMs l = w"

lemma hits_of_set: "hits_of (l\<lparr>hits := map_set key ts (hits l)\<rparr>) k = (if k = key then ts else hits_of l k)"
  by (simp add: hits_of_def map_get_set)

lemma asset_window:
  assumes "0 < w"
  shows "window_guard asset_guard asset_live (\<lambda>key u now l. True) (asset_inv m w) m w"
proof
  fix t u :: int and s k
  assume "asset_inv m w t s" "t \<le> u"
  then show "mset (asset_live u s k) = filter_mset (\<lambda>x. u - w < x) (mset (asset_live t s k))"
    by (auto simp: asset_live_def asset_inv_def filter_filter_mset intro!: filter_mset_cong)
next
  fix now s k i j
  assume "asset_inv m w now s"
  then show "mset (asset_live now (snd (asset_guard k i now s)) j) =
      mset (asset_live now s j) + (if j = k \<and> fst (asset_guard k i now s) then {#now#} else {#})"
    using assms by (auto simp: asset_live_def asset_guard_def asset_inv_def consume_def Let_def hits_of_set filter_filter_mset)
qed (use assms in \<open>auto simp: asset_inv_def asset_guard_def asset_live_def consume_def Let_def split: if_splits\<close>)

interpretation asset_limiter: window_guard asset_guard asset_live "\<lambda>key u now l. True" "asset_inv 5 60000" 5 60000
  by (rule asset_window) simp

lemma asset_guard_consume: "consume key now l = (r, l1) \<Longrightarrow> asset_guard key u now l = (allowed r, l1)"
  by (simp add: asset_guard_def)

lemma run_limiter_guard: "asset_limiter.run_guard (map (\<lambda>(key, now). (key, (), now)) calls) l = run_limiter calls l"
  by (induction calls l rule: run_limiter.induct) (auto simp: asset_guard_consume Let_def split: prod.splits)

lemma always_fine: "asset_limiter.fine_run calls l"
  by (induction calls arbitrary: l) auto

subsection \<open>Properties\<close>

text \<open>
  The rate limit holds in every window. Whatever calls the requesters make at whatever
  (non-decreasing) times, in every window of length \<open>windowMs\<close>, at any position in time, at most
  \<open>maxRequests\<close> calls of one requester are allowed.
\<close>

theorem sliding_window_limit:
  assumes "sorted (map snd calls)" and "0 < w"
  shows "int (length (filter (\<lambda>x. t - w < x \<and> x \<le> t)
      (times_of key (fst (run_limiter calls (new_limiter (Some m) (Some w) e1 e2)))))) \<le> max 0 m"
proof -
  let ?l = "new_limiter (Some m) (Some w) e1 e2"
  have "int (length (filter (\<lambda>x. t - w < x \<and> x \<le> t)
      (times_of key (fst (asset_limiter.run_guard (map (\<lambda>(key, now). (key, (), now)) calls) ?l))))) \<le> max 0 m"
    using assms(1) always_fine
    by (intro window_guard.window_bound [OF asset_window [OF assms(2)]])
      (auto simp: asset_inv_def asset_live_def new_limiter_def hits_of_def comp_def case_prod_unfold)
  then show ?thesis by (simp add: run_limiter_guard)
qed

theorem sliding_window_limit_witness:
  "length (filter (\<lambda>x. (1000 :: int) - 60000 < x \<and> x \<le> 1000)
      (times_of ''a'' (fst (run_limiter [(''a'', 1), (''b'', 2), (''a'', 3), (''a'', 70000)]
        (new_limiter (Some 1) (Some 60000) None None))))) \<le> 1"
  using sliding_window_limit [of "[(''a'', 1), (''b'', 2), (''a'', 3), (''a'', 70000)]" 60000 1000 "''a''" 1 None None]
  by simp

text \<open>
  A refused call may be retried when the limiter says so: after \<open>retryAfterMs\<close>, with no other
  call of the requester in between, the next call is allowed, and not a millisecond earlier.
\<close>

theorem retry_after_is_exact:
  assumes "sorted (hits_of l key)" and "0 < maxRequests l" and "0 < windowMs l"
    and "int (length (filter (\<lambda>t. t > now - windowMs l) (hits_of l key))) = maxRequests l"
    and "\<forall>t \<in> set (hits_of l key). t \<le> now"
  shows "\<exists>wait > 0. retryAfterMs (fst (consume key now l)) = Fin (of_int wait) \<and> \<not> allowed (fst (consume key now l)) \<and>
    allowed (fst (consume key (now + wait) (snd (consume key now l)))) \<and>
    \<not> allowed (fst (consume key (now + wait - 1) (snd (consume key now l))))"
proof -
  let ?w = "windowMs l"
  define recent where "recent = filter (\<lambda>t. t > now - ?w) (hits_of l key)"
  have len: "int (length recent) = maxRequests l" using assms(4) by (simp add: recent_def)
  then have ne: "recent \<noteq> []" using assms(2) by auto
  then obtain r0 rs where rec: "recent = r0 # rs" by (cases recent) auto
  have r0: "now - ?w < r0" using rec filter_eq_ConsD [of "\<lambda>t. t > now - ?w" "hits_of l key" r0 rs]
    by (auto simp: recent_def)
  have srt: "sorted recent" using assms(1) by (simp add: recent_def sorted_wrt_filter)
  define wait where "wait = r0 + ?w - now"
  have c: "fst (consume key now l) = \<lparr>allowed = False, remaining = 0, retryAfterMs = Fin (of_int wait)\<rparr>"
    "hits_of (snd (consume key now l)) key = recent" "maxRequests (snd (consume key now l)) = maxRequests l"
    "windowMs (snd (consume key now l)) = ?w"
    using len r0 by (simp_all add: consume_def Let_def recent_def [symmetric] rec wait_def hits_of_set)
  have "length (filter (\<lambda>t. r0 < t) recent) \<le> length rs" by (simp add: rec)
  moreover have "int (length recent) = int (length rs) + 1" by (simp add: rec)
  ultimately have "int (length (filter (\<lambda>t. r0 < t) recent)) < maxRequests l" using len by linarith
  moreover have "filter (\<lambda>t. r0 - 1 < t) recent = recent" using srt by (auto simp: rec intro!: filter_True)
  ultimately have "allowed (fst (consume key (now + wait) (snd (consume key now l))))"
    and "\<not> allowed (fst (consume key (now + wait - 1) (snd (consume key now l))))"
    unfolding consume_def [of key "now + wait"] consume_def [of key "now + wait - 1"] Let_def c
    using len by (simp_all add: wait_def)
  with c r0 show ?thesis by (intro exI [of _ wait]) (simp add: wait_def)
qed

theorem retry_after_is_exact_witness:
  "\<exists>wait > 0. retryAfterMs (fst (consume ''a'' 50 \<lparr>maxRequests = 2, windowMs = 100, hits = [(''a'', [10, 20])]\<rparr>)) = Fin (of_int wait)"
  using retry_after_is_exact [of "\<lparr>maxRequests = 2, windowMs = 100, hits = [(''a'', [10, 20])]\<rparr>" "''a''" 50]
  by (auto simp: hits_of_def map_get_def)

text \<open>
  A request that passes the validation is sound: its code has 3 to 12 alphanumeric characters
  and is not the native asset in any letter case, its limit is a positive number of at most \<open>10 ^ 12\<close>,
  an issuer is a valid key and, when the whitelist is enforced, on it, and the distribution account
  is a valid key other than the issuer.
\<close>

theorem valid_asset_sound:
  assumes "isValid (validateAssetConfiguration valid_key env input)"
  shows "isValidAssetCode (assetCode input) \<and> map upper_char (assetCode input) \<noteq> ''XLM'' \<and>
    (\<exists>p. decimal_parts (limit input) = Some p \<and> jgt (decimal_number p) (Fin 0) \<and>
      \<not> jgt (decimal_number p) (Fin 1000000000000)) \<and>
    (truthy_string (issuerPublicKey input) \<longrightarrow> valid_key (the (issuerPublicKey input)) \<and>
      (isIssuerWhitelistEnforced env \<longrightarrow> the (issuerPublicKey input) \<in> set (getApprovedIssuers env))) \<and>
    (truthy_string (distributionAccount input) \<longrightarrow> valid_key (the (distributionAccount input)) \<and>
      (truthy_string (issuerPublicKey input) \<longrightarrow> distributionAccount input \<noteq> issuerPublicKey input))"
proof -
  have e: "code_errors (assetCode input) = []" "fst (limit_findings (limit input)) = []"
    "fst (issuer_findings valid_key env (issuerPublicKey input)) = []"
    "distribution_errors valid_key (issuerPublicKey input) (distributionAccount input) = []"
    using assms by (auto simp: validateAssetConfiguration_def Let_def split: prod.splits)
  have "isValidAssetCode (assetCode input) \<and> map upper_char (assetCode input) \<noteq> ''XLM''"
    using e(1) by (auto simp: code_errors_def isValidAssetCode_def RESERVED_ASSET_CODES_def split: if_splits)
  moreover have "\<exists>p. decimal_parts (limit input) = Some p \<and> jgt (decimal_number p) (Fin 0) \<and>
      \<not> jgt (decimal_number p) (Fin 1000000000000)"
    using e(2) by (auto simp: limit_findings_def isPositiveDecimal_def Let_def split: if_splits option.splits)
  moreover have "truthy_string (issuerPublicKey input) \<longrightarrow> valid_key (the (issuerPublicKey input)) \<and>
      (isIssuerWhitelistEnforced env \<longrightarrow> the (issuerPublicKey input) \<in> set (getApprovedIssuers env))"
    using e(3) by (auto simp: issuer_findings_def isIssuerApproved_def split: if_splits)
  moreover have "truthy_string (distributionAccount input) \<longrightarrow> valid_key (the (distributionAccount input)) \<and>
      (truthy_string (issuerPublicKey input) \<longrightarrow> distributionAccount input \<noteq> issuerPublicKey input)"
    using e(4) by (auto simp: distribution_errors_def split: if_splits)
  ultimately show ?thesis by (intro conjI; simp)
qed

definition sample_asset :: asset_input where
  "sample_asset = \<lparr>assetCode = ''USD'', asset_name = ''Dollar'', limit = ''5'', issuerPublicKey = Some ''GA'',
     distributionAccount = Some ''GB'', asset_description = None\<rparr>"

definition sample_env :: asset_env where
  "sample_env = \<lparr>ASSET_ISSUER_WHITELIST = Some ''GA'', ASSET_ISSUER_WHITELIST_ENFORCED = Some ''true'',
     NODE_ENV = None, STELLAR_NETWORK = None\<rparr>"

lemma sample_asset_valid: "isValid (validateAssetConfiguration (\<lambda>k. True) sample_env sample_asset)"
proof -
  have p: "decimal_parts ''5'' = Some (''5'', [])"
    by (simp add: decimal_parts_def trim_def is_space_def is_digit_def Let_def)
  have d: "decimal_number (''5'', []) = Fin 5"
    using of_exact_int [of 5] by (simp add: decimal_number_def digits_value_def)
  have "trim ''GA'' = ''GA''" "trim ''Dollar'' = ''Dollar''" by (simp_all add: trim_def is_space_def)
  with p d show ?thesis
    by (simp add: validateAssetConfiguration_def sample_asset_def sample_env_def limit_findings_def isPositiveDecimal_def
        issuer_findings_def isIssuerApproved_def getApprovedIssuers_def code_errors_def name_errors_def
        distribution_errors_def ASSET_CODE_PATTERN_def is_alnum_def ASSET_CODE_MIN_LENGTH_def
        ASSET_CODE_MAX_LENGTH_def RESERVED_ASSET_CODES_def upper_char_def)
qed

theorem valid_asset_sound_witness:
  "isValidAssetCode ''USD'' \<and> ''GA'' \<in> set (getApprovedIssuers sample_env)"
  using valid_asset_sound [OF sample_asset_valid]
  by (simp add: sample_asset_def isIssuerWhitelistEnforced_def) (simp add: sample_env_def)

end
