(* ===== verification/Vip_Fees.thy ===== *)
theory Vip_Fees
  imports Js_Value
begin

text \<open>
  \<open>src/src/utils/fees.ts\<close> and the fee calculation of \<open>src/src/services/feeService.ts\<close>: the fee of the
  active configuration with the fallback to the environment variables, and the discounted fee of a
  merchant tier.

  The rows of \<open>fee_configurations\<close> hold DECIMAL columns, which the database driver delivers as
  strings (no type parser is installed); \<open>feeService\<close> passes them on as they are. A number of a
  configuration is therefore a JavaScript number or the text of a decimal, \<open>Text v\<close> for the value
  \<open>v\<close>: arithmetic and comparison convert the text, an assignment keeps it. The results of the cache
  and of the queries are parameters.
\<close>

subsection \<open>Data\<close>

datatype dyn_num = Number js_num | Text rat

fun to_number :: "dyn_num \<Rightarrow> js_num" where
  "to_number (Number v) = v"
| "to_number (Text v) = of_exact v"

record fee_configuration =
  config_name :: string
  feePercentage :: dyn_num
  feeMinimum :: dyn_num
  feeMaximum :: dyn_num

record fee_amounts =
  fee :: js_num
  total :: js_num
  configUsed :: string

datatype merchant_tier = BRONZE | SILVER | GOLD

record tier_config =
  tier :: merchant_tier
  minVolume :: js_num
  discountPercent :: js_num

record vip_fee =
  vip_amounts :: fee_amounts
  vip_tier :: merchant_tier
  vip_discount :: js_num
  thirtyDayVolume :: js_num

datatype fee_error =
  NoActiveConfiguration
| TypeError

record fee_env =
  FEE_PERCENTAGE :: js_num
  FEE_MINIMUM :: js_num
  FEE_MAXIMUM :: js_num

definition default_env :: fee_env where
  "default_env = \<lparr>FEE_PERCENTAGE = Fin (3 / 2), FEE_MINIMUM = Fin 50, FEE_MAXIMUM = Fin 5000\<rparr>"

definition MERCHANT_TIERS :: "tier_config list" where
  "MERCHANT_TIERS =
     [\<lparr>tier = GOLD, minVolume = Fin 5000, discountPercent = Fin 20\<rparr>,
      \<lparr>tier = SILVER, minVolume = Fin 1000, discountPercent = Fin 10\<rparr>,
      \<lparr>tier = BRONZE, minVolume = Fin 0, discountPercent = Fin 0\<rparr>]"

subsection \<open>The fee service\<close>

text \<open>The cached configuration, if any, else the first row of the query, if any.\<close>

definition getActiveConfiguration ::
  "fee_configuration option \<Rightarrow> fee_configuration list \<Rightarrow> fee_error + fee_configuration" where
  "getActiveConfiguration cached rows =
     (case cached of
        Some c \<Rightarrow> Inr c
      | None \<Rightarrow> (case rows of [] \<Rightarrow> Inl NoActiveConfiguration | config # _ \<Rightarrow> Inr config))"

definition clamp_dyn :: "dyn_num \<Rightarrow> dyn_num \<Rightarrow> dyn_num \<Rightarrow> dyn_num" where
  "clamp_dyn f mn mx =
     (let f1 = (if jlt (to_number f) (to_number mn) then mn else f)
      in if jgt (to_number f1) (to_number mx) then mx else f1)"

text \<open>A string has no method \<open>toFixed\<close>.\<close>

fun toFixed2 :: "dyn_num \<Rightarrow> fee_error + js_num" where
  "toFixed2 (Number v) = Inr (to_fixed 2 v)"
| "toFixed2 (Text v) = Inl TypeError"

definition service_calculateFee ::
  "fee_configuration option \<Rightarrow> fee_configuration list \<Rightarrow> js_num \<Rightarrow> fee_error + fee_amounts" where
  "service_calculateFee cached rows amount =
     (case getActiveConfiguration cached rows of
        Inl e \<Rightarrow> Inl e
      | Inr config \<Rightarrow>
          let f = clamp_dyn (Number (jmul amount (jdiv (to_number (feePercentage config)) (Fin 100))))
                    (feeMinimum config) (feeMaximum config)
          in case toFixed2 f of
               Inl e \<Rightarrow> Inl e
             | Inr fixed \<Rightarrow> Inr \<lparr>fee = fixed, total = to_fixed 2 (jadd amount (to_number f)),
                               configUsed = config_name config\<rparr>)"

subsection \<open>The fee utility\<close>

definition getThirtyDayVolume :: "js_num option \<Rightarrow> js_num \<Rightarrow> js_num" where
  "getThirtyDayVolume cached queried = (case cached of Some v \<Rightarrow> v | None \<Rightarrow> queried)"

definition mapVolumeToTier :: "js_num \<Rightarrow> tier_config" where
  "mapVolumeToTier volume =
     (case List.find (\<lambda>t. jge volume (minVolume t)) MERCHANT_TIERS of
        Some t \<Rightarrow> t
      | None \<Rightarrow> List.last MERCHANT_TIERS)"

definition clamp_num :: "js_num \<Rightarrow> js_num \<Rightarrow> js_num \<Rightarrow> js_num" where
  "clamp_num f mn mx = (let f1 = (if jlt f mn then mn else f) in if jgt f1 mx then mx else f1)"

definition calculateFeeSync :: "fee_env \<Rightarrow> js_num \<Rightarrow> fee_amounts" where
  "calculateFeeSync env amount =
     (let f = clamp_num (jmul amount (jdiv (FEE_PERCENTAGE env) (Fin 100))) (FEE_MINIMUM env) (FEE_MAXIMUM env)
      in \<lparr>fee = to_fixed 2 f, total = to_fixed 2 (jadd amount f), configUsed = ''env_fallback''\<rparr>)"

definition calculateFee ::
  "fee_env \<Rightarrow> fee_configuration option \<Rightarrow> fee_configuration list \<Rightarrow> js_num \<Rightarrow> fee_amounts" where
  "calculateFee env cached rows amount =
     (case service_calculateFee cached rows amount of
        Inr r \<Rightarrow> r
      | Inl e \<Rightarrow> calculateFeeSync env amount)"

definition fee_for_tier :: "js_num \<Rightarrow> js_num \<Rightarrow> js_num \<Rightarrow> js_num \<Rightarrow> js_num \<Rightarrow> js_num" where
  "fee_for_tier amount base mn mx discount =
     (let multiplier = jsub (Fin 1) (jdiv discount (Fin 100));
          effectiveRate = jmul base multiplier
      in clamp_num (jmul amount (jdiv effectiveRate (Fin 100))) (jmul mn multiplier) (jmul mx multiplier))"

definition calculateFeeForUser ::
  "fee_env \<Rightarrow> fee_configuration option \<Rightarrow> fee_configuration list \<Rightarrow> js_num \<Rightarrow> js_num \<Rightarrow> vip_fee" where
  "calculateFeeForUser env cached rows volume amount =
     (let tierConfig = mapVolumeToTier volume;
          (base, mn, mx, used) =
            (case getActiveConfiguration cached rows of
               Inl e \<Rightarrow> (FEE_PERCENTAGE env, FEE_MINIMUM env, FEE_MAXIMUM env, ''env_fallback'')
             | Inr c \<Rightarrow> (to_number (feePercentage c), to_number (feeMinimum c), to_number (feeMaximum c), config_name c));
          f = fee_for_tier amount base mn mx (discountPercent tierConfig)
      in \<lparr>vip_amounts = \<lparr>fee = to_fixed 2 f, total = to_fixed 2 (jadd amount f), configUsed = used\<rparr>,
          vip_tier = tier tierConfig, vip_discount = discountPercent tierConfig, thirtyDayVolume = volume\<rparr>)"

subsection \<open>The configured bounds are not applied\<close>

text \<open>
  A clamped fee ignores the configuration. When the active configuration comes from the
  database, its bounds are texts; whenever the percentage gives a fee outside them, the service
  fails with a TypeError and \<open>calculateFee\<close> silently uses the percentage and the bounds of the
  environment instead. Inside the bounds the configuration is used.
\<close>

theorem clamped_fee_uses_environment:
  assumes "getActiveConfiguration cached rows = Inr c" and "feeMinimum c = Text mn" and "feeMaximum c = Text mx"
    and "f = jmul amount (jdiv (to_number (feePercentage c)) (Fin 100))"
  shows "calculateFee env cached rows amount =
    (if jlt f (of_exact mn) \<or> jgt f (of_exact mx) then calculateFeeSync env amount
     else \<lparr>fee = to_fixed 2 f, total = to_fixed 2 (jadd amount f), configUsed = config_name c\<rparr>)"
  using assms(1-3) unfolding calculateFee_def service_calculateFee_def assms(4)
  by (simp add: clamp_dyn_def Let_def)

definition sample_config :: fee_configuration where
  "sample_config = \<lparr>config_name = ''promo'', feePercentage = Text 1, feeMinimum = Text 10, feeMaximum = Text 20\<rparr>"

theorem clamped_fee_uses_environment_witness:
  "calculateFee default_env None [sample_config] (Fin 100000) = calculateFeeSync default_env (Fin 100000)"
proof -
  have g: "getActiveConfiguration None [sample_config] = Inr sample_config" by (simp add: getActiveConfiguration_def)
  have "jgt (jmul (Fin 100000) (jdiv (to_number (feePercentage sample_config)) (Fin 100))) (of_exact 20)"
    by (simp add: sample_config_def js_eval)
  with clamped_fee_uses_environment [OF g, of 10 20 _ "Fin 100000" default_env] show ?thesis
    by (simp add: sample_config_def)
qed

subsection \<open>A higher volume never costs more\<close>

lemma of_exact_bounded:
  assumes "0 \<le> x" and "x \<le> 2 ^ k" and "k < 1024"
  shows "of_exact x = Fin (rnd64 x)" and "0 \<le> rnd64 x" and "rnd64 x \<le> 2 ^ k"
proof -
  have le: "\<bar>x\<bar> \<le> 2 powi int k" using assms(1,2) by simp
  show "of_exact x = Fin (rnd64 x)" by (rule of_exact_Fin [OF le]) (use assms(3) in simp_all)
  show "0 \<le> rnd64 x" by (rule rnd64_nonneg [OF assms(1)])
  show "rnd64 x \<le> 2 ^ k" using rnd64_abs_le [OF le] by simp
qed

definition scaled_fee :: "rat \<Rightarrow> rat \<Rightarrow> rat \<Rightarrow> rat \<Rightarrow> rat \<Rightarrow> rat" where
  "scaled_fee a p mn mx m = min (max (rnd64 (a * rnd64 (rnd64 (p * m) / 100))) (rnd64 (mn * m))) (rnd64 (mx * m))"

lemma scaled_fee_mono:
  assumes "0 \<le> a" "0 \<le> p" "0 \<le> mn" "0 \<le> mx" and "m \<le> m'"
  shows "scaled_fee a p mn mx m \<le> scaled_fee a p mn mx m'"
proof -
  have "rnd64 (x * m) \<le> rnd64 (x * m')" if "0 \<le> x" for x using that assms(5) by (intro rnd64_mono mult_left_mono)
  note r = this [OF assms(2)] this [OF assms(3)] this [OF assms(4)]
  have "rnd64 (a * rnd64 (rnd64 (p * m) / 100)) \<le> rnd64 (a * rnd64 (rnd64 (p * m') / 100))"
    using assms(1,2,5) by (intro rnd64_mono mult_left_mono divide_right_mono) simp_all
  with r(2,3) show ?thesis unfolding scaled_fee_def by (intro min.mono max.mono)
qed

lemma mult_le_power:
  assumes "0 \<le> x" "x \<le> 2 ^ j" "0 \<le> y" "y \<le> 2 ^ k"
  shows "0 \<le> x * y" and "x * y \<le> (2 ^ (j + k) :: rat)"
  using assms by (simp_all add: power_add mult_mono)

lemma clamp_num_Fin: "clamp_num (Fin f) (Fin mn) (Fin mx) = Fin (min (max f mn) mx)"
  by (auto simp: clamp_num_def Let_def min_def max_def)

lemma tier_fee:
  assumes "0 \<le> a" "a \<le> 2 ^ 100" "0 \<le> p" "p \<le> 2 ^ 100" "0 \<le> mn" "mn \<le> 2 ^ 100" "0 \<le> mx" "mx \<le> 2 ^ 100"
    and "jsub (Fin 1) (jdiv d (Fin 100)) = Fin m" and "0 \<le> m" "m \<le> 1"
  shows "fee_for_tier (Fin a) (Fin p) (Fin mn) (Fin mx) d = Fin (scaled_fee a p mn mx m)"
proof -
  have m: "m \<le> 2 ^ 0" using assms(11) by simp
  note pm = of_exact_bounded [OF mult_le_power [OF assms(3,4,10) m], simplified]
  note nm = of_exact_bounded [OF mult_le_power [OF assms(5,6,10) m], simplified]
  note xm = of_exact_bounded [OF mult_le_power [OF assms(7,8,10) m], simplified]
  have "rnd64 (p * m) / 100 \<le> 2 ^ 100" using pm(2,3) by simp
  note q = of_exact_bounded [OF _ this, simplified] and q' = pm(2)
  have q2: "of_exact (rnd64 (p * m) / 100) = Fin (rnd64 (rnd64 (p * m) / 100))"
    "0 \<le> rnd64 (rnd64 (p * m) / 100)" "rnd64 (rnd64 (p * m) / 100) \<le> 2 ^ 100"
    using q q' by simp_all
  note am = of_exact_bounded [OF mult_le_power [OF assms(1,2) q2(2,3)], simplified]
  show ?thesis
    by (simp add: fee_for_tier_def Let_def assms(9) pm(1) nm(1) xm(1) q2(1) am(1) clamp_num_Fin scaled_fee_def)
qed

text \<open>The three multipliers of the tiers.\<close>

lemma tier_multipliers:
  "jsub (Fin 1) (jdiv (Fin 0) (Fin 100)) = Fin 1"
  "jsub (Fin 1) (jdiv (Fin 10) (Fin 100)) = Fin (8106479329266893 / 9007199254740992)"
  "jsub (Fin 1) (jdiv (Fin 20) (Fin 100)) = Fin (3602879701896397 / 4503599627370496)"
  by (simp_all add: js_eval)

definition tier_multiplier :: "js_num \<Rightarrow> rat" where
  "tier_multiplier volume =
     (if jge volume (Fin 5000) then 3602879701896397 / 4503599627370496
      else if jge volume (Fin 1000) then 8106479329266893 / 9007199254740992 else 1)"

lemma user_multiplier:
  "jsub (Fin 1) (jdiv (discountPercent (mapVolumeToTier volume)) (Fin 100)) = Fin (tier_multiplier volume)"
  by (simp add: mapVolumeToTier_def MERCHANT_TIERS_def tier_multiplier_def tier_multipliers del: jdiv.simps)

lemma tier_multiplier_mono: "jle v1 v2 \<Longrightarrow> tier_multiplier v2 \<le> tier_multiplier v1"
  by (cases v1; cases v2) (auto simp: tier_multiplier_def)

text \<open>
  The tier discount is monotone. With a configuration and an amount that are not negative (and
  below \<open>2 ^ 100\<close>), a user with a higher 30-day volume never pays a higher fee for the same amount,
  whatever the rounding of the intermediate products and the clamping to the discounted bounds.
\<close>

theorem vip_fee_antimono:
  assumes "getActiveConfiguration cached rows = Inr c"
    and "to_number (feePercentage c) = Fin p" and "to_number (feeMinimum c) = Fin mn" and "to_number (feeMaximum c) = Fin mx"
    and "0 \<le> p" "p \<le> 2 ^ 100" "0 \<le> mn" "mn \<le> 2 ^ 100" "0 \<le> mx" "mx \<le> 2 ^ 100" "0 \<le> a" "a \<le> 2 ^ 100"
    and "jle v1 v2"
  shows "jle (fee (vip_amounts (calculateFeeForUser env cached rows v2 (Fin a))))
             (fee (vip_amounts (calculateFeeForUser env cached rows v1 (Fin a))))"
proof -
  have m: "0 \<le> tier_multiplier v" "tier_multiplier v \<le> 1" for v by (simp_all add: tier_multiplier_def)
  have f: "fee (vip_amounts (calculateFeeForUser env cached rows v (Fin a))) =
      to_fixed 2 (Fin (scaled_fee a p mn mx (tier_multiplier v)))" for v
    using tier_fee [OF assms(11,12,5-10) user_multiplier m]
    by (simp add: calculateFeeForUser_def assms(1-4) Let_def del: to_fixed.simps)
  have nn: "0 \<le> scaled_fee a p mn mx (tier_multiplier v2)"
    unfolding scaled_fee_def using assms(5-12) m [of v2] by (auto simp: min_def max_def intro!: rnd64_nonneg mult_nonneg_nonneg)
  have "scaled_fee a p mn mx (tier_multiplier v2) \<le> scaled_fee a p mn mx (tier_multiplier v1)"
    by (rule scaled_fee_mono [OF assms(11,5,7,9) tier_multiplier_mono [OF assms(13)]])
  then show ?thesis unfolding f using nn by (intro to_fixed_mono) simp_all
qed

theorem vip_fee_antimono_witness:
  "jle (fee (vip_amounts (calculateFeeForUser default_env None [sample_config] (Fin 7000) (Fin 1500))))
       (fee (vip_amounts (calculateFeeForUser default_env None [sample_config] (Fin 10) (Fin 1500))))"
proof (rule vip_fee_antimono)
  show "getActiveConfiguration None [sample_config] = Inr sample_config" by (simp add: getActiveConfiguration_def)
  show "to_number (feePercentage sample_config) = Fin 1" "to_number (feeMinimum sample_config) = Fin 10"
    "to_number (feeMaximum sample_config) = Fin 20"
    using of_exact_int [of 1] of_exact_int [of 10] of_exact_int [of 20] by (simp_all add: sample_config_def)
qed simp_all

end
