(* ===== verification/Redis_Program.thy ===== *)
theory Redis_Program
  imports Js_Value
begin

text \<open>
  The asynchronous functions that talk to Redis, as programs of commands.

  A program is the tree of the awaited commands and what follows each answer; an answer \<open>None\<close> is a
  rejected promise. \<open>redisClient.isOpen\<close>, \<open>Date.now()\<close> and the emission of an event are steps as
  well, so that a program can be run in one go (\<open>run\<close>) or interleaved with others at its awaits
  (\<open>interleave\<close>).

  The Redis server and its client library are not part of the program: they are the parameter
  \<open>redis_server\<close>, a record of what each command answers and leaves. What the clients rely on is
  \<open>redis_laws\<close>: the documented behaviour of \<open>TTL\<close>, \<open>GET\<close>, \<open>INCR\<close>, \<open>EXPIRE\<close>, \<open>SET NX\<close> and \<open>DEL\<close>, in
  terms of a view of the live keys with their values and expiry times in milliseconds. \<open>TTL\<close> is only
  assumed to be within a second of the time left. \<open>mem_server\<close> is a server that has these laws.
\<close>

subsection \<open>Programs\<close>

datatype ('e, 'a) prog =
  Return 'a
| IsOpen "bool \<Rightarrow> ('e, 'a) prog"
| Clock "int \<Rightarrow> ('e, 'a) prog"
| Ttl string "int option \<Rightarrow> ('e, 'a) prog"
| Get string "string option option \<Rightarrow> ('e, 'a) prog"
| Incr string "int option \<Rightarrow> ('e, 'a) prog"
| Expire string int "bool option \<Rightarrow> ('e, 'a) prog"
| Set_nx string string int "bool option \<Rightarrow> ('e, 'a) prog"
| Del "string list" "int option \<Rightarrow> ('e, 'a) prog"
| Emit 'e "('e, 'a) prog"

primrec bind_prog :: "('e, 'a) prog \<Rightarrow> ('a \<Rightarrow> ('e, 'b) prog) \<Rightarrow> ('e, 'b) prog" where
  "bind_prog (Return x) f = f x"
| "bind_prog (IsOpen k) f = IsOpen (\<lambda>a. bind_prog (k a) f)"
| "bind_prog (Clock k) f = Clock (\<lambda>a. bind_prog (k a) f)"
| "bind_prog (Ttl key k) f = Ttl key (\<lambda>a. bind_prog (k a) f)"
| "bind_prog (Get key k) f = Get key (\<lambda>a. bind_prog (k a) f)"
| "bind_prog (Incr key k) f = Incr key (\<lambda>a. bind_prog (k a) f)"
| "bind_prog (Expire key s k) f = Expire key s (\<lambda>a. bind_prog (k a) f)"
| "bind_prog (Set_nx key v ms k) f = Set_nx key v ms (\<lambda>a. bind_prog (k a) f)"
| "bind_prog (Del keys k) f = Del keys (\<lambda>a. bind_prog (k a) f)"
| "bind_prog (Emit e p) f = Emit e (bind_prog p f)"

record 'r redis_server =
  is_open :: "'r \<Rightarrow> bool"
  serve_ttl :: "int \<Rightarrow> string \<Rightarrow> 'r \<Rightarrow> int option"
  serve_get :: "int \<Rightarrow> string \<Rightarrow> 'r \<Rightarrow> string option option"
  serve_incr :: "int \<Rightarrow> string \<Rightarrow> 'r \<Rightarrow> int option \<times> 'r"
  serve_expire :: "int \<Rightarrow> string \<Rightarrow> int \<Rightarrow> 'r \<Rightarrow> bool option \<times> 'r"
  serve_set_nx :: "int \<Rightarrow> string \<Rightarrow> string \<Rightarrow> int \<Rightarrow> 'r \<Rightarrow> bool option \<times> 'r"
  serve_del :: "int \<Rightarrow> string list \<Rightarrow> 'r \<Rightarrow> int option \<times> 'r"

subsection \<open>Running a program\<close>

text \<open>A run at one moment: the result, the state of the server, the events emitted.\<close>

primrec run :: "'r redis_server \<Rightarrow> int \<Rightarrow> ('e, 'a) prog \<Rightarrow> 'r \<Rightarrow> 'a \<times> 'r \<times> 'e list" where
  "run srv now (Return x) r = (x, r, [])"
| "run srv now (IsOpen k) r = run srv now (k (is_open srv r)) r"
| "run srv now (Clock k) r = run srv now (k now) r"
| "run srv now (Ttl key k) r = run srv now (k (serve_ttl srv now key r)) r"
| "run srv now (Get key k) r = run srv now (k (serve_get srv now key r)) r"
| "run srv now (Incr key k) r = (let (a, r1) = serve_incr srv now key r in run srv now (k a) r1)"
| "run srv now (Expire key s k) r = (let (a, r1) = serve_expire srv now key s r in run srv now (k a) r1)"
| "run srv now (Set_nx key v ms k) r = (let (a, r1) = serve_set_nx srv now key v ms r in run srv now (k a) r1)"
| "run srv now (Del keys k) r = (let (a, r1) = serve_del srv now keys r in run srv now (k a) r1)"
| "run srv now (Emit e p) r = (let (x, r1, es) = run srv now p r in (x, r1, e # es))"

text \<open>One step of a program, and a schedule of steps of several programs, each at its own time.\<close>

fun prog_step :: "'r redis_server \<Rightarrow> int \<Rightarrow> ('e, 'a) prog \<Rightarrow> 'r \<Rightarrow> ('e, 'a) prog \<times> 'r \<times> 'e list" where
  "prog_step srv now (Return x) r = (Return x, r, [])"
| "prog_step srv now (IsOpen k) r = (k (is_open srv r), r, [])"
| "prog_step srv now (Clock k) r = (k now, r, [])"
| "prog_step srv now (Ttl key k) r = (k (serve_ttl srv now key r), r, [])"
| "prog_step srv now (Get key k) r = (k (serve_get srv now key r), r, [])"
| "prog_step srv now (Incr key k) r = (let (a, r1) = serve_incr srv now key r in (k a, r1, []))"
| "prog_step srv now (Expire key s k) r = (let (a, r1) = serve_expire srv now key s r in (k a, r1, []))"
| "prog_step srv now (Set_nx key v ms k) r = (let (a, r1) = serve_set_nx srv now key v ms r in (k a, r1, []))"
| "prog_step srv now (Del keys k) r = (let (a, r1) = serve_del srv now keys r in (k a, r1, []))"
| "prog_step srv now (Emit e p) r = (p, r, [e])"

fun interleave ::
  "'r redis_server \<Rightarrow> (nat \<times> int) list \<Rightarrow> ('e, 'a) prog list \<Rightarrow> 'r \<Rightarrow> ('e, 'a) prog list \<times> 'r \<times> 'e list" where
  "interleave srv [] ps r = (ps, r, [])"
| "interleave srv ((i, now) # sched) ps r =
     (if i < length ps then
        let (p, r1, es) = prog_step srv now (ps ! i) r; (ps', r2, es') = interleave srv sched (ps[i := p]) r1
        in (ps', r2, es @ es')
      else interleave srv sched ps r)"

lemma run_bind:
  "run srv now (bind_prog p f) r =
     (let (x, r1, es) = run srv now p r; (y, r2, es') = run srv now (f x) r1 in (y, r2, es @ es'))"
  by (induction p arbitrary: r) (auto simp: Let_def split: prod.splits)

text \<open>Running is stepping to the end.\<close>

lemma run_prog_step:
  "run srv now p r =
     (let (p', r1, es) = prog_step srv now p r; (x, r2, es') = run srv now p' r1 in (x, r2, es @ es'))"
  by (cases p) (auto simp: Let_def split: prod.splits)

lemma interleave_append:
  "interleave srv (s1 @ s2) ps r =
     (let (ps1, r1, es1) = interleave srv s1 ps r; (ps2, r2, es2) = interleave srv s2 ps1 r1
      in (ps2, r2, es1 @ es2))"
  by (induction srv s1 ps r rule: interleave.induct) (auto simp: Let_def split: prod.splits)

text \<open>A program scheduled alone ends with the result, state and events of its run.\<close>

definition ends_as_run :: "'r redis_server \<Rightarrow> int \<Rightarrow> ('e, 'a) prog \<Rightarrow> 'r \<Rightarrow> bool" where
  "ends_as_run srv now p r \<longleftrightarrow> (\<exists>n. interleave srv (replicate n (0, now)) [p] r =
     (let (x, r1, es) = run srv now p r in ([Return x], r1, es)))"

lemma ends_as_run_step:
  assumes "ends_as_run srv now (fst (prog_step srv now p r)) (fst (snd (prog_step srv now p r)))"
  shows "ends_as_run srv now p r"
proof -
  obtain p' r' e where st: "prog_step srv now p r = (p', r', e)" by (cases "prog_step srv now p r")
  from assms obtain n where
    "interleave srv (replicate n (0, now)) [p'] r' = (let (x, r1, es) = run srv now p' r' in ([Return x], r1, es))"
    by (auto simp: ends_as_run_def st)
  then show ?thesis unfolding ends_as_run_def
    using st by (intro exI [of _ "Suc n"]) (auto simp: run_prog_step [of srv now p] Let_def split: prod.splits)
qed

lemma interleave_alone: "ends_as_run srv now p r"
proof (induction p arbitrary: r)
  case (Return x)
  show ?case unfolding ends_as_run_def by (rule exI [of _ 0]) simp
qed (rule ends_as_run_step, simp split: prod.splits)+

subsection \<open>The laws of the server\<close>

type_synonym 'r key_view = "int \<Rightarrow> 'r \<Rightarrow> string \<Rightarrow> (string \<times> int option) option"

definition key_expired :: "int \<Rightarrow> int option \<Rightarrow> bool" where
  "key_expired now e = (case e of None \<Rightarrow> False | Some t \<Rightarrow> t \<le> now)"

definition live_at :: "int \<Rightarrow> (string \<times> int option) option \<Rightarrow> (string \<times> int option) option" where
  "live_at now x = (case x of None \<Rightarrow> None | Some (v, e) \<Rightarrow> if key_expired now e then None else Some (v, e))"

definition ttl_law :: "'r redis_server \<Rightarrow> 'r key_view \<Rightarrow> bool" where
  "ttl_law srv view \<longleftrightarrow> (\<forall>now key r. \<exists>t. serve_ttl srv now key r = Some t \<and>
     (case view now r key of None \<Rightarrow> t = -2 | Some (v, None) \<Rightarrow> t = -1
      | Some (v, Some e) \<Rightarrow> 0 \<le> t \<and> \<bar>1000 * t - (e - now)\<bar> < 1000))"

definition get_law :: "'r redis_server \<Rightarrow> 'r key_view \<Rightarrow> bool" where
  "get_law srv view \<longleftrightarrow> (\<forall>now key r. serve_get srv now key r = Some (map_option fst (view now r key)))"

definition incr_law :: "'r redis_server \<Rightarrow> 'r key_view \<Rightarrow> bool" where
  "incr_law srv view \<longleftrightarrow> (\<forall>now key r n e.
     (view now r key = None \<and> n = 0 \<and> e = None) \<or> (view now r key = Some (nat_text n, e) \<and> n < 2 ^ 53) \<longrightarrow>
     (\<exists>r1. serve_incr srv now key r = (Some (int n + 1), r1) \<and>
       view now r1 = (view now r)(key \<mapsto> (nat_text (Suc n), e))))"

definition expire_law :: "'r redis_server \<Rightarrow> 'r key_view \<Rightarrow> bool" where
  "expire_law srv view \<longleftrightarrow> (\<forall>now key s r v e. view now r key = Some (v, e) \<and> 0 < s \<longrightarrow>
     (\<exists>r1. serve_expire srv now key s r = (Some True, r1) \<and>
       view now r1 = (view now r)(key \<mapsto> (v, Some (now + 1000 * s)))))"

definition set_nx_law :: "'r redis_server \<Rightarrow> 'r key_view \<Rightarrow> bool" where
  "set_nx_law srv view \<longleftrightarrow> (\<forall>now key v ms r. 0 < ms \<longrightarrow>
     (\<exists>r1. serve_set_nx srv now key v ms r = (Some (view now r key = None), r1) \<and>
       view now r1 = (if view now r key = None then (view now r)(key \<mapsto> (v, Some (now + ms))) else view now r)))"

definition del_law :: "'r redis_server \<Rightarrow> 'r key_view \<Rightarrow> bool" where
  "del_law srv view \<longleftrightarrow> (\<forall>now keys r. distinct keys \<longrightarrow>
     (\<exists>r1. serve_del srv now keys r = (Some (int (length (filter (\<lambda>k. view now r k \<noteq> None) keys))), r1) \<and>
       view now r1 = (\<lambda>k. if k \<in> set keys then None else view now r k)))"

definition time_law :: "'r key_view \<Rightarrow> bool" where
  "time_law view \<longleftrightarrow> (\<forall>now later r key. now \<le> later \<longrightarrow> view later r key = live_at later (view now r key))"

definition redis_laws :: "'r redis_server \<Rightarrow> 'r key_view \<Rightarrow> bool" where
  "redis_laws srv view \<longleftrightarrow> (\<forall>r. is_open srv r) \<and> ttl_law srv view \<and> get_law srv view \<and> incr_law srv view \<and>
     expire_law srv view \<and> set_nx_law srv view \<and> del_law srv view \<and> time_law view"

lemma laws_open: "redis_laws srv view \<Longrightarrow> is_open srv r"
  by (simp add: redis_laws_def)

lemma laws_ttl:
  "redis_laws srv view \<Longrightarrow> \<exists>t. serve_ttl srv now key r = Some t \<and>
     (case view now r key of None \<Rightarrow> t = -2 | Some (v, None) \<Rightarrow> t = -1
      | Some (v, Some e) \<Rightarrow> 0 \<le> t \<and> \<bar>1000 * t - (e - now)\<bar> < 1000)"
  unfolding redis_laws_def ttl_law_def by blast

lemma laws_get: "redis_laws srv view \<Longrightarrow> serve_get srv now key r = Some (map_option fst (view now r key))"
  by (simp add: redis_laws_def get_law_def)

lemma laws_incr_new:
  "redis_laws srv view \<Longrightarrow> view now r key = None \<Longrightarrow>
     \<exists>r1. serve_incr srv now key r = (Some 1, r1) \<and> view now r1 = (view now r)(key \<mapsto> (nat_text 1, None))"
  unfolding redis_laws_def incr_law_def by fastforce

lemma laws_incr:
  "redis_laws srv view \<Longrightarrow> view now r key = Some (nat_text n, e) \<Longrightarrow> n < 2 ^ 53 \<Longrightarrow>
     \<exists>r1. serve_incr srv now key r = (Some (int n + 1), r1) \<and> view now r1 = (view now r)(key \<mapsto> (nat_text (Suc n), e))"
  unfolding redis_laws_def incr_law_def by blast

lemma laws_expire:
  "redis_laws srv view \<Longrightarrow> view now r key = Some (v, e) \<Longrightarrow> 0 < s \<Longrightarrow>
     \<exists>r1. serve_expire srv now key s r = (Some True, r1) \<and>
       view now r1 = (view now r)(key \<mapsto> (v, Some (now + 1000 * s)))"
  unfolding redis_laws_def expire_law_def by blast

lemma laws_set_nx:
  "redis_laws srv view \<Longrightarrow> 0 < ms \<Longrightarrow>
     \<exists>r1. serve_set_nx srv now key v ms r = (Some (view now r key = None), r1) \<and>
       view now r1 = (if view now r key = None then (view now r)(key \<mapsto> (v, Some (now + ms))) else view now r)"
  unfolding redis_laws_def set_nx_law_def by blast

lemma laws_del:
  "redis_laws srv view \<Longrightarrow> distinct keys \<Longrightarrow>
     \<exists>r1. serve_del srv now keys r = (Some (int (length (filter (\<lambda>k. view now r k \<noteq> None) keys))), r1) \<and>
       view now r1 = (\<lambda>k. if k \<in> set keys then None else view now r k)"
  unfolding redis_laws_def del_law_def by blast

lemma laws_time: "redis_laws srv view \<Longrightarrow> now \<le> later \<Longrightarrow> view later r key = live_at later (view now r key)"
  by (simp add: redis_laws_def time_law_def)

lemma laws_live: "redis_laws srv view \<Longrightarrow> view now r key = Some (v, Some e) \<Longrightarrow> now < e"
  using laws_time [of srv view now now r key] by (auto simp: live_at_def key_expired_def split: if_splits)

subsection \<open>A server with these laws\<close>

type_synonym mem_state = "(string, string \<times> int option) js_map"

definition mem_view :: "mem_state key_view" where
  "mem_view now m key = live_at now (map_get m key)"

definition mem_server :: "mem_state redis_server" where
  "mem_server =
     \<lparr>is_open = (\<lambda>m. True),
      serve_ttl = (\<lambda>now key m. Some (case mem_view now m key of None \<Rightarrow> -2 | Some (v, None) \<Rightarrow> -1
        | Some (v, Some e) \<Rightarrow> (e - now + 500) div 1000)),
      serve_get = (\<lambda>now key m. Some (map_option fst (mem_view now m key))),
      serve_incr = (\<lambda>now key m. case mem_view now m key of
          None \<Rightarrow> (Some 1, map_set key (nat_text 1, None) m)
        | Some (v, e) \<Rightarrow> (case parse_int v of
              Fin x \<Rightarrow> (Some (\<lfloor>x\<rfloor> + 1), map_set key (int_text (\<lfloor>x\<rfloor> + 1), e) m)
            | _ \<Rightarrow> (None, m))),
      serve_expire = (\<lambda>now key s m. case mem_view now m key of
          None \<Rightarrow> (Some False, m)
        | Some (v, e) \<Rightarrow> (Some True, map_set key (v, Some (now + 1000 * s)) m)),
      serve_set_nx = (\<lambda>now key v ms m. if mem_view now m key = None
          then (Some True, map_set key (v, Some (now + ms)) m) else (Some False, m)),
      serve_del = (\<lambda>now keys m. (Some (int (length (filter (\<lambda>k. mem_view now m k \<noteq> None) keys))),
          foldr map_delete keys m))\<rparr>"

lemma mem_view_set: "mem_view now (map_set key x m) k = (if k = key then live_at now (Some x) else mem_view now m k)"
  by (simp add: mem_view_def map_get_set)

lemma mem_view_live: "mem_view now m key = Some (v, e) \<Longrightarrow> \<not> key_expired now e"
  by (auto simp: mem_view_def live_at_def split: option.splits if_splits)

lemma map_get_foldr_delete: "map_get (foldr map_delete keys m) k = (if k \<in> set keys then None else map_get m k)"
  by (induction keys) (auto simp: map_get_delete)

lemma mem_server_laws: "redis_laws mem_server mem_view"
proof -
  have "ttl_law mem_server mem_view"
    by (auto simp: ttl_law_def mem_server_def live_at_def key_expired_def mem_view_def split: option.splits if_splits prod.splits)
  moreover have "get_law mem_server mem_view" by (simp add: get_law_def mem_server_def)
  moreover have "incr_law mem_server mem_view"
  proof -
    have "int_text (int n + 1) = nat_text (Suc n)" for n by (simp add: int_text_def nat_add_distrib)
    then show ?thesis
      by (auto simp: incr_law_def mem_server_def mem_view_set parse_int_nat_text fun_eq_iff
          live_at_def key_expired_def [of _ None] dest: mem_view_live)
  qed
  moreover have "expire_law mem_server mem_view"
    by (auto simp: expire_law_def mem_server_def mem_view_set live_at_def key_expired_def fun_eq_iff)
  moreover have "set_nx_law mem_server mem_view"
    by (auto simp: set_nx_law_def mem_server_def mem_view_set live_at_def key_expired_def fun_eq_iff)
  moreover have "del_law mem_server mem_view"
    by (auto simp: del_law_def mem_server_def mem_view_def map_get_foldr_delete live_at_def fun_eq_iff)
  moreover have "time_law mem_view"
    by (auto simp: time_law_def mem_view_def live_at_def key_expired_def split: option.splits)
  ultimately show ?thesis by (simp add: redis_laws_def mem_server_def)
qed

end
