(* ===== verification/Lockout.thy ===== *)
theory Lockout
  imports Redis_Program
begin

text \<open>
  \<open>src/src/auth/lockout.ts\<close>: the lockout of accounts after failed logins.

  Each exported function is a program of Redis commands (theory \<open>Redis_Program\<close>), with the checks of
  \<open>isOpen\<close>, the \<open>try\<close>/\<open>catch\<close> fallbacks and the events of \<open>lockoutEvents\<close>. The three settings are
  read from the environment when the module is loaded; the model covers the settings that parse as
  integers. Times are in milliseconds. The abstract account is fresh, counting failures until a
  deadline, or locked until a time.
\<close>

subsection \<open>Settings, keys and results\<close>

record lockout_settings =
  MAX_LOGIN_ATTEMPTS :: int
  LOCKOUT_WINDOW_SECONDS :: int
  LOCKOUT_DURATION_SECONDS :: int

definition parse_setting :: "string option \<Rightarrow> string \<Rightarrow> int option" where
  "parse_setting v dflt =
     (case parse_int (case v of None \<Rightarrow> dflt | Some s \<Rightarrow> s) of Fin x \<Rightarrow> Some \<lfloor>x\<rfloor> | _ \<Rightarrow> None)"

definition load_settings :: "string option \<Rightarrow> string option \<Rightarrow> string option \<Rightarrow> lockout_settings option" where
  "load_settings max_attempts window duration =
     (case (parse_setting max_attempts ''5'', parse_setting window ''10'', parse_setting duration ''30'') of
        (Some a, Some w, Some d) \<Rightarrow>
          Some \<lparr>MAX_LOGIN_ATTEMPTS = a, LOCKOUT_WINDOW_SECONDS = w * 60, LOCKOUT_DURATION_SECONDS = d * 60\<rparr>
      | _ \<Rightarrow> None)"

definition attemptsKey :: "string \<Rightarrow> string" where
  "attemptsKey ident = ''lockout:attempts:'' @ ident"

definition lockedKey :: "string \<Rightarrow> string" where
  "lockedKey ident = ''lockout:locked:'' @ ident"

record lockout_status =
  isLocked :: bool
  attemptsRemaining :: js_num
  lockedAt :: "int option"
  unlocksAt :: "int option"
  minutesRemaining :: "js_num option"

datatype lockout_message =
  TemporarilyLocked "js_num option" bool
| InvalidCredentials
| InvalidCredentialsRemaining js_num
| InvalidCredentialsWarning

record lockout_result =
  success :: bool
  message :: lockout_message
  lockoutStatus :: lockout_status
  justLocked :: bool

datatype lockout_event =
  Locked_event string int int int
| FailedAttempt_event string int js_num
| Reset_event string
| Unlocked_event string "string option"

text \<open>The text of the message has the minutes and the plural "s" unless there is one minute.\<close>

definition buildLockedMessage :: "lockout_status \<Rightarrow> lockout_message" where
  "buildLockedMessage st = TemporarilyLocked (minutesRemaining st) (minutesRemaining st \<noteq> Some (Fin 1))"

abbreviation unlocked :: "js_num \<Rightarrow> lockout_status" where
  "unlocked n \<equiv> \<lparr>isLocked = False, attemptsRemaining = n, lockedAt = None, unlocksAt = None, minutesRemaining = None\<rparr>"

abbreviation num :: "int \<Rightarrow> js_num" where
  "num n \<equiv> Fin (of_int n)"

subsection \<open>Operations\<close>

definition getLockoutStatus :: "lockout_settings \<Rightarrow> string \<Rightarrow> (lockout_event, lockout_status) prog" where
  "getLockoutStatus cfg ident =
     IsOpen (\<lambda>ready. if \<not> ready then Return (unlocked (num (MAX_LOGIN_ATTEMPTS cfg)))
     else Ttl (lockedKey ident) (\<lambda>answer. case answer of
       None \<Rightarrow> Return (unlocked (num (MAX_LOGIN_ATTEMPTS cfg)))
     | Some ttl \<Rightarrow>
         if ttl > 0 then
           Clock (\<lambda>now. Return
             \<lparr>isLocked = True, attemptsRemaining = Fin 0,
              lockedAt = Some (now - (LOCKOUT_DURATION_SECONDS cfg - ttl) * 1000),
              unlocksAt = Some (now + ttl * 1000),
              minutesRemaining = Some (math_ceil (jdiv (num ttl) (Fin 60)))\<rparr>)
         else
           Get (attemptsKey ident) (\<lambda>answer. case answer of
             None \<Rightarrow> Return (unlocked (num (MAX_LOGIN_ATTEMPTS cfg)))
           | Some raw \<Rightarrow>
               let attempts = (if truthy_string raw then parse_int (the raw) else Fin 0)
               in Return (unlocked (math_max (Fin 0) (jsub (num (MAX_LOGIN_ATTEMPTS cfg)) attempts))))))"

definition failed_result :: "lockout_message \<Rightarrow> lockout_status \<Rightarrow> bool \<Rightarrow> lockout_result" where
  "failed_result msg st just = \<lparr>success = False, message = msg, lockoutStatus = st, justLocked = just\<rparr>"

text \<open>The \<open>catch\<close> branch of \<open>recordFailedAttempt\<close>.\<close>

definition attempt_failed_over :: "lockout_settings \<Rightarrow> (lockout_event, lockout_result) prog" where
  "attempt_failed_over cfg =
     Return (failed_result InvalidCredentials (unlocked (jsub (num (MAX_LOGIN_ATTEMPTS cfg)) (Fin 1))) False)"

definition lock_account :: "lockout_settings \<Rightarrow> string \<Rightarrow> int \<Rightarrow> (lockout_event, lockout_result) prog" where
  "lock_account cfg ident attempts =
     Clock (\<lambda>now. let until = now + LOCKOUT_DURATION_SECONDS cfg * 1000 in
     Set_nx (lockedKey ident) ''1'' (1000 * LOCKOUT_DURATION_SECONDS cfg) (\<lambda>answer. case answer of
       None \<Rightarrow> attempt_failed_over cfg
     | Some _ \<Rightarrow> Del [attemptsKey ident] (\<lambda>answer. case answer of
         None \<Rightarrow> attempt_failed_over cfg
       | Some _ \<Rightarrow>
           let st = \<lparr>isLocked = True, attemptsRemaining = Fin 0, lockedAt = Some now, unlocksAt = Some until,
                     minutesRemaining = Some (math_ceil (jdiv (num (LOCKOUT_DURATION_SECONDS cfg)) (Fin 60)))\<rparr>
           in Emit (Locked_event ident attempts now until)
                (Return (failed_result (buildLockedMessage st) st True)))))"

definition count_attempt :: "lockout_settings \<Rightarrow> string \<Rightarrow> int \<Rightarrow> (lockout_event, lockout_result) prog" where
  "count_attempt cfg ident attempts =
     (if attempts \<ge> MAX_LOGIN_ATTEMPTS cfg then lock_account cfg ident attempts
      else let remaining = jsub (num (MAX_LOGIN_ATTEMPTS cfg)) (num attempts)
           in Emit (FailedAttempt_event ident attempts remaining)
                (Return (failed_result
                  (if remaining = Fin 1 then InvalidCredentialsWarning else InvalidCredentialsRemaining remaining)
                  (unlocked remaining) False)))"

definition recordFailedAttempt :: "lockout_settings \<Rightarrow> string \<Rightarrow> (lockout_event, lockout_result) prog" where
  "recordFailedAttempt cfg ident =
     bind_prog (getLockoutStatus cfg ident) (\<lambda>current.
       if isLocked current then Return (failed_result (buildLockedMessage current) current False)
       else IsOpen (\<lambda>ready.
         if \<not> ready then
           let st = unlocked (jsub (num (MAX_LOGIN_ATTEMPTS cfg)) (Fin 1))
           in Return (failed_result (InvalidCredentialsRemaining (attemptsRemaining st)) st False)
         else Incr (attemptsKey ident) (\<lambda>answer. case answer of
           None \<Rightarrow> attempt_failed_over cfg
         | Some attempts \<Rightarrow>
             if attempts = 1 then
               Expire (attemptsKey ident) (LOCKOUT_WINDOW_SECONDS cfg) (\<lambda>answer. case answer of
                 None \<Rightarrow> attempt_failed_over cfg
               | Some _ \<Rightarrow> count_attempt cfg ident attempts)
             else count_attempt cfg ident attempts)))"

definition recordSuccessfulLogin :: "string \<Rightarrow> (lockout_event, unit) prog" where
  "recordSuccessfulLogin ident =
     IsOpen (\<lambda>ready. if \<not> ready then Return ()
     else Del [lockedKey ident, attemptsKey ident] (\<lambda>answer. case answer of
       None \<Rightarrow> Return ()
     | Some deleted \<Rightarrow> if deleted > 0 then Emit (Reset_event ident) (Return ()) else Return ()))"

definition adminUnlock :: "string \<Rightarrow> string option \<Rightarrow> (lockout_event, bool) prog" where
  "adminUnlock ident adminId =
     IsOpen (\<lambda>ready. if \<not> ready then Return False
     else Del [lockedKey ident, attemptsKey ident] (\<lambda>answer. case answer of
       None \<Rightarrow> Return False
     | Some deleted \<Rightarrow>
         let wasLocked = deleted > 0
         in if wasLocked then Emit (Unlocked_event ident adminId) (Return wasLocked) else Return wasLocked))"

definition isAccountLocked :: "lockout_settings \<Rightarrow> string \<Rightarrow> (lockout_event, bool) prog" where
  "isAccountLocked cfg ident = bind_prog (getLockoutStatus cfg ident) (\<lambda>st. Return (isLocked st))"

subsection \<open>The abstract account\<close>

datatype account = Fresh | Counting nat int | Locked int

fun account_at :: "int \<Rightarrow> account \<Rightarrow> account" where
  "account_at now Fresh = Fresh"
| "account_at now (Counting n d) = (if d \<le> now then Fresh else Counting n d)"
| "account_at now (Locked u) = (if u \<le> now then Fresh else Locked u)"

definition spec_count :: "lockout_settings \<Rightarrow> int \<Rightarrow> nat \<Rightarrow> int \<Rightarrow> account" where
  "spec_count cfg now n d =
     (if MAX_LOGIN_ATTEMPTS cfg \<le> int n then Locked (now + 1000 * LOCKOUT_DURATION_SECONDS cfg) else Counting n d)"

fun spec_fail :: "lockout_settings \<Rightarrow> int \<Rightarrow> account \<Rightarrow> account" where
  "spec_fail cfg now Fresh = spec_count cfg now 1 (now + 1000 * LOCKOUT_WINDOW_SECONDS cfg)"
| "spec_fail cfg now (Counting n d) = spec_count cfg now (Suc n) d"
| "spec_fail cfg now (Locked u) = Locked u"

fun is_locked_account :: "account \<Rightarrow> bool" where
  "is_locked_account (Locked u) = True"
| "is_locked_account a = False"

fun represents :: "'r key_view \<Rightarrow> int \<Rightarrow> 'r \<Rightarrow> string \<Rightarrow> account \<Rightarrow> bool" where
  "represents view now r ident Fresh \<longleftrightarrow>
     view now r (attemptsKey ident) = None \<and> view now r (lockedKey ident) = None"
| "represents view now r ident (Counting n d) \<longleftrightarrow>
     view now r (attemptsKey ident) = Some (nat_text n, Some d) \<and> view now r (lockedKey ident) = None \<and>
     1 \<le> n \<and> n < 2 ^ 53"
| "represents view now r ident (Locked u) \<longleftrightarrow>
     view now r (lockedKey ident) = Some (''1'', Some u) \<and> view now r (attemptsKey ident) = None"

definition settings_ok :: "lockout_settings \<Rightarrow> bool" where
  "settings_ok cfg \<longleftrightarrow> 1 \<le> MAX_LOGIN_ATTEMPTS cfg \<and> MAX_LOGIN_ATTEMPTS cfg < 2 ^ 53 \<and>
     0 < LOCKOUT_WINDOW_SECONDS cfg \<and> 0 < LOCKOUT_DURATION_SECONDS cfg"

text \<open>
  The counter is below the limit, and a lock has at least a second left, so that \<open>TTL\<close> is not rounded
  to zero.
\<close>

fun account_ok :: "lockout_settings \<Rightarrow> int \<Rightarrow> account \<Rightarrow> bool" where
  "account_ok cfg now Fresh \<longleftrightarrow> True"
| "account_ok cfg now (Counting n d) \<longleftrightarrow> int n < MAX_LOGIN_ATTEMPTS cfg"
| "account_ok cfg now (Locked u) \<longleftrightarrow> now + 1000 \<le> u"

lemma keys_distinct [simp]: "attemptsKey i \<noteq> lockedKey j" "lockedKey j \<noteq> attemptsKey i"
  by (auto simp: attemptsKey_def lockedKey_def)

lemma represents_later:
  assumes "redis_laws srv view" and "represents view now r ident a" and "now \<le> later"
  shows "represents view later r ident (account_at later a)"
proof -
  have "view later r k = live_at later (view now r k)" for k using laws_time [OF assms(1,3)] .
  with assms(2) show ?thesis by (cases a) (auto simp: live_at_def key_expired_def)
qed

subsection \<open>What each call does\<close>

lemma run_status_unlocked:
  assumes laws: "redis_laws srv view" and "view now r (lockedKey ident) = None"
  shows "run srv now (getLockoutStatus cfg ident) r =
    (unlocked (math_max (Fin 0) (jsub (num (MAX_LOGIN_ATTEMPTS cfg))
      (case view now r (attemptsKey ident) of None \<Rightarrow> Fin 0
       | Some (v, e) \<Rightarrow> if v = [] then Fin 0 else parse_int v))), r, [])"
proof -
  have "serve_ttl srv now (lockedKey ident) r = Some (-2)"
    using laws_ttl [OF laws, of now "lockedKey ident" r] assms(2) by auto
  then show ?thesis
    by (auto simp: getLockoutStatus_def laws_open [OF laws] laws_get [OF laws] Let_def split: option.splits)
qed

lemma run_status_locked:
  assumes laws: "redis_laws srv view" and "view now r (lockedKey ident) = Some (v, Some u)" and "now + 1000 \<le> u"
  shows "\<exists>st. run srv now (getLockoutStatus cfg ident) r = (st, r, []) \<and> isLocked st"
proof -
  obtain t where t: "serve_ttl srv now (lockedKey ident) r = Some t" "\<bar>1000 * t - (u - now)\<bar> < 1000"
    using laws_ttl [OF laws, of now "lockedKey ident" r] assms(2) by auto
  from t(2) assms(3) have "0 < t" by linarith
  with t(1) show ?thesis by (simp add: getLockoutStatus_def laws_open [OF laws])
qed

definition counted :: "int \<Rightarrow> lockout_result \<Rightarrow> lockout_settings \<Rightarrow> int \<Rightarrow> bool" where
  "counted now res cfg n \<longleftrightarrow> justLocked res = (MAX_LOGIN_ATTEMPTS cfg \<le> n) \<and>
     isLocked (lockoutStatus res) = (MAX_LOGIN_ATTEMPTS cfg \<le> n) \<and>
     attemptsRemaining (lockoutStatus res) = num (max 0 (MAX_LOGIN_ATTEMPTS cfg - n))"

lemma num_sub: "0 \<le> a \<Longrightarrow> a \<le> 2 ^ 53 \<Longrightarrow> 0 \<le> b \<Longrightarrow> b \<le> 2 ^ 53 \<Longrightarrow> jsub (num a) (num b) = num (a - b)"
  using of_exact_int [of "a - b"] by (simp add: jsub_def)

text \<open>The counter holds \<open>n\<close> and the account is not locked: the lock is set exactly at the limit.\<close>

lemma run_count_attempt:
  assumes laws: "redis_laws srv view" and ok: "settings_ok cfg"
    and att: "view now r (attemptsKey ident) = Some (nat_text n, Some d)"
    and unl: "view now r (lockedKey ident) = None" and n: "1 \<le> n" "n < 2 ^ 53"
  shows "\<exists>res r1 es. run srv now (count_attempt cfg ident (int n)) r = (res, r1, es) \<and>
    counted now res cfg (int n) \<and> represents view now r1 ident (spec_count cfg now n d) \<and>
    (\<forall>k. k \<notin> {attemptsKey ident, lockedKey ident} \<longrightarrow> view now r1 k = view now r k)"
proof (cases "MAX_LOGIN_ATTEMPTS cfg \<le> int n")
  case True
  from ok have "0 < 1000 * LOCKOUT_DURATION_SECONDS cfg" by (simp add: settings_ok_def)
  from laws_set_nx [OF laws this, of now "lockedKey ident" "''1''" r] unl obtain r1 where r1:
    "serve_set_nx srv now (lockedKey ident) ''1'' (1000 * LOCKOUT_DURATION_SECONDS cfg) r = (Some True, r1)"
    "view now r1 = (view now r)(lockedKey ident \<mapsto> (''1'', Some (now + 1000 * LOCKOUT_DURATION_SECONDS cfg)))"
    by auto
  from laws_del [OF laws, of "[attemptsKey ident]" now r1] obtain m r2 where r2:
    "serve_del srv now [attemptsKey ident] r1 = (Some m, r2)"
    "view now r2 = (\<lambda>k. if k = attemptsKey ident then None else view now r1 k)" by auto
  show ?thesis using True r1 r2
    by (simp add: count_attempt_def lock_account_def failed_result_def counted_def spec_count_def Let_def)
next
  case False
  with ok n have "jsub (num (MAX_LOGIN_ATTEMPTS cfg)) (num (int n)) = num (MAX_LOGIN_ATTEMPTS cfg - int n)"
    by (intro num_sub) (auto simp: settings_ok_def)
  with False att unl n show ?thesis
    by (simp add: count_attempt_def failed_result_def counted_def spec_count_def Let_def)
qed

lemma run_failed_fresh:
  assumes laws: "redis_laws srv view" and ok: "settings_ok cfg" and rep: "represents view now r ident Fresh"
  shows "\<exists>res r1 es. run srv now (recordFailedAttempt cfg ident) r = (res, r1, es) \<and>
    counted now res cfg 1 \<and> represents view now r1 ident (spec_fail cfg now Fresh) \<and>
    (\<forall>k. k \<notin> {attemptsKey ident, lockedKey ident} \<longrightarrow> view now r1 k = view now r k)"
proof -
  from rep have v: "view now r (attemptsKey ident) = None" "view now r (lockedKey ident) = None" by auto
  from laws_incr_new [OF laws v(1)] obtain r1 where r1: "serve_incr srv now (attemptsKey ident) r = (Some 1, r1)"
    "view now r1 = (view now r)(attemptsKey ident \<mapsto> (nat_text 1, None))" by auto
  from ok have "0 < LOCKOUT_WINDOW_SECONDS cfg" by (simp add: settings_ok_def)
  from laws_expire [OF laws _ this, of now r1 "attemptsKey ident" "nat_text 1" None] r1(2) obtain r2 where r2:
    "serve_expire srv now (attemptsKey ident) (LOCKOUT_WINDOW_SECONDS cfg) r1 = (Some True, r2)"
    "view now r2 = (view now r)(attemptsKey ident \<mapsto> (nat_text 1, Some (now + 1000 * LOCKOUT_WINDOW_SECONDS cfg)))"
    by auto
  have "run srv now (recordFailedAttempt cfg ident) r = run srv now (count_attempt cfg ident 1) r2"
    by (auto simp: recordFailedAttempt_def run_bind run_status_unlocked [OF laws v(2)] laws_open [OF laws] r1 r2(1)
        Let_def split: prod.splits)
  with run_count_attempt [OF laws ok, of now r2 ident 1 "now + 1000 * LOCKOUT_WINDOW_SECONDS cfg"] r2(2) v
  show ?thesis by auto
qed

lemma run_failed_counting:
  assumes laws: "redis_laws srv view" and ok: "settings_ok cfg"
    and rep: "represents view now r ident (Counting n d)" and n: "Suc n < 2 ^ 53"
  shows "\<exists>res r1 es. run srv now (recordFailedAttempt cfg ident) r = (res, r1, es) \<and>
    counted now res cfg (int n + 1) \<and> represents view now r1 ident (spec_fail cfg now (Counting n d)) \<and>
    (\<forall>k. k \<notin> {attemptsKey ident, lockedKey ident} \<longrightarrow> view now r1 k = view now r k)"
proof -
  from rep have v: "view now r (attemptsKey ident) = Some (nat_text n, Some d)"
    "view now r (lockedKey ident) = None" "1 \<le> n" "n < 2 ^ 53" by auto
  from laws_incr [OF laws v(1,4)] obtain r1 where
    r1: "serve_incr srv now (attemptsKey ident) r = (Some (int n + 1), r1)"
    "view now r1 = (view now r)(attemptsKey ident \<mapsto> (nat_text (Suc n), Some d))" by auto
  have "run srv now (recordFailedAttempt cfg ident) r = run srv now (count_attempt cfg ident (int n + 1)) r1"
    using v(3) by (auto simp: recordFailedAttempt_def run_bind run_status_unlocked [OF laws v(2)] laws_open [OF laws]
        r1(1) Let_def split: prod.splits)
  with run_count_attempt [OF laws ok, of now r1 ident "Suc n" d] r1(2) v n show ?thesis
    by (auto simp: algebra_simps)
qed

lemma run_failed_locked:
  assumes laws: "redis_laws srv view" and rep: "represents view now r ident (Locked u)" and "now + 1000 \<le> u"
  shows "\<exists>res. run srv now (recordFailedAttempt cfg ident) r = (res, r, []) \<and>
    \<not> justLocked res \<and> isLocked (lockoutStatus res)"
proof -
  from rep have "view now r (lockedKey ident) = Some (''1'', Some u)" by simp
  from run_status_locked [OF laws this assms(3), of cfg] show ?thesis
    by (auto simp: recordFailedAttempt_def run_bind failed_result_def)
qed

text \<open>A row of failed logins of one account at the given times.\<close>

fun run_failures :: "'r redis_server \<Rightarrow> lockout_settings \<Rightarrow> string \<Rightarrow> int list \<Rightarrow> 'r \<Rightarrow> lockout_result list \<times> 'r" where
  "run_failures srv cfg ident [] r = ([], r)"
| "run_failures srv cfg ident (t # ts) r =
     (let (res, r1, es) = run srv t (recordFailedAttempt cfg ident) r; (results, r2) = run_failures srv cfg ident ts r1
      in (res # results, r2))"

definition locks_at_end :: "lockout_settings \<Rightarrow> 'r key_view \<Rightarrow> string \<Rightarrow> int list \<Rightarrow> lockout_result list \<times> 'r \<Rightarrow> bool" where
  "locks_at_end cfg view ident ts out \<longleftrightarrow>
     map justLocked (fst out) = replicate (length ts - 1) False @ [True] \<and>
     represents view (List.last ts) (snd out) ident (Locked (List.last ts + 1000 * LOCKOUT_DURATION_SECONDS cfg))"

lemma locks_at_end_Cons:
  assumes "locks_at_end cfg view ident ts (results, r2)" and "\<not> justLocked res" and "ts \<noteq> []"
  shows "locks_at_end cfg view ident (t # ts) (res # results, r2)"
  using assms by (cases ts) (auto simp: locks_at_end_def)

lemma run_failures_counting:
  assumes laws: "redis_laws srv view" and ok: "settings_ok cfg"
  shows "represents view t0 r ident (Counting n d) \<Longrightarrow> sorted (t0 # ts) \<Longrightarrow> \<forall>t \<in> set ts. t < d \<Longrightarrow>
    int n < MAX_LOGIN_ATTEMPTS cfg \<Longrightarrow> int (length ts) = MAX_LOGIN_ATTEMPTS cfg - int n \<Longrightarrow>
    locks_at_end cfg view ident ts (run_failures srv cfg ident ts r)"
proof (induction ts arbitrary: t0 r n)
  case Nil
  then show ?case by simp
next
  case (Cons t ts)
  have "represents view t r ident (account_at t (Counting n d))"
    using represents_later [OF laws Cons.prems(1), of t] Cons.prems(2) by simp
  then have rep: "represents view t r ident (Counting n d)" using Cons.prems(3) by simp
  have "Suc n < 2 ^ 53" using Cons.prems(4) ok by (simp add: settings_ok_def)
  from run_failed_counting [OF laws ok rep this] obtain res r1 es where
    run: "run srv t (recordFailedAttempt cfg ident) r = (res, r1, es)" "counted t res cfg (int n + 1)"
    "represents view t r1 ident (spec_count cfg t (Suc n) d)" by auto
  show ?case
  proof (cases "MAX_LOGIN_ATTEMPTS cfg \<le> int n + 1")
    case True
    with Cons.prems(4,5) have "ts = []" by (cases ts) auto
    with run True show ?thesis by (simp add: locks_at_end_def counted_def spec_count_def)
  next
    case False
    with run(3) have "represents view t r1 ident (Counting (Suc n) d)" by (simp add: spec_count_def)
    from Cons.IH [OF this] Cons.prems False have "locks_at_end cfg view ident ts (run_failures srv cfg ident ts r1)"
      by auto
    moreover have "\<not> justLocked res" "ts \<noteq> []" using run(2) False Cons.prems(5) by (auto simp: counted_def)
    ultimately show ?thesis using run(1) by (auto simp: intro!: locks_at_end_Cons split: prod.splits)
  qed
qed

lemma run_failures_fresh:
  assumes laws: "redis_laws srv view" and ok: "settings_ok cfg"
    and rep: "represents view t r ident Fresh" and srt: "sorted (t # ts)"
    and win: "\<forall>x \<in> set ts. x < t + 1000 * LOCKOUT_WINDOW_SECONDS cfg"
    and len: "int (length (t # ts)) = MAX_LOGIN_ATTEMPTS cfg"
  shows "locks_at_end cfg view ident (t # ts) (run_failures srv cfg ident (t # ts) r)"
proof -
  from run_failed_fresh [OF laws ok rep] obtain res r1 es where
    run: "run srv t (recordFailedAttempt cfg ident) r = (res, r1, es)" "counted t res cfg 1"
    "represents view t r1 ident (spec_count cfg t 1 (t + 1000 * LOCKOUT_WINDOW_SECONDS cfg))" by auto
  show ?thesis
  proof (cases "MAX_LOGIN_ATTEMPTS cfg \<le> 1")
    case True
    with len have "ts = []" by (cases ts) auto
    with run True show ?thesis by (simp add: locks_at_end_def counted_def spec_count_def)
  next
    case False
    with run(3) have "represents view t r1 ident (Counting 1 (t + 1000 * LOCKOUT_WINDOW_SECONDS cfg))"
      by (simp add: spec_count_def)
    from run_failures_counting [OF laws ok this srt win] False len
    have "locks_at_end cfg view ident ts (run_failures srv cfg ident ts r1)" by simp
    moreover have "\<not> justLocked res" "ts \<noteq> []" using run(2) False len by (auto simp: counted_def)
    ultimately show ?thesis using run(1) by (auto intro!: locks_at_end_Cons split: prod.splits)
  qed
qed

lemma run_isAccountLocked:
  assumes laws: "redis_laws srv view" and rep: "represents view now r ident a" and "account_ok cfg now a"
  shows "fst (run srv now (isAccountLocked cfg ident) r) = is_locked_account a"
proof (cases a)
  case (Locked v)
  with rep have "view now r (lockedKey ident) = Some (''1'', Some v)" by simp
  from run_status_locked [OF laws this, of cfg] assms(3) Locked show ?thesis
    by (auto simp: isAccountLocked_def run_bind)
qed (use rep in \<open>auto simp: isAccountLocked_def run_bind run_status_unlocked [OF laws]\<close>)

lemma run_unlock:
  assumes laws: "redis_laws srv view" and rep: "represents view now r ident a"
  shows "\<exists>m r1. serve_del srv now [lockedKey ident, attemptsKey ident] r = (Some m, r1) \<and>
    represents view now r1 ident Fresh \<and> (0 < m \<longleftrightarrow> a \<noteq> Fresh)"
proof -
  from laws_del [OF laws, of "[lockedKey ident, attemptsKey ident]" now r] obtain r1 where
    "serve_del srv now [lockedKey ident, attemptsKey ident] r =
       (Some (int (length (filter (\<lambda>k. view now r k \<noteq> None) [lockedKey ident, attemptsKey ident]))), r1)"
    "view now r1 = (\<lambda>k. if k \<in> {lockedKey ident, attemptsKey ident} then None else view now r k)"
    by auto
  with rep show ?thesis by (cases a) auto
qed

subsection \<open>Properties\<close>

definition default_settings :: lockout_settings where
  "default_settings = \<lparr>MAX_LOGIN_ATTEMPTS = 5, LOCKOUT_WINDOW_SECONDS = 600, LOCKOUT_DURATION_SECONDS = 1800\<rparr>"

lemma default_settings_loaded: "load_settings None None None = Some default_settings"
  by (simp add: load_settings_def parse_setting_def parse_int_def is_space_def is_digit_def digits_value_def Let_def
      of_exact_int [of 5, simplified] of_exact_int [of 10, simplified] of_exact_int [of 30, simplified]
      default_settings_def)

lemma default_settings_ok: "settings_ok default_settings"
  by (simp add: settings_ok_def default_settings_def)

text \<open>
  C34. \<open>recordFailedAttempt\<close> implements the abstract account on any Redis server with the documented
  laws: it counts from a fresh account with the window set at the first failure, locks at the limit for
  the configured duration, does nothing while locked; \<open>justLocked\<close> is the change from unlocked to
  locked, and no key of another account is touched.
\<close>

theorem failed_attempt_refines:
  assumes "redis_laws srv view" and "settings_ok cfg" and "represents view now r ident a" and "account_ok cfg now a"
  shows "\<exists>res r1 es. run srv now (recordFailedAttempt cfg ident) r = (res, r1, es) \<and>
    represents view now r1 ident (spec_fail cfg now a) \<and>
    isLocked (lockoutStatus res) = is_locked_account (spec_fail cfg now a) \<and>
    justLocked res = (\<not> is_locked_account a \<and> is_locked_account (spec_fail cfg now a)) \<and>
    (\<forall>k. k \<notin> {attemptsKey ident, lockedKey ident} \<longrightarrow> view now r1 k = view now r k)"
proof (cases a)
  case Fresh
  with run_failed_fresh [OF assms(1,2)] assms(3) show ?thesis by (fastforce simp: counted_def spec_count_def)
next
  case (Counting n d)
  with assms(2,4) have "Suc n < 2 ^ 53" by (simp add: settings_ok_def)
  with Counting run_failed_counting [OF assms(1,2)] assms(3) show ?thesis
    by (fastforce simp: counted_def spec_count_def)
next
  case (Locked u)
  with run_failed_locked [OF assms(1), of now r ident u cfg] assms(3,4) show ?thesis by auto
qed

theorem failed_attempt_refines_witness:
  "\<exists>res r1 es. run mem_server 1000 (recordFailedAttempt default_settings ''u'') [(''lockout:attempts:u'', (''4'', Some 5000))] = (res, r1, es) \<and>
    represents mem_view 1000 r1 ''u'' (Locked 1801000) \<and> justLocked res"
proof -
  have "nat_text 4 = ''4''" by code_simp
  then show ?thesis
    using failed_attempt_refines [OF mem_server_laws default_settings_ok,
        of 1000 "[(''lockout:attempts:u'', (''4'', Some 5000))]" "''u''" "Counting 4 5000"]
    by (auto simp: default_settings_def mem_view_def live_at_def key_expired_def map_get_def attemptsKey_def lockedKey_def
        spec_count_def)
qed

text \<open>
  An account is locked by exactly the configured number of failures. Starting from a fresh
  account, failures at non-decreasing times inside one window, as many as the limit, report
  \<open>justLocked\<close> at the last one only; then the account is locked up to the last second of the
  configured duration and unlocked when the duration is over.
\<close>

theorem lockout_at_threshold:
  assumes "redis_laws srv view" and "settings_ok cfg" and "represents view t r ident Fresh"
    and "sorted (t # ts)" and "\<forall>x \<in> set ts. x < t + 1000 * LOCKOUT_WINDOW_SECONDS cfg"
    and "int (length (t # ts)) = MAX_LOGIN_ATTEMPTS cfg"
    and "run_failures srv cfg ident (t # ts) r = (results, r1)"
  shows "map justLocked results = replicate (length ts) False @ [True] \<and>
    (\<forall>later. List.last (t # ts) \<le> later \<and> later + 1000 \<le> List.last (t # ts) + 1000 * LOCKOUT_DURATION_SECONDS cfg \<longrightarrow>
       fst (run srv later (isAccountLocked cfg ident) r1)) \<and>
    (\<forall>later. List.last (t # ts) + 1000 * LOCKOUT_DURATION_SECONDS cfg \<le> later \<longrightarrow>
       \<not> fst (run srv later (isAccountLocked cfg ident) r1))"
proof -
  let ?l = "List.last (t # ts)" and ?u = "List.last (t # ts) + 1000 * LOCKOUT_DURATION_SECONDS cfg"
  from run_failures_fresh [OF assms(1-6)] assms(7)
  have out: "map justLocked results = replicate (length ts) False @ [True]" "represents view ?l r1 ident (Locked ?u)"
    by (simp_all add: locks_at_end_def del: List.last.simps)
  have d: "0 < LOCKOUT_DURATION_SECONDS cfg" using assms(2) by (simp add: settings_ok_def)
  have "fst (run srv later (isAccountLocked cfg ident) r1)" if "?l \<le> later" "later + 1000 \<le> ?u" for later
    using represents_later [OF assms(1) out(2) that(1)] run_isAccountLocked [OF assms(1), of later r1 ident "Locked ?u" cfg] that
    by (simp del: List.last.simps)
  moreover have "\<not> fst (run srv later (isAccountLocked cfg ident) r1)" if "?u \<le> later" for later
    using represents_later [OF assms(1) out(2), of later] run_isAccountLocked [OF assms(1), of later r1 ident Fresh cfg] that d
    by (simp del: List.last.simps)
  ultimately show ?thesis using out(1) by blast
qed

theorem lockout_at_threshold_witness:
  "fst (run mem_server 60000 (isAccountLocked default_settings ''u'')
     (snd (run_failures mem_server default_settings ''u'' [0, 10, 20, 30, 40] []))) \<and>
   \<not> fst (run mem_server 1800040 (isAccountLocked default_settings ''u'')
     (snd (run_failures mem_server default_settings ''u'' [0, 10, 20, 30, 40] [])))"
proof -
  obtain results r1 where r: "run_failures mem_server default_settings ''u'' [0, 10, 20, 30, 40] [] = (results, r1)"
    by (cases "run_failures mem_server default_settings ''u'' [0, 10, 20, 30, 40] []")
  have "represents mem_view 0 [] ''u'' Fresh" by (simp add: mem_view_def live_at_def)
  from lockout_at_threshold [OF mem_server_laws default_settings_ok this _ _ _ r]
  have "(\<forall>later. 40 \<le> later \<and> later + 1000 \<le> 40 + 1800000 \<longrightarrow> fst (run mem_server later (isAccountLocked default_settings ''u'') r1)) \<and>
    (\<forall>later. 40 + 1800000 \<le> later \<longrightarrow> \<not> fst (run mem_server later (isAccountLocked default_settings ''u'') r1))"
    by (simp add: default_settings_def)
  then show ?thesis unfolding r snd_conv by simp
qed

text \<open>
  \<open>adminUnlock\<close> and a successful login make the account fresh. The value of \<open>adminUnlock\<close> is true
  for every account that is not fresh, so also for one that only has failed attempts and no lock.
\<close>

theorem unlock_makes_fresh:
  assumes "redis_laws srv view" and "represents view now r ident a"
  shows "\<exists>r1 es r2 es'. run srv now (adminUnlock ident admin) r = (a \<noteq> Fresh, r1, es) \<and>
    represents view now r1 ident Fresh \<and> (es = (if a \<noteq> Fresh then [Unlocked_event ident admin] else [])) \<and>
    run srv now (recordSuccessfulLogin ident) r = ((), r2, es') \<and> represents view now r2 ident Fresh"
  using run_unlock [OF assms] by (auto simp: adminUnlock_def recordSuccessfulLogin_def laws_open [OF assms(1)] Let_def)

theorem unlock_makes_fresh_witness:
  "fst (run mem_server 1000 (adminUnlock ''u'' None) [(''lockout:attempts:u'', (''1'', Some 5000))])"
proof -
  have "nat_text 1 = ''1''" by code_simp
  then show ?thesis
    using unlock_makes_fresh [OF mem_server_laws,
        of 1000 "[(''lockout:attempts:u'', (''1'', Some 5000))]" "''u''" "Counting 1 5000" None]
    by (auto simp: mem_view_def live_at_def key_expired_def map_get_def attemptsKey_def lockedKey_def)
qed

text \<open>
  Two failed logins that arrive together at the last attempt are both told \<open>justLocked\<close>, and
  two \<open>locked\<close> events are emitted: both increments happen before the counter is deleted, and the answer
  of \<open>SET NX\<close> is not looked at.
\<close>

definition racing_schedule :: "(nat \<times> int) list" where
  "racing_schedule = [(0, 2000), (1, 2000), (0, 2000), (1, 2000), (0, 2000), (1, 2000), (0, 2000), (1, 2000),
     (0, 2000), (1, 2000), (0, 2000), (1, 2000), (0, 2000), (1, 2000), (0, 2000), (1, 2000), (0, 2000), (1, 2000)]"

definition racing_end :: "(lockout_event, lockout_result) prog list \<times> mem_state \<times> lockout_event list" where
  "racing_end = interleave mem_server racing_schedule
     [recordFailedAttempt default_settings ''u'', recordFailedAttempt default_settings ''u'']
     [(attemptsKey ''u'', (nat_text 4, Some 600000))]"

lemma incr_text: "int_text (int n + 1) = nat_text (Suc n)"
  by (simp add: int_text_def nat_add_distrib)

theorem double_lock_notification:
  "\<exists>res0 res1 m. racing_end = ([Return res0, Return res1], m,
     [Locked_event ''u'' 5 2000 1802000, Locked_event ''u'' 6 2000 1802000]) \<and> justLocked res0 \<and> justLocked res1"
  unfolding racing_end_def racing_schedule_def recordFailedAttempt_def getLockoutStatus_def default_settings_def
  by (simp add: mem_server_def mem_view_def live_at_def key_expired_def map_get_set map_get_def [of "[(a, b)]" for a b]
      map_get_delete parse_int_nat_text incr_text [of 4, simplified] incr_text [of 5, simplified] count_attempt_def
      lock_account_def failed_result_def Let_def)

end
