(* ===== verification/Js_Bytes.thy ===== *)
theory Js_Bytes
  imports Js_Value "HOL-Library.Word"
begin

text \<open>
  Node buffers: bytes as 8-bit words, the \<open>hex\<close> and \<open>utf8\<close> encodings of \<open>Buffer.from\<close> and
  \<open>toString\<close>. The strings of the model hold the characters up to U+00FF; \<open>of_utf8\<close> reads anything else
  as a question mark. The contract \<open>codec\<close> says that decoding gives back what was encoded.
\<close>

type_synonym bytes = "8 word list"

subsection \<open>Codecs\<close>

locale codec =
  fixes encode :: "'a \<Rightarrow> 'b"
    and decode :: "'b \<Rightarrow> 'a"
    and valid :: "'a \<Rightarrow> bool"
  assumes decode_encode: "valid x \<Longrightarrow> decode (encode x) = x"
begin

lemma encode_inject: "valid x \<Longrightarrow> valid y \<Longrightarrow> encode x = encode y \<longleftrightarrow> x = y"
  using decode_encode by metis

lemma encode_inj_on: "inj_on encode {x. valid x}"
  by (auto simp: inj_on_def encode_inject)

end

subsection \<open>Hexadecimal\<close>

definition hex_digit :: "nat \<Rightarrow> char" where
  "hex_digit n = (if n < 10 then char_of (48 + n) else char_of (87 + n))"

definition hex_value :: "char \<Rightarrow> nat option" where
  "hex_value c =
     (let n = of_char c :: nat in
      if 48 \<le> n \<and> n \<le> 57 then Some (n - 48)
      else if 97 \<le> n \<and> n \<le> 102 then Some (n - 87)
      else if 65 \<le> n \<and> n \<le> 70 then Some (n - 55) else None)"

definition to_hex :: "bytes \<Rightarrow> string" where
  "to_hex bs = concat (map (\<lambda>b. [hex_digit (unat b div 16), hex_digit (unat b mod 16)]) bs)"

text \<open>\<open>Buffer.from(s, "hex")\<close> stops at the first pair that is not hexadecimal.\<close>

fun from_hex :: "string \<Rightarrow> bytes" where
  "from_hex (a # b # s) =
     (case (hex_value a, hex_value b) of (Some x, Some y) \<Rightarrow> of_nat (16 * x + y) # from_hex s | _ \<Rightarrow> [])"
| "from_hex s = []"

lemma hex_value_digit: "n < 16 \<Longrightarrow> hex_value (hex_digit n) = Some n"
  by (auto simp: hex_value_def hex_digit_def Let_def)

lemma unat_byte: "unat (b :: 8 word) < 256"
  using unsigned_less [of b, where ?'a = nat] by simp

lemma from_hex_to_hex: "from_hex (to_hex bs) = bs"
proof (induction bs)
  case (Cons b bs)
  have "unat b div 16 < 16" using unat_byte [of b] by (simp add: less_mult_imp_div_less)
  moreover have "16 * (unat b div 16) + unat b mod 16 = unat b" by simp
  then have "(of_nat (16 * (unat b div 16) + unat b mod 16) :: 8 word) = b" by (simp only: of_nat_unat ucast_id)
  ultimately show ?case using Cons by (simp add: to_hex_def hex_value_digit)
qed (simp add: to_hex_def)

lemma hex_digit_no_colon: "n < 16 \<Longrightarrow> hex_digit n \<noteq> CHR '':''"
  using hex_value_digit [of n] by (auto simp: hex_value_def)

lemma to_hex_no_colon: "CHR '':'' \<notin> set (to_hex bs)"
proof -
  have "unat b div 16 < 16" "unat b mod 16 < 16" for b :: "8 word"
    using unat_byte [of b] by (simp_all add: less_mult_imp_div_less)
  then show ?thesis by (auto simp: to_hex_def dest!: arg_cong [where f = hex_value] simp: hex_value_digit hex_value_def [of "CHR '':''"])
qed

lemma to_hex_append: "to_hex (a @ b) = to_hex a @ to_hex b"
  by (simp add: to_hex_def)

interpretation hexc: codec to_hex from_hex "\<lambda>b. True"
  by unfold_locales (rule from_hex_to_hex)

subsection \<open>UTF-8\<close>

definition utf8_char :: "char \<Rightarrow> bytes" where
  "utf8_char c =
     (let n = of_char c :: nat
      in if n < 128 then [of_nat n] else [of_nat (192 + n div 64), of_nat (128 + n mod 64)])"

definition to_utf8 :: "string \<Rightarrow> bytes" where
  "to_utf8 s = concat (map utf8_char s)"

fun of_utf8 :: "bytes \<Rightarrow> string" where
  "of_utf8 [] = []"
| "of_utf8 [a] = [if unat a < 128 then char_of (unat a) else CHR ''?'']"
| "of_utf8 (a # b # s) =
     (if unat a < 128 then char_of (unat a) # of_utf8 (b # s)
      else if 194 \<le> unat a \<and> unat a < 196 \<and> 128 \<le> unat b \<and> unat b < 192
      then char_of (64 * (unat a - 192) + (unat b - 128)) # of_utf8 s
      else CHR ''?'' # of_utf8 (b # s))"

lemma unat_of_nat8: "n < 256 \<Longrightarrow> unat (of_nat n :: 8 word) = n"
  by (simp add: unat_of_nat)

lemma of_utf8_ascii: "unat a < 128 \<Longrightarrow> of_utf8 (a # s) = char_of (unat a) # of_utf8 s"
  by (cases s) auto

lemma of_utf8_char: "of_utf8 (utf8_char c @ s) = c # of_utf8 s"
proof -
  define n where "n = (of_char c :: nat)"
  have n: "n < 256" "char_of n = c" by (simp_all add: n_def)
  show ?thesis
  proof (cases "n < 128")
    case True
    with n show ?thesis by (simp add: utf8_char_def Let_def n_def [symmetric] of_utf8_ascii unat_of_nat8)
  next
    case False
    have "2 \<le> n div 64" "n div 64 < 4" using n(1) False by (auto simp: less_mult_imp_div_less intro: div_le_mono [of 128 _ 64, simplified])
    then have "unat (of_nat (192 + n div 64) :: 8 word) = 192 + n div 64" "194 \<le> 192 + n div 64" "192 + n div 64 < 196"
      by (auto simp: unat_of_nat8 simp del: of_nat_add)
    moreover have "unat (of_nat (128 + n mod 64) :: 8 word) = 128 + n mod 64"
      by (rule unat_of_nat8) (use mod_less_divisor [of 64 n] in linarith)
    ultimately show ?thesis using False n
      by (simp add: utf8_char_def Let_def n_def [symmetric] del: of_nat_add)
  qed
qed

lemma of_utf8_to_utf8: "of_utf8 (to_utf8 s) = s"
  by (induction s) (simp_all add: to_utf8_def of_utf8_char)

interpretation utf8c: codec to_utf8 of_utf8 "\<lambda>s. True"
  by unfold_locales (rule of_utf8_to_utf8)

end
