(* ===== verification/Pii_Encryption.thy ===== *)
theory Pii_Encryption
  imports Js_Bytes
begin

text \<open>
  \<open>src/src/utils/encryption.ts\<close>: the encryption of personal data fields with key rotation.

  HMAC-SHA-256 and AES-256-GCM of Node's crypto module are the parameter \<open>crypto_lib\<close>; \<open>gcm_laws\<close> says
  that a sealed text opens under its key, that a digest has 32 bytes, and \<open>rejects_other_keys\<close> that a
  sealed text does not open under another key. The random initialisation vector is an argument. The
  environment is the record \<open>enc_env\<close>; the JSON text of \<open>DB_ENCRYPTION_KEYS\<close> is given by the entries of
  the object it denotes, or \<open>None\<close> for a text that does not parse. A failed decryption has one error, whether the tag, the key
  or the length of a part is wrong. The type \<open>string option\<close> of a field
  stands for a string, null or undefined. Warnings on the console are not modelled.
\<close>

subsection \<open>Parameters\<close>

record crypto_lib =
  hmac :: "bytes \<Rightarrow> bytes \<Rightarrow> bytes"
  seal :: "bytes \<Rightarrow> bytes \<Rightarrow> bytes \<Rightarrow> bytes \<times> bytes"
  open_sealed :: "bytes \<Rightarrow> bytes \<Rightarrow> bytes \<Rightarrow> bytes \<Rightarrow> bytes option"

definition gcm_laws :: "crypto_lib \<Rightarrow> bool" where
  "gcm_laws c \<longleftrightarrow> (\<forall>k d. length (hmac c k d) = 32) \<and>
     (\<forall>k iv p ct tag. length k = 32 \<longrightarrow> seal c k iv p = (ct, tag) \<longrightarrow> open_sealed c k iv tag ct = Some p)"

definition rejects_other_keys :: "crypto_lib \<Rightarrow> bytes \<Rightarrow> bytes \<Rightarrow> bytes \<Rightarrow> bool" where
  "rejects_other_keys c k iv p \<longleftrightarrow>
     (\<forall>k'. k' \<noteq> k \<longrightarrow> open_sealed c k' iv (snd (seal c k iv p)) (fst (seal c k iv p)) = None)"

record enc_env =
  DB_ENCRYPTION_KEY :: string
  DB_ENCRYPTION_KEYS :: "(string \<times> string) list option option"
  process_env :: "(string \<times> string) list"
  ACTIVE_ENCRYPTION_KEY_VERSION :: "string option"

datatype enc_error = KeyLength | DecryptionFailed | InvalidFormat

subsection \<open>Keys\<close>

definition IV_LENGTH :: nat where
  "IV_LENGTH = 12"

definition deriveKey :: "crypto_lib \<Rightarrow> string \<Rightarrow> string \<Rightarrow> bytes" where
  "deriveKey c keyMaterial info =
     (let prk = hmac c (to_utf8 ''proxypay-hkdf-salt'') (to_utf8 keyMaterial)
      in take 32 (hmac c prk (to_utf8 info @ [1])))"

abbreviation default_info :: string where
  "default_info \<equiv> ''pii-encryption''"

definition deriveUserKey :: "crypto_lib \<Rightarrow> enc_env \<Rightarrow> string \<Rightarrow> bytes" where
  "deriveUserKey c env userId = deriveKey c (DB_ENCRYPTION_KEY env) (''pii-user-'' @ userId)"

subsection \<open>AES-256-GCM\<close>

record encrypted_payload =
  iv_hex :: string
  authTag :: string
  ciphertext :: string

definition encryptAES :: "crypto_lib \<Rightarrow> bytes \<Rightarrow> string \<Rightarrow> bytes \<Rightarrow> enc_error + encrypted_payload" where
  "encryptAES c iv plaintext key =
     (if length key \<noteq> 32 then Inl KeyLength
      else let (ct, tag) = seal c key iv (to_utf8 plaintext)
           in Inr \<lparr>iv_hex = to_hex iv, authTag = to_hex tag, ciphertext = to_hex ct\<rparr>)"

definition decryptAES :: "crypto_lib \<Rightarrow> encrypted_payload \<Rightarrow> bytes \<Rightarrow> enc_error + string" where
  "decryptAES c payload key =
     (if length key \<noteq> 32 then Inl KeyLength
      else case open_sealed c key (from_hex (iv_hex payload)) (from_hex (authTag payload)) (from_hex (ciphertext payload)) of
        None \<Rightarrow> Inl DecryptionFailed
      | Some plain \<Rightarrow> Inr (of_utf8 plain))"

definition serializePayload :: "encrypted_payload \<Rightarrow> string" where
  "serializePayload p = iv_hex p @ '':'' @ authTag p @ '':'' @ ciphertext p"

definition deserializePayload :: "string \<Rightarrow> enc_error + encrypted_payload" where
  "deserializePayload raw =
     (case split (CHR '':'') raw of
        [iv, tag, ct] \<Rightarrow> Inr \<lparr>iv_hex = iv, authTag = tag, ciphertext = ct\<rparr>
      | _ \<Rightarrow> Inl InvalidFormat)"

subsection \<open>The key registry\<close>

abbreviation key_prefix :: string where
  "key_prefix \<equiv> ''DB_ENCRYPTION_KEY_''"

definition getEncryptionKeys :: "enc_env \<Rightarrow> (string, string) js_map" where
  "getEncryptionKeys env =
     (let keys0 = (if DB_ENCRYPTION_KEY env \<noteq> [] then map_set ''legacy'' (DB_ENCRYPTION_KEY env) [] else []);
          keys1 = (case DB_ENCRYPTION_KEYS env of
              Some (Some entries) \<Rightarrow> foldl (\<lambda>m (ver, val). map_set (toLowerCase ver) val m) keys0 entries
            | _ \<Rightarrow> keys0)
      in foldl (\<lambda>m (key, val).
           if startsWith key key_prefix \<and> val \<noteq> []
           then map_set (toLowerCase (drop (length key_prefix) key)) val m else m) keys1 (process_env env))"

definition legacy_material :: "enc_env \<Rightarrow> string" where
  "legacy_material env =
     (case map_get (getEncryptionKeys env) ''legacy'' of
        Some v \<Rightarrow> if v = [] then DB_ENCRYPTION_KEY env else v
      | None \<Rightarrow> DB_ENCRYPTION_KEY env)"

definition active_version :: "enc_env \<Rightarrow> string" where
  "active_version env = toLowerCase (case ACTIVE_ENCRYPTION_KEY_VERSION env of None \<Rightarrow> [] | Some v \<Rightarrow> v)"

subsection \<open>Fields\<close>

definition encryptField :: "crypto_lib \<Rightarrow> enc_env \<Rightarrow> bytes \<Rightarrow> string option \<Rightarrow> enc_error + string option" where
  "encryptField c env iv v =
     (if \<not> truthy_string v then Inr v
      else let ver = active_version env; keys = getEncryptionKeys env in
        if ver \<noteq> [] \<and> ver \<noteq> ''legacy'' \<and> map_get keys ver \<noteq> None then
          (case encryptAES c iv (the v) (deriveKey c (the (map_get keys ver)) default_info) of
             Inl e \<Rightarrow> Inl e
           | Inr p \<Rightarrow> Inr (Some (ver @ '':'' @ serializePayload p)))
        else
          (case encryptAES c iv (the v) (deriveKey c (legacy_material env) default_info) of
             Inl e \<Rightarrow> Inl e
           | Inr p \<Rightarrow> Inr (Some (serializePayload p))))"

definition open_payload :: "crypto_lib \<Rightarrow> string \<Rightarrow> bytes \<Rightarrow> enc_error + string" where
  "open_payload c raw key = (case deserializePayload raw of Inl e \<Rightarrow> Inl e | Inr p \<Rightarrow> decryptAES c p key)"

definition decryptField :: "crypto_lib \<Rightarrow> enc_env \<Rightarrow> string option \<Rightarrow> string option" where
  "decryptField c env v =
     (if \<not> truthy_string v then v
      else let raw = the v; parts = split (CHR '':'') raw; keys = getEncryptionKeys env;
               opened = (if length parts \<ge> 4 \<and> map_get keys (toLowerCase (parts ! 0)) \<noteq> None
                 then open_payload c (join '':'' (tl parts))
                        (deriveKey c (the (map_get keys (toLowerCase (parts ! 0)))) default_info)
                 else open_payload c raw (deriveKey c (legacy_material env) default_info))
           in case opened of Inr plain \<Rightarrow> Some plain | Inl e \<Rightarrow> Some raw)"

definition encryptFieldForUser ::
  "crypto_lib \<Rightarrow> enc_env \<Rightarrow> bytes \<Rightarrow> string option \<Rightarrow> string \<Rightarrow> enc_error + string option" where
  "encryptFieldForUser c env iv v userId =
     (if \<not> truthy_string v then Inr v
      else case encryptAES c iv (the v) (deriveUserKey c env userId) of
        Inl e \<Rightarrow> Inl e
      | Inr p \<Rightarrow> Inr (Some (serializePayload p)))"

text \<open>The loop over the registered keys: the first that opens the payload, else the last error.\<close>

fun try_keys :: "(bytes \<Rightarrow> enc_error + string) \<Rightarrow> bytes list \<Rightarrow> string \<Rightarrow> enc_error + string" where
  "try_keys dec [] raw = Inr raw"
| "try_keys dec [k] raw = dec k"
| "try_keys dec (k # k' # ks) raw = (case dec k of Inr s \<Rightarrow> Inr s | Inl e \<Rightarrow> try_keys dec (k' # ks) raw)"

definition global_keys :: "crypto_lib \<Rightarrow> enc_env \<Rightarrow> bytes list" where
  "global_keys c env = map (\<lambda>kv. deriveKey c (snd kv) default_info) (getEncryptionKeys env)"

definition decryptFieldForUser :: "crypto_lib \<Rightarrow> enc_env \<Rightarrow> string option \<Rightarrow> string \<Rightarrow> enc_error + string option" where
  "decryptFieldForUser c env v userId =
     (if \<not> truthy_string v then Inr v
      else case deserializePayload (the v) of
        Inl e \<Rightarrow> Inl e
      | Inr p \<Rightarrow> (case try_keys (decryptAES c p) (global_keys c env) (the v) of
            Inl e \<Rightarrow> Inl e
          | Inr s \<Rightarrow> Inr (Some s)))"

subsection \<open>The older functions\<close>

definition DETERMINISTIC_IV :: bytes where
  "DETERMINISTIC_IV = replicate IV_LENGTH 0"

definition encrypt :: "crypto_lib \<Rightarrow> enc_env \<Rightarrow> bytes \<Rightarrow> string option \<Rightarrow> bool \<Rightarrow> string option" where
  "encrypt c env random text deterministic =
     (if \<not> truthy_string text then text
      else let key = deriveKey c (DB_ENCRYPTION_KEY env) default_info;
               iv = (if deterministic then DETERMINISTIC_IV else random);
               (ct, tag) = seal c key iv (to_utf8 (the text))
           in Some (to_hex iv @ '':'' @ to_hex tag @ '':'' @ to_hex ct))"

definition decrypt_with :: "crypto_lib \<Rightarrow> bytes \<Rightarrow> bytes \<Rightarrow> bytes \<Rightarrow> bytes \<Rightarrow> enc_error + string" where
  "decrypt_with c iv tag ct key =
     (case open_sealed c key iv tag ct of None \<Rightarrow> Inl DecryptionFailed | Some plain \<Rightarrow> Inr (of_utf8 plain))"

definition decrypt :: "crypto_lib \<Rightarrow> enc_env \<Rightarrow> string option \<Rightarrow> enc_error + string option" where
  "decrypt c env data =
     (if \<not> truthy_string data \<or> CHR '':'' \<notin> set (the data) then Inr data
      else case split (CHR '':'') (the data) of
        [iv, tag, ct] \<Rightarrow>
          (case try_keys (decrypt_with c (from_hex iv) (from_hex tag) (from_hex ct)) (global_keys c env) (the data) of
             Inl e \<Rightarrow> Inl e
           | Inr s \<Rightarrow> Inr (Some s))
      | _ \<Rightarrow> Inr data)"

definition hashSearchValue :: "crypto_lib \<Rightarrow> enc_env \<Rightarrow> string \<Rightarrow> string" where
  "hashSearchValue c env v = to_hex (hmac c (deriveKey c (DB_ENCRYPTION_KEY env) ''pii-search'') (to_utf8 v))"

subsection \<open>Serialisation\<close>

definition colon_free :: "encrypted_payload \<Rightarrow> bool" where
  "colon_free p \<longleftrightarrow> CHR '':'' \<notin> set (iv_hex p) \<and> CHR '':'' \<notin> set (authTag p) \<and> CHR '':'' \<notin> set (ciphertext p)"

lemma split_payload: "colon_free p \<Longrightarrow> split (CHR '':'') (serializePayload p) = [iv_hex p, authTag p, ciphertext p]"
  by (simp add: serializePayload_def colon_free_def split_on_append split_on_no_sep)

lemma deserialize_serialize: "colon_free p \<Longrightarrow> deserializePayload (serializePayload p) = Inr p"
  by (simp add: deserializePayload_def split_payload)

lemma encryptAES_colon_free: "encryptAES c iv plain key = Inr p \<Longrightarrow> colon_free p"
  by (auto simp: encryptAES_def colon_free_def to_hex_no_colon split: if_splits prod.splits)

lemma encryptAES_total: "length key = 32 \<Longrightarrow> \<exists>p. encryptAES c iv plain key = Inr p"
  by (simp add: encryptAES_def split: prod.splits)

lemma length_deriveKey: "gcm_laws c \<Longrightarrow> length (deriveKey c m i) = 32"
  by (simp add: gcm_laws_def deriveKey_def)

text \<open>Opening what was sealed, under the same derived key.\<close>

lemma decrypt_encryptAES:
  assumes "gcm_laws c" and "length key = 32" and "encryptAES c iv plain key = Inr p"
  shows "decryptAES c p key = Inr plain"
proof -
  obtain ct tag where s: "seal c key iv (to_utf8 plain) = (ct, tag)" "p = \<lparr>iv_hex = to_hex iv, authTag = to_hex tag, ciphertext = to_hex ct\<rparr>"
    using assms(2,3) by (auto simp: encryptAES_def split: prod.splits)
  with assms(1,2) have "open_sealed c key iv tag ct = Some (to_utf8 plain)" by (simp add: gcm_laws_def)
  with s(2) assms(2) show ?thesis by (simp add: decryptAES_def from_hex_to_hex of_utf8_to_utf8)
qed

lemma open_sealed_payload:
  assumes "gcm_laws c" and "encryptAES c iv plain (deriveKey c m i) = Inr p"
  shows "open_payload c (serializePayload p) (deriveKey c m i) = Inr plain"
  using assms by (simp add: open_payload_def deserialize_serialize [OF encryptAES_colon_free] decrypt_encryptAES length_deriveKey)

lemma lower_char_idem: "lower_char (lower_char c) = lower_char c"
  by (auto simp: lower_char_def Let_def)

lemma toLowerCase_idem: "toLowerCase (toLowerCase s) = toLowerCase s"
  by (simp add: toLowerCase_def lower_char_idem)

definition uses_version :: "enc_env \<Rightarrow> bool" where
  "uses_version env \<longleftrightarrow> active_version env \<noteq> [] \<and> active_version env \<noteq> ''legacy'' \<and>
     map_get (getEncryptionKeys env) (active_version env) \<noteq> None"

text \<open>The key that \<open>encryptField\<close> uses under \<open>env\<close> is still the one registered under \<open>env'\<close>.\<close>

definition key_kept :: "enc_env \<Rightarrow> enc_env \<Rightarrow> bool" where
  "key_kept env env' \<longleftrightarrow>
     (if uses_version env
      then map_get (getEncryptionKeys env') (active_version env) = map_get (getEncryptionKeys env) (active_version env)
      else legacy_material env' = legacy_material env)"

lemma decryptField_versioned:
  assumes "colon_free p" and "CHR '':'' \<notin> set ver" and "toLowerCase ver = ver"
    and "map_get (getEncryptionKeys env) ver = Some m"
  shows "decryptField c env (Some (ver @ '':'' @ serializePayload p)) =
    (case open_payload c (serializePayload p) (deriveKey c m default_info) of
       Inr plain \<Rightarrow> Some plain | Inl e \<Rightarrow> Some (ver @ '':'' @ serializePayload p))"
proof -
  have sp: "split (CHR '':'') (ver @ '':'' @ serializePayload p) = [ver, iv_hex p, authTag p, ciphertext p]"
    using assms(1,2) by (simp add: split_on_append split_payload)
  moreover have "join '':'' [iv_hex p, authTag p, ciphertext p] = serializePayload p"
    by (simp add: serializePayload_def)
  ultimately show ?thesis using assms(3,4) by (simp add: decryptField_def Let_def split: sum.splits)
qed

lemma decryptField_legacy:
  assumes "colon_free p"
  shows "decryptField c env (Some (serializePayload p)) =
    (case open_payload c (serializePayload p) (deriveKey c (legacy_material env) default_info) of
       Inr plain \<Rightarrow> Some plain | Inl e \<Rightarrow> Some (serializePayload p))"
  using assms by (simp add: decryptField_def Let_def split_payload) (simp add: serializePayload_def split: sum.splits)

lemma try_keys_mem:
  assumes "k \<in> set ks" and "dec k = Inr s" and "\<forall>k' \<in> set ks. k' \<noteq> k \<longrightarrow> (\<exists>e. dec k' = Inl e)"
  shows "try_keys dec ks raw = Inr s"
  using assms
proof (induction dec ks raw rule: try_keys.induct)
  case (3 dec k1 k2 ks raw)
  then show ?case by (cases "k1 = k") (auto split: sum.splits)
qed auto

lemma try_keys_none:
  assumes "ks \<noteq> []" and "\<forall>k \<in> set ks. dec k = Inl e"
  shows "try_keys dec ks raw = Inl e"
  using assms by (induction dec ks raw rule: try_keys.induct) auto

lemma decryptAES_rejected:
  assumes "gcm_laws c" and "length key = 32" and "encryptAES c iv plain key = Inr p"
    and "rejects_other_keys c key iv (to_utf8 plain)" and "key' \<noteq> key" and "length key' = 32"
  shows "decryptAES c p key' = Inl DecryptionFailed"
  using assms
  by (auto simp: encryptAES_def decryptAES_def rejects_other_keys_def from_hex_to_hex split: prod.splits if_splits)

lemma keys_not_Nil:
  assumes "DB_ENCRYPTION_KEY env \<noteq> []"
  shows "getEncryptionKeys env \<noteq> []"
proof -
  have set: "foldl (\<lambda>m (ver, val). map_set (toLowerCase ver) val m) m entries \<noteq> []" if "m \<noteq> []"
    for m :: "(string, string) js_map" and entries
    using that by (rule foldl_invariant) (simp split: prod.splits)
  have scan: "foldl (\<lambda>m (key, val). if startsWith key key_prefix \<and> val \<noteq> []
      then map_set (toLowerCase (drop (length key_prefix) key)) val m else m) m entries \<noteq> []" if "m \<noteq> []"
    for m :: "(string, string) js_map" and entries
    using that by (rule foldl_invariant) (simp split: prod.splits)
  show ?thesis unfolding getEncryptionKeys_def Let_def
    by (rule scan) (simp add: assms set split: option.splits)
qed

subsection \<open>Properties\<close>

text \<open>
  A field survives key rotation. Whatever the environment becomes, as long as the key that
  encrypted a field is still registered under its version (or is still the legacy key), decrypting
  gives back the text.
\<close>

theorem field_survives_rotation:
  assumes "gcm_laws c" and "v \<noteq> []" and "CHR '':'' \<notin> set (active_version env)" and "key_kept env env'"
  shows "\<exists>raw. encryptField c env iv (Some v) = Inr (Some raw) \<and> decryptField c env' (Some raw) = Some v"
proof (cases "uses_version env")
  case True
  then obtain m where m: "map_get (getEncryptionKeys env) (active_version env) = Some m"
    by (auto simp: uses_version_def)
  then have m': "map_get (getEncryptionKeys env') (active_version env) = Some m"
    using assms(4) True by (simp add: key_kept_def)
  obtain p where p: "encryptAES c iv v (deriveKey c m default_info) = Inr p"
    using encryptAES_total length_deriveKey [OF assms(1)] by blast
  have "toLowerCase (active_version env) = active_version env" by (simp add: active_version_def toLowerCase_idem)
  note dec = decryptField_versioned [OF encryptAES_colon_free [OF p] assms(3) this m', of c]
  have "encryptField c env iv (Some v) = Inr (Some (active_version env @ '':'' @ serializePayload p))"
    using True m p assms(2) by (simp add: encryptField_def uses_version_def Let_def)
  with dec open_sealed_payload [OF assms(1) p] show ?thesis by simp
next
  case False
  obtain p where p: "encryptAES c iv v (deriveKey c (legacy_material env) default_info) = Inr p"
    using encryptAES_total length_deriveKey [OF assms(1)] by blast
  have "encryptField c env iv (Some v) = Inr (Some (serializePayload p))"
    using False p assms(2) by (auto simp: encryptField_def uses_version_def Let_def)
  moreover have "legacy_material env' = legacy_material env" using assms(4) False by (simp add: key_kept_def)
  ultimately show ?thesis
    using decryptField_legacy [OF encryptAES_colon_free [OF p], of c env'] open_sealed_payload [OF assms(1) p] by simp
qed

definition toy_crypto :: crypto_lib where
  "toy_crypto = \<lparr>hmac = (\<lambda>k d. take 32 (d @ k @ replicate 32 0)), seal = (\<lambda>k iv p. (p, k)),
     open_sealed = (\<lambda>k iv tag ct. if tag = k then Some ct else None)\<rparr>"

lemma toy_crypto_laws: "gcm_laws toy_crypto"
  by (auto simp: gcm_laws_def toy_crypto_def)

lemma toy_crypto_rejects: "rejects_other_keys toy_crypto k iv p"
  by (simp add: rejects_other_keys_def toy_crypto_def)

definition env_v1 :: enc_env where
  "env_v1 = \<lparr>DB_ENCRYPTION_KEY = ''old'', DB_ENCRYPTION_KEYS = None,
     process_env = [(''DB_ENCRYPTION_KEY_V1'', ''one'')], ACTIVE_ENCRYPTION_KEY_VERSION = Some ''V1''\<rparr>"

definition env_v2 :: enc_env where
  "env_v2 = \<lparr>DB_ENCRYPTION_KEY = ''old'', DB_ENCRYPTION_KEYS = None,
     process_env = [(''DB_ENCRYPTION_KEY_V1'', ''one''), (''DB_ENCRYPTION_KEY_V2'', ''two'')],
     ACTIVE_ENCRYPTION_KEY_VERSION = Some ''v2''\<rparr>"

theorem field_survives_rotation_witness:
  "\<exists>raw. encryptField toy_crypto env_v1 [1, 2, 3] (Some ''secret'') = Inr (Some raw) \<and>
     decryptField toy_crypto env_v2 (Some raw) = Some ''secret''"
proof (rule field_survives_rotation [OF toy_crypto_laws])
  show "''secret'' \<noteq> []" by simp
  show "CHR '':'' \<notin> set (active_version env_v1)" by code_simp
  have "getEncryptionKeys env_v1 = [(''legacy'', ''old''), (''v1'', ''one'')]"
    "getEncryptionKeys env_v2 = [(''legacy'', ''old''), (''v1'', ''one''), (''v2'', ''two'')]"
    "active_version env_v1 = ''v1''" by code_simp+
  then show "key_kept env_v1 env_v2" by (simp add: key_kept_def uses_version_def map_get_def)
qed

text \<open>
  A field encrypted for a user cannot be decrypted for that user. \<open>encryptFieldForUser\<close> uses the
  key derived for the user, \<open>decryptFieldForUser\<close> tries the keys derived for the general purpose only:
  when the cipher rejects wrong keys and the key of the user is not one of these, it throws.
\<close>

theorem user_field_unreadable:
  assumes "gcm_laws c" and "v \<noteq> []" and "DB_ENCRYPTION_KEY env \<noteq> []"
    and "deriveUserKey c env userId \<notin> set (global_keys c env)"
    and "rejects_other_keys c (deriveUserKey c env userId) iv (to_utf8 v)"
  shows "\<exists>raw. encryptFieldForUser c env iv (Some v) userId = Inr (Some raw) \<and>
    decryptFieldForUser c env (Some raw) userId = Inl DecryptionFailed"
proof -
  have len: "length (deriveUserKey c env userId) = 32" by (simp add: deriveUserKey_def length_deriveKey [OF assms(1)])
  then obtain p where p: "encryptAES c iv v (deriveUserKey c env userId) = Inr p" using encryptAES_total by blast
  have "\<forall>k \<in> set (global_keys c env). decryptAES c p k = Inl DecryptionFailed"
  proof
    fix k
    assume k: "k \<in> set (global_keys c env)"
    then have "length k = 32" using length_deriveKey [OF assms(1)] by (auto simp: global_keys_def)
    with k show "decryptAES c p k = Inl DecryptionFailed"
      using assms(4) by (intro decryptAES_rejected [OF assms(1) len p assms(5)]) auto
  qed
  moreover have "global_keys c env \<noteq> []" using keys_not_Nil [OF assms(3)] by (simp add: global_keys_def)
  ultimately have "try_keys (decryptAES c p) (global_keys c env) (serializePayload p) = Inl DecryptionFailed"
    by (intro try_keys_none)
  with p assms(2) show ?thesis
    by (simp add: encryptFieldForUser_def decryptFieldForUser_def deserialize_serialize [OF encryptAES_colon_free [OF p]])
      (simp add: serializePayload_def)
qed

theorem user_field_unreadable_witness:
  "\<exists>raw. encryptFieldForUser toy_crypto env_v2 [7] (Some ''secret'') ''u1'' = Inr (Some raw) \<and>
     decryptFieldForUser toy_crypto env_v2 (Some raw) ''u1'' = Inl DecryptionFailed"
proof (rule user_field_unreadable [OF toy_crypto_laws])
  show "deriveUserKey toy_crypto env_v2 ''u1'' \<notin> set (global_keys toy_crypto env_v2)" by code_simp
qed (simp_all add: env_v2_def toy_crypto_rejects)

text \<open>
  The deterministic encryption supports equality lookups: two texts have the same ciphertext
  exactly when they are equal.
\<close>

theorem deterministic_lookup:
  assumes "gcm_laws c" and "a \<noteq> []" and "b \<noteq> []"
  shows "encrypt c env r (Some a) True = encrypt c env r' (Some b) True \<longleftrightarrow> a = b"
proof -
  let ?k = "deriveKey c (DB_ENCRYPTION_KEY env) default_info"
  let ?s = "\<lambda>t. seal c ?k DETERMINISTIC_IV (to_utf8 t)"
  have enc: "encrypt c env r (Some t) True =
      Some (serializePayload \<lparr>iv_hex = to_hex DETERMINISTIC_IV, authTag = to_hex (snd (?s t)), ciphertext = to_hex (fst (?s t))\<rparr>)"
    if "t \<noteq> []" for t r
    using that by (simp add: encrypt_def Let_def serializePayload_def case_prod_beta)
  have inv: "open_sealed c ?k DETERMINISTIC_IV (snd (?s t)) (fst (?s t)) = Some (to_utf8 t)" for t
    using assms(1) length_deriveKey [OF assms(1)] by (simp add: gcm_laws_def)
  have "?s a = ?s b" if "encrypt c env r (Some a) True = encrypt c env r' (Some b) True"
  proof -
    let ?p = "\<lambda>t. \<lparr>iv_hex = to_hex DETERMINISTIC_IV, authTag = to_hex (snd (?s t)), ciphertext = to_hex (fst (?s t))\<rparr>"
    have "serializePayload (?p a) = serializePayload (?p b)" using that enc assms(2,3) by simp
    moreover have "deserializePayload (serializePayload (?p t)) = Inr (?p t)" for t
      by (rule deserialize_serialize) (simp add: colon_free_def to_hex_no_colon)
    ultimately have "?p a = ?p b" by (metis sum.inject(2))
    then have "to_hex (snd (?s a)) = to_hex (snd (?s b))" "to_hex (fst (?s a)) = to_hex (fst (?s b))" by simp_all
    then show ?thesis by (simp add: hexc.encode_inject prod_eq_iff)
  qed
  then have "to_utf8 a = to_utf8 b" if "encrypt c env r (Some a) True = encrypt c env r' (Some b) True"
    using that inv [of a] inv [of b] by (metis option.inject)
  moreover have "encrypt c env r (Some b) True = encrypt c env r' (Some b) True" by (simp only: enc [OF assms(3)])
  ultimately show ?thesis by (auto simp only: utf8c.encode_inject)
qed

theorem deterministic_lookup_witness:
  "encrypt toy_crypto env_v1 [] (Some ''a'') True \<noteq> encrypt toy_crypto env_v1 [] (Some ''b'') True"
  using deterministic_lookup [OF toy_crypto_laws, of "''a''" "''b''" env_v1 "[]" "[]"] by simp

text \<open>A text of the older format stays readable while its key is one of the registered keys.\<close>

lemma decrypt_after_rotation:
  assumes "gcm_laws c" and "v \<noteq> []" and k: "k = deriveKey c (DB_ENCRYPTION_KEY env) default_info"
    and "k \<in> set (global_keys c env')" and "rejects_other_keys c k iv (to_utf8 v)"
    and iv: "iv = (if det then DETERMINISTIC_IV else r)"
  shows "decrypt c env' (encrypt c env r (Some v) det) = Inr (Some v)"
proof -
  obtain ct tag where s: "seal c k iv (to_utf8 v) = (ct, tag)" by (cases "seal c k iv (to_utf8 v)")
  have enc: "encrypt c env r (Some v) det = Some (to_hex iv @ '':'' @ to_hex tag @ '':'' @ to_hex ct)"
    using s assms(2) by (simp add: encrypt_def Let_def k iv)
  have "try_keys (decrypt_with c iv tag ct) (global_keys c env') raw = Inr v" for raw
  proof (rule try_keys_mem [OF assms(4)])
    have "open_sealed c k iv tag ct = Some (to_utf8 v)"
      using assms(1) s length_deriveKey [OF assms(1)] by (simp add: gcm_laws_def k)
    then show "decrypt_with c iv tag ct k = Inr v" by (simp add: decrypt_with_def of_utf8_to_utf8)
    show "\<forall>k' \<in> set (global_keys c env'). k' \<noteq> k \<longrightarrow> (\<exists>e. decrypt_with c iv tag ct k' = Inl e)"
      using assms(5) s by (simp add: rejects_other_keys_def decrypt_with_def)
  qed
  then show ?thesis
    by (simp add: enc decrypt_def split_on_append split_on_no_sep to_hex_no_colon from_hex_to_hex)
qed

end
