(* ===== verification/Token_Rotation.thy ===== *)
theory Token_Rotation
  imports Js_Value
begin

text \<open>
  \<open>src/src/auth/jwt.ts\<close>, \<open>src/src/models/refreshTokenFamily.ts\<close> and the refresh handler of
  \<open>src/src/routes/auth.ts\<close>: signing keys with rotation, access tokens, refresh tokens and their table.

  The jsonwebtoken library is the parameter \<open>jwt_lib\<close> over an abstract type of tokens; \<open>jwt_laws\<close> is
  what its documentation promises: the header of a signed token carries the key id, verification
  under the signing secret gives the claims back until the expiry time plus the tolerance and then
  reports expiry, and another secret is rejected. The claims of both kinds of token are one record
  with optional fields. Random identifiers and the clock are arguments; one reading of the clock is
  used per call. The table is the list of its rows in order of insertion; failures of the database
  connection are not modelled. A write to the session registry in Redis is an output of the handler.
\<close>

subsection \<open>Tokens\<close>

record claims =
  userId :: string
  email :: "string option"
  role :: "string option"
  impersonation :: "js_value option"
  tokenVersion :: "int option"
  familyId :: "string option"
  tokenId :: "string option"
  parentTokenId :: "string option"
  sessionId :: "string option"
  binding :: "string option"
  exp :: "int option"

datatype jwt_error = TokenExpiredError | JsonWebTokenError | OtherError

record 'tok jwt_lib =
  jwt_sign :: "int \<Rightarrow> claims \<Rightarrow> string \<Rightarrow> string \<Rightarrow> int \<Rightarrow> 'tok"
  jwt_kid :: "'tok \<Rightarrow> string option"
  jwt_verify :: "string \<Rightarrow> int \<Rightarrow> int \<Rightarrow> 'tok \<Rightarrow> jwt_error + claims"

definition expiry :: "int \<Rightarrow> int \<Rightarrow> int" where
  "expiry now life = now div 1000 + life"

definition jwt_laws :: "'tok jwt_lib \<Rightarrow> bool" where
  "jwt_laws lib \<longleftrightarrow> (\<forall>now cl secret kid life.
     jwt_kid lib (jwt_sign lib now cl secret kid life) = Some kid \<and>
     (\<forall>later tol. jwt_verify lib secret tol later (jwt_sign lib now cl secret kid life) =
        (if later div 1000 < expiry now life + tol then Inr (cl\<lparr>exp := Some (expiry now life)\<rparr>)
         else Inl TokenExpiredError)) \<and>
     (\<forall>later tol other. other \<noteq> secret \<longrightarrow>
        jwt_verify lib other tol later (jwt_sign lib now cl secret kid life) = Inl JsonWebTokenError))"

datatype token_error =
  SecretNotDefined
| UnknownKey string
| TokenHasExpired
| InvalidToken
| VerificationFailed
| TokenNotFound
| ReuseDetected

subsection \<open>Signing keys\<close>

record jwt_env =
  JWT_SECRET :: "string option"
  JWT_KEY_ID :: "string option"
  JWT_PREVIOUS_SECRET :: "string option"
  JWT_PREVIOUS_KEY_ID :: "string option"
  JWT_PREVIOUS_KEY_ISSUED_AT :: "string option"

record key_entry =
  keyId :: string
  secret :: string
  activeSince :: int
  expiresAt :: "js_num option"

definition KEY_ROTATION_GRACE_PERIOD_MS :: int where
  "KEY_ROTATION_GRACE_PERIOD_MS = 7 * 24 * 60 * 60 * 1000"

definition previous_expiry :: "jwt_env \<Rightarrow> int \<Rightarrow> js_num" where
  "previous_expiry env now =
     (let supersededAt = (if truthy_string (JWT_PREVIOUS_KEY_ISSUED_AT env)
            then jmul (parse_int (the (JWT_PREVIOUS_KEY_ISSUED_AT env))) (Fin 1000) else Fin (of_int now))
      in jadd supersededAt (Fin (of_int KEY_ROTATION_GRACE_PERIOD_MS)))"

definition buildKeyStore :: "jwt_env \<Rightarrow> int \<Rightarrow> token_error + key_entry list" where
  "buildKeyStore env now =
     (if \<not> truthy_string (JWT_SECRET env) then Inl SecretNotDefined
      else
        let active = \<lparr>keyId = (case JWT_KEY_ID env of None \<Rightarrow> ''v1'' | Some k \<Rightarrow> k),
              secret = the (JWT_SECRET env), activeSince = 0, expiresAt = None\<rparr>
        in Inr (active #
          (if truthy_string (JWT_PREVIOUS_SECRET env) \<and> truthy_string (JWT_PREVIOUS_KEY_ID env) \<and>
              jlt (Fin (of_int now)) (previous_expiry env now)
           then [\<lparr>keyId = the (JWT_PREVIOUS_KEY_ID env), secret = the (JWT_PREVIOUS_SECRET env),
                  activeSince = 0, expiresAt = Some (previous_expiry env now)\<rparr>]
           else [])))"

definition getActiveKey :: "jwt_env \<Rightarrow> int \<Rightarrow> token_error + key_entry" where
  "getActiveKey env now = (case buildKeyStore env now of Inl e \<Rightarrow> Inl e | Inr store \<Rightarrow> Inr (store ! 0))"

definition findKeyById :: "jwt_env \<Rightarrow> int \<Rightarrow> string \<Rightarrow> token_error + key_entry option" where
  "findKeyById env now kid =
     (case buildKeyStore env now of Inl e \<Rightarrow> Inl e | Inr store \<Rightarrow> Inr (find (\<lambda>k. keyId k = kid) store))"

definition getJwtSecret :: "jwt_env \<Rightarrow> int \<Rightarrow> token_error + string" where
  "getJwtSecret env now = (case getActiveKey env now of Inl e \<Rightarrow> Inl e | Inr k \<Rightarrow> Inr (secret k))"

text \<open>The choice of the secret from the header of a token, in both verification functions.\<close>

definition select_secret :: "'tok jwt_lib \<Rightarrow> jwt_env \<Rightarrow> int \<Rightarrow> 'tok \<Rightarrow> token_error + string" where
  "select_secret lib env now token =
     (if truthy_string (jwt_kid lib token) then
        (case findKeyById env now (the (jwt_kid lib token)) of
           Inl e \<Rightarrow> Inl e
         | Inr None \<Rightarrow> Inl (UnknownKey (the (jwt_kid lib token)))
         | Inr (Some entry) \<Rightarrow> Inr (secret entry))
      else getJwtSecret env now)"

fun verify_error :: "jwt_error \<Rightarrow> token_error" where
  "verify_error TokenExpiredError = TokenHasExpired"
| "verify_error JsonWebTokenError = InvalidToken"
| "verify_error OtherError = VerificationFailed"

definition JWT_EXPIRES_IN :: int where
  "JWT_EXPIRES_IN = 3600"

definition REFRESH_TOKEN_EXPIRES_IN :: int where
  "REFRESH_TOKEN_EXPIRES_IN = 7 * 24 * 3600"

definition generateToken ::
  "'tok jwt_lib \<Rightarrow> jwt_env \<Rightarrow> int \<Rightarrow> claims \<Rightarrow> int option \<Rightarrow> string option \<Rightarrow> string option \<Rightarrow> string option \<Rightarrow>
     token_error + 'tok" where
  "generateToken lib env now payload expiresIn sid bnd kid =
     (let life = (case expiresIn of None \<Rightarrow> JWT_EXPIRES_IN | Some l \<Rightarrow> l);
          key = (if truthy_string kid
            then (case findKeyById env now (the kid) of
                    Inl e \<Rightarrow> Inl e | Inr None \<Rightarrow> Inl (UnknownKey (the kid)) | Inr (Some k) \<Rightarrow> Inr k)
            else getActiveKey env now)
      in case key of
           Inl e \<Rightarrow> Inl e
         | Inr k \<Rightarrow>
             Inr (jwt_sign lib now
               (payload\<lparr>sessionId := (if truthy_string sid then sid else sessionId payload),
                        binding := (if truthy_string bnd then bnd else binding payload)\<rparr>)
               (secret k) (keyId k) life))"

definition verifyToken :: "'tok jwt_lib \<Rightarrow> jwt_env \<Rightarrow> int \<Rightarrow> 'tok \<Rightarrow> token_error + claims" where
  "verifyToken lib env now token =
     (case select_secret lib env now token of
        Inl e \<Rightarrow> Inl e
      | Inr s \<Rightarrow> (case jwt_verify lib s 60 now token of Inl e \<Rightarrow> Inl (verify_error e) | Inr cl \<Rightarrow> Inr cl))"

definition isTokenExpired :: "'tok jwt_lib \<Rightarrow> jwt_env \<Rightarrow> int \<Rightarrow> 'tok \<Rightarrow> bool" where
  "isTokenExpired lib env now token = (verifyToken lib env now token = Inl TokenHasExpired)"

subsection \<open>The table of refresh tokens\<close>

record 'tok token_row =
  row_id :: string
  row_user :: string
  row_family :: string
  row_token :: 'tok
  parent_token :: "string option"
  is_revoked :: bool
  created_at :: int
  revoked_at :: "int option"

type_synonym 'tok token_table = "'tok token_row list"

definition create_row ::
  "string \<Rightarrow> int \<Rightarrow> string \<Rightarrow> string \<Rightarrow> 'tok \<Rightarrow> string option \<Rightarrow> 'tok token_table \<Rightarrow> 'tok token_table" where
  "create_row new_id now user family token parent db =
     db @ [\<lparr>row_id = new_id, row_user = user, row_family = family, row_token = token,
            parent_token = (if truthy_string parent then parent else None), is_revoked = False,
            created_at = now, revoked_at = None\<rparr>]"

definition findAllActive :: "string \<Rightarrow> string \<Rightarrow> 'tok token_table \<Rightarrow> 'tok token_table" where
  "findAllActive user family db =
     rev (sort_key created_at (filter (\<lambda>r. row_user r = user \<and> row_family r = family \<and> \<not> is_revoked r) db))"

definition findByToken :: "'tok \<Rightarrow> 'tok token_table \<Rightarrow> 'tok token_row option" where
  "findByToken token db = find (\<lambda>r. row_token r = token) db"

definition revokeFamily ::
  "string \<Rightarrow> string \<Rightarrow> string \<Rightarrow> 'tok token_table \<Rightarrow> (token_error + string \<times> nat) \<times> 'tok token_table" where
  "revokeFamily family user tid db =
     (let hit = (\<lambda>r. row_id r = tid \<and> row_user r = user \<and> row_family r = family) in
      if filter hit db = [] then (Inl TokenNotFound, db)
      else (Inr (row_family (filter hit db ! 0), length (filter hit db)), filter (\<lambda>r. \<not> hit r) db))"

definition purgeExpired :: "int \<Rightarrow> 'tok token_table \<Rightarrow> string list \<times> nat \<times> 'tok token_table" where
  "purgeExpired now db =
     (let old = (\<lambda>r. case revoked_at r of None \<Rightarrow> False | Some t \<Rightarrow> t < now - 30 * 24 * 3600 * 1000) in
      (map row_family (filter old db), length (filter old db), filter (\<lambda>r. \<not> old r) db))"

text \<open>The statement has no \<open>RETURNING\<close>, so the list of rows in its result is empty.\<close>

definition revokeAll :: "string \<Rightarrow> string \<Rightarrow> 'tok token_table \<Rightarrow> string list \<times> 'tok token_table" where
  "revokeAll user family db = ([], filter (\<lambda>r. \<not> (row_user r = user \<and> row_family r = family)) db)"

definition isRevoked :: "'tok \<Rightarrow> 'tok token_table \<Rightarrow> bool" where
  "isRevoked token db = (case findByToken token db of None \<Rightarrow> False | Some r \<Rightarrow> is_revoked r)"

subsection \<open>Refresh tokens\<close>

definition generateRefreshToken ::
  "'tok jwt_lib \<Rightarrow> jwt_env \<Rightarrow> int \<Rightarrow> string \<Rightarrow> string \<Rightarrow> string \<Rightarrow> string \<Rightarrow> string option \<Rightarrow> string option \<Rightarrow>
     (string \<times> string) option \<Rightarrow> 'tok token_table \<Rightarrow> (token_error + 'tok) \<times> 'tok token_table" where
  "generateRefreshToken lib env now uuid1 uuid2 new_id user family parent session db =
     (let famId = (if truthy_string family then the family else uuid2);
          payload = \<lparr>userId = user, email = None, role = None, impersonation = None, tokenVersion = None, familyId = Some famId, tokenId = Some uuid1,
            parentTokenId = parent, sessionId = map_option fst session, binding = map_option snd session, exp = None\<rparr>
      in case getActiveKey env now of
           Inl e \<Rightarrow> (Inl e, db)
         | Inr k \<Rightarrow>
             let token = jwt_sign lib now payload (secret k) (keyId k) REFRESH_TOKEN_EXPIRES_IN
             in (Inr token, create_row new_id now user famId token parent db))"

definition verifyRefreshToken ::
  "'tok jwt_lib \<Rightarrow> jwt_env \<Rightarrow> int \<Rightarrow> 'tok \<Rightarrow> 'tok token_table \<Rightarrow> (token_error + claims) \<times> 'tok token_table" where
  "verifyRefreshToken lib env now token db =
     (case select_secret lib env now token of
        Inl e \<Rightarrow> (Inl e, db)
      | Inr s \<Rightarrow>
          (case jwt_verify lib s 0 now token of
             Inl e \<Rightarrow> (Inl (verify_error e), db)
           | Inr decoded \<Rightarrow>
               if findByToken token db = None \<or> is_revoked (the (findByToken token db)) then
                 if truthy_string (familyId decoded) \<and> userId decoded \<noteq> [] then
                   (case revokeFamily (the (familyId decoded)) (userId decoded) ''reuse_detected'' db of
                      (Inl e, db1) \<Rightarrow> (Inl e, db1)
                    | (Inr _, db1) \<Rightarrow> (Inl ReuseDetected, db1))
                 else (Inl ReuseDetected, db)
               else (Inr decoded, db)))"

text \<open>
  The handler of \<open>POST /api/auth/refresh\<close> after the check that a token was sent. The output is the
  pair of new tokens and the call of \<open>registerJwtSession\<close>, if there is one.
\<close>

record 'tok refresh_answer =
  new_access :: 'tok
  new_refresh :: 'tok
  registered :: "(string \<times> string \<times> string \<times> int) option"

definition refresh_session :: "claims \<Rightarrow> (string \<times> string) option" where
  "refresh_session decoded =
     (if truthy_string (sessionId decoded) \<and> truthy_string (binding decoded)
      then Some (the (sessionId decoded), the (binding decoded)) else None)"

definition access_claims :: "string \<Rightarrow> claims" where
  "access_claims user = \<lparr>userId = user, email = Some [], role = None, impersonation = None, tokenVersion = None, familyId = None, tokenId = None,
     parentTokenId = None, sessionId = None, binding = None, exp = None\<rparr>"

definition refresh_handler ::
  "'tok jwt_lib \<Rightarrow> jwt_env \<Rightarrow> int \<Rightarrow> string \<Rightarrow> string \<Rightarrow> string \<Rightarrow> 'tok \<Rightarrow> 'tok token_table \<Rightarrow>
     (token_error + 'tok refresh_answer) \<times> 'tok token_table" where
  "refresh_handler lib env now uuid1 uuid2 new_id token db =
     (case verifyRefreshToken lib env now token db of
        (Inl e, db1) \<Rightarrow> (Inl e, db1)
      | (Inr decoded, db1) \<Rightarrow>
          (case generateToken lib env now (access_claims (userId decoded)) None (sessionId decoded) (binding decoded) None of
             Inl e \<Rightarrow> (Inl e, db1)
           | Inr access \<Rightarrow>
               let session = refresh_session decoded;
                   reg = (case session of
                       None \<Rightarrow> Inr None
                     | Some (sid, bnd) \<Rightarrow> (case verifyToken lib env now access of
                           Inl e \<Rightarrow> Inl e
                         | Inr cl \<Rightarrow> Inr (Some (userId decoded, sid, bnd,
                             case exp cl of None \<Rightarrow> now div 1000 + 3600 | Some x \<Rightarrow> x))))
               in case reg of
                    Inl e \<Rightarrow> (Inl e, db1)
                  | Inr r \<Rightarrow>
                      (case generateRefreshToken lib env now uuid1 uuid2 new_id (userId decoded) (familyId decoded)
                              (tokenId decoded) session db1 of
                         (Inl e, db2) \<Rightarrow> (Inl e, db2)
                       | (Inr fresh, db2) \<Rightarrow>
                           (Inr \<lparr>new_access = access, new_refresh = fresh, registered = r\<rparr>, db2))))"

subsection \<open>What the operations keep\<close>

text \<open>The primary key is a UUID column.\<close>

definition is_hex_char :: "char \<Rightarrow> bool" where
  "is_hex_char c = (let n = of_char c :: nat in (48 \<le> n \<and> n \<le> 57) \<or> (97 \<le> n \<and> n \<le> 102) \<or> (65 \<le> n \<and> n \<le> 70))"

definition is_uuid :: "string \<Rightarrow> bool" where
  "is_uuid s = (map length (split (CHR ''-'') s) = [8, 4, 4, 4, 12] \<and> list_all (list_all is_hex_char) (split (CHR ''-'') s))"

definition ids_ok :: "'tok token_table \<Rightarrow> bool" where
  "ids_ok db = list_all (\<lambda>r. is_uuid (row_id r)) db"

lemma not_uuid_reuse: "\<not> is_uuid ''reuse_detected''"
  by (simp add: is_uuid_def)

lemma revokeFamily_reuse:
  assumes "ids_ok db"
  shows "revokeFamily family user ''reuse_detected'' db = (Inl TokenNotFound, db)"
proof -
  have "filter (\<lambda>r. row_id r = ''reuse_detected'' \<and> row_user r = user \<and> row_family r = family) db = []"
    using assms not_uuid_reuse by (auto simp: ids_ok_def list_all_iff filter_empty_conv)
  then show ?thesis by (simp add: revokeFamily_def Let_def)
qed

lemma verifyRefreshToken_table: "ids_ok db \<Longrightarrow> snd (verifyRefreshToken lib env now token db) = db"
  by (auto simp: verifyRefreshToken_def revokeFamily_reuse split: sum.splits)

lemma generateRefreshToken_table:
  "\<exists>rows. snd (generateRefreshToken lib env now u1 u2 new_id user family parent session db) = db @ rows \<and>
     set (map row_id rows) \<subseteq> {new_id}"
  by (auto simp: generateRefreshToken_def create_row_def Let_def split: sum.splits)

text \<open>Rotation only ever adds a row: the row of the token that was presented stays as it is.\<close>

lemma refresh_handler_extends:
  assumes "ids_ok db"
  shows "\<exists>rows. snd (refresh_handler lib env now u1 u2 new_id token db) = db @ rows \<and> set (map row_id rows) \<subseteq> {new_id}"
proof (cases "verifyRefreshToken lib env now token db")
  case (Pair res db1)
  with verifyRefreshToken_table [OF assms, of lib env now token] have [simp]: "db1 = db" by simp
  show ?thesis
  proof (cases res)
    case (Inl e)
    with Pair show ?thesis by (simp add: refresh_handler_def)
  next
    case (Inr decoded)
    obtain rows where "snd (generateRefreshToken lib env now u1 u2 new_id (userId decoded) (familyId decoded)
        (tokenId decoded) (refresh_session decoded) db) = db @ rows" "set (map row_id rows) \<subseteq> {new_id}"
      using generateRefreshToken_table by blast
    with Inr Pair show ?thesis
      by (auto simp: refresh_handler_def Let_def split: sum.splits prod.splits option.splits)
  qed
qed

record 'tok refresh_call =
  call_env :: jwt_env
  call_time :: int
  call_uuids :: "string \<times> string"
  call_id :: string
  call_token :: 'tok

definition do_refresh :: "'tok jwt_lib \<Rightarrow> 'tok refresh_call \<Rightarrow> 'tok token_table \<Rightarrow> 'tok token_table" where
  "do_refresh lib c db =
     snd (refresh_handler lib (call_env c) (call_time c) (fst (call_uuids c)) (snd (call_uuids c)) (call_id c) (call_token c) db)"

lemma do_refresh_extends:
  assumes "ids_ok db" and "is_uuid (call_id c)"
  shows "ids_ok (do_refresh lib c db) \<and> (\<exists>rows. do_refresh lib c db = db @ rows)"
proof -
  obtain rows where "do_refresh lib c db = db @ rows" "set (map row_id rows) \<subseteq> {call_id c}"
    using refresh_handler_extends [OF assms(1)] unfolding do_refresh_def by blast
  with assms show ?thesis by (auto simp: ids_ok_def list_all_iff)
qed

lemma refreshes_extend:
  assumes "ids_ok db" and "\<forall>c \<in> set calls. is_uuid (call_id c)"
  shows "ids_ok (fold (do_refresh lib) calls db) \<and> (\<exists>rows. fold (do_refresh lib) calls db = db @ rows)"
  using assms
proof (induction calls arbitrary: db)
  case (Cons c calls)
  obtain rows where "do_refresh lib c db = db @ rows" "ids_ok (do_refresh lib c db)"
    using do_refresh_extends [OF Cons.prems(1), of c lib] Cons.prems(2) by auto
  with Cons.IH [of "do_refresh lib c db"] Cons.prems(2) show ?case by auto
qed simp

lemma findByToken_append: "findByToken t db = Some r \<Longrightarrow> findByToken t (db @ rows) = Some r"
  by (induction db) (auto simp: findByToken_def split: if_splits)

lemma verifyRefreshToken_ok_row:
  "fst (verifyRefreshToken lib env now token db) = Inr cl \<Longrightarrow> \<exists>r. findByToken token db = Some r \<and> \<not> is_revoked r"
  by (auto simp: verifyRefreshToken_def split: sum.splits if_splits prod.splits)

lemma verifyRefreshToken_ok_cong:
  assumes "fst (verifyRefreshToken lib env now token db) = Inr cl" and "findByToken token db' = findByToken token db"
  shows "fst (verifyRefreshToken lib env now token db') = Inr cl"
  using assms by (auto simp: verifyRefreshToken_def split: sum.splits if_splits prod.splits)

subsection \<open>Properties\<close>

text \<open>A library with the laws, and a table with one family, for the examples.\<close>

type_synonym demo_tok = "int \<times> claims \<times> string \<times> string \<times> int"

definition demo_lib :: "demo_tok jwt_lib" where
  "demo_lib = \<lparr>jwt_sign = (\<lambda>now cl s kid life. (now, cl, s, kid, life)),
     jwt_kid = (\<lambda>(now, cl, s, kid, life). Some kid),
     jwt_verify = (\<lambda>s tol later (now, cl, s', kid, life). if s \<noteq> s' then Inl JsonWebTokenError
       else if later div 1000 < expiry now life + tol then Inr (cl\<lparr>exp := Some (expiry now life)\<rparr>)
       else Inl TokenExpiredError)\<rparr>"

lemma demo_lib_laws: "jwt_laws demo_lib"
  by (simp add: jwt_laws_def demo_lib_def)

definition demo_env :: jwt_env where
  "demo_env = \<lparr>JWT_SECRET = Some ''s1'', JWT_KEY_ID = Some ''v1'', JWT_PREVIOUS_SECRET = None,
     JWT_PREVIOUS_KEY_ID = None, JWT_PREVIOUS_KEY_ISSUED_AT = None\<rparr>"

definition rotated_env :: jwt_env where
  "rotated_env = \<lparr>JWT_SECRET = Some ''s2'', JWT_KEY_ID = Some ''v2'', JWT_PREVIOUS_SECRET = Some ''s1'',
     JWT_PREVIOUS_KEY_ID = Some ''v1'', JWT_PREVIOUS_KEY_ISSUED_AT = Some (nat_text 2)\<rparr>"

definition demo_claims :: claims where
  "demo_claims = \<lparr>userId = ''u'', email = None, role = None, impersonation = None, tokenVersion = None, familyId = Some ''f'', tokenId = Some ''t'',
     parentTokenId = None, sessionId = None, binding = None, exp = None\<rparr>"

definition demo_token :: demo_tok where
  "demo_token = (1000, demo_claims, ''s1'', ''v1'', REFRESH_TOKEN_EXPIRES_IN)"

definition demo_id :: string where
  "demo_id = ''00000000-0000-4000-8000-000000000000''"

definition demo_sibling :: "demo_tok token_row" where
  "demo_sibling = \<lparr>row_id = demo_id, row_user = ''u'', row_family = ''f'', row_token = (2000, demo_claims, ''s1'', ''v1'', 60),
     parent_token = None, is_revoked = False, created_at = 2000, revoked_at = None\<rparr>"

definition demo_db :: "demo_tok token_table" where
  "demo_db = [\<lparr>row_id = demo_id, row_user = ''u'', row_family = ''f'', row_token = demo_token,
     parent_token = None, is_revoked = False, created_at = 1000, revoked_at = None\<rparr>]"

definition demo_call :: "demo_tok refresh_call" where
  "demo_call = \<lparr>call_env = demo_env, call_time = 3000, call_uuids = (''a'', ''b''), call_id = demo_id, call_token = demo_token\<rparr>"

text \<open>
  Rotation does not invalidate the old refresh token. Whatever refresh requests are made with
  whatever tokens, the same one included, a token that is accepted before them is accepted after them.
\<close>

theorem rotated_token_still_accepted:
  assumes "ids_ok db" and "\<forall>c \<in> set calls. is_uuid (call_id c)"
    and "fst (verifyRefreshToken lib env now token db) = Inr cl"
  shows "fst (verifyRefreshToken lib env now token (fold (do_refresh lib) calls db)) = Inr cl"
proof -
  obtain r where r: "findByToken token db = Some r" using verifyRefreshToken_ok_row [OF assms(3)] by blast
  obtain rows where "fold (do_refresh lib) calls db = db @ rows" using refreshes_extend [OF assms(1,2)] by blast
  with findByToken_append [OF r] r show ?thesis by (intro verifyRefreshToken_ok_cong [OF assms(3)]) simp
qed

theorem rotated_token_still_accepted_witness:
  "fst (verifyRefreshToken demo_lib demo_env 5000 demo_token (fold (do_refresh demo_lib) [demo_call, demo_call] demo_db)) =
     Inr (demo_claims\<lparr>exp := Some 604801\<rparr>)"
proof (rule rotated_token_still_accepted)
  show "fst (verifyRefreshToken demo_lib demo_env 5000 demo_token demo_db) = Inr (demo_claims\<lparr>exp := Some 604801\<rparr>)"
    by code_simp
qed (code_simp)+

text \<open>
  The detection of reuse revokes nothing. When a valid refresh token has no row or a revoked one,
  \<open>verifyRefreshToken\<close> asks for the revocation of the row with the identifier \<open>reuse_detected\<close>; there is
  none, the call throws "Token not found" and every token of the family stays as it was.
\<close>

theorem reuse_revokes_nothing:
  assumes "ids_ok db" and "select_secret lib env now token = Inr s" and "jwt_verify lib s 0 now token = Inr decoded"
    and "truthy_string (familyId decoded)" and "userId decoded \<noteq> []"
    and "findByToken token db = None \<or> is_revoked (the (findByToken token db))"
  shows "verifyRefreshToken lib env now token db = (Inl TokenNotFound, db)"
  using assms by (simp add: verifyRefreshToken_def revokeFamily_reuse)

theorem reuse_revokes_nothing_witness:
  "verifyRefreshToken demo_lib demo_env 5000 demo_token [demo_sibling] = (Inl TokenNotFound, [demo_sibling])"
proof (rule reuse_revokes_nothing [where s = "''s1''" and decoded = "demo_claims\<lparr>exp := Some 604801\<rparr>"])
  show "select_secret demo_lib demo_env 5000 demo_token = Inr ''s1''" by code_simp
  show "jwt_verify demo_lib ''s1'' 0 5000 demo_token = Inr (demo_claims\<lparr>exp := Some 604801\<rparr>)" by code_simp
  show "ids_ok [demo_sibling]" by code_simp
  show "findByToken demo_token [demo_sibling] = None \<or> is_revoked (the (findByToken demo_token [demo_sibling]))" by code_simp
qed (simp_all add: demo_claims_def)

text \<open>
  After \<open>revokeAll\<close> no token of the family of the user is accepted.
\<close>

theorem revoked_family_rejected:
  assumes "\<forall>r \<in> set db. row_token r = token \<longrightarrow> row_user r = user \<and> row_family r = family"
  shows "\<exists>e. fst (verifyRefreshToken lib env now token (snd (revokeAll user family db))) = Inl e"
proof -
  have "findByToken token (snd (revokeAll user family db)) = None"
    using assms by (auto simp: findByToken_def revokeAll_def find_None_iff)
  then show ?thesis by (auto simp: verifyRefreshToken_def split: sum.splits prod.splits)
qed

theorem revoked_family_rejected_witness:
  "\<exists>e. fst (verifyRefreshToken demo_lib demo_env 5000 demo_token (snd (revokeAll ''u'' ''f'' demo_db))) = Inl e"
  by (rule revoked_family_rejected) (simp add: demo_db_def)

lemma grace_boundary:
  assumes "JWT_PREVIOUS_KEY_ISSUED_AT env = Some (nat_text t)" and "t \<le> 2 ^ 40"
  shows "previous_expiry env now = Fin (of_int (1000 * int t + KEY_ROTATION_GRACE_PERIOD_MS))"
proof -
  have "jmul (parse_int (nat_text t)) (Fin 1000) = Fin (of_int (1000 * int t))"
    using assms(2) of_exact_int [of "1000 * int t"] by (simp add: parse_int_nat_text mult.commute)
  moreover have "jadd (Fin (of_int (1000 * int t))) (Fin (of_int KEY_ROTATION_GRACE_PERIOD_MS)) =
      Fin (of_int (1000 * int t + KEY_ROTATION_GRACE_PERIOD_MS))"
    using assms(2) of_exact_int [of "1000 * int t + KEY_ROTATION_GRACE_PERIOD_MS"]
    by (simp add: KEY_ROTATION_GRACE_PERIOD_MS_def)
  ultimately show ?thesis using assms(1) by (simp add: previous_expiry_def Let_def)
qed

text \<open>
  Key rotation keeps tokens valid for the grace period and no longer. A token signed with the old
  key is verified under the new environment, until it expires by itself, while less than seven days
  have passed since the old key was superseded, and is refused as signed by an unknown key afterwards.
\<close>

theorem key_rotation_grace:
  assumes laws: "jwt_laws lib"
    and old: "JWT_SECRET env = Some s1" "s1 \<noteq> []" "JWT_KEY_ID env = Some k1" "k1 \<noteq> []"
    and new: "JWT_SECRET env' = Some s2" "s2 \<noteq> []" "JWT_KEY_ID env' = Some k2" "k2 \<noteq> k1"
    and prev: "JWT_PREVIOUS_SECRET env' = Some s1" "JWT_PREVIOUS_KEY_ID env' = Some k1"
      "JWT_PREVIOUS_KEY_ISSUED_AT env' = Some (nat_text t)" "t \<le> 2 ^ 40"
    and tok: "generateToken lib env now payload (Some life) None None None = Inr token"
    and fresh: "later div 1000 < expiry now life + 60"
  shows "verifyToken lib env' later token =
    (if later < 1000 * int t + KEY_ROTATION_GRACE_PERIOD_MS then Inr (payload\<lparr>exp := Some (expiry now life)\<rparr>)
     else Inl (UnknownKey k1))"
proof -
  have token: "token = jwt_sign lib now payload s1 k1 life"
    using tok old by (simp add: generateToken_def getActiveKey_def buildKeyStore_def Let_def)
  with laws have kid: "jwt_kid lib token = Some k1" by (simp add: jwt_laws_def)
  have ver: "jwt_verify lib s1 60 later token = Inr (payload\<lparr>exp := Some (expiry now life)\<rparr>)"
    using laws token fresh by (simp add: jwt_laws_def)
  have "jlt (Fin (of_int later)) (previous_expiry env' later) \<longleftrightarrow> later < 1000 * int t + KEY_ROTATION_GRACE_PERIOD_MS"
    by (simp only: grace_boundary [OF prev(3,4)] jlt.simps of_int_less_iff)
  then have "findKeyById env' later k1 = Inr (if later < 1000 * int t + KEY_ROTATION_GRACE_PERIOD_MS
      then Some \<lparr>keyId = k1, secret = s1, activeSince = 0, expiresAt = Some (previous_expiry env' later)\<rparr> else None)"
    using new prev(1,2) old(2,4) by (simp add: findKeyById_def buildKeyStore_def Let_def)
  with kid ver old(4) show ?thesis by (simp add: verifyToken_def select_secret_def)
qed

theorem key_rotation_grace_witness:
  "verifyToken demo_lib rotated_env 6000 (1000, access_claims ''u'', ''s1'', ''v1'', 60) =
     Inr ((access_claims ''u'')\<lparr>exp := Some 61\<rparr>)"
  using key_rotation_grace [OF demo_lib_laws, of demo_env "''s1''" "''v1''" rotated_env "''s2''" "''v2''" 2
      1000 "access_claims ''u''" 60 "(1000, access_claims ''u'', ''s1'', ''v1'', 60)" 6000]
  by (simp add: demo_env_def rotated_env_def expiry_def KEY_ROTATION_GRACE_PERIOD_MS_def generateToken_def getActiveKey_def
      buildKeyStore_def Let_def demo_lib_def)

text \<open>Without the time at which the old key was superseded, the old key never leaves the store.\<close>

lemma previous_key_without_time:
  assumes "JWT_SECRET env = Some s2" "s2 \<noteq> []" "JWT_PREVIOUS_SECRET env = Some s1" "s1 \<noteq> []"
    and "JWT_PREVIOUS_KEY_ID env = Some k1" "k1 \<noteq> []" "JWT_PREVIOUS_KEY_ISSUED_AT env = None" and "\<bar>now\<bar> \<le> 2 ^ 52"
  shows "\<exists>store. buildKeyStore env now = Inr store \<and> (\<exists>k \<in> set store. keyId k = k1 \<and> secret k = s1)"
proof -
  have "of_exact (of_int (now + KEY_ROTATION_GRACE_PERIOD_MS)) = Fin (of_int (now + KEY_ROTATION_GRACE_PERIOD_MS))"
    using assms(8) by (intro of_exact_int) (auto simp: KEY_ROTATION_GRACE_PERIOD_MS_def)
  then have "previous_expiry env now = Fin (of_int (now + KEY_ROTATION_GRACE_PERIOD_MS))"
    using assms(7) by (simp add: previous_expiry_def Let_def)
  then have "jlt (Fin (of_int now)) (previous_expiry env now)"
    by (simp only: jlt.simps of_int_less_iff) (simp add: KEY_ROTATION_GRACE_PERIOD_MS_def)
  with assms show ?thesis by (simp add: buildKeyStore_def Let_def)
qed

text \<open>No operation sets \<open>revoked_at\<close>, so the purge of revoked tokens removes nothing.\<close>

lemma purge_removes_nothing:
  "\<forall>r \<in> set db. revoked_at r = None \<Longrightarrow> purgeExpired now db = ([], 0, db)"
  by (auto simp: purgeExpired_def Let_def filter_empty_conv filter_True split: option.splits)

end
