(* ===== verification/Balance_Cache.thy ===== *)
theory Balance_Cache
  imports Js_Value
begin

text \<open>
  \<open>src/src/services/providerBalanceCache.ts\<close>: the cache of provider balances that knows the age of its
  entries and shares one fetch among concurrent callers.

  A call of \<open>get\<close> or \<open>refresh\<close> has an identifier; it is answered at once or waits for the fetch in
  flight. The end of a fetch, with a value or an error, is a step of its own (\<open>fetch_done\<close>). The answers
  given so far are recorded with the time at which they were given. The clock is an argument; the
  Prometheus counters, the log lines and the \<open>onStale\<close> callback are not modelled.
\<close>

subsection \<open>State\<close>

record balance_value =
  availableBalance :: js_num
  currency :: string

record cache_record =
  record_value :: balance_value
  record_fetchedAt :: int

datatype cache_warning = StaleBy js_num js_num | RefreshFailed "cache_warning option"

record cache_entry =
  entry_value :: balance_value
  entry_provider :: string
  fetchedAt :: int
  ageMs :: int
  stale :: bool
  warning :: "cache_warning option"

record balance_cache =
  entries :: "(string, cache_record) js_map"
  inflight :: "(string, nat) js_map"
  staleThresholdMs :: int
  staleDetections :: nat
  refreshes :: nat
  next_fetch :: nat
  waiting :: "(nat \<times> nat) list"
  answers :: "(nat \<times> int \<times> (js_value + cache_entry)) list"

definition DEFAULT_STALE_THRESHOLD_MS :: int where
  "DEFAULT_STALE_THRESHOLD_MS = 60 * 60 * 1000"

definition new_cache :: "int option \<Rightarrow> balance_cache" where
  "new_cache threshold =
     \<lparr>entries = [], inflight = [],
      staleThresholdMs = (case threshold of None \<Rightarrow> DEFAULT_STALE_THRESHOLD_MS | Some t \<Rightarrow> t),
      staleDetections = 0, refreshes = 0, next_fetch = 0, waiting = [], answers = []\<rparr>"

subsection \<open>Reading\<close>

definition isStaleAt :: "int \<Rightarrow> int \<Rightarrow> balance_cache \<Rightarrow> bool" where
  "isStaleAt now t c = (now - t \<ge> staleThresholdMs c)"

definition describeStale :: "int \<Rightarrow> int \<Rightarrow> cache_warning" where
  "describeStale age threshold =
     StaleBy (math_round (jdiv (Fin (of_int age)) (Fin 60000))) (math_round (jdiv (Fin (of_int threshold)) (Fin 60000)))"

definition toEntry :: "string \<Rightarrow> cache_record \<Rightarrow> int \<Rightarrow> balance_cache \<Rightarrow> cache_entry" where
  "toEntry provider r now c =
     (let age = max 0 (now - record_fetchedAt r); st = isStaleAt now (record_fetchedAt r) c
      in \<lparr>entry_value = record_value r, entry_provider = provider, fetchedAt = record_fetchedAt r, ageMs = age,
          stale = st, warning = (if st then Some (describeStale age (staleThresholdMs c)) else None)\<rparr>)"

definition peek :: "string \<Rightarrow> int \<Rightarrow> balance_cache \<Rightarrow> cache_entry option" where
  "peek provider now c = map_option (\<lambda>r. toEntry provider r now c) (map_get (entries c) provider)"

definition isStale :: "string \<Rightarrow> int \<Rightarrow> balance_cache \<Rightarrow> bool" where
  "isStale provider now c =
     (case map_get (entries c) provider of None \<Rightarrow> False | Some r \<Rightarrow> isStaleAt now (record_fetchedAt r) c)"

definition getAgeMs :: "string \<Rightarrow> int \<Rightarrow> balance_cache \<Rightarrow> int option" where
  "getAgeMs provider now c = map_option (\<lambda>r. max 0 (now - record_fetchedAt r)) (map_get (entries c) provider)"

record cache_stats =
  stats_size :: nat
  staleEntries :: nat
  oldestAgeMs :: "int option"
  stats_staleDetections :: nat
  stats_refreshes :: nat

definition getStats :: "int \<Rightarrow> balance_cache \<Rightarrow> cache_stats" where
  "getStats now c =
     (let ages = map (\<lambda>(p, r). max 0 (now - record_fetchedAt r)) (entries c)
      in \<lparr>stats_size = map_size (entries c),
          staleEntries = length (filter (\<lambda>(p, r). isStaleAt now (record_fetchedAt r) c) (entries c)),
          oldestAgeMs = foldl (\<lambda>oldest age. case oldest of None \<Rightarrow> Some age
            | Some o1 \<Rightarrow> if age > o1 then Some age else oldest) None ages,
          stats_staleDetections = staleDetections c, stats_refreshes = refreshes c\<rparr>)"

subsection \<open>Calls\<close>

definition refresh :: "nat \<Rightarrow> string \<Rightarrow> balance_cache \<Rightarrow> balance_cache" where
  "refresh call provider c =
     (case map_get (inflight c) provider of
        Some f \<Rightarrow> c\<lparr>waiting := waiting c @ [(call, f)]\<rparr>
      | None \<Rightarrow> c\<lparr>inflight := map_set provider (next_fetch c) (inflight c),
                  waiting := waiting c @ [(call, next_fetch c)], next_fetch := Suc (next_fetch c)\<rparr>)"

definition answer :: "nat \<Rightarrow> int \<Rightarrow> js_value + cache_entry \<Rightarrow> balance_cache \<Rightarrow> balance_cache" where
  "answer call now a c = c\<lparr>answers := answers c @ [(call, now, a)]\<rparr>"

definition get_balance :: "nat \<Rightarrow> string \<Rightarrow> int \<Rightarrow> balance_cache \<Rightarrow> balance_cache" where
  "get_balance call provider now c =
     (case map_get (entries c) provider of
        Some r \<Rightarrow>
          if \<not> isStaleAt now (record_fetchedAt r) c then answer call now (Inr (toEntry provider r now c)) c
          else refresh call provider (c\<lparr>staleDetections := staleDetections c + 1\<rparr>)
      | None \<Rightarrow> refresh call provider c)"

definition performRefresh :: "string \<Rightarrow> js_value + balance_value \<Rightarrow> int \<Rightarrow> balance_cache \<Rightarrow> (js_value + cache_entry) \<times> balance_cache" where
  "performRefresh provider outcome now c =
     (case outcome of
        Inr v \<Rightarrow>
          let r = \<lparr>record_value = v, record_fetchedAt = now\<rparr>;
              c1 = c\<lparr>entries := map_set provider r (entries c), refreshes := refreshes c + 1\<rparr>
          in (Inr (toEntry provider r now c1), c1)
      | Inl err \<Rightarrow>
          (case map_get (entries c) provider of
             Some r \<Rightarrow>
               let e = toEntry provider r now c
               in (Inr (e\<lparr>stale := True, warning := Some (RefreshFailed (warning e))\<rparr>), c)
           | None \<Rightarrow> (Inl err, c)))"

text \<open>The fetch in flight for a provider ends: every caller that waits for it gets the same answer.\<close>

definition fetch_done :: "string \<Rightarrow> js_value + balance_value \<Rightarrow> int \<Rightarrow> balance_cache \<Rightarrow> balance_cache" where
  "fetch_done provider outcome now c =
     (case map_get (inflight c) provider of
        None \<Rightarrow> c
      | Some f \<Rightarrow>
          let (a, c1) = performRefresh provider outcome now c;
              calls = map fst (filter (\<lambda>w. snd w = f) (waiting c1))
          in c1\<lparr>inflight := map_delete provider (inflight c1),
                waiting := filter (\<lambda>w. snd w \<noteq> f) (waiting c1),
                answers := answers c1 @ map (\<lambda>call. (call, now, a)) calls\<rparr>)"

definition invalidate :: "string option \<Rightarrow> balance_cache \<Rightarrow> balance_cache" where
  "invalidate provider c =
     (if truthy_string provider then c\<lparr>entries := map_delete (the provider) (entries c)\<rparr> else c\<lparr>entries := []\<rparr>)"

subsection \<open>Runs\<close>

inductive cache_step :: "balance_cache \<Rightarrow> balance_cache \<Rightarrow> bool" where
  step_get: "call \<notin> fst ` set (waiting c) \<Longrightarrow> call \<notin> fst ` set (answers c) \<Longrightarrow> cache_step c (get_balance call provider now c)"
| step_refresh: "call \<notin> fst ` set (waiting c) \<Longrightarrow> call \<notin> fst ` set (answers c) \<Longrightarrow> cache_step c (refresh call provider c)"
| step_done: "map_get (inflight c) provider \<noteq> None \<Longrightarrow> cache_step c (fetch_done provider outcome now c)"
| step_invalidate: "cache_step c (invalidate provider c)"

text \<open>
  One fetch per provider; a fetch number belongs to one provider; whoever waits, waits for a fetch in
  flight; no call waits or is answered twice; and an answer that is not flagged is younger than the
  threshold.
\<close>

definition flights_ok :: "balance_cache \<Rightarrow> bool" where
  "flights_ok c \<longleftrightarrow> map_wf (inflight c) \<and>
     (\<forall>p f. map_get (inflight c) p = Some f \<longrightarrow> f < next_fetch c) \<and>
     (\<forall>p q f. map_get (inflight c) p = Some f \<longrightarrow> map_get (inflight c) q = Some f \<longrightarrow> p = q)"

definition calls_ok :: "balance_cache \<Rightarrow> bool" where
  "calls_ok c \<longleftrightarrow> distinct (map fst (waiting c) @ map fst (answers c)) \<and>
     (\<forall>(call, f) \<in> set (waiting c). \<exists>p. map_get (inflight c) p = Some f)"

definition honest :: "int \<Rightarrow> nat \<times> int \<times> (js_value + cache_entry) \<Rightarrow> bool" where
  "honest threshold x \<longleftrightarrow>
     (case x of (call, t, Inr e) \<Rightarrow> stale e \<or> t - fetchedAt e < threshold | (call, t, Inl err) \<Rightarrow> True)"

definition cache_ok :: "balance_cache \<Rightarrow> bool" where
  "cache_ok c \<longleftrightarrow> flights_ok c \<and> calls_ok c \<and> (\<forall>x \<in> set (answers c). honest (staleThresholdMs c) x)"

lemma cache_ok_new: "cache_ok (new_cache threshold)"
  by (simp add: cache_ok_def flights_ok_def calls_ok_def new_cache_def)

lemma honest_toEntry: "honest (staleThresholdMs c) (call, now, Inr (toEntry provider r now c))"
  by (auto simp: honest_def toEntry_def isStaleAt_def Let_def)

lemma cache_ok_refresh:
  assumes "cache_ok c" and "call \<notin> fst ` set (waiting c)" and "call \<notin> fst ` set (answers c)"
  shows "cache_ok (refresh call provider c)"
proof (cases "map_get (inflight c) provider")
  case None
  have lt: "map_get (inflight c) p = Some f \<Longrightarrow> f < next_fetch c" for p f
    using assms(1) by (auto simp: cache_ok_def flights_ok_def)
  have fl: "flights_ok (refresh call provider c)"
    using assms(1) None lt by (auto simp: cache_ok_def flights_ok_def refresh_def map_get_set dest: less_SucI)
  have "\<exists>p. map_get (inflight (refresh call provider c)) p = Some f" if "(k, f) \<in> set (waiting (refresh call provider c))" for k f
  proof (cases "f = next_fetch c")
    case False
    with that None have "(k, f) \<in> set (waiting c)" by (simp add: refresh_def)
    with assms(1) obtain p where p: "map_get (inflight c) p = Some f" by (auto simp: cache_ok_def calls_ok_def)
    with None have "p \<noteq> provider" by auto
    with p None show ?thesis by (intro exI [of _ p]) (simp add: refresh_def)
  qed (use None in \<open>auto simp: refresh_def intro!: exI [of _ provider]\<close>)
  moreover have "distinct (map fst (waiting (refresh call provider c)) @ map fst (answers (refresh call provider c)))"
    using assms None by (auto simp: cache_ok_def calls_ok_def refresh_def)
  ultimately show ?thesis using fl assms(1) None by (auto simp: cache_ok_def calls_ok_def refresh_def)
next
  case (Some f)
  with assms show ?thesis by (auto simp: cache_ok_def flights_ok_def calls_ok_def refresh_def)
qed

lemma cache_ok_get:
  assumes "cache_ok c" and "call \<notin> fst ` set (waiting c)" and "call \<notin> fst ` set (answers c)"
  shows "cache_ok (get_balance call provider now c)"
proof -
  have "cache_ok (c\<lparr>staleDetections := staleDetections c + 1\<rparr>)"
    using assms(1) by (simp add: cache_ok_def flights_ok_def calls_ok_def)
  moreover have "cache_ok (answer call now (Inr (toEntry provider r now c)) c)" for r
    using assms honest_toEntry [of c call now provider r]
    by (auto simp: cache_ok_def flights_ok_def calls_ok_def answer_def)
  ultimately show ?thesis
    using assms by (auto simp: get_balance_def intro!: cache_ok_refresh split: option.splits)
qed

lemma performRefresh_frame:
  "performRefresh provider outcome now c = (a, c1) \<Longrightarrow>
     inflight c1 = inflight c \<and> waiting c1 = waiting c \<and> answers c1 = answers c \<and> next_fetch c1 = next_fetch c \<and>
     staleThresholdMs c1 = staleThresholdMs c \<and> (\<forall>call. honest (staleThresholdMs c) (call, now, a))"
  using honest_toEntry
  by (auto simp: performRefresh_def Let_def honest_def toEntry_def isStaleAt_def split: sum.splits option.splits)

lemma distinct_partition:
  "distinct (map fst xs @ ys) \<Longrightarrow> distinct (map fst (filter (\<lambda>w. \<not> P w) xs) @ ys @ map fst (filter P xs))"
  by (induction xs) auto

lemma cache_ok_done:
  assumes "cache_ok c" and "map_get (inflight c) provider \<noteq> None"
  shows "cache_ok (fetch_done provider outcome now c)"
proof -
  obtain f where f: "map_get (inflight c) provider = Some f" using assms(2) by auto
  obtain a c1 where pr: "performRefresh provider outcome now c = (a, c1)" by (cases "performRefresh provider outcome now c")
  note fr = performRefresh_frame [OF pr]
  let ?c2 = "fetch_done provider outcome now c"
  have c2: "inflight ?c2 = map_delete provider (inflight c)" "waiting ?c2 = filter (\<lambda>w. snd w \<noteq> f) (waiting c)"
    "answers ?c2 = answers c @ map (\<lambda>call. (call, now, a)) (map fst (filter (\<lambda>w. snd w = f) (waiting c)))"
    "next_fetch ?c2 = next_fetch c" "staleThresholdMs ?c2 = staleThresholdMs c"
    using fr by (simp_all add: fetch_done_def f pr)
  have fl: "flights_ok ?c2" using assms(1) by (auto simp: cache_ok_def flights_ok_def c2 map_get_delete split: if_splits)
  have "distinct (map fst (waiting c) @ map fst (answers c))" using assms(1) by (simp add: cache_ok_def calls_ok_def)
  from distinct_partition [OF this, of "\<lambda>w. snd w = f"]
  have d: "distinct (map fst (waiting ?c2) @ map fst (answers ?c2))" by (simp add: c2 comp_def)
  have "\<exists>p. map_get (inflight ?c2) p = Some g" if "(k, g) \<in> set (waiting ?c2)" for k g
  proof -
    from that assms(1) obtain p where p: "map_get (inflight c) p = Some g" by (auto simp: c2 cache_ok_def calls_ok_def)
    moreover have "p \<noteq> provider" using that p f by (auto simp: c2)
    ultimately show ?thesis by (intro exI [of _ p]) (simp add: c2)
  qed
  with d have "calls_ok ?c2" by (auto simp: calls_ok_def)
  moreover have "\<forall>x \<in> set (answers ?c2). honest (staleThresholdMs ?c2) x"
    using assms(1) fr by (auto simp: c2 cache_ok_def)
  ultimately show ?thesis using fl by (simp add: cache_ok_def)
qed

lemma cache_ok_invalidate: "cache_ok c \<Longrightarrow> cache_ok (invalidate provider c)"
  by (simp add: cache_ok_def flights_ok_def calls_ok_def invalidate_def)

interpretation bc: invariant_machine "\<lambda>c. \<exists>t. c = new_cache t" cache_step cache_ok
proof
  show "\<exists>t. c = new_cache t \<Longrightarrow> cache_ok c" for c using cache_ok_new by auto
  show "cache_ok c \<Longrightarrow> cache_step c c' \<Longrightarrow> cache_ok c'" for c c'
    by (erule cache_step.cases) (simp_all add: cache_ok_get cache_ok_refresh cache_ok_done cache_ok_invalidate)
qed

lemma cache_step_threshold: "cache_step c c' \<Longrightarrow> staleThresholdMs c' = staleThresholdMs c"
proof (erule cache_step.cases)
  fix call d provider now
  show "c = d \<Longrightarrow> c' = get_balance call provider now d \<Longrightarrow> staleThresholdMs c' = staleThresholdMs c"
    by (auto simp: get_balance_def refresh_def answer_def split: option.splits)
next
  fix d provider outcome now
  obtain a d1 where pr: "performRefresh provider outcome now d = (a, d1)" by (cases "performRefresh provider outcome now d")
  show "c = d \<Longrightarrow> c' = fetch_done provider outcome now d \<Longrightarrow> staleThresholdMs c' = staleThresholdMs c"
    using performRefresh_frame [OF pr] by (auto simp: fetch_done_def pr split: option.splits)
qed (auto simp: refresh_def invalidate_def split: option.splits)

lemma cache_steps_threshold: "steps_from cache_step c c' \<Longrightarrow> staleThresholdMs c' = staleThresholdMs c"
  by (induction rule: steps_from.induct) (auto dest: cache_step_threshold)

subsection \<open>Properties\<close>

text \<open>
  The cache never passes off an old balance as current: in every run, an answer that is not flagged
  stale was fetched less than the threshold before it was given.
\<close>

theorem no_unflagged_stale_balance:
  assumes "steps_from cache_step (new_cache (Some threshold)) c" and "(call, t, Inr e) \<in> set (answers c)"
  shows "stale e \<or> t - fetchedAt e < threshold"
proof -
  have "cache_ok c" using bc.inv_reachable [OF _ assms(1)] by blast
  moreover have "staleThresholdMs c = threshold" using cache_steps_threshold [OF assms(1)] by (simp add: new_cache_def)
  ultimately show ?thesis using assms(2) by (auto simp: cache_ok_def honest_def)
qed

definition sample_value :: balance_value where
  "sample_value = \<lparr>availableBalance = Fin 70000, currency = ''XAF''\<rparr>"

definition sample_cache :: balance_cache where
  "sample_cache = fetch_done ''mtn'' (Inr sample_value) 100 (get_balance 1 ''mtn'' 5 (get_balance 0 ''mtn'' 0 (new_cache (Some 1000))))"

lemma sample_cache_answers: "answers sample_cache =
  [(0, 100, Inr (toEntry ''mtn'' \<lparr>record_value = sample_value, record_fetchedAt = 100\<rparr> 100 (new_cache (Some 1000)))),
   (1, 100, Inr (toEntry ''mtn'' \<lparr>record_value = sample_value, record_fetchedAt = 100\<rparr> 100 (new_cache (Some 1000))))]"
  by (simp add: sample_cache_def get_balance_def refresh_def new_cache_def fetch_done_def performRefresh_def Let_def
      map_get_set toEntry_def isStaleAt_def)

lemma sample_cache_reachable: "steps_from cache_step (new_cache (Some 1000)) sample_cache"
proof -
  let ?c0 = "new_cache (Some 1000)" and ?c1 = "get_balance 0 ''mtn'' 0 (new_cache (Some 1000))"
  have "cache_step ?c0 ?c1" by (rule step_get) (simp_all add: new_cache_def)
  moreover have "cache_step ?c1 (get_balance 1 ''mtn'' 5 ?c1)"
    by (rule step_get) (simp_all add: get_balance_def refresh_def new_cache_def)
  moreover have "cache_step (get_balance 1 ''mtn'' 5 ?c1) sample_cache"
    unfolding sample_cache_def by (rule step_done) (simp add: get_balance_def refresh_def new_cache_def)
  ultimately show ?thesis by (blast intro: steps_step steps_refl)
qed

theorem no_unflagged_stale_balance_witness:
  "stale (toEntry ''mtn'' \<lparr>record_value = sample_value, record_fetchedAt = 100\<rparr> 100 (new_cache (Some 1000))) \<or>
     100 - fetchedAt (toEntry ''mtn'' \<lparr>record_value = sample_value, record_fetchedAt = 100\<rparr> 100 (new_cache (Some 1000))) < 1000"
  using no_unflagged_stale_balance [OF sample_cache_reachable, of 0 100
      "toEntry ''mtn'' \<lparr>record_value = sample_value, record_fetchedAt = 100\<rparr> 100 (new_cache (Some 1000))"]
  by (simp add: sample_cache_answers)

text \<open>
  No caller is lost: in every run, a call that waits does so for the one fetch in flight of some
  provider, has no answer yet, and is answered when that fetch ends, well or badly.
\<close>

theorem waiting_caller_answered:
  assumes "steps_from cache_step (new_cache threshold) c" and "(call, f) \<in> set (waiting c)"
  shows "\<exists>provider. map_get (inflight c) provider = Some f \<and> call \<notin> fst ` set (answers c) \<and>
    (\<forall>outcome now. \<exists>a. (call, now, a) \<in> set (answers (fetch_done provider outcome now c)))"
proof -
  have ok: "cache_ok c" using bc.inv_reachable [OF _ assms(1)] by blast
  then obtain p where p: "map_get (inflight c) p = Some f" using assms(2) by (auto simp: cache_ok_def calls_ok_def)
  have "call \<notin> fst ` set (answers c)" using ok assms(2) by (force simp: cache_ok_def calls_ok_def)
  moreover have "\<exists>a. (call, now, a) \<in> set (answers (fetch_done p outcome now c))" for outcome now
  proof -
    obtain a c1 where pr: "performRefresh p outcome now c = (a, c1)" by (cases "performRefresh p outcome now c")
    have "(call, now, a) \<in> set (answers (fetch_done p outcome now c))"
      using assms(2) p performRefresh_frame [OF pr] by (force simp: fetch_done_def pr)
    then show ?thesis by blast
  qed
  ultimately show ?thesis using p by blast
qed

theorem waiting_caller_answered_witness:
  "\<exists>provider. map_get (inflight (get_balance 0 ''mtn'' 0 (new_cache None))) provider = Some 0"
proof -
  have "steps_from cache_step (new_cache None) (get_balance 0 ''mtn'' 0 (new_cache None))"
    by (intro steps_from_one step_get) (simp_all add: new_cache_def)
  from waiting_caller_answered [OF this, of 0 0] show ?thesis
    by (auto simp: get_balance_def refresh_def new_cache_def)
qed

end
