(* ===== verification/Balance_Reserve.thy ===== *)
theory Balance_Reserve
  imports Balance_Cache
begin

text \<open>
  \<open>src/src/config/balanceReserve.ts\<close> and \<open>src/src/services/providerBalanceReserve.ts\<close>: the reserve
  settings of the providers, the snapshot and forecast of a balance, and a check over all providers.

  The environment is a map from variable names to texts. The database is the answer of the two
  queries: the text of the latest balance, if there is a row, and the text of the average outflow; a
  query may fail. A check reads balances through the cache of theory \<open>Balance_Cache\<close>; here a check runs
  alone, so a read is a call of \<open>get_balance\<close> followed by the end of the fetch it started. Notification
  messages are not modelled; whether one is sent is.
\<close>

subsection \<open>Settings\<close>

record reserve_config =
  minimumReserve :: js_num
  cfg_currency :: string
  alertThresholdFraction :: js_num
  forecastWindowDays :: js_num

type_synonym environment = "string \<Rightarrow> string option"

definition parseFloat_env :: "string option \<Rightarrow> js_num \<Rightarrow> js_num" where
  "parseFloat_env raw fallback =
     (if \<not> truthy_string raw then fallback
      else let parsed = parse_float (the raw) in if isFinite parsed \<and> jge parsed (Fin 0) then parsed else fallback)"

definition parseInt_env :: "string option \<Rightarrow> js_num \<Rightarrow> js_num" where
  "parseInt_env raw fallback =
     (if \<not> truthy_string raw then fallback
      else let parsed = parse_int (the raw) in if isFinite parsed \<and> jgt parsed (Fin 0) then parsed else fallback)"

definition provider_config :: "environment \<Rightarrow> string \<Rightarrow> reserve_config" where
  "provider_config env prefix =
     \<lparr>minimumReserve = parseFloat_env (env (prefix @ ''_MINIMUM_RESERVE'')) (Fin 50000),
      cfg_currency = (case env (prefix @ ''_BALANCE_CURRENCY'') of None \<Rightarrow> ''XAF'' | Some c \<Rightarrow> c),
      alertThresholdFraction = parseFloat_env (env (prefix @ ''_RESERVE_ALERT_THRESHOLD_FRACTION'')) (of_exact (8 / 10)),
      forecastWindowDays = parseInt_env (env (prefix @ ''_RESERVE_FORECAST_WINDOW_DAYS'')) (Fin 7)\<rparr>"

definition getBalanceReserveConfig :: "environment \<Rightarrow> (string \<times> reserve_config) list \<times> string \<times> string" where
  "getBalanceReserveConfig env =
     ([(''mtn'', provider_config env ''MTN''), (''airtel'', provider_config env ''AIRTEL''),
       (''orange'', provider_config env ''ORANGE'')],
      (case env ''OPS_NOTIFICATION_EMAIL'' of None \<Rightarrow> [] | Some e \<Rightarrow> e),
      (case env ''OPS_NOTIFICATION_WEBHOOK_URL'' of Some u \<Rightarrow> u
       | None \<Rightarrow> (case env ''SLACK_ALERTS_WEBHOOK_URL'' of Some u \<Rightarrow> u | None \<Rightarrow> [])))"

subsection \<open>Snapshot and forecast\<close>

datatype reserve_status = StatusOk | Approaching | Critical

record balance_meta =
  meta_fetchedAt :: int
  meta_ageMs :: int
  meta_stale :: bool
  meta_warning :: "cache_warning option"

record balance_snapshot =
  snap_provider :: string
  currentBalance :: js_num
  snap_currency :: string
  snap_minimumReserve :: js_num
  alertThreshold :: js_num
  status :: reserve_status
  percentageOfReserve :: js_num
  snap_meta :: "balance_meta option"

record balance_forecast =
  fc_provider :: string
  averageDailyOutflow :: js_num
  estimatedDaysUntilMinimum :: "js_num option"
  forecastedBalanceIn7Days :: js_num
  fc_currency :: string

definition or_zero :: "js_num \<Rightarrow> js_num" where
  "or_zero x = (if x = NaN \<or> x = Fin 0 then Fin 0 else x)"

definition buildSnapshot :: "string \<Rightarrow> js_num \<Rightarrow> reserve_config \<Rightarrow> balance_meta option \<Rightarrow> balance_snapshot" where
  "buildSnapshot provider balance cfg meta =
     (let threshold = jmul (minimumReserve cfg) (alertThresholdFraction cfg)
      in \<lparr>snap_provider = provider, currentBalance = balance, snap_currency = cfg_currency cfg,
          snap_minimumReserve = minimumReserve cfg, alertThreshold = threshold,
          status = (if jlt balance (minimumReserve cfg) then Critical
                    else if jlt balance threshold then Approaching else StatusOk),
          percentageOfReserve = (if jgt (minimumReserve cfg) (Fin 0)
            then math_round (jmul (jdiv balance (minimumReserve cfg)) (Fin 100)) else Fin 100),
          snap_meta = meta\<rparr>)"

definition buildForecast :: "string \<Rightarrow> js_num \<Rightarrow> js_num \<Rightarrow> reserve_config \<Rightarrow> balance_forecast" where
  "buildForecast provider balance outflow cfg =
     \<lparr>fc_provider = provider, averageDailyOutflow = outflow,
      estimatedDaysUntilMinimum = (if jgt outflow (Fin 0)
        then let days = jdiv (jsub balance (minimumReserve cfg)) outflow
             in Some (if jgt days (Fin 0) then math_floor days else Fin 0)
        else None),
      forecastedBalanceIn7Days = math_max (Fin 0) (jsub balance (jmul outflow (Fin 7))),
      fc_currency = cfg_currency cfg\<rparr>"

subsection \<open>A check\<close>

record reserve_db =
  balance_row :: "string \<Rightarrow> js_value + string option"
  outflow_row :: "string \<Rightarrow> js_num \<Rightarrow> js_value + string"

definition fetchCurrentBalanceFromDb :: "reserve_db \<Rightarrow> string \<Rightarrow> js_value + js_num" where
  "fetchCurrentBalanceFromDb db provider =
     (case balance_row db provider of
        Inl e \<Rightarrow> Inl e
      | Inr None \<Rightarrow> Inr (Fin 0)
      | Inr (Some text) \<Rightarrow> Inr (or_zero (parse_float text)))"

definition fetchAverageDailyOutflow :: "reserve_db \<Rightarrow> string \<Rightarrow> js_num \<Rightarrow> js_value + js_num" where
  "fetchAverageDailyOutflow db provider days =
     (case outflow_row db provider days of Inl e \<Rightarrow> Inl e | Inr text \<Rightarrow> Inr (or_zero (parse_float text)))"

text \<open>A read through the cache by a caller that runs alone: the last answer is the answer of the call.\<close>

definition cached_balance ::
  "reserve_db \<Rightarrow> string \<Rightarrow> reserve_config \<Rightarrow> nat \<Rightarrow> int \<Rightarrow> balance_cache \<Rightarrow> (js_value + cache_entry) \<times> balance_cache" where
  "cached_balance db provider cfg call now c =
     (let c1 = get_balance call provider now c;
          outcome = (case fetchCurrentBalanceFromDb db provider of
            Inl e \<Rightarrow> Inl e | Inr b \<Rightarrow> Inr \<lparr>availableBalance = b, currency = cfg_currency cfg\<rparr>);
          c2 = (if call \<in> fst ` set (waiting c1) then fetch_done provider outcome now c1 else c1)
      in (snd (snd (List.last (answers c2))), c2))"

record provider_report =
  rep_snapshot :: balance_snapshot
  rep_forecast :: balance_forecast
  alert :: bool

definition check_provider ::
  "reserve_db \<Rightarrow> int \<Rightarrow> nat \<Rightarrow> string \<times> reserve_config \<Rightarrow> balance_cache \<Rightarrow> provider_report \<times> balance_cache" where
  "check_provider db now call pc c =
     (let (provider, cfg) = pc;
          (answer, c1) = cached_balance db provider cfg call now c;
          balance = (case answer of Inl e \<Rightarrow> Fin 0 | Inr e \<Rightarrow> availableBalance (entry_value e));
          meta = (case answer of Inl e \<Rightarrow> None | Inr e \<Rightarrow>
            Some \<lparr>meta_fetchedAt = fetchedAt e, meta_ageMs = ageMs e, meta_stale = stale e, meta_warning = warning e\<rparr>);
          outflow = (case fetchAverageDailyOutflow db provider (forecastWindowDays cfg) of Inl e \<Rightarrow> Fin 0 | Inr x \<Rightarrow> x);
          snap = buildSnapshot provider balance cfg meta
      in (\<lparr>rep_snapshot = snap, rep_forecast = buildForecast provider balance outflow cfg,
           alert = (status snap \<noteq> StatusOk)\<rparr>, c1))"

fun check_all ::
  "reserve_db \<Rightarrow> int \<Rightarrow> nat \<Rightarrow> (string \<times> reserve_config) list \<Rightarrow> balance_cache \<Rightarrow> provider_report list \<times> balance_cache" where
  "check_all db now call [] c = ([], c)"
| "check_all db now call (pc # pcs) c =
     (let (r, c1) = check_provider db now call pc c; (rs, c2) = check_all db now (Suc call) pcs c1 in (r # rs, c2))"

definition runCheck ::
  "environment \<Rightarrow> reserve_db \<Rightarrow> int \<Rightarrow> nat \<Rightarrow> balance_cache \<Rightarrow> provider_report list \<times> balance_cache" where
  "runCheck env db now call c = check_all db now call (fst (getBalanceReserveConfig env)) c"

subsection \<open>Properties\<close>

lemma jmul_fraction_le:
  assumes "0 \<le> m" and "representable m" and "m < overflow64" and "0 \<le> f" and "f \<le> 1"
  shows "\<exists>x. jmul (Fin m) (Fin f) = Fin x \<and> x \<le> m"
proof -
  have le: "rnd64 (m * f) \<le> m" using assms by (intro rnd64_le_representable) (auto intro: mult_left_le)
  moreover have "0 \<le> rnd64 (m * f)" using assms by (intro rnd64_nonneg) simp
  ultimately show ?thesis using assms(3) by (auto simp: of_exact_def Let_def)
qed

text \<open>
  The warning before the minimum never fires. With a threshold fraction of at most one, as the
  documented 0.8, the status \<open>approaching\<close> is unreachable: a balance below the threshold is below the
  minimum and is reported as critical.
\<close>

theorem approaching_unreachable:
  assumes "minimumReserve cfg = Fin m" and "0 \<le> m" and "representable m" and "m < overflow64"
    and "alertThresholdFraction cfg = Fin f" and "0 \<le> f" and "f \<le> 1"
  shows "status (buildSnapshot provider balance cfg meta) \<noteq> Approaching"
proof -
  obtain x where "jmul (minimumReserve cfg) (alertThresholdFraction cfg) = Fin x" "x \<le> m"
    using jmul_fraction_le [OF assms(2,3,4,6,7)] assms(1,5) by auto
  then show ?thesis using assms(1) by (cases balance) (auto simp: buildSnapshot_def Let_def)
qed

theorem approaching_unreachable_witness:
  "status (buildSnapshot ''mtn'' (Fin 60000) \<lparr>minimumReserve = Fin 50000, cfg_currency = ''XAF'',
     alertThresholdFraction = Fin (3 / 4), forecastWindowDays = Fin 7\<rparr> None) \<noteq> Approaching"
proof (rule approaching_unreachable)
  show "representable (50000 :: rat)" using representable_of_int [of 50000] by simp
  have "(50000 :: rat) < 2 powi 16" by simp
  also have "\<dots> < overflow64" by (rule powi_less_overflow64) simp
  finally show "(50000 :: rat) < overflow64" .
  show "alertThresholdFraction \<lparr>minimumReserve = Fin 50000, cfg_currency = ''XAF'', alertThresholdFraction = Fin (3 / 4),
      forecastWindowDays = Fin 7\<rparr> = Fin (3 / 4)" by simp
qed simp_all

definition db_outcome :: "reserve_db \<Rightarrow> string \<Rightarrow> reserve_config \<Rightarrow> js_value + balance_value" where
  "db_outcome db provider cfg =
     (case fetchCurrentBalanceFromDb db provider of
        Inl e \<Rightarrow> Inl e | Inr b \<Rightarrow> Inr \<lparr>availableBalance = b, currency = cfg_currency cfg\<rparr>)"

lemma performRefresh_cong:
  assumes "entries c' = entries c" and "staleThresholdMs c' = staleThresholdMs c"
  shows "fst (performRefresh provider out now c') = fst (performRefresh provider out now c)"
  using assms by (simp add: performRefresh_def toEntry_def isStaleAt_def Let_def split: sum.splits option.splits)

text \<open>A read that misses the cache while nothing else is going on is answered by its own fetch.\<close>

lemma cached_balance_miss:
  assumes "inflight c = []" and "waiting c = []" and "map_get (entries c) provider = None"
  shows "fst (cached_balance db provider cfg call now c) = fst (performRefresh provider (db_outcome db provider cfg) now c)"
proof -
  let ?c1 = "refresh call provider c" and ?out = "db_outcome db provider cfg"
  obtain a c2 where p: "performRefresh provider ?out now ?c1 = (a, c2)" by (cases "performRefresh provider ?out now ?c1")
  have c1: "map_get (inflight ?c1) provider = Some (next_fetch c)" "waiting ?c1 = [(call, next_fetch c)]"
    "entries ?c1 = entries c" "staleThresholdMs ?c1 = staleThresholdMs c"
    using assms(1,2) by (simp_all add: refresh_def)
  have "answers (fetch_done provider ?out now ?c1) = answers c2 @ [(call, now, a)]"
    using performRefresh_frame [OF p] by (simp add: fetch_done_def p c1)
  moreover have "get_balance call provider now c = ?c1" using assms(3) by (simp add: get_balance_def)
  ultimately have "fst (cached_balance db provider cfg call now c) = a"
    by (simp add: cached_balance_def db_outcome_def [symmetric] c1 Let_def)
  with performRefresh_cong [OF c1(3,4), of provider ?out now] p show ?thesis by simp
qed

text \<open>
  A check reports what the database says, and reports a failed query as an empty float. For a
  provider that is not in the cache: when the query answers, the snapshot shows that balance with age
  zero; when it fails, the snapshot shows a balance of zero and a positive minimum raises a critical
  alert.
\<close>

theorem check_reports_database:
  assumes "inflight c = []" and "waiting c = []" and "map_get (entries c) provider = None"
    and "jgt (minimumReserve cfg) (Fin 0)"
  shows "(\<forall>b. fetchCurrentBalanceFromDb db provider = Inr b \<longrightarrow>
      currentBalance (rep_snapshot (fst (check_provider db now call (provider, cfg) c))) = b \<and>
      map_option meta_ageMs (snap_meta (rep_snapshot (fst (check_provider db now call (provider, cfg) c)))) = Some 0) \<and>
    (\<forall>e. fetchCurrentBalanceFromDb db provider = Inl e \<longrightarrow>
      currentBalance (rep_snapshot (fst (check_provider db now call (provider, cfg) c))) = Fin 0 \<and>
      status (rep_snapshot (fst (check_provider db now call (provider, cfg) c))) = Critical \<and>
      alert (fst (check_provider db now call (provider, cfg) c)))"
proof -
  obtain ans c1 where c1: "cached_balance db provider cfg call now c = (ans, c1)"
    by (cases "cached_balance db provider cfg call now c")
  have ans: "ans = fst (performRefresh provider (db_outcome db provider cfg) now c)"
    using cached_balance_miss [OF assms(1-3), of db cfg call now] c1 by simp
  have "ans = Inl e" if "fetchCurrentBalanceFromDb db provider = Inl e" for e
    using that assms(3) by (simp add: ans db_outcome_def performRefresh_def)
  moreover have "\<exists>x. ans = Inr x \<and> availableBalance (entry_value x) = b \<and> ageMs x = 0"
    if "fetchCurrentBalanceFromDb db provider = Inr b" for b
    using that by (simp add: ans db_outcome_def performRefresh_def toEntry_def Let_def)
  ultimately show ?thesis using assms(4)
    by (auto simp: check_provider_def c1 buildSnapshot_def Let_def)
qed

theorem check_reports_database_witness:
  "alert (fst (check_provider \<lparr>balance_row = (\<lambda>p. Inl Undefined), outflow_row = (\<lambda>p d. Inl Undefined)\<rparr> 0 0
     (''mtn'', \<lparr>minimumReserve = Fin 50000, cfg_currency = ''XAF'', alertThresholdFraction = Fin (3 / 4),
       forecastWindowDays = Fin 7\<rparr>) (new_cache None)))"
  using check_reports_database [of "new_cache None" "''mtn''" "\<lparr>minimumReserve = Fin 50000, cfg_currency = ''XAF'',
      alertThresholdFraction = Fin (3 / 4), forecastWindowDays = Fin 7\<rparr>"
      "\<lparr>balance_row = (\<lambda>p. Inl Undefined), outflow_row = (\<lambda>p d. Inl Undefined)\<rparr>" 0 0]
  by (simp add: new_cache_def fetchCurrentBalanceFromDb_def)

end
