(* ===== verification/Redis_Clients.thy ===== *)
theory Redis_Clients
  imports Redis_Program
begin

text \<open>
  Two more clients of Redis: \<open>src/src/services/twoFactorRateLimiter.ts\<close> and
  \<open>src/src/services/notificationDeduplicator.ts\<close>.

  The functions of the rate limiter do not catch rejected promises: their result is \<open>None\<close> then. The
  deduplicator falls back to a map in the process when Redis is closed or rejects the command. Its two
  stores have the contract \<open>claim_store\<close>: a claim succeeds exactly when the key is not claimed, and
  claims it for the time to live. The hash of \<open>hashDedupParts\<close> is a parameter.
\<close>

subsection \<open>Two-factor attempts\<close>

definition MAX_ATTEMPTS :: int where
  "MAX_ATTEMPTS = 3"

definition TWO_FACTOR_LOCKOUT_SECONDS :: int where
  "TWO_FACTOR_LOCKOUT_SECONDS = 15 * 60"

definition twoFactorKey :: "string \<Rightarrow> string" where
  "twoFactorKey user = ''2fa:lockout:'' @ user"

definition twoFactorIsLocked :: "string \<Rightarrow> (unit, bool option) prog" where
  "twoFactorIsLocked user =
     IsOpen (\<lambda>ready. if \<not> ready then Return (Some False)
     else Get (twoFactorKey user) (\<lambda>answer. case answer of
       None \<Rightarrow> Return None
     | Some attempts \<Rightarrow> Return (Some (attempts \<noteq> None \<and> jge (parse_int (the attempts)) (Fin (of_int MAX_ATTEMPTS))))))"

definition incrementFailures :: "string \<Rightarrow> (unit, int option) prog" where
  "incrementFailures user =
     IsOpen (\<lambda>ready. if \<not> ready then Return (Some 0)
     else Incr (twoFactorKey user) (\<lambda>answer. case answer of
       None \<Rightarrow> Return None
     | Some count \<Rightarrow>
         if count = 1 then
           Expire (twoFactorKey user) TWO_FACTOR_LOCKOUT_SECONDS (\<lambda>answer. case answer of
             None \<Rightarrow> Return None | Some _ \<Rightarrow> Return (Some count))
         else Return (Some count)))"

definition resetFailures :: "string \<Rightarrow> (unit, unit option) prog" where
  "resetFailures user =
     IsOpen (\<lambda>ready. if \<not> ready then Return (Some ())
     else Del [twoFactorKey user] (\<lambda>answer. case answer of None \<Rightarrow> Return None | Some _ \<Rightarrow> Return (Some ())))"

definition getRemainingTries :: "string \<Rightarrow> (unit, js_num option) prog" where
  "getRemainingTries user =
     IsOpen (\<lambda>ready. if \<not> ready then Return (Some (Fin (of_int MAX_ATTEMPTS)))
     else Get (twoFactorKey user) (\<lambda>answer. case answer of
       None \<Rightarrow> Return None
     | Some raw \<Rightarrow>
         let attempts = (if truthy_string raw then parse_int (the raw) else Fin 0)
         in Return (Some (math_max (Fin 0) (jsub (Fin (of_int MAX_ATTEMPTS)) attempts)))))"

definition getLockoutTimeRemaining :: "string \<Rightarrow> (unit, int option) prog" where
  "getLockoutTimeRemaining user =
     IsOpen (\<lambda>ready. if \<not> ready then Return (Some 0)
     else Ttl (twoFactorKey user) (\<lambda>answer. case answer of None \<Rightarrow> Return None | Some ttl \<Rightarrow> Return (Some (max 0 ttl))))"

fun run_increments :: "'r redis_server \<Rightarrow> string \<Rightarrow> int list \<Rightarrow> 'r \<Rightarrow> 'r" where
  "run_increments srv user [] r = r"
| "run_increments srv user (t # ts) r = run_increments srv user ts (fst (snd (run srv t (incrementFailures user) r)))"

lemma increment_first:
  assumes laws: "redis_laws srv view" and "view t r (twoFactorKey user) = None"
  shows "view t (fst (snd (run srv t (incrementFailures user) r))) (twoFactorKey user) =
    Some (nat_text 1, Some (t + 1000 * TWO_FACTOR_LOCKOUT_SECONDS))"
proof -
  obtain r1 where r1: "serve_incr srv t (twoFactorKey user) r = (Some 1, r1)"
    "view t r1 = (view t r)(twoFactorKey user \<mapsto> (nat_text 1, None))" using laws_incr_new [OF assms] by auto
  obtain r2 where "serve_expire srv t (twoFactorKey user) TWO_FACTOR_LOCKOUT_SECONDS r1 = (Some True, r2)"
    "view t r2 = (view t r1)(twoFactorKey user \<mapsto> (nat_text 1, Some (t + 1000 * TWO_FACTOR_LOCKOUT_SECONDS)))"
    using laws_expire [OF laws, of t r1 "twoFactorKey user" "nat_text 1" None TWO_FACTOR_LOCKOUT_SECONDS] r1(2)
    by (auto simp: TWO_FACTOR_LOCKOUT_SECONDS_def)
  with r1 show ?thesis by (simp add: incrementFailures_def laws_open [OF laws])
qed

lemma increment_next:
  assumes laws: "redis_laws srv view" and "view t r (twoFactorKey user) = Some (nat_text n, e)" and "1 \<le> n" and "n < 2 ^ 53"
  shows "view t (fst (snd (run srv t (incrementFailures user) r))) (twoFactorKey user) = Some (nat_text (Suc n), e)"
proof -
  obtain r1 where "serve_incr srv t (twoFactorKey user) r = (Some (int n + 1), r1)"
    "view t r1 = (view t r)(twoFactorKey user \<mapsto> (nat_text (Suc n), e))" using laws_incr [OF laws assms(2,4)] by auto
  with assms(3) show ?thesis by (simp add: incrementFailures_def laws_open [OF laws])
qed

lemma run_increments_view:
  assumes laws: "redis_laws srv view"
  shows "view t0 r (twoFactorKey user) = Some (nat_text n, Some d) \<Longrightarrow> 1 \<le> n \<Longrightarrow> n + length ts < 2 ^ 53 \<Longrightarrow>
    sorted (t0 # ts) \<Longrightarrow> \<forall>t \<in> set ts. t < d \<Longrightarrow>
    view (List.last (t0 # ts)) (run_increments srv user ts r) (twoFactorKey user) = Some (nat_text (n + length ts), Some d)"
proof (induction ts arbitrary: t0 r n)
  case (Cons t ts)
  have v: "view t r (twoFactorKey user) = Some (nat_text n, Some d)"
    using laws_time [OF laws, of t0 t r "twoFactorKey user"] Cons.prems by (auto simp: live_at_def key_expired_def)
  have "view t (fst (snd (run srv t (incrementFailures user) r))) (twoFactorKey user) = Some (nat_text (Suc n), Some d)"
    using increment_next [OF laws v] Cons.prems by simp
  from Cons.IH [OF this] Cons.prems show ?case by auto
qed simp

lemma run_twoFactorIsLocked:
  assumes "redis_laws srv view"
  shows "fst (run srv now (twoFactorIsLocked user) r) =
    Some (case view now r (twoFactorKey user) of None \<Rightarrow> False | Some (v, e) \<Rightarrow> jge (parse_int v) (Fin (of_int MAX_ATTEMPTS)))"
  by (simp add: twoFactorIsLocked_def laws_open [OF assms] laws_get [OF assms] split: option.splits)

text \<open>
  Two-factor codes are locked by the third failure, and only until fifteen minutes after the
  first failure: for failures at non-decreasing times within fifteen minutes of the first, the user is
  locked from then on exactly when there are at least three, and is unlocked fifteen minutes after the
  first failure, however late the last one was.
\<close>

theorem two_factor_lock_window:
  assumes laws: "redis_laws srv view" and fresh: "view t r (twoFactorKey user) = None"
    and srt: "sorted (t # ts)" and win: "\<forall>x \<in> set ts. x < t + 900000" and len: "length ts < 2 ^ 52"
    and last: "List.last (t # ts) \<le> later"
  shows "fst (run srv later (twoFactorIsLocked user) (run_increments srv user (t # ts) r)) =
    Some (later < t + 900000 \<and> 3 \<le> length (t # ts))"
proof -
  let ?r1 = "fst (snd (run srv t (incrementFailures user) r))" and ?r = "run_increments srv user (t # ts) r"
  have "view t ?r1 (twoFactorKey user) = Some (nat_text 1, Some (t + 900000))"
    using increment_first [OF laws fresh] by (simp add: TWO_FACTOR_LOCKOUT_SECONDS_def)
  from run_increments_view [OF laws this _ _ srt win] len
  have "view (List.last (t # ts)) ?r (twoFactorKey user) = Some (nat_text (Suc (length ts)), Some (t + 900000))" by simp
  with laws_time [OF laws last, of ?r "twoFactorKey user"]
  have "view later ?r (twoFactorKey user) =
      (if t + 900000 \<le> later then None else Some (nat_text (Suc (length ts)), Some (t + 900000)))"
    by (simp only:) (simp add: live_at_def key_expired_def)
  moreover have "parse_int (nat_text (Suc (length ts))) = Fin (of_nat (Suc (length ts)))"
    using len by (intro parse_int_nat_text) simp
  ultimately show ?thesis by (simp only: run_twoFactorIsLocked [OF laws]) (auto simp: MAX_ATTEMPTS_def)
qed

theorem two_factor_lock_window_witness:
  "fst (run mem_server 900100 (twoFactorIsLocked ''u'') (run_increments mem_server ''u'' [0, 1, 899000] [])) = Some False"
  using two_factor_lock_window [OF mem_server_laws, of 0 "[]" "''u''" "[1, 899000]" 900100]
  by (simp add: mem_view_def live_at_def del: run_increments.simps)

subsection \<open>Notification deduplication\<close>

definition DEDUP_KEY_PREFIX :: string where
  "DEDUP_KEY_PREFIX = ''notif:dedup:''"

definition hashDedupParts :: "(string \<Rightarrow> string) \<Rightarrow> string option list \<Rightarrow> string" where
  "hashDedupParts sha256_hex parts = take 24 (sha256_hex (join ''|'' (map the (filter (\<lambda>p. truthy_string p) parts))))"

text \<open>\<open>InMemoryDeduplicator\<close>: the expiry time of each key in milliseconds.\<close>

type_synonym dedup_memory = "(string, int) js_map"

definition cleanup :: "int \<Rightarrow> dedup_memory \<Rightarrow> dedup_memory" where
  "cleanup now store = (if map_size store \<ge> 10000 then filter (\<lambda>kv. \<not> snd kv \<le> now) store else store)"

definition tryAcquire :: "int \<Rightarrow> string \<Rightarrow> int \<Rightarrow> dedup_memory \<Rightarrow> bool \<times> dedup_memory" where
  "tryAcquire ttlMs key now store =
     (let store1 = cleanup now store in
      case map_get store1 key of
        Some expiresAt \<Rightarrow> if expiresAt > now then (False, store1) else (True, map_set key (now + ttlMs) store1)
      | None \<Rightarrow> (True, map_set key (now + ttlMs) store1))"

definition claim_redis :: "int \<Rightarrow> string \<Rightarrow> (unit, bool option) prog" where
  "claim_redis ttlSeconds key =
     IsOpen (\<lambda>ready. if ready then Set_nx (DEDUP_KEY_PREFIX @ key) ''1'' (ttlSeconds * 1000) (\<lambda>answer. Return answer)
       else Return None)"

definition claim :: "'r redis_server \<Rightarrow> int \<Rightarrow> string \<Rightarrow> int \<Rightarrow> 'r \<times> dedup_memory \<Rightarrow> bool \<times> 'r \<times> dedup_memory" where
  "claim srv ttlSeconds key now st =
     (let (r, store) = st; (answer, r1, es) = run srv now (claim_redis ttlSeconds key) r in
      case answer of
        Some b \<Rightarrow> (b, r1, store)
      | None \<Rightarrow> (let (b, store1) = tryAcquire (ttlSeconds * 1000) key now store in (b, r1, store1)))"

definition reset_memory :: "'r \<times> dedup_memory \<Rightarrow> 'r \<times> dedup_memory" where
  "reset_memory st = (fst st, [])"

text \<open>A row of claims with their times, and the outcomes that the times alone determine.\<close>

fun run_claims :: "(string \<Rightarrow> int \<Rightarrow> 's \<Rightarrow> bool \<times> 's) \<Rightarrow> (string \<times> int) list \<Rightarrow> 's \<Rightarrow> bool list \<times> 's" where
  "run_claims acquire [] s = ([], s)"
| "run_claims acquire ((key, now) # calls) s =
     (let (b, s1) = acquire key now s; (bs, s2) = run_claims acquire calls s1 in (b # bs, s2))"

fun free_from :: "int \<Rightarrow> (string \<times> int) list \<Rightarrow> (string \<Rightarrow> int option) \<Rightarrow> bool list" where
  "free_from ttl [] m = []"
| "free_from ttl ((key, now) # calls) m =
     (if (case m key of None \<Rightarrow> True | Some e \<Rightarrow> e \<le> now) then True # free_from ttl calls (m(key \<mapsto> now + ttl))
      else False # free_from ttl calls m)"

text \<open>The contract of a store of claims.\<close>

locale claim_store =
  fixes acquire :: "string \<Rightarrow> int \<Rightarrow> 's \<Rightarrow> bool \<times> 's"
    and claimed :: "int \<Rightarrow> 's \<Rightarrow> string \<Rightarrow> int option"
    and valid :: "int \<Rightarrow> 's \<Rightarrow> bool"
    and ttl :: int
  assumes acquire_result: "valid now s \<Longrightarrow> fst (acquire key now s) \<longleftrightarrow> claimed now s key = None"
    and acquire_state: "valid now s \<Longrightarrow> claimed now (snd (acquire key now s)) k =
      (if k = key \<and> claimed now s key = None then Some (now + ttl) else claimed now s k)"
    and acquire_valid: "valid now s \<Longrightarrow> valid now (snd (acquire key now s))"
    and claimed_later: "valid now s \<Longrightarrow> now \<le> later \<Longrightarrow>
      claimed later s k = (case claimed now s k of None \<Rightarrow> None | Some e \<Rightarrow> if e \<le> later then None else Some e)"
    and valid_later: "valid now s \<Longrightarrow> now \<le> later \<Longrightarrow> valid later s"
    and ttl_pos: "0 < ttl"
begin

lemma run_claims_free_from:
  assumes "sorted (t0 # map snd calls)" and "valid t0 s"
    and "\<And>k. claimed t0 s k = (case m k of None \<Rightarrow> None | Some e \<Rightarrow> if e \<le> t0 then None else Some e)"
  shows "fst (run_claims acquire calls s) = free_from ttl calls m"
  using assms
proof (induction calls arbitrary: t0 s m)
  case (Cons call calls)
  obtain key now where call: "call = (key, now)" by (cases call)
  have le: "t0 \<le> now" using Cons.prems(1) by (simp add: call)
  have v: "valid now s" using valid_later [OF Cons.prems(2) le] .
  have now: "claimed now s k = (case m k of None \<Rightarrow> None | Some e \<Rightarrow> if e \<le> now then None else Some e)" for k
    using claimed_later [OF Cons.prems(2) le] Cons.prems(3) le by (auto split: option.splits)
  obtain b s1 where ac: "acquire key now s = (b, s1)" by (cases "acquire key now s")
  have b: "b \<longleftrightarrow> claimed now s key = None" using acquire_result [OF v, of key] ac by simp
  have "fst (run_claims acquire calls s1) = free_from ttl calls (if b then m(key \<mapsto> now + ttl) else m)"
  proof (rule Cons.IH)
    show "sorted (now # map snd calls)" using Cons.prems(1) by (simp add: call)
    show "valid now s1" using acquire_valid [OF v, of key] ac by simp
    show "claimed now s1 k =
        (case (if b then m(key \<mapsto> now + ttl) else m) k of None \<Rightarrow> None | Some e \<Rightarrow> if e \<le> now then None else Some e)" for k
      using acquire_state [OF v, of key k] ac now [of k] b ttl_pos by auto
  qed
  then show ?case using b now [of key] by (auto simp: call ac case_prod_beta split: option.splits if_splits)
qed simp

end

definition memory_claimed :: "int \<Rightarrow> dedup_memory \<Rightarrow> string \<Rightarrow> int option" where
  "memory_claimed now store k = (case map_get store k of None \<Rightarrow> None | Some e \<Rightarrow> if e \<le> now then None else Some e)"

definition redis_claimed :: "'r key_view \<Rightarrow> int \<Rightarrow> 'r \<times> dedup_memory \<Rightarrow> string \<Rightarrow> int option" where
  "redis_claimed view now st k = (case view now (fst st) (DEDUP_KEY_PREFIX @ k) of None \<Rightarrow> None | Some (v, e) \<Rightarrow> e)"

definition redis_expiring :: "'r key_view \<Rightarrow> int \<Rightarrow> 'r \<times> dedup_memory \<Rightarrow> bool" where
  "redis_expiring view now st \<longleftrightarrow> (\<forall>k v. view now (fst st) (DEDUP_KEY_PREFIX @ k) \<noteq> Some (v, None))"

lemma map_get_filter_live:
  assumes "map_wf store"
  shows "map_get (filter (\<lambda>kv. \<not> snd kv \<le> now) store) k =
    (case map_get store k of None \<Rightarrow> None | Some e \<Rightarrow> if e \<le> now then None else Some e)"
  using assms
proof (induction store)
  case (Cons kv store)
  obtain k' e where kv: "kv = (k', e)" by (cases kv)
  have IH: "map_get (filter (\<lambda>kv. \<not> snd kv \<le> now) store) k =
      (case map_get store k of None \<Rightarrow> None | Some e \<Rightarrow> if e \<le> now then None else Some e)"
    using Cons by (simp add: map_wf_def)
  have "map_get store k' = None" using Cons.prems by (force simp: kv map_wf_def map_get_def map_of_eq_None_iff)
  then show ?case using IH by (auto simp: kv map_get_def split: option.splits)
qed simp

lemma memory_claimed_cleanup: "map_wf store \<Longrightarrow> memory_claimed now (cleanup now store) k = memory_claimed now store k"
  by (auto simp: memory_claimed_def cleanup_def map_get_filter_live split: option.splits)

lemma map_wf_cleanup: "map_wf store \<Longrightarrow> map_wf (cleanup now store)"
  by (simp add: cleanup_def map_wf_def distinct_map_filter)

lemma tryAcquire_spec:
  assumes "map_wf store"
  shows "tryAcquire ttlMs key now store =
    (if memory_claimed now store key = None then (True, map_set key (now + ttlMs) (cleanup now store))
     else (False, cleanup now store))"
  using memory_claimed_cleanup [OF assms, of now key]
  by (auto simp: tryAcquire_def Let_def memory_claimed_def split: option.splits if_splits)

locale memory_dedup =
  fixes ttlSeconds :: int
  assumes ttlSeconds_pos: "0 < ttlSeconds"

sublocale memory_dedup \<subseteq> mem: claim_store "tryAcquire (ttlSeconds * 1000)" memory_claimed "\<lambda>now. map_wf" "ttlSeconds * 1000"
proof
  show "map_wf s \<Longrightarrow> memory_claimed now (snd (tryAcquire (ttlSeconds * 1000) key now s)) k =
      (if k = key \<and> memory_claimed now s key = None then Some (now + ttlSeconds * 1000) else memory_claimed now s k)" for now s key k
    using ttlSeconds_pos memory_claimed_cleanup [of s now k]
    by (auto simp: tryAcquire_spec) (auto simp: memory_claimed_def map_get_set)
qed (use ttlSeconds_pos in \<open>auto simp: tryAcquire_spec map_wf_cleanup memory_claimed_def split: option.splits\<close>)

locale redis_dedup = memory_dedup ttlSeconds for ttlSeconds +
  fixes srv :: "'r redis_server" and view :: "'r key_view"
  assumes laws: "redis_laws srv view"
begin

lemma claim_spec:
  "\<exists>r1. claim srv ttlSeconds key now st = (view now (fst st) (DEDUP_KEY_PREFIX @ key) = None, r1, snd st) \<and>
     view now r1 = (if view now (fst st) (DEDUP_KEY_PREFIX @ key) = None
       then (view now (fst st))(DEDUP_KEY_PREFIX @ key \<mapsto> (''1'', Some (now + ttlSeconds * 1000))) else view now (fst st))"
proof -
  obtain r1 where "serve_set_nx srv now (DEDUP_KEY_PREFIX @ key) ''1'' (ttlSeconds * 1000) (fst st) =
      (Some (view now (fst st) (DEDUP_KEY_PREFIX @ key) = None), r1)"
    "view now r1 = (if view now (fst st) (DEDUP_KEY_PREFIX @ key) = None
       then (view now (fst st))(DEDUP_KEY_PREFIX @ key \<mapsto> (''1'', Some (now + ttlSeconds * 1000))) else view now (fst st))"
    using laws_set_nx [OF laws, of "ttlSeconds * 1000" now "DEDUP_KEY_PREFIX @ key" "''1''" "fst st"] ttlSeconds_pos by auto
  then show ?thesis by (simp add: claim_def claim_redis_def laws_open [OF laws] case_prod_beta)
qed

end

sublocale redis_dedup \<subseteq> red: claim_store "claim srv ttlSeconds" "redis_claimed view" "redis_expiring view" "ttlSeconds * 1000"
proof
  fix now s key k
  assume v: "redis_expiring view now s"
  obtain r1 where c: "claim srv ttlSeconds key now s = (view now (fst s) (DEDUP_KEY_PREFIX @ key) = None, r1, snd s)"
    "view now r1 = (if view now (fst s) (DEDUP_KEY_PREFIX @ key) = None
       then (view now (fst s))(DEDUP_KEY_PREFIX @ key \<mapsto> (''1'', Some (now + ttlSeconds * 1000))) else view now (fst s))"
    using claim_spec by blast
  have none: "redis_claimed view now s x = None \<longleftrightarrow> view now (fst s) (DEDUP_KEY_PREFIX @ x) = None" for x
    using v by (auto simp: redis_claimed_def redis_expiring_def split: option.splits) (metis not_None_eq)
  show "fst (claim srv ttlSeconds key now s) \<longleftrightarrow> redis_claimed view now s key = None" by (simp add: c none)
  show "redis_claimed view now (snd (claim srv ttlSeconds key now s)) k =
      (if k = key \<and> redis_claimed view now s key = None then Some (now + ttlSeconds * 1000) else redis_claimed view now s k)"
    by (auto simp: c none) (auto simp: c redis_claimed_def)
  show "redis_expiring view now (snd (claim srv ttlSeconds key now s))"
    using v by (auto simp: c redis_expiring_def)
next
  fix now later s k
  assume v: "redis_expiring view now s" and le: "now \<le> later"
  have "view later (fst s) x = live_at later (view now (fst s) x)" for x by (rule laws_time [OF laws le])
  then show "redis_claimed view later s k =
      (case redis_claimed view now s k of None \<Rightarrow> None | Some e \<Rightarrow> if e \<le> later then None else Some e)"
    and "redis_expiring view later s"
    using v by (auto simp: redis_claimed_def redis_expiring_def live_at_def key_expired_def split: option.splits if_splits)
qed (use ttlSeconds_pos in simp)

interpretation default_dedup: redis_dedup 300 mem_server mem_view
  by unfold_locales (simp_all add: mem_server_laws)

context memory_dedup
begin

lemma memory_claims_by_time:
  assumes "sorted (t0 # map snd calls)"
  shows "fst (run_claims (tryAcquire (ttlSeconds * 1000)) calls []) = free_from (ttlSeconds * 1000) calls (\<lambda>k. None)"
  by (rule mem.run_claims_free_from [OF assms]) (simp_all add: memory_claimed_def)

end

context redis_dedup
begin

lemma redis_claims_by_time:
  assumes "sorted (t0 # map snd calls)" and "\<forall>k. view t0 r (DEDUP_KEY_PREFIX @ k) = None"
  shows "fst (run_claims (claim srv ttlSeconds) calls (r, store)) = free_from (ttlSeconds * 1000) calls (\<lambda>k. None)"
  by (rule red.run_claims_free_from [OF assms(1)]) (use assms(2) in \<open>simp_all add: redis_claimed_def redis_expiring_def\<close>)

end

lemma free_from_respects:
  assumes "0 \<le> ttl" and "sorted (map snd calls)" and "m k = Some e" and "j < length calls"
    and "fst (calls ! j) = k" and "free_from ttl calls m ! j"
  shows "e \<le> snd (calls ! j)"
  using assms
proof (induction calls arbitrary: m e j)
  case (Cons call calls)
  obtain key now where call: "call = (key, now)" by (cases call)
  show ?case
  proof (cases j)
    case 0
    with Cons.prems show ?thesis by (auto simp: call split: if_splits)
  next
    case (Suc i)
    have i: "i < length calls" "fst (calls ! i) = k" "sorted (map snd calls)" using Cons.prems Suc by auto
    show ?thesis
    proof (cases "(case m key of None \<Rightarrow> True | Some e \<Rightarrow> e \<le> now) \<and> key = k")
      case True
      define m1 where "m1 = m(key \<mapsto> now + ttl)"
      have "free_from ttl calls m1 ! i" "e \<le> now" using Cons.prems Suc True by (auto simp: call m1_def)
      moreover have "m1 k = Some (now + ttl)" using True by (simp add: m1_def)
      ultimately have "now + ttl \<le> snd (calls ! i)" "e \<le> now" using Cons.IH [of m1 "now + ttl" i] i Cons.prems(1) by auto
      then show ?thesis using Cons.prems(1) Suc by (simp add: call)
    next
      case False
      define m' where "m' = (if (case m key of None \<Rightarrow> True | Some e \<Rightarrow> e \<le> now) then m(key \<mapsto> now + ttl) else m)"
      have "free_from ttl calls m' ! i" using Cons.prems(6) Suc by (auto simp: call m'_def split: if_splits)
      moreover have "m' k = Some e" using False Cons.prems(3) by (auto simp: m'_def)
      ultimately show ?thesis using Cons.IH [of m' e i] i Cons.prems(1) Suc by (simp add: call)
    qed
  qed
qed simp

lemma free_from_spaced:
  assumes "0 \<le> ttl" and "sorted (map snd calls)" and "i < j" and "j < length calls"
    and "fst (calls ! i) = fst (calls ! j)" and "free_from ttl calls m ! i" and "free_from ttl calls m ! j"
  shows "snd (calls ! i) + ttl \<le> snd (calls ! j)"
  using assms
proof (induction calls arbitrary: m i j)
  case (Cons call calls)
  obtain key now where call: "call = (key, now)" by (cases call)
  obtain j' where j: "j = Suc j'" using Cons.prems(3) by (cases j) auto
  define m' where "m' = (if (case m key of None \<Rightarrow> True | Some e \<Rightarrow> e \<le> now) then m(key \<mapsto> now + ttl) else m)"
  have tail: "free_from ttl calls m' ! j'" using Cons.prems(7) by (auto simp: call j m'_def split: if_splits)
  show ?case
  proof (cases i)
    case 0
    with Cons.prems(6) have "m' key = Some (now + ttl)" by (auto simp: call m'_def split: if_splits option.splits)
    with free_from_respects [of ttl calls m' key "now + ttl" j'] tail Cons.prems 0 show ?thesis by (simp add: call j)
  next
    case (Suc i')
    have "free_from ttl calls m' ! i'" using Cons.prems(6) by (auto simp: call Suc m'_def split: if_splits)
    with Cons.IH [of i' j' m'] tail Cons.prems Suc show ?thesis by (simp add: call j)
  qed
qed simp

text \<open>
  The two stores of the deduplicator decide alike, and no notification goes out twice within the
  time to live. For claims at non-decreasing times, Redis with its laws and the map in the process give
  the same outcomes, and two successful claims of one key are at least the time to live apart.
\<close>

theorem dedup_stores_agree:
  assumes "redis_laws srv view" and "0 < ttlSeconds" and "sorted (t0 # map snd calls)"
    and "\<forall>k. view t0 r (DEDUP_KEY_PREFIX @ k) = None"
  shows "fst (run_claims (claim srv ttlSeconds) calls (r, store)) = fst (run_claims (tryAcquire (ttlSeconds * 1000)) calls []) \<and>
    (\<forall>i j. i < j \<and> j < length calls \<and> fst (calls ! i) = fst (calls ! j) \<and>
       fst (run_claims (claim srv ttlSeconds) calls (r, store)) ! i \<and> fst (run_claims (claim srv ttlSeconds) calls (r, store)) ! j \<longrightarrow>
       snd (calls ! i) + ttlSeconds * 1000 \<le> snd (calls ! j))"
proof -
  have loc: "redis_dedup ttlSeconds srv view" using assms(1,2) by unfold_locales
  then have "memory_dedup ttlSeconds" by (rule redis_dedup.axioms)
  note mem = memory_dedup.memory_claims_by_time [OF this assms(3)]
  note red = redis_dedup.redis_claims_by_time [OF loc assms(3,4), of store]
  have "sorted (map snd calls)" using assms(3) by simp
  from free_from_spaced [OF _ this] assms(2) show ?thesis unfolding mem red by auto
qed

theorem dedup_stores_agree_witness:
  "fst (run_claims (claim mem_server 300) [(''k'', 5), (''k'', 9), (''k'', 400000)] ([], [])) =
     fst (run_claims (tryAcquire (300 * 1000)) [(''k'', 5), (''k'', 9), (''k'', 400000)] [])"
  using dedup_stores_agree [OF mem_server_laws, of 300 0 "[(''k'', 5), (''k'', 9), (''k'', 400000)]" "[]" "[]"]
  by (simp add: mem_view_def live_at_def del: run_claims.simps)

end
