(* ===== verification/Split_Payments.thy ===== *)
theory Split_Payments
  imports Js_Decimal Js_Value
begin

text \<open>
  \<open>src/src/services/splitPaymentService.ts\<close> and \<open>src/src/models/splitPayment.ts\<close>: rules that split a
  payment among recipients, the calculation of the allocations and their ledger.

  The three tables are lists in order of insertion with a counter for identifiers (the UUIDs of the
  schema). A value of type NUMERIC(18, 8) is rounded to eight decimals, half away from zero, and
  refused from \<open>10 ^ 10\<close> on; the VARCHAR limits are checked. The payment transaction and the user that
  a row refers to are assumed to exist. Statements run one by one, without a database transaction, as in
  the code: an error leaves what was written before it. Error texts are constructors.
\<close>

subsection \<open>Tables\<close>

record split_recipient =
  recipientType :: string
  recipientId :: string
  recipientLabel :: "string option"
  splitType :: string
  splitValue :: js_num
  priority :: int

record split_rule =
  rule_id :: nat
  rule_name :: string
  rule_description :: "string option"
  createdBy :: "string option"
  isActive :: bool

datatype entry_status = Pending | Processing | Completed | Failed

record split_entry =
  entry_id :: nat
  transactionId :: string
  entry_rule :: "nat option"
  entry_recipientType :: string
  entry_recipientId :: string
  entry_label :: "string option"
  entry_splitType :: string
  allocatedAmount :: js_num
  entry_currency :: string
  entry_status :: entry_status
  processedAt :: "int option"
  errorMessage :: "string option"

record split_db =
  rules :: "split_rule list"
  recipients :: "(nat \<times> split_recipient) list"
  ledger :: "split_entry list"
  next_id :: nat

datatype recipient_error =
  BadRecipientType nat
| EmptyRecipientId nat
| BadSplitType nat
| ValueNotNumber nat
| ValueNotPositive nat
| PercentageTooHigh nat
| NoRecipients
| PercentagesNot100 js_num

datatype split_error =
  RuleNameRequired
| InvalidRecipients "recipient_error list"
| NumericOverflow
| ValueTooLong
| AmountNotPositive
| RuleNotFound nat
| RuleInactive nat
| RuleWithoutRecipients nat
| FixedExceedTotal js_num js_num

subsection \<open>Validation\<close>

abbreviation is_percentage :: "split_recipient \<Rightarrow> bool" where
  "is_percentage r \<equiv> splitType r = ''percentage''"

definition value_errors :: "nat \<Rightarrow> split_recipient \<Rightarrow> recipient_error list" where
  "value_errors i r =
     (if splitValue r = NaN then [ValueNotNumber i]
      else (if jle (splitValue r) (Fin 0) then [ValueNotPositive i] else []) @
           (if is_percentage r \<and> jgt (splitValue r) (Fin 100) then [PercentageTooHigh i] else []))"

definition recipient_errors :: "nat \<Rightarrow> split_recipient \<Rightarrow> recipient_error list" where
  "recipient_errors i r =
     (if recipientType r \<in> set [''user'', ''merchant'', ''phone''] then [] else [BadRecipientType i]) @
     (if recipientId r = [] \<or> trim (recipientId r) = [] then [EmptyRecipientId i] else []) @
     (if splitType r \<in> set [''percentage'', ''fixed''] then [] else [BadSplitType i]) @ value_errors i r"

text \<open>
  The loop of \<open>validateRecipients\<close>: the index, the sum of the percentages, whether all recipients
  seen so far are percentages. A recipient whose value is not a number is skipped after its error.
\<close>

fun validate_loop ::
  "nat \<Rightarrow> js_num \<Rightarrow> bool \<Rightarrow> split_recipient list \<Rightarrow> recipient_error list \<times> js_num \<times> bool" where
  "validate_loop i tot allPct [] = ([], tot, allPct)"
| "validate_loop i tot allPct (r # rs) =
     (let (total1, all1) = (if splitValue r = NaN then (tot, allPct)
            else if is_percentage r then (jadd tot (splitValue r), allPct) else (tot, False));
          (es, res) = validate_loop (Suc i) total1 all1 rs
      in (recipient_errors i r @ es, res))"

definition round8 :: "js_num \<Rightarrow> js_num" where
  "round8 x = jdiv (math_round (jmul x (Fin 100000000))) (Fin 100000000)"

definition validateRecipients :: "split_recipient list \<Rightarrow> recipient_error list" where
  "validateRecipients rs =
     (if rs = [] then [NoRecipients]
      else let (es, tot, allPct) = validate_loop 0 (Fin 0) True rs; rounded = round8 tot
           in es @ (if allPct \<and> \<not> jeq rounded (Fin 100) then [PercentagesNot100 rounded] else []))"

subsection \<open>The model\<close>

definition half_away :: "rat \<Rightarrow> int" where
  "half_away y = (if y < 0 then - \<lfloor>- y + 1 / 2\<rfloor> else \<lfloor>y + 1 / 2\<rfloor>)"

definition numeric_18_8 :: "js_num \<Rightarrow> split_error + js_num" where
  "numeric_18_8 v =
     (case v of
        NaN \<Rightarrow> Inr NaN
      | Fin x \<Rightarrow>
          let u = half_away (num_value x * 10 ^ 8)
          in if \<bar>u\<bar> \<ge> 10 ^ 18 then Inl NumericOverflow else Inr (of_exact (of_int u / 10 ^ 8))
      | _ \<Rightarrow> Inl NumericOverflow)"

definition insert_recipient :: "nat \<Rightarrow> split_recipient \<Rightarrow> split_db \<Rightarrow> (split_error + split_recipient) \<times> split_db" where
  "insert_recipient rid r db =
     (if length (recipientId r) > 255 \<or> (case recipientLabel r of None \<Rightarrow> False | Some l \<Rightarrow> length l > 255)
      then (Inl ValueTooLong, db)
      else case numeric_18_8 (splitValue r) of
        Inl e \<Rightarrow> (Inl e, db)
      | Inr v \<Rightarrow> let r1 = r\<lparr>splitValue := v\<rparr> in (Inr r1, db\<lparr>recipients := recipients db @ [(rid, r1)]\<rparr>))"

fun insert_recipients :: "nat \<Rightarrow> split_recipient list \<Rightarrow> split_db \<Rightarrow> (split_error + split_recipient list) \<times> split_db" where
  "insert_recipients rid [] db = (Inr [], db)"
| "insert_recipients rid (r # rs) db =
     (case insert_recipient rid r db of
        (Inl e, db1) \<Rightarrow> (Inl e, db1)
      | (Inr r1, db1) \<Rightarrow>
          (case insert_recipients rid rs db1 of
             (Inl e, db2) \<Rightarrow> (Inl e, db2)
           | (Inr rs1, db2) \<Rightarrow> (Inr (r1 # rs1), db2)))"

definition model_createRule ::
  "string \<Rightarrow> string option \<Rightarrow> split_recipient list \<Rightarrow> string option \<Rightarrow> split_db \<Rightarrow>
     (split_error + split_rule \<times> split_recipient list) \<times> split_db" where
  "model_createRule name desc rs by_user db =
     (if length name > 255 then (Inl ValueTooLong, db)
      else let rule = \<lparr>rule_id = next_id db, rule_name = name, rule_description = desc, createdBy = by_user, isActive = True\<rparr>;
               db1 = db\<lparr>rules := rules db @ [rule], next_id := Suc (next_id db)\<rparr>
           in case insert_recipients (rule_id rule) rs db1 of
                (Inl e, db2) \<Rightarrow> (Inl e, db2)
              | (Inr rs1, db2) \<Rightarrow> (Inr (rule, rs1), db2))"

definition findRuleById :: "nat \<Rightarrow> split_db \<Rightarrow> (split_rule \<times> split_recipient list) option" where
  "findRuleById rid db =
     (case find (\<lambda>r. rule_id r = rid) (rules db) of
        None \<Rightarrow> None
      | Some rule \<Rightarrow> Some (rule, sort_key priority (map snd (filter (\<lambda>p. fst p = rid) (recipients db)))))"

definition listRules :: "bool option \<Rightarrow> nat \<Rightarrow> nat \<Rightarrow> split_db \<Rightarrow> split_rule list" where
  "listRules active limit offset db =
     take limit (drop offset (rev (filter (\<lambda>r. case active of None \<Rightarrow> True | Some a \<Rightarrow> isActive r = a) (rules db))))"

definition update_rules :: "nat \<Rightarrow> (split_rule \<Rightarrow> split_rule) \<Rightarrow> split_db \<Rightarrow> split_rule option \<times> split_db" where
  "update_rules rid f db =
     (let db1 = db\<lparr>rules := map (\<lambda>r. if rule_id r = rid then f r else r) (rules db)\<rparr>
      in (find (\<lambda>r. rule_id r = rid) (rules db1), db1))"

definition updateRule ::
  "nat \<Rightarrow> string option \<Rightarrow> string option \<Rightarrow> bool option \<Rightarrow> split_db \<Rightarrow> (split_error + split_rule option) \<times> split_db" where
  "updateRule rid name desc active db =
     (if name = None \<and> desc = None \<and> active = None then (Inr (map_option fst (findRuleById rid db)), db)
      else if (case name of None \<Rightarrow> False | Some n \<Rightarrow> length n > 255) \<and> (\<exists>r \<in> set (rules db). rule_id r = rid)
      then (Inl ValueTooLong, db)
      else let (res, db1) = update_rules rid (\<lambda>r. r\<lparr>rule_name := (case name of None \<Rightarrow> rule_name r | Some n \<Rightarrow> n),
             rule_description := (case desc of None \<Rightarrow> rule_description r | Some d \<Rightarrow> Some d),
             isActive := (case active of None \<Rightarrow> isActive r | Some a \<Rightarrow> a)\<rparr>) db
           in (Inr res, db1))"

definition deleteRule :: "nat \<Rightarrow> split_db \<Rightarrow> split_rule option \<times> split_db" where
  "deleteRule rid db = update_rules rid (\<lambda>r. r\<lparr>isActive := False\<rparr>) db"

fun createLedgerEntries ::
  "string \<Rightarrow> nat option \<Rightarrow> string \<Rightarrow> (split_recipient \<times> js_num) list \<Rightarrow> split_db \<Rightarrow> (split_error + split_entry list) \<times> split_db" where
  "createLedgerEntries tx rid cur [] db = (Inr [], db)"
| "createLedgerEntries tx rid cur ((r, amount) # as) db =
     (case (if length cur > 10 then Inl ValueTooLong else numeric_18_8 amount) of
        Inl e \<Rightarrow> (Inl e, db)
      | Inr v \<Rightarrow>
          let e = \<lparr>entry_id = next_id db, transactionId = tx, entry_rule = rid, entry_recipientType = recipientType r,
                entry_recipientId = recipientId r, entry_label = recipientLabel r, entry_splitType = splitType r,
                allocatedAmount = v, entry_currency = cur, entry_status = Pending, processedAt = None, errorMessage = None\<rparr>
          in case createLedgerEntries tx rid cur as (db\<lparr>ledger := ledger db @ [e], next_id := Suc (next_id db)\<rparr>) of
               (Inl er, db1) \<Rightarrow> (Inl er, db1)
             | (Inr es, db1) \<Rightarrow> (Inr (e # es), db1))"

definition getLedgerForTransaction :: "string \<Rightarrow> split_db \<Rightarrow> split_entry list" where
  "getLedgerForTransaction tx db = filter (\<lambda>e. transactionId e = tx) (ledger db)"

definition updateLedgerEntryStatus ::
  "nat \<Rightarrow> entry_status \<Rightarrow> string option \<Rightarrow> int \<Rightarrow> split_db \<Rightarrow> split_entry option \<times> split_db" where
  "updateLedgerEntryStatus eid st err now db =
     (let db1 = db\<lparr>ledger := map (\<lambda>e. if entry_id e = eid
            then e\<lparr>entry_status := st, processedAt := (if st = Completed \<or> st = Failed then Some now else processedAt e),
                   errorMessage := err\<rparr> else e) (ledger db)\<rparr>
      in (find (\<lambda>e. entry_id e = eid) (ledger db1), db1))"

subsection \<open>The service\<close>

definition createRule ::
  "string \<Rightarrow> string option \<Rightarrow> split_recipient list \<Rightarrow> string option \<Rightarrow> split_db \<Rightarrow>
     (split_error + split_rule \<times> split_recipient list) \<times> split_db" where
  "createRule name desc rs by_user db =
     (if name = [] \<or> trim name = [] then (Inl RuleNameRequired, db)
      else if validateRecipients rs \<noteq> [] then (Inl (InvalidRecipients (validateRecipients rs)), db)
      else model_createRule (trim name) desc rs by_user db)"

definition percentage_shares :: "js_num \<Rightarrow> split_recipient list \<Rightarrow> js_num list" where
  "percentage_shares remaining pcts =
     (if pcts = [] then []
      else let totalPct = jsum (map splitValue pcts);
               firsts = map (\<lambda>r. round8 (jmul (jdiv (splitValue r) totalPct) remaining)) (butlast pcts)
           in firsts @ [round8 (jsub remaining (jsum firsts))])"

text \<open>The allocation of each recipient: its value if it is fixed, else the next percentage share.\<close>

fun assign_shares :: "split_recipient list \<Rightarrow> js_num list \<Rightarrow> js_num list" where
  "assign_shares [] shares = []"
| "assign_shares (r # rs) shares =
     (if is_percentage r then
        (case shares of [] \<Rightarrow> Fin 0 # assign_shares rs [] | s # ss \<Rightarrow> s # assign_shares rs ss)
      else (if splitType r = ''fixed'' then splitValue r else Fin 0) # assign_shares rs shares)"

definition fixed_sum :: "split_recipient list \<Rightarrow> js_num" where
  "fixed_sum rs = jsum (map splitValue (filter (\<lambda>r. splitType r = ''fixed'') rs))"

definition calculateAllocations :: "split_recipient list \<Rightarrow> js_num \<Rightarrow> split_error + js_num list" where
  "calculateAllocations rs tot =
     (if jgt (fixed_sum rs) tot then Inl (FixedExceedTotal (fixed_sum rs) tot)
      else Inr (assign_shares rs (percentage_shares (jsub tot (fixed_sum rs)) (filter (\<lambda>r. is_percentage r) rs))))"

definition applyRule ::
  "string \<Rightarrow> nat \<Rightarrow> js_num \<Rightarrow> string \<Rightarrow> split_db \<Rightarrow> (split_error + split_entry list) \<times> split_db" where
  "applyRule tx rid tot cur db =
     (if jle tot (Fin 0) then (Inl AmountNotPositive, db)
      else case findRuleById rid db of
        None \<Rightarrow> (Inl (RuleNotFound rid), db)
      | Some (rule, rs) \<Rightarrow>
          if \<not> isActive rule then (Inl (RuleInactive rid), db)
          else if rs = [] then (Inl (RuleWithoutRecipients rid), db)
          else let sorted_rs = sort_key priority rs in
            (case calculateAllocations sorted_rs tot of
               Inl e \<Rightarrow> (Inl e, db)
             | Inr allocations \<Rightarrow> createLedgerEntries tx (Some rid) cur (zip sorted_rs allocations) db))"

fun advance_entries :: "split_entry list \<Rightarrow> int \<Rightarrow> split_db \<Rightarrow> split_entry list \<times> split_db" where
  "advance_entries [] now db = ([], db)"
| "advance_entries (e # es) now db =
     (let (upd, db1) = updateLedgerEntryStatus (entry_id e) Processing None now db; (us, db2) = advance_entries es now db1
      in ((case upd of None \<Rightarrow> us | Some u \<Rightarrow> u # us), db2))"

definition processTransaction ::
  "string \<Rightarrow> nat \<Rightarrow> js_num \<Rightarrow> string \<Rightarrow> int \<Rightarrow> split_db \<Rightarrow> (split_error + split_entry list) \<times> split_db" where
  "processTransaction tx rid tot cur now db =
     (case applyRule tx rid tot cur db of
        (Inl e, db1) \<Rightarrow> (Inl e, db1)
      | (Inr es, db1) \<Rightarrow> (let (us, db2) = advance_entries es now db1 in (Inr us, db2)))"

record split_summary =
  summary_tx :: string
  summary_rule :: "nat option"
  totalAmount :: js_num
  summary_currency :: string
  allocatedTotal :: js_num
  summary_lines :: "split_entry list"

definition getSplitSummary :: "string \<Rightarrow> split_db \<Rightarrow> split_summary" where
  "getSplitSummary tx db =
     (let es = getLedgerForTransaction tx db; tot = jsum (map allocatedAmount es)
      in \<lparr>summary_tx = tx, summary_rule = (case es of [] \<Rightarrow> None | e # _ \<Rightarrow> entry_rule e), totalAmount = tot,
          summary_currency = (case es of [] \<Rightarrow> ''XAF'' | e # _ \<Rightarrow> entry_currency e), allocatedTotal = tot,
          summary_lines = es\<rparr>)"

subsection \<open>Error bounds of the calculation\<close>

text \<open>Rounding to eight decimals in binary64.\<close>

lemma round8_near:
  assumes "\<bar>x\<bar> < 2 ^ 31"
  shows "\<exists>A. round8 (Fin x) = Fin A \<and> \<bar>A - x\<bar> \<le> 5 / 10 ^ 7 \<and> (0 \<le> x \<longrightarrow> 0 \<le> A) \<and> representable A"
proof -
  have "\<bar>x * 100000000\<bar> < 2 ^ 31 * 100000000" using assms by (simp add: abs_mult)
  then have "\<bar>x * 100000000\<bar> < 2 ^ 58" by simp
  from of_exact_near [OF this] obtain z where z: "of_exact (x * 100000000) = Fin z" "\<bar>z - x * 100000000\<bar> \<le> 16"
    by auto
  define m where "m = \<lfloor>z + 1 / 2\<rfloor>"
  have "of_int m \<le> z + 1 / 2" "z + 1 / 2 < of_int m + 1" using floor_correct [of "z + 1 / 2"] by (simp_all add: m_def)
  then have m: "\<bar>of_int m - z\<bar> \<le> 1 / 2" by linarith
  have "\<bar>of_int m - x * 100000000\<bar> \<le> 33 / 2" using m z(2) by linarith
  moreover have "of_int m / 100000000 - x = (of_int m - x * 100000000) / 100000000" by (simp add: field_simps)
  ultimately have near: "\<bar>of_int m / 100000000 - x\<bar> \<le> 33 / 200000000" by (auto simp only: abs_divide)
  then have "\<bar>of_int m / 100000000 - x\<bar> \<le> 1" by linarith
  then have "\<bar>of_int m / 100000000 :: rat\<bar> < 2 ^ 32" using assms by (simp only: abs_less_iff abs_le_iff) simp
  from of_exact_near [OF this] obtain A where A: "of_exact (of_int m / 100000000) = Fin A"
    "\<bar>A - of_int m / 100000000\<bar> \<le> 1 / 2 ^ 22" "representable A" by auto
  have "round8 (Fin x) = Fin A" using z(1) A(1) by (simp add: round8_def m_def)
  moreover have "\<bar>A - x\<bar> \<le> 33 / 200000000 + 1 / 2 ^ 22" using near A(2) by linarith
  then have "\<bar>A - x\<bar> \<le> 5 / 10 ^ 7" by simp
  moreover have "0 \<le> A" if "0 \<le> x"
  proof -
    have "rnd64 (x * 100000000) = z" using z(1) by (auto simp: of_exact_def Let_def split: if_splits)
    then have "0 \<le> z" using rnd64_nonneg [of "x * 100000000"] that by simp
    then have "0 \<le> m" by (simp add: m_def)
    then have "0 \<le> rnd64 (of_int m / 100000000)" by (intro rnd64_nonneg) simp
    then show ?thesis using A(1) by (auto simp: of_exact_def Let_def split: if_splits)
  qed
  ultimately show ?thesis using A(3) by auto
qed

text \<open>The share of a recipient is between zero and the amount to distribute, up to rounding.\<close>

lemma share_near:
  assumes "0 < p" and "representable p" and "p \<le> Q" and "0 \<le> R" and "representable R" and "R \<le> 2 ^ 26"
  shows "\<exists>A. round8 (jmul (jdiv (Fin p) (Fin Q)) (Fin R)) = Fin A \<and> 0 \<le> A \<and> A < 2 ^ 26 + 1 \<and> representable A"
proof -
  have q: "0 \<le> p / Q" "p / Q \<le> 1" "0 < Q" using assms(1,3) by auto
  have q0: "0 \<le> rnd64 (p / Q)" "rnd64 (p / Q) \<le> 1"
    using rnd64_nonneg [OF q(1)] rnd64_le_representable [of 1 "p / Q"] representable_of_int [of 1] q(2) by auto
  have "of_exact (p / Q) = Fin (rnd64 (p / Q))" using q(1,2) by (intro of_exact_Fin [of _ 0]) (simp_all add: abs_of_nonneg del: zero_le_divide_iff)
  then have d: "jdiv (Fin p) (Fin Q) = Fin (rnd64 (p / Q))" using q(3) by simp
  let ?x = "rnd64 (p / Q) * R"
  have x: "0 \<le> ?x" "?x \<le> R" using q0 assms(4) by (auto intro: mult_left_le_one_le)
  have y: "0 \<le> rnd64 ?x" "rnd64 ?x \<le> R" using rnd64_nonneg [OF x(1)] rnd64_le_representable [OF assms(5) x(2)] by auto
  have "of_exact ?x = Fin (rnd64 ?x)" using x assms(6) by (intro of_exact_Fin [of _ 26]) auto
  then have "jmul (jdiv (Fin p) (Fin Q)) (Fin R) = Fin (rnd64 ?x)" using d by simp
  moreover have "\<bar>rnd64 ?x\<bar> < 2 ^ 31" using y assms(6) by simp
  ultimately obtain A where A: "round8 (jmul (jdiv (Fin p) (Fin Q)) (Fin R)) = Fin A" "\<bar>A - rnd64 ?x\<bar> \<le> 5 / 10 ^ 7"
    "0 \<le> A" "representable A" using round8_near y(1) by metis
  have "A \<le> rnd64 ?x + 5 / 10 ^ 7" using A(2) by (simp only: abs_le_iff) linarith
  then have "A < 2 ^ 26 + 1" using y(2) assms(6) by simp
  with A show ?thesis by blast
qed

definition good_value :: "split_recipient \<Rightarrow> bool" where
  "good_value r \<longleftrightarrow> (\<exists>x. splitValue r = Fin x \<and> 0 < x \<and> x \<le> 2 ^ 26 \<and> representable x)"

lemma good_values_list:
  assumes "\<forall>r \<in> set rs. good_value r"
  shows "\<exists>xs. map splitValue rs = map Fin xs \<and> length xs = length rs \<and> (\<forall>x \<in> set xs. 0 < x \<and> x \<le> 2 ^ 26 \<and> representable x)"
  using assms
proof (induction rs)
  case (Cons r rs)
  then obtain xs x where "map splitValue rs = map Fin xs" "length xs = length rs" "\<forall>x \<in> set xs. 0 < x \<and> x \<le> 2 ^ 26 \<and> representable x"
    "splitValue r = Fin x" "0 < x" "x \<le> 2 ^ 26" "representable x" by (auto simp: good_value_def)
  then show ?case by (intro exI [of _ "x # xs"]) auto
qed simp

lemma sum_list_bound: "\<forall>x \<in> set xs. x \<le> (b :: rat) \<Longrightarrow> sum_list xs \<le> of_nat (length xs) * b"
  by (induction xs) (auto simp: algebra_simps add_mono)

lemma jsum_short:
  assumes "\<forall>x \<in> set xs. 0 \<le> x \<and> x \<le> 2 ^ 26 + 1 \<and> representable x" and "length xs \<le> 16"
  shows "\<exists>P. jsum (map Fin xs) = Fin P \<and> \<bar>P - sum_list xs\<bar> \<le> 1 / 2 ^ 18 \<and> P \<le> 2 ^ 30 + 17 \<and>
    representable P \<and> 0 \<le> P \<and> (\<forall>x \<in> set xs. x \<le> P)"
proof -
  have n: "(of_nat (length xs) :: rat) \<le> 16" using assms(2) by simp
  have "sum_list xs \<le> of_nat (length xs) * (2 ^ 26 + 1)" using assms(1) by (intro sum_list_bound) auto
  also have "\<dots> \<le> 16 * (2 ^ 26 + 1)" using n by (intro mult_right_mono) auto
  finally have s: "sum_list xs \<le> 2 ^ 30 + 16" by simp
  then have "sum_list xs < 2 ^ 32 / 2" by simp
  then obtain P where P: "jsum (map Fin xs) = Fin P" "\<bar>P - sum_list xs\<bar> \<le> of_nat (length xs) * (2 ^ 32 / 2 ^ 54)"
    "representable P" "0 \<le> P" "\<forall>x \<in> set xs. x \<le> P"
    using jsum_near [of xs 32] assms by auto
  have "of_nat (length xs) * (2 ^ 32 / 2 ^ 54) \<le> (16 :: rat) * (2 ^ 32 / 2 ^ 54)" using n by (intro mult_right_mono) auto
  then have e: "\<bar>P - sum_list xs\<bar> \<le> 1 / 2 ^ 18" using P(2) by simp
  then have "P \<le> sum_list xs + 1 / 2 ^ 18" by (simp only: abs_le_iff) linarith
  then have "P \<le> 2 ^ 30 + 17" using s by simp
  with P(1,3-5) e show ?thesis by blast
qed

lemma jsub_near:
  assumes "\<bar>x - y\<bar> < 2 ^ k" and "k \<le> 1000"
  shows "\<exists>d. jsub (Fin x) (Fin y) = Fin d \<and> \<bar>d - (x - y)\<bar> \<le> 2 ^ k / 2 ^ 54 \<and> \<bar>d\<bar> \<le> 2 ^ k \<and> d = rnd64 (x - y)"
proof -
  from of_exact_near [OF assms] obtain d where
    "of_exact (x - y) = Fin d" "\<bar>d - (x - y)\<bar> \<le> 2 ^ k / 2 ^ 54" "\<bar>d\<bar> \<le> 2 ^ k" by auto
  then show ?thesis by (auto simp: jsub_def of_exact_def Let_def split: if_splits)
qed

lemma shares_list:
  assumes "\<forall>r \<in> set rs. \<exists>p. splitValue r = Fin p \<and> 0 < p \<and> representable p \<and> p \<le> Q"
    and "0 \<le> R" and "representable R" and "R \<le> 2 ^ 26"
  shows "\<exists>xs. map (\<lambda>r. round8 (jmul (jdiv (splitValue r) (Fin Q)) (Fin R))) rs = map Fin xs \<and> length xs = length rs \<and>
    (\<forall>x \<in> set xs. 0 \<le> x \<and> x \<le> 2 ^ 26 + 1 \<and> representable x)"
  using assms(1)
proof (induction rs)
  case (Cons r rs)
  then obtain p xs where p: "splitValue r = Fin p" "0 < p" "representable p" "p \<le> Q"
    and xs: "map (\<lambda>r. round8 (jmul (jdiv (splitValue r) (Fin Q)) (Fin R))) rs = map Fin xs" "length xs = length rs"
      "\<forall>x \<in> set xs. 0 \<le> x \<and> x \<le> 2 ^ 26 + 1 \<and> representable x" by auto
  obtain A where "round8 (jmul (jdiv (splitValue r) (Fin Q)) (Fin R)) = Fin A" "0 \<le> A" "A < 2 ^ 26 + 1" "representable A"
    using share_near [OF p(2,3,4) assms(2-4)] p(1) by metis
  with xs show ?case by (intro exI [of _ "A # xs"]) (auto simp del: round8_def)
qed simp

lemma percentage_shares_sum:
  assumes "pcts \<noteq> []" and "length pcts \<le> 16" and "\<forall>r \<in> set pcts. good_value r"
    and "0 \<le> R" and "representable R" and "R \<le> 2 ^ 26"
  shows "\<exists>ss. percentage_shares (Fin R) pcts = map Fin ss \<and> length ss = length pcts \<and> \<bar>sum_list ss - R\<bar> \<le> 5 / 10 ^ 6"
proof -
  obtain ps where ps: "map splitValue pcts = map Fin ps" "length ps = length pcts"
    "\<forall>x \<in> set ps. 0 < x \<and> x \<le> 2 ^ 26 \<and> representable x" using good_values_list [OF assms(3)] by blast
  have "\<forall>x \<in> set ps. 0 \<le> x \<and> x \<le> 2 ^ 26 + 1 \<and> representable x" using ps(3) by fastforce
  then obtain Q where Q: "jsum (map Fin ps) = Fin Q" "\<forall>x \<in> set ps. x \<le> Q" using jsum_short [of ps] ps(2) assms(2) by auto
  have "\<exists>p. splitValue r = Fin p \<and> 0 < p \<and> representable p \<and> p \<le> Q" if "r \<in> set (butlast pcts)" for r
  proof -
    have "splitValue r \<in> set (map splitValue pcts)" using that by (auto dest: in_set_butlastD)
    then show ?thesis using ps(1,3) Q(2) by auto
  qed
  then obtain xs where xs: "map (\<lambda>r. round8 (jmul (jdiv (splitValue r) (Fin Q)) (Fin R))) (butlast pcts) = map Fin xs"
    "length xs = length pcts - 1" "\<forall>x \<in> set xs. 0 \<le> x \<and> x \<le> 2 ^ 26 + 1 \<and> representable x"
    using shares_list [of "butlast pcts" Q R] assms(4-6) by auto
  have "length xs \<le> 16" using xs(2) assms(2) by simp
  then obtain P where P: "jsum (map Fin xs) = Fin P" "\<bar>P - sum_list xs\<bar> \<le> 1 / 2 ^ 18" "P \<le> 2 ^ 30 + 17" "0 \<le> P"
    using jsum_short [OF xs(3)] by auto
  have "\<bar>R - P\<bar> < 2 ^ 31" using P(3,4) assms(4,6) by (simp add: abs_less_iff)
  then obtain D where D: "jsub (Fin R) (Fin P) = Fin D" "\<bar>D - (R - P)\<bar> \<le> 2 ^ 31 / 2 ^ 54" using jsub_near by fastforce
  have "\<bar>D - (R - P)\<bar> \<le> 1" using D(2) by simp
  then have "\<bar>D\<bar> < 2 ^ 31" using P(3,4) assms(4,6) by (simp only: abs_less_iff abs_le_iff) simp
  then obtain A where A: "round8 (Fin D) = Fin A" "\<bar>A - D\<bar> \<le> 5 / 10 ^ 7" using round8_near by blast
  have "percentage_shares (Fin R) pcts = map Fin (xs @ [A])"
    using assms(1) by (simp add: percentage_shares_def ps(1) Q(1) xs(1) P(1) D(1) A(1))
  moreover have "\<bar>sum_list (xs @ [A]) - R\<bar> \<le> 1 / 2 ^ 18 + 2 ^ 31 / 2 ^ 54 + 5 / 10 ^ 7" using P(2) D(2) A(2)
    by (simp only: sum_list_append sum_list.Cons sum_list.Nil add_0_right)
  then have "\<bar>sum_list (xs @ [A]) - R\<bar> \<le> 5 / 10 ^ 6" by simp
  moreover have "length (xs @ [A]) = length pcts" using xs(2) assms(1) by (cases pcts) auto
  ultimately show ?thesis by blast
qed

lemma assign_shares_sum:
  assumes "\<forall>r \<in> set rs. good_value r \<and> (is_percentage r \<or> splitType r = ''fixed'')"
    and "length ss = length (filter (\<lambda>r. is_percentage r) rs)"
  shows "\<exists>xs fs. assign_shares rs (map Fin ss) = map Fin xs \<and> length xs = length rs \<and>
    map splitValue (filter (\<lambda>r. splitType r = ''fixed'') rs) = map Fin fs \<and> sum_list xs = sum_list fs + sum_list ss"
  using assms
proof (induction rs arbitrary: ss)
  case (Cons r rs)
  show ?case
  proof (cases "is_percentage r")
    case True
    then obtain s ss1 where ss: "ss = s # ss1" using Cons.prems(2) by (cases ss) auto
    from Cons.IH [of ss1] Cons.prems ss True obtain xs fs where
      "assign_shares rs (map Fin ss1) = map Fin xs" "length xs = length rs"
      "map splitValue (filter (\<lambda>r. splitType r = ''fixed'') rs) = map Fin fs" "sum_list xs = sum_list fs + sum_list ss1" by auto
    then show ?thesis using True ss by (intro exI [of _ "s # xs"] exI [of _ fs]) auto
  next
    case False
    then obtain x where x: "splitValue r = Fin x" "splitType r = ''fixed''" using Cons.prems(1) by (auto simp: good_value_def)
    from Cons.IH [of ss] Cons.prems False obtain xs fs where
      "assign_shares rs (map Fin ss) = map Fin xs" "length xs = length rs"
      "map splitValue (filter (\<lambda>r. splitType r = ''fixed'') rs) = map Fin fs" "sum_list xs = sum_list fs + sum_list ss" by auto
    then show ?thesis using x by (intro exI [of _ "x # xs"] exI [of _ "x # fs"]) auto
  qed
qed simp

text \<open>The sum of the fixed values, the difference to the total, and their bounds.\<close>

lemma remaining_near:
  assumes "\<forall>r \<in> set rs. good_value r" and "length rs \<le> 16" and "map splitValue rs = map Fin fs"
    and "representable T" and "T \<le> 2 ^ 26" and "\<not> jgt (jsum (map splitValue rs)) (Fin T)"
  shows "\<exists>R. jsub (Fin T) (jsum (map splitValue rs)) = Fin R \<and> 0 \<le> R \<and> representable R \<and> R \<le> 2 ^ 26 \<and>
    \<bar>R + sum_list fs - T\<bar> \<le> 5 / 10 ^ 6"
proof -
  obtain gs where "map splitValue rs = map Fin gs" "length gs = length rs" "\<forall>x \<in> set gs. 0 < x \<and> x \<le> 2 ^ 26 \<and> representable x"
    using good_values_list [OF assms(1)] by blast
  moreover from this(1) have "gs = fs" using assms(3) by (simp add: inj_map_eq_map inj_def)
  ultimately have "\<forall>x \<in> set fs. 0 \<le> x \<and> x \<le> 2 ^ 26 + 1 \<and> representable x" "length fs \<le> 16" using assms(2) by fastforce+
  from jsum_short [OF this] obtain S where S: "jsum (map Fin fs) = Fin S" "\<bar>S - sum_list fs\<bar> \<le> 1 / 2 ^ 18" "0 \<le> S" by auto
  have "S \<le> T" using assms(6) S(1) by (simp add: assms(3))
  then have "\<bar>T - S\<bar> < 2 ^ 27" using S(3) assms(5) by simp
  then obtain R where R: "jsub (Fin T) (Fin S) = Fin R" "\<bar>R - (T - S)\<bar> \<le> 2 ^ 27 / 2 ^ 54" "R = rnd64 (T - S)"
    using jsub_near by fastforce
  have "0 \<le> R" using R(3) \<open>S \<le> T\<close> by (simp add: rnd64_nonneg)
  moreover have "R \<le> T" using R(3) S(3) rnd64_le_representable [OF assms(4)] by simp
  moreover have "\<bar>R + sum_list fs - T\<bar> \<le> 1 / 2 ^ 18 + 2 ^ 27 / 2 ^ 54" using S(2) R(2) by linarith
  then have "\<bar>R + sum_list fs - T\<bar> \<le> 5 / 10 ^ 6" by simp
  moreover have "representable R" using R(3) by (simp add: representable_rnd64)
  ultimately show ?thesis using R(1) S(1) assms(3,5) by auto
qed

text \<open>
  C24. The amount is conserved: for up to sixteen recipients of a kind the validation admits, at least one of them a
  percentage, and a payment of at most 2^26 that covers the fixed amounts, the calculation returns one amount per
  recipient, and in exact arithmetic the amounts add up to the payment with an error of at most 1/100000, although
  every operation of the code rounds in binary64.
\<close>

theorem split_conserves:
  assumes "\<forall>r \<in> set rs. good_value r \<and> (is_percentage r \<or> splitType r = ''fixed'')" and "length rs \<le> 16"
    and "\<exists>r \<in> set rs. is_percentage r"
    and "representable T" and "T \<le> 2 ^ 26" and "\<not> jgt (fixed_sum rs) (Fin T)"
  shows "\<exists>xs. calculateAllocations rs (Fin T) = Inr (map Fin xs) \<and> length xs = length rs \<and> \<bar>sum_list xs - T\<bar> \<le> 1 / 10 ^ 5"
proof -
  let ?fixed = "filter (\<lambda>r. splitType r = ''fixed'') rs" and ?pcts = "filter (\<lambda>r. is_percentage r) rs"
  obtain fs where fs: "map splitValue ?fixed = map Fin fs" using good_values_list [of ?fixed] assms(1) by auto
  have l: "length ?fixed \<le> 16" "length ?pcts \<le> 16" using assms(2) le_trans [OF length_filter_le] by blast+
  obtain R where R: "jsub (Fin T) (fixed_sum rs) = Fin R" "0 \<le> R" "representable R" "R \<le> 2 ^ 26"
    "\<bar>R + sum_list fs - T\<bar> \<le> 5 / 10 ^ 6"
    using remaining_near [of ?fixed fs T] assms(1,4-6) l(1) fs by (auto simp: fixed_sum_def)
  have "?pcts \<noteq> []" using assms(3) by (simp add: filter_empty_conv)
  then obtain ss where ss: "percentage_shares (Fin R) ?pcts = map Fin ss" "length ss = length ?pcts"
    "\<bar>sum_list ss - R\<bar> \<le> 5 / 10 ^ 6" using percentage_shares_sum [of ?pcts R] l(2) assms(1) R(2-4) by auto
  obtain xs gs where xs: "assign_shares rs (map Fin ss) = map Fin xs" "length xs = length rs"
    "map splitValue ?fixed = map Fin gs" "sum_list xs = sum_list gs + sum_list ss"
    using assign_shares_sum [OF assms(1) ss(2)] by blast
  have "gs = fs" using fs xs(3) by (simp add: inj_map_eq_map inj_def)
  then have "\<bar>sum_list xs - T\<bar> \<le> 5 / 10 ^ 6 + 5 / 10 ^ 6" using xs(4) ss(3) R(5) by (simp only:)
  then have "\<bar>sum_list xs - T\<bar> \<le> 1 / 10 ^ 5" by simp
  moreover have "calculateAllocations rs (Fin T) = Inr (map Fin xs)"
    using assms(6) by (simp add: calculateAllocations_def R(1) ss(1) xs(1))
  ultimately show ?thesis using xs(2) by blast
qed

definition recipient_of :: "string \<Rightarrow> string \<Rightarrow> js_num \<Rightarrow> int \<Rightarrow> split_recipient" where
  "recipient_of i t v p = \<lparr>recipientType = ''user'', recipientId = i, recipientLabel = None, splitType = t, splitValue = v, priority = p\<rparr>"

lemmas small_representable = representable_of_int [of 10] representable_of_int [of 25] representable_of_int [of 75]
  representable_of_int [of 1000]

theorem split_conserves_witness:
  "\<exists>xs. calculateAllocations [recipient_of ''a'' ''percentage'' (Fin 25) 0, recipient_of ''b'' ''fixed'' (Fin 10) 1,
      recipient_of ''c'' ''percentage'' (Fin 75) 2] (Fin 1000) = Inr (map Fin xs) \<and> length xs = 3 \<and> \<bar>sum_list xs - 1000\<bar> \<le> 1 / 10 ^ 5"
proof -
  let ?rs = "[recipient_of ''a'' ''percentage'' (Fin 25) 0, recipient_of ''b'' ''fixed'' (Fin 10) 1, recipient_of ''c'' ''percentage'' (Fin 75) 2]"
  have "of_exact (of_int 10) = Fin (of_int 10)" by (rule of_exact_int) simp
  then have "\<not> jgt (fixed_sum ?rs) (Fin 1000)" by (simp add: fixed_sum_def recipient_of_def jsum_def)
  then show ?thesis using split_conserves [of ?rs 1000] small_representable
    by (simp add: recipient_of_def good_value_def numeral_3_eq_3)
qed

subsection \<open>The ledger of a payment\<close>

definition split_db_ok :: "split_db \<Rightarrow> bool" where
  "split_db_ok db \<longleftrightarrow> (\<forall>r \<in> set (rules db). rule_id r < next_id db) \<and> (\<forall>p \<in> set (recipients db). fst p < next_id db) \<and>
     (\<forall>e \<in> set (ledger db). entry_id e < next_id db)"

text \<open>The rows that the insertion loop writes, when every amount fits.\<close>

fun ledger_rows :: "string \<Rightarrow> nat option \<Rightarrow> string \<Rightarrow> nat \<Rightarrow> (split_recipient \<times> js_num) list \<Rightarrow> split_entry list" where
  "ledger_rows tx rid cur n [] = []"
| "ledger_rows tx rid cur n ((r, amount) # as) =
     \<lparr>entry_id = n, transactionId = tx, entry_rule = rid, entry_recipientType = recipientType r,
      entry_recipientId = recipientId r, entry_label = recipientLabel r, entry_splitType = splitType r,
      allocatedAmount = projr (numeric_18_8 amount), entry_currency = cur, entry_status = Pending, processedAt = None,
      errorMessage = None\<rparr> # ledger_rows tx rid cur (Suc n) as"

definition insertable :: "string \<Rightarrow> (split_recipient \<times> js_num) list \<Rightarrow> bool" where
  "insertable cur as \<longleftrightarrow> (\<forall>a \<in> set as. length cur \<le> 10 \<and> isl (numeric_18_8 (snd a)) = False)"

lemma ledger_rows_simps [simp]:
  "length (ledger_rows tx rid cur n as) = length as"
  "map entry_id (ledger_rows tx rid cur n as) = [n..<n + length as]"
  "map allocatedAmount (ledger_rows tx rid cur n as) = map (\<lambda>a. projr (numeric_18_8 (snd a))) as"
  by (induction tx rid cur n as rule: ledger_rows.induct) (auto simp: upt_conv_Cons simp del: upt_Suc)

lemma ledger_rows_tx: "e \<in> set (ledger_rows tx rid cur n as) \<Longrightarrow> transactionId e = tx"
  by (induction tx rid cur n as rule: ledger_rows.induct) auto

lemma createLedgerEntries_ok:
  "insertable cur as \<Longrightarrow> createLedgerEntries tx rid cur as db =
     (Inr (ledger_rows tx rid cur (next_id db) as),
      db\<lparr>ledger := ledger db @ ledger_rows tx rid cur (next_id db) as, next_id := next_id db + length as\<rparr>)"
  by (induction tx rid cur as db rule: createLedgerEntries.induct)
    (auto simp: insertable_def Let_def split: sum.splits)

lemma createLedgerEntries_Inr:
  "createLedgerEntries tx rid cur as db = (Inr es, db1) \<Longrightarrow> insertable cur as"
  by (induction tx rid cur as db arbitrary: es db1 rule: createLedgerEntries.induct)
    (auto simp: insertable_def Let_def split: sum.splits prod.splits if_splits)

definition dispatched :: "split_entry \<Rightarrow> split_entry" where
  "dispatched e = e\<lparr>entry_status := Processing, errorMessage := None\<rparr>"

lemma dispatched_simps [simp]:
  "entry_id (dispatched e) = entry_id e" "transactionId (dispatched e) = transactionId e"
  "allocatedAmount (dispatched e) = allocatedAmount e" "entry_status (dispatched e) = Processing"
  by (simp_all add: dispatched_def)

lemma find_first: "\<forall>x \<in> set xs. \<not> P x \<Longrightarrow> P y \<Longrightarrow> find P (xs @ y # ys) = Some y"
  by (induction xs) auto

lemma advance_entries_closed:
  assumes "ledger db = L @ es" and "distinct (map entry_id es)" and "entry_id ` set L \<inter> entry_id ` set es = {}"
  shows "advance_entries es now db = (map dispatched es, db\<lparr>ledger := L @ map dispatched es\<rparr>)"
  using assms
proof (induction es arbitrary: L db)
  case (Cons e es)
  have keep: "map (\<lambda>x. if entry_id x = entry_id e then f x else x) xs = xs" if "entry_id e \<notin> entry_id ` set xs" for f xs
    using that by (intro map_idI) (metis image_eqI)
  have "find (\<lambda>x. entry_id x = entry_id e) (L @ dispatched e # es) = Some (dispatched e)"
    using Cons.prems(3) by (intro find_first) (auto, metis image_eqI)
  then have upd: "updateLedgerEntryStatus (entry_id e) Processing None now db =
      (Some (dispatched e), db\<lparr>ledger := (L @ [dispatched e]) @ es\<rparr>)"
    using Cons.prems by (simp add: updateLedgerEntryStatus_def keep dispatched_def Let_def)
  have "advance_entries es now (db\<lparr>ledger := (L @ [dispatched e]) @ es\<rparr>) =
      (map dispatched es, db\<lparr>ledger := (L @ [dispatched e]) @ es\<rparr>\<lparr>ledger := (L @ [dispatched e]) @ map dispatched es\<rparr>)"
    using Cons.prems(2,3) by (intro Cons.IH) auto
  then show ?case by (simp add: upd)
qed simp

text \<open>What a successful dispatch does to the tables.\<close>

lemma applyRule_Inr:
  assumes "applyRule tx rid tot cur db = (Inr es, db1)"
  shows "\<exists>as. insertable cur as \<and> es = ledger_rows tx (Some rid) cur (next_id db) as \<and>
    db1 = db\<lparr>ledger := ledger db @ es, next_id := next_id db + length as\<rparr> \<and>
    (\<forall>db2. rules db2 = rules db \<and> recipients db2 = recipients db \<longrightarrow>
       applyRule tx rid tot cur db2 = createLedgerEntries tx (Some rid) cur as db2)"
proof -
  obtain rule rs xs where found: "\<not> jle tot (Fin 0)" "findRuleById rid db = Some (rule, rs)" "isActive rule" "rs \<noteq> []"
    and alloc: "calculateAllocations (sort_key priority rs) tot = Inr xs"
    and ins: "createLedgerEntries tx (Some rid) cur (zip (sort_key priority rs) xs) db = (Inr es, db1)"
    using assms by (auto simp: applyRule_def Let_def split: if_splits option.splits sum.splits)
  have same: "applyRule tx rid tot cur db2 = createLedgerEntries tx (Some rid) cur (zip (sort_key priority rs) xs) db2"
    if "rules db2 = rules db" "recipients db2 = recipients db" for db2
  proof -
    have "findRuleById rid db2 = findRuleById rid db" using that by (simp add: findRuleById_def cong: option.case_cong)
    then show ?thesis using found alloc by (simp add: applyRule_def Let_def)
  qed
  have ok: "insertable cur (zip (sort_key priority rs) xs)" by (rule createLedgerEntries_Inr [OF ins])
  then have "es = ledger_rows tx (Some rid) cur (next_id db) (zip (sort_key priority rs) xs) \<and>
      db1 = db\<lparr>ledger := ledger db @ es, next_id := next_id db + length (zip (sort_key priority rs) xs)\<rparr>"
    using ins createLedgerEntries_ok [OF ok, of tx "Some rid" db] by auto
  then show ?thesis using ok same by blast
qed

lemma processTransaction_rows:
  assumes "split_db_ok db" and "applyRule tx rid tot cur db = (Inr es, db1)"
  shows "processTransaction tx rid tot cur now db = (Inr (map dispatched es), db1\<lparr>ledger := ledger db @ map dispatched es\<rparr>)"
proof -
  obtain as where es: "es = ledger_rows tx (Some rid) cur (next_id db) as"
    and db1: "db1 = db\<lparr>ledger := ledger db @ es, next_id := next_id db + length as\<rparr>"
    using applyRule_Inr [OF assms(2)] by blast
  have "entry_id ` set es = set (map entry_id es)" by simp
  also have "\<dots> = {next_id db..<next_id db + length as}" by (simp only: es ledger_rows_simps set_upt)
  finally have ids: "entry_id ` set es = {next_id db..<next_id db + length as}" .
  have "\<forall>i \<in> entry_id ` set (ledger db). i < next_id db" using assms(1) by (auto simp: split_db_ok_def)
  then have "entry_id ` set (ledger db) \<inter> entry_id ` set es = {}" unfolding ids by auto
  moreover have "distinct (map entry_id es)" by (simp add: es)
  ultimately have "advance_entries es now db1 = (map dispatched es, db1\<lparr>ledger := ledger db @ map dispatched es\<rparr>)"
    by (intro advance_entries_closed) (simp_all add: db1)
  then show ?thesis by (simp add: processTransaction_def assms(2))
qed

text \<open>
  Dispatching a split is not idempotent: if a payment was processed with a rule, processing the same payment with the
  same rule again succeeds, and the payment has a second set of ledger entries with the same amounts, all of them
  in processing. Neither the service nor the schema looks for entries of the payment.
\<close>

theorem split_applied_twice:
  assumes "split_db_ok db" and "processTransaction tx rid tot cur now db = (Inr us, db1)"
  shows "\<exists>vs db2. processTransaction tx rid tot cur later db1 = (Inr vs, db2) \<and>
    getLedgerForTransaction tx db2 = getLedgerForTransaction tx db @ us @ vs \<and>
    map allocatedAmount vs = map allocatedAmount us \<and> (\<forall>e \<in> set us \<union> set vs. entry_status e = Processing)"
proof -
  obtain es db0 where ap: "applyRule tx rid tot cur db = (Inr es, db0)"
    using assms(2) by (auto simp: processTransaction_def split: prod.splits sum.splits)
  from applyRule_Inr [OF this] obtain as where as: "insertable cur as" "es = ledger_rows tx (Some rid) cur (next_id db) as"
    "db0 = db\<lparr>ledger := ledger db @ es, next_id := next_id db + length as\<rparr>"
    "\<forall>db2. rules db2 = rules db \<and> recipients db2 = recipients db \<longrightarrow>
       applyRule tx rid tot cur db2 = createLedgerEntries tx (Some rid) cur as db2" by blast
  have us: "us = map dispatched es" and db1: "db1 = db0\<lparr>ledger := ledger db @ us\<rparr>"
    using processTransaction_rows [OF assms(1) ap, of now] assms(2) by simp_all
  let ?fs = "ledger_rows tx (Some rid) cur (next_id db1) as"
  have ap1: "applyRule tx rid tot cur db1 = (Inr ?fs, db1\<lparr>ledger := ledger db1 @ ?fs, next_id := next_id db1 + length as\<rparr>)"
    using as(3,4) createLedgerEntries_ok [OF as(1)] by (simp add: db1)
  have "entry_id e < next_id db1" if "e \<in> set us" for e
  proof -
    have "entry_id e \<in> set (map entry_id es)" using that by (auto simp: us)
    then show ?thesis by (simp only: as(2) ledger_rows_simps) (simp add: db1 as(3))
  qed
  then have ok1: "split_db_ok db1" using assms(1) by (auto simp: split_db_ok_def db1 as(3) intro: trans_less_add1)
  have p2: "processTransaction tx rid tot cur later db1 = (Inr (map dispatched ?fs),
      db1\<lparr>ledger := ledger db1 @ ?fs, next_id := next_id db1 + length as\<rparr>\<lparr>ledger := ledger db1 @ map dispatched ?fs\<rparr>)"
    by (rule processTransaction_rows [OF ok1 ap1])
  have tx: "\<forall>e \<in> set es \<union> set ?fs. transactionId e = tx" using ledger_rows_tx as(2) by blast
  have "map allocatedAmount (map dispatched ?fs) = map allocatedAmount us"
    by (simp add: us comp_def as(2) flip: map_map [unfolded comp_def])
  moreover have "getLedgerForTransaction tx (db1\<lparr>ledger := ledger db1 @ ?fs, next_id := next_id db1 + length as\<rparr>
        \<lparr>ledger := ledger db1 @ map dispatched ?fs\<rparr>) =
      getLedgerForTransaction tx db @ us @ map dispatched ?fs"
    using tx by (simp add: getLedgerForTransaction_def db1 us filter_True)
  moreover have "\<forall>e \<in> set us \<union> set (map dispatched ?fs). entry_status e = Processing" by (auto simp: us)
  ultimately show ?thesis using p2 by blast
qed

text \<open>A NUMERIC(18, 8) column keeps whole numbers and refuses what has more than ten digits before the point.\<close>

lemma half_away_near: "\<bar>y - of_int k\<bar> < 1 / 2 \<Longrightarrow> half_away y = k"
proof -
  assume a: "\<bar>y - of_int k\<bar> < 1 / 2"
  have "\<lfloor>y + 1 / 2\<rfloor> = k" using a by (intro floor_unique) linarith+
  moreover have "of_int (- k) \<le> - y + 1 / 2" "- y + 1 / 2 < of_int (- k) + 1" using a unfolding of_int_minus by linarith+
  then have "\<lfloor>- y + 1 / 2\<rfloor> = - k" by (rule floor_unique)
  ultimately show ?thesis by (simp add: half_away_def)
qed

lemma numeric_18_8_int:
  assumes "\<bar>n\<bar> < 2 ^ 20"
  shows "numeric_18_8 (Fin (of_int n)) = Inr (Fin (of_int n))"
proof -
  have r: "representable (of_int n)" using assms by (intro representable_of_int) simp
  have lt: "\<bar>of_int n :: rat\<bar> < 2 powi 20" using assms by (simp flip: of_int_abs)
  have "\<bar>num_value (of_int n) - of_int n\<bar> \<le> 2 powi (20 - 54)" by (rule num_value_error [OF r lt]) simp
  also have "(2 :: rat) powi (20 - 54) = 1 / 2 ^ 34" by (simp add: power_int_def power_one_over)
  finally have "\<bar>num_value (of_int n) - of_int n\<bar> * 10 ^ 8 < 1 / 2" by simp
  then have "\<bar>(num_value (of_int n) - of_int n) * 10 ^ 8\<bar> < 1 / 2" by (simp only: abs_mult) simp
  then have "\<bar>num_value (of_int n) * 10 ^ 8 - of_int (n * 10 ^ 8)\<bar> < 1 / 2" by (simp only: left_diff_distrib of_int_mult of_int_power of_int_numeral)
  from half_away_near [OF this] have u: "half_away (num_value (of_int n) * 10 ^ 8) = n * 10 ^ 8" .
  have "\<not> \<bar>n * 10 ^ 8\<bar> \<ge> 10 ^ 18" using assms by (simp add: abs_mult)
  moreover have "(of_int (n * 10 ^ 8) :: rat) / 10 ^ 8 = of_int n" by simp
  moreover have "of_exact (of_int n) = Fin (of_int n)" using assms by (intro of_exact_int) simp
  ultimately show ?thesis unfolding numeric_18_8_def js_num.case Let_def u by (simp only: if_False)
qed

lemma numeric_18_8_overflow:
  assumes "2 * 10 ^ 10 \<le> x" and "x < 2 ^ 40" and "representable x"
  shows "numeric_18_8 (Fin x) = Inl NumericOverflow"
proof -
  have "\<bar>x\<bar> < 2 powi 40" using assms(1,2) by simp
  from num_value_error [OF assms(3) this] have "\<bar>num_value x - x\<bar> \<le> 2 powi (40 - 54)" by simp
  also have "(2 :: rat) powi (40 - 54) \<le> 1" by (simp add: power_int_def power_one_over)
  finally have "2 * 10 ^ 10 - 1 \<le> num_value x" using assms(1) by (simp only: abs_le_iff) linarith
  then have y: "10 ^ 18 \<le> num_value x * 10 ^ 8" by simp
  then have "10 ^ 18 \<le> half_away (num_value x * 10 ^ 8)" by (simp add: half_away_def le_floor_iff)
  then show ?thesis by (simp add: numeric_18_8_def Let_def)
qed

subsection \<open>Creating a rule\<close>

definition storable :: "split_recipient \<Rightarrow> bool" where
  "storable r \<longleftrightarrow> \<not> (length (recipientId r) > 255 \<or> (case recipientLabel r of None \<Rightarrow> False | Some l \<Rightarrow> length l > 255)) \<and>
     \<not> isl (numeric_18_8 (splitValue r))"

definition stored :: "split_recipient \<Rightarrow> split_recipient" where
  "stored r = r\<lparr>splitValue := projr (numeric_18_8 (splitValue r))\<rparr>"

lemma insert_recipient_cases:
  "storable r \<Longrightarrow> insert_recipient rid r db = (Inr (stored r), db\<lparr>recipients := recipients db @ [(rid, stored r)]\<rparr>)"
  "\<not> storable r \<Longrightarrow> \<exists>e. insert_recipient rid r db = (Inl e, db)"
  by (cases "numeric_18_8 (splitValue r)"; auto simp: insert_recipient_def storable_def stored_def Let_def)+

lemma insert_recipients_stored:
  "\<forall>r \<in> set rs. storable r \<Longrightarrow>
     insert_recipients rid rs db = (Inr (map stored rs), db\<lparr>recipients := recipients db @ map (\<lambda>r. (rid, stored r)) rs\<rparr>)"
  by (induction rs arbitrary: db) (auto simp: insert_recipient_cases(1))

lemma insert_recipients_partial:
  assumes "\<forall>r \<in> set rs. storable r" and "\<not> storable b"
  shows "\<exists>e. insert_recipients rid (rs @ b # cs) db = (Inl e, db\<lparr>recipients := recipients db @ map (\<lambda>r. (rid, stored r)) rs\<rparr>)"
  using assms(1)
proof (induction rs arbitrary: db)
  case Nil
  then show ?case using insert_recipient_cases(2) [OF assms(2), of rid db] by auto
next
  case (Cons r rs)
  then have r: "storable r" and rs: "\<forall>r \<in> set rs. storable r" by auto
  from Cons.IH [OF rs, of "db\<lparr>recipients := recipients db @ [(rid, stored r)]\<rparr>"] obtain e where
    "insert_recipients rid (rs @ b # cs) (db\<lparr>recipients := recipients db @ [(rid, stored r)]\<rparr>) =
      (Inl e, db\<lparr>recipients := recipients db @ map (\<lambda>r. (rid, stored r)) (r # rs)\<rparr>)" by auto
  then show ?case by (simp add: insert_recipient_cases(1) [OF r])
qed

lemma insert_recipients_Inr: "insert_recipients rid rs db = (Inr rs1, db1) \<Longrightarrow> \<forall>r \<in> set rs. storable r"
proof (rule ccontr)
  assume a: "insert_recipients rid rs db = (Inr rs1, db1)" "\<not> (\<forall>r \<in> set rs. storable r)"
  then obtain as b cs where "rs = as @ b # cs" "\<forall>r \<in> set as. storable r" "\<not> storable b"
    using split_list_first_prop [of rs "\<lambda>r. \<not> storable r"] by auto
  with a(1) show False using insert_recipients_partial [of as b rid cs db] by auto
qed

lemma find_new_rule:
  assumes "split_db_ok db" and "rule_id rule = next_id db"
  shows "findRuleById (next_id db) (db\<lparr>rules := rules db @ [rule], next_id := n,
      recipients := recipients db @ map (\<lambda>r. (next_id db, f r)) rs\<rparr>) = Some (rule, sort_key priority (map f rs))"
proof -
  have "find (\<lambda>r. rule_id r = next_id db) (rules db @ [rule]) = Some rule"
    using assms by (intro find_first) (auto simp: split_db_ok_def)
  moreover have "filter (\<lambda>p. fst p = next_id db) (recipients db) = []" using assms(1) by (auto simp: split_db_ok_def filter_empty_conv)
  ultimately show ?thesis by (simp add: findRuleById_def filter_map comp_def)
qed

text \<open>
  A rule that was created is found with its recipients in order of priority, their values as the column keeps them.
\<close>

theorem created_rule_found:
  assumes "split_db_ok db" and "createRule name desc rs user db = (Inr (rule, rs1), db1)"
  shows "findRuleById (rule_id rule) db1 = Some (rule, sort_key priority (map stored rs))"
proof -
  have "\<forall>r \<in> set rs. storable r" using assms(2) insert_recipients_Inr
    by (fastforce simp: createRule_def model_createRule_def Let_def split: if_splits prod.splits sum.splits)
  then show ?thesis using assms(2) find_new_rule [OF assms(1), where f = stored and rs = rs and rule = rule]
    by (auto simp: createRule_def model_createRule_def Let_def insert_recipients_stored split: if_splits)
qed

text \<open>
  A rule whose creation fails half way stays: if the recipients pass the validation and one of them cannot be stored
  (a fixed value with more than ten digits, a label that is too long), the call fails, but the rule is in the table,
  active, with the recipients before that one, so it can be applied to payments. The comment of the code promises a
  transaction.
\<close>

theorem failed_rule_stays_active:
  assumes "split_db_ok db" and "trim name \<noteq> []" and "length (trim name) \<le> 255"
    and "validateRecipients (as @ b # cs) = []" and "\<forall>r \<in> set as. storable r" and "\<not> storable b"
  shows "\<exists>e db1 rule. createRule name desc (as @ b # cs) user db = (Inl e, db1) \<and>
    findRuleById (next_id db) db1 = Some (rule, sort_key priority (map stored as)) \<and> isActive rule"
proof -
  define rule where "rule = \<lparr>rule_id = next_id db, rule_name = trim name, rule_description = desc, createdBy = user, isActive = True\<rparr>"
  obtain e where e: "insert_recipients (next_id db) (as @ b # cs) (db\<lparr>rules := rules db @ [rule], next_id := Suc (next_id db)\<rparr>) =
      (Inl e, db\<lparr>rules := rules db @ [rule], next_id := Suc (next_id db),
        recipients := recipients db @ map (\<lambda>r. (next_id db, stored r)) as\<rparr>)"
    using insert_recipients_partial [OF assms(5,6), of "next_id db" cs
        "db\<lparr>rules := rules db @ [rule], next_id := Suc (next_id db)\<rparr>"] by auto
  have "name \<noteq> []" using assms(2) by (auto simp: trim_def)
  then have "createRule name desc (as @ b # cs) user db = (Inl e, db\<lparr>rules := rules db @ [rule], next_id := Suc (next_id db),
        recipients := recipients db @ map (\<lambda>r. (next_id db, stored r)) as\<rparr>)"
    using assms(2-4) e by (simp add: createRule_def model_createRule_def Let_def rule_def)
  moreover have "rule_id rule = next_id db" "isActive rule" by (simp_all add: rule_def)
  ultimately show ?thesis using find_new_rule [OF assms(1), where f = stored and rs = as and rule = rule] by blast
qed

text \<open>Concrete instances: a fixed recipient, a value too large for the column, and a database with one rule.\<close>

abbreviation fixed_10 :: split_recipient where
  "fixed_10 \<equiv> recipient_of ''a'' ''fixed'' (Fin 10) 0"

abbreviation fixed_huge :: split_recipient where
  "fixed_huge \<equiv> recipient_of ''b'' ''fixed'' (Fin 30000000000) 1"

definition empty_split_db :: split_db where
  "empty_split_db = \<lparr>rules = [], recipients = [], ledger = [], next_id = 0\<rparr>"

definition one_rule_db :: split_db where
  "one_rule_db = snd (createRule ''r'' None [fixed_10] None empty_split_db)"

lemma fixed_10_facts:
  "storable fixed_10" "stored fixed_10 = fixed_10" "numeric_18_8 (Fin 10) = Inr (Fin 10)" "of_exact 10 = Fin 10"
proof -
  show n: "numeric_18_8 (Fin 10) = Inr (Fin 10)" using numeric_18_8_int [of 10] by simp
  show "of_exact 10 = Fin 10" using of_exact_int [of 10] by simp
  show "storable fixed_10" "stored fixed_10 = fixed_10" by (simp_all add: storable_def stored_def recipient_of_def n)
qed

lemma fixed_huge_not_storable: "\<not> storable fixed_huge"
proof -
  have "representable (30000000000 :: rat)" using representable_of_int [of 30000000000] by simp
  then show ?thesis by (simp add: storable_def recipient_of_def numeric_18_8_overflow)
qed

lemma fixed_no_errors: "recipient_errors i fixed_10 = []" "recipient_errors i fixed_huge = []"
  by (simp_all add: recipient_errors_def value_errors_def recipient_of_def trim_eq_Nil_iff is_space_def)

lemma fixed_valid: "validateRecipients [fixed_10] = []" "validateRecipients [fixed_10, fixed_huge] = []"
proof -
  have "validate_loop 0 (Fin 0) True [fixed_10] = ([], Fin 0, False)" "validate_loop 0 (Fin 0) True [fixed_10, fixed_huge] = ([], Fin 0, False)"
    by (simp_all add: fixed_no_errors) (simp_all add: recipient_of_def)
  then show "validateRecipients [fixed_10] = []" "validateRecipients [fixed_10, fixed_huge] = []"
    unfolding validateRecipients_def by simp_all
qed

lemma empty_split_db_ok: "split_db_ok empty_split_db"
  by (simp add: split_db_ok_def empty_split_db_def)

lemma one_rule_created: "createRule ''r'' None [fixed_10] None empty_split_db =
    (Inr (\<lparr>rule_id = 0, rule_name = ''r'', rule_description = None, createdBy = None, isActive = True\<rparr>, [fixed_10]),
     \<lparr>rules = [\<lparr>rule_id = 0, rule_name = ''r'', rule_description = None, createdBy = None, isActive = True\<rparr>],
      recipients = [(0, fixed_10)], ledger = [], next_id = 1\<rparr>)"
  by (simp add: createRule_def model_createRule_def fixed_valid insert_recipient_cases(1) fixed_10_facts empty_split_db_def
      trim_def is_space_def Let_def)

lemmas one_rule_db_eq = one_rule_db_def [unfolded one_rule_created snd_conv]

theorem created_rule_found_witness:
  "findRuleById 0 one_rule_db =
     Some (\<lparr>rule_id = 0, rule_name = ''r'', rule_description = None, createdBy = None, isActive = True\<rparr>, [fixed_10])"
  using created_rule_found [OF empty_split_db_ok one_rule_created] by (simp add: one_rule_db_def one_rule_created fixed_10_facts)

theorem failed_rule_stays_active_witness:
  "\<exists>e db1 rule. createRule ''r'' None [fixed_10, fixed_huge] None empty_split_db = (Inl e, db1) \<and>
     findRuleById 0 db1 = Some (rule, [fixed_10]) \<and> isActive rule"
  using failed_rule_stays_active [OF empty_split_db_ok, of "''r''" "[fixed_10]" fixed_huge "[]" None None]
  by (simp add: fixed_valid fixed_10_facts fixed_huge_not_storable trim_def is_space_def empty_split_db_def)

theorem split_applied_twice_witness:
  "\<exists>us vs db1 db2. processTransaction ''t'' 0 (Fin 10) ''XAF'' 1 one_rule_db = (Inr us, db1) \<and>
     processTransaction ''t'' 0 (Fin 10) ''XAF'' 2 db1 = (Inr vs, db2) \<and>
     map allocatedAmount us = [Fin 10] \<and> map allocatedAmount (getLedgerForTransaction ''t'' db2) = [Fin 10, Fin 10]"
proof -
  obtain us db1 where p: "processTransaction ''t'' 0 (Fin 10) ''XAF'' 1 one_rule_db = (Inr us, db1)" "map allocatedAmount us = [Fin 10]"
    by (simp add: one_rule_db_eq processTransaction_def applyRule_def findRuleById_def calculateAllocations_def
        fixed_sum_def jsum_def percentage_shares_def recipient_of_def fixed_10_facts updateLedgerEntryStatus_def Let_def)
  moreover have "split_db_ok one_rule_db" by (simp add: one_rule_db_eq split_db_ok_def)
  moreover have "getLedgerForTransaction ''t'' one_rule_db = []" by (simp add: one_rule_db_eq getLedgerForTransaction_def)
  ultimately show ?thesis using split_applied_twice [of one_rule_db "''t''" 0 "Fin 10" "''XAF''" 1 us db1 2] by fastforce
qed

text \<open>
  A rule with fixed amounts only pays these amounts whatever the payment is, as long as they do not exceed it: what
  is left of the payment goes to no recipient. The documentation assigns the remainder to the last recipient.
\<close>

theorem fixed_rule_ignores_remainder:
  assumes "\<forall>r \<in> set rs. splitType r = ''fixed''" and "\<not> jgt (jsum (map splitValue rs)) tot"
  shows "calculateAllocations rs tot = Inr (map splitValue rs)"
proof -
  have "filter (\<lambda>r. is_percentage r) rs = []" "filter (\<lambda>r. splitType r = ''fixed'') rs = rs"
    using assms(1) by (auto simp: filter_empty_conv filter_id_conv)
  moreover have "assign_shares rs [] = map splitValue rs" using assms(1) by (induction rs) auto
  ultimately show ?thesis using assms(2) by (simp add: calculateAllocations_def fixed_sum_def percentage_shares_def)
qed

theorem fixed_rule_ignores_remainder_witness:
  "calculateAllocations [fixed_10] (Fin 1000) = Inr [Fin 10]"
  using fixed_rule_ignores_remainder [of "[fixed_10]" "Fin 1000"] by (simp add: recipient_of_def jsum_def fixed_10_facts)

end
