(* ===== verification/Idempotency.thy ===== *)
theory Idempotency
  imports Js_Value
begin

text \<open>
  \<open>src/src/middleware/idempotency.ts\<close> and \<open>src/src/jobs/idempotencyCleanupJob.ts\<close>: requests with an
  \<open>Idempotency-Key\<close> claim a row of the table \<open>idempotency_keys\<close>, and a retry replays the stored answer.

  Every SQL statement is one step, and the steps of different requests interleave: a request is a phase
  of the middleware, a server is the table with the phases of all requests, and an event is the arrival
  of a request, the execution of its next statement at a time of the database, the answer of the route
  handler, or a statement of the clean-up job. The job parses the time to live on its own, so the
  retention it uses is a part of its event. A statement may fail (the flag of the event). The digest
  of SHA-256 is a parameter. A body is the JSON value of the answer, \<open>None\<close> for \<open>null\<close>.
\<close>

subsection \<open>The table and the phases of a request\<close>

datatype row_state = In_progress | Completed

record 'b idempotency_row =
  request_hash :: string
  row_state :: row_state
  status_code :: "int option"
  response_body :: "'b option"
  expires_at :: int
  created_at :: int

type_synonym 'b idempotency_table = "(string, 'b idempotency_row) js_map"

record http_request =
  req_method :: string
  req_url :: string
  req_body :: string
  idempotency_header :: "string option"

definition MUTATING_METHODS :: "string list" where
  "MUTATING_METHODS = [''POST'', ''PUT'', ''PATCH'']"

definition MAX_KEY_LENGTH :: nat where
  "MAX_KEY_LENGTH = 255"

text \<open>Why a request reached its handler, and what was answered.\<close>

datatype passage = Unprotected | Store_down | Claimed | Row_gone

datatype 'b answer = Handled int "'b option" | Not_json | Replayed int "'b option" | Key_too_long | Payload_differs | Still_processing

type_synonym key_claim = "string \<times> string"

datatype 'b phase =
  Deleting key_claim
| Inserting key_claim
| Selecting key_claim
| Running passage "key_claim option"
| Persisting passage key_claim int "'b option"
| Done passage "key_claim option" "'b answer" bool
| Rejected "key_claim option" "'b answer"

text \<open>The flag of \<open>Done\<close> tells whether the request left its row in the table.\<close>

record 'b idem_server =
  table :: "'b idempotency_table"
  requests :: "'b phase list"

subsection \<open>The middleware\<close>

definition hashRequest :: "(string \<Rightarrow> string) \<Rightarrow> http_request \<Rightarrow> string" where
  "hashRequest sha r = sha (req_method r @ '':'' @ req_url r @ '':'' @ req_body r)"

definition admit :: "(string \<Rightarrow> string) \<Rightarrow> http_request \<Rightarrow> 'b phase" where
  "admit sha r =
     (if req_method r \<notin> set MUTATING_METHODS then Running Unprotected None
      else case idempotency_header r of
        None \<Rightarrow> Running Unprotected None
      | Some h \<Rightarrow>
          let key = trim h in
          if key = [] then Running Unprotected None
          else if length key > MAX_KEY_LENGTH then Rejected None Key_too_long
          else Deleting (key, hashRequest sha r))"

definition replay :: "key_claim \<Rightarrow> 'b idempotency_row \<Rightarrow> 'b answer" where
  "replay c row =
     (if request_hash row \<noteq> snd c then Payload_differs
      else if row_state row = In_progress then Still_processing
      else Replayed (case status_code row of None \<Rightarrow> 200 | Some s \<Rightarrow> s) (response_body row))"

definition new_row :: "int \<Rightarrow> int \<Rightarrow> string \<Rightarrow> 'b idempotency_row" where
  "new_row ttl now h =
     \<lparr>request_hash = h, row_state = In_progress, status_code = None, response_body = None, expires_at = now + ttl, created_at = now\<rparr>"

definition success :: "int \<Rightarrow> bool" where
  "success status \<longleftrightarrow> 200 \<le> status \<and> status < 300"

definition delete_expired :: "int \<Rightarrow> string \<Rightarrow> 'b idempotency_table \<Rightarrow> 'b idempotency_table" where
  "delete_expired now k t = (case map_get t k of None \<Rightarrow> t | Some row \<Rightarrow> if expires_at row \<le> now then map_delete k t else t)"

definition storeResponse :: "string \<Rightarrow> int \<Rightarrow> 'b option \<Rightarrow> 'b idempotency_table \<Rightarrow> 'b idempotency_table" where
  "storeResponse k status body t =
     (case map_get t k of
        None \<Rightarrow> t
      | Some row \<Rightarrow> map_set k (row\<lparr>row_state := Completed, status_code := Some status, response_body := body\<rparr>) t)"

definition releaseKey :: "string \<Rightarrow> 'b idempotency_table \<Rightarrow> 'b idempotency_table" where
  "releaseKey k t = map_delete k t"

text \<open>The next statement of a request: the three of \<open>claimKey\<close>, and the one that \<open>captureResponse\<close> issues.\<close>

fun statement :: "int \<Rightarrow> int \<Rightarrow> bool \<Rightarrow> 'b phase \<Rightarrow> 'b idempotency_table \<Rightarrow> 'b phase \<times> 'b idempotency_table" where
  "statement ttl now ok (Deleting c) t =
     (if \<not> ok then (Running Store_down (Some c), t) else (Inserting c, delete_expired now (fst c) t))"
| "statement ttl now ok (Inserting c) t =
     (if \<not> ok then (Running Store_down (Some c), t)
      else case map_get t (fst c) of
        None \<Rightarrow> (Running Claimed (Some c), map_set (fst c) (new_row ttl now (snd c)) t)
      | Some _ \<Rightarrow> (Selecting c, t))"
| "statement ttl now ok (Selecting c) t =
     (if \<not> ok then (Running Store_down (Some c), t)
      else case map_get t (fst c) of
        None \<Rightarrow> (Running Row_gone (Some c), t)
      | Some row \<Rightarrow> (Rejected (Some c) (replay c row), t))"
| "statement ttl now ok (Persisting p c status body) t =
     (if \<not> ok then (Done p (Some c) (Handled status body) True, t)
      else if success status then (Done p (Some c) (Handled status body) True, storeResponse (fst c) status body t)
      else (Done p (Some c) (Handled status body) False, releaseKey (fst c) t))"
| "statement ttl now ok ph t = (ph, t)"

text \<open>The handler answers with \<open>res.json\<close>, or otherwise, where nothing is captured.\<close>

fun respond :: "int \<Rightarrow> 'b option \<Rightarrow> 'b phase \<Rightarrow> 'b phase" where
  "respond status body (Running p (Some c)) =
     (if p \<in> set [Claimed, Row_gone] then Persisting p c status body else Done p (Some c) (Handled status body) False)"
| "respond status body (Running p None) = Done p None (Handled status body) False"
| "respond status body ph = ph"

fun respond_other :: "'b phase \<Rightarrow> 'b phase" where
  "respond_other (Running p c) = Done p c Not_json (p \<in> set [Claimed, Row_gone])"
| "respond_other ph = ph"

subsection \<open>The clean-up job\<close>

definition row_expired :: "int \<Rightarrow> string \<times> 'b idempotency_row \<Rightarrow> bool" where
  "row_expired now p \<longleftrightarrow> expires_at (snd p) \<le> now"

text \<open>One batch of \<open>purgeExpiredIdempotencyKeys\<close>: up to \<open>n\<close> expired rows, in the order of the table.\<close>

fun purge_batch :: "int \<Rightarrow> nat \<Rightarrow> 'b idempotency_table \<Rightarrow> nat \<times> 'b idempotency_table" where
  "purge_batch now n [] = (0, [])"
| "purge_batch now n (p # t) =
     (if n > 0 \<and> row_expired now p then (let (d, t1) = purge_batch now (n - 1) t in (Suc d, t1))
      else (let (d, t1) = purge_batch now n t in (d, p # t1)))"

fun purgeExpiredIdempotencyKeys :: "nat \<Rightarrow> int \<Rightarrow> nat \<Rightarrow> 'b idempotency_table \<Rightarrow> (nat \<times> 'b idempotency_table) option" where
  "purgeExpiredIdempotencyKeys 0 now batch t = None"
| "purgeExpiredIdempotencyKeys (Suc fuel) now batch t =
     (let (d, t1) = purge_batch now batch t
      in if d = batch then map_option (\<lambda>(total, t2). (d + total, t2)) (purgeExpiredIdempotencyKeys fuel now batch t1)
         else Some (d, t1))"

definition stale_row :: "int \<Rightarrow> int \<Rightarrow> string \<times> 'b idempotency_row \<Rightarrow> bool" where
  "stale_row ttl now p \<longleftrightarrow> row_state (snd p) = In_progress \<and> created_at (snd p) < now - ttl"

definition purgeStaleInProgressKeys :: "int \<Rightarrow> int \<Rightarrow> 'b idempotency_table \<Rightarrow> nat \<times> 'b idempotency_table" where
  "purgeStaleInProgressKeys ttl now t =
     (length (filter (stale_row ttl now) t), filter (\<lambda>p. \<not> stale_row ttl now p) t)"

subsection \<open>The server\<close>

datatype 'b event =
  Arrive http_request
| Statement nat int bool
| Respond nat int "'b option"
| Respond_other nat
| Purge_batch int nat
| Purge_stale int int

definition update_request :: "nat \<Rightarrow> ('b phase \<Rightarrow> 'b phase) \<Rightarrow> 'b idem_server \<Rightarrow> 'b idem_server" where
  "update_request i f s = (if i < length (requests s) then s\<lparr>requests := (requests s)[i := f (requests s ! i)]\<rparr> else s)"

fun serve :: "(string \<Rightarrow> string) \<Rightarrow> int \<Rightarrow> 'b event \<Rightarrow> 'b idem_server \<Rightarrow> 'b idem_server" where
  "serve sha ttl (Arrive r) s = s\<lparr>requests := requests s @ [admit sha r]\<rparr>"
| "serve sha ttl (Statement i now ok) s =
     (if i < length (requests s) then
        let (ph, t) = statement ttl now ok (requests s ! i) (table s)
        in \<lparr>table = t, requests = (requests s)[i := ph]\<rparr>
      else s)"
| "serve sha ttl (Respond i status body) s = update_request i (respond status body) s"
| "serve sha ttl (Respond_other i) s = update_request i respond_other s"
| "serve sha ttl (Purge_batch now n) s = s\<lparr>table := snd (purge_batch now n (table s))\<rparr>"
| "serve sha ttl (Purge_stale hours now) s = s\<lparr>table := snd (purgeStaleInProgressKeys hours now (table s))\<rparr>"

definition serve_all :: "(string \<Rightarrow> string) \<Rightarrow> int \<Rightarrow> 'b event list \<Rightarrow> 'b idem_server" where
  "serve_all sha ttl evs = foldl (\<lambda>s e. serve sha ttl e s) \<lparr>table = [], requests = []\<rparr> evs"

subsection \<open>Invariant of a key\<close>

text \<open>The requests that hold the row of a key, and the row as its holder left it.\<close>

fun holds :: "string \<Rightarrow> 'b phase \<Rightarrow> bool" where
  "holds k (Running p (Some c)) \<longleftrightarrow> p = Claimed \<and> fst c = k"
| "holds k (Persisting p c status body) \<longleftrightarrow> p = Claimed \<and> fst c = k"
| "holds k (Done p (Some c) a left) \<longleftrightarrow> p = Claimed \<and> fst c = k \<and> left"
| "holds k ph \<longleftrightarrow> False"

fun unclaimed_run :: "string \<Rightarrow> 'b phase \<Rightarrow> bool" where
  "unclaimed_run k (Running p (Some c)) \<longleftrightarrow> p = Row_gone \<and> fst c = k"
| "unclaimed_run k (Persisting p c status body) \<longleftrightarrow> p = Row_gone \<and> fst c = k"
| "unclaimed_run k (Done p (Some c) a left) \<longleftrightarrow> p = Row_gone \<and> fst c = k"
| "unclaimed_run k ph \<longleftrightarrow> False"

fun claim_of :: "'b phase \<Rightarrow> key_claim option" where
  "claim_of (Running p c) = c"
| "claim_of (Persisting p c status body) = Some c"
| "claim_of (Done p c a left) = c"
| "claim_of (Deleting c) = Some c"
| "claim_of (Inserting c) = Some c"
| "claim_of (Selecting c) = Some c"
| "claim_of (Rejected c a) = c"

definition row_of :: "string \<Rightarrow> 'b idempotency_row \<Rightarrow> 'b phase \<Rightarrow> bool" where
  "row_of k row ph \<longleftrightarrow> claim_of ph = Some (k, request_hash row) \<and>
     (row_state row = Completed \<longrightarrow>
        (\<exists>status. ph = Done Claimed (Some (k, request_hash row)) (Handled status (response_body row)) True \<and>
           status_code row = Some status))"

definition row_ok :: "string \<Rightarrow> int \<Rightarrow> int \<Rightarrow> 'b idempotency_row option \<Rightarrow> 'b phase list \<Rightarrow> bool" where
  "row_ok k t0 ttl r reqs \<longleftrightarrow>
     (case r of
        None \<Rightarrow> filter (holds k) reqs = []
      | Some row \<Rightarrow> t0 + ttl \<le> expires_at row \<and> t0 \<le> created_at row \<and>
          (\<exists>ph. filter (holds k) reqs = [ph] \<and> row_of k row ph))"

definition replays_ok :: "string \<Rightarrow> 'b phase list \<Rightarrow> bool" where
  "replays_ok k reqs \<longleftrightarrow>
     (\<forall>h status body. Rejected (Some (k, h)) (Replayed status body) \<in> set reqs \<longrightarrow>
        Done Claimed (Some (k, h)) (Handled status body) True \<in> set reqs)"

fun persist_ok :: "'b phase \<Rightarrow> bool" where
  "persist_ok (Persisting p c status body) \<longleftrightarrow> p \<in> set [Claimed, Row_gone]"
| "persist_ok (Done p (Some c) (Handled status body) left) \<longleftrightarrow> p = Claimed \<and> \<not> left \<longrightarrow> \<not> success status"
| "persist_ok ph \<longleftrightarrow> True"

definition key_ok :: "string \<Rightarrow> int \<Rightarrow> int \<Rightarrow> 'b idem_server \<Rightarrow> bool" where
  "key_ok k t0 ttl s \<longleftrightarrow> row_ok k t0 ttl (map_get (table s) k) (requests s) \<and> replays_ok k (requests s)"

fun in_window :: "int \<Rightarrow> int \<Rightarrow> 'b event \<Rightarrow> bool" where
  "in_window t0 ttl (Statement i now ok) \<longleftrightarrow> t0 \<le> now \<and> now < t0 + ttl"
| "in_window t0 ttl (Purge_batch now n) \<longleftrightarrow> t0 \<le> now \<and> now < t0 + ttl"
| "in_window t0 ttl (Purge_stale hours now) \<longleftrightarrow> t0 \<le> now \<and> now < t0 + ttl \<and> ttl \<le> hours"
| "in_window t0 ttl e \<longleftrightarrow> True"

text \<open>The clean-up leaves the rows that are neither expired nor stale.\<close>

lemma map_get_Cons: "map_get (p # t) k = (if fst p = k then Some (snd p) else map_get t k)"
  by (cases p) (simp add: map_get_def)

lemma purge_batch_keeps:
  "(\<And>row. map_get t k = Some row \<Longrightarrow> now < expires_at row) \<Longrightarrow> map_get (snd (purge_batch now n t)) k = map_get t k"
  by (induction now n t rule: purge_batch.induct)
    (auto simp: map_get_Cons row_expired_def split: prod.splits if_splits)

lemma purgeStale_keeps:
  "(\<And>row. map_get t k = Some row \<Longrightarrow> now - ttl \<le> created_at row) \<Longrightarrow>
     map_get (snd (purgeStaleInProgressKeys ttl now t)) k = map_get t k"
  by (induction t) (auto simp: purgeStaleInProgressKeys_def map_get_Cons stale_row_def split: if_splits)

lemma map_get_delete_expired:
  "map_get (delete_expired now j t) k =
     (if k = j then (case map_get t k of None \<Rightarrow> None | Some row \<Rightarrow> if expires_at row \<le> now then None else Some row)
      else map_get t k)"
  by (auto simp: delete_expired_def split: option.splits)

lemma map_get_storeResponse:
  "map_get (storeResponse j status body t) k =
     (if k = j then map_option (\<lambda>row. row\<lparr>row_state := Completed, status_code := Some status, response_body := body\<rparr>) (map_get t k)
      else map_get t k)"
  by (auto simp: storeResponse_def split: option.splits)

lemma map_get_releaseKey: "map_get (releaseKey j t) k = (if k = j then None else map_get t k)"
  by (simp add: releaseKey_def map_get_delete)

lemmas table_lookups = map_get_delete_expired map_get_storeResponse map_get_releaseKey map_get_set

lemma list_update_split:
  "i < length xs \<Longrightarrow> \<exists>us vs. xs = us @ xs ! i # vs \<and> (\<forall>y. xs[i := y] = us @ y # vs)"
  by (metis id_take_nth_drop upd_conv_take_nth_drop)

lemma filter_singleton_mid:
  "filter P (us @ x # vs) = [y] \<Longrightarrow> P x \<Longrightarrow> y = x \<and> filter P us = [] \<and> filter P vs = []"
  by (auto simp: filter_eq_Cons_iff append_eq_Cons_conv)

text \<open>One request moves, the others stay.\<close>

lemma statement_persist_ok: "persist_ok ph \<Longrightarrow> persist_ok (fst (statement ttl now ok ph t))"
  by (cases ph) (auto split: option.splits)

lemma statement_unclaimed: "unclaimed_run k ph \<Longrightarrow> unclaimed_run k (fst (statement ttl now ok ph t))"
  by (induction k ph rule: unclaimed_run.induct) auto

lemma respond_persist_ok: "persist_ok ph \<Longrightarrow> persist_ok (respond status body ph)" "persist_ok ph \<Longrightarrow> persist_ok (respond_other ph)"
  by (induction status body ph rule: respond.induct; simp)+

lemma statement_row_ok:
  assumes "row_ok k t0 ttl (map_get t k) (us @ ph # vs)" and "t0 \<le> now" and "now < t0 + ttl" and "persist_ok ph"
    and "statement ttl now ok ph t = (ph1, t1)" and "\<not> unclaimed_run k ph1"
  shows "row_ok k t0 ttl (map_get t1 k) (us @ ph1 # vs)"
proof (cases ph)
  case (Deleting c)
  then show ?thesis using assms by (auto simp: row_ok_def table_lookups split: option.splits if_splits)
next
  case (Inserting c)
  then show ?thesis using assms
    by (auto simp: row_ok_def table_lookups row_of_def new_row_def split: option.splits if_splits)
next
  case (Selecting c)
  then show ?thesis using assms by (auto simp: row_ok_def split: option.splits if_splits)
next
  case (Persisting p c status body)
  show ?thesis
  proof (cases "fst c = k")
    case True
    with Persisting assms(4-6) have p: "p = Claimed" by (auto split: if_splits)
    then have h: "holds k ph" using Persisting True by simp
    then obtain row where r: "map_get t k = Some row" "t0 + ttl \<le> expires_at row" "t0 \<le> created_at row"
      "filter (holds k) (us @ ph # vs) = [ph]" "row_of k row ph"
      using assms(1) by (auto simp: row_ok_def filter_empty_conv append_eq_Cons_conv split: option.splits)
    have e: "filter (holds k) us = []" "filter (holds k) vs = []" using filter_singleton_mid [OF r(4) h] by auto
    obtain h where c: "c = (k, h)" using True by (cases c) auto
    have row: "request_hash row = h" "row_state row = In_progress"
      using r(5) Persisting c by (cases "row_state row"; auto simp: row_of_def)+
    consider (failed) "\<not> ok" | (stored) "ok" "success status" | (released) "ok" "\<not> success status" by blast
    then show ?thesis
    proof cases
      case failed
      then have "ph1 = Done p (Some c) (Handled status body) True" "t1 = t" using assms(5) Persisting by auto
      then show ?thesis using p c e r(1-3) row by (simp add: row_ok_def row_of_def)
    next
      case stored
      then have "ph1 = Done p (Some c) (Handled status body) True" "t1 = storeResponse k status body t" using assms(5) Persisting c by auto
      then show ?thesis using p c e r(1-3) row by (simp add: row_ok_def row_of_def map_get_storeResponse)
    next
      case released
      then have "ph1 = Done p (Some c) (Handled status body) False" "t1 = releaseKey k t" using assms(5) Persisting c by auto
      then show ?thesis using e by (simp add: row_ok_def map_get_releaseKey c)
    qed
  next
    case False
    then show ?thesis using Persisting assms(1,5) by (auto simp: row_ok_def table_lookups split: option.splits if_splits)
  qed
qed (use assms in auto)

lemma statement_replays_ok:
  assumes "row_ok k t0 ttl (map_get t k) (us @ ph # vs)" and "replays_ok k (us @ ph # vs)"
    and "statement ttl now ok ph t = (ph1, t1)"
  shows "replays_ok k (us @ ph1 # vs)"
proof (cases ph)
  case (Selecting c)
  have "Done Claimed (Some (k, h)) (Handled status body) True \<in> set (us @ ph1 # vs)"
    if new: "ph1 = Rejected (Some (k, h)) (Replayed status body)" for h status body
  proof -
    obtain row where c: "c = (k, h)" and row: "map_get t k = Some row" "replay c row = Replayed status body"
      using new assms(3) Selecting by (auto split: if_splits option.splits)
    then obtain ph2 where ph2: "filter (holds k) (us @ ph # vs) = [ph2]" "row_of k row ph2" using assms(1) by (auto simp: row_ok_def)
    have "ph2 \<in> set (filter (holds k) (us @ ph # vs))" using ph2(1) by simp
    moreover have "ph2 = Done Claimed (Some (k, h)) (Handled status body) True"
      using ph2(2) row(2) c by (cases "row_state row") (auto simp: row_of_def replay_def split: if_splits)
    ultimately show ?thesis using Selecting by auto
  qed
  then show ?thesis using assms(2,3) Selecting by (auto simp: replays_ok_def split: if_splits option.splits)
qed (use assms(2,3) in \<open>auto simp: replays_ok_def split: if_splits option.splits\<close>)

text \<open>An answer of the handler, or any move that keeps the claim of a request which has not finished.\<close>

lemma respond_row_ok:
  fixes ph1 :: "'b phase"
  assumes "row_ok k t0 ttl r (us @ Running p c # vs)" and "holds k ph1 = holds k (Running p c :: 'b phase)" and "claim_of ph1 = c"
  shows "row_ok k t0 ttl r (us @ ph1 # vs)"
proof (cases "holds k (Running p c :: 'b phase)")
  case True
  then obtain row where r: "r = Some row" "t0 + ttl \<le> expires_at row" "t0 \<le> created_at row"
    "filter (holds k) (us @ Running p c # vs) = [Running p c]" "row_of k row (Running p c)"
    using assms(1) by (auto simp: row_ok_def filter_empty_conv append_eq_Cons_conv split: option.splits)
  have e: "filter (holds k) us = []" "filter (holds k) vs = []" using filter_singleton_mid [OF r(4) True] by auto
  have "row_of k row ph1" using r(5) assms(3) by (auto simp: row_of_def)
  then show ?thesis using r(1-3) e assms(2) True by (simp add: row_ok_def)
next
  case False
  then show ?thesis using assms(1,2) by (simp add: row_ok_def split: option.splits)
qed

lemma respond_key_ok:
  fixes ph :: "'b phase"
  assumes "row_ok k t0 ttl r (us @ ph # vs)" and "replays_ok k (us @ ph # vs)"
    and "ph1 = respond status body ph \<or> ph1 = respond_other ph"
  shows "row_ok k t0 ttl r (us @ ph1 # vs) \<and> replays_ok k (us @ ph1 # vs)"
proof (cases ph)
  case (Running p c)
  have "holds k ph1 = holds k (Running p c :: 'b phase)" "claim_of ph1 = c"
    using assms(3) Running by (cases c; cases p; auto)+
  moreover have "replays_ok k (us @ ph1 # vs)" using assms(2,3) Running by (cases c) (auto simp: replays_ok_def split: if_splits)
  ultimately show ?thesis using respond_row_ok assms(1) Running by blast
qed (use assms in auto)

lemma respond_unclaimed:
  "unclaimed_run k ph \<Longrightarrow> unclaimed_run k (respond status body ph)" "unclaimed_run k ph \<Longrightarrow> unclaimed_run k (respond_other ph)"
  by (induction k ph rule: unclaimed_run.induct) auto

definition unclaimed :: "string \<Rightarrow> 'b idem_server \<Rightarrow> bool" where
  "unclaimed k s \<longleftrightarrow> (\<exists>ph \<in> set (requests s). unclaimed_run k ph)"

lemma admit_simps [simp]: "persist_ok (admit sha r)" "\<not> holds k (admit sha r)" "admit sha r \<noteq> Rejected (Some c) a"
    "Rejected (Some c) a \<noteq> admit sha r"
  by (auto simp: admit_def Let_def split: option.splits)

text \<open>What an event does: nothing, a new request, a statement or an answer of one request, a purge.\<close>

lemma update_request_cases:
  obtains (same) "update_request i f s = s"
  | (moved) us ph vs where "requests s = us @ ph # vs" "update_request i f s = s\<lparr>requests := us @ f ph # vs\<rparr>"
proof (cases "i < length (requests s)")
  case True
  then obtain us vs where u: "requests s = us @ requests s ! i # vs" "\<forall>y. (requests s)[i := y] = us @ y # vs"
    using list_update_split by blast
  then show ?thesis using moved [OF u(1)] True by (simp add: update_request_def)
qed (simp add: update_request_def same)

lemma serve_cases:
  obtains (same) "serve sha ttl e s = s"
  | (arrive) r where "serve sha ttl e s = s\<lparr>requests := requests s @ [admit sha r]\<rparr>"
  | (statement) us ph vs ph1 t1 i now ok where "e = Statement i now ok" "requests s = us @ ph # vs"
      "statement ttl now ok ph (table s) = (ph1, t1)" "serve sha ttl e s = \<lparr>table = t1, requests = us @ ph1 # vs\<rparr>"
  | (answer) us ph vs ph1 status body where "requests s = us @ ph # vs" "ph1 = respond status body ph \<or> ph1 = respond_other ph"
      "serve sha ttl e s = s\<lparr>requests := us @ ph1 # vs\<rparr>"
  | (batch) now n where "e = Purge_batch now n" "serve sha ttl e s = s\<lparr>table := snd (purge_batch now n (table s))\<rparr>"
  | (stale) hours now where "e = Purge_stale hours now"
      "serve sha ttl e s = s\<lparr>table := snd (purgeStaleInProgressKeys hours now (table s))\<rparr>"
proof (cases e)
  case (Statement i now ok)
  show ?thesis
  proof (cases "i < length (requests s)")
    case True
    then obtain us vs where u: "requests s = us @ requests s ! i # vs" "\<forall>y. (requests s)[i := y] = us @ y # vs"
      using list_update_split by blast
    obtain ph1 t1 where "statement ttl now ok (requests s ! i) (table s) = (ph1, t1)" by force
    then show ?thesis using statement [OF Statement u(1)] u(2) True Statement by simp
  qed (simp add: same Statement)
next
  case (Respond i status body)
  show ?thesis
  proof (cases rule: update_request_cases [of i "respond status body" s])
    case (moved us ph vs)
    then show ?thesis using answer [of us ph vs "respond status body ph" status body] Respond by simp
  qed (simp add: same Respond)
next
  case (Respond_other i)
  show ?thesis
  proof (cases rule: update_request_cases [of i respond_other s])
    case (moved us ph vs)
    then show ?thesis using answer [of us ph vs "respond_other ph"] Respond_other by simp
  qed (simp add: same Respond_other)
qed (use arrive batch stale in auto)

lemma serve_unclaimed: "unclaimed k s \<Longrightarrow> unclaimed k (serve sha ttl e s)"
proof (cases rule: serve_cases [of sha ttl e s])
  case (statement us ph vs ph1 t1 i now ok)
  assume "unclaimed k s"
  then show ?thesis using statement statement_unclaimed [of k ph ttl now ok "table s"] by (auto simp: unclaimed_def)
next
  case (answer us ph vs ph1 status body)
  assume "unclaimed k s"
  then show ?thesis using answer respond_unclaimed(1) [of k ph status body] respond_unclaimed(2) [of k ph] by (auto simp: unclaimed_def)
qed (auto simp: unclaimed_def)

definition all_persist_ok :: "'b idem_server \<Rightarrow> bool" where
  "all_persist_ok s \<longleftrightarrow> (\<forall>ph \<in> set (requests s). persist_ok ph)"

lemma serve_persist_ok: "all_persist_ok s \<Longrightarrow> all_persist_ok (serve sha ttl e s)"
proof (cases rule: serve_cases [of sha ttl e s])
  case (arrive r)
  assume "all_persist_ok s"
  then show ?thesis using arrive by (auto simp: all_persist_ok_def)
next
  case (statement us ph vs ph1 t1 i now ok)
  assume "all_persist_ok s"
  then show ?thesis using statement statement_persist_ok [of ph ttl now ok "table s"] by (auto simp: all_persist_ok_def)
next
  case (answer us ph vs ph1 status body)
  assume "all_persist_ok s"
  then show ?thesis using answer respond_persist_ok(1) [of ph status body] respond_persist_ok(2) [of ph] by (auto simp: all_persist_ok_def)
qed (auto simp: all_persist_ok_def)

lemma serve_key_ok:
  assumes "key_ok k t0 ttl s" and "all_persist_ok s" and "in_window t0 ttl e" and "\<not> unclaimed k (serve sha ttl e s)"
  shows "key_ok k t0 ttl (serve sha ttl e s)"
proof (cases rule: serve_cases [of sha ttl e s])
  case same
  then show ?thesis using assms(1) by simp
next
  case (arrive r)
  then show ?thesis using assms(1)
    by (auto simp: key_ok_def row_ok_def replays_ok_def split: option.splits)
next
  case (statement us ph vs ph1 t1 i now ok)
  have "row_ok k t0 ttl (map_get t1 k) (us @ ph1 # vs)" using assms statement
    by (intro statement_row_ok [of k t0 ttl "table s" us ph vs now ok ph1 t1]) (auto simp: key_ok_def all_persist_ok_def unclaimed_def)
  moreover have "replays_ok k (us @ ph1 # vs)" using assms(1) statement
    by (intro statement_replays_ok [of k t0 ttl "table s" us ph vs now ok ph1 t1]) (auto simp: key_ok_def)
  ultimately show ?thesis using statement(4) by (simp add: key_ok_def)
next
  case (answer us ph vs ph1 status body)
  then show ?thesis using assms(1) respond_key_ok [of k t0 ttl "map_get (table s) k" us ph vs ph1 status body] by (simp add: key_ok_def)
next
  case (batch now n)
  have "map_get (snd (purge_batch now n (table s))) k = map_get (table s) k"
    using assms(1,3) batch(1) by (intro purge_batch_keeps) (auto simp: key_ok_def row_ok_def)
  then show ?thesis using assms(1) batch(2) by (simp add: key_ok_def)
next
  case (stale hours now)
  have "map_get (snd (purgeStaleInProgressKeys hours now (table s))) k = map_get (table s) k"
    using assms(1,3) stale(1) by (intro purgeStale_keeps) (auto simp: key_ok_def row_ok_def)
  then show ?thesis using assms(1) stale(2) by (simp add: key_ok_def)
qed

lemma serve_all_snoc: "serve_all sha ttl (evs @ [e]) = serve sha ttl e (serve_all sha ttl evs)"
  by (simp add: serve_all_def)

lemma serve_all_key_ok:
  assumes "\<forall>e \<in> set evs. in_window t0 ttl e" and "\<not> unclaimed k (serve_all sha ttl evs)"
  shows "key_ok k t0 ttl (serve_all sha ttl evs) \<and> all_persist_ok (serve_all sha ttl evs)"
  using assms
proof (induction evs rule: rev_induct)
  case Nil
  then show ?case by (simp add: serve_all_def key_ok_def row_ok_def replays_ok_def all_persist_ok_def)
next
  case (snoc e evs)
  then have "\<not> unclaimed k (serve_all sha ttl evs)" using serve_unclaimed serve_all_snoc by metis
  then show ?case using snoc by (simp add: serve_all_snoc serve_key_ok serve_persist_ok)
qed

subsection \<open>Properties\<close>

text \<open>The handler runs for a key or has answered with success, and the requests let through without a claim.\<close>

fun executed :: "string \<Rightarrow> 'b phase \<Rightarrow> bool" where
  "executed k (Running p (Some c)) \<longleftrightarrow> fst c = k"
| "executed k (Persisting p c status body) \<longleftrightarrow> fst c = k \<and> success status"
| "executed k (Done p (Some c) (Handled status body) left) \<longleftrightarrow> fst c = k \<and> success status"
| "executed k ph \<longleftrightarrow> False"

fun bypassed :: "string \<Rightarrow> 'b phase \<Rightarrow> bool" where
  "bypassed k (Running p (Some c)) \<longleftrightarrow> p \<noteq> Claimed \<and> fst c = k"
| "bypassed k (Persisting p c status body) \<longleftrightarrow> p \<noteq> Claimed \<and> fst c = k"
| "bypassed k (Done p (Some c) a left) \<longleftrightarrow> p \<noteq> Claimed \<and> fst c = k"
| "bypassed k ph \<longleftrightarrow> False"

lemma unclaimed_bypassed: "unclaimed_run k ph \<Longrightarrow> bypassed k ph"
  by (induction k ph rule: unclaimed_run.induct) auto

lemma executed_holds: "executed k ph \<Longrightarrow> \<not> bypassed k ph \<Longrightarrow> persist_ok ph \<Longrightarrow> holds k ph"
  by (induction k ph rule: executed.induct) auto

lemma length_filter_mono: "(\<And>x. x \<in> set xs \<Longrightarrow> P x \<Longrightarrow> Q x) \<Longrightarrow> length (filter P xs) \<le> length (filter Q xs)"
  by (induction xs) (auto simp: le_SucI)

text \<open>
  C18. A key is executed at most once within its time to live: for every interleaving of requests, statements, answers and
  clean-up in which no request of the key was let through without a claim, at most one handler of the key is running
  or has answered with success.
\<close>

theorem idempotent_execution:
  assumes "\<forall>e \<in> set evs. in_window t0 ttl e" and "\<forall>ph \<in> set (requests (serve_all sha ttl evs)). \<not> bypassed k ph"
  shows "length (filter (executed k) (requests (serve_all sha ttl evs))) \<le> 1"
proof -
  let ?s = "serve_all sha ttl evs"
  have "\<not> unclaimed k ?s" using assms(2) unclaimed_bypassed by (auto simp: unclaimed_def)
  from serve_all_key_ok [OF assms(1) this] have ok: "key_ok k t0 ttl ?s" "all_persist_ok ?s" by auto
  have "length (filter (executed k) (requests ?s)) \<le> length (filter (holds k) (requests ?s))"
    using assms(2) ok(2) by (intro length_filter_mono) (auto simp: all_persist_ok_def intro: executed_holds)
  also have "\<dots> \<le> 1" using ok(1) by (auto simp: key_ok_def row_ok_def split: option.splits)
  finally show ?thesis .
qed

text \<open>
  C20. A replayed answer is the answer of the handler that executed the key, for the same request: status and body are those
  that a request with the same key and the same digest received from its handler. This holds in every run within the
  time to live of the keys in which no request with the key was let through without a claim (as the middleware does when
  the database fails): \<open>storeResponse\<close> updates by the key alone, so a request without a claim could overwrite the answer.
\<close>

theorem replay_is_original:
  assumes "\<forall>e \<in> set evs. in_window t0 ttl e" and "\<forall>ph \<in> set (requests (serve_all sha ttl evs)). \<not> bypassed k ph"
    and "Rejected (Some (k, h)) (Replayed status body) \<in> set (requests (serve_all sha ttl evs))"
  shows "Done Claimed (Some (k, h)) (Handled status body) True \<in> set (requests (serve_all sha ttl evs))"
proof -
  have "\<not> unclaimed k (serve_all sha ttl evs)" using assms(2) unclaimed_bypassed by (auto simp: unclaimed_def)
  from serve_all_key_ok [OF assms(1) this] show ?thesis using assms(3) by (auto simp: key_ok_def replays_ok_def)
qed

text \<open>A day of traffic: a request and its retries with one key.\<close>

definition payment :: http_request where
  "payment = \<lparr>req_method = ''POST'', req_url = ''/t'', req_body = ''{}'', idempotency_header = Some ''k''\<rparr>"

abbreviation day :: int where
  "day \<equiv> 86400000"

abbreviation body_hash :: "(string \<Rightarrow> string) \<Rightarrow> string" where
  "body_hash sha \<equiv> sha ''POST:/t:{}''"

definition retry_schedule :: "nat event list" where
  "retry_schedule = [Arrive payment, Statement 0 1 True, Statement 0 2 True, Respond 0 200 (Some 7), Statement 0 3 True,
     Arrive payment, Statement 1 4 True, Statement 1 5 True, Statement 1 6 True]"

definition race_schedule :: "nat event list" where
  "race_schedule = [Arrive payment, Statement 0 1 True, Statement 0 2 True,
     Arrive payment, Statement 1 3 True, Statement 1 4 True,
     Respond 0 500 None, Statement 0 5 True, Statement 1 6 True,
     Arrive payment, Statement 2 7 True, Statement 2 8 True,
     Respond 1 200 (Some 1), Statement 1 9 True, Respond 2 200 (Some 2), Statement 2 10 True]"

lemma payment_admitted: "admit sha payment = Deleting (''k'', body_hash sha)"
  by (simp add: admit_def payment_def MUTATING_METHODS_def MAX_KEY_LENGTH_def hashRequest_def trim_def is_space_def)

lemmas serve_eval = serve_all_def payment_admitted update_request_def delete_expired_def storeResponse_def releaseKey_def
  new_row_def success_def replay_def map_get_def map_set_def map_delete_def Let_def

lemma retry_schedule_result:
  "requests (serve_all sha day retry_schedule) =
     [Done Claimed (Some (''k'', body_hash sha)) (Handled 200 (Some 7)) True,
      Rejected (Some (''k'', body_hash sha)) (Replayed 200 (Some 7))]"
  by (simp add: retry_schedule_def serve_eval)

theorem idempotent_execution_witness:
  "length (filter (executed ''k'') (requests (serve_all id day retry_schedule))) \<le> 1 \<and>
   executed ''k'' (requests (serve_all id day retry_schedule) ! 0)"
proof -
  have "\<forall>e \<in> set retry_schedule. in_window 0 day e" by (simp add: retry_schedule_def)
  moreover have "\<forall>ph \<in> set (requests (serve_all id day retry_schedule)). \<not> bypassed ''k'' ph" by (simp add: retry_schedule_result)
  ultimately have "length (filter (executed ''k'') (requests (serve_all id day retry_schedule))) \<le> 1" by (rule idempotent_execution)
  then show ?thesis by (simp add: retry_schedule_result success_def)
qed

theorem replay_is_original_witness:
  "Rejected (Some (''k'', ''POST:/t:{}'')) (Replayed 200 (Some 7)) \<in> set (requests (serve_all id day retry_schedule)) \<and>
   Done Claimed (Some (''k'', ''POST:/t:{}'')) (Handled 200 (Some 7)) True \<in> set (requests (serve_all id day retry_schedule))"
proof -
  have "\<forall>e \<in> set retry_schedule. in_window 0 day e" by (simp add: retry_schedule_def)
  moreover have "\<forall>ph \<in> set (requests (serve_all id day retry_schedule)). \<not> bypassed ''k'' ph" by (simp add: retry_schedule_result)
  moreover have r: "Rejected (Some (''k'', ''POST:/t:{}'')) (Replayed 200 (Some 7)) \<in> set (requests (serve_all id day retry_schedule))"
    by (simp add: retry_schedule_result)
  ultimately show ?thesis using replay_is_original by blast
qed

text \<open>
  The claim has a gap: if the holder of a key fails and releases it between the insertion and the selection of a
  concurrent retry, the retry finds no row and runs its handler without a claim; the next retry claims the key, and
  two handlers answer with success, all within seconds.
\<close>

theorem released_row_race:
  "list_all (in_window 0 day) race_schedule \<and>
   filter (executed ''k'') (requests (serve_all sha day race_schedule)) =
     [Done Row_gone (Some (''k'', body_hash sha)) (Handled 200 (Some 1)) True,
      Done Claimed (Some (''k'', body_hash sha)) (Handled 200 (Some 2)) True]"
  by (simp add: race_schedule_def serve_eval)

text \<open>The clean-up in batches.\<close>

lemma purge_batch_result:
  "purge_batch now n t = (d, t1) \<Longrightarrow>
     d = min n (length (filter (row_expired now) t)) \<and>
     length (filter (row_expired now) t1) = length (filter (row_expired now) t) - d \<and>
     filter (\<lambda>p. \<not> row_expired now p) t1 = filter (\<lambda>p. \<not> row_expired now p) t"
  by (induction now n t arbitrary: d t1 rule: purge_batch.induct) (auto split: prod.splits if_splits)

text \<open>
  The loop of the clean-up job ends for every positive batch size: with one more round than there are expired rows it
  has removed exactly the expired rows and reports their number.
\<close>

theorem purge_terminates:
  assumes "0 < batch" and "length (filter (row_expired now) t) < fuel"
  shows "purgeExpiredIdempotencyKeys fuel now batch t =
    Some (length (filter (row_expired now) t), filter (\<lambda>p. \<not> row_expired now p) t)"
  using assms(2)
proof (induction fuel arbitrary: t)
  case (Suc fuel)
  let ?n = "length (filter (row_expired now) t)"
  obtain d t1 where b: "purge_batch now batch t = (d, t1)" by force
  note r = purge_batch_result [OF b]
  show ?case
  proof (cases "d = batch")
    case True
    then have "length (filter (row_expired now) t1) < fuel" using Suc.prems r assms(1) by auto
    from Suc.IH [OF this] show ?thesis using True b r by simp
  next
    case False
    then have "filter (row_expired now) t1 = []" using r by auto
    then have "filter (\<lambda>p. \<not> row_expired now p) t1 = t1" by (auto simp: filter_empty_conv filter_id_conv)
    then show ?thesis using False b r by auto
  qed
qed simp

theorem purge_terminates_witness:
  "purgeExpiredIdempotencyKeys 2 5 1 [(''k'', new_row 1 2 ''h'' :: nat idempotency_row)] = Some (1, [])"
  using purge_terminates [of 1 5 "[(''k'', new_row 1 2 ''h'' :: nat idempotency_row)]" 2] by (simp add: row_expired_def new_row_def)

text \<open>With a batch size of zero (\<open>IDEMPOTENCY_CLEANUP_BATCH_SIZE=0\<close>) every round deletes as many rows as asked, none, and the loop goes on.\<close>

lemma purge_zero_never_ends: "purgeExpiredIdempotencyKeys fuel now 0 t = None"
proof (induction fuel arbitrary: t)
  case (Suc fuel)
  obtain d t1 where b: "purge_batch now 0 t = (d, t1)" by force
  then show ?case using purge_batch_result [OF b] Suc by simp
qed simp

end
