(* ===== verification/Horizon_Pool.thy ===== *)
theory Horizon_Pool
  imports Js_Value "HOL-Library.Multiset"
begin

text \<open>
  \<open>src/src/stellar/horizonPool.ts\<close>: the pool of Horizon servers, its rotation and the failover of a request.

  A node of the pool is its index. A request asks the nodes of \<open>candidateOrder\<close> one after the other; the
  remote servers and the clock are a parameter, a function that answers a request on a node in a state
  of the world, and the time of the world. The candidates are fixed when a request starts, and every
  settled attempt is one update of the pool (\<open>settle_attempt\<close>), so that requests of several callers may
  interleave between the attempts. Metrics and log lines are not modelled. The numbers of the
  configuration come from \<open>parseInt\<close> and may be \<open>NaN\<close>.
\<close>

subsection \<open>Errors\<close>

record horizon_error =
  err_object :: bool
  err_status :: "js_num option"
  err_code :: "string option"
  err_name :: "string option"
  err_message :: "string option"

definition NETWORK_CODES :: "string list" where
  "NETWORK_CODES = [''ECONNREFUSED'', ''ECONNRESET'', ''ETIMEDOUT'', ''ENOTFOUND'', ''EAI_AGAIN'', ''EPIPE'', ''ECONNABORTED'']"

definition network_message :: "string \<Rightarrow> bool" where
  "network_message s = (\<exists>pat \<in> set [''timeout'', ''network'', ''socket hang up'']. contains pat (toLowerCase s))"

definition isFailoverEligible :: "horizon_error \<Rightarrow> bool" where
  "isFailoverEligible e =
     (if \<not> err_object e then False
      else case err_status e of
        Some status \<Rightarrow> jeq status (Fin 429) \<or> jge status (Fin 500)
      | None \<Rightarrow>
          (case err_code e of None \<Rightarrow> False | Some code \<Rightarrow> code \<in> set NETWORK_CODES) \<or>
          err_name e = Some ''NetworkError'' \<or>
          (case err_message e of None \<Rightarrow> False | Some msg \<Rightarrow> network_message msg))"

definition classifyError :: "horizon_error \<Rightarrow> string" where
  "classifyError e =
     (if \<not> err_object e then ''unknown''
      else if (case err_status e of Some s \<Rightarrow> jeq s (Fin 429) | None \<Rightarrow> False) then ''rate_limited''
      else if (case err_status e of Some s \<Rightarrow> jge s (Fin 500) | None \<Rightarrow> False) then ''server_error''
      else if truthy_string (err_code e) then toLowerCase (the (err_code e))
      else ''network_error'')"

subsection \<open>The pool\<close>

record horizon_node =
  node_url :: string
  consecutiveFailures :: nat
  downUntil :: js_num

record horizon_config =
  maxConsecutiveFailures :: js_num
  cooldownMs :: js_num

record horizon_pool =
  nodes :: "horizon_node list"
  cursor :: nat

definition new_pool :: "string list \<Rightarrow> horizon_pool option" where
  "new_pool urls =
     (if urls = [] then None
      else Some \<lparr>nodes = map (\<lambda>u. \<lparr>node_url = u, consecutiveFailures = 0, downUntil = Fin 0\<rparr>) urls, cursor = 0\<rparr>)"

definition rotated :: "horizon_pool \<Rightarrow> nat list" where
  "rotated p = map (\<lambda>i. (cursor p + i) mod length (nodes p)) [0..<length (nodes p)]"

abbreviation time_num :: "int \<Rightarrow> js_num" where
  "time_num t \<equiv> Fin (of_int t)"

definition healthy_at :: "int \<Rightarrow> horizon_pool \<Rightarrow> nat \<Rightarrow> bool" where
  "healthy_at now p i = jle (downUntil (nodes p ! i)) (time_num now)"

definition down_at :: "int \<Rightarrow> horizon_pool \<Rightarrow> nat \<Rightarrow> bool" where
  "down_at now p i = jgt (downUntil (nodes p ! i)) (time_num now)"

definition candidateOrder :: "int \<Rightarrow> horizon_pool \<Rightarrow> nat list" where
  "candidateOrder now p =
     (let healthy = filter (healthy_at now p) (rotated p); down = filter (down_at now p) (rotated p)
      in if healthy \<noteq> [] then healthy @ down else rotated p)"

definition markSuccess :: "nat \<Rightarrow> horizon_pool \<Rightarrow> horizon_pool" where
  "markSuccess i p = p\<lparr>nodes := (nodes p)[i := (nodes p ! i)\<lparr>consecutiveFailures := 0, downUntil := Fin 0\<rparr>]\<rparr>"

definition markFailure :: "horizon_config \<Rightarrow> int \<Rightarrow> nat \<Rightarrow> horizon_pool \<Rightarrow> horizon_pool" where
  "markFailure cfg now i p =
     (let n = (nodes p ! i)\<lparr>consecutiveFailures := Suc (consecutiveFailures (nodes p ! i))\<rparr>;
          n1 = (if jge (Fin (of_nat (consecutiveFailures n))) (maxConsecutiveFailures cfg)
                then n\<lparr>downUntil := jadd (time_num now) (cooldownMs cfg)\<rparr> else n)
      in p\<lparr>nodes := (nodes p)[i := n1]\<rparr>)"

text \<open>One settled attempt on node \<open>i\<close>: the request is over, or goes on with the next candidate.\<close>

datatype 'a verdict = Over "horizon_error + 'a" | Next horizon_error

definition settle_attempt ::
  "horizon_config \<Rightarrow> int \<Rightarrow> nat \<Rightarrow> horizon_error + 'a \<Rightarrow> horizon_pool \<Rightarrow> 'a verdict \<times> horizon_pool" where
  "settle_attempt cfg now i outcome p =
     (case outcome of
        Inr x \<Rightarrow> (Over (Inr x), (markSuccess i p)\<lparr>cursor := Suc i mod length (nodes p)\<rparr>)
      | Inl e \<Rightarrow> if \<not> isFailoverEligible e then (Over (Inl e), p) else (Next e, markFailure cfg now i p))"

record ('w, 'a) remote =
  world_time :: "'w \<Rightarrow> int"
  ask :: "nat \<Rightarrow> 'w \<Rightarrow> (horizon_error + 'a) \<times> 'w"

text \<open>The loop of \<open>execute\<close> over its candidates; \<open>None\<close> stands for the undefined \<open>lastError\<close>.\<close>

fun try_candidates ::
  "horizon_config \<Rightarrow> ('w, 'a) remote \<Rightarrow> nat list \<Rightarrow> horizon_error option \<Rightarrow> horizon_pool \<Rightarrow> 'w \<Rightarrow>
     (horizon_error option + 'a) \<times> horizon_pool \<times> 'w" where
  "try_candidates cfg rem [] lastError p w = (Inl lastError, p, w)"
| "try_candidates cfg rem (i # is) lastError p w =
     (let (outcome, w1) = ask rem i w in
      case settle_attempt cfg (world_time rem w1) i outcome p of
        (Over (Inr x), p1) \<Rightarrow> (Inr x, p1, w1)
      | (Over (Inl e), p1) \<Rightarrow> (Inl (Some e), p1, w1)
      | (Next e, p1) \<Rightarrow> try_candidates cfg rem is (Some e) p1 w1)"

definition execute ::
  "horizon_config \<Rightarrow> ('w, 'a) remote \<Rightarrow> horizon_pool \<Rightarrow> 'w \<Rightarrow> (horizon_error option + 'a) \<times> horizon_pool \<times> 'w" where
  "execute cfg rem p w = try_candidates cfg rem (candidateOrder (world_time rem w) p) None p w"

definition getActiveServer :: "int \<Rightarrow> horizon_pool \<Rightarrow> nat" where
  "getActiveServer now p = hd (candidateOrder now p)"

subsection \<open>The proxies\<close>

definition DIRECT_METHODS :: "string list" where
  "DIRECT_METHODS = [''loadAccount'', ''submitTransaction'', ''submitAsyncTransaction'', ''fetchBaseFee'', ''fetchTimebounds'',
     ''feeStats'', ''root'']"

definition BUILDER_METHODS :: "string list" where
  "BUILDER_METHODS = [''accounts'', ''transactions'', ''operations'', ''payments'', ''effects'', ''ledgers'', ''offers'', ''orderbook'',
     ''trades'', ''assets'', ''claimableBalances'', ''liquidityPools'', ''tradeAggregation'', ''strictReceivePaths'',
     ''strictSendPaths'', ''paths'']"

type_synonym 'v call = "string \<times> 'v list"

datatype 'v action = Execute "'v call list" string | Builder "'v call list" | Stream "'v call list" "'v list" | Delegate string

text \<open>A property of the server proxy called with arguments, and of the proxy of a recorded chain.\<close>

definition server_proxy :: "string \<Rightarrow> 'v list \<Rightarrow> 'v action" where
  "server_proxy prop args =
     (if prop \<in> set DIRECT_METHODS then Execute [(prop, args)] prop
      else if prop \<in> set BUILDER_METHODS then Builder [(prop, args)]
      else Delegate prop)"

definition builder_proxy :: "'v call list \<Rightarrow> string \<Rightarrow> 'v list \<Rightarrow> 'v action" where
  "builder_proxy chain prop args =
     (if prop = ''call'' then Execute (chain @ [(''call'', args)]) (fst (hd chain) @ ''.call'')
      else if prop = ''stream'' then Stream chain args
      else Builder (chain @ [(prop, args)]))"

subsection \<open>The order of the candidates\<close>

definition pool_ok :: "horizon_pool \<Rightarrow> bool" where
  "pool_ok p \<longleftrightarrow> nodes p \<noteq> [] \<and> cursor p < length (nodes p) \<and> (\<forall>n \<in> set (nodes p). downUntil n \<noteq> NaN)"

lemma rotated_rotate: "rotated p = rotate (cursor p) [0..<length (nodes p)]"
proof (rule nth_equalityI)
  fix i
  assume "i < length (rotated p)"
  then have "i < length (nodes p)" "(cursor p + i) mod length (nodes p) < length (nodes p)"
    by (auto simp: rotated_def intro!: mod_less_divisor)
  then show "rotated p ! i = rotate (cursor p) [0..<length (nodes p)] ! i" by (simp add: rotated_def nth_rotate)
qed (simp add: rotated_def)

lemma rotated_simps [simp]: "distinct (rotated p)" "set (rotated p) = {..<length (nodes p)}" "length (rotated p) = length (nodes p)"
  by (auto simp: rotated_rotate)

lemma down_iff_not_healthy:
  assumes "pool_ok p" and "i < length (nodes p)"
  shows "down_at now p i \<longleftrightarrow> \<not> healthy_at now p i"
proof -
  have "downUntil (nodes p ! i) \<noteq> NaN" using assms by (simp add: pool_ok_def)
  then show ?thesis by (cases "downUntil (nodes p ! i)") (auto simp: healthy_at_def down_at_def)
qed

lemma candidateOrder_split:
  assumes "pool_ok p"
  shows "candidateOrder now p = filter (healthy_at now p) (rotated p) @ filter (\<lambda>i. \<not> healthy_at now p i) (rotated p)"
proof -
  have "filter (down_at now p) (rotated p) = filter (\<lambda>i. \<not> healthy_at now p i) (rotated p)"
    using down_iff_not_healthy [OF assms] by (intro filter_cong) auto
  moreover have "filter (\<lambda>i. \<not> healthy_at now p i) (rotated p) = rotated p" if "filter (healthy_at now p) (rotated p) = []"
    using that by (auto simp: filter_empty_conv filter_id_conv)
  ultimately show ?thesis by (auto simp: candidateOrder_def Let_def)
qed

text \<open>Every node is a candidate exactly once.\<close>

lemma candidateOrder_perm: "pool_ok p \<Longrightarrow> mset (candidateOrder now p) = mset [0..<length (nodes p)]"
proof -
  assume ok: "pool_ok p"
  have "mset (candidateOrder now p) = mset (rotated p)"
    by (simp add: candidateOrder_split [OF ok] flip: multiset_partition)
  also have "\<dots> = mset [0..<length (nodes p)]" by (rule set_eq_iff_mset_eq_distinct [THEN iffD1]) (auto simp: lessThan_atLeast0)
  finally show ?thesis .
qed

lemma candidateOrder_set: "pool_ok p \<Longrightarrow> set (candidateOrder now p) = {..<length (nodes p)}"
  using candidateOrder_perm [THEN mset_eq_setD] by (auto simp: lessThan_atLeast0)

subsection \<open>Every settled attempt keeps the pool well formed\<close>

lemma nodes_length [simp]:
  "length (nodes (markSuccess i p)) = length (nodes p)" "length (nodes (markFailure cfg now i p)) = length (nodes p)"
  "cursor (markFailure cfg now i p) = cursor p"
  by (simp_all add: markSuccess_def markFailure_def Let_def)

lemma pool_ok_update:
  assumes "pool_ok p" and "downUntil n \<noteq> NaN" and "c < length (nodes p)"
  shows "pool_ok \<lparr>nodes = (nodes p)[i := n], cursor = c\<rparr>"
  using assms set_update_subset_insert [of "nodes p" i n] by (auto simp: pool_ok_def)

lemma settle_attempt_pool_ok:
  assumes "pool_ok p" and "i < length (nodes p)" and "cooldownMs cfg \<noteq> NaN"
  shows "pool_ok (snd (settle_attempt cfg now i outcome p))"
proof -
  have "jadd (time_num now) (cooldownMs cfg) \<noteq> NaN" using assms(3) by (cases "cooldownMs cfg") (auto simp: of_exact_not_NaN)
  moreover have "downUntil (nodes p ! i) \<noteq> NaN" using assms(1,2) by (simp add: pool_ok_def)
  ultimately obtain n where n: "markFailure cfg now i p = \<lparr>nodes = (nodes p)[i := n], cursor = cursor p\<rparr>" "downUntil n \<noteq> NaN"
    by (cases p) (auto simp: markFailure_def Let_def split: if_splits)
  have "pool_ok (markFailure cfg now i p)" unfolding n(1) using assms(1) n(2) by (intro pool_ok_update) (auto simp: pool_ok_def)
  moreover have "pool_ok ((markSuccess i p)\<lparr>cursor := Suc i mod length (nodes p)\<rparr>)"
    using assms(1) pool_ok_update [of p "(nodes p ! i)\<lparr>consecutiveFailures := 0, downUntil := Fin 0\<rparr>" "Suc i mod length (nodes p)" i]
    by (cases p) (auto simp: markSuccess_def pool_ok_def)
  ultimately show ?thesis using assms(1) by (auto simp: settle_attempt_def split: sum.splits)
qed

subsection \<open>Failover\<close>

text \<open>The answer of a request, when each node answers in its own way whenever it is asked.\<close>

definition gives_way :: "horizon_error + 'a \<Rightarrow> bool" where
  "gives_way r = (case r of Inl e \<Rightarrow> isFailoverEligible e | Inr x \<Rightarrow> False)"

lemma try_candidates_first:
  assumes "\<And>i w. fst (ask rem i w) = out i"
  shows "fst (try_candidates cfg rem is lastError p w) =
    (case find (\<lambda>i. \<not> gives_way (out i)) is of
       Some i \<Rightarrow> map_sum Some id (out i)
     | None \<Rightarrow> Inl (if is = [] then lastError else Some (projl (out (last is)))))"
proof (induction "is" arbitrary: lastError p w)
  case (Cons i "is")
  obtain w1 where "ask rem i w = (out i, w1)" using assms [of i w] by (metis prod.collapse)
  then show ?case using Cons.IH [of "Some e" for e]
    by (cases "out i") (simp_all add: settle_attempt_def gives_way_def Cons.IH cong: option.case_cong)
qed simp

text \<open>
  One working node is enough: if some node of the pool answers the request and every other node fails with an error
  that is eligible for failover, the request is answered, whatever the cursor, the failures so far and the
  cooldowns are, and the answer is that of the first working node in the order of the candidates.
\<close>

theorem one_node_suffices:
  assumes "pool_ok p" and "\<And>i w. fst (ask rem i w) = out i"
    and "j < length (nodes p)" and "out j = Inr x"
    and "\<And>i e. i < length (nodes p) \<Longrightarrow> out i = Inl e \<Longrightarrow> isFailoverEligible e"
  shows "\<exists>k y. find (\<lambda>i. \<exists>y. out i = Inr y) (candidateOrder (world_time rem w) p) = Some k \<and> out k = Inr y \<and>
    fst (execute cfg rem p w) = Inr y"
proof -
  let ?c = "candidateOrder (world_time rem w) p"
  have c: "set ?c = {..<length (nodes p)}" by (rule candidateOrder_set [OF assms(1)])
  have same: "find (\<lambda>i. \<not> gives_way (out i)) ?c = find (\<lambda>i. \<exists>y. out i = Inr y) ?c"
    using assms(5) c by (intro find_cong) (auto simp: gives_way_def split: sum.splits)
  have "find (\<lambda>i. \<exists>y. out i = Inr y) ?c \<noteq> None" using assms(3,4) c by (auto simp: find_None_iff)
  then obtain k where k: "find (\<lambda>i. \<exists>y. out i = Inr y) ?c = Some k" by auto
  then obtain y where "out k = Inr y" by (auto simp: find_Some_iff)
  then show ?thesis using k same by (simp add: execute_def try_candidates_first [OF assms(2)])
qed

text \<open>A remote side where some nodes answer with their index and the others refuse the connection.\<close>

definition refused :: horizon_error where
  "refused = \<lparr>err_object = True, err_status = None, err_code = Some ''ECONNREFUSED'', err_name = None, err_message = None\<rparr>"

definition partial_remote :: "nat list \<Rightarrow> (int, nat) remote" where
  "partial_remote up = \<lparr>world_time = (\<lambda>w. w), ask = (\<lambda>i w. (if i \<in> set up then Inr i else Inl refused, w + 1))\<rparr>"

definition cfg3 :: horizon_config where
  "cfg3 = \<lparr>maxConsecutiveFailures = Fin 3, cooldownMs = Fin 30000\<rparr>"

definition fresh_pool :: "nat \<Rightarrow> horizon_pool" where
  "fresh_pool n = \<lparr>nodes = replicate n \<lparr>node_url = ''u'', consecutiveFailures = 0, downUntil = Fin 0\<rparr>, cursor = 0\<rparr>"

lemma refused_eligible: "isFailoverEligible refused"
  by (simp add: isFailoverEligible_def refused_def NETWORK_CODES_def)

theorem one_node_suffices_witness:
  "fst (execute cfg3 (partial_remote [2]) (fresh_pool 3) 5) = Inr 2"
proof -
  have "pool_ok (fresh_pool 3)" by (simp add: pool_ok_def fresh_pool_def)
  then have "\<exists>k y. find (\<lambda>i. \<exists>y. (if i = 2 then Inr i else Inl refused) = Inr y)
        (candidateOrder (world_time (partial_remote [2]) 5) (fresh_pool 3)) = Some k \<and>
      (if k = 2 then Inr k else Inl refused) = Inr y \<and> fst (execute cfg3 (partial_remote [2]) (fresh_pool 3) 5) = Inr y"
    by (rule one_node_suffices [where j = 2 and x = 2])
      (auto simp: partial_remote_def fresh_pool_def refused_eligible split: if_splits)
  then show ?thesis by (auto split: if_splits)
qed

subsection \<open>Rotation\<close>

text \<open>The pool while nothing has failed: only the cursor moves.\<close>

definition all_up :: "horizon_pool \<Rightarrow> bool" where
  "all_up p \<longleftrightarrow> nodes p \<noteq> [] \<and> cursor p < length (nodes p) \<and> (\<forall>n \<in> set (nodes p). consecutiveFailures n = 0 \<and> downUntil n = Fin 0)"

lemma all_up_order:
  assumes "all_up p" and "0 \<le> now"
  shows "candidateOrder now p = rotated p" and "rotated p = cursor p # tl (rotated p)"
proof -
  have "healthy_at now p i" if "i \<in> set (rotated p)" for i
    using assms that by (auto simp: all_up_def healthy_at_def)
  then have "filter (healthy_at now p) (rotated p) = rotated p" by (simp add: filter_id_conv)
  moreover have "pool_ok p" using assms(1) by (auto simp: all_up_def pool_ok_def)
  ultimately show "candidateOrder now p = rotated p" by (simp add: candidateOrder_split filter_empty_conv filter_id_conv)
  show "rotated p = cursor p # tl (rotated p)" using assms(1) by (cases "nodes p") (auto simp: rotated_def all_up_def upt_conv_Cons simp del: upt_Suc)
qed

lemma markSuccess_all_up: "all_up p \<Longrightarrow> i < length (nodes p) \<Longrightarrow> markSuccess i p = p"
  by (cases p) (auto simp: markSuccess_def all_up_def list_update_same_conv intro!: list_update_id [THEN trans] horizon_node.equality)

lemma execute_all_up:
  assumes "all_up p" and "\<And>i w. fst (ask rem i w) = Inr i" and "\<And>w. 0 \<le> world_time rem w"
  shows "\<exists>w1. execute cfg rem p w = (Inr (cursor p), p\<lparr>cursor := Suc (cursor p) mod length (nodes p)\<rparr>, w1)"
proof -
  have "candidateOrder (world_time rem w) p = cursor p # tl (rotated p)" using all_up_order [OF assms(1)] assms(3) by metis
  moreover obtain w1 where "ask rem (cursor p) w = (Inr (cursor p), w1)" using assms(2) [of "cursor p" w] by (metis prod.collapse)
  moreover have "markSuccess (cursor p) p = p" using assms(1) by (intro markSuccess_all_up) (auto simp: all_up_def)
  ultimately show ?thesis by (simp add: execute_def settle_attempt_def)
qed

fun in_turn :: "nat \<Rightarrow> horizon_config \<Rightarrow> ('w, 'a) remote \<Rightarrow> horizon_pool \<Rightarrow> 'w \<Rightarrow> (horizon_error option + 'a) list" where
  "in_turn 0 cfg rem p w = []"
| "in_turn (Suc m) cfg rem p w = (let (r, p1, w1) = execute cfg rem p w in r # in_turn m cfg rem p1 w1)"

text \<open>
  Requests rotate: as long as nothing fails, the requests that follow each other are served by the nodes in their
  configured order, starting at the cursor, each node in its turn.
\<close>

theorem round_robin:
  assumes "all_up p" and "\<And>i w. fst (ask rem i w) = Inr i" and "\<And>w. 0 \<le> world_time rem w"
  shows "in_turn m cfg rem p w = map (\<lambda>k. Inr ((cursor p + k) mod length (nodes p))) [0..<m]"
  using assms(1)
proof (induction m arbitrary: p w)
  case (Suc m)
  obtain w1 where e: "execute cfg rem p w = (Inr (cursor p), p\<lparr>cursor := Suc (cursor p) mod length (nodes p)\<rparr>, w1)"
    using execute_all_up [OF Suc.prems assms(2,3)] by blast
  have n: "0 < length (nodes p)" "cursor p < length (nodes p)" using Suc.prems by (auto simp: all_up_def)
  then have "all_up (p\<lparr>cursor := Suc (cursor p) mod length (nodes p)\<rparr>)" using Suc.prems by (simp add: all_up_def)
  from Suc.IH [OF this] have "in_turn (Suc m) cfg rem p w =
      Inr (cursor p) # map (\<lambda>k. Inr ((Suc (cursor p) mod length (nodes p) + k) mod length (nodes p))) [0..<m]"
    by (simp add: e)
  also have "\<dots> = map (\<lambda>k. Inr ((cursor p + k) mod length (nodes p))) (0 # map Suc [0..<m])" using n by (simp add: mod_add_left_eq)
  also have "0 # map Suc [0..<m] = [0..<Suc m]" by (simp add: map_Suc_upt upt_conv_Cons del: upt_Suc)
  finally show ?case .
qed simp

theorem round_robin_witness:
  "in_turn 4 cfg3 (\<lparr>world_time = (\<lambda>w. 7), ask = (\<lambda>i w. (Inr i, w))\<rparr> :: (unit, nat) remote) (fresh_pool 3) () =
     [Inr 0, Inr 1, Inr 2, Inr 0]"
  using round_robin [of "fresh_pool 3" "\<lparr>world_time = (\<lambda>w. 7), ask = (\<lambda>i w. (Inr i, w))\<rparr> :: (unit, nat) remote" 4 cfg3 "()"]
  by (simp add: all_up_def fresh_pool_def upt_rec)

text \<open>
  A node that reaches the limit of consecutive failures is out of the rotation for the cooldown: at every time before the
  cooldown ends, as long as another node is healthy, all healthy nodes are asked before it.
\<close>

theorem failed_node_quarantined:
  assumes "pool_ok p" and "i < length (nodes p)" and "cooldownMs cfg = time_num c" and "maxConsecutiveFailures cfg = time_num m"
    and "m \<le> int (Suc (consecutiveFailures (nodes p ! i)))"
    and "\<bar>now + c\<bar> \<le> 2 ^ 53" and "t < now + c"
    and "j < length (nodes p)" and "healthy_at t (markFailure cfg now i p) j"
  shows "\<exists>us vs. candidateOrder t (markFailure cfg now i p) = us @ vs \<and> j \<in> set us \<and> i \<in> set vs \<and> i \<notin> set us \<and>
    (\<forall>k \<in> set us. healthy_at t (markFailure cfg now i p) k)"
proof -
  let ?p = "markFailure cfg now i p"
  have "of_exact (of_int (now + c)) = time_num (now + c)" using assms(6) by (rule of_exact_int)
  then have add: "jadd (time_num now) (cooldownMs cfg) = time_num (now + c)" by (simp add: assms(3))
  have "(of_int m :: rat) \<le> of_int (int (Suc (consecutiveFailures (nodes p ! i))))" using assms(5) by (rule of_int_le_iff [THEN iffD2])
  then have "downUntil (nodes ?p ! i) = time_num (now + c)" using assms(2,4) add by (simp add: markFailure_def Let_def)
  then have down: "\<not> healthy_at t ?p i" using assms(7) by (simp add: healthy_at_def flip: of_int_add)
  have "pool_ok ?p"
    using settle_attempt_pool_ok [OF assms(1,2), of cfg now "Inl refused :: horizon_error + unit"] assms(3) by (simp add: settle_attempt_def refused_eligible)
  from candidateOrder_split [OF this] show ?thesis using assms(2,8,9) down by fastforce
qed

theorem failed_node_quarantined_witness:
  "\<exists>us vs. candidateOrder 20000 (markFailure \<lparr>maxConsecutiveFailures = Fin 1, cooldownMs = Fin 30000\<rparr> 1000 0 (fresh_pool 2)) = us @ vs \<and>
     1 \<in> set us \<and> 0 \<in> set vs \<and> 0 \<notin> set us \<and>
     (\<forall>k \<in> set us. healthy_at 20000 (markFailure \<lparr>maxConsecutiveFailures = Fin 1, cooldownMs = Fin 30000\<rparr> 1000 0 (fresh_pool 2)) k)"
  by (rule failed_node_quarantined [where c = 30000 and m = 1])
    (simp_all add: pool_ok_def fresh_pool_def healthy_at_def markFailure_def Let_def)

end
