(* ===== verification/Sliding_Window.thy ===== *)
theory Sliding_Window
  imports Window_Limit Js_Value
begin

text \<open>
  \<open>src/src/middleware/slidingWindowRateLimit.ts\<close> with \<open>src/src/config/rateLimitConfig.ts\<close> and
  \<open>src/src/utils/rateLimitHeaders.ts\<close>: the rate limit of the HTTP routes, a script on a sorted set of Redis.

  The Redis server is a parameter: a record of what the commands of the script answer and leave, at a time in
  milliseconds. What the limiter relies on is \<open>zset_laws\<close>, the documented behaviour of
  \<open>ZREMRANGEBYSCORE\<close>, \<open>ZCARD\<close>, \<open>ZRANGE\<close>, \<open>ZADD\<close> and \<open>EXPIRE\<close> in terms of the members of the live keys with
  their scores. The script runs atomically at one time, that of the client. \<open>mem_zset\<close> is a server that
  has these laws. \<open>Math.random\<close> is an argument: the member of a call.
\<close>

subsection \<open>Sorted sets\<close>

record 'r zset_server =
  zset_open :: "'r \<Rightarrow> bool"
  zset_error :: "'r \<Rightarrow> bool"
  zremrangebyscore :: "int \<Rightarrow> string \<Rightarrow> int \<Rightarrow> int \<Rightarrow> 'r \<Rightarrow> 'r"
  zcard :: "int \<Rightarrow> string \<Rightarrow> 'r \<Rightarrow> nat"
  zrange_first :: "int \<Rightarrow> string \<Rightarrow> 'r \<Rightarrow> int option"
  zadd :: "int \<Rightarrow> string \<Rightarrow> int \<Rightarrow> string \<Rightarrow> 'r \<Rightarrow> 'r"
  zexpire :: "int \<Rightarrow> string \<Rightarrow> int \<Rightarrow> 'r \<Rightarrow> 'r"

type_synonym members = "(string \<times> int) list"

definition zrem_law :: "'r zset_server \<Rightarrow> (int \<Rightarrow> 'r \<Rightarrow> string \<Rightarrow> members) \<Rightarrow> bool" where
  "zrem_law srv view \<longleftrightarrow> (\<forall>now key lo hi r.
     view now (zremrangebyscore srv now key lo hi r) key = filter (\<lambda>p. \<not> (lo \<le> snd p \<and> snd p \<le> hi)) (view now r key) \<and>
     (\<forall>t k. k \<noteq> key \<longrightarrow> view t (zremrangebyscore srv now key lo hi r) k = view t r k))"

definition zread_law :: "'r zset_server \<Rightarrow> (int \<Rightarrow> 'r \<Rightarrow> string \<Rightarrow> members) \<Rightarrow> bool" where
  "zread_law srv view \<longleftrightarrow> (\<forall>now key r. zcard srv now key r = length (view now r key) \<and>
     zrange_first srv now key r = (if view now r key = [] then None else Some (Min (snd ` set (view now r key)))))"

definition zadd_law :: "'r zset_server \<Rightarrow> (int \<Rightarrow> 'r \<Rightarrow> string \<Rightarrow> members) \<Rightarrow> bool" where
  "zadd_law srv view \<longleftrightarrow> (\<forall>now key score m r.
     view now (zadd srv now key score m r) key = (m, score) # filter (\<lambda>p. fst p \<noteq> m) (view now r key) \<and>
     (\<forall>t k. k \<noteq> key \<longrightarrow> view t (zadd srv now key score m r) k = view t r k))"

definition zexpire_law :: "'r zset_server \<Rightarrow> (int \<Rightarrow> 'r \<Rightarrow> string \<Rightarrow> members) \<Rightarrow> bool" where
  "zexpire_law srv view \<longleftrightarrow> (\<forall>now key secs r t.
     (now \<le> t \<longrightarrow> view t (zexpire srv now key secs r) key = (if now + secs * 1000 \<le> t then [] else view now r key)) \<and>
     (\<forall>k. k \<noteq> key \<longrightarrow> view t (zexpire srv now key secs r) k = view t r k))"

definition zset_laws :: "'r zset_server \<Rightarrow> (int \<Rightarrow> 'r \<Rightarrow> string \<Rightarrow> members) \<Rightarrow> bool" where
  "zset_laws srv view \<longleftrightarrow> zrem_law srv view \<and> zread_law srv view \<and> zadd_law srv view \<and> zexpire_law srv view"

subsection \<open>Configuration\<close>

datatype route_group = Auth | Payment | Readonly

record rate_limit_entry =
  entry_max :: int
  entry_windowMs :: int

definition defaults :: "route_group \<Rightarrow> rate_limit_entry" where
  "defaults g = (case g of Auth \<Rightarrow> \<lparr>entry_max = 5, entry_windowMs = 60000\<rparr> | Payment \<Rightarrow> \<lparr>entry_max = 60, entry_windowMs = 60000\<rparr>
     | Readonly \<Rightarrow> \<lparr>entry_max = 300, entry_windowMs = 60000\<rparr>)"

definition overrides :: "string \<Rightarrow> (route_group \<Rightarrow> rate_limit_entry) option" where
  "overrides env =
     (if env = ''test'' then Some (case_route_group \<lparr>entry_max = 5, entry_windowMs = 60000\<rparr> \<lparr>entry_max = 60, entry_windowMs = 60000\<rparr>
        \<lparr>entry_max = 300, entry_windowMs = 60000\<rparr>)
      else if env = ''development'' then Some (case_route_group \<lparr>entry_max = 50, entry_windowMs = 60000\<rparr>
        \<lparr>entry_max = 600, entry_windowMs = 60000\<rparr> \<lparr>entry_max = 3000, entry_windowMs = 60000\<rparr>)
      else None)"

definition buildConfig :: "string option \<Rightarrow> route_group \<Rightarrow> rate_limit_entry" where
  "buildConfig nodeEnv =
     (case overrides (case nodeEnv of None \<Rightarrow> ''production'' | Some e \<Rightarrow> e) of None \<Rightarrow> defaults | Some f \<Rightarrow> f)"

subsection \<open>The limiter\<close>

definition SLIDING_WINDOW_SCRIPT ::
  "'r zset_server \<Rightarrow> int \<Rightarrow> string \<Rightarrow> int \<Rightarrow> int \<Rightarrow> string \<Rightarrow> int \<Rightarrow> 'r \<Rightarrow> (bool \<times> int \<times> int) \<times> 'r" where
  "SLIDING_WINDOW_SCRIPT srv now key windowStart maxRequests member ttlSeconds r =
     (let r1 = zremrangebyscore srv now key 0 windowStart r; count = int (zcard srv now key r1)
      in if count \<ge> maxRequests
         then ((False, count, (case zrange_first srv now key r1 of None \<Rightarrow> now | Some score \<Rightarrow> score)),
               zexpire srv now key ttlSeconds r1)
         else ((True, count + 1, now), zexpire srv now key ttlSeconds (zadd srv now key now member r1)))"

record window_result =
  win_allowed :: bool
  win_remaining :: int
  win_resetMs :: int
  win_limit :: int

definition ceil_seconds :: "int \<Rightarrow> int" where
  "ceil_seconds ms = - ((- ms) div 1000)"

definition checkSlidingWindow ::
  "'r zset_server \<Rightarrow> string \<Rightarrow> rate_limit_entry \<Rightarrow> string \<Rightarrow> int \<Rightarrow> 'r \<Rightarrow> window_result option \<times> 'r" where
  "checkSlidingWindow srv key entry member now r =
     (let windowStart = now - entry_windowMs entry; ttlSeconds = ceil_seconds (entry_windowMs entry) + 10
      in if \<not> zset_open srv r
         then (Some \<lparr>win_allowed = True, win_remaining = entry_max entry, win_resetMs = now + entry_windowMs entry,
                win_limit = entry_max entry\<rparr>, r)
         else if zset_error srv r then (None, r)
         else let ((allowed, count, oldest), r1) =
                    SLIDING_WINDOW_SCRIPT srv now key windowStart (entry_max entry) member ttlSeconds r
              in (Some \<lparr>win_allowed = allowed, win_remaining = (if allowed then max 0 (entry_max entry - count) else 0),
                   win_resetMs = oldest + entry_windowMs entry, win_limit = entry_max entry\<rparr>, r1))"

record limited_request =
  header_api_key :: "string option"
  jwt_api_key :: "string option"
  forwarded_for :: "string option"
  req_ip :: "string option"

definition resolveIdentifier :: "limited_request \<Rightarrow> string" where
  "resolveIdentifier q =
     (if truthy_string (header_api_key q) then ''apikey:'' @ the (header_api_key q)
      else if truthy_string (jwt_api_key q) then ''apikey:'' @ the (jwt_api_key q)
      else ''ip:'' @ (case forwarded_for q of
             Some f \<Rightarrow> trim (hd (split CHR '','' f))
           | None \<Rightarrow> (case req_ip q of Some ip \<Rightarrow> ip | None \<Rightarrow> ''unknown'')))"

definition group_name :: "route_group \<Rightarrow> string" where
  "group_name g = (case g of Auth \<Rightarrow> ''auth'' | Payment \<Rightarrow> ''payment'' | Readonly \<Rightarrow> ''readonly'')"

definition limit_key :: "route_group \<Rightarrow> limited_request \<Rightarrow> string" where
  "limit_key g q = ''rl:'' @ group_name g @ '':'' @ resolveIdentifier q"

text \<open>The answer of the middleware: on to the route, or status 429 with the seconds to wait.\<close>

datatype limit_answer = Pass | Too_many int

record limit_headers =
  hdr_limit :: int
  hdr_remaining :: int
  hdr_reset :: int

definition slidingWindowRateLimit ::
  "'r zset_server \<Rightarrow> route_group \<Rightarrow> rate_limit_entry \<Rightarrow> limited_request \<Rightarrow> string \<Rightarrow> int \<Rightarrow> int \<Rightarrow> 'r \<Rightarrow>
     (limit_answer \<times> limit_headers option) \<times> 'r" where
  "slidingWindowRateLimit srv g entry q member now later r =
     (case checkSlidingWindow srv (limit_key g q) entry member now r of
        (None, r1) \<Rightarrow> ((Pass, None), r1)
      | (Some res, r1) \<Rightarrow>
          let resetEpochSeconds = ceil_seconds (win_resetMs res);
              headers = \<lparr>hdr_limit = win_limit res, hdr_remaining = win_remaining res, hdr_reset = resetEpochSeconds\<rparr>
          in if \<not> win_allowed res then ((Too_many (max 1 (resetEpochSeconds - later div 1000)), Some headers), r1)
             else ((Pass, Some headers), r1))"

subsection \<open>The contract of the window\<close>

definition window_step :: "'r zset_server \<Rightarrow> rate_limit_entry \<Rightarrow> string \<Rightarrow> string \<Rightarrow> int \<Rightarrow> 'r \<Rightarrow> bool \<times> 'r" where
  "window_step srv entry key member now r =
     (case checkSlidingWindow srv key entry member now r of (res, r1) \<Rightarrow> (case res of None \<Rightarrow> True | Some x \<Rightarrow> win_allowed x, r1))"

definition counted :: "int \<Rightarrow> int \<Rightarrow> members \<Rightarrow> members" where
  "counted w now ms = filter (\<lambda>p. now - w < snd p) ms"

definition window_live :: "(int \<Rightarrow> 'r \<Rightarrow> string \<Rightarrow> members) \<Rightarrow> int \<Rightarrow> int \<Rightarrow> 'r \<Rightarrow> string \<Rightarrow> int list" where
  "window_live view w now r key = map snd (counted w now (view now r key))"

definition window_fine ::
  "'r zset_server \<Rightarrow> (int \<Rightarrow> 'r \<Rightarrow> string \<Rightarrow> members) \<Rightarrow> string \<Rightarrow> string \<Rightarrow> int \<Rightarrow> 'r \<Rightarrow> bool" where
  "window_fine srv view key member now r \<longleftrightarrow>
     0 \<le> now \<and> zset_open srv r \<and> \<not> zset_error srv r \<and> member \<notin> fst ` set (view now r key)"

text \<open>At every later time a key has the members it has now, as far as they count, and no score lies in the future.\<close>

definition window_inv :: "(int \<Rightarrow> 'r \<Rightarrow> string \<Rightarrow> members) \<Rightarrow> int \<Rightarrow> int \<Rightarrow> 'r \<Rightarrow> bool" where
  "window_inv view w t r \<longleftrightarrow> (\<forall>u \<ge> t. \<forall>key. counted w u (view u r key) = counted w u (view t r key) \<and>
     (\<forall>p \<in> set (view u r key). 0 \<le> snd p \<and> snd p \<le> t))"

lemma window_invD:
  assumes "window_inv view w t r" and "t \<le> u"
  shows "counted w u (view u r key) = counted w u (view t r key)" and "p \<in> set (view u r key) \<Longrightarrow> 0 \<le> snd p \<and> snd p \<le> t"
  using assms unfolding window_inv_def by blast+

lemma counted_counted: "t \<le> u \<Longrightarrow> counted w u (counted w t ms) = counted w u ms"
  by (auto simp: counted_def filter_filter intro!: filter_cong)

lemma map_snd_counted: "map snd (counted w u ms) = filter (\<lambda>x. u - w < x) (map snd ms)"
  by (simp add: counted_def filter_map comp_def)

lemma ceil_seconds_ge: "ms \<le> ceil_seconds ms * 1000"
  by (simp add: ceil_seconds_def)

lemma zset_lawsD:
  assumes "zset_laws srv view"
  shows "view now (zremrangebyscore srv now key lo hi r) key = filter (\<lambda>p. \<not> (lo \<le> snd p \<and> snd p \<le> hi)) (view now r key)"
    and "k \<noteq> key \<Longrightarrow> view t (zremrangebyscore srv now key lo hi r) k = view t r k"
    and "zcard srv now key r = length (view now r key)"
    and "zrange_first srv now key r = (if view now r key = [] then None else Some (Min (snd ` set (view now r key))))"
    and "view now (zadd srv now key score m r) key = (m, score) # filter (\<lambda>p. fst p \<noteq> m) (view now r key)"
    and "k \<noteq> key \<Longrightarrow> view t (zadd srv now key score m r) k = view t r k"
    and "now \<le> t \<Longrightarrow> view t (zexpire srv now key secs r) key = (if now + secs * 1000 \<le> t then [] else view now r key)"
    and "k \<noteq> key \<Longrightarrow> view t (zexpire srv now key secs r) k = view t r k"
proof -
  have l: "zrem_law srv view" "zread_law srv view" "zadd_law srv view" "zexpire_law srv view" using assms by (simp_all add: zset_laws_def)
  show "view now (zremrangebyscore srv now key lo hi r) key = filter (\<lambda>p. \<not> (lo \<le> snd p \<and> snd p \<le> hi)) (view now r key)"
    "k \<noteq> key \<Longrightarrow> view t (zremrangebyscore srv now key lo hi r) k = view t r k" using l(1) by (simp_all add: zrem_law_def)
  show "zcard srv now key r = length (view now r key)"
    "zrange_first srv now key r = (if view now r key = [] then None else Some (Min (snd ` set (view now r key))))"
    using l(2) by (simp_all add: zread_law_def)
  show "view now (zadd srv now key score m r) key = (m, score) # filter (\<lambda>p. fst p \<noteq> m) (view now r key)"
    "k \<noteq> key \<Longrightarrow> view t (zadd srv now key score m r) k = view t r k" using l(3) by (simp_all add: zadd_law_def)
  show "now \<le> t \<Longrightarrow> view t (zexpire srv now key secs r) key = (if now + secs * 1000 \<le> t then [] else view now r key)"
    "k \<noteq> key \<Longrightarrow> view t (zexpire srv now key secs r) k = view t r k" using l(4) by (simp_all add: zexpire_law_def)
qed

text \<open>What one run of the script leaves for its key at any later time, and for the other keys.\<close>

lemma script_view:
  assumes "zset_laws srv view" and "window_inv view w now r" and "0 < w"
    and "SLIDING_WINDOW_SCRIPT srv now key (now - w) m member (ceil_seconds w + 10) r = ((a, c, old), r1)"
    and "member \<notin> fst ` set (view now r key)"
  shows "a \<longleftrightarrow> int (length (counted w now (view now r key))) < m"
    and "now \<le> u \<Longrightarrow> view u r1 key = (if now + (ceil_seconds w + 10) * 1000 \<le> u then []
      else (if a then [(member, now)] else []) @ counted w now (view now r key))"
    and "k \<noteq> key \<Longrightarrow> view u r1 k = view u r k"
proof -
  note laws = zset_lawsD [OF assms(1)]
  let ?r = "zremrangebyscore srv now key 0 (now - w) r" and ?l = "counted w now (view now r key)"
  have "\<forall>p \<in> set (view now r key). 0 \<le> snd p" using assms(2) unfolding window_inv_def by blast
  then have keep: "view now ?r key = ?l" unfolding laws(1) counted_def by (intro filter_cong) auto
  have fresh: "filter (\<lambda>p. fst p \<noteq> member) ?l = ?l" unfolding filter_id_conv
  proof (intro ballI notI)
    fix p
    assume "p \<in> set ?l" "fst p = member"
    then show False using assms(5) by (auto simp: counted_def)
  qed
  show a: "a \<longleftrightarrow> int (length ?l) < m"
    using assms(4) by (auto simp: SLIDING_WINDOW_SCRIPT_def Let_def laws(3) keep split: if_splits)
  have r1: "r1 = zexpire srv now key (ceil_seconds w + 10) (if a then zadd srv now key now member ?r else ?r)"
    using assms(4) by (auto simp: SLIDING_WINDOW_SCRIPT_def Let_def split: if_splits)
  show "now \<le> u \<Longrightarrow> view u r1 key = (if now + (ceil_seconds w + 10) * 1000 \<le> u then [] else (if a then [(member, now)] else []) @ ?l)"
    by (simp add: r1 laws(7) laws(5) keep fresh)
  show "k \<noteq> key \<Longrightarrow> view u r1 k = view u r k"
    by (simp add: r1 laws(2,6,8))
qed

lemma window_step_script:
  assumes "window_fine srv view key member now r"
  shows "\<exists>a c old r1. SLIDING_WINDOW_SCRIPT srv now key (now - entry_windowMs entry) (entry_max entry) member
      (ceil_seconds (entry_windowMs entry) + 10) r = ((a, c, old), r1) \<and> window_step srv entry key member now r = (a, r1)"
  using assms
  by (cases "SLIDING_WINDOW_SCRIPT srv now key (now - entry_windowMs entry) (entry_max entry) member
      (ceil_seconds (entry_windowMs entry) + 10) r")
    (auto simp: window_step_def checkSlidingWindow_def window_fine_def Let_def)

locale redis_window =
  fixes srv :: "'r zset_server"
    and view :: "int \<Rightarrow> 'r \<Rightarrow> string \<Rightarrow> members"
    and entry :: rate_limit_entry
  assumes laws: "zset_laws srv view"
    and entry_window: "0 < entry_windowMs entry"
begin

abbreviation w :: int where
  "w \<equiv> entry_windowMs entry"

lemma step_view:
  assumes "window_inv view w now r" and "window_fine srv view key member now r"
  shows "fst (window_step srv entry key member now r) \<longleftrightarrow> int (length (counted w now (view now r key))) < entry_max entry"
    and "now \<le> u \<Longrightarrow> view u (snd (window_step srv entry key member now r)) key =
      (if now + (ceil_seconds w + 10) * 1000 \<le> u then []
       else (if fst (window_step srv entry key member now r) then [(member, now)] else []) @ counted w now (view now r key))"
    and "k \<noteq> key \<Longrightarrow> view u (snd (window_step srv entry key member now r)) k = view u r k"
proof -
  from window_step_script [OF assms(2), of entry] obtain a c old r1 where
    s: "SLIDING_WINDOW_SCRIPT srv now key (now - w) (entry_max entry) member (ceil_seconds w + 10) r = ((a, c, old), r1)"
    "window_step srv entry key member now r = (a, r1)" by blast
  have "member \<notin> fst ` set (view now r key)" using assms(2) by (simp add: window_fine_def)
  note v = script_view [OF laws assms(1) entry_window s(1) this]
  show "fst (window_step srv entry key member now r) \<longleftrightarrow> int (length (counted w now (view now r key))) < entry_max entry"
    using v(1) s(2) by simp
  show "now \<le> u \<Longrightarrow> view u (snd (window_step srv entry key member now r)) key =
      (if now + (ceil_seconds w + 10) * 1000 \<le> u then []
       else (if fst (window_step srv entry key member now r) then [(member, now)] else []) @ counted w now (view now r key))"
    using v(2) s(2) by simp
  show "k \<noteq> key \<Longrightarrow> view u (snd (window_step srv entry key member now r)) k = view u r k" using v(3) s(2) by simp
qed

lemma ttl_covers_window: "w < (ceil_seconds w + 10) * 1000"
  using ceil_seconds_ge [of w] by simp

lemma inv_step:
  assumes inv: "window_inv view w now r" and fine: "window_fine srv view key member now r"
  shows "window_inv view w now (snd (window_step srv entry key member now r))"
  unfolding window_inv_def
proof (intro allI impI conjI ballI)
  let ?r = "snd (window_step srv entry key member now r)"
  note sv = step_view [OF inv fine]
  fix u k
  assume u: "now \<le> u"
  have scores: "0 \<le> snd p \<and> snd p \<le> now" if "p \<in> set (view v ?r k)" "now \<le> v" for p v
  proof (cases "k = key")
    case True
    have "\<forall>p \<in> set (view now r key). 0 \<le> snd p \<and> snd p \<le> now" using window_invD(2) [OF inv] by blast
    then show ?thesis using that True sv(2) [of v] fine by (auto simp: counted_def window_fine_def split: if_splits)
  next
    case False
    then show ?thesis using that sv(3) window_invD(2) [OF inv that(2)] by auto
  qed
  show "counted w u (view u ?r k) = counted w u (view now ?r k)"
  proof (cases "k = key \<and> now + (ceil_seconds w + 10) * 1000 \<le> u")
    case True
    then have "\<forall>p \<in> set (view now ?r k). snd p \<le> u - w" using scores [of _ now] ttl_covers_window by fastforce
    then have "counted w u (view now ?r k) = []" by (auto simp: counted_def filter_empty_conv)
    then show ?thesis using True sv(2) [OF u] by (simp add: counted_def)
  next
    case False
    have now: "\<not> now + (ceil_seconds w + 10) * 1000 \<le> now" using ttl_covers_window entry_window by linarith
    show ?thesis
    proof (cases "k = key")
      case True
      then show ?thesis using False now sv(2) [OF u] sv(2) [of now] by simp
    next
      case False
      then show ?thesis using window_invD(1) [OF inv u] by (simp add: sv(3))
    qed
  qed
  fix p
  assume p: "p \<in> set (view u ?r k)"
  show "0 \<le> snd p" "snd p \<le> now" using scores [OF p u] by auto
qed

lemma live_step:
  assumes inv: "window_inv view w now r" and fine: "window_fine srv view key member now r"
  shows "mset (window_live view w now (snd (window_step srv entry key member now r)) k) =
    mset (window_live view w now r k) + (if k = key \<and> fst (window_step srv entry key member now r) then {#now#} else {#})"
proof (cases "k = key")
  case True
  have "\<not> now + (ceil_seconds w + 10) * 1000 \<le> now" using ttl_covers_window entry_window by linarith
  then show ?thesis using True step_view(2) [OF inv fine, of now] entry_window
    by (auto simp: window_live_def counted_counted) (simp_all add: counted_def)
next
  case False
  then show ?thesis using step_view(3) [OF inv fine] by (simp add: window_live_def)
qed

end

sublocale redis_window \<subseteq> window_guard "window_step srv entry" "window_live view w" "window_fine srv view" "window_inv view w"
  "entry_max entry" w
proof
  show "0 < w" by (rule entry_window)
next
  fix t u r
  assume i: "window_inv view w t r" "t \<le> u"
  have "counted w v (view v r k) = counted w v (view u r k)" if "u \<le> v" for v k
  proof -
    have "counted w v (view v r k) = counted w v (view t r k)" using i that by (intro window_invD(1)) auto
    also have "\<dots> = counted w v (counted w u (view t r k))" using that by (simp add: counted_counted)
    also have "counted w u (view t r k) = counted w u (view u r k)" using window_invD(1) [OF i] by simp
    also have "counted w v (counted w u (view u r k)) = counted w v (view u r k)" using that by (simp add: counted_counted)
    finally show ?thesis .
  qed
  moreover have "0 \<le> snd p \<and> snd p \<le> u" if "u \<le> v" "p \<in> set (view v r k)" for v k p
    using window_invD(2) [OF i(1), of v p k] that i(2) by auto
  ultimately show "window_inv view w u r" unfolding window_inv_def by blast
next
  fix t u r k
  assume i: "window_inv view w t r" "t \<le> u"
  then have "counted w u (view u r k) = counted w u (counted w t (view t r k))"
    using window_invD(1) [OF i] by (simp add: counted_counted)
  then have "window_live view w u r k = filter (\<lambda>x. u - w < x) (window_live view w t r k)"
    unfolding window_live_def by (simp only: map_snd_counted)
  then show "mset (window_live view w u r k) = filter_mset (\<lambda>x. u - w < x) (mset (window_live view w t r k))" by simp
next
  fix now r key member k
  assume i: "window_inv view w now r" "window_fine srv view key member now r"
  show "window_inv view w now (snd (window_step srv entry key member now r))"
    "mset (window_live view w now (snd (window_step srv entry key member now r)) k) =
      mset (window_live view w now r k) + (if k = key \<and> fst (window_step srv entry key member now r) then {#now#} else {#})"
    "fst (window_step srv entry key member now r) \<Longrightarrow> int (length (window_live view w now r key)) < entry_max entry"
    using inv_step [OF i] live_step [OF i] step_view(1) [OF i] by (auto simp: window_live_def)
qed

subsection \<open>A server with these laws\<close>

type_synonym mem_zset = "string \<Rightarrow> members \<times> int option"

definition mem_members :: "int \<Rightarrow> mem_zset \<Rightarrow> string \<Rightarrow> members" where
  "mem_members now m key = (case snd (m key) of None \<Rightarrow> fst (m key) | Some e \<Rightarrow> if e \<le> now then [] else fst (m key))"

definition mem_expiry :: "int \<Rightarrow> mem_zset \<Rightarrow> string \<Rightarrow> int option" where
  "mem_expiry now m key = (case snd (m key) of None \<Rightarrow> None | Some e \<Rightarrow> if e \<le> now then None else Some e)"

definition mem_zset :: "mem_zset zset_server" where
  "mem_zset = \<lparr>zset_open = (\<lambda>m. True), zset_error = (\<lambda>m. False),
     zremrangebyscore = (\<lambda>now key lo hi m. m(key := (filter (\<lambda>p. \<not> (lo \<le> snd p \<and> snd p \<le> hi)) (mem_members now m key), mem_expiry now m key))),
     zcard = (\<lambda>now key m. length (mem_members now m key)),
     zrange_first = (\<lambda>now key m. if mem_members now m key = [] then None else Some (Min (snd ` set (mem_members now m key)))),
     zadd = (\<lambda>now key score mb m. m(key := ((mb, score) # filter (\<lambda>p. fst p \<noteq> mb) (mem_members now m key), mem_expiry now m key))),
     zexpire = (\<lambda>now key secs m. m(key := (mem_members now m key, Some (now + secs * 1000))))\<rparr>"

lemma mem_zset_laws: "zset_laws mem_zset mem_members"
  unfolding zset_laws_def
proof (intro conjI)
  show "zrem_law mem_zset mem_members" by (simp add: zrem_law_def mem_zset_def mem_members_def mem_expiry_def split: option.splits)
  show "zread_law mem_zset mem_members" by (simp add: zread_law_def mem_zset_def)
  show "zadd_law mem_zset mem_members" by (simp add: zadd_law_def mem_zset_def mem_members_def mem_expiry_def split: option.splits)
  show "zexpire_law mem_zset mem_members" by (simp add: zexpire_law_def mem_zset_def mem_members_def split: option.splits)
qed

interpretation auth_limit: redis_window mem_zset mem_members "defaults Auth"
  by unfold_locales (simp_all add: mem_zset_laws defaults_def)

subsection \<open>Properties\<close>

text \<open>The calls that the limiter admits, one after the other, and that the members of the calls differ.\<close>

fun admitted_calls :: "'r zset_server \<Rightarrow> rate_limit_entry \<Rightarrow> (string \<times> string \<times> int) list \<Rightarrow> 'r \<Rightarrow> (string \<times> int) list" where
  "admitted_calls srv entry [] r = []"
| "admitted_calls srv entry ((key, member, now) # calls) r =
     (if fst (window_step srv entry key member now r) then [(key, now)] else []) @
     admitted_calls srv entry calls (snd (window_step srv entry key member now r))"

fun calls_fine ::
  "'r zset_server \<Rightarrow> (int \<Rightarrow> 'r \<Rightarrow> string \<Rightarrow> members) \<Rightarrow> rate_limit_entry \<Rightarrow> (string \<times> string \<times> int) list \<Rightarrow> 'r \<Rightarrow> bool" where
  "calls_fine srv view entry [] r \<longleftrightarrow> True"
| "calls_fine srv view entry ((key, member, now) # calls) r \<longleftrightarrow>
     window_fine srv view key member now r \<and> calls_fine srv view entry calls (snd (window_step srv entry key member now r))"

context redis_window
begin

lemma run_admitted: "fst (run_guard calls r) = admitted_calls srv entry calls r"
  by (induction calls arbitrary: r) (auto simp: Let_def case_prod_unfold)

lemma fine_calls: "fine_run calls r = calls_fine srv view entry calls r"
  by (induction calls arbitrary: r) auto

lemma route_bound:
  assumes "\<And>t key. view t r key = []" and "sorted (map (\<lambda>c. snd (snd c)) calls)" and "calls_fine srv view entry calls r"
  shows "int (length (filter (\<lambda>x. t - w < x \<and> x \<le> t) (times_of key (admitted_calls srv entry calls r)))) \<le> max 0 (entry_max entry)"
proof -
  have "window_inv view w t r" "window_live view w t r key = []" for t key
    using assms(1) by (simp_all add: window_inv_def window_live_def counted_def)
  from window_bound [OF assms(2) _ this, of t key] assms(3) show ?thesis by (simp add: run_admitted fine_calls)
qed

end

text \<open>
  The rate limit of the routes holds in every window: with Redis reachable and a fresh member for every call, for calls
  at non-decreasing times, at most \<open>max\<close> calls of one key are let through in any window of \<open>windowMs\<close>, at any
  position in time; the expiry of the key never forgets a call that still counts.
\<close>

theorem route_window_limit:
  assumes "zset_laws srv view" and "0 < entry_windowMs entry" and "\<And>t key. view t r key = []"
    and "sorted (map (\<lambda>c. snd (snd c)) calls)" and "calls_fine srv view entry calls r"
  shows "int (length (filter (\<lambda>x. t - entry_windowMs entry < x \<and> x \<le> t) (times_of key (admitted_calls srv entry calls r))))
    \<le> max 0 (entry_max entry)"
  by (rule redis_window.route_bound [OF redis_window.intro [OF assms(1,2)] assms(3-5)])

definition two_calls :: "(string \<times> string \<times> int) list" where
  "two_calls = [(''rl:auth:ip:x'', ''1:a'', 1), (''rl:auth:ip:x'', ''2:b'', 2)]"

abbreviation one_per_minute :: rate_limit_entry where
  "one_per_minute \<equiv> \<lparr>entry_max = 1, entry_windowMs = 60000\<rparr>"

lemmas window_eval = window_step_def checkSlidingWindow_def SLIDING_WINDOW_SCRIPT_def mem_zset_def mem_members_def mem_expiry_def
  ceil_seconds_def Let_def

theorem route_window_limit_witness:
  "int (length (filter (\<lambda>x. 5 - 60000 < x \<and> x \<le> 5)
      (times_of ''rl:auth:ip:x'' (admitted_calls mem_zset one_per_minute two_calls (\<lambda>k. ([], None)))))) \<le> 1 \<and>
   fst (window_step mem_zset one_per_minute ''rl:auth:ip:x'' ''1:a'' 1 (\<lambda>k. ([], None)))"
proof -
  have "calls_fine mem_zset mem_members one_per_minute two_calls (\<lambda>k. ([], None))"
    by (simp add: two_calls_def window_fine_def window_eval)
  moreover have "sorted (map (\<lambda>c. snd (snd c)) two_calls)" by (simp add: two_calls_def)
  moreover have "mem_members t (\<lambda>k. ([], None)) key = []" for t key by (simp add: mem_members_def)
  ultimately have "int (length (filter (\<lambda>x. 5 - entry_windowMs one_per_minute < x \<and> x \<le> 5)
      (times_of ''rl:auth:ip:x'' (admitted_calls mem_zset one_per_minute two_calls (\<lambda>k. ([], None)))))) \<le> max 0 (entry_max one_per_minute)"
    by (intro route_window_limit [OF mem_zset_laws]) auto
  then show ?thesis by (simp add: window_eval)
qed

text \<open>
  A client that chooses its own \<open>x-api-key\<close> header chooses the key that is counted: the identifier is the header, and
  requests with different headers never share a limit, although nothing has verified the header at that point.
\<close>

lemma header_chooses_key:
  assumes "a \<noteq> b" and "a \<noteq> []" and "b \<noteq> []"
  shows "limit_key g (q\<lparr>header_api_key := Some a\<rparr>) \<noteq> limit_key g (q\<lparr>header_api_key := Some b\<rparr>)"
  using assms by (simp add: limit_key_def resolveIdentifier_def)

end
