(* ===== verification/Multisig.thy ===== *)
theory Multisig
  imports Js_Value "HOL-Library.Multiset"
begin

text \<open>
  \<open>src/src/services/multisigValidator.ts\<close>: the thresholds of a Stellar account with several signers, the
  pre-flight check and the weight of a set of signatures.

  Weights and thresholds are the integers that Horizon reports; the account that \<open>loadAccount\<close> returns is an
  argument. Messages are constructors with the numbers they quote.
\<close>

record signer_config =
  publicKey :: string
  weight :: int

record thresholds =
  low :: int
  medium :: int
  high :: int

datatype multisig_error =
  NoWeight
| MaxExceedsTotal int int
| LowExceedsTotal int int
| MediumExceedsTotal int int
| HighExceedsTotal int int
| DuplicateKeys "string list"
| MasterBelowLow int int

datatype multisig_warning = MasterWeightZero | LowAboveMedium | MediumAboveHigh

record multisig_validation =
  ms_valid :: bool
  ms_errors :: "multisig_error list"
  ms_warnings :: "multisig_warning list"
  ms_totalWeight :: int
  ms_thresholds :: thresholds

definition weight_sum :: "signer_config list \<Rightarrow> int" where
  "weight_sum ss = sum_list (map weight ss)"

definition maxThreshold :: "thresholds \<Rightarrow> int" where
  "maxThreshold t = max (low t) (max (medium t) (high t))"

text \<open>\<open>keys.filter((key, idx, arr) => arr.indexOf(key) !== idx)\<close>: the keys that occurred before.\<close>

fun later_occurrences :: "string list \<Rightarrow> string list \<Rightarrow> string list" where
  "later_occurrences seen [] = []"
| "later_occurrences seen (k # ks) = (if k \<in> set seen then [k] else []) @ later_occurrences (k # seen) ks"

definition validateMultisigThresholds :: "int \<Rightarrow> signer_config list \<Rightarrow> thresholds \<Rightarrow> multisig_validation" where
  "validateMultisigThresholds masterWeight signers t =
     (let total_w = masterWeight + weight_sum signers; m = maxThreshold t; dups = later_occurrences [] (map publicKey signers);
          errs = (if total_w \<le> 0 then [NoWeight] else []) @
            (if m > total_w then [MaxExceedsTotal m total_w] else []) @
            (if low t > total_w then [LowExceedsTotal (low t) total_w] else []) @
            (if medium t > total_w then [MediumExceedsTotal (medium t) total_w] else []) @
            (if high t > total_w then [HighExceedsTotal (high t) total_w] else []) @
            (if dups \<noteq> [] then [DuplicateKeys dups] else []) @
            (if signers = [] \<and> masterWeight < low t then [MasterBelowLow masterWeight (low t)] else []);
          warns = (if masterWeight \<le> 0 then [MasterWeightZero] else []) @
            (if low t > medium t then [LowAboveMedium] else []) @ (if medium t > high t then [MediumAboveHigh] else [])
      in \<lparr>ms_valid = (errs = []), ms_errors = errs, ms_warnings = warns, ms_totalWeight = total_w, ms_thresholds = t\<rparr>)"

record horizon_signer =
  signer_type :: string
  signer_key :: string
  signer_weight :: int

record horizon_account =
  master_weight :: "int option"
  account_signers :: "horizon_signer list option"

record preflight_result =
  canSign :: bool
  currentWeight :: int
  requiredWeight :: int
  missingWeight :: int
  signerBreakdown :: "(signer_config \<times> bool) list"

definition current_signers :: "string \<Rightarrow> int \<Rightarrow> horizon_signer list option \<Rightarrow> signer_config list" where
  "current_signers accountId masterWeight ss =
     (if masterWeight > 0 then [\<lparr>publicKey = accountId, weight = masterWeight\<rparr>] else []) @
     (case ss of None \<Rightarrow> [] | Some xs \<Rightarrow>
        map (\<lambda>s. \<lparr>publicKey = signer_key s, weight = signer_weight s\<rparr>)
          (filter (\<lambda>s. signer_type s = ''ed25519_public_key'' \<and> signer_key s \<noteq> accountId) xs))"

definition preflightMultisigCheck ::
  "string \<Rightarrow> thresholds \<Rightarrow> signer_config list option \<Rightarrow> horizon_account \<Rightarrow> preflight_result" where
  "preflightMultisigCheck accountId desired desiredSigners account =
     (let masterWeight = (case master_weight account of None \<Rightarrow> 1 | Some m \<Rightarrow> m);
          signersToUse = (case desiredSigners of Some ss \<Rightarrow> ss | None \<Rightarrow> current_signers accountId masterWeight (account_signers account));
          total_w = masterWeight + weight_sum (filter (\<lambda>s. publicKey s \<noteq> accountId) signersToUse);
          required = maxThreshold desired
      in \<lparr>canSign = (total_w \<ge> required), currentWeight = total_w, requiredWeight = required,
          missingWeight = max 0 (required - total_w), signerBreakdown = map (\<lambda>s. (s, False)) signersToUse\<rparr>)"

fun calculateSignatureWeight :: "string list \<Rightarrow> signer_config list \<Rightarrow> string \<Rightarrow> int" where
  "calculateSignatureWeight [] signers server = 0"
| "calculateSignatureWeight (sig # sigs) signers server =
     (case find (\<lambda>s. publicKey s = sig) signers of
        Some s \<Rightarrow> if publicKey s \<noteq> server then weight s else 0
      | None \<Rightarrow> 0) + calculateSignatureWeight sigs signers server"

datatype operation_type = LowOp | MediumOp | HighOp

definition meetsThreshold :: "int \<Rightarrow> operation_type \<Rightarrow> thresholds \<Rightarrow> bool" where
  "meetsThreshold w op t = (case op of LowOp \<Rightarrow> w \<ge> low t | MediumOp \<Rightarrow> w \<ge> medium t | HighOp \<Rightarrow> w \<ge> high t)"

subsection \<open>Weights\<close>

lemma later_occurrences_Nil_iff: "later_occurrences seen ks = [] \<longleftrightarrow> distinct ks \<and> set seen \<inter> set ks = {}"
  by (induction seen ks rule: later_occurrences.induct) auto

text \<open>The weight of one signature, for signers with distinct keys.\<close>

lemma find_signer:
  "distinct (map publicKey signers) \<Longrightarrow> s \<in> set signers \<Longrightarrow> find (\<lambda>x. publicKey x = publicKey s) signers = Some s"
  by (induction signers) (auto simp: image_iff)

lemma calculateSignatureWeight_signed:
  assumes "distinct (map publicKey signers)" and "set ss \<subseteq> set signers"
  shows "calculateSignatureWeight (map publicKey ss) signers server = weight_sum (filter (\<lambda>s. publicKey s \<noteq> server) ss)"
  using assms(2) by (induction ss) (auto simp: weight_sum_def find_signer [OF assms(1)])

lemma calculateSignatureWeight_perm:
  "mset sigs = mset sigs' \<Longrightarrow> calculateSignatureWeight sigs signers server = calculateSignatureWeight sigs' signers server"
proof -
  have "calculateSignatureWeight xs signers server = sum_list (map (\<lambda>sig. calculateSignatureWeight [sig] signers server) xs)" for xs
    by (induction xs) auto
  moreover assume "mset sigs = mset sigs'"
  ultimately show ?thesis by (metis mset_map sum_mset_sum_list)
qed

text \<open>
  A configuration that passes the validation can sign at every level: if every signer signs once, in any order, then the
  weight of the signatures together with the weight of the master key reaches the low, the medium and the high
  threshold, provided that the key the calculation leaves out is the master key, which is not among the signers.
\<close>

theorem valid_config_can_sign:
  assumes "ms_valid (validateMultisigThresholds masterWeight signers t)"
    and "mset sigs = mset (map publicKey signers)" and "server \<notin> publicKey ` set signers"
  shows "meetsThreshold (masterWeight + calculateSignatureWeight sigs signers server) op t"
proof -
  have v: "distinct (map publicKey signers)" "low t \<le> masterWeight + weight_sum signers"
    "medium t \<le> masterWeight + weight_sum signers" "high t \<le> masterWeight + weight_sum signers"
    using assms(1) by (auto simp: validateMultisigThresholds_def Let_def later_occurrences_Nil_iff split: if_splits)
  have "filter (\<lambda>s. publicKey s \<noteq> server) signers = signers" using assms(3) by (auto simp: filter_id_conv)
  then have "calculateSignatureWeight sigs signers server = weight_sum signers"
    using calculateSignatureWeight_perm [OF assms(2)] calculateSignatureWeight_signed [OF v(1), of signers server] by simp
  then show ?thesis using v by (cases op) (auto simp: meetsThreshold_def)
qed

abbreviation two_signers :: "signer_config list" where
  "two_signers \<equiv> [\<lparr>publicKey = ''GA'', weight = 1\<rparr>, \<lparr>publicKey = ''GB'', weight = 1\<rparr>]"

theorem valid_config_can_sign_witness:
  "meetsThreshold (1 + calculateSignatureWeight [''GB'', ''GA''] two_signers ''GM'') HighOp \<lparr>low = 1, medium = 2, high = 3\<rparr>"
  by (rule valid_config_can_sign)
    (simp_all add: validateMultisigThresholds_def maxThreshold_def weight_sum_def add_mset_commute)

text \<open>
  A signature that is listed twice counts twice: the threshold of two signers is met by the signature of one of them.
\<close>

lemma repeated_signature_counts_twice:
  "ms_valid (validateMultisigThresholds 0 two_signers \<lparr>low = 1, medium = 2, high = 2\<rparr>) \<and>
   meetsThreshold (calculateSignatureWeight [''GA'', ''GA''] two_signers ''GM'') HighOp \<lparr>low = 1, medium = 2, high = 2\<rparr>"
  by (simp add: validateMultisigThresholds_def maxThreshold_def weight_sum_def meetsThreshold_def)

text \<open>The pre-flight check reports a missing weight exactly when signing is impossible.\<close>

lemma preflight_missing: "canSign (preflightMultisigCheck a d s acc) \<longleftrightarrow> missingWeight (preflightMultisigCheck a d s acc) = 0"
  by (auto simp: preflightMultisigCheck_def Let_def)

end
