(* ===== verification/Provider_Throttle.thy ===== *)
theory Provider_Throttle
  imports Js_Value
begin

text \<open>
  \<open>src/src/services/mobilemoney/providerThrottle.ts\<close>: the token bucket in front of the mobile money providers,
  the queue of provider calls and its dead-letter queue.

  The bucket script is a function of what \<open>HMGET\<close> returned and gives what \<open>HSET\<close> and \<open>PEXPIRE\<close> write; its
  numbers are binary64, as in Lua. BullMQ and the provider service are the parameter \<open>providers\<close>, whose
  functions may fail: \<open>call_service\<close> is one run of the worker's function on a call, \<open>queue_depth\<close> and \<open>queue_add\<close>
  the calls of the throttle queue, \<open>dlq_up\<close> says whether the dead-letter queue takes an entry. BullMQ runs a job
  until it succeeds or has been tried as often as its option \<open>attempts\<close> says, and emits \<open>failed\<close> after every
  attempt that failed, with the number of attempts made. The handler of the event does not wait for the
  dead-letter queue: its entries are \<open>pending_letters\<close> until \<open>settle_letters\<close>, which may be any time later, also
  after the caller has its error. Jobs that stall are not modelled, nor are log lines.
\<close>

subsection \<open>The token bucket\<close>

record bucket =
  tokens :: js_num
  timestamp :: js_num

record take_result =
  granted :: bool
  wait_ms :: js_num
  bucket_after :: bucket
  expire_ms :: js_num

definition math_ceil :: "js_num \<Rightarrow> js_num" where
  "math_ceil x = (case x of Fin q \<Rightarrow> Fin (of_int \<lceil>q\<rceil>) | v \<Rightarrow> v)"

definition lua_min :: "js_num \<Rightarrow> js_num \<Rightarrow> js_num" where
  "lua_min x y = (if jlt y x then y else x)"

definition lua_max :: "js_num \<Rightarrow> js_num \<Rightarrow> js_num" where
  "lua_max x y = (if jlt x y then y else x)"

definition refill :: "bucket option \<Rightarrow> js_num \<Rightarrow> js_num \<Rightarrow> js_num \<Rightarrow> js_num" where
  "refill b now rate capacity =
     (let stored = (case b of None \<Rightarrow> capacity | Some x \<Rightarrow> tokens x);
          stamp = (case b of None \<Rightarrow> now | Some x \<Rightarrow> timestamp x);
          elapsed = lua_max (Fin 0) (jsub now stamp)
      in lua_min capacity (jadd stored (jmul elapsed rate)))"

definition TAKE_TOKEN_SCRIPT :: "bucket option \<Rightarrow> js_num \<Rightarrow> js_num \<Rightarrow> js_num \<Rightarrow> js_num \<Rightarrow> take_result" where
  "TAKE_TOKEN_SCRIPT b now rate capacity requested =
     (let toks = refill b now rate capacity;
          expire = jadd (math_ceil (jmul (jdiv capacity rate) (Fin 1000))) (Fin 60000)
      in if jge toks requested
         then \<lparr>granted = True, wait_ms = Fin 0, bucket_after = \<lparr>tokens = jsub toks requested, timestamp = now\<rparr>, expire_ms = expire\<rparr>
         else \<lparr>granted = False, wait_ms = math_ceil (jdiv (jsub requested toks) rate),
               bucket_after = \<lparr>tokens = toks, timestamp = now\<rparr>, expire_ms = expire\<rparr>)"

datatype throttle_error = InvalidBucket | QueueFull "nat option" | QueueDown string | CallFailed string

text \<open>The environment values are given as numbers; \<open>None\<close> is an unset or empty variable.\<close>

definition settings :: "js_num option \<Rightarrow> js_num option \<Rightarrow> throttle_error + js_num \<times> js_num" where
  "settings rateEnv capEnv =
     (let rate = (case rateEnv of None \<Rightarrow> Fin 5 | Some r \<Rightarrow> r);
          capacity = (case capEnv of None \<Rightarrow> math_max (Fin 1) rate | Some c \<Rightarrow> c)
      in if \<not> isFinite rate \<or> jle rate (Fin 0) \<or> \<not> isFinite capacity \<or> jle capacity (Fin 0) then Inl InvalidBucket
         else Inr (rate, capacity))"

text \<open>
  \<open>takeToken\<close>: try, sleep, try again. The world says what the script reads at each try (other workers take tokens in
  between, the key may expire) and at what time; \<open>None\<close> is a call that has not returned after \<open>fuel\<close> tries.
\<close>

fun takeToken :: "nat \<Rightarrow> (nat \<Rightarrow> bucket option \<times> js_num) \<Rightarrow> nat \<Rightarrow> js_num \<Rightarrow> js_num \<Rightarrow> js_num \<Rightarrow> nat option" where
  "takeToken 0 reads n rate capacity requested = None"
| "takeToken (Suc fuel) reads n rate capacity requested =
     (let (b, now) = reads n
      in if granted (TAKE_TOKEN_SCRIPT b now (jdiv rate (Fin 1000)) capacity requested) then Some n
         else takeToken fuel reads (Suc n) rate capacity requested)"

subsection \<open>Calls and queues\<close>

datatype provider_call =
  Payment string string string
| Payout string string string
| BatchPayout string "string list"

definition requested_tokens :: "provider_call \<Rightarrow> nat" where
  "requested_tokens c = (case c of BatchPayout p items \<Rightarrow> max 1 (length items) | _ \<Rightarrow> 1)"

datatype letter_reason = Queue_is_full js_num | Call_error string

record dead_letter =
  dl_id :: nat
  dl_payload :: provider_call
  dl_reason :: letter_reason
  dl_attempts :: nat

record throttle_state =
  dead_letters :: "dead_letter list"
  next_dl :: nat
  pending_letters :: "(provider_call \<times> letter_reason \<times> nat) list"

record ('w, 'a) providers =
  call_service :: "provider_call \<Rightarrow> 'w \<Rightarrow> (string + 'a) \<times> 'w"
  queue_depth :: "'w \<Rightarrow> string + nat"
  queue_add :: "'w \<Rightarrow> string + unit"
  dlq_up :: "'w \<Rightarrow> bool"

record throttle_config =
  throttle_enabled :: bool
  max_queue_size :: js_num
  job_attempts :: nat

definition getMaxQueueSize :: "js_num \<Rightarrow> js_num" where
  "getMaxQueueSize configured = (if isFinite configured \<and> jgt configured (Fin 0) then configured else Fin 1000)"

definition moveToDeadLetter ::
  "('w, 'a) providers \<Rightarrow> provider_call \<Rightarrow> letter_reason \<Rightarrow> nat \<Rightarrow> 'w \<Rightarrow> throttle_state \<Rightarrow> nat option \<times> throttle_state" where
  "moveToDeadLetter ps c reason attempts w s =
     (if dlq_up ps w
      then (Some (next_dl s), s\<lparr>dead_letters := \<lparr>dl_id = next_dl s, dl_payload = c, dl_reason = reason, dl_attempts = attempts\<rparr> # dead_letters s,
              next_dl := Suc (next_dl s)\<rparr>)
      else (None, s))"

text \<open>The handler of \<open>failed\<close>: nothing while retries are pending, otherwise the call of \<open>moveToDeadLetter\<close> is under way.\<close>

definition on_failed :: "nat \<Rightarrow> nat \<Rightarrow> provider_call \<Rightarrow> string \<Rightarrow> throttle_state \<Rightarrow> throttle_state" where
  "on_failed maxAttempts attemptsMade c message s =
     (if attemptsMade < maxAttempts then s
      else s\<lparr>pending_letters := pending_letters s @ [(c, Call_error message, attemptsMade)]\<rparr>)"

definition settle_letters :: "('w, 'a) providers \<Rightarrow> 'w \<Rightarrow> throttle_state \<Rightarrow> throttle_state" where
  "settle_letters ps w s =
     fold (\<lambda>(c, reason, n) s1. snd (moveToDeadLetter ps c reason n w s1)) (pending_letters s) (s\<lparr>pending_letters := []\<rparr>)"

text \<open>
  A job: it is tried once, and again while it fails and has been tried less often than \<open>maxAttempts\<close>; the
  \<open>failed\<close> event follows every attempt that failed. \<open>left\<close> is the number of retries that remain.
\<close>

fun run_attempts ::
  "('w, 'a) providers \<Rightarrow> nat \<Rightarrow> nat \<Rightarrow> nat \<Rightarrow> provider_call \<Rightarrow> 'w \<Rightarrow> throttle_state \<Rightarrow> (string + 'a) \<times> 'w \<times> throttle_state" where
  "run_attempts ps maxAttempts left made c w s =
     (case call_service ps c w of
        (Inr x, w1) \<Rightarrow> (Inr x, w1, s)
      | (Inl e, w1) \<Rightarrow>
          let s1 = on_failed maxAttempts (Suc made) c e s
          in case left of 0 \<Rightarrow> (Inl e, w1, s1) | Suc k \<Rightarrow> run_attempts ps maxAttempts k (Suc made) c w1 s1)"

declare run_attempts.simps [simp del]

definition run_job ::
  "('w, 'a) providers \<Rightarrow> throttle_config \<Rightarrow> provider_call \<Rightarrow> 'w \<Rightarrow> throttle_state \<Rightarrow> (throttle_error + 'a) \<times> 'w \<times> throttle_state" where
  "run_job ps cfg c w s =
     (case queue_add ps w of
        Inl e \<Rightarrow> (Inl (QueueDown e), w, s)
      | Inr _ \<Rightarrow>
          (case run_attempts ps (job_attempts cfg) (job_attempts cfg - 1) 0 c w s of
             (Inr x, w1, s1) \<Rightarrow> (Inr x, w1, s1)
           | (Inl e, w1, s1) \<Rightarrow> (Inl (CallFailed e), w1, s1)))"

definition queue_full :: "('w, 'a) providers \<Rightarrow> throttle_config \<Rightarrow> bool \<Rightarrow> 'w \<Rightarrow> string + bool" where
  "queue_full ps cfg bypass w =
     (if bypass then Inr False
      else case queue_depth ps w of Inl e \<Rightarrow> Inl e | Inr n \<Rightarrow> Inr (jge (Fin (of_nat n)) (getMaxQueueSize (max_queue_size cfg))))"

definition enqueueProviderCall ::
  "('w, 'a) providers \<Rightarrow> throttle_config \<Rightarrow> bool \<Rightarrow> provider_call \<Rightarrow> 'w \<Rightarrow> throttle_state \<Rightarrow>
     (throttle_error + 'a) \<times> 'w \<times> throttle_state" where
  "enqueueProviderCall ps cfg bypass c w s =
     (if \<not> throttle_enabled cfg
      then (case call_service ps c w of (Inr x, w1) \<Rightarrow> (Inr x, w1, s) | (Inl e, w1) \<Rightarrow> (Inl (CallFailed e), w1, s))
      else case queue_full ps cfg bypass w of
        Inl e \<Rightarrow> (Inl (QueueDown e), w, s)
      | Inr True \<Rightarrow>
          (let (i, s1) = moveToDeadLetter ps c (Queue_is_full (getMaxQueueSize (max_queue_size cfg))) 0 w s
           in (Inl (QueueFull i), w, s1))
      | Inr False \<Rightarrow> run_job ps cfg c w s)"

definition listDeadLetters :: "int \<Rightarrow> int \<Rightarrow> throttle_state \<Rightarrow> dead_letter list" where
  "listDeadLetters limit offset s = take (nat (max 1 (min limit 500))) (drop (nat (max 0 offset)) (dead_letters s))"

datatype replay_outcome = Replayed nat | Not_found nat | Replay_failed nat throttle_error

definition replayDeadLetter ::
  "('w, 'a) providers \<Rightarrow> throttle_config \<Rightarrow> nat \<Rightarrow> 'w \<Rightarrow> throttle_state \<Rightarrow> replay_outcome \<times> 'w \<times> throttle_state" where
  "replayDeadLetter ps cfg i w s =
     (case find (\<lambda>d. dl_id d = i) (dead_letters s) of
        None \<Rightarrow> (Not_found i, w, s)
      | Some d \<Rightarrow>
          (case enqueueProviderCall ps cfg True (dl_payload d) w s of
             (Inr x, w1, s1) \<Rightarrow> (Replayed i, w1, s1\<lparr>dead_letters := filter (\<lambda>d. dl_id d \<noteq> i) (dead_letters s1)\<rparr>)
           | (Inl e, w1, s1) \<Rightarrow> (Replay_failed i e, w1, s1)))"

fun replay_each ::
  "('w, 'a) providers \<Rightarrow> throttle_config \<Rightarrow> nat list \<Rightarrow> 'w \<Rightarrow> throttle_state \<Rightarrow> (nat \<times> nat) \<times> 'w \<times> throttle_state" where
  "replay_each ps cfg [] w s = ((0, 0), w, s)"
| "replay_each ps cfg (i # is) w s =
     (let (r, w1, s1) = replayDeadLetter ps cfg i w s; ((ok, bad), w2, s2) = replay_each ps cfg is w1 s1
      in (case r of Replayed j \<Rightarrow> (Suc ok, bad) | _ \<Rightarrow> (ok, Suc bad), w2, s2))"

definition replayAllDeadLetters ::
  "('w, 'a) providers \<Rightarrow> throttle_config \<Rightarrow> int \<Rightarrow> 'w \<Rightarrow> throttle_state \<Rightarrow> (nat \<times> nat) \<times> 'w \<times> throttle_state" where
  "replayAllDeadLetters ps cfg limit w s = replay_each ps cfg (map dl_id (listDeadLetters limit 0 s)) w s"

subsection \<open>The bucket never holds more than its capacity\<close>

lemma jlt_trans: "jlt x y \<Longrightarrow> jlt y z \<Longrightarrow> jlt x z"
  by (cases x; cases y; cases z) auto

lemma jlt_not_jge: "jlt x y \<Longrightarrow> \<not> jge x y"
  by (cases x; cases y) auto

lemma refill_below: "jlt capacity requested \<Longrightarrow> jlt (refill b now rate capacity) requested"
  by (auto simp: refill_def Let_def lua_min_def intro: jlt_trans)

lemma oversized_not_granted: "jlt capacity requested \<Longrightarrow> \<not> granted (TAKE_TOKEN_SCRIPT b now rate capacity requested)"
  using jlt_not_jge [OF refill_below] by (simp add: TAKE_TOKEN_SCRIPT_def Let_def)

text \<open>
  A batch payout with more items than the capacity of its bucket is never sent: whatever the bucket holds at whatever times,
  the script refuses every try, and \<open>takeToken\<close> does not return after any number of tries.
\<close>

theorem oversized_batch_waits_forever:
  assumes "settings rateEnv capEnv = Inr (rate, capacity)" and "jlt capacity (Fin (of_nat (requested_tokens c)))"
  shows "takeToken fuel reads n rate capacity (Fin (of_nat (requested_tokens c))) = None"
  using oversized_not_granted [OF assms(2)]
  by (induction fuel arbitrary: n) (simp_all add: Let_def split: prod.splits)

lemma default_settings: "settings None None = Inr (Fin 5, Fin 5)"
  by (simp add: settings_def math_max_def Let_def)

theorem oversized_batch_waits_forever_witness:
  "takeToken 100 (\<lambda>n. (None, Fin (of_nat n))) 0 (Fin 5) (Fin 5)
     (Fin (of_nat (requested_tokens (BatchPayout ''mtn'' [''1'', ''2'', ''3'', ''4'', ''5'', ''6''])))) = None"
  by (rule oversized_batch_waits_forever [OF default_settings]) (simp add: requested_tokens_def)

text \<open>A request that fits is granted at once when the bucket is new or has expired.\<close>

lemma of_exact_zero [simp]: "of_exact 0 = Fin 0"
  using of_exact_int [of 0] by simp

lemma fresh_bucket_grants:
  assumes "of_exact c = Fin c" and "q \<le> c"
  shows "granted (TAKE_TOKEN_SCRIPT None (Fin now) (Fin rate) (Fin c) (Fin q))"
  using assms by (simp add: TAKE_TOKEN_SCRIPT_def refill_def Let_def lua_min_def lua_max_def jsub_def)

subsection \<open>Dead letters\<close>

lemma on_failed_fields [simp]:
  "dead_letters (on_failed n k c e s) = dead_letters s" "next_dl (on_failed n k c e s) = next_dl s"
  by (simp_all add: on_failed_def)

text \<open>The attempts of a job that starts with as many retries as its bound leaves: only the last failure goes to the handler's letters.\<close>

lemma run_attempts_letters:
  assumes "run_attempts ps n left made c w s = (r, w1, s1)" and "Suc (made + left) = max 1 n"
  shows "s1 = (case r of Inr _ \<Rightarrow> s | Inl e \<Rightarrow> s\<lparr>pending_letters := pending_letters s @ [(c, Call_error e, max 1 n)]\<rparr>)"
  using assms
proof (induction left arbitrary: made w)
  case 0
  then show ?case by (subst (asm) run_attempts.simps) (auto simp: on_failed_def max_def split: prod.splits sum.splits if_splits)
next
  case (Suc left)
  have "Suc made < n" using Suc.prems(2) by (auto simp: max_def split: if_splits)
  then have quiet: "on_failed n (Suc made) c e s = s" for e by (simp add: on_failed_def)
  show ?case
  proof (cases "call_service ps c w")
    case (Pair a w2)
    then show ?thesis
      using Suc.prems Suc.IH [of "Suc made" w2] quiet
      by (cases a) (auto simp: run_attempts.simps [of _ _ "Suc left"])
  qed
qed

lemma run_job_letters:
  assumes "run_job ps cfg c w s = (r, w1, s1)"
  shows "s1 = (case r of Inl (CallFailed e) \<Rightarrow>
    s\<lparr>pending_letters := pending_letters s @ [(c, Call_error e, max 1 (job_attempts cfg))]\<rparr> | _ \<Rightarrow> s)"
proof (cases "queue_add ps w")
  case (Inl e)
  then show ?thesis using assms by (auto simp: run_job_def)
next
  case (Inr u)
  obtain r0 w0 s0 where run: "run_attempts ps (job_attempts cfg) (job_attempts cfg - 1) 0 c w s = (r0, w0, s0)"
    by (cases "run_attempts ps (job_attempts cfg) (job_attempts cfg - 1) 0 c w s")
  have "Suc (0 + (job_attempts cfg - 1)) = max 1 (job_attempts cfg)" by (simp add: max_def)
  from run_attempts_letters [OF run this] show ?thesis using assms Inr run by (auto simp: run_job_def split: sum.splits)
qed

text \<open>The letter that a call ends with: none when it was answered or the throttle queue could not be reached.\<close>

definition letter_of ::
  "('w, 'a) providers \<Rightarrow> throttle_config \<Rightarrow> provider_call \<Rightarrow> 'w \<Rightarrow> throttle_error + 'a \<Rightarrow> nat \<Rightarrow> dead_letter list" where
  "letter_of ps cfg c w r i = (case r of
     Inl (QueueFull _) \<Rightarrow> if dlq_up ps w
       then [\<lparr>dl_id = i, dl_payload = c, dl_reason = Queue_is_full (getMaxQueueSize (max_queue_size cfg)), dl_attempts = 0\<rparr>] else []
   | Inl (CallFailed e) \<Rightarrow>
       [\<lparr>dl_id = i, dl_payload = c, dl_reason = Call_error e, dl_attempts = max 1 (job_attempts cfg)\<rparr>]
   | _ \<Rightarrow> [])"

lemma enqueue_letters:
  assumes "throttle_enabled cfg" and "pending_letters s = []" and "enqueueProviderCall ps cfg bypass c w s = (r, w1, s1)"
    and "dlq_up ps w2"
  shows "dead_letters (settle_letters ps w2 s1) = letter_of ps cfg c w r (next_dl s) @ dead_letters s"
proof (cases "queue_full ps cfg bypass w")
  case (Inl e)
  then show ?thesis using assms by (auto simp: enqueueProviderCall_def letter_of_def settle_letters_def)
next
  case (Inr full)
  show ?thesis
  proof (cases full)
    case True
    then show ?thesis using Inr assms
      by (auto simp: enqueueProviderCall_def letter_of_def settle_letters_def moveToDeadLetter_def split: if_splits)
  next
    case False
    then have "run_job ps cfg c w s = (r, w1, s1)" using Inr assms(1,3) by (simp add: enqueueProviderCall_def)
    moreover from this have "\<And>i. r \<noteq> Inl (QueueFull i)" by (auto simp: run_job_def split: sum.splits prod.splits)
    ultimately show ?thesis using run_job_letters [of ps cfg c w s r w1 s1] assms(2,4)
      by (auto simp: letter_of_def settle_letters_def moveToDeadLetter_def split: sum.splits throttle_error.splits)
  qed
qed

text \<open>
  C35. Exactly the calls that are used up become dead letters. Let the throttle be on, no letter be under way, and the
  dead-letter queue be up when the handlers get to it: a call that is answered, also after failed attempts, leaves no
  letter; a call whose attempts all failed leaves one, with its payload, the last error and all its attempts; a call
  that finds the queue full leaves one with no attempts, if the dead-letter queue is up at that moment; and a call for
  which the throttle queue cannot be reached, when its depth is asked or the job is added, leaves none.
\<close>

theorem failed_call_dead_lettered:
  assumes "throttle_enabled cfg" and "pending_letters s = []" and "enqueueProviderCall ps cfg bypass c w s = (r, w1, s1)"
    and "dlq_up ps w2"
  shows "dead_letters (settle_letters ps w2 s1) =
    (case r of
       Inr _ \<Rightarrow> []
     | Inl (CallFailed e) \<Rightarrow>
         [\<lparr>dl_id = next_dl s, dl_payload = c, dl_reason = Call_error e, dl_attempts = max 1 (job_attempts cfg)\<rparr>]
     | Inl (QueueFull _) \<Rightarrow> if dlq_up ps w
         then [\<lparr>dl_id = next_dl s, dl_payload = c, dl_reason = Queue_is_full (getMaxQueueSize (max_queue_size cfg)), dl_attempts = 0\<rparr>]
         else []
     | Inl _ \<Rightarrow> []) @ dead_letters s"
  using enqueue_letters [OF assms] by (auto simp: letter_of_def split: sum.splits throttle_error.splits)

text \<open>
  A replay that fails duplicates the letter: the call is dead-lettered again by the worker while the replayed letter stays,
  so the queue holds the call once more than before; a later replay of the queue sends it once per letter.
\<close>

theorem failed_replay_duplicates:
  assumes "throttle_enabled cfg" and "pending_letters s = []" and "dlq_up ps w2"
    and "find (\<lambda>d. dl_id d = i) (dead_letters s) = Some d"
    and "replayDeadLetter ps cfg i w s = (Replay_failed i (CallFailed e), w1, s1)"
  shows "\<exists>d1. dead_letters (settle_letters ps w2 s1) = d1 # dead_letters s \<and> dl_payload d1 = dl_payload d"
proof -
  have "enqueueProviderCall ps cfg True (dl_payload d) w s = (Inl (CallFailed e), w1, s1)"
    using assms(4,5) by (auto simp: replayDeadLetter_def split: prod.splits sum.splits)
  from enqueue_letters [OF assms(1,2) this assms(3)] show ?thesis by (simp add: letter_of_def)
qed

text \<open>A provider that fails a number of times and then accepts; it records what it accepted.\<close>

definition flaky :: "(nat \<times> provider_call list, unit) providers" where
  "flaky = \<lparr>call_service = (\<lambda>c w. if fst w > 0 then (Inl ''down'', (fst w - 1, snd w)) else (Inr (), (0, c # snd w))),
     queue_depth = (\<lambda>w. Inr 0), queue_add = (\<lambda>w. Inr ()), dlq_up = (\<lambda>w. True)\<rparr>"

abbreviation payout_1 :: provider_call where
  "payout_1 \<equiv> Payout ''mtn'' ''237600000000'' ''100''"

definition cfg_3 :: throttle_config where
  "cfg_3 = \<lparr>throttle_enabled = True, max_queue_size = Fin 1000, job_attempts = 3\<rparr>"

definition no_letter :: throttle_state where
  "no_letter = \<lparr>dead_letters = [], next_dl = 0, pending_letters = []\<rparr>"

definition one_letter :: throttle_state where
  "one_letter = \<lparr>dead_letters = [\<lparr>dl_id = 0, dl_payload = payout_1, dl_reason = Call_error ''down'', dl_attempts = 3\<rparr>],
     next_dl = 1, pending_letters = []\<rparr>"

lemmas throttle_eval = enqueueProviderCall_def run_job_def moveToDeadLetter_def replayDeadLetter_def replayAllDeadLetters_def
  listDeadLetters_def flaky_def cfg_3_def one_letter_def no_letter_def run_attempts.simps on_failed_def queue_full_def
  settle_letters_def getMaxQueueSize_def

lemma flaky_call_fails:
  "enqueueProviderCall flaky cfg_3 False payout_1 (3, []) no_letter =
     (Inl (CallFailed ''down''), (0, []), no_letter\<lparr>pending_letters := [(payout_1, Call_error ''down'', 3)]\<rparr>)"
  by (simp add: throttle_eval numeral_3_eq_3)

theorem failed_call_dead_lettered_witness:
  "dead_letters (settle_letters flaky (0, []) (no_letter\<lparr>pending_letters := [(payout_1, Call_error ''down'', 3)]\<rparr>)) =
     [\<lparr>dl_id = 0, dl_payload = payout_1, dl_reason = Call_error ''down'', dl_attempts = 3\<rparr>]"
  using failed_call_dead_lettered [OF _ _ flaky_call_fails, of "(0, [])"] by (simp add: flaky_def cfg_3_def no_letter_def)

lemma flaky_replay_fails:
  "replayDeadLetter flaky cfg_3 0 (3, []) one_letter =
     (Replay_failed 0 (CallFailed ''down''), (0, []), one_letter\<lparr>pending_letters := [(payout_1, Call_error ''down'', 3)]\<rparr>)"
  by (simp add: throttle_eval numeral_3_eq_3)

theorem failed_replay_duplicates_witness:
  "\<exists>d1. dead_letters (settle_letters flaky (0, []) (one_letter\<lparr>pending_letters := [(payout_1, Call_error ''down'', 3)]\<rparr>)) =
      d1 # dead_letters one_letter \<and> dl_payload d1 = payout_1"
  using failed_replay_duplicates [OF _ _ _ _ flaky_replay_fails, of "(0, [])"] by (simp add: flaky_def cfg_3_def one_letter_def)

text \<open>So an outage during one replay of the queue and a second replay after it pay the same payout twice.\<close>

lemma replay_after_outage_pays_twice:
  "let (r1, w1, s1) = replayAllDeadLetters flaky cfg_3 100 (3, []) one_letter;
       (r2, w2, s2) = replayAllDeadLetters flaky cfg_3 100 w1 (settle_letters flaky w1 s1)
   in snd w2 = [payout_1, payout_1] \<and> dead_letters s2 = [] \<and> pending_letters s2 = []"
  by (simp add: throttle_eval numeral_3_eq_3)

end
