(* ===== verification/Db_Process.thy ===== *)
theory Db_Process
  imports Main
begin

text \<open>
  Asynchronous functions that talk to a database with read replicas, as processes.

  A process is the tree of the awaited calls: each call has an effect on the shared world and what
  follows, and both depend on the outcome of the call. \<open>Fresh\<close> is a call answered from the current
  state, \<open>Stale n\<close> a read answered by a replica that is \<open>n\<close> writes behind (\<open>queryRead\<close> in
  \<open>src/src/config/database.ts\<close> goes to a replica, \<open>queryWrite\<close> to the primary), \<open>Lost\<close> a call that
  fails before it has an effect, and \<open>Lost_after\<close> one that fails after it. A function that may throw
  is a process with a result of a sum type. Processes run alone (\<open>run_proc\<close>) or in a pool whose
  schedule names, for every step, the process and the outcome (\<open>run_pool\<close>).

  \<open>keeps I Q p\<close>: every step of \<open>p\<close> preserves \<open>I\<close>, whatever others do in between, and a result has \<open>Q\<close>.
  The locale \<open>shared_world\<close> gives what a pool of such processes keeps.
\<close>

subsection \<open>Processes\<close>

datatype outcome = Fresh | Stale nat | Lost | Lost_after

datatype ('w, 'a) proc =
  Finished 'a
| Await "outcome \<Rightarrow> 'w \<Rightarrow> 'w" "outcome \<Rightarrow> 'w \<Rightarrow> ('w, 'a) proc"

lemma proc_induct [case_names Finished Await]:
  assumes "\<And>x. P (Finished x)" and "\<And>e k. (\<And>i w. P (k i w)) \<Longrightarrow> P (Await e k)"
  shows "P p"
proof (induction p)
  case (Await e k)
  have "P (k i w)" for i w by (rule Await) (rule rangeI)+
  then show ?case by (rule assms(2))
qed (rule assms(1))

primrec bind_proc :: "('w, 'a) proc \<Rightarrow> ('a \<Rightarrow> ('w, 'b) proc) \<Rightarrow> ('w, 'b) proc" where
  "bind_proc (Finished x) f = f x"
| "bind_proc (Await e k) f = Await e (\<lambda>i w. bind_proc (k i w) f)"

definition ok :: "'a \<Rightarrow> ('w, 'e + 'a) proc" where
  "ok x = Finished (Inr x)"

definition throw :: "'e \<Rightarrow> ('w, 'e + 'a) proc" where
  "throw e = Finished (Inl e)"

text \<open>Sequence and \<open>try\<close>/\<open>catch\<close>.\<close>

definition and_then :: "('w, 'e + 'a) proc \<Rightarrow> ('a \<Rightarrow> ('w, 'e + 'b) proc) \<Rightarrow> ('w, 'e + 'b) proc" where
  "and_then p f = bind_proc p (\<lambda>r. case r of Inl e \<Rightarrow> throw e | Inr x \<Rightarrow> f x)"

definition catch :: "('w, 'e + 'a) proc \<Rightarrow> ('e \<Rightarrow> ('w, 'e + 'a) proc) \<Rightarrow> ('w, 'e + 'a) proc" where
  "catch p h = bind_proc p (\<lambda>r. case r of Inl e \<Rightarrow> h e | Inr x \<Rightarrow> ok x)"

text \<open>A call that reads, one that writes, and one whose effect is outside the database.\<close>

definition call :: "('w \<Rightarrow> ('e + 'a) \<times> 'w) \<Rightarrow> 'e \<Rightarrow> ('w, 'e + 'a) proc" where
  "call f lost =
     Await (\<lambda>i w. if i = Lost then w else snd (f w))
       (\<lambda>i w. Finished (if i = Lost \<or> i = Lost_after then Inl lost else fst (f w)))"

definition read_call :: "(nat \<Rightarrow> 'w \<Rightarrow> 'a) \<Rightarrow> 'e \<Rightarrow> ('w, 'e + 'a) proc" where
  "read_call f lost =
     Await (\<lambda>i w. w)
       (\<lambda>i w. case i of Fresh \<Rightarrow> ok (f 0 w) | Stale n \<Rightarrow> ok (f n w) | _ \<Rightarrow> throw lost)"

text \<open>Steps that no call can fail: the clock, a timer, a variable of the process.\<close>

definition local_step :: "('w \<Rightarrow> 'a \<times> 'w) \<Rightarrow> ('w, 'e + 'a) proc" where
  "local_step f = Await (\<lambda>i w. snd (f w)) (\<lambda>i w. ok (fst (f w)))"

definition silent_step :: "('w \<Rightarrow> 'w) \<Rightarrow> ('w, 'e + unit) proc" where
  "silent_step f = Await (\<lambda>i w. f w) (\<lambda>i w. ok ())"

text \<open>A process of one part of the world: \<open>get\<close> reads the part, \<open>put\<close> writes it.\<close>

primrec lift_proc :: "('v \<Rightarrow> 'w) \<Rightarrow> ('w \<Rightarrow> 'v \<Rightarrow> 'v) \<Rightarrow> ('w, 'a) proc \<Rightarrow> ('v, 'a) proc" where
  "lift_proc get put (Finished x) = Finished x"
| "lift_proc get put (Await e k) = Await (\<lambda>i v. put (e i (get v)) v) (\<lambda>i v. lift_proc get put (k i (get v)))"

subsection \<open>Running\<close>

fun first_outcome :: "outcome list \<Rightarrow> outcome" where
  "first_outcome [] = Fresh"
| "first_outcome (i # is) = i"

primrec run_proc :: "('w, 'a) proc \<Rightarrow> outcome list \<Rightarrow> 'w \<Rightarrow> 'a \<times> 'w \<times> outcome list" where
  "run_proc (Finished x) is w = (x, w, is)"
| "run_proc (Await e k) is w = run_proc (k (first_outcome is) w) (tl is) (e (first_outcome is) w)"

fun run_pool :: "(nat \<times> outcome) list \<Rightarrow> ('w, 'a) proc list \<Rightarrow> 'w \<Rightarrow> ('w, 'a) proc list \<times> 'w" where
  "run_pool [] ps w = (ps, w)"
| "run_pool ((n, i) # sched) ps w =
     (if n < length ps
      then case ps ! n of Finished x \<Rightarrow> run_pool sched ps w | Await e k \<Rightarrow> run_pool sched (ps[n := k i w]) (e i w)
      else run_pool sched ps w)"

named_theorems proc_simps "rewrite rules that run a process"

lemma run_proc_bind [proc_simps]:
  "run_proc (bind_proc p f) is w = (case run_proc p is w of (x, w', is') \<Rightarrow> run_proc (f x) is' w')"
  by (induction p arbitrary: "is" w rule: proc_induct) simp_all

lemma run_and_then [proc_simps]:
  "run_proc (and_then p f) is w =
     (case run_proc p is w of (Inl e, w', is') \<Rightarrow> (Inl e, w', is') | (Inr x, w', is') \<Rightarrow> run_proc (f x) is' w')"
  by (auto simp: and_then_def throw_def run_proc_bind split: prod.splits sum.splits)

lemma run_catch [proc_simps]:
  "run_proc (catch p h) is w =
     (case run_proc p is w of (Inl e, w', is') \<Rightarrow> run_proc (h e) is' w' | (Inr x, w', is') \<Rightarrow> (Inr x, w', is'))"
  by (auto simp: catch_def ok_def run_proc_bind split: prod.splits sum.splits)

lemma run_ok [proc_simps]: "run_proc (ok x) is w = (Inr x, w, is)"
  by (simp add: ok_def)

lemma run_throw [proc_simps]: "run_proc (throw e) is w = (Inl e, w, is)"
  by (simp add: throw_def)

lemma run_call [proc_simps]:
  "run_proc (call f lost) is w = (let i = first_outcome is in
     (if i = Lost \<or> i = Lost_after then Inl lost else fst (f w), if i = Lost then w else snd (f w), tl is))"
  by (simp add: call_def Let_def)

lemma run_read_call [proc_simps]:
  "run_proc (read_call f lost) is w = (case first_outcome is of
     Fresh \<Rightarrow> Inr (f 0 w) | Stale n \<Rightarrow> Inr (f n w) | _ \<Rightarrow> Inl lost, w, tl is)"
  by (simp add: read_call_def ok_def throw_def split: outcome.splits)

lemma run_if [proc_simps]:
  "run_proc (if b then p else q) is w = (if b then run_proc p is w else run_proc q is w)"
  by simp

text \<open>A process of a pool that is scheduled alone ends as its run does.\<close>

lemma run_pool_append: "run_pool (s1 @ s2) ps w = (case run_pool s1 ps w of (ps', w') \<Rightarrow> run_pool s2 ps' w')"
  by (induction s1 ps w rule: run_pool.induct) (auto split: proc.splits)

lemma pool_runs_one:
  "i < length ps \<Longrightarrow> \<exists>os. set os \<subseteq> insert Fresh (set is) \<and> run_pool (map (Pair i) os) ps w =
     (ps[i := Finished (fst (run_proc (ps ! i) is w))], fst (snd (run_proc (ps ! i) is w)))"
proof (induction "ps ! i" arbitrary: ps w "is" rule: proc_induct)
  case (Finished x)
  have "ps[i := Finished x] = ps" using Finished.hyps list_update_id [of ps i] by simp
  then show ?case by (intro exI [of _ "[]"]) (simp flip: Finished.hyps)
next
  case (Await e k)
  let ?o = "first_outcome is"
  have "k ?o w = ps[i := k ?o w] ! i" and "i < length (ps[i := k ?o w])" using Await.prems by simp_all
  from Await.hyps(1) [OF this, of "tl is" "e ?o w"] obtain os where os: "set os \<subseteq> insert Fresh (set (tl is))"
    and run: "run_pool (map (Pair i) os) (ps[i := k ?o w]) (e ?o w) =
      (ps[i := Finished (fst (run_proc (k ?o w) (tl is) (e ?o w)))], fst (snd (run_proc (k ?o w) (tl is) (e ?o w))))"
    using Await.prems by auto
  have "set (?o # os) \<subseteq> insert Fresh (set is)" using os by (cases "is") auto
  then show ?case using Await run by (intro exI [of _ "?o # os"]) (simp flip: Await.hyps(2))
qed

lemma run_local_step [proc_simps]: "run_proc (local_step f) is w = (Inr (fst (f w)), snd (f w), tl is)"
  by (simp add: local_step_def ok_def)

lemma run_silent_step [proc_simps]: "run_proc (silent_step f) is w = (Inr (), f w, tl is)"
  by (simp add: silent_step_def ok_def)

lemma run_lift_proc [proc_simps]:
  assumes "\<And>v w. get (put w v) = w" and "\<And>v w w'. put w (put w' v) = put w v" and "\<And>v. put (get v) v = v"
  shows "run_proc (lift_proc get put p) is v = (case run_proc p is (get v) of (x, w, is') \<Rightarrow> (x, put w v, is'))"
  by (induction p arbitrary: "is" v rule: proc_induct) (simp_all add: assms split: prod.splits)

subsection \<open>What every step keeps\<close>

primrec keeps :: "('w \<Rightarrow> bool) \<Rightarrow> ('a \<Rightarrow> bool) \<Rightarrow> ('w, 'a) proc \<Rightarrow> bool" where
  "keeps I Q (Finished x) \<longleftrightarrow> Q x"
| "keeps I Q (Await e k) \<longleftrightarrow> (\<forall>i w. I w \<longrightarrow> I (e i w) \<and> keeps I Q (k i w))"

named_theorems keeps_intro "rules for what the steps of a process keep"

lemma keeps_bind: "keeps I Q p \<Longrightarrow> (\<And>x. Q x \<Longrightarrow> keeps I R (f x)) \<Longrightarrow> keeps I R (bind_proc p f)"
  by (induction p) auto

lemma keeps_weaken: "keeps I Q p \<Longrightarrow> (\<And>x. Q x \<Longrightarrow> R x) \<Longrightarrow> keeps I R p"
  by (induction p) auto

definition on_ok :: "('a \<Rightarrow> bool) \<Rightarrow> 'e + 'a \<Rightarrow> bool" where
  "on_ok Q r = (case r of Inl e \<Rightarrow> True | Inr x \<Rightarrow> Q x)"

lemma on_ok_simps [simp]: "on_ok Q (Inl e)" "on_ok Q (Inr x) = Q x"
  by (simp_all add: on_ok_def)

lemma on_ok_True [simp]: "on_ok (\<lambda>_. True) r"
  by (cases r) simp_all

lemma keeps_and_then:
  assumes "keeps I (on_ok Q) p" and "\<And>x. Q x \<Longrightarrow> keeps I (on_ok R) (f x)"
  shows "keeps I (on_ok R) (and_then p f)"
  unfolding and_then_def by (rule keeps_bind [OF assms(1)]) (auto simp: on_ok_def throw_def assms(2) split: sum.splits)

lemma keeps_catch [keeps_intro]:
  assumes "keeps I (on_ok Q) p" and "\<And>e. keeps I (on_ok Q) (h e)"
  shows "keeps I (on_ok Q) (catch p h)"
  unfolding catch_def by (rule keeps_bind [OF assms(1)]) (auto simp: on_ok_def ok_def assms(2) split: sum.splits)

lemma keeps_ok [keeps_intro]: "Q x \<Longrightarrow> keeps I (on_ok Q) (ok x)"
  by (simp add: ok_def)

lemma keeps_throw [keeps_intro]: "keeps I (on_ok Q) (throw e)"
  by (simp add: throw_def)

lemma keeps_call:
  assumes "\<And>w. I w \<Longrightarrow> I (snd (f w)) \<and> on_ok Q (fst (f w))"
  shows "keeps I (on_ok Q) (call f lost)"
  using assms by (auto simp: call_def)

lemma keeps_read_call:
  assumes "\<And>n w. I w \<Longrightarrow> Q (f n w)"
  shows "keeps I (on_ok Q) (read_call f lost)"
  using assms by (auto simp: read_call_def ok_def throw_def split: outcome.splits)

lemma keeps_local_step:
  assumes "\<And>w. I w \<Longrightarrow> I (snd (f w)) \<and> Q (fst (f w))"
  shows "keeps I (on_ok Q) (local_step f)"
  using assms by (auto simp: local_step_def ok_def)

lemma keeps_silent_step: "(\<And>w. I w \<Longrightarrow> I (f w)) \<Longrightarrow> keeps I (on_ok (\<lambda>_. True)) (silent_step f)"
  by (auto simp: silent_step_def ok_def)

lemma keeps_if [keeps_intro]:
  "(b \<Longrightarrow> keeps I Q p) \<Longrightarrow> (\<not> b \<Longrightarrow> keeps I Q q) \<Longrightarrow> keeps I Q (if b then p else q)"
  by simp

lemma keeps_option:
  "(x = None \<Longrightarrow> keeps I Q p) \<Longrightarrow> (\<And>y. x = Some y \<Longrightarrow> keeps I Q (q y)) \<Longrightarrow>
   keeps I Q (case x of None \<Rightarrow> p | Some y \<Rightarrow> q y)"
  by (cases x) auto

subsection \<open>Pools of processes that keep an invariant\<close>

locale shared_world =
  fixes I :: "'w \<Rightarrow> bool"
    and of_program :: "('w, 'a) proc \<Rightarrow> bool"
  assumes steps_keep: "of_program p \<Longrightarrow> keeps I (\<lambda>_. True) p"
begin

lemma pool_keeps:
  assumes "list_all (keeps I (\<lambda>_. True)) ps" and "I w"
  shows "I (snd (run_pool sched ps w))"
  using assms
proof (induction sched ps w rule: run_pool.induct)
  case (1 ps w)
  then show ?case by simp
next
  case (2 n i sched ps w)
  show ?case
  proof (cases "n < length ps")
    case True
    then have kn: "keeps I (\<lambda>_. True) (ps ! n)" using "2.prems"(1) by (simp add: list_all_length)
    show ?thesis
    proof (cases "ps ! n")
      case (Finished x)
      then show ?thesis using 2 True by simp
    next
      case (Await e k)
      have "keeps I (\<lambda>_. True) (k i w)" using kn Await "2.prems"(2) by simp
      then have "list_all (keeps I (\<lambda>_. True)) (ps[n := k i w])"
        using "2.prems"(1) True by (simp add: list_all_length nth_list_update)
      moreover have "I (e i w)" using kn Await "2.prems"(2) by simp
      ultimately show ?thesis using "2.IH"(2) [OF True Await] True Await by simp
    qed
  next
    case False
    then show ?thesis using 2 by simp
  qed
qed

lemma pool_inv: "list_all of_program ps \<Longrightarrow> I w \<Longrightarrow> I (snd (run_pool sched ps w))"
  by (rule pool_keeps) (auto simp: list_all_iff intro: steps_keep)

lemma run_keeps: "keeps I Q p \<Longrightarrow> I w \<Longrightarrow> I (fst (snd (run_proc p is w)))"
  by (induction p arbitrary: "is" w rule: proc_induct) auto

lemma run_inv: "of_program p \<Longrightarrow> I w \<Longrightarrow> I (fst (snd (run_proc p is w)))"
  by (rule run_keeps [OF steps_keep])

end

end
