(* ===== verification/Payment_Store.thy ===== *)
theory Payment_Store
  imports Db_Process Ledger Status_Workflow Dispute_Machine Pii_Encryption
begin

text \<open>
  The tables that the reversal and the dispute services share (\<open>src/src/models/transaction.ts\<close>,
  \<open>src/src/models/dispute.ts\<close>, the migrations), with \<open>TransactionModel.findById\<close> and
  \<open>TransactionModel.updateStatus\<close>.

  The world of a process is the list of the versions of these tables, the current one first, the
  ledger (only used on the primary) and the notifications delivered. A write adds a version; a read
  answered by a replica sees an older one. Identifiers of rows are positions, so rows are in the order
  of their creation; the time of a notification is the number of audit events before it. The type, amount and provider of a transaction occur
  only in the text of a notification and are not modelled. Its encrypted columns (telephone number, address, notes),
  which no statement modelled here changes, are present as what their decryption comes to: \<open>tx_unreadable\<close> is the
  error that \<open>decrypt\<close> throws on one of them, if it does (theory \<open>Pii_Encryption\<close>), and a row that cannot be
  decrypted cannot be read. The caches, whose errors are only logged, are not part of the world.

  \<open>TransactionModel.updateStatus\<close> uses an identifier that no file declares,
  \<open>TERMINAL_IDEMPOTENCY_STATUSES\<close>: its value is a parameter, and \<open>None\<close> is the program as it is, where
  its evaluation throws a \<open>ReferenceError\<close>.
\<close>

subsection \<open>Rows\<close>

record tx_row =
  tx_id :: string
  tx_reference :: string
  tx_status :: transaction_status
  tx_user :: "string option"
  tx_key :: "string option"
  tx_unreadable :: "enc_error option"

datatype reversal_status = Requested | Posted | Notified | Reversal_failed

datatype service_error =
  ConnectionLost
| DatabaseError pg_error
| UniqueViolation
| ReferenceError string
| TypeError string
| TransactionNotFound string
| CannotReverse transaction_status
| LedgerRefused ledger_error
| WorkflowRefused workflow_error
| DisputeNotFound nat
| DisputeNotAllowed transaction_status
| ActiveDisputeExists nat
| CannotTransition dispute_status dispute_status
| ResolutionTextRequired "dispute_status option"
| CannotResolve dispute_status
| CannotAssign dispute_status
| NoFieldsToUpdate
| NoAvailableAgents
| DecryptionError enc_error

record reversal_record =
  rv_id :: "nat option"
  rv_transaction :: string
  rv_original :: string
  rv_reference :: "string option"
  rv_reason :: string
  rv_status :: reversal_status
  rv_requested_by :: "string option"
  rv_approved_by :: "string option"
  rv_ledger_entries :: nat
  rv_already_reversed :: bool
  rv_error :: "service_error option"
  rv_notified_at :: "nat option"

text \<open>The \<open>detail\<close> of a transition: the properties it may have.\<close>

record reversal_detail =
  dt_reason :: "string option"
  dt_reference :: "string option"
  dt_entries :: "nat option"
  dt_already :: "bool option"
  dt_error :: "service_error option"
  dt_retried :: bool

record reversal_event =
  ev_reversal :: nat
  ev_from :: "reversal_status option"
  ev_to :: reversal_status
  ev_actor :: "string option"
  ev_detail :: reversal_detail

record dispute_row =
  d_id :: nat
  d_transaction :: string
  d_reason :: string
  d_status :: dispute_status
  d_assigned :: "string option"
  d_resolution :: "string option"
  d_reported_by :: "string option"
  d_priority :: dispute_priority
  d_category :: "string option"
  d_internal_notes :: "string option"

record note_row =
  n_dispute :: nat
  n_author :: string
  n_text :: string

record timeline_row =
  tl_dispute :: nat
  tl_type :: string
  tl_actor :: string
  tl_old :: "dispute_status option"
  tl_new :: "dispute_status option"

record store =
  txs :: "(string, tx_row) js_map"
  reversals :: "reversal_record list"
  reversal_events :: "reversal_event list"
  disputes :: "dispute_row list"
  dispute_notes :: "note_row list"
  dispute_timeline :: "timeline_row list"

datatype notice = Reversal_notice "nat option" | Dispute_notice string nat dispute_status

record world =
  versions :: "store list"
  ledger :: ledger_db
  notices :: "notice list"

type_synonym 'a service = "(world, service_error + 'a) proc"

text \<open>The unique index on the transaction of the active disputes (\<open>src/migrations/002_add_disputes.sql\<close>).\<close>

definition active_dispute :: "dispute_row \<Rightarrow> bool" where
  "active_dispute d = (d_status d = Open \<or> d_status d = Investigating)"

definition unique_active :: "dispute_row list \<Rightarrow> bool" where
  "unique_active ds = distinct (map d_transaction (filter active_dispute ds))"

subsection \<open>queryRead and queryWrite\<close>

definition current :: "world \<Rightarrow> store" where
  "current w = hd (versions w)"

definition version :: "nat \<Rightarrow> world \<Rightarrow> store" where
  "version n w = versions w ! min n (length (versions w) - 1)"

definition commit :: "store \<Rightarrow> world \<Rightarrow> world" where
  "commit s w = w\<lparr>versions := s # versions w\<rparr>"

definition queryRead :: "(store \<Rightarrow> 'a) \<Rightarrow> 'a service" where
  "queryRead f = read_call (\<lambda>n w. f (version n w)) ConnectionLost"

definition queryWrite :: "(store \<Rightarrow> service_error + 'a \<times> store) \<Rightarrow> 'a service" where
  "queryWrite f = call (\<lambda>w. case f (current w) of Inl e \<Rightarrow> (Inl e, w) | Inr (x, s) \<Rightarrow> (Inr x, commit s w)) ConnectionLost"

text \<open>A call whose effect, if any, is the delivery of messages.\<close>

definition send :: "notice list \<Rightarrow> unit service" where
  "send ms = call (\<lambda>w. (Inr (), w\<lparr>notices := notices w @ ms\<rparr>)) ConnectionLost"

subsection \<open>TransactionModel\<close>

definition mapTransactionRow :: "tx_row option \<Rightarrow> tx_row option service" where
  "mapTransactionRow row = (case row of None \<Rightarrow> ok None
     | Some t \<Rightarrow> (case tx_unreadable t of Some e \<Rightarrow> throw (DecryptionError e) | None \<Rightarrow> ok (Some t)))"

definition findTransaction :: "string \<Rightarrow> string option \<Rightarrow> tx_row option service" where
  "findTransaction tx userId =
     and_then (queryRead (\<lambda>s. case map_get (txs s) tx of None \<Rightarrow> None
       | Some t \<Rightarrow> if truthy_string userId \<and> tx_user t \<noteq> userId then None else Some t)) mapTransactionRow"

definition update_tx :: "string \<Rightarrow> string option \<Rightarrow> (tx_row \<Rightarrow> tx_row) \<Rightarrow> store \<Rightarrow> service_error + tx_row option \<times> store" where
  "update_tx tx userId f s =
     (case map_get (txs s) tx of None \<Rightarrow> Inr (None, s)
      | Some t \<Rightarrow> if truthy_string userId \<and> tx_user t \<noteq> userId then Inr (None, s)
                  else Inr (Some (f t), s\<lparr>txs := map_set tx (f t) (txs s)\<rparr>))"

definition releaseIdempotencyKey :: "string \<Rightarrow> bool service" where
  "releaseIdempotencyKey tx =
     queryWrite (\<lambda>s. case map_get (txs s) tx of
       Some t \<Rightarrow> if tx_key t \<noteq> None then Inr (True, s\<lparr>txs := map_set tx (t\<lparr>tx_key := None\<rparr>) (txs s)\<rparr>) else Inr (False, s)
     | None \<Rightarrow> Inr (False, s))"

definition release_if_terminal :: "transaction_status list option \<Rightarrow> string \<Rightarrow> transaction_status \<Rightarrow> unit service" where
  "release_if_terminal terminal tx status =
     (case terminal of None \<Rightarrow> throw (ReferenceError ''TERMINAL_IDEMPOTENCY_STATUSES'')
      | Some ss \<Rightarrow> if status \<in> set ss
          then catch (and_then (releaseIdempotencyKey tx) (\<lambda>_. ok ())) (\<lambda>_. ok ())
          else ok ())"

text \<open>
  After the row, the caches and the key come three messages that are awaited: the change for the subscribers of
  the transaction, the same for those of all transactions, and the broadcast to the web sockets.
\<close>

definition updateTransactionStatus ::
  "transaction_status list option \<Rightarrow> string \<Rightarrow> transaction_status \<Rightarrow> string option \<Rightarrow> transaction_status option \<Rightarrow> unit service" where
  "updateTransactionStatus terminal tx status userId currentStatus =
     and_then (case currentStatus of None \<Rightarrow> ok ()
         | Some c \<Rightarrow> (case validateBaseTransition tx c status of Inl e \<Rightarrow> throw (WorkflowRefused e) | Inr _ \<Rightarrow> ok ()))
       (\<lambda>_. and_then (queryWrite (update_tx tx userId (\<lambda>t. t\<lparr>tx_status := status\<rparr>)))
       (\<lambda>row. case row of None \<Rightarrow> ok ()
         | Some _ \<Rightarrow> and_then (release_if_terminal terminal tx status) (\<lambda>_.
             and_then (send []) (\<lambda>_. and_then (send []) (\<lambda>_. send [])))))"

subsection \<open>Running a call\<close>

lemma version_0: "version 0 w = hd (versions w)" if "versions w \<noteq> []"
  using that by (cases "versions w") (simp_all add: version_def)

lemma version_in: "versions w \<noteq> [] \<Longrightarrow> version n w \<in> set (versions w)"
  unfolding version_def by (rule nth_mem) (cases "versions w", simp_all)

lemma commit_simps [simp]:
  "versions (commit s w) = s # versions w" "ledger (commit s w) = ledger w" "notices (commit s w) = notices w"
  "current (commit s w) = s"
  by (simp_all add: commit_def current_def)

lemma current_other [simp]:
  "current (w\<lparr>ledger := l\<rparr>) = current w" "current (w\<lparr>notices := ms\<rparr>) = current w"
  by (simp_all add: current_def)

lemma version_current: "versions w \<noteq> [] \<Longrightarrow> version 0 w = current w"
  by (simp add: current_def version_0)

lemma run_queryRead [proc_simps]:
  "run_proc (queryRead f) is w = (case first_outcome is of
     Fresh \<Rightarrow> Inr (f (version 0 w)) | Stale n \<Rightarrow> Inr (f (version n w)) | _ \<Rightarrow> Inl ConnectionLost, w, tl is)"
  by (simp add: queryRead_def run_read_call)

lemma run_queryWrite [proc_simps]:
  "run_proc (queryWrite f) is w = (case f (current w) of
     Inl e \<Rightarrow> (Inl (if first_outcome is = Lost \<or> first_outcome is = Lost_after then ConnectionLost else e), w, tl is)
   | Inr (x, s) \<Rightarrow> (if first_outcome is = Lost \<or> first_outcome is = Lost_after then Inl ConnectionLost else Inr x,
       if first_outcome is = Lost then w else commit s w, tl is))"
  by (auto simp: queryWrite_def run_call Let_def split: sum.splits)

lemma run_send [proc_simps]:
  "run_proc (send ms) is w = (if first_outcome is = Lost \<or> first_outcome is = Lost_after then Inl ConnectionLost else Inr (),
     if first_outcome is = Lost then w else w\<lparr>notices := notices w @ ms\<rparr>, tl is)"
  by (simp add: send_def run_call Let_def)

end
