(* ===== verification/Reversal.thy ===== *)
theory Reversal
  imports Payment_Store
begin

text \<open>
  \<open>src/src/services/transactionReversalService.ts\<close>: the reversal of a transaction, its record with the
  states requested, posted, notified and failed, the audit trail, the notification and its retry, on
  top of \<open>ledgerService.postReversal\<close> (theory \<open>Ledger\<close>).

  \<open>persist\<close> is the constructor argument: without it no record is kept (identifier \<open>None\<close>). \<open>order\<close> and
  \<open>today\<close> are the parameters of the ledger. The tables \<open>transaction_reversals\<close> and
  \<open>transaction_reversal_events\<close> have the columns and the widths of their migration
  (\<open>src/migrations/20260903_transaction_reversal_tracking.sql\<close>). The router of the notifications is
  outside this model: the call delivers the message or throws.
\<close>

subsection \<open>Records and the audit trail\<close>

definition no_detail :: reversal_detail where
  "no_detail = \<lparr>dt_reason = None, dt_reference = None, dt_entries = None, dt_already = None, dt_error = None,
     dt_retried = False\<rparr>"

definition isTerminal :: "reversal_status \<Rightarrow> bool" where
  "isTerminal st = (st = Notified \<or> st = Reversal_failed)"

definition long_actor :: "string option \<Rightarrow> bool" where
  "long_actor actor = (case actor of None \<Rightarrow> False | Some a \<Rightarrow> 255 < length a)"

definition find_reversal :: "nat \<Rightarrow> store \<Rightarrow> reversal_record option" where
  "find_reversal rid s = find (\<lambda>r. rv_id r = Some rid) (reversals s)"

definition getReversal :: "bool \<Rightarrow> nat option \<Rightarrow> reversal_record option service" where
  "getReversal persist rid =
     (case rid of Some i \<Rightarrow> if persist then queryRead (find_reversal i) else ok None | None \<Rightarrow> ok None)"

definition getLatestReversal :: "bool \<Rightarrow> string \<Rightarrow> reversal_record option service" where
  "getLatestReversal persist tx =
     (if persist then queryRead (\<lambda>s. find (\<lambda>r. rv_transaction r = tx) (rev (reversals s))) else ok None)"

definition listReversals :: "bool \<Rightarrow> string \<Rightarrow> reversal_record list service" where
  "listReversals persist tx =
     (if persist then queryRead (\<lambda>s. filter (\<lambda>r. rv_transaction r = tx) (rev (reversals s))) else ok [])"

definition getAuditTrail :: "bool \<Rightarrow> nat \<Rightarrow> reversal_event list service" where
  "getAuditTrail persist rid =
     (if persist then queryRead (\<lambda>s. filter (\<lambda>e. ev_reversal e = rid) (reversal_events s)) else ok [])"

definition findUnnotifiedReversals :: "bool \<Rightarrow> nat \<Rightarrow> reversal_record list service" where
  "findUnnotifiedReversals persist limit =
     (if persist then queryRead (\<lambda>s. take limit (filter (\<lambda>r. rv_status r = Posted \<and> rv_notified_at r = None) (reversals s)))
      else ok [])"

definition insert_event :: "reversal_event \<Rightarrow> store \<Rightarrow> service_error + unit \<times> store" where
  "insert_event e s =
     (if long_actor (ev_actor e) then Inl (DatabaseError StringTooLong)
      else if \<not> list_ex (\<lambda>r. rv_id r = Some (ev_reversal e)) (reversals s) then Inl (DatabaseError ForeignKeyViolation)
      else Inr ((), s\<lparr>reversal_events := reversal_events s @ [e]\<rparr>))"

definition appendAuditEvent ::
  "bool \<Rightarrow> nat option \<Rightarrow> reversal_status option \<Rightarrow> reversal_status \<Rightarrow> string option \<Rightarrow> reversal_detail \<Rightarrow> unit service" where
  "appendAuditEvent persist rid from_status to_status actor detail =
     (case rid of None \<Rightarrow> ok ()
      | Some i \<Rightarrow> if \<not> persist then ok ()
          else catch (queryWrite (insert_event \<lparr>ev_reversal = i, ev_from = from_status, ev_to = to_status,
                        ev_actor = actor, ev_detail = detail\<rparr>)) (\<lambda>_. ok ()))"

definition new_reversal :: "nat option \<Rightarrow> string \<Rightarrow> string \<Rightarrow> string \<Rightarrow> string option \<Rightarrow> reversal_record" where
  "new_reversal rid tx original why requestedBy =
     \<lparr>rv_id = rid, rv_transaction = tx, rv_original = original, rv_reference = None, rv_reason = why,
      rv_status = Requested, rv_requested_by = requestedBy, rv_approved_by = None, rv_ledger_entries = 0,
      rv_already_reversed = False, rv_error = None, rv_notified_at = None\<rparr>"

definition insert_reversal ::
  "string \<Rightarrow> string \<Rightarrow> string \<Rightarrow> string option \<Rightarrow> store \<Rightarrow> service_error + reversal_record \<times> store" where
  "insert_reversal tx original why requestedBy s =
     (if 100 < length original \<or> long_actor requestedBy then Inl (DatabaseError StringTooLong)
      else let r = new_reversal (Some (length (reversals s))) tx original why requestedBy
           in Inr (r, s\<lparr>reversals := reversals s @ [r]\<rparr>))"

definition createReversalRecord ::
  "bool \<Rightarrow> string \<Rightarrow> string \<Rightarrow> string \<Rightarrow> string option \<Rightarrow> reversal_record service" where
  "createReversalRecord persist tx original why requestedBy =
     (if \<not> persist then ok (new_reversal None tx original why requestedBy)
      else and_then (queryWrite (insert_reversal tx original why requestedBy))
        (\<lambda>r. and_then (appendAuditEvent persist (rv_id r) None Requested requestedBy (no_detail\<lparr>dt_reason := Some why\<rparr>))
          (\<lambda>_. ok r)))"

text \<open>The UPDATE of a transition: the columns that the detail names, and \<open>notified_at\<close>.\<close>

definition set_reversal :: "reversal_status \<Rightarrow> reversal_detail \<Rightarrow> nat \<Rightarrow> reversal_record \<Rightarrow> reversal_record" where
  "set_reversal to_status detail now r =
     (let r1 = r\<lparr>rv_status := to_status\<rparr>;
          r2 = (case dt_reference detail of None \<Rightarrow> r1 | Some x \<Rightarrow> r1\<lparr>rv_reference := Some x\<rparr>);
          r3 = (case dt_entries detail of None \<Rightarrow> r2 | Some n \<Rightarrow> r2\<lparr>rv_ledger_entries := n\<rparr>);
          r4 = (case dt_already detail of None \<Rightarrow> r3 | Some b \<Rightarrow> r3\<lparr>rv_already_reversed := b\<rparr>);
          r5 = (case dt_error detail of None \<Rightarrow> r4 | Some e \<Rightarrow> r4\<lparr>rv_error := Some e\<rparr>)
      in if to_status = Notified then r5\<lparr>rv_notified_at := Some now\<rparr> else r5)"

definition update_reversal ::
  "nat \<Rightarrow> reversal_status \<Rightarrow> reversal_detail \<Rightarrow> store \<Rightarrow> service_error + unit \<times> store" where
  "update_reversal rid to_status detail s =
     Inr ((), s\<lparr>reversals := map (\<lambda>r. if rv_id r = Some rid
        then set_reversal to_status detail (length (reversal_events s)) r else r) (reversals s)\<rparr>)"

definition transition_reversal ::
  "bool \<Rightarrow> nat option \<Rightarrow> reversal_status \<Rightarrow> string option \<Rightarrow> reversal_detail \<Rightarrow> unit service" where
  "transition_reversal persist rid to_status actor detail =
     (case rid of None \<Rightarrow> ok ()
      | Some i \<Rightarrow> if \<not> persist then ok ()
          else and_then (getReversal persist rid) (\<lambda>cur.
            if (case cur of None \<Rightarrow> False | Some r \<Rightarrow> isTerminal (rv_status r)) then ok ()
            else and_then (queryWrite (update_reversal i to_status detail))
              (\<lambda>_. appendAuditEvent persist rid (map_option rv_status cur) to_status actor detail)))"

subsection \<open>Notification\<close>

definition notifyReversal :: "tx_row \<Rightarrow> nat option \<Rightarrow> bool service" where
  "notifyReversal t rid =
     (if \<not> truthy_string (tx_user t) then ok False
      else catch (and_then (send [Reversal_notice rid]) (\<lambda>_. ok True)) (\<lambda>_. ok False))"

definition retryNotification :: "bool \<Rightarrow> nat \<Rightarrow> bool service" where
  "retryNotification persist rid =
     and_then (getReversal persist (Some rid)) (\<lambda>record. case record of None \<Rightarrow> ok False
     | Some r \<Rightarrow> if rv_status r \<noteq> Posted \<and> rv_status r \<noteq> Notified then ok False
       else and_then (findTransaction (rv_transaction r) None) (\<lambda>t. case t of None \<Rightarrow> ok False
       | Some t \<Rightarrow> and_then (notifyReversal t (rv_id r)) (\<lambda>delivered.
           if delivered \<and> rv_status r = Posted
           then and_then (transition_reversal persist (rv_id r) Notified None (no_detail\<lparr>dt_retried := True\<rparr>))
             (\<lambda>_. ok delivered)
           else ok delivered)))"

subsection \<open>The reversal\<close>

record reversal_outcome =
  out_transaction :: tx_row
  out_already :: bool
  out_entries :: "posted_entry list"
  out_record :: "reversal_record option"
  out_notified :: bool

text \<open>\<open>ledgerService.postReversal\<close> is one transaction of the database, so one step.\<close>

definition ledger_reversal ::
  "(ledger_row list \<Rightarrow> ledger_row list) \<Rightarrow> int \<Rightarrow> string \<Rightarrow> string \<Rightarrow> string \<Rightarrow> string option \<Rightarrow> (bool \<times> posted_entry list) service" where
  "ledger_reversal order today tx ref why actor =
     call (\<lambda>w. case postReversal order tx ref why actor today (ledger w) of
         (Inl e, l) \<Rightarrow> (Inl (LedgerRefused e), w\<lparr>ledger := l\<rparr>)
       | (Inr x, l) \<Rightarrow> (Inr x, w\<lparr>ledger := l\<rparr>)) ConnectionLost"

definition reversal_allowed :: "bool \<Rightarrow> transaction_status \<Rightarrow> bool" where
  "reversal_allowed allowCompleted st =
     (st \<in> set ([Status_Workflow.Failed, Dispute] @ (if allowCompleted then [Completed] else [])))"

definition execute_reversal ::
  "transaction_status list option \<Rightarrow> (ledger_row list \<Rightarrow> ledger_row list) \<Rightarrow> int \<Rightarrow> bool \<Rightarrow> tx_row \<Rightarrow> string \<Rightarrow> string option \<Rightarrow>
    nat option \<Rightarrow> reversal_outcome service" where
  "execute_reversal terminal order today persist t why actor rid =
     and_then (ledger_reversal order today (tx_id t) (tx_reference t) why actor) (\<lambda>(already, entries).
     and_then (if tx_status t \<noteq> Status_Workflow.Reversed
               then updateTransactionStatus terminal (tx_id t) Status_Workflow.Reversed None None else ok ()) (\<lambda>_.
     and_then (transition_reversal persist rid Posted actor (no_detail\<lparr>dt_reference := Some (''REV-'' @ tx_reference t),
         dt_entries := Some (length entries), dt_already := Some already\<rparr>)) (\<lambda>_.
     and_then (notifyReversal t rid) (\<lambda>notified.
     and_then (if notified then transition_reversal persist rid Notified actor no_detail else ok ()) (\<lambda>_.
     and_then (findTransaction (tx_id t) None) (\<lambda>updated.
     and_then (getReversal persist rid) (\<lambda>record.
       ok \<lparr>out_transaction = (case updated of None \<Rightarrow> t | Some t' \<Rightarrow> t'), out_already = already, out_entries = entries,
           out_record = record, out_notified = notified\<rparr>)))))))"

definition reverse_transaction ::
  "transaction_status list option \<Rightarrow> (ledger_row list \<Rightarrow> ledger_row list) \<Rightarrow> int \<Rightarrow> bool \<Rightarrow> string \<Rightarrow> string \<Rightarrow> string option \<Rightarrow>
    bool \<Rightarrow> reversal_outcome service" where
  "reverse_transaction terminal order today persist tx why actor allowCompleted =
     and_then (findTransaction tx None) (\<lambda>found. case found of None \<Rightarrow> throw (TransactionNotFound tx)
     | Some t \<Rightarrow> if tx_status t = Status_Workflow.Reversed
         then and_then (getLatestReversal persist (tx_id t)) (\<lambda>record.
           ok \<lparr>out_transaction = t, out_already = True, out_entries = [], out_record = record, out_notified = False\<rparr>)
         else if \<not> reversal_allowed allowCompleted (tx_status t) then throw (CannotReverse (tx_status t))
         else and_then (createReversalRecord persist (tx_id t) (tx_reference t) why actor) (\<lambda>r.
           catch (execute_reversal terminal order today persist t why actor (rv_id r))
             (\<lambda>e. and_then (transition_reversal persist (rv_id r) Reversal_failed actor (no_detail\<lparr>dt_error := Some e\<rparr>))
               (\<lambda>_. throw e))))"

subsection \<open>What every step keeps\<close>

text \<open>
  The tables are well formed: the references of the transactions do not change, the identifiers of
  reversals and disputes are their positions, a reversal that was posted has its reference and one that
  was notified its time, an audit event belongs to a reversal, and a transaction has at most one active
  dispute. The ledger is sound, and the rows of the transaction \<open>tx\<close> are the original ones or these with
  one cancelling batch.
\<close>

definition references_ok :: "(string \<Rightarrow> string) \<Rightarrow> store \<Rightarrow> bool" where
  "references_ok ref s \<longleftrightarrow> (\<forall>k t. map_get (txs s) k = Some t \<longrightarrow> tx_id t = k \<and> tx_reference t = ref k)"

definition reversal_ok :: "reversal_record \<Rightarrow> bool" where
  "reversal_ok r \<longleftrightarrow> (rv_status r = Posted \<longrightarrow> rv_reference r \<noteq> None) \<and> (rv_status r = Notified \<longrightarrow> rv_notified_at r \<noteq> None)"

definition reversals_ok :: "store \<Rightarrow> bool" where
  "reversals_ok s \<longleftrightarrow> map rv_id (reversals s) = map Some [0..<length (reversals s)] \<and> (\<forall>r \<in> set (reversals s). reversal_ok r) \<and>
     (\<forall>e \<in> set (reversal_events s). ev_reversal e < length (reversals s))"

definition disputes_ok :: "store \<Rightarrow> bool" where
  "disputes_ok s \<longleftrightarrow> map d_id (disputes s) = [0..<length (disputes s)] \<and> unique_active (disputes s)"

definition store_ok :: "(string \<Rightarrow> string) \<Rightarrow> store \<Rightarrow> bool" where
  "store_ok ref s \<longleftrightarrow> references_ok ref s \<and> reversals_ok s \<and> disputes_ok s"

definition cancelled_by :: "string \<Rightarrow> string \<Rightarrow> ledger_row list \<Rightarrow> ledger_db \<Rightarrow> bool" where
  "cancelled_by tx rf rows0 l \<longleftrightarrow> (\<exists>batch. rows_of tx l = rows0 @ batch \<and> batch \<noteq> [] \<and>
     (\<forall>r \<in> set batch. row_reference r = reversal_reference rf) \<and> (\<forall>code. net code batch = - net code rows0))"

definition reversal_inv :: "string \<Rightarrow> (string \<Rightarrow> string) \<Rightarrow> ledger_row list \<Rightarrow> world \<Rightarrow> bool" where
  "reversal_inv tx ref rows0 w \<longleftrightarrow> versions w \<noteq> [] \<and> (\<forall>s \<in> set (versions w). store_ok ref s) \<and>
     ledger_ok (ledger w) \<and> (rows_of tx (ledger w) = rows0 \<or> cancelled_by tx (ref tx) rows0 (ledger w))"

definition small_rows :: "ledger_row list \<Rightarrow> bool" where
  "small_rows rows \<longleftrightarrow> (\<forall>r \<in> set rows. decimal_value (row_debit r) < 2 ^ 26 \<and> decimal_value (row_credit r) < 2 ^ 26)"

definition ledger_order :: "(ledger_row list \<Rightarrow> ledger_row list) \<Rightarrow> bool" where
  "ledger_order order \<longleftrightarrow> (\<forall>rows. mset (order rows) = mset rows)"

lemma reversal_other:
  assumes "postReversal order tx' ref why pb today l = (r, l')" and "tx' \<noteq> tx" and "tx \<noteq> []"
  shows "rows_of tx l' = rows_of tx l"
proof (cases "\<exists>posted. r = Inr (False, posted)")
  case True
  then obtain posted where "postReversal order tx' ref why pb today l = (Inr (False, posted), l')" using assms(1) by blast
  from reversal_posted [OF this] obtain rows where "l' = l\<lparr>ledger_entries := ledger_entries l @ rows\<rparr>"
    and "\<forall>r \<in> set rows. row_transaction r = or_null (Some tx')"
    by (auto dest: client_Inr)
  then show ?thesis using assms(2) by (auto simp: rows_of_def or_null_def filter_empty_conv)
next
  case False
  then show ?thesis using reversal_unposted [OF assms(1)] by blast
qed

lemma reversal_same:
  assumes "postReversal order tx rf why pb today l = (r, l')" and "ledger_order order" and "tx \<noteq> []" and "small_rows rows0"
    and "ledger_ok l" and "rows_of tx l = rows0 \<or> cancelled_by tx rf rows0 l"
  shows "rows_of tx l' = rows0 \<or> cancelled_by tx rf rows0 l'"
proof (cases "\<exists>posted. r = Inr (False, posted)")
  case True
  then obtain posted where p: "postReversal order tx rf why pb today l = (Inr (False, posted), l')" using assms(1) by blast
  have none: "\<forall>r \<in> set (rows_of tx l). row_reference r \<noteq> reversal_reference rf"
    using p unfolding postReversal_def Let_def rows_of_def [symmetric] by (auto simp: filter_empty_conv split: if_splits)
  have rows0: "rows_of tx l = rows0"
  proof (rule ccontr)
    assume "rows_of tx l \<noteq> rows0"
    then obtain batch where "rows_of tx l = rows0 @ batch" "batch \<noteq> []" "\<forall>r \<in> set batch. row_reference r = reversal_reference rf"
      using assms(6) by (auto simp: cancelled_by_def)
    with none show False by (cases batch) auto
  qed
  obtain rows where "l' = l\<lparr>ledger_entries := ledger_entries l @ rows\<rparr>" and "rows \<noteq> []"
    and "\<forall>r \<in> set rows. row_transaction r = Some tx \<and> row_reference r = reversal_reference rf"
    and "\<And>code. net code rows = - net code (rows_of tx l)"
    using assms(2,4) rows0 by (rule_tac reversal_appends [OF assms(5) _ assms(3) _ p]) (auto simp: ledger_order_def small_rows_def)
  then have "rows_of tx l' = rows0 @ rows" "\<forall>r \<in> set rows. row_reference r = reversal_reference rf"
    "\<And>code. net code rows = - net code rows0" "rows \<noteq> []"
    using rows0 by (auto simp: rows_of_def)
  then show ?thesis unfolding cancelled_by_def by blast
next
  case False
  then show ?thesis using reversal_unposted [OF assms(1)] assms(6) by auto
qed

lemma keeps_queryRead:
  assumes "\<And>s. store_ok ref s \<Longrightarrow> Q (f s)"
  shows "keeps (reversal_inv tx ref rows0) (on_ok Q) (queryRead f)"
  unfolding queryRead_def by (rule keeps_read_call) (auto simp: reversal_inv_def intro!: assms version_in)

lemma keeps_queryWrite:
  assumes "\<And>s x s'. store_ok ref s \<Longrightarrow> f s = Inr (x, s') \<Longrightarrow> store_ok ref s' \<and> Q x"
  shows "keeps (reversal_inv tx ref rows0) (on_ok Q) (queryWrite f)"
  unfolding queryWrite_def
proof (rule keeps_call)
  fix w assume inv: "reversal_inv tx ref rows0 w"
  then have cur: "store_ok ref (current w)" by (auto simp: reversal_inv_def current_def)
  show "reversal_inv tx ref rows0 (snd (case f (current w) of Inl e \<Rightarrow> (Inl e, w) | Inr (x, s) \<Rightarrow> (Inr x, commit s w))) \<and>
      on_ok Q (fst (case f (current w) of Inl e \<Rightarrow> (Inl e, w) | Inr (x, s) \<Rightarrow> (Inr x, commit s w)))"
  proof (cases "f (current w)")
    case (Inl e)
    then show ?thesis using inv by simp
  next
    case (Inr p)
    obtain x s where p: "p = (x, s)" by (cases p)
    with assms [OF cur, of x s] Inr inv show ?thesis by (auto simp: reversal_inv_def)
  qed
qed

lemma keeps_send: "keeps (reversal_inv tx ref rows0) (on_ok (\<lambda>_. True)) (send ms)"
  unfolding send_def by (rule keeps_call) (simp add: reversal_inv_def)

subsection \<open>The operations keep it\<close>

definition row_of :: "(string \<Rightarrow> string) \<Rightarrow> string \<Rightarrow> tx_row option \<Rightarrow> bool" where
  "row_of ref tx found \<longleftrightarrow> (\<forall>t. found = Some t \<longrightarrow> tx_id t = tx \<and> tx_reference t = ref tx)"

lemma store_ok_row: "store_ok ref s \<Longrightarrow> map_get (txs s) tx = Some t \<Longrightarrow> tx_id t = tx \<and> tx_reference t = ref tx"
  by (simp add: store_ok_def references_ok_def)

lemma store_ok_set:
  "store_ok ref s \<Longrightarrow> tx_id t = tx \<Longrightarrow> tx_reference t = ref tx \<Longrightarrow> store_ok ref (s\<lparr>txs := map_set tx t (txs s)\<rparr>)"
  by (auto simp: store_ok_def references_ok_def reversals_ok_def disputes_ok_def map_get_set)

lemma store_ok_other [simp]:
  "store_ok ref (s\<lparr>dispute_notes := ns\<rparr>) = store_ok ref s"
  "store_ok ref (s\<lparr>dispute_timeline := ts\<rparr>) = store_ok ref s"
  by (simp_all add: store_ok_def references_ok_def reversals_ok_def disputes_ok_def)

lemma rv_id_less: "map rv_id rs = map Some [0..<length rs] \<Longrightarrow> r \<in> set rs \<Longrightarrow> rv_id r = Some i \<Longrightarrow> i < length rs"
  by (metis (mono_tags, lifting) atLeastLessThan_iff image_eqI image_iff list.set_map option.inject set_upt)

lemma store_ok_insert_event: "store_ok ref s \<Longrightarrow> insert_event e s = Inr (x, s') \<Longrightarrow> store_ok ref s'"
  by (auto simp: store_ok_def references_ok_def reversals_ok_def disputes_ok_def insert_event_def list_ex_iff
      dest: rv_id_less split: if_splits)

lemma store_ok_insert_reversal: "store_ok ref s \<Longrightarrow> insert_reversal tx original why by_whom s = Inr (x, s') \<Longrightarrow> store_ok ref s'"
  by (auto simp: store_ok_def references_ok_def reversals_ok_def disputes_ok_def insert_reversal_def new_reversal_def
      reversal_ok_def Let_def less_Suc_eq split: if_splits)

definition marks_posted :: "reversal_status \<Rightarrow> reversal_detail \<Rightarrow> bool" where
  "marks_posted to_status detail \<longleftrightarrow> (to_status = Posted \<longrightarrow> dt_reference detail \<noteq> None)"

lemma set_reversal_ok: "marks_posted to_status detail \<Longrightarrow> reversal_ok (set_reversal to_status detail now r)"
  by (auto simp: marks_posted_def reversal_ok_def set_reversal_def Let_def split: option.splits)

lemma set_reversal_id [simp]: "rv_id (set_reversal to_status detail now r) = rv_id r"
  by (simp add: set_reversal_def Let_def split: option.splits)

lemma store_ok_update_reversal:
  "store_ok ref s \<Longrightarrow> marks_posted to_status detail \<Longrightarrow> update_reversal rid to_status detail s = Inr (x, s') \<Longrightarrow> store_ok ref s'"
  by (auto simp: store_ok_def references_ok_def reversals_ok_def disputes_ok_def update_reversal_def set_reversal_ok
      comp_def if_distrib [of rv_id] cong: if_cong)

lemma keeps_find: "keeps (reversal_inv tx ref rows0) (on_ok (row_of ref tx')) (findTransaction tx' user)"
  unfolding findTransaction_def
proof (rule keeps_and_then)
  show "keeps (reversal_inv tx ref rows0) (on_ok (row_of ref tx')) (queryRead (\<lambda>s. case map_get (txs s) tx' of None \<Rightarrow> None
       | Some t \<Rightarrow> if truthy_string user \<and> tx_user t \<noteq> user then None else Some t))"
    by (rule keeps_queryRead) (auto simp: row_of_def dest: store_ok_row split: option.splits)
  show "keeps (reversal_inv tx ref rows0) (on_ok (row_of ref tx')) (mapTransactionRow row)" if "row_of ref tx' row" for row
    using that by (auto simp: mapTransactionRow_def intro!: keeps_throw keeps_ok split: option.splits)
qed

lemma keeps_updateTransactionStatus:
  "keeps (reversal_inv tx ref rows0) (on_ok (\<lambda>_. True)) (updateTransactionStatus terminal tx' st user cur)"
proof -
  have upd: "keeps (reversal_inv tx ref rows0) (on_ok (\<lambda>_. True)) (queryWrite (update_tx tx' user (\<lambda>t. t\<lparr>tx_status := st\<rparr>)))"
    by (rule keeps_queryWrite)
      (auto simp: update_tx_def dest: store_ok_row intro!: store_ok_set split: option.splits if_splits)
  have rel: "keeps (reversal_inv tx ref rows0) (on_ok (\<lambda>_. True)) (releaseIdempotencyKey tx')"
    unfolding releaseIdempotencyKey_def
    by (rule keeps_queryWrite) (auto dest: store_ok_row intro!: store_ok_set split: option.splits if_splits)
  have "keeps (reversal_inv tx ref rows0) (on_ok (\<lambda>_. True)) (release_if_terminal terminal tx' st)"
    by (auto simp: release_if_terminal_def split: option.splits
        intro!: keeps_intro keeps_and_then [OF rel])
  then show ?thesis unfolding updateTransactionStatus_def
    by (auto intro!: keeps_intro keeps_and_then [where Q = "\<lambda>_. True"] upd keeps_send split: option.splits sum.splits)
qed

lemma keeps_getReversal: "keeps (reversal_inv tx ref rows0) (on_ok (\<lambda>_. True)) (getReversal persist rid)"
  by (auto simp: getReversal_def intro!: keeps_intro keeps_queryRead split: option.splits)

lemma keeps_appendAuditEvent:
  "keeps (reversal_inv tx ref rows0) (on_ok (\<lambda>_. True)) (appendAuditEvent persist rid from_status to_status actor detail)"
  by (auto simp: appendAuditEvent_def intro!: keeps_intro keeps_queryWrite intro: store_ok_insert_event split: option.splits)

lemma keeps_createReversalRecord:
  "keeps (reversal_inv tx ref rows0) (on_ok (\<lambda>_. True)) (createReversalRecord persist tx' original why by_whom)"
  by (auto simp: createReversalRecord_def intro: store_ok_insert_reversal
      intro!: keeps_intro keeps_and_then [where Q = "\<lambda>_. True"] keeps_queryWrite keeps_appendAuditEvent)

lemma keeps_transition_reversal:
  "marks_posted to_status detail \<Longrightarrow> keeps (reversal_inv tx ref rows0) (on_ok (\<lambda>_. True)) (transition_reversal persist rid to_status actor detail)"
  by (auto simp: transition_reversal_def split: option.splits intro: store_ok_update_reversal
      intro!: keeps_intro keeps_and_then [where Q = "\<lambda>_. True"] keeps_getReversal keeps_queryWrite keeps_appendAuditEvent)

lemma keeps_notifyReversal: "keeps (reversal_inv tx ref rows0) (on_ok (\<lambda>_. True)) (notifyReversal t rid)"
  by (auto simp: notifyReversal_def intro!: keeps_intro keeps_and_then [where Q = "\<lambda>_. True"] keeps_send)

lemma marks_posted_simps [simp]: "marks_posted Notified d" "marks_posted Reversal_failed d"
  "marks_posted Posted (d\<lparr>dt_reference := Some x\<rparr>)" "marks_posted Posted (d\<lparr>dt_reference := Some x, dt_entries := n, dt_already := b\<rparr>)"
  by (simp_all add: marks_posted_def)

lemmas keeps_parts = keeps_getReversal keeps_transition_reversal keeps_notifyReversal keeps_updateTransactionStatus
  keeps_createReversalRecord keeps_appendAuditEvent keeps_send

lemma keeps_retryNotification: "keeps (reversal_inv tx ref rows0) (on_ok (\<lambda>_. True)) (retryNotification persist rid)"
  unfolding retryNotification_def
  by (auto intro!: keeps_intro keeps_and_then [where Q = "\<lambda>_. True"] keeps_parts keeps_weaken [OF keeps_find] split: option.splits)

lemma keeps_ledger_reversal:
  assumes "ledger_order order" and "tx \<noteq> []" and "small_rows rows0"
  shows "keeps (reversal_inv tx ref rows0) (on_ok (\<lambda>_. True)) (ledger_reversal order today tx' (ref tx') why actor)"
  unfolding ledger_reversal_def
proof (rule keeps_call)
  fix w assume inv: "reversal_inv tx ref rows0 w"
  obtain r l where p: "postReversal order tx' (ref tx') why actor today (ledger w) = (r, l)"
    by (cases "postReversal order tx' (ref tx') why actor today (ledger w)")
  have okl: "ledger_ok l" using inv p postReversal_ok [of "ledger w" order tx' "ref tx'" why actor today] by (simp add: reversal_inv_def)
  have "rows_of tx l = rows0 \<or> cancelled_by tx (ref tx) rows0 l"
  proof (cases "tx' = tx")
    case True
    then show ?thesis using reversal_same [OF p [unfolded True] assms] inv by (simp add: reversal_inv_def)
  next
    case False
    from reversal_other [OF p False assms(2)] inv show ?thesis by (auto simp: reversal_inv_def cancelled_by_def)
  qed
  with inv okl have "reversal_inv tx ref rows0 (w\<lparr>ledger := l\<rparr>)" by (simp add: reversal_inv_def)
  then show "reversal_inv tx ref rows0 (snd (case postReversal order tx' (ref tx') why actor today (ledger w) of
         (Inl e, l) \<Rightarrow> (Inl (LedgerRefused e), w\<lparr>ledger := l\<rparr>) | (Inr x, l) \<Rightarrow> (Inr x, w\<lparr>ledger := l\<rparr>))) \<and>
      on_ok (\<lambda>_. True) (fst (case postReversal order tx' (ref tx') why actor today (ledger w) of
         (Inl e, l) \<Rightarrow> (Inl (LedgerRefused e), w\<lparr>ledger := l\<rparr>) | (Inr x, l) \<Rightarrow> (Inr x, w\<lparr>ledger := l\<rparr>)))"
    using p by (cases r) auto
qed

lemma keeps_reverse_transaction:
  assumes "ledger_order order" and "tx \<noteq> []" and "small_rows rows0"
  shows "keeps (reversal_inv tx ref rows0) (on_ok (\<lambda>_. True))
    (reverse_transaction terminal order today persist tx' why actor allowCompleted)"
proof -
  note rest = keeps_parts keeps_weaken [OF keeps_find]
  have exec: "keeps (reversal_inv tx ref rows0) (on_ok (\<lambda>_. True)) (execute_reversal terminal order today persist t why actor rid)"
    if "row_of ref tx' (Some t)" for t rid
  proof -
    have "tx_reference t = ref (tx_id t)" using that by (simp add: row_of_def)
    then show ?thesis unfolding execute_reversal_def
      by (auto intro!: keeps_intro keeps_and_then [where Q = "\<lambda>_. True"] keeps_ledger_reversal [OF assms] rest)
  qed
  have latest: "keeps (reversal_inv tx ref rows0) (on_ok (\<lambda>_. True)) (getLatestReversal persist t)" for t
    by (auto simp: getLatestReversal_def intro!: keeps_intro keeps_queryRead)
  show ?thesis unfolding reverse_transaction_def
    by (rule keeps_and_then [OF keeps_find])
      (auto intro!: keeps_intro keeps_and_then [where Q = "\<lambda>_. True"] exec latest keeps_parts split: option.splits)
qed

end
