(* ===== verification/Dispute_Service.thy ===== *)
theory Dispute_Service
  imports Reversal
begin

text \<open>
  \<open>src/src/services/dispute.ts\<close>, \<open>src/src/models/dispute.ts\<close> and \<open>DisputeTimelineService.addEvent\<close>: the
  life of a dispute over its tables, with the reversal of the payment it may end in.

  \<open>dispute_env\<close> collects what the service is built with: the value of the undeclared identifier of
  \<open>TransactionModel\<close> (theory \<open>Payment_Store\<close>), whether \<open>this.timelineService\<close> is defined (no file assigns
  it: in the program as it is, it is undefined), the parameters of the ledger and of the encryption.
  A notification is sent without waiting for it and its errors are caught; here it is sent at once.
  The texts of notes and of the timeline are kept, descriptions and metadata of events are not. The
  SLA columns, the evidence and the pagination of notes are not modelled.
\<close>

subsection \<open>Data\<close>

record dispute_env =
  terminal_statuses :: "transaction_status list option"
  timeline_service :: bool
  ledger_sort :: "ledger_row list \<Rightarrow> ledger_row list"
  ledger_day :: int
  dispute_crypto :: crypto_lib
  dispute_keys :: enc_env
  note_iv :: bytes

record dispute_update =
  up_status :: "dispute_status option"
  up_resolution :: "string option"
  up_assigned :: "string option"
  up_priority :: "dispute_priority option"
  up_category :: "string option"
  up_notes :: "string option"

definition no_update :: dispute_update where
  "no_update = \<lparr>up_status = None, up_resolution = None, up_assigned = None, up_priority = None, up_category = None,
     up_notes = None\<rparr>"

datatype resolution_action = Reverse_payment | Uphold_payment

fun TRANSITIONS :: "dispute_status \<Rightarrow> dispute_status list" where
  "TRANSITIONS Open = [Investigating, Resolved, Rejected, Dispute_Machine.Reversed, Upheld]"
| "TRANSITIONS Investigating = [Resolved, Rejected, Dispute_Machine.Reversed, Upheld]"
| "TRANSITIONS Resolved = []"
| "TRANSITIONS Rejected = []"
| "TRANSITIONS Dispute_Machine.Reversed = []"
| "TRANSITIONS Upheld = []"

definition TERMINAL_STATUSES :: "dispute_status list" where
  "TERMINAL_STATUSES = [Resolved, Rejected, Dispute_Machine.Reversed, Upheld]"

subsection \<open>DisputeModel\<close>

definition lift_result :: "service_error + 'a \<Rightarrow> 'a service" where
  "lift_result r = (case r of Inl e \<Rightarrow> throw e | Inr x \<Rightarrow> ok x)"

definition decrypt_text :: "dispute_env \<Rightarrow> string option \<Rightarrow> service_error + string option" where
  "decrypt_text env v = (case decrypt (dispute_crypto env) (dispute_keys env) v of Inl e \<Rightarrow> Inl (DecryptionError e) | Inr t \<Rightarrow> Inr t)"

definition decrypt_dispute :: "dispute_env \<Rightarrow> dispute_row \<Rightarrow> service_error + dispute_row" where
  "decrypt_dispute env d =
     (case decrypt_text env (Some (d_reason d)) of Inl e \<Rightarrow> Inl e
      | Inr why \<Rightarrow> (case decrypt_text env (d_resolution d) of Inl e \<Rightarrow> Inl e
        | Inr resolution \<Rightarrow> Inr (d\<lparr>d_reason := (case why of None \<Rightarrow> [] | Some t \<Rightarrow> t), d_resolution := resolution\<rparr>)))"

definition decrypt_found :: "dispute_env \<Rightarrow> dispute_row option \<Rightarrow> dispute_row option service" where
  "decrypt_found env found =
     (case found of None \<Rightarrow> ok None | Some d \<Rightarrow> and_then (lift_result (decrypt_dispute env d)) (\<lambda>d'. ok (Some d')))"

definition too_long :: "nat \<Rightarrow> string option \<Rightarrow> bool" where
  "too_long n v = (case v of None \<Rightarrow> False | Some s \<Rightarrow> n < length s)"

definition insert_dispute ::
  "string \<Rightarrow> string \<Rightarrow> string option \<Rightarrow> dispute_priority option \<Rightarrow> string option \<Rightarrow> store \<Rightarrow> service_error + dispute_row \<times> store" where
  "insert_dispute tx why reportedBy priority category s =
     (let d = \<lparr>d_id = length (disputes s), d_transaction = tx, d_reason = why, d_status = Open, d_assigned = None,
            d_resolution = None, d_reported_by = reportedBy,
            d_priority = (case priority of None \<Rightarrow> Medium | Some p \<Rightarrow> p), d_category = category, d_internal_notes = None\<rparr>
      in if too_long 100 reportedBy \<or> too_long 100 category then Inl (DatabaseError StringTooLong)
         else if \<not> unique_active (disputes s @ [d]) then Inl UniqueViolation
         else Inr (d, s\<lparr>disputes := disputes s @ [d]\<rparr>))"

definition create_dispute ::
  "dispute_env \<Rightarrow> string \<Rightarrow> string \<Rightarrow> string option \<Rightarrow> dispute_priority option \<Rightarrow> string option \<Rightarrow> dispute_row service" where
  "create_dispute env tx why reportedBy priority category =
     and_then (queryWrite (insert_dispute tx why reportedBy priority category)) (\<lambda>d. lift_result (decrypt_dispute env d))"

definition find_dispute :: "nat \<Rightarrow> store \<Rightarrow> dispute_row option" where
  "find_dispute did s = find (\<lambda>d. d_id d = did) (disputes s)"

definition findById :: "dispute_env \<Rightarrow> nat \<Rightarrow> dispute_row option service" where
  "findById env did = and_then (queryRead (find_dispute did)) (decrypt_found env)"

definition findActiveByTransactionId :: "dispute_env \<Rightarrow> string \<Rightarrow> dispute_row option service" where
  "findActiveByTransactionId env tx =
     and_then (queryRead (\<lambda>s. find (\<lambda>d. d_transaction d = tx \<and> active_dispute d) (disputes s))) (decrypt_found env)"

definition set_dispute :: "dispute_update \<Rightarrow> dispute_row \<Rightarrow> dispute_row" where
  "set_dispute u d = d\<lparr>
     d_status := (case up_status u of None \<Rightarrow> d_status d | Some x \<Rightarrow> x),
     d_resolution := (case up_resolution u of None \<Rightarrow> d_resolution d | Some x \<Rightarrow> Some x),
     d_assigned := (case up_assigned u of None \<Rightarrow> d_assigned d | Some x \<Rightarrow> Some x),
     d_priority := (case up_priority u of None \<Rightarrow> d_priority d | Some x \<Rightarrow> x),
     d_category := (case up_category u of None \<Rightarrow> d_category d | Some x \<Rightarrow> Some x),
     d_internal_notes := (case up_notes u of None \<Rightarrow> d_internal_notes d | Some x \<Rightarrow> Some x)\<rparr>"

text \<open>The UPDATE, with the widths of the columns and the unique index.\<close>

definition update_disputes :: "nat \<Rightarrow> dispute_update \<Rightarrow> store \<Rightarrow> service_error + dispute_row option \<times> store" where
  "update_disputes did u s =
     (case find_dispute did s of None \<Rightarrow> Inr (None, s)
      | Some d \<Rightarrow> let ds = map (\<lambda>x. if d_id x = did then set_dispute u x else x) (disputes s)
          in if too_long 100 (up_assigned u) \<or> too_long 100 (up_category u) then Inl (DatabaseError StringTooLong)
             else if \<not> unique_active ds then Inl UniqueViolation
             else Inr (Some (set_dispute u d), s\<lparr>disputes := ds\<rparr>))"

text \<open>Without a row, the code reads a property of undefined.\<close>

definition returned_row :: "dispute_env \<Rightarrow> dispute_row option \<Rightarrow> dispute_row service" where
  "returned_row env row =
     (case row of None \<Rightarrow> throw (TypeError ''reason'') | Some d \<Rightarrow> lift_result (decrypt_dispute env d))"

definition update_dispute :: "dispute_env \<Rightarrow> nat \<Rightarrow> dispute_update \<Rightarrow> dispute_row service" where
  "update_dispute env did u =
     (if u = no_update then throw NoFieldsToUpdate
      else and_then (queryWrite (update_disputes did u)) (returned_row env))"

definition assign :: "dispute_env \<Rightarrow> nat \<Rightarrow> string \<Rightarrow> dispute_row service" where
  "assign env did agent = and_then (queryWrite (update_disputes did (no_update\<lparr>up_assigned := Some agent\<rparr>))) (returned_row env)"

definition insert_note :: "note_row \<Rightarrow> store \<Rightarrow> service_error + note_row \<times> store" where
  "insert_note n s =
     (if 100 < length (n_author n) then Inl (DatabaseError StringTooLong)
      else if find_dispute (n_dispute n) s = None then Inl (DatabaseError ForeignKeyViolation)
      else Inr (n, s\<lparr>dispute_notes := dispute_notes s @ [n]\<rparr>))"

definition add_note :: "dispute_env \<Rightarrow> nat \<Rightarrow> string \<Rightarrow> string \<Rightarrow> note_row service" where
  "add_note env did author text =
     (let stored = (case encrypt (dispute_crypto env) (dispute_keys env) (note_iv env) (Some text) False of None \<Rightarrow> [] | Some t \<Rightarrow> t)
      in and_then (queryWrite (insert_note \<lparr>n_dispute = did, n_author = author, n_text = stored\<rparr>)) (\<lambda>n.
         and_then (lift_result (decrypt_text env (Some (n_text n)))) (\<lambda>t.
           ok (n\<lparr>n_text := (case t of None \<Rightarrow> [] | Some x \<Rightarrow> x)\<rparr>))))"

definition insert_timeline :: "timeline_row \<Rightarrow> store \<Rightarrow> service_error + unit \<times> store" where
  "insert_timeline e s =
     (if 50 < length (tl_type e) \<or> 100 < length (tl_actor e) then Inl (DatabaseError StringTooLong)
      else if find_dispute (tl_dispute e) s = None then Inl (DatabaseError ForeignKeyViolation)
      else Inr ((), s\<lparr>dispute_timeline := dispute_timeline s @ [e]\<rparr>))"

definition getAgentWorkload :: "(string \<times> nat) list service" where
  "getAgentWorkload = queryRead (\<lambda>s.
     let mine = [the (d_assigned d). d \<leftarrow> disputes s, d_assigned d \<noteq> None \<and> active_dispute d]
     in sort_key snd (map (\<lambda>a. (a, length (filter (\<lambda>b. b = a) mine))) (remdups mine)))"

fun least_loaded :: "(string \<times> nat) list \<Rightarrow> (string \<times> nat) option \<Rightarrow> string list \<Rightarrow> string option" where
  "least_loaded workloads best [] = map_option fst best"
| "least_loaded workloads best (a # as) =
     (let count = (case map_of workloads a of None \<Rightarrow> 0 | Some n \<Rightarrow> n)
      in least_loaded workloads
           (case best of None \<Rightarrow> Some (a, count) | Some (b, n) \<Rightarrow> if count < n then Some (a, count) else best) as)"

definition findLeastLoadedAgent :: "string list \<Rightarrow> string option service" where
  "findLeastLoadedAgent agents =
     (if agents = [] then ok None else and_then getAgentWorkload (\<lambda>ws. ok (least_loaded ws None agents)))"

subsection \<open>DisputeService\<close>

definition addEvent :: "dispute_env \<Rightarrow> timeline_row \<Rightarrow> unit service" where
  "addEvent env e = and_then (findById env (tl_dispute e)) (\<lambda>d. case d of
     None \<Rightarrow> throw (DisputeNotFound (tl_dispute e)) | Some _ \<Rightarrow> queryWrite (insert_timeline e))"

text \<open>\<open>await this.timelineService.addEvent(...).catch(...)\<close>: the errors of the call are caught, that the
  service is undefined is not.\<close>

definition record_event ::
  "dispute_env \<Rightarrow> nat \<Rightarrow> string \<Rightarrow> string \<Rightarrow> dispute_status option \<Rightarrow> dispute_status option \<Rightarrow> unit service" where
  "record_event env did type actor old_status new_status =
     (if timeline_service env
      then catch (addEvent env \<lparr>tl_dispute = did, tl_type = type, tl_actor = actor, tl_old = old_status, tl_new = new_status\<rparr>)
             (\<lambda>_. ok ())
      else throw (TypeError ''addEvent''))"

definition sendNotification :: "string \<Rightarrow> dispute_row \<Rightarrow> unit service" where
  "sendNotification event d = catch (send [Dispute_notice event (d_id d) (d_status d)]) (\<lambda>_. ok ())"

definition existing_dispute :: "dispute_env \<Rightarrow> nat \<Rightarrow> dispute_row service" where
  "existing_dispute env did =
     and_then (findById env did) (\<lambda>d. case d of None \<Rightarrow> throw (DisputeNotFound did) | Some d \<Rightarrow> ok d)"

definition openDispute ::
  "dispute_env \<Rightarrow> string \<Rightarrow> string \<Rightarrow> string option \<Rightarrow> dispute_priority option \<Rightarrow> string option \<Rightarrow> dispute_row service" where
  "openDispute env tx why reportedBy priority category =
     and_then (findTransaction tx None) (\<lambda>found. case found of None \<Rightarrow> throw (TransactionNotFound tx)
     | Some t \<Rightarrow> if tx_status t \<noteq> Completed \<and> tx_status t \<noteq> Status_Workflow.Failed then throw (DisputeNotAllowed (tx_status t))
       else and_then (findActiveByTransactionId env tx) (\<lambda>existing. case existing of
         Some d \<Rightarrow> throw (ActiveDisputeExists (d_id d))
       | None \<Rightarrow> and_then (create_dispute env tx why reportedBy priority category) (\<lambda>d.
         and_then (updateTransactionStatus (terminal_statuses env) tx Dispute None None) (\<lambda>_.
         and_then (record_event env (d_id d) ''opened'' (case reportedBy of None \<Rightarrow> ''system'' | Some r \<Rightarrow> r) None (Some Open)) (\<lambda>_.
         and_then (sendNotification ''dispute.opened'' d) (\<lambda>_. ok d))))))"

definition updateStatus ::
  "dispute_env \<Rightarrow> nat \<Rightarrow> dispute_status \<Rightarrow> string option \<Rightarrow> string option \<Rightarrow> dispute_row service" where
  "updateStatus env did newStatus resolution assignedTo =
     and_then (existing_dispute env did) (\<lambda>d.
       if newStatus \<notin> set (TRANSITIONS (d_status d)) then throw (CannotTransition (d_status d) newStatus)
       else if newStatus \<in> set TERMINAL_STATUSES \<and> \<not> truthy_string resolution
       then throw (ResolutionTextRequired (Some newStatus))
       else and_then (update_dispute env did
           (no_update\<lparr>up_status := Some newStatus, up_resolution := resolution, up_assigned := assignedTo\<rparr>)) (\<lambda>updated.
         and_then (record_event env did ''status_changed'' (case assignedTo of None \<Rightarrow> ''system'' | Some a \<Rightarrow> a)
             (Some (d_status d)) (Some newStatus)) (\<lambda>_.
         and_then (sendNotification (''dispute.'' @ status_text newStatus) updated) (\<lambda>_. ok updated))))"

definition resolvePayment :: "dispute_env \<Rightarrow> nat \<Rightarrow> resolution_action \<Rightarrow> string \<Rightarrow> string option \<Rightarrow> dispute_row service" where
  "resolvePayment env did action resolution adminId =
     (if trim resolution = [] then throw (ResolutionTextRequired None)
      else and_then (existing_dispute env did) (\<lambda>d.
        if d_status d \<in> set TERMINAL_STATUSES then throw (CannotResolve (d_status d))
        else let next_status = (if action = Reverse_payment then Dispute_Machine.Reversed else Upheld);
                 admin = (case adminId of None \<Rightarrow> ''admin'' | Some a \<Rightarrow> a) in
          and_then (if action = Reverse_payment
              then and_then (reverse_transaction (terminal_statuses env) (ledger_sort env) (ledger_day env) True
                     (d_transaction d) (trim resolution) adminId True) (\<lambda>_. ok ())
              else ok ()) (\<lambda>_.
          and_then (update_dispute env did
              (no_update\<lparr>up_status := Some next_status, up_resolution := Some (trim resolution), up_assigned := adminId\<rparr>)) (\<lambda>updated.
          and_then (if action = Uphold_payment
              then updateTransactionStatus (terminal_statuses env) (d_transaction d) Completed None None else ok ()) (\<lambda>_.
          and_then (add_note env did admin
              (''Admin '' @ (if action = Reverse_payment then ''reversed'' else ''upheld'') @ '' payment: '' @ trim resolution)) (\<lambda>_.
          and_then (record_event env did (if action = Reverse_payment then ''reversed'' else ''upheld'') admin
              (Some (d_status d)) (Some next_status)) (\<lambda>_.
          and_then (sendNotification (''dispute.payment_'' @ (if action = Reverse_payment then ''reversed'' else ''upheld'')) updated)
            (\<lambda>_. ok updated))))))))"

definition updateDispute :: "dispute_env \<Rightarrow> nat \<Rightarrow> dispute_priority option \<Rightarrow> string option \<Rightarrow> string option \<Rightarrow> dispute_row service" where
  "updateDispute env did priority category internalNotes =
     and_then (existing_dispute env did) (\<lambda>_.
     and_then (update_dispute env did (no_update\<lparr>up_priority := priority, up_category := category, up_notes := internalNotes\<rparr>)) (\<lambda>updated.
     and_then (sendNotification ''dispute.updated'' updated) (\<lambda>_. ok updated)))"

definition assignToAgent :: "dispute_env \<Rightarrow> nat \<Rightarrow> string \<Rightarrow> dispute_row service" where
  "assignToAgent env did agent =
     and_then (existing_dispute env did) (\<lambda>d.
       if d_status d \<in> set TERMINAL_STATUSES then throw (CannotAssign (d_status d))
       else and_then (assign env did agent) (\<lambda>assigned.
         and_then (if d_status assigned = Open
             then update_dispute env did (no_update\<lparr>up_status := Some Investigating, up_assigned := Some agent\<rparr>)
             else ok assigned) (\<lambda>updated.
         and_then (record_event env did ''assigned'' agent
             (if d_status d \<noteq> d_status updated then Some (d_status d) else None)
             (if d_status d \<noteq> d_status updated then Some (d_status updated) else None)) (\<lambda>_.
         and_then (sendNotification ''dispute.assigned'' updated) (\<lambda>_. ok updated)))))"

definition autoAssignToLeastLoadedAgent :: "dispute_env \<Rightarrow> nat \<Rightarrow> string list \<Rightarrow> dispute_row service" where
  "autoAssignToLeastLoadedAgent env did agents =
     (case agents of [] \<Rightarrow> throw NoAvailableAgents
      | first # _ \<Rightarrow> and_then (existing_dispute env did) (\<lambda>d.
          if d_status d \<in> set TERMINAL_STATUSES then throw (CannotAssign (d_status d))
          else and_then (findLeastLoadedAgent agents) (\<lambda>best.
            assignToAgent env did (case best of None \<Rightarrow> first | Some a \<Rightarrow> a))))"

definition addNote :: "dispute_env \<Rightarrow> nat \<Rightarrow> string \<Rightarrow> string \<Rightarrow> note_row service" where
  "addNote env did author text = and_then (existing_dispute env did) (\<lambda>_. add_note env did author text)"

subsection \<open>Every operation keeps the invariant\<close>

lemma set_dispute_id [simp]: "d_id (set_dispute u d) = d_id d"
  by (simp add: set_dispute_def)

lemma store_ok_insert_dispute: "store_ok ref s \<Longrightarrow> insert_dispute tx why by_whom priority category s = Inr (x, s') \<Longrightarrow> store_ok ref s'"
  by (auto simp: store_ok_def references_ok_def reversals_ok_def disputes_ok_def insert_dispute_def Let_def split: if_splits)

lemma store_ok_update_disputes: "store_ok ref s \<Longrightarrow> update_disputes did u s = Inr (x, s') \<Longrightarrow> store_ok ref s'"
  by (auto simp: store_ok_def references_ok_def reversals_ok_def disputes_ok_def update_disputes_def Let_def
      comp_def if_distrib [of d_id] cong: if_cong split: if_splits option.splits)

lemma keeps_lift_result [keeps_intro]: "keeps I (on_ok (\<lambda>_. True)) (lift_result r)"
  by (auto simp: lift_result_def intro: keeps_intro split: sum.splits)

lemma keeps_decrypt_found: "keeps I (on_ok (\<lambda>_. True)) (decrypt_found env found)"
  by (auto simp: decrypt_found_def intro!: keeps_intro keeps_and_then [where Q = "\<lambda>_. True"] split: option.splits)

lemma keeps_returned_row: "keeps I (on_ok (\<lambda>_. True)) (returned_row env row)"
  by (auto simp: returned_row_def intro!: keeps_intro split: option.splits)

lemma keeps_existing_dispute: "keeps (reversal_inv tx ref rows0) (on_ok (\<lambda>_. True)) (existing_dispute env did)"
  by (auto simp: existing_dispute_def findById_def intro!: keeps_intro keeps_and_then [where Q = "\<lambda>_. True"] keeps_queryRead
      keeps_decrypt_found split: option.splits)

lemma keeps_update_dispute: "keeps (reversal_inv tx ref rows0) (on_ok (\<lambda>_. True)) (update_dispute env did u)"
  by (auto simp: update_dispute_def intro: store_ok_update_disputes
      intro!: keeps_intro keeps_and_then [where Q = "\<lambda>_. True"] keeps_queryWrite keeps_returned_row)

lemma keeps_assign: "keeps (reversal_inv tx ref rows0) (on_ok (\<lambda>_. True)) (assign env did agent)"
  by (auto simp: assign_def intro: store_ok_update_disputes
      intro!: keeps_intro keeps_and_then [where Q = "\<lambda>_. True"] keeps_queryWrite keeps_returned_row)

lemma keeps_create_dispute: "keeps (reversal_inv tx ref rows0) (on_ok (\<lambda>_. True)) (create_dispute env tx' why by_whom priority category)"
  by (auto simp: create_dispute_def intro: store_ok_insert_dispute
      intro!: keeps_intro keeps_and_then [where Q = "\<lambda>_. True"] keeps_queryWrite)

lemma keeps_findActive: "keeps (reversal_inv tx ref rows0) (on_ok (\<lambda>_. True)) (findActiveByTransactionId env tx')"
  by (auto simp: findActiveByTransactionId_def intro!: keeps_and_then [where Q = "\<lambda>_. True"] keeps_queryRead keeps_decrypt_found)

lemma keeps_add_note: "keeps (reversal_inv tx ref rows0) (on_ok (\<lambda>_. True)) (add_note env did author text)"
  by (auto simp: add_note_def Let_def insert_note_def split: if_splits
      intro!: keeps_intro keeps_and_then [where Q = "\<lambda>_. True"] keeps_queryWrite)

lemma keeps_record_event: "keeps (reversal_inv tx ref rows0) (on_ok (\<lambda>_. True)) (record_event env did type actor old_status new_status)"
  by (auto simp: record_event_def addEvent_def findById_def insert_timeline_def split: if_splits option.splits
      intro!: keeps_intro keeps_and_then [where Q = "\<lambda>_. True"] keeps_queryRead keeps_queryWrite keeps_decrypt_found)

lemma keeps_sendNotification: "keeps (reversal_inv tx ref rows0) (on_ok (\<lambda>_. True)) (sendNotification event d)"
  by (auto simp: sendNotification_def intro!: keeps_intro keeps_send)

lemma keeps_findLeastLoadedAgent: "keeps (reversal_inv tx ref rows0) (on_ok (\<lambda>_. True)) (findLeastLoadedAgent agents)"
  by (auto simp: findLeastLoadedAgent_def getAgentWorkload_def intro!: keeps_intro keeps_and_then [where Q = "\<lambda>_. True"] keeps_queryRead)

lemmas keeps_service = keeps_intro keeps_and_then [where Q = "\<lambda>_. True"] keeps_existing_dispute keeps_update_dispute keeps_assign
  keeps_create_dispute keeps_findActive keeps_add_note keeps_record_event keeps_sendNotification keeps_findLeastLoadedAgent
  keeps_updateTransactionStatus keeps_weaken [OF keeps_find]

lemma keeps_openDispute: "keeps (reversal_inv tx ref rows0) (on_ok (\<lambda>_. True)) (openDispute env tx' why by_whom priority category)"
  by (auto simp: openDispute_def intro!: keeps_service split: option.splits)

lemma keeps_updateStatus: "keeps (reversal_inv tx ref rows0) (on_ok (\<lambda>_. True)) (updateStatus env did st resolution assigned)"
  by (auto simp: updateStatus_def intro!: keeps_service)

lemma keeps_updateDispute: "keeps (reversal_inv tx ref rows0) (on_ok (\<lambda>_. True)) (updateDispute env did priority category internal)"
  by (auto simp: updateDispute_def intro!: keeps_service)

lemma keeps_assignToAgent: "keeps (reversal_inv tx ref rows0) (on_ok (\<lambda>_. True)) (assignToAgent env did agent)"
  by (auto simp: assignToAgent_def intro!: keeps_service)

lemma keeps_autoAssign: "keeps (reversal_inv tx ref rows0) (on_ok (\<lambda>_. True)) (autoAssignToLeastLoadedAgent env did agents)"
  by (cases agents) (auto simp: autoAssignToLeastLoadedAgent_def intro!: keeps_service keeps_assignToAgent)

lemma keeps_addNote: "keeps (reversal_inv tx ref rows0) (on_ok (\<lambda>_. True)) (addNote env did author text)"
  by (auto simp: addNote_def intro!: keeps_service)

lemma keeps_resolvePayment:
  assumes "ledger_order (ledger_sort env)" and "tx \<noteq> []" and "small_rows rows0"
  shows "keeps (reversal_inv tx ref rows0) (on_ok (\<lambda>_. True)) (resolvePayment env did action resolution admin)"
  unfolding resolvePayment_def Let_def
  by (auto intro!: keeps_service keeps_reverse_transaction [OF assms])

end
