(* ===== verification/Payment_Pool.thy ===== *)
theory Payment_Pool
  imports Dispute_Service
begin

text \<open>
  The calls of the reversal and the dispute services running together: any number of requests, on any
  number of servers, whose steps interleave in any order, with any outcome of every call to the
  database (failures before and after the effect, replicas that are any number of writes behind).
\<close>

subsection \<open>Calls\<close>

datatype payment_call =
  Reverse_call bool string string "string option" bool
| Retry_call bool nat
| Open_call string string "string option" "dispute_priority option" "string option"
| Status_call nat dispute_status "string option" "string option"
| Resolve_call nat resolution_action string "string option"
| Update_call nat "dispute_priority option" "string option" "string option"
| Assign_call nat string
| Auto_assign_call nat "string list"
| Note_call nat string string

definition settle :: "('w, 'a) proc \<Rightarrow> ('w, unit) proc" where
  "settle p = bind_proc p (\<lambda>_. Finished ())"

fun call_proc :: "dispute_env \<Rightarrow> payment_call \<Rightarrow> (world, unit) proc" where
  "call_proc env (Reverse_call persist tx why actor allow) =
     settle (reverse_transaction (terminal_statuses env) (ledger_sort env) (ledger_day env) persist tx why actor allow)"
| "call_proc env (Retry_call persist rid) = settle (retryNotification persist rid)"
| "call_proc env (Open_call tx why by_whom priority category) = settle (openDispute env tx why by_whom priority category)"
| "call_proc env (Status_call did st resolution assigned) = settle (updateStatus env did st resolution assigned)"
| "call_proc env (Resolve_call did action resolution admin) = settle (resolvePayment env did action resolution admin)"
| "call_proc env (Update_call did priority category internal) = settle (updateDispute env did priority category internal)"
| "call_proc env (Assign_call did agent) = settle (assignToAgent env did agent)"
| "call_proc env (Auto_assign_call did agents) = settle (autoAssignToLeastLoadedAgent env did agents)"
| "call_proc env (Note_call did author text) = settle (addNote env did author text)"

definition requests :: "(dispute_env \<times> payment_call) list \<Rightarrow> (world, unit) proc list" where
  "requests cs = map (\<lambda>(env, c). call_proc env c) cs"

subsection \<open>The invariant of a pool\<close>

lemma keeps_settle: "keeps I (on_ok (\<lambda>_. True)) p \<Longrightarrow> keeps I (\<lambda>_. True) (settle p)"
  unfolding settle_def by (erule keeps_bind) simp

definition payment_program :: "string \<Rightarrow> ledger_row list \<Rightarrow> (world, unit) proc \<Rightarrow> bool" where
  "payment_program tx rows0 p \<longleftrightarrow> tx \<noteq> [] \<and> small_rows rows0 \<and>
     (\<exists>env c. ledger_order (ledger_sort env) \<and> p = call_proc env c)"

lemma keeps_call_proc:
  assumes "ledger_order (ledger_sort env)" and "tx \<noteq> []" and "small_rows rows0"
  shows "keeps (reversal_inv tx ref rows0) (\<lambda>_. True) (call_proc env c)"
  by (cases c) (simp_all add: keeps_settle keeps_reverse_transaction [OF assms] keeps_resolvePayment [OF assms]
      keeps_retryNotification keeps_openDispute keeps_updateStatus keeps_updateDispute keeps_assignToAgent
      keeps_autoAssign keeps_addNote)

interpretation payments: shared_world "reversal_inv tx ref rows0" "payment_program tx rows0" for tx ref rows0
  by unfold_locales (auto simp: payment_program_def intro: keeps_call_proc)

definition world_ok :: "(string \<Rightarrow> string) \<Rightarrow> world \<Rightarrow> bool" where
  "world_ok ref w \<longleftrightarrow> versions w \<noteq> [] \<and> (\<forall>s \<in> set (versions w). store_ok ref s) \<and> ledger_ok (ledger w)"

lemma pool_invariant:
  assumes "world_ok ref w" and "tx \<noteq> []" and "small_rows (rows_of tx (ledger w))"
    and "\<forall>(env, c) \<in> set cs. ledger_order (ledger_sort env)"
  shows "reversal_inv tx ref (rows_of tx (ledger w)) (snd (run_pool sched (requests cs) w))"
proof (rule payments.pool_inv)
  show "list_all (payment_program tx (rows_of tx (ledger w))) (requests cs)"
    using assms(2-4) by (auto simp: requests_def list_all_iff payment_program_def)
  show "reversal_inv tx ref (rows_of tx (ledger w)) w" using assms(1) by (simp add: reversal_inv_def world_ok_def)
qed

subsection \<open>A world for the witnesses\<close>

definition sample_tx :: tx_row where
  "sample_tx = \<lparr>tx_id = ''t'', tx_reference = ''R'', tx_status = Completed, tx_user = Some ''u'', tx_key = Some ''k'',
     tx_unreadable = None\<rparr>"

definition sample_dispute :: dispute_row where
  "sample_dispute = \<lparr>d_id = 0, d_transaction = ''t'', d_reason = ''wrong amount'', d_status = Open, d_assigned = None,
     d_resolution = None, d_reported_by = None, d_priority = Medium, d_category = None, d_internal_notes = None\<rparr>"

definition sample_store :: store where
  "sample_store = \<lparr>txs = [(''t'', sample_tx)], reversals = [], reversal_events = [], disputes = [sample_dispute],
     dispute_notes = [], dispute_timeline = []\<rparr>"

definition sample_world :: world where
  "sample_world = \<lparr>versions = [sample_store], ledger = posted_db, notices = []\<rparr>"

definition sample_env :: dispute_env where
  "sample_env = \<lparr>terminal_statuses = Some [Completed, Status_Workflow.Reversed], timeline_service = True, ledger_sort = (\<lambda>rows. rows),
     ledger_day = 0, dispute_crypto = toy_crypto, dispute_keys = env_v1, note_iv = []\<rparr>"

lemma sample_store_ok: "store_ok (\<lambda>_. ''R'') sample_store"
  by (simp add: store_ok_def references_ok_def reversals_ok_def disputes_ok_def unique_active_def sample_store_def
      sample_tx_def sample_dispute_def map_get_def)

lemma posted_db_ok: "ledger_ok posted_db" "small_rows (rows_of ''t'' posted_db)"
  by (simp_all add: ledger_ok_def posted_db_def sample_row_def total_debits_def total_credits_def row_ok_def small_rows_def
      rows_of_def decimal_value_def)

lemma sample_world_ok: "world_ok (\<lambda>_. ''R'') sample_world" "small_rows (rows_of ''t'' (ledger sample_world))"
  using sample_store_ok posted_db_ok by (simp_all add: world_ok_def sample_world_def)

lemma sample_order: "ledger_order (ledger_sort sample_env)"
  by (simp add: ledger_order_def sample_env_def)

lemma sample_net: "net ''1100'' (rows_of ''t'' (ledger sample_world)) = 10000000"
  by (simp add: net_def rows_of_def posted_db_def sample_row_def sample_world_def)

subsection \<open>Properties\<close>

text \<open>
  C4. A payment is reversed at most once. Whatever reversals, retries of notifications and operations on
  disputes run at the same time, in any interleaving, with lost answers and stale reads: the ledger rows
  of a transaction are those it had, or these followed by one batch of rows under the reference of the
  reversal, and then they sum to zero on every account.
\<close>

theorem reversed_at_most_once:
  assumes "world_ok ref w" and "tx \<noteq> []" and "small_rows (rows_of tx (ledger w))"
    and "\<forall>(env, c) \<in> set cs. ledger_order (ledger_sort env)"
    and "w' = snd (run_pool sched (requests cs) w)"
  shows "rows_of tx (ledger w') = rows_of tx (ledger w) \<or>
    (\<exists>batch. rows_of tx (ledger w') = rows_of tx (ledger w) @ batch \<and>
       (\<forall>r \<in> set batch. row_reference r = reversal_reference (ref tx)) \<and> (\<forall>code. net code (rows_of tx (ledger w')) = 0))"
  using pool_invariant [OF assms(1-4), of sched, folded assms(5)]
  by (auto simp: reversal_inv_def cancelled_by_def net_append)

theorem reversed_at_most_once_witness:
  "\<forall>sched. net ''1100'' (rows_of ''t'' (ledger (snd (run_pool sched (requests
     [(sample_env, Reverse_call True ''t'' ''fraud'' None True), (sample_env, Reverse_call True ''t'' ''fraud'' None True)])
     sample_world)))) \<in> {10000000, 0}"
proof
  fix sched
  show "net ''1100'' (rows_of ''t'' (ledger (snd (run_pool sched (requests
     [(sample_env, Reverse_call True ''t'' ''fraud'' None True), (sample_env, Reverse_call True ''t'' ''fraud'' None True)])
     sample_world)))) \<in> {10000000, 0}"
    using reversed_at_most_once [OF sample_world_ok(1) _ sample_world_ok(2) _ refl, of
        "[(sample_env, Reverse_call True ''t'' ''fraud'' None True), (sample_env, Reverse_call True ''t'' ''fraud'' None True)]" sched]
    by (auto simp: sample_order sample_net)
qed

text \<open>
  C19. The tables stay well formed. After any such run, in the current state and in every state that a
  replica may still show: references and identifiers are as they were assigned, every audit event
  belongs to a reversal, a posted reversal has the reference of its batch and a notified one its time,
  and no transaction has two active disputes. The ledger balances.
\<close>

theorem payment_tables_well_formed:
  assumes "world_ok ref w" and "\<forall>(env, c) \<in> set cs. ledger_order (ledger_sort env)"
  shows "world_ok ref (snd (run_pool sched (requests cs) w))"
proof -
  have "finite (insert [] {x. Some x \<in> row_transaction ` set (ledger_entries (ledger w))})"
    using finite_vimageI [of "row_transaction ` set (ledger_entries (ledger w))" Some] by (simp add: vimage_def)
  then obtain tx where "tx \<notin> insert [] {x. Some x \<in> row_transaction ` set (ledger_entries (ledger w))}"
    using ex_new_if_finite [OF infinite_UNIV_listI] by blast
  then have "tx \<noteq> [] \<and> rows_of tx (ledger w) = []" by (auto simp: rows_of_def filter_empty_conv image_iff)
  then have "reversal_inv tx ref (rows_of tx (ledger w)) (snd (run_pool sched (requests cs) w))"
    by (intro pool_invariant [OF assms(1) _ _ assms(2)]) (simp_all add: small_rows_def)
  then show ?thesis by (simp add: reversal_inv_def world_ok_def)
qed

theorem payment_tables_well_formed_witness:
  "\<forall>sched. world_ok (\<lambda>_. ''R'') (snd (run_pool sched (requests [(sample_env, Resolve_call 0 Reverse_payment ''fraud'' None)]) sample_world))"
  by (intro allI payment_tables_well_formed [OF sample_world_ok(1)]) (simp add: sample_order)

end
