(* ===== verification/Payment_Runs.thy ===== *)
theory Payment_Runs
  imports Payment_Pool
begin

text \<open>
  Single calls of the reversal and the dispute services that run alone, with every call to the database
  answered or with the failures named: what they leave in the tables, the ledger and the answers.
\<close>

subsection \<open>Reading and updating the newest reversal\<close>

lemma find_append_new:
  "\<forall>x \<in> set xs. f x \<noteq> i \<Longrightarrow> f y = i \<Longrightarrow> find (\<lambda>x. f x = i) (xs @ [y]) = Some y"
  by (induction xs) auto

lemma map_other: "\<forall>x \<in> set xs. f x \<noteq> i \<Longrightarrow> map (\<lambda>x. if f x = i then g x else x) xs = xs"
  by (induction xs) auto

lemma reversal_id_new: "reversals_ok s \<Longrightarrow> r \<in> set (reversals s) \<Longrightarrow> rv_id r \<noteq> Some (length (reversals s))"
  using rv_id_less by (auto simp: reversals_ok_def)

text \<open>A world as the services find it: the newest tables and the row of the transaction, which can be decrypted.\<close>

definition stands :: "(string \<Rightarrow> string) \<Rightarrow> store \<Rightarrow> tx_row \<Rightarrow> world \<Rightarrow> bool" where
  "stands ref s t w \<longleftrightarrow> world_ok ref w \<and> hd (versions w) = s \<and> map_get (txs s) (tx_id t) = Some t \<and> tx_unreadable t = None"

definition short_texts :: "tx_row \<Rightarrow> string option \<Rightarrow> bool" where
  "short_texts t actor \<longleftrightarrow> length (tx_reference t) \<le> 100 \<and> \<not> long_actor actor"

lemmas reversal_defs = reverse_transaction_def execute_reversal_def createReversalRecord_def transition_reversal_def
  notifyReversal_def getReversal_def appendAuditEvent_def updateTransactionStatus_def findTransaction_def mapTransactionRow_def
  ledger_reversal_def


lemmas run_reversal = reversal_defs proc_simps version_current insert_reversal_def new_reversal_def Let_def insert_event_def
  update_tx_def release_if_terminal_def releaseIdempotencyKey_def find_reversal_def update_reversal_def isTerminal_def

lemma stands_facts:
  assumes "stands ref s t w"
  shows "versions w \<noteq> []" and "current w = s" and "map_get (txs s) (tx_id t) = Some t" and "reversals_ok s"
    and "\<forall>r \<in> set (reversals s). rv_id r \<noteq> Some (length (reversals s))" and "tx_unreadable t = None"
  using assms reversal_id_new [of s] by (auto simp: stands_def world_ok_def current_def store_ok_def)

lemma allowed_not_reversed: "reversal_allowed allow st \<Longrightarrow> st \<noteq> Status_Workflow.Reversed"
  by (auto simp: reversal_allowed_def split: if_splits)

text \<open>A reversal whose calls are all answered, with the identifier declared.\<close>

definition notified_reversal :: "store \<Rightarrow> reversal_record \<Rightarrow> bool" where
  "notified_reversal s r \<longleftrightarrow> rv_id r = Some (length (reversals s)) \<and> rv_status r = Notified \<and> rv_notified_at r \<noteq> None"

definition trail :: "store \<Rightarrow> store \<Rightarrow> (nat \<times> reversal_status option \<times> reversal_status) list" where
  "trail s s' = map (\<lambda>e. (ev_reversal e, ev_from e, ev_to e)) (drop (length (reversal_events s)) (reversal_events s'))"

text \<open>The parts of a reversal, each from any world: what they change.\<close>

lemma fresh_update:
  assumes "versions w \<noteq> []" and "map_get (txs (current w)) tx = Some t"
  obtains w' t' where "run_proc (updateTransactionStatus (Some ss) tx st None None) [] w = (Inr (), w', [])"
    and "current w' = (current w)\<lparr>txs := txs (current w')\<rparr>" and "map_get (txs (current w')) tx = Some t'"
    and "tx_status t' = st" and "tx_id t' = tx_id t" and "tx_user t' = tx_user t" and "tx_unreadable t' = tx_unreadable t"
    and "versions w' \<noteq> []" and "ledger w' = ledger w" and "notices w' = notices w"
  using assms by (cases "st \<in> set ss"; cases "tx_key t") (auto simp: run_reversal)

lemma fresh_transition:
  assumes "versions w \<noteq> []" and "reversals (current w) = rs @ [r]" and new: "\<forall>x \<in> set rs. rv_id x \<noteq> Some n"
    and "rv_id r = Some n" and "\<not> isTerminal (rv_status r)" and "\<not> long_actor actor"
  obtains w' now where "run_proc (transition_reversal True (Some n) st actor detail) [] w = (Inr (), w', [])"
    and "current w' = (current w)\<lparr>reversals := rs @ [set_reversal st detail now r], reversal_events := reversal_events (current w) @
        [\<lparr>ev_reversal = n, ev_from = Some (rv_status r), ev_to = st, ev_actor = actor, ev_detail = detail\<rparr>]\<rparr>"
    and "versions w' \<noteq> []" and "ledger w' = ledger w" and "notices w' = notices w"
proof (rule that)
  define now where "now = length (reversal_events (current w))"
  define s1 where "s1 = (current w)\<lparr>reversals := rs @ [set_reversal st detail now r]\<rparr>"
  define s2 where "s2 = s1\<lparr>reversal_events := reversal_events s1 @
      [\<lparr>ev_reversal = n, ev_from = Some (rv_status r), ev_to = st, ev_actor = actor, ev_detail = detail\<rparr>]\<rparr>"
  note find = find_append_new [OF new, of r, OF assms(4)] and upd = map_other [OF new] assms(4)
  have "update_reversal n st detail (current w) = Inr ((), s1)"
    by (simp add: update_reversal_def assms(2) upd s1_def now_def)
  moreover have "insert_event \<lparr>ev_reversal = n, ev_from = Some (rv_status r), ev_to = st, ev_actor = actor, ev_detail = detail\<rparr> s1 =
      Inr ((), s2)" using assms(4,6) by (simp add: insert_event_def s1_def s2_def)
  ultimately show "run_proc (transition_reversal True (Some n) st actor detail) [] w = (Inr (), commit s2 (commit s1 w), [])"
    using assms(1,2,5) by (simp add: transition_reversal_def getReversal_def appendAuditEvent_def find_reversal_def find
        proc_simps version_current)
  show "current (commit s2 (commit s1 w)) = (current w)\<lparr>reversals := rs @ [set_reversal st detail now r],
      reversal_events := reversal_events (current w) @
        [\<lparr>ev_reversal = n, ev_from = Some (rv_status r), ev_to = st, ev_actor = actor, ev_detail = detail\<rparr>]\<rparr>"
    by (simp add: s1_def s2_def)
qed simp_all

lemma fresh_record:
  assumes "versions w \<noteq> []" and "length original \<le> 100" and "\<not> long_actor actor"
  obtains w' r where "run_proc (createReversalRecord True tx original why actor) [] w = (Inr r, w', [])"
    and "r = new_reversal (Some (length (reversals (current w)))) tx original why actor"
    and "current w' = (current w)\<lparr>reversals := reversals (current w) @ [r], reversal_events := reversal_events (current w) @
        [\<lparr>ev_reversal = length (reversals (current w)), ev_from = None, ev_to = Requested, ev_actor = actor,
          ev_detail = no_detail\<lparr>dt_reason := Some why\<rparr>\<rparr>]\<rparr>"
    and "versions w' \<noteq> []" and "ledger w' = ledger w" and "notices w' = notices w"
  using assms by (simp add: createReversalRecord_def insert_reversal_def appendAuditEvent_def insert_event_def
      new_reversal_def proc_simps Let_def)

lemma fresh_ledger:
  "run_proc (ledger_reversal order today tx ref why actor) [] w =
     (case postReversal order tx ref why actor today (ledger w) of
        (Inl e, l) \<Rightarrow> (Inl (LedgerRefused e), w\<lparr>ledger := l\<rparr>, []) | (Inr x, l) \<Rightarrow> (Inr x, w\<lparr>ledger := l\<rparr>, []))"
  by (auto simp: ledger_reversal_def run_call Let_def split: sum.splits prod.splits)

lemma fresh_find: "versions w \<noteq> [] \<Longrightarrow> map_get (txs (current w)) tx = Some t \<Longrightarrow> tx_unreadable t = None \<Longrightarrow>
    run_proc (findTransaction tx None) [] w = (Inr (Some t), w, [])"
  by (simp add: findTransaction_def mapTransactionRow_def proc_simps version_current)

lemma fresh_notify: "truthy_string (tx_user t) \<Longrightarrow>
    run_proc (notifyReversal t rid) [] w = (Inr True, w\<lparr>notices := notices w @ [Reversal_notice rid]\<rparr>, [])"
  by (auto simp: notifyReversal_def proc_simps)

lemma fresh_get: "versions w \<noteq> [] \<Longrightarrow>
    run_proc (getReversal True (Some n)) [] w = (Inr (find_reversal n (current w)), w, [])"
  by (simp add: getReversal_def proc_simps version_current)

lemma set_reversal_simps [simp]:
  "rv_status (set_reversal st detail now r) = st"
  "rv_notified_at (set_reversal Notified detail now r) = Some now"
  "st \<noteq> Notified \<Longrightarrow> rv_notified_at (set_reversal st detail now r) = rv_notified_at r"
  by (simp_all add: set_reversal_def Let_def split: option.splits)

lemma fresh_reversal:
  assumes "stands ref s t w" and "short_texts t actor" and "reversal_allowed allow (tx_status t)" and "truthy_string (tx_user t)"
    and post: "postReversal order (tx_id t) (tx_reference t) why actor today (ledger w) = (Inr (already, posted), l)"
  obtains out w' t' r where "run_proc (reverse_transaction (Some ss) order today True (tx_id t) why actor allow) [] w = (Inr out, w', [])"
    and "out_already out = already" and "out_notified out" and "ledger w' = l" and "versions w' \<noteq> []"
    and "map_get (txs (current w')) (tx_id t) = Some t'" and "tx_status t' = Status_Workflow.Reversed"
    and "tx_id t' = tx_id t"
    and "reversals (current w') = reversals s @ [r]" and "notified_reversal s r" and "disputes (current w') = disputes s"
    and "trail s (current w') = [(length (reversals s), None, Requested), (length (reversals s), Some Requested, Posted),
        (length (reversals s), Some Posted, Notified)]"
proof -
  note facts = stands_facts [OF assms(1)]
  let ?n = "length (reversals s)"
  have short: "length (tx_reference t) \<le> 100" "\<not> long_actor actor" using assms(2) by (simp_all add: short_texts_def)
  obtain w1 r0 where c0: "run_proc (createReversalRecord True (tx_id t) (tx_reference t) why actor) [] w = (Inr r0, w1, [])"
    and r0_def: "r0 = new_reversal (Some (length (reversals (current w)))) (tx_id t) (tx_reference t) why actor"
    and cur1: "current w1 = (current w)\<lparr>reversals := reversals (current w) @ [r0], reversal_events := reversal_events (current w) @
        [\<lparr>ev_reversal = length (reversals (current w)), ev_from = None, ev_to = Requested, ev_actor = actor,
          ev_detail = no_detail\<lparr>dt_reason := Some why\<rparr>\<rparr>]\<rparr>"
    and w1v: "versions w1 \<noteq> []" and w1l: "ledger w1 = ledger w" and "notices w1 = notices w"
    by (rule fresh_record [OF facts(1) short])
  note w1 = cur1 [unfolded facts(2)] w1v w1l
  have r0: "rv_id r0 = Some ?n" "rv_status r0 = Requested" by (simp_all add: r0_def facts(2) new_reversal_def)
  let ?w2 = "w1\<lparr>ledger := l\<rparr>"
  have "versions ?w2 \<noteq> []" "map_get (txs (current ?w2)) (tx_id t) = Some t" using w1 facts(3) by simp_all
  then obtain w3 t' where
    u: "run_proc (updateTransactionStatus (Some ss) (tx_id t) Status_Workflow.Reversed None None) [] ?w2 = (Inr (), w3, [])"
    and cur3: "current w3 = (current ?w2)\<lparr>txs := txs (current w3)\<rparr>" and tx3: "map_get (txs (current w3)) (tx_id t) = Some t'"
    and st3: "tx_status t' = Status_Workflow.Reversed" and id3: "tx_id t' = tx_id t" and "tx_user t' = tx_user t"
    and un3: "tx_unreadable t' = tx_unreadable t"
    and v3: "versions w3 \<noteq> []" and l3: "ledger w3 = ledger ?w2" and "notices w3 = notices ?w2" by (rule fresh_update)
  have r3: "reversals (current w3) = reversals s @ [r0]" by (subst cur3) (simp add: w1)
  let ?d = "no_detail\<lparr>dt_reference := Some (''REV-'' @ tx_reference t), dt_entries := Some (length posted), dt_already := Some already\<rparr>"
  have nt0: "\<not> isTerminal (rv_status r0)" using r0 by (simp add: isTerminal_def)
  obtain w4 now where p: "run_proc (transition_reversal True (Some ?n) Posted actor ?d) [] w3 = (Inr (), w4, [])"
    and cur4: "current w4 = (current w3)\<lparr>reversals := reversals s @ [set_reversal Posted ?d now r0],
        reversal_events := reversal_events (current w3) @
        [\<lparr>ev_reversal = ?n, ev_from = Some (rv_status r0), ev_to = Posted, ev_actor = actor, ev_detail = ?d\<rparr>]\<rparr>"
    and v4: "versions w4 \<noteq> []" and l4: "ledger w4 = ledger w3" and "notices w4 = notices w3"
    by (rule fresh_transition [OF v3 r3 facts(5) r0(1) nt0 short(2)])
  let ?w5 = "w4\<lparr>notices := notices w4 @ [Reversal_notice (Some ?n)]\<rparr>"
  let ?r1 = "set_reversal Posted ?d now r0"
  have r5: "reversals (current ?w5) = reversals s @ [?r1]" "versions ?w5 \<noteq> []" using v4 by (simp_all add: cur4)
  have r1: "rv_id ?r1 = Some ?n" "\<not> isTerminal (rv_status ?r1)" using r0 by (simp_all add: isTerminal_def)
  obtain w6 now' where n: "run_proc (transition_reversal True (Some ?n) Notified actor no_detail) [] ?w5 = (Inr (), w6, [])"
    and cur6: "current w6 = (current ?w5)\<lparr>reversals := reversals s @ [set_reversal Notified no_detail now' ?r1],
        reversal_events := reversal_events (current ?w5) @
        [\<lparr>ev_reversal = ?n, ev_from = Some (rv_status ?r1), ev_to = Notified, ev_actor = actor, ev_detail = no_detail\<rparr>]\<rparr>"
    and v6: "versions w6 \<noteq> []" and l6: "ledger w6 = ledger ?w5" and "notices w6 = notices ?w5"
    by (rule fresh_transition [OF r5(2,1) facts(5) r1 short(2)])
  have tx6: "map_get (txs (current w6)) (tx_id t) = Some t'" "tx_unreadable t' = None" using un3 facts(6) by (simp_all add: cur6 cur4 tx3)
  have "\<exists>out. run_proc (reverse_transaction (Some ss) order today True (tx_id t) why actor allow) [] w = (Inr out, w6, []) \<and>
      out_already out = already \<and> out_notified out"
    using assms(3,4) allowed_not_reversed [OF assms(3)]
    by (simp add: reverse_transaction_def execute_reversal_def proc_simps fresh_find facts c0 r0(1) fresh_ledger w1(3) post u p [simplified append.simps]
        fresh_notify n fresh_get v6 tx6)
  then obtain out where o: "run_proc (reverse_transaction (Some ss) order today True (tx_id t) why actor allow) [] w = (Inr out, w6, [])"
    "out_already out = already" "out_notified out" by blast
  have e3: "reversal_events (current w3) = reversal_events (current w1)" "disputes (current w3) = disputes s"
    by (subst cur3, simp add: w1)+
  show ?thesis
  proof (rule that [OF o _ v6 tx6(1) st3 id3])
    show "ledger w6 = l" using l6 l4 l3 by simp
    show "reversals (current w6) = reversals s @ [set_reversal Notified no_detail now' ?r1]" by (simp add: cur6)
    show "notified_reversal s (set_reversal Notified no_detail now' ?r1)" using r0 by (simp add: notified_reversal_def)
    show "disputes (current w6) = disputes s" by (simp add: cur6 cur4 e3)
    show "trail s (current w6) = [(?n, None, Requested), (?n, Some Requested, Posted), (?n, Some Posted, Notified)]"
      by (simp add: trail_def cur6 cur4 e3 w1 r0(2) facts(2))
  qed
qed

subsection \<open>The reversal of the program as it is\<close>

lemma undeclared_update:
  "versions w \<noteq> [] \<Longrightarrow> map_get (txs (current w)) tx = Some t \<Longrightarrow>
   run_proc (updateTransactionStatus None tx st None None) [] w = (Inl (ReferenceError ''TERMINAL_IDEMPOTENCY_STATUSES''),
     commit ((current w)\<lparr>txs := map_set tx (t\<lparr>tx_status := st\<rparr>) (txs (current w))\<rparr>) w, [])"
  by (simp add: updateTransactionStatus_def update_tx_def release_if_terminal_def proc_simps)

lemma reversed_again:
  assumes "versions w \<noteq> []" and "map_get (txs (current w)) tx = Some t" and "tx_status t = Status_Workflow.Reversed"
    and "tx_unreadable t = None"
  shows "\<exists>out. run_proc (reverse_transaction terminal order today True tx why actor allow) [] w = (Inr out, w, []) \<and>
    out_already out \<and> \<not> out_notified out"
  using assms by (simp add: reverse_transaction_def getLatestReversal_def proc_simps fresh_find version_current)

lemma failed_not_retried:
  assumes "versions w \<noteq> []" and "reversals (current w) = rs @ [r]" and new: "\<forall>x \<in> set rs. rv_id x \<noteq> Some n"
    and "rv_id r = Some n" and "rv_status r = Reversal_failed"
  shows "run_proc (retryNotification True n) [] w = (Inr False, w, [])"
  using assms by (simp add: retryNotification_def proc_simps fresh_get find_reversal_def find_append_new [OF new])

text \<open>
  A reversal of the program as it is whose calls are all answered: it posts, marks the transaction and throws.
\<close>

lemma undeclared_reversal:
  assumes "stands ref s t w" and "short_texts t actor" and "reversal_allowed allow (tx_status t)"
    and post: "postReversal order (tx_id t) (tx_reference t) why actor today (ledger w) = (Inr (already, posted), l)"
  obtains w' r t' where "run_proc (reverse_transaction None order today True (tx_id t) why actor allow) [] w =
      (Inl (ReferenceError ''TERMINAL_IDEMPOTENCY_STATUSES''), w', [])"
    and "versions w' \<noteq> []" and "ledger w' = l" and "notices w' = notices w"
    and "map_get (txs (current w')) (tx_id t) = Some t'" and "tx_status t' = Status_Workflow.Reversed" and "tx_unreadable t' = None"
    and "reversals (current w') = reversals s @ [r]" and "rv_id r = Some (length (reversals s))" and "rv_status r = Reversal_failed"
    and "disputes (current w') = disputes s"
proof -
  note facts = stands_facts [OF assms(1)]
  let ?n = "length (reversals s)"
  have short: "length (tx_reference t) \<le> 100" "\<not> long_actor actor" using assms(2) by (simp_all add: short_texts_def)
  obtain w1 r0 where c: "run_proc (createReversalRecord True (tx_id t) (tx_reference t) why actor) [] w = (Inr r0, w1, [])"
    and r0_def: "r0 = new_reversal (Some (length (reversals (current w)))) (tx_id t) (tx_reference t) why actor"
    and cur1: "current w1 = (current w)\<lparr>reversals := reversals (current w) @ [r0], reversal_events := reversal_events (current w) @
        [\<lparr>ev_reversal = length (reversals (current w)), ev_from = None, ev_to = Requested, ev_actor = actor,
          ev_detail = no_detail\<lparr>dt_reason := Some why\<rparr>\<rparr>]\<rparr>"
    and w1: "versions w1 \<noteq> []" "ledger w1 = ledger w" "notices w1 = notices w"
    by (rule fresh_record [OF facts(1) short])
  have r0: "rv_id r0 = Some ?n" "\<not> isTerminal (rv_status r0)" by (simp_all add: r0_def facts(2) new_reversal_def isTerminal_def)
  let ?w2 = "w1\<lparr>ledger := l\<rparr>" let ?t = "t\<lparr>tx_status := Status_Workflow.Reversed\<rparr>"
  let ?w3 = "commit ((current ?w2)\<lparr>txs := map_set (tx_id t) ?t (txs (current ?w2))\<rparr>) ?w2"
  have u: "run_proc (updateTransactionStatus None (tx_id t) Status_Workflow.Reversed None None) [] ?w2 =
      (Inl (ReferenceError ''TERMINAL_IDEMPOTENCY_STATUSES''), ?w3, [])"
    by (rule undeclared_update) (use w1 facts cur1 in simp_all)
  let ?d = "no_detail\<lparr>dt_error := Some (ReferenceError ''TERMINAL_IDEMPOTENCY_STATUSES'')\<rparr>"
  have r3: "reversals (current ?w3) = reversals s @ [r0]" "versions ?w3 \<noteq> []" by (simp_all add: cur1 facts(2))
  obtain w4 now where f: "run_proc (transition_reversal True (Some ?n) Reversal_failed actor ?d) [] ?w3 = (Inr (), w4, [])"
    and cur4: "current w4 = (current ?w3)\<lparr>reversals := reversals s @ [set_reversal Reversal_failed ?d now r0],
        reversal_events := reversal_events (current ?w3) @
        [\<lparr>ev_reversal = ?n, ev_from = Some (rv_status r0), ev_to = Reversal_failed, ev_actor = actor, ev_detail = ?d\<rparr>]\<rparr>"
    and w4: "versions w4 \<noteq> []" "ledger w4 = ledger ?w3" "notices w4 = notices ?w3"
    by (rule fresh_transition [OF r3(2,1) facts(5) r0 short(2)])
  have run: "run_proc (reverse_transaction None order today True (tx_id t) why actor allow) [] w =
      (Inl (ReferenceError ''TERMINAL_IDEMPOTENCY_STATUSES''), w4, [])"
    using assms(3) allowed_not_reversed [OF assms(3)]
    by (simp add: reverse_transaction_def execute_reversal_def proc_simps fresh_find facts c r0(1) fresh_ledger w1(2) post
        u [simplified] f [simplified])
  show ?thesis
    by (rule that [OF run w4(1), of ?t "set_reversal Reversal_failed ?d now r0"]) (use w4 w1 cur1 cur4 facts r0 in simp_all)
qed

text \<open>
  C25. A reversal that succeeded is recorded as failed. In the program as it is, with the identifier
  \<open>TERMINAL_IDEMPOTENCY_STATUSES\<close> undeclared and every call answered: \<open>reverse\<close> posts the reversal to the
  ledger, sets the transaction to reversed and then throws, and its record ends as failed. A second
  call reports that the transaction is already reversed, the retry of the notification refuses the
  record, and no notification is ever sent.
\<close>

theorem reversal_recorded_as_failed:
  assumes "stands ref s t w" and "short_texts t actor" and "reversal_allowed allow (tx_status t)"
    and post: "postReversal order (tx_id t) (tx_reference t) why actor today (ledger w) = (Inr (already, posted), l)"
  shows "\<exists>w' r t'. run_proc (reverse_transaction None order today True (tx_id t) why actor allow) [] w =
      (Inl (ReferenceError ''TERMINAL_IDEMPOTENCY_STATUSES''), w', []) \<and> ledger w' = l \<and>
    map_get (txs (current w')) (tx_id t) = Some t' \<and> tx_status t' = Status_Workflow.Reversed \<and>
    reversals (current w') = reversals s @ [r] \<and> rv_status r = Reversal_failed \<and> notices w' = notices w \<and>
    (\<exists>out. run_proc (reverse_transaction None order today True (tx_id t) why actor allow) [] w' = (Inr out, w', []) \<and>
       out_already out \<and> \<not> out_notified out) \<and>
    run_proc (retryNotification True (length (reversals s))) [] w' = (Inr False, w', [])"
proof -
  from undeclared_reversal [OF assms] obtain w' r t' where
    "run_proc (reverse_transaction None order today True (tx_id t) why actor allow) [] w =
      (Inl (ReferenceError ''TERMINAL_IDEMPOTENCY_STATUSES''), w', [])" "versions w' \<noteq> []" "ledger w' = l" "notices w' = notices w"
    "map_get (txs (current w')) (tx_id t) = Some t'" "tx_status t' = Status_Workflow.Reversed" "tx_unreadable t' = None"
    "reversals (current w') = reversals s @ [r]" "rv_id r = Some (length (reversals s))" "rv_status r = Reversal_failed" .
  with reversed_again [of w' "tx_id t" t'] failed_not_retried [of w' "reversals s" r] stands_facts(5) [OF assms(1)]
  show ?thesis by (intro exI [of _ w'] exI [of _ r] exI [of _ t'] conjI) simp_all
qed

lemma sample_stands: "stands (\<lambda>_. ''R'') sample_store sample_tx sample_world"
  using sample_world_ok(1) by (simp add: stands_def sample_world_def sample_store_def sample_tx_def map_get_def)

lemma sample_post:
  obtains posted l where "postReversal (ledger_sort sample_env) (tx_id sample_tx) (tx_reference sample_tx) ''fraud'' None (ledger_day sample_env)
      (ledger sample_world) = (Inr (False, posted), l)"
  using sample_reversal by (auto simp: sample_env_def sample_tx_def sample_world_def)

lemma sample_short: "short_texts sample_tx None" "reversal_allowed True (tx_status sample_tx)" "truthy_string (tx_user sample_tx)"
  by (simp_all add: short_texts_def sample_tx_def long_actor_def reversal_allowed_def)

theorem reversal_recorded_as_failed_witness:
  "\<exists>w' r. run_proc (reverse_transaction None (\<lambda>rows. rows) 0 True ''t'' ''fraud'' None True) [] sample_world =
      (Inl (ReferenceError ''TERMINAL_IDEMPOTENCY_STATUSES''), w', []) \<and> reversals (current w') = [r] \<and> rv_status r = Reversal_failed"
proof -
  obtain posted l where p: "postReversal (ledger_sort sample_env) (tx_id sample_tx) (tx_reference sample_tx) ''fraud'' None (ledger_day sample_env)
      (ledger sample_world) = (Inr (False, posted), l)" by (rule sample_post)
  from reversal_recorded_as_failed [OF sample_stands sample_short(1,2) p]
  show ?thesis by (auto simp: sample_env_def sample_tx_def sample_store_def)
qed

subsection \<open>An interrupted reversal\<close>

lemma cancelled_reversal:
  assumes "cancelled_by tx rf rows0 l"
  shows "postReversal order tx rf why pb today l = (Inr (True, []), l)"
proof -
  from assms have "filter (\<lambda>r. row_reference r = reversal_reference rf) (rows_of tx l) \<noteq> []"
    by (auto simp: cancelled_by_def filter_empty_conv neq_Nil_conv)
  then show ?thesis unfolding postReversal_def Let_def rows_of_def [symmetric] by simp
qed

text \<open>
  C23. An interrupted reversal is finished by the next calls, as far as the program as it is can do it. Whatever
  calls ran, were interrupted or lost their answers, as long as they left a reversal of the transaction in
  the ledger and the transaction not yet marked: a further call of \<open>reverse\<close> posts nothing and marks the
  transaction as reversed, but then throws, because \<open>TERMINAL_IDEMPOTENCY_STATUSES\<close> is not declared; every
  call after it reports, without an error and without changing anything, that the transaction was already
  reversed. No notification is sent.
\<close>

theorem interrupted_reversal_marked:
  assumes "world_ok ref w" and "tx \<noteq> []" and "small_rows (rows_of tx (ledger w))"
    and "\<forall>(env, c) \<in> set cs. ledger_order (ledger_sort env)"
    and w': "w' = snd (run_pool sched (requests cs) w)"
    and "rows_of tx (ledger w') \<noteq> rows_of tx (ledger w)"
    and t: "map_get (txs (current w')) tx = Some t" and "reversal_allowed allow (tx_status t)" and "short_texts t actor"
    and "tx_unreadable t = None"
  shows "\<exists>w'' t'. run_proc (reverse_transaction None order today True tx why actor allow) [] w' =
      (Inl (ReferenceError ''TERMINAL_IDEMPOTENCY_STATUSES''), w'', []) \<and> ledger w'' = ledger w' \<and> notices w'' = notices w' \<and>
    map_get (txs (current w'')) tx = Some t' \<and> tx_status t' = Status_Workflow.Reversed \<and>
    (\<forall>order' today' why' actor' allow'. \<exists>out.
       run_proc (reverse_transaction None order' today' True tx why' actor' allow') [] w'' = (Inr out, w'', []) \<and>
       out_already out \<and> \<not> out_notified out)"
proof -
  have inv: "reversal_inv tx ref (rows_of tx (ledger w)) w'" unfolding w' by (rule pool_invariant [OF assms(1-4)])
  then have wok: "world_ok ref w'" by (simp add: reversal_inv_def world_ok_def)
  then have "store_ok ref (current w')" by (auto simp: world_ok_def current_def)
  then have id: "tx_id t = tx" "tx_reference t = ref tx" using t by (auto dest: store_ok_row)
  have st: "stands ref (current w') t w'" using wok t id assms(10) by (simp add: stands_def current_def)
  have "cancelled_by tx (ref tx) (rows_of tx (ledger w)) (ledger w')" using inv assms(6) by (simp add: reversal_inv_def)
  then have post: "postReversal order (tx_id t) (tx_reference t) why actor today (ledger w') = (Inr (True, []), ledger w')"
    unfolding id by (rule cancelled_reversal)
  from undeclared_reversal [OF st assms(9,8) post] obtain w'' t' where
    "run_proc (reverse_transaction None order today True (tx_id t) why actor allow) [] w' =
      (Inl (ReferenceError ''TERMINAL_IDEMPOTENCY_STATUSES''), w'', [])" "versions w'' \<noteq> []" "ledger w'' = ledger w'"
    "notices w'' = notices w'" "map_get (txs (current w'')) (tx_id t) = Some t'" "tx_status t' = Status_Workflow.Reversed"
    "tx_unreadable t' = None" .
  with reversed_again [of w'' tx t'] id show ?thesis by (intro exI [of _ w''] exI [of _ t'] conjI allI) simp_all
qed

lemma run_settle: "run_proc (settle p) is w = (case run_proc p is w of (r, w', is') \<Rightarrow> ((), w', is'))"
  by (simp add: settle_def run_proc_bind)

lemma sample_interrupted:
  "\<exists>sched w'. snd (run_pool sched (requests [(sample_env, Reverse_call True ''t'' ''fraud'' None True)]) sample_world) = w' \<and>
     rows_of ''t'' (ledger w') \<noteq> rows_of ''t'' (ledger sample_world) \<and> map_get (txs (current w')) ''t'' = Some sample_tx"
proof -
  obtain posted l where p: "postReversal (\<lambda>rows. rows) ''t'' ''R'' ''fraud'' None 0 posted_db = (Inr (False, posted), l)"
    using sample_reversal by blast
  have l: "rows_of ''t'' l \<noteq> rows_of ''t'' posted_db"
  proof (rule reversal_appends [OF posted_db_ok(1) refl _ _ p])
    fix rows assume "l = posted_db\<lparr>ledger_entries := ledger_entries posted_db @ rows\<rparr>" "rows \<noteq> []"
      "\<forall>r \<in> set rows. row_transaction r = Some ''t'' \<and> row_reference r = reversal_reference ''R''"
    then show "rows_of ''t'' l \<noteq> rows_of ''t'' posted_db" by (cases rows) (simp_all add: rows_of_def)
  qed (use posted_db_ok(2) in \<open>simp_all add: small_rows_def\<close>)
  let ?p = "call_proc sample_env (Reverse_call True ''t'' ''fraud'' None True)"
  have "\<exists>r w'. run_proc ?p [Fresh, Fresh, Fresh, Fresh, Lost] sample_world = (r, w', []) \<and> ledger w' = l \<and>
      txs (current w') = [(''t'', sample_tx)]"
    by (simp add: run_settle run_reversal sample_world_def sample_env_def sample_store_def sample_tx_def version_def current_def
        map_get_def p reversal_allowed_def long_actor_def set_reversal_def no_detail_def)
  then obtain r w' where run: "run_proc ?p [Fresh, Fresh, Fresh, Fresh, Lost] sample_world = (r, w', [])"
    and w': "ledger w' = l" "txs (current w') = [(''t'', sample_tx)]" by blast
  have "\<exists>os. run_pool (map (Pair 0) os) [?p] sample_world = ([?p][0 := Finished r], w')"
    using pool_runs_one [of 0 "[?p]" "[Fresh, Fresh, Fresh, Fresh, Lost]" sample_world] unfolding nth_Cons_0 run by auto
  then obtain os where "snd (run_pool (map (Pair 0) os) [?p] sample_world) = w'" by (metis snd_conv)
  then show ?thesis using l w'
    by (intro exI [of _ "map (Pair 0) os"] exI [of _ w']) (simp add: requests_def sample_world_def map_get_def)
qed

theorem interrupted_reversal_marked_witness:
  "\<exists>w' w'' t'. run_proc (reverse_transaction None (\<lambda>rows. rows) 1 True ''t'' ''again'' None True) [] w' =
       (Inl (ReferenceError ''TERMINAL_IDEMPOTENCY_STATUSES''), w'', []) \<and> ledger w'' = ledger w' \<and>
     map_get (txs (current w')) ''t'' = Some sample_tx \<and> map_get (txs (current w'')) ''t'' = Some t' \<and>
     tx_status t' = Status_Workflow.Reversed"
proof -
  obtain sched w' where w': "snd (run_pool sched (requests [(sample_env, Reverse_call True ''t'' ''fraud'' None True)]) sample_world) = w'"
    and changed: "rows_of ''t'' (ledger w') \<noteq> rows_of ''t'' (ledger sample_world)" and t: "map_get (txs (current w')) ''t'' = Some sample_tx"
    using sample_interrupted by blast
  have "tx_unreadable sample_tx = None" by (simp add: sample_tx_def)
  from interrupted_reversal_marked [OF sample_world_ok(1) _ sample_world_ok(2) _ w' [symmetric] changed t sample_short(2,1) this,
      of "\<lambda>rows. rows" 1 "''again''"]
  show ?thesis using t by (auto simp: sample_order)
qed

subsection \<open>Terminal states\<close>

lemma find_set_reversal:
  "find (\<lambda>r. rv_id r = Some n) rs = Some r \<Longrightarrow>
   find (\<lambda>r. rv_id r = Some n) (map (\<lambda>x. if rv_id x = Some n then set_reversal st detail now x else x) rs) =
     Some (set_reversal st detail now r)"
  by (induction rs) (auto split: if_splits)

text \<open>
  A terminal state is left through a stale read. As long as the record is read from the current state, a
  transition of a notified or failed reversal changes nothing. But the record is read from a replica and
  the UPDATE does not repeat the check: if the replica still shows the record in a state that is not
  terminal, the transition is carried out, and a reversal whose customer was notified can end as failed.
\<close>

theorem terminal_state_left_by_stale_read:
  assumes "versions w \<noteq> []" and "find_reversal n (current w) = Some r" and "isTerminal (rv_status r)" and "\<not> long_actor actor"
  shows "run_proc (transition_reversal True (Some n) to_status actor detail) [] w = (Inr (), w, []) \<and>
    (find_reversal n (version k w) = Some old \<longrightarrow> \<not> isTerminal (rv_status old) \<longrightarrow>
      (\<exists>w' r'. run_proc (transition_reversal True (Some n) to_status actor detail) [Stale k] w = (Inr (), w', []) \<and>
        find_reversal n (current w') = Some r' \<and> rv_status r' = to_status \<and>
        (to_status = Reversal_failed \<longrightarrow> rv_notified_at r' = rv_notified_at r)))"
proof (intro conjI impI)
  show "run_proc (transition_reversal True (Some n) to_status actor detail) [] w = (Inr (), w, [])"
    using assms by (simp add: transition_reversal_def proc_simps fresh_get)
next
  assume old: "find_reversal n (version k w) = Some old" "\<not> isTerminal (rv_status old)"
  let ?now = "length (reversal_events (current w))"
  define s1 where "s1 = (current w)\<lparr>reversals := map (\<lambda>x. if rv_id x = Some n then set_reversal to_status detail ?now x else x) (reversals (current w))\<rparr>"
  have found: "find_reversal n s1 = Some (set_reversal to_status detail ?now r)"
    using assms(2) by (simp add: find_reversal_def s1_def find_set_reversal)
  then have "list_ex (\<lambda>x. rv_id x = Some n) (reversals s1)"
    by (auto simp: find_reversal_def list_ex_iff find_Some_iff dest: nth_mem)
  moreover have "update_reversal n to_status detail (current w) = Inr ((), s1)" by (simp add: update_reversal_def s1_def)
  ultimately show "\<exists>w' r'. run_proc (transition_reversal True (Some n) to_status actor detail) [Stale k] w = (Inr (), w', []) \<and>
        find_reversal n (current w') = Some r' \<and> rv_status r' = to_status \<and>
        (to_status = Reversal_failed \<longrightarrow> rv_notified_at r' = rv_notified_at r)"
    using old found assms(4)
    by (simp add: transition_reversal_def getReversal_def appendAuditEvent_def insert_event_def proc_simps find_reversal_def)
qed

definition notified_world :: world where
  "notified_world = \<lparr>versions = [sample_store\<lparr>reversals := [(new_reversal (Some 0) ''t'' ''R'' ''x'' None)\<lparr>rv_status := Notified, rv_notified_at := Some 2\<rparr>]\<rparr>,
     sample_store\<lparr>reversals := [(new_reversal (Some 0) ''t'' ''R'' ''x'' None)\<lparr>rv_status := Posted\<rparr>]\<rparr>], ledger = posted_db, notices = []\<rparr>"

theorem terminal_state_left_by_stale_read_witness:
  "\<exists>w' r'. run_proc (transition_reversal True (Some 0) Reversal_failed None no_detail) [Stale 1] notified_world = (Inr (), w', []) \<and>
     find_reversal 0 (current w') = Some r' \<and> rv_status r' = Reversal_failed \<and> rv_notified_at r' = Some 2"
proof -
  let ?r = "(new_reversal (Some 0) ''t'' ''R'' ''x'' None)\<lparr>rv_status := Notified, rv_notified_at := Some 2\<rparr>"
  let ?old = "(new_reversal (Some 0) ''t'' ''R'' ''x'' None)\<lparr>rv_status := Posted\<rparr>"
  have "versions notified_world \<noteq> []" "find_reversal 0 (current notified_world) = Some ?r" "isTerminal (rv_status ?r)" "\<not> long_actor None"
    "find_reversal 0 (version 1 notified_world) = Some ?old" "\<not> isTerminal (rv_status ?old)" "rv_notified_at ?r = Some 2"
    by (simp_all add: notified_world_def current_def version_def find_reversal_def new_reversal_def isTerminal_def long_actor_def)
  with terminal_state_left_by_stale_read [of notified_world 0 ?r None Reversal_failed no_detail 1 ?old] show ?thesis by auto
qed

subsection \<open>Operations on a dispute\<close>

text \<open>Texts without a colon are not taken for encrypted ones.\<close>

definition plain_dispute :: "dispute_row \<Rightarrow> bool" where
  "plain_dispute d \<longleftrightarrow> CHR '':'' \<notin> set (d_reason d) \<and> (\<forall>r. d_resolution d = Some r \<longrightarrow> CHR '':'' \<notin> set r)"

definition notes_readable :: "dispute_env \<Rightarrow> bool" where
  "notes_readable env \<longleftrightarrow> (\<forall>v. v \<noteq> [] \<longrightarrow>
     decrypt_text env (encrypt (dispute_crypto env) (dispute_keys env) (note_iv env) (Some v) False) = Inr (Some v))"

lemma gcm_notes_readable:
  assumes "gcm_laws (dispute_crypto env)"
    and "deriveKey (dispute_crypto env) (DB_ENCRYPTION_KEY (dispute_keys env)) default_info \<in> set (global_keys (dispute_crypto env) (dispute_keys env))"
    and "\<And>v. rejects_other_keys (dispute_crypto env) (deriveKey (dispute_crypto env) (DB_ENCRYPTION_KEY (dispute_keys env)) default_info)
      (note_iv env) v"
  shows "notes_readable env"
  unfolding notes_readable_def
proof (intro allI impI)
  fix v :: string assume "v \<noteq> []"
  from decrypt_after_rotation [OF assms(1) this refl assms(2,3) if_False [symmetric]]
  show "decrypt_text env (encrypt (dispute_crypto env) (dispute_keys env) (note_iv env) (Some v) False) = Inr (Some v)"
    by (simp add: decrypt_text_def)
qed

lemma decrypt_plain: "CHR '':'' \<notin> set v \<Longrightarrow> decrypt_text env (Some v) = Inr (Some v)" "decrypt_text env None = Inr None"
  by (auto simp: decrypt_text_def decrypt_def)

lemma decrypt_plain_dispute: "plain_dispute d \<Longrightarrow> decrypt_dispute env d = Inr d"
  by (cases "d_resolution d") (simp_all add: plain_dispute_def decrypt_dispute_def decrypt_plain)

lemma fresh_existing:
  "versions w \<noteq> [] \<Longrightarrow> find_dispute did (current w) = Some d \<Longrightarrow> plain_dispute d \<Longrightarrow>
   run_proc (existing_dispute env did) [] w = (Inr d, w, [])"
  by (simp add: existing_dispute_def findById_def decrypt_found_def lift_result_def proc_simps version_current decrypt_plain_dispute)

lemma unique_active_close:
  assumes "unique_active ds" and "up_status u = Some st" and "st \<noteq> Open" and "st \<noteq> Investigating"
  shows "unique_active (map (\<lambda>x. if d_id x = did then set_dispute u x else x) ds)"
proof -
  have eq: "map d_transaction (filter active_dispute (map (\<lambda>x. if d_id x = did then set_dispute u x else x) ds)) =
      map d_transaction (filter (\<lambda>x. d_id x \<noteq> did) (filter active_dispute ds))"
    using assms(2-4) by (induction ds) (auto simp: active_dispute_def set_dispute_def)
  have "distinct (map d_transaction (filter (\<lambda>x. d_id x \<noteq> did) (filter active_dispute ds)))"
    using assms(1) unfolding unique_active_def by (rule distinct_map_filter)
  then show ?thesis unfolding unique_active_def eq .
qed

lemma find_set_dispute:
  "find (\<lambda>d. d_id d = did) ds = Some d \<Longrightarrow>
   find (\<lambda>d. d_id d = did) (map (\<lambda>x. if d_id x = did then set_dispute u x else x) ds) = Some (set_dispute u d)"
  by (induction ds) (auto split: if_splits)

lemma fresh_close:
  assumes "versions w \<noteq> []" and "find_dispute did (current w) = Some d" and "unique_active (disputes (current w))"
    and u: "up_status u = Some st" "st \<noteq> Open" "st \<noteq> Investigating" "\<not> too_long 100 (up_assigned u)" "\<not> too_long 100 (up_category u)"
    and "plain_dispute (set_dispute u d)"
  obtains w' where "run_proc (update_dispute env did u) [] w = (Inr (set_dispute u d), w', [])"
    and "current w' = (current w)\<lparr>disputes := disputes (current w')\<rparr>" and "find_dispute did (current w') = Some (set_dispute u d)"
    and "unique_active (disputes (current w'))"
    and "versions w' \<noteq> []" and "ledger w' = ledger w" and "notices w' = notices w"
proof -
  have "u \<noteq> no_update" using u(1) by (auto simp: no_update_def)
  with assms(2,4-9) unique_active_close [OF assms(3) u(1-3), of did] that [of "commit ((current w)\<lparr>disputes :=
      map (\<lambda>x. if d_id x = did then set_dispute u x else x) (disputes (current w))\<rparr>) w"]
  show ?thesis
    by (simp add: update_dispute_def update_disputes_def returned_row_def lift_result_def proc_simps decrypt_plain_dispute
        find_dispute_def find_set_dispute)
qed

lemma fresh_note:
  assumes "versions w \<noteq> []" and "find_dispute did (current w) \<noteq> None" and "length author \<le> 100" and "text \<noteq> []" and "notes_readable env"
  obtains w' n where "run_proc (add_note env did author text) [] w = (Inr n, w', [])"
    and "current w' = (current w)\<lparr>dispute_notes := dispute_notes (current w')\<rparr>" and "n_text n = text"
    and "versions w' \<noteq> []" and "ledger w' = ledger w" and "notices w' = notices w"
proof -
  have "encrypt (dispute_crypto env) (dispute_keys env) (note_iv env) (Some text) False \<noteq> None"
    using assms(4) by (simp add: encrypt_def Let_def split: prod.split)
  then obtain stored where e: "encrypt (dispute_crypto env) (dispute_keys env) (note_iv env) (Some text) False = Some stored"
    by blast
  with assms(4,5) have "decrypt_text env (Some stored) = Inr (Some text)" by (metis notes_readable_def)
  with assms(1-3) e that show ?thesis
    by (auto simp: add_note_def insert_note_def lift_result_def proc_simps)
qed

lemma fresh_event:
  assumes "versions w \<noteq> []" and "timeline_service env"
  obtains w' where "run_proc (record_event env did type actor old_status new_status) [] w = (Inr (), w', [])"
    and "current w' = (current w)\<lparr>dispute_timeline := dispute_timeline (current w')\<rparr>"
    and "versions w' \<noteq> []" and "ledger w' = ledger w" and "notices w' = notices w"
proof (cases "find_dispute did (current w)")
  case None
  then show ?thesis using assms by (intro that [of w])
      (simp_all add: record_event_def addEvent_def findById_def decrypt_found_def proc_simps version_current)
next
  case (Some d)
  show ?thesis
  proof (cases "decrypt_dispute env d")
    case (Inl e)
    then show ?thesis using assms Some by (intro that [of w])
        (simp_all add: record_event_def addEvent_def findById_def decrypt_found_def lift_result_def proc_simps version_current)
  next
    case (Inr d')
    note run = record_event_def addEvent_def findById_def decrypt_found_def lift_result_def proc_simps version_current
    show ?thesis
    proof (cases "50 < length type \<or> 100 < length actor")
      case True
      then show ?thesis using assms Some Inr by (intro that [of w]) (simp_all add: run insert_timeline_def)
    next
      case False
      let ?e = "\<lparr>tl_dispute = did, tl_type = type, tl_actor = actor, tl_old = old_status, tl_new = new_status\<rparr>"
      from False show ?thesis using assms Some Inr
        by (intro that [of "commit ((current w)\<lparr>dispute_timeline := dispute_timeline (current w) @ [?e]\<rparr>) w"])
          (simp_all add: run insert_timeline_def)
    qed
  qed
qed

lemma fresh_message: "run_proc (sendNotification event d) [] w = (Inr (), w\<lparr>notices := notices w @ [Dispute_notice event (d_id d) (d_status d)]\<rparr>, [])"
  by (simp add: sendNotification_def proc_simps)

end
