(* ===== verification/Dispute_Runs.thy ===== *)
theory Dispute_Runs
  imports Payment_Runs
begin

text \<open>
  What the operations on disputes leave when they run alone or two at a time: the resolution of a
  payment from the dispute to the ledger, and the ways in which dispute, transaction and ledger come
  to disagree.
\<close>

subsection \<open>The resolution of a payment\<close>

text \<open>The names of an administrator and the texts fit their columns and hold no colon.\<close>

definition clean_resolution :: "string \<Rightarrow> string option \<Rightarrow> bool" where
  "clean_resolution resolution admin \<longleftrightarrow> trim resolution \<noteq> [] \<and> CHR '':'' \<notin> set (trim resolution) \<and> \<not> too_long 100 admin"

lemma short_actor: "\<not> too_long 100 admin \<Longrightarrow> \<not> long_actor admin"
  by (auto simp: too_long_def long_actor_def split: option.splits)

definition closing :: "dispute_status \<Rightarrow> string \<Rightarrow> string option \<Rightarrow> dispute_update" where
  "closing st resolution admin = no_update\<lparr>up_status := Some st, up_resolution := Some resolution, up_assigned := admin\<rparr>"

lemma closing_simps [simp]: "up_status (closing st r a) = Some st" "up_assigned (closing st r a) = a" "up_category (closing st r a) = None"
  by (simp_all add: closing_def no_update_def)

lemma closed_dispute: "d_status (set_dispute (closing st r a) d) = st" "d_resolution (set_dispute (closing st r a) d) = Some r"
  "d_transaction (set_dispute u d) = d_transaction d" "d_reason (set_dispute u d) = d_reason d"
  by (simp_all add: set_dispute_def closing_def no_update_def)

lemma active_not_terminal: "active_dispute d \<Longrightarrow> d_status d \<notin> set TERMINAL_STATUSES"
  by (auto simp: active_dispute_def TERMINAL_STATUSES_def)

text \<open>The part that follows the reversal or the decision to uphold: dispute, note, timeline, message.\<close>

definition finish_resolution :: "dispute_env \<Rightarrow> nat \<Rightarrow> dispute_row \<Rightarrow> resolution_action \<Rightarrow> string \<Rightarrow> string option \<Rightarrow> dispute_row service" where
  "finish_resolution env did d action resolution adminId =
     (let next_status = (if action = Reverse_payment then Dispute_Machine.Reversed else Upheld);
          admin = (case adminId of None \<Rightarrow> ''admin'' | Some a \<Rightarrow> a) in
      and_then (update_dispute env did (closing next_status (trim resolution) adminId)) (\<lambda>updated.
      and_then (if action = Uphold_payment
          then updateTransactionStatus (terminal_statuses env) (d_transaction d) Completed None None else ok ()) (\<lambda>_.
      and_then (add_note env did admin
          (''Admin '' @ (if action = Reverse_payment then ''reversed'' else ''upheld'') @ '' payment: '' @ trim resolution)) (\<lambda>_.
      and_then (record_event env did (if action = Reverse_payment then ''reversed'' else ''upheld'') admin
          (Some (d_status d)) (Some next_status)) (\<lambda>_.
      and_then (sendNotification (''dispute.payment_'' @ (if action = Reverse_payment then ''reversed'' else ''upheld'')) updated)
        (\<lambda>_. ok updated))))))"

lemma resolvePayment_parts:
  "resolvePayment env did action resolution adminId =
     (if trim resolution = [] then throw (ResolutionTextRequired None)
      else and_then (existing_dispute env did) (\<lambda>d.
        if d_status d \<in> set TERMINAL_STATUSES then throw (CannotResolve (d_status d))
        else and_then (if action = Reverse_payment
              then and_then (reverse_transaction (terminal_statuses env) (ledger_sort env) (ledger_day env) True
                     (d_transaction d) (trim resolution) adminId True) (\<lambda>_. ok ())
              else ok ()) (\<lambda>_. finish_resolution env did d action resolution adminId)))"
  by (simp only: resolvePayment_def finish_resolution_def Let_def closing_def)

lemma fresh_finish:
  assumes "versions w \<noteq> []" and d: "find_dispute did (current w) = Some d0" and "unique_active (disputes (current w))"
    and "plain_dispute d0" and c: "clean_resolution resolution admin" and "notes_readable env" and "timeline_service env"
    and "terminal_statuses env = Some ss" and t: "map_get (txs (current w)) (d_transaction d) = Some t"
  obtains w' d' t' where "run_proc (finish_resolution env did d action resolution admin) [] w = (Inr d', w', [])"
    and "find_dispute did (current w') = Some d'" and "plain_dispute d'" and "unique_active (disputes (current w'))"
    and "d_status d' = (if action = Reverse_payment then Dispute_Machine.Reversed else Upheld)"
    and "map_get (txs (current w')) (d_transaction d) = Some t'"
    and "tx_status t' = (if action = Uphold_payment then Completed else tx_status t)"
    and "versions w' \<noteq> []" and "ledger w' = ledger w" and "reversals (current w') = reversals (current w)"
    and "reversal_events (current w') = reversal_events (current w)"
proof -
  let ?st = "if action = Reverse_payment then Dispute_Machine.Reversed else Upheld" and ?u = "closing (if action = Reverse_payment then Dispute_Machine.Reversed else Upheld) (trim resolution) admin"
  let ?d = "set_dispute ?u d0"
  have u: "up_status ?u = Some ?st" "?st \<noteq> Open" "?st \<noteq> Investigating" "\<not> too_long 100 (up_assigned ?u)" "\<not> too_long 100 (up_category ?u)"
    using c by (auto simp: clean_resolution_def too_long_def)
  have plain: "plain_dispute ?d" using assms(4) c by (simp add: plain_dispute_def closed_dispute clean_resolution_def)
  obtain w1 where r1: "run_proc (update_dispute env did ?u) [] w = (Inr ?d, w1, [])"
    and c1: "current w1 = (current w)\<lparr>disputes := disputes (current w1)\<rparr>" and f1: "find_dispute did (current w1) = Some ?d"
    and u1: "unique_active (disputes (current w1))" and v1: "versions w1 \<noteq> []" "ledger w1 = ledger w" and "notices w1 = notices w"
    by (rule fresh_close [OF assms(1) d assms(3) u plain])
  have t1: "map_get (txs (current w1)) (d_transaction d) = Some t" by (subst c1) (simp add: t)
  obtain w2 t' where r2: "run_proc (if action = Uphold_payment then updateTransactionStatus (terminal_statuses env) (d_transaction d) Completed None None
      else ok ()) [] w1 = (Inr (), w2, [])"
    and c2: "current w2 = (current w1)\<lparr>txs := txs (current w2)\<rparr>" and t2: "map_get (txs (current w2)) (d_transaction d) = Some t'"
    and s2: "tx_status t' = (if action = Uphold_payment then Completed else tx_status t)"
    and v2: "versions w2 \<noteq> []" "ledger w2 = ledger w1"
  proof (cases "action = Uphold_payment")
    case True
    show ?thesis by (rule fresh_update [OF v1(1) t1, of ss Completed]) (use True assms(8) that in auto)
  next
    case False
    show ?thesis by (rule that [of w1 t]) (use False t1 v1 in \<open>simp_all add: proc_simps\<close>)
  qed
  let ?admin = "case admin of None \<Rightarrow> ''admin'' | Some a \<Rightarrow> a"
  let ?text = "''Admin '' @ (if action = Reverse_payment then ''reversed'' else ''upheld'') @ '' payment: '' @ trim resolution"
  have f2: "find_dispute did (current w2) = Some ?d" by (subst c2) (use f1 in \<open>simp add: find_dispute_def\<close>)
  have adm: "length ?admin \<le> 100" using c by (auto simp: clean_resolution_def too_long_def split: option.splits)
  have some2: "find_dispute did (current w2) \<noteq> None" and nonempty: "?text \<noteq> []" using f2 by simp_all
  obtain w3 n where r3: "run_proc (add_note env did ?admin ?text) [] w2 = (Inr n, w3, [])"
    and c3: "current w3 = (current w2)\<lparr>dispute_notes := dispute_notes (current w3)\<rparr>" and "n_text n = ?text"
    and v3: "versions w3 \<noteq> []" "ledger w3 = ledger w2" and "notices w3 = notices w2"
    by (rule fresh_note [OF v2(1) some2 adm nonempty assms(6)])
  obtain w4 where r4: "run_proc (record_event env did (if action = Reverse_payment then ''reversed'' else ''upheld'') ?admin
      (Some (d_status d)) (Some ?st)) [] w3 = (Inr (), w4, [])"
    and c4: "current w4 = (current w3)\<lparr>dispute_timeline := dispute_timeline (current w4)\<rparr>"
    and v4: "versions w4 \<noteq> []" "ledger w4 = ledger w3" and "notices w4 = notices w3"
    by (rule fresh_event [OF v3(1) assms(7)])
  let ?w5 = "w4\<lparr>notices := notices w4 @ [Dispute_notice (''dispute.payment_'' @ (if action = Reverse_payment then ''reversed'' else ''upheld''))
      (d_id ?d) (d_status ?d)]\<rparr>"
  have run: "run_proc (finish_resolution env did d action resolution admin) [] w = (Inr ?d, ?w5, [])"
    unfolding finish_resolution_def Let_def by (simp only: run_and_then r1 r2 r3 r4 fresh_message run_ok prod.case sum.case)
  have "txs (current w4) = txs (current w3)" "reversals (current w4) = reversals (current w3)"
    "reversal_events (current w4) = reversal_events (current w3)" "disputes (current w4) = disputes (current w3)"
    by (subst c4, simp)+
  moreover have "txs (current w3) = txs (current w2)" "reversals (current w3) = reversals (current w2)"
    "reversal_events (current w3) = reversal_events (current w2)" "disputes (current w3) = disputes (current w2)"
    by (subst c3, simp)+
  moreover have d2: "disputes (current w2) = disputes (current w1)" by (subst c2) simp
  moreover have "reversals (current w2) = reversals (current w)" "reversal_events (current w2) = reversal_events (current w)"
    by (subst c2, simp, subst c1, simp)+
  ultimately have same: "txs (current w4) = txs (current w2)" "reversals (current w4) = reversals (current w)"
    "reversal_events (current w4) = reversal_events (current w)" "disputes (current w4) = disputes (current w1)" "disputes (current w2) = disputes (current w1)" by simp_all
  show ?thesis
    by (rule that [OF run _ plain _ _ _ s2])
      (use u1 t2 f2 v4 v3 v2 v1 same in \<open>simp_all add: closed_dispute find_dispute_def\<close>)
qed

text \<open>A dispute that can be resolved, in a service as it is meant to be built.\<close>

definition resolvable :: "dispute_env \<Rightarrow> nat \<Rightarrow> dispute_row \<Rightarrow> tx_row \<Rightarrow> store \<Rightarrow> bool" where
  "resolvable env did d t s \<longleftrightarrow> find_dispute did s = Some d \<and> active_dispute d \<and> plain_dispute d \<and> d_transaction d = tx_id t \<and>
     notes_readable env \<and> timeline_service env \<and> terminal_statuses env \<noteq> None"

lemma stands_unique: "stands ref s t w \<Longrightarrow> unique_active (disputes s)"
  by (auto simp: stands_def world_ok_def store_ok_def disputes_ok_def)

lemma fresh_resolution_reverse:
  assumes st: "stands ref s t w" and d: "resolvable env did d t s" and c: "clean_resolution resolution admin"
    and sh: "short_texts t admin" and allow: "reversal_allowed True (tx_status t)" and user: "truthy_string (tx_user t)"
    and post: "postReversal (ledger_sort env) (tx_id t) (tx_reference t) (trim resolution) admin (ledger_day env) (ledger w) = (Inr (already, posted), l)"
  obtains w' d' t' r where "run_proc (resolvePayment env did Reverse_payment resolution admin) [] w = (Inr d', w', [])"
    and "find_dispute did (current w') = Some d'" and "plain_dispute d'" and "unique_active (disputes (current w'))"
    and "d_status d' = Dispute_Machine.Reversed" and "ledger w' = l"
    and "map_get (txs (current w')) (tx_id t) = Some t'" and "tx_status t' = Status_Workflow.Reversed" and "versions w' \<noteq> []"
    and "reversals (current w') = reversals s @ [r]" and "notified_reversal s r"
    and "trail s (current w') = [(length (reversals s), None, Requested), (length (reversals s), Some Requested, Posted),
        (length (reversals s), Some Posted, Notified)]"
proof -
  note facts = stands_facts [OF st]
  obtain ss where ss: "terminal_statuses env = Some ss" using d by (auto simp: resolvable_def)
  note dd = d [unfolded resolvable_def]
  have active: "d_status d \<notin> set TERMINAL_STATUSES" using dd active_not_terminal by blast
  have fd: "find_dispute did (current w) = Some d" using dd facts(2) by simp
  obtain out w1 t1 r where run1: "run_proc (reverse_transaction (Some ss) (ledger_sort env) (ledger_day env) True (tx_id t) (trim resolution) admin True) [] w = (Inr out, w1, [])"
    and "out_already out = already" "out_notified out" and l1: "ledger w1 = l" and v1: "versions w1 \<noteq> []"
    and t1: "map_get (txs (current w1)) (tx_id t) = Some t1" and s1: "tx_status t1 = Status_Workflow.Reversed" and "tx_id t1 = tx_id t"
    and r1: "reversals (current w1) = reversals s @ [r]" "notified_reversal s r" and d1: "disputes (current w1) = disputes s"
    and e1: "trail s (current w1) = [(length (reversals s), None, Requested), (length (reversals s), Some Requested, Posted),
        (length (reversals s), Some Posted, Notified)]"
    by (rule fresh_reversal [OF st sh allow user post])
  have f1: "find_dispute did (current w1) = Some d" using dd d1 by (simp add: find_dispute_def)
  have u1: "unique_active (disputes (current w1))" using stands_unique [OF st] d1 by simp
  have t1': "map_get (txs (current w1)) (d_transaction d) = Some t1" using t1 dd by simp
  have dd': "plain_dispute d" "notes_readable env" "timeline_service env" using dd by simp_all
  obtain w2 d' t2 where run2: "run_proc (finish_resolution env did d Reverse_payment resolution admin) [] w1 = (Inr d', w2, [])"
    and f2: "find_dispute did (current w2) = Some d'" and p2: "plain_dispute d'" "unique_active (disputes (current w2))"
    and s2: "d_status d' = (if Reverse_payment = Reverse_payment then Dispute_Machine.Reversed else Upheld)"
    and t2: "map_get (txs (current w2)) (d_transaction d) = Some t2"
    and st2: "tx_status t2 = (if Reverse_payment = Uphold_payment then Completed else tx_status t1)"
    and v2: "versions w2 \<noteq> []" "ledger w2 = ledger w1" "reversals (current w2) = reversals (current w1)"
      "reversal_events (current w2) = reversal_events (current w1)"
    by (rule fresh_finish [OF v1 f1 u1 dd'(1) c dd'(2,3) ss t1'])
  have trim: "trim resolution \<noteq> []" using c by (simp add: clean_resolution_def)
  have run: "run_proc (resolvePayment env did Reverse_payment resolution admin) [] w = (Inr d', w2, [])"
    using dd trim active run1 run2 fresh_existing [OF facts(1) fd dd'(1)] by (simp add: resolvePayment_parts proc_simps ss)
  show ?thesis
    by (rule that [OF run f2 p2]) (use s2 t2 st2 s1 v2 l1 r1 e1 dd in \<open>simp_all add: trail_def\<close>)
qed

text \<open>
  What the resolution would do if both undeclared names were defined, with every call answered: resolving an active dispute by reversal leaves the
  dispute reversed, the transaction reversed, the rows of the transaction summing to zero on every
  account, a new reversal record that is notified, and the trail requested, posted, notified.
\<close>

theorem dispute_reversal_end_to_end:
  assumes "stands ref s t w" and "resolvable env did d t s" and "clean_resolution resolution admin"
    and "short_texts t admin" and "reversal_allowed True (tx_status t)" and "truthy_string (tx_user t)"
    and "ledger_order (ledger_sort env)" and "tx_id t \<noteq> []" and "small_rows (rows_of (tx_id t) (ledger w))"
    and post: "postReversal (ledger_sort env) (tx_id t) (tx_reference t) (trim resolution) admin (ledger_day env) (ledger w) = (Inr (False, posted), l)"
  shows "\<exists>w' d' t' r. run_proc (resolvePayment env did Reverse_payment resolution admin) [] w = (Inr d', w', []) \<and>
    find_dispute did (current w') = Some d' \<and> d_status d' = Dispute_Machine.Reversed \<and>
    map_get (txs (current w')) (tx_id t) = Some t' \<and> tx_status t' = Status_Workflow.Reversed \<and>
    (\<forall>code. net code (rows_of (tx_id t) (ledger w')) = 0) \<and>
    reversals (current w') = reversals s @ [r] \<and> notified_reversal s r \<and>
    trail s (current w') = [(length (reversals s), None, Requested), (length (reversals s), Some Requested, Posted),
      (length (reversals s), Some Posted, Notified)]"
proof -
  have lok: "ledger_ok (ledger w)" using assms(1) by (simp add: stands_def world_ok_def)
  have "\<forall>code. net code (rows_of (tx_id t) l) = 0"
  proof (rule reversal_appends [OF lok _ assms(8) _ post])
    fix rows assume "l = ledger w\<lparr>ledger_entries := ledger_entries (ledger w) @ rows\<rparr>"
      "\<forall>r \<in> set rows. row_transaction r = Some (tx_id t) \<and> row_reference r = reversal_reference (tx_reference t)"
      "\<And>code. net code rows = - net code (rows_of (tx_id t) (ledger w))"
    then show "\<forall>code. net code (rows_of (tx_id t) l) = 0" by (simp add: rows_of_def net_append)
  qed (use assms(7,9) in \<open>auto simp: ledger_order_def small_rows_def\<close>)
  then show ?thesis by (rule_tac fresh_resolution_reverse [OF assms(1-6) post]) blast
qed

lemma sample_notes_readable: "notes_readable sample_env"
proof (rule gcm_notes_readable)
  show "gcm_laws (dispute_crypto sample_env)" by (simp add: sample_env_def toy_crypto_laws)
  show "deriveKey (dispute_crypto sample_env) (DB_ENCRYPTION_KEY (dispute_keys sample_env)) default_info
      \<in> set (global_keys (dispute_crypto sample_env) (dispute_keys sample_env))" by code_simp
  show "rejects_other_keys (dispute_crypto sample_env) (deriveKey (dispute_crypto sample_env) (DB_ENCRYPTION_KEY (dispute_keys sample_env)) default_info)
      (note_iv sample_env) v" for v by (simp add: sample_env_def toy_crypto_rejects)
qed

lemma sample_resolvable: "resolvable sample_env 0 sample_dispute sample_tx sample_store"
  using sample_notes_readable
  by (simp add: resolvable_def sample_store_def sample_dispute_def sample_tx_def find_dispute_def active_dispute_def plain_dispute_def
      sample_env_def)

lemma sample_clean: "clean_resolution ''fraud'' None" "trim ''fraud'' = ''fraud''"
proof -
  show t: "trim ''fraud'' = ''fraud''" by code_simp
  show "clean_resolution ''fraud'' None" by (simp add: clean_resolution_def t too_long_def)
qed

theorem dispute_reversal_end_to_end_witness:
  "\<exists>w' d'. run_proc (resolvePayment sample_env 0 Reverse_payment ''fraud'' None) [] sample_world = (Inr d', w', []) \<and>
     d_status d' = Dispute_Machine.Reversed \<and> net ''1100'' (rows_of ''t'' (ledger w')) = 0"
proof -
  obtain posted l where p: "postReversal (ledger_sort sample_env) (tx_id sample_tx) (tx_reference sample_tx) (trim ''fraud'') None (ledger_day sample_env)
      (ledger sample_world) = (Inr (False, posted), l)" unfolding sample_clean(2) by (rule sample_post)
  have "tx_id sample_tx = ''t''" by (simp add: sample_tx_def)
  then show ?thesis using dispute_reversal_end_to_end [OF sample_stands sample_resolvable sample_clean(1) sample_short sample_order _ _
      p] sample_world_ok(2) by auto
qed

subsection \<open>Two administrators at once\<close>

text \<open>The first step of a resolution reads the dispute; what it does later does not look again.\<close>

lemma resolution_reads_first:
  assumes "versions w \<noteq> []" and "find_dispute did (current w) = Some d" and "plain_dispute d" and "active_dispute d"
    and "clean_resolution resolution admin"
  obtains e k where "settle (resolvePayment env did Uphold_payment resolution admin) = Await e k" and "e Fresh w = w"
    and "\<And>w'. run_proc (k Fresh w) [] w' = run_proc (settle (finish_resolution env did d Uphold_payment resolution admin)) [] w'"
proof -
  have trim: "trim resolution \<noteq> []" using assms(5) by (simp add: clean_resolution_def)
  define body where "body = (\<lambda>d. if d_status d \<in> set TERMINAL_STATUSES then throw (CannotResolve (d_status d))
        else and_then (ok ()) (\<lambda>_. finish_resolution env did d Uphold_payment resolution admin))"
  have "settle (resolvePayment env did Uphold_payment resolution admin) = settle (and_then (existing_dispute env did) body)"
    using trim by (simp add: resolvePayment_parts body_def cong: if_cong)
  also have "\<dots> = Await (\<lambda>i w. w) (\<lambda>i w. bind_proc (bind_proc (bind_proc (bind_proc
      (case i of Fresh \<Rightarrow> ok (find_dispute did (version 0 w)) | Stale n \<Rightarrow> ok (find_dispute did (version n w)) | _ \<Rightarrow> throw ConnectionLost)
      (\<lambda>r. case r of Inl e \<Rightarrow> throw e | Inr x \<Rightarrow> decrypt_found env x))
      (\<lambda>r. case r of Inl e \<Rightarrow> throw e | Inr x \<Rightarrow> (case x of None \<Rightarrow> throw (DisputeNotFound did) | Some d \<Rightarrow> ok d)))
      (\<lambda>r. case r of Inl e \<Rightarrow> throw e | Inr x \<Rightarrow> body x)) (\<lambda>_. Finished ()))"
    by (simp add: settle_def existing_dispute_def findById_def and_then_def queryRead_def read_call_def)
  finally show ?thesis
  proof (rule that)
    fix w'
    show "run_proc (bind_proc (bind_proc (bind_proc (bind_proc
      (case Fresh of Fresh \<Rightarrow> ok (find_dispute did (version 0 w)) | Stale n \<Rightarrow> ok (find_dispute did (version n w)) | _ \<Rightarrow> throw ConnectionLost)
      (\<lambda>r. case r of Inl e \<Rightarrow> throw e | Inr x \<Rightarrow> decrypt_found env x))
      (\<lambda>r. case r of Inl e \<Rightarrow> throw e | Inr x \<Rightarrow> (case x of None \<Rightarrow> throw (DisputeNotFound did) | Some d \<Rightarrow> ok d)))
      (\<lambda>r. case r of Inl e \<Rightarrow> throw e | Inr x \<Rightarrow> body x)) (\<lambda>_. Finished ())) [] w' =
      run_proc (settle (finish_resolution env did d Uphold_payment resolution admin)) [] w'"
      using assms(1-3) active_not_terminal [OF assms(4)]
      by (simp add: run_settle proc_simps version_current decrypt_found_def lift_result_def decrypt_plain_dispute body_def
          split: prod.split)
  qed simp
qed

text \<open>
  If both undeclared names were defined, two administrators could reverse and uphold the same payment: without
  any failure there is an interleaving of one call that reverses and one that upholds the same dispute in which both pass the
  check for a terminal status: the ledger of the transaction is reversed and the customer is told so,
  but the dispute ends as upheld and the transaction as completed.
\<close>

theorem concurrent_resolutions_diverge:
  assumes st: "stands ref s t w" and d: "resolvable env did d t s" and c: "clean_resolution resolution admin" "clean_resolution resolution' admin'"
    and "short_texts t admin" and "reversal_allowed True (tx_status t)" and "truthy_string (tx_user t)"
    and post: "postReversal (ledger_sort env) (tx_id t) (tx_reference t) (trim resolution) admin (ledger_day env) (ledger w) = (Inr (already, posted), l)"
  shows "\<exists>sched w' d' t'. snd (run_pool sched (requests [(env, Resolve_call did Reverse_payment resolution admin),
        (env, Resolve_call did Uphold_payment resolution' admin')]) w) = w' \<and> list_all (\<lambda>(_, i). i = Fresh) sched \<and>
    ledger w' = l \<and> find_dispute did (current w') = Some d' \<and> d_status d' = Upheld \<and>
    map_get (txs (current w')) (tx_id t) = Some t' \<and> tx_status t' = Completed \<and>
    (\<exists>r. reversals (current w') = reversals s @ [r] \<and> notified_reversal s r)"
proof -
  note facts = stands_facts [OF st] and dd = d [unfolded resolvable_def]
  have fd: "find_dispute did (current w) = Some d" using dd facts(2) by simp
  obtain ss where ss: "terminal_statuses env = Some ss" using dd by auto
  have dd': "plain_dispute d" "active_dispute d" "notes_readable env" "timeline_service env" using dd by simp_all
  let ?p = "settle (resolvePayment env did Reverse_payment resolution admin)"
  let ?q = "settle (resolvePayment env did Uphold_payment resolution' admin')"
  obtain e k where q: "?q = Await e k" "e Fresh w = w"
    and rest: "\<And>w'. run_proc (k Fresh w) [] w' = run_proc (settle (finish_resolution env did d Uphold_payment resolution' admin')) [] w'"
    using resolution_reads_first [OF facts(1) fd dd'(1,2) c(2)] by metis
  obtain w1 d1 t1 r where run1: "run_proc (resolvePayment env did Reverse_payment resolution admin) [] w = (Inr d1, w1, [])"
    and f1: "find_dispute did (current w1) = Some d1" and p1: "plain_dispute d1" and u1: "unique_active (disputes (current w1))"
    and l1: "ledger w1 = l" and t1: "map_get (txs (current w1)) (tx_id t) = Some t1" and v1: "versions w1 \<noteq> []"
    and r1: "reversals (current w1) = reversals s @ [r]" "notified_reversal s r"
    using fresh_resolution_reverse [OF st d c(1) assms(5-8)] by metis
  have t1': "map_get (txs (current w1)) (d_transaction d) = Some t1" using t1 dd by simp
  obtain w2 d2 t2 where run2: "run_proc (finish_resolution env did d Uphold_payment resolution' admin') [] w1 = (Inr d2, w2, [])"
    and f2: "find_dispute did (current w2) = Some d2"
    and s2: "d_status d2 = (if Uphold_payment = Reverse_payment then Dispute_Machine.Reversed else Upheld)"
    and t2: "map_get (txs (current w2)) (d_transaction d) = Some t2"
    and st2: "tx_status t2 = (if Uphold_payment = Uphold_payment then Completed else tx_status t1)"
    and v2: "ledger w2 = ledger w1" "reversals (current w2) = reversals (current w1)"
    using fresh_finish [OF v1 f1 u1 p1 c(2) dd'(3,4) ss t1'] by metis
  have runp: "run_proc ?p [] w = ((), w1, [])" using run1 by (simp add: run_settle)
  have runq: "run_proc (k Fresh w) [] w1 = ((), w2, [])" using run2 by (simp add: rest run_settle)
  let ?ps = "[?p, k Fresh w]" and ?ps' = "[Finished (), k Fresh w]"
  obtain os where n: "run_pool (map (Pair 0) os) ?ps w = (?ps', w1)" "set os \<subseteq> {Fresh}"
    using pool_runs_one [of 0 ?ps "[]" w] runp by auto
  obtain os' where m: "run_pool (map (Pair 1) os') ?ps' w1 = ([Finished (), Finished ()], w2)" "set os' \<subseteq> {Fresh}"
    using pool_runs_one [of 1 ?ps' "[]" w1] runq by auto
  let ?sched = "(1, Fresh) # map (Pair 0) os @ map (Pair 1) os'"
  have "requests [(env, Resolve_call did Reverse_payment resolution admin), (env, Resolve_call did Uphold_payment resolution' admin')] = [?p, ?q]"
    by (simp add: requests_def)
  then have "snd (run_pool ?sched (requests [(env, Resolve_call did Reverse_payment resolution admin),
      (env, Resolve_call did Uphold_payment resolution' admin')]) w) = w2"
    using n(1) m(1) q by (simp add: run_pool_append)
  moreover have "list_all (\<lambda>(_, i). i = Fresh) ?sched" using n(2) m(2) by (auto simp: list_all_iff)
  moreover have "ledger w2 = l" "d_status d2 = Upheld" "map_get (txs (current w2)) (tx_id t) = Some t2" "tx_status t2 = Completed"
    "reversals (current w2) = reversals s @ [r]" using v2 l1 s2 t2 st2 r1 dd by simp_all
  ultimately show ?thesis using f2 r1(2) by blast
qed

theorem concurrent_resolutions_diverge_witness:
  "\<exists>sched d' t'. let w' = snd (run_pool sched (requests [(sample_env, Resolve_call 0 Reverse_payment ''fraud'' None),
        (sample_env, Resolve_call 0 Uphold_payment ''fraud'' None)]) sample_world) in
     find_dispute 0 (current w') = Some d' \<and> d_status d' = Upheld \<and> map_get (txs (current w')) ''t'' = Some t' \<and> tx_status t' = Completed"
proof -
  obtain posted l where p: "postReversal (ledger_sort sample_env) (tx_id sample_tx) (tx_reference sample_tx) (trim ''fraud'') None (ledger_day sample_env)
      (ledger sample_world) = (Inr (False, posted), l)" unfolding sample_clean(2) by (rule sample_post)
  from concurrent_resolutions_diverge [OF sample_stands sample_resolvable sample_clean(1) sample_clean(1) sample_short p]
  show ?thesis by (auto simp: Let_def sample_tx_def)
qed

subsection \<open>The status endpoint\<close>

text \<open>The table of the service and the table of the state machine allow the same transitions.\<close>

lemma service_table_agrees: "TRANSITIONS st = getAllowedTransitions DISPUTE_STATE_MACHINE st"
  by (cases st) (simp_all add: getAllowedTransitions_def DISPUTE_STATE_MACHINE_def DISPUTE_TRANSITIONS_def)

subsection \<open>Resolutions in the program as it is\<close>

text \<open>An active dispute of a payment in the program as it is, where neither of the two names is defined.\<close>

definition disputed :: "dispute_env \<Rightarrow> nat \<Rightarrow> dispute_row \<Rightarrow> tx_row \<Rightarrow> store \<Rightarrow> bool" where
  "disputed env did d t s \<longleftrightarrow> find_dispute did s = Some d \<and> active_dispute d \<and> plain_dispute d \<and> d_transaction d = tx_id t \<and>
     notes_readable env \<and> terminal_statuses env = None \<and> \<not> timeline_service env"

lemma closing_plain: "plain_dispute d \<Longrightarrow> CHR '':'' \<notin> set v \<Longrightarrow> plain_dispute (set_dispute (closing st v admin) d)"
  by (simp add: plain_dispute_def closed_dispute)

lemma undeclared_finish:
  assumes "versions w \<noteq> []" and d: "find_dispute did (current w) = Some d0" and "unique_active (disputes (current w))"
    and "plain_dispute d0" and c: "clean_resolution resolution admin" and "notes_readable env" and "\<not> timeline_service env"
  obtains w' d' where "run_proc (finish_resolution env did d Reverse_payment resolution admin) [] w = (Inl (TypeError ''addEvent''), w', [])"
    and "find_dispute did (current w') = Some d'" and "plain_dispute d'" and "d_status d' = Dispute_Machine.Reversed"
    and "versions w' \<noteq> []" and "ledger w' = ledger w" and "notices w' = notices w" and "txs (current w') = txs (current w)"
proof -
  let ?u = "closing Dispute_Machine.Reversed (trim resolution) admin" let ?d = "set_dispute ?u d0"
  have short: "\<not> too_long 100 (up_assigned ?u)" "\<not> too_long 100 (up_category ?u)" and colon: "CHR '':'' \<notin> set (trim resolution)"
    using c by (simp_all add: clean_resolution_def too_long_def)
  have plain: "plain_dispute ?d" by (rule closing_plain [OF assms(4) colon])
  obtain w1 where r1: "run_proc (update_dispute env did ?u) [] w = (Inr ?d, w1, [])"
    and c1: "current w1 = (current w)\<lparr>disputes := disputes (current w1)\<rparr>" and f1: "find_dispute did (current w1) = Some ?d"
    and "unique_active (disputes (current w1))" and v1: "versions w1 \<noteq> []" "ledger w1 = ledger w" "notices w1 = notices w"
    by (rule fresh_close [OF assms(1) d assms(3) closing_simps(1) _ _ short plain]) simp_all
  let ?admin = "case admin of None \<Rightarrow> ''admin'' | Some a \<Rightarrow> a" let ?text = "''Admin reversed payment: '' @ trim resolution"
  have adm: "length ?admin \<le> 100" using c by (auto simp: clean_resolution_def too_long_def split: option.splits)
  have some1: "find_dispute did (current w1) \<noteq> None" and nonempty: "?text \<noteq> []" using f1 by simp_all
  obtain w2 n where r2: "run_proc (add_note env did ?admin ?text) [] w1 = (Inr n, w2, [])"
    and c2: "current w2 = (current w1)\<lparr>dispute_notes := dispute_notes (current w2)\<rparr>" and "n_text n = ?text"
    and v2: "versions w2 \<noteq> []" "ledger w2 = ledger w1" "notices w2 = notices w1"
    by (rule fresh_note [OF v1(1) some1 adm nonempty assms(6)])
  have run: "run_proc (finish_resolution env did d Reverse_payment resolution admin) [] w = (Inl (TypeError ''addEvent''), w2, [])"
    using assms(7) r2 [simplified append.simps] by (simp add: finish_resolution_def Let_def run_and_then r1 run_ok record_event_def run_throw)
  have "disputes (current w2) = disputes (current w1)" "txs (current w2) = txs (current w1)" by (subst c2, simp)+
  moreover have "txs (current w1) = txs (current w)" by (subst c1) simp
  ultimately show ?thesis
    using f1 v1 v2 by (intro that [OF run _ plain]) (simp_all add: find_dispute_def closed_dispute)
qed

lemma undeclared_uphold:
  assumes "versions w \<noteq> []" and d: "find_dispute did (current w) = Some d0" and "unique_active (disputes (current w))"
    and "plain_dispute d0" and c: "clean_resolution resolution admin" and "terminal_statuses env = None"
    and t: "map_get (txs (current w)) (d_transaction d) = Some t"
  obtains w' d' t' where "run_proc (finish_resolution env did d Uphold_payment resolution admin) [] w =
      (Inl (ReferenceError ''TERMINAL_IDEMPOTENCY_STATUSES''), w', [])"
    and "find_dispute did (current w') = Some d'" and "plain_dispute d'" and "d_status d' = Upheld"
    and "map_get (txs (current w')) (d_transaction d) = Some t'" and "tx_status t' = Completed"
    and "versions w' \<noteq> []" and "ledger w' = ledger w" and "notices w' = notices w"
proof -
  let ?u = "closing Upheld (trim resolution) admin" let ?d = "set_dispute ?u d0"
  have short: "\<not> too_long 100 (up_assigned ?u)" "\<not> too_long 100 (up_category ?u)" and colon: "CHR '':'' \<notin> set (trim resolution)"
    using c by (simp_all add: clean_resolution_def too_long_def)
  have plain: "plain_dispute ?d" by (rule closing_plain [OF assms(4) colon])
  obtain w1 where r1: "run_proc (update_dispute env did ?u) [] w = (Inr ?d, w1, [])"
    and c1: "current w1 = (current w)\<lparr>disputes := disputes (current w1)\<rparr>" and f1: "find_dispute did (current w1) = Some ?d"
    and "unique_active (disputes (current w1))" and v1: "versions w1 \<noteq> []" "ledger w1 = ledger w" "notices w1 = notices w"
    by (rule fresh_close [OF assms(1) d assms(3) closing_simps(1) _ _ short plain]) simp_all
  have t1: "map_get (txs (current w1)) (d_transaction d) = Some t" by (subst c1) (simp add: t)
  let ?w2 = "commit ((current w1)\<lparr>txs := map_set (d_transaction d) (t\<lparr>tx_status := Completed\<rparr>) (txs (current w1))\<rparr>) w1"
  have run: "run_proc (finish_resolution env did d Uphold_payment resolution admin) [] w =
      (Inl (ReferenceError ''TERMINAL_IDEMPOTENCY_STATUSES''), ?w2, [])"
    using assms(6) by (simp add: finish_resolution_def Let_def run_and_then r1 undeclared_update [OF v1(1) t1])
  show ?thesis
    by (rule that [OF run _ plain, of "t\<lparr>tx_status := Completed\<rparr>"]) (use f1 v1 in \<open>simp_all add: find_dispute_def closed_dispute\<close>)
qed

lemma closed_refused:
  assumes "versions w \<noteq> []" and "find_dispute did (current w) = Some d" and "plain_dispute d" and "d_status d \<in> set TERMINAL_STATUSES"
    and "trim resolution \<noteq> []"
  shows "run_proc (resolvePayment env did action resolution admin) [] w = (Inl (CannotResolve (d_status d)), w, [])"
  using assms(4,5) fresh_existing [OF assms(1-3)] by (simp add: resolvePayment_def proc_simps)

lemma first_resolution:
  assumes "stands ref s t w" and "disputed env did d t s" and "clean_resolution resolution admin" and "short_texts t admin"
    and "reversal_allowed True (tx_status t)"
    and post: "postReversal (ledger_sort env) (tx_id t) (tx_reference t) (trim resolution) admin (ledger_day env) (ledger w) = (Inr (already, posted), l)"
  obtains w1 t1 r where "run_proc (resolvePayment env did Reverse_payment resolution admin) [] w =
      (Inl (ReferenceError ''TERMINAL_IDEMPOTENCY_STATUSES''), w1, [])"
    and "versions w1 \<noteq> []" and "ledger w1 = l" and "notices w1 = notices w" and "find_dispute did (current w1) = Some d"
    and "unique_active (disputes (current w1))" and "map_get (txs (current w1)) (tx_id t) = Some t1"
    and "tx_status t1 = Status_Workflow.Reversed" and "tx_unreadable t1 = None"
    and "reversals (current w1) = reversals s @ [r]" and "rv_status r = Reversal_failed"
proof -
  note facts = stands_facts [OF assms(1)] and dd = assms(2) [unfolded disputed_def]
  have fd: "find_dispute did (current w) = Some d" and pd: "plain_dispute d" using dd facts(2) by simp_all
  obtain w1 r t1 where
    run: "run_proc (reverse_transaction None (ledger_sort env) (ledger_day env) True (tx_id t) (trim resolution) admin True) [] w =
      (Inl (ReferenceError ''TERMINAL_IDEMPOTENCY_STATUSES''), w1, [])"
    and w1: "versions w1 \<noteq> []" "ledger w1 = l" "notices w1 = notices w"
      "map_get (txs (current w1)) (tx_id t) = Some t1" "tx_status t1 = Status_Workflow.Reversed" "tx_unreadable t1 = None"
      "reversals (current w1) = reversals s @ [r]" "rv_id r = Some (length (reversals s))" "rv_status r = Reversal_failed"
      "disputes (current w1) = disputes s"
    by (rule undeclared_reversal [OF assms(1,4,5) post])
  have whole: "run_proc (resolvePayment env did Reverse_payment resolution admin) [] w =
      (Inl (ReferenceError ''TERMINAL_IDEMPOTENCY_STATUSES''), w1, [])"
    using dd assms(3) run active_not_terminal [of d] fresh_existing [OF facts(1) fd pd]
    by (simp add: resolvePayment_parts proc_simps clean_resolution_def)
  show ?thesis
    by (rule that [OF whole w1(1-3) _ _ w1(4-6,7,9)])
      (use w1(10) fd facts(2) stands_unique [OF assms(1)] in \<open>simp_all add: find_dispute_def\<close>)
qed

text \<open>
  C22. Reversing a disputed payment takes two calls, and both fail. In the program as it is, with every call
  answered: the first resolution of an active dispute by reversal posts the reversal, so that the rows of the
  transaction sum to zero on every account, and marks the transaction as reversed, but it throws, the
  dispute stays as it was and the new reversal record ends as failed. A second resolution by reversal posts
  nothing and marks the dispute as reversed, and throws as well. From then on every resolution is refused;
  no notification has been sent.
\<close>

theorem dispute_reversal_in_two_calls:
  assumes "stands ref s t w" and "disputed env did d t s"
    and "clean_resolution resolution admin" and "clean_resolution resolution' admin'"
    and "short_texts t admin" and "reversal_allowed True (tx_status t)"
    and "ledger_order (ledger_sort env)" and "tx_id t \<noteq> []" and "small_rows (rows_of (tx_id t) (ledger w))"
    and post: "postReversal (ledger_sort env) (tx_id t) (tx_reference t) (trim resolution) admin (ledger_day env) (ledger w) = (Inr (False, posted), l)"
  shows "\<exists>w1 t1 r w2 d2. run_proc (resolvePayment env did Reverse_payment resolution admin) [] w =
      (Inl (ReferenceError ''TERMINAL_IDEMPOTENCY_STATUSES''), w1, []) \<and>
    (\<forall>code. net code (rows_of (tx_id t) (ledger w1)) = 0) \<and>
    map_get (txs (current w1)) (tx_id t) = Some t1 \<and> tx_status t1 = Status_Workflow.Reversed \<and>
    find_dispute did (current w1) = Some d \<and> reversals (current w1) = reversals s @ [r] \<and> rv_status r = Reversal_failed \<and>
    run_proc (resolvePayment env did Reverse_payment resolution' admin') [] w1 = (Inl (TypeError ''addEvent''), w2, []) \<and>
    ledger w2 = ledger w1 \<and> txs (current w2) = txs (current w1) \<and>
    find_dispute did (current w2) = Some d2 \<and> d_status d2 = Dispute_Machine.Reversed \<and> notices w2 = notices w \<and>
    (\<forall>action resolution'' admin''. trim resolution'' \<noteq> [] \<longrightarrow>
       run_proc (resolvePayment env did action resolution'' admin'') [] w2 = (Inl (CannotResolve Dispute_Machine.Reversed), w2, []))"
proof -
  note dd = assms(2) [unfolded disputed_def]
  have lok: "ledger_ok (ledger w)" using assms(1) by (simp add: stands_def world_ok_def)
  have zero: "\<forall>code. net code (rows_of (tx_id t) l) = 0"
  proof (rule reversal_appends [OF lok _ assms(8) _ post])
    fix rows assume "l = ledger w\<lparr>ledger_entries := ledger_entries (ledger w) @ rows\<rparr>"
      "\<forall>r \<in> set rows. row_transaction r = Some (tx_id t) \<and> row_reference r = reversal_reference (tx_reference t)"
      "\<And>code. net code rows = - net code (rows_of (tx_id t) (ledger w))"
    then show "\<forall>code. net code (rows_of (tx_id t) l) = 0" by (simp add: rows_of_def net_append)
  qed (use assms(7,9) in \<open>auto simp: ledger_order_def small_rows_def\<close>)
  obtain w1 t1 r where run1: "run_proc (resolvePayment env did Reverse_payment resolution admin) [] w =
      (Inl (ReferenceError ''TERMINAL_IDEMPOTENCY_STATUSES''), w1, [])"
    and w1: "versions w1 \<noteq> []" "ledger w1 = l" "notices w1 = notices w" and f1: "find_dispute did (current w1) = Some d"
    and u1: "unique_active (disputes (current w1))" and t1: "map_get (txs (current w1)) (tx_id t) = Some t1"
      "tx_status t1 = Status_Workflow.Reversed" "tx_unreadable t1 = None"
    and r1: "reversals (current w1) = reversals s @ [r]" "rv_status r = Reversal_failed"
    by (rule first_resolution [OF assms(1-3,5,6) post])
  have pd: "plain_dispute d" and nr: "notes_readable env" and tl: "\<not> timeline_service env" using dd by simp_all
  obtain w2 d2 where run2: "run_proc (finish_resolution env did d Reverse_payment resolution' admin') [] w1 = (Inl (TypeError ''addEvent''), w2, [])"
    and f2: "find_dispute did (current w2) = Some d2" and p2: "plain_dispute d2" and s2: "d_status d2 = Dispute_Machine.Reversed"
    and w2: "versions w2 \<noteq> []" "ledger w2 = ledger w1" "notices w2 = notices w1" "txs (current w2) = txs (current w1)"
    by (rule undeclared_finish [OF w1(1) f1 u1 pd assms(4) nr tl])
  obtain out where again: "run_proc (reverse_transaction None (ledger_sort env) (ledger_day env) True (tx_id t) (trim resolution') admin' True) [] w1 =
      (Inr out, w1, [])" using reversed_again [OF w1(1) t1] by blast
  have second: "run_proc (resolvePayment env did Reverse_payment resolution' admin') [] w1 = (Inl (TypeError ''addEvent''), w2, [])"
    using dd assms(4) again run2 active_not_terminal [of d] fresh_existing [OF w1(1) f1 pd]
    by (simp add: resolvePayment_parts proc_simps clean_resolution_def)
  have closed: "run_proc (resolvePayment env did action resolution'' admin'') [] w2 = (Inl (CannotResolve Dispute_Machine.Reversed), w2, [])"
    if "trim resolution'' \<noteq> []" for action resolution'' admin''
    using closed_refused [OF w2(1) f2 p2 _ that] s2 by (simp add: TERMINAL_STATUSES_def)
  show ?thesis
    by (intro exI [of _ w1] exI [of _ t1] exI [of _ r] exI [of _ w2] exI [of _ d2] conjI allI impI run1 second closed t1 f1 f2 s2 r1 w2(2,4))
      (simp_all add: zero w1 w2)
qed

text \<open>
  An administrator who reverses a dispute, gets the error and then upholds it pays both sides. In the
  program as it is, with every call answered: after the failed resolution by reversal the dispute is still
  active, so it can be upheld; that call throws too, but it leaves the dispute as upheld and the transaction
  as completed, while the ledger keeps the reversal. Every later resolution is refused.
\<close>

theorem upheld_after_failed_reversal:
  assumes "stands ref s t w" and "disputed env did d t s"
    and "clean_resolution resolution admin" and "clean_resolution resolution' admin'"
    and "short_texts t admin" and "reversal_allowed True (tx_status t)"
    and post: "postReversal (ledger_sort env) (tx_id t) (tx_reference t) (trim resolution) admin (ledger_day env) (ledger w) = (Inr (already, posted), l)"
  shows "\<exists>w1 w2 d2 t2. run_proc (resolvePayment env did Reverse_payment resolution admin) [] w =
      (Inl (ReferenceError ''TERMINAL_IDEMPOTENCY_STATUSES''), w1, []) \<and>
    run_proc (resolvePayment env did Uphold_payment resolution' admin') [] w1 =
      (Inl (ReferenceError ''TERMINAL_IDEMPOTENCY_STATUSES''), w2, []) \<and>
    ledger w2 = l \<and> find_dispute did (current w2) = Some d2 \<and> d_status d2 = Upheld \<and>
    map_get (txs (current w2)) (tx_id t) = Some t2 \<and> tx_status t2 = Completed \<and> notices w2 = notices w \<and>
    (\<forall>action resolution'' admin''. trim resolution'' \<noteq> [] \<longrightarrow>
       run_proc (resolvePayment env did action resolution'' admin'') [] w2 = (Inl (CannotResolve Upheld), w2, []))"
proof -
  note dd = assms(2) [unfolded disputed_def]
  obtain w1 t1 r where run1: "run_proc (resolvePayment env did Reverse_payment resolution admin) [] w =
      (Inl (ReferenceError ''TERMINAL_IDEMPOTENCY_STATUSES''), w1, [])"
    and w1: "versions w1 \<noteq> []" "ledger w1 = l" "notices w1 = notices w" and f1: "find_dispute did (current w1) = Some d"
    and u1: "unique_active (disputes (current w1))" and t1: "map_get (txs (current w1)) (tx_id t) = Some t1"
      "tx_status t1 = Status_Workflow.Reversed" "tx_unreadable t1 = None"
    and "reversals (current w1) = reversals s @ [r]" "rv_status r = Reversal_failed"
    by (rule first_resolution [OF assms(1-3,5,6) post])
  have pd: "plain_dispute d" and none: "terminal_statuses env = None" and id: "d_transaction d = tx_id t" using dd by simp_all
  have t1': "map_get (txs (current w1)) (d_transaction d) = Some t1" using t1(1) id by simp
  obtain w2 d2 t2 where run2: "run_proc (finish_resolution env did d Uphold_payment resolution' admin') [] w1 =
      (Inl (ReferenceError ''TERMINAL_IDEMPOTENCY_STATUSES''), w2, [])"
    and f2: "find_dispute did (current w2) = Some d2" and p2: "plain_dispute d2" and s2: "d_status d2 = Upheld"
    and t2: "map_get (txs (current w2)) (d_transaction d) = Some t2" "tx_status t2 = Completed"
    and w2: "versions w2 \<noteq> []" "ledger w2 = ledger w1" "notices w2 = notices w1"
    by (rule undeclared_uphold [OF w1(1) f1 u1 pd assms(4) none t1'])
  have second: "run_proc (resolvePayment env did Uphold_payment resolution' admin') [] w1 =
      (Inl (ReferenceError ''TERMINAL_IDEMPOTENCY_STATUSES''), w2, [])"
    using dd assms(4) run2 active_not_terminal [of d] fresh_existing [OF w1(1) f1 pd]
    by (simp add: resolvePayment_parts proc_simps clean_resolution_def)
  have closed: "run_proc (resolvePayment env did action resolution'' admin'') [] w2 = (Inl (CannotResolve Upheld), w2, [])"
    if "trim resolution'' \<noteq> []" for action resolution'' admin''
    using closed_refused [OF w2(1) f2 p2 _ that] s2 by (simp add: TERMINAL_STATUSES_def)
  show ?thesis
    by (intro exI [of _ w1] exI [of _ w2] exI [of _ d2] exI [of _ t2] conjI allI impI run1 second closed t2(1) [unfolded id] t2(2) f2 s2)
      (simp_all add: w1 w2)
qed

text \<open>
  A dispute can be marked as reversed without a reversal. For an active dispute the state machine of the
  status endpoint accepts the status reversed with a resolution text. \<open>updateStatus\<close> throws, as the timeline is
  undefined, but has set the status: no reversal is recorded, ledger and transactions are as they were, and
  from then on \<open>resolvePayment\<close> refuses to reverse the payment.
\<close>

theorem reversed_without_reversal:
  assumes "stands ref s t w" and "disputed env did d t s" and "clean_resolution resolution agent" and "resolution \<noteq> []"
    and "CHR '':'' \<notin> set resolution" and "clean_resolution resolution' admin"
  shows "valid (validateTransition DISPUTE_STATE_MACHINE (d_status d) Dispute_Machine.Reversed [(''resolution'', Str resolution)]) \<and>
    (\<exists>w' d'. run_proc (updateStatus env did Dispute_Machine.Reversed (Some resolution) agent) [] w = (Inl (TypeError ''addEvent''), w', []) \<and>
      find_dispute did (current w') = Some d' \<and> d_status d' = Dispute_Machine.Reversed \<and> ledger w' = ledger w \<and> txs (current w') = txs s \<and>
      reversals (current w') = reversals s \<and>
      run_proc (resolvePayment env did Reverse_payment resolution' admin) [] w' = (Inl (CannotResolve Dispute_Machine.Reversed), w', []))"
proof -
  note facts = stands_facts [OF assms(1)] and dd = assms(2) [unfolded disputed_def]
  let ?u = "closing Dispute_Machine.Reversed resolution agent" let ?d = "set_dispute ?u d"
  have fd: "find_dispute did (current w) = Some d" and ua: "unique_active (disputes (current w))" and pd: "plain_dispute d"
    using dd facts(2) stands_unique [OF assms(1)] by simp_all
  have plain: "plain_dispute ?d" by (rule closing_plain [OF pd assms(5)])
  have short: "\<not> too_long 100 (up_assigned ?u)" "\<not> too_long 100 (up_category ?u)"
    using assms(3) by (simp_all add: clean_resolution_def too_long_def)
  obtain w1 where r1: "run_proc (update_dispute env did ?u) [] w = (Inr ?d, w1, [])"
    and c1: "current w1 = (current w)\<lparr>disputes := disputes (current w1)\<rparr>" and f1: "find_dispute did (current w1) = Some ?d"
    and "unique_active (disputes (current w1))" and v1: "versions w1 \<noteq> []" "ledger w1 = ledger w" and "notices w1 = notices w"
    by (rule fresh_close [OF facts(1) fd ua closing_simps(1) _ _ short plain]) simp_all
  have "Dispute_Machine.Reversed \<in> set (TRANSITIONS (d_status d))" using dd by (auto simp: active_dispute_def)
  then have run: "run_proc (updateStatus env did Dispute_Machine.Reversed (Some resolution) agent) [] w = (Inl (TypeError ''addEvent''), w1, [])"
    using dd assms(4) fresh_existing [OF facts(1) fd] r1
    by (simp add: updateStatus_def proc_simps closing_def record_event_def)
  have same: "txs (current w1) = txs s" "reversals (current w1) = reversals s" by (subst c1, simp add: facts(2))+
  have closed: "run_proc (resolvePayment env did Reverse_payment resolution' admin) [] w1 = (Inl (CannotResolve Dispute_Machine.Reversed), w1, [])"
    using closed_refused [OF v1(1) f1 plain, of resolution' env Reverse_payment admin] assms(6)
    by (simp add: clean_resolution_def closed_dispute TERMINAL_STATUSES_def)
  have "valid (validateTransition DISPUTE_STATE_MACHINE (d_status d) Dispute_Machine.Reversed [(''resolution'', Str resolution)])"
    using dd assms(3,4) by (auto simp: valid_dispute_iff active_dispute_def missing_field_iff field_def map_get_def clean_resolution_def
      trim_eq_Nil_iff service_table_agrees [symmetric])
  with run closed f1 v1(2) same show ?thesis by (auto simp: closed_dispute)
qed

definition real_env :: dispute_env where
  "real_env = sample_env\<lparr>terminal_statuses := None, timeline_service := False\<rparr>"

lemma real_env_fields [simp]: "ledger_sort real_env = ledger_sort sample_env" "ledger_day real_env = ledger_day sample_env"
  by (simp_all add: real_env_def)

lemma sample_disputed: "disputed real_env 0 sample_dispute sample_tx sample_store"
proof -
  have "notes_readable real_env" using sample_notes_readable by (simp add: notes_readable_def real_env_def decrypt_text_def)
  then show ?thesis
    using sample_resolvable by (simp add: disputed_def resolvable_def real_env_def)
qed

lemma sample_real_post:
  obtains posted l where "postReversal (ledger_sort real_env) (tx_id sample_tx) (tx_reference sample_tx) (trim ''fraud'') None (ledger_day real_env)
      (ledger sample_world) = (Inr (False, posted), l)"
  unfolding real_env_fields sample_clean(2) by (rule sample_post)

theorem dispute_reversal_in_two_calls_witness:
  "\<exists>w1 w2 d2. run_proc (resolvePayment real_env 0 Reverse_payment ''fraud'' None) [] sample_world =
      (Inl (ReferenceError ''TERMINAL_IDEMPOTENCY_STATUSES''), w1, []) \<and> net ''1100'' (rows_of ''t'' (ledger w1)) = 0 \<and>
    run_proc (resolvePayment real_env 0 Reverse_payment ''fraud'' None) [] w1 = (Inl (TypeError ''addEvent''), w2, []) \<and>
    find_dispute 0 (current w2) = Some d2 \<and> d_status d2 = Dispute_Machine.Reversed"
proof -
  obtain posted l where p: "postReversal (ledger_sort real_env) (tx_id sample_tx) (tx_reference sample_tx) (trim ''fraud'') None (ledger_day real_env)
      (ledger sample_world) = (Inr (False, posted), l)" by (rule sample_real_post)
  have id: "tx_id sample_tx = ''t''" by (simp add: sample_tx_def)
  from dispute_reversal_in_two_calls [OF sample_stands sample_disputed sample_clean(1) sample_clean(1) sample_short(1,2) _ _ _ p]
  show ?thesis using sample_order sample_world_ok(2) by (simp add: id) blast
qed

theorem upheld_after_failed_reversal_witness:
  "\<exists>w1 w2 d2 t2. run_proc (resolvePayment real_env 0 Reverse_payment ''fraud'' None) [] sample_world =
      (Inl (ReferenceError ''TERMINAL_IDEMPOTENCY_STATUSES''), w1, []) \<and>
    run_proc (resolvePayment real_env 0 Uphold_payment ''fraud'' None) [] w1 =
      (Inl (ReferenceError ''TERMINAL_IDEMPOTENCY_STATUSES''), w2, []) \<and>
    find_dispute 0 (current w2) = Some d2 \<and> d_status d2 = Upheld \<and> map_get (txs (current w2)) ''t'' = Some t2 \<and> tx_status t2 = Completed"
proof -
  obtain posted l where p: "postReversal (ledger_sort real_env) (tx_id sample_tx) (tx_reference sample_tx) (trim ''fraud'') None (ledger_day real_env)
      (ledger sample_world) = (Inr (False, posted), l)" by (rule sample_real_post)
  have id: "tx_id sample_tx = ''t''" by (simp add: sample_tx_def)
  from upheld_after_failed_reversal [OF sample_stands sample_disputed sample_clean(1) sample_clean(1) sample_short(1,2) p]
  show ?thesis by (simp add: id) blast
qed

theorem reversed_without_reversal_witness:
  "\<exists>w' d'. run_proc (updateStatus real_env 0 Dispute_Machine.Reversed (Some ''fraud'') None) [] sample_world = (Inl (TypeError ''addEvent''), w', []) \<and>
     find_dispute 0 (current w') = Some d' \<and> d_status d' = Dispute_Machine.Reversed \<and> reversals (current w') = []"
  using reversed_without_reversal [OF sample_stands sample_disputed sample_clean(1) _ _ sample_clean(1)]
  by (auto simp: sample_store_def)

subsection \<open>Opening a dispute\<close>

definition may_open :: "string \<Rightarrow> string option \<Rightarrow> string option \<Rightarrow> tx_row \<Rightarrow> store \<Rightarrow> bool" where
  "may_open why reportedBy category t s \<longleftrightarrow> (tx_status t = Completed \<or> tx_status t = Status_Workflow.Failed) \<and>
     (\<forall>x \<in> set (disputes s). d_transaction x = tx_id t \<longrightarrow> \<not> active_dispute x) \<and> \<not> too_long 100 reportedBy \<and> \<not> too_long 100 category"

definition opened_dispute :: "string \<Rightarrow> string \<Rightarrow> string option \<Rightarrow> dispute_priority option \<Rightarrow> string option \<Rightarrow> store \<Rightarrow> dispute_row" where
  "opened_dispute tx why reportedBy priority category s =
     \<lparr>d_id = length (disputes s), d_transaction = tx, d_reason = why, d_status = Open, d_assigned = None,
            d_resolution = None, d_reported_by = reportedBy,
            d_priority = (case priority of None \<Rightarrow> Medium | Some p \<Rightarrow> p), d_category = category, d_internal_notes = None\<rparr>"

lemma insert_may_open:
  assumes "unique_active (disputes s)" and "may_open why reportedBy category t s"
  shows "insert_dispute (tx_id t) why reportedBy priority category s =
    Inr (opened_dispute (tx_id t) why reportedBy priority category s,
      s\<lparr>disputes := disputes s @ [opened_dispute (tx_id t) why reportedBy priority category s]\<rparr>)"
  using assms by (auto simp: insert_dispute_def opened_dispute_def may_open_def unique_active_def Let_def)

lemma none_active: "may_open why reportedBy category t s \<Longrightarrow>
    find (\<lambda>d. d_transaction d = tx_id t \<and> active_dispute d) (disputes s) = None"
  by (auto simp: find_None_iff may_open_def)

text \<open>
  A dispute that was opened is reported as a failure. In the program as it is, one of the two undeclared
  names stops \<open>openDispute\<close> after its changes: the call throws, but the dispute is stored and open and the
  transaction is in dispute, and a second call for the transaction is refused.
\<close>

theorem open_dispute_reported_failed:
  assumes "stands ref s t w" and "may_open why reportedBy category t s" and "CHR '':'' \<notin> set why"
    and "terminal_statuses env = None \<or> \<not> timeline_service env"
  shows "\<exists>e w' d t'. run_proc (openDispute env (tx_id t) why reportedBy priority category) [] w = (Inl e, w', []) \<and>
    (e = ReferenceError ''TERMINAL_IDEMPOTENCY_STATUSES'' \<or> e = TypeError ''addEvent'') \<and>
    disputes (current w') = disputes s @ [d] \<and> d_status d = Open \<and> d_transaction d = tx_id t \<and>
    map_get (txs (current w')) (tx_id t) = Some t' \<and> tx_status t' = Dispute \<and>
    (\<forall>why' reportedBy' priority' category'.
      run_proc (openDispute env (tx_id t) why' reportedBy' priority' category') [] w' = (Inl (DisputeNotAllowed Dispute), w', []))"
proof -
  note facts = stands_facts [OF assms(1)]
  let ?d = "opened_dispute (tx_id t) why reportedBy priority category s" let ?s1 = "s\<lparr>disputes := disputes s @ [?d]\<rparr>"
  let ?w1 = "commit ?s1 w"
  have plain: "plain_dispute ?d" using assms(3) by (simp add: plain_dispute_def opened_dispute_def)
  have start: "run_proc (openDispute env (tx_id t) why reportedBy priority category) [] w =
      run_proc (and_then (updateTransactionStatus (terminal_statuses env) (tx_id t) Dispute None None) (\<lambda>_.
         and_then (record_event env (d_id ?d) ''opened'' (case reportedBy of None \<Rightarrow> ''system'' | Some r \<Rightarrow> r) None (Some Open)) (\<lambda>_.
         and_then (sendNotification ''dispute.opened'' ?d) (\<lambda>_. ok ?d)))) [] ?w1"
    using assms(2) plain
    by (auto simp: openDispute_def proc_simps fresh_find facts may_open_def none_active [OF assms(2)] findActiveByTransactionId_def
        version_current decrypt_found_def create_dispute_def insert_may_open [OF stands_unique [OF assms(1)] assms(2)]
        lift_result_def decrypt_plain_dispute)
  have refused: "run_proc (openDispute env (tx_id t) why' reportedBy' priority' category') [] w' = (Inl (DisputeNotAllowed Dispute), w', [])"
    if "versions w' \<noteq> []" "map_get (txs (current w')) (tx_id t) = Some t'" "tx_status t' = Dispute" "tx_unreadable t' = None" for w' t' why' reportedBy' priority' category'
    using that by (simp add: openDispute_def proc_simps fresh_find)
  show ?thesis
  proof (cases "terminal_statuses env")
    case None
    have tx1: "map_get (txs (current ?w1)) (tx_id t) = Some t" "versions ?w1 \<noteq> []" using facts by simp_all
    show ?thesis using start refused undeclared_update [OF tx1(2,1), of Dispute] None
      by (simp add: proc_simps opened_dispute_def facts(6))
  next
    case (Some ss)
    have tx1: "map_get (txs (current ?w1)) (tx_id t) = Some t" "versions ?w1 \<noteq> []" using facts by simp_all
    obtain w2 t' where u: "run_proc (updateTransactionStatus (Some ss) (tx_id t) Dispute None None) [] ?w1 = (Inr (), w2, [])"
      and c2: "current w2 = (current ?w1)\<lparr>txs := txs (current w2)\<rparr>" and t2: "map_get (txs (current w2)) (tx_id t) = Some t'"
      and s2: "tx_status t' = Dispute" and v2: "versions w2 \<noteq> []" and un2: "tx_unreadable t' = tx_unreadable t"
      using fresh_update [OF tx1(2,1), of ss Dispute] by metis
    have "disputes (current w2) = disputes s @ [?d]" by (subst c2) simp
    moreover have "run_proc (openDispute env (tx_id t) why reportedBy priority category) [] w = (Inl (TypeError ''addEvent''), w2, [])"
      using start u assms(4) Some by (simp add: proc_simps record_event_def)
    ultimately show ?thesis using refused [OF v2 t2 s2 un2 [unfolded facts(6)]] t2 s2 by (auto simp: opened_dispute_def)
  qed
qed

definition open_world :: world where
  "open_world = sample_world\<lparr>versions := [sample_store\<lparr>disputes := []\<rparr>]\<rparr>"

lemma open_stands: "stands (\<lambda>_. ''R'') (sample_store\<lparr>disputes := []\<rparr>) sample_tx open_world"
  using sample_stands
  by (simp add: stands_def world_ok_def open_world_def sample_world_def store_ok_def references_ok_def reversals_ok_def disputes_ok_def
      unique_active_def)

lemma sample_may_open: "may_open why None None sample_tx (sample_store\<lparr>disputes := []\<rparr>)"
  by (simp add: may_open_def sample_tx_def too_long_def)

theorem open_dispute_reported_failed_witness:
  "\<exists>e w' d. run_proc (openDispute (sample_env\<lparr>terminal_statuses := None, timeline_service := False\<rparr>) ''t'' ''late'' None None None) [] open_world =
     (Inl e, w', []) \<and> disputes (current w') = [d] \<and> d_status d = Open"
  using open_dispute_reported_failed [OF open_stands sample_may_open, of "''late''" "sample_env\<lparr>terminal_statuses := None, timeline_service := False\<rparr>"
      None]
  by (auto simp: sample_tx_def)

subsection \<open>Texts with two colons\<close>

text \<open>A text of three parts that no registered key opens.\<close>

definition unreadable :: "dispute_env \<Rightarrow> string \<Rightarrow> bool" where
  "unreadable env v \<longleftrightarrow> (\<exists>a b c. v = a @ '':'' @ b @ '':'' @ c \<and> CHR '':'' \<notin> set a \<and> CHR '':'' \<notin> set b \<and> CHR '':'' \<notin> set c \<and>
     global_keys (dispute_crypto env) (dispute_keys env) \<noteq> [] \<and>
     (\<forall>k \<in> set (global_keys (dispute_crypto env) (dispute_keys env)).
        open_sealed (dispute_crypto env) k (from_hex a) (from_hex b) (from_hex c) = None))"

lemma decrypt_unreadable:
  assumes "unreadable env v"
  shows "decrypt_text env (Some v) = Inl (DecryptionError DecryptionFailed)"
proof -
  obtain a b c where v: "v = a @ '':'' @ b @ '':'' @ c" and nc: "CHR '':'' \<notin> set a" "CHR '':'' \<notin> set b" "CHR '':'' \<notin> set c"
    and ne: "global_keys (dispute_crypto env) (dispute_keys env) \<noteq> []"
    and none: "\<forall>k \<in> set (global_keys (dispute_crypto env) (dispute_keys env)).
        open_sealed (dispute_crypto env) k (from_hex a) (from_hex b) (from_hex c) = None"
    using assms by (auto simp: unreadable_def)
  have "try_keys (decrypt_with (dispute_crypto env) (from_hex a) (from_hex b) (from_hex c))
      (global_keys (dispute_crypto env) (dispute_keys env)) v = Inl DecryptionFailed"
    by (rule try_keys_none [OF ne]) (use none in \<open>simp add: decrypt_with_def\<close>)
  then show ?thesis
    using nc by (simp add: decrypt_text_def decrypt_def v split_on_append split_on_no_sep)
qed

lemma decrypt_unreadable_dispute: "unreadable env (d_reason d) \<Longrightarrow> decrypt_dispute env d = Inl (DecryptionError DecryptionFailed)"
  by (simp add: decrypt_dispute_def decrypt_unreadable)

text \<open>
  C26. A reason with two colons makes a dispute that nobody can read or close. The reason is stored as it is
  but read through \<open>decrypt\<close>, which takes a text of three parts for an encrypted one: opening the dispute
  throws although the dispute is stored and active, the transaction keeps its status, and from then on
  every resolution, change of status, assignment and note of the dispute, and every attempt to open
  another dispute for the transaction, throws the same error.
\<close>

theorem colon_reason_locks_dispute:
  assumes "stands ref s t w" and "may_open why reportedBy category t s" and "unreadable env why"
  shows "\<exists>w' d. run_proc (openDispute env (tx_id t) why reportedBy priority category) [] w =
      (Inl (DecryptionError DecryptionFailed), w', []) \<and>
    disputes (current w') = disputes s @ [d] \<and> active_dispute d \<and> txs (current w') = txs s \<and>
    (\<forall>action resolution admin. trim resolution \<noteq> [] \<longrightarrow>
      run_proc (resolvePayment env (d_id d) action resolution admin) [] w' = (Inl (DecryptionError DecryptionFailed), w', [])) \<and>
    (\<forall>st resolved agent. run_proc (updateStatus env (d_id d) st resolved agent) [] w' = (Inl (DecryptionError DecryptionFailed), w', [])) \<and>
    (\<forall>name. run_proc (assignToAgent env (d_id d) name) [] w' = (Inl (DecryptionError DecryptionFailed), w', [])) \<and>
    (\<forall>author note. run_proc (addNote env (d_id d) author note) [] w' = (Inl (DecryptionError DecryptionFailed), w', [])) \<and>
    (\<forall>why' reportedBy' priority' category'. run_proc (openDispute env (tx_id t) why' reportedBy' priority' category') [] w' =
      (Inl (DecryptionError DecryptionFailed), w', []))"
proof -
  note facts = stands_facts [OF assms(1)]
  let ?d = "opened_dispute (tx_id t) why reportedBy priority category s" let ?w1 = "commit (s\<lparr>disputes := disputes s @ [?d]\<rparr>) w"
  have bad: "decrypt_dispute env ?d = Inl (DecryptionError DecryptionFailed)"
    using assms(3) by (simp add: decrypt_unreadable_dispute opened_dispute_def)
  have st: "tx_status t = Completed \<or> tx_status t = Status_Workflow.Failed" using assms(2) by (simp add: may_open_def)
  have run: "run_proc (openDispute env (tx_id t) why reportedBy priority category) [] w = (Inl (DecryptionError DecryptionFailed), ?w1, [])"
    using st bad
    by (auto simp: openDispute_def proc_simps fresh_find facts none_active [OF assms(2)] findActiveByTransactionId_def
        version_current decrypt_found_def create_dispute_def insert_may_open [OF stands_unique [OF assms(1)] assms(2)] lift_result_def)
  have "\<forall>x \<in> set (disputes s). d_id x \<noteq> length (disputes s)"
  proof
    fix x assume "x \<in> set (disputes s)"
    moreover have "map d_id (disputes s) = [0..<length (disputes s)]"
      using assms(1) by (auto simp: stands_def world_ok_def store_ok_def disputes_ok_def)
    ultimately have "d_id x \<in> set [0..<length (disputes s)]" by (metis image_eqI list.set_map)
    then show "d_id x \<noteq> length (disputes s)" by simp
  qed
  from find_append_new [OF this, of ?d] have fd: "find_dispute (d_id ?d) (current ?w1) = Some ?d"
    by (simp add: find_dispute_def opened_dispute_def)
  have gone: "run_proc (existing_dispute env (d_id ?d)) [] ?w1 = (Inl (DecryptionError DecryptionFailed), ?w1, [])"
    using bad by (simp add: existing_dispute_def findById_def decrypt_found_def lift_result_def proc_simps version_current fd [unfolded commit_simps])
  have find_last: "find P xs = None \<Longrightarrow> P x \<Longrightarrow> find P (xs @ [x]) = Some x" for P xs and x :: dispute_row
    by (induction xs) (auto split: if_splits)
  have act: "find (\<lambda>d. d_transaction d = tx_id t \<and> active_dispute d) (disputes s @ [?d]) = Some ?d"
    using none_active [OF assms(2)] by (intro find_last) (simp_all add: opened_dispute_def active_dispute_def)
  have again: "run_proc (openDispute env (tx_id t) why' reportedBy' priority' category') [] ?w1 = (Inl (DecryptionError DecryptionFailed), ?w1, [])"
    for why' reportedBy' priority' category'
    using st bad
    by (auto simp: openDispute_def proc_simps fresh_find facts findActiveByTransactionId_def version_current decrypt_found_def
        lift_result_def act)
  have a: "active_dispute ?d" by (simp add: opened_dispute_def active_dispute_def)
  show ?thesis
    by (intro exI [of _ ?w1] exI [of _ ?d] conjI allI impI run again a)
      (simp_all add: resolvePayment_def updateStatus_def assignToAgent_def addNote_def proc_simps gone)
qed

theorem colon_reason_locks_dispute_witness:
  "\<exists>w' d. run_proc (openDispute sample_env ''t'' ''1:2:3'' None None None) [] open_world = (Inl (DecryptionError DecryptionFailed), w', []) \<and>
     disputes (current w') = [d] \<and>
     run_proc (resolvePayment sample_env (d_id d) Reverse_payment ''fraud'' None) [] w' = (Inl (DecryptionError DecryptionFailed), w', [])"
proof -
  have "''1:2:3'' = ''1'' @ '':'' @ ''2'' @ '':'' @ ''3''" by simp
  moreover have "global_keys (dispute_crypto sample_env) (dispute_keys sample_env) \<noteq> []" by code_simp
  moreover have "\<forall>k \<in> set (global_keys (dispute_crypto sample_env) (dispute_keys sample_env)).
      open_sealed (dispute_crypto sample_env) k (from_hex ''1'') (from_hex ''2'') (from_hex ''3'') = None" by code_simp
  ultimately have "unreadable sample_env ''1:2:3''" unfolding unreadable_def
    by (intro exI [of _ "''1''"] exI [of _ "''2''"] exI [of _ "''3''"]) simp
  from colon_reason_locks_dispute [OF open_stands sample_may_open this, of None]
  show ?thesis by (auto simp: sample_tx_def sample_clean(2))
qed

end
