(* ===== verification/Js_Codec.thy ===== *)
theory Js_Codec
  imports Js_Json Js_Bytes
begin

text \<open>
  Texts that the program exchanges with its clients: \<open>JSON.parse\<close> as the inverse of \<open>JSON.stringify\<close>,
  the \<open>base64\<close> encoding of Node buffers in its two alphabets, and the text of
  \<open>Date.prototype.toISOString\<close>. As in \<open>Js_Bytes\<close> the characters are those up to U+00FF, and an escape
  of another one is read as a question mark. A number read by \<open>JSON.parse\<close> keeps the text it was
  written with; \<open>numeral_value\<close> is the number it denotes.
\<close>

subsection \<open>JSON strings\<close>

definition is_json_space :: "char \<Rightarrow> bool" where
  "is_json_space c = ((of_char c :: nat) \<in> {9, 10, 13, 32})"

abbreviation skip_space :: "string \<Rightarrow> string" where
  "skip_space s \<equiv> dropWhile is_json_space s"

definition hex_quad :: "char \<Rightarrow> char \<Rightarrow> char \<Rightarrow> char \<Rightarrow> nat option" where
  "hex_quad a b c d =
     (case (hex_value a, hex_value b, hex_value c, hex_value d) of
        (Some w, Some x, Some y, Some z) \<Rightarrow> Some (4096 * w + 256 * x + 16 * y + z)
      | _ \<Rightarrow> None)"

definition unescape :: "char \<Rightarrow> char option" where
  "unescape c =
     (if c = CHR 0x22 \<or> c = CHR 0x5C \<or> c = CHR ''/'' then Some c
      else if c = CHR ''b'' then Some (CHR 0x08) else if c = CHR ''f'' then Some (CHR 0x0C)
      else if c = CHR ''n'' then Some (CHR 0x0A) else if c = CHR ''r'' then Some (CHR 0x0D)
      else if c = CHR ''t'' then Some (CHR 0x09) else None)"

abbreviation prepend :: "'a \<Rightarrow> ('a list \<times> 'b) option \<Rightarrow> ('a list \<times> 'b) option" where
  "prepend c r \<equiv> map_option (\<lambda>(s, u). (c # s, u)) r"

text \<open>The escape after a backslash, and what follows it.\<close>

definition escape_sequence :: "string \<Rightarrow> (char \<times> string) option" where
  "escape_sequence s =
     (case s of
        [] \<Rightarrow> None
      | e # t \<Rightarrow>
          if e \<noteq> CHR ''u'' then map_option (\<lambda>x. (x, t)) (unescape e)
          else if length t < 4 then None
          else map_option (\<lambda>n. (if n < 256 then char_of n else CHR ''?'', drop 4 t))
                 (hex_quad (t ! 0) (t ! 1) (t ! 2) (t ! 3)))"

lemma escape_sequence_length: "escape_sequence s = Some (x, t) \<Longrightarrow> length t < length s"
  by (auto simp: escape_sequence_def split: list.splits if_splits)

text \<open>The characters after the opening quote, and what follows the closing one.\<close>

function string_body :: "string \<Rightarrow> (string \<times> string) option" where
  "string_body s =
     (case s of
        [] \<Rightarrow> None
      | c # t \<Rightarrow>
          if c = CHR 0x22 then Some ([], t)
          else if (of_char c :: nat) < 32 then None
          else if c \<noteq> CHR 0x5C then prepend c (string_body t)
          else case escape_sequence t of None \<Rightarrow> None | Some (x, u) \<Rightarrow> prepend x (string_body u))"
  by pat_completeness auto
termination by (relation "measure length") (auto dest: escape_sequence_length)

declare string_body.simps [simp del]

lemma string_body_length: "string_body s = Some (v, r) \<Longrightarrow> length r < length s"
proof (induction s arbitrary: v r rule: string_body.induct)
  case (1 s)
  from "1.prems" obtain c t where s: "s = c # t" by (subst (asm) string_body.simps) (auto split: list.splits)
  have esc: "length r < length t" if "escape_sequence t = Some (x, u)" "string_body u = Some (w, r)"
    "c \<noteq> CHR 0x22" "\<not> (of_char c :: nat) < 32" "\<not> c \<noteq> CHR 0x5C" for x u w
    using "1.IH"(2) [OF s that(3-5,1) refl that(2)] escape_sequence_length [OF that(1)] by simp
  from "1.prems" show ?case unfolding s
    by (subst (asm) string_body.simps)
      (auto split: if_splits option.splits dest: esc "1.IH"(1) [OF s])
qed

lemma hex_quad_digits:
  "n < 32 \<Longrightarrow> hex_quad (CHR ''0'') (CHR ''0'') (Js_Json.hex_digit (n div 16)) (Js_Json.hex_digit (n mod 16)) = Some n"
proof -
  assume n: "n < 32"
  have "Js_Json.hex_digit = Js_Bytes.hex_digit" by (simp add: fun_eq_iff Js_Json.hex_digit_def Js_Bytes.hex_digit_def)
  moreover have "hex_value (CHR ''0'') = Some 0" by (simp add: hex_value_def)
  moreover have "n div 16 < 16" using n by simp
  moreover have "16 * (n div 16) + n mod 16 = n" by simp
  ultimately show ?thesis by (simp add: hex_quad_def hex_value_digit)
qed

lemma string_body_escape: "string_body (json_escape c @ s) = prepend c (string_body s)"
proof -
  define n where "n = (of_char c :: nat)"
  have c: "c = char_of n" "n < 256" by (simp_all add: n_def)
  have code: "d = c \<longleftrightarrow> of_char d = n" for d by (simp add: n_def)
  have special: "n = 0x22 \<Longrightarrow> c = CHR 0x22" "n = 0x5C \<Longrightarrow> c = CHR 0x5C" "n = 8 \<Longrightarrow> c = CHR 0x08"
    "n = 9 \<Longrightarrow> c = CHR 0x09" "n = 10 \<Longrightarrow> c = CHR 0x0A" "n = 12 \<Longrightarrow> c = CHR 0x0C" "n = 13 \<Longrightarrow> c = CHR 0x0D"
    by (simp_all add: code eq_commute [of c])
  consider (quote) "n = 0x22" | (backslash) "n = 0x5C" | (b) "n = 8" | (t) "n = 9" | (nl) "n = 10" | (f) "n = 12" | (r) "n = 13"
    | (control) "n < 32" "n \<notin> {8, 9, 10, 12, 13}" | (plain) "32 \<le> n" "n \<noteq> 0x22" "n \<noteq> 0x5C"
    by fastforce
  then show ?thesis
  proof cases
    case control
    then have "json_escape c = [CHR 0x5C, CHR ''u'', CHR ''0'', CHR ''0'', Js_Json.hex_digit (n div 16), Js_Json.hex_digit (n mod 16)]"
      by (simp add: json_escape_def n_def [symmetric] Let_def)
    moreover have "escape_sequence ([CHR ''u'', CHR ''0'', CHR ''0'', Js_Json.hex_digit (n div 16), Js_Json.hex_digit (n mod 16)] @ s) = Some (c, s)"
      using control c by (simp add: escape_sequence_def hex_quad_digits)
    ultimately show ?thesis by (simp add: string_body.simps [of "_ # _"])
  next
    case plain
    then have "json_escape c = [c]" by (simp add: json_escape_def n_def [symmetric] Let_def)
    moreover have "c \<noteq> CHR 0x22" "c \<noteq> CHR 0x5C" using plain by (auto simp: n_def)
    ultimately show ?thesis using plain by (simp add: n_def string_body.simps [of "_ # _"])
  qed (use special in \<open>simp_all add: json_escape_def Let_def unescape_def escape_sequence_def string_body.simps [of "_ # _"]\<close>)
qed

lemma string_body_quote: "string_body (concat (map json_escape s) @ CHR 0x22 # r) = Some (s, r)"
  by (induction s) (simp_all add: string_body_escape, simp add: string_body.simps)


subsection \<open>JSON values\<close>

definition leading :: "char \<Rightarrow> string \<Rightarrow> bool" where
  "leading c s = (s \<noteq> [] \<and> hd s = c)"

text \<open>The longest numeral at the head of a text: sign, whole part, fraction and exponent.\<close>

definition whole_part :: "string \<Rightarrow> nat option" where
  "whole_part s =
     (if leading (CHR ''0'') s then Some 1
      else let n = length (takeWhile is_digit s) in if n = 0 then None else Some n)"

definition fraction_part :: "string \<Rightarrow> nat option" where
  "fraction_part s =
     (if leading (CHR ''.'') s then
        (let n = length (takeWhile is_digit (tl s)) in if n = 0 then None else Some (1 + n))
      else Some 0)"

definition power_part :: "string \<Rightarrow> nat option" where
  "power_part s =
     (if leading (CHR ''e'') s \<or> leading (CHR ''E'') s then
        (let g = (if leading (CHR ''+'') (tl s) \<or> leading (CHR ''-'') (tl s) then 1 else 0);
             n = length (takeWhile is_digit (drop g (tl s)))
         in if n = 0 then None else Some (1 + g + n))
      else Some 0)"

definition numeral_prefix :: "string \<Rightarrow> nat option" where
  "numeral_prefix s =
     (let g = (if leading (CHR ''-'') s then 1 else 0) in
      case whole_part (drop g s) of None \<Rightarrow> None
      | Some w \<Rightarrow>
          (case fraction_part (drop (g + w) s) of None \<Rightarrow> None
           | Some f \<Rightarrow>
               (case power_part (drop (g + w + f) s) of None \<Rightarrow> None | Some e \<Rightarrow> Some (g + w + f + e))))"

definition numeral_value :: "string \<Rightarrow> js_num" where
  "numeral_value t = parse_float t"

text \<open>A later duplicate of a key replaces the value at the place of the first.\<close>

fun put_property :: "string \<Rightarrow> json \<Rightarrow> (string \<times> json) list \<Rightarrow> (string \<times> json) list" where
  "put_property k v [] = [(k, v)]"
| "put_property k v ((l, w) # ps) = (if k = l then (l, v) # ps else (l, w) # put_property k v ps)"

definition own_properties :: "(string \<times> json) list \<Rightarrow> (string \<times> json) list" where
  "own_properties ps = foldl (\<lambda>qs (k, v). put_property k v qs) [] ps"

text \<open>
  The grammar by recursive descent. Every call spends one unit of fuel; a call reads at least one
  character or is made by one that did, so that twice the length of the text is enough fuel.
\<close>

fun parse_value :: "nat \<Rightarrow> string \<Rightarrow> (json \<times> string) option"
  and parse_elements :: "nat \<Rightarrow> string \<Rightarrow> (json list \<times> string) option"
  and parse_members :: "nat \<Rightarrow> string \<Rightarrow> ((string \<times> json) list \<times> string) option" where
  "parse_value 0 s = None"
| "parse_value (Suc f) s =
     (let t = skip_space s in
      if startsWith t ''null'' then Some (JNull, drop 4 t)
      else if startsWith t ''true'' then Some (JBool True, drop 4 t)
      else if startsWith t ''false'' then Some (JBool False, drop 5 t)
      else if leading (CHR 0x22) t then map_option (\<lambda>(v, r). (JStr v, r)) (string_body (tl t))
      else if leading (CHR ''['') t then
        (if leading (CHR '']'') (skip_space (tl t)) then Some (JArr [], tl (skip_space (tl t)))
         else map_option (\<lambda>(vs, r). (JArr vs, r)) (parse_elements f (tl t)))
      else if leading (CHR ''{'') t then
        (if leading (CHR ''}'') (skip_space (tl t)) then Some (JObj [], tl (skip_space (tl t)))
         else map_option (\<lambda>(ps, r). (JObj (own_properties ps), r)) (parse_members f (tl t)))
      else map_option (\<lambda>n. (JNum (take n t), drop n t)) (numeral_prefix t))"
| "parse_elements 0 s = None"
| "parse_elements (Suc f) s =
     (case parse_value f s of
        None \<Rightarrow> None
      | Some (v, r) \<Rightarrow>
          (let u = skip_space r in
           if leading (CHR '','') u then prepend v (parse_elements f (tl u))
           else if leading (CHR '']'') u then Some ([v], tl u) else None))"
| "parse_members 0 s = None"
| "parse_members (Suc f) s =
     (let t = skip_space s in
      if \<not> leading (CHR 0x22) t then None
      else case string_body (tl t) of
        None \<Rightarrow> None
      | Some (k, r) \<Rightarrow>
          (let u = skip_space r in
           if \<not> leading (CHR '':'') u then None
           else case parse_value f (tl u) of
             None \<Rightarrow> None
           | Some (v, q) \<Rightarrow>
               (let w = skip_space q in
                if leading (CHR '','') w then prepend (k, v) (parse_members f (tl w))
                else if leading (CHR ''}'') w then Some ([(k, v)], tl w) else None)))"

text \<open>\<open>None\<close> is the \<open>SyntaxError\<close>.\<close>

definition json_parse :: "string \<Rightarrow> json option" where
  "json_parse s =
     (case parse_value (2 * length s + 2) s of
        Some (v, r) \<Rightarrow> if skip_space r = [] then Some v else None
      | None \<Rightarrow> None)"

lemma parse_mono:
  "parse_value f s = Some x \<Longrightarrow> parse_value (f + k) s = Some x"
  "parse_elements f s = Some y \<Longrightarrow> parse_elements (f + k) s = Some y"
  "parse_members f s = Some z \<Longrightarrow> parse_members (f + k) s = Some z"
proof (induction f s and f s and f s arbitrary: x and y and z rule: parse_value_parse_elements_parse_members.induct)
  case (2 f s)
  then show ?case by (auto simp: Let_def split: if_splits)
next
  case (4 f s)
  then show ?case by (fastforce simp: Let_def split: if_splits option.splits)
next
  case (6 f s)
  then show ?case by (fastforce simp: Let_def split: if_splits option.splits)
qed simp_all

lemma numeral_prefix_pos: "numeral_prefix s = Some n \<Longrightarrow> 0 < n \<and> s \<noteq> []"
proof -
  have w: "whole_part u = Some w \<Longrightarrow> 0 < w \<and> u \<noteq> []" for u w
    by (auto simp: whole_part_def leading_def Let_def split: if_splits)
  assume "numeral_prefix s = Some n"
  then show ?thesis by (fastforce simp: numeral_prefix_def Let_def split: option.splits if_splits dest: w)
qed

lemma length_skip: "length (skip_space s) \<le> length s"
  by (rule length_dropWhile_le)

lemma leading_length: "leading c (skip_space s) \<Longrightarrow> length (tl (skip_space s)) < length s"
  using length_skip [of s] by (cases "skip_space s") (auto simp: leading_def)

lemma startsWith_length: "startsWith t p \<Longrightarrow> length p \<le> length t"
  by (auto simp: startsWith_def dest: arg_cong [where f = length])

lemma drop_skip: "0 < n \<Longrightarrow> skip_space s \<noteq> [] \<Longrightarrow> length (drop n (skip_space s)) < length s"
proof -
  assume n: "0 < n" and "skip_space s \<noteq> []"
  then have "0 < length (skip_space s)" by (simp only: length_greater_0_conv not_False_eq_True)
  with n length_skip [of s] show ?thesis unfolding length_drop by linarith
qed

lemma startsWith_drop: "startsWith (skip_space s) p \<Longrightarrow> p \<noteq> [] \<Longrightarrow> length (drop (length p) (skip_space s)) < length s"
  by (rule drop_skip) (simp, metis startsWith_def take_Nil)

lemma parse_length:
  "parse_value f s = Some (v, r) \<Longrightarrow> length r < length s"
  "parse_elements f s = Some (vs, r) \<Longrightarrow> length r < length s"
  "parse_members f s = Some (ps, r) \<Longrightarrow> length r < length s"
proof (induction f s and f s and f s arbitrary: v r and vs r and ps r rule: parse_value_parse_elements_parse_members.induct)
  case (2 f s)
  have key: "length q < length (tl (skip_space s)) \<Longrightarrow> leading c (skip_space s) \<Longrightarrow> length q < length s" for q c
    using leading_length [of c s] by simp
  have num: "length (drop n (skip_space s)) < length s" if "numeral_prefix (skip_space s) = Some n" for n
    using numeral_prefix_pos [OF that] drop_skip by blast
  have empty: "leading c (skip_space (tl (skip_space s))) \<Longrightarrow> leading d (skip_space s) \<Longrightarrow> length (tl (skip_space (tl (skip_space s)))) < length s" for c d
    using leading_length [of c "tl (skip_space s)"] leading_length [of d s] by simp
  from 2 show ?case
    using startsWith_drop [of s "''null''"] startsWith_drop [of s "''true''"] startsWith_drop [of s "''false''"]
    by (auto simp: Let_def split: if_splits dest!: string_body_length intro: key num empty)
next
  case (4 f s)
  then show ?case using leading_length by (fastforce simp: Let_def split: if_splits option.splits)
next
  case (6 f s)
  let ?t = "skip_space s"
  from "6.prems" obtain k u x q where m: "leading (CHR 0x22) ?t" "string_body (tl ?t) = Some (k, u)"
    "leading (CHR '':'') (skip_space u)" "parse_value f (tl (skip_space u)) = Some (x, q)"
    by (auto simp: Let_def split: if_splits option.splits)
  have "length q < length s"
    using 6(1) [OF refl _ m(2) refl refl _ m(4)] m leading_length [OF m(1)] string_body_length [OF m(2)] leading_length [OF m(3)] by simp
  moreover have "length r < length q"
  proof (cases "leading (CHR '','') (skip_space q)")
    case True
    with "6.prems" m obtain qs where "parse_members f (tl (skip_space q)) = Some (qs, r)" by (auto simp: Let_def)
    with 6(2) [OF refl _ m(2) refl refl _ m(4) refl refl True] m leading_length [OF True] show ?thesis by simp
  next
    case False
    with "6.prems" m show ?thesis using leading_length [of _ q] by (auto simp: Let_def split: if_splits)
  qed
  ultimately show ?case by simp
qed simp_all

lemma parse_fuel:
  "2 * length s < f \<Longrightarrow> parse_value (f + k) s = parse_value f s"
  "2 * length s + 1 < f \<Longrightarrow> parse_elements (f + k) s = parse_elements f s"
  "2 * length s + 1 < f \<Longrightarrow> parse_members (f + k) s = parse_members f s"
proof (induction f s and f s and f s rule: parse_value_parse_elements_parse_members.induct)
  case (2 f s)
  let ?t = "skip_space s"
  have "parse_elements (f + k) (tl ?t) = parse_elements f (tl ?t)" if "leading (CHR ''['') ?t" "\<not> leading (CHR '']'') (skip_space (tl ?t))"
    "\<not> startsWith ?t ''null''" "\<not> startsWith ?t ''true''" "\<not> startsWith ?t ''false''" "\<not> leading (CHR 0x22) ?t"
    using that 2 leading_length [OF that(1)] by simp
  moreover have "parse_members (f + k) (tl ?t) = parse_members f (tl ?t)" if "leading (CHR ''{'') ?t" "\<not> leading (CHR ''}'') (skip_space (tl ?t))"
    "\<not> startsWith ?t ''null''" "\<not> startsWith ?t ''true''" "\<not> startsWith ?t ''false''" "\<not> leading (CHR 0x22) ?t" "\<not> leading (CHR ''['') ?t"
    using that 2 leading_length [OF that(1)] by simp
  ultimately show ?case by (simp add: Let_def)
next
  case (4 f s)
  have v: "parse_value (f + k) s = parse_value f s" using 4 by simp
  have "parse_elements (f + k) (tl (skip_space r)) = parse_elements f (tl (skip_space r))"
    if "parse_value f s = Some (x, r)" "leading (CHR '','') (skip_space r)" for x r
    using 4 that parse_length(1) [OF that(1)] leading_length [OF that(2)] by simp
  with v show ?case by (auto simp: Let_def split: option.splits)
next
  case (6 f s)
  let ?t = "skip_space s"
  have v: "parse_value (f + k) (tl (skip_space r)) = parse_value f (tl (skip_space r))"
    if "leading (CHR 0x22) ?t" "string_body (tl ?t) = Some (n, r)" "leading (CHR '':'') (skip_space r)" for n r
    using 6 that leading_length [OF that(1)] string_body_length [OF that(2)] leading_length [OF that(3)] by simp
  moreover have "parse_members (f + k) (tl (skip_space q)) = parse_members f (tl (skip_space q))"
    if "leading (CHR 0x22) ?t" "string_body (tl ?t) = Some (n, r)" "leading (CHR '':'') (skip_space r)"
      "parse_value f (tl (skip_space r)) = Some (x, q)" "leading (CHR '','') (skip_space q)" for n r x q
    using 6 that leading_length [OF that(1)] string_body_length [OF that(2)] leading_length [OF that(3)]
      parse_length(1) [OF that(4)] leading_length [OF that(5)] by simp
  ultimately show ?case by (auto simp: Let_def split: option.splits)
qed simp_all

text \<open>The fuel of \<open>json_parse\<close> is enough: what any fuel reads, it reads.\<close>

lemma json_parse_enough: "parse_value f s = Some (v, r) \<Longrightarrow> skip_space r = [] \<Longrightarrow> json_parse s = Some v"
  using parse_mono(1) [of f s "(v, r)" "2 * length s + 2"] parse_fuel(1) [of s "2 * length s + 2" f]
  by (simp add: json_parse_def add.commute eq_commute [of "Some (v, r)"] del: parse_value.simps)

subsection \<open>Printing and parsing\<close>

fun is_numeral :: "string \<Rightarrow> bool" where
  "is_numeral t = (numeral_prefix t = Some (length t))"

fun wf_json :: "json \<Rightarrow> bool" where
  "wf_json (JNum t) = is_numeral t"
| "wf_json (JArr vs) = (\<forall>v \<in> set vs. wf_json v)"
| "wf_json (JObj ps) = (distinct (map fst ps) \<and> (\<forall>p \<in> set ps. wf_json (snd p)))"
| "wf_json v = True"

text \<open>What may follow a value inside a printed text.\<close>

definition delimited :: "string \<Rightarrow> bool" where
  "delimited r = (r = [] \<or> hd r = CHR '','' \<or> hd r = CHR '']'' \<or> hd r = CHR ''}'')"

lemma takeWhile_delimited: "delimited r \<Longrightarrow> takeWhile is_digit (s @ r) = takeWhile is_digit s"
  by (induction s) (cases r; auto simp: delimited_def is_digit_def)+

lemma leading_delimited: "delimited r \<Longrightarrow> c \<notin> {CHR '','', CHR '']'', CHR ''}''} \<Longrightarrow> leading c (s @ r) = leading c s"
  by (cases s; cases r) (auto simp: leading_def delimited_def)

lemma numeral_delimited:
  assumes r: "delimited r" and t: "is_numeral t"
  shows "numeral_prefix (t @ r) = Some (length t)"
proof -
  note lead = leading_delimited [OF r]
  have tl: "leading c s \<Longrightarrow> tl (s @ r) = tl s @ r" for c s by (cases s) (auto simp: leading_def)
  have w: "whole_part (s @ r) = whole_part s" for s
    by (simp add: whole_part_def takeWhile_delimited [OF r] lead)
  have f: "fraction_part (s @ r) = fraction_part s" for s
    by (simp add: fraction_part_def takeWhile_delimited [OF r] lead tl cong: if_cong)
  have p: "power_part (s @ r) = power_part s" for s
  proof -
    have "drop g (tl s @ r) = drop g (tl s) @ r" if "g = (if leading (CHR ''+'') (tl s) \<or> leading (CHR ''-'') (tl s) then 1 else 0)" for g
      using that by (cases "tl s") (auto simp: leading_def)
    then show ?thesis by (auto simp: power_part_def takeWhile_delimited [OF r] lead tl Let_def)
  qed
  define g where "g = (if leading (CHR ''-'') t then 1 else 0 :: nat)"
  from t obtain m n k where parts: "whole_part (drop g t) = Some m" "fraction_part (drop (g + m) t) = Some n"
    "power_part (drop (g + m + n) t) = Some k" and sum: "g + m + n + k = length t"
    by (auto simp: numeral_prefix_def g_def Let_def split: option.splits)
  have d: "drop i (t @ r) = drop i t @ r" if "i \<le> g + m + n" for i using that sum by simp
  have "leading (CHR ''-'') (t @ r) = leading (CHR ''-'') t" by (rule lead) simp
  with parts sum show ?thesis
    by (simp add: numeral_prefix_def g_def [symmetric] Let_def d w f p)
qed

lemma own_properties_distinct: "distinct (map fst ps) \<Longrightarrow> own_properties ps = ps"
proof -
  have app: "k \<notin> fst ` set qs \<Longrightarrow> put_property k v qs = qs @ [(k, v)]" for k v qs
    by (induction qs) auto
  have "distinct (map fst (qs @ ps)) \<Longrightarrow> foldl (\<lambda>qs (k, v). put_property k v qs) qs ps = qs @ ps" for qs
    by (induction ps arbitrary: qs) (auto simp: app)
  from this [of "[]"] show "distinct (map fst ps) \<Longrightarrow> own_properties ps = ps" by (simp add: own_properties_def)
qed

lemma skip_space_Cons: "\<not> is_json_space c \<Longrightarrow> skip_space (c # s) = c # s"
  by simp

text \<open>The first character of a printed value selects the branch of the parser that reads it.\<close>

lemma is_numeral_head:
  assumes "is_numeral t" obtains c u where "t = c # u" "is_digit c \<or> c = CHR ''-''"
proof -
  from assms obtain c u where t: "t = c # u" using numeral_prefix_pos by (cases t) fastforce+
  have "is_digit c \<or> c = CHR ''-''"
  proof (rule ccontr)
    assume "\<not> (is_digit c \<or> c = CHR ''-'')"
    moreover from this have "c \<noteq> CHR ''0''" by (auto simp: is_digit_def)
    ultimately have "numeral_prefix t = None" by (simp add: t numeral_prefix_def whole_part_def leading_def Let_def)
    with assms show False by simp
  qed
  with t that show thesis by blast
qed

lemma parse_is_numeral:
  assumes "is_numeral t" "delimited r"
  shows "parse_value (Suc f) (t @ r) = Some (JNum t, r)"
proof -
  obtain c u where t: "t = c # u" "is_digit c \<or> c = CHR ''-''" by (rule is_numeral_head [OF assms(1)])
  then have c: "\<not> is_json_space c" "c \<notin> {CHR ''n'', CHR ''t'', CHR ''f'', CHR 0x22, CHR ''['', CHR ''{''}"
    by (auto simp: is_digit_def is_json_space_def)
  have "skip_space (t @ r) = t @ r" using c(1) by (simp add: t(1))
  moreover have "numeral_prefix (t @ r) = Some (length t)" by (rule numeral_delimited [OF assms(2,1)])
  moreover have "\<not> startsWith (t @ r) (d # ds)" if "d \<in> {CHR ''n'', CHR ''t'', CHR ''f''}" for d ds
    using that c(2) by (auto simp: startsWith_def t(1))
  moreover have "\<not> leading d (t @ r)" if "d \<in> {CHR 0x22, CHR ''['', CHR ''{''}" for d
    using that c(2) by (auto simp: leading_def t(1))
  ultimately show ?thesis by simp
qed

lemma parse_string: "parse_value (Suc f) (json_quote s @ r) = Some (JStr s, r)"
  by (simp add: json_quote_def quoted_def startsWith_def leading_def is_json_space_def string_body_quote)

lemma parse_key:
  "parse_members (Suc f) (json_quote k @ CHR '':'' # s) =
     (case parse_value f s of
        None \<Rightarrow> None
      | Some (v, q) \<Rightarrow>
          (if leading (CHR '','') (skip_space q) then prepend (k, v) (parse_members f (tl (skip_space q)))
           else if leading (CHR ''}'') (skip_space q) then Some ([(k, v)], tl (skip_space q)) else None))"
  by (simp add: json_quote_def quoted_def leading_def is_json_space_def string_body_quote Let_def split: option.splits)

lemma printed_head:
  assumes "wf_json j" obtains c u where "stringify j = c # u" "\<not> is_json_space c" "c \<noteq> CHR '']''"
proof (cases j)
  case (JBool b)
  with that show thesis by (cases b) (auto simp: is_json_space_def)
next
  case (JNum t)
  with assms obtain c u where "t = c # u" "is_digit c \<or> c = CHR ''-''" using is_numeral_head by auto
  moreover from this(2) have "\<not> is_json_space c" "c \<noteq> CHR '']''" by (auto simp: is_digit_def is_json_space_def)
  ultimately show thesis using JNum that by simp
qed (use that in \<open>auto simp: json_quote_def quoted_def is_json_space_def split: if_splits\<close>)

lemma join_Cons: "xs \<noteq> [] \<Longrightarrow> join sep (x # xs) = x @ sep @ join sep xs"
  by (cases xs) auto

lemma parse_printed_elements:
  assumes "xs \<noteq> []"
    and "\<And>x r. x \<in> set xs \<Longrightarrow> delimited r \<Longrightarrow> \<exists>f. parse_value f (stringify x @ r) = Some (x, r)"
  shows "\<exists>f. parse_elements f (join '','' (map stringify xs) @ '']'' @ r) = Some (xs, r)"
  using assms
proof (induction xs rule: list_nonempty_induct)
  case (single x)
  from single [of x "'']'' @ r"] obtain f where "parse_value f (stringify x @ '']'' @ r) = Some (x, '']'' @ r)"
    by (auto simp: delimited_def)
  then have "parse_elements (Suc f) (stringify x @ '']'' @ r) = Some ([x], r)" by (simp add: leading_def is_json_space_def)
  then show ?case by (auto simp del: parse_elements.simps)
next
  case (cons x xs)
  let ?rest = "join '','' (map stringify xs) @ '']'' @ r"
  obtain f where f: "parse_value f (stringify x @ '','' @ ?rest) = Some (x, '','' @ ?rest)"
    using cons.prems [of x "'','' @ ?rest"] by (auto simp: delimited_def)
  obtain g where g: "parse_elements g ?rest = Some (xs, r)" using cons by auto
  have "parse_elements (Suc (f + g)) (stringify x @ '','' @ ?rest) = Some (x # xs, r)"
    using parse_mono(1) [OF f, of g] parse_mono(2) [OF g, of f] by (simp add: leading_def is_json_space_def add.commute)
  then show ?case using cons.hyps by (auto simp: join_Cons simp del: parse_elements.simps)
qed

lemma parse_printed_members:
  assumes "ps \<noteq> []"
    and "\<And>p r. p \<in> set ps \<Longrightarrow> delimited r \<Longrightarrow> \<exists>f. parse_value f (stringify (snd p) @ r) = Some (snd p, r)"
  shows "\<exists>f. parse_members f (join '','' (map (\<lambda>(k, v). json_quote k @ '':'' @ stringify v) ps) @ ''}'' @ r) = Some (ps, r)"
  using assms
proof (induction ps rule: list_nonempty_induct)
  case (single p)
  obtain k v where p: "p = (k, v)" by fastforce
  with single [of p "''}'' @ r"] obtain f where "parse_value f (stringify v @ ''}'' @ r) = Some (v, ''}'' @ r)"
    by (auto simp: delimited_def)
  then have "parse_members (Suc f) (json_quote k @ '':'' @ stringify v @ ''}'' @ r) = Some ([p], r)"
    by (simp add: parse_key leading_def is_json_space_def p del: parse_members.simps)
  then show ?case by (auto simp: p simp del: parse_members.simps)
next
  case (cons p ps)
  obtain k v where p: "p = (k, v)" by fastforce
  let ?rest = "join '','' (map (\<lambda>(k, v). json_quote k @ '':'' @ stringify v) ps) @ ''}'' @ r"
  obtain f where f: "parse_value f (stringify v @ '','' @ ?rest) = Some (v, '','' @ ?rest)"
    using cons.prems [of p "'','' @ ?rest"] p by (auto simp: delimited_def)
  obtain g where g: "parse_members g ?rest = Some (ps, r)" using cons by auto
  have "parse_members (Suc (f + g)) (json_quote k @ '':'' @ stringify v @ '','' @ ?rest) = Some (p # ps, r)"
    using parse_mono(1) [OF f, of g] parse_mono(3) [OF g, of f]
    by (simp add: parse_key leading_def is_json_space_def p add.commute del: parse_members.simps)
  then show ?case using cons.hyps by (auto simp: join_Cons p simp del: parse_members.simps)
qed

lemma parse_printed: "wf_json j \<Longrightarrow> delimited r \<Longrightarrow> \<exists>f. parse_value f (stringify j @ r) = Some (j, r)"
proof (induction j arbitrary: r rule: stringify.induct)
  case 1
  have "parse_value 1 (stringify JNull @ r) = Some (JNull, r)" by (simp add: startsWith_def is_json_space_def)
  then show ?case by blast
next
  case (2 b)
  have "parse_value 1 (stringify (JBool b) @ r) = Some (JBool b, r)" by (simp add: startsWith_def is_json_space_def)
  then show ?case by blast
next
  case (3 t)
  then show ?case using parse_is_numeral by (auto simp del: parse_value.simps)
next
  case (4 s)
  then show ?case using parse_string by (auto simp del: parse_value.simps)
next
  case (5 xs)
  show ?case
  proof (cases "xs = []")
    case True
    have "parse_value 1 (stringify (JArr []) @ r) = Some (JArr [], r)" by (simp add: startsWith_def leading_def is_json_space_def)
    with True show ?thesis by blast
  next
    case False
    let ?body = "join '','' (map stringify xs) @ '']'' @ r"
    have "\<exists>f. parse_elements f ?body = Some (xs, r)"
      using 5 False by (intro parse_printed_elements) auto
    then obtain f where f: "parse_elements f ?body = Some (xs, r)" by blast
    from False obtain x ys where xs: "xs = x # ys" by (cases xs) auto
    with 5 obtain c u where "stringify x = c # u" "\<not> is_json_space c" "c \<noteq> CHR '']''" by (auto elim: printed_head)
    then have "\<not> leading (CHR '']'') (skip_space ?body)" by (cases ys) (auto simp: xs leading_def)
    with f have "parse_value (Suc f) (stringify (JArr xs) @ r) = Some (JArr xs, r)"
      by (simp add: startsWith_def leading_def is_json_space_def)
    then show ?thesis by blast
  qed
next
  case (6 ps)
  show ?case
  proof (cases "ps = []")
    case True
    have "parse_value 1 (stringify (JObj []) @ r) = Some (JObj [], r)" by (simp add: startsWith_def leading_def is_json_space_def)
    with True show ?thesis by blast
  next
    case False
    let ?body = "join '','' (map (\<lambda>(k, v). json_quote k @ '':'' @ stringify v) ps) @ ''}'' @ r"
    have "\<exists>f. parse_members f ?body = Some (ps, r)"
      using 6 False by (intro parse_printed_members) auto
    then obtain f where f: "parse_members f ?body = Some (ps, r)" by blast
    have "\<not> leading (CHR ''}'') (skip_space ?body)"
      using False by (cases ps rule: list.exhaust; cases "tl ps") (auto simp: leading_def json_quote_def quoted_def is_json_space_def)
    with f have "parse_value (Suc f) (stringify (JObj ps) @ r) = Some (JObj ps, r)"
      using 6 by (simp add: startsWith_def leading_def is_json_space_def own_properties_distinct)
    then show ?thesis by blast
  qed
qed

lemma json_parse_stringify: "wf_json j \<Longrightarrow> json_parse (stringify j) = Some j"
  using parse_printed [of j "[]"] by (auto simp: delimited_def intro: json_parse_enough)

interpretation jsonc: codec stringify "\<lambda>s. the (json_parse s)" wf_json
  by unfold_locales (simp add: json_parse_stringify)

subsection \<open>Base64\<close>

definition base64_char :: "nat \<Rightarrow> char" where
  "base64_char n =
     (if n < 26 then char_of (65 + n) else if n < 52 then char_of (71 + n)
      else if n < 62 then char_of (n - 4) else if n = 62 then CHR ''+'' else CHR ''/'')"

definition base64_value :: "char \<Rightarrow> nat option" where
  "base64_value c =
     (let n = of_char c :: nat in
      if 65 \<le> n \<and> n \<le> 90 then Some (n - 65) else if 97 \<le> n \<and> n \<le> 122 then Some (n - 71)
      else if 48 \<le> n \<and> n \<le> 57 then Some (n + 4)
      else if c = CHR ''+'' \<or> c = CHR ''-'' then Some 62
      else if c = CHR ''/'' \<or> c = CHR ''_'' then Some 63 else None)"

fun sextets :: "bytes \<Rightarrow> nat list" where
  "sextets (a # b # c # s) =
     unat a div 4 # (unat a mod 4 * 16 + unat b div 16) # (unat b mod 16 * 4 + unat c div 64) # unat c mod 64 # sextets s"
| "sextets [a, b] = [unat a div 4, unat a mod 4 * 16 + unat b div 16, unat b mod 16 * 4]"
| "sextets [a] = [unat a div 4, unat a mod 4 * 16]"
| "sextets [] = []"

fun octets :: "nat list \<Rightarrow> bytes" where
  "octets (p # q # r # t # s) =
     of_nat (p * 4 + q div 16) # of_nat (q mod 16 * 16 + r div 4) # of_nat (r mod 4 * 64 + t) # octets s"
| "octets [p, q, r] = [of_nat (p * 4 + q div 16), of_nat (q mod 16 * 16 + r div 4)]"
| "octets [p, q] = [of_nat (p * 4 + q div 16)]"
| "octets s = []"

definition pad_length :: "nat \<Rightarrow> nat" where
  "pad_length n = (3 - n mod 3) mod 3"

definition to_base64 :: "bytes \<Rightarrow> string" where
  "to_base64 bs = map base64_char (sextets bs) @ replicate (pad_length (length bs)) (CHR ''='')"

text \<open>
  \<open>Buffer.from(s, "base64")\<close> accepts both alphabets, skips any other character and stops at the first
  equals sign.
\<close>

definition from_base64 :: "string \<Rightarrow> bytes" where
  "from_base64 s = octets (List.map_filter base64_value (takeWhile (\<lambda>c. c \<noteq> CHR ''='') s))"

lemma base64_value_char: "n < 64 \<Longrightarrow> base64_value (base64_char n) = Some n"
proof -
  assume "n < 64"
  then consider "n < 26" | "26 \<le> n" "n < 52" | "52 \<le> n" "n < 62" | "n = 62" | "n = 63" by linarith
  then show ?thesis by cases (auto simp: base64_value_def base64_char_def Let_def)
qed

lemma of_nat_byte: "n = unat b \<Longrightarrow> (of_nat n :: 8 word) = b"
  by simp

lemma octets_sextets: "octets (sextets bs) = bs"
proof (induction bs rule: sextets.induct)
  case (1 a b c s)
  have "(unat a mod 4 * 16 + unat b div 16) div 16 = unat a mod 4" "(unat b mod 16 * 4 + unat c div 64) div 4 = unat b mod 16"
    "(unat a mod 4 * 16 + unat b div 16) mod 16 = unat b div 16" "(unat b mod 16 * 4 + unat c div 64) mod 4 = unat c div 64"
    using unat_byte [of b] unat_byte [of c] by (simp_all add: less_mult_imp_div_less)
  with 1 show ?case by (simp add: mult.commute [of _ 4] mult.commute [of _ 16] mult.commute [of _ 64] del: of_nat_add of_nat_mult)
next
  case (2 a b)
  have "(unat a mod 4 * 16 + unat b div 16) div 16 = unat a mod 4" "(unat a mod 4 * 16 + unat b div 16) mod 16 = unat b div 16"
    using unat_byte [of b] by (simp_all add: less_mult_imp_div_less)
  then show ?case by (simp add: mult.commute [of _ 4] mult.commute [of _ 16] del: of_nat_add of_nat_mult)
next
  case (3 a)
  show ?case by (simp add: mult.commute [of _ 4] del: of_nat_add of_nat_mult)
qed simp

lemma sextets_bound: "n \<in> set (sextets bs) \<Longrightarrow> n < 64"
proof (induction bs rule: sextets.induct)
  case (1 a b c s)
  have "unat a div 4 < 64" "unat a mod 4 * 16 + unat b div 16 < 64" "unat b mod 16 * 4 + unat c div 64 < 64"
    using unat_byte [of a] unat_byte [of b] unat_byte [of c] by linarith+
  with 1 show ?case by auto
next
  case (2 a b)
  have "unat a div 4 < 64" "unat a mod 4 * 16 + unat b div 16 < 64" "unat b mod 16 * 4 < 64"
    using unat_byte [of a] unat_byte [of b] by linarith+
  with 2 show ?case by auto
next
  case (3 a)
  have "unat a div 4 < 64" "unat a mod 4 * 16 < 64" using unat_byte [of a] by linarith+
  with 3 show ?case by auto
qed simp

lemma map_filter_all: "(\<And>x. x \<in> set xs \<Longrightarrow> f (g x) = Some x) \<Longrightarrow> List.map_filter f (map g xs) = xs"
  by (induction xs) (simp_all add: List.map_filter_simps)

text \<open>Only the letters matter: what follows the first equals sign, the padding, is not read.\<close>

lemma from_base64_letters:
  "(\<And>n. n \<in> set ns \<Longrightarrow> base64_value (g n) = Some n) \<Longrightarrow> from_base64 (map g ns @ replicate k (CHR ''='')) = octets ns"
proof -
  assume g: "\<And>n. n \<in> set ns \<Longrightarrow> base64_value (g n) = Some n"
  moreover have "base64_value (CHR ''='') = None" by (simp add: base64_value_def)
  ultimately have "c \<noteq> CHR ''=''" if "c \<in> set (map g ns)" for c using that by force
  then have "takeWhile (\<lambda>c. c \<noteq> CHR ''='') (map g ns @ replicate k (CHR ''='')) = map g ns"
    by (subst takeWhile_append2) auto
  with g show ?thesis by (simp add: from_base64_def map_filter_all)
qed

lemma from_base64_to_base64: "from_base64 (to_base64 bs) = bs"
  unfolding to_base64_def
  by (subst from_base64_letters) (auto simp: octets_sextets base64_value_char dest: sextets_bound)

interpretation base64c: codec to_base64 from_base64 "\<lambda>bs. True"
  by unfold_locales (rule from_base64_to_base64)

subsection \<open>The text of a date\<close>

text \<open>The proleptic Gregorian calendar: year, month and day of a day counted from 1970-01-01.\<close>

definition civil :: "int \<Rightarrow> int \<times> int \<times> int" where
  "civil days =
     (let z = days + 719468; era = z div 146097; e = z mod 146097;
          y = (e - e div 1460 + e div 36524 - e div 146096) div 365;
          d = e - (365 * y + y div 4 - y div 100); m = (5 * d + 2) div 153
      in (y + era * 400 + (if m < 10 then 0 else 1), if m < 10 then m + 3 else m - 9, d - (153 * m + 2) div 5 + 1))"

definition padded :: "nat \<Rightarrow> int \<Rightarrow> string" where
  "padded w n = (let t = nat_text (nat n) in replicate (w - length t) (CHR ''0'') @ t)"

definition year_text :: "int \<Rightarrow> string" where
  "year_text y =
     (if 0 \<le> y \<and> y \<le> 9999 then padded 4 y else if y < 0 then ''-'' @ padded 6 (- y) else ''+'' @ padded 6 y)"

definition iso_string :: "int \<Rightarrow> string" where
  "iso_string ms =
     (case civil (ms div 86400000) of (y, m, d) \<Rightarrow>
        year_text y @ ''-'' @ padded 2 m @ ''-'' @ padded 2 d @ ''T'' @ padded 2 (ms div 3600000 mod 24) @ '':''
        @ padded 2 (ms div 60000 mod 60) @ '':'' @ padded 2 (ms div 1000 mod 60) @ ''.'' @ padded 3 (ms mod 1000) @ ''Z'')"

lemma iso_text_examples:
  "iso_string 0 = ''1970-01-01T00:00:00.000Z''"
  "iso_string 951782399999 = ''2000-02-28T23:59:59.999Z''"
  "iso_string 1709208000123 = ''2024-02-29T12:00:00.123Z''"
  "iso_string (- 1) = ''1969-12-31T23:59:59.999Z''"
  by code_simp+

end
