(* ===== verification/Pagination.thy ===== *)
theory Pagination
  imports Js_Codec
begin

text \<open>
  Cursor pagination (\<open>src/src/utils/pagination.ts\<close>, \<open>src/src/middleware/pagination.ts\<close>): the opaque
  cursors, the query parameters of a list endpoint, the boundary predicate, the response of a page and
  the client loops \<open>paginateAll\<close> and \<open>chunkResults\<close>.

  A cursor decoded from a request carries as \<open>id\<close> whatever JSON value the client wrote. \<open>new Date(text)\<close>
  is a parameter, since its reading of texts other than ISO 8601 is implementation defined. A sort value
  that is a number is not modelled: no caller passes one. Strings hold code units below 256, so that their
  UTF-8 has one or two bytes for each; dates and UUIDs, which the callers pass, are ASCII. The page source of \<open>paginateAll\<close> is a parameter
  that may answer each call differently; the error it throws has its own type.
\<close>

subsection \<open>Cursors\<close>

record cursor_payload =
  cur_t :: string
  cur_id :: json

datatype pagination_error =
  UnsafeCharacters "char list"
| InvalidCursor
| BeforeAndAfter
| BadChunkSize
| MaxPages nat
| InvalidTimeValue

definition unsafe_char :: "char \<Rightarrow> bool" where
  "unsafe_char c = (c = CHR ''+'' \<or> c = CHR ''/'' \<or> c = CHR ''='')"

definition validateUrlSafeCursor :: "string \<Rightarrow> pagination_error + unit" where
  "validateUrlSafeCursor encoded =
     (if \<exists>c \<in> set encoded. unsafe_char c
      then Inl (UnsafeCharacters (rev (remdups (rev (filter unsafe_char encoded))))) else Inr ())"

definition payload_json :: "cursor_payload \<Rightarrow> json" where
  "payload_json p = JObj [(''v'', JNum ''1''), (''t'', JStr (cur_t p)), (''id'', cur_id p)]"

definition url_char :: "char \<Rightarrow> char" where
  "url_char c = (if c = CHR ''+'' then CHR ''-'' else if c = CHR ''/'' then CHR ''_'' else c)"

definition strip_padding :: "string \<Rightarrow> string" where
  "strip_padding s = rev (dropWhile (\<lambda>c. c = CHR ''='') (rev s))"

definition encodeCursor :: "cursor_payload \<Rightarrow> pagination_error + string" where
  "encodeCursor p =
     (let encoded = strip_padding (map url_char (to_base64 (to_utf8 (stringify (payload_json p))))) in
      case validateUrlSafeCursor encoded of Inl e \<Rightarrow> Inl e | Inr _ \<Rightarrow> Inr encoded)"

definition plain_char :: "char \<Rightarrow> char" where
  "plain_char c = (if c = CHR ''-'' then CHR ''+'' else if c = CHR ''_'' then CHR ''/'' else c)"

definition base64_text :: "string \<Rightarrow> string" where
  "base64_text cursor =
     (let normalized = map plain_char cursor; padding = length normalized mod 4
      in if padding \<noteq> 0 then normalized @ replicate (4 - padding) (CHR ''='') else normalized)"

text \<open>Whether a parsed value counts as true; numerals are compared as numbers.\<close>

definition parsed_truthy :: "json \<Rightarrow> bool" where
  "parsed_truthy v = (case v of JNum t \<Rightarrow> numeral_value t \<noteq> Fin 0 \<and> numeral_value t \<noteq> NaN | _ \<Rightarrow> json_truthy v)"

definition current_payload :: "json \<Rightarrow> cursor_payload option" where
  "current_payload v =
     (case (property v ''v'', property v ''t'', property v ''id'') of
        (Some (JNum n), Some (JStr t), Some i) \<Rightarrow>
          if numeral_value n = Fin 1 \<and> parsed_truthy i then Some \<lparr>cur_t = t, cur_id = i\<rparr> else None
      | _ \<Rightarrow> None)"

text \<open>The parts before and after the last bar of a text.\<close>

definition split_last_bar :: "string \<Rightarrow> (string \<times> string) option" where
  "split_last_bar s =
     (if CHR ''|'' \<in> set s
      then Some (rev (tl (dropWhile (\<lambda>c. c \<noteq> CHR ''|'') (rev s))), rev (takeWhile (\<lambda>c. c \<noteq> CHR ''|'') (rev s)))
      else None)"

definition legacy_payload :: "(string \<Rightarrow> js_date) \<Rightarrow> string \<Rightarrow> cursor_payload option" where
  "legacy_payload new_date decoded =
     (case split_last_bar decoded of
        Some (timestamp, i) \<Rightarrow>
          if new_date timestamp \<noteq> None \<and> i \<noteq> [] then Some \<lparr>cur_t = timestamp, cur_id = JStr i\<rparr> else None
      | None \<Rightarrow> None)"

definition decodeCursor :: "(string \<Rightarrow> js_date) \<Rightarrow> string \<Rightarrow> pagination_error + cursor_payload" where
  "decodeCursor new_date cursor =
     (if cursor = [] then Inl InvalidCursor
      else let decoded = of_utf8 (from_base64 (base64_text cursor)) in
        case Option.bind (json_parse decoded) current_payload of
          Some p \<Rightarrow> Inr p
        | None \<Rightarrow> (case legacy_payload new_date decoded of Some p \<Rightarrow> Inr p | None \<Rightarrow> Inl InvalidCursor))"

text \<open>The sort value of an item is a date or a text; the text of an invalid date is a \<open>RangeError\<close>.\<close>

datatype sort_value = Sort_text string | Sort_date js_date

definition createCursor :: "sort_value \<Rightarrow> string \<Rightarrow> pagination_error + string" where
  "createCursor v i =
     (case v of
        Sort_text t \<Rightarrow> encodeCursor \<lparr>cur_t = t, cur_id = JStr i\<rparr>
      | Sort_date (Some ms) \<Rightarrow> encodeCursor \<lparr>cur_t = iso_string ms, cur_id = JStr i\<rparr>
      | Sort_date None \<Rightarrow> Inl InvalidTimeValue)"

subsection \<open>Query parameters\<close>

record page_options =
  maxLimit :: "js_num option"
  defaultLimit :: "js_num option"

record 'c page_params =
  pg_limit :: js_num
  pg_offset :: js_num
  pg_after :: "'c option"
  pg_before :: "'c option"

definition query_text :: "(string \<Rightarrow> js_value option) \<Rightarrow> string \<Rightarrow> string option" where
  "query_text query k = (case query k of Some (Str s) \<Rightarrow> if s = [] then None else Some s | _ \<Rightarrow> None)"

definition parsePaginationParams ::
  "(string \<Rightarrow> js_value option) \<Rightarrow> page_options \<Rightarrow> pagination_error + string page_params" where
  "parsePaginationParams query options =
     (let most = (case maxLimit options of Some n \<Rightarrow> n | None \<Rightarrow> Fin 100);
          standard = (case defaultLimit options of Some n \<Rightarrow> n | None \<Rightarrow> Fin 20);
          rawLimit = (case query ''limit'' of Some (Str s) \<Rightarrow> parse_int s | _ \<Rightarrow> NaN);
          rawOffset = (case query ''offset'' of Some (Str s) \<Rightarrow> parse_int s | _ \<Rightarrow> Fin 0);
          limit = (if isFinite rawLimit then math_max (Fin 1) (math_min most rawLimit) else standard);
          offset = (if isFinite rawOffset then math_max (Fin 0) rawOffset else Fin 0);
          after = query_text query ''after'';
          before = query_text query ''before'';
          cursor = query_text query ''cursor''
      in if after \<noteq> None \<and> before \<noteq> None then Inl BeforeAndAfter
         else Inr \<lparr>pg_limit = limit, pg_offset = offset, pg_after = (if after \<noteq> None then after else cursor),
                   pg_before = before\<rparr>)"

definition decode_optional ::
  "(string \<Rightarrow> js_date) \<Rightarrow> string option \<Rightarrow> pagination_error + cursor_payload option" where
  "decode_optional new_date c =
     (case c of None \<Rightarrow> Inr None
      | Some s \<Rightarrow> if s = [] then Inr None
          else case decodeCursor new_date s of Inl e \<Rightarrow> Inl e | Inr p \<Rightarrow> Inr (Some p))"

definition decodePaginationCursors ::
  "(string \<Rightarrow> js_date) \<Rightarrow> string page_params \<Rightarrow> pagination_error + cursor_payload page_params" where
  "decodePaginationCursors new_date ps =
     (case decode_optional new_date (pg_after ps) of Inl e \<Rightarrow> Inl e
      | Inr after \<Rightarrow>
          (case decode_optional new_date (pg_before ps) of Inl e \<Rightarrow> Inl e
           | Inr before \<Rightarrow>
               Inr \<lparr>pg_limit = pg_limit ps, pg_offset = pg_offset ps, pg_after = after, pg_before = before\<rparr>))"

text \<open>The answer 400 carries the error, whose text is its message.\<close>

datatype 'a answered = Continue 'a | Bad_request pagination_error

definition parseRequestPagination ::
  "(string \<Rightarrow> js_date) \<Rightarrow> (string \<Rightarrow> js_value option) \<Rightarrow> page_options \<Rightarrow> cursor_payload page_params answered" where
  "parseRequestPagination new_date query options =
     (case parsePaginationParams query options of
        Inl e \<Rightarrow> Bad_request e
      | Inr ps \<Rightarrow> (case decodePaginationCursors new_date ps of Inl e \<Rightarrow> Bad_request e | Inr d \<Rightarrow> Continue d))"

subsection \<open>The boundary predicate\<close>

text \<open>
  A comparison of a row of columns with a row of placeholders; \<open>clause_text\<close> is the SQL that
  \<open>buildCursorWhere\<close> returns for it.
\<close>

datatype row_op = Below | Above

record row_clause =
  rc_columns :: "string list"
  rc_op :: row_op
  rc_places :: "nat list"

definition clause_text :: "row_clause \<Rightarrow> string" where
  "clause_text rc =
     ''('' @ join '', '' (rc_columns rc) @ '') '' @ (case rc_op rc of Below \<Rightarrow> ''<'' | Above \<Rightarrow> ''>'') @ '' (''
     @ join '', '' (map (\<lambda>n. ''$'' @ nat_text n) (rc_places rc)) @ '')''"

datatype sort_order = Asc | Desc

datatype page_direction = Forward | Backward

record where_options =
  wo_column :: string
  wo_idColumn :: "string option"
  wo_order :: "sort_order option"
  wo_direction :: "page_direction option"
  wo_offset :: "nat option"

definition buildCursorWhere :: "cursor_payload \<Rightarrow> where_options \<Rightarrow> row_clause \<times> json list" where
  "buildCursorWhere cursor options =
     (let idColumn = (case wo_idColumn options of Some c \<Rightarrow> c | None \<Rightarrow> ''id'');
          order = (case wo_order options of Some d \<Rightarrow> d | None \<Rightarrow> Desc);
          direction = (case wo_direction options of Some d \<Rightarrow> d | None \<Rightarrow> Forward);
          cursorParam = (case wo_offset options of Some n \<Rightarrow> n | None \<Rightarrow> 1);
          operator = (if (order = Desc) = (direction = Forward) then Below else Above)
      in (\<lparr>rc_columns = [wo_column options, idColumn], rc_op = operator, rc_places = [cursorParam, cursorParam + 1]\<rparr>,
          [JStr (cur_t cursor), cur_id cursor]))"

subsection \<open>The response of a page\<close>

record 'a paginated_result =
  pr_data :: "'a list"
  pr_limit :: nat
  pr_next :: "string option"
  pr_prev :: "string option"
  pr_more :: bool

definition cursor_of ::
  "('a \<Rightarrow> sort_value) \<Rightarrow> ('a \<Rightarrow> string) \<Rightarrow> 'a \<Rightarrow> pagination_error + string option" where
  "cursor_of getSortValue getId x = (case createCursor (getSortValue x) (getId x) of Inl e \<Rightarrow> Inl e | Inr c \<Rightarrow> Inr (Some c))"

definition createPaginatedResponse ::
  "'a list \<Rightarrow> nat \<Rightarrow> ('a \<Rightarrow> sort_value) \<Rightarrow> ('a \<Rightarrow> string) \<Rightarrow> pagination_error + 'a paginated_result" where
  "createPaginatedResponse rows limit getSortValue getId =
     (let hasMore = (limit < length rows); items = take limit rows in
      if items = [] then Inr \<lparr>pr_data = [], pr_limit = limit, pr_next = None, pr_prev = None, pr_more = hasMore\<rparr>
      else case cursor_of getSortValue getId (hd items) of Inl e \<Rightarrow> Inl e
      | Inr prev \<Rightarrow>
          (case (if hasMore then cursor_of getSortValue getId (last items) else Inr None) of Inl e \<Rightarrow> Inl e
           | Inr nxt \<Rightarrow>
               Inr \<lparr>pr_data = items, pr_limit = limit, pr_next = nxt, pr_prev = prev, pr_more = hasMore\<rparr>))"

subsection \<open>Chunks and client loops\<close>

fun chunks_from :: "nat \<Rightarrow> 'a list \<Rightarrow> 'a list list" where
  "chunks_from n xs = (if xs = [] \<or> n = 0 then [] else take n xs # chunks_from n (drop n xs))"

declare chunks_from.simps [simp del]

definition chunkArray :: "'a list \<Rightarrow> js_num \<Rightarrow> pagination_error + 'a list list" where
  "chunkArray items chunkSize =
     (case chunkSize of
        Fin q \<Rightarrow> if q = of_int \<lfloor>q\<rfloor> \<and> 0 < q then Inr (chunks_from (nat \<lfloor>q\<rfloor>) items) else Inl BadChunkSize
      | _ \<Rightarrow> Inl BadChunkSize)"

text \<open>
  A page source answers the call number \<open>n\<close> with a cursor by rows and the next cursor, or throws. The
  generator \<open>paginateAll\<close> yields items, makes calls and ends with or without an error.
\<close>

type_synonym ('e, 'a) page_source = "nat \<Rightarrow> string option \<Rightarrow> 'e + ('a list \<times> string option)"

datatype 'e page_fault = Page_error pagination_error | Source_error 'e

record ('e, 'a) generated =
  g_items :: "'a list"
  g_calls :: nat
  g_fault :: "'e page_fault option"

function paginate_loop ::
  "('e, 'a) page_source \<Rightarrow> nat \<Rightarrow> string option \<Rightarrow> nat \<Rightarrow> nat \<Rightarrow> ('e, 'a) generated" where
  "paginate_loop fetchPage maxPages cursor fetched pages =
     (if maxPages \<le> pages then \<lparr>g_items = [], g_calls = 0, g_fault = Some (Page_error (MaxPages maxPages))\<rparr>
      else case fetchPage pages cursor of
        Inl e \<Rightarrow> \<lparr>g_items = [], g_calls = 1, g_fault = Some (Source_error e)\<rparr>
      | Inr (rows, nxt) \<Rightarrow>
          if truthy_string nxt \<and> 0 < fetched + length rows
          then (let rest = paginate_loop fetchPage maxPages nxt (fetched + length rows) (Suc pages)
                in rest\<lparr>g_items := rows @ g_items rest, g_calls := Suc (g_calls rest)\<rparr>)
          else \<lparr>g_items = rows, g_calls = 1, g_fault = None\<rparr>)"
  by pat_completeness auto
termination by (relation "measure (\<lambda>(f, m, c, t, p). m - p)") auto

declare paginate_loop.simps [simp del]

definition paginateAll :: "('e, 'a) page_source \<Rightarrow> nat option \<Rightarrow> ('e, 'a) generated" where
  "paginateAll fetchPage maxPages =
     paginate_loop fetchPage (case maxPages of Some n \<Rightarrow> n | None \<Rightarrow> 10000) None 0 0"

text \<open>The result of \<open>chunkResults\<close> and the arguments of its calls of \<open>onChunk\<close>.\<close>

definition chunkResults ::
  "('e, 'a) page_source \<Rightarrow> nat option \<Rightarrow> 'e page_fault + 'a list \<times> 'a list list" where
  "chunkResults fetchPage maxPages =
     (let g = paginateAll fetchPage maxPages
      in case g_fault g of Some e \<Rightarrow> Inl e | None \<Rightarrow> Inr (g_items g, [g_items g]))"

subsection \<open>Cursors: facts\<close>

lemma char_of_code: "n < 256 \<Longrightarrow> char_of n = c \<longleftrightarrow> n = (of_char c :: nat)"
  by auto

lemma url_letters: "n < 64 \<Longrightarrow> base64_value (url_char (base64_char n)) = Some n \<and> \<not> unsafe_char (url_char (base64_char n))"
proof -
  assume "n < 64"
  then consider "n < 26" | "26 \<le> n" "n < 52" | "52 \<le> n" "n < 62" | "n = 62" | "n = 63" by linarith
  then show ?thesis by cases (auto simp: base64_value_def base64_char_def url_char_def unsafe_char_def Let_def char_of_code)
qed

lemma strip_padding_append:
  "(\<And>c. c \<in> set s \<Longrightarrow> c \<noteq> CHR ''='') \<Longrightarrow> strip_padding (s @ replicate k (CHR ''='')) = s"
  by (cases s rule: rev_cases) (auto simp: strip_padding_def dropWhile_append1 dropWhile_append2 dropWhile_append)

definition cursor_letters :: "string \<Rightarrow> string" where
  "cursor_letters text = map (url_char \<circ> base64_char) (sextets (to_utf8 text))"

lemma cursor_letters_safe: "c \<in> set (cursor_letters text) \<Longrightarrow> \<not> unsafe_char c"
  using url_letters sextets_bound by (auto simp: cursor_letters_def)

text \<open>The guard of \<open>encodeCursor\<close> never throws.\<close>

lemma encodeCursor_letters: "encodeCursor p = Inr (cursor_letters (stringify (payload_json p)))"
proof -
  let ?s = "cursor_letters (stringify (payload_json p))"
  let ?bs = "to_utf8 (stringify (payload_json p))"
  have pad: "map url_char (to_base64 ?bs) = ?s @ replicate (pad_length (length ?bs)) (CHR ''='')"
    by (simp add: to_base64_def cursor_letters_def) (simp add: url_char_def)
  have "strip_padding (map url_char (to_base64 ?bs)) = ?s"
    unfolding pad by (rule strip_padding_append) (auto simp: unsafe_char_def dest: cursor_letters_safe)
  moreover have "validateUrlSafeCursor ?s = Inr ()" using cursor_letters_safe by (auto simp: validateUrlSafeCursor_def)
  ultimately show ?thesis by (simp add: encodeCursor_def)
qed

lemma decode_letters: "of_utf8 (from_base64 (base64_text (cursor_letters text))) = text"
proof -
  let ?ns = "sextets (to_utf8 text)"
  have plain: "base64_value (plain_char (url_char (base64_char n))) = Some n" if "n \<in> set ?ns" for n
  proof -
    from that have "n < 64" by (rule sextets_bound)
    then show ?thesis using base64_value_char [of n] by (auto simp: plain_char_def url_char_def base64_value_def)
  qed
  let ?g = "\<lambda>n. plain_char (url_char (base64_char n))" and ?m = "length ?ns mod 4"
  have "base64_text (cursor_letters text) = map ?g ?ns @ replicate (if ?m = 0 then 0 else 4 - ?m) (CHR ''='')"
    by (simp add: base64_text_def cursor_letters_def Let_def comp_def)
  then have "from_base64 (base64_text (cursor_letters text)) = octets ?ns"
    using from_base64_letters [of ?ns ?g] plain by simp
  then show ?thesis by (simp add: octets_sextets of_utf8_to_utf8)
qed

lemma decode_unpadded: "of_utf8 (from_base64 (map plain_char (cursor_letters text))) = text"
proof -
  have "takeWhile (\<lambda>c. c \<noteq> CHR ''='') (map plain_char s @ replicate k (CHR ''='')) = takeWhile (\<lambda>c. c \<noteq> CHR ''='') (map plain_char s)" for s k
    by (induction s) (simp_all add: takeWhile_replicate)
  then have "from_base64 (base64_text (cursor_letters text)) = from_base64 (map plain_char (cursor_letters text))"
    by (auto simp: base64_text_def from_base64_def Let_def)
  with decode_letters [of "text"] show ?thesis by simp
qed

lemma cursor_letters_not_Nil: "text \<noteq> [] \<Longrightarrow> cursor_letters text \<noteq> []"
  using decode_letters [of "text"] by (auto simp: base64_text_def from_base64_def List.map_filter_simps)

lemma one_is_numeral: "is_numeral ''1''" "numeral_value ''1'' = Fin 1"
proof -
  show "is_numeral ''1''" by (simp add: numeral_prefix_def whole_part_def fraction_part_def power_part_def leading_def is_digit_def)
  have "of_exact (of_int 1) = Fin (of_int 1)" by (rule of_exact_int) simp
  then show "numeral_value ''1'' = Fin 1"
    by (simp add: numeral_value_def parse_float_def is_space_def is_digit_def startsWith_def digits_value_def exponent_part_def)
qed

lemma payload_round_trip:
  assumes "wf_json (cur_id p)" and "parsed_truthy (cur_id p)"
  shows "Option.bind (json_parse (stringify (payload_json p))) current_payload = Some p"
proof -
  have one: "is_numeral ''1''" "numeral_value ''1'' = Fin 1" using one_is_numeral by simp_all
  have "wf_json (payload_json p)" using assms(1) one(1) by (simp add: payload_json_def)
  then have "json_parse (stringify (payload_json p)) = Some (payload_json p)" by (rule json_parse_stringify)
  moreover have "current_payload (payload_json p) = Some p" using assms(2) one(2) by (simp add: payload_json_def current_payload_def)
  ultimately show ?thesis by simp
qed

lemma decode_encoded:
  assumes "encodeCursor p = Inr c" and "wf_json (cur_id p)" and "parsed_truthy (cur_id p)"
  shows "decodeCursor new_date c = Inr p"
proof -
  have c: "c = cursor_letters (stringify (payload_json p))" using assms(1) by (simp add: encodeCursor_letters)
  have "stringify (payload_json p) \<noteq> []" by (simp add: payload_json_def)
  with payload_round_trip [OF assms(2,3)] show ?thesis
    by (simp add: decodeCursor_def c decode_letters cursor_letters_not_Nil Let_def)
qed

text \<open>An issued cursor: what a page hands out for an item.\<close>

definition issued :: "string \<Rightarrow> string \<Rightarrow> string" where
  "issued t i = cursor_letters (stringify (payload_json \<lparr>cur_t = t, cur_id = JStr i\<rparr>))"

lemma createCursor_issued:
  "createCursor (Sort_text t) i = Inr (issued t i)"
  "createCursor (Sort_date (Some ms)) i = Inr (issued (iso_string ms) i)"
  by (simp_all add: createCursor_def encodeCursor_letters issued_def)

lemma decode_issued: "i \<noteq> [] \<Longrightarrow> decodeCursor new_date (issued t i) = Inr \<lparr>cur_t = t, cur_id = JStr i\<rparr>"
  by (rule decode_encoded) (simp_all add: encodeCursor_letters issued_def parsed_truthy_def)

lemma issued_not_Nil [simp]: "issued t i \<noteq> []"
  by (simp add: issued_def cursor_letters_not_Nil payload_json_def)

subsection \<open>Query parameters: facts\<close>

lemma math_clamp:
  assumes "lo \<le> hi" shows "\<exists>r. math_max (Fin lo) (math_min (Fin hi) (Fin q)) = Fin r \<and> lo \<le> r \<and> r \<le> hi"
  using assms by (auto simp: math_max_def math_min_def)

text \<open>The limit is clamped and the offset is not negative, whatever texts or values the query holds.\<close>

lemma page_params_bounded:
  assumes "parsePaginationParams query options = Inr ps"
    and "maxLimit options = Some (Fin m)" "defaultLimit options = Some (Fin d)" "1 \<le> d" "d \<le> m"
  shows "\<exists>l k. pg_limit ps = Fin l \<and> 1 \<le> l \<and> l \<le> m \<and> pg_offset ps = Fin k \<and> 0 \<le> k"
proof -
  have finite: "isFinite v \<Longrightarrow> \<exists>q. v = Fin q" for v by (cases v) auto
  have offset: "\<exists>r. math_max (Fin 0) (Fin q) = Fin r \<and> 0 \<le> r" for q by (auto simp: math_max_def)
  show ?thesis
    using assms math_clamp [of 1 m] offset
    by (auto simp: parsePaginationParams_def Let_def split: if_splits dest!: finite)
qed

lemma page_params_exclusive:
  "query_text query ''after'' \<noteq> None \<Longrightarrow> query_text query ''before'' \<noteq> None \<Longrightarrow>
   parseRequestPagination new_date query options = Bad_request BeforeAndAfter"
  by (simp add: parseRequestPagination_def parsePaginationParams_def Let_def)

text \<open>The alias escapes the check: \<open>cursor\<close> and \<open>before\<close> together set both boundaries.\<close>

lemma before_with_cursor:
  assumes "query_text query ''after'' = None" "query_text query ''before'' = Some b" "query_text query ''cursor'' = Some c"
  obtains ps where "parsePaginationParams query options = Inr ps" "pg_after ps = Some c" "pg_before ps = Some b"
  using assms by (simp add: parsePaginationParams_def Let_def)

subsection \<open>Chunks: facts\<close>

lemma concat_chunks: "0 < n \<Longrightarrow> concat (chunks_from n xs) = xs"
proof (induction n xs rule: chunks_from.induct)
  case (1 n xs)
  then show ?case by (cases "xs = []") (simp_all add: chunks_from.simps [of n xs] chunks_from.simps [of n "[]"])
qed

lemma chunks_sizes:
  "ys \<in> set (chunks_from n xs) \<Longrightarrow> 0 < length ys \<and> length ys \<le> n"
proof (induction n xs rule: chunks_from.induct)
  case (1 n xs)
  then show ?case by (cases "xs = [] \<or> n = 0") (auto simp: chunks_from.simps [of n xs])
qed

lemma chunkArray_ok:
  "0 < n \<Longrightarrow> \<exists>cs. chunkArray items (Fin (of_nat n)) = Inr cs \<and> concat cs = items \<and> (\<forall>c \<in> set cs. 0 < length c \<and> length c \<le> n)"
  by (simp add: chunkArray_def concat_chunks) (use chunks_sizes in blast)

subsection \<open>Client loops: facts\<close>

lemma paginate_loop_calls: "g_calls (paginate_loop f m c k p) \<le> m - p"
proof (induction f m c k p rule: paginate_loop.induct)
  case (1 f m c k p)
  then show ?case
    by (subst paginate_loop.simps) (fastforce simp: Let_def split: sum.split prod.split)
qed

lemma paginate_loop_more:
  assumes "p < m" "f p c = Inr (rows, nxt)" "truthy_string nxt" "rows \<noteq> []"
  shows "paginate_loop f m c k p =
    (paginate_loop f m nxt (k + length rows) (Suc p))
      \<lparr>g_items := rows @ g_items (paginate_loop f m nxt (k + length rows) (Suc p)),
       g_calls := Suc (g_calls (paginate_loop f m nxt (k + length rows) (Suc p)))\<rparr>"
  using assms by (subst paginate_loop.simps) (simp add: Let_def)

lemma paginate_loop_end:
  "p < m \<Longrightarrow> f p c = Inr (rows, None) \<Longrightarrow> paginate_loop f m c k p = \<lparr>g_items = rows, g_calls = 1, g_fault = None\<rparr>"
  by (subst paginate_loop.simps) simp

lemma paginate_loop_throws:
  "p < m \<Longrightarrow> f p c = Inl e \<Longrightarrow> paginate_loop f m c k p = \<lparr>g_items = [], g_calls = 1, g_fault = Some (Source_error e)\<rparr>"
  by (subst paginate_loop.simps) simp

text \<open>
  The contract of a source of pages: behind every cursor there is a list of the remaining items; a page
  is its beginning, and the next cursor, if there is more, stands for the rest.
\<close>

locale keyset_pages =
  fixes fetch :: "'t \<Rightarrow> nat \<Rightarrow> string option \<Rightarrow> 'e + ('a list \<times> string option)"
    and remaining :: "'t \<Rightarrow> nat \<Rightarrow> string option \<Rightarrow> 'a list \<Rightarrow> bool"
    and listing :: "'t \<Rightarrow> 'a list"
    and sound :: "'t \<Rightarrow> nat \<Rightarrow> bool"
  assumes page_size: "sound T n \<Longrightarrow> 0 < n"
    and first_page: "sound T n \<Longrightarrow> remaining T n None (listing T)"
    and next_page: "sound T n \<Longrightarrow> remaining T n c L \<Longrightarrow> \<exists>nxt. fetch T n c = Inr (take n L, nxt) \<and>
      (if n < length L then truthy_string nxt \<and> remaining T n nxt (drop n L) else nxt = None)"
begin

lemma loop_items:
  assumes "sound T n" "remaining T n c L" "p < m"
  shows "g_items (paginate_loop (\<lambda>_. fetch T n) m c k p) = take ((m - p) * n) L \<and>
    g_fault (paginate_loop (\<lambda>_. fetch T n) m c k p) =
      (if length L \<le> (m - p) * n then None else Some (Page_error (MaxPages m)))"
  using assms
proof (induction "m - p" arbitrary: c L k p)
  case (Suc j)
  note n = page_size [OF Suc.prems(1)]
  have step: "(m - p) * n = n + (m - Suc p) * n" using Suc by (simp add: Suc_diff_Suc flip: mult_Suc)
  show ?case
  proof (cases "n < length L")
    case True
    with next_page [OF Suc.prems(1,2)] obtain nxt where fetch: "fetch T n c = Inr (take n L, nxt)"
      and nxt: "truthy_string nxt" "remaining T n nxt (drop n L)" by auto
    have some: "take n L \<noteq> []" using True n by auto
    let ?rest = "paginate_loop (\<lambda>_. fetch T n) m nxt (k + length (take n L)) (Suc p)"
    have loop: "paginate_loop (\<lambda>_. fetch T n) m c k p =
        ?rest\<lparr>g_items := take n L @ g_items ?rest, g_calls := Suc (g_calls ?rest)\<rparr>"
      using Suc.prems(3) fetch nxt(1) some by (intro paginate_loop_more [where f = "\<lambda>_. fetch T n"])
    show ?thesis
    proof (cases "Suc p < m")
      case inside: True
      have "j = m - Suc p" using Suc.hyps(2) by simp
      from Suc.hyps(1) [OF this Suc.prems(1) nxt(2) inside, of "k + length (take n L)"]
      show ?thesis unfolding loop step using True by (simp add: take_add less_diff_conv2 le_diff_conv add.commute)
    next
      case False
      then have "Suc p = m" using Suc.prems(3) by simp
      then have "?rest = \<lparr>g_items = [], g_calls = 0, g_fault = Some (Page_error (MaxPages m))\<rparr>"
        by (subst paginate_loop.simps) simp
      then show ?thesis unfolding loop step using True \<open>Suc p = m\<close> by simp
    qed
  next
    case False
    with next_page [OF Suc.prems(1,2)] have "fetch T n c = Inr (take n L, None)" by auto
    with Suc.prems(3) have "paginate_loop (\<lambda>_. fetch T n) m c k p = \<lparr>g_items = take n L, g_calls = 1, g_fault = None\<rparr>"
      by (intro paginate_loop_end)
    with False show ?thesis unfolding step by simp
  qed
qed simp

text \<open>Every item once and in order, when the cap allows; otherwise an error and nothing delivered.\<close>

lemma all_pages:
  assumes "sound T n" "0 < m" "length (listing T) \<le> m * n"
  shows "chunkResults (\<lambda>_. fetch T n) (Some m) = Inr (listing T, [listing T])"
  using loop_items [OF assms(1) first_page [OF assms(1)] assms(2)] assms(3)
  by (simp add: chunkResults_def paginateAll_def)

lemma too_many_pages:
  assumes "sound T n" "0 < m" "m * n < length (listing T)"
  shows "chunkResults (\<lambda>_. fetch T n) (Some m) = Inl (Page_error (MaxPages m))"
  using loop_items [OF assms(1) first_page [OF assms(1)] assms(2)] assms(3)
  by (simp add: chunkResults_def paginateAll_def)

end

text \<open>
  The pages of a list whose cursors are made of the last row of a page: it is enough to say what the
  first page is and what follows a row. Such a source meets the contract above.
\<close>

definition page_from :: "('a \<Rightarrow> string) \<Rightarrow> nat \<Rightarrow> 'a list \<Rightarrow> 'a list \<times> string option" where
  "page_from cursor n L = (take n L, if n < length L then Some (cursor (last (take n L))) else None)"

lemma last_of_page: "0 < n \<Longrightarrow> L \<noteq> [] \<Longrightarrow> last (take n L) \<in> set L"
  by (metis in_set_takeD last_in_set take_eq_Nil2 not_gr_zero)

lemma split_page: "0 < n \<Longrightarrow> n < length L \<Longrightarrow> \<exists>pre. L = pre @ last (take n L) # drop n L"
proof -
  assume n: "0 < n" "n < length L"
  then have "take n L = butlast (take n L) @ [last (take n L)]" by (subst append_butlast_last_id) auto
  then have "L = butlast (take n L) @ last (take n L) # drop n L"
    by (metis append.assoc append_Cons append_Nil append_take_drop_id)
  then show ?thesis by blast
qed

locale boundary_pages =
  fixes fetch :: "'t \<Rightarrow> nat \<Rightarrow> string option \<Rightarrow> 'e + ('a list \<times> string option)"
    and listing :: "'t \<Rightarrow> 'a list"
    and cursor :: "'t \<Rightarrow> 'a \<Rightarrow> string"
    and sound :: "'t \<Rightarrow> nat \<Rightarrow> bool"
  assumes positive: "sound T n \<Longrightarrow> 0 < n"
    and cursor_text: "cursor T x \<noteq> []"
    and from_start: "sound T n \<Longrightarrow> fetch T n None = Inr (page_from (cursor T) n (listing T))"
    and from_row: "sound T n \<Longrightarrow> listing T = pre @ b # L \<Longrightarrow>
      fetch T n (Some (cursor T b)) = Inr (page_from (cursor T) n L)"
begin

sublocale keyset_pages fetch
  "\<lambda>T n c L. c = None \<and> L = listing T \<or> (\<exists>pre b. listing T = pre @ b # L \<and> c = Some (cursor T b))" listing sound
proof
  fix T n c and L :: "'a list"
  assume s: "sound T n" and r: "c = None \<and> L = listing T \<or> (\<exists>pre b. listing T = pre @ b # L \<and> c = Some (cursor T b))"
  from r from_start [OF s] from_row [OF s] have fetch: "fetch T n c = Inr (page_from (cursor T) n L)" by auto
  have "\<exists>pre. listing T = pre @ last (take n L) # drop n L" if long: "n < length L"
  proof -
    obtain pre where L: "L = pre @ last (take n L) # drop n L" using split_page [OF positive [OF s] long] by blast
    from r show ?thesis
    proof (elim disjE conjE exE)
      assume "L = listing T"
      with L show ?thesis by metis
    next
      fix pre' b assume "listing T = pre' @ b # L"
      with L have "listing T = (pre' @ b # pre) @ last (take n L) # drop n L" by (metis append.assoc append_Cons)
      then show ?thesis by blast
    qed
  qed
  with fetch cursor_text show "\<exists>nxt. fetch T n c = Inr (take n L, nxt) \<and>
      (if n < length L then truthy_string nxt \<and>
         (nxt = None \<and> drop n L = listing T \<or> (\<exists>pre b. listing T = pre @ b # drop n L \<and> nxt = Some (cursor T b)))
       else nxt = None)"
    by (auto simp: page_from_def)
qed (auto dest: positive)

end

text \<open>The response made of \<open>limit + 1\<close> rows of a list is its page.\<close>

lemma response_page:
  assumes "0 < n" and cursors: "\<And>x. x \<in> set L \<Longrightarrow> createCursor (sv x) (idf x) = Inr (cur x)"
  shows "createPaginatedResponse (take (Suc n) L) n sv idf =
    Inr \<lparr>pr_data = take n L, pr_limit = n, pr_next = snd (page_from cur n L),
         pr_prev = (if L = [] then None else Some (cur (hd L))), pr_more = (n < length L)\<rparr>"
proof (cases "L = []")
  case True
  then show ?thesis by (simp add: createPaginatedResponse_def page_from_def)
next
  case False
  with assms(1) have "hd L \<in> set L" "last (take n L) \<in> set L" "take n L \<noteq> []" "hd (take n L) = hd L"
    by (auto simp: last_of_page)
  with False show ?thesis
    by (auto simp: createPaginatedResponse_def page_from_def cursor_of_def cursors Let_def min_def not_less)
qed

subsection \<open>Properties\<close>

text \<open>
  C32. What the server reads from a cursor it issued is the sort value and the identifier it put in, and the
  cursor consists of characters that need no escaping in a URL. This holds for every identifier that is not
  empty and every sort value, also an empty one, of characters below U+0100 (quotes, backslashes, control
  characters and separators included); the strings of the model hold no others.
\<close>

theorem cursor_round_trip:
  assumes "i \<noteq> []" and "v = Sort_text t \<or> (\<exists>ms. v = Sort_date (Some ms) \<and> t = iso_string ms)"
  shows "\<exists>c. createCursor v i = Inr c \<and> (\<forall>ch \<in> set c. base64_value ch \<noteq> None \<and> ch \<noteq> CHR ''+'' \<and> ch \<noteq> CHR ''/'') \<and>
    decodeCursor new_date c = Inr \<lparr>cur_t = t, cur_id = JStr i\<rparr>"
proof (intro exI conjI ballI)
  show "createCursor v i = Inr (issued t i)" using assms(2) by (auto simp: createCursor_issued)
  show "decodeCursor new_date (issued t i) = Inr \<lparr>cur_t = t, cur_id = JStr i\<rparr>" by (rule decode_issued [OF assms(1)])
  fix ch
  assume "ch \<in> set (issued t i)"
  then show "base64_value ch \<noteq> None" "ch \<noteq> CHR ''+''" "ch \<noteq> CHR ''/''"
    using url_letters cursor_letters_safe by (auto simp: issued_def cursor_letters_def unsafe_char_def dest!: sextets_bound)
qed

theorem cursor_round_trip_witness:
  "\<exists>c. createCursor (Sort_date (Some 1700000000000)) ''a|b+/='' = Inr c \<and>
    (\<forall>ch \<in> set c. base64_value ch \<noteq> None \<and> ch \<noteq> CHR ''+'' \<and> ch \<noteq> CHR ''/'') \<and>
    decodeCursor (\<lambda>s. None) c = Inr \<lparr>cur_t = iso_string 1700000000000, cur_id = JStr ''a|b+/=''\<rparr>"
  by (rule cursor_round_trip) auto

lemma paginate_loop_capped:
  "p \<le> m \<Longrightarrow> g_fault (paginate_loop f m c k p) = Some (Page_error e) \<Longrightarrow>
   e = MaxPages m \<and> g_calls (paginate_loop f m c k p) = m - p"
proof (induction f m c k p rule: paginate_loop.induct)
  case (1 f m c k p)
  note step = paginate_loop.simps [of f m c k p]
  show ?case
  proof (cases "m \<le> p")
    case True
    then have "paginate_loop f m c k p = \<lparr>g_items = [], g_calls = 0, g_fault = Some (Page_error (MaxPages m))\<rparr>" by (simp add: step)
    with True "1.prems"(2) show ?thesis by auto
  next
    case below: False
    then obtain rows nxt where page: "f p c = Inr (rows, nxt)"
      using "1.prems"(2) by (cases "f p c") (auto simp: step)
    have more: "truthy_string nxt \<and> 0 < k + length rows"
    proof (rule ccontr)
      assume "\<not> (truthy_string nxt \<and> 0 < k + length rows)"
      with "1.prems"(2) below show False by (simp add: step page split: if_splits)
    qed
    let ?rest = "paginate_loop f m nxt (k + length rows) (Suc p)"
    have "g_fault ?rest = Some (Page_error e)" "g_calls (paginate_loop f m c k p) = Suc (g_calls ?rest)"
      using "1.prems"(2) below more by (simp_all add: step page Let_def)
    with "1.IH" [OF below page refl more] below show ?thesis by auto
  qed
qed

text \<open>
  Reading page by page ends, whatever the source answers: at most \<open>maxPages\<close> pages are asked for. When
  the error of the cap is thrown, exactly that many pages were read, and \<open>chunkResults\<close> delivers none of
  their rows.
\<close>

theorem pagination_terminates:
  "g_calls (paginateAll f (Some m)) \<le> m \<and>
   (g_fault (paginateAll f (Some m)) = Some (Page_error e) \<longrightarrow>
      e = MaxPages m \<and> g_calls (paginateAll f (Some m)) = m \<and> chunkResults f (Some m) = Inl (Page_error (MaxPages m)))"
  using paginate_loop_calls [of f m None 0 0] paginate_loop_capped [of 0 m f None 0 e]
  by (auto simp: paginateAll_def chunkResults_def)

theorem pagination_terminates_witness:
  "chunkResults (\<lambda>n c. Inr ([n], Some ''c'') :: unit + nat list \<times> string option) (Some 2) = Inl (Page_error (MaxPages 2))"
proof -
  let ?f = "\<lambda>n c. Inr ([n], Some ''c'') :: unit + nat list \<times> string option"
  have "g_fault (paginateAll ?f (Some 2)) = Some (Page_error (MaxPages 2))"
    by (simp add: paginateAll_def paginate_loop.simps Let_def)
  with pagination_terminates [of ?f 2 "MaxPages 2"] show ?thesis by simp
qed

end
