(* ===== verification/Cursor_Pages.thy ===== *)
theory Cursor_Pages
  imports Pagination Pii_Encryption "HOL-Library.List_Lexorder"
begin

text \<open>
  The lists that are read page by page: contacts (\<open>src/src/models/contact.ts\<close> behind
  \<open>src/src/routes/contacts.ts\<close>), dispute notes (\<open>src/src/models/dispute.ts\<close>), invoices
  (\<open>src/src/models/invoice.ts\<close>), transactions (\<open>src/src/models/transaction.ts\<close>,
  \<open>src/src/utils/transactionCursor.ts\<close> and the history handler of
  \<open>src/src/controllers/transactionController.ts\<close>) and alerts (\<open>src/src/models/amlAlert.ts\<close>).

  A table is a list of rows; \<open>created\<close> counts microseconds, as a timestamp column does, and identifiers
  are numbers, the values of a uuid column. A statement is its conditions, placeholders, order and
  parameters. What node-postgres and PostgreSQL make of dates, identifiers and patterns are parameters in
  the record \<open>list_db\<close>. The other conditions of a list of transactions or alerts are a predicate with a
  number of parameters. Only what a page decides about is kept of a row.
\<close>

subsection \<open>Statements\<close>

record 'b listed =
  l_id :: nat
  l_owner :: string
  l_created :: int
  l_body :: 'b

text \<open>
  \<open>db_date\<close> and \<open>db_uuid_text\<close>: the driver's value for a column; \<open>db_timestamp\<close>, \<open>db_uuid\<close> and
  \<open>db_sent_date\<close>: the column value that the server reads from a parameter; \<open>db_ilike\<close>: pattern matching.
\<close>

record list_db =
  db_date :: "int \<Rightarrow> js_date"
  db_uuid_text :: "nat \<Rightarrow> string"
  db_timestamp :: "string \<Rightarrow> int option"
  db_uuid :: "string \<Rightarrow> nat option"
  db_sent_date :: "int \<Rightarrow> int option"
  db_ilike :: "string \<Rightarrow> string \<Rightarrow> bool"

datatype param = P_value json | P_date js_date | P_int int

fun read_timestamp :: "list_db \<Rightarrow> param \<Rightarrow> int option" where
  "read_timestamp db (P_value (JStr s)) = db_timestamp db s"
| "read_timestamp db (P_date (Some ms)) = db_sent_date db ms"
| "read_timestamp db p = None"

fun read_uuid :: "list_db \<Rightarrow> param \<Rightarrow> int option" where
  "read_uuid db (P_value (JStr s)) = map_option int (db_uuid db s)"
| "read_uuid db p = None"

fun read_int :: "param \<Rightarrow> int option" where
  "read_int (P_int i) = Some i"
| "read_int p = None"

record 'b select =
  se_where :: "'b listed \<Rightarrow> bool"
  se_places :: "nat list"
  se_boundary :: "row_clause option"
  se_column :: "string \<Rightarrow> (param \<Rightarrow> int option) \<times> ('b listed \<Rightarrow> int)"
  se_key :: "'b listed \<Rightarrow> int list"
  se_order :: sort_order
  se_limit :: nat
  se_params :: "param list"

datatype sql_error = PlaceholderMismatch | InvalidText | BadLimit

definition in_order :: "sort_order \<Rightarrow> ('a \<Rightarrow> 'k::linorder) \<Rightarrow> 'a list \<Rightarrow> 'a list" where
  "in_order d key rows = (case d of Asc \<Rightarrow> sort_key key rows | Desc \<Rightarrow> rev (sort_key key rows))"

definition beyond :: "row_op \<Rightarrow> 'k::linorder \<Rightarrow> 'k \<Rightarrow> bool" where
  "beyond p k b = (case p of Below \<Rightarrow> k < b | Above \<Rightarrow> b < k)"

definition placeholders :: "'b select \<Rightarrow> nat set" where
  "placeholders s =
     set (se_places s) \<union> (case se_boundary s of None \<Rightarrow> {} | Some rc \<Rightarrow> set (rc_places rc)) \<union> {se_limit s}"

text \<open>
  The row comparison of a boundary: the columns it names, in the row and as the server reads their parameters.
\<close>

definition boundary_test :: "'b select \<Rightarrow> ('b listed \<Rightarrow> bool) option" where
  "boundary_test s =
     (case se_boundary s of
        None \<Rightarrow> Some (\<lambda>r. True)
      | Some rc \<Rightarrow>
          map_option (\<lambda>b r. beyond (rc_op rc) (map (\<lambda>c. snd (se_column s c) r) (rc_columns rc)) b)
            (those (map2 (\<lambda>c n. fst (se_column s c) (se_params s ! (n - 1))) (rc_columns rc) (rc_places rc))))"

text \<open>
  A statement whose placeholders are not exactly those of its parameters is refused, and so is a
  parameter that the server cannot read as the type of its column.
\<close>

definition run_select :: "'b select \<Rightarrow> 'b listed list \<Rightarrow> sql_error + 'b listed list" where
  "run_select s rows =
     (if placeholders s \<noteq> {1..length (se_params s)} then Inl PlaceholderMismatch
      else case boundary_test s of
        None \<Rightarrow> Inl InvalidText
      | Some inside \<Rightarrow>
          (case read_int (se_params s ! (se_limit s - 1)) of
             None \<Rightarrow> Inl InvalidText
           | Some n \<Rightarrow>
               if n < 0 then Inl BadLimit
               else Inr (take (nat n) (in_order (se_order s) (se_key s) (filter (\<lambda>r. se_where s r \<and> inside r) rows)))))"

datatype list_error =
  Sql sql_error
| Refused pagination_error
| TransactionCursorError
| BothCursors
| Encryption enc_error

definition created_key :: "'b listed \<Rightarrow> int list" where
  "created_key r = [l_created r, int (l_id r)]"

definition created_column :: "list_db \<Rightarrow> string \<Rightarrow> (param \<Rightarrow> int option) \<times> ('b listed \<Rightarrow> int)" where
  "created_column db c =
     (if c = ''created_at'' then (read_timestamp db, l_created)
      else if c = ''id'' then (read_uuid db, \<lambda>r. int (l_id r)) else (\<lambda>_. None, \<lambda>_. 0))"

definition row_sort_value :: "list_db \<Rightarrow> 'b listed \<Rightarrow> sort_value" where
  "row_sort_value db r = Sort_date (db_date db (l_created r))"

definition row_id :: "list_db \<Rightarrow> 'b listed \<Rightarrow> string" where
  "row_id db r = db_uuid_text db (l_id r)"

definition page_size_of :: "int option \<Rightarrow> nat" where
  "page_size_of limit = nat (min (max (case limit of Some n \<Rightarrow> n | None \<Rightarrow> 50) 1) 100)"

subsection \<open>Contacts\<close>

record contact_body =
  destinationType :: string
  destinationValue :: string
  nickname :: string

definition search_pattern :: "string option \<Rightarrow> string option" where
  "search_pattern search =
     (let term = (case search of Some s \<Rightarrow> trim s | None \<Rightarrow> []) in if term = [] then None else Some (''%'' @ term @ ''%''))"

definition contact_cond :: "list_db \<Rightarrow> string \<Rightarrow> string option \<Rightarrow> contact_body listed \<Rightarrow> bool" where
  "contact_cond db userId search r =
     (l_owner r = userId \<and>
      (case search_pattern search of None \<Rightarrow> True
       | Some pat \<Rightarrow> db_ilike db pat (nickname (l_body r)) \<or> db_ilike db pat (destinationValue (l_body r))))"

definition contact_params :: "string \<Rightarrow> string option \<Rightarrow> param list" where
  "contact_params userId search =
     P_value (JStr userId) #
     (case search_pattern search of None \<Rightarrow> [] | Some pat \<Rightarrow> [P_value (JStr pat), P_value (JStr pat)])"

text \<open>The overflow row says whether there is a next page.\<close>

definition contact_page ::
  "list_db \<Rightarrow> nat \<Rightarrow> contact_body listed list \<Rightarrow> list_error + contact_body listed list \<times> string option" where
  "contact_page db n found =
     (let hasMore = (n < length found); contacts = (if hasMore then take n found else found) in
      if hasMore \<and> contacts \<noteq> []
      then (case createCursor (row_sort_value db (last contacts)) (row_id db (last contacts)) of
              Inl e \<Rightarrow> Inl (Refused e)
            | Inr c \<Rightarrow> Inr (contacts, Some c))
      else Inr (contacts, None))"

definition contact_statement ::
  "list_db \<Rightarrow> string \<Rightarrow> nat \<Rightarrow> cursor_payload option \<Rightarrow> string option \<Rightarrow> contact_body select" where
  "contact_statement db userId n cursor search =
     (let params = contact_params userId search;
          boundary = map_option (\<lambda>c. buildCursorWhere c
            \<lparr>wo_column = ''created_at'', wo_idColumn = Some ''id'', wo_order = Some Desc, wo_direction = Some Forward,
             wo_offset = Some (length params + 1)\<rparr>) cursor;
          bound = params @ (case boundary of Some (_, ps) \<Rightarrow> map P_value ps | None \<Rightarrow> [])
      in \<lparr>se_where = contact_cond db userId search, se_places = [1..<length params + 1], se_boundary = map_option fst boundary,
          se_column = created_column db, se_key = created_key, se_order = Desc, se_limit = length bound + 1,
          se_params = bound @ [P_int (int n + 1)]\<rparr>)"

definition listByUser ::
  "list_db \<Rightarrow> contact_body listed list \<Rightarrow> string \<Rightarrow> int option \<Rightarrow> cursor_payload option \<Rightarrow> string option
   \<Rightarrow> list_error + contact_body listed list \<times> string option" where
  "listByUser db rows userId limit cursor search =
     (case run_select (contact_statement db userId (page_size_of limit) cursor search) rows of
        Inl e \<Rightarrow> Inl (Sql e)
      | Inr found \<Rightarrow> contact_page db (page_size_of limit) found)"

definition integer_of :: "js_num \<Rightarrow> int option" where
  "integer_of v = (case v of Fin q \<Rightarrow> Some \<lfloor>q\<rfloor> | _ \<Rightarrow> None)"

definition no_options :: page_options where
  "no_options = \<lparr>maxLimit = None, defaultLimit = None\<rparr>"

text \<open>\<open>GET /contacts\<close>: the middleware and the handler.\<close>

definition contacts_route ::
  "list_db \<Rightarrow> (string \<Rightarrow> js_date) \<Rightarrow> contact_body listed list \<Rightarrow> string \<Rightarrow> (string \<Rightarrow> js_value option)
   \<Rightarrow> list_error + contact_body listed list \<times> string option" where
  "contacts_route db new_date rows userId query =
     (case parseRequestPagination new_date query no_options of
        Bad_request e \<Rightarrow> Inl (Refused e)
      | Continue ps \<Rightarrow>
          listByUser db rows userId (integer_of (pg_limit ps)) (pg_after ps)
            (case query ''search'' of Some (Str s) \<Rightarrow> Some s | _ \<Rightarrow> None))"

subsection \<open>Invoices\<close>

text \<open>The statement of \<open>findByUserId\<close>; the query's cursor becomes the identifier of the boundary.\<close>

definition invoice_statement :: "list_db \<Rightarrow> string \<Rightarrow> string page_params \<Rightarrow> 'b select" where
  "invoice_statement db userId ps =
     (let boundary = (case pg_after ps of
            Some c \<Rightarrow> if c = [] then None else Some (buildCursorWhere \<lparr>cur_t = [], cur_id = JStr c\<rparr>
              \<lparr>wo_column = ''created_at'', wo_idColumn = None, wo_order = Some Desc, wo_direction = Some Forward, wo_offset = None\<rparr>)
          | None \<Rightarrow> None);
          limit = (case pg_limit ps of Fin q \<Rightarrow> \<lfloor>q\<rfloor> + 1 | _ \<Rightarrow> 0)
      in \<lparr>se_where = (\<lambda>r. l_owner r = userId), se_places = [1], se_boundary = map_option fst boundary,
          se_column = created_column db, se_key = (\<lambda>r. [l_created r]), se_order = Desc,
          se_limit = (case boundary of Some (_, ws) \<Rightarrow> 2 + length ws + 1 | None \<Rightarrow> 2),
          se_params = [P_value (JStr userId)] @ (case boundary of Some (_, ws) \<Rightarrow> map P_value ws | None \<Rightarrow> []) @ [P_int limit]\<rparr>)"

definition findByUserId ::
  "list_db \<Rightarrow> 'b listed list \<Rightarrow> string \<Rightarrow> (string \<Rightarrow> js_value option) \<Rightarrow> list_error + 'b listed paginated_result" where
  "findByUserId db rows userId query =
     (case parsePaginationParams query \<lparr>maxLimit = Some (Fin 100), defaultLimit = None\<rparr> of
        Inl e \<Rightarrow> Inl (Refused e)
      | Inr ps \<Rightarrow>
          (case run_select (invoice_statement db userId ps) rows of
             Inl e \<Rightarrow> Inl (Sql e)
           | Inr found \<Rightarrow>
               map_sum Refused id (createPaginatedResponse found (case pg_limit ps of Fin q \<Rightarrow> nat \<lfloor>q\<rfloor> | _ \<Rightarrow> 0)
                 (row_sort_value db) (row_id db))))"

subsection \<open>Dispute notes\<close>

datatype note_sort = By_date | By_relevance

record note_body =
  nb_author :: string
  nb_text :: string

definition note_rank :: "string option \<Rightarrow> note_body listed \<Rightarrow> nat" where
  "note_rank assigned r = (if assigned = Some (nb_author (l_body r)) then 1 else 0)"

definition note_key :: "note_sort \<Rightarrow> string option \<Rightarrow> note_body listed \<Rightarrow> int list" where
  "note_key srt assigned r =
     (case srt of By_date \<Rightarrow> created_key r | By_relevance \<Rightarrow> int (note_rank assigned r) # created_key r)"

text \<open>The columns compared, the parameters of the boundary, or the error for a cursor of the other order.\<close>

definition note_boundary :: "note_sort \<Rightarrow> cursor_payload \<Rightarrow> pagination_error + string list \<times> param list" where
  "note_boundary srt c =
     (case srt of
        By_date \<Rightarrow> Inr ([''n.created_at'', ''n.id''], [P_value (JStr (cur_t c)), P_value (cur_id c)])
      | By_relevance \<Rightarrow>
          (let parts = split (CHR ''|'') (cur_t c) in
           if length parts < 2 \<or> parts ! 1 = [] then Inl InvalidCursor
           else Inr ([''CASE'', ''n.created_at'', ''n.id''],
                     [P_int (if hd parts = ''1'' then 1 else 0), P_value (JStr (parts ! 1)), P_value (cur_id c)])))"

definition note_column :: "list_db \<Rightarrow> string option \<Rightarrow> string \<Rightarrow> (param \<Rightarrow> int option) \<times> (note_body listed \<Rightarrow> int)" where
  "note_column db assigned c =
     (if c = ''n.created_at'' then (read_timestamp db, l_created)
      else if c = ''n.id'' then (read_uuid db, \<lambda>r. int (l_id r))
      else if c = ''CASE'' then (read_int, \<lambda>r. int (note_rank assigned r)) else (\<lambda>_. None, \<lambda>_. 0))"

fun map_or_throw :: "('a \<Rightarrow> 'e + 'b) \<Rightarrow> 'a list \<Rightarrow> 'e + 'b list" where
  "map_or_throw f [] = Inr []"
| "map_or_throw f (x # xs) =
     (case f x of Inl e \<Rightarrow> Inl e
      | Inr y \<Rightarrow> (case map_or_throw f xs of Inl e \<Rightarrow> Inl e | Inr ys \<Rightarrow> Inr (y # ys)))"

definition read_note :: "crypto_lib \<Rightarrow> enc_env \<Rightarrow> note_body listed \<Rightarrow> list_error + note_body listed" where
  "read_note cl env r =
     (case decrypt cl env (Some (nb_text (l_body r))) of
        Inl e \<Rightarrow> Inl (Encryption e)
      | Inr plain \<Rightarrow>
          Inr (r\<lparr>l_body := \<lparr>nb_author = nb_author (l_body r), nb_text = (case plain of Some s \<Rightarrow> s | None \<Rightarrow> [])\<rparr>\<rparr>))"

definition note_sort_value :: "note_sort \<Rightarrow> list_db \<Rightarrow> string option \<Rightarrow> note_body listed \<Rightarrow> sort_value" where
  "note_sort_value srt db assigned r =
     (case (srt, db_date db (l_created r)) of
        (By_relevance, Some ms) \<Rightarrow> Sort_text (nat_text (note_rank assigned r) @ ''|'' @ iso_string ms)
      | (_, d) \<Rightarrow> Sort_date d)"

text \<open>The statement of a page of notes, with the boundary of a row or without one.\<close>

definition note_statement ::
  "list_db \<Rightarrow> string option \<Rightarrow> string \<Rightarrow> nat \<Rightarrow> note_sort \<Rightarrow> (string list \<times> param list) option \<Rightarrow> note_body select" where
  "note_statement db assigned disputeId n srt b =
     (let ps = (case b of Some (_, ps) \<Rightarrow> ps | None \<Rightarrow> []) in
      \<lparr>se_where = (\<lambda>r. l_owner r = disputeId), se_places = [1],
       se_boundary = map_option (\<lambda>(cols, qs). \<lparr>rc_columns = cols, rc_op = Below, rc_places = [2..<2 + length qs]\<rparr>) b,
       se_column = note_column db assigned, se_key = note_key srt assigned, se_order = Desc,
       se_limit = 2 + length ps, se_params = P_value (JStr disputeId) # ps @ [P_int (int n + 1)]\<rparr>)"

definition findNotesPage ::
  "crypto_lib \<Rightarrow> enc_env \<Rightarrow> list_db \<Rightarrow> (string \<Rightarrow> js_date) \<Rightarrow> string option \<Rightarrow> note_body listed list \<Rightarrow> string
   \<Rightarrow> int option \<Rightarrow> string option \<Rightarrow> note_sort \<Rightarrow> list_error + note_body listed paginated_result" where
  "findNotesPage cl env db new_date assigned rows disputeId limit cursor srt =
     (let n = page_size_of limit;
          boundary = (if truthy_string cursor then
              (case decodeCursor new_date (the cursor) of
                 Inl e \<Rightarrow> Inl e
               | Inr c \<Rightarrow> map_sum id Some (note_boundary srt c))
            else Inr None) in
      case boundary of
        Inl e \<Rightarrow> Inl (Refused e)
      | Inr b \<Rightarrow>
          (case run_select (note_statement db assigned disputeId n srt b) rows of
             Inl e \<Rightarrow> Inl (Sql e)
           | Inr found \<Rightarrow>
               (case map_or_throw (read_note cl env) found of
                  Inl e \<Rightarrow> Inl e
                | Inr notes \<Rightarrow>
                    map_sum Refused id (createPaginatedResponse notes n (note_sort_value srt db assigned) (row_id db)))))"

subsection \<open>Transactions\<close>

text \<open>The checks of a transaction cursor that library code makes: the ISO test of zod and \<open>Date.parse\<close>.\<close>

record cursor_checks =
  cc_datetime :: "string \<Rightarrow> bool"
  cc_parse :: "string \<Rightarrow> js_date"

definition is_hex :: "char \<Rightarrow> bool" where
  "is_hex c = (hex_value c \<noteq> None)"

text \<open>\<open>CURSOR_ID_PATTERN\<close> and \<open>CURSOR_ENCODING_PATTERN\<close>.\<close>

definition cursor_id_ok :: "string \<Rightarrow> bool" where
  "cursor_id_ok s = (map length (split (CHR ''-'') s) = [8, 4, 4, 4, 12] \<and> (\<forall>c \<in> set s. is_hex c \<or> c = CHR ''-''))"

definition cursor_encoding_ok :: "string \<Rightarrow> bool" where
  "cursor_encoding_ok s =
     (let letters = takeWhile (\<lambda>c. base64_value c \<noteq> None) s
      in letters \<noteq> [] \<and> drop (length letters) s \<in> {[], ''='', ''==''})"

definition CURSOR_MIN_TIMESTAMP :: int where
  "CURSOR_MIN_TIMESTAMP = 946684800000"

definition CURSOR_MAX_TIMESTAMP :: int where
  "CURSOR_MAX_TIMESTAMP = 4102444800000"

definition cursor_timestamp_ok :: "cursor_checks \<Rightarrow> string \<Rightarrow> bool" where
  "cursor_timestamp_ok k t =
     (cc_datetime k t \<and> (case cc_parse k t of Some ms \<Rightarrow> CURSOR_MIN_TIMESTAMP \<le> ms \<and> ms \<le> CURSOR_MAX_TIMESTAMP | None \<Rightarrow> False))"

definition versioned_payload :: "cursor_checks \<Rightarrow> json \<Rightarrow> (string \<times> string) option" where
  "versioned_payload k v =
     (case v of
        JObj ps \<Rightarrow>
          (case (property v ''v'', property v ''t'', property v ''id'') of
             (Some (JNum n), Some (JStr t), Some (JStr i)) \<Rightarrow>
               if set (map fst ps) = {''v'', ''t'', ''id''} \<and> numeral_value n = Fin 1 \<and> cursor_timestamp_ok k t \<and> cursor_id_ok i
               then Some (t, i) else None
           | _ \<Rightarrow> None)
      | _ \<Rightarrow> None)"

definition parseCursorPayload :: "cursor_checks \<Rightarrow> string \<Rightarrow> (string \<times> string) option" where
  "parseCursorPayload k decoded =
     (case json_parse decoded of
        Some v \<Rightarrow> versioned_payload k v
      | None \<Rightarrow>
          (case split (CHR ''|'') decoded of
             [t, i] \<Rightarrow> if cursor_timestamp_ok k t \<and> cursor_id_ok i then Some (t, i) else None
           | _ \<Rightarrow> None))"

definition decodeTransactionCursor :: "cursor_checks \<Rightarrow> string \<Rightarrow> (js_date \<times> string) option" where
  "decodeTransactionCursor k cursor =
     (if \<not> cursor_encoding_ok cursor then None
      else map_option (\<lambda>(t, i). (cc_parse k t, i))
        (parseCursorPayload k (of_utf8 (from_base64 (map plain_char cursor)))))"

text \<open>The branch of \<open>list\<close> for a cursor; \<open>cond\<close> and \<open>ps\<close> stand for \<open>buildListWhere\<close>.\<close>

definition list_by_cursor ::
  "cursor_checks \<Rightarrow> list_db \<Rightarrow> ('b listed \<Rightarrow> bool) \<Rightarrow> param list \<Rightarrow> 'b listed list \<Rightarrow> int
   \<Rightarrow> string option \<Rightarrow> string option \<Rightarrow> list_error + 'b listed list" where
  "list_by_cursor k db cond ps rows limit before after =
     (let capped = min (max limit 1) 1000; forward = truthy_string after in
      case decodeTransactionCursor k (the (if forward then after else before)) of
        None \<Rightarrow> Inl TransactionCursorError
      | Some (createdAt, i) \<Rightarrow>
          map_sum Sql id (run_select
            \<lparr>se_where = cond, se_places = [1..<length ps + 1],
             se_boundary = Some \<lparr>rc_columns = [''created_at'', ''id''], rc_op = (if forward then Below else Above),
               rc_places = [length ps + 1, length ps + 2]\<rparr>,
             se_column = created_column db, se_key = created_key, se_order = (if forward then Desc else Asc),
             se_limit = length ps + 3, se_params = ps @ [P_date createdAt, P_value (JStr i), P_int capped]\<rparr> rows))"

text \<open>The branch of the history handler for a cursor; the checks before it are in \<open>list_by_cursor\<close> again.\<close>

definition history_page ::
  "cursor_checks \<Rightarrow> list_db \<Rightarrow> ('b listed \<Rightarrow> bool) \<Rightarrow> param list \<Rightarrow> 'b listed list \<Rightarrow> nat
   \<Rightarrow> string option \<Rightarrow> string option \<Rightarrow> list_error + 'b listed paginated_result" where
  "history_page k db cond ps rows limitNum before after =
     (if truthy_string before \<and> decodeTransactionCursor k (the before) = None
        \<or> truthy_string after \<and> decodeTransactionCursor k (the after) = None then Inl TransactionCursorError
      else if truthy_string before \<and> truthy_string after then Inl BothCursors
      else case list_by_cursor k db cond ps rows (int limitNum + 1) before after of
        Inl e \<Rightarrow> Inl e
      | Inr found \<Rightarrow>
          map_sum Refused id (createPaginatedResponse (if truthy_string before then rev found else found) limitNum
            (row_sort_value db) (row_id db)))"

subsection \<open>Alerts\<close>

definition alert_page ::
  "list_db \<Rightarrow> (string \<Rightarrow> js_date) \<Rightarrow> ('b listed \<Rightarrow> bool) \<Rightarrow> param list \<Rightarrow> 'b listed list \<Rightarrow> int option
   \<Rightarrow> string option \<Rightarrow> string option \<Rightarrow> list_error + 'b listed list \<times> bool" where
  "alert_page db new_date cond ps rows limit before after =
     (let n = page_size_of limit; isReversed = (\<not> truthy_string after) in
      case decodeCursor new_date (the (if isReversed then before else after)) of
        Inl e \<Rightarrow> Inl (Refused e)
      | Inr c \<Rightarrow>
          (let (clause, cps) = buildCursorWhere c
                 \<lparr>wo_column = ''created_at'', wo_idColumn = Some ''id'', wo_order = Some Desc,
                  wo_direction = Some (if isReversed then Backward else Forward), wo_offset = Some (length ps + 1)\<rparr>;
               bound = ps @ map P_value cps in
           case run_select
               \<lparr>se_where = cond, se_places = [1..<length ps + 1], se_boundary = Some clause, se_column = created_column db,
                se_key = created_key, se_order = (if isReversed then Asc else Desc), se_limit = length bound + 1,
                se_params = bound @ [P_int (int n + 1)]\<rparr> rows of
             Inl e \<Rightarrow> Inl (Sql e)
           | Inr found \<Rightarrow>
               (let kept = (if n < length found then take n found else found)
                in Inr (if isReversed then rev kept else kept, n < length found))))"

subsection \<open>Ordered rows\<close>

lemma in_order_set [simp]: "set (in_order d key rows) = set rows"
  by (cases d) (simp_all add: in_order_def)

lemma in_order_length [simp]: "length (in_order d key rows) = length rows"
  by (cases d) (simp_all add: in_order_def)

lemma in_order_filter: "in_order d key (filter P rows) = filter P (in_order d key rows)"
  by (cases d) (simp_all add: in_order_def rev_filter flip: filter_sort)

lemma in_order_distinct: "distinct (map key rows) \<Longrightarrow> distinct (map key (in_order d key rows))"
  by (cases d) (simp_all add: in_order_def distinct_map flip: rev_map)

lemma in_order_Desc:
  assumes "distinct (map key rows)" shows "sorted_wrt (\<lambda>x y. key y < key x) (in_order Desc key rows)"
proof -
  have "sorted_wrt (\<lambda>x y. key x \<le> key y) (sort_key key rows)" using sorted_sort_key [of key rows] by (simp add: sorted_map)
  moreover have "distinct (map key (sort_key key rows))" using assms by (simp add: distinct_map)
  ultimately have "sorted_wrt (\<lambda>x y. key x < key y) (sort_key key rows)"
    by (auto simp: sorted_wrt_iff_nth_less distinct_conv_nth less_le)
  then show ?thesis by (simp add: in_order_def sorted_wrt_rev)
qed

text \<open>The rows below the key of a row are those that come after it.\<close>

lemma filter_below:
  fixes key :: "'a \<Rightarrow> 'k::linorder"
  assumes "sorted_wrt (\<lambda>x y. key y < key x) (pre @ b # L)"
  shows "filter (\<lambda>r. key r < key b) (pre @ b # L) = L"
proof -
  have "\<forall>x \<in> set pre. \<not> key x < key b" "\<forall>x \<in> set L. key x < key b"
    using assms by (auto simp: sorted_wrt_append dest: order_less_asym)
  then show ?thesis by simp
qed

lemma rows_after:
  assumes "distinct (map key rows)" "in_order Desc key (filter P rows) = pre @ b # L"
  shows "in_order Desc key (filter (\<lambda>r. P r \<and> key r < key b) rows) = L"
proof -
  have "distinct (map key (filter P rows))" using assms(1) by (auto simp: distinct_map inj_on_def)
  from filter_below [of key pre b L] in_order_Desc [OF this] assms(2)
  have "filter (\<lambda>r. key r < key b) (in_order Desc key (filter P rows)) = L" by simp
  then show ?thesis by (simp add: in_order_filter [symmetric] conj_commute)
qed

subsection \<open>Cursors of rows\<close>

text \<open>
  What the program relies on of the driver and the server, for one row: the driver drops the
  microseconds, the server reads the text of a date as that date, and identifiers survive both ways.
  (For a column without time zone this needs both clocks to be set to UTC.)
\<close>

definition row_ok :: "list_db \<Rightarrow> 'b listed \<Rightarrow> bool" where
  "row_ok db r \<longleftrightarrow>
     db_date db (l_created r) = Some (l_created r div 1000) \<and>
     db_timestamp db (iso_string (l_created r div 1000)) = Some (1000 * (l_created r div 1000)) \<and>
     db_sent_date db (l_created r div 1000) = Some (1000 * (l_created r div 1000)) \<and>
     db_uuid_text db (l_id r) \<noteq> [] \<and> db_uuid db (db_uuid_text db (l_id r)) = Some (l_id r)"

definition whole_ms :: "'b listed \<Rightarrow> bool" where
  "whole_ms r \<longleftrightarrow> l_created r mod 1000 = 0"

text \<open>The key that the server compares with, when the boundary is a row: its time in whole milliseconds.\<close>

definition cut_key :: "'b listed \<Rightarrow> int list" where
  "cut_key r = [1000 * (l_created r div 1000), int (l_id r)]"

lemma cut_key_whole: "whole_ms r \<Longrightarrow> cut_key r = created_key r"
  by (simp add: cut_key_def created_key_def whole_ms_def minus_mod_eq_mult_div [symmetric])

definition row_cursor :: "list_db \<Rightarrow> 'b listed \<Rightarrow> string" where
  "row_cursor db r = issued (iso_string (l_created r div 1000)) (row_id db r)"

lemma createCursor_row: "row_ok db r \<Longrightarrow> createCursor (row_sort_value db r) (row_id db r) = Inr (row_cursor db r)"
  by (simp add: row_ok_def row_sort_value_def row_cursor_def createCursor_issued)

definition row_payload :: "list_db \<Rightarrow> 'b listed \<Rightarrow> cursor_payload" where
  "row_payload db r = \<lparr>cur_t = iso_string (l_created r div 1000), cur_id = JStr (row_id db r)\<rparr>"

lemma decode_row_cursor: "row_ok db r \<Longrightarrow> decodeCursor new_date (row_cursor db r) = Inr (row_payload db r)"
  by (simp add: row_ok_def row_id_def row_cursor_def row_payload_def decode_issued)

lemma row_cursor_not_Nil [simp]: "row_cursor db r \<noteq> []"
  by (simp add: row_cursor_def)

lemma placeholders_consecutive:
  "set [1..<k + 1] \<union> {k + 1, k + 2} \<union> {k + 3} = {1..k + 3}"
  "set [1..<k + 1] \<union> {k + 1} = {1..k + (1 :: nat)}"
  by auto

text \<open>
  The statement of a page of rows by time: the parameters \<open>ps\<close> of its conditions, those of the boundary,
  if there is one, and the limit.
\<close>

lemma run_first:
  assumes "length ps = k"
  shows "run_select \<lparr>se_where = P, se_places = [1..<k + 1], se_boundary = None, se_column = cols, se_key = key, se_order = d,
      se_limit = k + 1, se_params = ps @ [P_int (int m)]\<rparr> rows = Inr (take m (in_order d key (filter P rows)))"
  using placeholders_consecutive(2) [of k] assms
  by (simp add: run_select_def placeholders_def boundary_test_def nth_append del: set_upt)

lemma run_after:
  assumes k: "length ps = k" and x: "read_timestamp db p = Some x" and y: "read_uuid db q = Some y"
  shows "run_select \<lparr>se_where = P, se_places = [1..<k + 1],
      se_boundary = Some \<lparr>rc_columns = [''created_at'', ''id''], rc_op = op, rc_places = [k + 1, k + 2]\<rparr>, se_column = created_column db,
      se_key = key, se_order = d, se_limit = k + 3, se_params = ps @ [p, q, P_int (int m)]\<rparr> rows =
    Inr (take m (in_order d key (filter (\<lambda>r. P r \<and> beyond op (created_key r) [x, y]) rows)))"
proof -
  have "(ps @ [p, q, P_int (int m)]) ! k = p" "(ps @ [p, q, P_int (int m)]) ! (k + 1) = q" "(ps @ [p, q, P_int (int m)]) ! (k + 2) = P_int (int m)"
    using k by (simp_all add: nth_append)
  with x y show ?thesis using placeholders_consecutive(1) [of k] k
    by (simp add: run_select_def placeholders_def boundary_test_def created_column_def created_key_def del: set_upt)
qed

lemma read_row_payload:
  assumes "row_ok db b"
  shows "read_timestamp db (P_value (JStr (cur_t (row_payload db b)))) = Some (1000 * (l_created b div 1000))"
    and "read_uuid db (P_value (cur_id (row_payload db b))) = Some (int (l_id b))"
  using assms by (simp_all add: row_ok_def row_payload_def row_id_def)

subsection \<open>Contacts: facts\<close>

lemma page_size_of_nat: "1 \<le> n \<Longrightarrow> n \<le> 100 \<Longrightarrow> page_size_of (Some (int n)) = n"
  by (simp add: page_size_of_def)

lemma contact_page_take:
  assumes "1 \<le> n" and "\<forall>r \<in> set L. row_ok db r"
  shows "contact_page db n (take (n + 1) L) = Inr (page_from (row_cursor db) n L)"
proof (cases "n < length L")
  case True
  with assms(1) have "take n L \<noteq> []" "last (take n L) \<in> set L" using True last_of_page [of n L] by fastforce+
  moreover from this have "row_ok db (last (take n L))" using assms(2) by blast
  ultimately show ?thesis using True by (simp add: contact_page_def page_from_def createCursor_row Let_def)
qed (simp add: contact_page_def page_from_def Let_def)

lemma listByUser_pages:
  assumes n: "1 \<le> n" "n \<le> 100" and rows: "\<forall>r \<in> set rows. row_ok db r"
  shows "listByUser db rows userId (Some (int n)) None search =
      Inr (page_from (row_cursor db) n (in_order Desc created_key (filter (contact_cond db userId search) rows)))"
    and "row_ok db b \<Longrightarrow> listByUser db rows userId (Some (int n)) (Some (row_payload db b)) search =
      Inr (page_from (row_cursor db) n (in_order Desc created_key (filter (\<lambda>r. contact_cond db userId search r \<and> created_key r < cut_key b) rows)))"
proof -
  let ?ps = "contact_params userId search"
  have "run_select (contact_statement db userId n None search) rows =
      Inr (take (n + 1) (in_order Desc created_key (filter (contact_cond db userId search) rows)))"
    using run_first [of ?ps "length ?ps" "contact_cond db userId search" "created_column db" created_key Desc "n + 1" rows]
    by (simp add: contact_statement_def Let_def add.commute)
  with n rows show "listByUser db rows userId (Some (int n)) None search =
      Inr (page_from (row_cursor db) n (in_order Desc created_key (filter (contact_cond db userId search) rows)))"
    by (simp add: listByUser_def page_size_of_nat contact_page_take [of n, simplified])
  assume b: "row_ok db b"
  have "run_select (contact_statement db userId n (Some (row_payload db b)) search) rows =
      Inr (take (n + 1) (in_order Desc created_key (filter (\<lambda>r. contact_cond db userId search r \<and> created_key r < cut_key b) rows)))"
    using run_after [of ?ps "length ?ps" db _ _ _ _ "contact_cond db userId search" Below created_key Desc "n + 1" rows,
        OF refl read_row_payload [OF b]]
    by (simp add: contact_statement_def buildCursorWhere_def beyond_def cut_key_def eval_nat_numeral Let_def add.commute)
  with n rows show "listByUser db rows userId (Some (int n)) (Some (row_payload db b)) search =
      Inr (page_from (row_cursor db) n (in_order Desc created_key (filter (\<lambda>r. contact_cond db userId search r \<and> created_key r < cut_key b) rows)))"
    by (simp add: listByUser_def page_size_of_nat contact_page_take [of n, simplified])
qed

subsection \<open>Dispute notes: facts\<close>

lemma nat_text_no_bar: "CHR ''|'' \<notin> set (nat_text k)"
  using nat_text_digits [of k] by (auto simp: list_all_iff is_digit_def)

lemma iso_no_bar: "CHR ''|'' \<notin> set (iso_string ms)"
proof -
  have "CHR ''|'' \<notin> set (padded w k)" for w k by (auto simp: padded_def nat_text_no_bar Let_def)
  then show ?thesis by (auto simp: iso_string_def year_text_def split: prod.split)
qed

lemma iso_not_Nil [simp]: "iso_string ms \<noteq> []"
  by (simp add: iso_string_def split: prod.split)

definition note_time :: "note_sort \<Rightarrow> string option \<Rightarrow> note_body listed \<Rightarrow> string" where
  "note_time srt assigned r =
     (case srt of By_date \<Rightarrow> iso_string (l_created r div 1000)
      | By_relevance \<Rightarrow> nat_text (note_rank assigned r) @ ''|'' @ iso_string (l_created r div 1000))"

definition note_cursor :: "list_db \<Rightarrow> note_sort \<Rightarrow> string option \<Rightarrow> note_body listed \<Rightarrow> string" where
  "note_cursor db srt assigned r = issued (note_time srt assigned r) (row_id db r)"

lemma createCursor_note:
  "row_ok db r \<Longrightarrow> createCursor (note_sort_value srt db assigned r) (row_id db r) = Inr (note_cursor db srt assigned r)"
  by (cases srt) (simp_all add: row_ok_def note_sort_value_def note_cursor_def note_time_def createCursor_issued)

lemma decode_note_cursor:
  "row_ok db r \<Longrightarrow> decodeCursor new_date (note_cursor db srt assigned r) =
    Inr \<lparr>cur_t = note_time srt assigned r, cur_id = JStr (row_id db r)\<rparr>"
  by (simp add: row_ok_def row_id_def note_cursor_def decode_issued)

text \<open>The boundary that a cursor of the same order gives, and the key that the server reads from it.\<close>

definition note_cut :: "note_sort \<Rightarrow> string option \<Rightarrow> note_body listed \<Rightarrow> int list" where
  "note_cut srt assigned r = (case srt of By_date \<Rightarrow> cut_key r | By_relevance \<Rightarrow> int (note_rank assigned r) # cut_key r)"

lemma note_cut_whole: "whole_ms r \<Longrightarrow> note_cut srt assigned r = note_key srt assigned r"
  by (cases srt) (simp_all add: note_cut_def note_key_def cut_key_whole)

definition note_columns :: "note_sort \<Rightarrow> string list" where
  "note_columns srt = (case srt of By_date \<Rightarrow> [''n.created_at'', ''n.id''] | By_relevance \<Rightarrow> [''CASE'', ''n.created_at'', ''n.id''])"

lemma note_columns_key: "map (\<lambda>c. snd (note_column db assigned c) r) (note_columns srt) = note_key srt assigned r"
  by (cases srt) (simp_all add: note_columns_def note_column_def note_key_def created_key_def)

lemma note_boundary_cursor:
  assumes "row_ok db b"
  obtains cols ps where "note_boundary srt \<lparr>cur_t = note_time srt assigned b, cur_id = JStr (row_id db b)\<rparr> = Inr (cols, ps)"
    and "cols = note_columns srt" and "length ps = length cols"
    and "those (map2 (\<lambda>c p. fst (note_column db assigned c) p) cols ps) = Some (note_cut srt assigned b)"
proof (cases srt)
  case By_date
  with assms that show ?thesis
    by (simp add: note_boundary_def note_columns_def note_column_def note_time_def note_cut_def cut_key_def row_ok_def row_id_def)
next
  case By_relevance
  have "split (CHR ''|'') (note_time By_relevance assigned b) = [nat_text (note_rank assigned b), iso_string (l_created b div 1000)]"
    by (simp add: note_time_def split_on_append [OF nat_text_no_bar] split_on_no_sep [OF iso_no_bar])
  moreover have "(if nat_text (note_rank assigned b) = ''1'' then 1 else 0) = int (note_rank assigned b)"
    by (auto simp: note_rank_def nat_text.simps char_of_code)
  ultimately show ?thesis using assms By_relevance that
    by (simp add: note_boundary_def note_columns_def note_column_def note_cut_def cut_key_def row_ok_def row_id_def Let_def)
qed

lemma map_or_throw_all: "(\<And>x. x \<in> set xs \<Longrightarrow> f x = Inr (g x)) \<Longrightarrow> map_or_throw f xs = Inr (map g xs)"
  by (induction xs) simp_all

definition plain_note :: "crypto_lib \<Rightarrow> enc_env \<Rightarrow> note_body listed \<Rightarrow> note_body listed" where
  "plain_note cl env r = (case read_note cl env r of Inr s \<Rightarrow> s | Inl _ \<Rightarrow> r)"

lemma plain_note_fields [simp]:
  "l_id (plain_note cl env r) = l_id r" "l_created (plain_note cl env r) = l_created r"
  "l_owner (plain_note cl env r) = l_owner r" "nb_author (l_body (plain_note cl env r)) = nb_author (l_body r)"
  by (auto simp: plain_note_def read_note_def split: sum.splits)

lemma plain_note_cursor [simp]: "note_cursor db srt assigned (plain_note cl env r) = note_cursor db srt assigned r"
  by (cases srt) (simp_all add: note_cursor_def note_time_def row_id_def note_rank_def)

lemma plain_note_ok [simp]: "row_ok db (plain_note cl env r) = row_ok db r"
  by (simp add: row_ok_def)

lemma note_places: "{1} \<union> set [2..<2 + k] \<union> {2 + k} = {1..k + (2 :: nat)}"
  by auto

lemma run_notes_first:
  "run_select (note_statement db assigned d n srt None) rows =
    Inr (take (Suc n) (in_order Desc (note_key srt assigned) (filter (\<lambda>r. l_owner r = d) rows)))"
proof -
  have "placeholders (note_statement db assigned d n srt None) = {1..length (se_params (note_statement db assigned d n srt None))}"
    by (auto simp: placeholders_def note_statement_def)
  then show ?thesis by (simp add: run_select_def boundary_test_def) (simp add: note_statement_def nat_add_distrib)
qed

lemma run_notes_after:
  assumes cols: "cols = note_columns srt" and len: "length ps = length cols"
    and read: "those (map2 (\<lambda>c p. fst (note_column db assigned c) p) cols ps) = Some k"
  shows "run_select (note_statement db assigned d n srt (Some (cols, ps))) rows =
    Inr (take (Suc n) (in_order Desc (note_key srt assigned) (filter (\<lambda>r. l_owner r = d \<and> note_key srt assigned r < k) rows)))"
proof -
  let ?s = "note_statement db assigned d n srt (Some (cols, ps))"
  have "placeholders ?s = {1..length (se_params ?s)}"
    using note_places [of "length ps"] by (simp add: placeholders_def note_statement_def insert_commute)
  moreover have "map2 (\<lambda>c i. fst (note_column db assigned c) (se_params ?s ! (i - 1))) cols [2..<2 + length ps] =
      map2 (\<lambda>c p. fst (note_column db assigned c) p) cols ps"
    using len cols by (cases srt) (auto simp: note_columns_def note_statement_def length_Suc_conv upt_rec)
  then have "boundary_test ?s = Some (\<lambda>r. note_key srt assigned r < k)"
    using read note_columns_key [of db assigned _ srt]
    by (simp add: boundary_test_def) (simp add: note_statement_def beyond_def cols)
  moreover have "se_params ?s ! (se_limit ?s - 1) = P_int (int n + 1)" by (simp add: note_statement_def nth_append)
  ultimately show ?thesis by (simp add: run_select_def) (simp add: note_statement_def nat_add_distrib)
qed

text \<open>A page of notes, read from the start or after a row.\<close>

definition readable_notes :: "crypto_lib \<Rightarrow> enc_env \<Rightarrow> note_body listed list \<Rightarrow> bool" where
  "readable_notes cl env rows \<longleftrightarrow> (\<forall>r \<in> set rows. \<exists>s. read_note cl env r = Inr s)"

lemma notes_page_of:
  assumes n: "1 \<le> n" "n \<le> 100" and rows: "\<forall>r \<in> set rows. row_ok db r" and readable: "readable_notes cl env rows"
    and run: "run_select (note_statement db assigned d n srt bound) rows = Inr (take (Suc n) L)" and sub: "set L \<subseteq> set rows"
    and cursor: "c = None \<and> bound = None \<or>
      (\<exists>t p. c = Some t \<and> t \<noteq> [] \<and> decodeCursor new_date t = Inr p \<and> map_sum id Some (note_boundary srt p) = Inr bound)"
  shows "\<exists>page. findNotesPage cl env db new_date assigned rows d (Some (int n)) c srt = Inr page \<and>
    (pr_data page, pr_next page) = page_from (note_cursor db srt assigned) n (map (plain_note cl env) L)"
proof -
  have "read_note cl env r = Inr (plain_note cl env r)" if "r \<in> set (take (Suc n) L)" for r
  proof -
    from that sub have "r \<in> set rows" by (meson in_set_takeD subsetD)
    with readable show ?thesis by (auto simp: readable_notes_def plain_note_def)
  qed
  then have "map_or_throw (read_note cl env) (take (Suc n) L) = Inr (map (plain_note cl env) (take (Suc n) L))"
    by (rule map_or_throw_all)
  moreover have "map (plain_note cl env) (take (Suc n) L) = take (Suc n) (map (plain_note cl env) L)" by (simp add: take_map)
  moreover have "createPaginatedResponse (take (Suc n) (map (plain_note cl env) L)) n (note_sort_value srt db assigned) (row_id db) =
    Inr \<lparr>pr_data = take n (map (plain_note cl env) L), pr_limit = n,
      pr_next = snd (page_from (note_cursor db srt assigned) n (map (plain_note cl env) L)),
      pr_prev = (if map (plain_note cl env) L = [] then None else Some (note_cursor db srt assigned (hd (map (plain_note cl env) L)))),
      pr_more = (n < length (map (plain_note cl env) L))\<rparr>"
    using n(1) rows sub by (intro response_page) (auto intro!: createCursor_note)
  moreover have "(if truthy_string c then (case decodeCursor new_date (the c) of Inl e \<Rightarrow> Inl e | Inr p \<Rightarrow> map_sum id Some (note_boundary srt p)) else Inr None) = Inr bound"
    using cursor by auto
  ultimately show ?thesis using run n
    by (simp add: findNotesPage_def page_size_of_nat page_from_def)
qed

lemma notes_page_start:
  assumes "1 \<le> n" "n \<le> 100" "\<forall>r \<in> set rows. row_ok db r" "readable_notes cl env rows"
  shows "\<exists>page. findNotesPage cl env db new_date assigned rows d (Some (int n)) None srt = Inr page \<and>
    (pr_data page, pr_next page) = page_from (note_cursor db srt assigned) n
      (map (plain_note cl env) (in_order Desc (note_key srt assigned) (filter (\<lambda>r. l_owner r = d) rows)))"
  using assms by (intro notes_page_of [where bound = None]) (auto simp: run_notes_first)

lemma notes_page_after:
  assumes "1 \<le> n" "n \<le> 100" "\<forall>r \<in> set rows. row_ok db r" "readable_notes cl env rows" and b: "row_ok db b"
  shows "\<exists>page. findNotesPage cl env db new_date assigned rows d (Some (int n)) (Some (note_cursor db srt assigned b)) srt = Inr page \<and>
    (pr_data page, pr_next page) = page_from (note_cursor db srt assigned) n
      (map (plain_note cl env) (in_order Desc (note_key srt assigned)
        (filter (\<lambda>r. l_owner r = d \<and> note_key srt assigned r < note_cut srt assigned b) rows)))"
proof -
  obtain cols ps where bound: "note_boundary srt \<lparr>cur_t = note_time srt assigned b, cur_id = JStr (row_id db b)\<rparr> = Inr (cols, ps)"
    and read: "cols = note_columns srt" "length ps = length cols"
      "those (map2 (\<lambda>c p. fst (note_column db assigned c) p) cols ps) = Some (note_cut srt assigned b)"
    by (rule note_boundary_cursor [OF b])
  show ?thesis
    using assms bound by (intro notes_page_of [where bound = "Some (cols, ps)"])
      (auto simp: run_notes_after [OF read] decode_note_cursor, auto simp: note_cursor_def)
qed

subsection \<open>Transactions and alerts: facts\<close>

text \<open>What the checks of a transaction cursor say of the cursor of a row.\<close>

definition tx_cursor_ok :: "cursor_checks \<Rightarrow> list_db \<Rightarrow> 'b listed \<Rightarrow> bool" where
  "tx_cursor_ok k db r \<longleftrightarrow>
     row_ok db r \<and> cursor_timestamp_ok k (iso_string (l_created r div 1000)) \<and> cursor_id_ok (row_id db r) \<and>
     cc_parse k (iso_string (l_created r div 1000)) = Some (l_created r div 1000)"

lemma cursor_letters_encoding: "text \<noteq> [] \<Longrightarrow> cursor_encoding_ok (cursor_letters text)"
proof -
  assume "text \<noteq> []"
  then have some: "cursor_letters text \<noteq> []" by (rule cursor_letters_not_Nil)
  have all: "takeWhile (\<lambda>c. base64_value c \<noteq> None) (cursor_letters text) = cursor_letters text"
    using url_letters by (auto simp: takeWhile_eq_all_conv cursor_letters_def dest!: sextets_bound)
  show ?thesis unfolding cursor_encoding_ok_def all Let_def using some by simp
qed

lemma decode_tx_cursor:
  assumes "tx_cursor_ok k db r"
  shows "decodeTransactionCursor k (row_cursor db r) = Some (Some (l_created r div 1000), row_id db r)"
proof -
  let ?p = "payload_json \<lparr>cur_t = iso_string (l_created r div 1000), cur_id = JStr (row_id db r)\<rparr>"
  have "wf_json ?p" using one_is_numeral(1) by (simp add: payload_json_def)
  then have "json_parse (stringify ?p) = Some ?p" by (rule json_parse_stringify)
  moreover have "versioned_payload k ?p = Some (iso_string (l_created r div 1000), row_id db r)"
    using assms one_is_numeral(2) by (auto simp: versioned_payload_def payload_json_def tx_cursor_ok_def)
  moreover have "stringify ?p \<noteq> []" by (simp add: payload_json_def)
  ultimately show ?thesis using assms
    by (simp add: decodeTransactionCursor_def row_cursor_def issued_def cursor_letters_encoding decode_unpadded
        parseCursorPayload_def tx_cursor_ok_def)
qed

definition newer_rows :: "('b listed \<Rightarrow> bool) \<Rightarrow> int list \<Rightarrow> 'b listed list \<Rightarrow> 'b listed list" where
  "newer_rows cond k rows = in_order Asc created_key (filter (\<lambda>r. cond r \<and> k < created_key r) rows)"

lemma list_before:
  assumes b: "tx_cursor_ok k db b" and n: "n < 1000"
  shows "list_by_cursor k db cond ps rows (int n + 1) (Some (row_cursor db b)) None =
    Inr (take (Suc n) (newer_rows cond (cut_key b) rows))"
proof -
  have "db_sent_date db (l_created b div 1000) = Some (1000 * (l_created b div 1000))" "db_uuid db (row_id db b) = Some (l_id b)"
    using b by (simp_all add: tx_cursor_ok_def row_ok_def row_id_def)
  then have "read_timestamp db (P_date (Some (l_created b div 1000))) = Some (1000 * (l_created b div 1000))"
    "read_uuid db (P_value (JStr (row_id db b))) = Some (int (l_id b))" by simp_all
  from run_after [of ps "length ps" db _ _ _ _ cond Above created_key Asc "Suc n" rows, OF refl this] n
  show ?thesis
    by (simp add: list_by_cursor_def decode_tx_cursor [OF b] newer_rows_def beyond_def cut_key_def eval_nat_numeral Let_def add.commute)
qed

lemma alerts_before:
  assumes b: "row_ok db b" and n: "1 \<le> n" "n \<le> 100"
  shows "alert_page db new_date cond ps rows (Some (int n)) (Some (row_cursor db b)) None =
    Inr (rev (take n (newer_rows cond (cut_key b) rows)), n < length (newer_rows cond (cut_key b) rows))"
  using run_after [of ps "length ps" db _ _ _ _ cond Above created_key Asc "Suc n" rows, OF refl read_row_payload [OF b]]
  by (simp add: alert_page_def decode_row_cursor [OF b] buildCursorWhere_def page_size_of_nat [OF n] newer_rows_def beyond_def cut_key_def
      eval_nat_numeral Let_def add.commute)

end
