(* ===== verification/Page_Runs.thy ===== *)
theory Page_Runs
  imports Cursor_Pages
begin

text \<open>
  Reading the lists of \<open>Cursor_Pages\<close> page by page: a client follows the cursors it is given. The
  contacts and the dispute notes meet the contract \<open>keyset_pages\<close> when all creation times are whole
  milliseconds; when they are not, rows are skipped. Then the pages of transactions before a cursor, the
  pages of alerts before a cursor and the second page of invoices.
\<close>

subsection \<open>A client of the contacts\<close>

record contacts_view =
  cv_db :: list_db
  cv_date :: "string \<Rightarrow> js_date"
  cv_rows :: "contact_body listed list"
  cv_user :: string
  cv_search :: "string option"

text \<open>The query that a client sends for a page of \<open>n\<close> rows.\<close>

definition page_query :: "string option \<Rightarrow> nat \<Rightarrow> string option \<Rightarrow> string \<Rightarrow> js_value option" where
  "page_query search n c k =
     (if k = ''limit'' then Some (Str (nat_text n)) else if k = ''after'' then map_option Str c
      else if k = ''search'' then map_option Str search else None)"

definition contacts_fetch :: "contacts_view \<Rightarrow> nat \<Rightarrow> string option \<Rightarrow> list_error + contact_body listed list \<times> string option" where
  "contacts_fetch v n c = contacts_route (cv_db v) (cv_date v) (cv_rows v) (cv_user v) (page_query (cv_search v) n c)"

definition contacts_listing :: "contacts_view \<Rightarrow> contact_body listed list" where
  "contacts_listing v =
     in_order Desc created_key (filter (contact_cond (cv_db v) (cv_user v) (cv_search v)) (cv_rows v))"

definition listed_ok :: "list_db \<Rightarrow> 'b listed list \<Rightarrow> nat \<Rightarrow> bool" where
  "listed_ok db rows n \<longleftrightarrow> 1 \<le> n \<and> n \<le> 100 \<and> distinct (map l_id rows) \<and> (\<forall>r \<in> set rows. row_ok db r)"

lemma distinct_created_key: "distinct (map l_id rows) \<Longrightarrow> distinct (map created_key rows)"
  by (auto simp: distinct_map inj_on_def created_key_def)

lemma page_query_params:
  assumes "1 \<le> n" "n \<le> 100" and "c \<noteq> Some []"
  shows "parsePaginationParams (page_query search n c) no_options =
    Inr \<lparr>pg_limit = Fin (of_nat n), pg_offset = Fin 0, pg_after = c, pg_before = None\<rparr>"
proof -
  have "parse_int (nat_text n) = Fin (of_nat n)" using assms(2) by (intro parse_int_nat_text) simp
  moreover have "query_text (page_query search n c) ''after'' = c" using assms(3) by (cases c) (simp_all add: query_text_def page_query_def)
  ultimately show ?thesis using assms(1,2)
    by (simp add: parsePaginationParams_def page_query_def query_text_def no_options_def math_max_def math_min_def Let_def)
qed

lemma contacts_fetch_pages:
  assumes "listed_ok (cv_db v) (cv_rows v) n"
  shows "contacts_fetch v n None = Inr (page_from (row_cursor (cv_db v)) n (contacts_listing v))"
    and "row_ok (cv_db v) b \<Longrightarrow> contacts_fetch v n (Some (row_cursor (cv_db v) b)) =
      Inr (page_from (row_cursor (cv_db v)) n (in_order Desc created_key
        (filter (\<lambda>r. contact_cond (cv_db v) (cv_user v) (cv_search v) r \<and> created_key r < cut_key b) (cv_rows v))))"
proof -
  have n: "1 \<le> n" "n \<le> 100" and rows: "\<forall>r \<in> set (cv_rows v). row_ok (cv_db v) r" using assms by (auto simp: listed_ok_def)
  have search: "(case page_query (cv_search v) n c ''search'' of Some (Str s) \<Rightarrow> Some s | _ \<Rightarrow> None) = cv_search v" for c
    by (cases "cv_search v") (simp_all add: page_query_def)
  note pages = listByUser_pages [OF n rows, where userId = "cv_user v" and search = "cv_search v"]
  show "contacts_fetch v n None = Inr (page_from (row_cursor (cv_db v)) n (contacts_listing v))"
    using pages(1) by (simp add: contacts_fetch_def contacts_route_def parseRequestPagination_def page_query_params [OF n] search
        decodePaginationCursors_def decode_optional_def integer_of_def contacts_listing_def)
  assume b: "row_ok (cv_db v) b"
  show "contacts_fetch v n (Some (row_cursor (cv_db v) b)) =
      Inr (page_from (row_cursor (cv_db v)) n (in_order Desc created_key
        (filter (\<lambda>r. contact_cond (cv_db v) (cv_user v) (cv_search v) r \<and> created_key r < cut_key b) (cv_rows v))))"
    using pages(2) [OF b] by (simp add: contacts_fetch_def contacts_route_def parseRequestPagination_def page_query_params [OF n] search
        decodePaginationCursors_def decode_optional_def integer_of_def decode_row_cursor [OF b])
qed

definition contacts_sound :: "contacts_view \<Rightarrow> nat \<Rightarrow> bool" where
  "contacts_sound v n \<longleftrightarrow> listed_ok (cv_db v) (cv_rows v) n \<and> (\<forall>r \<in> set (cv_rows v). whole_ms r)"

lemma contacts_listing_set:
  "r \<in> set (contacts_listing v) \<longleftrightarrow> r \<in> set (cv_rows v) \<and> contact_cond (cv_db v) (cv_user v) (cv_search v) r"
  by (simp add: contacts_listing_def)

interpretation contact_pages: boundary_pages contacts_fetch contacts_listing "\<lambda>v. row_cursor (cv_db v)" contacts_sound
proof
  fix v n pre b L
  assume s: "contacts_sound v n" and split: "contacts_listing v = pre @ b # L"
  then have ok: "listed_ok (cv_db v) (cv_rows v) n" and "b \<in> set (contacts_listing v)" by (auto simp: contacts_sound_def)
  then have b: "row_ok (cv_db v) b" "whole_ms b" using s by (auto simp: contacts_listing_set contacts_sound_def listed_ok_def)
  have "distinct (map created_key (cv_rows v))" using ok by (simp add: listed_ok_def distinct_created_key)
  from rows_after [OF this split [unfolded contacts_listing_def]] contacts_fetch_pages(2) [OF ok b(1)] b(2)
  show "contacts_fetch v n (Some (row_cursor (cv_db v) b)) = Inr (page_from (row_cursor (cv_db v)) n L)"
    by (simp add: cut_key_whole)
qed (auto simp: contacts_sound_def listed_ok_def contacts_fetch_pages(1))

subsection \<open>A client of the notes of a dispute\<close>

record notes_view =
  nv_lib :: crypto_lib
  nv_env :: enc_env
  nv_db :: list_db
  nv_date :: "string \<Rightarrow> js_date"
  nv_assigned :: "string option"
  nv_rows :: "note_body listed list"
  nv_dispute :: string
  nv_sort :: note_sort

definition notes_fetch :: "notes_view \<Rightarrow> nat \<Rightarrow> string option \<Rightarrow> list_error + note_body listed list \<times> string option" where
  "notes_fetch v n c =
     map_sum id (\<lambda>page. (pr_data page, pr_next page))
       (findNotesPage (nv_lib v) (nv_env v) (nv_db v) (nv_date v) (nv_assigned v) (nv_rows v) (nv_dispute v) (Some (int n)) c (nv_sort v))"

definition stored_notes :: "notes_view \<Rightarrow> note_body listed list" where
  "stored_notes v = in_order Desc (note_key (nv_sort v) (nv_assigned v)) (filter (\<lambda>r. l_owner r = nv_dispute v) (nv_rows v))"

definition notes_listing :: "notes_view \<Rightarrow> note_body listed list" where
  "notes_listing v = map (plain_note (nv_lib v) (nv_env v)) (stored_notes v)"

definition notes_sound :: "notes_view \<Rightarrow> nat \<Rightarrow> bool" where
  "notes_sound v n \<longleftrightarrow>
     listed_ok (nv_db v) (nv_rows v) n \<and> readable_notes (nv_lib v) (nv_env v) (nv_rows v) \<and> (\<forall>r \<in> set (nv_rows v). whole_ms r)"

definition notes_cursor :: "notes_view \<Rightarrow> note_body listed \<Rightarrow> string" where
  "notes_cursor v = note_cursor (nv_db v) (nv_sort v) (nv_assigned v)"

lemma distinct_note_key: "distinct (map l_id rows) \<Longrightarrow> distinct (map (note_key srt assigned) rows)"
  by (auto simp: distinct_map inj_on_def note_key_def created_key_def split: note_sort.splits)

interpretation note_pages: boundary_pages notes_fetch notes_listing notes_cursor notes_sound
proof
  fix v n
  assume s: "notes_sound v n"
  then have n: "1 \<le> n" "n \<le> 100" and rows: "\<forall>r \<in> set (nv_rows v). row_ok (nv_db v) r"
    and readable: "readable_notes (nv_lib v) (nv_env v) (nv_rows v)" and ids: "distinct (map l_id (nv_rows v))"
    by (auto simp: notes_sound_def listed_ok_def)
  show "0 < n" using n(1) by simp
  show "notes_fetch v n None = Inr (page_from (notes_cursor v) n (notes_listing v))"
    using notes_page_start [OF n rows readable, where d = "nv_dispute v" and srt = "nv_sort v" and assigned = "nv_assigned v" and new_date = "nv_date v"]
    by (auto simp: notes_fetch_def notes_listing_def stored_notes_def notes_cursor_def)
  fix pre b L
  assume "notes_listing v = pre @ b # L"
  then obtain p x M where split: "stored_notes v = p @ x # M" and b: "b = plain_note (nv_lib v) (nv_env v) x"
    and L: "L = map (plain_note (nv_lib v) (nv_env v)) M"
    by (auto simp: notes_listing_def map_eq_append_conv map_eq_Cons_conv)
  then have "x \<in> set (stored_notes v)" by simp
  then have x: "row_ok (nv_db v) x" "whole_ms x" using s rows by (auto simp: stored_notes_def notes_sound_def)
  have "distinct (map (note_key (nv_sort v) (nv_assigned v)) (nv_rows v))" by (rule distinct_note_key [OF ids])
  from rows_after [OF this split [unfolded stored_notes_def]]
  show "notes_fetch v n (Some (notes_cursor v b)) = Inr (page_from (notes_cursor v) n L)"
    using notes_page_after [OF n rows readable x(1), where d = "nv_dispute v" and srt = "nv_sort v" and assigned = "nv_assigned v" and new_date = "nv_date v"] b L x(2)
    by (auto simp: notes_fetch_def notes_cursor_def note_cut_whole)
qed (auto simp: notes_cursor_def note_cursor_def)

subsection \<open>A client of the invoices\<close>

definition invoices_fetch ::
  "list_db \<Rightarrow> 'b listed list \<Rightarrow> string \<Rightarrow> nat \<Rightarrow> string option \<Rightarrow> list_error + 'b listed list \<times> string option" where
  "invoices_fetch db rows userId n c =
     map_sum id (\<lambda>page. (pr_data page, pr_next page)) (findByUserId db rows userId (page_query None n c))"

lemma invoice_query_params:
  assumes "1 \<le> n" "n \<le> 100" and "c \<noteq> Some []"
  shows "parsePaginationParams (page_query search n c) \<lparr>maxLimit = Some (Fin 100), defaultLimit = None\<rparr> =
    Inr \<lparr>pg_limit = Fin (of_nat n), pg_offset = Fin 0, pg_after = c, pg_before = None\<rparr>"
  using page_query_params [OF assms, of search] by (simp add: parsePaginationParams_def no_options_def)

lemma invoice_boundary_refused:
  assumes "pg_after ps = Some c" "c \<noteq> []" shows "run_select (invoice_statement db userId ps) rows = Inl PlaceholderMismatch"
proof -
  let ?s = "invoice_statement db userId ps"
  have "5 \<in> placeholders ?s" "5 \<notin> {1..length (se_params ?s)}"
    using assms by (simp_all add: placeholders_def invoice_statement_def buildCursorWhere_def Let_def)
  then show ?thesis unfolding run_select_def by auto
qed

lemma invoices_first_page:
  assumes n: "1 \<le> n" "n \<le> 100" and rows: "\<forall>r \<in> set rows. row_ok db r"
  shows "invoices_fetch db rows userId n None =
    Inr (page_from (row_cursor db) n (in_order Desc (\<lambda>r. [l_created r]) (filter (\<lambda>r. l_owner r = userId) rows)))"
proof -
  let ?L = "in_order Desc (\<lambda>r. [l_created r]) (filter (\<lambda>r. l_owner r = userId) rows)"
  have "run_select (invoice_statement db userId \<lparr>pg_limit = Fin (of_nat n), pg_offset = Fin 0, pg_after = None, pg_before = None\<rparr>) rows =
      Inr (take (Suc n) ?L)"
    using run_first [of "[P_value (JStr userId)]" 1 "\<lambda>r. l_owner r = userId" "created_column db" "\<lambda>r. [l_created r]" Desc "Suc n" rows]
    by (simp add: invoice_statement_def add.commute numeral_2_eq_2)
  moreover have "createPaginatedResponse (take (Suc n) ?L) n (row_sort_value db) (row_id db) =
      Inr \<lparr>pr_data = take n ?L, pr_limit = n, pr_next = snd (page_from (row_cursor db) n ?L),
        pr_prev = (if ?L = [] then None else Some (row_cursor db (hd ?L))), pr_more = (n < length ?L)\<rparr>"
    using n(1) rows by (intro response_page) (auto intro!: createCursor_row)
  ultimately show ?thesis
    using invoice_query_params [OF n, of None None]
    by (simp add: invoices_fetch_def findByUserId_def page_from_def)
qed

lemma invoices_next_page:
  assumes "1 \<le> n" "n \<le> 100" "c \<noteq> []"
  shows "invoices_fetch db rows userId n (Some c) = Inl (Sql PlaceholderMismatch)"
  using invoice_query_params [OF assms(1,2), of "Some c" None] assms(3)
  by (simp add: invoices_fetch_def findByUserId_def invoice_boundary_refused)

subsection \<open>A sample database\<close>

text \<open>
  A driver and a server that know a few dates, with UTC clocks, and identifiers that differ in their last
  digit.
\<close>

definition sample_uuid :: "nat \<Rightarrow> string" where
  "sample_uuid i = ''00000000-0000-4000-8000-00000000000'' @ nat_text i"

definition sample_db :: "int list \<Rightarrow> list_db" where
  "sample_db ts =
     \<lparr>db_date = (\<lambda>us. Some (us div 1000)), db_uuid_text = sample_uuid,
      db_timestamp = (\<lambda>s. map_of (map (\<lambda>ms. (iso_string ms, 1000 * ms)) ts) s),
      db_uuid = (\<lambda>s. Some (nat (digits_value (drop 35 s)))), db_sent_date = (\<lambda>ms. Some (1000 * ms)),
      db_ilike = (\<lambda>pat t. pat = ''%'' @ t @ ''%'')\<rparr>"

definition sample_row :: "string \<Rightarrow> 'b \<Rightarrow> nat \<Rightarrow> int \<Rightarrow> 'b listed" where
  "sample_row owner b i us = \<lparr>l_id = i, l_owner = owner, l_created = us, l_body = b\<rparr>"

lemma sample_row_ok:
  "l_created r div 1000 = ms \<Longrightarrow> map_of (map (\<lambda>ms. (iso_string ms, 1000 * ms)) ts) (iso_string ms) = Some (1000 * ms) \<Longrightarrow>
   row_ok (sample_db ts) r"
  by (simp add: row_ok_def sample_db_def sample_uuid_def digits_value_nat_text)

definition sample_body :: contact_body where
  "sample_body = \<lparr>destinationType = ''phone'', destinationValue = ''+237670000001'', nickname = ''a''\<rparr>"

definition sample_contacts :: "int list \<Rightarrow> contacts_view" where
  "sample_contacts ts =
     \<lparr>cv_db = sample_db [1700000000000, 1700000000001], cv_date = (\<lambda>s. None),
      cv_rows = map2 (sample_row ''u'' sample_body) [1..<1 + length ts] ts, cv_user = ''u'', cv_search = None\<rparr>"

subsection \<open>Properties\<close>

text \<open>
  C28. A client that follows the cursors of the contacts gets what one unbounded query would give: every
  contact that matches, once, newest first. This holds for every page size up to 100 and any search, when
  the creation times are whole milliseconds and the cap on pages allows the number of contacts.
\<close>

theorem contacts_read_completely:
  assumes "listed_ok (cv_db v) (cv_rows v) n" and "\<forall>r \<in> set (cv_rows v). l_created r mod 1000 = 0"
    and "0 < m" "length (contacts_listing v) \<le> m * n"
  shows "chunkResults (\<lambda>_. contacts_fetch v n) (Some m) = Inr (contacts_listing v, [contacts_listing v])"
  using assms by (intro contact_pages.all_pages) (auto simp: contacts_sound_def whole_ms_def)

lemma sample_iso_distinct: "iso_string 1700000000001 \<noteq> iso_string 1700000000000"
  by code_simp

lemma sample_whole:
  "listed_ok (cv_db (sample_contacts [1700000000000000, 1700000000001000, 1700000000000000]))
     (cv_rows (sample_contacts [1700000000000000, 1700000000001000, 1700000000000000])) 2"
  by (simp add: listed_ok_def sample_contacts_def sample_row_def) (simp add: sample_row_ok sample_iso_distinct upt_rec)

theorem contacts_read_completely_witness:
  "chunkResults (\<lambda>_. contacts_fetch (sample_contacts [1700000000000000, 1700000000001000, 1700000000000000]) 2) (Some 10) =
     Inr (map2 (sample_row ''u'' sample_body) [2, 3, 1] [1700000000001000, 1700000000000000, 1700000000000000],
       [map2 (sample_row ''u'' sample_body) [2, 3, 1] [1700000000001000, 1700000000000000, 1700000000000000]])"
proof -
  let ?v = "sample_contacts [1700000000000000, 1700000000001000, 1700000000000000]"
  have listing: "contacts_listing ?v = map2 (sample_row ''u'' sample_body) [2, 3, 1] [1700000000001000, 1700000000000000, 1700000000000000]"
    by (simp add: contacts_listing_def sample_contacts_def contact_cond_def search_pattern_def in_order_def created_key_def sample_row_def upt_rec)
  show ?thesis unfolding listing [symmetric]
    by (rule contacts_read_completely [OF sample_whole])
      (simp_all add: listing, simp add: sample_contacts_def sample_row_def upt_rec)
qed

text \<open>
  C27. Timestamps of the table have microseconds and cursors have milliseconds. When the contacts of a
  user were created in one millisecond, for instance by one transaction, and not exactly at its start, a
  client that follows the cursors gets the first page and then an empty one: the rest is never returned,
  although the first page says that there is more. The comment of \<open>listByUser\<close> promises that rows with
  equal timestamps are never skipped.
\<close>

theorem same_millisecond_lost:
  assumes ok: "listed_ok (cv_db v) (cv_rows v) n" and "2 \<le> m" and long: "n < length (contacts_listing v)"
    and same: "\<forall>r \<in> set (contacts_listing v). l_created r div 1000 = t \<and> l_created r mod 1000 \<noteq> 0"
  shows "chunkResults (\<lambda>_. contacts_fetch v n) (Some m) =
    Inr (take n (contacts_listing v), [take n (contacts_listing v)])"
proof -
  let ?L = "contacts_listing v" and ?b = "last (take n (contacts_listing v))"
  have n: "0 < n" using ok by (simp add: listed_ok_def)
  with long have page: "take n ?L \<noteq> []" and bm: "?b \<in> set ?L" using last_of_page [of n ?L] by fastforce+
  then have b: "row_ok (cv_db v) ?b" using ok by (auto simp: contacts_listing_set listed_ok_def)
  have key: "created_key r < cut_key ?b \<Longrightarrow> r \<notin> set ?L" for r
  proof
    assume less: "created_key r < cut_key ?b" and r: "r \<in> set ?L"
    from same r bm have "l_created r div 1000 = l_created ?b div 1000" "l_created r mod 1000 \<noteq> 0" by auto
    moreover have "l_created r = 1000 * (l_created r div 1000) + l_created r mod 1000" by simp
    ultimately have "1000 * (l_created ?b div 1000) < l_created r" by (smt (verit) pos_mod_sign)
    with less show False by (simp add: created_key_def cut_key_def)
  qed
  have none: "filter (\<lambda>r. contact_cond (cv_db v) (cv_user v) (cv_search v) r \<and> created_key r < cut_key ?b) (cv_rows v) = []"
    unfolding filter_empty_conv using key contacts_listing_set by blast
  have first: "contacts_fetch v n None = Inr (take n ?L, Some (row_cursor (cv_db v) ?b))"
    using contacts_fetch_pages(1) [OF ok] long by (simp add: page_from_def)
  have second: "contacts_fetch v n (Some (row_cursor (cv_db v) ?b)) = Inr ([], None)"
    using contacts_fetch_pages(2) [OF ok b] none by (simp add: page_from_def in_order_def)
  have more: "0 < m" "Suc 0 < m" using assms(2) by simp_all
  have "paginate_loop (\<lambda>_. contacts_fetch v n) m None 0 0 = \<lparr>g_items = take n ?L, g_calls = 2, g_fault = None\<rparr>"
    unfolding paginate_loop_more [where f = "\<lambda>_. contacts_fetch v n", OF more(1) first _ page, simplified]
    by (simp add: paginate_loop_end [where f = "\<lambda>_. contacts_fetch v n", OF more(2) second])
  then show ?thesis by (simp add: chunkResults_def paginateAll_def)
qed

theorem same_millisecond_lost_witness:
  "chunkResults (\<lambda>_. contacts_fetch (sample_contacts [1700000000000007, 1700000000000007, 1700000000000007]) 2) (Some 10) =
     Inr (map2 (sample_row ''u'' sample_body) [3, 2] [1700000000000007, 1700000000000007],
       [map2 (sample_row ''u'' sample_body) [3, 2] [1700000000000007, 1700000000000007]])"
proof -
  let ?v = "sample_contacts [1700000000000007, 1700000000000007, 1700000000000007]"
  have listing: "contacts_listing ?v = map2 (sample_row ''u'' sample_body) [3, 2, 1] [1700000000000007, 1700000000000007, 1700000000000007]"
    by (simp add: contacts_listing_def sample_contacts_def contact_cond_def search_pattern_def in_order_def created_key_def sample_row_def upt_rec)
  have ok: "listed_ok (cv_db ?v) (cv_rows ?v) 2"
    by (simp add: listed_ok_def sample_contacts_def sample_row_def) (simp add: sample_row_ok upt_rec)
  show ?thesis
    using same_millisecond_lost [OF ok, of 10 1700000000000] by (simp add: listing sample_row_def)
qed

text \<open>
  A client that follows the cursors of the notes of a dispute gets every note once, decrypted, in
  either order: newest first, or the notes of the assigned agent before the others and each part newest
  first. The boundary of the second order carries the rank and the date in one text.
\<close>

theorem notes_read_completely:
  assumes "listed_ok (nv_db v) (nv_rows v) n" and "readable_notes (nv_lib v) (nv_env v) (nv_rows v)"
    and "\<forall>r \<in> set (nv_rows v). l_created r mod 1000 = 0" and "0 < m" "length (stored_notes v) \<le> m * n"
  shows "chunkResults (\<lambda>_. notes_fetch v n) (Some m) =
    Inr (map (plain_note (nv_lib v) (nv_env v)) (stored_notes v), [map (plain_note (nv_lib v) (nv_env v)) (stored_notes v)])"
  using note_pages.all_pages [of v n m] assms by (simp add: notes_sound_def whole_ms_def notes_listing_def)

definition sample_note :: "nat \<Rightarrow> int \<Rightarrow> string \<Rightarrow> note_body listed" where
  "sample_note i us author = sample_row ''d'' \<lparr>nb_author = author, nb_text = ''t''\<rparr> i us"

definition sample_notes :: notes_view where
  "sample_notes =
     \<lparr>nv_lib = toy_crypto, nv_env = env_v1, nv_db = sample_db [1700000000000, 1700000000001], nv_date = (\<lambda>s. None),
      nv_assigned = Some ''agent'',
      nv_rows = [sample_note 1 1700000000000000 ''agent'', sample_note 2 1700000000001000 ''user'', sample_note 3 1700000000000000 ''user''],
      nv_dispute = ''d'', nv_sort = By_relevance\<rparr>"

theorem notes_read_completely_witness:
  "chunkResults (\<lambda>_. notes_fetch sample_notes 2) (Some 2) =
     Inr ([sample_note 1 1700000000000000 ''agent'', sample_note 2 1700000000001000 ''user'', sample_note 3 1700000000000000 ''user''],
      [[sample_note 1 1700000000000000 ''agent'', sample_note 2 1700000000001000 ''user'', sample_note 3 1700000000000000 ''user'']])"
proof -
  let ?rows = "[sample_note 1 1700000000000000 ''agent'', sample_note 2 1700000000001000 ''user'', sample_note 3 1700000000000000 ''user'']"
  have stored: "stored_notes sample_notes = ?rows"
    by (simp add: stored_notes_def sample_notes_def sample_note_def sample_row_def in_order_def note_key_def note_rank_def created_key_def)
  have read: "read_note toy_crypto env_v1 r = Inr r" if "r \<in> set ?rows" for r
    using that by (auto simp: read_note_def sample_note_def sample_row_def decrypt_def)
  then have plain: "map (plain_note toy_crypto env_v1) ?rows = ?rows" by (simp add: plain_note_def)
  have "listed_ok (nv_db sample_notes) (nv_rows sample_notes) 2"
    by (simp add: listed_ok_def sample_notes_def sample_note_def sample_row_def) (simp add: sample_row_ok sample_iso_distinct)
  moreover have "readable_notes (nv_lib sample_notes) (nv_env sample_notes) (nv_rows sample_notes)"
    using read by (auto simp: readable_notes_def sample_notes_def)
  ultimately show ?thesis
    using notes_read_completely [of sample_notes 2 2] plain by (simp add: stored) (simp add: sample_notes_def sample_note_def sample_row_def)
qed

text \<open>
  The second page of a user's invoices cannot be read: whatever cursor the client sends, the
  statement refers to a fifth parameter and is given four, so that a client that follows the cursor of a
  first page that is not the last ends with the error of the database.
\<close>

theorem invoice_pages_stop:
  assumes n: "1 \<le> n" "n \<le> 100" and rows: "\<forall>r \<in> set rows. row_ok db r" and "2 \<le> m"
    and long: "n < length (filter (\<lambda>r. l_owner r = userId) rows)"
  shows "chunkResults (\<lambda>_. invoices_fetch db rows userId n) (Some m) = Inl (Source_error (Sql PlaceholderMismatch))"
proof -
  let ?L = "in_order Desc (\<lambda>r. [l_created r]) (filter (\<lambda>r. l_owner r = userId) rows)"
  let ?c = "row_cursor db (last (take n ?L))"
  have first: "invoices_fetch db rows userId n None = Inr (take n ?L, Some ?c)"
    using invoices_first_page [OF n rows, of userId] long by (simp add: page_from_def)
  have "length (take n ?L) = n" using long by simp
  then have page: "take n ?L \<noteq> []" using n by (metis list.size(3) not_one_le_zero)
  have more: "0 < m" "Suc 0 < m" using assms(4) by simp_all
  note second = invoices_next_page [OF n row_cursor_not_Nil, where db = db and rows = rows and userId = userId]
  have "g_fault (paginate_loop (\<lambda>_. invoices_fetch db rows userId n) m None 0 0) = Some (Source_error (Sql PlaceholderMismatch))"
    unfolding paginate_loop_more [where f = "\<lambda>_. invoices_fetch db rows userId n", OF more(1) first _ page, simplified]
    by (simp add: paginate_loop_throws [where f = "\<lambda>_. invoices_fetch db rows userId n", OF more(2) second])
  then show ?thesis by (simp add: chunkResults_def paginateAll_def Let_def)
qed

theorem invoice_pages_stop_witness:
  "chunkResults (\<lambda>_. invoices_fetch (sample_db [1700000000000])
      [sample_row ''u'' () 1 1700000000000000, sample_row ''u'' () 2 1700000000000000] ''u'' 1) (Some 5) =
    Inl (Source_error (Sql PlaceholderMismatch))"
  by (rule invoice_pages_stop) (simp_all add: sample_row_def, simp_all add: sample_row_ok)

text \<open>
  A page of transactions before a cursor leaves out the transaction next to the cursor. When more
  newer transactions match than fit a page, the handler reverses the rows before it drops the overflow
  row, and so drops the nearest instead of the farthest; the cursor of the page points further away still.
  The list of alerts, which drops first and reverses then, returns the rows next to the cursor.
\<close>

theorem history_page_skips_neighbour:
  assumes n: "1 \<le> n" "n \<le> 100" and b: "tx_cursor_ok k db b" "l_created b mod 1000 = 0"
    and rows: "distinct (map l_id rows)" "\<forall>r \<in> set rows. row_ok db r"
    and newer: "newer_rows cond (created_key b) rows = x # xs" "n \<le> length xs"
  shows "(\<exists>page. history_page k db cond ps rows n (Some (row_cursor db b)) None = Inr page \<and>
      pr_data page = rev (take n xs) \<and> x \<notin> set (pr_data page) \<and> pr_prev page = Some (row_cursor db (xs ! (n - 1)))) \<and>
    alert_page db new_date cond ps rows (Some (int n)) (Some (row_cursor db b)) None = Inr (rev (x # take (n - 1) xs), True)"
proof
  have cut: "cut_key b = created_key b" using b(2) by (simp add: cut_key_whole whole_ms_def)
  have b_ok: "row_ok db b" using b(1) by (simp add: tx_cursor_ok_def)
  have "distinct (map l_id (newer_rows cond (created_key b) rows))"
    using rows(1) by (auto simp: newer_rows_def distinct_map inj_on_def in_order_def)
  then have x: "x \<notin> set xs" using newer(1) by auto
  have sub: "set (x # xs) \<subseteq> set rows" using newer(1) by (metis (no_types, lifting) filter_is_subset in_order_set newer_rows_def)
  let ?R = "rev (take n xs) @ [x]"
  have len: "length (rev (take n xs)) = n" using newer(2) by simp
  then have take: "take n ?R = rev (take n xs)" "take (Suc n) ?R = ?R" by simp_all
  have "list_by_cursor k db cond ps rows (int n + 1) (Some (row_cursor db b)) None = Inr (x # take n xs)"
    using list_before [OF b(1), of n cond ps rows] n newer(1) cut by simp
  moreover have "createPaginatedResponse (take (Suc n) ?R) n (row_sort_value db) (row_id db) =
      Inr \<lparr>pr_data = take n ?R, pr_limit = n, pr_next = snd (page_from (row_cursor db) n ?R),
        pr_prev = (if ?R = [] then None else Some (row_cursor db (hd ?R))), pr_more = (n < length ?R)\<rparr>"
    using n(1) rows(2) sub by (intro response_page) (auto intro!: createCursor_row dest: in_set_takeD)
  moreover have "hd ?R = xs ! (n - 1)"
    using n(1) newer(2) by (cases n) (simp_all add: take_Suc_conv_app_nth)
  ultimately show "\<exists>page. history_page k db cond ps rows n (Some (row_cursor db b)) None = Inr page \<and>
      pr_data page = rev (take n xs) \<and> x \<notin> set (pr_data page) \<and> pr_prev page = Some (row_cursor db (xs ! (n - 1)))"
    using x newer(2) by (auto simp: history_page_def decode_tx_cursor [OF b(1)] take dest: in_set_takeD)
  show "alert_page db new_date cond ps rows (Some (int n)) (Some (row_cursor db b)) None = Inr (rev (x # take (n - 1) xs), True)"
    using alerts_before [OF b_ok n, of new_date cond ps rows] n(1) newer cut by (simp add: take_Cons')
qed

definition sample_checks :: "int list \<Rightarrow> cursor_checks" where
  "sample_checks ts = \<lparr>cc_datetime = (\<lambda>s. True), cc_parse = (\<lambda>s. map_of (map (\<lambda>ms. (iso_string ms, ms)) ts) s)\<rparr>"

theorem history_page_skips_neighbour_witness:
  "\<exists>page. history_page (sample_checks [1700000000000]) (sample_db [1700000000000, 1700000000001]) (\<lambda>r. True) []
      [sample_row ''u'' () 1 1700000000000000, sample_row ''u'' () 2 1700000000001000, sample_row ''u'' () 3 1700000000001000] 1
      (Some (row_cursor (sample_db [1700000000000, 1700000000001]) (sample_row ''u'' () 1 1700000000000000))) None = Inr page \<and>
    pr_data page = [sample_row ''u'' () 3 1700000000001000]"
proof -
  let ?db = "sample_db [1700000000000, 1700000000001]" and ?k = "sample_checks [1700000000000]"
  let ?row = "\<lambda>i. sample_row ''u'' () i" and ?a = "1700000000000000 :: int" and ?c = "1700000000001000 :: int"
  have newer: "newer_rows (\<lambda>r. True) (created_key (?row 1 ?a)) [?row 1 ?a, ?row 2 ?c, ?row 3 ?c] = [?row 2 ?c, ?row 3 ?c]"
    by (simp add: newer_rows_def in_order_def created_key_def sample_row_def)
  have ok: "\<forall>r \<in> set [?row 1 ?a, ?row 2 ?c, ?row 3 ?c]. row_ok ?db r"
    by (simp add: sample_row_def) (simp add: sample_row_ok sample_iso_distinct)
  have "cursor_id_ok (sample_uuid 1)" by code_simp
  then have b: "tx_cursor_ok ?k ?db (?row 1 ?a)"
    using ok by (simp add: tx_cursor_ok_def sample_checks_def cursor_timestamp_ok_def CURSOR_MIN_TIMESTAMP_def CURSOR_MAX_TIMESTAMP_def row_id_def)
      (simp add: sample_row_def sample_db_def)
  from history_page_skips_neighbour [OF _ _ b _ _ ok newer, of 1] show ?thesis
    by (auto simp: sample_row_def)
qed

end
