(* ===== verification/Fee_Bump.thy ===== *)
theory Fee_Bump
  imports Payment_Store
begin

text \<open>
  \<open>src/src/services/feeBumpRecoveryService.ts\<close>: the attempts to raise the fee of a stuck Stellar
  transaction, with their retries, the dead letters, the confirmation check after 15 seconds and the
  manual retry.

  The table \<open>fee_bump_attempts\<close> has no migration; it is a list of rows without a constraint. The pool of
  this service is the primary. Horizon is outside the repository: \<open>fw_replies\<close> are the answers of its
  submissions in order (an error or the hash) and \<open>fw_checks\<close> those of its look-ups, both arbitrary; when
  no answer is left the 30 seconds of the race are over. The SDK is two functions of the environment, each
  with a result or the message of the error it throws: \<open>env_transaction\<close> is the constructor \<open>Transaction\<close>
  on an XDR text and a passphrase, \<open>env_fee_bump\<close> is \<open>buildFeeBumpTransaction\<close> with its four parameters
  (source of the fee, fee, inner transaction, passphrase), of which the service passes three: the passphrase
  stands where the inner transaction is expected. An error is its message. A \<open>setTimeout\<close> is an
  entry of \<open>fw_timers\<close>; the process of its callback starts at any later time, or never. The columns
  \<open>created_at\<close> and \<open>updated_at\<close>, which no statement reads, are left out.
\<close>

subsection \<open>Types\<close>

datatype fee_bump_status = Fb_pending | Fb_submitting | Fb_submitted | Fb_confirmed | Fb_failed | Fb_dead_letter

datatype fee_bump_failure =
  Network_error | Sequence_number_mismatch | Insufficient_balance | Transaction_not_found
| Max_retries_exceeded | Unknown_failure

record fee_bump_attempt =
  fb_id :: string
  fb_transaction :: string
  fb_original_hash :: string
  fb_hash :: "string option"
  fb_status :: fee_bump_status
  fb_number :: nat
  fb_max_retries :: int
  fb_fee :: js_num
  fb_reason :: "fee_bump_failure option"
  fb_error :: "string option"
  fb_next_retry :: "iso_text option"

record fee_letter =
  fl_attempt :: string
  fl_reason :: fee_bump_failure
  fl_message :: string

record sep31_bump =
  bump_previous :: string
  bump_new :: "string option"
  bump_at :: iso_text

datatype sep31_status =
  Pending_sender | Pending_stellar | Pending_receiver | Pending_external | Sep31_completed | Sep31_error

record sep31_meta =
  sm_status :: sep31_status
  sm_hash :: string
  sm_submitted :: "iso_text option"
  sm_bumps :: "sep31_bump list"

record fee_world =
  fw_attempts :: "fee_bump_attempt list"
  fw_letters :: "fee_letter list"
  fw_timers :: "(string \<times> string) list"
  fw_sent :: "string list"
  fw_replies :: "(string + string option) list"
  fw_checks :: "bool option list"
  fw_clock :: int
  fw_payments :: world
  fw_sep31 :: "(string, sep31_meta) js_map"

text \<open>The values that the service hands to the SDK; a missing argument is \<open>Sdk_undefined\<close>.\<close>

datatype sdk_value = Sdk_transaction string | Sdk_string string | Sdk_undefined

record bump_env =
  env_max_retries :: int
  env_base_backoff :: js_num
  env_max_backoff :: js_num
  env_passphrase :: string
  env_transaction :: "string \<Rightarrow> string \<Rightarrow> string + string"
  env_fee_bump :: "sdk_value \<Rightarrow> js_num \<Rightarrow> sdk_value \<Rightarrow> sdk_value \<Rightarrow> string + string"
  env_query_lost :: string
  env_network_lost :: string
  env_fee_account :: "string + string"
  env_new_id :: "string \<Rightarrow> string"
  env_refuse_metadata :: "sep31_meta \<Rightarrow> string option"
  env_terminal :: "transaction_status list option"
  env_store_message :: "service_error \<Rightarrow> string"

type_synonym 'a fee = "(fee_world, string + 'a) proc"

subsection \<open>State machine\<close>

definition FEE_BUMP_TRANSITIONS :: "fee_bump_status \<Rightarrow> fee_bump_status list" where
  "FEE_BUMP_TRANSITIONS st = (case st of
     Fb_pending \<Rightarrow> [Fb_submitting] | Fb_submitting \<Rightarrow> [Fb_submitted, Fb_failed]
   | Fb_submitted \<Rightarrow> [Fb_confirmed, Fb_failed] | Fb_confirmed \<Rightarrow> []
   | Fb_failed \<Rightarrow> [Fb_submitting, Fb_dead_letter] | Fb_dead_letter \<Rightarrow> [Fb_submitting])"

definition isValidFeeBumpTransition :: "fee_bump_status \<Rightarrow> fee_bump_status \<Rightarrow> bool" where
  "isValidFeeBumpTransition from_status to_status = (to_status \<in> set (FEE_BUMP_TRANSITIONS from_status))"

definition fee_status_text :: "fee_bump_status \<Rightarrow> string" where
  "fee_status_text st = (case st of Fb_pending \<Rightarrow> ''pending'' | Fb_submitting \<Rightarrow> ''submitting'' | Fb_submitted \<Rightarrow> ''submitted''
   | Fb_confirmed \<Rightarrow> ''confirmed'' | Fb_failed \<Rightarrow> ''failed'' | Fb_dead_letter \<Rightarrow> ''dead_letter'')"

definition classifyFeeError :: "string \<Rightarrow> fee_bump_failure" where
  "classifyFeeError message =
     (let msg = toLowerCase message in
      if contains ''sequence'' msg then Sequence_number_mismatch
      else if contains ''balance'' msg \<or> contains ''underfunded'' msg then Insufficient_balance
      else if contains ''timeout'' msg \<or> contains ''network'' msg \<or> contains ''econnrefused'' msg then Network_error
      else if contains ''not found'' msg then Transaction_not_found
      else Unknown_failure)"

subsection \<open>Statements\<close>

definition find_attempt :: "string \<Rightarrow> fee_world \<Rightarrow> fee_bump_attempt option" where
  "find_attempt aid w = find (\<lambda>r. fb_id r = aid) (fw_attempts w)"

definition update_attempts :: "string \<Rightarrow> (fee_bump_attempt \<Rightarrow> fee_bump_attempt) \<Rightarrow> fee_world \<Rightarrow> fee_world" where
  "update_attempts aid f w = w\<lparr>fw_attempts := map (\<lambda>r. if fb_id r = aid then f r else r) (fw_attempts w)\<rparr>"

definition poolWrite :: "bump_env \<Rightarrow> (fee_world \<Rightarrow> fee_world) \<Rightarrow> unit fee" where
  "poolWrite env f = call (\<lambda>w. (Inr (), f w)) (env_query_lost env)"

definition getFeeBumpAttempt :: "bump_env \<Rightarrow> string \<Rightarrow> fee_bump_attempt option fee" where
  "getFeeBumpAttempt env aid = call (\<lambda>w. (Inr (find_attempt aid w), w)) (env_query_lost env)"

definition updateFeeBumpStatus :: "bump_env \<Rightarrow> string \<Rightarrow> fee_bump_status \<Rightarrow> unit fee" where
  "updateFeeBumpStatus env aid st = poolWrite env (update_attempts aid (\<lambda>r. r\<lparr>fb_status := st\<rparr>))"

definition logDeadLetterEvent :: "bump_env \<Rightarrow> string \<Rightarrow> fee_bump_failure \<Rightarrow> string \<Rightarrow> unit fee" where
  "logDeadLetterEvent env aid why message =
     poolWrite env (\<lambda>w. w\<lparr>fw_letters := fw_letters w @ [\<lparr>fl_attempt = aid, fl_reason = why, fl_message = message\<rparr>]\<rparr>)"

definition createFeeBumpAttempt ::
  "bump_env \<Rightarrow> string \<Rightarrow> string \<Rightarrow> string \<Rightarrow> js_num \<Rightarrow> int option \<Rightarrow> fee_bump_attempt fee" where
  "createFeeBumpAttempt env new_id tx original fee maxRetries =
     (let r = \<lparr>fb_id = new_id, fb_transaction = tx, fb_original_hash = original, fb_hash = None, fb_status = Fb_pending,
        fb_number = 0, fb_max_retries = (case maxRetries of Some m \<Rightarrow> m | None \<Rightarrow> env_max_retries env), fb_fee = fee,
        fb_reason = None, fb_error = None, fb_next_retry = None\<rparr>
      in and_then (poolWrite env (\<lambda>w. w\<lparr>fw_attempts := fw_attempts w @ [r]\<rparr>)) (\<lambda>_. ok r))"

subsection \<open>Failures and retries\<close>

text \<open>\<open>Math.pow(2, n)\<close> is exact until it overflows.\<close>

definition pow2 :: "nat \<Rightarrow> js_num" where
  "pow2 n = (if n < 1024 then Fin (2 ^ n) else PosInf)"

definition backoffMs :: "bump_env \<Rightarrow> nat \<Rightarrow> js_num" where
  "backoffMs env n = math_min (jmul (env_base_backoff env) (pow2 n)) (env_max_backoff env)"

definition nextRetryAt :: "bump_env \<Rightarrow> int \<Rightarrow> nat \<Rightarrow> range_error + iso_text" where
  "nextRetryAt env now n = toISOString (date_from (jadd (Fin (of_int now)) (backoffMs env n)))"

definition scheduleRetry :: "bump_env \<Rightarrow> string \<Rightarrow> fee_bump_failure \<Rightarrow> string option \<Rightarrow> unit fee" where
  "scheduleRetry env aid why message =
     and_then (getFeeBumpAttempt env aid) (\<lambda>found. case found of None \<Rightarrow> ok ()
     | Some a \<Rightarrow> and_then (local_step (\<lambda>w. (fw_clock w, w))) (\<lambda>now.
         case nextRetryAt env now (fb_number a) of
           Inl _ \<Rightarrow> throw ''Invalid time value''
         | Inr due \<Rightarrow> poolWrite env (update_attempts aid (\<lambda>r. r\<lparr>fb_status := Fb_failed, fb_reason := Some why,
             fb_error := message, fb_next_retry := Some due\<rparr>))))"

definition dead_lettered :: "nat \<Rightarrow> fee_bump_failure \<Rightarrow> string \<Rightarrow> fee_bump_attempt \<Rightarrow> fee_bump_attempt" where
  "dead_lettered n why message r = r\<lparr>fb_status := Fb_dead_letter, fb_number := n, fb_reason := Some why, fb_error := Some message\<rparr>"

definition handleFeeBumpFailure :: "bump_env \<Rightarrow> string \<Rightarrow> nat \<Rightarrow> fee_bump_failure \<Rightarrow> string \<Rightarrow> unit fee" where
  "handleFeeBumpFailure env aid n why message =
     and_then (getFeeBumpAttempt env aid) (\<lambda>found. case found of None \<Rightarrow> ok ()
     | Some a \<Rightarrow>
         if why = Sequence_number_mismatch \<or> why = Insufficient_balance
         then and_then (poolWrite env (update_attempts aid (dead_lettered n why message)))
                (\<lambda>_. logDeadLetterEvent env aid why message)
         else if fb_max_retries a \<le> int n
         then and_then (poolWrite env (update_attempts aid (dead_lettered n Max_retries_exceeded message)))
                (\<lambda>_. logDeadLetterEvent env aid Max_retries_exceeded message)
         else scheduleRetry env aid why (Some message))"

subsection \<open>Submission\<close>

definition submitTransaction :: "bump_env \<Rightarrow> string \<Rightarrow> string option fee" where
  "submitTransaction env envelope =
     call (\<lambda>w. case fw_replies w of
         [] \<Rightarrow> (Inl ''Submission timeout'', w\<lparr>fw_sent := fw_sent w @ [envelope]\<rparr>)
       | r # rs \<Rightarrow> (r, w\<lparr>fw_sent := fw_sent w @ [envelope], fw_replies := rs\<rparr>)) (env_network_lost env)"

definition build_envelope :: "bump_env \<Rightarrow> string \<Rightarrow> js_num \<Rightarrow> string + string" where
  "build_envelope env originalTxXdr fee =
     (case env_transaction env originalTxXdr (env_passphrase env) of Inl message \<Rightarrow> Inl message
      | Inr originalTx \<Rightarrow>
          env_fee_bump env (Sdk_transaction originalTx) fee (Sdk_string (env_passphrase env)) Sdk_undefined)"

definition submission :: "bump_env \<Rightarrow> fee_bump_attempt \<Rightarrow> string \<Rightarrow> string \<Rightarrow> fee_bump_attempt fee" where
  "submission env attempt aid originalTxXdr =
     (let n = Suc (fb_number attempt) in
      case build_envelope env originalTxXdr (fb_fee attempt) of Inl message \<Rightarrow> throw message
      | Inr envelope \<Rightarrow>
        and_then (submitTransaction env envelope) (\<lambda>hash.
        and_then (poolWrite env (update_attempts aid (\<lambda>r. r\<lparr>fb_status := Fb_submitted, fb_number := n,
                    fb_hash := if truthy_string hash then hash else None\<rparr>))) (\<lambda>_.
        and_then (local_step (\<lambda>w. ((), w\<lparr>fw_timers := fw_timers w @ [(aid, case hash of None \<Rightarrow> [] | Some h \<Rightarrow> h)]\<rparr>))) (\<lambda>_.
        ok (attempt\<lparr>fb_status := Fb_submitted, fb_number := n, fb_hash := hash\<rparr>)))))"

definition submitFeeBumpWithRetry :: "bump_env \<Rightarrow> string \<Rightarrow> string \<Rightarrow> fee_bump_attempt fee" where
  "submitFeeBumpWithRetry env aid originalTxXdr =
     and_then (getFeeBumpAttempt env aid) (\<lambda>found. case found of
       None \<Rightarrow> throw (''Fee bump attempt '' @ aid @ '' not found'')
     | Some attempt \<Rightarrow>
         and_then (updateFeeBumpStatus env aid Fb_submitting) (\<lambda>_.
         catch (submission env attempt aid originalTxXdr)
           (\<lambda>message. and_then (handleFeeBumpFailure env aid (Suc (fb_number attempt)) (classifyFeeError message) message)
             (\<lambda>_. throw message))))"

definition manualRetryFeeBump :: "bump_env \<Rightarrow> string \<Rightarrow> string \<Rightarrow> fee_bump_attempt fee" where
  "manualRetryFeeBump env aid originalTxXdr =
     and_then (getFeeBumpAttempt env aid) (\<lambda>found. case found of
       None \<Rightarrow> throw (''Fee bump attempt '' @ aid @ '' not found'')
     | Some attempt \<Rightarrow>
         if fb_status attempt \<noteq> Fb_dead_letter \<and> fb_status attempt \<noteq> Fb_failed
         then throw (''Cannot retry attempt in status '' @ fee_status_text (fb_status attempt))
         else and_then (poolWrite env (update_attempts aid (\<lambda>r. r\<lparr>fb_status := Fb_pending, fb_reason := None,
                fb_error := None, fb_next_retry := None\<rparr>)))
           (\<lambda>_. submitFeeBumpWithRetry env aid originalTxXdr))"

subsection \<open>Confirmation\<close>

text \<open>A look-up of a transaction: not found, or found with its field \<open>successful\<close>.\<close>

definition transaction_lookup :: "bump_env \<Rightarrow> bool fee" where
  "transaction_lookup env =
     call (\<lambda>w. case fw_checks w of [] \<Rightarrow> (Inl (env_network_lost env), w)
       | None # bs \<Rightarrow> (Inl ''Not Found'', w\<lparr>fw_checks := bs\<rparr>)
       | Some b # bs \<Rightarrow> (Inr b, w\<lparr>fw_checks := bs\<rparr>)) (env_network_lost env)"

definition checkFeeBumpConfirmed :: "bump_env \<Rightarrow> bool fee" where
  "checkFeeBumpConfirmed env = catch (transaction_lookup env) (\<lambda>_. ok False)"

text \<open>The callback of the timer: it starts when its entry is due, which takes the entry.\<close>

definition confirmation_check :: "bump_env \<Rightarrow> string \<Rightarrow> string \<Rightarrow> unit fee" where
  "confirmation_check env aid hash =
     and_then (local_step (\<lambda>w. ((aid, hash) \<in> set (fw_timers w), w\<lparr>fw_timers := remove1 (aid, hash) (fw_timers w)\<rparr>)))
       (\<lambda>due. if \<not> due then ok ()
         else catch (and_then (checkFeeBumpConfirmed env) (\<lambda>confirmed.
             if confirmed then updateFeeBumpStatus env aid Fb_confirmed
             else scheduleRetry env aid Transaction_not_found None))
           (\<lambda>_. scheduleRetry env aid Network_error None))"

subsection \<open>Statistics\<close>

record fee_stats =
  st_total :: nat
  st_pending :: nat
  st_confirmed :: nat
  st_failed :: nat
  st_dead_letter :: nat
  st_success_rate :: js_num

definition count_status :: "fee_bump_status list \<Rightarrow> fee_world \<Rightarrow> nat" where
  "count_status sts w = length (filter (\<lambda>r. fb_status r \<in> set sts) (fw_attempts w))"

definition fee_bump_stats :: "fee_world \<Rightarrow> fee_stats" where
  "fee_bump_stats w =
     (let total = length (fw_attempts w); confirmed = count_status [Fb_confirmed] w in
      \<lparr>st_total = total, st_pending = count_status [Fb_pending, Fb_submitting, Fb_submitted] w,
       st_confirmed = confirmed, st_failed = count_status [Fb_failed] w, st_dead_letter = count_status [Fb_dead_letter] w,
       st_success_rate = (if 0 < total
         then jdiv (math_round (jmul (jdiv (of_exact (of_nat confirmed)) (of_exact (of_nat total))) (Fin 10000))) (Fin 100)
         else Fin 0)\<rparr>)"

definition getFeeBumpRecoveryStats :: "bump_env \<Rightarrow> fee_stats fee" where
  "getFeeBumpRecoveryStats env = call (\<lambda>w. (Inr (fee_bump_stats w), w)) (env_query_lost env)"

subsection \<open>The job for SEP-31 payments\<close>

text \<open>
  \<open>src/src/jobs/sep31FeeBumpJob.ts\<close>. \<open>fw_sep31\<close> has the \<open>sep31\<close> metadata of the transactions of the provider
  stellar-sep31 and \<open>fw_payments\<close> the tables; the time of a submission, compared as text in the query, is
  its instant. \<open>env_refuse_metadata\<close> is the answer of the validation of metadata, \<open>env_fee_account\<close> the public
  key that the SDK derives from the configured secret (or its error), \<open>env_new_id\<close> the identifier drawn for
  an attempt.
\<close>

definition on_payments :: "bump_env \<Rightarrow> 'a service \<Rightarrow> 'a fee" where
  "on_payments env q = bind_proc (lift_proc fw_payments (\<lambda>p w. w\<lparr>fw_payments := p\<rparr>) q)
     (\<lambda>r. case r of Inl e \<Rightarrow> throw (env_store_message env e) | Inr x \<Rightarrow> ok x)"

definition updateMetadata :: "bump_env \<Rightarrow> string \<Rightarrow> sep31_meta \<Rightarrow> unit fee" where
  "updateMetadata env tx meta =
     (case env_refuse_metadata env meta of Some message \<Rightarrow> throw message
      | None \<Rightarrow> poolWrite env (\<lambda>w. if map_get (fw_sep31 w) tx = None then w
                  else w\<lparr>fw_sep31 := map_set tx meta (fw_sep31 w)\<rparr>))"

definition sep31_transaction_status :: "sep31_status \<Rightarrow> transaction_status" where
  "sep31_transaction_status st = (case st of Sep31_completed \<Rightarrow> Completed | Sep31_error \<Rightarrow> Failed | _ \<Rightarrow> Pending)"

definition updateSep31Status :: "bump_env \<Rightarrow> string \<Rightarrow> sep31_status \<Rightarrow> sep31_meta \<Rightarrow> unit fee" where
  "updateSep31Status env tx newStatus meta =
     and_then (updateMetadata env tx (meta\<lparr>sm_status := newStatus\<rparr>)) (\<lambda>_.
       on_payments env (updateTransactionStatus (env_terminal env) tx (sep31_transaction_status newStatus) None None))"

definition checkTransactionConfirmed :: "bump_env \<Rightarrow> bool fee" where
  "checkTransactionConfirmed env = catch (and_then (transaction_lookup env) (\<lambda>_. ok True)) (\<lambda>_. ok False)"

definition stuck_rows :: "fee_world \<Rightarrow> (string \<times> sep31_meta) list" where
  "stuck_rows w = filter (\<lambda>(tx, meta).
       (case map_get (txs (current (fw_payments w))) tx of Some t \<Rightarrow> tx_status t = Pending | None \<Rightarrow> False)
       \<and> sm_status meta = Pending_stellar
       \<and> (case sm_submitted meta of Some (Iso t) \<Rightarrow> t < fw_clock w - 60000 | None \<Rightarrow> False)) (fw_sep31 w)"

definition process_stuck :: "bump_env \<Rightarrow> string \<Rightarrow> sep31_meta \<Rightarrow> unit fee" where
  "process_stuck env tx meta =
     and_then (checkTransactionConfirmed env) (\<lambda>isConfirmed.
     if isConfirmed then updateSep31Status env tx Pending_receiver meta
     else and_then (createFeeBumpAttempt env (env_new_id env tx) tx (sm_hash meta) (Fin 100) None) (\<lambda>attempt.
       case env_fee_account env of Inl message \<Rightarrow> throw message
       | Inr feeAccount \<Rightarrow> and_then (submitFeeBumpWithRetry env (fb_id attempt) feeAccount) (\<lambda>result.
           if fb_status result = Fb_confirmed
           then and_then (local_step (\<lambda>w. (fw_clock w, w))) (\<lambda>now. updateMetadata env tx
                  (meta\<lparr>sm_hash := (case fb_hash result of Some h \<Rightarrow> h | None \<Rightarrow> sm_hash meta), sm_submitted := Some (Iso now),
                        sm_bumps := sm_bumps meta @ [\<lparr>bump_previous = sm_hash meta, bump_new = fb_hash result, bump_at = Iso now\<rparr>]\<rparr>))
           else if fb_status result = Fb_dead_letter then updateSep31Status env tx Sep31_error meta
           else ok ())))"

fun process_all_stuck :: "bump_env \<Rightarrow> (string \<times> sep31_meta) list \<Rightarrow> unit fee" where
  "process_all_stuck env [] = ok ()"
| "process_all_stuck env ((tx, meta) # rows) =
     and_then (catch (process_stuck env tx meta) (\<lambda>_. ok ())) (\<lambda>_. process_all_stuck env rows)"

definition runSep31FeeBumpJob :: "bump_env \<Rightarrow> unit fee" where
  "runSep31FeeBumpJob env =
     catch (and_then (call (\<lambda>w. (Inr (stuck_rows w), w)) (env_query_lost env)) (\<lambda>rows.
       and_then (process_all_stuck env rows) (\<lambda>_.
         catch (and_then (getFeeBumpRecoveryStats env) (\<lambda>_. ok ())) (\<lambda>_. ok ())))) (\<lambda>_. ok ())"

definition retryDeadLetteredFeeBump :: "bump_env \<Rightarrow> string \<Rightarrow> unit fee" where
  "retryDeadLetteredFeeBump env aid =
     (case env_fee_account env of Inl message \<Rightarrow> throw message
      | Inr feeAccount \<Rightarrow> and_then (manualRetryFeeBump env aid feeAccount) (\<lambda>_. ok ()))"

subsection \<open>One submission\<close>

lemma find_map_same:
  "(\<And>r. fb_id (f r) = fb_id r) \<Longrightarrow>
   find (\<lambda>r. fb_id r = aid) (map (\<lambda>r. if fb_id r = aid then f r else r) rs) = map_option f (find (\<lambda>r. fb_id r = aid) rs)"
  by (induction rs) auto

lemma find_update_attempts:
  "(\<And>r. fb_id (f r) = fb_id r) \<Longrightarrow> find_attempt aid (update_attempts aid f w) = map_option f (find_attempt aid w)"
  by (simp add: find_attempt_def update_attempts_def find_map_same)

lemma find_update_other [simp]:
  assumes "\<And>r. fb_id (f r) = fb_id r" and "other \<noteq> aid"
  shows "find_attempt other (update_attempts aid f w) = find_attempt other w"
proof -
  have "find (\<lambda>r. fb_id r = other) (map (\<lambda>r. if fb_id r = aid then f r else r) rs) = find (\<lambda>r. fb_id r = other) rs" for rs
    using assms by (induction rs) auto
  then show ?thesis by (simp add: find_attempt_def update_attempts_def)
qed

lemma find_attempt_other [simp]:
  "find_attempt aid (w\<lparr>fw_letters := ls\<rparr>) = find_attempt aid w" "find_attempt aid (w\<lparr>fw_timers := ts\<rparr>) = find_attempt aid w"
  "find_attempt aid (w\<lparr>fw_sent := xs\<rparr>) = find_attempt aid w" "find_attempt aid (w\<lparr>fw_replies := rp\<rparr>) = find_attempt aid w"
  "find_attempt aid (w\<lparr>fw_checks := cs\<rparr>) = find_attempt aid w" "find_attempt aid (w\<lparr>fw_clock := t\<rparr>) = find_attempt aid w"
  "find_attempt aid (w\<lparr>fw_sep31 := m\<rparr>) = find_attempt aid w" "find_attempt aid (w\<lparr>fw_payments := p\<rparr>) = find_attempt aid w"
  by (simp_all add: find_attempt_def)

lemma update_attempts_fields [simp]:
  "fw_letters (update_attempts aid f w) = fw_letters w" "fw_timers (update_attempts aid f w) = fw_timers w"
  "fw_sent (update_attempts aid f w) = fw_sent w" "fw_replies (update_attempts aid f w) = fw_replies w"
  "fw_checks (update_attempts aid f w) = fw_checks w" "fw_clock (update_attempts aid f w) = fw_clock w"
  "fw_sep31 (update_attempts aid f w) = fw_sep31 w" "fw_payments (update_attempts aid f w) = fw_payments w"
  "length (fw_attempts (update_attempts aid f w)) = length (fw_attempts w)"
  by (simp_all add: update_attempts_def)

lemma run_poolWrite [proc_simps]:
  "run_proc (poolWrite env f) is w =
     (if first_outcome is = Lost \<or> first_outcome is = Lost_after then Inl (env_query_lost env) else Inr (),
      if first_outcome is = Lost then w else f w, tl is)"
  by (simp add: poolWrite_def run_call Let_def)

lemma run_getFeeBumpAttempt [proc_simps]:
  "run_proc (getFeeBumpAttempt env aid) is w =
     (if first_outcome is = Lost \<or> first_outcome is = Lost_after then Inl (env_query_lost env) else Inr (find_attempt aid w), w, tl is)"
  by (simp add: getFeeBumpAttempt_def run_call Let_def)

lemma ids_update_attempts:
  "(\<And>r. fb_id (f r) = fb_id r) \<Longrightarrow> map fb_id (fw_attempts (update_attempts aid f w)) = map fb_id (fw_attempts w)"
  by (simp add: update_attempts_def)

text \<open>The reply that a submission gets, and the world in which Horizon has it.\<close>

definition next_reply :: "fee_world \<Rightarrow> string + string option" where
  "next_reply w = (case fw_replies w of [] \<Rightarrow> Inl ''Submission timeout'' | r # _ \<Rightarrow> r)"

definition sent_world :: "string \<Rightarrow> fee_world \<Rightarrow> fee_world" where
  "sent_world envelope w = w\<lparr>fw_sent := fw_sent w @ [envelope], fw_replies := tl (fw_replies w)\<rparr>"

lemma sent_world_fields [simp]:
  "find_attempt aid (sent_world envelope w) = find_attempt aid w" "fw_letters (sent_world envelope w) = fw_letters w"
  "fw_timers (sent_world envelope w) = fw_timers w" "fw_clock (sent_world envelope w) = fw_clock w"
  "fw_sep31 (sent_world envelope w) = fw_sep31 w" "fw_payments (sent_world envelope w) = fw_payments w"
  "fw_sent (sent_world envelope w) = fw_sent w @ [envelope]" "fw_replies (sent_world envelope w) = tl (fw_replies w)"
  "fw_attempts (sent_world envelope w) = fw_attempts w" "fw_checks (sent_world envelope w) = fw_checks w"
  by (simp_all add: sent_world_def)

lemma run_submitTransaction:
  "run_proc (submitTransaction env envelope) [] w = (next_reply w, sent_world envelope w, [])"
  by (simp add: submitTransaction_def run_call Let_def next_reply_def sent_world_def split: list.splits)

definition retryable :: "fee_bump_failure \<Rightarrow> bool" where
  "retryable why = (why \<noteq> Sequence_number_mismatch \<and> why \<noteq> Insufficient_balance)"

text \<open>
  What the submission comes to: the error of the SDK, or Horizon's answer; and the world with the envelope
  sent, when there is one.
\<close>

definition outcome :: "bump_env \<Rightarrow> string \<Rightarrow> fee_bump_attempt \<Rightarrow> fee_world \<Rightarrow> string + string option" where
  "outcome env xdr a w = (case build_envelope env xdr (fb_fee a) of Inl message \<Rightarrow> Inl message | Inr _ \<Rightarrow> next_reply w)"

definition envelopes :: "bump_env \<Rightarrow> string \<Rightarrow> fee_bump_attempt \<Rightarrow> string list" where
  "envelopes env xdr a = (case build_envelope env xdr (fb_fee a) of Inl _ \<Rightarrow> [] | Inr envelope \<Rightarrow> [envelope])"

definition replies_left :: "bump_env \<Rightarrow> string \<Rightarrow> fee_bump_attempt \<Rightarrow> fee_world \<Rightarrow> (string + string option) list" where
  "replies_left env xdr a w =
     (case build_envelope env xdr (fb_fee a) of Inl _ \<Rightarrow> fw_replies w | Inr _ \<Rightarrow> tl (fw_replies w))"

text \<open>The row after a submission that no call of the database lost.\<close>

definition row_after :: "fee_bump_attempt \<Rightarrow> iso_text \<Rightarrow> string + string option \<Rightarrow> fee_bump_attempt" where
  "row_after a due reply = (let n = Suc (fb_number a) in
     case reply of
       Inr hash \<Rightarrow> a\<lparr>fb_status := Fb_submitted, fb_number := n, fb_hash := if truthy_string hash then hash else None\<rparr>
     | Inl message \<Rightarrow> let why = classifyFeeError message in
         if \<not> retryable why then dead_lettered n why message a
         else if fb_max_retries a \<le> int n then dead_lettered n Max_retries_exceeded message a
         else a\<lparr>fb_status := Fb_failed, fb_reason := Some why, fb_error := Some message, fb_next_retry := Some due\<rparr>)"

definition letters_after :: "string \<Rightarrow> fee_bump_attempt \<Rightarrow> string + string option \<Rightarrow> fee_letter list" where
  "letters_after aid a reply = (case reply of Inr _ \<Rightarrow> []
     | Inl message \<Rightarrow> let why = classifyFeeError message in
         if \<not> retryable why then [\<lparr>fl_attempt = aid, fl_reason = why, fl_message = message\<rparr>]
         else if fb_max_retries a \<le> int (Suc (fb_number a))
         then [\<lparr>fl_attempt = aid, fl_reason = Max_retries_exceeded, fl_message = message\<rparr>] else [])"

definition timers_after :: "string \<Rightarrow> string + string option \<Rightarrow> (string \<times> string) list" where
  "timers_after aid reply = (case reply of Inr hash \<Rightarrow> [(aid, case hash of None \<Rightarrow> [] | Some h \<Rightarrow> h)] | Inl _ \<Rightarrow> [])"

definition result_of :: "fee_bump_attempt \<Rightarrow> string + string option \<Rightarrow> string + fee_bump_attempt" where
  "result_of a reply = (case reply of Inl message \<Rightarrow> Inl message
     | Inr hash \<Rightarrow> Inr (a\<lparr>fb_status := Fb_submitted, fb_number := Suc (fb_number a), fb_hash := hash\<rparr>))"

definition resubmitted :: "bump_env \<Rightarrow> string \<Rightarrow> string \<Rightarrow> fee_world \<Rightarrow> fee_world" where
  "resubmitted env aid xdr w = fst (snd (run_proc (submitFeeBumpWithRetry env aid xdr) [] w))"

lemma dead_lettered_id [simp]: "fb_id (dead_lettered n why message a) = fb_id a"
  by (simp add: dead_lettered_def)

lemma submission_effect:
  assumes "find_attempt aid w = Some a" and "nextRetryAt env (fw_clock w) (fb_number a) = Inr due"
  shows "\<exists>w'. run_proc (submitFeeBumpWithRetry env aid xdr) [] w = (result_of a (outcome env xdr a w), w', []) \<and>
    find_attempt aid w' = Some (row_after a due (outcome env xdr a w)) \<and>
    fw_letters w' = fw_letters w @ letters_after aid a (outcome env xdr a w) \<and>
    fw_timers w' = fw_timers w @ timers_after aid (outcome env xdr a w) \<and>
    fw_sent w' = fw_sent w @ envelopes env xdr a \<and> fw_replies w' = replies_left env xdr a w \<and> fw_clock w' = fw_clock w \<and>
    fw_sep31 w' = fw_sep31 w \<and> fw_payments w' = fw_payments w \<and> fw_checks w' = fw_checks w \<and>
    map fb_id (fw_attempts w') = map fb_id (fw_attempts w) \<and>
    (\<forall>other. other \<noteq> aid \<longrightarrow> find_attempt other w' = find_attempt other w)"
proof (cases "build_envelope env xdr (fb_fee a)")
  case (Inl message)
  then show ?thesis
    using assms
    by (simp add: submitFeeBumpWithRetry_def updateFeeBumpStatus_def submission_def
      handleFeeBumpFailure_def scheduleRetry_def logDeadLetterEvent_def proc_simps find_update_attempts ids_update_attempts Let_def
      outcome_def envelopes_def replies_left_def result_of_def row_after_def letters_after_def timers_after_def retryable_def
      dead_lettered_def)
next
  case (Inr envelope)
  then show ?thesis
    using assms
    by (cases "next_reply w")
      (simp_all add: submitFeeBumpWithRetry_def updateFeeBumpStatus_def submission_def run_submitTransaction
      handleFeeBumpFailure_def scheduleRetry_def logDeadLetterEvent_def proc_simps find_update_attempts ids_update_attempts Let_def
      outcome_def envelopes_def replies_left_def result_of_def row_after_def letters_after_def timers_after_def retryable_def
      next_reply_def dead_lettered_def split: list.splits)
qed

subsection \<open>Repeated failures\<close>

text \<open>Submissions at the given times, each after the failure of the one before.\<close>

fun failed_submissions :: "bump_env \<Rightarrow> string \<Rightarrow> string \<Rightarrow> int list \<Rightarrow> fee_world \<Rightarrow> fee_world" where
  "failed_submissions env aid xdr [] w = w"
| "failed_submissions env aid xdr (t # ts) w =
     failed_submissions env aid xdr ts (resubmitted env aid xdr (w\<lparr>fw_clock := t\<rparr>))"

definition only_retryable :: "(string + string option) list \<Rightarrow> bool" where
  "only_retryable rs = list_all (\<lambda>r. case r of Inr _ \<Rightarrow> False | Inl message \<Rightarrow> retryable (classifyFeeError message)) rs"

lemma timeout_retryable: "classifyFeeError ''Submission timeout'' = Network_error"
  by code_simp

lemma only_retryable_next:
  assumes "only_retryable (fw_replies w)"
  shows "(\<exists>message. next_reply w = Inl message \<and> retryable (classifyFeeError message)) \<and> only_retryable (tl (fw_replies w))"
  using assms by (cases "fw_replies w") (auto simp: next_reply_def only_retryable_def timeout_retryable retryable_def
      split: sum.splits)

text \<open>The SDK, when it refuses a call, does so with an error that the service retries.\<close>

definition refusals_retried :: "bump_env \<Rightarrow> string \<Rightarrow> js_num \<Rightarrow> bool" where
  "refusals_retried env xdr fee =
     (case build_envelope env xdr fee of Inl message \<Rightarrow> retryable (classifyFeeError message) | Inr _ \<Rightarrow> True)"

lemma outcome_retryable:
  assumes "refusals_retried env xdr (fb_fee a)" and "only_retryable (fw_replies w)"
  shows "(\<exists>message. outcome env xdr a w = Inl message \<and> retryable (classifyFeeError message)) \<and>
    only_retryable (replies_left env xdr a w)"
  using assms only_retryable_next [OF assms(2)]
  by (auto simp: outcome_def replies_left_def refusals_retried_def split: sum.splits)

lemma failed_submission_step:
  assumes "find_attempt aid w = Some a" and "refusals_retried env xdr (fb_fee a)"
    and "nextRetryAt env t (fb_number a) = Inr due" and "int (Suc (fb_number a)) < fb_max_retries a"
    and "only_retryable (fw_replies w)" and "w' = resubmitted env aid xdr (w\<lparr>fw_clock := t\<rparr>)"
  shows "\<exists>why message. find_attempt aid w' = Some (a\<lparr>fb_status := Fb_failed, fb_reason := Some why, fb_error := Some message,
       fb_next_retry := Some due\<rparr>) \<and> fw_letters w' = fw_letters w \<and> fw_sent w' = fw_sent w @ envelopes env xdr a \<and>
     only_retryable (fw_replies w')"
proof -
  let ?w = "w\<lparr>fw_clock := t\<rparr>"
  have "only_retryable (fw_replies ?w)" using assms(5) by simp
  from outcome_retryable [OF assms(2) this] obtain message where
    m: "outcome env xdr a ?w = Inl message" "retryable (classifyFeeError message)"
    and rest: "only_retryable (replies_left env xdr a ?w)" by blast
  have found: "find_attempt aid ?w = Some a" using assms(1) by simp
  have due: "nextRetryAt env (fw_clock ?w) (fb_number a) = Inr due" using assms(3) by simp
  from submission_effect [OF found due, of xdr] obtain w1 where
    "run_proc (submitFeeBumpWithRetry env aid xdr) [] ?w = (result_of a (outcome env xdr a ?w), w1, [])"
    and "find_attempt aid w1 = Some (row_after a due (outcome env xdr a ?w))"
    and "fw_letters w1 = fw_letters ?w @ letters_after aid a (outcome env xdr a ?w)"
    and "fw_sent w1 = fw_sent ?w @ envelopes env xdr a" and "fw_replies w1 = replies_left env xdr a ?w" by blast
  moreover from this have "w' = w1" using assms(6) by (simp add: resubmitted_def)
  ultimately show ?thesis using m rest assms(4) by (auto simp: row_after_def letters_after_def Let_def)
qed

lemma envelopes_cong: "fb_fee b = fb_fee a \<Longrightarrow> envelopes env xdr b = envelopes env xdr a"
  by (simp add: envelopes_def)

lemma failed_submissions_effect:
  assumes "find_attempt aid w = Some a" and "refusals_retried env xdr (fb_fee a)"
    and "\<forall>t \<in> set ts. \<exists>due. nextRetryAt env t (fb_number a) = Inr due" and "int (Suc (fb_number a)) < fb_max_retries a"
    and "only_retryable (fw_replies w)"
  shows "(\<exists>b. find_attempt aid (failed_submissions env aid xdr ts w) = Some b \<and> fb_number b = fb_number a \<and>
       (ts \<noteq> [] \<longrightarrow> fb_status b = Fb_failed \<and> nextRetryAt env (last ts) (fb_number a) = Inr (the (fb_next_retry b)))) \<and>
     fw_letters (failed_submissions env aid xdr ts w) = fw_letters w \<and>
     fw_sent (failed_submissions env aid xdr ts w) = fw_sent w @ concat (replicate (length ts) (envelopes env xdr a))"
  using assms
proof (induction ts arbitrary: w a)
  case Nil
  then show ?case by simp
next
  case (Cons t ts)
  from Cons.prems(3) obtain due where due: "nextRetryAt env t (fb_number a) = Inr due" by auto
  obtain why message where
    f: "find_attempt aid (resubmitted env aid xdr (w\<lparr>fw_clock := t\<rparr>)) = Some (a\<lparr>fb_status := Fb_failed,
       fb_reason := Some why, fb_error := Some message, fb_next_retry := Some due\<rparr>)"
    and l: "fw_letters (resubmitted env aid xdr (w\<lparr>fw_clock := t\<rparr>)) = fw_letters w"
    and s: "fw_sent (resubmitted env aid xdr (w\<lparr>fw_clock := t\<rparr>)) = fw_sent w @ envelopes env xdr a"
    and r: "only_retryable (fw_replies (resubmitted env aid xdr (w\<lparr>fw_clock := t\<rparr>)))"
    using failed_submission_step [OF Cons.prems(1,2) due Cons.prems(4,5) refl] by blast
  show ?case
  proof (cases "ts = []")
    case True
    then show ?thesis using f l s due by simp
  next
    case False
    then show ?thesis
      using Cons.IH [OF f _ _ _ r] Cons.prems(2-4) l s by (simp add: envelopes_cong [of "a\<lparr>fb_status := x, fb_reason := y, fb_error := z, fb_next_retry := v\<rparr>" a for x y z v])
  qed
qed

subsection \<open>The table of transitions and the statistics\<close>

text \<open>No statement consults the table: a first submission that ends as a dead letter, and a manual retry, leave it.\<close>

lemma dead_letter_leaves_table:
  "\<not> isValidFeeBumpTransition Fb_submitting Fb_dead_letter" "\<not> isValidFeeBumpTransition Fb_failed Fb_pending"
  "\<not> isValidFeeBumpTransition Fb_dead_letter Fb_pending" "isValidFeeBumpTransition Fb_submitting Fb_failed"
  by (simp_all add: isValidFeeBumpTransition_def FEE_BUMP_TRANSITIONS_def)

lemma stats_partition:
  "st_pending (fee_bump_stats w) + st_confirmed (fee_bump_stats w) + st_failed (fee_bump_stats w) +
   st_dead_letter (fee_bump_stats w) = st_total (fee_bump_stats w)"
proof -
  have "length (filter (\<lambda>r. fb_status r \<in> {Fb_pending, Fb_submitting, Fb_submitted}) rs) + length (filter (\<lambda>r. fb_status r \<in> {Fb_confirmed}) rs) +
    length (filter (\<lambda>r. fb_status r \<in> {Fb_failed}) rs) + length (filter (\<lambda>r. fb_status r \<in> {Fb_dead_letter}) rs) = length rs"
    for rs :: "fee_bump_attempt list"
  proof (induction rs)
    case (Cons r rs)
    then show ?case by (cases "fb_status r") simp_all
  qed simp
  from this [of "fw_attempts w"] show ?thesis by (simp add: fee_bump_stats_def count_status_def Let_def)
qed

text \<open>The success rate is a percentage already; the job multiplies it by 100 once more.\<close>

lemma success_rate_percent:
  assumes "fw_attempts w \<noteq> []" and "\<forall>r \<in> set (fw_attempts w). fb_status r = Fb_confirmed" and "length (fw_attempts w) \<le> 2 ^ 53"
  shows "st_success_rate (fee_bump_stats w) = Fin 100"
proof -
  have n: "of_exact (of_nat (length (fw_attempts w))) = Fin (of_nat (length (fw_attempts w)))"
    using of_exact_int [of "int (length (fw_attempts w))"] assms(3) by simp
  have "length (filter (\<lambda>r. fb_status r \<in> {Fb_confirmed}) (fw_attempts w)) = length (fw_attempts w)"
    using assms(2) by (simp add: filter_id_conv)
  moreover have "of_exact 1 = Fin 1" "of_exact 100 = Fin 100" "of_exact 10000 = Fin 10000"
    using of_exact_int [of 1] of_exact_int [of 100] of_exact_int [of 10000] by simp_all
  ultimately show ?thesis using assms(1) n by (simp add: fee_bump_stats_def count_status_def Let_def)
qed

subsection \<open>Properties\<close>

definition sample_attempt :: fee_bump_attempt where
  "sample_attempt = \<lparr>fb_id = ''fb1'', fb_transaction = ''t'', fb_original_hash = ''h0'', fb_hash = None, fb_status = Fb_pending,
     fb_number = 0, fb_max_retries = 5, fb_fee = Fin 100, fb_reason = None, fb_error = None, fb_next_retry = None\<rparr>"

definition sample_fee_world :: fee_world where
  "sample_fee_world = \<lparr>fw_attempts = [sample_attempt], fw_letters = [], fw_timers = [], fw_sent = [],
     fw_replies = [], fw_checks = [], fw_clock = 1000000,
     fw_payments = \<lparr>versions = [\<lparr>txs = [(''t'', \<lparr>tx_id = ''t'', tx_reference = ''R'', tx_status = Pending, tx_user = None,
       tx_key = None, tx_unreadable = None\<rparr>)], reversals = [], reversal_events = [], disputes = [], dispute_notes = [], dispute_timeline = []\<rparr>],
       ledger = \<lparr>accounts = [], users = [], ledger_entries = []\<rparr>, notices = []\<rparr>,
     fw_sep31 = [(''t'', \<lparr>sm_status = Pending_stellar, sm_hash = ''h0'', sm_submitted = Some (Iso 0), sm_bumps = []\<rparr>)]\<rparr>"

definition sample_bump_env :: bump_env where
  "sample_bump_env = \<lparr>env_max_retries = 5, env_base_backoff = Fin 5000, env_max_backoff = Fin 300000,
     env_passphrase = ''testnet'',
     env_transaction = (\<lambda>xdr p. if xdr = ''xdr'' then Inr ''tx'' else Inl ''XDR Read Error''),
     env_fee_bump = (\<lambda>source fee inner p. case inner of Sdk_transaction tx \<Rightarrow> Inr (''bump '' @ tx)
       | _ \<Rightarrow> Inl ''Cannot read properties of undefined''), env_query_lost = ''connection lost'', env_network_lost = ''network down'',
     env_fee_account = Inr ''GFEE'', env_new_id = (\<lambda>tx. ''fb_'' @ tx), env_refuse_metadata = (\<lambda>_. None), env_terminal = None,
     env_store_message = (\<lambda>_. ''store'')\<rparr>"

text \<open>
  C12. Retries are never used up. While an attempt has at least two retries left and its submissions fail
  with errors that are retried, whether the SDK refuses the envelope (as it does for the call of this
  service) or Horizon answers with a time out, a network error or an unknown one, every further submission
  leaves the attempt failed with the same attempt number: after any number of them the bound on the retries
  is not reached, no dead letter is written, the delay before the next retry is still the first one, and
  the envelope, if the SDK built one, has been sent every time.
\<close>

theorem retries_never_exhausted:
  assumes "find_attempt aid w = Some a" and "refusals_retried env xdr (fb_fee a)"
    and "\<forall>t \<in> set ts. \<exists>due. nextRetryAt env t (fb_number a) = Inr due" and "int (Suc (fb_number a)) < fb_max_retries a"
    and "only_retryable (fw_replies w)" and "ts \<noteq> []" and "w' = failed_submissions env aid xdr ts w"
  shows "\<exists>b. find_attempt aid w' = Some b \<and> fb_status b = Fb_failed \<and> fb_number b = fb_number a \<and>
    nextRetryAt env (last ts) (fb_number a) = Inr (the (fb_next_retry b)) \<and> fw_letters w' = fw_letters w \<and>
    fw_sent w' = fw_sent w @ concat (replicate (length ts) (envelopes env xdr a))"
  using failed_submissions_effect [OF assms(1-5)] assms(6,7) by auto

lemma next_retry_integer:
  assumes "backoffMs env n = Fin (of_int b)" and "0 \<le> b" and "0 \<le> now" and "now + b \<le> max_time"
  shows "nextRetryAt env now n = Inr (Iso (now + b))"
proof -
  have "of_exact (of_int (now + b)) = Fin (of_int (now + b))" using assms(2-4) by (intro of_exact_int) (simp add: max_time_def)
  then have "jadd (Fin (of_int now)) (backoffMs env n) = Fin (of_int (now + b))" using assms(1) by simp
  moreover have "\<not> of_int now + of_int b < (0 :: rat)" using assms(2,3) by (simp flip: of_int_add)
  ultimately show ?thesis using assms(2-4)
    by (simp add: nextRetryAt_def date_from_def time_clip_def toISOString_def flip: of_int_add)
qed

lemma sample_backoff: "backoffMs sample_bump_env 0 = Fin (of_int 5000)"
  using of_exact_int [of 5000] by (simp add: backoffMs_def sample_bump_env_def pow2_def math_min_def)

lemma sample_due: "0 \<le> now \<Longrightarrow> now \<le> 10 ^ 15 \<Longrightarrow> nextRetryAt sample_bump_env now 0 = Inr (Iso (now + 5000))"
  by (intro next_retry_integer sample_backoff) (simp_all add: max_time_def)

lemma sample_attempt_found: "find_attempt ''fb1'' sample_fee_world = Some sample_attempt"
  by (simp add: find_attempt_def sample_fee_world_def sample_attempt_def)

lemma sample_attempt_fields [simp]: "fb_number sample_attempt = 0" "fb_max_retries sample_attempt = 5" "fb_fee sample_attempt = Fin 100"
  by (simp_all only: sample_attempt_def fee_bump_attempt.simps)

lemma sample_replies [simp]: "fw_replies sample_fee_world = []"
  by (simp only: sample_fee_world_def fee_world.simps)

text \<open>The passphrase where the inner transaction belongs: the sample SDK refuses every call of the service.\<close>

lemma sample_build: "build_envelope sample_bump_env ''xdr'' fee = Inl ''Cannot read properties of undefined''"
  by (simp add: build_envelope_def sample_bump_env_def)

lemma undefined_retryable: "retryable (classifyFeeError ''Cannot read properties of undefined'')"
  by code_simp

lemma sample_refusals: "refusals_retried sample_bump_env ''xdr'' fee"
  by (simp add: refusals_retried_def sample_build undefined_retryable)

theorem retries_never_exhausted_witness:
  "\<exists>b. find_attempt ''fb1'' (failed_submissions sample_bump_env ''fb1'' ''xdr'' [1000000, 1030000, 1060000] sample_fee_world) = Some b \<and>
    fb_status b = Fb_failed \<and> fb_number b = 0 \<and> the (fb_next_retry b) = Iso 1065000"
  using retries_never_exhausted [OF sample_attempt_found sample_refusals, of "[1000000, 1030000, 1060000]" _, OF _ _ _ _ refl]
  by (auto simp: sample_due only_retryable_def)

end
