(* ===== verification/Fee_Bump_Runs.thy ===== *)
theory Fee_Bump_Runs
  imports Fee_Bump
begin

text \<open>
  The calls of the fee bump service and of its job running together on any number of servers, with any
  outcome of every call. The locale \<open>fee_invariant\<close> collects what an invariant of the service has to
  satisfy, one law for each statement and each local step; \<open>fee_job_invariant\<close> adds the metadata of the
  job. Both are interpreted twice: for the rows of the attempts and for the metadata of the payments.
\<close>

subsection \<open>Calls\<close>

datatype fee_call =
  Create_call string string string js_num "int option"
| Submit_call string string
| Manual_call string string
| Dead_letter_call string
| Timer_call string string
| Job_call

definition finish_fee_call :: "('w, 'a) proc \<Rightarrow> ('w, unit) proc" where
  "finish_fee_call p = bind_proc p (\<lambda>_. Finished ())"

fun fee_call_proc :: "bump_env \<Rightarrow> fee_call \<Rightarrow> (fee_world, unit) proc" where
  "fee_call_proc env (Create_call new_id tx original fee retries) =
     finish_fee_call (createFeeBumpAttempt env new_id tx original fee retries)"
| "fee_call_proc env (Submit_call aid xdr) = finish_fee_call (submitFeeBumpWithRetry env aid xdr)"
| "fee_call_proc env (Manual_call aid xdr) = finish_fee_call (manualRetryFeeBump env aid xdr)"
| "fee_call_proc env (Dead_letter_call aid) = finish_fee_call (retryDeadLetteredFeeBump env aid)"
| "fee_call_proc env (Timer_call aid hash) = finish_fee_call (confirmation_check env aid hash)"
| "fee_call_proc env Job_call = finish_fee_call (runSep31FeeBumpJob env)"

definition fee_requests :: "(bump_env \<times> fee_call) list \<Rightarrow> (fee_world, unit) proc list" where
  "fee_requests cs = map (\<lambda>(env, c). fee_call_proc env c) cs"

subsection \<open>Invariants of the service\<close>

definition letter_reason :: "fee_bump_failure \<Rightarrow> bool" where
  "letter_reason why = (\<not> retryable why \<or> why = Max_retries_exceeded)"

locale fee_invariant =
  fixes I :: "fee_world \<Rightarrow> bool"
    and retries_of :: "string \<Rightarrow> int"
  assumes found: "I w \<Longrightarrow> find_attempt aid w = Some a \<Longrightarrow> fb_max_retries a = retries_of aid"
    and sent: "I w \<Longrightarrow> I (w\<lparr>fw_sent := xs\<rparr>)"
    and replies: "I w \<Longrightarrow> I (w\<lparr>fw_replies := rs\<rparr>)"
    and timers: "I w \<Longrightarrow> I (w\<lparr>fw_timers := ts\<rparr>)"
    and checks: "I w \<Longrightarrow> I (w\<lparr>fw_checks := cs\<rparr>)"
    and payments: "I w \<Longrightarrow> I (w\<lparr>fw_payments := p\<rparr>)"
    and letters: "I w \<Longrightarrow> letter_reason (fl_reason l) \<Longrightarrow> I (w\<lparr>fw_letters := fw_letters w @ [l]\<rparr>)"
    and status: "I w \<Longrightarrow> st = Fb_submitting \<or> st = Fb_confirmed \<Longrightarrow> I (update_attempts aid (\<lambda>r. r\<lparr>fb_status := st\<rparr>) w)"
    and submitted: "I w \<Longrightarrow>
      I (update_attempts aid (\<lambda>r. r\<lparr>fb_status := Fb_submitted, fb_number := Suc n, fb_hash := h\<rparr>) w)"
    and failed: "I w \<Longrightarrow> I (update_attempts aid (\<lambda>r. r\<lparr>fb_status := Fb_failed, fb_reason := Some why, fb_error := e,
      fb_next_retry := Some due\<rparr>) w)"
    and dead: "I w \<Longrightarrow> \<not> retryable why \<or> why = Max_retries_exceeded \<and> retries_of aid \<le> int n \<Longrightarrow>
      I (update_attempts aid (dead_lettered n why e') w)"
    and reset: "I w \<Longrightarrow> I (update_attempts aid (\<lambda>r. r\<lparr>fb_status := Fb_pending, fb_reason := None, fb_error := None,
      fb_next_retry := None\<rparr>) w)"
    and created: "I w \<Longrightarrow> fb_status r = Fb_pending \<Longrightarrow> fb_reason r = None \<Longrightarrow> fb_next_retry r = None \<Longrightarrow> fb_number r = 0 \<Longrightarrow>
      fb_max_retries r = retries_of (fb_id r) \<Longrightarrow> I (w\<lparr>fw_attempts := fw_attempts w @ [r]\<rparr>)"
begin

lemma keeps_poolWrite: "(\<And>w. I w \<Longrightarrow> I (f w)) \<Longrightarrow> keeps I (on_ok (\<lambda>_. True)) (poolWrite env f)"
  unfolding poolWrite_def by (rule keeps_call) simp

lemma keeps_get: "keeps I (on_ok (\<lambda>found. \<forall>a. found = Some a \<longrightarrow> fb_max_retries a = retries_of aid)) (getFeeBumpAttempt env aid)"
  unfolding getFeeBumpAttempt_def by (rule keeps_call) (auto intro: found)

lemma keeps_scheduleRetry: "keeps I (on_ok (\<lambda>_. True)) (scheduleRetry env aid why message)"
  unfolding scheduleRetry_def
  by (rule keeps_and_then [OF keeps_get])
    (auto intro!: keeps_option keeps_ok keeps_throw keeps_poolWrite failed keeps_and_then [where Q = "\<lambda>_. True"] keeps_local_step
      split: sum.splits)

lemma keeps_letter: "letter_reason why \<Longrightarrow> keeps I (on_ok (\<lambda>_. True)) (logDeadLetterEvent env aid why message)"
  unfolding logDeadLetterEvent_def by (rule keeps_poolWrite) (simp add: letters)

lemma keeps_handle: "keeps I (on_ok (\<lambda>_. True)) (handleFeeBumpFailure env aid n why message)"
  unfolding handleFeeBumpFailure_def
proof (rule keeps_and_then [OF keeps_get], rule keeps_option, goal_cases)
  case 1
  show ?case by (simp add: keeps_ok)
next
  case (2 x a)
  then have "fb_max_retries a = retries_of aid" by simp
  then show ?case
    by (intro keeps_if keeps_and_then [where Q = "\<lambda>_. True"] keeps_poolWrite dead keeps_letter keeps_scheduleRetry)
      (auto simp: retryable_def letter_reason_def)
qed

lemma keeps_submitTransaction: "keeps I (on_ok (\<lambda>_. True)) (submitTransaction env envelope)"
  unfolding submitTransaction_def by (rule keeps_call) (auto split: list.splits intro: sent replies)

lemma keeps_submission: "keeps I (on_ok (\<lambda>r. fb_status r = Fb_submitted)) (submission env attempt aid xdr)"
  unfolding submission_def Let_def
  by (auto intro!: keeps_throw keeps_ok keeps_and_then [OF keeps_submitTransaction] keeps_and_then [where Q = "\<lambda>_. True"]
      keeps_poolWrite submitted keeps_local_step timers split: sum.splits)

text \<open>Whatever happens, a submission that returns reports the status submitted.\<close>

lemma keeps_submit: "keeps I (on_ok (\<lambda>r. fb_status r = Fb_submitted)) (submitFeeBumpWithRetry env aid xdr)"
  unfolding submitFeeBumpWithRetry_def updateFeeBumpStatus_def
  by (rule keeps_and_then [OF keeps_get])
    (auto intro!: keeps_option keeps_throw keeps_and_then [where Q = "\<lambda>_. True"] keeps_poolWrite status keeps_catch
      keeps_submission keeps_handle)

lemma keeps_manual: "keeps I (on_ok (\<lambda>_. True)) (manualRetryFeeBump env aid xdr)"
  unfolding manualRetryFeeBump_def
  by (rule keeps_and_then [OF keeps_get])
    (auto intro!: keeps_option keeps_throw keeps_if keeps_and_then [where Q = "\<lambda>_. True"] keeps_poolWrite reset
      keeps_weaken [OF keeps_submit] simp: on_ok_def split: sum.splits)

lemma keeps_dead_letter_call: "keeps I (on_ok (\<lambda>_. True)) (retryDeadLetteredFeeBump env aid)"
  unfolding retryDeadLetteredFeeBump_def
  by (auto intro!: keeps_throw keeps_ok keeps_and_then [OF keeps_manual] split: sum.splits)

lemma keeps_lookup: "keeps I (on_ok (\<lambda>_. True)) (transaction_lookup env)"
  unfolding transaction_lookup_def by (rule keeps_call) (auto split: list.splits option.splits intro: checks)

lemma keeps_confirmed: "keeps I (on_ok (\<lambda>_. True)) (checkFeeBumpConfirmed env)"
  unfolding checkFeeBumpConfirmed_def by (auto intro!: keeps_catch keeps_lookup keeps_ok)

lemma keeps_timer: "keeps I (on_ok (\<lambda>_. True)) (confirmation_check env aid hash)"
  unfolding confirmation_check_def updateFeeBumpStatus_def
  by (auto intro!: keeps_and_then [where Q = "\<lambda>_. True"] keeps_local_step timers keeps_if keeps_ok keeps_catch keeps_confirmed
      keeps_poolWrite status keeps_scheduleRetry)

lemma keeps_create:
  "retries_of new_id = (case retries of Some m \<Rightarrow> m | None \<Rightarrow> env_max_retries env) \<Longrightarrow>
   keeps I (on_ok (\<lambda>_. True)) (createFeeBumpAttempt env new_id tx original fee retries)"
  unfolding createFeeBumpAttempt_def Let_def
  by (auto intro!: keeps_and_then [where Q = "\<lambda>_. True"] keeps_poolWrite created keeps_ok)

lemma keeps_on_payments: "keeps I (on_ok (\<lambda>_. True)) (on_payments env q)"
proof -
  have "keeps I (\<lambda>_. True) (lift_proc fw_payments (\<lambda>p w. w\<lparr>fw_payments := p\<rparr>) q)"
    by (induction q rule: proc_induct) (auto intro: payments)
  then show ?thesis unfolding on_payments_def
    by (rule keeps_bind) (auto intro: keeps_throw keeps_ok split: sum.splits)
qed

end

subsection \<open>Invariants of the job\<close>

fun call_ok :: "(string \<Rightarrow> int) \<Rightarrow> bump_env \<Rightarrow> fee_call \<Rightarrow> bool" where
  "call_ok retries_of env (Create_call new_id tx original fee retries) =
     (retries_of new_id = (case retries of Some m \<Rightarrow> m | None \<Rightarrow> env_max_retries env))"
| "call_ok retries_of env Job_call = (\<forall>tx. retries_of (env_new_id env tx) = env_max_retries env)"
| "call_ok retries_of env c = True"

definition fee_program :: "(string \<Rightarrow> int) \<Rightarrow> (fee_world, unit) proc \<Rightarrow> bool" where
  "fee_program retries_of p \<longleftrightarrow> (\<exists>env c. call_ok retries_of env c \<and> p = fee_call_proc env c)"

lemma keeps_finish_fee_call: "keeps I (on_ok (\<lambda>_. True)) p \<Longrightarrow> keeps I (\<lambda>_. True) (finish_fee_call p)"
  unfolding finish_fee_call_def by (erule keeps_bind) simp

locale fee_job_invariant = fee_invariant +
  fixes seen :: "string \<Rightarrow> sep31_meta \<Rightarrow> bool"
  assumes query: "I w \<Longrightarrow> (tx, meta) \<in> set (stuck_rows w) \<Longrightarrow> seen tx meta"
    and received: "I w \<Longrightarrow> seen tx meta \<Longrightarrow> map_get (fw_sep31 w) tx \<noteq> None \<Longrightarrow>
      I (w\<lparr>fw_sep31 := map_set tx (meta\<lparr>sm_status := Pending_receiver\<rparr>) (fw_sep31 w)\<rparr>)"
begin

lemma keeps_received: "seen tx meta \<Longrightarrow> keeps I (on_ok (\<lambda>_. True)) (updateSep31Status env tx Pending_receiver meta)"
  unfolding updateSep31Status_def updateMetadata_def
  by (auto intro!: keeps_and_then [where Q = "\<lambda>_. True"] keeps_throw keeps_poolWrite received keeps_on_payments
      split: option.splits)

lemma keeps_process_stuck:
  assumes "seen tx meta" and "retries_of (env_new_id env tx) = env_max_retries env"
  shows "keeps I (on_ok (\<lambda>_. True)) (process_stuck env tx meta)"
proof -
  have "keeps I (on_ok (\<lambda>_. True)) (checkTransactionConfirmed env)"
    unfolding checkTransactionConfirmed_def by (intro keeps_catch keeps_and_then [OF keeps_lookup] keeps_ok) simp_all
  moreover have "keeps I (on_ok (\<lambda>_. True)) (createFeeBumpAttempt env (env_new_id env tx) tx (sm_hash meta) (Fin 100) None)"
    by (rule keeps_create) (simp add: assms(2))
  ultimately show ?thesis
    unfolding process_stuck_def
    by (auto intro!: keeps_and_then [where Q = "\<lambda>_. True"] keeps_received [OF assms(1)] keeps_throw keeps_ok
        keeps_and_then [OF keeps_submit] split: sum.splits)
qed

lemma keeps_process_all:
  "\<forall>(tx, meta) \<in> set rows. seen tx meta \<Longrightarrow> \<forall>tx. retries_of (env_new_id env tx) = env_max_retries env \<Longrightarrow>
   keeps I (on_ok (\<lambda>_. True)) (process_all_stuck env rows)"
  by (induction env rows rule: process_all_stuck.induct)
    (auto intro!: keeps_ok keeps_and_then [where Q = "\<lambda>_. True"] keeps_catch keeps_process_stuck)

lemma keeps_job:
  assumes "\<forall>tx. retries_of (env_new_id env tx) = env_max_retries env"
  shows "keeps I (on_ok (\<lambda>_. True)) (runSep31FeeBumpJob env)"
proof -
  have q: "keeps I (on_ok (\<lambda>rows. \<forall>(tx, meta) \<in> set rows. seen tx meta)) (call (\<lambda>w. (Inr (stuck_rows w), w)) (env_query_lost env))"
    by (rule keeps_call) (auto intro: query)
  have s: "keeps I (on_ok (\<lambda>_. True)) (getFeeBumpRecoveryStats env)"
    unfolding getFeeBumpRecoveryStats_def by (rule keeps_call) simp
  show ?thesis unfolding runSep31FeeBumpJob_def
    by (intro keeps_catch keeps_and_then [OF q] keeps_and_then [OF keeps_process_all] keeps_and_then [OF s] keeps_ok)
      (auto simp: assms)
qed

lemma keeps_fee_call: "call_ok retries_of env c \<Longrightarrow> keeps I (\<lambda>_. True) (fee_call_proc env c)"
  by (cases c) (auto intro!: keeps_finish_fee_call keeps_create keeps_submit [THEN keeps_weaken] keeps_manual keeps_dead_letter_call
      keeps_timer keeps_job)

end

subsection \<open>The rows of the attempts\<close>

definition attempt_ok :: "(string \<Rightarrow> int) \<Rightarrow> fee_bump_attempt \<Rightarrow> bool" where
  "attempt_ok retries_of r \<longleftrightarrow> fb_max_retries r = retries_of (fb_id r) \<and>
     (fb_status r = Fb_pending \<longrightarrow> fb_reason r = None \<and> fb_next_retry r = None) \<and>
     (fb_status r = Fb_submitted \<longrightarrow> 0 < fb_number r) \<and>
     (fb_status r = Fb_failed \<longrightarrow> fb_reason r \<noteq> None \<and> fb_next_retry r \<noteq> None) \<and>
     (fb_status r = Fb_dead_letter \<longrightarrow> fb_error r \<noteq> None \<and>
       (\<exists>why. fb_reason r = Some why \<and> (\<not> retryable why \<or> why = Max_retries_exceeded \<and> fb_max_retries r \<le> int (fb_number r))))"

definition fee_rows_ok :: "(string \<Rightarrow> int) \<Rightarrow> fee_world \<Rightarrow> bool" where
  "fee_rows_ok retries_of w \<longleftrightarrow> list_all (attempt_ok retries_of) (fw_attempts w) \<and>
     list_all (\<lambda>l. letter_reason (fl_reason l)) (fw_letters w)"

lemma fee_rows_update:
  "fee_rows_ok m w \<Longrightarrow> (\<And>r. attempt_ok m r \<Longrightarrow> fb_id r = aid \<Longrightarrow> attempt_ok m (f r)) \<Longrightarrow> fee_rows_ok m (update_attempts aid f w)"
  by (auto simp: fee_rows_ok_def update_attempts_def list_all_iff)

lemma fee_rows_found: "fee_rows_ok m w \<Longrightarrow> find_attempt aid w = Some a \<Longrightarrow> fb_max_retries a = m aid"
  by (auto simp: fee_rows_ok_def find_attempt_def find_Some_iff list_all_length attempt_ok_def)

interpretation fee_rows: fee_job_invariant "fee_rows_ok m" m "\<lambda>_ _. True" for m
  by unfold_locales (auto simp: fee_rows_found intro!: fee_rows_update,
    auto simp: fee_rows_ok_def attempt_ok_def dead_lettered_def)

interpretation fee_rows_world: shared_world "fee_rows_ok m" "fee_program m" for m
  by unfold_locales (auto simp: fee_program_def intro: fee_rows.keeps_fee_call)

subsection \<open>The metadata of the payments\<close>

definition received_or_same :: "(string, sep31_meta) js_map \<Rightarrow> string \<Rightarrow> sep31_meta option \<Rightarrow> bool" where
  "received_or_same m0 tx meta \<longleftrightarrow>
     meta = map_get m0 tx \<or> meta = map_option (\<lambda>m. m\<lparr>sm_status := Pending_receiver\<rparr>) (map_get m0 tx)"

definition metadata_kept :: "(string, sep31_meta) js_map \<Rightarrow> fee_world \<Rightarrow> bool" where
  "metadata_kept m0 w \<longleftrightarrow> map_wf (fw_sep31 w) \<and> (\<forall>tx. received_or_same m0 tx (map_get (fw_sep31 w) tx))"

lemma stuck_row_received: "metadata_kept m0 w \<Longrightarrow> (tx, meta) \<in> set (stuck_rows w) \<Longrightarrow> received_or_same m0 tx (Some meta)"
  by (auto simp: metadata_kept_def stuck_rows_def map_wf_def map_get_def dest: map_of_is_SomeI
      dest!: spec [of _ tx])

lemma received_again:
  "metadata_kept m0 w \<Longrightarrow> received_or_same m0 tx (Some meta) \<Longrightarrow>
   metadata_kept m0 (w\<lparr>fw_sep31 := map_set tx (meta\<lparr>sm_status := Pending_receiver\<rparr>) (fw_sep31 w)\<rparr>)"
  by (cases "map_get m0 tx") (auto simp: metadata_kept_def received_or_same_def map_get_set)

interpretation fee_meta: fee_job_invariant "\<lambda>w. metadata_kept m0 w \<and> fee_rows_ok m w" m "\<lambda>tx meta. received_or_same m0 tx (Some meta)" for m0 m
  by unfold_locales (auto simp: fee_rows_found stuck_row_received received_again,
    auto simp: metadata_kept_def intro: fee_rows.sent fee_rows.replies fee_rows.timers fee_rows.checks fee_rows.payments
      fee_rows.letters fee_rows.status fee_rows.submitted fee_rows.failed fee_rows.dead fee_rows.reset fee_rows.created
      fee_rows.received)

interpretation fee_meta_world: shared_world "\<lambda>w. metadata_kept m0 w \<and> fee_rows_ok m w" "fee_program m" for m0 m
  by unfold_locales (auto simp: fee_program_def intro: fee_meta.keeps_fee_call)

lemma fee_requests_program: "\<forall>(env, c) \<in> set cs. call_ok m env c \<Longrightarrow> list_all (fee_program m) (fee_requests cs)"
  by (fastforce simp: fee_requests_def fee_program_def list_all_iff)


subsection \<open>Repeated runs of the job\<close>












definition failed_at_first :: "string \<Rightarrow> fee_world \<Rightarrow> bool" where
  "failed_at_first aid w = (case find_attempt aid w of None \<Rightarrow> False | Some b \<Rightarrow> fb_status b = Fb_failed \<and> fb_number b = 0)"

lemma failed_at_first_cong: "find_attempt aid w' = find_attempt aid w \<Longrightarrow> failed_at_first aid w' = failed_at_first aid w"
  by (simp add: failed_at_first_def)






subsection \<open>Properties\<close>

lemma sample_rows_ok: "fee_rows_ok (\<lambda>_. 5) sample_fee_world"
  by (simp add: fee_rows_ok_def attempt_ok_def sample_fee_world_def sample_attempt_def)

text \<open>
  C13. The rows of the attempts stay consistent. Whatever submissions, retries, confirmation checks and
  job runs go on at the same time, with lost and failing calls: the bound of an attempt never changes, a
  failed attempt has a reason and a time for the next retry, and an attempt is a dead letter only if its
  reason is unrecoverable or its attempt number has reached the bound.
\<close>

theorem fee_rows_consistent:
  assumes "fee_rows_ok retries_of w" and "\<forall>(env, c) \<in> set cs. call_ok retries_of env c"
    and "w' = snd (run_pool sched (fee_requests cs) w)" and "a \<in> set (fw_attempts w')"
  shows "fb_max_retries a = retries_of (fb_id a) \<and>
    (fb_status a = Fb_failed \<longrightarrow> fb_reason a \<noteq> None \<and> fb_next_retry a \<noteq> None) \<and>
    (fb_status a = Fb_dead_letter \<longrightarrow> fb_reason a = Some Sequence_number_mismatch \<or> fb_reason a = Some Insufficient_balance \<or>
      fb_reason a = Some Max_retries_exceeded \<and> fb_max_retries a \<le> int (fb_number a))"
  using fee_rows_world.pool_inv [OF fee_requests_program [OF assms(2)] assms(1), of sched, folded assms(3)] assms(4)
  by (auto simp: fee_rows_ok_def list_all_iff attempt_ok_def retryable_def)

theorem fee_rows_consistent_witness:
  "\<forall>sched. list_all (\<lambda>a. fb_max_retries a = 5) (fw_attempts (snd (run_pool sched (fee_requests
     [(sample_bump_env, Submit_call ''fb1'' ''xdr''), (sample_bump_env, Manual_call ''fb1'' ''xdr'')]) sample_fee_world)))"
proof (intro allI, unfold list_all_iff, rule ballI)
  fix sched a
  assume "a \<in> set (fw_attempts (snd (run_pool sched (fee_requests
     [(sample_bump_env, Submit_call ''fb1'' ''xdr''), (sample_bump_env, Manual_call ''fb1'' ''xdr'')]) sample_fee_world)))"
  from fee_rows_consistent [OF sample_rows_ok _ refl this] show "fb_max_retries a = 5" by simp
qed

text \<open>
  C11. A fee bump is never recorded. Whatever runs of the job, submissions and confirmation checks go on
  at the same time, with any answers of Horizon: the metadata of every payment is what it was, except
  that its status may have become pending_receiver. Neither the hash of an accepted fee bump nor an
  attempt that ended as a dead letter reaches the payment, because a submission that returns always
  reports the status submitted.
\<close>

theorem job_never_records_bump:
  assumes "map_wf (fw_sep31 w)" and "fee_rows_ok retries_of w" and "\<forall>(env, c) \<in> set cs. call_ok retries_of env c"
    and "w' = snd (run_pool sched (fee_requests cs) w)"
  shows "map_get (fw_sep31 w') tx = map_get (fw_sep31 w) tx \<or>
    map_get (fw_sep31 w') tx = map_option (\<lambda>m. m\<lparr>sm_status := Pending_receiver\<rparr>) (map_get (fw_sep31 w) tx)"
proof -
  have "metadata_kept (fw_sep31 w) w \<and> fee_rows_ok retries_of w"
    using assms(1,2) by (simp add: metadata_kept_def received_or_same_def)
  from fee_meta_world.pool_inv [OF fee_requests_program [OF assms(3)] this, of sched, folded assms(4)]
  show ?thesis by (auto simp: metadata_kept_def received_or_same_def)
qed

theorem job_never_records_bump_witness:
  "\<forall>sched. map_option sm_hash (map_get (fw_sep31 (snd (run_pool sched (fee_requests
     [(sample_bump_env, Job_call), (sample_bump_env, Timer_call ''fb_t'' ''h1'')]) sample_fee_world))) ''t'') = Some ''h0''"
proof
  fix sched
  show "map_option sm_hash (map_get (fw_sep31 (snd (run_pool sched (fee_requests
     [(sample_bump_env, Job_call), (sample_bump_env, Timer_call ''fb_t'' ''h1'')]) sample_fee_world))) ''t'') = Some ''h0''"
    using job_never_records_bump [OF _ sample_rows_ok _ refl, of "[(sample_bump_env, Job_call), (sample_bump_env, Timer_call ''fb_t'' ''h1'')]" sched "''t''"]
    by (auto simp: sample_fee_world_def sample_bump_env_def map_wf_def map_get_def)
qed








end
