(* ===== verification/Name_Similarity.thy ===== *)
theory Name_Similarity
  imports Js_Value
begin

text \<open>
  The fuzzy comparison of names of \<open>src/src/services/sanctionService.ts\<close>: \<open>normalizeName\<close>, \<open>levenshtein\<close>,
  \<open>jaroWinkler\<close> and \<open>calculateSimilarity\<close>, with their loops over matrices and flags and in binary64.

  The matrix of \<open>levenshtein\<close> computes the cost of a cheapest alignment of the two strings, the loop
  that counts transpositions never runs past the flags, every score lies between 0 and 1, and a name all
  of whose words are words of the other one has the score 1.
\<close>

subsection \<open>Levenshtein distance\<close>

definition set_cell :: "nat \<Rightarrow> nat \<Rightarrow> nat \<Rightarrow> nat list list \<Rightarrow> nat list list" where
  "set_cell i j v m = m[i := (m ! i)[j := v]]"

definition fill_cell :: "string \<Rightarrow> string \<Rightarrow> nat \<Rightarrow> nat \<Rightarrow> nat list list \<Rightarrow> nat list list" where
  "fill_cell s1 s2 i j m =
     (let cost = (if s1 ! (i - 1) = s2 ! (j - 1) then 0 else 1)
      in set_cell i j (min (m ! (i - 1) ! j + 1) (min (m ! i ! (j - 1) + 1) (m ! (i - 1) ! (j - 1) + cost))) m)"

definition border :: "nat \<Rightarrow> nat \<Rightarrow> nat list list" where
  "border len1 len2 =
     fold (\<lambda>j m. set_cell 0 j j m) [0..<Suc len2]
       (fold (\<lambda>i m. set_cell i 0 i m) [0..<Suc len1] (replicate (Suc len1) (replicate (Suc len2) 0)))"

definition levenshtein :: "string \<Rightarrow> string \<Rightarrow> nat" where
  "levenshtein s1 s2 =
     (let len1 = length s1; len2 = length s2 in
      if len1 = 0 then len2 else if len2 = 0 then len1
      else fold (\<lambda>i m. fold (\<lambda>j m. fill_cell s1 s2 i j m) [1..<Suc len2] m) [1..<Suc len1] (border len1 len2) ! len1 ! len2)"

subsection \<open>Jaro-Winkler similarity\<close>

text \<open>The flags of the second string after the character at \<open>i\<close> looked for its match; \<open>maxDist\<close> may be -1.\<close>

definition window :: "string \<Rightarrow> int \<Rightarrow> nat \<Rightarrow> nat list" where
  "window s2 maxDist i = [nat (max 0 (int i - maxDist)) ..< nat (min (int i + maxDist + 1) (int (length s2)))]"

definition match_at :: "string \<Rightarrow> string \<Rightarrow> int \<Rightarrow> nat \<Rightarrow> bool list \<Rightarrow> nat option" where
  "match_at s1 s2 maxDist i match2 = find (\<lambda>j. \<not> match2 ! j \<and> s1 ! i = s2 ! j) (window s2 maxDist i)"

definition match_step :: "string \<Rightarrow> string \<Rightarrow> int \<Rightarrow> nat \<Rightarrow> bool list \<times> bool list \<times> nat \<Rightarrow> bool list \<times> bool list \<times> nat" where
  "match_step s1 s2 maxDist i = (\<lambda>(match1, match2, n).
     case match_at s1 s2 maxDist i match2 of None \<Rightarrow> (match1, match2, n)
     | Some j \<Rightarrow> (match1[i := True], match2[j := True], Suc n))"

definition match_flags :: "string \<Rightarrow> string \<Rightarrow> bool list \<times> bool list \<times> nat" where
  "match_flags s1 s2 =
     (let maxDist = int (max (length s1) (length s2) div 2) - 1
      in fold (match_step s1 s2 maxDist) [0..<length s1] (replicate (length s1) False, replicate (length s2) False, 0))"

text \<open>\<open>while (!match2[k]) k++\<close>: past the end of the flags it never ends, which is \<open>None\<close>.\<close>

fun next_match :: "bool list \<Rightarrow> nat \<Rightarrow> nat option" where
  "next_match [] k = None"
| "next_match (b # bs) k = (if b then Some k else next_match bs (Suc k))"

definition transposition_step ::
  "string \<Rightarrow> string \<Rightarrow> bool list \<Rightarrow> bool list \<Rightarrow> nat \<Rightarrow> (nat \<times> nat) option \<Rightarrow> (nat \<times> nat) option" where
  "transposition_step s1 s2 match1 match2 i st = (case st of None \<Rightarrow> None
     | Some (k, transpositions) \<Rightarrow>
         if \<not> match1 ! i then Some (k, transpositions)
         else (case next_match (drop k match2) k of None \<Rightarrow> None
           | Some k' \<Rightarrow> Some (Suc k', if s1 ! i \<noteq> s2 ! k' then Suc transpositions else transpositions)))"

definition transpositions :: "string \<Rightarrow> string \<Rightarrow> nat option" where
  "transpositions s1 s2 = (case match_flags s1 s2 of (match1, match2, n) \<Rightarrow>
     map_option snd (fold (transposition_step s1 s2 match1 match2) [0..<length s1] (Some (0, 0))))"

fun common_prefix :: "nat \<Rightarrow> string \<Rightarrow> string \<Rightarrow> nat" where
  "common_prefix (Suc n) (c # s) (d # t) = (if c = d then Suc (common_prefix n s t) else 0)"
| "common_prefix n s t = 0"

definition number :: "nat \<Rightarrow> js_num" where
  "number n = Fin (of_nat n)"

text \<open>\<open>None\<close> is the loop that does not end.\<close>

definition jaroWinkler :: "string \<Rightarrow> string \<Rightarrow> js_num option" where
  "jaroWinkler s1 s2 =
     (if s1 = s2 then Some (Fin 1)
      else if length s1 = 0 \<or> length s2 = 0 then Some (Fin 0)
      else case match_flags s1 s2 of (match1, match2, matches) \<Rightarrow>
        if matches = 0 then Some (Fin 0)
        else map_option (\<lambda>t.
          let jaro = jdiv (jadd (jadd (jdiv (number matches) (number (length s1))) (jdiv (number matches) (number (length s2))))
                       (jdiv (jsub (number matches) (jdiv (number t) (Fin 2))) (number matches))) (Fin 3);
              prefix = common_prefix 4 s1 s2
          in jadd jaro (jmul (jmul (number prefix) (of_exact (1 / 10))) (jsub (Fin 1) jaro))) (transpositions s1 s2))"

subsection \<open>Names\<close>

definition is_lower_alnum :: "char \<Rightarrow> bool" where
  "is_lower_alnum c = ((97 \<le> (of_char c :: nat) \<and> (of_char c :: nat) \<le> 122) \<or> is_digit c)"

fun collapse_spaces :: "string \<Rightarrow> string" where
  "collapse_spaces [] = []"
| "collapse_spaces (c # s) =
     (if is_space c \<and> s \<noteq> [] \<and> is_space (hd s) then collapse_spaces s
      else (if is_space c then CHR '' '' else c) # collapse_spaces s)"

definition normalizeName :: "string \<Rightarrow> string" where
  "normalizeName name =
     trim (collapse_spaces (map (\<lambda>c. if is_lower_alnum c \<or> is_space c then c else CHR '' '') (toLowerCase name)))"

definition tokens :: "string \<Rightarrow> string list" where
  "tokens s = filter (\<lambda>t. t \<noteq> []) (split (CHR '' '') s)"

text \<open>\<open>sort()\<close> orders strings by their code units.\<close>

fun insert_string :: "string \<Rightarrow> string list \<Rightarrow> string list" where
  "insert_string x [] = [x]"
| "insert_string x (y # ys) = (if string_less y x then y # insert_string x ys else x # y # ys)"

definition sort_strings :: "string list \<Rightarrow> string list" where
  "sort_strings xs = foldr insert_string xs []"

datatype match_type = Exact_match | Jaro_winkler_match | Typo_match | Permutation_match | Token_match | Substring_match

definition distance_score :: "string \<Rightarrow> string \<Rightarrow> js_num" where
  "distance_score s1 s2 =
     (let maxLen = max (length s1) (length s2)
      in if 0 < maxLen then jsub (Fin 1) (jdiv (number (levenshtein s1 s2)) (number maxLen)) else Fin 0)"

text \<open>\<open>Math.max(a, b)\<close> and the pattern \<open>if (sim > best) best = sim\<close>.\<close>

definition better :: "js_num \<Rightarrow> js_num \<Rightarrow> js_num" where
  "better sim best = (if jlt best sim then sim else best)"

fun best_token :: "string \<Rightarrow> string list \<Rightarrow> js_num \<Rightarrow> js_num option" where
  "best_token t1 [] best = Some best"
| "best_token t1 (t2 # ts) best = (case jaroWinkler t1 t2 of None \<Rightarrow> None
     | Some jw \<Rightarrow> best_token t1 ts (better (math_max jw (distance_score t1 t2)) best))"

fun token_sum :: "string list \<Rightarrow> string list \<Rightarrow> js_num \<Rightarrow> js_num option" where
  "token_sum [] tokens2 acc = Some acc"
| "token_sum (t1 # ts) tokens2 acc = (case best_token t1 tokens2 (Fin 0) of None \<Rightarrow> None
     | Some best \<Rightarrow> token_sum ts tokens2 (jadd acc best))"

definition token_score :: "string list \<Rightarrow> string list \<Rightarrow> js_num option" where
  "token_score tokens1 tokens2 = (case token_sum tokens1 tokens2 (Fin 0) of None \<Rightarrow> None
     | Some acc \<Rightarrow> Some (if 0 < length tokens1 then jdiv acc (number (length tokens1)) else Fin 0))"

definition substring_score :: "string \<Rightarrow> string \<Rightarrow> js_num" where
  "substring_score s1 s2 =
     (if contains s2 s1 \<or> contains s1 s2
      then jdiv (number (min (length s1) (length s2))) (number (max (length s1) (length s2))) else Fin 0)"

definition pick :: "js_num \<times> match_type \<Rightarrow> js_num \<times> match_type \<Rightarrow> js_num \<times> match_type" where
  "pick best candidate = (if jlt (fst best) (fst candidate) then candidate else best)"

definition round3 :: "js_num \<Rightarrow> js_num" where
  "round3 v = jdiv (math_round (jmul v (Fin 1000))) (Fin 1000)"

definition calculateSimilarity :: "string \<Rightarrow> string \<Rightarrow> (js_num \<times> match_type) option" where
  "calculateSimilarity target source =
     (let s1 = normalizeName target; s2 = normalizeName source in
      if s1 = s2 then Some (Fin 1, Exact_match)
      else let tokens1 = tokens s1; tokens2 = tokens s2 in
        case jaroWinkler s1 s2 of None \<Rightarrow> None | Some direct \<Rightarrow>
        (case jaroWinkler (join '' '' (sort_strings tokens1)) (join '' '' (sort_strings tokens2)) of None \<Rightarrow> None | Some permuted \<Rightarrow>
        (case token_score tokens1 tokens2 of None \<Rightarrow> None | Some by_token \<Rightarrow>
          let best = pick (pick (pick (pick (direct, Jaro_winkler_match) (distance_score s1 s2, Typo_match))
                       (permuted, Permutation_match)) (by_token, Token_match)) (substring_score s1 s2, Substring_match)
          in Some (round3 (fst best), snd best))))"

subsection \<open>The matrix computes a cheapest alignment\<close>

text \<open>An alignment of two strings and its cost: a pair of equal characters is free, everything else costs 1.\<close>

inductive aligned :: "string \<Rightarrow> string \<Rightarrow> nat \<Rightarrow> bool" where
  aligned_empty: "aligned [] [] 0"
| aligned_equal: "aligned xs ys n \<Longrightarrow> aligned (xs @ [c]) (ys @ [c]) n"
| aligned_replace: "aligned xs ys n \<Longrightarrow> aligned (xs @ [c]) (ys @ [d]) (Suc n)"
| aligned_delete: "aligned xs ys n \<Longrightarrow> aligned (xs @ [c]) ys (Suc n)"
| aligned_insert: "aligned xs ys n \<Longrightarrow> aligned xs (ys @ [d]) (Suc n)"

fun distance :: "string \<Rightarrow> string \<Rightarrow> nat \<Rightarrow> nat \<Rightarrow> nat" where
  "distance s t 0 j = j"
| "distance s t (Suc i) 0 = Suc i"
| "distance s t (Suc i) (Suc j) =
     min (distance s t i (Suc j) + 1) (min (distance s t (Suc i) j + 1) (distance s t i j + (if s ! i = t ! j then 0 else 1)))"

lemma distance_0 [simp]: "distance s t i 0 = i"
  by (cases i) simp_all

lemma distance_take: "i \<le> n \<Longrightarrow> j \<le> m \<Longrightarrow> distance (take n s) (take m t) i j = distance s t i j"
  by (induction s t i j rule: distance.induct) simp_all

lemma distance_append: "i \<le> length s \<Longrightarrow> j \<le> length t \<Longrightarrow> distance (s @ u) (t @ v) i j = distance s t i j"
  by (induction s t i j rule: distance.induct) (simp_all add: nth_append)

lemma distance_aligned:
  "i \<le> length s \<Longrightarrow> j \<le> length t \<Longrightarrow> aligned (take i s) (take j t) (distance s t i j)"
proof (induction s t i j rule: distance.induct)
  case (1 s t j)
  have "j \<le> length t \<Longrightarrow> aligned [] (take j t) j"
    by (induction j) (auto intro: aligned.intros simp: take_Suc_conv_app_nth)
  with 1 show ?case by simp
next
  case (2 s t i)
  have "k \<le> length s \<Longrightarrow> aligned (take k s) [] k" for k
    by (induction k) (auto intro: aligned.intros simp: take_Suc_conv_app_nth)
  with 2 show ?case by simp
next
  case (3 s t i j)
  have s: "take (Suc i) s = take i s @ [s ! i]" and t: "take (Suc j) t = take j t @ [t ! j]"
    using "3.prems" by (simp_all add: take_Suc_conv_app_nth)
  have d: "aligned (take (Suc i) s) (take (Suc j) t) (distance s t i (Suc j) + 1)"
    using "3.IH"(1) "3.prems" aligned_delete [of "take i s" "take (Suc j) t" _ "s ! i"] by (simp add: s)
  have a: "aligned (take (Suc i) s) (take (Suc j) t) (distance s t (Suc i) j + 1)"
    using "3.IH"(2) "3.prems" aligned_insert [of "take (Suc i) s" "take j t" _ "t ! j"] by (simp add: t)
  have r: "aligned (take (Suc i) s) (take (Suc j) t) (distance s t i j + (if s ! i = t ! j then 0 else 1))"
    using "3.IH"(3) "3.prems" by (auto simp: s t intro: aligned_equal aligned_replace)
  show ?case using d a r by (simp add: min_def)
qed

lemma aligned_distance: "aligned s t n \<Longrightarrow> distance s t (length s) (length t) \<le> n"
proof (induction rule: aligned.induct)
  case aligned_empty
  then show ?case by simp
next
  case (aligned_delete xs ys n c)
  have "distance (xs @ [c]) ys (length xs) (length ys) = distance xs ys (length xs) (length ys)"
    using distance_append [of _ xs _ ys "[c]" "[]"] by simp
  then show ?case using aligned_delete.IH by (cases "length ys") (auto simp: min_def)
next
  case (aligned_insert xs ys n d)
  have "distance xs (ys @ [d]) (length xs) (length ys) = distance xs ys (length xs) (length ys)"
    using distance_append [of _ xs _ ys "[]" "[d]"] by simp
  then show ?case using aligned_insert.IH by (cases "length xs") (auto simp: min_def)
qed (auto simp: distance_append min_def)

lemma distance_le_max: "distance s t i j \<le> max i j"
  by (induction s t i j rule: distance.induct) (auto simp: min_def max_def)

text \<open>Matrices of a fixed shape, and what is filled in before the cell in row \<open>i\<close> and column \<open>j\<close>.\<close>

definition shape :: "nat \<Rightarrow> nat \<Rightarrow> nat list list \<Rightarrow> bool" where
  "shape n k m \<longleftrightarrow> length m = Suc n \<and> (\<forall>i \<le> n. length (m ! i) = Suc k)"

lemma shape_set_cell [simp]: "shape n k m \<Longrightarrow> shape n k (set_cell i j v m)"
  by (cases "i \<le> n") (auto simp: shape_def set_cell_def nth_list_update)

lemma nth_set_cell:
  "shape n k m \<Longrightarrow> i \<le> n \<Longrightarrow> j \<le> k \<Longrightarrow> a \<le> n \<Longrightarrow> set_cell i j v m ! a ! b = (if a = i \<and> b = j then v else m ! a ! b)"
  by (auto simp: shape_def set_cell_def nth_list_update)

definition filled :: "string \<Rightarrow> string \<Rightarrow> nat \<Rightarrow> nat \<Rightarrow> nat list list \<Rightarrow> bool" where
  "filled s t i j m \<longleftrightarrow> shape (length s) (length t) m \<and>
     (\<forall>a \<le> length s. \<forall>b \<le> length t. a = 0 \<or> b = 0 \<or> a < i \<or> a = i \<and> b < j \<longrightarrow> m ! a ! b = distance s t a b)"

lemma border_column:
  "k \<le> Suc n \<Longrightarrow> shape n l (fold (\<lambda>i m. set_cell i 0 i m) [0..<k] (replicate (Suc n) (replicate (Suc l) 0))) \<and>
   (\<forall>a < k. fold (\<lambda>i m. set_cell i 0 i m) [0..<k] (replicate (Suc n) (replicate (Suc l) 0)) ! a ! 0 = a)"
proof (induction k)
  case 0
  then show ?case by (simp add: shape_def nth_Cons split: nat.splits)
next
  case (Suc k)
  then show ?case by (auto simp: nth_set_cell less_Suc_eq)
qed

lemma border_row:
  "shape n l m \<Longrightarrow> \<forall>a \<le> n. m ! a ! 0 = a \<Longrightarrow> k \<le> Suc l \<Longrightarrow>
   shape n l (fold (\<lambda>j m. set_cell 0 j j m) [0..<k] m) \<and>
   (\<forall>a \<le> n. fold (\<lambda>j m. set_cell 0 j j m) [0..<k] m ! a ! 0 = a) \<and>
   (\<forall>b < k. fold (\<lambda>j m. set_cell 0 j j m) [0..<k] m ! 0 ! b = b)"
proof (induction k)
  case (Suc k)
  then show ?case by (auto simp: nth_set_cell less_Suc_eq)
qed simp

lemma filled_border: "filled s t 1 1 (border (length s) (length t))"
proof -
  have col: "shape (length s) (length t) (fold (\<lambda>i m. set_cell i 0 i m) [0..<Suc (length s)] (replicate (Suc (length s)) (replicate (Suc (length t)) 0)))"
    "\<forall>a \<le> length s. fold (\<lambda>i m. set_cell i 0 i m) [0..<Suc (length s)] (replicate (Suc (length s)) (replicate (Suc (length t)) 0)) ! a ! 0 = a"
    using border_column [of "Suc (length s)" "length s" "length t"] by (auto simp: less_Suc_eq_le)
  from border_row [OF col, of "Suc (length t)"] show ?thesis
    by (auto simp: filled_def border_def less_Suc_eq_le)
qed

lemma filled_step:
  assumes "filled s t i j m" and "1 \<le> i" and "i \<le> length s" and "1 \<le> j" and "j \<le> length t"
  shows "filled s t i (Suc j) (fill_cell s t i j m)"
proof -
  obtain i' j' where ij: "i = Suc i'" "j = Suc j'" using assms(2,4) by (cases i; cases j) auto
  have sh: "shape (length s) (length t) m" using assms(1) by (simp add: filled_def)
  have v: "m ! i' ! j = distance s t i' j" "m ! i ! j' = distance s t i j'" "m ! i' ! j' = distance s t i' j'"
    using assms ij by (auto simp: filled_def)
  show ?thesis
    using assms(1,3,5) sh v ij by (auto simp: filled_def fill_cell_def Let_def nth_set_cell less_Suc_eq)
qed

lemma upt_1_Suc: "[1..<Suc (Suc k)] = [1..<Suc k] @ [Suc k]"
  by simp

lemma filled_row:
  "filled s t i 1 m \<Longrightarrow> 1 \<le> i \<Longrightarrow> i \<le> length s \<Longrightarrow> k \<le> length t \<Longrightarrow>
   filled s t i (Suc k) (fold (\<lambda>j m. fill_cell s t i j m) [1..<Suc k] m)"
proof (induction k)
  case (Suc k)
  then have "filled s t i (Suc k) (fold (\<lambda>j m. fill_cell s t i j m) [1..<Suc k] m)" by simp
  from filled_step [OF this] Suc.prems show ?case
    by (simp only: upt_1_Suc fold_append fold_simps comp_apply)
qed simp

lemma filled_next_row: "filled s t i (Suc (length t)) m \<Longrightarrow> filled s t (Suc i) 1 m"
  by (fastforce simp: filled_def less_Suc_eq_le le_less)

lemma filled_rows:
  "k \<le> length s \<Longrightarrow> filled s t (Suc k) 1
     (fold (\<lambda>i m. fold (\<lambda>j m. fill_cell s t i j m) [1..<Suc (length t)] m) [1..<Suc k] (border (length s) (length t)))"
proof (induction k)
  case 0
  show ?case using filled_border [of s t] by simp
next
  case (Suc k)
  then have "filled s t (Suc k) 1 (fold (\<lambda>i m. fold (\<lambda>j m. fill_cell s t i j m) [1..<Suc (length t)] m) [1..<Suc k]
     (border (length s) (length t)))" by simp
  from filled_next_row [OF filled_row [OF this _ _ order_refl]] Suc.prems show ?case
    by (simp only: upt_1_Suc fold_append fold_simps comp_apply)
qed

lemma levenshtein_distance: "levenshtein s t = distance s t (length s) (length t)"
  using filled_rows [of "length s" s t] by (auto simp: levenshtein_def filled_def Let_def)

lemma levenshtein_le_max: "levenshtein s t \<le> max (length s) (length t)"
  by (simp add: levenshtein_distance distance_le_max)

subsection \<open>The loops of jaroWinkler\<close>

definition flags :: "bool list \<Rightarrow> nat" where
  "flags bs = length (filter (\<lambda>b. b) bs)"

lemma flags_le: "flags bs \<le> length bs"
  by (simp add: flags_def)

lemma flags_set: "i < length bs \<Longrightarrow> \<not> bs ! i \<Longrightarrow> flags (bs[i := True]) = Suc (flags bs)"
proof (induction bs arbitrary: i)
  case (Cons b bs)
  then show ?case by (cases i) (auto simp: flags_def)
qed simp

lemma flags_replicate [simp]: "flags (replicate n False) = 0"
  by (simp add: flags_def)

lemma flags_take_Suc: "i < length bs \<Longrightarrow> flags (take (Suc i) bs) = flags (take i bs) + (if bs ! i then 1 else 0)"
  by (simp add: flags_def take_Suc_conv_app_nth)

lemma flags_append: "flags (xs @ ys) = flags xs + flags ys"
  by (simp add: flags_def)

definition flags_ok :: "string \<Rightarrow> string \<Rightarrow> nat \<Rightarrow> bool list \<times> bool list \<times> nat \<Rightarrow> bool" where
  "flags_ok s1 s2 i st \<longleftrightarrow> (case st of (match1, match2, n) \<Rightarrow> length match1 = length s1 \<and> length match2 = length s2 \<and>
     flags match1 = n \<and> flags match2 = n \<and> (\<forall>a < length s1. i \<le> a \<longrightarrow> \<not> match1 ! a))"

lemma flags_ok_step: "flags_ok s1 s2 i st \<Longrightarrow> i < length s1 \<Longrightarrow> flags_ok s1 s2 (Suc i) (match_step s1 s2 d i st)"
proof -
  assume ok: "flags_ok s1 s2 i st" and i: "i < length s1"
  obtain m1 m2 n where st: "st = (m1, m2, n)" by (cases st) auto
  show ?thesis
  proof (cases "match_at s1 s2 d i m2")
    case None
    then show ?thesis using ok st by (simp add: match_step_def flags_ok_def)
  next
    case (Some j)
    then have "j \<in> set (window s2 d i)" and "\<not> m2 ! j"
      by (auto simp: match_at_def find_Some_iff in_set_conv_nth)
    moreover from this(1) have "j < length s2" by (auto simp: window_def)
    ultimately show ?thesis
      using ok st i Some by (auto simp: match_step_def flags_ok_def flags_set nth_list_update)
  qed
qed

lemma match_flags_ok: "flags_ok s1 s2 (length s1) (match_flags s1 s2)"
proof -
  have "k \<le> length s1 \<Longrightarrow> flags_ok s1 s2 k (fold (match_step s1 s2 d) [0..<k] (replicate (length s1) False, replicate (length s2) False, 0))"
    for k d
    by (induction k) (auto simp: flags_ok_step, simp add: flags_ok_def)
  then show ?thesis by (simp add: match_flags_def Let_def)
qed

lemma next_match_found:
  "True \<in> set bs \<Longrightarrow> \<exists>d < length bs. next_match bs k = Some (k + d) \<and> bs ! d \<and> flags (take d bs) = 0"
proof (induction bs arbitrary: k)
  case (Cons b bs)
  show ?case
  proof (cases b)
    case True
    then show ?thesis by (intro exI [of _ 0]) (simp add: flags_def)
  next
    case False
    with Cons obtain d where "d < length bs" "next_match bs (Suc k) = Some (Suc k + d)" "bs ! d" "flags (take d bs) = 0" by fastforce
    with False show ?thesis by (intro exI [of _ "Suc d"]) (simp add: flags_def)
  qed
qed simp

definition walk_ok :: "bool list \<Rightarrow> bool list \<Rightarrow> nat \<Rightarrow> (nat \<times> nat) option \<Rightarrow> bool" where
  "walk_ok m1 m2 i st \<longleftrightarrow> (\<exists>k t. st = Some (k, t) \<and> k \<le> length m2 \<and> flags (take k m2) = flags (take i m1) \<and> t \<le> flags (take i m1))"

lemma walk_ok_step:
  assumes "walk_ok m1 m2 i st" and "i < length m1" and "flags m1 = flags m2"
  shows "walk_ok m1 m2 (Suc i) (transposition_step s1 s2 m1 m2 i st)"
proof -
  obtain k t where st: "st = Some (k, t)" and k: "k \<le> length m2" "flags (take k m2) = flags (take i m1)" "t \<le> flags (take i m1)"
    using assms(1) by (auto simp: walk_ok_def)
  show ?thesis
  proof (cases "m1 ! i")
    case False
    then show ?thesis using st k assms(2) by (simp add: transposition_step_def walk_ok_def flags_take_Suc)
  next
    case True
    have "flags (take (Suc i) m1) \<le> flags m1"
      using flags_append [of "take (Suc i) m1" "drop (Suc i) m1"] by (simp del: take_Suc_conv_app_nth)
    then have "flags (take k m2) < flags m2" using True k(2) assms(2,3) by (simp add: flags_take_Suc)
    moreover have "flags m2 = flags (take k m2) + flags (drop k m2)" using flags_append [of "take k m2" "drop k m2"] by simp
    ultimately have "0 < flags (drop k m2)" by simp
    then have "True \<in> set (drop k m2)" by (auto simp: flags_def filter_empty_conv)
    from next_match_found [OF this, of k] obtain d where
      d: "d < length (drop k m2)" "next_match (drop k m2) k = Some (k + d)" "drop k m2 ! d" "flags (take d (drop k m2)) = 0" by blast
    have "take (k + d) m2 = take k m2 @ take d (drop k m2)" by (simp add: take_add)
    then have "flags (take (k + d) m2) = flags (take k m2)" using d(4) by (simp add: flags_append)
    moreover have "k + d < length m2" "m2 ! (k + d)" using d(1,3) by simp_all
    ultimately have "flags (take (Suc (k + d)) m2) = Suc (flags (take k m2))" by (simp add: flags_take_Suc)
    then show ?thesis using st k d(2) True assms(2) \<open>k + d < length m2\<close>
      by (auto simp: transposition_step_def walk_ok_def flags_take_Suc)
  qed
qed

lemma transpositions_found:
  "match_flags s1 s2 = (m1, m2, n) \<Longrightarrow> \<exists>t \<le> n. transpositions s1 s2 = Some t"
proof -
  assume m: "match_flags s1 s2 = (m1, m2, n)"
  then have ok: "length m1 = length s1" "flags m1 = n" "flags m2 = n" using match_flags_ok [of s1 s2] by (auto simp: flags_ok_def)
  have "k \<le> length s1 \<Longrightarrow> walk_ok m1 m2 k (fold (transposition_step s1 s2 m1 m2) [0..<k] (Some (0, 0)))" for k
    by (induction k) (auto simp: ok intro!: walk_ok_step, simp add: walk_ok_def)
  from this [of "length s1"] show ?thesis using m ok by (auto simp: walk_ok_def transpositions_def)
qed

lemma matches_le: "match_flags s1 s2 = (m1, m2, n) \<Longrightarrow> n \<le> length s1 \<and> n \<le> length s2"
  using match_flags_ok [of s1 s2] flags_le [of m1] flags_le [of m2] by (simp add: flags_ok_def)

lemma jaroWinkler_terminates: "\<exists>v. jaroWinkler s1 s2 = Some v"
  using transpositions_found [of s1 s2] by (auto simp: jaroWinkler_def split: prod.splits)

subsection \<open>Scores lie between 0 and 1\<close>

definition ranged :: "rat \<Rightarrow> rat \<Rightarrow> js_num \<Rightarrow> bool" where
  "ranged a b v \<longleftrightarrow> (\<exists>q. v = Fin q \<and> representable q \<and> a \<le> q \<and> q \<le> b)"

abbreviation unit_score :: "js_num \<Rightarrow> bool" where
  "unit_score \<equiv> ranged 0 1"

lemma ranged_of_exact:
  assumes "representable a" and "representable b" and "a \<le> x" and "x \<le> b" and "0 \<le> a" and "b < overflow64"
  shows "ranged a b (of_exact x)"
proof -
  have "a \<le> rnd64 x" "rnd64 x \<le> b" using assms(1-4) rnd64_ge_representable rnd64_le_representable by blast+
  moreover have "\<not> rnd64 x \<le> - overflow64" using \<open>a \<le> rnd64 x\<close> assms(5) overflow64_pos by linarith
  ultimately show ?thesis using assms(6) by (simp add: ranged_def of_exact_def representable_rnd64)
qed

lemma nat_representable: "n \<le> 2 ^ 53 \<Longrightarrow> representable (of_nat n)"
  using representable_of_int [of "int n"] by simp

lemma small_overflow: "n \<le> 2 ^ 53 \<Longrightarrow> of_nat n < overflow64"
proof -
  assume "n \<le> 2 ^ 53"
  then have "(of_nat n :: rat) \<le> of_nat (2 ^ 53)" by (simp only: of_nat_le_iff)
  also have "\<dots> < overflow64" by (simp add: overflow64_def)
  finally show ?thesis .
qed

lemma representable_1 [simp]: "representable 1"
  using representable_of_int [of 1] by simp

lemma overflow64_1 [simp]: "1 < overflow64"
  by (simp add: overflow64_def)

lemma unit_of_exact: "0 \<le> x \<Longrightarrow> x \<le> 1 \<Longrightarrow> unit_score (of_exact x)"
  by (rule ranged_of_exact) simp_all

lemma unit_const [simp]: "unit_score (Fin 0)" "unit_score (Fin 1)"
  by (simp_all add: ranged_def)

lemma unit_ratio: "m \<le> n \<Longrightarrow> 0 < n \<Longrightarrow> unit_score (jdiv (number m) (number n))"
  by (simp add: number_def unit_of_exact)

lemma unit_one_minus: "unit_score v \<Longrightarrow> unit_score (jsub (Fin 1) v)"
  by (auto simp: ranged_def jsub_def intro!: unit_of_exact [unfolded ranged_def])

lemma ranged_jadd:
  assumes "ranged 0 (of_nat m) u" and "ranged 0 (of_nat n) v" and "m + n \<le> 2 ^ 53"
  shows "ranged 0 (of_nat (m + n)) (jadd u v)"
  using assms ranged_of_exact [of 0 "of_nat (m + n)"] nat_representable [OF assms(3)] small_overflow [OF assms(3)]
  by (auto simp: ranged_def [of 0 "of_nat m"] ranged_def [of 0 "of_nat n"] intro!: add_mono)

lemma ranged_jdiv: "ranged 0 (of_nat n) v \<Longrightarrow> 0 < n \<Longrightarrow> unit_score (jdiv v (number n))"
  by (auto simp: ranged_def [of 0 "of_nat n"] number_def intro!: unit_of_exact)

lemma distance_score_unit: "unit_score (distance_score s t)"
  using levenshtein_le_max [of s t] by (auto simp: distance_score_def Let_def intro: unit_one_minus unit_ratio)

lemma substring_score_unit: "s \<noteq> t \<Longrightarrow> unit_score (substring_score s t)"
  by (cases s; cases t) (auto simp: substring_score_def intro!: unit_ratio)

text \<open>The bonus for a common prefix does not bring the score above 1, in spite of the roundings.\<close>

lemma prefix_le: "common_prefix n s t \<le> n"
  by (induction n s t rule: common_prefix.induct) auto

lemma fraction_53:
  assumes "representable j" and "1 / 2 \<le> j" and "j \<le> 1"
  shows "rnd64 (1 - j) = 1 - j"
proof -
  have "(2::rat) powi (- 1) \<le> \<bar>j\<bar>" using assms(2) by (simp add: power_int_minus)
  then have e: "- 53 \<le> exp64 j" using ilog2_ge [of "- 1" "\<bar>j\<bar>"] assms(2) by (simp add: exp64_def)
  from powi_2_quotient [OF this] obtain n where "2 powi exp64 j / 2 powi (- 53) = (of_int n :: rat)" by blast
  then have n: "2 powi exp64 j = of_int n * (2::rat) powi (- 53)" by (simp add: field_simps)
  have "j = of_int (round_half_even (j / 2 powi exp64 j)) * 2 powi exp64 j"
    using assms(1) by (simp add: representable_def rnd64_def)
  then obtain m where m: "j = of_int m * (2::rat) powi (- 53)" by (metis n of_int_mult mult.assoc)
  have q: "(2::rat) powi (- 53) * 2 ^ 53 = 1" using power_int_add [of "2::rat" "- 53" 53] by simp
  have mj: "of_int m = j * 2 ^ 53" unfolding m mult.assoc q by simp
  have "j * 2 ^ 53 \<le> 1 * 2 ^ 53" "0 * 2 ^ 53 \<le> j * 2 ^ 53" using assms(2,3) by (intro mult_right_mono; simp)+
  then have "(of_int m :: rat) \<le> of_int (2 ^ 53)" "(of_int 0 :: rat) \<le> of_int m" unfolding mj by simp_all
  then have "m \<le> 2 ^ 53" "0 \<le> m" by (simp_all only: of_int_le_iff)
  then have "\<bar>2 ^ 53 - m\<bar> \<le> 2 ^ 53" by simp
  moreover have eq: "1 - j = of_int (2 ^ 53 - m) * (2::rat) powi (- 53)"
    unfolding m of_int_diff left_diff_distrib using q by (simp add: mult.commute)
  ultimately show ?thesis unfolding eq by (intro rnd64_scaled_int) simp_all
qed

lemma bonus_le:
  assumes j: "representable j" "0 \<le> j" "j \<le> 1" and c: "0 \<le> c" "c \<le> 1 / 2"
  shows "j + rnd64 (c * rnd64 (1 - j)) \<le> 1"
proof (cases "1 / 2 \<le> j")
  case True
  then have d: "rnd64 (1 - j) = 1 - j" using fraction_53 j by blast
  then have "representable (1 - j)" by (simp add: representable_def)
  moreover have "c * (1 - j) \<le> 1 * (1 - j)" using c j by (intro mult_right_mono) auto
  ultimately have "rnd64 (c * (1 - j)) \<le> 1 - j" by (intro rnd64_le_representable) simp_all
  then show ?thesis using d by simp
next
  case False
  let ?d = "rnd64 (1 - j)"
  have d: "0 \<le> ?d" "?d \<le> 1" using j by (auto intro: rnd64_nonneg rnd64_le_representable)
  have "c * ?d \<le> 1 / 2 * 1" using c d by (intro mult_mono) auto
  moreover have "representable (1 / 2)"
    using rnd64_pow2 [of "- 1"] by (simp add: representable_def power_int_minus)
  ultimately have "rnd64 (c * ?d) \<le> 1 / 2" by (intro rnd64_le_representable) simp_all
  then show ?thesis using False by simp
qed

lemma tenth: "\<exists>r. of_exact (1 / 10) = Fin r \<and> 0 \<le> r \<and> r \<le> 1 / 8"
proof -
  have "(2::rat) powi (- 3) = 1 / 8" by (simp add: power_int_def power_divide)
  then have "representable (1 / 8)" using rnd64_pow2 [of "- 3"] by (simp add: representable_def)
  from ranged_of_exact [OF representable_0 this, of "1 / 10"] show ?thesis by (auto simp: ranged_def overflow64_def)
qed

lemma winkler_unit:
  assumes "unit_score v" and "n \<le> 4"
  shows "unit_score (jadd v (jmul (jmul (number n) (of_exact (1 / 10))) (jsub (Fin 1) v)))"
proof -
  obtain j where v: "v = Fin j" "representable j" "0 \<le> j" "j \<le> 1" using assms(1) by (auto simp: ranged_def)
  obtain r where r: "of_exact (1 / 10) = Fin r" "0 \<le> r" "r \<le> 1 / 8" using tenth by blast
  have "of_nat n * r \<le> 4 * (1 / 8)" using assms(2) r by (intro mult_mono) simp_all
  moreover have half: "representable (1 / 2)" using rnd64_pow2 [of "- 1"] by (simp add: representable_def power_int_minus)
  moreover have "1 / 2 < overflow64" by (simp add: overflow64_def)
  ultimately have "ranged 0 (1 / 2) (of_exact (of_nat n * r))" using r(2) by (intro ranged_of_exact) simp_all
  then obtain c where c: "jmul (number n) (of_exact (1 / 10)) = Fin c" "0 \<le> c" "c \<le> 1 / 2"
    using r(1) by (auto simp: ranged_def number_def)
  have d: "jsub (Fin 1) v = Fin (rnd64 (1 - j))" "0 \<le> rnd64 (1 - j)" "rnd64 (1 - j) \<le> 1"
  proof -
    have "unit_score (of_exact (1 - j))" using v by (intro unit_of_exact) simp_all
    moreover from this have "of_exact (1 - j) = Fin (rnd64 (1 - j))" by (auto simp: of_exact_def ranged_def Let_def split: if_splits)
    ultimately show "jsub (Fin 1) v = Fin (rnd64 (1 - j))" "0 \<le> rnd64 (1 - j)" "rnd64 (1 - j) \<le> 1"
      using v by (auto simp: jsub_def ranged_def)
  qed
  have p: "jmul (Fin c) (Fin (rnd64 (1 - j))) = Fin (rnd64 (c * rnd64 (1 - j)))" "0 \<le> rnd64 (c * rnd64 (1 - j))"
  proof -
    have "c * rnd64 (1 - j) \<le> 1 * 1" using c d by (intro mult_mono) auto
    then have "unit_score (of_exact (c * rnd64 (1 - j)))" using c d by (intro unit_of_exact) simp_all
    then show "jmul (Fin c) (Fin (rnd64 (1 - j))) = Fin (rnd64 (c * rnd64 (1 - j)))" "0 \<le> rnd64 (c * rnd64 (1 - j))"
      by (auto simp: of_exact_def ranged_def Let_def split: if_splits)
  qed
  show ?thesis
    using bonus_le [OF v(2-4) c(2,3)] p(2) v(3) unfolding c(1) d(1) [unfolded v(1)] p(1) v(1) jadd.simps by (intro unit_of_exact) simp_all
qed

lemma jaroWinkler_unit: 
  assumes "jaroWinkler s t = Some v" and "length s \<le> 2 ^ 53" and "length t \<le> 2 ^ 53"
  shows "unit_score v"
proof (cases "s = t \<or> s = [] \<or> t = [] \<or> snd (snd (match_flags s t)) = 0")
  case True
  then show ?thesis using assms(1) by (auto simp: jaroWinkler_def split: if_splits prod.splits)
next
  case False
  obtain m1 m2 n where m: "match_flags s t = (m1, m2, n)" by (cases "match_flags s t") auto
  have n: "0 < n" "n \<le> length s" "n \<le> length t" using matches_le [OF m] m False by simp_all
  obtain k where k: "k \<le> n" "transpositions s t = Some k" using transpositions_found [OF m] by blast
  have small: "n \<le> 2 ^ 53" using n(2) assms(2) by simp
  have rn: "representable (of_nat n)" by (rule nat_representable [OF small])
  have "ranged 0 (of_nat n) (of_exact (of_nat k / 2))"
  proof (rule ranged_of_exact [OF representable_0 rn _ _ order_refl small_overflow [OF small]])
    have "(of_nat k :: rat) \<le> of_nat n" using k(1) by simp
    then show "of_nat k / 2 \<le> (of_nat n :: rat)" by simp
  qed simp
  then obtain h where h: "jdiv (number k) (Fin 2) = Fin h" "0 \<le> h" "h \<le> of_nat n" by (auto simp: ranged_def number_def)
  have "ranged 0 (of_nat n) (jsub (number n) (Fin h))"
    using h(2,3) rn small_overflow [OF small] by (auto simp: jsub_def number_def intro!: ranged_of_exact)
  then have third: "unit_score (jdiv (jsub (number n) (jdiv (number k) (Fin 2))) (number n))"
    using n(1) h(1) by (simp add: ranged_jdiv)
  have "ranged 0 (of_nat (1 + 1)) (jadd (jdiv (number n) (number (length s))) (jdiv (number n) (number (length t))))"
    using n False by (intro ranged_jadd [where m = 1 and n = 1]) (simp_all add: unit_ratio)
  then have "ranged 0 (of_nat (1 + 1 + 1)) (jadd (jadd (jdiv (number n) (number (length s))) (jdiv (number n) (number (length t))))
    (jdiv (jsub (number n) (jdiv (number k) (Fin 2))) (number n)))"
    using third by (intro ranged_jadd [where m = "1 + 1" and n = 1]) simp_all
  then have "unit_score (jdiv (jadd (jadd (jdiv (number n) (number (length s))) (jdiv (number n) (number (length t))))
    (jdiv (jsub (number n) (jdiv (number k) (Fin 2))) (number n))) (number 3))"
    by (intro ranged_jdiv) simp_all
  from winkler_unit [OF this prefix_le] show ?thesis
    using assms(1) m k(2) False n(1) by (auto simp: jaroWinkler_def Let_def number_def)
qed


subsection \<open>The similarity of names\<close>

lemma unit_Fin: "unit_score v \<Longrightarrow> \<exists>q. v = Fin q \<and> 0 \<le> q \<and> q \<le> 1"
  by (auto simp: ranged_def)

lemma unit_better: "unit_score u \<Longrightarrow> unit_score v \<Longrightarrow> unit_score (better u v)"
  by (simp add: better_def)

lemma unit_math_max: "unit_score u \<Longrightarrow> unit_score v \<Longrightarrow> unit_score (math_max u v)"
  by (auto simp: math_max_def dest: unit_Fin)

lemma better_one: "unit_score u \<Longrightarrow> better (Fin 1) u = Fin 1" "unit_score u \<Longrightarrow> better u (Fin 1) = Fin 1"
  by (auto simp: better_def dest!: unit_Fin)

lemma math_max_one: "unit_score v \<Longrightarrow> math_max (Fin 1) v = Fin 1"
  by (auto simp: math_max_def dest!: unit_Fin)

lemma unit_round3: "unit_score v \<Longrightarrow> unit_score (round3 v)"
proof -
  assume "unit_score v"
  then obtain q where v: "v = Fin q" "0 \<le> q" "q \<le> 1" using unit_Fin by blast
  have "q * 1000 \<le> 1 * 1000" using v by (intro mult_right_mono) simp_all
  then have "ranged 0 (of_nat 1000) (of_exact (q * 1000))" using v nat_representable [of 1000] small_overflow [of 1000]
    by (intro ranged_of_exact) simp_all
  then obtain x where x: "jmul v (Fin 1000) = Fin x" "0 \<le> x" "x \<le> 1000" using v by (auto simp: ranged_def)
  have "0 \<le> \<lfloor>x + 1 / 2\<rfloor>" "\<lfloor>x + 1 / 2\<rfloor> \<le> 1000" using x by (simp_all add: floor_le_iff)
  then have "0 \<le> (of_int \<lfloor>x + 1 / 2\<rfloor> :: rat)" "(of_int \<lfloor>x + 1 / 2\<rfloor> :: rat) \<le> 1000" by (simp_all add: of_int_le_iff [of _ 1000, simplified])
  then show ?thesis unfolding round3_def x(1) math_round.simps by (auto intro!: unit_of_exact)
qed

lemma round3_1 [simp]: "round3 (Fin 1) = Fin 1"
proof -
  have "of_exact 1000 = Fin 1000" "of_exact 1 = Fin 1" using of_exact_int [of 1000] of_exact_int [of 1] by simp_all
  then show ?thesis by (simp add: round3_def)
qed

lemma best_token_unit:
  "length t1 \<le> 2 ^ 53 \<Longrightarrow> \<forall>t2 \<in> set ts. length t2 \<le> 2 ^ 53 \<Longrightarrow> unit_score best \<Longrightarrow>
   \<exists>b. best_token t1 ts best = Some b \<and> unit_score b \<and> (t1 \<in> set ts \<or> best = Fin 1 \<longrightarrow> b = Fin 1)"
proof (induction ts arbitrary: best)
  case (Cons t2 ts)
  obtain jw where jw: "jaroWinkler t1 t2 = Some jw" using jaroWinkler_terminates by blast
  have u: "unit_score jw" using jaroWinkler_unit [OF jw] Cons.prems by simp
  have one: "t1 = t2 \<Longrightarrow> jw = Fin 1" using jw by (simp add: jaroWinkler_def)
  let ?b = "better (math_max jw (distance_score t1 t2)) best"
  have ub: "unit_score ?b" using u Cons.prems by (simp add: unit_better unit_math_max distance_score_unit)
  have b1: "t1 = t2 \<or> best = Fin 1 \<Longrightarrow> ?b = Fin 1"
    using one u Cons.prems(3) by (auto simp: math_max_one distance_score_unit better_one unit_math_max)
  from Cons.IH [OF Cons.prems(1) _ ub] Cons.prems obtain b where
    "best_token t1 ts ?b = Some b" "unit_score b" "t1 \<in> set ts \<or> ?b = Fin 1 \<longrightarrow> b = Fin 1" by auto
  then show ?case using jw b1 by auto
qed simp

lemma token_sum_unit:
  assumes "\<forall>t \<in> set ts1 \<union> set ts2. length t \<le> 2 ^ 53"
  shows "ranged 0 (of_nat k) acc \<Longrightarrow> k + length ts1 \<le> 2 ^ 53 \<Longrightarrow>
    \<exists>s. token_sum ts1 ts2 acc = Some s \<and> ranged 0 (of_nat (k + length ts1)) s \<and>
      (set ts1 \<subseteq> set ts2 \<and> acc = number k \<longrightarrow> s = number (k + length ts1))"
  using assms
proof (induction ts1 arbitrary: k acc)
  case (Cons t ts1)
  obtain b where b: "best_token t ts2 (Fin 0) = Some b" "unit_score b" "t \<in> set ts2 \<longrightarrow> b = Fin 1"
    using best_token_unit [of t ts2 "Fin 0"] Cons.prems(3) by auto
  have r: "ranged 0 (of_nat (k + 1)) (jadd acc b)" using Cons.prems b by (intro ranged_jadd) simp_all
  have n: "b = Fin 1 \<Longrightarrow> acc = number k \<Longrightarrow> jadd acc b = number (k + 1)"
    using of_exact_int [of "int (k + 1)"] Cons.prems(2) by (simp add: number_def add.commute)
  from Cons.IH [OF r] Cons.prems obtain s where "token_sum ts1 ts2 (jadd acc b) = Some s"
    "ranged 0 (of_nat (k + 1 + length ts1)) s" "set ts1 \<subseteq> set ts2 \<and> jadd acc b = number (k + 1) \<longrightarrow> s = number (k + 1 + length ts1)"
    by auto
  then show ?case using b n by (auto simp: add.commute add.left_commute)
qed (auto simp: number_def)

lemma token_score_unit:
  assumes "\<forall>t \<in> set ts1 \<union> set ts2. length t \<le> 2 ^ 53" and "length ts1 \<le> 2 ^ 53"
  shows "\<exists>v. token_score ts1 ts2 = Some v \<and> unit_score v \<and> (ts1 \<noteq> [] \<and> set ts1 \<subseteq> set ts2 \<longrightarrow> v = Fin 1)"
proof -
  have "ranged 0 (of_nat 0) (Fin 0)" by (simp add: ranged_def)
  from token_sum_unit [OF assms(1) this] assms(2) obtain s where s: "token_sum ts1 ts2 (Fin 0) = Some s"
    "ranged 0 (of_nat (length ts1)) s" "set ts1 \<subseteq> set ts2 \<longrightarrow> s = number (length ts1)" by (auto simp: number_def)
  have "of_exact 1 = Fin 1" using of_exact_int [of 1] by simp
  then show ?thesis using s by (auto simp: token_score_def number_def intro: ranged_jdiv [unfolded number_def])
qed


definition width :: "string list \<Rightarrow> nat" where
  "width xs = sum_list (map (\<lambda>t. Suc (length t)) xs)"

lemma width_split: "width (split_on sep acc s) = Suc (length acc + length s)"
  by (induction s arbitrary: acc) (simp_all add: width_def)

lemma width_filter: "width (filter P xs) \<le> width xs"
  by (induction xs) (simp_all add: width_def)

lemma width_tokens: "width (tokens s) \<le> Suc (length s)"
  using width_filter [of _ "split CHR '' '' s"] by (simp add: tokens_def width_split)

lemma length_join: "length (join '' '' xs) \<le> width xs"
  by (induction "'' ''" xs rule: join.induct) (simp_all add: width_def)

lemma width_insert: "width (insert_string x ys) = Suc (length x) + width ys"
  by (induction ys) (simp_all add: width_def)

lemma width_sort: "width (sort_strings xs) = width xs"
  by (induction xs) (simp_all add: sort_strings_def width_insert, simp_all add: width_def)

lemma length_width: "length xs \<le> width xs" "t \<in> set xs \<Longrightarrow> length t \<le> width xs"
  by (induction xs) (auto simp: width_def)

lemma length_trim: "length (trim s) \<le> length s"
  using length_dropWhile_le [of is_space "rev (dropWhile is_space s)"] length_dropWhile_le [of is_space s] by (simp add: trim_def)

lemma length_collapse: "length (collapse_spaces s) \<le> length s"
  by (induction s rule: collapse_spaces.induct) auto

lemma length_normalizeName: "length (normalizeName s) \<le> length s"
  using length_trim length_collapse by (fastforce simp: normalizeName_def toLowerCase_def intro: le_trans)

lemma unit_pick: "unit_score (fst a) \<Longrightarrow> unit_score (fst b) \<Longrightarrow> unit_score (fst (pick a b))"
  by (simp add: pick_def)

lemma pick_one:
  "unit_score (fst a) \<Longrightarrow> fst b = Fin 1 \<Longrightarrow> fst (pick a b) = Fin 1"
  "unit_score (fst b) \<Longrightarrow> fst a = Fin 1 \<Longrightarrow> fst (pick a b) = Fin 1"
  by (auto simp: pick_def dest!: unit_Fin)

lemma similarity_score:
  assumes "length target \<le> 2 ^ 52" and "length source \<le> 2 ^ 52"
  shows "\<exists>v kind. calculateSimilarity target source = Some (v, kind) \<and> unit_score v \<and>
    (normalizeName target = normalizeName source \<or> tokens (normalizeName target) \<noteq> [] \<and>
       set (tokens (normalizeName target)) \<subseteq> set (tokens (normalizeName source)) \<longrightarrow> v = Fin 1)"
proof (cases "normalizeName target = normalizeName source")
  case True
  then show ?thesis by (simp add: calculateSimilarity_def Let_def)
next
  case False
  define s1 where "s1 = normalizeName target"
  define s2 where "s2 = normalizeName source"
  have l: "length s1 \<le> 2 ^ 52" "length s2 \<le> 2 ^ 52"
    using length_normalizeName [of target] length_normalizeName [of source] assms by (simp_all add: s1_def s2_def)
  then have w: "width (tokens s1) \<le> 2 ^ 53" "width (tokens s2) \<le> 2 ^ 53"
    using width_tokens [of s1] width_tokens [of s2] by simp_all
  then have j: "length (join '' '' (sort_strings (tokens s1))) \<le> 2 ^ 53" "length (join '' '' (sort_strings (tokens s2))) \<le> 2 ^ 53"
    using length_join [of "sort_strings (tokens s1)"] length_join [of "sort_strings (tokens s2)"] by (simp_all add: width_sort)
  obtain direct permuted where v: "jaroWinkler s1 s2 = Some direct"
    "jaroWinkler (join '' '' (sort_strings (tokens s1))) (join '' '' (sort_strings (tokens s2))) = Some permuted"
    using jaroWinkler_terminates by metis
  have u: "unit_score direct" "unit_score permuted"
    using jaroWinkler_unit [OF v(1)] jaroWinkler_unit [OF v(2) j] l by simp_all
  have tl: "\<forall>t \<in> set (tokens s1) \<union> set (tokens s2). length t \<le> 2 ^ 53"
  proof
    fix t assume "t \<in> set (tokens s1) \<union> set (tokens s2)"
    then have "length t \<le> width (tokens s1) \<or> length t \<le> width (tokens s2)" using length_width(2) by blast
    then show "length t \<le> 2 ^ 53" using w by linarith
  qed
  have tn: "length (tokens s1) \<le> 2 ^ 53" using length_width(1) [of "tokens s1"] w(1) by linarith
  obtain by_token where t: "token_score (tokens s1) (tokens s2) = Some by_token" "unit_score by_token"
    "tokens s1 \<noteq> [] \<and> set (tokens s1) \<subseteq> set (tokens s2) \<longrightarrow> by_token = Fin 1"
    using token_score_unit [OF tl tn] by blast
  let ?best = "pick (pick (pick (pick (direct, Jaro_winkler_match) (distance_score s1 s2, Typo_match)) (permuted, Permutation_match))
    (by_token, Token_match)) (substring_score s1 s2, Substring_match)"
  have sub: "unit_score (substring_score s1 s2)" using False by (intro substring_score_unit) (simp add: s1_def s2_def)
  have r: "calculateSimilarity target source = Some (round3 (fst ?best), snd ?best)"
    using False v t(1) by (simp add: calculateSimilarity_def Let_def flip: s1_def s2_def)
  have "unit_score (round3 (fst ?best))" using u t(2) sub distance_score_unit [of s1 s2] by (intro unit_round3 unit_pick) simp_all
  moreover have "by_token = Fin 1 \<Longrightarrow> fst ?best = Fin 1"
    using u sub distance_score_unit [of s1 s2] by (intro pick_one(2) [OF _ pick_one(1)] unit_pick) simp_all
  ultimately show ?thesis using r t(3) False by (auto simp: s1_def s2_def)
qed


text \<open>A name in another script, or of signs only, becomes the empty text: two such names are the same.\<close>

lemma collapse_all_space: "list_all is_space s \<Longrightarrow> list_all is_space (collapse_spaces s)"
  by (induction s rule: collapse_spaces.induct) (auto simp: is_space_def)

lemma unreadable_name: "\<forall>c \<in> set name. \<not> is_lower_alnum (lower_char c) \<Longrightarrow> normalizeName name = []"
proof -
  assume "\<forall>c \<in> set name. \<not> is_lower_alnum (lower_char c)"
  then have "list_all is_space (map (\<lambda>c. if is_lower_alnum c \<or> is_space c then c else CHR '' '') (toLowerCase name))"
    by (auto simp: list_all_iff toLowerCase_def is_space_def)
  from collapse_all_space [OF this] show ?thesis unfolding normalizeName_def trim_eq_Nil_iff .
qed

subsection \<open>Properties\<close>

text \<open>
  C7. The matrix of levenshtein is right: the number in its last cell, and on the short cuts for empty
  strings, is the least cost of an alignment of the two strings.
\<close>

theorem levenshtein_cheapest: "levenshtein s t = (LEAST n. aligned s t n)"
  using distance_aligned [of "length s" s "length t" t] aligned_distance [of s t]
  by (intro Least_equality [symmetric]) (simp_all add: levenshtein_distance)

text \<open>
  C9. Jaro-Winkler always returns: both flag arrays have the same number of matches, so the loop
  \<open>while (!match2[k]) k++\<close> finds one for every matched character and never runs past the end.
\<close>

theorem jaro_winkler_returns: "\<exists>v. jaroWinkler s1 s2 = Some v"
  by (rule jaroWinkler_terminates)

text \<open>
  C8. The similarity of two names is a finite number between 0 and 1, in spite of the roundings of the
  Jaro-Winkler bonus and of the averages, and it is 1 when the names are equal after normalisation or all
  words of the first occur in the second.
\<close>

theorem similarity_between_0_and_1:
  assumes "length target \<le> 2 ^ 52" and "length source \<le> 2 ^ 52"
  shows "\<exists>q kind. calculateSimilarity target source = Some (Fin q, kind) \<and> 0 \<le> q \<and> q \<le> 1 \<and>
    (tokens (normalizeName target) \<noteq> [] \<and> set (tokens (normalizeName target)) \<subseteq> set (tokens (normalizeName source)) \<longrightarrow> q = 1)"
  using similarity_score [OF assms] by (auto simp: ranged_def)

theorem similarity_between_0_and_1_witness:
  "\<exists>kind. calculateSimilarity ''LADEN, Osama'' ''Osama bin Laden'' = Some (Fin 1, kind)"
proof -
  have t: "tokens (normalizeName ''LADEN, Osama'') = [''laden'', ''osama'']"
    "tokens (normalizeName ''Osama bin Laden'') = [''osama'', ''bin'', ''laden'']" by code_simp+
  show ?thesis using similarity_between_0_and_1 [of "''LADEN, Osama''" "''Osama bin Laden''"] by (auto simp: t)
qed

end
