(* ===== verification/Sanctions.thy ===== *)
theory Sanctions
  imports Db_Process Name_Similarity
begin

text \<open>
  Sanction screening: \<open>src/src/services/sanctionService.ts\<close>, its daily job
  \<open>src/src/jobs/sanctionSyncJob.ts\<close> and the screening before a Stellar payment in
  \<open>src/src/services/stellar/stellarService.ts\<close>.

  The table \<open>sanction_list\<close> is a list of rows with the widths of its migration
  (\<open>src/migrations/011_create_sanction_list.sql\<close>). That migration has an index on the columns
  \<open>(external_id, source)\<close> but no unique one, which \<open>ON CONFLICT\<close> needs: \<open>unique_key\<close> says whether there is one,
  and \<open>False\<close> is the program as it is. The entries read from the two XML feeds are an argument, the
  addresses are resolved by the SDK (\<open>resolve\<close>). The statements of a transaction on a client have no effect
  before its COMMIT.
\<close>

subsection \<open>Types\<close>

record sanction_entity =
  se_name :: string
  se_country :: "string option"
  se_source :: string
  se_category :: "string option"
  se_external :: "string option"

datatype party = Sender | Receiver

record review_item =
  ri_party :: party
  ri_name :: string
  ri_entity :: sanction_entity
  ri_score :: js_num
  ri_kind :: match_type
  ri_at :: int

record sanction_match =
  ma_entity :: sanction_entity
  ma_score :: js_num
  ma_kind :: match_type

datatype sanction_error =
  Sanction_screening party string string js_num string
| Invalid_address party string
| No_conflict_target
| Value_too_long
| Connection_failed

record sanction_world =
  sw_list :: "sanction_entity list"
  sw_queue :: "review_item list"
  sw_clock :: int
  sw_failures :: nat
  sw_records :: nat

record sanction_env =
  threshold_text :: "string option"
  review_text :: "string option"
  unique_key :: bool
  resolve :: "string \<Rightarrow> string + string"

type_synonym 'a sanction = "(sanction_world, sanction_error + 'a) proc"

definition SEED_SANCTIONS :: "sanction_entity list" where
  "SEED_SANCTIONS =
     [\<lparr>se_name = ''John Doe'', se_country = Some ''Country A'', se_source = ''UN'', se_category = Some ''Individual'', se_external = Some ''UN-123''\<rparr>,
      \<lparr>se_name = ''Global Arms Ltd'', se_country = Some ''Country B'', se_source = ''OFAC'', se_category = Some ''Entity'', se_external = Some ''OFAC-456''\<rparr>,
      \<lparr>se_name = ''Jane Smith'', se_country = Some ''Country C'', se_source = ''EU'', se_category = Some ''Individual'', se_external = Some ''EU-789''\<rparr>,
      \<lparr>se_name = ''Osama bin Laden'', se_country = Some ''Saudi Arabia'', se_source = ''UN'', se_category = Some ''Individual'', se_external = Some ''UN-001''\<rparr>]"

subsection \<open>Synchronisation of the list\<close>

definition same_entry :: "sanction_entity \<Rightarrow> sanction_entity \<Rightarrow> bool" where
  "same_entry e f = (se_external e = se_external f \<and> se_source e = se_source f)"

definition merge_seeds :: "sanction_entity list \<Rightarrow> sanction_entity list" where
  "merge_seeds fetched = foldl (\<lambda>merged seed. if \<exists>e \<in> set merged. same_entry e seed then merged else merged @ [seed]) fetched SEED_SANCTIONS"

definition exceeds_width :: "nat \<Rightarrow> string option \<Rightarrow> bool" where
  "exceeds_width n v = (case v of None \<Rightarrow> False | Some s \<Rightarrow> n < length s)"

definition insert_error :: "sanction_env \<Rightarrow> sanction_entity \<Rightarrow> sanction_error option" where
  "insert_error env e =
     (if \<not> unique_key env then Some No_conflict_target
      else if 255 < length (se_name e) \<or> exceeds_width 100 (se_country e) \<or> 50 < length (se_source e) \<or> exceeds_width 50 (se_category e) \<or>
        exceeds_width 100 (se_external e) then Some Value_too_long
      else None)"

text \<open>The \<open>INSERT ... ON CONFLICT DO UPDATE\<close>; a missing \<open>external_id\<close> is never in conflict.\<close>

definition upsert :: "sanction_entity \<Rightarrow> sanction_entity list \<Rightarrow> sanction_entity list" where
  "upsert e rows =
     (if se_external e \<noteq> None \<and> (\<exists>r \<in> set rows. same_entry r e)
      then map (\<lambda>r. if same_entry r e then r\<lparr>se_name := se_name e, se_country := se_country e, se_category := se_category e\<rparr> else r) rows
      else rows @ [e])"

definition client_query :: "sanction_error option \<Rightarrow> unit sanction" where
  "client_query err = call (\<lambda>w. (case err of Some e \<Rightarrow> Inl e | None \<Rightarrow> Inr (), w)) Connection_failed"

fun insert_entities :: "sanction_env \<Rightarrow> sanction_entity list \<Rightarrow> unit sanction" where
  "insert_entities env [] = ok ()"
| "insert_entities env (e # es) = and_then (client_query (insert_error env e)) (\<lambda>_. insert_entities env es)"

definition updateSanctionList :: "sanction_env \<Rightarrow> sanction_entity list \<Rightarrow> unit sanction" where
  "updateSanctionList env entities =
     and_then (client_query None) (\<lambda>_.
       catch (and_then (client_query None) (\<lambda>_. and_then (insert_entities env entities) (\<lambda>_.
                call (\<lambda>w. (Inr (), w\<lparr>sw_list := fold upsert entities (sw_list w)\<rparr>)) Connection_failed)))
         (\<lambda>e. and_then (client_query None) (\<lambda>_. throw e)))"

definition runSanctionSyncJob :: "sanction_env \<Rightarrow> sanction_entity list \<Rightarrow> unit sanction" where
  "runSanctionSyncJob env fetched =
     catch (and_then (updateSanctionList env (merge_seeds fetched)) (\<lambda>_.
         and_then (call (\<lambda>w. (Inr (length (sw_list w)), w)) Connection_failed) (\<lambda>n.
         silent_step (\<lambda>w. w\<lparr>sw_records := n\<rparr>))))
       (\<lambda>e. and_then (silent_step (\<lambda>w. w\<lparr>sw_failures := Suc (sw_failures w)\<rparr>)) (\<lambda>_. throw e))"

subsection \<open>Screening\<close>

text \<open>\<open>parseFloat(process.env.X || fallback)\<close>.\<close>

definition env_number :: "string option \<Rightarrow> string \<Rightarrow> js_num" where
  "env_number v fallback = parse_float (case v of Some s \<Rightarrow> if s = [] then fallback else s | None \<Rightarrow> fallback)"

definition similarity :: "string \<Rightarrow> string \<Rightarrow> js_num \<times> match_type" where
  "similarity name listed = (case calculateSimilarity name listed of Some p \<Rightarrow> p | None \<Rightarrow> (NaN, Exact_match))"

text \<open>The comparator \<open>b.score - a.score\<close> of the sort, which is stable.\<close>

definition score_key :: "sanction_match \<Rightarrow> rat" where
  "score_key m = (case ma_score m of Fin q \<Rightarrow> - q | _ \<Rightarrow> 0)"

definition matches_in :: "js_num \<Rightarrow> string \<Rightarrow> sanction_entity list \<Rightarrow> sanction_match list" where
  "matches_in limit name rows =
     sort_key score_key (concat (map (\<lambda>r. case similarity name (se_name r) of (score, kind) \<Rightarrow>
       if jge score limit then [\<lparr>ma_entity = r, ma_score = score, ma_kind = kind\<rparr>] else []) rows))"

definition searchSanctions :: "sanction_env \<Rightarrow> string \<Rightarrow> js_num option \<Rightarrow> sanction_match list sanction" where
  "searchSanctions env name threshold =
     (let limit = (case threshold of Some t \<Rightarrow> t | None \<Rightarrow> env_number (threshold_text env) ''0.85'')
      in call (\<lambda>w. (Inr (matches_in limit name (sw_list w)), w)) Connection_failed)"

definition addToManualReviewQueue :: "party \<Rightarrow> string \<Rightarrow> sanction_match \<Rightarrow> unit sanction" where
  "addToManualReviewQueue role name best =
     silent_step (\<lambda>w. w\<lparr>sw_queue := sw_queue w @ [\<lparr>ri_party = role, ri_name = name, ri_entity = ma_entity best,
       ri_score = ma_score best, ri_kind = ma_kind best, ri_at = sw_clock w\<rparr>]\<rparr>)"

definition refuse :: "party \<Rightarrow> string \<Rightarrow> sanction_match \<Rightarrow> 'a sanction" where
  "refuse role name best = throw (Sanction_screening role name (se_name (ma_entity best)) (ma_score best) (se_source (ma_entity best)))"

definition check_party :: "sanction_env \<Rightarrow> js_num \<Rightarrow> js_num \<Rightarrow> party \<Rightarrow> string \<Rightarrow> unit sanction" where
  "check_party env threshold reviewThreshold role name =
     and_then (searchSanctions env name (Some reviewThreshold)) (\<lambda>found. case found of [] \<Rightarrow> ok ()
     | best # _ \<Rightarrow> if jge (ma_score best) threshold then refuse role name best else addToManualReviewQueue role name best)"

definition checkParties :: "sanction_env \<Rightarrow> string \<Rightarrow> string \<Rightarrow> js_num option \<Rightarrow> js_num option \<Rightarrow> unit sanction" where
  "checkParties env senderName receiverName threshold reviewThreshold =
     (let t = (case threshold of Some v \<Rightarrow> v | None \<Rightarrow> env_number (threshold_text env) ''0.85'');
          r = (case reviewThreshold of Some v \<Rightarrow> v | None \<Rightarrow> env_number (review_text env) ''0.75'')
      in and_then (check_party env t r Sender senderName) (\<lambda>_. check_party env t r Receiver receiverName))"

definition check_identifier :: "sanction_env \<Rightarrow> party \<Rightarrow> string \<Rightarrow> unit sanction" where
  "check_identifier env role screeningId =
     and_then (searchSanctions env screeningId None) (\<lambda>found. case found of [] \<Rightarrow> ok () | best # _ \<Rightarrow> refuse role screeningId best)"

definition or_else :: "string option \<Rightarrow> string \<Rightarrow> string" where
  "or_else name fallback = (case name of Some n \<Rightarrow> if n = [] then fallback else n | None \<Rightarrow> fallback)"

definition checkPartiesByAddress :: "sanction_env \<Rightarrow> string \<Rightarrow> string \<Rightarrow> string option \<Rightarrow> string option \<Rightarrow> unit sanction" where
  "checkPartiesByAddress env senderAddress receiverAddress senderName receiverName =
     (case resolve env senderAddress of Inl m \<Rightarrow> throw (Invalid_address Sender m)
      | Inr sender \<Rightarrow> (case resolve env receiverAddress of Inl m \<Rightarrow> throw (Invalid_address Receiver m)
        | Inr receiver \<Rightarrow> and_then (check_identifier env Sender (or_else senderName sender))
            (\<lambda>_. check_identifier env Receiver (or_else receiverName receiver))))"

text \<open>The screening of \<open>sendPayment\<close>: \<open>issuer\<close> is the public key of the configured issuer.\<close>

definition is_screening_error :: "sanction_error \<Rightarrow> bool" where
  "is_screening_error e = (case e of Sanction_screening _ _ _ _ _ \<Rightarrow> True | _ \<Rightarrow> False)"

definition screen_payment :: "sanction_env \<Rightarrow> string option \<Rightarrow> string \<Rightarrow> string option \<Rightarrow> string option \<Rightarrow> unit sanction" where
  "screen_payment env issuer destination senderName receiverName =
     (case resolve env destination of Inl m \<Rightarrow> throw (Invalid_address Receiver m)
      | Inr resolved \<Rightarrow>
        and_then (case (senderName, receiverName) of
            (Some s, Some r) \<Rightarrow> if s \<noteq> [] \<and> r \<noteq> [] then checkParties env s r None None else ok ()
          | _ \<Rightarrow> ok ()) (\<lambda>_.
        case issuer of None \<Rightarrow> ok ()
        | Some sender \<Rightarrow> catch (checkPartiesByAddress env sender resolved senderName receiverName)
            (\<lambda>e. if is_screening_error e then throw e else ok ())))"

subsection \<open>Calls running together\<close>

datatype sanction_call =
  Sync_call "sanction_entity list"
| Check_call string string "js_num option" "js_num option"
| Payment_call "string option" string "string option" "string option"

definition end_call :: "('w, 'a) proc \<Rightarrow> ('w, unit) proc" where
  "end_call p = bind_proc p (\<lambda>_. Finished ())"

fun sanction_proc :: "sanction_env \<Rightarrow> sanction_call \<Rightarrow> (sanction_world, unit) proc" where
  "sanction_proc env (Sync_call fetched) = end_call (runSanctionSyncJob env fetched)"
| "sanction_proc env (Check_call s r t rt) = end_call (checkParties env s r t rt)"
| "sanction_proc env (Payment_call issuer dest s r) = end_call (screen_payment env issuer dest s r)"

definition sanction_pool :: "(sanction_env \<times> sanction_call) list \<Rightarrow> (sanction_world, unit) proc list" where
  "sanction_pool cs = map (\<lambda>(env, c). sanction_proc env c) cs"

lemma keeps_end_call: "keeps I (on_ok Q) p \<Longrightarrow> keeps I (\<lambda>_. True) (end_call p)"
  unfolding end_call_def by (erule keeps_bind) simp

lemma merge_seeds_not_Nil: "merge_seeds fetched \<noteq> []"
  by (auto simp: merge_seeds_def SEED_SANCTIONS_def)

text \<open>The laws of an invariant that only looks at the list.\<close>

locale list_invariant =
  fixes I :: "sanction_world \<Rightarrow> bool" and of_list :: "sanction_entity list \<Rightarrow> bool"
  assumes I_list: "I w \<longleftrightarrow> of_list (sw_list w)"
begin

lemma keeps_client_query: "keeps I (on_ok (\<lambda>_. err = None)) (client_query err)"
  unfolding client_query_def by (rule keeps_call) (auto split: option.splits)

lemma keeps_search: "keeps I (on_ok (\<lambda>_. True)) (searchSanctions env name t)"
  unfolding searchSanctions_def Let_def by (rule keeps_call) simp

lemma keeps_refuse: "keeps I (on_ok Q) (refuse role name best)"
  unfolding refuse_def by (rule keeps_throw)

lemma keeps_check_party: "keeps I (on_ok (\<lambda>_. True)) (check_party env t r role name)"
  unfolding check_party_def addToManualReviewQueue_def
  by (rule keeps_and_then [OF keeps_search])
    (auto intro!: keeps_ok keeps_refuse keeps_silent_step simp: I_list split: list.splits)

lemma keeps_checkParties: "keeps I (on_ok (\<lambda>_. True)) (checkParties env s r t rt)"
  unfolding checkParties_def Let_def by (intro keeps_and_then [OF keeps_check_party] keeps_check_party)

lemma keeps_check_identifier: "keeps I (on_ok (\<lambda>_. True)) (check_identifier env role name)"
  unfolding check_identifier_def
  by (rule keeps_and_then [OF keeps_search]) (auto intro!: keeps_ok keeps_refuse split: list.splits)

lemma keeps_screen_payment: "keeps I (on_ok (\<lambda>_. True)) (screen_payment env issuer dest s r)"
  unfolding screen_payment_def checkPartiesByAddress_def
  by (auto intro!: keeps_throw keeps_and_then [where Q = "\<lambda>_. True"] keeps_ok keeps_checkParties keeps_catch
      keeps_check_identifier split: sum.splits option.splits)

lemma keeps_inserts: "keeps I (on_ok (\<lambda>_. \<forall>e \<in> set es. insert_error env e = None)) (insert_entities env es)"
proof (induction env es rule: insert_entities.induct)
  case (2 env e es)
  then show ?case by (auto intro!: keeps_and_then [OF keeps_client_query] elim: keeps_weaken)
qed (simp add: ok_def)

lemma keeps_sync:
  assumes "\<And>w. I w \<Longrightarrow> \<forall>e \<in> set (merge_seeds fetched). insert_error env e = None \<Longrightarrow>
    I (w\<lparr>sw_list := fold upsert (merge_seeds fetched) (sw_list w)\<rparr>)"
  shows "keeps I (on_ok (\<lambda>_. True)) (runSanctionSyncJob env fetched)"
proof -
  have commit: "\<forall>e \<in> set (merge_seeds fetched). insert_error env e = None \<Longrightarrow>
     keeps I (on_ok (\<lambda>_. True)) (call (\<lambda>w. (Inr (), w\<lparr>sw_list := fold upsert (merge_seeds fetched) (sw_list w)\<rparr>)) Connection_failed)"
    by (rule keeps_call) (simp add: assms)
  have "keeps I (on_ok (\<lambda>_. True)) (updateSanctionList env (merge_seeds fetched))"
    unfolding updateSanctionList_def
    by (intro keeps_and_then [OF keeps_client_query] keeps_catch keeps_and_then [OF keeps_inserts] commit keeps_throw) simp_all
  moreover have "keeps I (on_ok (\<lambda>_. True)) (call (\<lambda>w. (Inr (length (sw_list w)), w)) Connection_failed)"
    by (rule keeps_call) simp
  ultimately show ?thesis unfolding runSanctionSyncJob_def
    by (intro keeps_catch keeps_and_then [where Q = "\<lambda>_. True"] keeps_silent_step keeps_throw) (simp_all add: I_list)
qed

end

definition without_key :: "(sanction_world, unit) proc \<Rightarrow> bool" where
  "without_key p \<longleftrightarrow> (\<exists>env c. \<not> unique_key env \<and> p = sanction_proc env c)"

interpretation fixed_list: list_invariant "\<lambda>w. sw_list w = rows" "\<lambda>l. l = rows" for rows
  by unfold_locales simp

interpretation fixed_list_world: shared_world "\<lambda>w. sw_list w = rows" without_key for rows
proof
  fix p assume "without_key p"
  then obtain env c where p: "\<not> unique_key env" "p = sanction_proc env c" by (auto simp: without_key_def)
  have none: "\<not> (\<forall>e \<in> set (merge_seeds fetched). insert_error env e = None)" for fetched
    using merge_seeds_not_Nil [of fetched] p(1) by (auto simp: insert_error_def neq_Nil_conv)
  then show "keeps (\<lambda>w. sw_list w = rows) (\<lambda>_. True) p" unfolding p(2)
    by (cases c) (auto intro!: keeps_end_call [where Q = "\<lambda>_. True"] fixed_list.keeps_checkParties fixed_list.keeps_screen_payment fixed_list.keeps_sync
      simp: none)
qed

text \<open>The names of the table have the width of its column.\<close>

definition names_ok :: "sanction_entity list \<Rightarrow> bool" where
  "names_ok rows = list_all (\<lambda>r. length (se_name r) \<le> 255) rows"

lemma names_ok_upsert: "names_ok rows \<Longrightarrow> insert_error env e = None \<Longrightarrow> names_ok (upsert e rows)"
  by (auto simp: names_ok_def upsert_def list_all_iff insert_error_def split: if_splits)

lemma names_ok_upserts: "names_ok rows \<Longrightarrow> \<forall>e \<in> set es. insert_error env e = None \<Longrightarrow> names_ok (fold upsert es rows)"
  by (induction es arbitrary: rows) (simp_all add: names_ok_upsert [of _ env])

interpretation short_names: list_invariant "\<lambda>w. names_ok (sw_list w)" names_ok
  by unfold_locales simp

interpretation short_names_world: shared_world "\<lambda>w. names_ok (sw_list w)" "\<lambda>p. \<exists>env c. p = sanction_proc env c"
proof
  fix p assume "\<exists>env c. p = sanction_proc env c"
  then obtain env c where p: "p = sanction_proc env c" by blast
  show "keeps (\<lambda>w. names_ok (sw_list w)) (\<lambda>_. True) p" unfolding p
    by (cases c) (auto intro!: keeps_end_call [where Q = "\<lambda>_. True"] short_names.keeps_checkParties short_names.keeps_screen_payment
      short_names.keeps_sync names_ok_upserts)
qed

subsection \<open>A listed name is refused\<close>

definition covered :: "string \<Rightarrow> string \<Rightarrow> bool" where
  "covered name listed \<longleftrightarrow> normalizeName name = normalizeName listed \<or>
     tokens (normalizeName name) \<noteq> [] \<and> set (tokens (normalizeName name)) \<subseteq> set (tokens (normalizeName listed))"

lemma similarity_unit:
  assumes "length name \<le> 2 ^ 52" and "length listed \<le> 255"
  shows "unit_score (fst (similarity name listed)) \<and> (covered name listed \<longrightarrow> fst (similarity name listed) = Fin 1)"
proof -
  have "length listed \<le> 2 ^ 52" using assms(2) by simp
  from similarity_score [OF assms(1) this] show ?thesis by (auto simp: similarity_def covered_def)
qed

lemma jge_one: "l \<le> 1 \<Longrightarrow> jge (Fin 1) (Fin l)"
  by simp

lemma listed_first:
  assumes "names_ok rows" and "r \<in> set rows" and "covered name (se_name r)" and "length name \<le> 2 ^ 52" and "l \<le> 1"
  shows "\<exists>m ms. matches_in (Fin l) name rows = m # ms \<and> ma_score m = Fin 1"
proof -
  define found where "found = concat (map (\<lambda>r. case similarity name (se_name r) of (score, kind) \<Rightarrow>
       if jge score (Fin l) then [\<lparr>ma_entity = r, ma_score = score, ma_kind = kind\<rparr>] else []) rows)"
  have unit: "unit_score (ma_score m)" if m: "m \<in> set found" for m
  proof -
    from m obtain e where e: "e \<in> set rows" "ma_score m = fst (similarity name (se_name e))"
      by (auto simp: found_def split: prod.splits if_splits) (metis fst_conv)
    then have "length (se_name e) \<le> 255" using assms(1) by (simp add: names_ok_def list_all_iff)
    then show ?thesis using similarity_unit [OF assms(4)] e(2) by simp
  qed
  obtain kind where "similarity name (se_name r) = (Fin 1, kind)"
    using similarity_unit [OF assms(4), of "se_name r"] assms(1-3) by (cases "similarity name (se_name r)") (auto simp: names_ok_def list_all_iff)
  then have hit: "\<lparr>ma_entity = r, ma_score = Fin 1, ma_kind = kind\<rparr> \<in> set (sort_key score_key found)"
    using assms(2,5) by (force simp: found_def)
  then obtain m ms where m: "sort_key score_key found = m # ms" by (cases "sort_key score_key found") auto
  have "sorted (map score_key (sort_key score_key found))" by (rule sorted_sort_key)
  then have "score_key m \<le> - 1" using hit by (auto simp: m score_key_def)
  moreover have "m \<in> set found" using m by (metis list.set_intros(1) set_sort)
  ultimately have "ma_score m = Fin 1" using unit by (fastforce simp: score_key_def ranged_def)
  then show ?thesis using m by (auto simp: matches_in_def found_def)
qed


lemma run_searchSanctions [proc_simps]:
  "run_proc (searchSanctions env name (Some limit)) is w =
     (if first_outcome is = Lost \<or> first_outcome is = Lost_after then Inl Connection_failed
      else Inr (matches_in limit name (sw_list w)), w, tl is)"
  by (simp add: searchSanctions_def Let_def run_call)

lemma run_check_party:
  "sw_list (fst (snd (run_proc (check_party env t r role name) is w))) = sw_list w \<and>
   (\<forall>e. fst (run_proc (check_party env t r role name) is w) = Inl e \<longrightarrow> e = Connection_failed \<or> is_screening_error e) \<and>
   (is = [] \<longrightarrow> snd (snd (run_proc (check_party env t r role name) is w)) = [] \<and>
      fst (run_proc (check_party env t r role name) is w) \<noteq> Inl Connection_failed)"
  by (auto simp: check_party_def proc_simps addToManualReviewQueue_def refuse_def is_screening_error_def split: list.splits)

lemma check_party_refuses:
  assumes "names_ok (sw_list w)" and "e \<in> set (sw_list w)" and "covered name (se_name e)" and "length name \<le> 2 ^ 52"
    and "a \<le> 1" and "b \<le> 1"
  shows "\<exists>err. fst (run_proc (check_party env (Fin a) (Fin b) role name) is w) = Inl err"
  using listed_first [OF assms(1-4,6)] assms(5) by (auto simp: check_party_def proc_simps refuse_def split: list.splits)

text \<open>The default limits.\<close>

lemma default_limits: "env_number None ''0.85'' = of_exact (85 / 100)" "env_number None ''0.75'' = of_exact (75 / 100)"
  by (simp_all add: env_number_def parse_float_def Let_def is_space_def is_digit_def exponent_part_def digits_value_def startsWith_def)

lemma default_limits_below_1:
  "\<exists>a \<le> 1. env_number None ''0.85'' = Fin a" "\<exists>b \<le> 1. env_number None ''0.75'' = Fin b"
  using unit_of_exact [of "85 / 100"] unit_of_exact [of "75 / 100"] by (auto simp: default_limits ranged_def)

lemma checkParties_refuses:
  assumes "names_ok (sw_list w)" and "e \<in> set (sw_list w)"
    and "covered sender (se_name e) \<and> length sender \<le> 2 ^ 52 \<or> covered receiver (se_name e) \<and> length receiver \<le> 2 ^ 52"
    and "env_number (threshold_text env) ''0.85'' = Fin a" and "a \<le> 1" and "env_number (review_text env) ''0.75'' = Fin b" and "b \<le> 1"
  shows "\<exists>err. fst (run_proc (checkParties env sender receiver None None) is w) = Inl err \<and> (is = [] \<longrightarrow> is_screening_error err)"
proof -
  obtain r1 w1 is1 where one: "run_proc (check_party env (Fin a) (Fin b) Sender sender) is w = (r1, w1, is1)" by (metis prod_cases3)
  obtain r2 w2 is2 where two: "run_proc (check_party env (Fin a) (Fin b) Receiver receiver) is1 w1 = (r2, w2, is2)" by (metis prod_cases3)
  have w1: "sw_list w1 = sw_list w" and e1: "\<forall>e. r1 = Inl e \<longrightarrow> is = [] \<longrightarrow> is_screening_error e" "is = [] \<longrightarrow> is1 = []"
    using run_check_party [of env "Fin a" "Fin b" Sender sender "is" w] one by auto
  have e2: "\<forall>e. r2 = Inl e \<longrightarrow> is1 = [] \<longrightarrow> is_screening_error e"
    using run_check_party [of env "Fin a" "Fin b" Receiver receiver is1 w1] two by auto
  have "(\<exists>err. r1 = Inl err) \<or> (\<exists>err. r2 = Inl err)"
    using check_party_refuses [OF assms(1,2) _ _ assms(5,7), of sender env Sender "is"] one
      check_party_refuses [OF assms(1,2) [folded w1] _ _ assms(5,7), of receiver env Receiver is1] two assms(3) by auto
  then show ?thesis using e1 e2
    by (cases r1) (auto simp: checkParties_def Let_def assms(4,6) proc_simps one two split: sum.splits)
qed


subsection \<open>A synchronised list\<close>

lemma upsert_keeps_other:
  "r \<in> set rows \<Longrightarrow> same_entry r e \<Longrightarrow> \<not> same_entry e f \<Longrightarrow> r \<in> set (upsert f rows)"
  by (force simp: upsert_def same_entry_def)

lemma upserts_keep:
  "r \<in> set rows \<Longrightarrow> same_entry r e \<Longrightarrow> \<forall>f \<in> set es. \<not> same_entry e f \<Longrightarrow> r \<in> set (fold upsert es rows)"
  by (induction es arbitrary: rows) (simp_all add: upsert_keeps_other)

lemma upsert_entry: "se_external e \<noteq> None \<Longrightarrow> \<exists>r \<in> set (upsert e rows). same_entry r e \<and> se_name r = se_name e"
proof (cases "\<exists>r \<in> set rows. same_entry r e")
  case True
  then obtain r where "r \<in> set rows" "same_entry r e" by blast
  moreover assume "se_external e \<noteq> None"
  ultimately show ?thesis
    by (intro bexI [of _ "r\<lparr>se_name := se_name e, se_country := se_country e, se_category := se_category e\<rparr>"])
      (auto simp: upsert_def same_entry_def)
qed (auto simp: upsert_def same_entry_def)

lemma upserts_entry:
  assumes "es = before @ e # after" and "se_external e \<noteq> None" and "\<forall>f \<in> set after. \<not> same_entry e f"
  shows "\<exists>r \<in> set (fold upsert es rows). se_name r = se_name e"
proof -
  obtain r where "r \<in> set (upsert e (fold upsert before rows))" "same_entry r e" "se_name r = se_name e"
    using upsert_entry [OF assms(2)] by blast
  with upserts_keep [OF this(1,2) assms(3)] show ?thesis by (auto simp: assms(1))
qed

lemma run_inserts:
  "\<forall>e \<in> set es. insert_error env e = None \<Longrightarrow> run_proc (insert_entities env es) [] w = (Inr (), w, [])"
  by (induction env es rule: insert_entities.induct) (simp_all add: proc_simps client_query_def)

lemma run_sync:
  "\<forall>e \<in> set (merge_seeds fetched). insert_error env e = None \<Longrightarrow>
   run_proc (runSanctionSyncJob env fetched) [] w = (Inr (), w\<lparr>sw_list := fold upsert (merge_seeds fetched) (sw_list w),
     sw_records := length (fold upsert (merge_seeds fetched) (sw_list w))\<rparr>, [])"
  by (simp add: runSanctionSyncJob_def updateSanctionList_def client_query_def proc_simps run_inserts)

text \<open>An entry whose key no later entry of the batch has; the seeds are such entries.\<close>

definition final_entry :: "sanction_entity \<Rightarrow> sanction_entity list \<Rightarrow> bool" where
  "final_entry e es \<longleftrightarrow> se_external e \<noteq> None \<and> (\<exists>before after. es = before @ e # after \<and> (\<forall>f \<in> set after. \<not> same_entry e f))"

subsection \<open>Properties\<close>

definition program_env :: sanction_env where
  "program_env = \<lparr>threshold_text = None, review_text = None, unique_key = False, resolve = (\<lambda>a. Inr a)\<rparr>"

definition keyed_env :: sanction_env where
  "keyed_env = program_env\<lparr>unique_key := True\<rparr>"

definition no_sanctions :: sanction_world where
  "no_sanctions = \<lparr>sw_list = [], sw_queue = [], sw_clock = 0, sw_failures = 0, sw_records = 0\<rparr>"

lemma empty_list_passes: "sw_list w = [] \<Longrightarrow> run_proc (checkParties env s r t rt) [] w = (Inr (), w, [])"
  by (simp add: checkParties_def Let_def check_party_def proc_simps matches_in_def)

text \<open>
  C5. In the program as it is the sanction list is never filled. The statement of the synchronisation
  names a conflict target that the migration does not provide, so every run of the job fails whatever the
  feeds deliver: after any calls in any interleaving the list is what it was, and while it is empty the
  screening lets every pair of names pass.
\<close>

theorem sanction_list_never_filled:
  assumes "\<forall>(env, c) \<in> set cs. \<not> unique_key env" and "w' = snd (run_pool sched (sanction_pool cs) w)"
  shows "sw_list w' = sw_list w \<and>
    (sw_list w = [] \<longrightarrow> (\<forall>env sender receiver t rt. run_proc (checkParties env sender receiver t rt) [] w' = (Inr (), w', [])))"
proof -
  have "list_all without_key (sanction_pool cs)"
    using assms(1) by (fastforce simp: sanction_pool_def without_key_def list_all_iff)
  from fixed_list_world.pool_inv [OF this refl, of sched] have "sw_list w' = sw_list w" unfolding assms(2) .
  then show ?thesis by (simp add: empty_list_passes)
qed

theorem sanction_list_never_filled_witness:
  "fst (run_proc (checkParties program_env ''Osama bin Laden'' ''Jane Smith'' None None) []
     (snd (run_pool [(0, Fresh), (0, Lost_after)] (sanction_pool [(program_env, Sync_call [])]) no_sanctions))) = Inr ()"
  using sanction_list_never_filled [of "[(program_env, Sync_call [])]", OF _ refl, of "[(0, Fresh), (0, Lost_after)]" no_sanctions]
  by (simp add: program_env_def no_sanctions_def)

text \<open>
  C6. With a unique key the screening works. Once a batch has been synchronised, and whatever other calls
  ran before, a payment between two parties is refused when the normalised words of one name all occur in
  the name of an entry of the batch (with a later entry of the same key it is replaced), in any order and
  any spelling of case and punctuation; only a lost call can hide the reason. The entries of the batch include
  the four that the service always adds.
\<close>

theorem synchronised_name_refused:
  assumes "names_ok (sw_list w)" and "\<forall>e \<in> set (merge_seeds fetched). insert_error env e = None"
    and "final_entry e (merge_seeds fetched)"
    and "covered sender (se_name e) \<and> length sender \<le> 2 ^ 52 \<or> covered receiver (se_name e) \<and> length receiver \<le> 2 ^ 52"
    and "env_number (threshold_text env) ''0.85'' = Fin a" and "a \<le> 1" and "env_number (review_text env) ''0.75'' = Fin b" and "b \<le> 1"
    and "w' = fst (snd (run_proc (runSanctionSyncJob env fetched) [] w))"
  shows "\<exists>err. fst (run_proc (checkParties env sender receiver None None) is w') = Inl err \<and> (is = [] \<longrightarrow> is_screening_error err)"
proof -
  have l: "sw_list w' = fold upsert (merge_seeds fetched) (sw_list w)" unfolding assms(9) run_sync [OF assms(2)] by simp
  obtain r where r: "r \<in> set (sw_list w')" "se_name r = se_name e"
    using assms(3) upserts_entry unfolding final_entry_def l by metis
  have "names_ok (sw_list w')" unfolding l by (rule names_ok_upserts [OF assms(1,2)])
  from checkParties_refuses [OF this r(1) _ assms(5-8), of sender receiver "is"] show ?thesis using assms(4) r(2) by simp
qed

lemma seeds_only: "merge_seeds [] = SEED_SANCTIONS"
  by (simp add: merge_seeds_def SEED_SANCTIONS_def same_entry_def)

theorem synchronised_name_refused_witness:
  "\<exists>err. fst (run_proc (checkParties keyed_env ''jane'' ''Paul'' None None) []
     (fst (snd (run_proc (runSanctionSyncJob keyed_env []) [] no_sanctions)))) = Inl err \<and> is_screening_error err"
proof -
  let ?jane = "\<lparr>se_name = ''Jane Smith'', se_country = Some ''Country C'', se_source = ''EU'', se_category = Some ''Individual'',
    se_external = Some ''EU-789''\<rparr>"
  have ok: "\<forall>e \<in> set (merge_seeds []). insert_error keyed_env e = None"
    by (simp add: seeds_only SEED_SANCTIONS_def insert_error_def keyed_env_def program_env_def exceeds_width_def)
  have "final_entry ?jane (merge_seeds [])" unfolding final_entry_def seeds_only SEED_SANCTIONS_def
    by (rule conjI, simp, rule exI [of _ "take 2 SEED_SANCTIONS"], rule exI [of _ "drop 3 SEED_SANCTIONS"])
      (simp add: SEED_SANCTIONS_def same_entry_def)
  moreover have "tokens (normalizeName ''jane'') = [''jane'']" "tokens (normalizeName ''Jane Smith'') = [''jane'', ''smith'']" by code_simp+
  then have "covered ''jane'' (se_name ?jane)" by (simp add: covered_def)
  moreover obtain a b where "env_number (threshold_text keyed_env) ''0.85'' = Fin a" "a \<le> 1"
    "env_number (review_text keyed_env) ''0.75'' = Fin b" "b \<le> 1"
    using default_limits_below_1 by (auto simp: keyed_env_def program_env_def)
  ultimately show ?thesis
    using synchronised_name_refused [OF _ ok, of no_sanctions ?jane "''jane''" "''Paul''" a b, OF _ _ _ _ _ _ _ refl, of "[]"]
    by (simp add: names_ok_def no_sanctions_def)
qed

text \<open>Limits that are not numbers switch the screening off; a database that is down lets a payment without names pass.\<close>

lemma no_match_above_NaN: "matches_in NaN name rows = []"
proof -
  have "concat (map (\<lambda>r. case similarity name (se_name r) of (score, kind) \<Rightarrow>
       if jge score NaN then [\<lparr>ma_entity = r, ma_score = score, ma_kind = kind\<rparr>] else []) rows) = []"
    by (induction rows) (simp_all split: prod.split)
  then show ?thesis by (simp only: matches_in_def) simp
qed

lemma unreadable_limit_passes:
  "\<exists>w'. run_proc (checkParties env sender receiver (Some NaN) (Some NaN)) [] w = (Inr (), w', [])"
  by (simp add: checkParties_def check_party_def proc_simps no_match_above_NaN Let_def)

lemma outage_lets_payment_pass:
  assumes "\<forall>a. \<exists>g. resolve env a = Inr g"
  shows "fst (run_proc (screen_payment env (Some issuer) destination None None) [Lost] w) = Inr ()"
proof -
  obtain g h where "resolve env destination = Inr g" "resolve env issuer = Inr h" "\<exists>k. resolve env g = Inr k" using assms by metis
  then show ?thesis
    by (auto simp: screen_payment_def checkPartiesByAddress_def check_identifier_def searchSanctions_def Let_def proc_simps
        is_screening_error_def)
qed

text \<open>A customer whose name has no letter of the English alphabet is refused once one entry of the list has such a name.\<close>

lemma foreign_names_match:
  "\<forall>c \<in> set name. \<not> is_lower_alnum (lower_char c) \<Longrightarrow> \<forall>c \<in> set listed. \<not> is_lower_alnum (lower_char c) \<Longrightarrow>
   similarity name listed = (Fin 1, Exact_match)"
  by (simp add: similarity_def calculateSimilarity_def unreadable_name Let_def)

end
