(* ===== verification/Aml.thy ===== *)
theory Aml
  imports Sanctions
begin

text \<open>
  Anti money laundering: \<open>src/src/services/aml.ts\<close> with the table operations of
  \<open>src/src/models/amlAlert.ts\<close> (the list of alerts is in theory \<open>Cursor_Pages\<close>).

  The service keeps objects and arrays that are shared: an alert and the result of an evaluation refer to
  the same array of rule hits, and the list in memory refers to alert objects that are changed later. So
  objects and arrays have addresses (positions in \<open>aw_objects\<close>, \<open>aw_hits\<close> and \<open>aw_reasons\<close>). A message is the
  value it is printed from. \<open>recordAlert\<close> is not awaited after a sanction match: the call is then an entry
  of \<open>aw_unawaited\<close>, and its process runs at any later time. Transactions and applicants are tables that
  the service only reads. \<open>generateSAR\<close> is an entry of \<open>aw_sars\<close>.
\<close>

subsection \<open>Types\<close>

datatype aml_type = Deposit_tx | Withdraw_tx | Other_tx

record aml_transaction =
  at_id :: string
  at_user :: string
  at_type :: aml_type
  at_amount :: js_num
  at_created :: js_date

datatype aml_status = Pending_review | Reviewed | Dismissed

datatype aml_severity = Medium_severity | High_severity

datatype aml_rule = Single_transaction_threshold | Daily_total_threshold | Rapid_structuring | Sanction_match

datatype aml_message =
  Exceeds_single js_num js_num
| Exceeds_daily js_num js_num
| Rapid_pattern nat js_num
| Possible_sanction string js_num string

record rule_hit =
  hit_rule :: aml_rule
  hit_message :: aml_message
  hit_observed :: js_num
  hit_threshold :: js_num

record aml_alert =
  al_id :: string
  al_transaction :: string
  al_user :: string
  al_severity :: aml_severity
  al_status :: aml_status
  al_hits :: nat
  al_reasons :: nat
  al_created :: int
  al_updated :: int
  al_reviewed_at :: "int option"
  al_reviewed_by :: "string option"
  al_notes :: "string option"

record alert_record =
  ar_id :: string
  ar_transaction :: string
  ar_user :: string
  ar_severity :: aml_severity
  ar_status :: aml_status
  ar_hits :: "rule_hit list"
  ar_reasons :: "aml_message list"
  ar_created :: int
  ar_reviewed_by :: "string option"
  ar_notes :: "string option"

record alert_review =
  re_alert :: string
  re_previous :: aml_status
  re_new :: aml_status
  re_by :: string
  re_notes :: "string option"

record aml_config =
  singleTransactionThresholdXaf :: js_num
  dailyTotalThresholdXaf :: js_num
  rollingWindowHours :: js_num
  rapidWindowMinutes :: js_num
  rapidTransactionCount :: js_num
  structuringFloorXaf :: js_num
  alertBufferSize :: js_num

record aml_world =
  aw_hits :: "rule_hit list list"
  aw_reasons :: "aml_message list list"
  aw_objects :: "aml_alert list"
  aw_memory :: "nat list"
  aw_unawaited :: "nat list"
  aw_rows :: "alert_record list"
  aw_history :: "alert_review list"
  aw_sars :: "(string \<times> string) list"
  aw_clock :: int
  aw_transactions :: "aml_transaction list"
  aw_applicants :: "(string \<times> string option \<times> string option) list"
  aw_sanctions :: sanction_world

datatype aml_error = Aml_query_failed | Aml_screening sanction_error

type_synonym 'a aml = "(aml_world, aml_error + 'a) proc"

record monitoring_result =
  mr_flagged :: bool
  mr_alert :: "nat option"
  mr_hits :: nat

subsection \<open>Windows\<close>

text \<open>\<open>a >= b\<close> on dates compares their times.\<close>

definition not_before :: "js_date \<Rightarrow> js_date \<Rightarrow> bool" where
  "not_before a b = jge (get_time a) (get_time b)"

definition getLookbackWindowStart :: "aml_config \<Rightarrow> js_date \<Rightarrow> js_date" where
  "getLookbackWindowStart cfg now =
     date_from (jsub (get_time now) (jmul (jmul (jmul (rollingWindowHours cfg) (Fin 60)) (Fin 60)) (Fin 1000)))"

definition getRapidWindowStart :: "aml_config \<Rightarrow> js_date \<Rightarrow> js_date" where
  "getRapidWindowStart cfg now = date_from (jsub (get_time now) (jmul (jmul (rapidWindowMinutes cfg) (Fin 60)) (Fin 1000)))"

subsection \<open>Rules\<close>

definition sum_amounts :: "aml_transaction list \<Rightarrow> js_num" where
  "sum_amounts txs = foldl (\<lambda>acc tx. jadd acc (at_amount tx)) (Fin 0) txs"

definition single_hit :: "aml_config \<Rightarrow> aml_transaction \<Rightarrow> rule_hit list" where
  "single_hit cfg tx =
     (if jgt (at_amount tx) (singleTransactionThresholdXaf cfg)
      then [\<lparr>hit_rule = Single_transaction_threshold, hit_message = Exceeds_single (at_amount tx) (singleTransactionThresholdXaf cfg),
             hit_observed = at_amount tx, hit_threshold = singleTransactionThresholdXaf cfg\<rparr>] else [])"

definition daily_hit :: "aml_config \<Rightarrow> aml_transaction \<Rightarrow> aml_transaction list \<Rightarrow> rule_hit list" where
  "daily_hit cfg tx windowTxs =
     (let rollingTotal = jadd (sum_amounts windowTxs) (at_amount tx) in
      if jgt rollingTotal (dailyTotalThresholdXaf cfg)
      then [\<lparr>hit_rule = Daily_total_threshold, hit_message = Exceeds_daily rollingTotal (dailyTotalThresholdXaf cfg),
             hit_observed = rollingTotal, hit_threshold = dailyTotalThresholdXaf cfg\<rparr>] else [])"

definition rapid_hit :: "aml_config \<Rightarrow> aml_transaction \<Rightarrow> aml_transaction list \<Rightarrow> rule_hit list" where
  "rapid_hit cfg tx windowTxs =
     (let rapidStart = getRapidWindowStart cfg (at_created tx);
          rapidSet = filter (\<lambda>t. not_before (at_created t) rapidStart) windowTxs @ [tx];
          rapidCount = length rapidSet;
          structuring = filter (\<lambda>t. jge (at_amount t) (structuringFloorXaf cfg) \<and>
            jlt (at_amount t) (singleTransactionThresholdXaf cfg)) rapidSet
      in if jge (number rapidCount) (rapidTransactionCount cfg) \<and> (\<exists>t \<in> set rapidSet. at_type t = Deposit_tx) \<and>
           (\<exists>t \<in> set rapidSet. at_type t = Withdraw_tx) \<and> jge (number (length structuring)) (rapidTransactionCount cfg)
         then [\<lparr>hit_rule = Rapid_structuring, hit_message = Rapid_pattern rapidCount (rapidWindowMinutes cfg),
                hit_observed = number rapidCount, hit_threshold = rapidTransactionCount cfg\<rparr>] else [])"

definition window_of :: "aml_config \<Rightarrow> aml_transaction \<Rightarrow> aml_transaction list \<Rightarrow> aml_transaction list" where
  "window_of cfg tx recent = filter (\<lambda>t. not_before (at_created t) (getLookbackWindowStart cfg (at_created tx))) recent"

definition rule_hits :: "aml_config \<Rightarrow> aml_transaction \<Rightarrow> aml_transaction list \<Rightarrow> rule_hit list" where
  "rule_hits cfg tx recent =
     (let windowTxs = window_of cfg tx recent
      in single_hit cfg tx @ daily_hit cfg tx windowTxs @ rapid_hit cfg tx windowTxs)"

definition severity_of :: "rule_hit list \<Rightarrow> aml_severity" where
  "severity_of hits = (if \<exists>h \<in> set hits. hit_rule h = Single_transaction_threshold \<or> hit_rule h = Daily_total_threshold
     then High_severity else Medium_severity)"

subsection \<open>Reading\<close>

definition recent_rows :: "string \<Rightarrow> js_date \<Rightarrow> string \<Rightarrow> aml_world \<Rightarrow> aml_transaction list" where
  "recent_rows userId since exclude w =
     filter (\<lambda>t. isFinite (at_amount t) \<and> jge (at_amount t) (Fin 0))
       (filter (\<lambda>t. at_user t = userId \<and> not_before (at_created t) since \<and> at_id t \<noteq> exclude)
         (rev (sort_key (\<lambda>t. case at_created t of Some c \<Rightarrow> c | None \<Rightarrow> 0) (aw_transactions w))))"

definition fetchRecentTransactions :: "string \<Rightarrow> js_date \<Rightarrow> string \<Rightarrow> aml_transaction list aml" where
  "fetchRecentTransactions userId since exclude = call (\<lambda>w. (Inr (recent_rows userId since exclude w), w)) Aml_query_failed"

definition or_empty :: "string option \<Rightarrow> string" where
  "or_empty s = (case s of Some x \<Rightarrow> x | None \<Rightarrow> [])"

definition applicant_name :: "string \<Rightarrow> aml_world \<Rightarrow> string option" where
  "applicant_name userId w = (case map_of (aw_applicants w) userId of None \<Rightarrow> None
     | Some (firstName, lastName) \<Rightarrow> Some (trim (or_empty firstName @ '' '' @ or_empty lastName)))"

definition fetchUserName :: "string \<Rightarrow> string option aml" where
  "fetchUserName userId = catch (call (\<lambda>w. (Inr (applicant_name userId w), w)) Aml_query_failed) (\<lambda>_. ok None)"

subsection \<open>Recording\<close>

definition the_alert :: "nat \<Rightarrow> aml_world \<Rightarrow> aml_alert" where
  "the_alert a w = aw_objects w ! a"

definition record_of :: "aml_world \<Rightarrow> aml_alert \<Rightarrow> alert_record" where
  "record_of w al = \<lparr>ar_id = al_id al, ar_transaction = al_transaction al, ar_user = al_user al, ar_severity = al_severity al,
     ar_status = al_status al, ar_hits = aw_hits w ! al_hits al, ar_reasons = aw_reasons w ! al_reasons al,
     ar_created = al_created al, ar_reviewed_by = None, ar_notes = None\<rparr>"

text \<open>\<open>AMLAlertModel.create\<close>.\<close>

definition create_alert_row :: "nat \<Rightarrow> unit aml" where
  "create_alert_row a = call (\<lambda>w. (Inr (), w\<lparr>aw_rows := aw_rows w @ [record_of w (the_alert a w)]\<rparr>)) Aml_query_failed"

text \<open>\<open>slice(0, end)\<close> for a number.\<close>

definition slice_to :: "js_num \<Rightarrow> 'a list \<Rightarrow> 'a list" where
  "slice_to v xs = (case math_trunc v of
     Fin q \<Rightarrow> if q < 0 then take (nat (int (length xs) + floor q)) xs else take (nat (floor q)) xs
   | PosInf \<Rightarrow> xs | _ \<Rightarrow> [])"

definition remember_alert :: "aml_config \<Rightarrow> nat \<Rightarrow> aml_world \<Rightarrow> aml_world" where
  "remember_alert cfg a w =
     (let alerts = a # aw_memory w
      in w\<lparr>aw_memory := if jgt (number (length alerts)) (alertBufferSize cfg) then slice_to (alertBufferSize cfg) alerts else alerts\<rparr>)"

definition prepare_sar :: "nat \<Rightarrow> aml_world \<Rightarrow> aml_world" where
  "prepare_sar a w = (let al = the_alert a w in
     if al_severity al = High_severity then w\<lparr>aw_sars := aw_sars w @ [(al_user al, al_id al)]\<rparr> else w)"

definition recordAlert :: "aml_config \<Rightarrow> nat \<Rightarrow> unit aml" where
  "recordAlert cfg a =
     catch (and_then (create_alert_row a) (\<lambda>_. silent_step (prepare_sar a))) (\<lambda>_. silent_step (remember_alert cfg a))"

text \<open>The call that nobody awaits, once it runs.\<close>

definition unawaited_record :: "aml_config \<Rightarrow> unit aml" where
  "unawaited_record cfg =
     and_then (local_step (\<lambda>w. case aw_unawaited w of [] \<Rightarrow> (None, w) | a # as \<Rightarrow> (Some a, w\<lparr>aw_unawaited := as\<rparr>)))
       (\<lambda>waiting. case waiting of None \<Rightarrow> ok () | Some a \<Rightarrow> recordAlert cfg a)"

subsection \<open>Monitoring\<close>

text \<open>New arrays and a new alert object; \<open>hits\<close> is the address of an array that exists.\<close>

definition new_hits :: "rule_hit list \<Rightarrow> aml_world \<Rightarrow> nat \<times> aml_world" where
  "new_hits hits w = (length (aw_hits w), w\<lparr>aw_hits := aw_hits w @ [hits]\<rparr>)"

definition new_alert :: "string \<Rightarrow> aml_transaction \<Rightarrow> aml_severity \<Rightarrow> nat \<Rightarrow> aml_world \<Rightarrow> nat \<times> aml_world" where
  "new_alert new_id tx severity hits w =
     (length (aw_objects w), w\<lparr>aw_reasons := aw_reasons w @ [map hit_message (aw_hits w ! hits)],
        aw_objects := aw_objects w @ [\<lparr>al_id = new_id, al_transaction = at_id tx, al_user = at_user tx, al_severity = severity,
          al_status = Pending_review, al_hits = hits, al_reasons = length (aw_reasons w), al_created = aw_clock w,
          al_updated = aw_clock w, al_reviewed_at = None, al_reviewed_by = None, al_notes = None\<rparr>]\<rparr>)"

definition evaluateTransaction :: "aml_config \<Rightarrow> string \<Rightarrow> aml_transaction \<Rightarrow> aml_transaction list \<Rightarrow> monitoring_result aml" where
  "evaluateTransaction cfg new_id tx recent =
     (let hits = rule_hits cfg tx recent in
      and_then (local_step (new_hits hits)) (\<lambda>arr.
      if hits = [] then ok \<lparr>mr_flagged = False, mr_alert = None, mr_hits = arr\<rparr>
      else and_then (local_step (new_alert new_id tx (severity_of hits) arr)) (\<lambda>a.
        and_then (recordAlert cfg a) (\<lambda>_. ok \<lparr>mr_flagged = True, mr_alert = Some a, mr_hits = arr\<rparr>))))"

definition sanction_hit :: "sanction_match \<Rightarrow> rule_hit" where
  "sanction_hit m = \<lparr>hit_rule = Sanction_match,
     hit_message = Possible_sanction (se_name (ma_entity m)) (ma_score m) (se_source (ma_entity m)),
     hit_observed = ma_score m, hit_threshold = of_exact (85 / 100)\<rparr>"

definition push_hit :: "nat \<Rightarrow> rule_hit \<Rightarrow> aml_world \<Rightarrow> aml_world" where
  "push_hit arr h w = w\<lparr>aw_hits := (aw_hits w)[arr := (aw_hits w ! arr) @ [h]]\<rparr>"

definition escalate :: "nat \<Rightarrow> rule_hit \<Rightarrow> aml_world \<Rightarrow> aml_world" where
  "escalate a h w =
     (let w1 = w\<lparr>aw_objects := (aw_objects w)[a := (the_alert a w)\<lparr>al_severity := High_severity\<rparr>]\<rparr>;
          w2 = push_hit (al_hits (the_alert a w)) h w1;
          r = al_reasons (the_alert a w)
      in w2\<lparr>aw_reasons := (aw_reasons w2)[r := (aw_reasons w2 ! r) @ [hit_message h]]\<rparr>)"

text \<open>The synchronous part after the look-up of the sanctions.\<close>

definition add_sanction :: "string \<Rightarrow> aml_transaction \<Rightarrow> monitoring_result \<Rightarrow> sanction_match \<Rightarrow> aml_world \<Rightarrow> monitoring_result \<times> aml_world" where
  "add_sanction new_id tx result m w =
     (let h = sanction_hit m; w1 = push_hit (mr_hits result) h w in
      case mr_alert result of
        Some a \<Rightarrow> (result\<lparr>mr_flagged := True\<rparr>, escalate a h w1)
      | None \<Rightarrow> (case new_hits [h] w1 of (arr, w2) \<Rightarrow>
          case new_alert new_id tx High_severity arr w2 of (a, w3) \<Rightarrow>
            (result\<lparr>mr_flagged := True, mr_alert := Some a\<rparr>, w3\<lparr>aw_unawaited := aw_unawaited w3 @ [a]\<rparr>)))"

definition screen_user :: "sanction_env \<Rightarrow> string \<Rightarrow> sanction_match list aml" where
  "screen_user env name = bind_proc (lift_proc aw_sanctions (\<lambda>s w. w\<lparr>aw_sanctions := s\<rparr>) (searchSanctions env name None))
     (\<lambda>r. case r of Inl e \<Rightarrow> throw (Aml_screening e) | Inr x \<Rightarrow> ok x)"

definition monitorTransaction :: "aml_config \<Rightarrow> sanction_env \<Rightarrow> string \<Rightarrow> string \<Rightarrow> aml_transaction \<Rightarrow> monitoring_result aml" where
  "monitorTransaction cfg env id1 id2 tx =
     and_then (fetchRecentTransactions (at_user tx) (getLookbackWindowStart cfg (at_created tx)) (at_id tx)) (\<lambda>recent.
     and_then (fetchUserName (at_user tx)) (\<lambda>userName.
     and_then (evaluateTransaction cfg id1 tx recent) (\<lambda>result.
     if \<not> truthy_string userName then ok result
     else and_then (screen_user env (or_empty userName)) (\<lambda>found. case found of [] \<Rightarrow> ok result
       | best # _ \<Rightarrow> local_step (add_sanction id2 tx result best)))))"

subsection \<open>Alerts in memory\<close>

record alert_filter =
  ft_status :: "aml_status option"
  ft_user :: "string option"
  ft_start :: "int option"
  ft_end :: "int option"

definition passes_filter :: "alert_filter \<Rightarrow> aml_alert \<Rightarrow> bool" where
  "passes_filter f al \<longleftrightarrow> (case ft_status f of None \<Rightarrow> True | Some s \<Rightarrow> al_status al = s) \<and>
     (case ft_user f of None \<Rightarrow> True | Some u \<Rightarrow> u = [] \<or> al_user al = u) \<and>
     (case ft_start f of None \<Rightarrow> True | Some t \<Rightarrow> t \<le> al_created al) \<and> (case ft_end f of None \<Rightarrow> True | Some t \<Rightarrow> al_created al \<le> t)"

definition getAlerts :: "alert_filter \<Rightarrow> aml_world \<Rightarrow> aml_alert list" where
  "getAlerts f w = sort_key (\<lambda>al. - al_created al) (filter (passes_filter f) (map (\<lambda>a. the_alert a w) (aw_memory w)))"

definition getPendingReviewAlerts :: "aml_world \<Rightarrow> aml_alert list" where
  "getPendingReviewAlerts = getAlerts \<lparr>ft_status = Some Pending_review, ft_user = None, ft_start = None, ft_end = None\<rparr>"

fun find_index :: "('a \<Rightarrow> bool) \<Rightarrow> 'a list \<Rightarrow> nat option" where
  "find_index P [] = None"
| "find_index P (x # xs) = (if P x then Some 0 else map_option Suc (find_index P xs))"

definition reviewAlert :: "string \<Rightarrow> aml_status \<Rightarrow> string \<Rightarrow> string option \<Rightarrow> aml_world \<Rightarrow> aml_alert option \<times> aml_world" where
  "reviewAlert alertId status reviewedBy notes w =
     (case find_index (\<lambda>a. al_id (the_alert a w) = alertId) (aw_memory w) of None \<Rightarrow> (None, w)
      | Some i \<Rightarrow> let updated = (the_alert (aw_memory w ! i) w)\<lparr>al_status := status, al_reviewed_by := Some reviewedBy,
            al_notes := notes, al_reviewed_at := Some (aw_clock w), al_updated := aw_clock w\<rparr>
          in (Some updated, w\<lparr>aw_objects := aw_objects w @ [updated], aw_memory := (aw_memory w)[i := length (aw_objects w)]\<rparr>))"

record aml_report =
  rp_total :: nat
  rp_pending :: nat
  rp_reviewed :: nat
  rp_dismissed :: nat
  rp_high :: nat
  rp_medium :: nat
  rp_rules :: "aml_rule \<Rightarrow> nat"
  rp_daily :: "(int \<times> nat) list"

definition count_if :: "('a \<Rightarrow> bool) \<Rightarrow> 'a list \<Rightarrow> nat" where
  "count_if P xs = length (filter P xs)"

text \<open>A day is its number since the epoch; the texts of days are ordered in the same way.\<close>

definition generateReport :: "int \<Rightarrow> int \<Rightarrow> aml_world \<Rightarrow> aml_report" where
  "generateReport start_date end_date w =
     (let alerts = getAlerts \<lparr>ft_status = None, ft_user = None, ft_start = Some start_date, ft_end = Some end_date\<rparr> w;
          days = map (\<lambda>al. al_created al div 86400000) alerts
      in \<lparr>rp_total = length alerts, rp_pending = count_if (\<lambda>al. al_status al = Pending_review) alerts,
          rp_reviewed = count_if (\<lambda>al. al_status al = Reviewed) alerts, rp_dismissed = count_if (\<lambda>al. al_status al = Dismissed) alerts,
          rp_high = count_if (\<lambda>al. al_severity al = High_severity) alerts,
          rp_medium = count_if (\<lambda>al. al_severity al = Medium_severity) alerts,
          rp_rules = (\<lambda>r. sum_list (map (\<lambda>al. count_if (\<lambda>h. hit_rule h = r) (aw_hits w ! al_hits al)) alerts)),
          rp_daily = map (\<lambda>d. (d, count_if (\<lambda>e. e = d) days)) (sort (remdups days))\<rparr>)"

definition clearAlerts :: "aml_world \<Rightarrow> aml_world" where
  "clearAlerts w = w\<lparr>aw_memory := []\<rparr>"

subsection \<open>Reviews in the table\<close>

text \<open>
  \<open>AMLAlertModel.review\<close>: the row is locked from its SELECT to the end of the transaction, so BEGIN, the
  statements and COMMIT are one call; a lost one is rolled back.
\<close>

definition review_row :: "string \<Rightarrow> aml_status \<Rightarrow> string \<Rightarrow> string option \<Rightarrow> bool aml" where
  "review_row alertId status reviewer notes =
     call (\<lambda>w. case find (\<lambda>r. ar_id r = alertId) (aw_rows w) of None \<Rightarrow> (Inr False, w)
       | Some r \<Rightarrow> let kept = (if truthy_string notes then notes else None) in
           (Inr True, w\<lparr>aw_rows := map (\<lambda>r. if ar_id r = alertId then r\<lparr>ar_status := status, ar_reviewed_by := Some reviewer, ar_notes := kept\<rparr> else r)
               (aw_rows w),
             aw_history := aw_history w @ [\<lparr>re_alert = alertId, re_previous = ar_status r, re_new = status, re_by = reviewer, re_notes = kept\<rparr>]\<rparr>))
       Aml_query_failed"

definition getReviewHistory :: "string \<Rightarrow> alert_review list aml" where
  "getReviewHistory alertId = call (\<lambda>w. (Inr (rev (filter (\<lambda>e. re_alert e = alertId) (aw_history w))), w)) Aml_query_failed"

definition getAlertsByTransaction :: "string \<Rightarrow> alert_record list aml" where
  "getAlertsByTransaction tx =
     call (\<lambda>w. (Inr (rev (sort_key ar_created (filter (\<lambda>r. ar_transaction r = tx) (aw_rows w)))), w)) Aml_query_failed"

subsection \<open>One monitored transaction\<close>

lemma run_recordAlert:
  "run_proc (recordAlert cfg a) [] w =
     (Inr (), prepare_sar a (w\<lparr>aw_rows := aw_rows w @ [record_of w (the_alert a w)]\<rparr>), [])"
  by (simp add: recordAlert_def create_alert_row_def proc_simps)

text \<open>The hits of a transaction in a world.\<close>

definition hits_in :: "aml_config \<Rightarrow> aml_transaction \<Rightarrow> aml_world \<Rightarrow> rule_hit list" where
  "hits_in cfg tx w = rule_hits cfg tx (recent_rows (at_user tx) (getLookbackWindowStart cfg (at_created tx)) (at_id tx) w)"

definition sanction_limit :: "sanction_env \<Rightarrow> js_num" where
  "sanction_limit env = env_number (threshold_text env) ''0.85''"

definition matches_of :: "sanction_env \<Rightarrow> aml_transaction \<Rightarrow> aml_world \<Rightarrow> sanction_match list" where
  "matches_of env tx w = (if truthy_string (applicant_name (at_user tx) w)
     then matches_in (sanction_limit env) (or_empty (applicant_name (at_user tx) w)) (sw_list (aw_sanctions w)) else [])"

definition evaluated :: "aml_config \<Rightarrow> string \<Rightarrow> aml_transaction \<Rightarrow> rule_hit list \<Rightarrow> aml_world \<Rightarrow> monitoring_result \<times> aml_world" where
  "evaluated cfg new_id tx hits w =
     (case new_hits hits w of (arr, w1) \<Rightarrow>
        if hits = [] then (\<lparr>mr_flagged = False, mr_alert = None, mr_hits = arr\<rparr>, w1)
        else (case new_alert new_id tx (severity_of hits) arr w1 of (a, w2) \<Rightarrow>
          (\<lparr>mr_flagged = True, mr_alert = Some a, mr_hits = arr\<rparr>,
           prepare_sar a (w2\<lparr>aw_rows := aw_rows w2 @ [record_of w2 (the_alert a w2)]\<rparr>))))"

lemma run_evaluateTransaction:
  "run_proc (evaluateTransaction cfg new_id tx recent) [] w =
     (Inr (fst (evaluated cfg new_id tx (rule_hits cfg tx recent) w)), snd (evaluated cfg new_id tx (rule_hits cfg tx recent) w), [])"
  by (simp add: evaluateTransaction_def evaluated_def Let_def proc_simps run_recordAlert split_beta)

lemma run_screen_user:
  "run_proc (screen_user env name) [] w = (Inr (matches_in (sanction_limit env) name (sw_list (aw_sanctions w))), w, [])"
  by (simp add: screen_user_def searchSanctions_def sanction_limit_def Let_def proc_simps)

lemma evaluated_fields [simp]:
  "aw_applicants (snd (evaluated cfg i tx hits w)) = aw_applicants w" "aw_sanctions (snd (evaluated cfg i tx hits w)) = aw_sanctions w"
  "aw_memory (snd (evaluated cfg i tx hits w)) = aw_memory w" "aw_unawaited (snd (evaluated cfg i tx hits w)) = aw_unawaited w"
  by (simp_all add: evaluated_def new_hits_def new_alert_def prepare_sar_def Let_def split: prod.splits)

lemma run_monitorTransaction:
  "run_proc (monitorTransaction cfg env id1 id2 tx) [] w = (case evaluated cfg id1 tx (hits_in cfg tx w) w of (result, w1) \<Rightarrow>
     (case matches_of env tx w of [] \<Rightarrow> (Inr result, w1, [])
      | m # _ \<Rightarrow> (Inr (fst (add_sanction id2 tx result m w1)), snd (add_sanction id2 tx result m w1), [])))"
  by (cases "evaluated cfg id1 tx (hits_in cfg tx w) w")
    (use evaluated_fields [of cfg id1 tx "hits_in cfg tx w" w] in
     \<open>auto simp: monitorTransaction_def fetchRecentTransactions_def fetchUserName_def proc_simps run_evaluateTransaction
        run_screen_user hits_in_def matches_of_def applicant_name_def split: list.splits\<close>)

text \<open>What an evaluation with hits allocates and stores.\<close>

lemma evaluated_hits:
  assumes "hits \<noteq> []" and "evaluated cfg i tx hits w = (result, w1)"
  shows "result = \<lparr>mr_flagged = True, mr_alert = Some (length (aw_objects w)), mr_hits = length (aw_hits w)\<rparr> \<and>
    aw_hits w1 = aw_hits w @ [hits] \<and> aw_reasons w1 = aw_reasons w @ [map hit_message hits] \<and>
    aw_objects w1 = aw_objects w @ [\<lparr>al_id = i, al_transaction = at_id tx, al_user = at_user tx, al_severity = severity_of hits,
       al_status = Pending_review, al_hits = length (aw_hits w), al_reasons = length (aw_reasons w), al_created = aw_clock w,
       al_updated = aw_clock w, al_reviewed_at = None, al_reviewed_by = None, al_notes = None\<rparr>] \<and>
    aw_rows w1 = aw_rows w @ [\<lparr>ar_id = i, ar_transaction = at_id tx, ar_user = at_user tx, ar_severity = severity_of hits,
       ar_status = Pending_review, ar_hits = hits, ar_reasons = map hit_message hits, ar_created = aw_clock w,
       ar_reviewed_by = None, ar_notes = None\<rparr>] \<and>
    aw_sars w1 = aw_sars w @ (if severity_of hits = High_severity then [(at_user tx, i)] else []) \<and>
    aw_memory w1 = aw_memory w \<and> aw_unawaited w1 = aw_unawaited w"
  using assms
  by (auto simp: evaluated_def new_hits_def new_alert_def prepare_sar_def record_of_def the_alert_def Let_def split: if_splits)

subsection \<open>Properties\<close>

text \<open>
  C15. An escalation is not stored. When rules and the sanction list both flag a transaction, the returned
  alert is of high severity and lists the sanction hit twice (the result and the alert share one array), but
  the row that was stored before has the severity of the rules and no sanction hit, and unless a threshold
  was exceeded no report of suspicious activity is prepared.
\<close>

theorem escalation_not_stored:
  assumes "hits_in cfg tx w \<noteq> []" and "matches_of env tx w = m # ms"
    and "run_proc (monitorTransaction cfg env id1 id2 tx) [] w = (Inr result, w', [])"
  shows "\<exists>a. mr_alert result = Some a \<and> al_severity (the_alert a w') = High_severity \<and>
    aw_hits w' ! al_hits (the_alert a w') = hits_in cfg tx w @ [sanction_hit m, sanction_hit m] \<and>
    aw_hits w' ! mr_hits result = aw_hits w' ! al_hits (the_alert a w') \<and>
    (\<exists>row. aw_rows w' = aw_rows w @ [row] \<and> ar_id row = id1 \<and> ar_severity row = severity_of (hits_in cfg tx w) \<and>
       ar_hits row = hits_in cfg tx w) \<and>
    (severity_of (hits_in cfg tx w) = Medium_severity \<longrightarrow> aw_sars w' = aw_sars w)"
proof -
  obtain r1 w1 where e: "evaluated cfg id1 tx (hits_in cfg tx w) w = (r1, w1)" by (cases "evaluated cfg id1 tx (hits_in cfg tx w) w")
  note facts = evaluated_hits [OF assms(1) e]
  have "result = fst (add_sanction id2 tx r1 m w1)" "w' = snd (add_sanction id2 tx r1 m w1)"
    using assms(2,3) by (simp_all add: run_monitorTransaction e)
  then show ?thesis using facts
    by (simp add: add_sanction_def escalate_def push_hit_def the_alert_def Let_def)
qed

definition sample_cfg :: aml_config where
  "sample_cfg = \<lparr>singleTransactionThresholdXaf = Fin 1000000, dailyTotalThresholdXaf = Fin 5000000, rollingWindowHours = Fin 24,
     rapidWindowMinutes = Fin 15, rapidTransactionCount = Fin 3, structuringFloorXaf = Fin 100000, alertBufferSize = Fin 5000\<rparr>"

definition sample_moves :: "aml_transaction list" where
  "sample_moves = [\<lparr>at_id = ''t1'', at_user = ''u'', at_type = Deposit_tx, at_amount = Fin 500000, at_created = Some 1700000000000\<rparr>,
     \<lparr>at_id = ''t2'', at_user = ''u'', at_type = Withdraw_tx, at_amount = Fin 300000, at_created = Some 1700000060000\<rparr>]"

definition sample_move :: aml_transaction where
  "sample_move = \<lparr>at_id = ''t3'', at_user = ''u'', at_type = Deposit_tx, at_amount = Fin 400000, at_created = Some 1700000120000\<rparr>"

definition sample_aml_world :: aml_world where
  "sample_aml_world = \<lparr>aw_hits = [], aw_reasons = [], aw_objects = [], aw_memory = [], aw_unawaited = [], aw_rows = [], aw_history = [],
     aw_sars = [], aw_clock = 1700000120000, aw_transactions = sample_moves,
     aw_applicants = [(''u'', Some ''Jane'', Some ''Smith'')],
     aw_sanctions = \<lparr>sw_list = SEED_SANCTIONS, sw_queue = [], sw_clock = 0, sw_failures = 0, sw_records = 0\<rparr>\<rparr>"

lemma sample_exact:
  "of_exact 1440 = Fin 1440" "of_exact 86400 = Fin 86400" "of_exact 86400000 = Fin 86400000" "of_exact 900 = Fin 900"
  "of_exact 900000 = Fin 900000" "of_exact 1699913720000 = Fin 1699913720000" "of_exact 1699999220000 = Fin 1699999220000"
  "of_exact 500000 = Fin 500000" "of_exact 300000 = Fin 300000" "of_exact 800000 = Fin 800000" "of_exact 1200000 = Fin 1200000"
  using of_exact_int [of 1440] of_exact_int [of 86400] of_exact_int [of 86400000] of_exact_int [of 900] of_exact_int [of 900000]
    of_exact_int [of 1699913720000] of_exact_int [of 1699999220000] of_exact_int [of 500000] of_exact_int [of 300000]
    of_exact_int [of 800000] of_exact_int [of 1200000] by simp_all

lemma sample_windows:
  "getLookbackWindowStart sample_cfg (at_created sample_move) = Some 1699913720000"
  "getRapidWindowStart sample_cfg (at_created sample_move) = Some 1699999220000"
  by (simp_all add: getLookbackWindowStart_def getRapidWindowStart_def sample_cfg_def sample_move_def get_time_def jsub_def sample_exact
      date_from_def time_clip_def max_time_def)

lemma sample_hits: "\<exists>h. hits_in sample_cfg sample_move sample_aml_world = [h] \<and> hit_rule h = Rapid_structuring"
proof -
  have r: "recent_rows (at_user sample_move) (Some 1699913720000) (at_id sample_move) sample_aml_world = rev sample_moves"
    by (simp add: recent_rows_def sample_aml_world_def sample_moves_def sample_move_def not_before_def get_time_def)
  have f: "filter (\<lambda>t. not_before (at_created t) (Some 1699913720000)) (rev sample_moves) = rev sample_moves"
    "filter (\<lambda>t. not_before (at_created t) (Some 1699999220000)) (rev sample_moves) = rev sample_moves"
    by (simp_all add: sample_moves_def not_before_def get_time_def)
  show ?thesis
    unfolding hits_in_def rule_hits_def window_of_def single_hit_def daily_hit_def rapid_hit_def sample_windows Let_def r f
    by (simp add: sample_moves_def sample_move_def sample_cfg_def sum_amounts_def sample_exact number_def)
qed

lemma sample_match: "\<exists>m ms. matches_of program_env sample_move sample_aml_world = m # ms"
proof -
  let ?jane = "\<lparr>se_name = ''Jane Smith'', se_country = Some ''Country C'', se_source = ''EU'', se_category = Some ''Individual'',
    se_external = Some ''EU-789''\<rparr>"
  have name: "applicant_name (at_user sample_move) sample_aml_world = Some ''Jane Smith''" by code_simp
  obtain a where "sanction_limit program_env = Fin a" "a \<le> 1"
    using default_limits_below_1 by (auto simp: sanction_limit_def program_env_def)
  moreover have "names_ok SEED_SANCTIONS" "?jane \<in> set SEED_SANCTIONS" by (simp_all add: names_ok_def SEED_SANCTIONS_def)
  moreover have "covered ''Jane Smith'' (se_name ?jane)" by (simp add: covered_def)
  ultimately obtain m ms where "matches_in (sanction_limit program_env) ''Jane Smith'' SEED_SANCTIONS = m # ms"
    using listed_first [of SEED_SANCTIONS ?jane "''Jane Smith''" a] by auto
  then show ?thesis by (simp add: matches_of_def name or_empty_def) (simp add: sample_aml_world_def)
qed

theorem escalation_not_stored_witness:
  "\<exists>row. aw_rows (fst (snd (run_proc (monitorTransaction sample_cfg program_env ''a1'' ''a2'' sample_move) [] sample_aml_world))) = [row] \<and>
     ar_severity row = Medium_severity \<and> length (ar_hits row) = 1"
proof -
  obtain h where h: "hits_in sample_cfg sample_move sample_aml_world = [h]" "hit_rule h = Rapid_structuring" using sample_hits by blast
  obtain m ms where m: "matches_of program_env sample_move sample_aml_world = m # ms" using sample_match by blast
  obtain r1 w1 where "evaluated sample_cfg ''a1'' sample_move (hits_in sample_cfg sample_move sample_aml_world) sample_aml_world = (r1, w1)"
    by (cases "evaluated sample_cfg ''a1'' sample_move (hits_in sample_cfg sample_move sample_aml_world) sample_aml_world")
  then obtain result w' where run: "run_proc (monitorTransaction sample_cfg program_env ''a1'' ''a2'' sample_move) [] sample_aml_world = (Inr result, w', [])"
    by (simp add: run_monitorTransaction m)
  have "aw_rows sample_aml_world = []" by (simp only: sample_aml_world_def aml_world.simps)
  then show ?thesis using escalation_not_stored [OF _ m run] h by (auto simp: run severity_of_def)
qed

datatype aml_call = Monitor_call aml_config sanction_env string string aml_transaction | Unawaited_call aml_config

fun aml_calls :: "aml_call list \<Rightarrow> aml_world \<Rightarrow> aml_world" where
  "aml_calls [] w = w"
| "aml_calls (Monitor_call cfg env i1 i2 tx # cs) w = aml_calls cs (fst (snd (run_proc (monitorTransaction cfg env i1 i2 tx) [] w)))"
| "aml_calls (Unawaited_call cfg # cs) w = aml_calls cs (fst (snd (run_proc (unawaited_record cfg) [] w)))"

lemma monitor_memory: "aw_memory (fst (snd (run_proc (monitorTransaction cfg env i1 i2 tx) [] w))) = aw_memory w"
proof -
  have "aw_memory (snd (add_sanction i2 tx r m v)) = aw_memory v" for r m v
    by (simp add: add_sanction_def escalate_def push_hit_def new_hits_def new_alert_def Let_def split: option.splits)
  then show ?thesis
    using evaluated_fields(3) [of cfg i1 tx "hits_in cfg tx w" w]
    by (cases "evaluated cfg i1 tx (hits_in cfg tx w) w") (auto simp: run_monitorTransaction split: list.splits)
qed

lemma unawaited_memory: "aw_memory (fst (snd (run_proc (unawaited_record cfg) [] w))) = aw_memory w"
  by (auto simp: unawaited_record_def proc_simps run_recordAlert prepare_sar_def Let_def split: list.splits)

lemma aml_calls_memory: "aw_memory (aml_calls cs w) = aw_memory w"
  by (induction cs w rule: aml_calls.induct) (simp_all add: monitor_memory unawaited_memory)

lemma sample_rows:
  "length (aw_rows (aml_calls [Monitor_call sample_cfg program_env ''a1'' ''a2'' sample_move] sample_aml_world)) = 1"
proof -
  obtain h where h: "hits_in sample_cfg sample_move sample_aml_world \<noteq> []" using sample_hits by auto
  obtain m ms where m: "matches_of program_env sample_move sample_aml_world = m # ms" using sample_match by blast
  obtain r1 w1 where e: "evaluated sample_cfg ''a1'' sample_move (hits_in sample_cfg sample_move sample_aml_world) sample_aml_world = (r1, w1)"
    by (cases "evaluated sample_cfg ''a1'' sample_move (hits_in sample_cfg sample_move sample_aml_world) sample_aml_world")
  have "aw_rows sample_aml_world = []" by (simp only: sample_aml_world_def aml_world.simps)
  then show ?thesis using evaluated_hits [OF h e]
    by (simp add: run_monitorTransaction e m add_sanction_def escalate_def push_hit_def Let_def)
qed

text \<open>
  C16. A stored alert cannot be listed, reported or reviewed. After any sequence of monitored transactions
  and unawaited calls whose statements succeed, the list in memory, from which the alerts are listed, reported
  and reviewed, is what it was; so a service that starts empty lists nothing, reports nothing and finds no
  alert to review, however many rows the table has.
\<close>

theorem stored_alerts_invisible:
  assumes "aw_memory w = []" and "w' = aml_calls cs w"
  shows "getAlerts f w' = [] \<and> rp_total (generateReport d e w') = 0 \<and> reviewAlert alertId status by_whom notes w' = (None, w')"
  using aml_calls_memory [of cs w] assms by (simp add: getAlerts_def generateReport_def reviewAlert_def Let_def)

theorem stored_alerts_invisible_witness:
  "length (aw_rows (aml_calls [Monitor_call sample_cfg program_env ''a1'' ''a2'' sample_move] sample_aml_world)) = 1 \<and>
   fst (reviewAlert ''a1'' Reviewed ''officer'' None (aml_calls [Monitor_call sample_cfg program_env ''a1'' ''a2'' sample_move] sample_aml_world)) = None"
proof -
  have "aw_memory sample_aml_world = []" by (simp only: sample_aml_world_def aml_world.simps)
  from stored_alerts_invisible [OF this refl, of _ "[Monitor_call sample_cfg program_env ''a1'' ''a2'' sample_move]"] sample_rows
  show ?thesis by simp
qed

lemma sum_amounts_exact:
  assumes "list_all2 (\<lambda>t n. at_amount t = Fin (of_nat n)) txs ns"
  shows "k + sum_list ns \<le> 2 ^ 53 \<Longrightarrow> foldl (\<lambda>acc tx. jadd acc (at_amount tx)) (Fin (of_nat k)) txs = Fin (of_nat (k + sum_list ns))"
  using assms
proof (induction txs ns arbitrary: k rule: list_all2_induct)
  case (Cons t txs n ns)
  have "of_exact (of_int (int (k + n))) = Fin (of_int (int (k + n)))" using Cons.prems by (intro of_exact_int) simp
  then show ?case using Cons.IH [of "k + n"] Cons.hyps(1) Cons.prems by (simp add: add.assoc)
qed simp

text \<open>
  C17. The daily rule is exact. For amounts in whole francs that add up to at most 2 ^ 53, a transaction has
  a hit of the daily rule exactly if the true sum of the transactions in its window and its own amount
  exceeds the threshold, in spite of the additions in binary64.
\<close>

theorem daily_rule_exact:
  assumes "list_all2 (\<lambda>t n. at_amount t = Fin (of_nat n)) (window_of cfg tx recent) ns" and "at_amount tx = Fin (of_nat n)"
    and "sum_list ns + n \<le> 2 ^ 53" and "dailyTotalThresholdXaf cfg = Fin limit"
  shows "(\<exists>h \<in> set (rule_hits cfg tx recent). hit_rule h = Daily_total_threshold) \<longleftrightarrow> limit < of_nat (sum_list ns + n)"
proof -
  have "sum_amounts (window_of cfg tx recent) = Fin (of_nat (sum_list ns))"
    using sum_amounts_exact [OF assms(1), of 0] assms(3) by (simp add: sum_amounts_def)
  moreover have "of_exact (of_int (int (sum_list ns + n))) = Fin (of_int (int (sum_list ns + n)))"
    using assms(3) by (intro of_exact_int) simp
  ultimately have "jadd (sum_amounts (window_of cfg tx recent)) (at_amount tx) = Fin (of_nat (sum_list ns + n))"
    using assms(2) by simp
  then show ?thesis using assms(4) by (auto simp: rule_hits_def daily_hit_def single_hit_def rapid_hit_def Let_def)
qed

theorem daily_rule_exact_witness:
  "\<not> (\<exists>h \<in> set (rule_hits sample_cfg sample_move (rev sample_moves)). hit_rule h = Daily_total_threshold)"
proof -
  have "window_of sample_cfg sample_move (rev sample_moves) = rev sample_moves"
    by (simp add: window_of_def sample_windows) (simp add: sample_moves_def not_before_def get_time_def)
  then have "list_all2 (\<lambda>t n. at_amount t = Fin (of_nat n)) (window_of sample_cfg sample_move (rev sample_moves)) [300000, 500000]"
    by (simp add: sample_moves_def)
  from daily_rule_exact [OF this, of 400000 5000000] show ?thesis by (simp add: sample_move_def sample_cfg_def)
qed

end
