(* ===== verification/Recon_Store.thy ===== *)
theory Recon_Store
  imports Db_Process Js_Codec Js_Decimal
begin

text \<open>
  The tables of the reconciliation services (\<open>src/migrations/001_initial_schema.sql\<close>,
  \<open>src/migrations/20260427_create_provider_reconciliation_tables.sql\<close>,
  \<open>src/migrations/20260428_create_reconciliation_tables.sql\<close>) and the statements on them.

  A world is the current version of the tables and the earlier ones, which a replica may answer from.
  Identifiers of runs, reports, discrepancies and alerts are positions in their tables. Amounts are in units of
  \<open>10 ^ -7\<close> (\<open>DECIMAL(20, 7)\<close>), times of payments in microseconds, and the column \<open>phone_number\<close> is the text it
  holds. The table \<open>csv_imports\<close> has no migration: \<open>None\<close> is the schema as it is. Columns of times that no statement reads
  are left out.
\<close>

subsection \<open>Rows\<close>

type_synonym csv_row = "(string, string) js_map"

record payment_row =
  pt_id :: string
  pt_reference :: string
  pt_provider_ref :: "string option"
  pt_units :: int
  pt_status :: string
  pt_phone :: string
  pt_provider :: string
  pt_created :: int

text \<open>A row of the answer: the amount and the time as texts.\<close>

record db_payment =
  dp_id :: string
  dp_reference :: string
  dp_provider_ref :: "string option"
  dp_amount :: string
  dp_status :: string
  dp_phone :: string
  dp_provider :: string
  dp_created :: string

datatype discrepancy_type = Amount_mismatch | Status_mismatch | Orphaned_db | Orphaned_provider

record recon_summary =
  su_match_rate :: js_num
  su_matched :: nat
  su_discrepancies :: nat
  su_orphaned_provider :: nat
  su_orphaned_db :: nat

datatype recon_error =
  Recon_lost
| Recon_sql string
| Recon_reference string
| Recon_type string
| Recon_range
| Import_not_found
| Import_rolled_back
| No_configuration string
| Manual_download string
| Unsupported_download string
| No_endpoint string
| Download_failed string
| Unreadable_file string

record csv_import =
  ci_id :: string
  ci_rolled_back :: bool
  ci_snapshot :: "payment_row list option"

datatype run_status = Run_running | Run_completed | Run_failed

record recon_run =
  run_provider :: string
  run_date :: string
  run_status :: run_status
  run_rows :: nat
  run_records :: nat
  run_matched :: int
  run_discrepancies :: int
  run_orphaned_provider :: nat
  run_orphaned_db :: nat
  run_rate :: js_num
  run_error :: "recon_error option"

datatype recon_severity = Sev_low | Sev_medium | Sev_high | Sev_critical

datatype alert_state = Pending_review | Reviewed | Dismissed | Resolved_alert

record recon_alert =
  al_run :: nat
  al_transaction :: "string option"
  al_type :: discrepancy_type
  al_severity :: recon_severity
  al_status :: alert_state
  al_reference :: "string option"
  al_expected_amount :: "int option"
  al_actual_amount :: "int option"
  al_expected_status :: "string option"
  al_actual_status :: "string option"
  al_provider_data :: "csv_row option"
  al_db_data :: "db_payment option"
  al_notes :: "string option"
  al_reviewed_by :: "string option"

record report_config =
  rc_provider :: string
  rc_enabled :: bool
  rc_method :: string
  rc_endpoint :: "string option"
  rc_key :: "string option"
  rc_secret :: "string option"

datatype report_status = Report_pending | Report_completed | Report_failed

datatype report_summary = No_summary | Run_summary recon_summary | Error_summary recon_error

record report_row =
  rp_provider :: string
  rp_date :: int
  rp_file :: "string option"
  rp_status :: report_status
  rp_summary :: report_summary

record discrepancy_row =
  ds_report :: nat
  ds_transaction :: "string option"
  ds_reference :: string
  ds_type :: discrepancy_type
  ds_expected :: "string option"
  ds_actual :: "string option"
  ds_resolved :: bool
  ds_notes :: "string option"

record recon_store =
  rs_payments :: "payment_row list"
  rs_imports :: "csv_import list option"
  rs_runs :: "recon_run list"
  rs_alerts :: "recon_alert list"
  rs_configs :: "report_config list"
  rs_reports :: "report_row list"
  rs_discrepancies :: "discrepancy_row list"

subsection \<open>Statements\<close>

type_synonym recon_world = "recon_store \<times> recon_store list"

type_synonym 'a recon = "(recon_world, recon_error + 'a) proc"

definition seen :: "nat \<Rightarrow> recon_world \<Rightarrow> recon_store" where
  "seen n w = (fst w # snd w) ! min n (length (snd w))"

definition recon_read :: "(recon_store \<Rightarrow> recon_error + 'a) \<Rightarrow> 'a recon" where
  "recon_read f = and_then (read_call (\<lambda>n w. f (seen n w)) Recon_lost)
     (\<lambda>r. case r of Inl e \<Rightarrow> throw e | Inr x \<Rightarrow> ok x)"

definition recon_write :: "(recon_store \<Rightarrow> recon_error + 'a \<times> recon_store) \<Rightarrow> 'a recon" where
  "recon_write f = call (\<lambda>w. case f (fst w) of Inl e \<Rightarrow> (Inl e, w)
     | Inr (x, s) \<Rightarrow> (Inr x, (s, fst w # snd w))) Recon_lost"

lemma seen_0 [simp]: "seen 0 w = fst w"
  by (simp add: seen_def)

lemma run_recon_read [proc_simps]:
  "run_proc (recon_read f) is w = (case first_outcome is of
     Fresh \<Rightarrow> f (fst w) | Stale n \<Rightarrow> f (seen n w) | _ \<Rightarrow> Inl Recon_lost, w, tl is)"
  by (simp add: recon_read_def proc_simps split: outcome.splits sum.splits)

lemma run_recon_write [proc_simps]:
  "run_proc (recon_write f) is w = (case f (fst w) of
     Inl e \<Rightarrow> (Inl (if first_outcome is = Lost \<or> first_outcome is = Lost_after then Recon_lost else e), w, tl is)
   | Inr (x, s) \<Rightarrow> (if first_outcome is = Lost \<or> first_outcome is = Lost_after then Inl Recon_lost else Inr x,
       if first_outcome is = Lost then w else (s, fst w # snd w), tl is))"
  by (auto simp: recon_write_def run_call Let_def split: sum.splits)

lemma keeps_recon_read [keeps_intro]:
  assumes "\<And>s x. f s = Inr x \<Longrightarrow> Q x"
  shows "keeps I (on_ok Q) (recon_read f)"
  using assms by (auto simp: recon_read_def read_call_def and_then_def ok_def throw_def split: outcome.splits sum.splits)

lemma keeps_recon_write:
  assumes "\<And>w x s. I w \<Longrightarrow> f (fst w) = Inr (x, s) \<Longrightarrow> I (s, fst w # snd w) \<and> Q x"
  shows "keeps I (on_ok Q) (recon_write f)"
  unfolding recon_write_def by (rule keeps_call) (auto split: sum.splits dest: assms)

lemma hd_split_on: "hd (split_on sep acc s) = rev acc @ takeWhile (\<lambda>c. c \<noteq> sep) s"
  by (induction s arbitrary: acc) auto

lemma last_update: "length xs = Suc n \<Longrightarrow> last (xs[n := v]) = v"
  by (cases xs rule: rev_cases) auto

subsection \<open>The text of an amount\<close>

text \<open>\<open>amount::text\<close> of a \<open>DECIMAL(20, 7)\<close>: always seven digits after the point.\<close>

definition decimal_text :: "int \<Rightarrow> string" where
  "decimal_text n =
     (if n < 0 then ''-'' else []) @ nat_text (nat (\<bar>n\<bar> div 10 ^ 7)) @ ''.'' @ padded 7 (\<bar>n\<bar> mod 10 ^ 7)"

lemma decimal_text_examples:
  "decimal_text 1500000000 = ''150.0000000''" "decimal_text (- 5) = ''-0.0000005''"
  by code_simp+

lemma length_nat_text: "n < 10 ^ w \<Longrightarrow> 0 < w \<Longrightarrow> length (nat_text n) \<le> w"
proof (induction n arbitrary: w rule: nat_text.induct)
  case (1 n)
  show ?case
  proof (cases "n < 10")
    case True
    then show ?thesis using "1.prems" by (subst nat_text.simps) simp
  next
    case False
    with "1.prems" obtain v where w: "w = Suc v" "0 < v" by (cases w; cases "w - 1") auto
    have "n div 10 < 10 ^ v" using "1.prems"(1) w by (simp add: less_mult_imp_div_less mult.commute)
    from "1.IH" [OF False this w(2)] show ?thesis using w(1) False by (subst nat_text.simps) simp
  qed
qed

lemma length_padded: "0 \<le> n \<Longrightarrow> n < 10 ^ w \<Longrightarrow> 0 < w \<Longrightarrow> length (padded w n) = w"
proof -
  assume "0 \<le> n" "n < 10 ^ w" "0 < w"
  then have "nat n < 10 ^ w" by (metis nat_less_iff of_nat_numeral of_nat_power)
  with \<open>0 < w\<close> have "length (nat_text (nat n)) \<le> w" by (rule length_nat_text [rotated])
  then show ?thesis by (simp add: padded_def Let_def)
qed

lemma padded_digits: "list_all is_digit (padded w n)"
  using nat_text_digits [of "nat n"] by (auto simp: padded_def Let_def list_all_iff is_digit_def)

end
