(* ===== verification/Csv_Reconciliation.thy ===== *)
theory Csv_Reconciliation
  imports Recon_Store
begin

text \<open>
  \<open>src/src/services/csvReconciliation.ts\<close>: the file of an operator is validated and compared with the table of
  transactions, and an import can be rolled back.

  The package \<open>csv-parser\<close> is a parameter (\<open>ce_parse\<close>: the rows of a text, or an error), as are the reading of a
  date bound by the database (\<open>ce_time\<close>, \<open>None\<close> when it refuses the text) and its text of a time (\<open>ce_text\<close>).
  Rows created at the same time are answered in the order of the table. The function \<open>queryWrite\<close>, which the file
  calls and does not import, is the parameter \<open>ce_write\<close>: \<open>False\<close> is the program as it is, where its evaluation throws. The
  statement of the rollback leaves out columns that may not be null and names a conflict target without a unique index:
  \<open>ce_insert\<close> is whether the schema takes it. A match rate is the number whose text the report has.
\<close>

subsection \<open>References and amounts\<close>

text \<open>
  \<open>toUpperCase\<close>. Two letters have a capital beyond the model's characters; they are kept, and no other letter becomes
  one of them, so equality of the results is that of the source.
\<close>

definition upper_char :: "char \<Rightarrow> string" where
  "upper_char c = (let n = of_char c :: nat in
     if n = 223 then ''SS''
     else if (97 \<le> n \<and> n \<le> 122) \<or> (224 \<le> n \<and> n \<le> 254 \<and> n \<noteq> 247) then [char_of (n - 32)] else [c])"

definition toUpperCase :: "string \<Rightarrow> string" where
  "toUpperCase s = concat (map upper_char s)"

definition normalizeReferenceNumber :: "string option \<Rightarrow> string option" where
  "normalizeReferenceNumber ref = (if truthy_string ref then Some (toUpperCase (trim (the ref))) else None)"

definition normalizeAmount :: "string option \<Rightarrow> string option" where
  "normalizeAmount amount =
     (if truthy_string amount then Some (trim (filter (\<lambda>c. is_digit c \<or> c = CHR ''.'') (the amount))) else None)"

definition row_reference :: "csv_row \<Rightarrow> string option" where
  "row_reference row = normalizeReferenceNumber
     (first_truthy (\<lambda>s. s \<noteq> []) [map_get row ''provider_reference'', map_get row ''reference_number'', map_get row ''reference_id''])"

subsection \<open>Reconciliation\<close>

record recon_match =
  rm_reference :: string
  rm_amount :: string
  rm_status :: string
  rm_provider_status :: "string option"
  rm_matched :: bool
  rm_type :: "discrepancy_type option"
  rm_db :: db_payment
  rm_provider :: csv_row

record recon_result =
  rr_rows :: nat
  rr_records :: nat
  rr_matched :: "recon_match list"
  rr_discrepancies :: "recon_match list"
  rr_orphans :: "csv_row list"
  rr_db_orphans :: "db_payment list"
  rr_summary :: recon_summary

definition index_reference :: "db_payment \<Rightarrow> string option \<Rightarrow> (string, db_payment) js_map \<Rightarrow> (string, db_payment) js_map" where
  "index_reference r ref m = (if truthy_string ref then map_set (the ref) r m else m)"

definition index_record :: "(string, db_payment) js_map \<Rightarrow> db_payment \<Rightarrow> (string, db_payment) js_map" where
  "index_record m r =
     index_reference r (normalizeReferenceNumber (dp_provider_ref r))
       (index_reference r (normalizeReferenceNumber (Some (dp_reference r))) m)"

definition dbByReference :: "db_payment list \<Rightarrow> (string, db_payment) js_map" where
  "dbByReference records = foldl index_record [] records"

definition providerByReference :: "csv_row list \<Rightarrow> (string option, csv_row) js_map" where
  "providerByReference rows = foldl (\<lambda>m row. map_set (row_reference row) row m) [] rows"

definition amounts_agree :: "db_payment \<Rightarrow> csv_row \<Rightarrow> bool" where
  "amounts_agree db row = (normalizeAmount (Some (dp_amount db)) = normalizeAmount (map_get row ''amount''))"

definition statuses_agree :: "db_payment \<Rightarrow> csv_row \<Rightarrow> bool" where
  "statuses_agree db row =
     (toLowerCase (dp_status db) = toLowerCase (case map_get row ''status'' of Some s \<Rightarrow> s | None \<Rightarrow> []))"

definition compare_records :: "db_payment \<Rightarrow> csv_row \<Rightarrow> recon_match" where
  "compare_records db row =
     (let agree = (amounts_agree db row \<and> statuses_agree db row) in
      \<lparr>rm_reference = dp_reference db, rm_amount = dp_amount db, rm_status = dp_status db,
       rm_provider_status = map_get row ''status'', rm_matched = agree,
       rm_type = (if agree then None else if \<not> amounts_agree db row then Some Amount_mismatch else Some Status_mismatch),
       rm_db = db, rm_provider = row\<rparr>)"

record recon_loop =
  rl_matched :: "recon_match list"
  rl_discrepancies :: "recon_match list"
  rl_db_refs :: "string set"
  rl_provider_refs :: "string set"

definition record_refs :: "db_payment \<Rightarrow> string set" where
  "record_refs db =
     (case normalizeReferenceNumber (Some (dp_reference db)) of Some r \<Rightarrow> {r} | None \<Rightarrow> {})
     \<union> (case normalizeReferenceNumber (dp_provider_ref db) of Some r \<Rightarrow> {r} | None \<Rightarrow> {})"

definition reconcile_step :: "(string, db_payment) js_map \<Rightarrow> recon_loop \<Rightarrow> string option \<times> csv_row \<Rightarrow> recon_loop" where
  "reconcile_step index st entry =
     (case entry of (ref, row) \<Rightarrow>
        if \<not> truthy_string ref then st
        else case map_get index (the ref) of None \<Rightarrow> st
          | Some db \<Rightarrow>
              let st' = st\<lparr>rl_db_refs := rl_db_refs st \<union> record_refs db, rl_provider_refs := insert (the ref) (rl_provider_refs st)\<rparr>;
                  m = compare_records db row
              in if rm_matched m then st'\<lparr>rl_matched := rl_matched st @ [m]\<rparr>
                 else st'\<lparr>rl_discrepancies := rl_discrepancies st @ [m]\<rparr>)"

definition reconcile_loop :: "csv_row list \<Rightarrow> db_payment list \<Rightarrow> recon_loop" where
  "reconcile_loop rows records =
     foldl (reconcile_step (dbByReference records))
       \<lparr>rl_matched = [], rl_discrepancies = [], rl_db_refs = {}, rl_provider_refs = {}\<rparr> (providerByReference rows)"

definition provider_orphan :: "recon_loop \<Rightarrow> csv_row \<Rightarrow> bool" where
  "provider_orphan st row = (truthy_string (row_reference row) \<and> the (row_reference row) \<notin> rl_provider_refs st)"

definition hit_in :: "string set \<Rightarrow> string option \<Rightarrow> bool" where
  "hit_in refs ref = (truthy_string ref \<and> the ref \<in> refs)"

definition db_orphan :: "recon_loop \<Rightarrow> db_payment \<Rightarrow> bool" where
  "db_orphan st r = (\<not> (hit_in (rl_db_refs st) (normalizeReferenceNumber (Some (dp_reference r)))
     \<or> hit_in (rl_db_refs st) (normalizeReferenceNumber (dp_provider_ref r))))"

definition match_rate :: "nat \<Rightarrow> nat \<Rightarrow> js_num" where
  "match_rate matched rows =
     (if 0 < rows then to_fixed 2 (jmul (jdiv (of_exact (of_nat matched)) (of_exact (of_nat rows))) (Fin 100)) else Fin 0)"

definition reconcile_rows :: "csv_row list \<Rightarrow> db_payment list \<Rightarrow> recon_result" where
  "reconcile_rows rows records =
     (let st = reconcile_loop rows records;
          orphans = filter (provider_orphan st) rows;
          db_orphans = filter (db_orphan st) records
      in \<lparr>rr_rows = length rows, rr_records = length records, rr_matched = rl_matched st,
          rr_discrepancies = rl_discrepancies st, rr_orphans = orphans, rr_db_orphans = db_orphans,
          rr_summary = \<lparr>su_match_rate = match_rate (length (rl_matched st)) (length rows),
            su_matched = length (rl_matched st), su_discrepancies = length (rl_discrepancies st),
            su_orphaned_provider = length orphans, su_orphaned_db = length db_orphans\<rparr>\<rparr>)"

subsection \<open>The query\<close>

record csv_env =
  ce_parse :: "string \<Rightarrow> recon_error + csv_row list"
  ce_time :: "string \<Rightarrow> int option"
  ce_text :: "int \<Rightarrow> string"
  ce_write :: bool
  ce_insert :: bool

record date_range =
  dr_start :: "string option"
  dr_end :: "string option"

definition bound_of :: "csv_env \<Rightarrow> string option \<Rightarrow> recon_error + int option" where
  "bound_of env text =
     (if truthy_string text then case ce_time env (the text) of None \<Rightarrow> Inl (Recon_sql ''invalid timestamp'') | Some t \<Rightarrow> Inr (Some t)
      else Inr None)"

definition answer_row :: "csv_env \<Rightarrow> payment_row \<Rightarrow> db_payment" where
  "answer_row env p =
     \<lparr>dp_id = pt_id p, dp_reference = pt_reference p, dp_provider_ref = pt_provider_ref p, dp_amount = decimal_text (pt_units p),
      dp_status = pt_status p, dp_phone = pt_phone p, dp_provider = pt_provider p, dp_created = ce_text env (pt_created p)\<rparr>"

definition select_payments :: "csv_env \<Rightarrow> date_range option \<Rightarrow> recon_store \<Rightarrow> recon_error + db_payment list" where
  "select_payments env dates s =
     (case bound_of env (Option.bind dates dr_start) of Inl e \<Rightarrow> Inl e
      | Inr from_time \<Rightarrow> (case bound_of env (Option.bind dates dr_end) of Inl e \<Rightarrow> Inl e
        | Inr to_time \<Rightarrow>
            Inr (map (answer_row env)
              (sort_key (\<lambda>p. - pt_created p)
                (filter (\<lambda>p. (case from_time of Some t \<Rightarrow> t \<le> pt_created p | None \<Rightarrow> True)
                     \<and> (case to_time of Some t \<Rightarrow> pt_created p \<le> t | None \<Rightarrow> True)) (rs_payments s))))))"

lemma select_same_payments: "rs_payments s = rs_payments s' \<Longrightarrow> select_payments env dates s = select_payments env dates s'"
  by (simp only: select_payments_def)

definition reconcileTransactions :: "csv_env \<Rightarrow> csv_row list \<Rightarrow> date_range option \<Rightarrow> recon_result recon" where
  "reconcileTransactions env rows dates =
     and_then (recon_read (select_payments env dates)) (\<lambda>records. ok (reconcile_rows rows records))"

subsection \<open>Validation\<close>

datatype csv_value = Key_list "string list" | Cell "string option"

record csv_problem =
  cv_row :: nat
  cv_field :: string
  cv_value :: csv_value
  cv_message :: string
  cv_error :: bool

record csv_validation =
  va_valid :: bool
  va_errors :: "csv_problem list"
  va_warnings :: "csv_problem list"
  va_rows :: nat
  va_valid_rows :: nat
  va_error_rows :: nat
  va_warning_rows :: nat

definition REQUIRED_FIELDS :: "string list" where
  "REQUIRED_FIELDS = [''reference_number'', ''amount'', ''status'', ''phone_number'', ''provider'']"

definition VALID_STATUSES :: "string list" where
  "VALID_STATUSES = [''completed'', ''pending'', ''failed'', ''cancelled'']"

definition PHONE_REGEX :: "string \<Rightarrow> bool" where
  "PHONE_REGEX s =
     (let t = (if leading (CHR ''+'') s then tl s else s)
      in t \<noteq> [] \<and> is_digit (hd t) \<and> hd t \<noteq> CHR ''0'' \<and> list_all is_digit (tl t) \<and> 1 \<le> length (tl t) \<and> length (tl t) \<le> 14)"

definition AMOUNT_REGEX :: "string \<Rightarrow> bool" where
  "AMOUNT_REGEX s =
     (let r = dropWhile is_digit s
      in takeWhile is_digit s \<noteq> [] \<and> (r = [] \<or> (hd r = CHR ''.'' \<and> tl r \<noteq> [] \<and> list_all is_digit (tl r))))"

definition blank :: "string option \<Rightarrow> bool" where
  "blank v = (\<not> truthy_string v \<or> trim (the v) = [])"

definition problem :: "bool \<Rightarrow> nat \<Rightarrow> string \<Rightarrow> string option \<Rightarrow> string \<Rightarrow> csv_problem" where
  "problem err n field v message = \<lparr>cv_row = n, cv_field = field, cv_value = Cell v, cv_message = message, cv_error = err\<rparr>"

definition row_errors :: "nat \<Rightarrow> csv_row \<Rightarrow> csv_problem list" where
  "row_errors n row =
     (let ref = first_truthy (\<lambda>s. s \<noteq> []) [map_get row ''reference_number'', map_get row ''reference_id''];
          amount = map_get row ''amount''; status = map_get row ''status'';
          phone = map_get row ''phone_number''; provider = map_get row ''provider'' in
      (if blank ref then [problem True n ''reference_number'' ref ''Reference number is required''] else [])
      @ (if blank amount then [problem True n ''amount'' amount ''Amount is required'']
         else if \<not> AMOUNT_REGEX (trim (the amount)) then [problem True n ''amount'' amount ''Amount must be a valid number''] else [])
      @ (if blank status then [problem True n ''status'' status ''Status is required''] else [])
      @ (if blank phone then [problem True n ''phone_number'' phone ''Phone number is required''] else [])
      @ (if blank provider then [problem True n ''provider'' provider ''Provider is required''] else []))"

definition row_warnings :: "nat \<Rightarrow> csv_row \<Rightarrow> csv_problem list" where
  "row_warnings n row =
     (let status = map_get row ''status''; phone = map_get row ''phone_number'' in
      (if \<not> blank status \<and> trim (toLowerCase (the status)) \<notin> set VALID_STATUSES
       then [problem False n ''status'' status
         (''Non-standard status: '' @ the status @ ''. Expected one of: '' @ join '', '' VALID_STATUSES)] else [])
      @ (if \<not> blank phone \<and> \<not> PHONE_REGEX (trim (the phone))
         then [problem False n ''phone_number'' phone ''Phone number format may be invalid''] else []))"

definition schema_errors :: "string list \<Rightarrow> csv_problem list" where
  "schema_errors ks =
     map (\<lambda>field. \<lparr>cv_row = 0, cv_field = ''schema'', cv_value = Key_list ks,
       cv_message = ''Missing required field: '' @ field, cv_error = True\<rparr>)
     (filter (\<lambda>field. field \<notin> set ks \<and> ''reference_id'' \<notin> set ks) REQUIRED_FIELDS)"

definition validateCSVSchema :: "csv_row list \<Rightarrow> csv_validation" where
  "validateCSVSchema rows =
     (if rows = [] then \<lparr>va_valid = True, va_errors = [], va_warnings = [], va_rows = 0, va_valid_rows = 0,
        va_error_rows = 0, va_warning_rows = 0\<rparr>
      else let numbered = enumerate 2 rows;
          errors = schema_errors (map_keys (hd rows)) @ concat (map (\<lambda>(n, row). row_errors n row) numbered);
          warnings = concat (map (\<lambda>(n, row). row_warnings n row) numbered);
          bad = length (filter (\<lambda>(n, row). row_errors n row \<noteq> []) numbered)
      in \<lparr>va_valid = (errors = []), va_errors = errors, va_warnings = warnings, va_rows = length rows,
          va_valid_rows = length rows - bad, va_error_rows = bad,
          va_warning_rows = length (filter (\<lambda>(n, row). row_warnings n row \<noteq> []) numbered)\<rparr>)"

subsection \<open>Reading a file and the preview of an import\<close>

definition trim_row :: "csv_row \<Rightarrow> csv_row" where
  "trim_row row = map (\<lambda>(k, v). (k, trim v)) row"

definition parseCSV :: "csv_env \<Rightarrow> string \<Rightarrow> recon_error + csv_row list" where
  "parseCSV env buffer =
     (case ce_parse env buffer of Inl e \<Rightarrow> Inl e | Inr rows \<Rightarrow> Inr (filter (\<lambda>row. row \<noteq> []) (map trim_row rows)))"

record import_preview =
  ip_preview :: recon_result
  ip_validation :: csv_validation
  ip_matched :: nat
  ip_discrepancies :: nat
  ip_orphaned_provider :: nat
  ip_orphaned_db :: nat

definition empty_preview :: "nat \<Rightarrow> recon_result" where
  "empty_preview n =
     \<lparr>rr_rows = n, rr_records = 0, rr_matched = [], rr_discrepancies = [], rr_orphans = [], rr_db_orphans = [],
      rr_summary = \<lparr>su_match_rate = Fin 0, su_matched = 0, su_discrepancies = 0, su_orphaned_provider = 0, su_orphaned_db = 0\<rparr>\<rparr>"

definition previewCSVImport :: "csv_env \<Rightarrow> string \<Rightarrow> date_range option \<Rightarrow> import_preview recon" where
  "previewCSVImport env buffer dates =
     (case parseCSV env buffer of Inl e \<Rightarrow> throw e
      | Inr rows \<Rightarrow>
          let validation = validateCSVSchema rows in
          and_then (if va_valid validation then reconcileTransactions env rows dates else ok (empty_preview (length rows)))
            (\<lambda>preview. ok \<lparr>ip_preview = preview, ip_validation = validation,
               ip_matched = su_matched (rr_summary preview), ip_discrepancies = su_discrepancies (rr_summary preview),
               ip_orphaned_provider = su_orphaned_provider (rr_summary preview),
               ip_orphaned_db = su_orphaned_db (rr_summary preview)\<rparr>))"

subsection \<open>Rolling an import back\<close>

record import_rollback =
  ir_id :: string
  ir_restored :: nat

definition find_import :: "string \<Rightarrow> recon_store \<Rightarrow> recon_error + csv_import option" where
  "find_import i s =
     (case rs_imports s of None \<Rightarrow> Inl (Recon_sql ''relation csv_imports does not exist'')
      | Some imports \<Rightarrow> Inr (List.find (\<lambda>im. ci_id im = i) imports))"

definition import_write :: "csv_env \<Rightarrow> (recon_store \<Rightarrow> recon_error + 'a \<times> recon_store) \<Rightarrow> 'a recon" where
  "import_write env f = (if ce_write env then recon_write f else throw (Recon_reference ''queryWrite''))"

definition restore_payment :: "csv_env \<Rightarrow> payment_row \<Rightarrow> recon_store \<Rightarrow> recon_error + unit \<times> recon_store" where
  "restore_payment env p s =
     (if \<not> ce_insert env then Inl (Recon_sql ''null value in column'')
      else if \<exists>q \<in> set (rs_payments s). pt_reference q = pt_reference p
      then Inr ((), s\<lparr>rs_payments := map (\<lambda>q. if pt_reference q = pt_reference p
             then q\<lparr>pt_units := pt_units p, pt_status := pt_status p\<rparr> else q) (rs_payments s)\<rparr>)
      else Inr ((), s\<lparr>rs_payments := rs_payments s @ [p]\<rparr>))"

primrec restore_snapshot :: "csv_env \<Rightarrow> payment_row list \<Rightarrow> nat \<Rightarrow> nat recon" where
  "restore_snapshot env [] n = ok n"
| "restore_snapshot env (p # ps) n = and_then (import_write env (restore_payment env p)) (\<lambda>_. restore_snapshot env ps (Suc n))"

definition mark_rolled_back :: "string \<Rightarrow> recon_store \<Rightarrow> recon_error + unit \<times> recon_store" where
  "mark_rolled_back i s =
     (case rs_imports s of None \<Rightarrow> Inl (Recon_sql ''relation csv_imports does not exist'')
      | Some imports \<Rightarrow> Inr ((), s\<lparr>rs_imports :=
          Some (map (\<lambda>im. if ci_id im = i then im\<lparr>ci_rolled_back := True\<rparr> else im) imports)\<rparr>))"

definition rollbackCSVImport :: "csv_env \<Rightarrow> string \<Rightarrow> import_rollback recon" where
  "rollbackCSVImport env i =
     and_then (recon_read (find_import i)) (\<lambda>found. case found of None \<Rightarrow> throw Import_not_found
     | Some im \<Rightarrow> if ci_rolled_back im then throw Import_rolled_back
         else and_then (case ci_snapshot im of None \<Rightarrow> ok 0 | Some ps \<Rightarrow> restore_snapshot env ps 0) (\<lambda>n.
           and_then (import_write env (mark_rolled_back i)) (\<lambda>_. ok \<lparr>ir_id = i, ir_restored = n\<rparr>)))"

subsection \<open>The indexes\<close>

lemma map_set_new: "map_get m k = None \<Longrightarrow> map_set k v m = m @ [(k, v)]"
  by (induction m) (auto simp: map_set_def map_get_def split: if_splits)

lemma find_SomeD: "List.find p xs = Some x \<Longrightarrow> x \<in> set xs \<and> p x"
  by (induction xs) (auto split: if_splits)

lemma alist_eqI:
  assumes "map_wf m" and "map_wf m'" and "map_keys m = map_keys m'" and "\<And>k. map_get m k = map_get m' k"
  shows "m = m'"
proof -
  have pairs: "n = map (\<lambda>k. (k, the (map_get n k))) (map_keys n)" if "map_wf n" for n :: "('a, 'b) js_map"
    by (rule sym, unfold map_keys_def map_get_def map_map, rule map_idI)
      (use that in \<open>auto simp: map_wf_def dest: map_of_is_SomeI\<close>)
  show ?thesis using pairs [OF assms(1)] pairs [OF assms(2)] assms(3,4) by simp
qed

definition by_reference :: "csv_row list \<Rightarrow> string option \<Rightarrow> csv_row option" where
  "by_reference rows ref = List.find (\<lambda>row. row_reference row = ref) (rev rows)"

lemma find_append: "List.find p (xs @ ys) = (case List.find p xs of Some x \<Rightarrow> Some x | None \<Rightarrow> List.find p ys)"
  by (induction xs) auto

lemma providerByReference_snoc: "providerByReference (rows @ [row]) = map_set (row_reference row) row (providerByReference rows)"
  by (simp add: providerByReference_def)

lemma wf_providerByReference [simp]: "map_wf (providerByReference rows)"
  by (induction rows rule: rev_induct) (simp_all add: providerByReference_snoc, simp add: providerByReference_def)

lemma get_providerByReference: "map_get (providerByReference rows) ref = by_reference rows ref"
  by (induction rows rule: rev_induct)
    (auto simp: providerByReference_snoc map_get_set by_reference_def, simp add: providerByReference_def)

lemma keys_providerByReference:
  "map row_reference rows = map row_reference rows' \<Longrightarrow>
   map_keys (providerByReference rows) = map_keys (providerByReference rows')"
proof (induction rows arbitrary: rows' rule: rev_induct)
  case Nil
  then show ?case by simp
next
  case (snoc row rows)
  then obtain qs q where rows': "rows' = qs @ [q]" "map row_reference rows = map row_reference qs"
      "row_reference row = row_reference q"
    by (cases rows' rule: rev_cases) auto
  have "map_get (providerByReference rows) ref = None \<longleftrightarrow> map_get (providerByReference qs) ref = None" for ref
    by (metis map_keys_iff snoc.IH [OF rows'(2)])
  then show ?case using snoc.IH [OF rows'(2)] rows' by (simp add: providerByReference_snoc map_keys_set)
qed

text \<open>A row that is followed by another row with its reference is not in the index.\<close>

lemma providerByReference_shadowed:
  assumes "row_reference r = row_reference q" and "row_reference r' = row_reference q"
  shows "providerByReference (xs @ r # ys @ q # zs) = providerByReference (xs @ r' # ys @ q # zs)"
  by (rule alist_eqI, simp, simp, rule keys_providerByReference)
    (auto simp: assms get_providerByReference by_reference_def find_append split: option.splits)

lemma providerByReference_distinct:
  "distinct (map row_reference rows) \<Longrightarrow> providerByReference rows = map (\<lambda>row. (row_reference row, row)) rows"
proof (induction rows rule: rev_induct)
  case Nil
  then show ?case by (simp add: providerByReference_def)
next
  case (snoc row rows)
  then have IH: "providerByReference rows = map (\<lambda>row. (row_reference row, row)) rows" by simp
  have "map_get (map (\<lambda>row. (row_reference row, row)) rows) (row_reference row) = None"
    using snoc.prems by (auto simp: map_get_def map_of_eq_None_iff)
  then show ?case by (simp add: providerByReference_snoc IH map_set_new)
qed

lemma get_index_reference:
  "map_get (index_reference r ref m) k = (if truthy_string ref \<and> k = the ref then Some r else map_get m k)"
  by (simp add: index_reference_def map_get_set)

definition keys_of :: "db_payment \<Rightarrow> string set" where
  "keys_of r = record_refs r - {[]}"

lemma get_index_record: "map_get (index_record m r) k = (if k \<in> keys_of r then Some r else map_get m k)"
  by (auto simp: index_record_def get_index_reference keys_of_def record_refs_def split: option.splits)

lemma get_dbByReference: "map_get (dbByReference records) k = List.find (\<lambda>r. k \<in> keys_of r) (rev records)"
proof (induction records rule: rev_induct)
  case Nil
  then show ?case by (simp add: dbByReference_def)
next
  case (snoc r records)
  then show ?case by (simp add: dbByReference_def get_index_record)
qed

lemma dbByReference_found: "map_get (dbByReference records) k = Some r \<Longrightarrow> r \<in> set records \<and> k \<in> keys_of r"
  by (auto simp: get_dbByReference dest: find_SomeD)

subsection \<open>The loop\<close>

definition hits :: "(string, db_payment) js_map \<Rightarrow> (string option \<times> csv_row) list \<Rightarrow> (string \<times> db_payment \<times> csv_row) list" where
  "hits index es = List.map_filter (\<lambda>(ref, row).
     if truthy_string ref then map_option (\<lambda>db. (the ref, db, row)) (map_get index (the ref)) else None) es"

definition comparisons :: "(string, db_payment) js_map \<Rightarrow> (string option \<times> csv_row) list \<Rightarrow> recon_match list" where
  "comparisons index es = map (\<lambda>(ref, db, row). compare_records db row) (hits index es)"

lemma hits_Nil [simp]: "hits index [] = []"
  by (simp add: hits_def List.map_filter_simps)

lemma hits_append: "hits index (es @ fs) = hits index es @ hits index fs"
  by (induction es) (auto simp: hits_def List.map_filter_simps split: option.splits)

lemma hits_single:
  "hits index [(ref, row)] = (if truthy_string ref then case map_get index (the ref) of None \<Rightarrow> [] | Some db \<Rightarrow> [(the ref, db, row)] else [])"
  by (auto simp: hits_def List.map_filter_simps split: option.splits)

lemma reconcile_foldl:
  "foldl (reconcile_step index) \<lparr>rl_matched = [], rl_discrepancies = [], rl_db_refs = {}, rl_provider_refs = {}\<rparr> es =
    \<lparr>rl_matched = filter rm_matched (comparisons index es),
     rl_discrepancies = filter (\<lambda>m. \<not> rm_matched m) (comparisons index es),
     rl_db_refs = (\<Union>(ref, db, row) \<in> set (hits index es). record_refs db),
     rl_provider_refs = fst ` set (hits index es)\<rparr>"
proof (induction es rule: rev_induct)
  case Nil
  then show ?case by (simp add: comparisons_def)
next
  case (snoc e es)
  obtain ref row where e: "e = (ref, row)" by (cases e)
  show ?case
  proof (cases "truthy_string ref \<and> map_get index (the ref) \<noteq> None")
    case True
    then obtain r db where r: "ref = Some r" "r \<noteq> []" "map_get index r = Some db" by (cases ref) auto
    let ?m = "compare_records db row"
    have step: "reconcile_step index st e =
        st\<lparr>rl_matched := rl_matched st @ (if rm_matched ?m then [?m] else []),
          rl_discrepancies := rl_discrepancies st @ (if rm_matched ?m then [] else [?m]),
          rl_db_refs := rl_db_refs st \<union> record_refs db, rl_provider_refs := insert r (rl_provider_refs st)\<rparr>" for st
      using r by (simp add: e reconcile_step_def Let_def)
    have "hits index [e] = [(r, db, row)]" using r by (simp add: e hits_single)
    then show ?thesis by (simp add: snoc.IH step comparisons_def hits_append Un_commute)
  next
    case False
    then have "hits index [e] = []" by (auto simp: e hits_single)
    moreover have "reconcile_step index st e = st" for st using False by (auto simp: e reconcile_step_def)
    ultimately show ?thesis by (simp add: snoc.IH comparisons_def hits_append)
  qed
qed

lemmas loop_simps = reconcile_loop_def reconcile_foldl

lemma matched_or_not: "length (filter p xs) + length (filter (\<lambda>x. \<not> p x) xs) = length xs"
  by (induction xs) auto

lemma hits_miss: "\<not> truthy_string ref \<or> map_get index (the ref) = None \<Longrightarrow> hits index [(ref, row)] = []"
  by (auto simp: hits_single)

lemma hits_hit: "r \<noteq> [] \<Longrightarrow> map_get index r = Some db \<Longrightarrow> hits index [(Some r, row)] = [(r, db, row)]"
  by (simp add: hits_single)

lemma hits_cases:
  obtains "hits index [(ref, row)] = []" "\<not> truthy_string ref \<or> map_get index (the ref) = None"
  | r db where "ref = Some r" "r \<noteq> []" "map_get index r = Some db" "hits index [(ref, row)] = [(r, db, row)]"
  using hits_miss [of ref index row] hits_hit [of _ index _ row] by (cases ref; cases "map_get index (the ref)") auto

lemma hits_Cons: "hits index (e # es) = hits index [e] @ hits index es"
  using hits_append [of index "[e]" es] by simp

lemma hits_iff: "(r, db, row) \<in> set (hits index es) \<longleftrightarrow> (Some r, row) \<in> set es \<and> r \<noteq> [] \<and> map_get index r = Some db"
proof (induction es)
  case Nil
  then show ?case by simp
next
  case (Cons e es)
  obtain ref q where e: "e = (ref, q)" by (cases e)
  have "set (hits index (e # es)) = set (hits index [(ref, q)]) \<union> set (hits index es)" by (simp add: hits_Cons [where es = es] e)
  then show ?case by (cases rule: hits_cases [of index ref q]) (auto simp: e Cons.IH)
qed

lemma hits_distinct: "distinct (map fst es) \<Longrightarrow> distinct (map fst (hits index es))"
proof (induction es)
  case Nil
  then show ?case by simp
next
  case (Cons e es)
  obtain ref row where e: "e = (ref, row)" by (cases e)
  have new: "r \<notin> fst ` set (hits index es)" if "ref = Some r" for r
    using Cons.prems that by (force simp: e hits_iff image_iff)
  show ?case using Cons new by (cases rule: hits_cases [of index ref row]) (simp_all add: hits_Cons [where es = es] e)
qed

subsection \<open>The accounting of the rows\<close>

lemma reconcile_rows_simps:
  "rr_rows (reconcile_rows rows records) = length rows"
  "rr_matched (reconcile_rows rows records) = rl_matched (reconcile_loop rows records)"
  "rr_discrepancies (reconcile_rows rows records) = rl_discrepancies (reconcile_loop rows records)"
  "rr_orphans (reconcile_rows rows records) = filter (provider_orphan (reconcile_loop rows records)) rows"
  "rr_db_orphans (reconcile_rows rows records) = filter (db_orphan (reconcile_loop rows records)) records"
  "su_matched (rr_summary (reconcile_rows rows records)) = length (rl_matched (reconcile_loop rows records))"
  "su_discrepancies (rr_summary (reconcile_rows rows records)) = length (rl_discrepancies (reconcile_loop rows records))"
  "su_orphaned_provider (rr_summary (reconcile_rows rows records)) = length (rr_orphans (reconcile_rows rows records))"
  "su_orphaned_db (rr_summary (reconcile_rows rows records)) = length (rr_db_orphans (reconcile_rows rows records))"
  by (simp_all add: reconcile_rows_def Let_def)

lemma provider_refs_iff:
  "r \<in> rl_provider_refs (reconcile_loop rows records) \<longleftrightarrow>
   r \<noteq> [] \<and> by_reference rows (Some r) \<noteq> None \<and> map_get (dbByReference records) r \<noteq> None"
proof -
  have entry: "(Some r, row) \<in> set (providerByReference rows) \<longleftrightarrow> by_reference rows (Some r) = Some row" for row
    using wf_providerByReference [of rows] get_providerByReference [of rows "Some r"]
    by (auto simp: map_wf_def map_get_def)
  have "r \<in> rl_provider_refs (reconcile_loop rows records) \<longleftrightarrow>
      (\<exists>db row. (r, db, row) \<in> set (hits (dbByReference records) (providerByReference rows)))"
    by (force simp: loop_simps image_iff)
  then show ?thesis by (auto simp: hits_iff entry)
qed

lemma by_reference_ex: "by_reference rows ref \<noteq> None \<longleftrightarrow> (\<exists>row \<in> set rows. row_reference row = ref)"
  unfolding by_reference_def by (auto simp: find_None_iff)

lemma provider_orphan_iff:
  assumes "row \<in> set rows"
  shows "provider_orphan (reconcile_loop rows records) row \<longleftrightarrow>
    truthy_string (row_reference row) \<and> map_get (dbByReference records) (the (row_reference row)) = None"
proof (cases "row_reference row")
  case (Some r)
  then have "by_reference rows (Some r) \<noteq> None" unfolding by_reference_ex using assms by auto
  then show ?thesis by (auto simp: provider_orphan_def provider_refs_iff Some)
qed (simp add: provider_orphan_def)

lemma length_hits:
  "length (hits index es) = length (filter (\<lambda>e. truthy_string (fst e) \<and> map_get index (the (fst e)) \<noteq> None) es)"
proof (induction es)
  case Nil
  then show ?case by simp
next
  case (Cons e es)
  obtain ref row where e: "e = (ref, row)" by (cases e)
  show ?case
    by (cases rule: hits_cases [of index ref row]) (simp_all add: hits_Cons [where es = es] e Cons.IH)
qed

text \<open>With distinct references every row is matched, a discrepancy or an orphan.\<close>

lemma rows_accounted:
  assumes "distinct (map row_reference rows)" and "\<And>row. row \<in> set rows \<Longrightarrow> truthy_string (row_reference row)"
  shows "length (rr_matched (reconcile_rows rows records)) + length (rr_discrepancies (reconcile_rows rows records))
    + length (rr_orphans (reconcile_rows rows records)) = length rows"
proof -
  let ?found = "\<lambda>row. map_get (dbByReference records) (the (row_reference row)) \<noteq> None"
  let ?es = "providerByReference rows"
  have "length (hits (dbByReference records) ?es) = length (filter ?found rows)"
    using assms(2) by (simp add: providerByReference_distinct [OF assms(1)] length_hits filter_map o_def cong: filter_cong)
  have "length (rr_matched (reconcile_rows rows records)) + length (rr_discrepancies (reconcile_rows rows records))
      = length (comparisons (dbByReference records) ?es)"
    by (simp add: reconcile_rows_simps loop_simps matched_or_not)
  then have compared: "length (rr_matched (reconcile_rows rows records)) + length (rr_discrepancies (reconcile_rows rows records))
      = length (filter ?found rows)"
    using \<open>length (hits (dbByReference records) ?es) = length (filter ?found rows)\<close> by (simp add: comparisons_def)
  have "rr_orphans (reconcile_rows rows records) = filter (\<lambda>row. \<not> ?found row) rows"
    unfolding reconcile_rows_simps by (rule filter_cong) (use assms(2) in \<open>auto simp: provider_orphan_iff\<close>)
  then show ?thesis using compared matched_or_not [of ?found rows] by simp
qed

lemma last_of_dropWhile: "dropWhile p xs \<noteq> [] \<Longrightarrow> last (dropWhile p xs) = last xs"
  by (induction xs) (auto split: if_splits)

lemma trim_idem: "trim (trim s) = trim s"
proof -
  have "dropWhile p (rev (dropWhile p (rev (dropWhile p xs)))) = rev (dropWhile p (rev (dropWhile p xs)))" for p and xs :: string
  proof (cases "rev (dropWhile p (rev (dropWhile p xs)))")
    case (Cons y ys)
    then have "dropWhile p (rev (dropWhile p xs)) \<noteq> []" by auto
    then have ne: "dropWhile p xs \<noteq> []" by (cases "dropWhile p xs") auto
    have "y = hd (rev (dropWhile p (rev (dropWhile p xs))))" by (simp add: Cons)
    also have "\<dots> = last (dropWhile p (rev (dropWhile p xs)))" using Cons by (simp add: hd_rev)
    also have "\<dots> = last (rev (dropWhile p xs))" using \<open>dropWhile p (rev (dropWhile p xs)) \<noteq> []\<close> by (rule last_of_dropWhile)
    also have "\<dots> = hd (dropWhile p xs)" using ne by (simp add: last_rev)
    finally have "\<not> p y" using ne by (simp add: hd_dropWhile)
    then show ?thesis by (simp add: Cons)
  next
    case Nil
    then show ?thesis by (simp only: Nil dropWhile.simps)
  qed
  then show ?thesis by (simp add: trim_def dropWhile_idem)
qed

text \<open>A valid file names every row: after trimming, the first reference that is not empty is not blank.\<close>

lemma toUpperCase_Nil [simp]: "toUpperCase s = [] \<longleftrightarrow> s = []"
  by (cases s) (auto simp: toUpperCase_def upper_char_def Let_def)

lemma get_trim_row: "map_get (trim_row row) k = map_option trim (map_get row k)"
  by (induction row) (auto simp: trim_row_def map_get_def)

lemma trimmed_reference:
  assumes "row = trim_row q" and "row_errors n row = []"
  shows "truthy_string (row_reference row)"
proof -
  let ?a = "map_get row ''provider_reference''"
  let ?b = "[map_get row ''reference_number'', map_get row ''reference_id'']"
  have stripped: "trim v = v" if "map_get row k = Some v" for k v
    using that by (auto simp: assms(1) get_trim_row trim_idem)
  have "\<not> blank (first_truthy (\<lambda>s. s \<noteq> []) ?b)"
    using assms(2) by (auto simp: row_errors_def Let_def split: if_splits)
  then obtain v where v: "first_truthy (\<lambda>s. s \<noteq> []) ?b = Some v" "trim v \<noteq> []" "v \<noteq> []" by (auto simp: blank_def)
  have "\<exists>w. first_truthy (\<lambda>s. s \<noteq> []) (?a # ?b) = Some w \<and> trim w \<noteq> [] \<and> w \<noteq> []"
    using v stripped [of "''provider_reference''"] by (cases ?a) (auto simp: Let_def)
  then show ?thesis by (auto simp: row_reference_def normalizeReferenceNumber_def)
qed

lemma valid_rows:
  assumes "va_valid (validateCSVSchema rows)" and "row \<in> set rows"
  shows "\<exists>n. row_errors n row = []"
proof -
  from assms(2) obtain i where i: "i < length rows" "rows ! i = row" by (auto simp: in_set_conv_nth)
  then have "(2 + i, row) \<in> set (enumerate 2 rows)" by (auto simp: in_set_enumerate_eq)
  moreover have "concat (map (\<lambda>(n, row). row_errors n row) (enumerate 2 rows)) = []"
    using assms i by (auto simp: validateCSVSchema_def Let_def split: if_splits)
  ultimately show ?thesis by auto
qed

lemma parsed_rows: "parseCSV env buffer = Inr rows \<Longrightarrow> row \<in> set rows \<Longrightarrow> \<exists>q. row = trim_row q"
  by (auto simp: parseCSV_def split: sum.splits)

lemma run_reconcile:
  "run_proc (reconcileTransactions env rows dates) is w =
     (case first_outcome is of
        Fresh \<Rightarrow> map_sum id (reconcile_rows rows) (select_payments env dates (fst w))
      | Stale n \<Rightarrow> map_sum id (reconcile_rows rows) (select_payments env dates (seen n w)) | _ \<Rightarrow> Inl Recon_lost, w, tl is)"
  by (auto simp: reconcileTransactions_def proc_simps split: outcome.splits sum.splits)

lemma map_sum_Inr: "map_sum id f x = Inr r \<longleftrightarrow> (\<exists>y. x = Inr y \<and> r = f y)"
  by (cases x) auto

lemma reconcile_answer:
  assumes "fst (run_proc (reconcileTransactions env rows dates) is w) = Inr r"
  shows "\<exists>s \<in> insert (fst w) (set (snd w)). \<exists>records. select_payments env dates s = Inr records \<and> r = reconcile_rows rows records"
proof -
  have "seen n w \<in> insert (fst w) (set (snd w))" for n
    unfolding seen_def by (metis le_imp_less_Suc length_Cons list.simps(15) min.cobounded2 nth_mem)
  moreover have "fst w \<in> insert (fst w) (set (snd w))" by simp
  moreover from assms obtain s records where "s = fst w \<or> (\<exists>n. s = seen n w)" "select_payments env dates s = Inr records"
      "r = reconcile_rows rows records"
    by (auto simp: run_reconcile map_sum_Inr split: outcome.splits)
  ultimately show ?thesis by metis
qed

subsection \<open>What a report says\<close>

lemma db_refs_loop:
  "rl_db_refs (reconcile_loop rows records) =
   (\<Union>(ref, db, row) \<in> set (hits (dbByReference records) (providerByReference rows)). record_refs db)"
  by (simp add: loop_simps)

lemma hit_iff:
  "(r, db, row) \<in> set (hits (dbByReference records) (providerByReference rows)) \<longleftrightarrow>
   by_reference rows (Some r) = Some row \<and> r \<noteq> [] \<and> map_get (dbByReference records) r = Some db"
  using wf_providerByReference [of rows] get_providerByReference [of rows "Some r"]
  by (auto simp: hits_iff map_wf_def map_get_def)

lemma db_orphan_keys: "db_orphan st r \<longleftrightarrow> keys_of r \<inter> rl_db_refs st = {}"
  by (auto simp: db_orphan_def hit_in_def keys_of_def record_refs_def split: option.splits)

text \<open>A transaction that shares no reference with another one is an orphan exactly if no row names it.\<close>

lemma db_orphan_iff:
  assumes "r \<in> set records" and alone: "\<And>q. q \<in> set records \<Longrightarrow> q \<noteq> r \<Longrightarrow> keys_of q \<inter> keys_of r = {}"
  shows "r \<in> set (rr_db_orphans (reconcile_rows rows records)) \<longleftrightarrow>
    (\<forall>row \<in> set rows. \<forall>ref. row_reference row = Some ref \<longrightarrow> ref \<notin> keys_of r)"
proof -
  have found: "map_get (dbByReference records) k = Some r" if "k \<in> keys_of r" for k
  proof -
    have "List.find (\<lambda>q. k \<in> keys_of q) (rev records) \<noteq> None" using that assms(1) by (auto simp: find_None_iff)
    then obtain q where q: "map_get (dbByReference records) k = Some q" by (auto simp: get_dbByReference)
    with dbByReference_found [OF q] alone [of q] that show ?thesis by auto
  qed
  have "db_orphan (reconcile_loop rows records) r \<longleftrightarrow> (\<forall>k \<in> keys_of r. by_reference rows (Some k) = None)"
  proof
    assume orphan: "db_orphan (reconcile_loop rows records) r"
    show "\<forall>k \<in> keys_of r. by_reference rows (Some k) = None"
    proof (rule ballI, rule ccontr)
      fix k assume k: "k \<in> keys_of r" "by_reference rows (Some k) \<noteq> None"
      then obtain row where "(k, r, row) \<in> set (hits (dbByReference records) (providerByReference rows))"
        using found [OF k(1)] by (auto simp: hit_iff keys_of_def)
      then have "record_refs r \<subseteq> rl_db_refs (reconcile_loop rows records)" by (force simp: db_refs_loop)
      with orphan k(1) show False by (auto simp: db_orphan_keys keys_of_def)
    qed
  next
    assume none: "\<forall>k \<in> keys_of r. by_reference rows (Some k) = None"
    show "db_orphan (reconcile_loop rows records) r"
    proof (rule ccontr)
      assume "\<not> db_orphan (reconcile_loop rows records) r"
      then obtain k ref db row where k: "k \<in> keys_of r" "k \<in> record_refs db"
        and hit: "(ref, db, row) \<in> set (hits (dbByReference records) (providerByReference rows))"
        by (auto simp: db_orphan_keys db_refs_loop)
      then have db: "db \<in> set records" "ref \<in> keys_of db" by (auto simp: hit_iff dest: dbByReference_found)
      from k have "k \<in> keys_of db" by (auto simp: keys_of_def)
      with k(1) alone [OF db(1)] have "db = r" by auto
      with db hit none show False by (auto simp: hit_iff)
    qed
  qed
  moreover have "by_reference rows (Some k) = None \<longleftrightarrow> (\<forall>row \<in> set rows. row_reference row \<noteq> Some k)" for k
    by (auto simp: by_reference_def find_None_iff)
  ultimately show ?thesis using assms(1) by (simp add: reconcile_rows_simps) blast
qed

lemma matched_rows:
  assumes "m \<in> set (rr_matched (reconcile_rows rows records))"
  shows "rm_matched m \<and> rm_db m \<in> set records \<and> rm_provider m \<in> set rows \<and> m = compare_records (rm_db m) (rm_provider m)"
proof -
  from assms have "rm_matched m" "m \<in> set (comparisons (dbByReference records) (providerByReference rows))"
    by (simp_all add: reconcile_rows_simps loop_simps)
  then obtain ref db row where hit: "(ref, db, row) \<in> set (hits (dbByReference records) (providerByReference rows))"
    and m: "m = compare_records db row"
    by (auto simp: comparisons_def)
  from hit have "db \<in> set records" "row \<in> set rows"
    by (auto simp: hit_iff by_reference_def dest: dbByReference_found find_SomeD)
  moreover have "rm_db m = db" "rm_provider m = row" by (simp_all add: m compare_records_def Let_def)
  ultimately show ?thesis using \<open>rm_matched m\<close> m by simp
qed

lemma matched_agree: "rm_matched (compare_records db row) \<longleftrightarrow> amounts_agree db row \<and> statuses_agree db row"
  by (simp add: compare_records_def Let_def)

text \<open>The digits that an amount has after its point, when it has one, once other characters are removed.\<close>

definition decimals :: "string option \<Rightarrow> nat" where
  "decimals amount =
     (case normalizeAmount amount of None \<Rightarrow> 0
      | Some t \<Rightarrow> if CHR ''.'' \<in> set t then length (takeWhile (\<lambda>c. c \<noteq> CHR ''.'') (rev t)) else 0)"

lemma trim_plain: "list_all (\<lambda>c. \<not> is_space c) s \<Longrightarrow> trim s = s"
proof -
  assume plain: "list_all (\<lambda>c. \<not> is_space c) s"
  have "\<not> is_space (hd t)" if "t \<noteq> []" "set t = set s" for t
    using plain that by (metis hd_in_set list_all_iff)
  then have "dropWhile is_space s = s" "dropWhile is_space (rev s) = rev s"
    by (cases "s = []"; simp add: dropWhile_eq_self_iff)+
  then show ?thesis by (simp add: trim_def)
qed

lemma decimals_decimal_text: "decimals (Some (decimal_text n)) = 7"
proof -
  let ?w = "nat_text (nat (\<bar>n\<bar> div 10 ^ 7))"
  let ?f = "padded 7 (\<bar>n\<bar> mod 10 ^ 7)"
  have digits: "list_all is_digit ?w" "list_all is_digit ?f" by (rule nat_text_digits, rule padded_digits)
  have len: "length ?f = 7" by (rule length_padded) simp_all
  have point: "\<not> is_digit (CHR ''.'')" "\<not> is_digit (CHR ''-'')" by (simp_all add: is_digit_def)
  have kept: "filter (\<lambda>c. is_digit c \<or> c = CHR ''.'') (decimal_text n) = ?w @ ''.'' @ ?f"
    using digits point by (auto simp: decimal_text_def list_all_iff filter_id_conv)
  have "list_all (\<lambda>c. \<not> is_space c) (?w @ ''.'' @ ?f)"
    using digits by (auto simp: list_all_iff is_space_def is_digit_def)
  then have norm: "normalizeAmount (Some (decimal_text n)) = Some (?w @ ''.'' @ ?f)"
    using kept by (auto simp: normalizeAmount_def trim_plain decimal_text_def)
  have "takeWhile (\<lambda>c. c \<noteq> CHR ''.'') (rev ?f @ CHR ''.'' # rev ?w) = rev ?f"
    using digits(2) point(1) by (subst takeWhile_append2) (auto simp: list_all_iff)
  then show ?thesis using len by (simp add: decimals_def norm)
qed

subsection \<open>Properties\<close>

text \<open>Two transactions, three rows and an environment for the witnesses.\<close>

definition sample_payment :: "string \<Rightarrow> string \<Rightarrow> int \<Rightarrow> int \<Rightarrow> payment_row" where
  "sample_payment i ref units created =
     \<lparr>pt_id = i, pt_reference = ref, pt_provider_ref = None, pt_units = units, pt_status = ''completed'',
      pt_phone = ''+237670000000'', pt_provider = ''mtn'', pt_created = created\<rparr>"

definition sample_row :: "string \<Rightarrow> string \<Rightarrow> csv_row" where
  "sample_row ref amount = [(''reference_number'', ref), (''amount'', amount), (''status'', ''completed''),
     (''phone_number'', ''+237670000000''), (''provider'', ''mtn'')]"

definition sample_store :: "payment_row list \<Rightarrow> recon_store" where
  "sample_store ps = \<lparr>rs_payments = ps, rs_imports = None, rs_runs = [], rs_alerts = [], rs_configs = [], rs_reports = [],
     rs_discrepancies = []\<rparr>"

definition sample_env :: "csv_row list \<Rightarrow> csv_env" where
  "sample_env rows = \<lparr>ce_parse = \<lambda>b. Inr rows, ce_time = \<lambda>t. Some 0, ce_text = \<lambda>t. [], ce_write = False, ce_insert = False\<rparr>"

lemma reconcile_run:
  "select_payments env dates (fst w) = Inr records \<Longrightarrow>
   fst (run_proc (reconcileTransactions env rows dates) [] w) = Inr (reconcile_rows rows records)"
  by (simp add: run_reconcile)

lemma preview_run:
  assumes "parseCSV env buffer = Inr rows" and "va_valid (validateCSVSchema rows)" and "select_payments env dates (fst w) = Inr records"
  shows "\<exists>p. fst (run_proc (previewCSVImport env buffer dates) [] w) = Inr p \<and> va_valid (ip_validation p)
    \<and> ip_matched p = length (rl_matched (reconcile_loop rows records))"
  using assms by (simp add: previewCSVImport_def Let_def run_and_then run_ok run_reconcile reconcile_rows_simps)

text \<open>
  C29. When the preview of an import says that the file is valid and no two rows of the file have the same reference
  (after trimming and capitals), then every row is counted once: the numbers of matches, discrepancies and rows unknown to
  the database add up to the number of rows, whichever version of the database answered.
\<close>

theorem valid_file_accounted:
  assumes "parseCSV env buffer = Inr rows" and "distinct (map row_reference rows)"
    and "fst (run_proc (previewCSVImport env buffer dates) is w) = Inr p" and "va_valid (ip_validation p)"
  shows "ip_matched p + ip_discrepancies p + ip_orphaned_provider p = length rows"
proof -
  from assms obtain r where valid: "va_valid (validateCSVSchema rows)"
    and r: "fst (run_proc (reconcileTransactions env rows dates) is w) = Inr r"
    and p: "ip_matched p = su_matched (rr_summary r)" "ip_discrepancies p = su_discrepancies (rr_summary r)"
      "ip_orphaned_provider p = su_orphaned_provider (rr_summary r)"
    by (auto simp: previewCSVImport_def Let_def run_and_then run_ok split: prod.splits sum.splits if_splits)
  from reconcile_answer [OF r] obtain records where records: "r = reconcile_rows rows records" by blast
  have "truthy_string (row_reference row)" if "row \<in> set rows" for row
    using valid_rows [OF valid that] parsed_rows [OF assms(1) that] trimmed_reference by blast
  from rows_accounted [OF assms(2) this, of records] show ?thesis by (simp add: p records reconcile_rows_simps)
qed

theorem valid_file_accounted_witness:
  "\<exists>p. fst (run_proc (previewCSVImport (sample_env [sample_row '' tx1'' ''150.0000000'', sample_row ''TX9'' ''7'']) [] None) []
       (sample_store [sample_payment ''a'' ''TX1'' 1500000000 5], [])) = Inr p
     \<and> ip_matched p = 1 \<and> ip_matched p + ip_discrepancies p + ip_orphaned_provider p = 2"
proof -
  let ?rows = "[sample_row ''tx1'' ''150.0000000'', sample_row ''TX9'' ''7'']"
  let ?store = "sample_store [sample_payment ''a'' ''TX1'' 1500000000 5]"
  let ?env = "sample_env [sample_row '' tx1'' ''150.0000000'', sample_row ''TX9'' ''7'']"
  let ?records = "[answer_row ?env (sample_payment ''a'' ''TX1'' 1500000000 5)]"
  have parse: "parseCSV ?env [] = Inr ?rows" by code_simp
  have valid: "va_valid (validateCSVSchema ?rows)" by code_simp
  have select: "select_payments ?env None (fst (?store, [])) = Inr ?records"
    by (simp add: select_payments_def bound_of_def sample_store_def)
  from preview_run [OF parse valid select] obtain p where
    p: "fst (run_proc (previewCSVImport ?env [] None) [] (?store, [])) = Inr p" "va_valid (ip_validation p)"
      "ip_matched p = length (rl_matched (reconcile_loop ?rows ?records))" by blast
  have "distinct (map row_reference ?rows)" by code_simp
  from valid_file_accounted [OF parse this p(1,2)] have "ip_matched p + ip_discrepancies p + ip_orphaned_provider p = 2" by simp
  moreover have "length (rl_matched (reconcile_loop ?rows ?records)) = 1" by code_simp
  ultimately show ?thesis using p by auto
qed

text \<open>
  A reference that the file has twice is compared once. When a later row has the same reference and the database
  knows it, the amount and the status of the earlier row do not influence the report at all: an operator that lists a payment
  twice with different amounts is not noticed.
\<close>

theorem repeated_row_unreported:
  assumes "row_reference r = Some ref" and "row_reference r' = Some ref" and "row_reference q = Some ref"
    and "map_get (dbByReference records) ref \<noteq> None"
  shows "reconcile_rows (xs @ r # ys @ q # zs) records = reconcile_rows (xs @ r' # ys @ q # zs) records"
proof -
  have index: "providerByReference (xs @ r # ys @ q # zs) = providerByReference (xs @ r' # ys @ q # zs)"
    by (rule providerByReference_shadowed) (simp_all add: assms)
  then have loop: "reconcile_loop (xs @ r # ys @ q # zs) records = reconcile_loop (xs @ r' # ys @ q # zs) records"
    by (simp add: reconcile_loop_def)
  have "\<not> provider_orphan (reconcile_loop (xs @ r # ys @ q # zs) records) r"
    using assms(4) by (subst provider_orphan_iff) (simp_all add: assms)
  moreover have "\<not> provider_orphan (reconcile_loop (xs @ r' # ys @ q # zs) records) r'"
    using assms(4) by (subst provider_orphan_iff) (simp_all add: assms)
  ultimately show ?thesis by (simp add: reconcile_rows_def Let_def loop)
qed

theorem repeated_row_unreported_witness:
  "reconcile_rows [sample_row ''TX1'' ''9000.0000000'', sample_row ''tx1'' ''150.0000000'']
     [answer_row (sample_env []) (sample_payment ''a'' ''TX1'' 1500000000 5)] =
   reconcile_rows [sample_row ''TX1'' ''150.0000000'', sample_row ''tx1'' ''150.0000000'']
     [answer_row (sample_env []) (sample_payment ''a'' ''TX1'' 1500000000 5)]"
proof -
  have refs: "row_reference (sample_row ''TX1'' a) = Some ''TX1''" "row_reference (sample_row ''tx1'' a) = Some ''TX1''" for a
    by (simp_all add: sample_row_def row_reference_def map_get_def) code_simp+
  have "map_get (dbByReference [answer_row (sample_env []) (sample_payment ''a'' ''TX1'' 1500000000 5)]) ''TX1'' \<noteq> None"
    by code_simp
  from repeated_row_unreported [OF refs(1) refs(1) refs(2) this, where xs = "[]" and ys = "[]" and zs = "[]"]
  show ?thesis by simp
qed

text \<open>
  Amounts are compared as texts, and the database writes seven digits after the point. So a file whose amounts have any
  other number of decimals, as two or none, has no match at all in any version of the database: every payment that both sides
  know is reported as a discrepancy of the amount.
\<close>

theorem short_amounts_never_match:
  assumes "\<forall>row \<in> set rows. decimals (map_get row ''amount'') \<noteq> 7"
    and "fst (run_proc (reconcileTransactions env rows dates) is w) = Inr r"
  shows "rr_matched r = [] \<and> (\<forall>m \<in> set (rr_discrepancies r). rm_type m = Some Amount_mismatch)"
proof -
  from reconcile_answer [OF assms(2)] obtain s records where select: "select_payments env dates s = Inr records"
    and r: "r = reconcile_rows rows records" by blast
  have differ: "\<not> amounts_agree db row" if "db \<in> set records" "row \<in> set rows" for db row
  proof
    assume "amounts_agree db row"
    then have "decimals (Some (dp_amount db)) = decimals (map_get row ''amount'')"
      by (simp add: amounts_agree_def decimals_def)
    moreover have "dp_amount db \<in> range decimal_text"
      using that(1) select by (auto simp: select_payments_def answer_row_def split: sum.splits)
    ultimately show False using that(2) assms(1) decimals_decimal_text by fastforce
  qed
  have compared: "\<not> rm_matched m \<and> rm_type m = Some Amount_mismatch"
    if "m \<in> set (comparisons (dbByReference records) (providerByReference rows))" for m
  proof -
    from that obtain ref db row where "(ref, db, row) \<in> set (hits (dbByReference records) (providerByReference rows))"
      and m: "m = compare_records db row" by (auto simp: comparisons_def)
    then have "\<not> amounts_agree db row"
      by (intro differ) (auto simp: hit_iff by_reference_def dest: dbByReference_found find_SomeD)
    then show ?thesis by (simp add: m compare_records_def Let_def)
  qed
  then show ?thesis by (auto simp: r reconcile_rows_simps loop_simps filter_empty_conv)
qed

theorem short_amounts_never_match_witness:
  "\<exists>r. fst (run_proc (reconcileTransactions (sample_env []) [sample_row ''TX1'' ''150.00''] None) []
       (sample_store [sample_payment ''a'' ''TX1'' 1500000000 5], [])) = Inr r
     \<and> rr_matched r = [] \<and> length (rr_discrepancies r) = 1"
proof -
  let ?rows = "[sample_row ''TX1'' ''150.00'']"
  let ?records = "[answer_row (sample_env []) (sample_payment ''a'' ''TX1'' 1500000000 5)]"
  let ?w = "(sample_store [sample_payment ''a'' ''TX1'' 1500000000 5], [])"
  have "select_payments (sample_env []) None (fst ?w) = Inr ?records"
    by (simp add: select_payments_def bound_of_def sample_store_def)
  from reconcile_run [where w = ?w, OF this]
  have run: "fst (run_proc (reconcileTransactions (sample_env []) ?rows None) [] ?w) = Inr (reconcile_rows ?rows ?records)" .
  have "\<forall>row \<in> set ?rows. decimals (map_get row ''amount'') \<noteq> 7" by code_simp
  from short_amounts_never_match [OF this run] have "rr_matched (reconcile_rows ?rows ?records) = []" by blast
  moreover have "length (rl_discrepancies (reconcile_loop ?rows ?records)) = 1" by code_simp
  ultimately show ?thesis using run by (auto simp: reconcile_rows_simps)
qed

text \<open>
  The index of references and the one of the operators' references are one map, so a transaction whose reference is the
  operator's reference of another one is neither compared nor listed as unknown to the operator.
\<close>

lemma shared_reference_hides:
  "let a = answer_row (sample_env []) ((sample_payment ''a'' ''TX1'' 1500000000 5)\<lparr>pt_provider_ref := Some ''TX2''\<rparr>);
       b = answer_row (sample_env []) (sample_payment ''b'' ''TX2'' 70000000 6);
       st = reconcile_loop [sample_row ''TX2'' ''150.0000000''] [b, a]
   in map (dp_id \<circ> rm_db) (rl_matched st) = [''a''] \<and> rl_discrepancies st = [] \<and> filter (db_orphan st) [b, a] = []"
  by code_simp

text \<open>An import is never rolled back by the program as it is, also when its table exists.\<close>

lemma rollback_refused:
  assumes "\<not> ce_write env"
  shows "\<exists>e. fst (run_proc (rollbackCSVImport env i) is w) = Inl e" and "fst (snd (run_proc (rollbackCSVImport env i) is w)) = w"
proof -
  have snapshot: "(\<exists>e. run_proc (restore_snapshot env ps n) js w = (Inl e, w, js)) \<or> run_proc (restore_snapshot env ps n) js w = (Inr n, w, js)"
    for ps n js
    using assms by (cases ps) (simp_all add: import_write_def proc_simps)
  have rest: "\<exists>e js'. run_proc (and_then (case ci_snapshot im of None \<Rightarrow> ok 0 | Some ps \<Rightarrow> restore_snapshot env ps 0)
      (\<lambda>n. and_then (import_write env (mark_rolled_back i)) (\<lambda>_. ok \<lparr>ir_id = i, ir_restored = n\<rparr>))) js w = (Inl e, w, js')" for im js
    using assms snapshot [of "the (ci_snapshot im)" 0 js]
    by (cases "ci_snapshot im") (auto simp: import_write_def proc_simps)
  obtain r where r: "run_proc (recon_read (find_import i)) is w = (r, w, tl is)" by (simp add: run_recon_read)
  have "\<exists>e js. run_proc (rollbackCSVImport env i) is w = (Inl e, w, js)"
  proof (cases r)
    case (Inl e)
    then show ?thesis by (simp add: rollbackCSVImport_def run_and_then r)
  next
    case (Inr found)
    show ?thesis
    proof (cases found)
      case None
      then show ?thesis by (simp add: rollbackCSVImport_def run_and_then [of "recon_read (find_import i)"] r Inr run_throw)
    next
      case (Some im)
      have "run_proc (rollbackCSVImport env i) is w = run_proc (if ci_rolled_back im then throw Import_rolled_back
          else and_then (case ci_snapshot im of None \<Rightarrow> ok 0 | Some ps \<Rightarrow> restore_snapshot env ps 0) (\<lambda>n.
            and_then (import_write env (mark_rolled_back i)) (\<lambda>_. ok \<lparr>ir_id = i, ir_restored = n\<rparr>))) (tl is) w"
        by (simp add: rollbackCSVImport_def run_and_then [of "recon_read (find_import i)"] r Inr Some)
      then show ?thesis using rest [of im "tl is"] by (cases "ci_rolled_back im") (simp_all add: run_throw)
    qed
  qed
  then show "\<exists>e. fst (run_proc (rollbackCSVImport env i) is w) = Inl e" "fst (snd (run_proc (rollbackCSVImport env i) is w)) = w"
    by auto
qed

end
