(* ===== verification/Provider_Reconciliation.thy ===== *)
theory Provider_Reconciliation
  imports Csv_Reconciliation
begin

text \<open>
  \<open>src/src/services/providerReconciliationService.ts\<close> and \<open>src/src/jobs/providerReconciliationJob.ts\<close>: the daily
  reconciliation of every operator with an enabled configuration, its runs, corrections and alerts, as processes over
  \<open>Recon_Store\<close> on top of \<open>Csv_Reconciliation\<close>.

  Parameters of an environment: \<open>pe_get\<close> is the answer of an HTTP request (the message of an error or a body), \<open>pe_amount\<close> the
  cast of a text to \<open>DECIMAL(20, 7)\<close> (\<open>None\<close> when the database refuses it), \<open>pe_corrects\<close> whether the database takes the statement of
  the automatic correction; the text of that statement calls \<open>NOW().toISOString()\<close>, which is not SQL, so \<open>False\<close> is the program
  as it is. The report of a run is written to the row of \<open>reconciliation_reports\<close> with the identifier of the run; identifiers are
  drawn per table, so no row has it. A date is stored as its text. The notification of alerts and the log lines are left out.
\<close>

record provider_env =
  pe_csv :: csv_env
  pe_get :: "string \<Rightarrow> report_config \<Rightarrow> string + string"
  pe_amount :: "string \<Rightarrow> int option"
  pe_corrects :: bool

subsection \<open>Configurations and downloads\<close>

text \<open>\<open>ORDER BY provider\<close>, with the order of code units for the collation.\<close>

fun insert_config :: "report_config \<Rightarrow> report_config list \<Rightarrow> report_config list" where
  "insert_config c [] = [c]"
| "insert_config c (d # ds) = (if string_less (rc_provider d) (rc_provider c) then d # insert_config c ds else c # d # ds)"

definition getProviderConfigs :: "report_config list recon" where
  "getProviderConfigs = recon_read (\<lambda>s. Inr (foldr insert_config (filter rc_enabled (rs_configs s)) []))"

text \<open>\<open>s.replace(pat, rep)\<close>: the first occurrence.\<close>

fun replace_first :: "string \<Rightarrow> string \<Rightarrow> string \<Rightarrow> string" where
  "replace_first pat rep [] = (if pat = [] then rep else [])"
| "replace_first pat rep (c # s) = (if startsWith (c # s) pat then rep @ drop (length pat) (c # s) else c # replace_first pat rep s)"

definition report_day :: "js_date \<Rightarrow> recon_error + string" where
  "report_day d = (case d of None \<Rightarrow> Inl Recon_range | Some t \<Rightarrow> Inr (hd (split (CHR ''T'') (iso_string t))))"

definition downloadViaAPI :: "provider_env \<Rightarrow> report_config \<Rightarrow> string \<Rightarrow> string recon" where
  "downloadViaAPI env c day =
     (if \<not> truthy_string (rc_endpoint c) then throw (No_endpoint (rc_provider c))
      else call (\<lambda>w. (map_sum Download_failed id (pe_get env (replace_first ''{date}'' day (the (rc_endpoint c))) c), w)) Recon_lost)"

definition downloadProviderReport :: "provider_env \<Rightarrow> report_config \<Rightarrow> string \<Rightarrow> string recon" where
  "downloadProviderReport env c day =
     (if rc_method c = ''api'' then downloadViaAPI env c day
      else if rc_method c = ''manual'' then throw (Manual_download (rc_provider c))
      else throw (Unsupported_download (rc_method c)))"

subsection \<open>Corrections\<close>

definition SAFE_STATUS_CORRECTIONS :: "string \<Rightarrow> string list" where
  "SAFE_STATUS_CORRECTIONS st =
     (if st = ''pending'' then [''completed'', ''failed''] else if st = ''failed'' then [''completed''] else [])"

definition correct_payment :: "provider_env \<Rightarrow> string \<Rightarrow> string \<Rightarrow> recon_store \<Rightarrow> recon_error + unit \<times> recon_store" where
  "correct_payment env i status s =
     (if \<not> pe_corrects env then Inl (Recon_sql ''syntax error'')
      else Inr ((), s\<lparr>rs_payments := map (\<lambda>p. if pt_id p = i then p\<lparr>pt_status := status\<rparr> else p) (rs_payments s)\<rparr>))"

definition correction_of :: "recon_match \<Rightarrow> string option" where
  "correction_of m =
     (let db = toLowerCase (dp_status (rm_db m));
          file = (case map_get (rm_provider m) ''status'' of Some v \<Rightarrow> toLowerCase v | None \<Rightarrow> []) in
      if rm_type m = Some Status_mismatch \<and> db \<noteq> [] \<and> file \<noteq> [] \<and> file \<in> set (SAFE_STATUS_CORRECTIONS db) then Some file else None)"

fun autoCorrectDiscrepancies :: "provider_env \<Rightarrow> recon_match list \<Rightarrow> string list \<Rightarrow> string list recon" where
  "autoCorrectDiscrepancies env [] refs = ok refs"
| "autoCorrectDiscrepancies env (m # ms) refs =
     (case correction_of m of None \<Rightarrow> autoCorrectDiscrepancies env ms refs
      | Some status \<Rightarrow>
          and_then (catch (and_then (recon_write (correct_payment env (dp_id (rm_db m)) status)) (\<lambda>_. ok True)) (\<lambda>_. ok False))
            (\<lambda>fixed. autoCorrectDiscrepancies env ms (if fixed then List.insert (rm_reference m) refs else refs)))"

subsection \<open>Alerts\<close>

record raw_alert =
  ra_transaction :: "string option"
  ra_type :: discrepancy_type
  ra_severity :: recon_severity
  ra_reference :: "string option"
  ra_expected_amount :: "string option"
  ra_actual_amount :: "string option"
  ra_expected_status :: "string option"
  ra_actual_status :: "string option"
  ra_provider :: "csv_row option"
  ra_db :: "db_payment option"

definition discrepancy_alert :: "recon_match \<Rightarrow> raw_alert" where
  "discrepancy_alert m =
     \<lparr>ra_transaction = Some (dp_id (rm_db m)),
      ra_type = (if rm_type m = Some Amount_mismatch then Amount_mismatch else Status_mismatch),
      ra_severity = (if rm_type m = Some Amount_mismatch then Sev_high else Sev_medium),
      ra_reference = Some (rm_reference m), ra_expected_amount = Some (dp_amount (rm_db m)),
      ra_actual_amount = map_get (rm_provider m) ''amount'', ra_expected_status = Some (dp_status (rm_db m)),
      ra_actual_status = map_get (rm_provider m) ''status'', ra_provider = Some (rm_provider m), ra_db = Some (rm_db m)\<rparr>"

definition orphan_alert :: "csv_row \<Rightarrow> raw_alert" where
  "orphan_alert row =
     \<lparr>ra_transaction = None, ra_type = Orphaned_provider, ra_severity = Sev_high,
      ra_reference = first_truthy (\<lambda>s. s \<noteq> []) [map_get row ''reference_number'', map_get row ''reference_id''],
      ra_expected_amount = None, ra_actual_amount = None, ra_expected_status = None, ra_actual_status = None,
      ra_provider = Some row, ra_db = None\<rparr>"

definition db_orphan_alert :: "db_payment \<Rightarrow> raw_alert" where
  "db_orphan_alert r =
     \<lparr>ra_transaction = Some (dp_id r), ra_type = Orphaned_db, ra_severity = Sev_medium, ra_reference = Some (dp_reference r),
      ra_expected_amount = None, ra_actual_amount = None, ra_expected_status = None, ra_actual_status = None,
      ra_provider = None, ra_db = Some r\<rparr>"

text \<open>The columns of an alert: texts of bounded length, amounts that are cast, JSON without a NUL character.\<close>

definition cast_amount :: "provider_env \<Rightarrow> string option \<Rightarrow> recon_error + int option" where
  "cast_amount env v = (case v of None \<Rightarrow> Inr None | Some t \<Rightarrow>
     (case pe_amount env t of None \<Rightarrow> Inl (Recon_sql ''invalid input for type numeric'') | Some n \<Rightarrow> Inr (Some n)))"

definition too_long :: "nat \<Rightarrow> string option \<Rightarrow> bool" where
  "too_long n v = (case v of None \<Rightarrow> False | Some t \<Rightarrow> n < length t)"

definition has_NUL :: "csv_row \<Rightarrow> bool" where
  "has_NUL row = list_ex (\<lambda>(k, v). CHR 0x00 \<in> set k \<or> CHR 0x00 \<in> set v) row"

definition stored_alert :: "provider_env \<Rightarrow> nat \<Rightarrow> raw_alert \<Rightarrow> recon_error + recon_alert" where
  "stored_alert env run a =
     (case cast_amount env (ra_expected_amount a) of Inl e \<Rightarrow> Inl e
      | Inr expected \<Rightarrow> (case cast_amount env (ra_actual_amount a) of Inl e \<Rightarrow> Inl e
        | Inr actual \<Rightarrow>
            if too_long 25 (ra_reference a) \<or> too_long 20 (ra_expected_status a) \<or> too_long 20 (ra_actual_status a)
            then Inl (Recon_sql ''value too long'')
            else if (case ra_provider a of None \<Rightarrow> False | Some row \<Rightarrow> has_NUL row) then Inl (Recon_sql ''unsupported Unicode escape'')
            else Inr \<lparr>al_run = run, al_transaction = ra_transaction a, al_type = ra_type a, al_severity = ra_severity a,
              al_status = Pending_review, al_reference = ra_reference a, al_expected_amount = expected, al_actual_amount = actual,
              al_expected_status = ra_expected_status a, al_actual_status = ra_actual_status a, al_provider_data = ra_provider a,
              al_db_data = ra_db a, al_notes = None, al_reviewed_by = None\<rparr>))"

text \<open>One statement for all alerts, of twelve parameters each; a statement has at most 65535.\<close>

fun stored_all :: "('a \<Rightarrow> 'e + 'b) \<Rightarrow> 'a list \<Rightarrow> 'e + 'b list" where
  "stored_all f [] = Inr []"
| "stored_all f (x # xs) =
     (case f x of Inl e \<Rightarrow> Inl e | Inr y \<Rightarrow> (case stored_all f xs of Inl e \<Rightarrow> Inl e | Inr ys \<Rightarrow> Inr (y # ys)))"

definition insert_alerts :: "provider_env \<Rightarrow> nat \<Rightarrow> raw_alert list \<Rightarrow> recon_store \<Rightarrow> recon_error + unit \<times> recon_store" where
  "insert_alerts env run as s =
     (if 65535 < 12 * length as then Inl (Recon_sql ''too many parameters'')
      else case stored_all (stored_alert env run) as of Inl e \<Rightarrow> Inl e | Inr rows \<Rightarrow> Inr ((), s\<lparr>rs_alerts := rs_alerts s @ rows\<rparr>))"

definition alerts_of :: "recon_match list \<Rightarrow> recon_result \<Rightarrow> raw_alert list" where
  "alerts_of discrepancies r =
     map discrepancy_alert discrepancies @ map orphan_alert (rr_orphans r) @ map db_orphan_alert (rr_db_orphans r)"

definition createReconciliationAlerts :: "provider_env \<Rightarrow> nat \<Rightarrow> recon_match list \<Rightarrow> recon_result \<Rightarrow> unit recon" where
  "createReconciliationAlerts env run discrepancies r =
     (if alerts_of discrepancies r = [] then ok () else recon_write (insert_alerts env run (alerts_of discrepancies r)))"

subsection \<open>A run\<close>

definition insert_run :: "string \<Rightarrow> string \<Rightarrow> recon_store \<Rightarrow> recon_error + nat \<times> recon_store" where
  "insert_run provider day s =
     (if 20 < length provider then Inl (Recon_sql ''value too long'')
      else if list_ex (\<lambda>r. run_provider r = provider \<and> run_date r = day) (rs_runs s) then Inl (Recon_sql ''duplicate key'')
      else Inr (length (rs_runs s), s\<lparr>rs_runs := rs_runs s @
        [\<lparr>run_provider = provider, run_date = day, run_status = Run_running, run_rows = 0, run_records = 0, run_matched = 0,
          run_discrepancies = 0, run_orphaned_provider = 0, run_orphaned_db = 0, run_rate = Fin 0, run_error = None\<rparr>]\<rparr>))"

definition update_run :: "nat \<Rightarrow> (recon_run \<Rightarrow> recon_run) \<Rightarrow> recon_store \<Rightarrow> recon_error + unit \<times> recon_store" where
  "update_run run f s =
     Inr ((), if run < length (rs_runs s) then s\<lparr>rs_runs := (rs_runs s)[run := f (rs_runs s ! run)]\<rparr> else s)"

definition completed_run :: "recon_result \<Rightarrow> nat \<Rightarrow> recon_run \<Rightarrow> recon_run" where
  "completed_run r corrected row =
     row\<lparr>run_status := Run_completed, run_rows := rr_rows r, run_records := rr_records r,
       run_matched := int (su_matched (rr_summary r)) + int corrected,
       run_discrepancies := int (su_discrepancies (rr_summary r)) - int corrected,
       run_orphaned_provider := su_orphaned_provider (rr_summary r), run_orphaned_db := su_orphaned_db (rr_summary r),
       run_rate := jadd (su_match_rate (rr_summary r))
         (jmul (jdiv (of_exact (of_nat corrected)) (of_exact (of_nat (max (rr_rows r) 1)))) (Fin 100))\<rparr>"

definition failed_run :: "recon_error \<Rightarrow> recon_run \<Rightarrow> recon_run" where
  "failed_run e row = row\<lparr>run_status := Run_failed, run_error := Some e\<rparr>"

definition generateReconciliationReport :: "nat \<Rightarrow> unit recon" where
  "generateReconciliationReport run = recon_write (\<lambda>s. Inr ((), s))"

definition find_config :: "string \<Rightarrow> recon_store \<Rightarrow> recon_error + report_config option" where
  "find_config provider s = Inr (List.find (\<lambda>c. rc_provider c = provider \<and> rc_enabled c) (rs_configs s))"

definition reconcile_report :: "provider_env \<Rightarrow> string \<Rightarrow> string \<Rightarrow> nat \<Rightarrow> recon_run option recon" where
  "reconcile_report env provider day run =
     and_then (recon_read (find_config provider)) (\<lambda>found. case found of None \<Rightarrow> throw (No_configuration provider)
     | Some c \<Rightarrow>
     and_then (downloadProviderReport env c day) (\<lambda>buffer.
     case parseCSV (pe_csv env) buffer of Inl e \<Rightarrow> throw e
     | Inr rows \<Rightarrow>
     and_then (reconcileTransactions (pe_csv env) rows (Some \<lparr>dr_start = Some day, dr_end = Some day\<rparr>)) (\<lambda>r.
     and_then (autoCorrectDiscrepancies env (rr_discrepancies r) []) (\<lambda>refs.
     and_then (recon_write (update_run run (completed_run r (length refs)))) (\<lambda>_.
     and_then (createReconciliationAlerts env run (filter (\<lambda>m. rm_reference m \<notin> set refs) (rr_discrepancies r)) r) (\<lambda>_.
     and_then (generateReconciliationReport run) (\<lambda>_.
     recon_read (\<lambda>s. Inr (if run < length (rs_runs s) then Some (rs_runs s ! run) else None)))))))))"

definition runProviderReconciliation :: "provider_env \<Rightarrow> string \<Rightarrow> js_date \<Rightarrow> recon_run option recon" where
  "runProviderReconciliation env provider date =
     (case report_day date of Inl e \<Rightarrow> throw e
      | Inr day \<Rightarrow>
          and_then (recon_write (insert_run provider day)) (\<lambda>run.
            catch (reconcile_report env provider day run)
              (\<lambda>e. and_then (recon_write (update_run run (failed_run e))) (\<lambda>_. throw e))))"

subsection \<open>The job\<close>

text \<open>
  The entries of \<open>results\<close>. Logging the match rate of a missing row throws, after the entry of the success has been added.
\<close>

fun run_configs :: "provider_env \<Rightarrow> js_date \<Rightarrow> report_config list \<Rightarrow> (string \<times> bool) list \<Rightarrow> (string \<times> bool) list recon" where
  "run_configs env date [] results = ok results"
| "run_configs env date (c # cs) results =
     and_then (catch (and_then (runProviderReconciliation env (rc_provider c) date) (\<lambda>row.
         ok (results @ (rc_provider c, True) # (if row = None then [(rc_provider c, False)] else []))))
       (\<lambda>_. ok (results @ [(rc_provider c, False)])))
     (run_configs env date cs)"

definition severity_rank :: "recon_severity \<Rightarrow> nat" where
  "severity_rank v = (case v of Sev_critical \<Rightarrow> 1 | Sev_high \<Rightarrow> 2 | Sev_medium \<Rightarrow> 3 | Sev_low \<Rightarrow> 4)"

definition getPendingAlerts :: "nat \<Rightarrow> recon_alert list recon" where
  "getPendingAlerts limit = recon_read (\<lambda>s. Inr (take limit
     (sort_key (\<lambda>a. severity_rank (al_severity a)) (rev (filter (\<lambda>a. al_status a = Pending_review) (rs_alerts s))))))"

definition unreconciled :: "int \<Rightarrow> int \<Rightarrow> recon_store \<Rightarrow> payment_row list" where
  "unreconciled now daysOld s =
     take 100 (sort_key pt_created
       (filter (\<lambda>p. pt_created p < now - daysOld * 86400000000 \<and> pt_status p \<in> {''pending'', ''completed''}
          \<and> Some (pt_id p) \<notin> set (map ds_transaction (rs_discrepancies s))
          \<and> Some (pt_id p) \<notin> set (map al_transaction (rs_alerts s))) (rs_payments s)))"

definition getUnreconciledTransactions :: "int \<Rightarrow> int \<Rightarrow> payment_row list recon" where
  "getUnreconciledTransactions now daysOld = recon_read (\<lambda>s. Inr (unreconciled now daysOld s))"

definition runDailyProviderReconciliation :: "provider_env \<Rightarrow> js_date \<Rightarrow> int \<Rightarrow> (string \<times> bool) list recon" where
  "runDailyProviderReconciliation env yesterday now =
     and_then getProviderConfigs (\<lambda>configs. if configs = [] then ok []
     else and_then (run_configs env yesterday configs []) (\<lambda>results.
       and_then (getPendingAlerts 100) (\<lambda>_.
       and_then (getUnreconciledTransactions now 7) (\<lambda>_. ok results))))"

definition runManualProviderReconciliation :: "provider_env \<Rightarrow> string \<Rightarrow> js_date \<Rightarrow> recon_run option recon" where
  "runManualProviderReconciliation env provider date =
     and_then (runProviderReconciliation env provider date) (\<lambda>row.
       case row of None \<Rightarrow> throw (Recon_type ''match_rate'') | Some r \<Rightarrow> ok (Some r))"

subsection \<open>Reviews and lists\<close>

definition reviewReconciliationAlert :: "nat \<Rightarrow> alert_state \<Rightarrow> string \<Rightarrow> string \<Rightarrow> unit recon" where
  "reviewReconciliationAlert i status notes reviewer =
     recon_write (\<lambda>s. Inr ((), if i < length (rs_alerts s)
       then s\<lparr>rs_alerts := (rs_alerts s)[i := (rs_alerts s ! i)\<lparr>al_status := status, al_notes := Some notes, al_reviewed_by := Some reviewer\<rparr>]\<rparr>
       else s))"

definition getReconciliationHistory :: "string option \<Rightarrow> nat \<Rightarrow> recon_run list recon" where
  "getReconciliationHistory provider limit =
     recon_read (\<lambda>s. Inr (take limit (rev (filter (\<lambda>r. truthy_string provider \<longrightarrow> run_provider r = the provider) (rs_runs s)))))"

record daily_summary =
  dy_date :: string
  dy_total :: nat
  dy_completed :: nat
  dy_failed :: nat
  dy_alerts :: nat
  dy_critical :: nat
  dy_high :: nat

definition run_on :: "string \<Rightarrow> recon_store \<Rightarrow> nat \<Rightarrow> bool" where
  "run_on day s i = (i < length (rs_runs s) \<and> run_date (rs_runs s ! i) = day)"

definition runs_on :: "string \<Rightarrow> recon_store \<Rightarrow> recon_run list" where
  "runs_on day s = filter (\<lambda>r. run_date r = day) (rs_runs s)"

definition open_alerts_on :: "string \<Rightarrow> recon_store \<Rightarrow> recon_alert list" where
  "open_alerts_on day s = filter (\<lambda>a. run_on day s (al_run a) \<and> al_status a = Pending_review) (rs_alerts s)"

definition getDailyReconciliationSummary :: "js_date \<Rightarrow> daily_summary recon" where
  "getDailyReconciliationSummary date =
     (case report_day date of Inl e \<Rightarrow> throw e
      | Inr day \<Rightarrow>
          and_then (recon_read (\<lambda>s. Inr (runs_on day s))) (\<lambda>runs.
          and_then (recon_read (\<lambda>s. Inr (open_alerts_on day s))) (\<lambda>as.
          ok \<lparr>dy_date = day, dy_total = length runs,
              dy_completed = length (filter (\<lambda>r. run_status r = Run_completed) runs),
              dy_failed = length (filter (\<lambda>r. run_status r = Run_failed) runs), dy_alerts = length as,
              dy_critical = length (filter (\<lambda>a. al_severity a = Sev_critical) as),
              dy_high = length (filter (\<lambda>a. al_severity a = Sev_high) as)\<rparr>)))"

subsection \<open>Calls and what they keep\<close>

datatype recon_call =
  Daily_reconciliation js_date int
| Manual_reconciliation string js_date
| Review_of_alert nat alert_state string string

fun recon_proc :: "provider_env \<Rightarrow> recon_call \<Rightarrow> (recon_world, unit) proc" where
  "recon_proc env (Daily_reconciliation d now) = bind_proc (runDailyProviderReconciliation env d now) (\<lambda>_. Finished ())"
| "recon_proc env (Manual_reconciliation p d) = bind_proc (runManualProviderReconciliation env p d) (\<lambda>_. Finished ())"
| "recon_proc env (Review_of_alert i st notes who) = bind_proc (reviewReconciliationAlert i st notes who) (\<lambda>_. Finished ())"

lemma keeps_read_inv:
  assumes "\<And>w n x. I w \<Longrightarrow> f (seen n w) = Inr x \<Longrightarrow> Q x"
  shows "keeps I (on_ok Q) (recon_read f)"
  unfolding recon_read_def
  by (rule keeps_and_then [where Q = "\<lambda>r. \<forall>x. r = Inr x \<longrightarrow> Q x"], rule keeps_read_call)
    (use assms in \<open>auto intro!: keeps_intro split: sum.splits\<close>)

lemma keeps_any: "keeps I (on_ok Q) p \<Longrightarrow> keeps I (on_ok (\<lambda>_. True)) p"
  by (rule keeps_weaken) auto

lemma keeps_end: "keeps I (on_ok Q) p \<Longrightarrow> keeps I (\<lambda>_. True) (bind_proc p (\<lambda>_. Finished ()))"
  by (rule keeps_bind) simp_all

text \<open>
  An invariant \<open>I\<close> of the tables, the environments \<open>E\<close> it is for, and \<open>R\<close>, what a comparison of one day can be.
\<close>

locale recon_invariant =
  fixes I :: "recon_world \<Rightarrow> bool" and E :: "provider_env \<Rightarrow> bool" and R :: "recon_result \<Rightarrow> bool"
  assumes answer: "\<lbrakk>I w; E env; report_day d = Inr day;
      select_payments (pe_csv env) (Some \<lparr>dr_start = Some day, dr_end = Some day\<rparr>) (seen n w) = Inr records\<rbrakk> \<Longrightarrow> R (reconcile_rows rows records)"
    and corrected: "\<lbrakk>I w; R r; rr_discrepancies r \<noteq> []; correct_payment env p status (fst w) = Inr (x, s)\<rbrakk> \<Longrightarrow> I (s, fst w # snd w)"
    and completed: "\<lbrakk>I w; R r; rr_discrepancies r = [] \<Longrightarrow> n = 0; update_run run (completed_run r n) (fst w) = Inr (x, s)\<rbrakk> \<Longrightarrow> I (s, fst w # snd w)"
    and failed: "\<lbrakk>I w; update_run run (failed_run e) (fst w) = Inr (x, s)\<rbrakk> \<Longrightarrow> I (s, fst w # snd w)"
    and alerted: "\<lbrakk>I w; R r; set ds \<subseteq> set (rr_discrepancies r); insert_alerts env run (alerts_of ds r) (fst w) = Inr (x, s)\<rbrakk>
      \<Longrightarrow> I (s, fst w # snd w)"
    and started: "\<lbrakk>I w; insert_run provider day (fst w) = Inr (run, s)\<rbrakk> \<Longrightarrow> I (s, fst w # snd w)"
    and reviewed: "\<lbrakk>I w; i < length (rs_alerts (fst w))\<rbrakk> \<Longrightarrow>
      I ((fst w)\<lparr>rs_alerts := (rs_alerts (fst w))[i := (rs_alerts (fst w) ! i)\<lparr>al_status := st, al_notes := notes, al_reviewed_by := who\<rparr>]\<rparr>, fst w # snd w)"
    and unchanged: "I w \<Longrightarrow> I (fst w, fst w # snd w)"
begin

lemma corrections_keep:
  assumes "R r" and "ms = [] \<or> rr_discrepancies r \<noteq> []"
  shows "keeps I (on_ok (\<lambda>refs'. ms = [] \<longrightarrow> refs' = refs)) (autoCorrectDiscrepancies env ms refs)"
  using assms(2)
proof (induction env ms refs rule: autoCorrectDiscrepancies.induct)
  case (1 env refs)
  then show ?case by (auto intro: keeps_intro)
next
  case (2 env m ms refs)
  then have some: "rr_discrepancies r \<noteq> []" by simp
  show ?case
  proof (cases "correction_of m")
    case None
    then show ?thesis using 2 some by (auto intro: keeps_weaken)
  next
    case (Some status)
    have sent: "keeps I (on_ok (\<lambda>_. True)) (recon_write (correct_payment env (dp_id (rm_db m)) status))"
      by (rule keeps_recon_write) (auto intro: corrected [OF _ assms(1) some])
    have "keeps I (on_ok (\<lambda>_. True))
        (catch (and_then (recon_write (correct_payment env (dp_id (rm_db m)) status)) (\<lambda>_. ok True)) (\<lambda>_. ok False))"
      by (intro keeps_catch keeps_and_then [OF sent] keeps_ok TrueI)
    moreover have "keeps I (on_ok (\<lambda>refs'. m # ms = [] \<longrightarrow> refs' = refs))
        (autoCorrectDiscrepancies env ms (if fixed then List.insert (rm_reference m) refs else refs))" for fixed
      by (rule keeps_weaken, rule "2.IH"(2) [OF Some]) (use some in \<open>auto simp: on_ok_def split: sum.splits\<close>)
    ultimately show ?thesis unfolding autoCorrectDiscrepancies.simps Some option.case by (rule keeps_and_then)
  qed
qed

lemma reconcile_keeps:
  assumes "E env" and "report_day d = Inr day"
  shows "keeps I (on_ok R) (reconcileTransactions (pe_csv env) rows (Some \<lparr>dr_start = Some day, dr_end = Some day\<rparr>))"
  unfolding reconcileTransactions_def
  by (rule keeps_and_then [where Q = "\<lambda>records. R (reconcile_rows rows records)"])
    (auto intro: keeps_read_inv keeps_ok answer [OF _ assms])

lemma download_keeps: "keeps I (on_ok (\<lambda>_. True)) (downloadProviderReport env c day)"
  unfolding downloadProviderReport_def downloadViaAPI_def by (intro keeps_if keeps_throw keeps_call) simp_all

lemma alerts_keep:
  assumes "R r" and "set ds \<subseteq> set (rr_discrepancies r)"
  shows "keeps I (on_ok (\<lambda>_. True)) (createReconciliationAlerts env run ds r)"
  unfolding createReconciliationAlerts_def
  by (intro keeps_if keeps_ok keeps_recon_write TrueI) (auto intro: alerted [OF _ assms])

lemma body_keeps:
  assumes "E env" and "report_day d = Inr day"
  shows "keeps I (on_ok (\<lambda>_. True)) (reconcile_report env provider day run)"
proof -
  have rest: "keeps I (on_ok (\<lambda>_. True))
      (and_then (autoCorrectDiscrepancies env (rr_discrepancies r) []) (\<lambda>refs.
       and_then (recon_write (update_run run (completed_run r (length refs)))) (\<lambda>_.
       and_then (createReconciliationAlerts env run (filter (\<lambda>m. rm_reference m \<notin> set refs) (rr_discrepancies r)) r) (\<lambda>_.
       and_then (generateReconciliationReport run) (\<lambda>_.
       recon_read (\<lambda>s. Inr (if run < length (rs_runs s) then Some (rs_runs s ! run) else None)))))))" if "R r" for r
  proof (rule keeps_and_then [OF corrections_keep [OF that]])
    show "rr_discrepancies r = [] \<or> rr_discrepancies r \<noteq> []" by blast
    fix refs :: "string list"
    assume refs: "rr_discrepancies r = [] \<longrightarrow> refs = []"
    have "keeps I (on_ok (\<lambda>_. True)) (recon_write (update_run run (completed_run r (length refs))))"
      by (rule keeps_recon_write) (use refs in \<open>auto intro: completed [OF _ that]\<close>)
    moreover have "keeps I (on_ok (\<lambda>_. True)) (createReconciliationAlerts env run (filter (\<lambda>m. rm_reference m \<notin> set refs) (rr_discrepancies r)) r)"
      by (rule alerts_keep [OF that]) auto
    moreover have "keeps I (on_ok (\<lambda>_. True)) (generateReconciliationReport run)"
      unfolding generateReconciliationReport_def by (rule keeps_recon_write) (auto intro: unchanged)
    ultimately show "keeps I (on_ok (\<lambda>_. True)) (and_then (recon_write (update_run run (completed_run r (length refs)))) (\<lambda>_.
       and_then (createReconciliationAlerts env run (filter (\<lambda>m. rm_reference m \<notin> set refs) (rr_discrepancies r)) r) (\<lambda>_.
       and_then (generateReconciliationReport run) (\<lambda>_.
       recon_read (\<lambda>s. Inr (if run < length (rs_runs s) then Some (rs_runs s ! run) else None))))))"
      by (intro keeps_and_then [where Q = "\<lambda>_. True"] keeps_recon_read TrueI)
  qed
  have parsed: "keeps I (on_ok (\<lambda>_. True)) (case parseCSV (pe_csv env) buffer of Inl e \<Rightarrow> throw e
     | Inr rows \<Rightarrow> and_then (reconcileTransactions (pe_csv env) rows (Some \<lparr>dr_start = Some day, dr_end = Some day\<rparr>)) (\<lambda>r.
       and_then (autoCorrectDiscrepancies env (rr_discrepancies r) []) (\<lambda>refs.
       and_then (recon_write (update_run run (completed_run r (length refs)))) (\<lambda>_.
       and_then (createReconciliationAlerts env run (filter (\<lambda>m. rm_reference m \<notin> set refs) (rr_discrepancies r)) r) (\<lambda>_.
       and_then (generateReconciliationReport run) (\<lambda>_.
       recon_read (\<lambda>s. Inr (if run < length (rs_runs s) then Some (rs_runs s ! run) else None))))))))" for buffer
    by (cases "parseCSV (pe_csv env) buffer") (auto intro: keeps_throw keeps_and_then [OF reconcile_keeps [OF assms]] rest)
  show ?thesis
    unfolding reconcile_report_def
    by (rule keeps_and_then [where Q = "\<lambda>_. True"])
      (auto intro: keeps_recon_read keeps_throw keeps_and_then [OF download_keeps] parsed split: option.splits)
qed

lemma run_keeps: "E env \<Longrightarrow> keeps I (on_ok (\<lambda>_. True)) (runProviderReconciliation env provider d)"
proof (cases "report_day d")
  case (Inr day)
  assume "E env"
  have fail: "keeps I (on_ok (\<lambda>_. True)) (and_then (recon_write (update_run run (failed_run e))) (\<lambda>_. throw e))"
    for run e and dummy :: "recon_run option recon"
    by (rule keeps_and_then [where Q = "\<lambda>_. True"], rule keeps_recon_write) (auto intro: failed keeps_throw)
  show ?thesis
    unfolding runProviderReconciliation_def Inr sum.case
    by (rule keeps_and_then [where Q = "\<lambda>_. True"], rule keeps_recon_write)
      (auto intro: started keeps_catch body_keeps [OF \<open>E env\<close> Inr] fail)
qed (simp add: runProviderReconciliation_def keeps_throw)

lemma configs_keep: "E env \<Longrightarrow> keeps I (on_ok (\<lambda>_. True)) (run_configs env d cs results)"
proof (induction cs arbitrary: results)
  case Nil
  show ?case unfolding run_configs.simps by (rule keeps_ok) (rule TrueI)
next
  case (Cons c cs)
  show ?case
    unfolding run_configs.simps
    by (intro keeps_and_then [where Q = "\<lambda>_. True"] keeps_catch run_keeps [OF Cons.prems] keeps_ok TrueI Cons.IH [OF Cons.prems])
qed

lemma call_keeps: "E env \<Longrightarrow> keeps I (\<lambda>_. True) (recon_proc env c)"
proof (cases c)
  case (Daily_reconciliation d now)
  assume "E env"
  have "keeps I (on_ok (\<lambda>_. True)) (runDailyProviderReconciliation env d now)"
    unfolding runDailyProviderReconciliation_def getProviderConfigs_def getPendingAlerts_def getUnreconciledTransactions_def
    by (intro keeps_and_then [where Q = "\<lambda>_. True"] keeps_if keeps_ok keeps_recon_read configs_keep [OF \<open>E env\<close>] TrueI)
  then show ?thesis by (simp add: Daily_reconciliation keeps_end)
next
  case (Manual_reconciliation p d)
  assume "E env"
  have "keeps I (on_ok (\<lambda>_. True)) (runManualProviderReconciliation env p d)"
    unfolding runManualProviderReconciliation_def
    by (rule keeps_and_then [OF run_keeps [OF \<open>E env\<close>]]) (auto intro: keeps_intro split: option.splits)
  then show ?thesis by (simp add: Manual_reconciliation keeps_end)
next
  case (Review_of_alert i st remarks who)
  have "keeps I (on_ok (\<lambda>_. True)) (reviewReconciliationAlert i st remarks who)"
    unfolding reviewReconciliationAlert_def
    by (rule keeps_recon_write) (auto intro: reviewed unchanged split: if_splits)
  then show ?thesis by (simp add: Review_of_alert keeps_end)
qed

sublocale shared: shared_world I "\<lambda>p. \<exists>env c. E env \<and> p = recon_proc env c"
  by unfold_locales (auto intro: call_keeps)

end

subsection \<open>The range of a day\<close>

text \<open>
  The code asks for the payments from a day to the same day. The database reads the text of a day as its first instant
  (\<open>reads_days\<close>), so only payments created exactly then are in the range.
\<close>

definition reads_days :: "provider_env \<Rightarrow> bool" where
  "reads_days env = (\<forall>t x. ce_time (pe_csv env) (hd (split (CHR ''T'') (iso_string t))) = Some x \<longrightarrow> 86400000000 dvd x)"

definition off_midnight :: "recon_store \<Rightarrow> bool" where
  "off_midnight s = (\<forall>p \<in> set (rs_payments s). \<not> 86400000000 dvd pt_created p)"

definition nothing_compared :: "recon_world \<Rightarrow> bool" where
  "nothing_compared w =
     ((\<forall>s \<in> insert (fst w) (set (snd w)). off_midnight s)
      \<and> (\<forall>a \<in> set (rs_alerts (fst w)). al_type a = Orphaned_provider \<and> al_severity a = Sev_high)
      \<and> (\<forall>r \<in> set (rs_runs (fst w)). run_status r = Run_completed \<longrightarrow> run_records r = 0 \<and> run_matched r = 0 \<and> run_discrepancies r = 0))"

definition empty_answer :: "recon_result \<Rightarrow> bool" where
  "empty_answer r = (rr_records r = 0 \<and> rr_discrepancies r = [] \<and> rr_db_orphans r = []
     \<and> su_matched (rr_summary r) = 0 \<and> su_discrepancies (rr_summary r) = 0)"

lemma day_text_not_Nil: "hd (split (CHR ''T'') (iso_string t)) \<noteq> []"
proof -
  have plain: "c \<noteq> CHR ''T''" if "c \<in> set (year_text y)" for c y
    using that padded_digits by (fastforce simp: year_text_def list_all_iff is_digit_def split: if_splits)
  obtain y m d where "civil (t div 86400000) = (y, m, d)" by (cases "civil (t div 86400000)")
  then have "\<exists>rest. iso_string t = year_text y @ CHR ''-'' # rest" by (simp add: iso_string_def)
  then obtain rest where "iso_string t = year_text y @ CHR ''-'' # rest" by blast
  moreover have "takeWhile (\<lambda>c. c \<noteq> CHR ''T'') (year_text y @ CHR ''-'' # rest) = year_text y @ CHR ''-'' # takeWhile (\<lambda>c. c \<noteq> CHR ''T'') rest" for y rest
    using plain by (subst takeWhile_append2) auto
  ultimately show ?thesis by (simp add: hd_split_on)
qed

lemma day_select:
  assumes "reads_days env" and "off_midnight s" and "report_day d = Inr day"
    and "select_payments (pe_csv env) (Some \<lparr>dr_start = Some day, dr_end = Some day\<rparr>) s = Inr records"
  shows "records = []"
proof -
  from assms(3) obtain t where day: "day = hd (split (CHR ''T'') (iso_string t))" by (auto simp: report_day_def split: option.splits)
  then have "day \<noteq> []" using day_text_not_Nil by simp
  then obtain x where x: "ce_time (pe_csv env) day = Some x" and records: "records = map (answer_row (pe_csv env))
      (sort_key (\<lambda>p. - pt_created p) (filter (\<lambda>p. x \<le> pt_created p \<and> pt_created p \<le> x) (rs_payments s)))"
    using assms(4) by (auto simp: select_payments_def bound_of_def split: option.splits)
  have "86400000000 dvd x" using assms(1) x unfolding day reads_days_def by blast
  then have "pt_created p \<noteq> x" if "p \<in> set (rs_payments s)" for p using assms(2) that by (auto simp: off_midnight_def)
  then show ?thesis by (auto simp: records filter_empty_conv)
qed

lemma reconcile_no_records: "empty_answer (reconcile_rows rows [])"
proof -
  have "hits (dbByReference []) es = []" for es by (induction es) (auto simp: hits_def List.map_filter_simps dbByReference_def)
  then show ?thesis by (simp add: empty_answer_def reconcile_rows_def Let_def loop_simps comparisons_def)
qed

lemma stored_all_types:
  "stored_all (stored_alert env run) as = Inr rows \<Longrightarrow> map al_type rows = map ra_type as \<and> map al_severity rows = map ra_severity as"
  by (induction as arbitrary: rows) (auto simp: stored_alert_def split: sum.splits if_splits)

lemma seen_in: "seen n w \<in> insert (fst w) (set (snd w))"
  unfolding seen_def by (metis le_imp_less_Suc length_Cons list.simps(15) min.cobounded2 nth_mem)

lemma update_run_cases:
  "update_run run f s = Inr (x, s') \<Longrightarrow> rs_payments s' = rs_payments s \<and> rs_alerts s' = rs_alerts s
    \<and> set (rs_runs s') \<subseteq> set (rs_runs s) \<union> f ` set (rs_runs s)"
  using set_update_subset_insert [of "rs_runs s" run "f (rs_runs s ! run)"]
  by (auto simp: update_run_def split: if_splits)

interpretation daily: recon_invariant nothing_compared reads_days empty_answer
proof unfold_locales
  fix w :: recon_world and env :: provider_env and d day n records rows
  assume "nothing_compared w" "reads_days env" "report_day d = Inr day"
    "select_payments (pe_csv env) (Some \<lparr>dr_start = Some day, dr_end = Some day\<rparr>) (seen n w) = Inr records"
  moreover have "off_midnight (seen n w)" using \<open>nothing_compared w\<close> seen_in [of n w] by (auto simp: nothing_compared_def)
  ultimately have "records = []" by (blast intro: day_select)
  then show "empty_answer (reconcile_rows rows records)" by (simp add: reconcile_no_records)
next
  fix w r env p status x s
  assume "empty_answer r" "rr_discrepancies r \<noteq> []"
  then show "nothing_compared (s, fst w # snd w)" by (simp add: empty_answer_def)
next
  fix w r n run and x :: unit and s
  assume I: "nothing_compared w" and r: "empty_answer r" and n: "rr_discrepancies r = [] \<Longrightarrow> n = 0"
    and up: "update_run run (completed_run r n) (fst w) = Inr (x, s)"
  from r n have "n = 0" by (simp add: empty_answer_def)
  with r have "run_records (completed_run r n q) = 0 \<and> run_matched (completed_run r n q) = 0 \<and> run_discrepancies (completed_run r n q) = 0" for q
    by (simp add: completed_run_def empty_answer_def)
  then show "nothing_compared (s, fst w # snd w)"
    using I update_run_cases [OF up] by (auto simp: nothing_compared_def off_midnight_def)
next
  fix w run e and x :: unit and s
  assume I: "nothing_compared w" and up: "update_run run (failed_run e) (fst w) = Inr (x, s)"
  have "run_status (failed_run e q) \<noteq> Run_completed" for q by (simp add: failed_run_def)
  then show "nothing_compared (s, fst w # snd w)"
    using I update_run_cases [OF up] by (auto simp: nothing_compared_def off_midnight_def)
next
  fix w r ds env run and x :: unit and s
  assume I: "nothing_compared w" and r: "empty_answer r" and ds: "set ds \<subseteq> set (rr_discrepancies r)"
    and ins: "insert_alerts env run (alerts_of ds r) (fst w) = Inr (x, s)"
  from r ds have "alerts_of ds r = map orphan_alert (rr_orphans r)" by (simp add: alerts_of_def empty_answer_def)
  with ins obtain rows where rows: "stored_all (stored_alert env run) (map orphan_alert (rr_orphans r)) = Inr rows"
    and s: "s = (fst w)\<lparr>rs_alerts := rs_alerts (fst w) @ rows\<rparr>"
    by (auto simp: insert_alerts_def split: sum.splits if_splits)
  have "al_type a = Orphaned_provider \<and> al_severity a = Sev_high" if "a \<in> set rows" for a
  proof -
    have "al_type a \<in> set (map al_type rows)" "al_severity a \<in> set (map al_severity rows)" using that by auto
    then show ?thesis using stored_all_types [OF rows] by (auto simp: orphan_alert_def)
  qed
  then show "nothing_compared (s, fst w # snd w)" using I by (auto simp: nothing_compared_def off_midnight_def s)
next
  fix w provider day run s
  assume "nothing_compared w" "insert_run provider day (fst w) = Inr (run, s)"
  then show "nothing_compared (s, fst w # snd w)"
    by (auto simp: insert_run_def nothing_compared_def off_midnight_def split: if_splits)
next
  fix w i st remarks who
  assume "nothing_compared w" "i < length (rs_alerts (fst w))"
  then show "nothing_compared ((fst w)\<lparr>rs_alerts := (rs_alerts (fst w))[i := (rs_alerts (fst w) ! i)
      \<lparr>al_status := st, al_notes := remarks, al_reviewed_by := who\<rparr>]\<rparr>, fst w # snd w)"
    using nth_mem [of i "rs_alerts (fst w)"]
    by (auto simp: nothing_compared_def off_midnight_def dest!: subsetD [OF set_update_subset_insert])
qed (auto simp: nothing_compared_def)

text \<open>Once a day has a run of an operator it has one for ever.\<close>

definition has_run :: "string \<Rightarrow> string \<Rightarrow> recon_world \<Rightarrow> bool" where
  "has_run provider day w = list_ex (\<lambda>r. run_provider r = provider \<and> run_date r = day) (rs_runs (fst w))"

lemma update_run_has_run:
  assumes "has_run provider day w" and "update_run run f (fst w) = Inr (x, s)"
    and "\<And>r. run_provider (f r) = run_provider r \<and> run_date (f r) = run_date r"
  shows "has_run provider day (s, ws)"
proof -
  have "map (\<lambda>r. (run_provider r, run_date r)) (rs_runs s) = map (\<lambda>r. (run_provider r, run_date r)) (rs_runs (fst w))"
    using assms(2,3) by (auto simp: update_run_def map_update intro!: list_update_same_conv [THEN iffD2] split: if_splits)
  then have "set (map (\<lambda>r. (run_provider r, run_date r)) (rs_runs s)) = set (map (\<lambda>r. (run_provider r, run_date r)) (rs_runs (fst w)))"
    by simp
  then show ?thesis using assms(1) by (simp add: has_run_def list_ex_iff) (metis (mono_tags, lifting) image_iff prod.inject)
qed

interpretation day: recon_invariant "has_run provider day" "\<lambda>_. True" "\<lambda>_. True" for provider day
proof unfold_locales
  fix w r n run and x :: unit and s
  assume "has_run provider day w" and up: "update_run run (completed_run r n) (fst w) = Inr (x, s)"
  then show "has_run provider day (s, fst w # snd w)" by (rule update_run_has_run) (simp add: completed_run_def)
next
  fix w run e and x :: unit and s
  assume "has_run provider day w" and up: "update_run run (failed_run e) (fst w) = Inr (x, s)"
  then show "has_run provider day (s, fst w # snd w)" by (rule update_run_has_run) (simp add: failed_run_def)
qed (auto simp: has_run_def correct_payment_def insert_alerts_def insert_run_def split: if_splits sum.splits)

subsection \<open>Properties\<close>

definition sample_provider_env :: "csv_row list \<Rightarrow> provider_env" where
  "sample_provider_env rows = \<lparr>pe_csv = sample_env rows, pe_get = \<lambda>url c. Inr [], pe_amount = \<lambda>t. None, pe_corrects = False\<rparr>"

definition mtn_config :: report_config where
  "mtn_config = \<lparr>rc_provider = ''mtn'', rc_enabled = True, rc_method = ''api'', rc_endpoint = Some ''https://mtn/{date}'',
     rc_key = Some ''k'', rc_secret = None\<rparr>"

lemma sample_reads_days: "reads_days (sample_provider_env rows)"
  by (simp add: reads_days_def sample_provider_env_def sample_env_def)

text \<open>
  C30. The range of a daily run begins and ends at the first instant of its day. So, as long as no payment was created exactly
  at midnight, nothing is ever compared: however many daily and manual runs and reviews go on together, with lost calls and
  replicas that are behind, a completed run has seen no payment and has no match and no discrepancy, and every alert says
  that the operator lists a payment which is unknown.
\<close>

theorem daily_runs_compare_nothing:
  assumes "\<forall>(env, c) \<in> set calls. reads_days env"
    and "\<forall>s \<in> insert (fst w) (set (snd w)). off_midnight s" and "rs_alerts (fst w) = []" and "rs_runs (fst w) = []"
    and "snd (run_pool sched (map (\<lambda>(env, c). recon_proc env c) calls) w) = w'"
  shows "(\<forall>a \<in> set (rs_alerts (fst w')). al_type a = Orphaned_provider \<and> al_severity a = Sev_high)
    \<and> (\<forall>r \<in> set (rs_runs (fst w')). run_status r = Run_completed \<longrightarrow> run_records r = 0 \<and> run_matched r = 0 \<and> run_discrepancies r = 0)"
proof -
  have "list_all (\<lambda>p. \<exists>env c. reads_days env \<and> p = recon_proc env c) (map (\<lambda>(env, c). recon_proc env c) calls)"
    using assms(1) by (force simp: list_all_iff)
  moreover have "nothing_compared w" using assms(2-4) by (simp add: nothing_compared_def)
  ultimately show ?thesis using daily.shared.pool_inv [of "map (\<lambda>(env, c). recon_proc env c) calls" w sched] assms(5)
    by (simp add: nothing_compared_def)
qed

theorem daily_runs_compare_nothing_witness:
  "\<forall>sched. list_all (\<lambda>a. al_type a = Orphaned_provider) (rs_alerts (fst (snd (run_pool sched
     [recon_proc (sample_provider_env [sample_row ''TX1'' ''150.0000000'']) (Daily_reconciliation (Some 1709208000000) 0)]
     ((sample_store [sample_payment ''a'' ''TX1'' 1500000000 1709208000000001])\<lparr>rs_configs := [mtn_config]\<rparr>, [])))))"
proof
  fix sched
  let ?w = "((sample_store [sample_payment ''a'' ''TX1'' 1500000000 1709208000000001])\<lparr>rs_configs := [mtn_config]\<rparr>, [] :: recon_store list)"
  let ?calls = "[(sample_provider_env [sample_row ''TX1'' ''150.0000000''], Daily_reconciliation (Some 1709208000000) 0)]"
  have "\<forall>s \<in> insert (fst ?w) (set (snd ?w)). off_midnight s"
    by (simp add: off_midnight_def sample_store_def sample_payment_def)
  from daily_runs_compare_nothing [of ?calls ?w, OF _ this _ _ refl, of sched]
  show "list_all (\<lambda>a. al_type a = Orphaned_provider) (rs_alerts (fst (snd (run_pool sched
     [recon_proc (sample_provider_env [sample_row ''TX1'' ''150.0000000'']) (Daily_reconciliation (Some 1709208000000) 0)] ?w))))"
    by (simp add: sample_reads_days list_all_iff sample_store_def)
qed

text \<open>
  A day is reconciled once. Whatever happened in a run whose first statement was executed (the download failed, a
  statement was refused, a connection was lost), another run for the same operator and day is refused and changes nothing.
\<close>

theorem failed_day_not_repeated:
  assumes "report_day d = Inr day" and "length provider \<le> 20" and "first_outcome is \<noteq> Lost"
    and "run_proc (runProviderReconciliation env provider d) is w = (r, w', js)"
  shows "(\<exists>e. fst (run_proc (runProviderReconciliation env' provider d) is' w') = Inl e)
    \<and> fst (snd (run_proc (runProviderReconciliation env' provider d) is' w')) = w'"
proof -
  let ?p = "runProviderReconciliation env provider d"
  have "has_run provider day w'"
  proof (cases "has_run provider day w")
    case True
    have "has_run provider day (fst (snd (run_proc ?p is w)))"
      by (rule day.shared.run_keeps [OF day.run_keeps True]) simp
    then show ?thesis by (simp add: assms(4))
  next
    case False
    then obtain run s where ins: "insert_run provider day (fst w) = Inr (run, s)" and new: "has_run provider day (s, fst w # snd w)"
      using assms(2) by (auto simp: insert_run_def has_run_def)
    show ?thesis
    proof (cases "first_outcome is = Lost_after")
      case True
      then have "w' = (s, fst w # snd w)"
        using assms(4) by (simp add: runProviderReconciliation_def assms(1) run_and_then run_recon_write ins)
      then show ?thesis using new by simp
    next
      case other: False
      let ?q = "catch (reconcile_report env provider day run) (\<lambda>e. and_then (recon_write (update_run run (failed_run e))) (\<lambda>_. throw e))"
      have "run_proc ?q (tl is) (s, fst w # snd w) = (r, w', js)"
        using assms(3,4) other by (simp add: runProviderReconciliation_def assms(1) run_and_then run_recon_write ins)
      moreover have "keeps (has_run provider day) (on_ok (\<lambda>_. True)) ?q"
        by (rule keeps_catch, rule day.body_keeps [OF TrueI assms(1)], rule keeps_and_then [where Q = "\<lambda>_. True"], rule keeps_recon_write)
          (auto intro: day.failed keeps_throw)
      ultimately show ?thesis using day.shared.run_keeps [of provider day _ ?q "(s, fst w # snd w)" "tl is"] new by simp
    qed
  qed
  then have "insert_run provider day (fst w') = Inl (Recon_sql ''duplicate key'')"
    using assms(2) by (simp add: insert_run_def has_run_def)
  then show ?thesis by (simp add: runProviderReconciliation_def assms(1) run_and_then run_recon_write)
qed

text \<open>In the witness no operator is configured, so the first run fails.\<close>

theorem failed_day_not_repeated_witness:
  "\<exists>w'. fst (snd (run_proc (runProviderReconciliation (sample_provider_env []) ''mtn'' (Some 1709208000000)) [] (sample_store [], []))) = w'
     \<and> map run_status (rs_runs (fst w')) = [Run_failed]
     \<and> fst (snd (run_proc (runProviderReconciliation (sample_provider_env []) ''mtn'' (Some 1709208000000)) [] w')) = w'"
proof -
  let ?p = "runProviderReconciliation (sample_provider_env []) ''mtn'' (Some 1709208000000)"
  have day: "report_day (Some 1709208000000) = Inr ''2024-02-29''" by code_simp
  obtain r w' js where run: "run_proc ?p [] (sample_store [], []) = (r, w', js)" by (cases "run_proc ?p [] (sample_store [], [])")
  moreover have "map run_status (rs_runs (fst w')) = [Run_failed]"
    using run by (auto simp: runProviderReconciliation_def day run_and_then run_catch run_recon_write run_recon_read run_throw
        reconcile_report_def insert_run_def find_config_def update_run_def failed_run_def sample_store_def)
  ultimately show ?thesis using failed_day_not_repeated [OF day _ _ run, of "sample_provider_env []" "[]"] by simp
qed

text \<open>
  The alerts of a run are stored by one statement, and the reference of an alert has at most 25 characters. So when the
  operator's file has one unknown payment with a longer reference, the run throws and ends as failed although its numbers had
  been stored as completed, and not a single alert of that day is stored, also none of the other payments; by the property
  before this one the day cannot be run again.
\<close>

theorem long_reference_loses_alerts:
  assumes "report_day d = Inr day" and "length provider \<le> 20" and "\<not> has_run provider day w"
    and "find_config provider (fst w) = Inr (Some c)" and "rc_method c = ''api''" and "truthy_string (rc_endpoint c)"
    and "pe_get env (replace_first ''{date}'' day (the (rc_endpoint c))) c = Inr buffer"
    and "parseCSV (pe_csv env) buffer = Inr rows"
    and "select_payments (pe_csv env) (Some \<lparr>dr_start = Some day, dr_end = Some day\<rparr>) (fst w) = Inr []"
    and "row \<in> set rows" and "truthy_string (row_reference row)" and "too_long 25 (ra_reference (orphan_alert row))"
    and "run_proc (runProviderReconciliation env provider d) [] w = (r, w', js)"
  shows "(\<exists>e. r = Inl e) \<and> rs_alerts (fst w') = rs_alerts (fst w) \<and> length (rs_runs (fst w')) = Suc (length (rs_runs (fst w)))
    \<and> run_status (last (rs_runs (fst w'))) = Run_failed \<and> run_rows (last (rs_runs (fst w'))) = length rows"
proof -
  let ?res = "reconcile_rows rows []"
  let ?run = "length (rs_runs (fst w))"
  have empty: "rr_discrepancies ?res = []" "rr_db_orphans ?res = []" "rr_rows ?res = length rows"
    using reconcile_no_records [of rows] by (simp_all add: empty_answer_def reconcile_rows_simps)
  have "row \<in> set (rr_orphans ?res)"
    using assms(10,11) by (simp add: reconcile_rows_simps provider_orphan_iff) (simp add: dbByReference_def)
  then have in_alerts: "orphan_alert row \<in> set (alerts_of [] ?res)" by (auto simp: alerts_of_def)
  have "\<exists>e. stored_alert env ?run (orphan_alert row) = Inl e"
    using assms(12) by (auto simp: stored_alert_def orphan_alert_def cast_amount_def too_long_def split: option.splits)
  then have "\<exists>e. stored_all (stored_alert env ?run) as = Inl e" if "orphan_alert row \<in> set as" for as
    using that by (induction as) (auto split: sum.splits)
  with in_alerts obtain e0 where "stored_all (stored_alert env ?run) (alerts_of [] ?res) = Inl e0" by blast
  then have "\<exists>e. \<forall>s. insert_alerts env ?run (alerts_of [] ?res) s = Inl e" by (simp add: insert_alerts_def) blast
  then obtain e where refused: "insert_alerts env ?run (alerts_of [] ?res) s = Inl e" for s by blast
  obtain s where ins: "insert_run provider day (fst w) = Inr (?run, s)"
    and s: "rs_runs s = rs_runs (fst w) @ [last (rs_runs s)]" "rs_alerts s = rs_alerts (fst w)" "rs_configs s = rs_configs (fst w)"
      "rs_payments s = rs_payments (fst w)"
    using assms(2,3) by (simp add: insert_run_def has_run_def)
  from assms(4) s(3) have config: "find_config provider s = Inr (Some c)" by (simp add: find_config_def)
  have select: "select_payments (pe_csv env) (Some \<lparr>dr_start = Some day, dr_end = Some day\<rparr>) s = Inr []"
    using assms(9) select_same_payments [OF s(4)] by simp
  let ?s1 = "s\<lparr>rs_runs := (rs_runs s)[?run := completed_run ?res 0 (rs_runs s ! ?run)]\<rparr>"
  have len: "length (rs_runs s) = Suc ?run" using s(1) by (metis length_append_singleton)
  have body: "run_proc (reconcile_report env provider day ?run) [] (s, fst w # snd w) = (Inl e, (?s1, s # fst w # snd w), [])"
    using in_alerts
    by (auto simp: reconcile_report_def run_and_then run_recon_read config downloadProviderReport_def downloadViaAPI_def assms(5-8)
        run_call run_reconcile select empty run_ok run_recon_write update_run_def len createReconciliationAlerts_def refused Let_def)
  have "run_proc (runProviderReconciliation env provider d) [] w =
      (Inl e, (?s1\<lparr>rs_runs := (rs_runs ?s1)[?run := failed_run e (rs_runs ?s1 ! ?run)]\<rparr>, ?s1 # s # fst w # snd w), [])"
    by (simp add: runProviderReconciliation_def assms(1) run_and_then run_recon_write ins run_catch body update_run_def len run_throw)
  with assms(13) have "r = Inl e" and w': "fst w' = ?s1\<lparr>rs_runs := (rs_runs ?s1)[?run := failed_run e (rs_runs ?s1 ! ?run)]\<rparr>"
    by auto
  moreover have "last (rs_runs (fst w')) = failed_run e (completed_run ?res 0 (rs_runs s ! ?run))"
    unfolding w' using len by (simp add: last_update)
  moreover have "rs_alerts (fst w') = rs_alerts (fst w)" "length (rs_runs (fst w')) = Suc ?run"
    unfolding w' using len s(2) by simp_all
  ultimately show ?thesis by (simp add: failed_run_def completed_run_def empty)
qed

theorem long_reference_loses_alerts_witness:
  "\<exists>w'. fst (snd (run_proc (runProviderReconciliation
       (sample_provider_env [sample_row ''TX9'' ''1'', sample_row ''123e4567-e89b-12d3-a456-426614174000'' ''2'']) ''mtn'' (Some 1709208000000)) []
       ((sample_store [sample_payment ''a'' ''TX1'' 1500000000 1709208000000001])\<lparr>rs_configs := [mtn_config]\<rparr>, []))) = w'
     \<and> rs_alerts (fst w') = [] \<and> run_status (last (rs_runs (fst w'))) = Run_failed \<and> run_rows (last (rs_runs (fst w'))) = 2"
proof -
  let ?rows = "[sample_row ''TX9'' ''1'', sample_row ''123e4567-e89b-12d3-a456-426614174000'' ''2'']"
  let ?env = "sample_provider_env ?rows"
  let ?w = "((sample_store [sample_payment ''a'' ''TX1'' 1500000000 1709208000000001])\<lparr>rs_configs := [mtn_config]\<rparr>, [] :: recon_store list)"
  obtain r w' js where run: "run_proc (runProviderReconciliation ?env ''mtn'' (Some 1709208000000)) [] ?w = (r, w', js)"
    by (cases "run_proc (runProviderReconciliation ?env ''mtn'' (Some 1709208000000)) [] ?w")
  have day: "report_day (Some 1709208000000) = Inr ''2024-02-29''" by code_simp
  have config: "find_config ''mtn'' (fst ?w) = Inr (Some mtn_config)" by (simp add: find_config_def mtn_config_def)
  have get: "pe_get ?env (replace_first ''{date}'' ''2024-02-29'' (the (rc_endpoint mtn_config))) mtn_config = Inr []"
    by (simp add: sample_provider_env_def)
  have parse: "parseCSV (pe_csv ?env) [] = Inr ?rows" by code_simp
  have select: "select_payments (pe_csv ?env) (Some \<lparr>dr_start = Some ''2024-02-29'', dr_end = Some ''2024-02-29''\<rparr>) (fst ?w) = Inr []"
    by (simp add: select_payments_def bound_of_def sample_provider_env_def sample_env_def sample_store_def sample_payment_def)
  have ref: "truthy_string (row_reference (?rows ! 1))" and long: "too_long 25 (ra_reference (orphan_alert (?rows ! 1)))"
    by (code_simp, code_simp)
  have "rs_alerts (fst w') = [] \<and> run_status (last (rs_runs (fst w'))) = Run_failed \<and> run_rows (last (rs_runs (fst w'))) = 2"
    using long_reference_loses_alerts [OF day _ _ config _ _ get parse select _ ref long run]
    by (simp add: has_run_def sample_store_def mtn_config_def)
  with run show ?thesis by simp
qed

end
