(* ===== verification/Report_Reconciliation.thy ===== *)
theory Report_Reconciliation
  imports Csv_Reconciliation
begin

text \<open>
  \<open>src/src/services/providerReconService.ts\<close>, \<open>src/src/models/reconciliation.ts\<close> and
  \<open>src/src/jobs/reconciliationJob.ts\<close>: reports of reconciliations with one row per discrepancy, as processes over
  \<open>Recon_Store\<close> on top of \<open>Csv_Reconciliation\<close>. A date of a report is kept in milliseconds; the local time of the process
  is UTC. The keys of a row that look like array indexes would come first in its JSON text.
\<close>

subsection \<open>ReconciliationModel\<close>

definition over :: "nat \<Rightarrow> string option \<Rightarrow> bool" where
  "over n v = (case v of None \<Rightarrow> False | Some t \<Rightarrow> n < length t \<or> CHR 0x00 \<in> set t)"

definition createReport :: "string \<Rightarrow> int \<Rightarrow> string option \<Rightarrow> report_status \<Rightarrow> nat recon" where
  "createReport provider date file status =
     recon_write (\<lambda>s. if over 50 (Some provider) \<or> over 255 file then Inl (Recon_sql ''value too long'')
       else Inr (length (rs_reports s), s\<lparr>rs_reports := rs_reports s @
         [\<lparr>rp_provider = provider, rp_date = date, rp_file = file, rp_status = status, rp_summary = No_summary\<rparr>]\<rparr>))"

definition with_status :: "report_status option \<Rightarrow> report_row \<Rightarrow> report_row" where
  "with_status st row = (case st of None \<Rightarrow> row | Some v \<Rightarrow> row\<lparr>rp_status := v\<rparr>)"

definition with_summary :: "report_summary option \<Rightarrow> report_row \<Rightarrow> report_row" where
  "with_summary su row = (case su of None \<Rightarrow> row | Some v \<Rightarrow> row\<lparr>rp_summary := v\<rparr>)"

definition with_file :: "string option \<Rightarrow> report_row \<Rightarrow> report_row" where
  "with_file f row = (if truthy_string f then row\<lparr>rp_file := f\<rparr> else row)"

definition updateReport :: "nat \<Rightarrow> report_status option \<Rightarrow> report_summary option \<Rightarrow> string option \<Rightarrow> unit recon" where
  "updateReport i st su f =
     (if st = None \<and> su = None \<and> \<not> truthy_string f then ok ()
      else recon_write (\<lambda>s. if truthy_string f \<and> over 255 f then Inl (Recon_sql ''value too long'')
        else Inr ((), if i < length (rs_reports s)
          then s\<lparr>rs_reports := (rs_reports s)[i := with_file f (with_summary su (with_status st (rs_reports s ! i)))]\<rparr> else s)))"

record new_discrepancy =
  nd_transaction :: "string option"
  nd_reference :: string
  nd_type :: discrepancy_type
  nd_expected :: "string option"
  nd_actual :: "string option"

definition insert_discrepancy :: "nat \<Rightarrow> new_discrepancy \<Rightarrow> recon_store \<Rightarrow> recon_error + nat \<times> recon_store" where
  "insert_discrepancy i d s =
     (if over 100 (Some (nd_reference d)) \<or> over 255 (nd_expected d) \<or> over 255 (nd_actual d) then Inl (Recon_sql ''value too long'')
      else if length (rs_reports s) \<le> i then Inl (Recon_sql ''foreign key'')
      else Inr (length (rs_discrepancies s), s\<lparr>rs_discrepancies := rs_discrepancies s @
        [\<lparr>ds_report = i, ds_transaction = nd_transaction d, ds_reference = nd_reference d, ds_type = nd_type d,
          ds_expected = nd_expected d, ds_actual = nd_actual d, ds_resolved = False, ds_notes = None\<rparr>]\<rparr>))"

definition createDiscrepancy :: "nat \<Rightarrow> new_discrepancy \<Rightarrow> nat recon" where
  "createDiscrepancy i d = recon_write (insert_discrepancy i d)"

definition getReports :: "nat \<Rightarrow> nat \<Rightarrow> report_row list recon" where
  "getReports limit offset = recon_read (\<lambda>s. Inr (take limit (drop offset (sort_key (\<lambda>r. - rp_date r) (rev (rs_reports s))))))"

definition getReportById :: "nat \<Rightarrow> report_row option recon" where
  "getReportById i = recon_read (\<lambda>s. Inr (if i < length (rs_reports s) then Some (rs_reports s ! i) else None))"

definition getDiscrepanciesByReportId :: "nat \<Rightarrow> discrepancy_row list recon" where
  "getDiscrepanciesByReportId i = recon_read (\<lambda>s. Inr (filter (\<lambda>d. ds_report d = i) (rs_discrepancies s)))"

definition resolveDiscrepancy :: "nat \<Rightarrow> string \<Rightarrow> unit recon" where
  "resolveDiscrepancy i remarks = recon_write (\<lambda>s. Inr ((), if i < length (rs_discrepancies s)
     then s\<lparr>rs_discrepancies := (rs_discrepancies s)[i := (rs_discrepancies s ! i)\<lparr>ds_resolved := True, ds_notes := Some remarks\<rparr>]\<rparr>
     else s))"

subsection \<open>Running a report\<close>

definition shown :: "string option \<Rightarrow> string" where
  "shown v = (case v of None \<Rightarrow> ''undefined'' | Some t \<Rightarrow> t)"

definition amount_and_status :: "string option \<Rightarrow> string option \<Rightarrow> string" where
  "amount_and_status amount status = ''Amount: '' @ shown amount @ '', Status: '' @ shown status"

definition row_json :: "csv_row \<Rightarrow> json" where
  "row_json row = JObj (map (\<lambda>(k, v). (k, JStr v)) row)"

definition payment_json :: "db_payment \<Rightarrow> json" where
  "payment_json p = JObj [(''id'', JStr (dp_id p)), (''reference_number'', JStr (dp_reference p)),
     (''provider_reference'', case dp_provider_ref p of None \<Rightarrow> JNull | Some v \<Rightarrow> JStr v), (''amount'', JStr (dp_amount p)),
     (''status'', JStr (dp_status p)), (''phone_number'', JStr (dp_phone p)), (''provider'', JStr (dp_provider p)),
     (''created_at'', JStr (dp_created p))]"

definition match_entry :: "recon_match \<Rightarrow> new_discrepancy" where
  "match_entry m =
     \<lparr>nd_transaction = Some (dp_id (rm_db m)), nd_reference = rm_reference m,
      nd_type = (case rm_type m of Some t \<Rightarrow> t | None \<Rightarrow> Status_mismatch),
      nd_expected = Some (amount_and_status (Some (dp_amount (rm_db m))) (Some (dp_status (rm_db m)))),
      nd_actual = Some (amount_and_status (map_get (rm_provider m) ''amount'') (map_get (rm_provider m) ''status''))\<rparr>"

definition orphan_entry :: "csv_row \<Rightarrow> new_discrepancy" where
  "orphan_entry row =
     (let ref = first_truthy (\<lambda>s. s \<noteq> []) [map_get row ''reference_number'', map_get row ''reference_id''] in
      \<lparr>nd_transaction = None, nd_reference = (if truthy_string ref then the ref else ''UNKNOWN''), nd_type = Orphaned_provider,
       nd_expected = None, nd_actual = Some (stringify (row_json row))\<rparr>)"

definition db_orphan_entry :: "db_payment \<Rightarrow> new_discrepancy" where
  "db_orphan_entry p =
     \<lparr>nd_transaction = Some (dp_id p), nd_reference = dp_reference p, nd_type = Orphaned_db,
      nd_expected = Some (stringify (payment_json p)), nd_actual = None\<rparr>"

definition report_entries :: "recon_result \<Rightarrow> new_discrepancy list" where
  "report_entries r = map match_entry (rr_discrepancies r) @ map orphan_entry (rr_orphans r) @ map db_orphan_entry (rr_db_orphans r)"

fun store_entries :: "nat \<Rightarrow> new_discrepancy list \<Rightarrow> unit recon" where
  "store_entries i [] = ok ()"
| "store_entries i (d # ds) = and_then (createDiscrepancy i d) (\<lambda>_. store_entries i ds)"

definition report_range :: "int \<Rightarrow> recon_error + date_range" where
  "report_range t =
     (case (time_clip (t - 86400000), time_clip (t + 86400000)) of
        (Some a, Some b) \<Rightarrow> Inr \<lparr>dr_start = Some (iso_string a), dr_end = Some (iso_string b)\<rparr>
      | _ \<Rightarrow> Inl Recon_range)"

definition report_body :: "csv_env \<Rightarrow> int \<Rightarrow> string \<Rightarrow> nat \<Rightarrow> unit recon" where
  "report_body env t buffer i =
     (case parseCSV env buffer of Inl e \<Rightarrow> throw e | Inr rows \<Rightarrow>
      case report_range t of Inl e \<Rightarrow> throw e | Inr dates \<Rightarrow>
        and_then (reconcileTransactions env rows (Some dates)) (\<lambda>r.
        and_then (store_entries i (report_entries r)) (\<lambda>_.
        updateReport i (Some Report_completed) (Some (Run_summary (rr_summary r))) None)))"

definition runReconciliation :: "csv_env \<Rightarrow> string \<Rightarrow> js_date \<Rightarrow> string \<Rightarrow> string option \<Rightarrow> nat recon" where
  "runReconciliation env provider date buffer file =
     (case date of None \<Rightarrow> throw Recon_range
      | Some t \<Rightarrow>
          and_then (createReport provider t file Report_pending) (\<lambda>i.
            catch (and_then (report_body env t buffer i) (\<lambda>_. ok i))
              (\<lambda>e. and_then (updateReport i (Some Report_failed) (Some (Error_summary e)) None) (\<lambda>_. throw e))))"

subsection \<open>Fetching a report and the daily job\<close>

definition date_part :: "int \<Rightarrow> string" where
  "date_part t = hd (split (CHR ''T'') (iso_string t))"

text \<open>The answer of the operators is made up in the program.\<close>

definition queryProviderReportApi :: "string \<Rightarrow> int \<Rightarrow> int \<Rightarrow> string" where
  "queryProviderReportApi provider from_time to_time =
     (let p = toUpperCase provider; a = date_part from_time; b = date_part to_time in
      join ''\<newline>'' [''reference_number,amount,status,date,provider,currency'',
        ''TXN_'' @ p @ ''_001,150.00,SUCCESS,'' @ a @ '','' @ p @ '',XLM'',
        ''TXN_'' @ p @ ''_002,300.50,SUCCESS,'' @ a @ '','' @ p @ '',XLM'',
        ''TXN_'' @ p @ ''_003,50.00,PENDING,'' @ b @ '','' @ p @ '',XLM''])"

record cached_report =
  cr_buffer :: string
  cr_expires :: int

fun fetch_attempts :: "nat \<Rightarrow> int \<Rightarrow> string \<Rightarrow> string \<Rightarrow> (string, cached_report) js_map \<Rightarrow> string option \<times> (string, cached_report) js_map" where
  "fetch_attempts 0 now key csv cache = (None, cache)"
| "fetch_attempts (Suc n) now key csv cache =
     (let header = hd (split (CHR ''\<newline>'') csv) in
      if \<not> contains ''reference_number'' header \<and> \<not> contains ''amount'' header then fetch_attempts n now key csv cache
      else (Some csv, map_set key \<lparr>cr_buffer = csv, cr_expires = now + 3600000\<rparr> cache))"

definition fetchProviderReport ::
  "int \<Rightarrow> string \<Rightarrow> js_date \<Rightarrow> (js_date \<times> js_date) option \<Rightarrow> (string, cached_report) js_map
   \<Rightarrow> recon_error + string option \<times> (string, cached_report) js_map" where
  "fetchProviderReport now provider date dates cache =
     (let p = trim (toLowerCase provider) in
      if p \<notin> {''mtn'', ''airtel'', ''orange''} then Inr (None, cache)
      else case (case dates of None \<Rightarrow> (date, date) | Some d \<Rightarrow> d) of
        (Some a, Some b) \<Rightarrow>
          let key = p @ ''_'' @ date_part a @ ''_'' @ date_part b in
          (case map_get cache key of
             Some c \<Rightarrow> if now < cr_expires c then Inr (Some (cr_buffer c), cache)
                       else Inr (fetch_attempts 3 now key (queryProviderReportApi p a b) cache)
           | None \<Rightarrow> Inr (fetch_attempts 3 now key (queryProviderReportApi p a b) cache))
      | _ \<Rightarrow> Inl Recon_range)"

fun reconcile_providers :: "csv_env \<Rightarrow> int \<Rightarrow> js_date \<Rightarrow> string list \<Rightarrow> (string, cached_report) js_map \<Rightarrow> unit recon" where
  "reconcile_providers env now day [] cache = ok ()"
| "reconcile_providers env now day (p # ps) cache =
     (case fetchProviderReport now p day None cache of
        Inl e \<Rightarrow> reconcile_providers env now day ps cache
      | Inr (None, cache') \<Rightarrow> reconcile_providers env now day ps cache'
      | Inr (Some buffer, cache') \<Rightarrow>
          and_then (catch (and_then (runReconciliation env p day buffer
              (Some (p @ ''_recon_'' @ (case day of Some t \<Rightarrow> date_part t | None \<Rightarrow> []) @ ''.csv''))) (\<lambda>_. ok ())) (\<lambda>_. ok ()))
            (\<lambda>_. reconcile_providers env now day ps cache'))"

definition runReconciliationJob :: "csv_env \<Rightarrow> int \<Rightarrow> unit recon" where
  "runReconciliationJob env now = reconcile_providers env now (time_clip (now - 86400000)) [''MTN'', ''AIRTEL'', ''STELLAR''] []"

subsection \<open>What a run leaves\<close>

lemma insert_discrepancy_cases:
  "insert_discrepancy i d s = Inr (x, s') \<Longrightarrow> rs_reports s' = rs_reports s
    \<and> (\<exists>row. rs_discrepancies s' = rs_discrepancies s @ [row] \<and> ds_report row = i)"
  by (auto simp: insert_discrepancy_def split: if_splits)

lemma run_createDiscrepancy:
  assumes "run_proc (createDiscrepancy i d) is w = (x, w', js)"
  shows "rs_reports (fst w') = rs_reports (fst w) \<and> (\<exists>rows. rs_discrepancies (fst w') = rs_discrepancies (fst w) @ rows
    \<and> (\<forall>row \<in> set rows. ds_report row = i) \<and> (\<forall>n. x = Inr n \<longrightarrow> length rows = 1))"
proof (cases "insert_discrepancy i d (fst w)")
  case (Inl e)
  then show ?thesis using assms by (intro conjI exI [of _ "[]"]) (auto simp: createDiscrepancy_def run_recon_write split: if_splits)
next
  case (Inr r)
  then obtain n s where ins: "insert_discrepancy i d (fst w) = Inr (n, s)" by (cases r) simp
  from insert_discrepancy_cases [OF this] obtain row where row: "rs_reports s = rs_reports (fst w)"
      "rs_discrepancies s = rs_discrepancies (fst w) @ [row]" "ds_report row = i" by blast
  show ?thesis
  proof (cases "first_outcome is = Lost")
    case True
    then show ?thesis using assms ins by (intro conjI exI [of _ "[]"]) (auto simp: createDiscrepancy_def run_recon_write)
  next
    case False
    then show ?thesis using assms ins row
      by (intro conjI exI [of _ "[row]"]) (auto simp: createDiscrepancy_def run_recon_write)
  qed
qed

lemma run_store_entries:
  assumes "run_proc (store_entries i ds) is w = (x, w', js)"
  shows "rs_reports (fst w') = rs_reports (fst w) \<and> (\<exists>rows. rs_discrepancies (fst w') = rs_discrepancies (fst w) @ rows
    \<and> (\<forall>row \<in> set rows. ds_report row = i) \<and> (\<forall>u. x = Inr u \<longrightarrow> length rows = length ds))"
  using assms
proof (induction ds arbitrary: "is" w)
  case Nil
  then show ?case by (simp add: run_ok)
next
  case (Cons d ds)
  obtain y w1 js1 where first: "run_proc (createDiscrepancy i d) is w = (y, w1, js1)" by (cases "run_proc (createDiscrepancy i d) is w")
  from run_createDiscrepancy [OF first] obtain rows1 where r1: "rs_reports (fst w1) = rs_reports (fst w)"
      "rs_discrepancies (fst w1) = rs_discrepancies (fst w) @ rows1" "\<forall>row \<in> set rows1. ds_report row = i"
      "\<forall>n. y = Inr n \<longrightarrow> length rows1 = 1" by blast
  show ?case
  proof (cases y)
    case (Inl e)
    then have "x = Inl e" "w' = w1" using Cons.prems by (simp_all add: run_and_then first)
    then show ?thesis using r1 by (intro conjI exI [of _ rows1]) simp_all
  next
    case (Inr n)
    then have "run_proc (store_entries i ds) js1 w1 = (x, w', js)" using Cons.prems by (simp add: run_and_then first)
    from Cons.IH [OF this] obtain rows2 where r2: "rs_reports (fst w') = rs_reports (fst w1)"
      "rs_discrepancies (fst w') = rs_discrepancies (fst w1) @ rows2" "\<forall>row \<in> set rows2. ds_report row = i"
      "\<forall>u. x = Inr u \<longrightarrow> length rows2 = length ds" by blast
    then show ?thesis using r1 Inr by (intro conjI exI [of _ "rows1 @ rows2"]) auto
  qed
qed

lemma run_updateReport:
  assumes "run_proc (updateReport i (Some st) (Some su) None) is w = (x, w', js)" and "i < length (rs_reports (fst w))"
  shows "rs_discrepancies (fst w') = rs_discrepancies (fst w)
    \<and> (fst w' = fst w \<or> rs_reports (fst w') = (rs_reports (fst w))[i := (rs_reports (fst w) ! i)\<lparr>rp_status := st, rp_summary := su\<rparr>])"
  using assms by (auto simp: updateReport_def run_recon_write with_file_def with_summary_def with_status_def split: if_splits)

definition entries_of :: "recon_summary \<Rightarrow> nat" where
  "entries_of su = su_discrepancies su + su_orphaned_provider su + su_orphaned_db su"

lemma length_report_entries: "length (report_entries (reconcile_rows rows records)) = entries_of (rr_summary (reconcile_rows rows records))"
  by (simp add: report_entries_def entries_of_def reconcile_rows_simps)

lemma run_report_body:
  assumes "run_proc (report_body env t buffer i) is w = (x, w', js)" and "i < length (rs_reports (fst w))"
  shows "\<exists>rows. rs_discrepancies (fst w') = rs_discrepancies (fst w) @ rows \<and> (\<forall>row \<in> set rows. ds_report row = i)
    \<and> (rs_reports (fst w') = rs_reports (fst w) \<or> (\<exists>su. length rows = entries_of su
      \<and> rs_reports (fst w') = (rs_reports (fst w))[i := (rs_reports (fst w) ! i)\<lparr>rp_status := Report_completed, rp_summary := Run_summary su\<rparr>]))"
proof (cases "parseCSV env buffer")
  case (Inl e)
  then show ?thesis using assms by (auto simp: report_body_def run_throw)
next
  case rows: (Inr rows)
  show ?thesis
  proof (cases "report_range t")
    case (Inl e)
    then show ?thesis using assms rows by (auto simp: report_body_def run_throw)
  next
    case (Inr dates)
    obtain y js1 where rec: "run_proc (reconcileTransactions env rows (Some dates)) is w = (y, w, js1)"
      by (simp add: run_reconcile)
    show ?thesis
    proof (cases y)
      case (Inl e)
      then show ?thesis using assms rows Inr by (auto simp: report_body_def run_and_then rec)
    next
      case y: (Inr r)
      then have "fst (run_proc (reconcileTransactions env rows (Some dates)) is w) = Inr r" by (simp add: rec)
      from reconcile_answer [OF this] obtain records where r: "r = reconcile_rows rows records" by blast
      obtain z w1 js2 where store: "run_proc (store_entries i (report_entries r)) js1 w = (z, w1, js2)"
        by (cases "run_proc (store_entries i (report_entries r)) js1 w")
      from run_store_entries [OF store] obtain new where new: "rs_reports (fst w1) = rs_reports (fst w)"
        "rs_discrepancies (fst w1) = rs_discrepancies (fst w) @ new" "\<forall>row \<in> set new. ds_report row = i"
        "\<forall>u. z = Inr u \<longrightarrow> length new = length (report_entries r)" by blast
      show ?thesis
      proof (cases z)
        case (Inl e)
        then have "w' = w1" using assms(1) rows Inr y by (simp add: report_body_def run_and_then rec store)
        then show ?thesis using new by auto
      next
        case (Inr u)
        then have "run_proc (updateReport i (Some Report_completed) (Some (Run_summary (rr_summary r))) None) js2 w1 = (x, w', js)"
          using assms(1) rows \<open>report_range t = Inr dates\<close> y by (simp add: report_body_def run_and_then rec store)
        from run_updateReport [OF this] have "rs_discrepancies (fst w') = rs_discrepancies (fst w1)
          \<and> (fst w' = fst w1 \<or> rs_reports (fst w') = (rs_reports (fst w1))[i := (rs_reports (fst w1) ! i)
              \<lparr>rp_status := Report_completed, rp_summary := Run_summary (rr_summary r)\<rparr>])"
          using assms(2) new(1) by simp
        moreover have "length new = entries_of (rr_summary r)" using new(4) Inr length_report_entries [of rows records] by (simp add: r)
        ultimately show ?thesis using new by (intro exI [of _ new]) auto
      qed
    qed
  qed
qed

subsection \<open>Properties\<close>

lemma with_new_rows:
  assumes "\<forall>d \<in> set ds. ds_report d < n" and "\<forall>d \<in> set new. ds_report d = n"
  shows "filter (\<lambda>d. ds_report d = n) (ds @ new) = new"
proof -
  have "filter (\<lambda>d. ds_report d = n) ds = []" using assms(1) by (auto simp: filter_empty_conv)
  moreover have "filter (\<lambda>d. ds_report d = n) new = new" using assms(2) by (simp add: filter_id_conv)
  ultimately show ?thesis by simp
qed

text \<open>
  A report that is marked as completed is complete. Whatever calls of a run are lost, before or after their effect, and
  whichever version of the database answers: when the report of the run has the status completed, its summary is that of the
  comparison, and exactly as many discrepancies are stored for it as the summary counts.
\<close>

theorem completed_report_complete:
  assumes "run_proc (runReconciliation env provider date buffer file) is w = (x, w', js)"
    and "\<forall>d \<in> set (rs_discrepancies (fst w)). ds_report d < length (rs_reports (fst w))"
    and "length (rs_reports (fst w)) \<le> i" and "i < length (rs_reports (fst w'))"
    and "rp_status (rs_reports (fst w') ! i) = Report_completed"
  shows "\<exists>su. rp_summary (rs_reports (fst w') ! i) = Run_summary su
    \<and> length (filter (\<lambda>d. ds_report d = i) (rs_discrepancies (fst w'))) = su_discrepancies su + su_orphaned_provider su + su_orphaned_db su"
proof -
  let ?n = "length (rs_reports (fst w))"
  from assms(1,3,4) obtain t where t: "date = Some t" by (cases date) (auto simp: runReconciliation_def run_throw)
  obtain y w1 js1 where created: "run_proc (createReport provider t file Report_pending) is w = (y, w1, js1)"
    by (cases "run_proc (createReport provider t file Report_pending) is w")
  let ?row = "\<lparr>rp_provider = provider, rp_date = t, rp_file = file, rp_status = Report_pending, rp_summary = No_summary\<rparr>"
  from created have w1: "rs_discrepancies (fst w1) = rs_discrepancies (fst w)"
      "w1 = w \<or> rs_reports (fst w1) = rs_reports (fst w) @ [?row]"
      "\<And>k. y = Inr k \<Longrightarrow> k = ?n \<and> rs_reports (fst w1) = rs_reports (fst w) @ [?row]"
    by (auto simp: createReport_def run_recon_write split: if_splits)
  show ?thesis
  proof (cases y)
    case (Inl e)
    then have "w' = w1" using assms(1) by (simp add: runReconciliation_def t run_and_then created)
    then show ?thesis using w1(2) assms(3-5) by (auto simp: nth_append)
  next
    case (Inr k)
    with w1(3) have k: "k = ?n" and reports: "rs_reports (fst w1) = rs_reports (fst w) @ [?row]" by auto
    obtain z w2 js2 where body: "run_proc (report_body env t buffer ?n) js1 w1 = (z, w2, js2)"
      by (cases "run_proc (report_body env t buffer ?n) js1 w1")
    from run_report_body [OF body] reports obtain new where new: "rs_discrepancies (fst w2) = rs_discrepancies (fst w) @ new"
      "\<forall>row \<in> set new. ds_report row = ?n"
      and r2: "rs_reports (fst w2) = rs_reports (fst w1) \<or> (\<exists>su. length new = entries_of su
        \<and> rs_reports (fst w2) = (rs_reports (fst w1))[?n := (rs_reports (fst w1) ! ?n)\<lparr>rp_status := Report_completed, rp_summary := Run_summary su\<rparr>])"
      using w1(1) by auto
    have len: "length (rs_reports (fst w2)) = Suc ?n" using r2 reports by auto
    have kept: "rs_discrepancies (fst w') = rs_discrepancies (fst w2)
        \<and> (fst w' = fst w2 \<or> (\<exists>e. rs_reports (fst w') = (rs_reports (fst w2))[?n := (rs_reports (fst w2) ! ?n)\<lparr>rp_status := Report_failed, rp_summary := e\<rparr>]))"
    proof (cases z)
      case (Inl e)
      obtain u w3 js3 where up: "run_proc (updateReport ?n (Some Report_failed) (Some (Error_summary e)) None) js2 w2 = (u, w3, js3)"
        by (cases "run_proc (updateReport ?n (Some Report_failed) (Some (Error_summary e)) None) js2 w2")
      then have "w' = w3" using assms(1) Inr Inl k
        by (cases u) (simp_all add: runReconciliation_def t run_and_then created run_catch body run_throw)
      then show ?thesis using run_updateReport [OF up] len by auto
    next
      case (Inr u)
      then have "w' = w2" using assms(1) \<open>y = Inr k\<close> k
        by (simp add: runReconciliation_def t run_and_then created run_catch body run_ok)
      then show ?thesis by simp
    qed
    then have "length (rs_reports (fst w')) = Suc ?n" using len by auto
    with assms(3,4) have i: "i = ?n" by simp
    have "rs_reports (fst w') = rs_reports (fst w2)" using kept assms(5) len i by auto
    then obtain su where "length new = entries_of su" "rp_summary (rs_reports (fst w') ! i) = Run_summary su"
      using r2 assms(5) reports i by auto
    moreover have "filter (\<lambda>d. ds_report d = i) (rs_discrepancies (fst w')) = new"
      using kept new assms(2) i with_new_rows [of "rs_discrepancies (fst w)" ?n new] by simp
    ultimately show ?thesis by (auto simp: entries_of_def)
  qed
qed

text \<open>In the witness a row without a payment is stored as the only discrepancy.\<close>

theorem completed_report_complete_witness:
  "\<exists>w'. fst (snd (run_proc (runReconciliation (sample_env [sample_row ''TX9'' ''1'']) ''MTN'' (Some 1709208000000) [] None) [] (sample_store [], []))) = w'
     \<and> map rp_status (rs_reports (fst w')) = [Report_completed] \<and> length (filter (\<lambda>d. ds_report d = 0) (rs_discrepancies (fst w'))) = 1"
proof -
  let ?env = "sample_env [sample_row ''TX9'' ''1'']"
  let ?res = "reconcile_rows [sample_row ''TX9'' ''1''] []"
  obtain x w' js where run: "run_proc (runReconciliation ?env ''MTN'' (Some 1709208000000) [] None) [] (sample_store [], []) = (x, w', js)"
    by (cases "run_proc (runReconciliation ?env ''MTN'' (Some 1709208000000) [] None) [] (sample_store [], [])")
  have parse: "parseCSV ?env [] = Inr [sample_row ''TX9'' ''1'']" by code_simp
  obtain dates where dates: "report_range 1709208000000 = Inr dates" by (simp add: report_range_def time_clip_def max_time_def)
  have select: "select_payments ?env d s = Inr []" if "rs_payments s = []" for d s
    using that by (simp add: select_payments_def bound_of_def sample_env_def)
  have "rl_matched (reconcile_loop [sample_row ''TX9'' ''1''] []) = []" "rl_discrepancies (reconcile_loop [sample_row ''TX9'' ''1''] []) = []"
    "filter (provider_orphan (reconcile_loop [sample_row ''TX9'' ''1''] [])) [sample_row ''TX9'' ''1''] = [sample_row ''TX9'' ''1'']"
    by (code_simp, code_simp, code_simp)
  then have parts: "rr_discrepancies ?res = []" "rr_orphans ?res = [sample_row ''TX9'' ''1'']" "rr_db_orphans ?res = []"
    "entries_of (rr_summary ?res) = 1"
    by (simp_all add: reconcile_rows_simps entries_of_def)
  have fits: "\<not> over 100 (Some (nd_reference (orphan_entry (sample_row ''TX9'' ''1''))))"
    "\<not> over 255 (nd_expected (orphan_entry (sample_row ''TX9'' ''1'')))" "\<not> over 255 (nd_actual (orphan_entry (sample_row ''TX9'' ''1'')))"
    by (code_simp, code_simp, code_simp)
  have over_name: "\<not> over 50 (Some ''MTN'')" "\<not> over 255 None" by (simp_all add: over_def)
  have entries: "report_entries ?res = [orphan_entry (sample_row ''TX9'' ''1'')]" by (simp add: report_entries_def parts)
  have body: "fst w' = fst w' \<and> length (rs_reports (fst w')) = 1 \<and> rp_status (rs_reports (fst w') ! 0) = Report_completed
      \<and> rp_summary (rs_reports (fst w') ! 0) = Run_summary (rr_summary ?res)"
    using run
    by (auto simp: runReconciliation_def run_and_then createReport_def run_recon_write over_name run_catch report_body_def parse dates
        run_reconcile select sample_store_def entries createDiscrepancy_def insert_discrepancy_def fits run_ok updateReport_def
        with_file_def with_summary_def with_status_def)
  then have "\<exists>su. rp_summary (rs_reports (fst w') ! 0) = Run_summary su
      \<and> length (filter (\<lambda>d. ds_report d = 0) (rs_discrepancies (fst w'))) = su_discrepancies su + su_orphaned_provider su + su_orphaned_db su"
    by (intro completed_report_complete [OF run]) (simp_all add: sample_store_def)
  then have "length (filter (\<lambda>d. ds_report d = 0) (rs_discrepancies (fst w'))) = 1" using body parts(4) by (auto simp: entries_of_def)
  moreover have "map rp_status (rs_reports (fst w')) = [Report_completed]" using body by (cases "rs_reports (fst w')") auto
  ultimately show ?thesis using run by simp
qed

text \<open>
  The text of a discrepancy has at most 255 characters. When a payment of the three days that the operator's file does not
  name has a longer JSON text (for an encrypted telephone number it has), the run throws and its report ends as failed, although
  nothing else went wrong.
\<close>

theorem long_payment_fails_report:
  assumes "parseCSV env buffer = Inr rows" and "report_range t = Inr dates"
    and "select_payments env (Some dates) (fst w) = Inr records"
    and "p \<in> set (rr_db_orphans (reconcile_rows rows records))" and "255 < length (stringify (payment_json p))"
    and "over 50 (Some provider) = False" and "over 255 file = False"
    and "run_proc (runReconciliation env provider (Some t) buffer file) [] w = (x, w', js)"
  shows "(\<exists>e. x = Inl e) \<and> length (rs_reports (fst w')) = Suc (length (rs_reports (fst w)))
    \<and> rp_status (last (rs_reports (fst w'))) = Report_failed"
proof -
  let ?n = "length (rs_reports (fst w))"
  let ?row = "\<lparr>rp_provider = provider, rp_date = t, rp_file = file, rp_status = Report_pending, rp_summary = No_summary\<rparr>"
  let ?w1 = "((fst w)\<lparr>rs_reports := rs_reports (fst w) @ [?row]\<rparr>, fst w # snd w)"
  have created: "run_proc (createReport provider t file Report_pending) [] w = (Inr ?n, ?w1, [])"
    by (simp add: createReport_def run_recon_write assms(6,7))
  have select: "select_payments env (Some dates) (fst ?w1) = Inr records"
    using assms(3) select_same_payments [of "fst ?w1" "fst w" env "Some dates"] by simp
  have refused: "\<exists>e. insert_discrepancy ?n (db_orphan_entry p) s = Inl e" for s
    using assms(5) by (auto simp: insert_discrepancy_def db_orphan_entry_def over_def)
  have stuck: "\<exists>e v. run_proc (store_entries ?n ds) [] v0 = (Inl e, v, [])" if "db_orphan_entry p \<in> set ds" for ds v0
    using that
  proof (induction ds arbitrary: v0)
    case (Cons d ds)
    show ?case
    proof (cases "insert_discrepancy ?n d (fst v0)")
      case (Inl e)
      then show ?thesis by (simp add: run_and_then createDiscrepancy_def run_recon_write)
    next
      case (Inr r)
      then have "d \<noteq> db_orphan_entry p" using refused [of "fst v0"] by auto
      with Cons.prems have "db_orphan_entry p \<in> set ds" by auto
      with Cons.IH Inr show ?thesis by (cases r) (simp add: run_and_then createDiscrepancy_def run_recon_write)
    qed
  qed simp
  have "db_orphan_entry p \<in> set (report_entries (reconcile_rows rows records))" using assms(4) by (simp add: report_entries_def)
  from stuck [OF this, of ?w1] obtain e v where stored: "run_proc (store_entries ?n (report_entries (reconcile_rows rows records))) [] ?w1 = (Inl e, v, [])"
    by blast
  then have v: "length (rs_reports (fst v)) = Suc ?n" using run_store_entries [OF stored] by simp
  have body: "run_proc (report_body env t buffer ?n) [] ?w1 = (Inl e, v, [])"
    using stored select by (simp add: report_body_def assms(1,2) run_and_then run_reconcile)
  obtain u w3 js3 where up: "run_proc (updateReport ?n (Some Report_failed) (Some (Error_summary e)) None) [] v = (u, w3, js3)"
    by (cases "run_proc (updateReport ?n (Some Report_failed) (Some (Error_summary e)) None) [] v")
  then have w3: "u = Inr ()" "rs_reports (fst w3) = (rs_reports (fst v))[?n := (rs_reports (fst v) ! ?n)\<lparr>rp_status := Report_failed, rp_summary := Error_summary e\<rparr>]"
    using v by (auto simp: updateReport_def run_recon_write with_file_def with_summary_def with_status_def)
  have "run_proc (runReconciliation env provider (Some t) buffer file) [] w = (Inl e, w3, js3)"
    by (simp add: runReconciliation_def run_and_then created run_catch body up w3(1) run_throw)
  with assms(8) have "x = Inl e" "w' = w3" by simp_all
  moreover have "last (rs_reports (fst w3)) = (rs_reports (fst v) ! ?n)\<lparr>rp_status := Report_failed, rp_summary := Error_summary e\<rparr>"
    unfolding w3(2) using v by (rule last_update)
  ultimately show ?thesis using v w3(2) by simp
qed

text \<open>A payment whose telephone number is a text of 88 characters, as encryption makes it.\<close>

definition encrypted_payment :: payment_row where
  "encrypted_payment = (sample_payment ''123e4567-e89b-12d3-a456-426614174000'' ''TX-20240229-00001'' 1500000000 1709208000000001)
     \<lparr>pt_phone := replicate 88 (CHR ''A'')\<rparr>"

theorem long_payment_fails_report_witness:
  "\<exists>w'. fst (snd (run_proc (runReconciliation (sample_env []) ''MTN'' (Some 1709208000000) [] None) []
        ((sample_store [encrypted_payment\<lparr>pt_created := 0\<rparr>]), []))) = w'
     \<and> map rp_status (rs_reports (fst w')) = [Report_failed]"
proof -
  let ?w = "(sample_store [encrypted_payment\<lparr>pt_created := 0\<rparr>], [] :: recon_store list)"
  let ?p = "answer_row (sample_env []) (encrypted_payment\<lparr>pt_created := 0\<rparr>)"
  obtain x w' js where run: "run_proc (runReconciliation (sample_env []) ''MTN'' (Some 1709208000000) [] None) [] ?w = (x, w', js)"
    by (cases "run_proc (runReconciliation (sample_env []) ''MTN'' (Some 1709208000000) [] None) [] ?w")
  have parse: "parseCSV (sample_env []) [] = Inr []" by code_simp
  obtain dates where dates: "report_range 1709208000000 = Inr dates" by (simp add: report_range_def time_clip_def max_time_def)
  have select: "select_payments (sample_env []) (Some dates) (fst ?w) = Inr [?p]"
    by (simp add: select_payments_def bound_of_def sample_env_def sample_store_def)
  have orphan: "?p \<in> set (rr_db_orphans (reconcile_rows [] [?p]))"
    by (simp add: reconcile_rows_simps loop_simps providerByReference_def db_orphan_keys)
  have long: "255 < length (stringify (payment_json ?p))" by code_simp
  have "length (rs_reports (fst w')) = 1 \<and> rp_status (last (rs_reports (fst w'))) = Report_failed"
    using long_payment_fails_report [OF parse dates select orphan long _ _ run] by (simp add: over_def sample_store_def)
  then have "map rp_status (rs_reports (fst w')) = [Report_failed]" by (cases "rs_reports (fst w')") auto
  with run show ?thesis by simp
qed

lemma header_ok: "contains ''reference_number'' ''reference_number,amount,status,date,provider,currency''"
  by code_simp

text \<open>The daily job reconciles three payments that the program makes up, and never the operator Orange.\<close>

lemma invented_report:
  assumes "trim (toLowerCase provider) \<in> {''mtn'', ''airtel'', ''orange''}"
  shows "\<exists>cache. fetchProviderReport now provider (Some t) None [] =
    Inr (Some (queryProviderReportApi (trim (toLowerCase provider)) t t), cache)"
proof -
  have "hd (split (CHR ''\<newline>'') (queryProviderReportApi p t t)) = ''reference_number,amount,status,date,provider,currency''" for p
    by (simp add: queryProviderReportApi_def Let_def hd_split_on)
  then have "fetch_attempts 3 now key (queryProviderReportApi p t t) [] =
      (Some (queryProviderReportApi p t t), map_set key \<lparr>cr_buffer = queryProviderReportApi p t t, cr_expires = now + 3600000\<rparr> [])" for key p
    by (simp add: numeral_3_eq_3 header_ok Let_def del: contains.simps)
  then show ?thesis using assms by (auto simp: fetchProviderReport_def Let_def)
qed

end
