(* ===== verification/Spec2Isabelle.thy ===== *)
theory Spec2Isabelle
  imports Dispute_Machine Status_Workflow Webhook_Breaker Session_Queue Callback_Idempotency Fee_Strategy Ledger Timeout_Recovery Transaction_Limits Asset_Workflow Vip_Fees Lockout Pii_Encryption Token_Rotation Balance_Reserve Redis_Clients Split_Payments Idempotency Horizon_Pool Sliding_Window Multisig Provider_Throttle Dispute_Runs Page_Runs Fee_Bump_Runs Aml Provider_Reconciliation Report_Reconciliation
begin

text \<open>
  Proxypay: a payment service between mobile money operators and the Stellar network.

  \<^bold>\<open>The program.\<close> The service (TypeScript, under \<open>src/src/\<close>) receives HTTP requests of users and merchants and
  callbacks of the operators. A request passes the middleware (rate limits, authentication and lockout,
  idempotency keys), is checked against limits and charged a fee, is carried out through an operator (session
  queue, throttle, timeout recovery) and on Stellar (a pool of Horizon servers), and is posted to a double-entry
  ledger; a payment may be split among recipients, and a dispute follows its own state machine. State is kept in
  PostgreSQL, in Redis and in the memory of the process.

  \<^bold>\<open>Conventions.\<close> A function of the source is a definition with its name; a class or a table is a record of its
  state that the operations take and return; an error is a value of a sum type with one constructor per
  message. Asynchronous code is cut at its awaits: where the interleaving matters (session queue, balance cache,
  idempotency keys, lockout) a run is a sequence of steps of several calls. What is not in the repository is a
  parameter: Redis and its sorted sets, the digest and cipher functions, the token library, the remote servers,
  the operators; what the code relies on is a named set of laws (\<open>redis_laws\<close>, \<open>zset_laws\<close>, the laws of
  \<open>crypto_lib\<close> and \<open>jwt_lib\<close>), and a concrete instance with these laws is given beside them and used in the
  witnesses. Metrics and log lines are left out everywhere. A string is a list of characters below U+0100, so
  decoding a text (\<open>of_utf8\<close>) covers the sequences of one and two bytes; other characters are outside the model.

  \<^bold>\<open>Foundations.\<close>
  \<^item> \<open>Prelude\<close>: JavaScript maps in insertion order, and the locales that the components share: \<open>ordered_map\<close>,
    \<open>invariant_machine\<close> (invariants of reachable states), \<open>transition_table\<close>, \<open>keyed_component\<close> (a component whose
    keys do not influence each other).
  \<^item> \<open>Js_Number\<close>: the numbers of JavaScript as IEEE binary64 with rounding written out, and error bounds of
    sums; \<open>Js_Decimal\<close>: the shortest decimal text of a number and the DECIMAL type of the database. The search for
    the shortest text runs over 651 exponents, more than the decimal exponents of all doubles. \<open>Js_Value\<close>, \<open>Js_Json\<close>,
    \<open>Js_Bytes\<close>: strings, dates, JSON values, hexadecimal and UTF-8 with their round trips (locale \<open>codec\<close>).
  \<^item> \<open>Redis_Program\<close>: programs of Redis commands that run in one go or interleaved, and the laws of a server.
  \<^item> \<open>Db_Process\<close>: asynchronous functions as processes whose calls to the database may fail before or after their
    effect or read a replica that is behind; pools of processes under any schedule, what every step keeps
    (\<open>keeps\<close>), and the locale \<open>shared_world\<close> that lifts it to pools. A component with a state of its own that
    calls another embeds its processes (\<open>lift_proc\<close>) and adds steps that cannot fail (\<open>local_step\<close>).
  \<^item> \<open>Js_Codec\<close>: \<open>JSON.parse\<close> by recursive descent (fuel: twice the length of the text and two more, which is shown
    to be enough), the inverse of \<open>JSON.stringify\<close> on well-formed values; base64 in both alphabets and its round
    trip; the text of a date.
  \<^item> \<open>Window_Limit\<close>: the contract of a sliding-window limiter (locale \<open>window_guard\<close>) and the bound that follows.

  \<^bold>\<open>Components.\<close>
  \<^item> \<open>Ledger\<close> (\<open>services/ledgerService.ts\<close> and the posting function of the migrations): the books balance after any
    sequence of operations, deposits and withdrawals post the exact units for amounts below \<open>2 ^ 26\<close> although the code
    computes with doubles, a reversal cancels a transaction once.
  \<^item> \<open>Payment_Store\<close> (\<open>models/transaction.ts\<close>, \<open>queryRead\<close> and \<open>queryWrite\<close> of \<open>config/database.ts\<close>), \<open>Reversal\<close>
    (\<open>services/transactionReversalService.ts\<close>) and \<open>Dispute_Service\<close> (\<open>services/dispute.ts\<close>, \<open>models/dispute.ts\<close>): the
    shared tables with all their versions and the operations on them as processes, on top of \<open>Ledger\<close>,
    \<open>Status_Workflow\<close>, \<open>Dispute_Machine\<close> and \<open>Pii_Encryption\<close>. \<open>Payment_Pool\<close>: any number of these calls at once; the
    tables stay well formed and a payment is reversed at most once. \<open>Payment_Runs\<close> and \<open>Dispute_Runs\<close>: calls that run
    alone or two at a time. Two names that the code uses and nothing declares are fields of the environment, and
    the properties are about the code as it is, in which both are undefined: a reversal is carried out and reported
    as failed, an interrupted one is marked by the next call, a dispute is reversed in two failing calls, a payment is
    reversed and then upheld, and a reason with colons locks a dispute. Lemmas say what the same code would do with
    the names defined. A transaction whose encrypted fields cannot be decrypted is a row with that error.
  \<^item> \<open>Idempotency\<close> (\<open>middleware/idempotency.ts\<close>, \<open>jobs/idempotencyCleanupJob.ts\<close>): one step per SQL statement over any
    number of requests; a key is executed at most once within its time to live and a replay is the original
    answer, except through a gap between two statements, which is exhibited; the clean-up loop ends (fuel: one
    round more than there are expired rows) for every positive batch size.
  \<^item> \<open>Webhook_Breaker\<close> (\<open>services/webhookCircuitBreaker.ts\<close>): one probe at a time, refusal until the recovery time,
    opening exactly at the threshold, independence of the destinations, well-formed records.
  \<^item> \<open>Session_Queue\<close> (\<open>services/mobilemoney/sessionRequestQueue.ts\<close>): the promise chain of a session; mutual
    exclusion, order, the fate of every request, and that the queue drains.
  \<^item> \<open>Provider_Throttle\<close> (\<open>services/mobilemoney/providerThrottle.ts\<close>): token bucket, queue limit, dead letters and
    their replay. The handler of a failed attempt looks at the number of attempts and does not wait for the
    dead-letter queue; the letters after a call are exactly known for every outcome, failed replays duplicate letters,
    and an oversized batch waits for ever (shown for every fuel).
  \<^item> \<open>Horizon_Pool\<close> (\<open>stellar/horizonPool.ts\<close>): rotation, failover and cooldown; one working node suffices.
  \<^item> \<open>Split_Payments\<close> (\<open>services/splitPaymentService.ts\<close>, \<open>models/splitPayment.ts\<close>): conservation of the amount within
    1/100000 for up to sixteen recipients and payments up to \<open>2 ^ 26\<close> (the bounds keep the accumulated rounding of the
    sums below the claim), what creation and processing leave in the tables, also when they fail half way.
  \<^item> \<open>Fee_Strategy\<close> (\<open>services/feeStrategyEngine.ts\<close>) and \<open>Vip_Fees\<close> (\<open>utils/fees.ts\<close>, the calculation of
    \<open>services/feeService.ts\<close>): selection of the strategy behind its cache in Redis (which may hold rows that
    were read before a change), cap of the fee, tiers of merchants.
  \<^item> \<open>Transaction_Limits\<close> (\<open>services/transactionLimit\<close>, \<open>config/limits.ts\<close>, \<open>config/providers.ts\<close>): the daily limit and
    the validation of amounts.
  \<^item> \<open>Callback_Idempotency\<close> (\<open>middleware/callbackIdempotency.ts\<close>): callbacks of the operators are processed once while
    the store has room.
  \<^item> \<open>Timeout_Recovery\<close> (\<open>services/timeoutRecovery.ts\<close>): every timed-out transaction has one outcome, retries are
    bounded.
  \<^item> \<open>Status_Workflow\<close> (\<open>services/transactionStatusWorkflowService.ts\<close>) and \<open>Dispute_Machine\<close>
    (\<open>services/disputeStateMachine.ts\<close>): the transition tables, histories and deadlines.
  \<^item> \<open>Lockout\<close> (\<open>auth/lockout.ts\<close>): the code refines an abstract account that is fresh, counting or locked, on any
    server with the laws (a \<open>TTL\<close> is trusted to within a second).
  \<^item> \<open>Redis_Clients\<close> (\<open>services/twoFactorRateLimiter.ts\<close>, \<open>services/notificationDeduplicator.ts\<close>): the lock window of the
    second factor; both stores of the deduplicator decide alike.
  \<^item> \<open>Token_Rotation\<close> (\<open>auth/jwt.ts\<close>, \<open>models/refreshTokenFamily.ts\<close>, the refresh handler of \<open>routes/auth.ts\<close>): grace
    period of a rotated key, families of refresh tokens.
  \<^item> \<open>Pii_Encryption\<close> (\<open>utils/encryption.ts\<close>): fields survive the rotation of keys.
  \<^item> \<open>Balance_Cache\<close>, \<open>Balance_Reserve\<close> (\<open>services/providerBalanceCache.ts\<close>, \<open>services/providerBalanceReserve.ts\<close>,
    \<open>config/balanceReserve.ts\<close>): stale balances are flagged, waiting callers are answered, reserve reports.
  \<^item> \<open>Asset_Workflow\<close> (\<open>services/assetWorkflowValidation.ts\<close>) and \<open>Sliding_Window\<close>
    (\<open>middleware/slidingWindowRateLimit.ts\<close>, \<open>config/rateLimitConfig.ts\<close>): both limiters interpret \<open>window_guard\<close>; the rules for
    asset requests.
  \<^item> \<open>Pagination\<close> (\<open>utils/pagination.ts\<close>, \<open>middleware/pagination.ts\<close>): opaque cursors and their round trip, query
    parameters, the boundary predicate, the response of a page, and client loops that end. Its locales
    \<open>keyset_pages\<close> and \<open>boundary_pages\<close> are the contract of a list that is read page by page. \<open>Cursor_Pages\<close>
    (\<open>models/contact.ts\<close>, \<open>models/invoice.ts\<close>, \<open>models/dispute.ts\<close>, \<open>models/transaction.ts\<close>,
    \<open>utils/transactionCursor.ts\<close>, \<open>models/amlAlert.ts\<close>) has the statements and pages of the lists; \<open>Page_Runs\<close> reads
    them: contacts and notes meet the contract for times in whole milliseconds and lose rows otherwise, the
    history before a cursor skips a row, the invoices stop after the first page.
  \<^item> \<open>Multisig\<close> (\<open>services/multisigValidator.ts\<close>): a valid configuration can sign at every level.
  \<^item> \<open>Fee_Bump\<close> (\<open>services/feeBumpRecoveryService.ts\<close>, \<open>jobs/sep31FeeBumpJob.ts\<close>): the attempts to replace a stuck Stellar
    transaction, their retries, dead letters and statistics, and the job that starts them, as processes over the
    tables of \<open>Payment_Store\<close>. The answers of Horizon, the drawn identifiers and two functions of the Stellar library
    are parameters; \<open>build_envelope\<close> calls the second as the code does, with the passphrase where the inner transaction
    belongs. The attempts are a list, since no migration declares their table. \<open>Fee_Bump_Runs\<close> lets calls, timers and
    jobs run together: the rows stay consistent (locale \<open>fee_invariant\<close>), retries are never exhausted, the job records
    no accepted bump, and with a library that refuses the call it never sends one.
  \<^item> \<open>Name_Similarity\<close> and \<open>Sanctions\<close> (\<open>services/sanctionService.ts\<close>, \<open>jobs/sanctionSyncJob.ts\<close>, the screening in
    \<open>services/stellar/stellarService.ts\<close>): the distances of names (the matrix of \<open>levenshtein\<close> against alignments, the
    loops of \<open>jaroWinkler\<close>, the score in binary64), the list, its synchronisation and what the screening refuses; the
    fetched entries and the resolution of addresses are parameters. As the schema stands the list is never filled.
  \<^item> \<open>Aml\<close> (\<open>services/aml.ts\<close>, \<open>models/amlAlert.ts\<close>): rules over recent transactions, alerts whose arrays are shared
    with the result (addresses in a store), their persistence and the lists in memory; the rules are exact for whole
    amounts, and what is stored, returned and listed differs in the ways that are shown.
  \<^item> \<open>Recon_Store\<close>, \<open>Csv_Reconciliation\<close> (\<open>services/csvReconciliation.ts\<close>), \<open>Provider_Reconciliation\<close>
    (\<open>services/providerReconciliationService.ts\<close>, \<open>jobs/providerReconciliationJob.ts\<close>) and \<open>Report_Reconciliation\<close>
    (\<open>services/providerReconService.ts\<close>, \<open>models/reconciliation.ts\<close>, \<open>jobs/reconciliationJob.ts\<close>): the tables with their
    bounded columns, the validation, comparison, preview and rollback of a file, the daily runs with corrections and
    alerts, and the stored reports, as processes with lost calls and stale reads. Parameters are the CSV parser, the
    database's reading of dates, the answers of HTTP requests, and whether the schema takes the statements of the
    rollback and of the correction; a match rate is a number, not its text. A valid file is accounted for row by row,
    a report that is marked as completed is complete, and the daily run compares nothing.

  \<^bold>\<open>Not modelled.\<close> Routes and controllers (they parse, delegate and format), the GraphQL and OpenAPI layers, the
  HTTP clients of the operators and the Stellar SDK calls, job and queue workers over BullMQ, NATS and RabbitMQ,
  notification delivery, accounting integrations, dashboards, hardware and zero-knowledge cryptography, SQL
  migrations except where a component relies on them, and the parts in other languages (contracts, SDK, command
  line, deployment). Of the fee engine the CRUD statements, of the authentication the session registry, of the reserve
  monitor the alert delivery, of the sanction service the download and parsing of the XML feeds, and of the
  compliance reports the documents are left out. Next in the plan: fraud rules, webhook retry policies, the layered
  cache, the reconciliation of the ledger and the outbox of mails.
\<close>

end
